(* ===== verification/Strata_Prelude.thy ===== *)
theory Strata_Prelude
  imports Main "HOL-Library.Word" "HOL-Library.Sublist"
begin

text \<open>
  The prelude of the development: the machine-integer types of the Rust sources, the
  \<open>Result\<close> combinators, the collections of simplification facts the component theories
  extend, and the generic list, map and word lemmas they share.

  Conventions used throughout.
  \<^item> A Rust \<open>u8\<close>, \<open>u32\<close>, \<open>u64\<close> is an 8, 32 or 64 bit word, read with \<open>unat\<close>; a Rust
    \<open>i32\<close> or \<open>i64\<close> is a word of the same width, read with \<open>sint\<close>. Arithmetic on them wraps,
    as it does in the release profile of the workspace (no overflow checks).
  \<^item> A \<open>usize\<close> that only counts bytes of a buffer held in memory is a \<open>nat\<close>.
  \<^item> A Rust \<open>String\<close> or \<open>&str\<close> is a HOL \<open>string\<close>, whose characters are the bytes of its
    UTF-8 encoding; a byte slice, \<open>Bytes\<close> or \<open>BytesMut\<close> is a list of bytes.
  \<^item> \<open>Result<T, E>\<close> is the sum \<open>'e + 't\<close> with the error on the left; the question-mark operator
    is \<open>and_then\<close> (or \<open>map_err\<close> followed by it).
\<close>

section \<open>Types\<close>

type_synonym u8 = "8 word"
type_synonym u32 = "32 word"
type_synonym u64 = "64 word"
type_synonym i32 = "32 word"
type_synonym i64 = "64 word"
type_synonym bytes = "8 word list"
type_synonym str = string

section \<open>Collections of facts\<close>

named_theorems result_simps \<open>reading results of \<open>Result\<close> valued operations\<close>
named_theorems codec_simps \<open>lengths and inverses of byte encodings\<close>
named_theorems bound_simps \<open>size limits as numerals\<close>
named_theorems actor_simps \<open>unfoldings of the session actor's steps\<close>

section \<open>Results\<close>

definition and_then :: "'e + 'a \<Rightarrow> ('a \<Rightarrow> 'e + 'b) \<Rightarrow> 'e + 'b" where
  "and_then r f = (case r of Inl e \<Rightarrow> Inl e | Inr x \<Rightarrow> f x)"

definition map_err :: "('e \<Rightarrow> 'f) \<Rightarrow> 'e + 'a \<Rightarrow> 'f + 'a" where
  "map_err g r = (case r of Inl e \<Rightarrow> Inl (g e) | Inr x \<Rightarrow> Inr x)"

definition ok_or :: "'a option \<Rightarrow> 'e \<Rightarrow> 'e + 'a" where
  "ok_or m e = (case m of None \<Rightarrow> Inl e | Some x \<Rightarrow> Inr x)"

definition is_ok :: "'e + 'a \<Rightarrow> bool" where
  "is_ok r = (case r of Inl _ \<Rightarrow> False | Inr _ \<Rightarrow> True)"

lemma and_then_Inl [simp]: "and_then (Inl e) f = Inl e"
  by (simp add: and_then_def)

lemma and_then_Inr [simp]: "and_then (Inr x) f = f x"
  by (simp add: and_then_def)

lemma and_then_eq_Inr [result_simps]:
  "and_then r f = Inr y \<longleftrightarrow> (\<exists>x. r = Inr x \<and> f x = Inr y)"
  by (cases r) auto

lemma and_then_eq_Inl [result_simps]:
  "and_then r f = Inl e \<longleftrightarrow> r = Inl e \<or> (\<exists>x. r = Inr x \<and> f x = Inl e)"
  by (cases r) auto

lemma map_err_simps [simp]:
  "map_err g (Inl e) = Inl (g e)" "map_err g (Inr x) = Inr x"
  by (simp_all add: map_err_def)

lemma map_err_eq_Inr [result_simps]: "map_err g r = Inr x \<longleftrightarrow> r = Inr x"
  by (cases r) auto

lemma ok_or_simps [simp]: "ok_or None e = Inl e" "ok_or (Some x) e = Inr x"
  by (simp_all add: ok_or_def)

lemma ok_or_eq_Inr [result_simps]: "ok_or m e = Inr x \<longleftrightarrow> m = Some x"
  by (cases m) auto

lemma ok_or_eq_Inl [result_simps]: "ok_or m e = Inl e' \<longleftrightarrow> m = None \<and> e' = e"
  by (cases m) auto

text \<open>The same with a state threaded through.\<close>

definition and_do :: "('e + 'a) \<times> 's \<Rightarrow> ('a \<Rightarrow> 's \<Rightarrow> ('e + 'b) \<times> 's) \<Rightarrow> ('e + 'b) \<times> 's" where
  "and_do p f = (case p of (Inl e, s) \<Rightarrow> (Inl e, s) | (Inr x, s) \<Rightarrow> f x s)"

lemma and_do_simps [simp]: "and_do (Inl e, s) f = (Inl e, s)" "and_do (Inr x, s) f = f x s"
  by (simp_all add: and_do_def)

lemma snd_and_do: "snd (and_do p f) = (case fst p of Inl e \<Rightarrow> snd p | Inr x \<Rightarrow> snd (f x (snd p)))"
  by (cases p; cases "fst p") simp_all

lemma and_do_eq:
  "and_do p f = (r, s') \<longleftrightarrow>
    (\<exists>e. fst p = Inl e \<and> r = Inl e \<and> s' = snd p) \<or> (\<exists>x. fst p = Inr x \<and> f x (snd p) = (r, s'))"
  by (cases p; cases "fst p") auto

lemma is_ok_simps [simp]: "\<not> is_ok (Inl e)" "is_ok (Inr x)"
  by (simp_all add: is_ok_def)

lemma is_ok_iff: "is_ok r \<longleftrightarrow> (\<exists>x. r = Inr x)"
  by (cases r) auto

section \<open>Lists\<close>

text \<open>\<open>slice::chunks\<close>: consecutive pieces of \<open>n\<close> elements, the last one possibly shorter.\<close>

function chunks :: "nat \<Rightarrow> 'a list \<Rightarrow> 'a list list" where
  "chunks n xs = (if n = 0 \<or> xs = [] then [] else take n xs # chunks n (drop n xs))"
  by pat_completeness auto
termination
  by (relation "measure (\<lambda>(n, xs). length xs)") auto

declare chunks.simps [simp del]

lemma chunks_Nil [simp]: "chunks n [] = []"
  by (subst chunks.simps) simp

lemma chunks_unfold: "0 < n \<Longrightarrow> xs \<noteq> [] \<Longrightarrow> chunks n xs = take n xs # chunks n (drop n xs)"
  by (subst chunks.simps) simp

lemma concat_chunks [simp]: "0 < n \<Longrightarrow> concat (chunks n xs) = xs"
proof (induction n xs rule: chunks.induct)
  case (1 n xs)
  then show ?case
    by (cases "xs = []") (simp_all add: chunks_unfold)
qed

lemma chunks_bounds: "c \<in> set (chunks n xs) \<Longrightarrow> c \<noteq> [] \<and> length c \<le> n"
proof (induction n xs rule: chunks.induct)
  case (1 n xs)
  show ?case
  proof (cases "n = 0 \<or> xs = []")
    case True
    with "1.prems" show ?thesis by (subst (asm) chunks.simps) simp
  next
    case False
    with "1.prems" have "c = take n xs \<or> c \<in> set (chunks n (drop n xs))"
      by (subst (asm) chunks.simps) auto
    with False "1.IH" show ?thesis by auto
  qed
qed

lemma sum_list_filter_le:
  "sum_list (map f (filter P xs)) \<le> sum_list (map f xs)" for f :: "'a \<Rightarrow> nat"
  by (induction xs) auto

lemma append_eq_same_lengthD: "xs @ ys = us @ vs \<Longrightarrow> length xs = length us \<Longrightarrow> xs = us \<and> ys = vs"
  by simp

lemma strict_prefix_take:
  assumes "prefix p xs" "length p < length xs"
  obtains n where "n < length xs" "p = take n xs"
  using assms by (metis prefix_def append_eq_conv_conj)

section \<open>Words\<close>

lemma unat_lt_256 [simp]: "unat (b :: u8) < 256"
  using unsigned_less [of b, where 'a = nat] by simp

lemma unat_le_255 [simp]: "unat (b :: u8) \<le> 255"
  using unat_lt_256 [of b] by linarith

lemma unat_lt_u32 [simp]: "unat (w :: u32) < 4294967296"
  using unsigned_less [of w, where 'a = nat] by simp

lemma unat_lt_u64 [simp]: "unat (w :: u64) < 18446744073709551616"
  using unsigned_less [of w, where 'a = nat] by simp

lemma of_nat_u8_unat: "n < 256 \<Longrightarrow> unat (of_nat n :: u8) = n"
  by (simp add: unat_of_nat)

end
