(* ===== verification/Rust_Std.thy ===== *)
theory Rust_Std
  imports Strata_Prelude
begin

text \<open>
  What the sources use of the Rust standard library: UTF-8 validation and character counts of
  \<open>str\<close>, decimal rendering and parsing of integers (\<open>to_string\<close>, \<open>str::parse\<close>), big-endian
  byte encodings (\<open>to_be_bytes\<close>, \<open>from_be_bytes\<close>) and the wrapping subtraction and absolute
  value of \<open>i64\<close>.
\<close>

unbundle bit_operations_syntax

section \<open>Strings and bytes\<close>

definition as_bytes :: "str \<Rightarrow> bytes" where
  "as_bytes s = map of_char s"

definition str_of_bytes :: "bytes \<Rightarrow> str" where
  "str_of_bytes bs = map (\<lambda>b. char_of (unat b)) bs"

lemma unat_of_char [simp]: "unat (of_char c :: u8) = of_char c"
proof -
  have "(of_char c :: u8) = of_nat (of_char c)" by (simp add: of_nat_of_char)
  then have "unat (of_char c :: u8) = of_char c mod 256" by (simp only: unat_of_nat) simp
  then show ?thesis by simp
qed

lemma char_of_unat_of_char [simp]: "char_of (unat (of_char c :: u8)) = c"
  by simp

lemma of_char_char_of_unat [simp]: "(of_char (char_of (unat b)) :: u8) = b"
proof -
  have "unat (of_char (char_of (unat b)) :: u8) = unat b" by simp
  then show ?thesis by (simp only: word_unat_eq_iff)
qed

lemma str_of_as_bytes [simp]: "str_of_bytes (as_bytes s) = s"
  by (simp add: str_of_bytes_def as_bytes_def comp_def map_idI)

lemma as_bytes_str_of [simp]: "as_bytes (str_of_bytes bs) = bs"
  by (simp add: str_of_bytes_def as_bytes_def comp_def map_idI)

lemma length_as_bytes [simp]: "length (as_bytes s) = length s"
  by (simp add: as_bytes_def)

lemma as_bytes_append [simp]: "as_bytes (s @ t) = as_bytes s @ as_bytes t"
  by (simp add: as_bytes_def)

lemma as_bytes_inj [simp]: "as_bytes s = as_bytes t \<longleftrightarrow> s = t"
  using str_of_as_bytes by metis

subsection \<open>UTF-8\<close>

definition is_cont :: "u8 \<Rightarrow> bool" where
  "is_cont b \<longleftrightarrow> 0x80 \<le> unat b \<and> unat b \<le> 0xBF"

text \<open>
  \<open>std::str::from_utf8\<close> accepts exactly the well-formed sequences of the Unicode standard:
  no overlong encodings, no surrogates, nothing above U+10FFFF.
\<close>

definition utf8_step :: "bytes \<Rightarrow> nat option" where
  "utf8_step bs =
    (case bs of
       [] \<Rightarrow> None
     | a # r \<Rightarrow>
         (if unat a \<le> 0x7F then Some 1
          else if 0xC2 \<le> unat a \<and> unat a \<le> 0xDF then
            (case r of b # _ \<Rightarrow> if is_cont b then Some 2 else None | _ \<Rightarrow> None)
          else if 0xE0 \<le> unat a \<and> unat a \<le> 0xEF then
            (case r of b # c # _ \<Rightarrow>
                if is_cont b \<and> is_cont c
                   \<and> (unat a = 0xE0 \<longrightarrow> 0xA0 \<le> unat b) \<and> (unat a = 0xED \<longrightarrow> unat b \<le> 0x9F)
                then Some 3 else None
             | _ \<Rightarrow> None)
          else if 0xF0 \<le> unat a \<and> unat a \<le> 0xF4 then
            (case r of b # c # d # _ \<Rightarrow>
                if is_cont b \<and> is_cont c \<and> is_cont d
                   \<and> (unat a = 0xF0 \<longrightarrow> 0x90 \<le> unat b) \<and> (unat a = 0xF4 \<longrightarrow> unat b \<le> 0x8F)
                then Some 4 else None
             | _ \<Rightarrow> None)
          else None))"

lemma utf8_step_bounds: "utf8_step bs = Some w \<Longrightarrow> 1 \<le> w \<and> w \<le> length bs"
  by (auto simp: utf8_step_def split: list.splits if_splits)

lemma utf8_step_conts:
  "utf8_step bs = Some w \<Longrightarrow> \<not> is_cont (hd bs) \<and> list_all is_cont (take (w - 1) (tl bs))"
  by (auto simp: utf8_step_def is_cont_def split: list.splits if_splits)

lemma list_cases4:
  obtains "xs = []" | a where "xs = [a]" | a b where "xs = [a, b]" | a b c where "xs = [a, b, c]"
  | a b c d r where "xs = a # b # c # d # r"
  by (metis neq_Nil_conv)

lemma utf8_step_append: "utf8_step xs = Some w \<Longrightarrow> utf8_step (xs @ ys) = Some w"
  by (cases xs rule: list_cases4) (auto simp: utf8_step_def split: if_splits)

function utf8_valid :: "bytes \<Rightarrow> bool" where
  "utf8_valid bs =
    (if bs = [] then True
     else (case utf8_step bs of None \<Rightarrow> False | Some w \<Rightarrow> utf8_valid (drop w bs)))"
  by pat_completeness auto
termination
  by (relation "measure length") (auto dest!: utf8_step_bounds)

declare utf8_valid.simps [simp del]

lemma utf8_valid_Nil [simp]: "utf8_valid []"
  by (simp add: utf8_valid.simps)

lemma utf8_valid_step: "utf8_step bs = Some w \<Longrightarrow> utf8_valid bs \<longleftrightarrow> utf8_valid (drop w bs)"
  using utf8_step_bounds [of bs w] by (subst utf8_valid.simps) auto

text \<open>Induction over the characters of a well-formed byte string.\<close>

lemma utf8_valid_induct [consumes 1, case_names Nil Char]:
  assumes "utf8_valid bs"
    and "P []"
    and "\<And>bs w. utf8_step bs = Some w \<Longrightarrow> utf8_valid (drop w bs) \<Longrightarrow> P (drop w bs) \<Longrightarrow> P bs"
  shows "P bs"
  using assms(1)
proof (induction bs rule: utf8_valid.induct)
  case (1 bs)
  show ?case
  proof (cases "bs = []")
    case True
    with assms(2) show ?thesis by simp
  next
    case False
    with "1.prems" obtain w where w: "utf8_step bs = Some w" and v: "utf8_valid (drop w bs)"
      by (subst (asm) utf8_valid.simps) (auto split: option.splits)
    from False w v have "P (drop w bs)" by (rule "1.IH")
    with w v show ?thesis by (rule assms(3))
  qed
qed

lemma utf8_valid_append: "utf8_valid xs \<Longrightarrow> utf8_valid (xs @ ys) \<longleftrightarrow> utf8_valid ys"
proof (induction xs rule: utf8_valid_induct)
  case Nil
  show ?case by simp
next
  case (Char xs w)
  then have "utf8_valid (xs @ ys) \<longleftrightarrow> utf8_valid (drop w (xs @ ys))"
    by (intro utf8_valid_step utf8_step_append)
  also have "drop w (xs @ ys) = drop w xs @ ys"
    using utf8_step_bounds [OF Char(1)] by simp
  finally show ?case using Char.IH by simp
qed

lemma utf8_valid_ascii [simp]: "unat a \<le> 127 \<Longrightarrow> utf8_valid (a # bs) \<longleftrightarrow> utf8_valid bs"
  using utf8_valid_step [of "a # bs" 1] by (simp add: utf8_step_def)

definition from_utf8 :: "bytes \<Rightarrow> str option" where
  "from_utf8 bs = (if utf8_valid bs then Some (str_of_bytes bs) else None)"

text \<open>The invariant of a Rust \<open>str\<close>.\<close>

definition is_str :: "str \<Rightarrow> bool" where
  "is_str s \<longleftrightarrow> utf8_valid (as_bytes s)"

text \<open>\<open>str::chars().count()\<close> counts the bytes that are not continuation bytes.\<close>

definition chars_count :: "str \<Rightarrow> nat" where
  "chars_count s = length (filter (\<lambda>b. \<not> is_cont b) (as_bytes s))"

lemma from_utf8_as_bytes [simp]: "is_str s \<Longrightarrow> from_utf8 (as_bytes s) = Some s"
  by (simp add: from_utf8_def is_str_def)

lemma from_utf8_Some: "from_utf8 bs = Some s \<longleftrightarrow> is_str s \<and> bs = as_bytes s"
  by (auto simp: from_utf8_def is_str_def split: if_splits)

lemma chars_count_le: "chars_count s \<le> length s"
  unfolding chars_count_def using length_filter_le [of _ "as_bytes s"] by simp

text \<open>Plain ASCII text is a \<open>str\<close> with one character per byte.\<close>

definition is_ascii :: "str \<Rightarrow> bool" where
  "is_ascii s \<longleftrightarrow> list_all (\<lambda>c. of_char c < (128::nat)) s"

lemma is_ascii_is_str: "is_ascii s \<Longrightarrow> is_str s"
  by (induction s) (auto simp: is_ascii_def is_str_def as_bytes_def)

lemma is_ascii_chars_count: "is_ascii s \<Longrightarrow> chars_count s = length s"
  by (induction s) (auto simp: is_ascii_def chars_count_def as_bytes_def is_cont_def)

lemma is_ascii_simps [simp]:
  "is_ascii []" "is_ascii (c # s) \<longleftrightarrow> of_char c < (128::nat) \<and> is_ascii s"
  "is_ascii (s @ t) \<longleftrightarrow> is_ascii s \<and> is_ascii t"
  by (simp_all add: is_ascii_def)

section \<open>Decimal integers\<close>

definition digit_char :: "nat \<Rightarrow> char" where
  "digit_char d = char_of (48 + d)"

definition is_digit :: "char \<Rightarrow> bool" where
  "is_digit c \<longleftrightarrow> 48 \<le> (of_char c :: nat) \<and> (of_char c :: nat) \<le> 57"

definition digit_val :: "char \<Rightarrow> nat" where
  "digit_val c = of_char c - 48"

fun show_nat :: "nat \<Rightarrow> str" where
  "show_nat n = (if n < 10 then [digit_char n] else show_nat (n div 10) @ [digit_char (n mod 10)])"

declare show_nat.simps [simp del]

text \<open>\<open>to_string\<close> of a signed integer: a minus sign before the magnitude.\<close>

definition show_int :: "int \<Rightarrow> str" where
  "show_int i = (if i < 0 then CHR ''-'' # show_nat (nat (- i)) else show_nat (nat i))"

definition digits_val :: "str \<Rightarrow> nat" where
  "digits_val s = foldl (\<lambda>acc c. acc * 10 + digit_val c) 0 s"

text \<open>The digits of \<open>from_str_radix(10)\<close>: at least one, nothing else; overflow is checked later.\<close>

definition parse_digits :: "str \<Rightarrow> nat option" where
  "parse_digits s = (if s \<noteq> [] \<and> list_all is_digit s then Some (digits_val s) else None)"

text \<open>
  \<open>str::parse\<close> for an unsigned integer with values below \<open>2 ^ w\<close>: an optional plus sign, then
  digits; for a signed one, an optional plus or minus sign.
\<close>

definition parse_uint :: "nat \<Rightarrow> str \<Rightarrow> nat option" where
  "parse_uint w s =
    (case parse_digits (if s \<noteq> [] \<and> hd s = CHR ''+'' then tl s else s) of
       None \<Rightarrow> None | Some n \<Rightarrow> if n < 2 ^ w then Some n else None)"

definition parse_sint :: "nat \<Rightarrow> str \<Rightarrow> int option" where
  "parse_sint w s =
    (case (if s \<noteq> [] \<and> hd s = CHR ''-'' then map_option (\<lambda>n. - int n) (parse_digits (tl s))
           else map_option int (parse_digits (if s \<noteq> [] \<and> hd s = CHR ''+'' then tl s else s))) of
       None \<Rightarrow> None
     | Some i \<Rightarrow> if - (2 ^ (w - 1)) \<le> i \<and> i < 2 ^ (w - 1) then Some i else None)"

definition parse_u8 :: "str \<Rightarrow> u8 option" where
  "parse_u8 s = map_option of_nat (parse_uint 8 s)"

definition parse_u32 :: "str \<Rightarrow> u32 option" where
  "parse_u32 s = map_option of_nat (parse_uint 32 s)"

definition parse_i32 :: "str \<Rightarrow> i32 option" where
  "parse_i32 s = map_option of_int (parse_sint 32 s)"

definition parse_i64 :: "str \<Rightarrow> i64 option" where
  "parse_i64 s = map_option of_int (parse_sint 64 s)"

definition show_u8 :: "u8 \<Rightarrow> str" where "show_u8 w = show_nat (unat w)"
definition show_u32 :: "u32 \<Rightarrow> str" where "show_u32 w = show_nat (unat w)"
definition show_u64 :: "u64 \<Rightarrow> str" where "show_u64 w = show_nat (unat w)"
definition show_i32 :: "i32 \<Rightarrow> str" where "show_i32 w = show_int (sint w)"
definition show_i64 :: "i64 \<Rightarrow> str" where "show_i64 w = show_int (sint w)"

subsection \<open>Decimal round trips\<close>

lemma digit_char_props [simp]:
  assumes "d < 10"
  shows "is_digit (digit_char d)" "digit_val (digit_char d) = d" "of_char (digit_char d) < (128::nat)"
  using assms by (simp_all add: is_digit_def digit_char_def digit_val_def)

lemma digits_val_snoc [simp]: "digits_val (s @ [c]) = digits_val s * 10 + digit_val c"
  by (simp add: digits_val_def)

lemma digits_val_Nil [simp]: "digits_val [] = 0"
  by (simp add: digits_val_def)

lemma show_nat_nonempty [simp]: "show_nat n \<noteq> []"
  by (subst show_nat.simps) simp

lemma show_nat_digits [simp]: "list_all is_digit (show_nat n)"
proof (induction n rule: show_nat.induct)
  case (1 n)
  then show ?case by (subst show_nat.simps) simp
qed

lemma digits_val_show_nat [simp]: "digits_val (show_nat n) = n"
proof (induction n rule: show_nat.induct)
  case (1 n)
  show ?case
  proof (cases "n < 10")
    case True
    have "digits_val ([] @ [digit_char n]) = n" using True by (simp only: digits_val_snoc) simp
    with True show ?thesis by (subst show_nat.simps) simp
  next
    case False
    with 1 show ?thesis by (subst show_nat.simps) simp
  qed
qed

lemma show_nat_inj: "show_nat m = show_nat n \<Longrightarrow> m = n"
  by (metis digits_val_show_nat)

lemma show_nat_ascii [simp]: "is_ascii (show_nat n)"
proof (induction n rule: show_nat.induct)
  case (1 n)
  then show ?case by (subst show_nat.simps) simp
qed

lemma length_show_nat: "n < 10 ^ k \<Longrightarrow> 0 < k \<Longrightarrow> length (show_nat n) \<le> k"
proof (induction k arbitrary: n)
  case 0
  then show ?case by simp
next
  case (Suc k)
  show ?case
  proof (cases "n < 10")
    case True
    then show ?thesis by (subst show_nat.simps) simp
  next
    case False
    with Suc.prems have "n div 10 < 10 ^ k" "0 < k"
      by (auto simp: less_mult_imp_div_less mult.commute intro: Nat.gr0I)
    with Suc.IH have "length (show_nat (n div 10)) \<le> k" by simp
    with False show ?thesis by (subst show_nat.simps) simp
  qed
qed

lemma parse_digits_show_nat [simp]: "parse_digits (show_nat n) = Some n"
  by (simp add: parse_digits_def)

lemma hd_show_nat [simp]: "hd (show_nat n) \<noteq> CHR ''+''" "hd (show_nat n) \<noteq> CHR ''-''"
proof -
  have "is_digit (hd (show_nat n))"
    using show_nat_digits [of n] show_nat_nonempty [of n] by (cases "show_nat n") auto
  then show "hd (show_nat n) \<noteq> CHR ''+''" "hd (show_nat n) \<noteq> CHR ''-''"
    by (auto simp: is_digit_def)
qed

lemma parse_uint_show_nat: "n < 2 ^ w \<Longrightarrow> parse_uint w (show_nat n) = Some n"
  by (simp add: parse_uint_def)

lemma parse_sint_show_int:
  "- (2 ^ (w - 1)) \<le> i \<Longrightarrow> i < 2 ^ (w - 1) \<Longrightarrow> parse_sint w (show_int i) = Some i"
  by (simp add: parse_sint_def show_int_def)

lemma parse_show_u8 [simp]: "parse_u8 (show_u8 w) = Some w"
  by (simp add: parse_u8_def show_u8_def parse_uint_show_nat)

lemma parse_show_u32 [simp]: "parse_u32 (show_u32 w) = Some w"
  by (simp add: parse_u32_def show_u32_def parse_uint_show_nat)

lemma parse_show_i32 [simp]: "parse_i32 (show_i32 w) = Some w"
proof -
  have "parse_sint 32 (show_int (sint w)) = Some (sint w)"
    using sint_ge [of w] sint_lt [of w] by (intro parse_sint_show_int) simp_all
  then show ?thesis by (simp add: parse_i32_def show_i32_def)
qed

lemma parse_show_i64 [simp]: "parse_i64 (show_i64 w) = Some w"
proof -
  have "parse_sint 64 (show_int (sint w)) = Some (sint w)"
    using sint_ge [of w] sint_lt [of w] by (intro parse_sint_show_int) simp_all
  then show ?thesis by (simp add: parse_i64_def show_i64_def)
qed

lemma show_int_ascii [simp]: "is_ascii (show_int i)"
  by (simp add: show_int_def)

lemma show_ascii [simp]:
  "is_ascii (show_u8 a)" "is_ascii (show_u32 b)" "is_ascii (show_u64 c)"
  "is_ascii (show_i32 b)" "is_ascii (show_i64 c)"
  by (simp_all add: show_u8_def show_u32_def show_u64_def show_i32_def show_i64_def)

lemma length_show_int: "\<bar>i\<bar> < 10 ^ k \<Longrightarrow> 0 < k \<Longrightarrow> length (show_int i) \<le> Suc k"
proof -
  assume i: "\<bar>i\<bar> < 10 ^ k" and k: "0 < k"
  from i have "nat \<bar>i\<bar> < 10 ^ k" by (simp add: nat_less_iff)
  from length_show_nat [OF this k] show ?thesis
    by (auto simp: show_int_def)
qed

section \<open>Big-endian integers\<close>

text \<open>
  \<open>be_bytes k n\<close> is \<open>to_be_bytes\<close> of an integer of \<open>k\<close> bytes with unsigned value \<open>n\<close>, and
  \<open>be_val\<close> is \<open>from_be_bytes\<close>; a signed integer is encoded through its two's complement.
\<close>

fun be_bytes :: "nat \<Rightarrow> nat \<Rightarrow> bytes" where
  "be_bytes 0 n = []"
| "be_bytes (Suc k) n = be_bytes k (n div 256) @ [of_nat (n mod 256)]"

definition be_val :: "bytes \<Rightarrow> nat" where
  "be_val bs = foldl (\<lambda>acc b. acc * 256 + unat b) 0 bs"

definition u32_be :: "u32 \<Rightarrow> bytes" where "u32_be w = be_bytes 4 (unat w)"
definition u64_be :: "u64 \<Rightarrow> bytes" where "u64_be w = be_bytes 8 (unat w)"
definition u32_of_be :: "bytes \<Rightarrow> u32" where "u32_of_be bs = of_nat (be_val bs)"
definition u64_of_be :: "bytes \<Rightarrow> u64" where "u64_of_be bs = of_nat (be_val bs)"

lemma length_be_bytes [simp]: "length (be_bytes k n) = k"
  by (induction k arbitrary: n) auto

lemma be_val_snoc [simp]: "be_val (bs @ [b]) = be_val bs * 256 + unat b"
  by (simp add: be_val_def)

lemma be_val_Nil [simp]: "be_val [] = 0"
  by (simp add: be_val_def)

lemma be_val_be_bytes: "n < 256 ^ k \<Longrightarrow> be_val (be_bytes k n) = n"
proof (induction k arbitrary: n)
  case 0
  then show ?case by simp
next
  case (Suc k)
  then have "n div 256 < 256 ^ k" by (simp add: less_mult_imp_div_less mult.commute)
  with Suc.IH have "be_val (be_bytes k (n div 256)) = n div 256" .
  then show ?case by (simp add: of_nat_u8_unat)
qed

lemma be_val_bound: "be_val bs < 256 ^ length bs"
proof (induction bs rule: rev_induct)
  case Nil
  then show ?case by simp
next
  case (snoc b bs)
  have "be_val bs * 256 + unat b < (be_val bs + 1) * 256" by simp
  also have "\<dots> \<le> 256 ^ length bs * 256" using snoc by (intro mult_right_mono) simp_all
  finally show ?case by (simp add: mult.commute)
qed

lemma be_bytes_be_val: "be_bytes (length bs) (be_val bs) = bs"
proof (induction bs rule: rev_induct)
  case Nil
  then show ?case by simp
next
  case (snoc b bs)
  have "unat b div 256 = 0" "unat b mod 256 = unat b" using unat_lt_256 [of b] by simp_all
  then have "(be_val bs * 256 + unat b) div 256 = be_val bs"
    "(be_val bs * 256 + unat b) mod 256 = unat b"
    by simp_all
  with snoc show ?case by simp
qed

lemma be_lengths [simp]: "length (u32_be a) = 4" "length (u64_be b) = 8"
  by (simp_all add: u32_be_def u64_be_def)

lemma u32_of_u32_be [simp]: "u32_of_be (u32_be w) = w"
  using unat_lt_u32 [of w] by (simp add: u32_of_be_def u32_be_def be_val_be_bytes)

lemma u64_of_u64_be [simp]: "u64_of_be (u64_be w) = w"
  using unat_lt_u64 [of w] by (simp add: u64_of_be_def u64_be_def be_val_be_bytes)

lemma u32_be_inj [simp]: "u32_be v = u32_be w \<longleftrightarrow> v = w"
  using u32_of_u32_be by metis

lemma u64_be_inj [simp]: "u64_be v = u64_be w \<longleftrightarrow> v = w"
  using u64_of_u64_be by metis

lemma unat_of_be:
  "length bs = 4 \<Longrightarrow> unat (u32_of_be bs) = be_val bs"
  "length cs = 8 \<Longrightarrow> unat (u64_of_be cs) = be_val cs"
  using be_val_bound [of bs] be_val_bound [of cs]
  by (simp_all add: u32_of_be_def u64_of_be_def unat_of_nat)

lemma u32_be_of_be: "length bs = 4 \<Longrightarrow> u32_be (u32_of_be bs) = bs"
  using be_bytes_be_val [of bs] by (simp add: u32_be_def unat_of_be)

lemma u64_be_of_be: "length bs = 8 \<Longrightarrow> u64_be (u64_of_be bs) = bs"
  using be_bytes_be_val [of bs] by (simp add: u64_be_def unat_of_be)

section \<open>Signed 64 bit arithmetic\<close>

text \<open>
  \<open>i64::abs\<close> in the release profile: the negation wraps, so the most negative value is its own
  absolute value.
\<close>

definition i64_abs :: "i64 \<Rightarrow> i64" where
  "i64_abs w = (if sint w < 0 then - w else w)"

text \<open>The skew test of the sources, \<open>(now_ms - ts).abs() > limit\<close>.\<close>

definition skew_exceeds :: "i64 \<Rightarrow> i64 \<Rightarrow> int \<Rightarrow> bool" where
  "skew_exceeds now_ms ts limit \<longleftrightarrow> limit < sint (i64_abs (now_ms - ts))"

lemma sint_i64_of_int:
  "- (2 ^ 63) \<le> i \<Longrightarrow> i < 2 ^ 63 \<Longrightarrow> sint (word_of_int i :: i64) = i"
  by (simp add: signed_of_int signed_take_bit_int_eq_self)

lemma sint_i32_of_int:
  "- (2 ^ 31) \<le> i \<Longrightarrow> i < 2 ^ 31 \<Longrightarrow> sint (word_of_int i :: i32) = i"
  by (simp add: signed_of_int signed_take_bit_int_eq_self)

lemma sint_i32_succ: "- (2 ^ 31) \<le> sint w \<Longrightarrow> sint w < 2 ^ 31 - 1 \<Longrightarrow> sint (w + 1 :: i32) = sint w + 1"
proof -
  assume "- (2 ^ 31) \<le> sint w" "sint w < 2 ^ 31 - 1"
  moreover have "w + 1 = (word_of_int (sint w + 1) :: i32)" by simp
  ultimately show ?thesis by (simp only:) (rule sint_i32_of_int; simp)
qed

lemma sint_i64_bounds: "- (2 ^ 63) \<le> sint (w :: i64)" "sint w < 2 ^ 63"
  using sint_ge [of w] sint_lt [of w] by simp_all

lemma sint_i64_diff: "now - ts = (word_of_int (sint now - sint ts) :: i64)"
  by simp

lemma sint_i64_abs:
  "sint w \<noteq> - (2 ^ 63) \<Longrightarrow> sint (i64_abs w) = \<bar>sint w\<bar>"
  "sint w = - (2 ^ 63) \<Longrightarrow> sint (i64_abs w) = - (2 ^ 63)"
proof -
  have m: "- w = (word_of_int (- sint w) :: i64)" by simp
  { assume "sint w \<noteq> - (2 ^ 63)"
    with sint_i64_bounds [of w] have "sint (- w) = - sint w"
      by (subst m, intro sint_i64_of_int) linarith+
    then show "sint (i64_abs w) = \<bar>sint w\<bar>" by (simp add: i64_abs_def) }
  { assume w: "sint w = - (2 ^ 63)"
    have "- w = (word_of_int (2 ^ 63) :: i64)" using m w by simp
    then have "sint (- w) = - (2 ^ 63)" by simp
    with w show "sint (i64_abs w) = - (2 ^ 63)" by (simp add: i64_abs_def) }
qed

text \<open>
  With a clock between the epoch and \<open>2 ^ 62\<close> milliseconds the test accepts exactly the timestamps
  within the window and, because the subtraction and the absolute value wrap, the one timestamp
  \<open>2 ^ 63\<close> milliseconds before the clock.
\<close>

lemma skew_exceeds_iff:
  assumes now: "0 \<le> sint now_ms" "sint now_ms < 2 ^ 62" and lim: "0 \<le> limit" "limit < 2 ^ 62"
  shows "\<not> skew_exceeds now_ms ts limit \<longleftrightarrow>
    \<bar>sint now_ms - sint ts\<bar> \<le> limit \<or> sint ts = sint now_ms - 2 ^ 63"
proof -
  define d where "d = sint now_ms - sint ts"
  note b = sint_i64_bounds [of ts]
  have lo: "- (2 ^ 63) < d" using now b by (simp add: d_def)
  have diff: "now_ms - ts = (word_of_int d :: i64)" unfolding d_def by (rule sint_i64_diff)
  show ?thesis
  proof (cases "d < 2 ^ 63")
    case True
    with lo have "sint (now_ms - ts) = d" unfolding diff by (intro sint_i64_of_int) linarith+
    with lo have "sint (i64_abs (now_ms - ts)) = \<bar>d\<bar>" using sint_i64_abs(1) by simp
    moreover have "sint ts \<noteq> sint now_ms - 2 ^ 63" using True by (simp add: d_def)
    ultimately show ?thesis by (auto simp: skew_exceeds_def d_def)
  next
    case False
    have eq: "(word_of_int d :: i64) = word_of_int (d - 2 ^ 64)" by simp
    have up: "d < 2 ^ 63 + 2 ^ 62 + 1" using now b by (simp add: d_def)
    with False have "sint (word_of_int (d - 2 ^ 64) :: i64) = d - 2 ^ 64"
      by (intro sint_i64_of_int) simp_all
    then have s: "sint (now_ms - ts) = d - 2 ^ 64" unfolding diff eq .
    show ?thesis
    proof (cases "d = 2 ^ 63")
      case True
      with s have "sint (i64_abs (now_ms - ts)) = - (2 ^ 63)" using sint_i64_abs(2) by simp
      moreover have "sint ts = sint now_ms - 2 ^ 63" using True by (simp add: d_def)
      ultimately show ?thesis using lim by (simp add: skew_exceeds_def)
    next
      case no: False
      with s have "sint (i64_abs (now_ms - ts)) = \<bar>d - 2 ^ 64\<bar>" using sint_i64_abs(1) by simp
      moreover have "limit < \<bar>d - 2 ^ 64\<bar>" using up lim by simp
      moreover have "\<not> (\<bar>d\<bar> \<le> limit)" using False lim by simp
      ultimately show ?thesis using no by (auto simp: skew_exceeds_def d_def)
    qed
  qed
qed

end
