(* ===== verification/Rust_Text.thy ===== *)
theory Rust_Text
  imports Rust_Std
begin

text \<open>
  The text operations of \<open>str\<close> the sources use: splitting at a separator, trimming, prefixes and ASCII
  classes, and the standard parser and printer of IP addresses.
\<close>

section \<open>Splitting and trimming\<close>

definition starts_with :: "str \<Rightarrow> str \<Rightarrow> bool" where
  "starts_with p s \<longleftrightarrow> take (length p) s = p"

fun str_split :: "char \<Rightarrow> str \<Rightarrow> str list" where
  "str_split sep [] = [[]]"
| "str_split sep (c # s) =
    (if c = sep then [] # str_split sep s
     else case str_split sep s of [] \<Rightarrow> [[c]] | w # ws \<Rightarrow> (c # w) # ws)"

definition split_once :: "char \<Rightarrow> str \<Rightarrow> (str \<times> str) option" where
  "split_once sep s =
    (if sep \<in> set s then Some (takeWhile (\<lambda>c. c \<noteq> sep) s, tl (dropWhile (\<lambda>c. c \<noteq> sep) s)) else None)"

text \<open>
  \<open>char::is_whitespace\<close> on the UTF-8 encoding: the width in bytes of a whitespace character at the front
  of a text, zero if there is none; the code points are U+0009 to U+000D, U+0020, U+0085, U+00A0,
  U+1680, U+2000 to U+200A, U+2028, U+2029, U+202F, U+205F and U+3000.
\<close>

definition ascii_space :: "nat \<Rightarrow> bool" where
  "ascii_space b \<longleftrightarrow> 9 \<le> b \<and> b \<le> 13 \<or> b = 32"

definition wide_space :: "nat \<Rightarrow> nat \<Rightarrow> nat \<Rightarrow> bool" where
  "wide_space a b c \<longleftrightarrow>
     a = 0xE1 \<and> b = 0x9A \<and> c = 0x80
   \<or> a = 0xE2 \<and> b = 0x80 \<and> (0x80 \<le> c \<and> c \<le> 0x8A \<or> c = 0xA8 \<or> c = 0xA9 \<or> c = 0xAF)
   \<or> a = 0xE2 \<and> b = 0x81 \<and> c = 0x9F
   \<or> a = 0xE3 \<and> b = 0x80 \<and> c = 0x80"

fun space_width :: "nat list \<Rightarrow> nat" where
  "space_width (a # r) =
    (if ascii_space a then 1
     else case r of
       [] \<Rightarrow> 0
     | b # r' \<Rightarrow> if a = 0xC2 \<and> (b = 0x85 \<or> b = 0xA0) then 2
        else (case r' of [] \<Rightarrow> 0 | c # _ \<Rightarrow> if wide_space a b c then 3 else 0))"
| "space_width [] = 0"

fun space_width_rev :: "nat list \<Rightarrow> nat" where
  "space_width_rev (a # r) =
    (if ascii_space a then 1
     else case r of
       [] \<Rightarrow> 0
     | b # r' \<Rightarrow> if b = 0xC2 \<and> (a = 0x85 \<or> a = 0xA0) then 2
        else (case r' of [] \<Rightarrow> 0 | c # _ \<Rightarrow> if wide_space c b a then 3 else 0))"
| "space_width_rev [] = 0"

function strip_front :: "(nat list \<Rightarrow> nat) \<Rightarrow> str \<Rightarrow> str" where
  "strip_front w s =
    (let n = w (map of_char s) in if n = 0 \<or> s = [] then s else strip_front w (drop n s))"
  by pat_completeness auto
termination
  by (relation "measure (\<lambda>(w, s). length s)") auto

declare strip_front.simps [simp del]

lemma strip_front_stop [simp]: "w (map of_char s) = 0 \<Longrightarrow> strip_front w s = s"
  by (subst strip_front.simps) simp

lemma strip_front_go [simp]:
  "w (of_char c # map of_char s) = Suc n \<Longrightarrow> strip_front w (c # s) = strip_front w (drop n s)"
  by (subst strip_front.simps) simp

definition trim :: "str \<Rightarrow> str" where
  "trim s = rev (strip_front space_width_rev (rev (strip_front space_width s)))"

lemma strip_front_stopped: "w [] = 0 \<Longrightarrow> w (map of_char (strip_front w s)) = 0"
proof (induction w s rule: strip_front.induct)
  case (1 w s)
  then show ?case by (subst strip_front.simps) (auto simp: Let_def)
qed

lemma strip_front_suffix: "\<exists>p. s = p @ strip_front w s"
proof (induction w s rule: strip_front.induct)
  case (1 w s)
  let ?n = "w (map of_char s)"
  show ?case
  proof (cases "?n = 0 \<or> s = []")
    case True
    then show ?thesis by (subst strip_front.simps) (simp add: Let_def)
  next
    case False
    with 1 [OF refl] obtain p where "drop ?n s = p @ strip_front w (drop ?n s)" by auto
    then have "s = (take ?n s @ p) @ strip_front w (drop ?n s)" by (metis append_assoc append_take_drop_id)
    moreover have "strip_front w s = strip_front w (drop ?n s)"
      using False by (subst strip_front.simps) (simp add: Let_def)
    ultimately show ?thesis by metis
  qed
qed

lemma space_width_prefix: "space_width (t @ u) = 0 \<Longrightarrow> space_width t = 0"
  by (cases t rule: space_width.cases) (auto split: if_splits list.splits)

lemma trim_idem [simp]: "trim (trim s) = trim s"
proof -
  define t where "t = strip_front space_width s"
  define r where "r = strip_front space_width_rev (rev t)"
  obtain p where "rev t = p @ r" using strip_front_suffix [of "rev t"] unfolding r_def by metis
  then have "t = rev r @ rev p" by (metis rev_append rev_rev_ident)
  moreover have "space_width (map of_char t) = 0" unfolding t_def by (rule strip_front_stopped) simp
  ultimately have front: "space_width (map of_char (rev r)) = 0"
    using space_width_prefix [of "map of_char (rev r)" "map of_char (rev p)"] by simp
  have "space_width_rev (map of_char r) = 0" unfolding r_def by (rule strip_front_stopped) simp
  moreover have "trim s = rev r" by (simp add: trim_def t_def r_def)
  ultimately show ?thesis using front by (simp add: trim_def)
qed

definition ends_with :: "str \<Rightarrow> str \<Rightarrow> bool" where
  "ends_with p s \<longleftrightarrow> length p \<le> length s \<and> drop (length s - length p) s = p"

text \<open>\<open>str::lines\<close>: a line ends with a line feed, which may follow a carriage return; the last line need not end.\<close>

definition strip_cr :: "str \<Rightarrow> str" where
  "strip_cr line = (if line \<noteq> [] \<and> last line = CHR 0x0D then butlast line else line)"

definition text_lines :: "str \<Rightarrow> str list" where
  "text_lines t =
    (let parts = str_split (CHR 0x0A) t in map strip_cr (butlast parts) @ (if last parts = [] then [] else [last parts]))"

text \<open>Splitting at the first and after the last occurrence of a pattern, and replacing every occurrence.\<close>

fun split_once_str :: "str \<Rightarrow> str \<Rightarrow> (str \<times> str) option" where
  "split_once_str pat [] = (if pat = [] then Some ([], []) else None)"
| "split_once_str pat (c # s) =
    (if starts_with pat (c # s) then Some ([], drop (length pat) (c # s))
     else map_option (\<lambda>(a, b). (c # a, b)) (split_once_str pat s))"

definition after_last :: "str \<Rightarrow> str \<Rightarrow> str" where
  "after_last pat s = (case split_once_str (rev pat) (rev s) of Some (a, _) \<Rightarrow> rev a | None \<Rightarrow> s)"

function str_replace :: "str \<Rightarrow> str \<Rightarrow> str \<Rightarrow> str" where
  "str_replace pat new s =
    (if pat = [] then s
     else case split_once_str pat s of None \<Rightarrow> s | Some (a, b) \<Rightarrow> a @ new @ str_replace pat new b)"
  by pat_completeness auto

lemma split_once_str_shorter: "split_once_str pat s = Some (a, b) \<Longrightarrow> pat \<noteq> [] \<Longrightarrow> length b < length s"
proof (induction s arbitrary: a)
  case (Cons c s)
  show ?case
  proof (cases "starts_with pat (c # s)")
    case True
    with Cons.prems show ?thesis by (cases pat) auto
  next
    case False
    with Cons.prems obtain a' where "split_once_str pat s = Some (a', b)" by auto
    then show ?thesis using Cons.IH Cons.prems(2) by fastforce
  qed
qed simp

termination str_replace
  by (relation "measure (\<lambda>(pat, new, s). length s)") (auto dest: split_once_str_shorter)

declare str_replace.simps [simp del]

text \<open>The characters up to the next whitespace, and the words of a text.\<close>

fun take_word :: "str \<Rightarrow> str" where
  "take_word [] = []"
| "take_word (c # s) = (if space_width (map of_char (c # s)) = 0 then c # take_word s else [])"

function split_whitespace :: "str \<Rightarrow> str list" where
  "split_whitespace s =
    (let t = strip_front space_width s in
     if t = [] then []
     else let w = take_word t in w # split_whitespace (drop (length w) t))"
  by pat_completeness auto

termination
proof (relation "measure length")
  fix s t w :: str
  assume t: "t = strip_front space_width s" "t \<noteq> []" and w: "w = take_word t"
  have "space_width (map of_char t) = 0" unfolding t(1) by (rule strip_front_stopped) simp
  with t(2) have "0 < length w" unfolding w by (cases t) simp_all
  moreover obtain p where "s = p @ t" using strip_front_suffix [of s space_width] t(1) by metis
  moreover have "0 < length t" using t(2) by simp
  ultimately have "length t - length w < length s" by (metis diff_less length_append less_le_trans le_add2)
  then show "(drop (length w) t, s) \<in> measure length" by simp
qed simp

declare split_whitespace.simps [simp del]

text \<open>
  \<open>String::from_utf8_lossy\<close>: an ill-formed sequence, as far as it could have begun a character, becomes one replacement
  character.
\<close>

definition second_ok :: "u8 \<Rightarrow> u8 \<Rightarrow> bool" where
  "second_ok a b \<longleftrightarrow> is_cont b \<and> (unat a = 0xE0 \<longrightarrow> 0xA0 \<le> unat b) \<and> (unat a = 0xED \<longrightarrow> unat b \<le> 0x9F)
    \<and> (unat a = 0xF0 \<longrightarrow> 0x90 \<le> unat b) \<and> (unat a = 0xF4 \<longrightarrow> unat b \<le> 0x8F)"

definition utf8_error_len :: "bytes \<Rightarrow> nat" where
  "utf8_error_len bs =
    (case bs of
       a # b # r \<Rightarrow>
         if 0xE0 \<le> unat a \<and> unat a \<le> 0xF4 \<and> second_ok a b
         then case r of c # _ \<Rightarrow> if 0xF0 \<le> unat a \<and> is_cont c then 3 else 2 | [] \<Rightarrow> 2
         else 1
     | _ \<Rightarrow> 1)"

lemma utf8_error_len_pos [simp]: "0 < utf8_error_len bs"
  by (simp add: utf8_error_len_def split: list.split)

function from_utf8_lossy :: "bytes \<Rightarrow> str" where
  "from_utf8_lossy bs =
    (if bs = [] then []
     else case utf8_step bs of
            Some n \<Rightarrow> str_of_bytes (take n bs) @ from_utf8_lossy (drop n bs)
          | None \<Rightarrow> [CHR 0xEF, CHR 0xBF, CHR 0xBD] @ from_utf8_lossy (drop (utf8_error_len bs) bs))"
  by pat_completeness auto
termination
  by (relation "measure length") (auto dest!: utf8_step_bounds)

declare from_utf8_lossy.simps [simp del]

lemma from_utf8_lossy_valid: "utf8_valid bs \<Longrightarrow> from_utf8_lossy bs = str_of_bytes bs"
proof (induction bs rule: utf8_valid_induct)
  case Nil
  show ?case by (simp add: from_utf8_lossy.simps str_of_bytes_def)
next
  case (Char bs w)
  have "bs \<noteq> []" using Char(1) by (auto simp: utf8_step_def)
  then have "from_utf8_lossy bs = str_of_bytes (take w bs) @ str_of_bytes (drop w bs)"
    using Char by (subst from_utf8_lossy.simps) simp
  also have "\<dots> = str_of_bytes bs" by (simp add: str_of_bytes_def flip: map_append)
  finally show ?case .
qed

text \<open>A line feed is part of no other character, so lines are replaced one by one.\<close>

lemma newline_code: "(of_char (CHR 0x0A) :: nat) = 10"
  by simp

lemma newline_no_cont [simp]: "\<not> is_cont 0x0A"
  by (simp add: is_cont_def)

lemma utf8_step_newline:
  assumes "utf8_step bs = None" "bs \<noteq> []" shows "utf8_step (bs @ 0x0A # r) = None"
proof (cases bs rule: list_cases4)
  case (2 a)
  with assms show ?thesis by (cases r rule: list_cases4) (simp_all add: utf8_step_def split: if_splits)
next
  case (3 a b)
  with assms show ?thesis by (cases r) (simp_all add: utf8_step_def split: if_splits)
next
  case (4 a b c)
  with assms show ?thesis by (auto simp: utf8_step_def split: if_splits)
next
  case (5 a b c d r')
  then have "utf8_step (bs @ 0x0A # r) = utf8_step bs" by (simp only: utf8_step_def append_Cons list.case)
  with assms(1) show ?thesis by simp
qed (use assms in simp)

lemma utf8_error_len_newline:
  assumes "bs \<noteq> []" shows "utf8_error_len (bs @ 0x0A # r) = utf8_error_len bs" "utf8_error_len bs \<le> length bs"
  using assms by (cases bs rule: list_cases4; simp add: utf8_error_len_def second_ok_def)+

lemma from_utf8_lossy_newline: "from_utf8_lossy (bs @ 0x0A # r) = from_utf8_lossy bs @ CHR 0x0A # from_utf8_lossy r"
proof (induction bs rule: from_utf8_lossy.induct)
  case (1 bs)
  show ?case
  proof (cases "bs = []")
    case True
    have "utf8_step (0x0A # r) = Some 1" by (simp add: utf8_step_def)
    moreover have "char_of (10 :: nat) = CHR 0x0A" by (metis (no_types) char_of_char newline_code)
    ultimately show ?thesis unfolding True by (subst from_utf8_lossy.simps) (simp add: str_of_bytes_def from_utf8_lossy.simps [of "[]"])
  next
    case ne: False
    show ?thesis
    proof (cases "utf8_step bs")
      case None
      note ill = utf8_step_newline [OF None ne, of r] utf8_error_len_newline [OF ne]
      have "from_utf8_lossy (bs @ 0x0A # r) =
          [CHR 0xEF, CHR 0xBF, CHR 0xBD] @ from_utf8_lossy (drop (utf8_error_len bs) bs @ 0x0A # r)"
        using ill ne by (subst from_utf8_lossy.simps) simp
      also have "\<dots> = from_utf8_lossy bs @ CHR 0x0A # from_utf8_lossy r"
        using "1.IH"(1) [OF ne None] ne None by (subst (2) from_utf8_lossy.simps) simp
      finally show ?thesis .
    next
      case (Some n)
      note step = utf8_step_append [OF Some, of "0x0A # r"] and le = utf8_step_bounds [OF Some]
      have "from_utf8_lossy (bs @ 0x0A # r) = str_of_bytes (take n bs) @ from_utf8_lossy (drop n bs @ 0x0A # r)"
        using step le ne by (subst from_utf8_lossy.simps) simp
      also have "\<dots> = from_utf8_lossy bs @ CHR 0x0A # from_utf8_lossy r"
        using "1.IH"(2) [OF ne Some] ne Some by (subst (2) from_utf8_lossy.simps) simp
      finally show ?thesis .
    qed
  qed
qed

section \<open>ASCII classes\<close>

definition ascii_alphanumeric :: "char \<Rightarrow> bool" where
  "ascii_alphanumeric c \<longleftrightarrow>
    (let n = (of_char c :: nat) in 48 \<le> n \<and> n \<le> 57 \<or> 65 \<le> n \<and> n \<le> 90 \<or> 97 \<le> n \<and> n \<le> 122)"

definition ascii_lower :: "char \<Rightarrow> char" where
  "ascii_lower c = (let n = (of_char c :: nat) in if 65 \<le> n \<and> n \<le> 90 then char_of (n + 32) else c)"

definition to_ascii_lowercase :: "str \<Rightarrow> str" where
  "to_ascii_lowercase s = map ascii_lower s"

definition eq_ignore_ascii_case :: "str \<Rightarrow> str \<Rightarrow> bool" where
  "eq_ignore_ascii_case a b \<longleftrightarrow> to_ascii_lowercase a = to_ascii_lowercase b"

definition str_contains :: "str \<Rightarrow> str \<Rightarrow> bool" where
  "str_contains needle s = list_ex (\<lambda>i. starts_with needle (drop i s)) [0..<Suc (length s)]"

text \<open>Visible ASCII: what \<open>HeaderValue::to_str\<close> is documented to yield, with the tab.\<close>

definition visible :: "char \<Rightarrow> bool" where
  "visible c \<longleftrightarrow> (let n = (of_char c :: nat) in 32 \<le> n \<and> n < 127 \<or> n = 9)"

section \<open>Hexadecimal digits and debug output\<close>

definition hex_digit :: "nat \<Rightarrow> char" where
  "hex_digit d = (if d < 10 then char_of (48 + d) else char_of (87 + d))"

definition hex_encode :: "bytes \<Rightarrow> str" where
  "hex_encode bs = concat (map (\<lambda>b. [hex_digit (unat b div 16), hex_digit (unat b mod 16)]) bs)"

text \<open>
  \<open>{:?}\<close> of a string, which the sources use inside error texts: quotes, backslashes and control
  characters are escaped.
\<close>

definition escape_debug :: "char \<Rightarrow> str" where
  "escape_debug c =
    (let n = (of_char c :: nat) in
     if n = 0 then CHR 0x5C # ''0'' else if n = 9 then CHR 0x5C # ''t''
     else if n = 10 then CHR 0x5C # ''n'' else if n = 13 then CHR 0x5C # ''r''
     else if c = CHR 0x22 \<or> c = CHR 0x5C then [CHR 0x5C, c]
     else if n < 16 then CHR 0x5C # ''u{'' @ [hex_digit n] @ ''}''
     else if n < 32 \<or> n = 127 then CHR 0x5C # ''u{'' @ [hex_digit (n div 16), hex_digit (n mod 16)] @ ''}''
     else [c])"

definition debug_str :: "str \<Rightarrow> str" where
  "debug_str s = CHR 0x22 # concat (map escape_debug s) @ [CHR 0x22]"

section \<open>IP addresses\<close>

datatype ip_addr = V4 u32 | V6 "128 word"

definition is_ipv4 :: "ip_addr \<Rightarrow> bool" where
  "is_ipv4 ip = (case ip of V4 _ \<Rightarrow> True | V6 _ \<Rightarrow> False)"

subsection \<open>Parser\<close>

text \<open>
  The address parser of the standard library. \<open>read_number\<close> takes the digits of a radix, at most
  \<open>digits\<close> of them, below a limit; leading zeros are allowed only in groups of an IPv6 address.
\<close>

definition hex_val :: "char \<Rightarrow> nat option" where
  "hex_val c =
    (let n = (of_char c :: nat) in
     if 48 \<le> n \<and> n \<le> 57 then Some (n - 48)
     else if 97 \<le> n \<and> n \<le> 102 then Some (n - 87)
     else if 65 \<le> n \<and> n \<le> 70 then Some (n - 55) else None)"

definition radix_digit :: "nat \<Rightarrow> char \<Rightarrow> bool" where
  "radix_digit radix c = (case hex_val c of None \<Rightarrow> False | Some d \<Rightarrow> d < radix)"

definition read_number :: "nat \<Rightarrow> nat \<Rightarrow> bool \<Rightarrow> nat \<Rightarrow> str \<Rightarrow> (nat \<times> str) option" where
  "read_number radix digits zero_prefix limit s =
    (let ds = takeWhile (radix_digit radix) s;
         n = foldl (\<lambda>acc c. acc * radix + the (hex_val c)) 0 ds
     in if ds = [] \<or> digits < length ds \<or> limit \<le> n \<or> \<not> zero_prefix \<and> hd ds = CHR ''0'' \<and> 1 < length ds
        then None else Some (n, drop (length ds) s))"

definition read_char :: "char \<Rightarrow> str \<Rightarrow> str option" where
  "read_char c s = (case s of [] \<Rightarrow> None | d # r \<Rightarrow> if d = c then Some r else None)"

fun read_octets :: "nat \<Rightarrow> bool \<Rightarrow> str \<Rightarrow> (nat list \<times> str) option" where
  "read_octets 0 sep s = Some ([], s)"
| "read_octets (Suc k) sep s =
    (case (if sep then read_char CHR ''.'' s else Some s) of
       None \<Rightarrow> None
     | Some s1 \<Rightarrow>
         (case read_number 10 3 False 256 s1 of
            None \<Rightarrow> None
          | Some (n, s2) \<Rightarrow> map_option (\<lambda>(ns, r). (n # ns, r)) (read_octets k True s2)))"

definition read_ipv4 :: "str \<Rightarrow> (nat list \<times> str) option" where
  "read_ipv4 s = read_octets 4 False s"

definition read_sep :: "nat \<Rightarrow> str \<Rightarrow> str option" where
  "read_sep i s = (if 0 < i then read_char CHR '':'' s else Some s)"

text \<open>
  \<open>read_groups i left s\<close> reads group \<open>i\<close> of an IPv6 address with \<open>left\<close> groups to go; the flag says
  that the last two groups came from an embedded IPv4 address.
\<close>

fun read_groups :: "nat \<Rightarrow> nat \<Rightarrow> str \<Rightarrow> nat list \<times> bool \<times> str" where
  "read_groups i 0 s = ([], False, s)"
| "read_groups i (Suc left) s =
    (let v4 = (if 0 < left then (case read_sep i s of None \<Rightarrow> None | Some s1 \<Rightarrow> read_ipv4 s1) else None) in
     case v4 of
       Some (os, r) \<Rightarrow> ([os ! 0 * 256 + os ! 1, os ! 2 * 256 + os ! 3], True, r)
     | None \<Rightarrow>
         (case (case read_sep i s of None \<Rightarrow> None | Some s1 \<Rightarrow> read_number 16 4 True 65536 s1) of
            None \<Rightarrow> ([], False, s)
          | Some (g, s2) \<Rightarrow> (let (gs, v, r) = read_groups (Suc i) left s2 in (g # gs, v, r))))"

definition groups_val :: "nat list \<Rightarrow> 128 word" where
  "groups_val gs = of_nat (foldl (\<lambda>acc g. acc * 65536 + g) 0 gs)"

definition read_ipv6 :: "str \<Rightarrow> (128 word \<times> str) option" where
  "read_ipv6 s =
    (let (front, v4, s1) = read_groups 0 8 s in
     if length front = 8 then Some (groups_val front, s1)
     else if v4 then None
     else case read_char CHR '':'' s1 of
       None \<Rightarrow> None
     | Some s2 \<Rightarrow>
         (case read_char CHR '':'' s2 of
            None \<Rightarrow> None
          | Some s3 \<Rightarrow>
              (let (back, _, s4) = read_groups 0 (8 - (length front + 1)) s3 in
               Some (groups_val (front @ replicate (8 - length front - length back) 0 @ back), s4))))"

definition parse_ip :: "str \<Rightarrow> ip_addr option" where
  "parse_ip s =
    (case read_ipv4 s of
       Some (os, r) \<Rightarrow> if r = [] then Some (V4 (of_nat (foldl (\<lambda>acc o'. acc * 256 + o') 0 os))) else None
     | None \<Rightarrow> (case read_ipv6 s of Some (w, r) \<Rightarrow> if r = [] then Some (V6 w) else None | None \<Rightarrow> None))"

lemma read_ipv4_Suc: "read_ipv4 s = read_octets (Suc (Suc (Suc (Suc 0)))) False s"
  by (simp add: read_ipv4_def numeral_eq_Suc)

lemmas ip_eval = parse_ip_def read_ipv4_Suc read_number_def read_char_def hex_val_def radix_digit_def Let_def

subsection \<open>Printer\<close>

fun join_with :: "str \<Rightarrow> str list \<Rightarrow> str" where
  "join_with sep [] = []"
| "join_with sep [w] = w"
| "join_with sep (w # v # ws) = w @ sep @ join_with sep (v # ws)"

definition show_ipv4 :: "u32 \<Rightarrow> str" where
  "show_ipv4 w = join_with ''.'' (map (\<lambda>b. show_nat (unat b)) (u32_be w))"

lemma u32_be_Suc: "u32_be w = be_bytes (Suc (Suc (Suc (Suc 0)))) (unat w)"
  unfolding u32_be_def by (rule arg_cong2 [where f = be_bytes]) simp_all

fun show_hex :: "nat \<Rightarrow> str" where
  "show_hex n = (if n < 16 then [hex_digit n] else show_hex (n div 16) @ [hex_digit (n mod 16)])"

declare show_hex.simps [simp del]

definition ipv6_groups :: "128 word \<Rightarrow> nat list" where
  "ipv6_groups w = map (\<lambda>i. unat w div 65536 ^ (7 - i) mod 65536) [0..<8]"

text \<open>The longest run of zero groups, the first of several: its start and length.\<close>

fun zero_run :: "nat \<Rightarrow> nat \<times> nat \<Rightarrow> nat \<times> nat \<Rightarrow> nat list \<Rightarrow> nat \<times> nat" where
  "zero_run i cur best [] = best"
| "zero_run i cur best (g # gs) =
    (if g = 0 then
       let cur' = (if snd cur = 0 then i else fst cur, snd cur + 1)
       in zero_run (i + 1) cur' (if snd best < snd cur' then cur' else best) gs
     else zero_run (i + 1) (0, 0) best gs)"

definition show_ipv6 :: "128 word \<Rightarrow> str" where
  "show_ipv6 w =
    (let gs = ipv6_groups w in
     if take 6 gs = [0, 0, 0, 0, 0, 0xFFFF] then ''::ffff:'' @ show_ipv4 (of_nat (unat w mod 2 ^ 32))
     else let (st, len) = zero_run 0 (0, 0) (0, 0) gs; txt = (\<lambda>xs. join_with '':'' (map show_hex xs)) in
       if 1 < len then txt (take st gs) @ ''::'' @ txt (drop (st + len) gs) else txt gs)"

definition show_ip :: "ip_addr \<Rightarrow> str" where
  "show_ip ip = (case ip of V4 w \<Rightarrow> show_ipv4 w | V6 w \<Rightarrow> show_ipv6 w)"

section \<open>Splitting facts\<close>

lemma str_split_nonempty [simp]: "str_split sep s \<noteq> []"
  by (cases s) (auto split: list.split)

lemma str_split_single: "sep \<notin> set s \<Longrightarrow> str_split sep s = [s]"
  by (induction s) auto

lemma str_split_append: "str_split sep (s @ sep # t) = str_split sep s @ str_split sep t"
  by (induction s) (auto split: list.splits)

section \<open>Hexadecimal text\<close>

lemma hex_digit_code: "d < 16 \<Longrightarrow> of_char (hex_digit d) = (if d < 10 then 48 + d else 87 + d)"
  by (simp add: hex_digit_def)

lemma byte_digits: "unat b div 16 < 16" "unat b mod 16 < 16" for b :: u8
  using unat_lt_256 [of b] by (simp_all add: div_less_iff_less_mult)

lemma hex_digit_inj:
  assumes "a < 16" "b < 16" "hex_digit a = hex_digit b" shows "a = b"
proof -
  have "(if a < 10 then 48 + a else 87 + a) = (if b < 10 then 48 + b else 87 + b)" using assms hex_digit_code by metis
  then show ?thesis by (auto split: if_splits)
qed

lemma hex_encode_inj: "hex_encode a = hex_encode b \<Longrightarrow> a = b"
proof (induction a arbitrary: b)
  case Nil
  then show ?case by (cases b) (simp_all add: hex_encode_def)
next
  case (Cons x a)
  then obtain y b' where b: "b = y # b'" by (cases b) (simp_all add: hex_encode_def)
  from Cons.prems b have "hex_digit (unat x div 16) = hex_digit (unat y div 16)" "hex_digit (unat x mod 16) = hex_digit (unat y mod 16)"
    and rest: "hex_encode a = hex_encode b'" by (simp_all add: hex_encode_def)
  then have "unat x div 16 = unat y div 16" "unat x mod 16 = unat y mod 16" using byte_digits hex_digit_inj by blast+
  then have "unat x = unat y" by (metis div_mult_mod_eq)
  then have "x = y" by (simp add: unsigned_word_eqI)
  with b Cons.IH [OF rest] show ?case by simp
qed

lemma hex_encode_digits: "c \<in> set (hex_encode bs) \<Longrightarrow> \<exists>d < 16. c = hex_digit d"
proof (induction bs)
  case (Cons b bs)
  have "hex_encode (b # bs) = hex_digit (unat b div 16) # hex_digit (unat b mod 16) # hex_encode bs" by (simp add: hex_encode_def)
  with Cons.prems have "c = hex_digit (unat b div 16) \<or> c = hex_digit (unat b mod 16) \<or> c \<in> set (hex_encode bs)" by simp
  then show ?case using Cons.IH byte_digits by blast
qed (simp add: hex_encode_def)

end
