(* ===== verification/Protocol_Errors.thy ===== *)
theory Protocol_Errors
  imports Rust_Text
begin

text \<open>
  The errors and version constants shared by the two ends of the DMZ link:
  \<open>crates/strata-protocol/src/errors.rs\<close> and \<open>versioning.rs\<close>.
\<close>

datatype protocol_error =
    Malformed str
  | VersionMismatch str str
  | BadMac
  | AuthFailed str
  | Skew
  | Replay
  | InvalidResumeToken

text \<open>The \<open>Display\<close> texts derived from the error attributes.\<close>

fun show_protocol_error :: "protocol_error \<Rightarrow> str" where
  "show_protocol_error (Malformed m) = ''malformed message: '' @ m"
| "show_protocol_error (VersionMismatch p o') =
     ''incompatible protocol version: peer='' @ p @ '', ours='' @ o'"
| "show_protocol_error BadMac = ''hmac verification failed''"
| "show_protocol_error (AuthFailed m) = ''authentication failed: '' @ m"
| "show_protocol_error Skew = ''timestamp outside accepted skew window''"
| "show_protocol_error Replay = ''replayed nonce''"
| "show_protocol_error InvalidResumeToken = ''invalid or expired resume token''"

definition PROTOCOL_VERSION_MAJOR :: nat where "PROTOCOL_VERSION_MAJOR = 1"
definition PROTOCOL_VERSION_MINOR :: nat where "PROTOCOL_VERSION_MINOR = 0"
definition PROTOCOL_VERSION_STR :: str where "PROTOCOL_VERSION_STR = ''strata-link/1.0''"

text \<open>The wire string spells the two version numbers.\<close>

lemma version_str_spells_numbers:
  "PROTOCOL_VERSION_STR =
     ''strata-link/'' @ show_nat PROTOCOL_VERSION_MAJOR @ ''.'' @ show_nat PROTOCOL_VERSION_MINOR"
  by (simp add: PROTOCOL_VERSION_STR_def PROTOCOL_VERSION_MAJOR_def PROTOCOL_VERSION_MINOR_def
      show_nat.simps digit_char_def char_of_def bit_0)

text \<open>Two lower-case hexadecimal digits, the \<open>02x\<close> format.\<close>

definition hex2 :: "u8 \<Rightarrow> str" where
  "hex2 b = [hex_digit (unat b div 16), hex_digit (unat b mod 16)]"

section \<open>Length-prefixed fields\<close>

text \<open>
  Both the handshake transcript and the canonical edge header set are concatenations of fields, each
  preceded by its length as a big-endian \<open>u32\<close> (\<open>b.len() as u32\<close>, which keeps the low 32 bits).
\<close>

definition lp_field :: "bytes \<Rightarrow> bytes" where
  "lp_field b = u32_be (of_nat (length b)) @ b"

definition lp_concat :: "bytes list \<Rightarrow> bytes" where
  "lp_concat fs = concat (map lp_field fs)"

abbreviation fits_u32 :: "bytes \<Rightarrow> bool" where
  "fits_u32 b \<equiv> length b < 2 ^ 32"

lemma lp_field_prefix_free:
  assumes "fits_u32 a" "fits_u32 b" "lp_field a @ r = lp_field b @ s"
  shows "a = b \<and> r = s"
proof -
  from assms(3) have "u32_be (of_nat (length a)) = u32_be (of_nat (length b))"
    and ar: "a @ r = b @ s"
    by (auto simp: lp_field_def)
  then have "(of_nat (length a) :: u32) = of_nat (length b)" by simp
  with assms(1,2) have "length a = length b"
    by (simp add: word_unat_eq_iff unat_of_nat)
  with ar show ?thesis by simp
qed

lemma lp_concat_inj:
  "length fs = length gs \<Longrightarrow> list_all fits_u32 fs \<Longrightarrow> list_all fits_u32 gs \<Longrightarrow>
   lp_concat fs = lp_concat gs \<Longrightarrow> fs = gs"
proof (induction fs gs rule: list_induct2)
  case Nil
  then show ?case by simp
next
  case (Cons f fs g gs)
  from Cons.prems have "f = g \<and> lp_concat fs = lp_concat gs"
    by (intro lp_field_prefix_free) (simp_all add: lp_concat_def)
  with Cons show ?case by simp
qed

end
