(* ===== verification/Base64.thy ===== *)
theory Base64
  imports Rust_Std
begin

text \<open>
  The standard base64 alphabet with padding (RFC 4648, section 4), as a concrete instance of the codec
  the sources take from the base64 crate.
\<close>

definition b64_alphabet :: str where
  "b64_alphabet = ''ABCDEFGHIJKLMNOPQRSTUVWXYZabcdefghijklmnopqrstuvwxyz0123456789+/''"

definition b64_char :: "nat \<Rightarrow> char" where
  "b64_char n = b64_alphabet ! n"

fun find_index :: "char \<Rightarrow> str \<Rightarrow> nat option" where
  "find_index c [] = None"
| "find_index c (x # xs) = (if x = c then Some 0 else map_option Suc (find_index c xs))"

definition b64_value :: "char \<Rightarrow> nat option" where
  "b64_value c = find_index c b64_alphabet"

fun base64_encode :: "bytes \<Rightarrow> str" where
  "base64_encode [] = []"
| "base64_encode [a] = [b64_char (unat a div 4), b64_char (unat a mod 4 * 16), CHR ''='', CHR ''='']"
| "base64_encode [a, b] =
    [b64_char (unat a div 4), b64_char (unat a mod 4 * 16 + unat b div 16),
     b64_char (unat b mod 16 * 4), CHR ''='']"
| "base64_encode (a # b # c # r) =
    [b64_char (unat a div 4), b64_char (unat a mod 4 * 16 + unat b div 16),
     b64_char (unat b mod 16 * 4 + unat c div 64), b64_char (unat c mod 64)] @ base64_encode r"

fun base64_decode :: "str \<Rightarrow> bytes option" where
  "base64_decode [] = Some []"
| "base64_decode (p # q # r # s # rest) =
    (case (b64_value p, b64_value q) of
       (Some i, Some j) \<Rightarrow>
         (case b64_value r of
            None \<Rightarrow> if [r, s] = ''=='' \<and> rest = [] \<and> j mod 16 = 0 then Some [of_nat (i * 4 + j div 16)] else None
          | Some k \<Rightarrow>
            (case b64_value s of
               None \<Rightarrow> if s = CHR ''='' \<and> rest = [] \<and> k mod 4 = 0
                       then Some [of_nat (i * 4 + j div 16), of_nat (j mod 16 * 16 + k div 4)] else None
             | Some l \<Rightarrow> map_option (\<lambda>bs. of_nat (i * 4 + j div 16) # of_nat (j mod 16 * 16 + k div 4)
                          # of_nat (k mod 4 * 64 + l) # bs) (base64_decode rest)))
     | _ \<Rightarrow> None)"
| "base64_decode _ = None"

lemma b64_value_char: "n < 64 \<Longrightarrow> b64_value (b64_char n) = Some n"
proof -
  assume "n < 64"
  moreover have "\<forall>n \<in> set [0..<64]. b64_value (b64_char n) = Some n" by code_simp
  ultimately show ?thesis by simp
qed

lemma b64_value_pad: "b64_value CHR ''='' = None"
  by code_simp

lemma b64_char_ascii: "n < 64 \<Longrightarrow> of_char (b64_char n) < (128::nat)"
proof -
  assume "n < 64"
  moreover have "\<forall>n \<in> set [0..<64]. of_char (b64_char n) < (128::nat)" by code_simp
  ultimately show ?thesis by simp
qed

lemma u8_div [simp]: "unat (a :: u8) div 4 < 64" "unat a div 16 < 16" "unat a div 64 < 4"
  by (rule less_mult_imp_div_less; simp)+

lemma b64_bounds:
  "unat (a :: u8) mod 4 * 16 < 64" "unat a mod 4 * 16 + unat (b :: u8) div 16 < 64"
  "unat b mod 16 * 4 < 64" "unat b mod 16 * 4 + unat (c :: u8) div 64 < 64"
proof -
  have "unat a mod 4 < 4" "unat b mod 16 < 16" by simp_all
  then show "unat a mod 4 * 16 < 64" "unat a mod 4 * 16 + unat b div 16 < 64"
    "unat b mod 16 * 4 < 64" "unat b mod 16 * 4 + unat c div 64 < 64"
    using u8_div(2) [of b] u8_div(3) [of c] by linarith+
qed

lemma b64_join:
  "unat (b :: u8) div 16 div 16 = 0" "unat b div 16 mod 16 = unat b div 16"
  "unat (c :: u8) div 64 div 4 = 0" "unat c div 64 mod 4 = unat c div 64"
  by simp_all

lemma base64_decode_encode: "base64_decode (base64_encode bs) = Some bs"
  by (induction bs rule: base64_encode.induct)
    (simp_all add: b64_value_char b64_value_pad b64_bounds b64_join del: of_nat_add of_nat_mult)

lemma base64_ascii: "is_ascii (base64_encode bs)"
  by (induction bs rule: base64_encode.induct) (simp_all add: b64_char_ascii b64_bounds)

lemma base64_length: "length (base64_encode bs) = 4 * ((length bs + 2) div 3)"
proof (induction bs rule: base64_encode.induct)
  case (4 a b c r)
  have "(length r + 5) div 3 = (length r + 2) div 3 + 1" by simp
  with 4 show ?case by (simp add: add.commute)
qed simp_all

end
