(* ===== verification/External_Code.thy ===== *)
theory External_Code
  imports Base64
begin

text \<open>
  Code the sources call but do not contain: the serde JSON codec, the base64 alphabets, HMAC-SHA-256
  and the two parser primitives taken from the winnow crate. Each is a record of functions that the
  definitions take as an argument. What the sources rely on is stated as a predicate on the record,
  which appears as a hypothesis of every property that needs it, and a concrete record at the end of
  each section shows that the predicate can hold.
\<close>

section \<open>JSON\<close>

text \<open>
  \<open>serde_json::to_vec\<close> and \<open>serde_json::from_slice\<close> at one message type; the left values are the
  rendered error texts.
\<close>

record 'a serde =
  to_vec :: "'a \<Rightarrow> str + bytes"
  from_slice :: "bytes \<Rightarrow> str + 'a"

definition serde_ok :: "'a serde \<Rightarrow> bool" where
  "serde_ok j \<longleftrightarrow> (\<forall>x b. to_vec j x = Inr b \<longrightarrow> from_slice j b = Inr x)"

lemma serde_okD: "serde_ok j \<Longrightarrow> to_vec j x = Inr b \<Longrightarrow> from_slice j b = Inr x"
  by (simp add: serde_ok_def)

section \<open>Keyed MACs and base64\<close>

text \<open>
  \<open>hmac k m\<close> is the 32 byte tag of HMAC-SHA-256; \<open>Mac::verify_slice\<close> accepts exactly that tag.
  The two base64 engines are the standard alphabet with padding and the URL-safe one without.
\<close>

record crypto =
  hmac :: "bytes \<Rightarrow> bytes \<Rightarrow> bytes"
  b64_encode :: "bytes \<Rightarrow> str"
  b64_decode :: "str \<Rightarrow> bytes option"
  b64url_encode :: "bytes \<Rightarrow> str"
  b64url_decode :: "str \<Rightarrow> bytes option"

definition verify_slice :: "crypto \<Rightarrow> bytes \<Rightarrow> bytes \<Rightarrow> bytes \<Rightarrow> bool" where
  "verify_slice cr key msg tag \<longleftrightarrow> hmac cr key msg = tag"

definition crypto_ok :: "crypto \<Rightarrow> bool" where
  "crypto_ok cr \<longleftrightarrow>
     (\<forall>bs. b64_decode cr (b64_encode cr bs) = Some bs)
   \<and> (\<forall>bs. b64url_decode cr (b64url_encode cr bs) = Some bs)
   \<and> (\<forall>k m. length (hmac cr k m) = 32)"

lemma crypto_okD:
  assumes "crypto_ok cr"
  shows "b64_decode cr (b64_encode cr bs) = Some bs"
    "b64url_decode cr (b64url_encode cr bs) = Some bs"
    "length (hmac cr k m) = 32"
  using assms by (simp_all add: crypto_ok_def)

text \<open>The shape of standard base64 text: ASCII, four characters for every three bytes begun.\<close>

definition b64_text :: "crypto \<Rightarrow> bool" where
  "b64_text cr \<longleftrightarrow>
    (\<forall>bs. is_ascii (b64_encode cr bs) \<and> length (b64_encode cr bs) = 4 * ((length bs + 2) div 3))"

text \<open>Two different messages with the same tag under one key.\<close>

definition hmac_collision :: "crypto \<Rightarrow> bytes \<Rightarrow> bytes \<Rightarrow> bytes \<Rightarrow> bool" where
  "hmac_collision cr key m m' \<longleftrightarrow> m \<noteq> m' \<and> hmac cr key m = hmac cr key m'"

text \<open>A record that satisfies the hypotheses: base64 and a folded checksum.\<close>

definition checksum_crypto :: crypto where
  "checksum_crypto =
    \<lparr>hmac = (\<lambda>k m. replicate 31 0 @ [foldl (\<lambda>a b. a * 31 + b) 7 (k @ m)]),
     b64_encode = base64_encode, b64_decode = base64_decode,
     b64url_encode = base64_encode, b64url_decode = base64_decode\<rparr>"

lemma checksum_crypto_ok: "crypto_ok checksum_crypto"
  by (simp add: crypto_ok_def checksum_crypto_def base64_decode_encode)

lemma checksum_b64_text: "b64_text checksum_crypto"
  by (simp add: b64_text_def checksum_crypto_def base64_ascii base64_length)

section \<open>Winnow primitives\<close>

text \<open>
  \<open>take_while(m..=n, p)\<close> on a complete byte slice splits off the longest prefix of at most \<open>n\<close>
  bytes satisfying \<open>p\<close> and fails when it has fewer than \<open>m\<close> bytes; \<open>take(n)\<close> splits off exactly
  \<open>n\<close> bytes and fails on a shorter slice. A result is the token and the remaining input.
\<close>

record winnow =
  wn_take_while :: "nat \<Rightarrow> nat \<Rightarrow> (u8 \<Rightarrow> bool) \<Rightarrow> bytes \<Rightarrow> (bytes \<times> bytes) option"
  wn_take :: "nat \<Rightarrow> bytes \<Rightarrow> (bytes \<times> bytes) option"

definition winnow_ok :: "winnow \<Rightarrow> bool" where
  "winnow_ok wn \<longleftrightarrow>
     (\<forall>m n p bs. wn_take_while wn m n p bs =
        (let d = takeWhile p (take n bs)
         in if length d < m then None else Some (d, drop (length d) bs)))
   \<and> (\<forall>n bs. wn_take wn n bs =
        (if length bs < n then None else Some (take n bs, drop n bs)))"

definition winnow_slice :: winnow where
  "winnow_slice =
    \<lparr>wn_take_while = (\<lambda>m n p bs. let d = takeWhile p (take n bs)
         in if length d < m then None else Some (d, drop (length d) bs)),
     wn_take = (\<lambda>n bs. if length bs < n then None else Some (take n bs, drop n bs))\<rparr>"

lemma winnow_slice_ok: "winnow_ok winnow_slice"
  by (simp add: winnow_ok_def winnow_slice_def)

end
