(* ===== verification/Link_Frame.thy ===== *)
theory Link_Frame
  imports Protocol_Errors External_Code
begin

text \<open>
  The length-prefixed JSON frames of the link handshake, \<open>crates/strata-protocol/src/frame.rs\<close>,
  over a duplex byte stream.

  A stream is what the code sees of one: the bytes the peer has sent before it stops, the bytes
  written so far, how many more bytes the peer will accept before writes fail, and the texts of the
  errors the operating system reports.
\<close>

record duplex =
  rx :: bytes
  tx :: bytes
  wr_room :: "nat option"
  wr_err :: str
  rd_err :: str
  flush_err :: "str option"

definition write_all :: "bytes \<Rightarrow> duplex \<Rightarrow> (str + unit) \<times> duplex" where
  "write_all bs d =
    (case wr_room d of
       None \<Rightarrow> (Inr (), d\<lparr>tx := tx d @ bs\<rparr>)
     | Some n \<Rightarrow>
         if length bs \<le> n then (Inr (), d\<lparr>tx := tx d @ bs, wr_room := Some (n - length bs)\<rparr>)
         else (Inl (wr_err d), d\<lparr>tx := tx d @ take n bs, wr_room := Some 0\<rparr>))"

definition flush :: "duplex \<Rightarrow> (str + unit) \<times> duplex" where
  "flush d = ((case flush_err d of None \<Rightarrow> Inr () | Some e \<Rightarrow> Inl e), d)"

definition read_exact :: "nat \<Rightarrow> duplex \<Rightarrow> (str + bytes) \<times> duplex" where
  "read_exact n d =
    (if n \<le> length (rx d) then (Inr (take n (rx d)), d\<lparr>rx := drop n (rx d)\<rparr>)
     else (Inl (rd_err d), d\<lparr>rx := []\<rparr>))"

definition MAX_FRAME_PAYLOAD :: nat where [bound_simps]: "MAX_FRAME_PAYLOAD = 64 * 1024"

definition write_frame :: "'a serde \<Rightarrow> 'a \<Rightarrow> duplex \<Rightarrow> (protocol_error + unit) \<times> duplex" where
  "write_frame j msg d =
    (case to_vec j msg of
       Inl e \<Rightarrow> (Inl (Malformed (''serialize: '' @ e)), d)
     | Inr body \<Rightarrow>
         if length body > MAX_FRAME_PAYLOAD then
           (Inl (Malformed (''frame too large: '' @ show_nat (length body) @ '' > ''
                            @ show_nat MAX_FRAME_PAYLOAD)), d)
         else
           (case write_all (u32_be (of_nat (length body))) d of
              (Inl e, d1) \<Rightarrow> (Inl (Malformed (''write len: '' @ e)), d1)
            | (Inr _, d1) \<Rightarrow>
                (case write_all body d1 of
                   (Inl e, d2) \<Rightarrow> (Inl (Malformed (''write body: '' @ e)), d2)
                 | (Inr _, d2) \<Rightarrow>
                     (case flush d2 of
                        (Inl e, d3) \<Rightarrow> (Inl (Malformed (''flush: '' @ e)), d3)
                      | (Inr _, d3) \<Rightarrow> (Inr (), d3)))))"

definition read_frame :: "'a serde \<Rightarrow> duplex \<Rightarrow> (protocol_error + 'a) \<times> duplex" where
  "read_frame j d =
    (case read_exact 4 d of
       (Inl e, d1) \<Rightarrow> (Inl (Malformed (''read len: '' @ e)), d1)
     | (Inr len_buf, d1) \<Rightarrow>
         let len = unat (u32_of_be len_buf) in
         if len > MAX_FRAME_PAYLOAD then
           (Inl (Malformed (''incoming frame too large: '' @ show_nat len @ '' > ''
                            @ show_nat MAX_FRAME_PAYLOAD)), d1)
         else
           (case read_exact len d1 of
              (Inl e, d2) \<Rightarrow> (Inl (Malformed (''read body: '' @ e)), d2)
            | (Inr body, d2) \<Rightarrow>
                (map_err (\<lambda>e. Malformed (''deserialize: '' @ e)) (from_slice j body), d2)))"

text \<open>The bytes of one frame, and the messages that fit in one.\<close>

definition frame_bytes :: "bytes \<Rightarrow> bytes" where
  "frame_bytes body = u32_be (of_nat (length body)) @ body"

definition fits_frame :: "'a serde \<Rightarrow> 'a \<Rightarrow> bytes \<Rightarrow> bool" where
  "fits_frame j msg body \<longleftrightarrow> to_vec j msg = Inr body \<and> length body \<le> MAX_FRAME_PAYLOAD"

text \<open>A stream whose write side never fails.\<close>

definition writable :: "duplex \<Rightarrow> bool" where
  "writable d \<longleftrightarrow> wr_room d = None \<and> flush_err d = None"

lemma frame_len_word:
  "length body \<le> MAX_FRAME_PAYLOAD \<Longrightarrow> unat (of_nat (length body) :: u32) = length body"
  by (simp add: MAX_FRAME_PAYLOAD_def unat_of_nat)

lemma write_frame_ok:
  assumes "fits_frame j msg body" "writable d"
  shows "write_frame j msg d = (Inr (), d\<lparr>tx := tx d @ frame_bytes body\<rparr>)"
  using assms
  by (simp add: fits_frame_def writable_def write_frame_def write_all_def flush_def frame_bytes_def)

lemma writable_tx [simp]: "writable (d\<lparr>tx := t\<rparr>) = writable d" "writable (d\<lparr>rx := r\<rparr>) = writable d"
  by (simp_all add: writable_def)

lemma read_frame_ok:
  assumes "serde_ok j" "fits_frame j msg body" "rx d = frame_bytes body @ rest"
  shows "read_frame j d = (Inr msg, d\<lparr>rx := rest\<rparr>)"
proof -
  from assms(2) have "to_vec j msg = Inr body" "length body \<le> MAX_FRAME_PAYLOAD"
    by (simp_all add: fits_frame_def)
  with assms(1,3) show ?thesis
    by (simp add: read_frame_def read_exact_def frame_bytes_def frame_len_word serde_okD)
qed

text \<open>An announced length above the cap is refused before any body byte is read.\<close>

lemma read_frame_oversize:
  assumes "rx d = u32_be n @ rest" "MAX_FRAME_PAYLOAD < unat n"
  shows "\<exists>m. read_frame j d = (Inl (Malformed m), d\<lparr>rx := rest\<rparr>)"
  using assms by (simp add: read_frame_def read_exact_def)

text \<open>A stream that ends inside a frame is refused.\<close>

lemma read_frame_truncated:
  assumes "rx d = p" "strict_prefix p (frame_bytes body)" "length body \<le> MAX_FRAME_PAYLOAD"
  shows "\<exists>m d'. read_frame j d = (Inl (Malformed m), d')"
proof (cases "length p < 4")
  case True
  with assms(1) show ?thesis by (simp add: read_frame_def read_exact_def)
next
  case False
  obtain q where q: "frame_bytes body = p @ q" using assms(2)
    by (auto simp: strict_prefix_def prefix_def)
  then have "take 4 p = take 4 (frame_bytes body)" using False by simp
  then have "take 4 p = u32_be (of_nat (length body))" by (simp add: frame_bytes_def)
  moreover have "\<not> length body \<le> length p - 4"
    using prefix_length_less [OF assms(2)] False by (simp add: frame_bytes_def)
  ultimately show ?thesis using assms False
    by (simp add: read_frame_def read_exact_def frame_len_word Let_def)
qed

section \<open>Properties\<close>

text \<open>A frame written to a working stream is read back as the message, leaving what follows it.\<close>

lemma frame_roundtrip:
  assumes "serde_ok j" "to_vec j msg = Inr body" "length body \<le> MAX_FRAME_PAYLOAD" "writable d"
    and "rx d' = tx (snd (write_frame j msg (d\<lparr>tx := []\<rparr>))) @ rest"
  shows "fst (write_frame j msg (d\<lparr>tx := []\<rparr>)) = Inr () \<and> read_frame j d' = (Inr msg, d'\<lparr>rx := rest\<rparr>)"
proof -
  have f: "fits_frame j msg body" using assms(2,3) by (simp add: fits_frame_def)
  have w: "write_frame j msg (d\<lparr>tx := []\<rparr>) = (Inr (), d\<lparr>tx := frame_bytes body\<rparr>)"
    using write_frame_ok [OF f, of "d\<lparr>tx := []\<rparr>"] assms(4) by simp
  with read_frame_ok [OF assms(1) f, of d' rest] assms(5) show ?thesis by simp
qed

definition byte_serde :: "u8 serde" where
  "byte_serde = \<lparr>to_vec = (\<lambda>b. Inr [b]), from_slice = (\<lambda>bs. if length bs = 1 then Inr (hd bs) else Inl ''eof'')\<rparr>"

definition idle_duplex :: "bytes \<Rightarrow> duplex" where
  "idle_duplex incoming = \<lparr>rx = incoming, tx = [], wr_room = None, wr_err = [], rd_err = [], flush_err = None\<rparr>"

text \<open>A peer cannot make the reader buffer more than 64 KiB: an announced length above the cap is
  refused with the body still unread, and any accepted message came from a body within the cap.\<close>

lemma frame_cap:
  "(\<forall>n rest. rx d = u32_be n @ rest \<longrightarrow> MAX_FRAME_PAYLOAD < unat n \<longrightarrow>
      (\<exists>m. read_frame j d = (Inl (Malformed m), d\<lparr>rx := rest\<rparr>)))
   \<and> (\<forall>msg d'. read_frame j d = (Inr msg, d') \<longrightarrow>
      (\<exists>body. length body \<le> MAX_FRAME_PAYLOAD \<and> rx d = frame_bytes body @ rx d'
          \<and> from_slice j body = Inr msg))"
proof (intro conjI allI impI)
  fix n rest
  assume "rx d = u32_be n @ rest" "MAX_FRAME_PAYLOAD < unat n"
  then show "\<exists>m. read_frame j d = (Inl (Malformed m), d\<lparr>rx := rest\<rparr>)" by (rule read_frame_oversize)
next
  fix msg d'
  assume r: "read_frame j d = (Inr msg, d')"
  define len where "len = unat (u32_of_be (take 4 (rx d)))"
  from r have c: "4 \<le> length (rx d)" "len \<le> MAX_FRAME_PAYLOAD" "len \<le> length (drop 4 (rx d))"
    and b: "from_slice j (take len (drop 4 (rx d))) = Inr msg" "rx d' = drop len (drop 4 (rx d))"
    by (auto simp: read_frame_def read_exact_def Let_def len_def result_simps split: if_splits)
  have "u32_be (of_nat len) = take 4 (rx d)" using c(1) by (simp add: len_def u32_be_of_be)
  then have "rx d = frame_bytes (take len (drop 4 (rx d))) @ rx d'"
    using c b(2) append_take_drop_id [of 4 "rx d"] append_take_drop_id [of len "drop 4 (rx d)"]
    by (simp add: frame_bytes_def del: append_take_drop_id drop_drop)
  with c b show "\<exists>body. length body \<le> MAX_FRAME_PAYLOAD \<and> rx d = frame_bytes body @ rx d'
      \<and> from_slice j body = Inr msg"
    by (intro exI [of _ "take len (drop 4 (rx d))"]) simp
qed

end
