(* ===== verification/Handshake.thy ===== *)
theory Handshake
  imports Protocol_Errors External_Code
begin

text \<open>
  The messages of the link handshake and the transcript MAC that authenticates it,
  \<open>crates/strata-protocol/src/handshake.rs\<close>. Base64 and HMAC are the \<open>crypto\<close> argument; the
  random nonce and the clock are arguments of the operations that read them.
\<close>

definition NONCE_LEN :: nat where [bound_simps]: "NONCE_LEN = 32"
definition HANDSHAKE_MAX_SKEW_MS :: int where [bound_simps]: "HANDSHAKE_MAX_SKEW_MS = 30000"

record auth_hello =
  protocol_version :: str
  cluster_id :: str
  node_id :: str
  software_version :: str
  client_nonce_b64 :: str
  timestamp_ms :: i64

record auth_challenge =
  server_nonce_b64 :: str
  psk_id :: str

record auth_response =
  mac_b64 :: str

datatype auth_outcome =
    Accept str "str option"
  | Reject str

definition fresh_nonce_b64 :: "crypto \<Rightarrow> bytes \<Rightarrow> str" where
  "fresh_nonce_b64 cr random = b64_encode cr (take NONCE_LEN random)"

definition transcript ::
    "bytes \<Rightarrow> bytes \<Rightarrow> str \<Rightarrow> str \<Rightarrow> i64 \<Rightarrow> str \<Rightarrow> bytes" where
  "transcript client_nonce server_nonce cluster node ts psk =
     lp_concat [as_bytes PROTOCOL_VERSION_STR, client_nonce, server_nonce, as_bytes cluster,
                as_bytes node, u64_be ts, as_bytes psk]"

text \<open>The two nonces, decoded and checked for length, in the order the code does it.\<close>

definition decode_nonces ::
    "crypto \<Rightarrow> auth_hello \<Rightarrow> auth_challenge \<Rightarrow> protocol_error + (bytes \<times> bytes)" where
  "decode_nonces cr hello challenge =
     and_then (ok_or (b64_decode cr (client_nonce_b64 hello)) (Malformed ''client_nonce_b64''))
       (\<lambda>client_nonce.
     and_then (ok_or (b64_decode cr (server_nonce_b64 challenge)) (Malformed ''server_nonce_b64''))
       (\<lambda>server_nonce.
        if length client_nonce \<noteq> NONCE_LEN \<or> length server_nonce \<noteq> NONCE_LEN
        then Inl (Malformed ''nonce length'') else Inr (client_nonce, server_nonce)))"

definition compute_response ::
    "crypto \<Rightarrow> auth_hello \<Rightarrow> auth_challenge \<Rightarrow> bytes \<Rightarrow> protocol_error + auth_response" where
  "compute_response cr hello challenge psk =
     and_then (decode_nonces cr hello challenge) (\<lambda>(client_nonce, server_nonce).
       Inr \<lparr>mac_b64 = b64_encode cr (hmac cr psk
              (transcript client_nonce server_nonce (cluster_id hello) (node_id hello)
                 (timestamp_ms hello) (psk_id challenge)))\<rparr>)"

definition verify_response ::
    "crypto \<Rightarrow> auth_hello \<Rightarrow> auth_challenge \<Rightarrow> auth_response \<Rightarrow> bytes \<Rightarrow> i64
       \<Rightarrow> protocol_error + unit" where
  "verify_response cr hello challenge response psk now_ms =
    (if protocol_version hello \<noteq> PROTOCOL_VERSION_STR then
       Inl (VersionMismatch (protocol_version hello) PROTOCOL_VERSION_STR)
     else if skew_exceeds now_ms (timestamp_ms hello) HANDSHAKE_MAX_SKEW_MS then Inl Skew
     else and_then (decode_nonces cr hello challenge) (\<lambda>(client_nonce, server_nonce).
       and_then (ok_or (b64_decode cr (mac_b64 response)) (Malformed ''mac_b64'')) (\<lambda>tag.
         if verify_slice cr psk
              (transcript client_nonce server_nonce (cluster_id hello) (node_id hello)
                 (timestamp_ms hello) (psk_id challenge)) tag
         then Inr () else Inl (AuthFailed ''response mac mismatch''))))"

section \<open>The transcript\<close>

text \<open>Identifiers short enough for their length prefix; a frame holds at most 64 KiB.\<close>

definition ids_fit :: "auth_hello \<Rightarrow> auth_challenge \<Rightarrow> bool" where
  "ids_fit hello challenge \<longleftrightarrow>
     length (cluster_id hello) < 2 ^ 32 \<and> length (node_id hello) < 2 ^ 32
   \<and> length (psk_id challenge) < 2 ^ 32"

lemma transcript_inj:
  assumes "transcript cn sn cl nd ts pk = transcript cn' sn' cl' nd' ts' pk'"
    and "length cn = NONCE_LEN" "length sn = NONCE_LEN" "length cn' = NONCE_LEN"
      "length sn' = NONCE_LEN"
    and "length cl < 2 ^ 32" "length nd < 2 ^ 32" "length pk < 2 ^ 32"
    and "length cl' < 2 ^ 32" "length nd' < 2 ^ 32" "length pk' < 2 ^ 32"
  shows "cn = cn' \<and> sn = sn' \<and> cl = cl' \<and> nd = nd' \<and> ts = ts' \<and> pk = pk'"
proof -
  have "[as_bytes PROTOCOL_VERSION_STR, cn, sn, as_bytes cl, as_bytes nd, u64_be ts, as_bytes pk] =
    [as_bytes PROTOCOL_VERSION_STR, cn', sn', as_bytes cl', as_bytes nd', u64_be ts', as_bytes pk']"
    using assms
    by (intro lp_concat_inj) (simp_all add: transcript_def NONCE_LEN_def PROTOCOL_VERSION_STR_def)
  then show ?thesis by simp
qed

section \<open>Responses\<close>

lemma decode_nonces_Inr:
  "decode_nonces cr hello challenge = Inr (cn, sn) \<longleftrightarrow>
     b64_decode cr (client_nonce_b64 hello) = Some cn \<and>
     b64_decode cr (server_nonce_b64 challenge) = Some sn \<and>
     length cn = NONCE_LEN \<and> length sn = NONCE_LEN"
  by (auto simp: decode_nonces_def result_simps)

lemma decode_nonces_fresh:
  assumes "crypto_ok cr" "NONCE_LEN \<le> length r" "NONCE_LEN \<le> length s"
    and "client_nonce_b64 hello = fresh_nonce_b64 cr r"
    and "server_nonce_b64 challenge = fresh_nonce_b64 cr s"
  shows "decode_nonces cr hello challenge = Inr (take NONCE_LEN r, take NONCE_LEN s)"
  using assms by (simp add: decode_nonces_Inr fresh_nonce_b64_def crypto_okD)

text \<open>What the verifier accepts, whatever the order of its checks.\<close>

lemma verify_response_Inr:
  "verify_response cr hello challenge response psk now_ms = Inr () \<longleftrightarrow>
     protocol_version hello = PROTOCOL_VERSION_STR
   \<and> \<not> skew_exceeds now_ms (timestamp_ms hello) HANDSHAKE_MAX_SKEW_MS
   \<and> (\<exists>cn sn. decode_nonces cr hello challenge = Inr (cn, sn)
        \<and> b64_decode cr (mac_b64 response) =
            Some (hmac cr psk (transcript cn sn (cluster_id hello) (node_id hello)
                    (timestamp_ms hello) (psk_id challenge))))"
  by (auto simp: verify_response_def verify_slice_def result_simps split: if_splits)

lemma verify_compute:
  assumes "crypto_ok cr" "compute_response cr hello challenge psk = Inr response"
    and "protocol_version hello = PROTOCOL_VERSION_STR"
    and "\<not> skew_exceeds now_ms (timestamp_ms hello) HANDSHAKE_MAX_SKEW_MS"
  shows "verify_response cr hello challenge response psk now_ms = Inr ()"
  using assms by (auto simp: verify_response_Inr compute_response_def result_simps crypto_okD)

text \<open>
  One response accepted in two sessions: either the sessions agree on both nonces, the identities,
  the timestamp and the key label, or two different transcripts have the same tag under the key.
\<close>

lemma verify_response_session:
  assumes "verify_response cr h c r psk now1 = Inr ()" "verify_response cr h' c' r psk now2 = Inr ()"
    and "ids_fit h c" "ids_fit h' c'"
  shows "(decode_nonces cr h c = decode_nonces cr h' c' \<and> cluster_id h = cluster_id h'
          \<and> node_id h = node_id h' \<and> timestamp_ms h = timestamp_ms h' \<and> psk_id c = psk_id c')
       \<or> (\<exists>m m'. hmac_collision cr psk m m')"
proof -
  from assms(1,2) obtain cn sn cn' sn' where
    n: "decode_nonces cr h c = Inr (cn, sn)" "decode_nonces cr h' c' = Inr (cn', sn')"
    and eq: "hmac cr psk (transcript cn sn (cluster_id h) (node_id h) (timestamp_ms h) (psk_id c)) =
      hmac cr psk (transcript cn' sn' (cluster_id h') (node_id h') (timestamp_ms h') (psk_id c'))"
    (is "hmac cr psk ?t = hmac cr psk ?t'")
    by (auto simp: verify_response_Inr)
  show ?thesis
  proof (cases "?t = ?t'")
    case True
    then have "cn = cn' \<and> sn = sn' \<and> cluster_id h = cluster_id h' \<and> node_id h = node_id h'
      \<and> timestamp_ms h = timestamp_ms h' \<and> psk_id c = psk_id c'"
      by (rule transcript_inj) (use assms(3,4) n in \<open>simp_all add: ids_fit_def decode_nonces_Inr\<close>)
    with n show ?thesis by simp
  next
    case False
    with eq show ?thesis by (auto simp: hmac_collision_def)
  qed
qed

section \<open>Properties\<close>

definition sample_hello :: auth_hello where
  "sample_hello = \<lparr>protocol_version = PROTOCOL_VERSION_STR, cluster_id = ''c1'', node_id = ''n1'',
     software_version = ''2.0'', client_nonce_b64 = fresh_nonce_b64 checksum_crypto (replicate 32 7),
     timestamp_ms = 1000\<rparr>"

definition sample_challenge :: auth_challenge where
  "sample_challenge = \<lparr>server_nonce_b64 = fresh_nonce_b64 checksum_crypto (replicate 32 9), psk_id = ''k1''\<rparr>"

definition sample_response :: auth_response where
  "sample_response = \<lparr>mac_b64 = b64_encode checksum_crypto (hmac checksum_crypto [1, 2, 3]
     (transcript (replicate 32 7) (replicate 32 9) ''c1'' ''n1'' 1000 ''k1''))\<rparr>"

lemma sample_nonces: "decode_nonces checksum_crypto sample_hello sample_challenge = Inr (replicate 32 7, replicate 32 9)"
  using decode_nonces_fresh [OF checksum_crypto_ok, of "replicate 32 7" "replicate 32 9" sample_hello sample_challenge]
  by (simp add: sample_hello_def sample_challenge_def NONCE_LEN_def)

lemma sample_compute:
  "compute_response checksum_crypto sample_hello sample_challenge [1, 2, 3] = Inr sample_response"
  by (simp add: compute_response_def sample_nonces sample_response_def)
    (simp add: sample_hello_def sample_challenge_def)

lemma sample_verify:
  "verify_response checksum_crypto sample_hello sample_challenge sample_response [1, 2, 3] 2000 = Inr ()"
  by (rule verify_compute [OF checksum_crypto_ok sample_compute])
    (simp_all add: sample_hello_def skew_exceeds_def i64_abs_def HANDSHAKE_MAX_SKEW_MS_def)

text \<open>A response that verifies is bound to its session: if it also verifies against another
  hello and challenge under the same key, both nonces, the cluster, the node, the timestamp and the
  key label are the same, or two different transcripts collide under the MAC.\<close>

lemma response_binds_session:
  assumes "verify_response cr h c r psk now1 = Inr ()" "verify_response cr h' c' r psk now2 = Inr ()"
    and "ids_fit h c" "ids_fit h' c'"
  shows "(decode_nonces cr h c = decode_nonces cr h' c' \<and> cluster_id h = cluster_id h'
          \<and> node_id h = node_id h' \<and> timestamp_ms h = timestamp_ms h' \<and> psk_id c = psk_id c')
       \<or> (\<exists>m m'. hmac_collision cr psk m m')"
  by (rule verify_response_session [OF assms])

definition sample_hello_upgraded :: auth_hello where
  "sample_hello_upgraded = sample_hello\<lparr>software_version := ''9.9''\<rparr>"

lemma sample_upgraded_verify:
  "verify_response checksum_crypto sample_hello_upgraded sample_challenge sample_response [1, 2, 3] 3000 = Inr ()"
proof -
  have "decode_nonces checksum_crypto sample_hello_upgraded sample_challenge = Inr (replicate 32 7, replicate 32 9)"
    using sample_nonces by (simp add: decode_nonces_def sample_hello_upgraded_def)
  then have "compute_response checksum_crypto sample_hello_upgraded sample_challenge [1, 2, 3] = Inr sample_response"
    by (simp add: compute_response_def sample_response_def)
      (simp add: sample_hello_def sample_challenge_def sample_hello_upgraded_def)
  from verify_compute [OF checksum_crypto_ok this] show ?thesis
    by (simp add: sample_hello_def sample_hello_upgraded_def skew_exceeds_def i64_abs_def HANDSHAKE_MAX_SKEW_MS_def)
qed

text \<open>The skew test of the handshake accepts exactly the timestamps within 30 seconds of the
  clock, for every clock reading before the year 146 million, and additionally the single timestamp
  that lies \<open>2 ^ 63\<close> milliseconds before the clock, where the wrapping absolute value is negative.\<close>

lemma handshake_skew_exact:
  assumes "0 \<le> sint now_ms" "sint now_ms < 2 ^ 62"
  shows "\<not> skew_exceeds now_ms (timestamp_ms hello) HANDSHAKE_MAX_SKEW_MS \<longleftrightarrow>
    \<bar>sint now_ms - sint (timestamp_ms hello)\<bar> \<le> 30000
    \<or> sint (timestamp_ms hello) = sint now_ms - 2 ^ 63"
  using skew_exceeds_iff [OF assms, of 30000] by (simp add: HANDSHAKE_MAX_SKEW_MS_def)

end
