(* ===== verification/Link_Handshake.thy ===== *)
theory Link_Handshake
  imports Link_Frame Handshake
begin

text \<open>
  The two handshake drivers, \<open>crates/strata-protocol/src/link.rs\<close>: what the internal node and the
  DMZ do with one duplex stream between connecting and handing it to HTTP/2. The clock readings, the
  random bytes and whether the 15 second budget ran out are arguments.
\<close>

record handshake_serde =
  hello_json :: "auth_hello serde"
  challenge_json :: "auth_challenge serde"
  response_json :: "auth_response serde"
  outcome_json :: "auth_outcome serde"

definition handshake_serde_ok :: "handshake_serde \<Rightarrow> bool" where
  "handshake_serde_ok js \<longleftrightarrow> serde_ok (hello_json js) \<and> serde_ok (challenge_json js)
     \<and> serde_ok (response_json js) \<and> serde_ok (outcome_json js)"

record client_handshake_config =
  cc_cluster_id :: str
  cc_node_id :: str
  cc_software_version :: str
  cc_psks :: "str \<rightharpoonup> bytes"

record link_accepted =
  la_link_id :: str
  la_remote_software_version :: "str option"

record server_handshake_config =
  sc_psk_id :: str
  sc_psks :: "str \<rightharpoonup> bytes"
  sc_link_id :: str
  sc_software_version :: str

record link_peer =
  lp_cluster_id :: str
  lp_node_id :: str
  lp_software_version :: str

definition with_timeout :: "bool \<Rightarrow> protocol_error + 'a \<Rightarrow> protocol_error + 'a" where
  "with_timeout expired r = (if expired then Inl (AuthFailed ''handshake timed out'') else r)"

definition client_hello :: "crypto \<Rightarrow> client_handshake_config \<Rightarrow> bytes \<Rightarrow> i64 \<Rightarrow> auth_hello" where
  "client_hello cr cfg random now_ms =
     \<lparr>protocol_version = PROTOCOL_VERSION_STR, cluster_id = cc_cluster_id cfg,
      node_id = cc_node_id cfg, software_version = cc_software_version cfg,
      client_nonce_b64 = fresh_nonce_b64 cr random, timestamp_ms = now_ms\<rparr>"

definition client_handshake ::
    "crypto \<Rightarrow> handshake_serde \<Rightarrow> client_handshake_config \<Rightarrow> bytes \<Rightarrow> i64 \<Rightarrow> bool \<Rightarrow> duplex
       \<Rightarrow> (protocol_error + link_accepted) \<times> duplex" where
  "client_handshake cr js cfg random now_ms expired d =
    (let hello = client_hello cr cfg random now_ms;
         (r, d') =
       (case write_frame (hello_json js) hello d of
          (Inl e, d1) \<Rightarrow> (Inl e, d1)
        | (Inr _, d1) \<Rightarrow>
       (case read_frame (challenge_json js) d1 of
          (Inl e, d2) \<Rightarrow> (Inl e, d2)
        | (Inr challenge, d2) \<Rightarrow>
       (case cc_psks cfg (psk_id challenge) of
          None \<Rightarrow> (Inl (AuthFailed (''DMZ requested psk_id='' @ debug_str (psk_id challenge)
                                    @ '', not configured'')), d2)
        | Some psk \<Rightarrow>
       (case compute_response cr hello challenge psk of
          Inl e \<Rightarrow> (Inl e, d2)
        | Inr response \<Rightarrow>
       (case write_frame (response_json js) response d2 of
          (Inl e, d3) \<Rightarrow> (Inl e, d3)
        | (Inr _, d3) \<Rightarrow>
       (case read_frame (outcome_json js) d3 of
          (Inl e, d4) \<Rightarrow> (Inl e, d4)
        | (Inr (Accept lid ver), d4) \<Rightarrow>
            (Inr \<lparr>la_link_id = lid, la_remote_software_version = ver\<rparr>, d4)
        | (Inr (Reject why), d4) \<Rightarrow> (Inl (AuthFailed why), d4)))))))
     in (with_timeout expired r, d'))"

definition server_challenge :: "crypto \<Rightarrow> server_handshake_config \<Rightarrow> bytes \<Rightarrow> auth_challenge" where
  "server_challenge cr cfg random =
     \<lparr>server_nonce_b64 = fresh_nonce_b64 cr random, psk_id = sc_psk_id cfg\<rparr>"

definition server_handshake ::
    "crypto \<Rightarrow> handshake_serde \<Rightarrow> server_handshake_config \<Rightarrow> bytes \<Rightarrow> i64 \<Rightarrow> bool \<Rightarrow> duplex
       \<Rightarrow> (protocol_error + link_peer) \<times> duplex" where
  "server_handshake cr js cfg random now_ms expired d =
    (let (r, d') =
       (case read_frame (hello_json js) d of
          (Inl e, d1) \<Rightarrow> (Inl e, d1)
        | (Inr hello, d1) \<Rightarrow>
       (case sc_psks cfg (sc_psk_id cfg) of
          None \<Rightarrow> (Inl (AuthFailed (''configured psk_id='' @ debug_str (sc_psk_id cfg)
                                    @ '' missing from psk map'')), d1)
        | Some psk \<Rightarrow>
       (let challenge = server_challenge cr cfg random in
        case write_frame (challenge_json js) challenge d1 of
          (Inl e, d2) \<Rightarrow> (Inl e, d2)
        | (Inr _, d2) \<Rightarrow>
       (case read_frame (response_json js) d2 of
          (Inl e, d3) \<Rightarrow> (Inl e, d3)
        | (Inr response, d3) \<Rightarrow>
       (case verify_response cr hello challenge response psk now_ms of
          Inr _ \<Rightarrow>
            (case write_frame (outcome_json js)
                    (Accept (sc_link_id cfg) (Some (sc_software_version cfg))) d3 of
               (Inl e, d4) \<Rightarrow> (Inl e, d4)
             | (Inr _, d4) \<Rightarrow>
                 (Inr \<lparr>lp_cluster_id = cluster_id hello, lp_node_id = node_id hello,
                       lp_software_version = software_version hello\<rparr>, d4))
        | Inl e \<Rightarrow>
            (Inl e, snd (write_frame (outcome_json js) (Reject ''authentication failed'') d3)))))))
     in (with_timeout expired r, d'))"

section \<open>Agreement\<close>

text \<open>
  The messages of an honest run: the hello, challenge and response the two drivers compute from their
  configurations, random bytes and clocks, and the JSON bodies that carry them.
\<close>

record honest_run =
  hr_hello :: bytes
  hr_challenge :: bytes
  hr_response :: bytes
  hr_outcome :: bytes

definition honest ::
    "crypto \<Rightarrow> handshake_serde \<Rightarrow> client_handshake_config \<Rightarrow> server_handshake_config
       \<Rightarrow> bytes \<Rightarrow> bytes \<Rightarrow> i64 \<Rightarrow> bytes \<Rightarrow> honest_run \<Rightarrow> bool" where
  "honest cr js cc sc rc rs client_now psk run \<longleftrightarrow>
     cc_psks cc (sc_psk_id sc) = Some psk \<and> sc_psks sc (sc_psk_id sc) = Some psk
   \<and> NONCE_LEN \<le> length rc \<and> NONCE_LEN \<le> length rs
   \<and> fits_frame (hello_json js) (client_hello cr cc rc client_now) (hr_hello run)
   \<and> fits_frame (challenge_json js) (server_challenge cr sc rs) (hr_challenge run)
   \<and> (\<exists>response. compute_response cr (client_hello cr cc rc client_now)
                    (server_challenge cr sc rs) psk = Inr response
        \<and> fits_frame (response_json js) response (hr_response run))
   \<and> fits_frame (outcome_json js) (Accept (sc_link_id sc) (Some (sc_software_version sc)))
        (hr_outcome run)"

lemma client_handshake_honest:
  assumes "handshake_serde_ok js" "honest cr js cc sc rc rs now psk run" "writable d"
    and "rx d = frame_bytes (hr_challenge run) @ frame_bytes (hr_outcome run)"
  shows "client_handshake cr js cc rc now False d =
    (Inr \<lparr>la_link_id = sc_link_id sc, la_remote_software_version = Some (sc_software_version sc)\<rparr>,
     d\<lparr>rx := [], tx := tx d @ frame_bytes (hr_hello run) @ frame_bytes (hr_response run)\<rparr>)"
proof -
  from assms(2) obtain response where
    resp: "compute_response cr (client_hello cr cc rc now) (server_challenge cr sc rs) psk = Inr response"
    and fits: "fits_frame (response_json js) response (hr_response run)"
      "fits_frame (hello_json js) (client_hello cr cc rc now) (hr_hello run)"
      "fits_frame (challenge_json js) (server_challenge cr sc rs) (hr_challenge run)"
      "fits_frame (outcome_json js) (Accept (sc_link_id sc) (Some (sc_software_version sc)))
         (hr_outcome run)"
    and psk: "cc_psks cc (psk_id (server_challenge cr sc rs)) = Some psk"
    by (auto simp: honest_def server_challenge_def)
  from assms(1) have js: "serde_ok (challenge_json js)" "serde_ok (outcome_json js)"
    by (simp_all add: handshake_serde_ok_def)
  show ?thesis
    by (simp add: client_handshake_def with_timeout_def assms(3,4) resp psk
        write_frame_ok [OF fits(1)] write_frame_ok [OF fits(2)]
        read_frame_ok [OF js(1) fits(3)] read_frame_ok [OF js(2) fits(4), of _ "[]"])
qed

lemma server_handshake_honest:
  assumes "crypto_ok cr" "handshake_serde_ok js" "honest cr js cc sc rc rs now psk run" "writable d"
    and "rx d = frame_bytes (hr_hello run) @ frame_bytes (hr_response run)"
    and "\<not> skew_exceeds server_now now HANDSHAKE_MAX_SKEW_MS"
  shows "server_handshake cr js sc rs server_now False d =
    (Inr \<lparr>lp_cluster_id = cc_cluster_id cc, lp_node_id = cc_node_id cc,
          lp_software_version = cc_software_version cc\<rparr>,
     d\<lparr>rx := [], tx := tx d @ frame_bytes (hr_challenge run) @ frame_bytes (hr_outcome run)\<rparr>)"
proof -
  let ?h = "client_hello cr cc rc now" and ?c = "server_challenge cr sc rs"
  from assms(3) obtain response where
    resp: "compute_response cr ?h ?c psk = Inr response"
    and fits: "fits_frame (response_json js) response (hr_response run)"
      "fits_frame (hello_json js) ?h (hr_hello run)"
      "fits_frame (challenge_json js) ?c (hr_challenge run)"
      "fits_frame (outcome_json js) (Accept (sc_link_id sc) (Some (sc_software_version sc)))
         (hr_outcome run)"
    and psk: "sc_psks sc (sc_psk_id sc) = Some psk"
    by (auto simp: honest_def)
  from assms(2) have js: "serde_ok (hello_json js)" "serde_ok (response_json js)"
    by (simp_all add: handshake_serde_ok_def)
  have "verify_response cr ?h ?c response psk server_now = Inr ()"
    using assms(1,6) resp by (intro verify_compute) (simp_all add: client_hello_def)
  then show ?thesis
    by (simp add: server_handshake_def with_timeout_def assms(4,5) psk
        write_frame_ok [OF fits(3)] write_frame_ok [OF fits(4)]
        read_frame_ok [OF js(1) fits(2)] read_frame_ok [OF js(2) fits(1), of _ "[]"])
      (simp add: client_hello_def)
qed

section \<open>What acceptance means\<close>

lemma server_handshake_accepts:
  assumes "server_handshake cr js sc rs server_now expired d = (Inr peer, d')"
  shows "\<exists>hello response psk d1 d3.
     read_frame (hello_json js) d = (Inr hello, d1)
   \<and> sc_psks sc (sc_psk_id sc) = Some psk
   \<and> verify_response cr hello (server_challenge cr sc rs) response psk server_now = Inr ()
   \<and> read_frame (response_json js)
       (snd (write_frame (challenge_json js) (server_challenge cr sc rs) d1)) = (Inr response, d3)
   \<and> lp_cluster_id peer = cluster_id hello \<and> lp_node_id peer = node_id hello"
  using assms
  by (auto simp: server_handshake_def with_timeout_def Let_def
      split: prod.splits sum.splits option.splits if_splits)

lemma server_handshake_reject:
  assumes "read_frame (hello_json js) d = (Inr hello, d1)"
    and "sc_psks sc (sc_psk_id sc) = Some psk"
    and "write_frame (challenge_json js) (server_challenge cr sc rs) d1 = (Inr (), d2)"
    and "read_frame (response_json js) d2 = (Inr response, d3)"
    and "verify_response cr hello (server_challenge cr sc rs) response psk server_now = Inl e"
  shows "server_handshake cr js sc rs server_now False d =
    (Inl e, snd (write_frame (outcome_json js) (Reject ''authentication failed'') d3))"
  using assms by (simp add: server_handshake_def with_timeout_def)

lemma client_handshake_accepts:
  assumes "client_handshake cr js cc rc now expired d = (Inr acc, d')"
  shows "\<exists>challenge psk response d1 d2 d3 d4.
     write_frame (hello_json js) (client_hello cr cc rc now) d = (Inr (), d1)
   \<and> read_frame (challenge_json js) d1 = (Inr challenge, d2)
   \<and> cc_psks cc (psk_id challenge) = Some psk
   \<and> compute_response cr (client_hello cr cc rc now) challenge psk = Inr response
   \<and> write_frame (response_json js) response d2 = (Inr (), d3)
   \<and> read_frame (outcome_json js) d3 =
       (Inr (Accept (la_link_id acc) (la_remote_software_version acc)), d4)"
  using assms
  by (auto simp: client_handshake_def with_timeout_def Let_def
      split: prod.splits sum.splits option.splits if_splits auth_outcome.splits)

section \<open>Properties\<close>

text \<open>C1: the two handshake drivers agree. When both sides hold the key the DMZ asks for, the client's
  clock passes the skew test and every message fits a frame, the client accepts the link id and the
  version the DMZ announces, the DMZ accepts the client's cluster and node, and the bytes each side
  writes are exactly the bytes the other side reads.\<close>

theorem link_agreement:
  assumes "crypto_ok cr" "handshake_serde_ok js" "honest cr js cc sc rc rs now psk run"
    and "\<not> skew_exceeds server_now now HANDSHAKE_MAX_SKEW_MS"
    and "writable c" "writable s"
    and "rx c = frame_bytes (hr_challenge run) @ frame_bytes (hr_outcome run)"
    and "rx s = frame_bytes (hr_hello run) @ frame_bytes (hr_response run)"
  shows "client_handshake cr js cc rc now False c =
      (Inr \<lparr>la_link_id = sc_link_id sc, la_remote_software_version = Some (sc_software_version sc)\<rparr>,
       c\<lparr>rx := [], tx := tx c @ rx s\<rparr>)
    \<and> server_handshake cr js sc rs server_now False s =
      (Inr \<lparr>lp_cluster_id = cc_cluster_id cc, lp_node_id = cc_node_id cc,
            lp_software_version = cc_software_version cc\<rparr>,
       s\<lparr>rx := [], tx := tx s @ rx c\<rparr>)"
  using client_handshake_honest [OF assms(2,3,5,7)]
    server_handshake_honest [OF assms(1,2,3,6,8,4)] assms(7,8)
  by simp

definition one_serde :: "'a \<Rightarrow> bytes \<Rightarrow> 'a serde" where
  "one_serde msg body =
    \<lparr>to_vec = (\<lambda>x. if x = msg then Inr body else Inl ''no''),
     from_slice = (\<lambda>b. if b = body then Inr msg else Inl ''no'')\<rparr>"

lemma one_serde_ok [simp]: "serde_ok (one_serde msg body)"
  by (simp add: serde_ok_def one_serde_def)

lemma one_serde_fits [simp]: "fits_frame (one_serde msg body) msg body \<longleftrightarrow> length body \<le> MAX_FRAME_PAYLOAD"
  by (simp add: fits_frame_def one_serde_def)

definition sample_client :: client_handshake_config where
  "sample_client = \<lparr>cc_cluster_id = ''c1'', cc_node_id = ''n1'', cc_software_version = ''2.0'',
     cc_psks = [''k1'' \<mapsto> [1, 2, 3]]\<rparr>"

definition sample_server :: server_handshake_config where
  "sample_server = \<lparr>sc_psk_id = ''k1'', sc_psks = [''k1'' \<mapsto> [1, 2, 3]], sc_link_id = ''link-7'',
     sc_software_version = ''2.1''\<rparr>"

definition sample_serde :: handshake_serde where
  "sample_serde =
    \<lparr>hello_json = one_serde sample_hello [10], challenge_json = one_serde sample_challenge [20, 21],
     response_json = one_serde sample_response [30],
     outcome_json = one_serde (Accept ''link-7'' (Some ''2.1'')) [40]\<rparr>"

definition sample_run :: honest_run where
  "sample_run = \<lparr>hr_hello = [10], hr_challenge = [20, 21], hr_response = [30], hr_outcome = [40]\<rparr>"

lemma sample_messages:
  "client_hello checksum_crypto sample_client (replicate 32 7) 1000 = sample_hello"
  "server_challenge checksum_crypto sample_server (replicate 32 9) = sample_challenge"
  by (simp_all add: client_hello_def sample_client_def sample_hello_def server_challenge_def
      sample_server_def sample_challenge_def)

lemma sample_serde_ok: "handshake_serde_ok sample_serde"
  by (simp add: handshake_serde_ok_def sample_serde_def)

lemma sample_honest:
  "honest checksum_crypto sample_serde sample_client sample_server (replicate 32 7) (replicate 32 9)
     1000 [1, 2, 3] sample_run"
  by (simp add: honest_def sample_messages sample_compute NONCE_LEN_def sample_run_def sample_serde_def
      MAX_FRAME_PAYLOAD_def) (simp add: sample_client_def sample_server_def MAX_FRAME_PAYLOAD_def)

theorem link_agreement_witness:
  "fst (client_handshake checksum_crypto sample_serde sample_client (replicate 32 7) 1000 False
         (idle_duplex (frame_bytes [20, 21] @ frame_bytes [40]))) =
     Inr \<lparr>la_link_id = ''link-7'', la_remote_software_version = Some ''2.1''\<rparr>
   \<and> fst (server_handshake checksum_crypto sample_serde sample_server (replicate 32 9) 2000 False
         (idle_duplex (frame_bytes [10] @ frame_bytes [30]))) =
     Inr \<lparr>lp_cluster_id = ''c1'', lp_node_id = ''n1'', lp_software_version = ''2.0''\<rparr>"
  using link_agreement [OF checksum_crypto_ok sample_serde_ok sample_honest, of 2000
      "idle_duplex (frame_bytes [20, 21] @ frame_bytes [40])"
      "idle_duplex (frame_bytes [10] @ frame_bytes [30])"]
  by (simp add: idle_duplex_def sample_run_def writable_def skew_exceeds_def i64_abs_def
      HANDSHAKE_MAX_SKEW_MS_def sample_client_def sample_server_def)

text \<open>C3: the DMZ never accepts a peer it has not authenticated: acceptance means the configured key
  exists, the peer's response to this very challenge verified under that key at this clock, and the
  identity reported upwards is the one in the verified hello.\<close>

theorem server_accepts_only_verified:
  assumes "server_handshake cr js sc rs server_now expired d = (Inr lpeer, d')"
  shows "\<not> expired \<and> (\<exists>hello response psk d1 d3.
     read_frame (hello_json js) d = (Inr hello, d1)
   \<and> sc_psks sc (sc_psk_id sc) = Some psk
   \<and> verify_response cr hello (server_challenge cr sc rs) response psk server_now = Inr ()
   \<and> read_frame (response_json js)
       (snd (write_frame (challenge_json js) (server_challenge cr sc rs) d1)) = (Inr response, d3)
   \<and> lp_cluster_id lpeer = cluster_id hello \<and> lp_node_id lpeer = node_id hello)"
proof
  show "\<not> expired" using assms by (auto simp: server_handshake_def with_timeout_def split: prod.splits)
qed (rule server_handshake_accepts [OF assms])

theorem server_accepts_only_verified_witness:
  "\<exists>lpeer d'. server_handshake checksum_crypto sample_serde sample_server (replicate 32 9) 2000 False
       (idle_duplex (frame_bytes [10] @ frame_bytes [30])) = (Inr lpeer, d')
   \<and> (\<exists>hello response psk d1 d3.
     read_frame (hello_json sample_serde) (idle_duplex (frame_bytes [10] @ frame_bytes [30])) = (Inr hello, d1)
   \<and> sc_psks sample_server (sc_psk_id sample_server) = Some psk
   \<and> verify_response checksum_crypto hello (server_challenge checksum_crypto sample_server (replicate 32 9))
       response psk 2000 = Inr ()
   \<and> read_frame (response_json sample_serde)
       (snd (write_frame (challenge_json sample_serde)
         (server_challenge checksum_crypto sample_server (replicate 32 9)) d1)) = (Inr response, d3)
   \<and> lp_cluster_id lpeer = cluster_id hello \<and> lp_node_id lpeer = node_id hello)"
proof -
  let ?d = "idle_duplex (frame_bytes [10] @ frame_bytes [30])"
  have "server_handshake checksum_crypto sample_serde sample_server (replicate 32 9) 2000 False ?d =
     (Inr \<lparr>lp_cluster_id = cc_cluster_id sample_client, lp_node_id = cc_node_id sample_client,
          lp_software_version = cc_software_version sample_client\<rparr>,
     ?d\<lparr>rx := [], tx := tx ?d @ frame_bytes (hr_challenge sample_run) @ frame_bytes (hr_outcome sample_run)\<rparr>)"
    by (rule server_handshake_honest [OF checksum_crypto_ok sample_serde_ok sample_honest])
      (simp_all add: idle_duplex_def writable_def sample_run_def skew_exceeds_def i64_abs_def
        HANDSHAKE_MAX_SKEW_MS_def)
  from this server_accepts_only_verified [OF this] show ?thesis by blast
qed

text \<open>A peer that fails authentication learns nothing about why: whatever the verifier's error,
  the DMZ writes the same rejection, reports the error only to its own caller, and returns no peer.\<close>

lemma server_rejects_uniformly:
  assumes "read_frame (hello_json js) d = (Inr hello, d1)"
    and "sc_psks sc (sc_psk_id sc) = Some psk"
    and "write_frame (challenge_json js) (server_challenge cr sc rs) d1 = (Inr (), d2)"
    and "read_frame (response_json js) d2 = (Inr response, d3)"
    and "verify_response cr hello (server_challenge cr sc rs) response psk server_now = Inl e"
  shows "server_handshake cr js sc rs server_now False d =
    (Inl e, snd (write_frame (outcome_json js) (Reject ''authentication failed'') d3))"
  by (rule server_handshake_reject [OF assms])

lemma sample_reads:
  "read_frame (hello_json sample_serde) (idle_duplex (frame_bytes [10] @ frame_bytes [30])) =
     (Inr sample_hello, idle_duplex (frame_bytes [30]))"
  "write_frame (challenge_json sample_serde) sample_challenge (idle_duplex (frame_bytes [30])) =
     (Inr (), (idle_duplex (frame_bytes [30]))\<lparr>tx := frame_bytes [20, 21]\<rparr>)"
  "read_frame (response_json sample_serde) ((idle_duplex (frame_bytes [30]))\<lparr>tx := frame_bytes [20, 21]\<rparr>) =
     (Inr sample_response, (idle_duplex [])\<lparr>tx := frame_bytes [20, 21]\<rparr>)"
proof -
  have "fits_frame (hello_json sample_serde) sample_hello [10]"
    "fits_frame (challenge_json sample_serde) sample_challenge [20, 21]"
    "fits_frame (response_json sample_serde) sample_response [30]"
    by (simp_all add: sample_serde_def MAX_FRAME_PAYLOAD_def)
  note f = this
  have j: "serde_ok (hello_json sample_serde)" "serde_ok (response_json sample_serde)"
    by (simp_all add: sample_serde_def)
  show "read_frame (hello_json sample_serde) (idle_duplex (frame_bytes [10] @ frame_bytes [30])) =
     (Inr sample_hello, idle_duplex (frame_bytes [30]))"
    by (subst read_frame_ok [OF j(1) f(1), of _ "frame_bytes [30]"]) (simp_all add: idle_duplex_def)
  show "write_frame (challenge_json sample_serde) sample_challenge (idle_duplex (frame_bytes [30])) =
     (Inr (), (idle_duplex (frame_bytes [30]))\<lparr>tx := frame_bytes [20, 21]\<rparr>)"
    by (subst write_frame_ok [OF f(2)]) (simp_all add: idle_duplex_def writable_def)
  show "read_frame (response_json sample_serde) ((idle_duplex (frame_bytes [30]))\<lparr>tx := frame_bytes [20, 21]\<rparr>) =
     (Inr sample_response, (idle_duplex [])\<lparr>tx := frame_bytes [20, 21]\<rparr>)"
    by (subst read_frame_ok [OF j(2) f(3), of _ "[]"]) (simp_all add: idle_duplex_def)
qed

end
