(* ===== verification/Stream_Codec.thy ===== *)
theory Stream_Codec
  imports Strata_Prelude
begin

text \<open>
  The interface shared by the self-delimiting byte formats of the system: the media envelope, the
  Guacamole instruction and the audit record. An encoder turns a value into bytes; a decoder reads
  one value from the front of a buffer and answers with the value and the bytes it used, asks for
  more input, or refuses the buffer. The laws are that a decoder undoes its encoder whatever follows,
  that it never asks for less than it needs, and that its answer to a complete value does not depend
  on how much more of the stream has arrived.
\<close>

datatype ('e, 'a) decoded = Complete 'a nat | Incomplete | Refused 'e

locale stream_codec =
  fixes enc :: "'a \<Rightarrow> bytes"
    and dec :: "bytes \<Rightarrow> ('e, 'a) decoded"
    and wf :: "'a \<Rightarrow> bool"
  assumes dec_enc: "wf x \<Longrightarrow> dec (enc x @ rest) = Complete x (length (enc x))"
    and enc_nonempty: "enc x \<noteq> []"
    and dec_prefix: "wf x \<Longrightarrow> strict_prefix p (enc x) \<Longrightarrow> dec p = Incomplete"
begin

lemma enc_prefix_free:
  assumes "wf x" "wf y" "enc x @ r = enc y @ s"
  shows "x = y \<and> r = s"
proof -
  have "Complete x (length (enc x)) = Complete y (length (enc y))"
    using dec_enc [OF assms(1), of r] dec_enc [OF assms(2), of s] assms(3) by simp
  with assms(3) show ?thesis by simp
qed

lemma enc_inj: "wf x \<Longrightarrow> wf y \<Longrightarrow> enc x = enc y \<Longrightarrow> x = y"
  using enc_prefix_free [of x y "[]" "[]"] by simp

text \<open>Concatenated encodings determine the sequence of values.\<close>

lemma concat_enc_inj:
  "list_all wf xs \<Longrightarrow> list_all wf ys \<Longrightarrow> concat (map enc xs) = concat (map enc ys) \<Longrightarrow> xs = ys"
proof (induction xs arbitrary: ys)
  case Nil
  then show ?case by (cases ys) (auto simp: enc_nonempty)
next
  case (Cons x xs)
  from Cons.prems obtain y ys' where ys: "ys = y # ys'"
    by (cases ys) (auto simp: enc_nonempty)
  with Cons.prems have "x = y \<and> concat (map enc xs) = concat (map enc ys')"
    by (intro enc_prefix_free) simp_all
  with Cons.prems ys Cons.IH [of ys'] show ?case by simp
qed

end

text \<open>
  Reading a buffer to exhaustion: decode, drop what was used, repeat. The decoder has to use at least
  one byte per value, so the length of the buffer is enough fuel.
\<close>

fun decode_all :: "(bytes \<Rightarrow> ('e, 'a) decoded) \<Rightarrow> nat \<Rightarrow> bytes \<Rightarrow> 'a list \<times> bytes" where
  "decode_all dec 0 buf = ([], buf)"
| "decode_all dec (Suc fuel) buf =
    (case dec buf of
       Complete x n \<Rightarrow> (let (xs, rest) = decode_all dec fuel (drop n buf) in (x # xs, rest))
     | _ \<Rightarrow> ([], buf))"

context stream_codec
begin

lemma decode_all_concat:
  assumes "list_all wf xs" "dec rest = Incomplete" "length xs < fuel"
  shows "decode_all dec fuel (concat (map enc xs) @ rest) = (xs, rest)"
  using assms
proof (induction xs arbitrary: fuel)
  case Nil
  then show ?case by (cases fuel) auto
next
  case (Cons x xs)
  then obtain f where f: "fuel = Suc f" by (cases fuel) auto
  with Cons have "decode_all dec f (concat (map enc xs) @ rest) = (xs, rest)" by simp
  with Cons.prems f show ?case by (simp add: dec_enc)
qed

text \<open>
  Fragmentation does not matter: a buffer that ends inside an encoding yields the values before it
  and keeps the partial encoding for the next read.
\<close>

lemma decode_all_partial:
  assumes "list_all wf xs" "wf y" "strict_prefix p (enc y)" "length xs < fuel"
  shows "decode_all dec fuel (concat (map enc xs) @ p) = (xs, p)"
  by (rule decode_all_concat [OF assms(1) dec_prefix [OF assms(2,3)] assms(4)])

text \<open>
  A buffer that starts a stream of encodings is some complete encodings followed by a proper part of
  the next one.
\<close>

lemma prefix_split:
  "list_all wf ys \<Longrightarrow> prefix b (concat (map enc ys)) \<Longrightarrow>
   \<exists>zs todo p. ys = zs @ todo \<and> b = concat (map enc zs) @ p
     \<and> (todo = [] \<and> p = [] \<or> (\<exists>y ys'. todo = y # ys' \<and> strict_prefix p (enc y)))"
proof (induction ys arbitrary: b)
  case Nil
  then show ?case by simp
next
  case (Cons y ys)
  show ?case
  proof (cases "strict_prefix b (enc y)")
    case True
    then have "y # ys = [] @ y # ys \<and> b = concat (map enc []) @ b
      \<and> (y # ys = [] \<and> b = [] \<or> (\<exists>y' ys'. y # ys = y' # ys' \<and> strict_prefix b (enc y')))" by simp
    then show ?thesis by blast
  next
    case False
    with Cons.prems obtain c where c: "b = enc y @ c" "prefix c (concat (map enc ys))"
      by (auto simp: prefix_append strict_prefix_def)
    have "list_all wf ys" using Cons.prems(1) by simp
    from Cons.IH [OF this c(2)] obtain zs todo p where "ys = zs @ todo" "c = concat (map enc zs) @ p"
      "todo = [] \<and> p = [] \<or> (\<exists>y ys'. todo = y # ys' \<and> strict_prefix p (enc y))"
      by blast
    with c have "y # ys = (y # zs) @ todo \<and> b = concat (map enc (y # zs)) @ p
      \<and> (todo = [] \<and> p = [] \<or> (\<exists>y ys'. todo = y # ys' \<and> strict_prefix p (enc y)))" by simp
    then show ?thesis by blast
  qed
qed

lemma concat_enc_length: "length xs \<le> length (concat (map enc xs))"
proof (induction xs)
  case (Cons x xs)
  have "1 \<le> length (enc x)" using enc_nonempty [of x] by (cases "enc x") simp_all
  with Cons show ?case by simp
qed simp

end

end
