(* ===== verification/Media_Envelope.thy ===== *)
theory Media_Envelope
  imports Protocol_Errors Stream_Codec
begin

text \<open>
  The binary envelope of Native Direct Streaming Mode, \<open>crates/strata-protocol/src/media.rs\<close>: a
  fourteen byte header (magic, stream type, big-endian timestamp and payload length) and the payload.
\<close>

definition MEDIA_MAGIC :: u8 where "MEDIA_MAGIC = 0xAA"
definition MEDIA_HEADER_LEN :: nat where [bound_simps]: "MEDIA_HEADER_LEN = 14"
definition MAX_MEDIA_PAYLOAD :: nat where [bound_simps]: "MAX_MEDIA_PAYLOAD = 16 * 1024 * 1024"

datatype stream_type = H264Video | OpusAudio | RawTerminal | ClipboardSync

primrec stream_type_as_u8 :: "stream_type \<Rightarrow> u8" where
  "stream_type_as_u8 H264Video = 0x01"
| "stream_type_as_u8 OpusAudio = 0x02"
| "stream_type_as_u8 RawTerminal = 0x03"
| "stream_type_as_u8 ClipboardSync = 0x04"

definition stream_type_from_u8 :: "u8 \<Rightarrow> protocol_error + stream_type" where
  "stream_type_from_u8 value =
    (if value = 0x01 then Inr H264Video
     else if value = 0x02 then Inr OpusAudio
     else if value = 0x03 then Inr RawTerminal
     else if value = 0x04 then Inr ClipboardSync
     else Inl (Malformed (''unknown media stream type: 0x'' @ hex2 value)))"

lemma stream_type_roundtrip [simp]: "stream_type_from_u8 (stream_type_as_u8 t) = Inr t"
  by (cases t) (simp_all add: stream_type_from_u8_def)

lemma stream_type_from_u8_ok: "stream_type_from_u8 b = Inr t \<longleftrightarrow> b = stream_type_as_u8 t"
  by (cases t) (auto simp: stream_type_from_u8_def)

record media_envelope =
  me_stream_type :: stream_type
  me_timestamp_ms :: u64
  me_payload :: bytes

definition media_new :: "stream_type \<Rightarrow> u64 \<Rightarrow> bytes \<Rightarrow> protocol_error + media_envelope" where
  "media_new stream_type timestamp_ms payload =
    (if length payload > MAX_MEDIA_PAYLOAD then
       Inl (Malformed (''media payload too large: '' @ show_nat (length payload)
                       @ '' > '' @ show_nat MAX_MEDIA_PAYLOAD))
     else Inr \<lparr>me_stream_type = stream_type, me_timestamp_ms = timestamp_ms, me_payload = payload\<rparr>)"

definition media_encoded_len :: "media_envelope \<Rightarrow> nat" where
  "media_encoded_len env = MEDIA_HEADER_LEN + length (me_payload env)"

definition media_encode :: "media_envelope \<Rightarrow> bytes \<Rightarrow> bytes" where
  "media_encode env out =
    out @ [MEDIA_MAGIC] @ [stream_type_as_u8 (me_stream_type env)] @ u64_be (me_timestamp_ms env)
        @ u32_be (of_nat (length (me_payload env))) @ me_payload env"

definition media_to_bytes :: "media_envelope \<Rightarrow> bytes" where
  "media_to_bytes env = media_encode env []"

definition media_decode :: "bytes \<Rightarrow> protocol_error + (media_envelope \<times> nat) option" where
  "media_decode buf =
    (if length buf < MEDIA_HEADER_LEN then Inr None
     else if buf ! 0 \<noteq> MEDIA_MAGIC then Inl (Malformed (''bad media magic: 0x'' @ hex2 (buf ! 0)))
     else and_then (stream_type_from_u8 (buf ! 1)) (\<lambda>stream_type.
       let timestamp_ms = u64_of_be (take 8 (drop 2 buf));
           len = unat (u32_of_be (take 4 (drop 10 buf)))
       in if len > MAX_MEDIA_PAYLOAD then
            Inl (Malformed (''declared media payload too large: '' @ show_nat len
                            @ '' > '' @ show_nat MAX_MEDIA_PAYLOAD))
          else let end' = MEDIA_HEADER_LEN + len in
            if length buf < end' then Inr None
            else Inr (Some (\<lparr>me_stream_type = stream_type, me_timestamp_ms = timestamp_ms,
                             me_payload = take len (drop MEDIA_HEADER_LEN buf)\<rparr>, end'))))"

text \<open>Envelopes as \<open>MediaEnvelope::new\<close> makes them.\<close>

definition media_wf :: "media_envelope \<Rightarrow> bool" where
  "media_wf env \<longleftrightarrow> length (me_payload env) \<le> MAX_MEDIA_PAYLOAD"

section \<open>Encoding\<close>

lemma media_new_wf: "media_new t ts p = Inr env \<Longrightarrow> media_wf env"
  by (auto simp: media_new_def media_wf_def split: if_splits)

lemma media_encode_append: "media_encode env out = out @ media_to_bytes env"
  by (simp add: media_encode_def media_to_bytes_def)

lemma length_media_to_bytes [simp]: "length (media_to_bytes env) = media_encoded_len env"
  by (simp add: media_to_bytes_def media_encode_def media_encoded_len_def MEDIA_HEADER_LEN_def)

lemma media_len_word [codec_simps]:
  "media_wf env \<Longrightarrow> unat (of_nat (length (me_payload env)) :: u32) = length (me_payload env)"
  by (simp add: media_wf_def MAX_MEDIA_PAYLOAD_def unat_of_nat)

section \<open>Decoding\<close>

text \<open>The header of a buffer that starts with an encoded envelope, field by field.\<close>

lemma media_header_fields [codec_simps]:
  assumes "buf @ rest = media_to_bytes env @ rest'" "14 \<le> length buf"
  shows "buf ! 0 = MEDIA_MAGIC" "buf ! Suc 0 = stream_type_as_u8 (me_stream_type env)"
    "take 8 (drop 2 buf) = u64_be (me_timestamp_ms env)"
    "take 4 (drop 10 buf) = u32_be (of_nat (length (me_payload env)))"
proof -
  let ?hdr = "[MEDIA_MAGIC, stream_type_as_u8 (me_stream_type env)] @ u64_be (me_timestamp_ms env)
        @ u32_be (of_nat (length (me_payload env)))"
  have "take 14 buf = take 14 (buf @ rest)" using assms(2) by simp
  also have "\<dots> = ?hdr" by (simp add: assms(1) media_to_bytes_def media_encode_def)
  finally have h: "take 14 buf = ?hdr" .
  have "buf ! i = ?hdr ! i" if "i < 14" for i
    using that nth_take [of i 14 buf] by (simp only: h)
  from this [of 0] this [of 1]
  show "buf ! 0 = MEDIA_MAGIC" "buf ! Suc 0 = stream_type_as_u8 (me_stream_type env)" by simp_all
  have "take 8 (drop 2 buf) = take 8 (drop 2 (take 14 buf))"
    "take 4 (drop 10 buf) = take 4 (drop 10 (take 14 buf))"
    by (simp_all add: drop_take)
  with h show "take 8 (drop 2 buf) = u64_be (me_timestamp_ms env)"
    "take 4 (drop 10 buf) = u32_be (of_nat (length (me_payload env)))"
    by simp_all
qed

lemma media_decode_encode:
  assumes "media_wf env"
  shows "media_decode (media_to_bytes env @ rest) = Inr (Some (env, media_encoded_len env))"
proof -
  define buf where "buf = media_to_bytes env @ rest"
  have len: "14 + length (me_payload env) \<le> length buf"
    by (simp add: buf_def media_encoded_len_def MEDIA_HEADER_LEN_def)
  have pay: "take (length (me_payload env)) (drop 14 buf) = me_payload env"
    by (simp add: buf_def media_to_bytes_def media_encode_def)
  have max: "length (me_payload env) \<le> MAX_MEDIA_PAYLOAD" using assms by (simp add: media_wf_def)
  have "buf @ [] = media_to_bytes env @ rest" by (simp add: buf_def)
  note hdr = media_header_fields [OF this]
  show ?thesis
    unfolding buf_def [symmetric] media_decode_def
    using len max by (simp add: hdr media_len_word [OF assms] pay MEDIA_HEADER_LEN_def
        media_encoded_len_def)
qed

text \<open>A proper prefix of an envelope is never refused and never decoded: the reader waits.\<close>

lemma media_decode_prefix:
  assumes "media_wf env" "strict_prefix p (media_to_bytes env)"
  shows "media_decode p = Inr None"
proof (cases "length p < 14")
  case True
  then show ?thesis by (simp add: media_decode_def MEDIA_HEADER_LEN_def)
next
  case False
  obtain q where q: "p @ q = media_to_bytes env @ []" using assms(2)
    by (auto simp: strict_prefix_def prefix_def)
  have "length p < 14 + length (me_payload env)"
    using prefix_length_less [OF assms(2)] by (simp add: media_encoded_len_def MEDIA_HEADER_LEN_def)
  moreover have "length (me_payload env) \<le> MAX_MEDIA_PAYLOAD" using assms by (simp add: media_wf_def)
  ultimately show ?thesis
    using False media_header_fields [OF q]
    by (simp add: media_decode_def MEDIA_HEADER_LEN_def media_len_word [OF assms(1)])
qed

section \<open>The codec interface\<close>

definition media_dec :: "bytes \<Rightarrow> (protocol_error, media_envelope) decoded" where
  "media_dec buf = (case media_decode buf of
     Inl e \<Rightarrow> Refused e | Inr None \<Rightarrow> Incomplete | Inr (Some (env, n)) \<Rightarrow> Complete env n)"

interpretation media: stream_codec media_to_bytes media_dec media_wf
proof
  fix env rest
  assume "media_wf env"
  then show "media_dec (media_to_bytes env @ rest) = Complete env (length (media_to_bytes env))"
    by (simp add: media_dec_def media_decode_encode)
next
  fix env p
  assume "media_wf env" "strict_prefix p (media_to_bytes env)"
  then show "media_dec p = Incomplete" by (simp add: media_dec_def media_decode_prefix)
qed (simp add: media_to_bytes_def media_encode_def)

text \<open>
  Whatever the input, a decoded envelope respects the payload cap, lies inside the buffer, and is
  the one whose encoding the buffer starts with.
\<close>

lemma take_header_split:
  "14 \<le> length buf \<Longrightarrow> take (14 + n) buf =
     [buf ! 0, buf ! Suc 0] @ take 8 (drop 2 buf) @ take 4 (drop 10 buf) @ take n (drop 14 buf)"
proof -
  assume "14 \<le> length buf"
  then have "take 2 buf = [buf ! 0, buf ! Suc 0]"
    by (cases buf rule: list_cases4) auto
  then show ?thesis
    using take_add [of 2 8 buf] take_add [of 10 4 buf] take_add [of 14 n buf] by simp
qed

lemma media_decode_sound:
  assumes "media_decode buf = Inr (Some (env, n))"
  shows "media_wf env" "n = media_encoded_len env" "take n buf = media_to_bytes env"
proof -
  define len where "len = unat (u32_of_be (take 4 (drop 10 buf)))"
  from assms have l: "14 \<le> length buf" and b0: "buf ! 0 = MEDIA_MAGIC"
    and b1: "buf ! Suc 0 = stream_type_as_u8 (me_stream_type env)"
    and ts: "me_timestamp_ms env = u64_of_be (take 8 (drop 2 buf))"
    and max: "len \<le> MAX_MEDIA_PAYLOAD" and n: "n = 14 + len" "n \<le> length buf"
    and p: "me_payload env = take len (drop 14 buf)"
    by (auto simp: media_decode_def MEDIA_HEADER_LEN_def Let_def len_def result_simps
        stream_type_from_u8_ok split: if_splits)
  from n p have lp: "length (me_payload env) = len" by simp
  with max n show "media_wf env" "n = media_encoded_len env"
    by (simp_all add: media_wf_def media_encoded_len_def MEDIA_HEADER_LEN_def)
  have "(of_nat len :: u32) = u32_of_be (take 4 (drop 10 buf))" by (simp add: len_def)
  with l b0 b1 ts p lp show "take n buf = media_to_bytes env"
    by (simp add: n(1) take_header_split media_to_bytes_def media_encode_def u64_be_of_be u32_be_of_be)
qed

section \<open>Properties\<close>

text \<open>Decoding undoes encoding whatever bytes follow, and reports exactly the bytes used.\<close>

lemma media_roundtrip:
  assumes "media_new st ts payload = Inr env"
  shows "media_decode (media_to_bytes env @ rest) = Inr (Some (env, media_encoded_len env))
    \<and> me_stream_type env = st \<and> me_timestamp_ms env = ts \<and> me_payload env = payload"
  using media_decode_encode [OF media_new_wf [OF assms], of rest] assms
  by (auto simp: media_new_def split: if_splits)

text \<open>No input makes the decoder produce an envelope that is not there: what it returns respects
  the payload cap and is the envelope whose encoding the buffer starts with.\<close>

lemma media_sound:
  assumes "media_decode buf = Inr (Some (env, n))"
  shows "length (me_payload env) \<le> MAX_MEDIA_PAYLOAD \<and> n \<le> length buf \<and> take n buf = media_to_bytes env"
proof -
  note s = media_decode_sound [OF assms]
  have "length (take n buf) = n" using s(2,3) by simp
  then have "n \<le> length buf" by simp
  with s show ?thesis by (simp add: media_wf_def)
qed

text \<open>A reader can decode a media stream cut anywhere: from any concatenation of envelopes ending
  inside one more, it obtains exactly the complete envelopes and keeps the partial bytes.\<close>

lemma media_stream_fragmentation:
  assumes "list_all media_wf envs" "media_wf env" "strict_prefix p (media_to_bytes env)"
    and "length envs < fuel"
  shows "decode_all media_dec fuel (concat (map media_to_bytes envs) @ p) = (envs, p)"
  by (rule media.decode_all_partial [OF assms])

end
