(* ===== verification/Hash_Map.thy ===== *)
theory Hash_Map
  imports Strata_Prelude
begin

text \<open>
  \<open>std::collections::HashMap\<close> as an association list with distinct keys. The list order stands for
  the unspecified iteration order of the map: no property of the development depends on it.
\<close>

type_synonym ('k, 'v) hmap = "('k \<times> 'v) list"

definition hm_wf :: "('k, 'v) hmap \<Rightarrow> bool" where
  "hm_wf m \<longleftrightarrow> distinct (map fst m)"

definition hm_get :: "'k \<Rightarrow> ('k, 'v) hmap \<Rightarrow> 'v option" where
  "hm_get k m = map_of m k"

definition hm_contains :: "'k \<Rightarrow> ('k, 'v) hmap \<Rightarrow> bool" where
  "hm_contains k m \<longleftrightarrow> hm_get k m \<noteq> None"

definition hm_remove :: "'k \<Rightarrow> ('k, 'v) hmap \<Rightarrow> ('k, 'v) hmap" where
  "hm_remove k m = filter (\<lambda>(k', _). k' \<noteq> k) m"

definition hm_insert :: "'k \<Rightarrow> 'v \<Rightarrow> ('k, 'v) hmap \<Rightarrow> ('k, 'v) hmap" where
  "hm_insert k v m = (k, v) # hm_remove k m"

definition hm_retain :: "('k \<Rightarrow> 'v \<Rightarrow> bool) \<Rightarrow> ('k, 'v) hmap \<Rightarrow> ('k, 'v) hmap" where
  "hm_retain P m = filter (\<lambda>(k, v). P k v) m"

definition hm_len :: "('k, 'v) hmap \<Rightarrow> nat" where
  "hm_len m = length m"

definition hm_values :: "('k, 'v) hmap \<Rightarrow> 'v list" where
  "hm_values m = map snd m"

section \<open>Lookups\<close>

lemma hm_get_Nil [simp]: "hm_get k [] = None"
  by (simp add: hm_get_def)

lemma hm_get_remove [simp]: "hm_get k (hm_remove k' m) = (if k = k' then None else hm_get k m)"
  by (induction m) (auto simp: hm_get_def hm_remove_def)

lemma hm_get_insert [simp]: "hm_get k (hm_insert k' v m) = (if k = k' then Some v else hm_get k m)"
  using hm_get_remove [of k k' m] by (simp add: hm_get_def hm_insert_def)

lemma hm_get_in: "hm_get k m = Some v \<Longrightarrow> (k, v) \<in> set m"
  by (auto simp: hm_get_def dest: map_of_SomeD)

lemma hm_get_wf: "hm_wf m \<Longrightarrow> (k, v) \<in> set m \<Longrightarrow> hm_get k m = Some v"
  by (simp add: hm_get_def hm_wf_def)

lemma hm_get_retain:
  "hm_wf m \<Longrightarrow> hm_get k (hm_retain P m) =
    (case hm_get k m of None \<Rightarrow> None | Some v \<Rightarrow> if P k v then Some v else None)"
proof (induction m)
  case Nil
  then show ?case by (simp add: hm_retain_def)
next
  case (Cons kv m)
  obtain a b where kv: "kv = (a, b)" by (cases kv)
  from Cons.prems kv have w: "hm_wf m" and fresh: "hm_get a m = None"
    by (auto simp: hm_wf_def hm_get_def map_of_eq_None_iff)
  from Cons.IH [OF w] fresh show ?case
    by (auto simp: kv hm_get_def hm_retain_def)
qed

section \<open>Well-formedness\<close>

lemma hm_wf_Nil [simp, intro]: "hm_wf []"
  by (simp add: hm_wf_def)

lemma distinct_fst_filter: "distinct (map fst m) \<Longrightarrow> distinct (map fst (filter P m))"
  by (induction m) auto

lemma hm_wf_remove [simp, intro]: "hm_wf m \<Longrightarrow> hm_wf (hm_remove k m)"
  by (simp add: hm_wf_def hm_remove_def distinct_fst_filter)

lemma hm_wf_insert [simp, intro]: "hm_wf m \<Longrightarrow> hm_wf (hm_insert k v m)"
  using hm_wf_remove [of m k] by (auto simp: hm_wf_def hm_insert_def hm_remove_def)

lemma hm_wf_retain [simp, intro]: "hm_wf m \<Longrightarrow> hm_wf (hm_retain P m)"
  by (simp add: hm_wf_def hm_retain_def distinct_fst_filter)

section \<open>Sizes and sums\<close>

lemma hm_remove_absent: "hm_get k m = None \<Longrightarrow> hm_remove k m = m"
  by (induction m) (auto simp: hm_get_def hm_remove_def split: if_splits)

lemma hm_len_remove_le [simp]: "hm_len (hm_remove k m) \<le> hm_len m"
  by (simp add: hm_len_def hm_remove_def)

lemma hm_len_retain_le [simp]: "hm_len (hm_retain P m) \<le> hm_len m"
  by (simp add: hm_len_def hm_retain_def)

lemma hm_len_insert_le [simp]: "hm_len (hm_insert k v m) \<le> Suc (hm_len m)"
  using hm_len_remove_le [of k m] by (simp add: hm_len_def hm_insert_def)

lemma hm_sum_remove:
  fixes f :: "'v \<Rightarrow> nat"
  assumes "hm_wf m" "hm_get k m = Some v"
  shows "sum_list (map f (hm_values m)) = f v + sum_list (map f (hm_values (hm_remove k m)))"
  using assms
proof (induction m)
  case Nil
  then show ?case by simp
next
  case (Cons kv m)
  obtain a b where kv: "kv = (a, b)" by (cases kv)
  show ?case
  proof (cases "a = k")
    case True
    with Cons.prems kv have "hm_get k m = None" "b = v"
      by (auto simp: hm_wf_def hm_get_def map_of_eq_None_iff)
    with True kv show ?thesis
      using hm_remove_absent [of k m] by (simp add: hm_values_def hm_remove_def)
  next
    case False
    with Cons kv have "sum_list (map f (hm_values m)) = f v + sum_list (map f (hm_values (hm_remove k m)))"
      by (intro Cons.IH) (auto simp: hm_wf_def hm_get_def)
    with False kv show ?thesis by (simp add: hm_values_def hm_remove_def)
  qed
qed

lemma hm_sum_insert:
  fixes f :: "'v \<Rightarrow> nat"
  shows "sum_list (map f (hm_values (hm_insert k v m))) =
    f v + sum_list (map f (hm_values (hm_remove k m)))"
  by (simp add: hm_values_def hm_insert_def)

lemma hm_sum_remove_le:
  fixes f :: "'v \<Rightarrow> nat"
  shows "sum_list (map f (hm_values (hm_remove k m))) \<le> sum_list (map f (hm_values m))"
  by (induction m) (auto simp: hm_values_def hm_remove_def)

lemma hm_sum_retain_le:
  fixes f :: "'v \<Rightarrow> nat"
  shows "sum_list (map f (hm_values (hm_retain P m))) \<le> sum_list (map f (hm_values m))"
  by (induction m) (auto simp: hm_values_def hm_retain_def)

lemma hm_value_le_sum:
  fixes f :: "'v \<Rightarrow> nat"
  assumes "hm_get k m = Some v"
  shows "f v \<le> sum_list (map f (hm_values m))"
proof -
  have "v \<in> set (hm_values m)" using hm_get_in [OF assms] by (force simp: hm_values_def)
  then show ?thesis by (induction "hm_values m") (auto intro: member_le_sum_list)
qed

end
