(* ===== verification/Resume_Token.thy ===== *)
theory Resume_Token
  imports Protocol_Errors External_Code Hash_Map
begin

text \<open>
  Resume tokens, \<open>crates/strata-protocol/src/resume_token.rs\<close>, and the registry of suspended
  sessions that hands them out, \<open>backend/src/services/dmz_link/resume.rs\<close>.
\<close>

section \<open>Tokens\<close>

definition DEFAULT_RESUME_WINDOW_MS :: u64 where "DEFAULT_RESUME_WINDOW_MS = 30 * 1000"
definition TOKEN_ID_LEN :: nat where [bound_simps]: "TOKEN_ID_LEN = 16"
definition MAC_LEN :: nat where [bound_simps]: "MAC_LEN = 32"
definition TOKEN_RAW_LEN :: nat where [bound_simps]: "TOKEN_RAW_LEN = TOKEN_ID_LEN + 8 + MAC_LEN"

record resume_token =
  token_id :: bytes
  expiry_ms :: i64

definition seal :: "crypto \<Rightarrow> bytes \<Rightarrow> i64 \<Rightarrow> bytes \<Rightarrow> resume_token \<times> str" where
  "seal cr random expiry key =
    (let tid = take TOKEN_ID_LEN random;
         head = tid @ u64_be expiry;
         tag = hmac cr key head
     in (\<lparr>token_id = tid, expiry_ms = expiry\<rparr>, b64url_encode cr (head @ tag)))"

definition unseal :: "crypto \<Rightarrow> str \<Rightarrow> bytes \<Rightarrow> i64 \<Rightarrow> protocol_error + resume_token" where
  "unseal cr token key now_ms =
    and_then (ok_or (b64url_decode cr token) InvalidResumeToken) (\<lambda>raw.
      if length raw \<noteq> TOKEN_RAW_LEN then Inl InvalidResumeToken
      else if \<not> verify_slice cr key (take (TOKEN_ID_LEN + 8) raw) (drop (TOKEN_ID_LEN + 8) raw)
      then Inl InvalidResumeToken
      else let tid = take TOKEN_ID_LEN raw;
               expiry = u64_of_be (take 8 (drop TOKEN_ID_LEN raw))
           in if sint now_ms > sint expiry then Inl InvalidResumeToken
              else Inr \<lparr>token_id = tid, expiry_ms = expiry\<rparr>)"

lemma unseal_Inl: "unseal cr token key now_ms = Inl e \<Longrightarrow> e = InvalidResumeToken"
  by (auto simp: unseal_def Let_def result_simps split: if_splits)

text \<open>Which strings are tokens: the three fields of the layout, the tag over the first two.\<close>

lemma unseal_Inr:
  "unseal cr token key now_ms = Inr rt \<longleftrightarrow>
     length (token_id rt) = TOKEN_ID_LEN \<and> sint now_ms \<le> sint (expiry_ms rt)
   \<and> length (hmac cr key (token_id rt @ u64_be (expiry_ms rt))) = MAC_LEN
   \<and> b64url_decode cr token = Some (token_id rt @ u64_be (expiry_ms rt)
        @ hmac cr key (token_id rt @ u64_be (expiry_ms rt)))"
  (is "?lhs \<longleftrightarrow> ?rhs")
proof
  assume ?lhs
  then obtain raw where raw: "b64url_decode cr token = Some raw" "length raw = 56"
    and tag: "hmac cr key (take 24 raw) = drop 24 raw"
    and tid: "token_id rt = take 16 raw" and ex: "expiry_ms rt = u64_of_be (take 8 (drop 16 raw))"
    and now: "sint now_ms \<le> sint (expiry_ms rt)"
    by (auto simp: unseal_def Let_def result_simps verify_slice_def bound_simps split: if_splits)
  have head: "take 24 raw = token_id rt @ u64_be (expiry_ms rt)"
    using take_add [of 16 8 raw] raw(2) by (simp add: tid ex u64_be_of_be)
  with tag have h: "hmac cr key (token_id rt @ u64_be (expiry_ms rt)) = drop 24 raw" by simp
  have "raw = take 24 raw @ drop 24 raw" by simp
  also have "\<dots> = token_id rt @ u64_be (expiry_ms rt)
      @ hmac cr key (token_id rt @ u64_be (expiry_ms rt))" by (simp only: head h append.assoc)
  finally show ?rhs using raw tid now h by (simp add: bound_simps)
next
  assume ?rhs
  then show ?lhs
    by (auto simp: unseal_def Let_def verify_slice_def bound_simps)
qed

lemma unseal_seal:
  assumes "crypto_ok cr" "TOKEN_ID_LEN \<le> length random" "seal cr random expiry key = (rt, wire)"
    and "sint now_ms \<le> sint expiry"
  shows "unseal cr wire key now_ms = Inr rt"
proof -
  from assms(3) have rt: "rt = \<lparr>token_id = take TOKEN_ID_LEN random, expiry_ms = expiry\<rparr>"
    and wire: "wire = b64url_encode cr (token_id rt @ u64_be expiry
       @ hmac cr key (token_id rt @ u64_be expiry))"
    by (auto simp: seal_def Let_def)
  then show ?thesis
    using assms(1,2,4) by (simp add: unseal_Inr crypto_okD MAC_LEN_def)
qed

lemma unseal_expired: "unseal cr token key now_ms = Inr rt \<Longrightarrow> sint (expiry_ms rt) < sint later \<Longrightarrow>
   unseal cr token key later = Inl InvalidResumeToken"
  by (cases "unseal cr token key later") (auto simp: unseal_Inr dest: unseal_Inl)

section \<open>The registry of suspended sessions\<close>

datatype resume_error = Invalid | NotFound

record 'p resume_entry =
  re_payload :: 'p
  re_expiry_ms :: i64

record 'p resume_registry =
  rr_map :: "(bytes, 'p resume_entry) hmap"
  rr_key :: bytes
  rr_window_ms :: u64

definition registry_new :: "bytes \<Rightarrow> u64 \<Rightarrow> 'p resume_registry" where
  "registry_new key window = \<lparr>rr_map = [], rr_key = key, rr_window_ms = window\<rparr>"

definition registry_with_default_window :: "bytes \<Rightarrow> 'p resume_registry" where
  "registry_with_default_window key = registry_new key DEFAULT_RESUME_WINDOW_MS"

definition registry_put ::
    "crypto \<Rightarrow> i64 \<Rightarrow> bytes \<Rightarrow> 'p \<Rightarrow> 'p resume_registry \<Rightarrow> str \<times> 'p resume_registry" where
  "registry_put cr now_ms random payload r =
    (let expiry = now_ms + rr_window_ms r;
         (rt, wire) = seal cr random expiry (rr_key r)
     in (wire, r\<lparr>rr_map := hm_insert (token_id rt)
                  \<lparr>re_payload = payload, re_expiry_ms = expiry\<rparr> (rr_map r)\<rparr>))"

definition registry_take ::
    "crypto \<Rightarrow> i64 \<Rightarrow> str \<Rightarrow> 'p resume_registry \<Rightarrow> (resume_error + 'p) \<times> 'p resume_registry" where
  "registry_take cr now_ms token r =
    (case unseal cr token (rr_key r) now_ms of
       Inl _ \<Rightarrow> (Inl Invalid, r)
     | Inr rt \<Rightarrow>
         (case hm_get (token_id rt) (rr_map r) of
            None \<Rightarrow> (Inl NotFound, r)
          | Some entry \<Rightarrow>
              ((if sint now_ms \<le> sint (re_expiry_ms entry) then Inr (re_payload entry)
                else Inl NotFound),
               r\<lparr>rr_map := hm_remove (token_id rt) (rr_map r)\<rparr>)))"

definition registry_len :: "'p resume_registry \<Rightarrow> nat" where
  "registry_len r = hm_len (rr_map r)"

definition registry_is_empty :: "'p resume_registry \<Rightarrow> bool" where
  "registry_is_empty r \<longleftrightarrow> registry_len r = 0"

definition registry_sweep :: "i64 \<Rightarrow> 'p resume_registry \<Rightarrow> nat \<times> 'p resume_registry" where
  "registry_sweep now_ms r =
    (let m = hm_retain (\<lambda>_ e. sint now_ms \<le> sint (re_expiry_ms e)) (rr_map r)
     in (hm_len (rr_map r) - hm_len m, r\<lparr>rr_map := m\<rparr>))"

definition registry_wf :: "'p resume_registry \<Rightarrow> bool" where
  "registry_wf r \<longleftrightarrow> hm_wf (rr_map r)"

lemma registry_wf_preserved:
  "registry_wf (registry_new key w)"
  "registry_wf r \<Longrightarrow> registry_wf (snd (registry_put cr now_ms random p r))"
  "registry_wf r \<Longrightarrow> registry_wf (snd (registry_take cr now_ms token r))"
  "registry_wf r \<Longrightarrow> registry_wf (snd (registry_sweep now_ms r))"
  by (auto simp: registry_wf_def registry_new_def registry_put_def registry_take_def
      registry_sweep_def Let_def split: prod.splits sum.splits option.splits)

text \<open>The requests a registry serves, at the clock readings they see.\<close>

datatype 'p resume_op = Put i64 bytes 'p | Take i64 str | Sweep i64

fun registry_step :: "crypto \<Rightarrow> 'p resume_op \<Rightarrow> 'p resume_registry \<Rightarrow> 'p resume_registry" where
  "registry_step cr (Put now random p) r = snd (registry_put cr now random p r)"
| "registry_step cr (Take now token) r = snd (registry_take cr now token r)"
| "registry_step cr (Sweep now) r = snd (registry_sweep now r)"

definition registry_run :: "crypto \<Rightarrow> 'p resume_op list \<Rightarrow> 'p resume_registry \<Rightarrow> 'p resume_registry" where
  "registry_run cr ops r = fold (registry_step cr) ops r"

text \<open>Operations that cannot bring the entry of a token id back: no fresh token has that id.\<close>

fun avoids_id :: "bytes \<Rightarrow> 'p resume_op \<Rightarrow> bool" where
  "avoids_id tid (Put now random p) \<longleftrightarrow> take TOKEN_ID_LEN random \<noteq> tid"
| "avoids_id tid _ \<longleftrightarrow> True"

lemma registry_step_key [simp]:
  "rr_key (registry_step cr op r) = rr_key r" "registry_wf r \<Longrightarrow> registry_wf (registry_step cr op r)"
   apply (cases op; auto simp: registry_put_def registry_take_def registry_sweep_def Let_def
      split: prod.splits sum.splits option.splits)
  apply (cases op; simp add: registry_wf_preserved)
  done

lemma registry_step_absent:
  assumes "registry_wf r" "hm_get tid (rr_map r) = None" "avoids_id tid op"
  shows "hm_get tid (rr_map (registry_step cr op r)) = None"
  using assms
  by (cases op) (auto simp: registry_put_def registry_take_def registry_sweep_def seal_def Let_def
      registry_wf_def hm_get_retain split: prod.splits sum.splits option.splits)

lemma registry_run_absent:
  "registry_wf r \<Longrightarrow> hm_get tid (rr_map r) = None \<Longrightarrow> list_all (avoids_id tid) ops \<Longrightarrow>
   hm_get tid (rr_map (registry_run cr ops r)) = None \<and> rr_key (registry_run cr ops r) = rr_key r"
  by (induction ops arbitrary: r) (auto simp: registry_run_def registry_step_absent)

lemma registry_take_put:
  assumes "crypto_ok cr" "TOKEN_ID_LEN \<le> length random"
    and "registry_put cr now_ms random payload r = (wire, r')"
    and "sint later \<le> sint (now_ms + rr_window_ms r)"
  shows "fst (registry_take cr later wire r') = Inr payload"
proof -
  obtain rt where s: "seal cr random (now_ms + rr_window_ms r) (rr_key r) = (rt, wire)"
    and r': "r' = r\<lparr>rr_map := hm_insert (token_id rt)
      \<lparr>re_payload = payload, re_expiry_ms = now_ms + rr_window_ms r\<rparr> (rr_map r)\<rparr>"
    using assms(3) by (auto simp: registry_put_def Let_def split: prod.splits)
  from unseal_seal [OF assms(1,2) s assms(4)] show ?thesis
    using assms(4) by (simp add: registry_take_def r')
qed

lemma registry_take_removes:
  assumes "registry_take cr now_ms token r = (Inr payload, r')"
  shows "\<exists>rt. unseal cr token (rr_key r) now_ms = Inr rt \<and> hm_get (token_id rt) (rr_map r') = None
     \<and> rr_key r' = rr_key r"
  using assms by (auto simp: registry_take_def split: sum.splits option.splits if_splits)

lemma registry_sweep_len:
  "registry_sweep now_ms r = (n, r') \<Longrightarrow> registry_len r' + n = registry_len r"
  by (auto simp: registry_sweep_def registry_len_def Let_def)

text \<open>Operations that leave the entry of a token id alone while it is valid.\<close>

fun spares_id :: "crypto \<Rightarrow> bytes \<Rightarrow> bytes \<Rightarrow> i64 \<Rightarrow> 'p resume_op \<Rightarrow> bool" where
  "spares_id cr key tid expiry (Put now random p) \<longleftrightarrow> take TOKEN_ID_LEN random \<noteq> tid"
| "spares_id cr key tid expiry (Take now token) \<longleftrightarrow>
    (case unseal cr token key now of Inl _ \<Rightarrow> True | Inr rt \<Rightarrow> token_id rt \<noteq> tid)"
| "spares_id cr key tid expiry (Sweep now) \<longleftrightarrow> sint now \<le> sint expiry"

lemma registry_step_spares:
  assumes "registry_wf r" "hm_get tid (rr_map r) = Some ent" "spares_id cr (rr_key r) tid (re_expiry_ms ent) op"
  shows "hm_get tid (rr_map (registry_step cr op r)) = Some ent"
  using assms
  by (cases op) (auto simp: registry_put_def registry_take_def registry_sweep_def seal_def Let_def
      registry_wf_def hm_get_retain split: prod.splits sum.splits option.splits)

lemma registry_run_spares:
  "registry_wf r \<Longrightarrow> hm_get tid (rr_map r) = Some ent \<Longrightarrow>
   list_all (spares_id cr (rr_key r) tid (re_expiry_ms ent)) ops \<Longrightarrow>
   hm_get tid (rr_map (registry_run cr ops r)) = Some ent \<and> rr_key (registry_run cr ops r) = rr_key r"
  by (induction ops arbitrary: r) (auto simp: registry_run_def registry_step_spares)

section \<open>Properties\<close>

text \<open>A sealed token opens under its key until it expires, and from then on is refused with the
  same error as any forged or malformed token.\<close>

lemma token_lifetime:
  assumes "crypto_ok cr" "TOKEN_ID_LEN \<le> length random" "seal cr random expiry key = (rt, wire)"
  shows "unseal cr wire key now_ms =
    (if sint now_ms \<le> sint expiry then Inr rt else Inl InvalidResumeToken)"
proof (cases "sint now_ms \<le> sint expiry")
  case True
  then show ?thesis using unseal_seal [OF assms] by simp
next
  case False
  have "expiry_ms rt = expiry" using assms(3) by (auto simp: seal_def Let_def)
  with False unseal_seal [OF assms, of expiry] show ?thesis
    using unseal_expired [of cr wire key expiry rt now_ms] by simp
qed

text \<open>A suspended session can be resumed: after \<open>put\<close>, whatever other puts, takes of other tokens
  and sweeps happen before the window closes, presenting the token returns the payload.\<close>

lemma resume_available:
  assumes "crypto_ok cr" "registry_wf r" "TOKEN_ID_LEN \<le> length random"
    and "registry_put cr now_ms random payload r = (wire, r')"
    and "list_all (spares_id cr (rr_key r) (take TOKEN_ID_LEN random) (now_ms + rr_window_ms r)) ops"
    and "sint later \<le> sint (now_ms + rr_window_ms r)"
  shows "fst (registry_take cr later wire (registry_run cr ops r')) = Inr payload"
proof -
  let ?ex = "now_ms + rr_window_ms r"
  obtain rt where s: "seal cr random ?ex (rr_key r) = (rt, wire)"
    and r': "r' = r\<lparr>rr_map := hm_insert (token_id rt)
      \<lparr>re_payload = payload, re_expiry_ms = ?ex\<rparr> (rr_map r)\<rparr>"
    using assms(4) by (auto simp: registry_put_def Let_def split: prod.splits)
  have tid: "token_id rt = take TOKEN_ID_LEN random" using s by (auto simp: seal_def Let_def)
  have "registry_wf r'" using registry_wf_preserved(2) [OF assms(2)] assms(4) by (metis snd_conv)
  moreover have "hm_get (token_id rt) (rr_map r') = Some \<lparr>re_payload = payload, re_expiry_ms = ?ex\<rparr>"
    by (simp add: r')
  moreover have "rr_key r' = rr_key r" by (simp add: r')
  ultimately have "hm_get (token_id rt) (rr_map (registry_run cr ops r')) =
      Some \<lparr>re_payload = payload, re_expiry_ms = ?ex\<rparr>"
    and "rr_key (registry_run cr ops r') = rr_key r"
    using registry_run_spares [of r' "token_id rt" _ cr ops] assms(5) tid by auto
  with unseal_seal [OF assms(1,3) s assms(6)] assms(6) show ?thesis
    by (simp add: registry_take_def)
qed

definition sample_registry :: "nat resume_registry" where
  "sample_registry = registry_new [1] 500"

text \<open>C18: a token is good for one resume. Once it has been redeemed, no sequence of later operations
  lets it be redeemed again, unless a fresh token is minted with the same random id.\<close>

theorem resume_single_use:
  assumes "registry_wf r" "registry_take cr now_ms token r = (Inr payload, r')"
    and "unseal cr token (rr_key r) now_ms = Inr rt"
    and "list_all (avoids_id (token_id rt)) ops"
  shows "\<not> is_ok (fst (registry_take cr later token (registry_run cr ops r')))"
proof -
  have w: "registry_wf r'" using registry_wf_preserved(3) [OF assms(1)] assms(2) by (metis snd_conv)
  from registry_take_removes [OF assms(2)] assms(3)
  have "hm_get (token_id rt) (rr_map r') = None" "rr_key r' = rr_key r" by auto
  with registry_run_absent [OF w _ assms(4)]
  have "hm_get (token_id rt) (rr_map (registry_run cr ops r')) = None"
    "rr_key (registry_run cr ops r') = rr_key r" by auto
  moreover have "rt' = rt" if "unseal cr token (rr_key r) later = Inr rt'" for rt'
    using that assms(3) by (auto simp: unseal_Inr bound_simps)
  ultimately show ?thesis
    by (auto simp: registry_take_def split: sum.split option.split)
qed

theorem resume_single_use_witness:
  "let (wire, r) = registry_put checksum_crypto 100 (replicate 16 5) 42 sample_registry
   in \<not> is_ok (fst (registry_take checksum_crypto 350 wire
        (registry_run checksum_crypto [Put 250 (replicate 16 6) 43, Sweep 300]
          (snd (registry_take checksum_crypto 200 wire r)))))"
proof -
  let ?w = "fst (registry_put checksum_crypto 100 (replicate 16 5) 42 sample_registry)"
    and ?r = "snd (registry_put checksum_crypto 100 (replicate 16 5) 42 sample_registry)"
    and ?t = "fst (seal checksum_crypto (replicate 16 5) 600 [1])"
  have wf: "registry_wf ?r" by (simp add: sample_registry_def registry_wf_preserved)
  have ok: "fst (registry_take checksum_crypto 200 ?w ?r) = Inr 42"
    by (rule registry_take_put [OF checksum_crypto_ok, of "replicate 16 5" 100 42 sample_registry])
      (simp_all add: TOKEN_ID_LEN_def sample_registry_def registry_new_def)
  then have tk: "registry_take checksum_crypto 200 ?w ?r = (Inr 42, snd (registry_take checksum_crypto 200 ?w ?r))"
    by (simp add: prod_eq_iff)
  have w: "?w = snd (seal checksum_crypto (replicate 16 5) 600 [1])" "rr_key ?r = [1]"
    by (simp_all add: registry_put_def sample_registry_def registry_new_def Let_def split_def)
  have "unseal checksum_crypto ?w (rr_key ?r) 200 = Inr ?t"
    unfolding w by (rule unseal_seal [OF checksum_crypto_ok, of "replicate 16 5" 600 "[1]"])
      (simp_all add: TOKEN_ID_LEN_def)
  from resume_single_use [OF wf tk this, of "[Put 250 (replicate 16 6) 43, Sweep 300]" 350]
  show ?thesis by (simp add: split_def Let_def seal_def TOKEN_ID_LEN_def)
qed

end
