(* ===== verification/Edge_Header.thy ===== *)
theory Edge_Header
  imports Protocol_Errors External_Code
begin

text \<open>
  The signed header set the DMZ attaches to every forwarded request,
  \<open>crates/strata-protocol/src/edge_header.rs\<close>. A header set is a map from names to values.
\<close>

definition EDGE_HEADERS_CANONICAL :: "str list" where
  "EDGE_HEADERS_CANONICAL =
    [''x-strata-edge-client-ip'', ''x-strata-edge-tls-version'', ''x-strata-edge-tls-cipher'',
     ''x-strata-edge-tls-ja3'', ''x-strata-edge-user-agent'', ''x-strata-edge-request-id'',
     ''x-strata-edge-link-id'', ''x-strata-edge-timestamp-ms'']"

definition EDGE_HEADER_MAC :: str where "EDGE_HEADER_MAC = ''x-strata-edge-trusted-mac''"
definition MAX_TIMESTAMP_SKEW_MS :: int where [bound_simps]: "MAX_TIMESTAMP_SKEW_MS = 60000"

text \<open>A missing header counts as an empty value.\<close>

definition header_value :: "(str \<rightharpoonup> str) \<Rightarrow> str \<Rightarrow> str" where
  "header_value headers name = (case headers name of None \<Rightarrow> [] | Some v \<Rightarrow> v)"

fun canonical_fields :: "(str \<rightharpoonup> str) \<Rightarrow> str list \<Rightarrow> bytes list" where
  "canonical_fields headers [] = []"
| "canonical_fields headers (name # names) =
     as_bytes name # as_bytes (header_value headers name) # canonical_fields headers names"

definition canonical_input :: "(str \<rightharpoonup> str) \<Rightarrow> bytes" where
  "canonical_input headers = lp_concat (canonical_fields headers EDGE_HEADERS_CANONICAL)"

definition sign :: "crypto \<Rightarrow> (str \<rightharpoonup> str) \<Rightarrow> bytes \<Rightarrow> str" where
  "sign cr headers key = b64_encode cr (hmac cr key (canonical_input headers))"

text \<open>The loop over the configured keys: the first match ends it.\<close>

fun verify_any :: "crypto \<Rightarrow> bytes \<Rightarrow> bytes \<Rightarrow> bytes list \<Rightarrow> protocol_error + unit" where
  "verify_any cr input tag [] = Inl BadMac"
| "verify_any cr input tag (key # keys) =
     (if verify_slice cr key input tag then Inr () else verify_any cr input tag keys)"

definition verify :: "crypto \<Rightarrow> (str \<rightharpoonup> str) \<Rightarrow> str \<Rightarrow> bytes list \<Rightarrow> protocol_error + unit" where
  "verify cr headers mac keys =
    (if keys = [] then Inl (AuthFailed ''no edge-hmac keys configured'')
     else and_then (ok_or (b64_decode cr mac) (Malformed ''edge mac is not valid base64'')) (\<lambda>tag.
       verify_any cr (canonical_input headers) tag keys))"

definition check_timestamp :: "(str \<rightharpoonup> str) \<Rightarrow> i64 \<Rightarrow> protocol_error + unit" where
  "check_timestamp headers now_ms =
    and_then (ok_or (case headers ''x-strata-edge-timestamp-ms'' of None \<Rightarrow> None | Some s \<Rightarrow> parse_i64 s)
                (Malformed ''x-strata-edge-timestamp-ms missing or not a number'')) (\<lambda>ts.
      if skew_exceeds now_ms ts MAX_TIMESTAMP_SKEW_MS then Inl Skew else Inr ())"

section \<open>The canonical encoding is injective\<close>

definition values_fit :: "(str \<rightharpoonup> str) \<Rightarrow> bool" where
  "values_fit headers \<longleftrightarrow> (\<forall>name. length (header_value headers name) < 2 ^ 32)"

lemma length_canonical_fields [simp]: "length (canonical_fields h ns) = 2 * length ns"
  by (induction ns) auto

lemma canonical_fields_eq:
  "canonical_fields h ns = canonical_fields h' ns \<Longrightarrow> n \<in> set ns \<Longrightarrow> header_value h n = header_value h' n"
  by (induction ns) auto

lemma canonical_fields_fit:
  "values_fit h \<Longrightarrow> list_all (\<lambda>n. length n < 2 ^ 32) ns \<Longrightarrow> list_all fits_u32 (canonical_fields h ns)"
  by (induction ns) (auto simp: values_fit_def)

lemma canonical_input_inj:
  assumes "values_fit h" "values_fit h'" "canonical_input h = canonical_input h'"
    and "n \<in> set EDGE_HEADERS_CANONICAL"
  shows "header_value h n = header_value h' n"
proof -
  have names: "list_all (\<lambda>n. length n < 2 ^ 32) EDGE_HEADERS_CANONICAL"
    by (simp add: EDGE_HEADERS_CANONICAL_def)
  have "canonical_fields h EDGE_HEADERS_CANONICAL = canonical_fields h' EDGE_HEADERS_CANONICAL"
    using assms(3) canonical_fields_fit [OF assms(1) names] canonical_fields_fit [OF assms(2) names]
    by (intro lp_concat_inj) (simp_all add: canonical_input_def)
  then show ?thesis using assms(4) by (rule canonical_fields_eq)
qed

section \<open>Verification\<close>

lemma verify_any_Inr:
  "verify_any cr input tag keys = Inr () \<longleftrightarrow> (\<exists>key \<in> set keys. hmac cr key input = tag)"
  by (induction keys) (auto simp: verify_slice_def)

lemma verify_any_Inl: "verify_any cr input tag keys = Inl e \<Longrightarrow> e = BadMac"
  by (induction keys) (auto split: if_splits)

lemma verify_Inr:
  "verify cr headers mac keys = Inr () \<longleftrightarrow>
     (\<exists>key \<in> set keys. b64_decode cr mac = Some (hmac cr key (canonical_input headers)))"
  by (auto simp: verify_def result_simps verify_any_Inr)

lemma verify_sign: "crypto_ok cr \<Longrightarrow> key \<in> set keys \<Longrightarrow> verify cr headers (sign cr headers key) keys = Inr ()"
  by (auto simp: verify_Inr sign_def crypto_okD)

lemma verify_same_mac:
  assumes "verify cr h mac [key] = Inr ()" "verify cr h' mac [key] = Inr ()"
    and "values_fit h" "values_fit h'" "n \<in> set EDGE_HEADERS_CANONICAL"
  shows "header_value h n = header_value h' n
       \<or> hmac_collision cr key (canonical_input h) (canonical_input h')"
proof (cases "canonical_input h = canonical_input h'")
  case True
  with assms show ?thesis using canonical_input_inj by blast
next
  case False
  with assms(1,2) show ?thesis by (auto simp: verify_Inr hmac_collision_def)
qed

lemma check_timestamp_Inr:
  "check_timestamp headers now_ms = Inr () \<longleftrightarrow>
    (\<exists>s ts. headers ''x-strata-edge-timestamp-ms'' = Some s \<and> parse_i64 s = Some ts
       \<and> \<not> skew_exceeds now_ms ts MAX_TIMESTAMP_SKEW_MS)"
  by (auto simp: check_timestamp_def result_simps split: option.splits)

section \<open>Properties\<close>

text \<open>Signing then verifying succeeds with any key ring that still holds the signing key, which
  is what makes key rotation safe.\<close>

lemma edge_sign_verify:
  assumes "crypto_ok cr" "key \<in> set keys"
  shows "verify cr headers (sign cr headers key) keys = Inr ()"
  by (rule verify_sign [OF assms])

text \<open>The MAC binds every canonical header: one MAC that verifies for two header sets under a key
  forces the client address, TLS parameters, user agent, request id, link id and timestamp to be the
  same, unless the two canonical inputs collide under the MAC.\<close>

lemma edge_mac_binds_headers:
  assumes "verify cr h mac [key] = Inr ()" "verify cr h' mac [key] = Inr ()"
    and "values_fit h" "values_fit h'" "n \<in> set EDGE_HEADERS_CANONICAL"
  shows "header_value h n = header_value h' n
       \<or> hmac_collision cr key (canonical_input h) (canonical_input h')"
  by (rule verify_same_mac [OF assms])

lemma sample_headers_equal:
  "canonical_input [''x-strata-edge-client-ip'' \<mapsto> ''10.0.0.7'', ''accept'' \<mapsto> ''a''] =
   canonical_input [''x-strata-edge-client-ip'' \<mapsto> ''10.0.0.7'']"
  by (simp add: canonical_input_def EDGE_HEADERS_CANONICAL_def header_value_def)

text \<open>The timestamp that is accepted by wrap-around: with the clock at one second after the epoch,
  a header stamped \<open>2 ^ 63 - 1000\<close> milliseconds before the epoch passes the freshness check.\<close>

lemma edge_timestamp_wraps:
  "check_timestamp [''x-strata-edge-timestamp-ms'' \<mapsto> show_i64 (1000 - 2 ^ 63)] 1000 = Inr ()"
  by (simp add: check_timestamp_def skew_exceeds_def i64_abs_def MAX_TIMESTAMP_SKEW_MS_def)

end
