(* ===== verification/Backoff.thy ===== *)
theory Backoff
  imports Strata_Prelude
begin

text \<open>
  The reconnect delay of the link, \<open>crates/strata-protocol/src/backoff.rs\<close>: decorrelated jitter.
  Durations are whole milliseconds, which is all the code reads of them and all it builds; \<open>rand\<close> is
  the generator's answer to \<open>random_range(lo..hi)\<close>, an argument of the step.
\<close>

record backoff =
  bo_base :: u64
  bo_max :: u64
  bo_prev :: u64

definition backoff_new :: "u64 \<Rightarrow> u64 \<Rightarrow> backoff" where
  "backoff_new base mx = \<lparr>bo_base = base, bo_max = mx, bo_prev = base\<rparr>"

definition backoff_reset :: "backoff \<Rightarrow> backoff" where
  "backoff_reset b = b\<lparr>bo_prev := bo_base b\<rparr>"

definition saturating_mul3 :: "u64 \<Rightarrow> u64" where
  "saturating_mul3 w = (if 3 * unat w < 2 ^ 64 then 3 * w else - 1)"

text \<open>The half-open range the delay is drawn from.\<close>

definition backoff_lo :: "backoff \<Rightarrow> u64" where
  "backoff_lo b = bo_base b"

definition backoff_hi :: "backoff \<Rightarrow> u64" where
  "backoff_hi b = max (saturating_mul3 (bo_prev b)) (backoff_lo b + 1)"

definition next_delay :: "(u64 \<Rightarrow> u64 \<Rightarrow> u64) \<Rightarrow> backoff \<Rightarrow> u64 \<times> backoff" where
  "next_delay random_range b =
    (let pick = random_range (backoff_lo b) (backoff_hi b);
         nxt = min pick (bo_max b)
     in (nxt, b\<lparr>bo_prev := nxt\<rparr>))"

definition default_link_backoff :: backoff where
  "default_link_backoff = backoff_new 250 (30 * 1000)"

text \<open>\<open>Rng::random_range\<close> answers inside the range it is given.\<close>

definition in_range :: "(u64 \<Rightarrow> u64 \<Rightarrow> u64) \<Rightarrow> bool" where
  "in_range random_range \<longleftrightarrow> (\<forall>lo hi. lo < hi \<longrightarrow> lo \<le> random_range lo hi \<and> random_range lo hi < hi)"

text \<open>A configuration whose cap is not below its base, with room for the range's upper end.\<close>

definition backoff_wf :: "backoff \<Rightarrow> bool" where
  "backoff_wf b \<longleftrightarrow> bo_base b \<le> bo_max b \<and> unat (bo_base b) + 1 < 2 ^ 64
     \<and> bo_base b \<le> bo_prev b \<and> bo_prev b \<le> bo_max b"

fun delays :: "(u64 \<Rightarrow> u64 \<Rightarrow> u64) list \<Rightarrow> backoff \<Rightarrow> u64 list" where
  "delays [] b = []"
| "delays (r # rs) b = (let (d, b') = next_delay r b in d # delays rs b')"

lemma saturating_mul3_ge: "w \<le> saturating_mul3 w"
proof (cases "3 * unat w < 2 ^ 64")
  case True
  then have "unat (3 * w) = 3 * unat w" by (simp add: unat_word_ariths)
  with True show ?thesis by (simp add: saturating_mul3_def word_le_nat_alt)
next
  case False
  then show ?thesis by (simp add: saturating_mul3_def)
qed

lemma backoff_range: "backoff_wf b \<Longrightarrow> backoff_lo b < backoff_hi b"
proof -
  assume "backoff_wf b"
  then have "bo_base b < bo_base b + 1"
    by (simp add: backoff_wf_def word_less_nat_alt unat_word_ariths)
  then show ?thesis by (simp add: backoff_lo_def backoff_hi_def max.strict_coboundedI2)
qed

lemma backoff_new_wf [intro]: "base \<le> mx \<Longrightarrow> unat base + 1 < 2 ^ 64 \<Longrightarrow> backoff_wf (backoff_new base mx)"
  by (simp add: backoff_wf_def backoff_new_def)

lemma backoff_reset_wf [intro]: "backoff_wf b \<Longrightarrow> backoff_wf (backoff_reset b)"
  by (simp add: backoff_wf_def backoff_reset_def)

lemma default_link_backoff_wf: "backoff_wf default_link_backoff"
  by (simp add: default_link_backoff_def backoff_wf_def backoff_new_def)

lemma next_delay_step:
  assumes "backoff_wf b" "in_range r" "next_delay r b = (d, b')"
  shows "backoff_wf b'" "bo_base b' = bo_base b" "bo_max b' = bo_max b"
    "bo_base b \<le> d" "d \<le> bo_max b" "d < backoff_hi b"
proof -
  let ?p = "r (backoff_lo b) (backoff_hi b)"
  from assms(2) backoff_range [OF assms(1)] have p: "bo_base b \<le> ?p" "?p < backoff_hi b"
    by (auto simp: in_range_def backoff_lo_def)
  from assms(3) have d: "d = min ?p (bo_max b)" and b': "b' = b\<lparr>bo_prev := d\<rparr>"
    by (auto simp: next_delay_def Let_def)
  from d show le: "d \<le> bo_max b" by simp
  from d p assms(1) show ge: "bo_base b \<le> d" by (simp add: backoff_wf_def)
  from d p show "d < backoff_hi b" by (simp add: min.strict_coboundedI1)
  from b' le ge assms(1) show "backoff_wf b'" "bo_base b' = bo_base b" "bo_max b' = bo_max b"
    by (simp_all add: backoff_wf_def)
qed

lemma delays_within:
  "backoff_wf b \<Longrightarrow> list_all in_range rs \<Longrightarrow> d \<in> set (delays rs b) \<Longrightarrow>
   bo_base b \<le> d \<and> d \<le> bo_max b"
proof (induction rs arbitrary: b)
  case Nil
  then show ?case by simp
next
  case (Cons r rs)
  obtain d0 b' where n: "next_delay r b = (d0, b')" by (cases "next_delay r b")
  from Cons.prems n have "in_range r" by simp
  note step = next_delay_step [OF Cons.prems(1) this n]
  from Cons.prems(3) n have "d = d0 \<or> d \<in> set (delays rs b')" by (auto simp: Let_def)
  with Cons.IH [OF step(1)] Cons.prems(2) step show ?case by auto
qed

section \<open>Properties\<close>

text \<open>Every delay the link waits between reconnect attempts lies between the base and the cap,
  for any sequence of draws, and no draw is taken from an empty range.\<close>

lemma backoff_delays_bounded:
  assumes "backoff_wf b" "list_all in_range rs"
  shows "(\<forall>d \<in> set (delays rs b). bo_base b \<le> d \<and> d \<le> bo_max b) \<and> length (delays rs b) = length rs"
proof
  show "\<forall>d \<in> set (delays rs b). bo_base b \<le> d \<and> d \<le> bo_max b"
    using delays_within [OF assms] by blast
  show "length (delays rs b) = length rs" by (induction rs arbitrary: b) (simp_all add: split_def Let_def)
qed

lemma sample_draws: "list_all in_range [\<lambda>lo hi. lo, \<lambda>lo hi. hi - 1]"
proof -
  have "lo \<le> hi - 1 \<and> hi - 1 < hi" if "lo < hi" for lo hi :: u64
  proof -
    from that have "unat (hi - 1) = unat hi - 1" "unat lo < unat hi"
      by (auto simp: unat_sub_if' word_le_nat_alt word_less_nat_alt)
    then show ?thesis by (simp add: word_le_nat_alt word_less_nat_alt)
  qed
  then show ?thesis by (simp add: in_range_def)
qed

end
