(* ===== verification/Guacamole.thy ===== *)
theory Guacamole
  imports External_Code Stream_Codec
begin

text \<open>
  The Guacamole text wire protocol, \<open>crates/strata-session/src/protocol/guacamole.rs\<close>: encoding of
  instructions as length-prefixed elements, and the parser that tells an incomplete instruction from
  a malformed one. The length prefix counts characters, not bytes.
\<close>

unbundle bit_operations_syntax

datatype wire_error =
    WireMalformed
  | BufferOverflow nat
  | MissingArgument str nat
  | BadArgument str nat

text \<open>The two failure modes of the parser: wait for more bytes, or give the connection up.\<close>

datatype err_mode = Backtrack | Cut

definition MAX_INSTRUCTION_ELEMENTS :: nat where [bound_simps]: "MAX_INSTRUCTION_ELEMENTS = 64"
definition MAX_ELEMENT_CHARS :: nat where [bound_simps]: "MAX_ELEMENT_CHARS = 8 * 1024 * 1024"
definition MAX_LENGTH_DIGITS :: nat where [bound_simps]: "MAX_LENGTH_DIGITS = 9"

record guac_instruction =
  opcode :: str
  args :: "str list"

definition instr_arg :: "guac_instruction \<Rightarrow> nat \<Rightarrow> str option" where
  "instr_arg i index = (if index < length (args i) then Some (args i ! index) else None)"

text \<open>\<open>arg_int\<close>, generic in the integer type through its \<open>parse\<close>.\<close>

definition arg_int :: "(str \<Rightarrow> 'n option) \<Rightarrow> guac_instruction \<Rightarrow> nat \<Rightarrow> wire_error + 'n" where
  "arg_int parse i index =
    and_then (ok_or (instr_arg i index) (MissingArgument (opcode i) index)) (\<lambda>s.
      ok_or (parse s) (BadArgument (opcode i) index))"

section \<open>Encoding\<close>

text \<open>
  Rendering a length into the tail of a 20 byte buffer. Running below the start of the buffer would
  panic; that is the value \<open>None\<close>.
\<close>

fun write_usize :: "bytes \<Rightarrow> nat \<Rightarrow> nat \<Rightarrow> (bytes \<times> nat) option" where
  "write_usize buf i value =
    (if i = 0 then None
     else let i' = i - 1;
              buf' = buf[i' := 48 + of_nat (value mod 10)];
              value' = value div 10
          in if value' = 0 then Some (buf', i') else write_usize buf' i' value')"

declare write_usize.simps [simp del]

definition push_element :: "bytes \<Rightarrow> str \<Rightarrow> bytes" where
  "push_element out value =
    (let digits =
       (case write_usize (replicate 20 0) 20 (unat (of_nat (chars_count value) :: u64)) of
          None \<Rightarrow> [] | Some (buf, len) \<Rightarrow> drop len buf)
     in out @ digits @ [0x2E] @ as_bytes value)"

definition encode_instruction :: "bytes \<Rightarrow> str \<Rightarrow> str list \<Rightarrow> bytes" where
  "encode_instruction out op argv =
    fold (\<lambda>arg acc. push_element (acc @ [0x2C]) arg) argv (push_element out op) @ [0x3B]"

definition instr_encode :: "guac_instruction \<Rightarrow> bytes" where
  "instr_encode i = encode_instruction [] (opcode i) (args i)"

section \<open>Parsing\<close>

definition is_ascii_digit :: "u8 \<Rightarrow> bool" where
  "is_ascii_digit b \<longleftrightarrow> 48 \<le> unat b \<and> unat b \<le> 57"

definition lead_width :: "u8 \<Rightarrow> nat option" where
  "lead_width lead =
    (let n = unat lead in
     if n \<le> 0x7F then Some 1
     else if 0xC2 \<le> n \<and> n \<le> 0xDF then Some 2
     else if 0xE0 \<le> n \<and> n \<le> 0xEF then Some 3
     else if 0xF0 \<le> n \<and> n \<le> 0xF4 then Some 4
     else None)"

text \<open>The loop of \<open>utf8_prefix_len\<close> from byte offset \<open>idx\<close>, for \<open>chars\<close> more characters.\<close>

fun utf8_prefix_from :: "bytes \<Rightarrow> nat \<Rightarrow> nat \<Rightarrow> unit + nat option" where
  "utf8_prefix_from input 0 idx = Inr (Some idx)"
| "utf8_prefix_from input (Suc chars) idx =
    (if idx \<ge> length input then Inr None
     else (case lead_width (input ! idx) of
        None \<Rightarrow> Inl ()
      | Some width \<Rightarrow>
          if idx + width > length input then Inr None
          else if \<not> list_all (\<lambda>cont. cont AND 0xC0 = 0x80) (take (width - 1) (drop (idx + 1) input))
          then Inl ()
          else utf8_prefix_from input chars (idx + width)))"

definition utf8_prefix_len :: "bytes \<Rightarrow> nat \<Rightarrow> unit + nat option" where
  "utf8_prefix_len input chars = utf8_prefix_from input chars 0"

definition digits_fold :: "bytes \<Rightarrow> nat" where
  "digits_fold digits = foldl (\<lambda>acc d. acc * 10 + unat (d - 48)) 0 digits"

definition parse_element :: "winnow \<Rightarrow> bytes \<Rightarrow> err_mode + (str \<times> bytes)" where
  "parse_element wn input =
    (case input of
       [] \<Rightarrow> Inl Backtrack
     | b # _ \<Rightarrow>
       if \<not> is_ascii_digit b then Inl Cut
       else (case wn_take_while wn 1 MAX_LENGTH_DIGITS is_ascii_digit input of
          None \<Rightarrow> Inl Cut
        | Some (digits, input1) \<Rightarrow>
       (case input1 of
          [] \<Rightarrow> Inl Backtrack
        | c # input2 \<Rightarrow>
          if c \<noteq> 0x2E then Inl Cut
          else let char_len = digits_fold digits in
          if char_len > MAX_ELEMENT_CHARS then Inl Cut
          else (case utf8_prefix_len input2 char_len of
             Inl _ \<Rightarrow> Inl Cut
           | Inr None \<Rightarrow> Inl Backtrack
           | Inr (Some byte_len) \<Rightarrow>
               (case wn_take wn byte_len input2 of
                  None \<Rightarrow> Inl Backtrack
                | Some (raw, rest) \<Rightarrow>
                    (case from_utf8 raw of None \<Rightarrow> Inl Cut | Some s \<Rightarrow> Inr (s, rest)))))))"

text \<open>The loop over the arguments; the element limit bounds it.\<close>

function parse_args :: "winnow \<Rightarrow> bytes \<Rightarrow> str \<Rightarrow> str list \<Rightarrow> err_mode + (guac_instruction \<times> bytes)"
where
  "parse_args wn input op argv =
    (case input of
       [] \<Rightarrow> Inl Backtrack
     | b # input1 \<Rightarrow>
       if b = 0x3B then Inr (\<lparr>opcode = op, args = argv\<rparr>, input1)
       else if b = 0x2C then
         if length argv + 1 \<ge> MAX_INSTRUCTION_ELEMENTS then Inl Cut
         else (case parse_element wn input1 of
            Inl e \<Rightarrow> Inl e
          | Inr (s, input2) \<Rightarrow> parse_args wn input2 op (argv @ [s]))
       else Inl Cut)"
  by pat_completeness auto
termination
  by (relation "measure (\<lambda>(wn, input, op, argv). MAX_INSTRUCTION_ELEMENTS - length argv)") auto

declare parse_args.simps [simp del]

definition parse_instruction :: "winnow \<Rightarrow> bytes \<Rightarrow> err_mode + (guac_instruction \<times> bytes)" where
  "parse_instruction wn input =
    (case parse_element wn input of Inl e \<Rightarrow> Inl e | Inr (op, input1) \<Rightarrow> parse_args wn input1 op [])"

definition try_parse_instruction ::
    "winnow \<Rightarrow> bytes \<Rightarrow> wire_error + (guac_instruction \<times> nat) option" where
  "try_parse_instruction wn buf =
    (case parse_instruction wn buf of
       Inr (i, rest) \<Rightarrow> Inr (Some (i, length buf - length rest))
     | Inl Backtrack \<Rightarrow> Inr None
     | Inl Cut \<Rightarrow> Inl WireMalformed)"

section \<open>The encoder in closed form\<close>

lemma of_char_digit_char: "d < 10 \<Longrightarrow> (of_char (digit_char d) :: u8) = 48 + of_nat d"
proof -
  assume "d < 10"
  then have "unat (of_char (digit_char d) :: u8) = 48 + d" by (simp add: digit_char_def)
  also have "\<dots> = unat (48 + of_nat d :: u8)" using \<open>d < 10\<close>
    by (simp add: unat_word_ariths unat_of_nat)
  finally show ?thesis by (simp only: word_unat_eq_iff)
qed

lemma as_bytes_single: "as_bytes [c] = [of_char c]"
  by (simp add: as_bytes_def)

lemma write_usize_show:
  "length (show_nat v) \<le> i \<Longrightarrow> i \<le> length buf \<Longrightarrow>
   write_usize buf i v = Some (take (i - length (show_nat v)) buf @ as_bytes (show_nat v) @ drop i buf,
     i - length (show_nat v))"
proof (induction v arbitrary: i buf rule: show_nat.induct)
  case (1 v)
  from "1.prems" have i: "0 < i" by (cases "show_nat v") auto
  then obtain k where k: "i = Suc k" by (cases i) auto
  with "1.prems" have kl: "k < length buf" by simp
  let ?b = "buf[k := 48 + of_nat (v mod 10)]" and ?q = "show_nat (v div 10)"
  have d: "take j ?b = take j buf" if "j \<le> k" for j using that by simp
  have e: "drop k ?b = of_char (digit_char (v mod 10)) # drop (Suc k) buf"
    using kl by (simp add: Cons_nth_drop_Suc [symmetric] of_char_digit_char)
  show ?case
  proof (cases "v < 10")
    case True
    then have s: "show_nat v = [digit_char v]" by (subst show_nat.simps) simp
    from True k have "write_usize buf i v = Some (?b, k)" by (subst write_usize.simps) simp
    also have "?b = take k buf @ of_char (digit_char (v mod 10)) # drop (Suc k) buf"
      using append_take_drop_id [of k ?b] unfolding e by simp
    finally show ?thesis using True k s d [of k] e by (simp add: as_bytes_def)
  next
    case False
    have s: "show_nat v = ?q @ [digit_char (v mod 10)]" using False by (subst show_nat.simps) simp
    from "1.prems" s k have "length ?q \<le> k" "k \<le> length ?b" by auto
    from "1.IH" [OF False this] False k have
      "write_usize buf i v = Some (take (k - length ?q) ?b @ as_bytes ?q @ drop k ?b, k - length ?q)"
      by (subst write_usize.simps) (simp add: Let_def div_eq_0_iff)
    then show ?thesis unfolding s using k e d [of "k - length ?q"] by (simp add: as_bytes_single)
  qed
qed

lemma length_show_u64: "length (show_nat (unat (v :: u64))) \<le> 20"
proof (rule length_show_nat)
  show "unat v < 10 ^ 20" by (rule less_trans [OF unat_lt_u64]) simp
qed simp

lemma write_usize_fits:
  "write_usize (replicate 20 0) 20 (unat (v :: u64)) =
     Some (replicate (20 - length (show_nat (unat v))) 0 @ as_bytes (show_nat (unat v)),
           20 - length (show_nat (unat v)))"
  using write_usize_show [of "unat v" 20 "replicate 20 0"] length_show_u64 [of v] by simp

definition element_bytes :: "str \<Rightarrow> bytes" where
  "element_bytes s = as_bytes (show_nat (unat (of_nat (chars_count s) :: u64))) @ [0x2E] @ as_bytes s"

lemma push_element_eq: "push_element out s = out @ element_bytes s"
  by (simp add: push_element_def write_usize_fits element_bytes_def)

definition tail_bytes :: "str list \<Rightarrow> bytes" where
  "tail_bytes argv = concat (map (\<lambda>a. 0x2C # element_bytes a) argv) @ [0x3B]"

lemma tail_bytes_simps [simp]:
  "tail_bytes [] = [0x3B]" "tail_bytes (a # as) = 0x2C # element_bytes a @ tail_bytes as"
  by (simp_all add: tail_bytes_def)

lemma encode_instruction_eq: "encode_instruction out op argv = out @ element_bytes op @ tail_bytes argv"
proof -
  have "fold (\<lambda>arg acc. push_element (acc @ [0x2C]) arg) argv acc @ [0x3B] = acc @ tail_bytes argv" for acc
    by (induction argv arbitrary: acc) (simp_all add: push_element_eq)
  then show ?thesis by (simp add: encode_instruction_def push_element_eq)
qed

section \<open>The character walk\<close>

lemma and_C0_eq_80: "(b :: u8) AND 0xC0 = 0x80 \<longleftrightarrow> is_cont b"
proof -
  have "b = of_nat (unat b)" by simp
  moreover have "unat b \<in> set [0..<256]" using unat_lt_256 [of b] by simp
  moreover have "\<forall>n \<in> set [0..<256]. (of_nat n :: u8) AND 0xC0 = 0x80 \<longleftrightarrow> 0x80 \<le> n \<and> n \<le> 0xBF"
    by code_simp
  ultimately show ?thesis by (metis is_cont_def)
qed

lemma lead_width_step: "utf8_step bs = Some w \<Longrightarrow> lead_width (hd bs) = Some w"
  by (auto simp: utf8_step_def lead_width_def Let_def split: list.splits if_splits)

lemma lead_width_pos: "lead_width b = Some w \<Longrightarrow> 1 \<le> w"
  by (auto simp: lead_width_def Let_def split: if_splits)

lemma utf8_prefix_from_valid:
  "utf8_valid bs \<Longrightarrow>
   utf8_prefix_from (pre @ bs @ rest) (length (filter (\<lambda>b. \<not> is_cont b) bs)) (length pre)
     = Inr (Some (length pre + length bs))"
proof (induction bs arbitrary: pre rule: utf8_valid_induct)
  case Nil
  show ?case by simp
next
  case (Char bs w)
  have b: "1 \<le> w" "w \<le> length bs" using utf8_step_bounds [OF Char(1)] by auto
  then obtain a r where bs: "bs = a # r" by (cases bs) auto
  have c: "\<not> is_cont a" "list_all is_cont (take (w - 1) r)" using utf8_step_conts [OF Char(1)] bs by auto
  have l: "lead_width a = Some w" using lead_width_step [OF Char(1)] bs by simp
  have "drop w bs = drop (w - 1) r" using b bs by (cases w) auto
  moreover have "filter (\<lambda>b. \<not> is_cont b) (take (w - 1) r) = []"
    using c(2) by (auto simp: filter_empty_conv list_all_iff)
  then have "filter (\<lambda>b. \<not> is_cont b) r = filter (\<lambda>b. \<not> is_cont b) (drop (w - 1) r)"
    by (metis append_take_drop_id filter_append self_append_conv2)
  ultimately have n: "length (filter (\<lambda>b. \<not> is_cont b) bs)
      = Suc (length (filter (\<lambda>b. \<not> is_cont b) (drop w bs)))"
    using c(1) bs by simp
  have "utf8_prefix_from (pre @ bs @ rest) (length (filter (\<lambda>b. \<not> is_cont b) bs)) (length pre)
     = utf8_prefix_from (pre @ bs @ rest) (length (filter (\<lambda>b. \<not> is_cont b) (drop w bs))) (length pre + w)"
    unfolding n using b bs l c by (auto simp: nth_append and_C0_eq_80 list_all_iff)
  also have "\<dots> = Inr (Some (length pre + length bs))"
    using Char.IH [of "pre @ take w bs"] b
    by (simp only: append_assoc append_take_drop_id append_assoc [of "take w bs", symmetric]) simp
  finally show ?case .
qed

lemma utf8_prefix_len_str:
  "is_str s \<Longrightarrow> utf8_prefix_len (as_bytes s @ rest) (chars_count s) = Inr (Some (length s))"
  using utf8_prefix_from_valid [of "as_bytes s" "[]" rest]
  by (simp add: utf8_prefix_len_def chars_count_def is_str_def)

lemma utf8_prefix_from_append:
  "utf8_prefix_from input n idx = Inr (Some k) \<Longrightarrow> utf8_prefix_from (input @ t) n idx = Inr (Some k)"
  "utf8_prefix_from input n idx = Inl u \<Longrightarrow> utf8_prefix_from (input @ t) n idx = Inl u"
  by (induction input n idx rule: utf8_prefix_from.induct)
    (auto simp: nth_append split: if_splits option.splits)

section \<open>Parsing one element\<close>

text \<open>The documented behaviour determines the two primitives.\<close>

lemma winnow_ok_iff: "winnow_ok wn \<longleftrightarrow> wn = winnow_slice"
proof
  assume "winnow_ok wn"
  then show "wn = winnow_slice"
    by (intro winnow.equality) (auto simp: winnow_ok_def winnow_slice_def fun_eq_iff)
qed (simp add: winnow_slice_ok)

text \<open>The digits of a length prefix, as bytes.\<close>

lemma is_ascii_digit_of_char: "is_ascii_digit (of_char c) \<longleftrightarrow> is_digit c"
  by (simp add: is_ascii_digit_def is_digit_def)

lemma digits_fold_as_bytes: "list_all is_digit s \<Longrightarrow> digits_fold (as_bytes s) = digits_val s"
proof (induction s rule: rev_induct)
  case Nil
  show ?case by (simp add: digits_fold_def as_bytes_def)
next
  case (snoc c s)
  have "unat (of_char c - 48 :: u8) = digit_val c"
    using snoc.prems by (simp add: unat_sub_if' digit_val_def is_digit_def word_le_nat_alt)
  with snoc show ?case by (simp add: digits_fold_def as_bytes_single)
qed

lemma takeWhile_stop: "list_all p d \<Longrightarrow> length d \<le> n \<Longrightarrow> \<not> p c \<Longrightarrow> takeWhile p (take n (d @ c # r)) = d"
proof (cases "length d = n")
  case True
  assume "list_all p d"
  with True show ?thesis by (simp add: list_all_iff)
next
  case False
  assume "list_all p d" "length d \<le> n" "\<not> p c"
  with False obtain k where "n - length d = Suc k" by (cases "n - length d") auto
  with \<open>list_all p d\<close> \<open>\<not> p c\<close> show ?thesis by (simp add: list_all_iff)
qed

definition element_wf :: "str \<Rightarrow> bool" where
  "element_wf s \<longleftrightarrow> is_str s \<and> chars_count s \<le> MAX_ELEMENT_CHARS"

lemma element_wf_u64: "element_wf s \<Longrightarrow> unat (of_nat (chars_count s) :: u64) = chars_count s"
  by (simp add: element_wf_def MAX_ELEMENT_CHARS_def unat_of_nat)

lemma parse_element_bytes:
  assumes "element_wf s"
  shows "parse_element winnow_slice (element_bytes s @ rest) = Inr (s, rest)"
proof -
  let ?d = "as_bytes (show_nat (chars_count s))"
  have e: "element_bytes s @ rest = ?d @ 0x2E # as_bytes s @ rest"
    by (simp add: element_bytes_def element_wf_u64 [OF assms])
  have dig: "list_all is_ascii_digit ?d"
    using show_nat_digits [of "chars_count s"]
    by (auto simp: list_all_iff as_bytes_def is_ascii_digit_of_char simp del: show_nat_digits)
  have ne: "?d \<noteq> []" by (simp add: as_bytes_def)
  then obtain a d' where ad: "?d = a # d'" by (cases ?d) auto
  have len: "length ?d \<le> 9"
    using assms by (auto simp: element_wf_def MAX_ELEMENT_CHARS_def intro!: length_show_nat)
  have tw: "takeWhile is_ascii_digit (take 9 (?d @ 0x2E # as_bytes s @ rest)) = ?d"
    by (rule takeWhile_stop [OF dig len]) (simp add: is_ascii_digit_def)
  have wn: "wn_take_while winnow_slice 1 MAX_LENGTH_DIGITS is_ascii_digit (?d @ 0x2E # as_bytes s @ rest)
      = Some (?d, 0x2E # as_bytes s @ rest)"
    using ne unfolding winnow_slice_def MAX_LENGTH_DIGITS_def
    by (simp only: winnow.simps tw Let_def) (simp add: Suc_le_eq)
  have fd: "digits_fold ?d = chars_count s" by (simp add: digits_fold_as_bytes)
  show ?thesis
    unfolding e parse_element_def wn
    using ad dig assms utf8_prefix_len_str [of s rest]
    by (simp add: fd [unfolded ad] Let_def element_wf_def) (simp add: winnow_slice_def)
qed

section \<open>Answers do not change as the buffer grows\<close>

lemma takeWhile_take_append:
  assumes "drop (length (takeWhile p (take n b))) b \<noteq> []"
  shows "takeWhile p (take n (b @ t)) = takeWhile p (take n b)"
proof (cases "n \<le> length b")
  case True
  then show ?thesis by simp
next
  case False
  with assms have "length (takeWhile p b) < length b" by simp
  then have "\<exists>x\<in>set b. \<not> p x" by (metis less_irrefl takeWhile_eq_all_conv)
  with False show ?thesis by auto
qed

text \<open>The parser on a buffer that starts with a length prefix and a separator.\<close>

lemma parse_element_split:
  assumes "b = d @ c # r" "d = takeWhile is_ascii_digit (take MAX_LENGTH_DIGITS b)" "d \<noteq> []"
  shows "parse_element winnow_slice b =
    (if c \<noteq> 0x2E \<or> digits_fold d > MAX_ELEMENT_CHARS then Inl Cut
     else (case utf8_prefix_len r (digits_fold d) of
             Inl _ \<Rightarrow> Inl Cut
           | Inr None \<Rightarrow> Inl Backtrack
           | Inr (Some n) \<Rightarrow>
               if length r < n then Inl Backtrack
               else (case from_utf8 (take n r) of None \<Rightarrow> Inl Cut | Some s \<Rightarrow> Inr (s, drop n r))))"
proof -
  have wn: "wn_take_while winnow_slice 1 MAX_LENGTH_DIGITS is_ascii_digit b = Some (d, c # r)"
  proof -
    have "drop (length d) b = c # r" by (simp add: assms(1))
    then show ?thesis using assms(3)
      unfolding winnow_slice_def winnow.simps Let_def assms(2) [symmetric] by (simp add: Suc_le_eq)
  qed
  obtain a d' where d: "d = a # d'" using assms(3) by (cases d) auto
  then have "a \<in> set (takeWhile is_ascii_digit (take MAX_LENGTH_DIGITS b))"
    unfolding assms(2) [symmetric] by simp
  then have "is_ascii_digit a" by (blast dest: set_takeWhileD)
  moreover obtain b' where b: "b = a # b'" using assms(1) d by simp
  moreover have wt: "wn_take winnow_slice n r = (if length r < n then None else Some (take n r, drop n r))"
    for n by (simp add: winnow_slice_def)
  ultimately show ?thesis unfolding parse_element_def
    by (simp add: wn [unfolded b One_nat_def] wt Let_def split: sum.split option.split)
qed

lemma utf8_prefix_from_le: "idx \<le> length b \<Longrightarrow> utf8_prefix_from b n idx = Inr (Some k) \<Longrightarrow> k \<le> length b"
  by (induction b n idx rule: utf8_prefix_from.induct) (auto split: if_splits option.splits)

lemma utf8_prefix_len_le: "utf8_prefix_len b n = Inr (Some k) \<Longrightarrow> k \<le> length b"
  unfolding utf8_prefix_len_def by (rule utf8_prefix_from_le [of 0]) simp

lemma parse_element_cases:
  obtains "b = []" | a r where "b = a # r" "\<not> is_ascii_digit a"
  | "b \<noteq> []" "is_ascii_digit (hd b)" "parse_element winnow_slice b = Inl Backtrack"
  | d c r where "b = d @ c # r" "d = takeWhile is_ascii_digit (take MAX_LENGTH_DIGITS b)" "d \<noteq> []"
proof (cases b)
  case Nil
  then show ?thesis using that by blast
next
  case (Cons a r)
  let ?d = "takeWhile is_ascii_digit (take MAX_LENGTH_DIGITS b)"
  show ?thesis
  proof (cases "is_ascii_digit a")
    case False
    with Cons show ?thesis using that by blast
  next
    case True
    then have d: "?d \<noteq> []" using Cons by (simp add: MAX_LENGTH_DIGITS_def)
    have eq: "b = ?d @ drop (length ?d) b"
      by (metis append_take_drop_id takeWhile_dropWhile_id append_eq_conv_conj append_assoc)
    show ?thesis
    proof (cases "drop (length ?d) b")
      case Nil
      then have "wn_take_while winnow_slice 1 MAX_LENGTH_DIGITS is_ascii_digit b = Some (?d, [])"
        using d by (simp add: winnow_slice_def Let_def Suc_le_eq)
      with True Cons have "parse_element winnow_slice b = Inl Backtrack" by (simp add: parse_element_def)
      with True Cons show ?thesis using that by simp
    next
      case (Cons c r')
      with eq have "b = ?d @ c # r'" by simp
      with d show ?thesis using that by blast
    qed
  qed
qed

lemma parse_element_append:
  assumes "parse_element winnow_slice b \<noteq> Inl Backtrack"
  shows "parse_element winnow_slice (b @ t) =
    map_sum id (\<lambda>(s, r). (s, r @ t)) (parse_element winnow_slice b)"
proof (cases b rule: parse_element_cases)
  case 1
  with assms show ?thesis by (simp add: parse_element_def)
next
  case (2 a r)
  then show ?thesis by (simp add: parse_element_def)
next
  case 3
  with assms show ?thesis by simp
next
  case (4 d c r)
  have "takeWhile is_ascii_digit (take MAX_LENGTH_DIGITS (b @ t)) = d"
  proof -
    have "drop (length d) b \<noteq> []" by (simp add: 4(1))
    then show ?thesis
      using takeWhile_take_append [of is_ascii_digit MAX_LENGTH_DIGITS b t] unfolding 4(2) [symmetric] by simp
  qed
  note tw = this [symmetric]
  have eq: "b @ t = d @ c # (r @ t)" by (simp add: 4(1))
  note new = parse_element_split [OF eq tw 4(3)] and old = parse_element_split [OF 4]
  show ?thesis
  proof (cases "utf8_prefix_len r (digits_fold d)")
    case (Inl u)
    then have "utf8_prefix_len (r @ t) (digits_fold d) = Inl u"
      unfolding utf8_prefix_len_def by (rule utf8_prefix_from_append(2))
    with Inl show ?thesis unfolding new old by simp
  next
    case (Inr res)
    show ?thesis
    proof (cases res)
      case None
      with Inr assms show ?thesis unfolding new old by (cases "c = 46") (simp_all split: if_splits)
    next
      case (Some n)
      with Inr have "utf8_prefix_len (r @ t) (digits_fold d) = Inr (Some n)" "n \<le> length r"
        by (auto simp: utf8_prefix_len_def utf8_prefix_from_append(1) intro: utf8_prefix_from_le [of 0])
      with Inr Some show ?thesis unfolding new old by (simp split: option.splits)
    qed
  qed
qed

section \<open>Instructions\<close>

definition instr_wf :: "guac_instruction \<Rightarrow> bool" where
  "instr_wf i \<longleftrightarrow> element_wf (opcode i) \<and> list_all element_wf (args i)
     \<and> length (args i) < MAX_INSTRUCTION_ELEMENTS"

definition instr_dec :: "winnow \<Rightarrow> bytes \<Rightarrow> (wire_error, guac_instruction) decoded" where
  "instr_dec wn buf =
    (case try_parse_instruction wn buf of
       Inl e \<Rightarrow> Refused e | Inr None \<Rightarrow> Incomplete | Inr (Some (i, n)) \<Rightarrow> Complete i n)"

lemma parse_args_tail:
  "list_all element_wf todo \<Longrightarrow> length (argv @ todo) < MAX_INSTRUCTION_ELEMENTS \<Longrightarrow>
   parse_args winnow_slice (tail_bytes todo @ rest) op argv = Inr (\<lparr>opcode = op, args = argv @ todo\<rparr>, rest)"
proof (induction todo arbitrary: argv)
  case Nil
  then show ?case by (subst parse_args.simps) simp
next
  case (Cons a todo)
  have "parse_args winnow_slice (tail_bytes (a # todo) @ rest) op argv =
      parse_args winnow_slice (tail_bytes todo @ rest) op (argv @ [a])"
    using Cons.prems by (subst parse_args.simps) (simp add: parse_element_bytes)
  with Cons.IH [of "argv @ [a]"] Cons.prems show ?case by simp
qed

lemma parse_instruction_encode:
  "instr_wf i \<Longrightarrow> parse_instruction winnow_slice (instr_encode i @ rest) = Inr (i, rest)"
  by (simp add: parse_instruction_def instr_encode_def encode_instruction_eq parse_element_bytes
      parse_args_tail instr_wf_def)

lemma parse_args_append:
  "parse_args wn b op argv \<noteq> Inl Backtrack \<Longrightarrow> wn = winnow_slice \<Longrightarrow>
   parse_args wn (b @ t) op argv = map_sum id (\<lambda>(i, r). (i, r @ t)) (parse_args wn b op argv)"
proof (induction wn b op argv rule: parse_args.induct)
  case (1 wn b op argv)
  show ?case
  proof (cases b)
    case Nil
    with "1.prems" show ?thesis by (simp add: parse_args.simps)
  next
    case (Cons a r)
    note unfold = parse_args.simps [of wn "b @ t" op argv] parse_args.simps [of wn b op argv]
    show ?thesis
    proof (cases "a = 0x2C \<and> length argv + 1 < MAX_INSTRUCTION_ELEMENTS \<and> parse_element wn r \<noteq> Inl Backtrack")
      case True
      then have e: "parse_element wn (r @ t) = map_sum id (\<lambda>(s, r). (s, r @ t)) (parse_element wn r)"
        using "1.prems"(2) parse_element_append by simp
      show ?thesis
      proof (cases "parse_element wn r")
        case (Inl x)
        with True e Cons show ?thesis unfolding unfold by simp
      next
        case (Inr p)
        obtain s r2 where p: "p = (s, r2)" by (cases p)
        with Inr True Cons "1.prems" have nb: "parse_args wn r2 op (argv @ [s]) \<noteq> Inl Backtrack"
          unfolding unfold by simp
        from True Inr p Cons have
          "parse_args wn (r2 @ t) op (argv @ [s]) =
             map_sum id (\<lambda>(i, r). (i, r @ t)) (parse_args wn r2 op (argv @ [s]))"
          using "1.IH" [OF Cons _ _ _ Inr p [symmetric] nb "1.prems"(2)] by (simp add: id_def)
        with True e Inr p Cons show ?thesis unfolding unfold by (simp add: id_def)
      qed
    next
      case False
      with "1.prems" Cons show ?thesis unfolding unfold by (auto split: if_splits)
    qed
  qed
qed

lemma parse_instruction_append:
  assumes "parse_instruction winnow_slice b \<noteq> Inl Backtrack"
  shows "parse_instruction winnow_slice (b @ t) =
    map_sum id (\<lambda>(i, r). (i, r @ t)) (parse_instruction winnow_slice b)"
proof (cases "parse_element winnow_slice b")
  case (Inl e)
  with assms show ?thesis using parse_element_append [of b t]
    by (simp add: parse_instruction_def)
next
  case (Inr p)
  with assms show ?thesis using parse_element_append [of b t]
    by (cases p) (simp add: parse_instruction_def parse_args_append)
qed

text \<open>What is left is a suffix of what was given, and shorter.\<close>

lemma parse_element_rest:
  assumes "parse_element winnow_slice b = Inr (s, r)"
  shows "\<exists>u. u \<noteq> [] \<and> b = u @ r"
proof (cases b rule: parse_element_cases)
  case (4 d c q)
  from assms obtain n where "r = drop n q"
    unfolding parse_element_split [OF 4] by (auto split: if_splits sum.splits option.splits)
  then have "b = (d @ c # take n q) @ r" using 4(1) by simp
  then show ?thesis by blast
qed (use assms in \<open>auto simp: parse_element_def\<close>)

lemma parse_args_rest:
  "parse_args wn b op argv = Inr (i, r) \<Longrightarrow> wn = winnow_slice \<Longrightarrow> \<exists>u. u \<noteq> [] \<and> b = u @ r"
proof (induction wn b op argv rule: parse_args.induct)
  case (1 wn b op argv)
  note step = "1.prems"(1) [unfolded parse_args.simps [of wn b op argv]]
  show ?case
  proof (cases b)
    case Nil
    with step show ?thesis by simp
  next
    case (Cons a q)
    show ?thesis
    proof (cases "a = 0x3B")
      case True
      with step Cons show ?thesis by auto
    next
      case False
      with step Cons obtain s q2 where e: "parse_element wn q = Inr (s, q2)"
        and c: "a = 0x2C" "\<not> MAX_INSTRUCTION_ELEMENTS \<le> length argv + 1"
        and p: "parse_args wn q2 op (argv @ [s]) = Inr (i, r)"
        by (auto split: if_splits sum.splits prod.splits)
      from "1.IH" [OF Cons False c e _ p "1.prems"(2)] obtain u where "q2 = u @ r" by auto
      moreover from e "1.prems"(2) parse_element_rest [of q s q2] obtain v where "q = v @ q2" by auto
      ultimately have "b = (a # v @ u) @ r" using Cons by simp
      then show ?thesis by blast
    qed
  qed
qed

lemma parse_instruction_rest:
  assumes "parse_instruction winnow_slice b = Inr (i, r)"
  shows "\<exists>u. u \<noteq> [] \<and> b = u @ r"
proof -
  from assms obtain op q where e: "parse_element winnow_slice b = Inr (op, q)"
    and p: "parse_args winnow_slice q op [] = Inr (i, r)"
    by (auto simp: parse_instruction_def split: sum.splits)
  obtain u v where "b = u @ q" "u \<noteq> []" "q = v @ r"
    using parse_element_rest [OF e] parse_args_rest [OF p] by blast
  then have "b = (u @ v) @ r" "u @ v \<noteq> []" by simp_all
  then show ?thesis by blast
qed

text \<open>A decision, once taken on a buffer, is the decision on every longer buffer.\<close>

lemma instr_dec_append:
  assumes "instr_dec winnow_slice b \<noteq> Incomplete"
  shows "instr_dec winnow_slice (b @ t) = instr_dec winnow_slice b"
proof -
  have "parse_instruction winnow_slice b \<noteq> Inl Backtrack"
    using assms by (auto simp: instr_dec_def try_parse_instruction_def)
  from parse_instruction_append [OF this, of t] show ?thesis
    by (auto simp: instr_dec_def try_parse_instruction_def
        split: sum.splits err_mode.splits)
qed

lemma instr_dec_encode: "instr_wf i \<Longrightarrow> instr_dec winnow_slice (instr_encode i @ rest) = Complete i (length (instr_encode i))"
  by (simp add: instr_dec_def try_parse_instruction_def parse_instruction_encode)

lemma instr_dec_complete:
  "instr_dec winnow_slice b = Complete i n \<Longrightarrow> 0 < n \<and> n \<le> length b"
  using parse_instruction_rest [of b]
  by (fastforce simp: instr_dec_def try_parse_instruction_def split: sum.splits option.splits err_mode.splits)

lemma instr_dec_prefix:
  assumes "instr_wf i" "strict_prefix p (instr_encode i)"
  shows "instr_dec winnow_slice p = Incomplete"
proof (rule ccontr)
  assume ni: "instr_dec winnow_slice p \<noteq> Incomplete"
  from assms(2) obtain t where t: "instr_encode i = p @ t" "t \<noteq> []" by (auto simp: strict_prefix_def prefix_def)
  from instr_dec_append [OF ni, of t] instr_dec_encode [OF assms(1), of "[]"] t
  have "instr_dec winnow_slice p = Complete i (length p + length t)" by simp
  from instr_dec_complete [OF this] t show False by simp
qed

lemma instr_encode_nonempty: "instr_encode i \<noteq> []"
  by (simp add: instr_encode_def encode_instruction_eq element_bytes_def)

interpretation guac: stream_codec instr_encode "instr_dec winnow_slice" instr_wf
  by unfold_locales (simp_all add: instr_dec_encode instr_encode_nonempty instr_dec_prefix)

text \<open>An accepted instruction satisfies the limits the parser enforces.\<close>

lemma parse_element_wf:
  assumes "parse_element winnow_slice b = Inr (s, r)"
  shows "is_str s"
proof (cases b rule: parse_element_cases)
  case (4 d c q)
  from assms show ?thesis
    unfolding parse_element_split [OF 4]
    by (auto simp: from_utf8_Some split: if_splits sum.splits option.splits)
qed (use assms in \<open>auto simp: parse_element_def\<close>)

lemma parse_args_wf:
  "parse_args wn b op argv = Inr (i, r) \<Longrightarrow> wn = winnow_slice \<Longrightarrow> list_all is_str argv \<Longrightarrow>
   length argv < MAX_INSTRUCTION_ELEMENTS \<Longrightarrow>
   opcode i = op \<and> list_all is_str (args i) \<and> length (args i) < MAX_INSTRUCTION_ELEMENTS"
proof (induction wn b op argv rule: parse_args.induct)
  case (1 wn b op argv)
  note step = "1.prems"(1) [unfolded parse_args.simps [of wn b op argv]]
  then obtain a q where Cons: "b = a # q" by (cases b) auto
  show ?case
  proof (cases "a = 0x3B")
    case True
    with step Cons "1.prems" show ?thesis by auto
  next
    case False
    with step Cons obtain s q2 where e: "parse_element wn q = Inr (s, q2)"
      and c: "a = 0x2C" "\<not> MAX_INSTRUCTION_ELEMENTS \<le> length argv + 1"
      and p: "parse_args wn q2 op (argv @ [s]) = Inr (i, r)"
      by (auto split: if_splits sum.splits prod.splits)
    from e "1.prems"(2) have "is_str s" using parse_element_wf by blast
    with "1.IH" [OF Cons False c e _ p "1.prems"(2)] "1.prems" c show ?thesis by simp
  qed
qed

section \<open>Properties\<close>

lemma try_parse_dec:
  "instr_dec wn b = Complete i n \<longleftrightarrow> try_parse_instruction wn b = Inr (Some (i, n))"
  "instr_dec wn b = Incomplete \<longleftrightarrow> try_parse_instruction wn b = Inr None"
  "instr_dec wn b = Refused e \<longleftrightarrow> try_parse_instruction wn b = Inl e"
  by (auto simp: instr_dec_def split: sum.splits option.splits)

text \<open>An instruction with a two byte character, one argument and a length prefix of one.\<close>

definition sample_instruction :: guac_instruction where
  "sample_instruction = \<lparr>opcode = ''key'', args = [[CHR 0xC3, CHR 0xA9]]\<rparr>"

lemma sample_instruction_wf: "instr_wf sample_instruction"
proof -
  have "utf8_valid [0xC3, 0xA9]"
    by (simp add: utf8_valid.simps utf8_step_def is_cont_def)
  then have "is_str [CHR 0xC3, CHR 0xA9]" by (simp add: is_str_def as_bytes_def)
  moreover have "chars_count [CHR 0xC3, CHR 0xA9] \<le> MAX_ELEMENT_CHARS"
    using chars_count_le [of "[CHR 0xC3, CHR 0xA9]"] by (simp add: MAX_ELEMENT_CHARS_def)
  ultimately show ?thesis
    by (simp add: instr_wf_def sample_instruction_def element_wf_def is_ascii_is_str is_ascii_chars_count
        MAX_ELEMENT_CHARS_def MAX_INSTRUCTION_ELEMENTS_def)
qed

text \<open>Every well-formed instruction survives the wire: the parser returns the opcode and arguments
  that were encoded, multi-byte characters included, and the exact number of bytes used, whatever
  follows in the buffer.\<close>

lemma instruction_roundtrip:
  assumes "winnow_ok wn" "instr_wf i"
  shows "try_parse_instruction wn (instr_encode i @ rest) = Inr (Some (i, length (instr_encode i)))"
  using assms parse_instruction_encode [of i rest] by (simp add: winnow_ok_iff try_parse_instruction_def)

text \<open>A verdict is final: once the parser has recognised an instruction or refused a buffer, no
  bytes arriving later change the verdict, so reading in any chunk sizes gives the same result.\<close>

lemma parse_verdict_stable:
  assumes "winnow_ok wn" "try_parse_instruction wn b \<noteq> Inr None"
  shows "try_parse_instruction wn (b @ more_bytes) = try_parse_instruction wn b"
proof -
  have "instr_dec winnow_slice b \<noteq> Incomplete" using assms by (auto simp: winnow_ok_iff try_parse_dec)
  from instr_dec_append [OF this, of more_bytes] show ?thesis
    using assms(1) by (auto simp: winnow_ok_iff instr_dec_def split: sum.splits option.splits)
qed

end
