(* ===== verification/Instruction.thy ===== *)
theory Instruction
  imports Guacamole
begin

text \<open>
  Typed views over the Guacamole instruction set, \<open>crates/strata-session/src/protocol/instruction.rs\<close>:
  reading a client instruction from its wire form, and the wire form of a server instruction.
\<close>

section \<open>Client instructions\<close>

datatype client_instruction =
    CSize u32 u32 "u32 option"
  | CMouse i32 i32 u8
  | CKey u32 bool
  | CClipboard i32 str
  | CBlob i32 str
  | CEnd i32
  | CSync i64
  | CGet i32 str
  | CPut i32 i32 str str
  | CAck i32 str i32
  | CNop
  | CDisconnect
  | CUnhandled str

definition required_arg :: "guac_instruction \<Rightarrow> str \<Rightarrow> nat \<Rightarrow> wire_error + str" where
  "required_arg i op index = ok_or (instr_arg i index) (MissingArgument op index)"

definition from_wire :: "guac_instruction \<Rightarrow> wire_error + client_instruction" where
  "from_wire i =
    (if opcode i = ''size'' then
       and_then (arg_int parse_u32 i 0) (\<lambda>width.
       and_then (arg_int parse_u32 i 1) (\<lambda>height.
         Inr (CSize width height (Option.bind (instr_arg i 2) parse_u32))))
     else if opcode i = ''mouse'' then
       and_then (arg_int parse_i32 i 0) (\<lambda>x.
       and_then (arg_int parse_i32 i 1) (\<lambda>y.
       and_then (arg_int parse_u8 i 2) (\<lambda>msk. Inr (CMouse x y msk))))
     else if opcode i = ''key'' then
       and_then (arg_int parse_u32 i 0) (\<lambda>keysym.
       and_then (arg_int parse_u8 i 1) (\<lambda>p. Inr (CKey keysym (p \<noteq> 0))))
     else if opcode i = ''clipboard'' then
       and_then (arg_int parse_i32 i 0) (\<lambda>stream.
       and_then (ok_or (instr_arg i 1) (MissingArgument ''clipboard'' 1)) (\<lambda>mimetype.
         Inr (CClipboard stream mimetype)))
     else if opcode i = ''blob'' then
       and_then (arg_int parse_i32 i 0) (\<lambda>stream.
       and_then (ok_or (instr_arg i 1) (MissingArgument ''blob'' 1)) (\<lambda>data. Inr (CBlob stream data)))
     else if opcode i = ''end'' then and_then (arg_int parse_i32 i 0) (\<lambda>stream. Inr (CEnd stream))
     else if opcode i = ''sync'' then and_then (arg_int parse_i64 i 0) (\<lambda>ts. Inr (CSync ts))
     else if opcode i = ''get'' then
       and_then (arg_int parse_i32 i 0) (\<lambda>object.
       and_then (required_arg i ''get'' 1) (\<lambda>name. Inr (CGet object name)))
     else if opcode i = ''put'' then
       and_then (arg_int parse_i32 i 0) (\<lambda>object.
       and_then (arg_int parse_i32 i 1) (\<lambda>stream.
       and_then (required_arg i ''put'' 2) (\<lambda>mimetype.
       and_then (required_arg i ''put'' 3) (\<lambda>name. Inr (CPut object stream mimetype name)))))
     else if opcode i = ''ack'' then
       and_then (arg_int parse_i32 i 0) (\<lambda>stream.
         Inr (CAck stream (case instr_arg i 1 of None \<Rightarrow> [] | Some m \<Rightarrow> m)
                (case arg_int parse_i32 i 2 of Inl _ \<Rightarrow> 0 | Inr st \<Rightarrow> st)))
     else if opcode i = ''nop'' then Inr CNop
     else if opcode i = ''disconnect'' then Inr CDisconnect
     else Inr (CUnhandled (opcode i)))"

section \<open>Server instructions\<close>

datatype server_instruction =
    SSize i32 u32 u32
  | SRect i32 i32 i32 u32 u32
  | SCfill u8 i32 u8 u8 u8 u8
  | SImg i32 u8 i32 str i32 i32
  | SBlob i32 str
  | SEnd i32
  | SSync i64
  | SCursor i32 i32 i32 i32 i32 u32 u32
  | SMsg i32 "str list"
  | SError str i32
  | SClipboard i32 str
  | SAudio i32 str
  | SCopy i32 i32 i32 u32 u32 u8 i32 i32 i32
  | SFilesystem i32 str
  | SBody i32 i32 str str
  | SAck i32 str i32
  | SUndefine i32
  | SH264 i32 i32 bool i32 i32 u32 u32

text \<open>The opcode and the rendered arguments of each arm of \<open>encode\<close>.\<close>

fun server_wire :: "server_instruction \<Rightarrow> str \<times> str list" where
  "server_wire (SSize layer width height) =
     (''size'', [show_i32 layer, show_u32 width, show_u32 height])"
| "server_wire (SRect layer x y width height) =
     (''rect'', [show_i32 layer, show_i32 x, show_i32 y, show_u32 width, show_u32 height])"
| "server_wire (SCfill msk layer r g b a) =
     (''cfill'', [show_u8 msk, show_i32 layer, show_u8 r, show_u8 g, show_u8 b, show_u8 a])"
| "server_wire (SImg stream msk layer mimetype x y) =
     (''img'', [show_i32 stream, show_u8 msk, show_i32 layer, mimetype, show_i32 x, show_i32 y])"
| "server_wire (SBlob stream data) = (''blob'', [show_i32 stream, data])"
| "server_wire (SEnd stream) = (''end'', [show_i32 stream])"
| "server_wire (SSync timestamp) = (''sync'', [show_i64 timestamp])"
| "server_wire (SCursor hx hy src_layer src_x src_y src_width src_height) =
     (''cursor'', [show_i32 hx, show_i32 hy, show_i32 src_layer, show_i32 src_x, show_i32 src_y,
                   show_u32 src_width, show_u32 src_height])"
| "server_wire (SMsg code margs) = (''msg'', show_i32 code # margs)"
| "server_wire (SError text status) = (''error'', [text, show_i32 status])"
| "server_wire (SClipboard stream mimetype) = (''clipboard'', [show_i32 stream, mimetype])"
| "server_wire (SAudio stream mimetype) = (''audio'', [show_i32 stream, mimetype])"
| "server_wire (SCopy src_layer src_x src_y width height msk dst_layer dst_x dst_y) =
     (''copy'', [show_i32 src_layer, show_i32 src_x, show_i32 src_y, show_u32 width, show_u32 height,
                 show_u8 msk, show_i32 dst_layer, show_i32 dst_x, show_i32 dst_y])"
| "server_wire (SFilesystem object name) = (''filesystem'', [show_i32 object, name])"
| "server_wire (SBody object stream mimetype name) =
     (''body'', [show_i32 object, show_i32 stream, mimetype, name])"
| "server_wire (SAck stream message status) = (''ack'', [show_i32 stream, message, show_i32 status])"
| "server_wire (SUndefine object) = (''undefine'', [show_i32 object])"
| "server_wire (SH264 stream layer keyframe x y width height) =
     (''h264'', [show_i32 stream, show_i32 layer, if keyframe then ''1'' else ''0'',
                 show_i32 x, show_i32 y, show_u32 width, show_u32 height])"

definition server_encode :: "bytes \<Rightarrow> server_instruction \<Rightarrow> bytes" where
  "server_encode out i = (let (op, argv) = server_wire i in encode_instruction out op argv)"

definition server_to_bytes :: "server_instruction \<Rightarrow> bytes" where
  "server_to_bytes i = server_encode [] i"

section \<open>Facts\<close>

definition wire_of :: "server_instruction \<Rightarrow> guac_instruction" where
  "wire_of i = \<lparr>opcode = fst (server_wire i), args = snd (server_wire i)\<rparr>"

lemma server_encode_eq: "server_encode out i = out @ instr_encode (wire_of i)"
  by (simp add: server_encode_def wire_of_def instr_encode_def encode_instruction_eq split_def Let_def)

lemma server_to_bytes_eq: "server_to_bytes i = instr_encode (wire_of i)"
  by (simp add: server_to_bytes_def server_encode_eq)

text \<open>The text a server instruction carries, next to its integers.\<close>

fun server_texts :: "server_instruction \<Rightarrow> str list" where
  "server_texts (SImg _ _ _ mimetype _ _) = [mimetype]"
| "server_texts (SBlob _ data) = [data]"
| "server_texts (SMsg _ margs) = margs"
| "server_texts (SError text _) = [text]"
| "server_texts (SClipboard _ mimetype) = [mimetype]"
| "server_texts (SAudio _ mimetype) = [mimetype]"
| "server_texts (SFilesystem _ name) = [name]"
| "server_texts (SBody _ _ mimetype name) = [mimetype, name]"
| "server_texts (SAck _ message _) = [message]"
| "server_texts _ = []"

definition server_wf :: "server_instruction \<Rightarrow> bool" where
  "server_wf i \<longleftrightarrow> list_all element_wf (server_texts i) \<and> length (server_texts i) \<le> 62"

lemma element_wf_ascii: "is_ascii s \<Longrightarrow> length s \<le> MAX_ELEMENT_CHARS \<Longrightarrow> element_wf s"
  by (simp add: element_wf_def is_ascii_is_str is_ascii_chars_count)

lemma length_show_words:
  "length (show_u8 a) \<le> 21" "length (show_u32 b) \<le> 21" "length (show_i32 c) \<le> 21" "length (show_i64 d) \<le> 21"
proof -
  show "length (show_u8 a) \<le> 21"
    unfolding show_u8_def by (rule length_show_nat) (auto intro: less_trans [OF unat_lt_256])
  show "length (show_u32 b) \<le> 21"
    unfolding show_u32_def by (rule length_show_nat) (auto intro: less_trans [OF unat_lt_u32])
  have "\<bar>sint c\<bar> < 10 ^ 20" using sint_range_size [of c] by (simp add: word_size abs_less_iff)
  from length_show_int [OF this] show "length (show_i32 c) \<le> 21" by (simp add: show_i32_def)
  have "\<bar>sint d\<bar> < 10 ^ 20" using sint_i64_bounds [of d] by (simp add: abs_less_iff)
  from length_show_int [OF this] show "length (show_i64 d) \<le> 21" by (simp add: show_i64_def)
qed

lemma element_wf_show [simp]:
  "element_wf (show_u8 a)" "element_wf (show_u32 b)" "element_wf (show_i32 c)" "element_wf (show_i64 d)"
  using length_show_words(1) [of a] length_show_words(2) [of b] length_show_words(3) [of c]
    length_show_words(4) [of d]
  by (auto intro!: element_wf_ascii simp: MAX_ELEMENT_CHARS_def)

lemma element_wf_literal:
  "element_wf ''1''" "element_wf ''0''"
  by (simp_all add: element_wf_ascii MAX_ELEMENT_CHARS_def)

lemma opcode_wf: "element_wf (fst (server_wire i))"
  by (cases i) (simp_all add: element_wf_ascii MAX_ELEMENT_CHARS_def)

lemma server_wf_wire: "server_wf i \<Longrightarrow> instr_wf (wire_of i)"
  using opcode_wf [of i]
  by (cases i) (auto simp: server_wf_def instr_wf_def wire_of_def MAX_INSTRUCTION_ELEMENTS_def element_wf_literal)

text \<open>A malformed argument is reported with the opcode and the position it has.\<close>

definition argument_error :: "guac_instruction \<Rightarrow> wire_error \<Rightarrow> bool" where
  "argument_error i e \<longleftrightarrow>
    (\<exists>k \<le> 3. e = MissingArgument (opcode i) k \<and> length (args i) \<le> k
          \<or> e = BadArgument (opcode i) k \<and> k < length (args i))"

lemma arg_int_Inl: "arg_int p i k = Inl e \<Longrightarrow> k \<le> 3 \<Longrightarrow> argument_error i e"
  by (auto simp: arg_int_def instr_arg_def result_simps argument_error_def split: if_splits)

lemma instr_arg_None: "instr_arg i k = None \<Longrightarrow> k \<le> 3 \<Longrightarrow> argument_error i (MissingArgument (opcode i) k)"
  by (auto simp: instr_arg_def argument_error_def split: if_splits)

lemma from_wire_Inl: "from_wire i = Inl e \<Longrightarrow> argument_error i e"
  unfolding from_wire_def required_arg_def
  by (auto simp: result_simps dest: arg_int_Inl instr_arg_None split: if_splits)

lemma from_wire_unknown:
  "opcode i \<notin> set [''size'', ''mouse'', ''key'', ''clipboard'', ''blob'', ''end'', ''sync'', ''get'',
     ''put'', ''ack'', ''nop'', ''disconnect''] \<Longrightarrow> from_wire i = Inr (CUnhandled (opcode i))"
  by (simp add: from_wire_def)

text \<open>The stream instructions have one form in both directions.\<close>

lemma arg_int_shown:
  "instr_arg i k = Some (show_i32 n) \<Longrightarrow> arg_int parse_i32 i k = Inr n"
  by (simp add: arg_int_def)

lemma from_wire_server:
  "from_wire (wire_of (SBlob s d)) = Inr (CBlob s d)"
  "from_wire (wire_of (SEnd s)) = Inr (CEnd s)"
  "from_wire (wire_of (SSync t)) = Inr (CSync t)"
  "from_wire (wire_of (SClipboard s m)) = Inr (CClipboard s m)"
  "from_wire (wire_of (SAck s m st)) = Inr (CAck s m st)"
  by (simp_all add: from_wire_def wire_of_def arg_int_def instr_arg_def)

section \<open>Properties\<close>

text \<open>A bad argument is reported precisely: reading a client instruction fails only for a missing
  or unparsable argument, naming the opcode received and the argument's position; an unknown opcode is
  never an error.\<close>

lemma from_wire_errors:
  "from_wire i = Inl e \<Longrightarrow> \<exists>k \<le> 3. e = MissingArgument (opcode i) k \<and> length (args i) \<le> k
       \<or> e = BadArgument (opcode i) k \<and> k < length (args i)"
  using from_wire_Inl by (simp add: argument_error_def)

end
