(* ===== verification/Guac_Decoder.thy ===== *)
theory Guac_Decoder
  imports Instruction
begin

text \<open>
  The buffered decoder in front of a client connection,
  \<open>crates/strata-session/src/transport/decoder.rs\<close>, and the loop that reads it until it asks for more.
\<close>

definition DEFAULT_DECODE_LIMIT :: nat where [bound_simps]: "DEFAULT_DECODE_LIMIT = 16 * 1024 * 1024"

record guac_decoder =
  dec_buf :: bytes
  dec_limit :: nat

definition decoder_new :: "nat \<Rightarrow> guac_decoder" where
  "decoder_new limit = \<lparr>dec_buf = [], dec_limit = limit\<rparr>"

definition decoder_default :: guac_decoder where
  "decoder_default = decoder_new DEFAULT_DECODE_LIMIT"

definition decoder_extend :: "guac_decoder \<Rightarrow> bytes \<Rightarrow> guac_decoder" where
  "decoder_extend d bs = d\<lparr>dec_buf := dec_buf d @ bs\<rparr>"

definition decoder_buffered :: "guac_decoder \<Rightarrow> nat" where
  "decoder_buffered d = length (dec_buf d)"

definition next_instruction ::
    "winnow \<Rightarrow> guac_decoder \<Rightarrow> (wire_error + client_instruction option) \<times> guac_decoder" where
  "next_instruction wn d =
    (case try_parse_instruction wn (dec_buf d) of
       Inl e \<Rightarrow> (Inl e, d)
     | Inr (Some (raw, consumed)) \<Rightarrow>
         (case from_wire raw of
            Inl e \<Rightarrow> (Inl e, d)
          | Inr decoded \<Rightarrow> (Inr (Some decoded), d\<lparr>dec_buf := drop consumed (dec_buf d)\<rparr>))
     | Inr None \<Rightarrow>
         if length (dec_buf d) > dec_limit d then (Inl (BufferOverflow (dec_limit d)), d)
         else (Inr None, d))"

section \<open>Reading a connection\<close>

text \<open>
  Calling \<open>next_instruction\<close> until it reports an error or asks for more. Each instruction takes at
  least one byte, so one more round than there are buffered bytes always suffices.
\<close>

fun decoder_drain :: "winnow \<Rightarrow> nat \<Rightarrow> guac_decoder \<Rightarrow>
    client_instruction list \<times> wire_error option \<times> guac_decoder" where
  "decoder_drain wn 0 d = ([], None, d)"
| "decoder_drain wn (Suc fuel) d =
    (case next_instruction wn d of
       (Inl e, d') \<Rightarrow> ([], Some e, d')
     | (Inr None, d') \<Rightarrow> ([], None, d')
     | (Inr (Some i), d') \<Rightarrow>
         (let (xs, r, d'') = decoder_drain wn fuel d' in (i # xs, r, d'')))"

text \<open>Feeding a connection's reads one after the other.\<close>

fun decoder_feed :: "winnow \<Rightarrow> bytes list \<Rightarrow> guac_decoder \<Rightarrow>
    client_instruction list \<times> wire_error option \<times> guac_decoder" where
  "decoder_feed wn [] d = ([], None, d)"
| "decoder_feed wn (r # rs) d =
    (let d1 = decoder_extend d r in
     case decoder_drain wn (Suc (decoder_buffered d1)) d1 of
       (xs, Some e, d2) \<Rightarrow> (xs, Some e, d2)
     | (xs, None, d2) \<Rightarrow> (let (ys, e, d3) = decoder_feed wn rs d2 in (xs @ ys, e, d3)))"

section \<open>Facts\<close>

text \<open>An instruction the client side of the engine can send: parseable, and understood.\<close>

definition sendable :: "guac_instruction \<Rightarrow> client_instruction \<Rightarrow> bool" where
  "sendable i c \<longleftrightarrow> instr_wf i \<and> from_wire i = Inr c"

lemma next_instruction_encoded:
  assumes "sendable i c" "dec_buf d = instr_encode i @ rest"
  shows "next_instruction winnow_slice d = (Inr (Some c), d\<lparr>dec_buf := rest\<rparr>)"
  using assms guac.dec_enc [of i rest] by (simp add: next_instruction_def sendable_def try_parse_dec)

lemma next_instruction_partial:
  assumes "instr_dec winnow_slice (dec_buf d) = Incomplete" "length (dec_buf d) \<le> dec_limit d"
  shows "next_instruction winnow_slice d = (Inr None, d)"
  using assms by (simp add: next_instruction_def try_parse_dec)

lemma next_instruction_progress:
  assumes "next_instruction winnow_slice d = (Inr (Some c), d')"
  shows "\<exists>n. 0 < n \<and> n \<le> length (dec_buf d) \<and> d' = d\<lparr>dec_buf := drop n (dec_buf d)\<rparr>"
proof -
  from assms obtain i n where "try_parse_instruction winnow_slice (dec_buf d) = Inr (Some (i, n))"
    and "d' = d\<lparr>dec_buf := drop n (dec_buf d)\<rparr>"
    by (auto simp: next_instruction_def split: sum.splits option.splits if_splits)
  with instr_dec_complete show ?thesis by (auto simp flip: try_parse_dec)
qed

lemma next_instruction_keeps:
  "next_instruction wn d = (r, d') \<Longrightarrow> (\<forall>c. r \<noteq> Inr (Some c)) \<Longrightarrow> d' = d"
  by (auto simp: next_instruction_def split: sum.splits option.splits if_splits)

lemma next_instruction_bounded:
  "next_instruction wn d = (Inr None, d') \<Longrightarrow> length (dec_buf d') \<le> dec_limit d'"
  by (auto simp: next_instruction_def split: sum.splits option.splits if_splits)

lemma drain_encoded:
  assumes "list_all2 sendable is cs" "instr_dec winnow_slice p = Incomplete"
    "dec_buf d = concat (map instr_encode is) @ p" "length p \<le> dec_limit d" "length is < fuel"
  shows "decoder_drain winnow_slice fuel d = (cs, None, d\<lparr>dec_buf := p\<rparr>)"
  using assms
proof (induction "is" cs arbitrary: fuel d rule: list_all2_induct)
  case Nil
  then obtain f where "fuel = Suc f" by (cases fuel) auto
  with Nil show ?case by (simp add: next_instruction_partial)
next
  case (Cons i "is" c cs)
  then obtain f where f: "fuel = Suc f" by (cases fuel) auto
  have "next_instruction winnow_slice d =
      (Inr (Some c), d\<lparr>dec_buf := concat (map instr_encode is) @ p\<rparr>)"
    using Cons by (intro next_instruction_encoded) simp_all
  with Cons f show ?case by simp
qed

lemma list_all2_sendable_wf: "list_all2 sendable is cs \<Longrightarrow> list_all instr_wf is"
  by (induction rule: list_all2_induct) (auto simp: sendable_def)

lemma instr_dec_Nil: "instr_dec winnow_slice [] = Incomplete"
  by (simp add: instr_dec_def try_parse_instruction_def parse_instruction_def parse_element_def)

lemma feed_encoded:
  assumes "list_all2 sendable is cs" "dec_buf d @ concat reads = concat (map instr_encode is)"
    "\<forall>i \<in> set is. length (instr_encode i) \<le> dec_limit d"
    "instr_dec winnow_slice (dec_buf d) = Incomplete"
  shows "decoder_feed winnow_slice reads d = (cs, None, d\<lparr>dec_buf := []\<rparr>)"
  using assms
proof (induction reads arbitrary: "is" cs d)
  case Nil
  have "is = []"
  proof (cases "is")
    case (Cons i is')
    with Nil have "instr_wf i" by (auto dest: list_all2_sendable_wf)
    with Nil Cons show ?thesis by (simp add: guac.dec_enc)
  qed simp
  with Nil show ?case by simp
next
  case (Cons r reads)
  let ?d1 = "decoder_extend d r"
  have "prefix (dec_buf d @ r) (concat (map instr_encode is))"
    using Cons.prems(2) by (metis append_assoc concat.simps(2) prefixI)
  with guac.prefix_split [OF list_all2_sendable_wf [OF Cons.prems(1)]] obtain zs todo p where
    s: "is = zs @ todo" "dec_buf d @ r = concat (map instr_encode zs) @ p"
    and t: "todo = [] \<and> p = [] \<or> (\<exists>y ys'. todo = y # ys' \<and> strict_prefix p (instr_encode y))"
    by blast
  from Cons.prems(1) s(1) obtain us vs where cs: "cs = us @ vs"
    and u: "list_all2 sendable zs us" and v: "list_all2 sendable todo vs"
    by (auto simp: list_all2_append1)
  have inc: "instr_dec winnow_slice p = Incomplete"
    using t list_all2_sendable_wf [OF v] by (auto simp: instr_dec_Nil guac.dec_prefix)
  have lim: "length p \<le> dec_limit d"
    using t Cons.prems(3) s(1) prefix_length_less by fastforce
  have "length zs \<le> length (concat (map instr_encode zs))" by (rule guac.concat_enc_length)
  then have "decoder_drain winnow_slice (Suc (decoder_buffered ?d1)) ?d1 = (us, None, ?d1\<lparr>dec_buf := p\<rparr>)"
    using s(2) lim by (intro drain_encoded [OF u inc]) (simp_all add: decoder_extend_def decoder_buffered_def)
  moreover have "p @ concat reads = concat (map instr_encode todo)"
  proof -
    have "concat (map instr_encode zs) @ p @ concat reads = (dec_buf d @ r) @ concat reads" by (simp add: s(2))
    also have "\<dots> = concat (map instr_encode zs) @ concat (map instr_encode todo)"
      using Cons.prems(2) s(1) by simp
    finally show ?thesis by simp
  qed
  then have "decoder_feed winnow_slice reads (?d1\<lparr>dec_buf := p\<rparr>) = (vs, None, ?d1\<lparr>dec_buf := p, dec_buf := []\<rparr>)"
    using Cons.prems(3) s(1) inc v by (intro Cons.IH [of todo]) (auto simp: decoder_extend_def)
  ultimately show ?case using cs by (simp add: decoder_extend_def Let_def)
qed

section \<open>Properties\<close>

text \<open>C17: fragmentation is invisible to the session: feeding the bytes of a sequence of instructions
  to the decoder in any pieces yields exactly those instructions in order, no error, and an empty
  buffer, provided each instruction is within the buffer limit.\<close>

theorem decoder_fragmentation:
  assumes "winnow_ok wn" "list_all2 sendable is cs" "concat reads = concat (map instr_encode is)"
    and "\<forall>i \<in> set is. length (instr_encode i) \<le> limit"
  shows "decoder_feed wn reads (decoder_new limit) = (cs, None, decoder_new limit)"
proof -
  let ?d = "decoder_new limit"
  from feed_encoded [of "is" cs ?d reads] assms have
    "decoder_feed wn reads ?d = (cs, None, ?d\<lparr>dec_buf := []\<rparr>)"
    by (simp add: winnow_ok_iff decoder_new_def instr_dec_Nil)
  then show ?thesis by (simp add: decoder_new_def)
qed

lemma sample_sendable:
  "list_all2 sendable [\<lparr>opcode = ''nop'', args = []\<rparr>, \<lparr>opcode = ''disconnect'', args = []\<rparr>] [CNop, CDisconnect]"
  by (simp add: sendable_def instr_wf_def element_wf_ascii MAX_ELEMENT_CHARS_def
      MAX_INSTRUCTION_ELEMENTS_def from_wire_def)

theorem decoder_fragmentation_witness:
  "decoder_feed winnow_slice
     [take 3 (instr_encode \<lparr>opcode = ''nop'', args = []\<rparr>), [],
      drop 3 (instr_encode \<lparr>opcode = ''nop'', args = []\<rparr>) @ instr_encode \<lparr>opcode = ''disconnect'', args = []\<rparr>]
     (decoder_new 64) = ([CNop, CDisconnect], None, decoder_new 64)"
proof (rule decoder_fragmentation [OF winnow_slice_ok sample_sendable])
  have "length (element_bytes s) \<le> 21 + length s" for s
    using length_show_u64 [of "of_nat (chars_count s)"] by (simp add: element_bytes_def)
  from this [of "''nop''"] this [of "''disconnect''"]
  show "\<forall>i \<in> set [\<lparr>opcode = ''nop'', args = []\<rparr>, \<lparr>opcode = ''disconnect'', args = []\<rparr>].
      length (instr_encode i) \<le> 64"
    by (simp add: instr_encode_def encode_instruction_eq)
qed simp

text \<open>The decode buffer is bounded: when the decoder asks for more bytes it holds at most its
  limit, and a buffer above the limit without a complete instruction is refused as an overflow.\<close>

lemma decoder_bounded:
  "next_instruction wn d = (r, d') \<Longrightarrow>
     (r = Inr None \<longrightarrow> decoder_buffered d' \<le> dec_limit d')
   \<and> (try_parse_instruction wn (dec_buf d) = Inr None \<longrightarrow> decoder_buffered d > dec_limit d \<longrightarrow>
        r = Inl (BufferOverflow (dec_limit d)))"
  by (auto simp: next_instruction_def decoder_buffered_def split: sum.splits option.splits if_splits)

end
