(* ===== verification/Engine_Types.thy ===== *)
theory Engine_Types
  imports Rust_Std
begin

text \<open>
  The vocabulary between a protocol engine and the session actor,
  \<open>crates/strata-session/src/engine/mod.rs\<close> and \<open>error.rs\<close>: input travelling to the target, events
  coming back, and the failures of an engine.
\<close>

datatype protocol = Rdp | Ssh | Vnc | KubeExec

fun protocol_as_str :: "protocol \<Rightarrow> str" where
  "protocol_as_str Rdp = ''rdp''"
| "protocol_as_str Ssh = ''ssh''"
| "protocol_as_str Vnc = ''vnc''"
| "protocol_as_str KubeExec = ''kubernetes''"

datatype file_request =
    FGet i32 str
  | FPut i32 i32 str str
  | FData i32 bytes
  | FEnd i32
  | FAck i32 i32

datatype input_event =
    IMouse i32 i32 u8
  | IKey u32 bool
  | IResize u32 u32 "u32 option"
  | IClipboard bytes
  | IText bytes
  | IFile file_request
  | IDisconnect

datatype video_codec = H264 | Av1

datatype disconnect_cause =
  Ended | IdleTimeout | Conflict | RefusedByTarget | Unauthorized | ConnectionLost | Failed

datatype file_event =
    EFilesystem i32 str
  | EBody i32 i32 str str
  | EData i32 bytes
  | EEnd i32
  | EAck i32 str i32
  | ENotice str bool

datatype target_event =
    ImageUpdate i32 i32 str bytes
  | VideoSlice video_codec bool i32 i32 u32 u32 u64 bytes
  | TerminalOutput bytes
  | TAudio bytes
  | CopyRegion i32 i32 u32 u32 i32 i32
  | TClipboard bytes
  | Resized u32 u32
  | CursorImage u32 u32 u32 u32 str bytes
  | CursorHidden
  | TFile file_event
  | Disconnected str disconnect_cause

definition TRANSFER_NOTICE_MSG :: i32 where "TRANSFER_NOTICE_MSG = 0x5354"

text \<open>What the sources read of an \<open>io::Error\<close>: whether its kind is a timeout, and its text.\<close>

record io_error =
  io_timed_out :: bool
  io_text :: str

datatype engine_error =
    AuthRejected
  | Transport io_error
  | Protocol str
  | Unsupported str
  | Closed str

fun show_engine_error :: "engine_error \<Rightarrow> str" where
  "show_engine_error AuthRejected = ''authentication rejected by target''"
| "show_engine_error (Transport e) = ''target transport failed: '' @ io_text e"
| "show_engine_error (Protocol e) = ''target protocol violation: '' @ e"
| "show_engine_error (Unsupported p) = ''no engine available for protocol `'' @ p @ ''`''"
| "show_engine_error (Closed e) = ''target closed the connection: '' @ e"

record target_spec =
  ts_protocol :: protocol
  ts_hostname :: str
  ts_connect_addr :: "str option"
  ts_port :: nat
  ts_username :: str
  ts_secret :: str
  ts_width :: u32
  ts_height :: u32

text \<open>The resolved address is kept in its printed form.\<close>

definition dial_host :: "target_spec \<Rightarrow> str" where
  "dial_host s = (case ts_connect_addr s of None \<Rightarrow> ts_hostname s | Some ip \<Rightarrow> ip)"

end
