(* ===== verification/Guac_Encoder.thy ===== *)
theory Guac_Encoder
  imports Instruction Engine_Types Media_Envelope
begin

text \<open>
  The two frame encoders behind the trait \<open>FrameEncoder\<close>
  (\<open>crates/strata-session/src/transport/{mod,guac_wire,binary}.rs\<close>): target events become Guacamole
  text instructions, or binary media envelopes next to text control instructions. A \<open>None\<close> is the
  panic of an \<open>unreachable!\<close> arm.
\<close>

datatype streaming_mode = GuacWire | Direct

datatype client_frame = Text bytes | Binary bytes

fun frame_payload :: "client_frame \<Rightarrow> bytes" where
  "frame_payload (Text b) = b"
| "frame_payload (Binary b) = b"

definition frame_len :: "client_frame \<Rightarrow> nat" where
  "frame_len f = length (frame_payload f)"

section \<open>Guacamole wire encoder\<close>

definition MAX_BLOB_BYTES :: nat where [bound_simps]: "MAX_BLOB_BYTES = 4536"
definition COMPOSITE_OVER :: u8 where "COMPOSITE_OVER = 14"
definition COMPOSITE_SRC :: u8 where "COMPOSITE_SRC = 12"
definition DEFAULT_LAYER :: i32 where "DEFAULT_LAYER = 0"
definition CURSOR_LAYER :: i32 where "CURSOR_LAYER = - 1"
definition AUDIO_MIMETYPE :: str where "AUDIO_MIMETYPE = ''audio/L16;rate=44100,channels=2''"

fun disconnect_status :: "disconnect_cause \<Rightarrow> i32" where
  "disconnect_status Ended = 0x020B"
| "disconnect_status IdleTimeout = 0x020A"
| "disconnect_status Conflict = 0x0209"
| "disconnect_status RefusedByTarget = 0x0208"
| "disconnect_status Unauthorized = 0x0301"
| "disconnect_status ConnectionLost = 0x0203"
| "disconnect_status Failed = 0x0200"

record guac_wire_encoder =
  next_stream :: i32
  unsupported :: u64
  audio_stream :: "i32 option"

definition encoder_new :: guac_wire_encoder where
  "encoder_new = \<lparr>next_stream = 1, unsupported = 0, audio_stream = None\<rparr>"

definition allocate_stream :: "guac_wire_encoder \<Rightarrow> i32 \<times> guac_wire_encoder" where
  "allocate_stream e =
    (next_stream e,
     e\<lparr>next_stream := if sint (next_stream e) \<ge> 0x7FFFFFFE then 1 else next_stream e + 1\<rparr>)"

definition push_image ::
    "crypto \<Rightarrow> guac_wire_encoder \<Rightarrow> bytes \<Rightarrow> u8 \<Rightarrow> i32 \<Rightarrow> i32 \<Rightarrow> i32 \<Rightarrow> str \<Rightarrow> bytes \<Rightarrow>
     guac_wire_encoder \<times> bytes" where
  "push_image cr e buf msk layer x y mimetype data =
    (let (stream, e') = allocate_stream e;
         buf1 = server_encode buf (SImg stream msk layer mimetype x y);
         buf2 = fold (\<lambda>chunk acc. server_encode acc (SBlob stream (b64_encode cr chunk)))
                  (chunks MAX_BLOB_BYTES data) buf1
     in (e', server_encode buf2 (SEnd stream)))"

definition encode_image ::
    "crypto \<Rightarrow> guac_wire_encoder \<Rightarrow> i32 \<Rightarrow> i32 \<Rightarrow> str \<Rightarrow> bytes \<Rightarrow> client_frame list \<Rightarrow>
     guac_wire_encoder \<times> client_frame list" where
  "encode_image cr e x y mimetype data out =
    (let (e', buf) = push_image cr e [] COMPOSITE_OVER DEFAULT_LAYER x y mimetype data
     in (e', out @ [Text buf]))"

text \<open>The loop that sends one frame per chunk, as it stands in four of the operations.\<close>

definition push_blobs :: "crypto \<Rightarrow> i32 \<Rightarrow> bytes \<Rightarrow> client_frame list \<Rightarrow> client_frame list" where
  "push_blobs cr stream data out =
    fold (\<lambda>chunk acc. acc @ [Text (server_encode [] (SBlob stream (b64_encode cr chunk)))])
      (chunks MAX_BLOB_BYTES data) out"

definition encode_clipboard ::
    "crypto \<Rightarrow> guac_wire_encoder \<Rightarrow> bytes \<Rightarrow> client_frame list \<Rightarrow> guac_wire_encoder \<times> client_frame list"
where
  "encode_clipboard cr e data out =
    (let (stream, e') = allocate_stream e;
         out1 = out @ [Text (server_encode [] (SClipboard stream ''text/plain''))];
         out2 = push_blobs cr stream data out1
     in (e', out2 @ [Text (server_encode [] (SEnd stream))]))"

definition encode_audio ::
    "crypto \<Rightarrow> guac_wire_encoder \<Rightarrow> bytes \<Rightarrow> client_frame list \<Rightarrow> guac_wire_encoder \<times> client_frame list"
where
  "encode_audio cr e data out =
    (let (stream, e1, out1) =
       (case audio_stream e of
          Some stream \<Rightarrow> (stream, e, out)
        | None \<Rightarrow>
            (let (stream, e') = allocate_stream e
             in (stream, e'\<lparr>audio_stream := Some stream\<rparr>,
                 out @ [Text (server_encode [] (SAudio stream AUDIO_MIMETYPE))])))
     in (e1, push_blobs cr stream data out1))"

definition encode_file ::
    "crypto \<Rightarrow> guac_wire_encoder \<Rightarrow> file_event \<Rightarrow> client_frame list \<Rightarrow>
     guac_wire_encoder \<times> client_frame list" where
  "encode_file cr e event out =
    (let single = (\<lambda>i. (e, out @ [Text (server_encode [] i)])) in
     case event of
       EFilesystem object name \<Rightarrow> single (SFilesystem object name)
     | EBody object stream mimetype name \<Rightarrow> single (SBody object stream mimetype name)
     | EData stream data \<Rightarrow> (e, push_blobs cr stream data out)
     | EEnd stream \<Rightarrow> single (SEnd stream)
     | EAck stream message status \<Rightarrow> single (SAck stream message status)
     | ENotice message ok \<Rightarrow>
         single (SMsg TRANSFER_NOTICE_MSG [if ok then ''ok'' else ''warning'', message]))"

definition encode_h264 ::
    "crypto \<Rightarrow> guac_wire_encoder \<Rightarrow> bool \<Rightarrow> i32 \<Rightarrow> i32 \<Rightarrow> u32 \<Rightarrow> u32 \<Rightarrow> bytes \<Rightarrow> client_frame list \<Rightarrow>
     guac_wire_encoder \<times> client_frame list" where
  "encode_h264 cr e keyframe x y width height data out =
    (let (stream, e') = allocate_stream e;
         out1 = out @ [Text (server_encode [] (SH264 stream DEFAULT_LAYER keyframe x y width height))];
         out2 = push_blobs cr stream data out1
     in (e', out2 @ [Text (server_encode [] (SEnd stream))]))"

text \<open>The control instructions shared by both modes; the answer says whether the event was one.\<close>

definition encode_control ::
    "crypto \<Rightarrow> guac_wire_encoder \<Rightarrow> target_event \<Rightarrow> client_frame list \<Rightarrow>
     bool \<times> guac_wire_encoder \<times> client_frame list" where
  "encode_control cr e event out =
    (case event of
       CopyRegion src_x src_y width height dst_x dst_y \<Rightarrow>
         (True, e, out @ [Text (server_to_bytes (SCopy DEFAULT_LAYER src_x src_y width height
            COMPOSITE_OVER DEFAULT_LAYER dst_x dst_y))])
     | Resized width height \<Rightarrow>
         (True, e, out @ [Text (server_to_bytes (SSize DEFAULT_LAYER width height))])
     | Disconnected reason cause \<Rightarrow>
         (True, e, out @ [Text (server_to_bytes (SError reason (disconnect_status cause)))])
     | CursorImage hotspot_x hotspot_y width height mimetype data \<Rightarrow>
         (let buf0 = server_encode [] (SSize CURSOR_LAYER width height);
              (e', buf1) = push_image cr e buf0 COMPOSITE_SRC CURSOR_LAYER 0 0 mimetype data;
              buf2 = server_encode buf1 (SCursor hotspot_x hotspot_y CURSOR_LAYER 0 0 width height)
          in (True, e', out @ [Text buf2]))
     | CursorHidden \<Rightarrow>
         (let buf0 = server_encode [] (SSize CURSOR_LAYER 1 1);
              buf1 = server_encode buf0 (SCursor 0 0 CURSOR_LAYER 0 0 1 1)
          in (True, e, out @ [Text buf1]))
     | _ \<Rightarrow> (False, e, out))"

definition guac_encode ::
    "crypto \<Rightarrow> guac_wire_encoder \<Rightarrow> target_event \<Rightarrow> client_frame list \<Rightarrow>
     (guac_wire_encoder \<times> client_frame list) option" where
  "guac_encode cr e event out =
    (let (handled, e1, out1) = encode_control cr e event out in
     if handled then Some (e1, out1)
     else (case event of
       ImageUpdate x y mimetype data \<Rightarrow> Some (encode_image cr e1 x y mimetype data out1)
     | TClipboard data \<Rightarrow> Some (encode_clipboard cr e1 data out1)
     | TAudio data \<Rightarrow> Some (encode_audio cr e1 data out1)
     | TFile event' \<Rightarrow> Some (encode_file cr e1 event' out1)
     | VideoSlice codec keyframe x y width height _ data \<Rightarrow>
         (case codec of
            H264 \<Rightarrow> Some (encode_h264 cr e1 keyframe x y width height data out1)
          | Av1 \<Rightarrow> Some (e1\<lparr>unsupported := unsupported e1 + 1\<rparr>, out1))
     | TerminalOutput _ \<Rightarrow> Some (e1\<lparr>unsupported := unsupported e1 + 1\<rparr>, out1)
     | CopyRegion _ _ _ _ _ _ \<Rightarrow> Some (e1, out1)
     | _ \<Rightarrow> None))"

definition guac_sync :: "guac_wire_encoder \<Rightarrow> i64 \<Rightarrow> client_frame list \<Rightarrow>
    guac_wire_encoder \<times> client_frame list" where
  "guac_sync e timestamp_ms out = (e, out @ [Text (server_to_bytes (SSync timestamp_ms))])"

section \<open>Binary encoder\<close>

record binary_encoder =
  control :: guac_wire_encoder
  dropped :: u64

definition binary_new :: binary_encoder where
  "binary_new = \<lparr>control = encoder_new, dropped = 0\<rparr>"

definition push_envelope ::
    "binary_encoder \<Rightarrow> stream_type \<Rightarrow> u64 \<Rightarrow> bytes \<Rightarrow> client_frame list \<Rightarrow>
     binary_encoder \<times> client_frame list" where
  "push_envelope e st timestamp_ms payload out =
    (case media_new st timestamp_ms payload of
       Inr envelope \<Rightarrow> (e, out @ [Binary (media_encode envelope [])])
     | Inl err \<Rightarrow> (e\<lparr>dropped := dropped e + 1\<rparr>, out))"

definition via_control ::
    "crypto \<Rightarrow> binary_encoder \<Rightarrow> target_event \<Rightarrow> client_frame list \<Rightarrow>
     (binary_encoder \<times> client_frame list) option" where
  "via_control cr e event out =
    map_option (\<lambda>(c, out'). (e\<lparr>control := c\<rparr>, out')) (guac_encode cr (control e) event out)"

definition binary_encode ::
    "crypto \<Rightarrow> binary_encoder \<Rightarrow> target_event \<Rightarrow> client_frame list \<Rightarrow>
     (binary_encoder \<times> client_frame list) option" where
  "binary_encode cr e event out =
    (let (handled, c, out1) = encode_control cr (control e) event out;
         e1 = e\<lparr>control := c\<rparr>
     in
     if handled then Some (e1, out1)
     else (case event of
       VideoSlice codec _ _ _ _ _ timestamp_ms data \<Rightarrow>
         (case codec of
            H264 \<Rightarrow> Some (push_envelope e1 H264Video timestamp_ms data out1)
          | Av1 \<Rightarrow> Some (e1\<lparr>dropped := dropped e1 + 1\<rparr>, out1))
     | TerminalOutput data \<Rightarrow> Some (push_envelope e1 RawTerminal 0 data out1)
     | TClipboard data \<Rightarrow> Some (push_envelope e1 ClipboardSync 0 data out1)
     | TAudio _ \<Rightarrow> via_control cr e1 event out1
     | TFile _ \<Rightarrow> via_control cr e1 event out1
     | CopyRegion _ _ _ _ _ _ \<Rightarrow> Some (e1, out1)
     | ImageUpdate _ _ _ _ \<Rightarrow> via_control cr e1 event out1
     | _ \<Rightarrow> None))"

definition binary_sync :: "binary_encoder \<Rightarrow> i64 \<Rightarrow> client_frame list \<Rightarrow>
    binary_encoder \<times> client_frame list" where
  "binary_sync e timestamp_ms out =
    (let (c, out') = guac_sync (control e) timestamp_ms out in (e\<lparr>control := c\<rparr>, out'))"

definition terminal_envelope :: "u64 \<Rightarrow> bytes \<Rightarrow> bytes option" where
  "terminal_envelope timestamp_ms data =
    (case media_new RawTerminal timestamp_ms data of
       Inl _ \<Rightarrow> None | Inr envelope \<Rightarrow> Some (media_to_bytes envelope))"

end
