(* ===== verification/Encoder_Contract.thy ===== *)
theory Encoder_Contract
  imports Guac_Encoder
begin

text \<open>
  What the frame encoders promise: the instructions each event becomes, that every frame can be read
  back, that the contract of \<open>FrameEncoder\<close> holds for both modes, and that streams are opened before
  use, closed once and carry the bytes they were given.
\<close>

section \<open>What an event puts on the wire\<close>

text \<open>
  The specification of the wire encoder: the instructions of each frame an event becomes, and the
  encoder afterwards.
\<close>

definition blobs :: "crypto \<Rightarrow> i32 \<Rightarrow> bytes \<Rightarrow> server_instruction list" where
  "blobs cr stream data = map (\<lambda>c. SBlob stream (b64_encode cr c)) (chunks MAX_BLOB_BYTES data)"

definition text_frame :: "server_instruction list \<Rightarrow> client_frame" where
  "text_frame is = Text (concat (map server_to_bytes is))"

definition singles :: "server_instruction list \<Rightarrow> server_instruction list list" where
  "singles is = map (\<lambda>i. [i]) is"

fun event_script :: "crypto \<Rightarrow> guac_wire_encoder \<Rightarrow> target_event \<Rightarrow> server_instruction list list" where
  "event_script cr e (ImageUpdate x y m d) =
    [[SImg (next_stream e) COMPOSITE_OVER DEFAULT_LAYER m x y] @ blobs cr (next_stream e) d
      @ [SEnd (next_stream e)]]"
| "event_script cr e (VideoSlice c k x y w h t d) =
    (case c of
       Av1 \<Rightarrow> []
     | H264 \<Rightarrow> singles ([SH264 (next_stream e) DEFAULT_LAYER k x y w h] @ blobs cr (next_stream e) d
                @ [SEnd (next_stream e)]))"
| "event_script cr e (TerminalOutput d) = []"
| "event_script cr e (TAudio d) =
    (case audio_stream e of
       Some s \<Rightarrow> singles (blobs cr s d)
     | None \<Rightarrow> singles (SAudio (next_stream e) AUDIO_MIMETYPE # blobs cr (next_stream e) d))"
| "event_script cr e (CopyRegion sx sy w h dx dy) =
    [[SCopy DEFAULT_LAYER sx sy w h COMPOSITE_OVER DEFAULT_LAYER dx dy]]"
| "event_script cr e (TClipboard d) =
    singles ([SClipboard (next_stream e) ''text/plain''] @ blobs cr (next_stream e) d
      @ [SEnd (next_stream e)])"
| "event_script cr e (Resized w h) = [[SSize DEFAULT_LAYER w h]]"
| "event_script cr e (CursorImage hx hy w h m d) =
    [[SSize CURSOR_LAYER w h, SImg (next_stream e) COMPOSITE_SRC CURSOR_LAYER m 0 0]
      @ blobs cr (next_stream e) d
      @ [SEnd (next_stream e), SCursor hx hy CURSOR_LAYER 0 0 w h]]"
| "event_script cr e CursorHidden = [[SSize CURSOR_LAYER 1 1, SCursor 0 0 CURSOR_LAYER 0 0 1 1]]"
| "event_script cr e (TFile f) =
    (case f of
       EFilesystem ob n \<Rightarrow> [[SFilesystem ob n]]
     | EBody ob s m n \<Rightarrow> [[SBody ob s m n]]
     | EData s d \<Rightarrow> singles (blobs cr s d)
     | EEnd s \<Rightarrow> [[SEnd s]]
     | EAck s m st \<Rightarrow> [[SAck s m st]]
     | ENotice m ok \<Rightarrow> [[SMsg TRANSFER_NOTICE_MSG [if ok then ''ok'' else ''warning'', m]]])"
| "event_script cr e (Disconnected r c) = [[SError r (disconnect_status c)]]"

fun encoder_after :: "guac_wire_encoder \<Rightarrow> target_event \<Rightarrow> guac_wire_encoder" where
  "encoder_after e (ImageUpdate _ _ _ _) = snd (allocate_stream e)"
| "encoder_after e (CursorImage _ _ _ _ _ _) = snd (allocate_stream e)"
| "encoder_after e (TClipboard _) = snd (allocate_stream e)"
| "encoder_after e (VideoSlice c _ _ _ _ _ _ _) =
    (case c of H264 \<Rightarrow> snd (allocate_stream e) | Av1 \<Rightarrow> e\<lparr>unsupported := unsupported e + 1\<rparr>)"
| "encoder_after e (TerminalOutput _) = e\<lparr>unsupported := unsupported e + 1\<rparr>"
| "encoder_after e (TAudio _) =
    (case audio_stream e of
       Some _ \<Rightarrow> e | None \<Rightarrow> (snd (allocate_stream e))\<lparr>audio_stream := Some (next_stream e)\<rparr>)"
| "encoder_after e _ = e"

lemma fold_append_map: "fold (\<lambda>c acc. acc @ f c) cs out = out @ concat (map f cs)"
  by (induction cs arbitrary: out) simp_all

lemma push_blobs_eq: "push_blobs cr s d out = out @ map text_frame (singles (blobs cr s d))"
  unfolding push_blobs_def fold_append_map
  by (simp add: singles_def blobs_def text_frame_def server_to_bytes_def comp_def)

lemma server_encode_append: "server_encode out i = out @ server_to_bytes i"
  by (simp add: server_to_bytes_def server_encode_eq)

lemma fst_allocate [simp]: "fst (allocate_stream e) = next_stream e"
  by (simp add: allocate_stream_def)

lemma push_image_eq:
  "push_image cr e buf msk layer x y m d =
    (snd (allocate_stream e),
     buf @ concat (map server_to_bytes ([SImg (next_stream e) msk layer m x y] @ blobs cr (next_stream e) d
       @ [SEnd (next_stream e)])))"
  by (simp add: push_image_def server_encode_append fold_append_map blobs_def comp_def split_def Let_def)

lemmas encoder_defs = encode_control_def encode_image_def encode_clipboard_def encode_audio_def
  encode_h264_def encode_file_def push_image_eq push_blobs_eq server_encode_append
  split_def Let_def

lemma guac_encode_eq:
  "guac_encode cr e ev out = Some (encoder_after e ev, out @ map text_frame (event_script cr e ev))"
proof (cases ev)
  case (VideoSlice c k x y w h t d)
  then show ?thesis by (cases c) (simp_all add: guac_encode_def encoder_defs singles_def text_frame_def)
next
  case (TFile f)
  then show ?thesis by (cases f) (simp_all add: guac_encode_def encoder_defs singles_def text_frame_def)
next
  case (TAudio d)
  then show ?thesis
    by (cases "audio_stream e") (simp_all add: guac_encode_def encoder_defs singles_def text_frame_def)
qed (simp_all add: guac_encode_def encoder_defs singles_def text_frame_def)

section \<open>The frames a client can read\<close>

text \<open>Every frame is whole: a text frame is a sequence of instructions, a binary one an envelope.\<close>

fun good_frame :: "client_frame \<Rightarrow> bool" where
  "good_frame (Text b) \<longleftrightarrow> snd (decode_all (instr_dec winnow_slice) (Suc (length b)) b) = []"
| "good_frame (Binary b) \<longleftrightarrow>
    (case media_decode b of Inr (Some (_, n)) \<Rightarrow> n = length b | _ \<Rightarrow> False)"

lemma text_frame_decodes:
  assumes "list_all server_wf is"
  shows "decode_all (instr_dec winnow_slice) (Suc (length (frame_payload (text_frame is))))
           (frame_payload (text_frame is)) = (map wire_of is, [])"
proof -
  have w: "list_all instr_wf (map wire_of is)" using assms by (auto simp: list_all_iff server_wf_wire)
  have b: "frame_payload (text_frame is) = concat (map instr_encode (map wire_of is)) @ []"
    by (simp add: text_frame_def comp_def server_to_bytes_eq cong: map_cong)
  have n: "instr_dec winnow_slice [] = Incomplete"
    by (simp add: instr_dec_def try_parse_instruction_def parse_instruction_def parse_element_def)
  show ?thesis unfolding b
    by (rule guac.decode_all_concat [OF w n]) (use guac.concat_enc_length [of "map wire_of is"] in simp)
qed

text \<open>Events whose texts fit in one element of an instruction.\<close>

fun event_texts :: "target_event \<Rightarrow> str list" where
  "event_texts (ImageUpdate _ _ m _) = [m]"
| "event_texts (CursorImage _ _ _ _ m _) = [m]"
| "event_texts (Disconnected r _) = [r]"
| "event_texts (TFile (EFilesystem _ n)) = [n]"
| "event_texts (TFile (EBody _ _ m n)) = [m, n]"
| "event_texts (TFile (EAck _ m _)) = [m]"
| "event_texts (TFile (ENotice m _)) = [m]"
| "event_texts _ = []"

definition event_wf :: "target_event \<Rightarrow> bool" where
  "event_wf ev \<longleftrightarrow> list_all element_wf (event_texts ev)"

lemma blobs_wf: "b64_text cr \<Longrightarrow> list_all server_wf (blobs cr s d)"
  using chunks_bounds [of _ MAX_BLOB_BYTES d]
  by (fastforce simp: blobs_def list_all_iff server_wf_def b64_text_def MAX_BLOB_BYTES_def
      MAX_ELEMENT_CHARS_def intro!: element_wf_ascii)

lemma plain_wf [simp]:
  "server_wf (SEnd s)" "server_wf (SSize l w h)" "server_wf (SCursor a b c d e' f g)"
  "server_wf (SCopy a1 a2 a3 a4 a5 a6 a7 a8 a9)" "server_wf (SH264 s l k x y w h)" "server_wf (SSync t)"
  by (simp_all add: server_wf_def)

lemma text_wf [simp]:
  "server_wf (SImg s k l m x y) = element_wf m" "server_wf (SError m st) = element_wf m"
  "server_wf (SClipboard s m) = element_wf m" "server_wf (SAudio s m) = element_wf m"
  "server_wf (SFilesystem ob m) = element_wf m" "server_wf (SBody ob s m n) = (element_wf m \<and> element_wf n)"
  "server_wf (SAck s m st) = element_wf m" "server_wf (SMsg c [m, n]) = (element_wf m \<and> element_wf n)"
  by (simp_all add: server_wf_def)

lemma literal_wf [simp]:
  "element_wf ''text/plain''" "element_wf AUDIO_MIMETYPE" "element_wf ''ok''" "element_wf ''warning''"
  by (simp_all add: element_wf_ascii MAX_ELEMENT_CHARS_def AUDIO_MIMETYPE_def)

lemma list_all_singles [simp]: "list_all (list_all P) (singles is) = list_all P is"
  by (simp add: singles_def list_all_iff)

lemma event_script_wf:
  assumes "b64_text cr" "event_wf ev"
  shows "list_all (list_all server_wf) (event_script cr e ev)"
proof (cases ev)
  case (TFile f)
  with assms show ?thesis by (cases f) (simp_all add: event_wf_def blobs_wf)
qed (use assms in \<open>simp_all add: event_wf_def blobs_wf split: video_codec.split option.split\<close>)

section \<open>The contract of a frame encoder\<close>

locale frame_encoder =
  fixes encode :: "'e \<Rightarrow> target_event \<Rightarrow> client_frame list \<Rightarrow> ('e \<times> client_frame list) option"
    and sync :: "'e \<Rightarrow> i64 \<Rightarrow> client_frame list \<Rightarrow> 'e \<times> client_frame list"
  assumes encode_total: "\<exists>e' fs. \<forall>out. encode e ev out = Some (e', out @ fs)"
    and encode_good: "event_wf ev \<Longrightarrow> encode e ev [] = Some (e', fs) \<Longrightarrow> list_all good_frame fs"
    and sync_good: "\<exists>e' fs. list_all good_frame fs \<and> fs \<noteq> [] \<and> (\<forall>out. sync e t out = (e', out @ fs))"

text \<open>Encoding a sequence of events into one list of frames.\<close>

fun encode_events ::
    "('e \<Rightarrow> target_event \<Rightarrow> client_frame list \<Rightarrow> ('e \<times> client_frame list) option) \<Rightarrow>
     'e \<Rightarrow> target_event list \<Rightarrow> client_frame list \<Rightarrow> ('e \<times> client_frame list) option" where
  "encode_events enc e [] out = Some (e, out)"
| "encode_events enc e (ev # evs) out =
    (case enc e ev out of None \<Rightarrow> None | Some (e', out') \<Rightarrow> encode_events enc e' evs out')"

context frame_encoder
begin

text \<open>An event sequence never panics, only appends frames, and every frame is readable.\<close>

lemma encode_events_good:
  "list_all event_wf evs \<Longrightarrow>
   \<exists>e' fs. encode_events encode e evs out = Some (e', out @ fs) \<and> list_all good_frame fs"
proof (induction evs arbitrary: e out)
  case Nil
  then show ?case by simp
next
  case (Cons ev evs)
  obtain e1 fs where 1: "\<And>out. encode e ev out = Some (e1, out @ fs)"
    using encode_total by blast
  have g: "list_all good_frame fs"
    using Cons.prems 1 [of "[]"] by (intro encode_good [of ev e e1]) simp_all
  from Cons obtain e2 gs where
    "encode_events encode e1 evs (out @ fs) = Some (e2, (out @ fs) @ gs)" "list_all good_frame gs"
    by (metis list.pred_inject(2))
  with 1 g have "encode_events encode e (ev # evs) out = Some (e2, out @ (fs @ gs)) \<and> list_all good_frame (fs @ gs)"
    by simp
  then show ?case by blast
qed

end

lemma text_frames_good:
  assumes "list_all (list_all server_wf) iss"
  shows "list_all good_frame (map text_frame iss)"
  using assms text_frame_decodes
  by (fastforce simp: list_all_iff text_frame_def)

lemma guac_frame_encoder: "b64_text cr \<Longrightarrow> frame_encoder (guac_encode cr) guac_sync"
proof (unfold_locales, goal_cases)
  case (1 e ev)
  then show ?case by (auto simp: guac_encode_eq)
next
  case (2 ev e e' fs)
  then show ?case using text_frames_good [OF event_script_wf, of cr ev e] by (simp add: guac_encode_eq)
next
  case (3 e t)
  have "guac_sync e t out = (e, out @ [text_frame [SSync t]])" for out
    by (simp add: guac_sync_def text_frame_def)
  moreover have "list_all good_frame [text_frame [SSync t]]"
    using text_frames_good [of "[[SSync t]]"] by simp
  ultimately show ?case by blast
qed

section \<open>The binary encoder\<close>

fun is_control :: "target_event \<Rightarrow> bool" where
  "is_control (CopyRegion _ _ _ _ _ _) = True"
| "is_control (Resized _ _) = True"
| "is_control (Disconnected _ _) = True"
| "is_control (CursorImage _ _ _ _ _ _) = True"
| "is_control CursorHidden = True"
| "is_control _ = False"

lemma encode_control_eq:
  "encode_control cr e ev out =
    (if is_control ev then (True, encoder_after e ev, out @ map text_frame (event_script cr e ev))
     else (False, e, out))"
  by (cases ev) (simp_all add: encoder_defs text_frame_def)

definition envelope_frames :: "stream_type \<Rightarrow> u64 \<Rightarrow> bytes \<Rightarrow> client_frame list" where
  "envelope_frames st t p =
    (if length p > MAX_MEDIA_PAYLOAD then []
     else [Binary (media_to_bytes \<lparr>me_stream_type = st, me_timestamp_ms = t, me_payload = p\<rparr>)])"

definition after_envelope :: "binary_encoder \<Rightarrow> bytes \<Rightarrow> binary_encoder" where
  "after_envelope e p = (if length p > MAX_MEDIA_PAYLOAD then e\<lparr>dropped := dropped e + 1\<rparr> else e)"

fun binary_frames :: "crypto \<Rightarrow> binary_encoder \<Rightarrow> target_event \<Rightarrow> client_frame list" where
  "binary_frames cr e (VideoSlice c _ _ _ _ _ t d) =
    (case c of H264 \<Rightarrow> envelope_frames H264Video t d | Av1 \<Rightarrow> [])"
| "binary_frames cr e (TerminalOutput d) = envelope_frames RawTerminal 0 d"
| "binary_frames cr e (TClipboard d) = envelope_frames ClipboardSync 0 d"
| "binary_frames cr e ev = map text_frame (event_script cr (control e) ev)"

fun binary_after :: "binary_encoder \<Rightarrow> target_event \<Rightarrow> binary_encoder" where
  "binary_after e (VideoSlice c _ _ _ _ _ t d) =
    (case c of H264 \<Rightarrow> after_envelope e d | Av1 \<Rightarrow> e\<lparr>dropped := dropped e + 1\<rparr>)"
| "binary_after e (TerminalOutput d) = after_envelope e d"
| "binary_after e (TClipboard d) = after_envelope e d"
| "binary_after e ev = e\<lparr>control := encoder_after (control e) ev\<rparr>"

lemma push_envelope_eq: "push_envelope e st t p out = (after_envelope e p, out @ envelope_frames st t p)"
  by (simp add: push_envelope_def media_new_def after_envelope_def envelope_frames_def media_encode_append)

lemma binary_encode_eq:
  "binary_encode cr e ev out = Some (binary_after e ev, out @ binary_frames cr e ev)"
  by (cases ev) (simp_all add: binary_encode_def encode_control_eq push_envelope_eq via_control_def
      guac_encode_eq Let_def split: video_codec.split)

lemma envelope_frames_good: "list_all good_frame (envelope_frames st t p)"
proof (cases "length p > MAX_MEDIA_PAYLOAD")
  case True
  then show ?thesis by (simp add: envelope_frames_def)
next
  case False
  let ?env = "\<lparr>me_stream_type = st, me_timestamp_ms = t, me_payload = p\<rparr>"
  from False have "media_wf ?env" by (simp add: media_wf_def)
  from media_decode_encode [OF this, of "[]"] False show ?thesis
    by (simp add: envelope_frames_def)
qed

lemma binary_frames_good: "b64_text cr \<Longrightarrow> event_wf ev \<Longrightarrow> list_all good_frame (binary_frames cr e ev)"
  using text_frames_good [OF event_script_wf, of cr ev "control e"]
  by (cases ev) (simp_all add: envelope_frames_good split: video_codec.split)

lemma binary_frame_encoder: "b64_text cr \<Longrightarrow> frame_encoder (binary_encode cr) binary_sync"
proof (unfold_locales, goal_cases)
  case (1 e ev)
  then show ?case by (auto simp: binary_encode_eq)
next
  case (2 ev e e' fs)
  then show ?case using binary_frames_good [of cr ev e] by (simp add: binary_encode_eq)
next
  case (3 e t)
  obtain c fs where "list_all good_frame fs" "fs \<noteq> []" "\<And>out. guac_sync (control e) t out = (c, out @ fs)"
    using frame_encoder.sync_good [OF guac_frame_encoder [OF 3]] by blast
  then show ?case by (auto simp: binary_sync_def)
qed

text \<open>Both encoders meet the contract for every codec that writes base64 text.\<close>

locale base64_codec =
  fixes cr :: crypto
  assumes writes_text: "b64_text cr"

sublocale base64_codec \<subseteq> wire: frame_encoder "guac_encode cr" guac_sync
  by (rule guac_frame_encoder [OF writes_text])

sublocale base64_codec \<subseteq> direct: frame_encoder "binary_encode cr" binary_sync
  by (rule binary_frame_encoder [OF writes_text])

interpretation std64: base64_codec checksum_crypto
  by unfold_locales (rule checksum_b64_text)

section \<open>Stream discipline\<close>

text \<open>
  The rule a Guacamole client relies on: a stream index is opened before data is sent on it, is not
  opened again while it is open, and is closed once. The state is the list of open streams.
\<close>

fun opens :: "server_instruction \<Rightarrow> i32 option" where
  "opens (SImg s _ _ _ _ _) = Some s"
| "opens (SClipboard s _) = Some s"
| "opens (SAudio s _) = Some s"
| "opens (SBody _ s _ _) = Some s"
| "opens (SH264 s _ _ _ _ _ _) = Some s"
| "opens _ = None"

fun stream_step :: "i32 list \<Rightarrow> server_instruction \<Rightarrow> i32 list option" where
  "stream_step op (SBlob s _) = (if s \<in> set op then Some op else None)"
| "stream_step op (SEnd s) = (if s \<in> set op then Some (removeAll s op) else None)"
| "stream_step op i =
    (case opens i of None \<Rightarrow> Some op | Some s \<Rightarrow> if s \<in> set op then None else Some (s # op))"

fun stream_run :: "i32 list \<Rightarrow> server_instruction list \<Rightarrow> i32 list option" where
  "stream_run op [] = Some op"
| "stream_run op (i # is) = (case stream_step op i of None \<Rightarrow> None | Some op' \<Rightarrow> stream_run op' is)"

lemma stream_run_append:
  "stream_run op (is @ js) = (case stream_run op is of None \<Rightarrow> None | Some op' \<Rightarrow> stream_run op' js)"
  by (induction "is" arbitrary: op) (auto split: option.split)

lemma stream_run_blobs: "s \<in> set op \<Longrightarrow> stream_run op (blobs cr s d) = Some op"
proof -
  assume "s \<in> set op"
  then have "stream_run op (map (\<lambda>c. SBlob s (b64_encode cr c)) cs) = Some op" for cs
    by (induction cs) simp_all
  then show ?thesis by (simp add: blobs_def)
qed

lemma concat_singles [simp]: "concat (singles is) = is"
  by (induction "is") (simp_all add: singles_def)

definition audio_open :: "guac_wire_encoder \<Rightarrow> i32 list" where
  "audio_open e = (case audio_stream e of None \<Rightarrow> [] | Some s \<Rightarrow> [s])"

fun is_file :: "target_event \<Rightarrow> bool" where
  "is_file (TFile _) = True"
| "is_file _ = False"

lemma event_script_streams:
  assumes "\<not> is_file ev" "audio_stream e \<noteq> Some (next_stream e)"
  shows "stream_run (audio_open e) (concat (event_script cr e ev)) = Some (audio_open (encoder_after e ev))"
proof -
  have "next_stream e \<notin> set (audio_open e)" using assms(2) by (simp add: audio_open_def split: option.split)
  then have body: "stream_run (next_stream e # audio_open e) (blobs cr (next_stream e) d @ SEnd (next_stream e) # js)
      = stream_run (audio_open e) js" for d js
    by (simp add: stream_run_append stream_run_blobs)
  have open': "audio_open (snd (allocate_stream e)) = audio_open e"
    "audio_open (e\<lparr>unsupported := u\<rparr>) = audio_open e" for u
    by (simp_all add: audio_open_def allocate_stream_def)
  show ?thesis
  proof (cases ev)
    case (TAudio d)
    show ?thesis
      by (cases "audio_stream e") (simp_all add: TAudio audio_open_def stream_run_blobs)
  next
    case (VideoSlice c k x y w h t d)
    then show ?thesis
      using \<open>next_stream e \<notin> set (audio_open e)\<close> by (cases c) (simp_all add: body open')
  qed (use assms(1) \<open>next_stream e \<notin> set (audio_open e)\<close> in \<open>simp_all add: body open'\<close>)
qed

text \<open>The stream counter stays in range, and ahead of the audio stream until it wraps.\<close>

definition encoder_wf :: "guac_wire_encoder \<Rightarrow> bool" where
  "encoder_wf e \<longleftrightarrow> 1 \<le> sint (next_stream e) \<and> sint (next_stream e) \<le> 0x7FFFFFFE
    \<and> (\<forall>s. audio_stream e = Some s \<longrightarrow> 1 \<le> sint s \<and> sint s \<le> 0x7FFFFFFE)"

definition audio_behind :: "guac_wire_encoder \<Rightarrow> bool" where
  "audio_behind e \<longleftrightarrow> (\<forall>s. audio_stream e = Some s \<longrightarrow> sint s < sint (next_stream e))"

lemma allocate_next:
  assumes "encoder_wf e"
  shows "sint (next_stream (snd (allocate_stream e))) =
    (if sint (next_stream e) = 0x7FFFFFFE then 1 else sint (next_stream e) + 1)"
  using assms sint_i32_succ [of "next_stream e"] by (auto simp: allocate_stream_def encoder_wf_def)

lemma encoder_after_cases:
  obtains "next_stream (encoder_after e ev) = next_stream e" "audio_stream (encoder_after e ev) = audio_stream e"
  | "next_stream (encoder_after e ev) = next_stream (snd (allocate_stream e))"
    "audio_stream (encoder_after e ev) = audio_stream e"
  | "next_stream (encoder_after e ev) = next_stream (snd (allocate_stream e))"
    "audio_stream e = None" "audio_stream (encoder_after e ev) = Some (next_stream e)"
proof -
  have "audio_stream (snd (allocate_stream e)) = audio_stream e" by (simp add: allocate_stream_def)
  then have
    "next_stream (encoder_after e ev) = next_stream e \<and> audio_stream (encoder_after e ev) = audio_stream e
   \<or> next_stream (encoder_after e ev) = next_stream (snd (allocate_stream e))
      \<and> audio_stream (encoder_after e ev) = audio_stream e
   \<or> next_stream (encoder_after e ev) = next_stream (snd (allocate_stream e))
      \<and> audio_stream e = None \<and> audio_stream (encoder_after e ev) = Some (next_stream e)"
    by (cases ev) (simp_all split: video_codec.split option.split)
  then show ?thesis
    by (elim disjE conjE) (rule that; assumption)+
qed

lemma encoder_after_wf: "encoder_wf e \<Longrightarrow> encoder_wf (encoder_after e ev)"
  by (rule encoder_after_cases [of e ev]) (use allocate_next [of e] in \<open>auto simp: encoder_wf_def\<close>)

lemma encoder_after_behind:
  assumes "encoder_wf e" "audio_behind e" "sint (next_stream e) < 0x7FFFFFFE"
  shows "audio_behind (encoder_after e ev) \<and> sint (next_stream (encoder_after e ev)) \<le> sint (next_stream e) + 1"
  by (rule encoder_after_cases [of e ev]) (use assms allocate_next [of e] in \<open>auto simp: audio_behind_def\<close>)

fun session_script :: "crypto \<Rightarrow> guac_wire_encoder \<Rightarrow> target_event list \<Rightarrow> server_instruction list" where
  "session_script cr e [] = []"
| "session_script cr e (ev # evs) = concat (event_script cr e ev) @ session_script cr (encoder_after e ev) evs"

lemma session_script_streams:
  "encoder_wf e \<Longrightarrow> audio_behind e \<Longrightarrow> sint (next_stream e) + int (length evs) \<le> 0x7FFFFFFE \<Longrightarrow>
   list_all (\<lambda>ev. \<not> is_file ev) evs \<Longrightarrow>
   stream_run (audio_open e) (session_script cr e evs) = Some (audio_open (foldl encoder_after e evs))"
proof (induction evs arbitrary: e)
  case Nil
  then show ?case by simp
next
  case (Cons ev evs)
  have "sint (next_stream e) < 0x7FFFFFFE" using Cons.prems by simp
  note b = encoder_after_behind [OF Cons.prems(1,2) this, of ev]
  have "audio_stream e \<noteq> Some (next_stream e)" using Cons.prems(2) by (auto simp: audio_behind_def)
  moreover have "\<not> is_file ev" using Cons.prems by simp
  ultimately have "stream_run (audio_open e) (concat (event_script cr e ev)) = Some (audio_open (encoder_after e ev))"
    by (intro event_script_streams)
  with Cons b show ?case by (simp add: stream_run_append encoder_after_wf)
qed

lemma encoder_new_wf: "encoder_wf encoder_new" "audio_behind encoder_new" "audio_open encoder_new = []"
  by (simp_all add: encoder_wf_def audio_behind_def audio_open_def encoder_new_def)

lemma encode_events_script:
  "\<exists>iss. encode_events (guac_encode cr) e evs out = Some (foldl encoder_after e evs, out @ map text_frame iss)
     \<and> concat iss = session_script cr e evs"
proof (induction evs arbitrary: e out)
  case Nil
  have "encode_events (guac_encode cr) e [] out = Some (foldl encoder_after e [], out @ map text_frame [])
     \<and> concat [] = session_script cr e []" by simp
  then show ?case by blast
next
  case (Cons ev evs)
  from Cons [of "encoder_after e ev" "out @ map text_frame (event_script cr e ev)"] obtain iss where
    "encode_events (guac_encode cr) (encoder_after e ev) evs (out @ map text_frame (event_script cr e ev))
      = Some (foldl encoder_after (encoder_after e ev) evs, (out @ map text_frame (event_script cr e ev)) @ map text_frame iss)"
    "concat iss = session_script cr (encoder_after e ev) evs" by blast
  then have "encode_events (guac_encode cr) e (ev # evs) out =
      Some (foldl encoder_after e (ev # evs), out @ map text_frame (event_script cr e ev @ iss))
      \<and> concat (event_script cr e ev @ iss) = session_script cr e (ev # evs)"
    by (simp add: guac_encode_eq)
  then show ?case by blast
qed

text \<open>The bytes a stream carried: what the client gets by decoding the blobs of the index.\<close>

fun stream_payload :: "crypto \<Rightarrow> i32 \<Rightarrow> server_instruction list \<Rightarrow> bytes option" where
  "stream_payload cr s [] = Some []"
| "stream_payload cr s (SBlob s' d # is) =
    (if s' = s then (case b64_decode cr d of
        None \<Rightarrow> None | Some bs \<Rightarrow> map_option (\<lambda>r. bs @ r) (stream_payload cr s is))
     else stream_payload cr s is)"
| "stream_payload cr s (i # is) = stream_payload cr s is"

lemma stream_payload_chunks:
  "crypto_ok cr \<Longrightarrow> stream_payload cr s (map (\<lambda>c. SBlob s (b64_encode cr c)) cs @ is) =
     map_option (\<lambda>r. concat cs @ r) (stream_payload cr s is)"
  by (induction cs; cases "stream_payload cr s is") (simp_all add: crypto_okD)

lemma stream_payload_blobs:
  "crypto_ok cr \<Longrightarrow> stream_payload cr s (blobs cr s d @ is) = map_option (\<lambda>r. d @ r) (stream_payload cr s is)"
  by (simp add: blobs_def stream_payload_chunks MAX_BLOB_BYTES_def)

section \<open>Properties\<close>

text \<open>C20: both encoders honour their contract: on any sequence of events whose texts fit an
  instruction element they never reach an \<open>unreachable!\<close> arm, only append frames, and every frame can
  be read: text frames as whole instructions, binary frames as one media envelope.\<close>

theorem encoders_always_readable:
  assumes "b64_text cr" "list_all event_wf evs"
  shows "(\<exists>e' fs. encode_events (guac_encode cr) e evs out = Some (e', out @ fs) \<and> list_all good_frame fs)
       \<and> (\<exists>b' fs. encode_events (binary_encode cr) b evs out = Some (b', out @ fs) \<and> list_all good_frame fs)"
  using frame_encoder.encode_events_good [OF guac_frame_encoder [OF assms(1)] assms(2)]
    frame_encoder.encode_events_good [OF binary_frame_encoder [OF assms(1)] assms(2)]
  by blast

theorem encoders_always_readable_witness:
  "\<exists>e' fs. encode_events (guac_encode checksum_crypto) encoder_new
      [TAudio [1, 2], Disconnected ''bye'' Ended, TerminalOutput [65]] [] = Some (e', [] @ fs) \<and> list_all good_frame fs"
proof -
  have "list_all event_wf [TAudio [1, 2], Disconnected ''bye'' Ended, TerminalOutput [65]]"
    by (simp add: event_wf_def element_wf_ascii MAX_ELEMENT_CHARS_def)
  from conjunct1 [OF encoders_always_readable [OF checksum_b64_text this]] show ?thesis by blast
qed

text \<open>Streams are disciplined: over a session of fewer than \<open>2 ^ 31 - 2\<close> display, clipboard and
  audio events, every stream index is opened before data is sent on it, never opened again while it is
  open, and closed exactly once, the audio stream alone staying open.\<close>

lemma session_streams_disciplined:
  assumes "length evs \<le> 0x7FFFFFFD" "list_all (\<lambda>ev. \<not> is_file ev) evs"
  shows "\<exists>iss e'. encode_events (guac_encode cr) encoder_new evs [] = Some (e', map text_frame iss)
    \<and> stream_run [] (concat iss) = Some (audio_open e')"
proof -
  have "sint (next_stream encoder_new) + int (length evs) \<le> 0x7FFFFFFE"
    using assms(1) by (simp add: encoder_new_def)
  note s = session_script_streams [OF encoder_new_wf(1,2) this assms(2), of cr]
  from encode_events_script [of cr encoder_new evs "[]"] obtain iss where
    "encode_events (guac_encode cr) encoder_new evs [] = Some (foldl encoder_after encoder_new evs, map text_frame iss)"
    "concat iss = session_script cr encoder_new evs" by auto
  with s show ?thesis by (auto simp: encoder_new_wf(3))
qed

text \<open>Clipboard text reaches the client intact: the event becomes an opening instruction, blobs of
  at most 4536 bytes each and a closing instruction on one stream, and decoding the blobs gives back
  the clipboard bytes.\<close>

lemma clipboard_intact:
  assumes "crypto_ok cr"
  shows "\<exists>e' iss. guac_encode cr e (TClipboard data) out = Some (e', out @ map text_frame iss)
    \<and> hd (concat iss) = SClipboard (next_stream e) ''text/plain''
    \<and> last (concat iss) = SEnd (next_stream e)
    \<and> stream_payload cr (next_stream e) (concat iss) = Some data
    \<and> list_all (\<lambda>is. length is = 1) iss
    \<and> length iss = length (chunks MAX_BLOB_BYTES data) + 2"
  by (intro exI conjI, rule guac_encode_eq)
    (use stream_payload_blobs [OF assms, of "next_stream e" data "[SEnd (next_stream e)]"] in
      \<open>simp_all add: singles_def blobs_def comp_def list_all_iff\<close>)

text \<open>In direct mode a video slice is forwarded untouched: within the payload cap it becomes one
  binary frame that decodes to the same bytes and capture time, and above the cap it is dropped and
  counted, with no frame sent.\<close>

lemma direct_video_passthrough:
  "\<exists>b' fs. binary_encode cr b (VideoSlice H264 k x y w h t data) out = Some (b', out @ fs)
    \<and> (if length data \<le> MAX_MEDIA_PAYLOAD
       then (\<exists>f. fs = [Binary f] \<and> media_decode f =
              Inr (Some (\<lparr>me_stream_type = H264Video, me_timestamp_ms = t, me_payload = data\<rparr>, length f))
            \<and> b' = b)
       else fs = [] \<and> dropped b' = dropped b + 1)"
proof -
  let ?env = "\<lparr>me_stream_type = H264Video, me_timestamp_ms = t, me_payload = data\<rparr>"
  have "media_decode (media_to_bytes ?env) = Inr (Some (?env, length (media_to_bytes ?env)))"
    if "length data \<le> MAX_MEDIA_PAYLOAD"
    using that media_decode_encode [of ?env "[]"] by (simp add: media_wf_def)
  then show ?thesis by (simp add: binary_encode_eq envelope_frames_def after_envelope_def)
qed

end
