(* ===== verification/Session_Audit.thy ===== *)
theory Session_Audit
  imports Guac_Encoder Encoder_Contract
begin

text \<open>
  The audit sinks, \<open>crates/strata-session/src/actor/audit.rs\<close>, and the error type a session ends
  with, \<open>error.rs\<close>. The buffered file writer is a parameter: a record of its operations on a file
  state, with what the sinks rely on stated as \<open>file_ops_ok\<close>.
\<close>

section \<open>Session errors\<close>

fun show_wire_error :: "wire_error \<Rightarrow> str" where
  "show_wire_error WireMalformed = ''malformed guacamole instruction''"
| "show_wire_error (BufferOverflow limit) = ''instruction exceeds the '' @ show_nat limit @ ''-byte decode buffer''"
| "show_wire_error (MissingArgument op index) = ''`'' @ op @ ''` is missing argument '' @ show_nat index"
| "show_wire_error (BadArgument op index) = ''`'' @ op @ ''` argument '' @ show_nat index @ '' is not valid''"

datatype session_error =
    Wire wire_error
  | Engine engine_error
  | EdgeAuth str
  | UnknownSession str
  | PipelineClosed str
  | Audit str

fun show_session_error :: "session_error \<Rightarrow> str" where
  "show_session_error (Wire e) = show_wire_error e"
| "show_session_error (Engine e) = show_engine_error e"
| "show_session_error (EdgeAuth e) = ''edge authentication failed: '' @ e"
| "show_session_error (UnknownSession s) = ''no such session: '' @ s"
| "show_session_error (PipelineClosed s) = ''session pipeline closed: '' @ s"
| "show_session_error (Audit e) = ''audit sink failed: '' @ e"

section \<open>Records\<close>

record audit_record =
  ar_seq :: u64
  ar_timestamp_ms :: u64
  ar_frame :: client_frame

definition audit_encode :: "audit_record \<Rightarrow> bytes" where
  "audit_encode r =
    u64_be (ar_seq r) @ u64_be (ar_timestamp_ms r)
      @ [case ar_frame r of Text _ \<Rightarrow> 0 | Binary _ \<Rightarrow> 1]
      @ u32_be (of_nat (length (frame_payload (ar_frame r)))) @ frame_payload (ar_frame r)"

section \<open>Sinks\<close>

record 'f file_ops =
  fo_write_all :: "bytes \<Rightarrow> 'f \<Rightarrow> (str + unit) \<times> 'f"
  fo_flush :: "'f \<Rightarrow> (str + unit) \<times> 'f"
  fo_sync_all :: "'f \<Rightarrow> (str + unit) \<times> 'f"
  fo_sync_data :: "'f \<Rightarrow> (str + unit) \<times> 'f"

definition null_record :: "audit_record \<Rightarrow> session_error + unit" where
  "null_record r = Inr ()"

definition null_finalize :: "session_error + unit" where
  "null_finalize = Inr ()"

record 'f file_sink =
  fs_path :: str
  fs_writer :: 'f
  fs_records :: u64

text \<open>
  The sinks open their file in append mode; opening it, and creating the directory it is in, are
  arguments. A path with no parent directory has \<open>None\<close>.
\<close>

definition file_sink_create :: "(str \<Rightarrow> str + 'f) \<Rightarrow> str \<Rightarrow> session_error + 'f file_sink" where
  "file_sink_create open_append path =
    (case open_append path of
       Inl e \<Rightarrow> Inl (Audit (''open '' @ path @ '': '' @ e))
     | Inr w \<Rightarrow> Inr \<lparr>fs_path = path, fs_writer = w, fs_records = 0\<rparr>)"

definition records_written :: "'f file_sink \<Rightarrow> u64" where
  "records_written s = fs_records s"

definition sync_writer :: "'f file_ops \<Rightarrow> str \<Rightarrow> bool \<Rightarrow> 'f \<Rightarrow> (session_error + unit) \<times> 'f" where
  "sync_writer ops path all w =
    (case fo_flush ops w of
       (Inl e, w1) \<Rightarrow> (Inl (Audit (''flush '' @ path @ '': '' @ e)), w1)
     | (Inr _, w1) \<Rightarrow>
         (case (if all then fo_sync_all ops w1 else fo_sync_data ops w1) of
            (r, w2) \<Rightarrow> (map_err (\<lambda>e. Audit (''fsync '' @ path @ '': '' @ e)) r, w2)))"

definition file_sink_record ::
    "'f file_ops \<Rightarrow> audit_record \<Rightarrow> 'f file_sink \<Rightarrow> (session_error + unit) \<times> 'f file_sink" where
  "file_sink_record ops r s =
    (case fo_write_all ops (audit_encode r) (fs_writer s) of
       (Inl e, w) \<Rightarrow> (Inl (Audit (''write '' @ fs_path s @ '': '' @ e)), s\<lparr>fs_writer := w\<rparr>)
     | (Inr _, w) \<Rightarrow> (Inr (), s\<lparr>fs_writer := w, fs_records := fs_records s + 1\<rparr>))"

definition file_sink_checkpoint :: "'f file_ops \<Rightarrow> 'f file_sink \<Rightarrow> (session_error + unit) \<times> 'f file_sink" where
  "file_sink_checkpoint ops s =
    (let (r, w) = sync_writer ops (fs_path s) False (fs_writer s) in (r, s\<lparr>fs_writer := w\<rparr>))"

definition file_sink_finalize :: "'f file_ops \<Rightarrow> 'f file_sink \<Rightarrow> (session_error + unit) \<times> 'f file_sink" where
  "file_sink_finalize ops s =
    (let (r, w) = sync_writer ops (fs_path s) True (fs_writer s) in (r, s\<lparr>fs_writer := w\<rparr>))"

record 'f guac_sink =
  gs_path :: str
  gs_writer :: 'f
  gs_bytes :: u64

definition guac_sink_create ::
    "(str \<Rightarrow> str option) \<Rightarrow> (str \<Rightarrow> str + unit) \<Rightarrow> (str \<Rightarrow> str + 'f) \<Rightarrow> str \<Rightarrow> session_error + 'f guac_sink" where
  "guac_sink_create parent create_dir_all open_append path =
    and_then
      (case parent path of
         None \<Rightarrow> Inr ()
       | Some dir \<Rightarrow> map_err (\<lambda>e. Audit (''create '' @ dir @ '': '' @ e)) (create_dir_all dir))
      (\<lambda>_. case open_append path of
         Inl e \<Rightarrow> Inl (Audit (''open '' @ path @ '': '' @ e))
       | Inr w \<Rightarrow> Inr \<lparr>gs_path = path, gs_writer = w, gs_bytes = 0\<rparr>)"

definition bytes_written :: "'f guac_sink \<Rightarrow> u64" where
  "bytes_written s = gs_bytes s"

definition guac_sink_record ::
    "'f file_ops \<Rightarrow> audit_record \<Rightarrow> 'f guac_sink \<Rightarrow> (session_error + unit) \<times> 'f guac_sink" where
  "guac_sink_record ops r s =
    (case ar_frame r of
       Binary _ \<Rightarrow> (Inr (), s)
     | Text bs \<Rightarrow>
         (case fo_write_all ops bs (gs_writer s) of
            (Inl e, w) \<Rightarrow> (Inl (Audit (''write '' @ gs_path s @ '': '' @ e)), s\<lparr>gs_writer := w\<rparr>)
          | (Inr _, w) \<Rightarrow> (Inr (), s\<lparr>gs_writer := w, gs_bytes := gs_bytes s + of_nat (length bs)\<rparr>)))"

definition guac_sink_checkpoint :: "'f file_ops \<Rightarrow> 'f guac_sink \<Rightarrow> (session_error + unit) \<times> 'f guac_sink" where
  "guac_sink_checkpoint ops s =
    (let (r, w) = sync_writer ops (gs_path s) False (gs_writer s) in (r, s\<lparr>gs_writer := w\<rparr>))"

definition guac_sink_finalize :: "'f file_ops \<Rightarrow> 'f guac_sink \<Rightarrow> (session_error + unit) \<times> 'f guac_sink" where
  "guac_sink_finalize ops s =
    (let (r, w) = sync_writer ops (gs_path s) True (gs_writer s) in (r, s\<lparr>gs_writer := w\<rparr>))"

section \<open>What a sink's file holds\<close>

text \<open>
  The documented behaviour of the writer: a successful \<open>write_all\<close> appends its bytes to the logical
  contents, flushing and syncing keep them.
\<close>

definition file_ops_ok :: "'f file_ops \<Rightarrow> ('f \<Rightarrow> bytes) \<Rightarrow> bool" where
  "file_ops_ok ops contents \<longleftrightarrow>
    (\<forall>bs f f'. fo_write_all ops bs f = (Inr (), f') \<longrightarrow> contents f' = contents f @ bs)
  \<and> (\<forall>f. contents (snd (fo_flush ops f)) = contents f)
  \<and> (\<forall>f. contents (snd (fo_sync_all ops f)) = contents f)
  \<and> (\<forall>f. contents (snd (fo_sync_data ops f)) = contents f)"

fun record_all :: "('s \<Rightarrow> (session_error + unit) \<times> 's) list \<Rightarrow> 's \<Rightarrow> (session_error + unit) \<times> 's" where
  "record_all [] s = (Inr (), s)"
| "record_all (f # fs) s =
    (case f s of (Inl e, s') \<Rightarrow> (Inl e, s') | (Inr _, s') \<Rightarrow> record_all fs s')"

lemma file_sink_contents:
  assumes "file_ops_ok ops contents"
  shows "record_all (map (file_sink_record ops) rs) s = (Inr (), s') \<Longrightarrow>
    contents (fs_writer s') = contents (fs_writer s) @ concat (map audit_encode rs)
    \<and> fs_records s' = fs_records s + of_nat (length rs)"
proof (induction rs arbitrary: s)
  case Nil
  then show ?case by simp
next
  case (Cons r rs)
  obtain s1 where 1: "file_sink_record ops r s = (Inr (), s1)"
    and rest: "record_all (map (file_sink_record ops) rs) s1 = (Inr (), s')"
    using Cons.prems by (auto split: prod.splits sum.splits)
  from 1 assms have "contents (fs_writer s1) = contents (fs_writer s) @ audit_encode r"
    "fs_records s1 = fs_records s + 1"
    by (auto simp: file_sink_record_def file_ops_ok_def split: prod.splits sum.splits)
  with Cons.IH [OF rest] show ?case by simp
qed

fun text_payload :: "audit_record \<Rightarrow> bytes" where
  "text_payload r = (case ar_frame r of Text bs \<Rightarrow> bs | Binary _ \<Rightarrow> [])"

lemma guac_sink_contents:
  assumes "file_ops_ok ops contents"
  shows "record_all (map (guac_sink_record ops) rs) s = (Inr (), s') \<Longrightarrow>
    contents (gs_writer s') = contents (gs_writer s) @ concat (map text_payload rs)"
proof (induction rs arbitrary: s)
  case Nil
  then show ?case by simp
next
  case (Cons r rs)
  obtain s1 where 1: "guac_sink_record ops r s = (Inr (), s1)"
    and rest: "record_all (map (guac_sink_record ops) rs) s1 = (Inr (), s')"
    using Cons.prems by (auto split: prod.splits sum.splits)
  from 1 assms have "contents (gs_writer s1) = contents (gs_writer s) @ text_payload r"
    by (auto simp: guac_sink_record_def file_ops_ok_def split: client_frame.splits prod.splits sum.splits)
  with Cons.IH [OF rest] show ?case by simp
qed

section \<open>Reading an audit file\<close>

text \<open>A reader of the documented record layout, as the specification of the file format.\<close>

definition audit_dec :: "bytes \<Rightarrow> (unit, audit_record) decoded" where
  "audit_dec buf =
    (if length buf < 21 then Incomplete
     else let len = unat (u32_of_be (take 4 (drop 17 buf))); body = take len (drop 21 buf) in
       if length buf < 21 + len then Incomplete
       else Complete \<lparr>ar_seq = u64_of_be (take 8 buf), ar_timestamp_ms = u64_of_be (take 8 (drop 8 buf)),
              ar_frame = (if buf ! 16 = 0 then Text body else Binary body)\<rparr> (21 + len))"

definition audit_wf :: "audit_record \<Rightarrow> bool" where
  "audit_wf r \<longleftrightarrow> length (frame_payload (ar_frame r)) < 2 ^ 32"

lemma length_audit_encode: "length (audit_encode r) = 21 + length (frame_payload (ar_frame r))"
  by (simp add: audit_encode_def)

lemma audit_header:
  assumes "buf @ q = audit_encode r @ rest" "21 \<le> length buf"
  shows "take 8 buf = u64_be (ar_seq r)" "take 8 (drop 8 buf) = u64_be (ar_timestamp_ms r)"
    "buf ! 16 = (case ar_frame r of Text _ \<Rightarrow> 0 | Binary _ \<Rightarrow> 1)"
    "take 4 (drop 17 buf) = u32_be (of_nat (length (frame_payload (ar_frame r))))"
proof -
  let ?k = "[case ar_frame r of Text _ \<Rightarrow> 0 | Binary _ \<Rightarrow> (1::u8)]"
  let ?hdr = "u64_be (ar_seq r) @ u64_be (ar_timestamp_ms r) @ ?k
    @ u32_be (of_nat (length (frame_payload (ar_frame r))))"
  have "take 21 buf = take 21 (buf @ q)" using assms(2) by simp
  also have "\<dots> = ?hdr" by (simp add: assms(1) audit_encode_def)
  finally have h: "take 21 buf = ?hdr" .
  have "take 8 buf = take 8 (take 21 buf)" "take 8 (drop 8 buf) = take 8 (drop 8 (take 21 buf))"
    "take 4 (drop 17 buf) = take 4 (drop 17 (take 21 buf))" by (simp_all add: drop_take)
  then show "take 8 buf = u64_be (ar_seq r)" "take 8 (drop 8 buf) = u64_be (ar_timestamp_ms r)"
    "take 4 (drop 17 buf) = u32_be (of_nat (length (frame_payload (ar_frame r))))"
    unfolding h by simp_all
  have "buf ! 16 = take 21 buf ! 16" by simp
  then show "buf ! 16 = (case ar_frame r of Text _ \<Rightarrow> 0 | Binary _ \<Rightarrow> 1)"
    unfolding h by (simp add: nth_append)
qed

interpretation audit: stream_codec audit_encode audit_dec audit_wf
proof
  fix r rest
  assume "audit_wf r"
  then have len: "unat (of_nat (length (frame_payload (ar_frame r))) :: u32) = length (frame_payload (ar_frame r))"
    by (simp add: audit_wf_def unat_of_nat)
  have "audit_encode r @ rest @ [] = audit_encode r @ rest" by simp
  then have "(audit_encode r @ rest) @ [] = audit_encode r @ rest" by simp
  note h = audit_header [OF this]
  have "take (length (frame_payload (ar_frame r))) (drop 21 (audit_encode r @ rest)) = frame_payload (ar_frame r)"
    by (simp add: audit_encode_def)
  then show "audit_dec (audit_encode r @ rest) = Complete r (length (audit_encode r))"
    using h len by (cases r; cases "ar_frame r") (simp_all add: audit_dec_def Let_def length_audit_encode)
next
  fix r
  show "audit_encode r \<noteq> []" using length_audit_encode [of r] by auto
next
  fix r p
  assume "audit_wf r" "strict_prefix p (audit_encode r)"
  then obtain q where q: "p @ q = audit_encode r @ []" and l: "length p < length (audit_encode r)"
    by (metis append_Nil2 prefix_length_less strict_prefixE')
  from \<open>audit_wf r\<close> have len: "unat (of_nat (length (frame_payload (ar_frame r))) :: u32) = length (frame_payload (ar_frame r))"
    by (simp add: audit_wf_def unat_of_nat)
  show "audit_dec p = Incomplete"
    using l audit_header(4) [OF q] len by (simp add: audit_dec_def Let_def length_audit_encode)
qed

section \<open>Recordings survive a crash\<close>

lemma decode_cut:
  assumes "list_all audit_wf rs" "prefix kept (concat (map audit_encode rs))"
  shows "prefix (fst (decode_all audit_dec (Suc (length kept)) kept)) rs
    \<and> (kept = concat (map audit_encode rs) \<longrightarrow> fst (decode_all audit_dec (Suc (length kept)) kept) = rs)"
proof -
  obtain zs todo p where s: "rs = zs @ todo" "kept = concat (map audit_encode zs) @ p"
    and t: "todo = [] \<and> p = [] \<or> (\<exists>y ys'. todo = y # ys' \<and> strict_prefix p (audit_encode y))"
    using audit.prefix_split [OF assms] by blast
  have n: "length zs < Suc (length kept)" using audit.concat_enc_length [of zs] s(2) by simp
  have w: "list_all audit_wf zs" using assms(1) s(1) by simp
  have e: "audit_dec p = Incomplete"
  proof (cases "todo = []")
    case True
    with t show ?thesis by (simp add: audit_dec_def)
  next
    case False
    with t obtain y ys where y: "todo = y # ys" "strict_prefix p (audit_encode y)" by blast
    from y(1) assms(1) s(1) have "audit_wf y" by simp
    from audit.dec_prefix [OF this y(2)] show ?thesis .
  qed
  from audit.decode_all_concat [OF w e n] s(2) have d: "fst (decode_all audit_dec (Suc (length kept)) kept) = zs" by simp
  moreover have "zs = rs" if "kept = concat (map audit_encode rs)"
  proof (cases todo)
    case (Cons y ys)
    with t have "strict_prefix p (audit_encode y)" by auto
    moreover have "p = audit_encode y @ concat (map audit_encode ys)" using that s Cons by simp
    ultimately show ?thesis by (metis prefixI prefix_order.less_le_not_le)
  qed (simp add: s)
  moreover have "prefix zs rs" using s(1) by simp
  ultimately show ?thesis unfolding d by blast
qed

text \<open>A recording can be read back, also after a crash: once a list of records has been written to a
  fresh file by the binary sink, cutting the file at any byte leaves a reader of the documented layout
  with a prefix of the records, and the whole file gives back exactly the records, of which the sink
  reports the number.\<close>
lemma recording_readable:
  assumes "file_ops_ok ops contents" "file_sink_create open_append path = Inr s" "contents (fs_writer s) = []"
    and "list_all audit_wf rs"
    and "record_all (map (file_sink_record ops) rs) s = (Inr (), s')"
    and "prefix kept (contents (fs_writer s'))"
  shows "prefix (fst (decode_all audit_dec (Suc (length kept)) kept)) rs
    \<and> (kept = contents (fs_writer s') \<longrightarrow> fst (decode_all audit_dec (Suc (length kept)) kept) = rs)
    \<and> records_written s' = of_nat (length rs)"
  using file_sink_contents [OF assms(1,5)] decode_cut [OF assms(4), of kept] assms(2,3,6)
  by (auto simp: file_sink_create_def records_written_def split: sum.splits)

definition append_file :: "bytes file_ops" where
  "append_file = \<lparr>fo_write_all = (\<lambda>bs f. (Inr (), f @ bs)), fo_flush = (\<lambda>f. (Inr (), f)),
     fo_sync_all = (\<lambda>f. (Inr (), f)), fo_sync_data = (\<lambda>f. (Inr (), f))\<rparr>"

definition two_records :: "audit_record list" where
  "two_records = [\<lparr>ar_seq = 0, ar_timestamp_ms = 5, ar_frame = Text [1]\<rparr>,
     \<lparr>ar_seq = 1, ar_timestamp_ms = 6, ar_frame = Binary [2, 3]\<rparr>]"

end
