(* ===== verification/Session_Actor.thy ===== *)
theory Session_Actor
  imports Session_Audit Hash_Map Rust_Text
begin

text \<open>
  The session actor, \<open>crates/strata-session/src/actor/session.rs\<close>: one task that owns a target
  connection, feeds it the operator's and the guest's input, and fans its output out to the client, the
  observers and the recording.

  Everything the actor calls but does not own (the protocol engine, the recording sink, the dual
  control moderator, the credential guard, the channels to the client and the observers, and the clocks)
  is an \<open>actor_env\<close>: a record of functions that answer a call from the history of calls made so
  far. The history is a field of the actor and grows with every call, so an environment can answer the
  same call differently each time, and the order of effects can be read off it. Clock readings are not
  calls: two readings with no call in between are equal. Log lines are omitted.
\<close>

section \<open>The environment\<close>

record session_frame =
  sf_seq :: u64
  sf_timestamp_ms :: u64
  sf_frame :: client_frame

datatype action =
    Input input_event bool
  | NextEvent
  | Shutdown
  | Record audit_record bool
  | Checkpoint bool
  | Finalize
  | Revoke
  | Broadcast session_frame
  | Send client_frame bool
  | TrySend client_frame bool
  | Subscribe

type_synonym history = "action list"

datatype moderation = Allow | Deny str

record 'c actor_env =
  env_handle_input :: "history \<Rightarrow> input_event \<Rightarrow> engine_error + unit"
  env_next_event :: "history \<Rightarrow> (engine_error + target_event option) option"
  env_record :: "history \<Rightarrow> audit_record \<Rightarrow> session_error + unit"
  env_checkpoint :: "history \<Rightarrow> session_error + unit"
  env_finalize :: "history \<Rightarrow> (session_error + unit) option"
  env_revoke :: "history \<Rightarrow> (session_error + unit) option"
  env_send :: "history \<Rightarrow> client_frame \<Rightarrow> bool"
  env_try_send :: "history \<Rightarrow> client_frame \<Rightarrow> bool"
  env_review :: "(history \<Rightarrow> input_event \<Rightarrow> moderation) option"
  env_now_ms :: "history \<Rightarrow> u64"
  env_instant :: "history \<Rightarrow> nat"
  env_other_bytes :: "history \<Rightarrow> nat"
  env_encode :: "'c \<Rightarrow> target_event \<Rightarrow> client_frame list \<Rightarrow> 'c \<times> client_frame list"
  env_sync :: "'c \<Rightarrow> i64 \<Rightarrow> client_frame list \<Rightarrow> 'c \<times> client_frame list"
  env_crypto :: crypto
  env_decoded_len_estimate :: "nat \<Rightarrow> nat"

text \<open>
  \<open>None\<close> from \<open>env_finalize\<close> and \<open>env_revoke\<close> is a teardown step that exceeded its ten seconds,
  \<open>None\<close> from \<open>env_next_event\<close> the one second grace running out; the outcome of the engine's shutdown
  is only logged by the code.
  \<open>env_other_bytes\<close> is what the other sessions of the process add to the shared clipboard counter.
  Instants are nanoseconds.
\<close>

section \<open>Limits\<close>

definition MAX_CLIPBOARD_BYTES :: nat where [bound_simps]: "MAX_CLIPBOARD_BYTES = 8 * 1024 * 1024"
definition MAX_CLIPBOARD_STREAMS :: nat where [bound_simps]: "MAX_CLIPBOARD_STREAMS = 4"
definition MAX_CLIPBOARD_SESSION_BYTES :: nat where [bound_simps]: "MAX_CLIPBOARD_SESSION_BYTES = 2 * MAX_CLIPBOARD_BYTES"
definition MAX_UPLOAD_STREAMS :: nat where [bound_simps]: "MAX_UPLOAD_STREAMS = 16"
definition CLIPBOARD_IDLE :: nat where [bound_simps]: "CLIPBOARD_IDLE = 30 * 10 ^ 9"
definition MAX_CLIPBOARD_PROCESS_BYTES :: nat where [bound_simps]: "MAX_CLIPBOARD_PROCESS_BYTES = 256 * 1024 * 1024"
definition MAX_GUEST_CLIPBOARD_STREAMS :: nat where [bound_simps]: "MAX_GUEST_CLIPBOARD_STREAMS = 1"
definition STATUS_BAD_REQUEST :: i32 where "STATUS_BAD_REQUEST = 0x0300"
definition STATUS_OVERRUN :: i32 where "STATUS_OVERRUN = 0x030D"
definition STATUS_BAD_TYPE :: i32 where "STATUS_BAD_TYPE = 0x030F"
definition STATUS_TOO_MANY :: i32 where "STATUS_TOO_MANY = 0x031D"

type_synonym refusal = "i32 \<times> str"

record pending_clipboard =
  pc_data :: bytes
  pc_touched :: nat

text \<open>
  The token bucket, with tokens counted in billionths so that the refill of eight tokens a second is
  eight units a nanosecond; the rounding of the double arithmetic is not modelled.
\<close>

definition STREAM_OPEN_BURST :: nat where [bound_simps]: "STREAM_OPEN_BURST = 32 * 10 ^ 9"
definition STREAM_OPENS_PER_SEC :: nat where [bound_simps]: "STREAM_OPENS_PER_SEC = 8"

record open_rate =
  or_tokens :: nat
  or_refilled :: nat

definition open_rate_new :: "nat \<Rightarrow> open_rate" where
  "open_rate_new now = \<lparr>or_tokens = STREAM_OPEN_BURST, or_refilled = now\<rparr>"

definition open_rate_take :: "nat \<Rightarrow> open_rate \<Rightarrow> bool \<times> open_rate" where
  "open_rate_take now r =
    (let earned = (now - or_refilled r) * STREAM_OPENS_PER_SEC;
         tokens = min (or_tokens r + earned) STREAM_OPEN_BURST
     in if tokens \<ge> 10 ^ 9 then (True, \<lparr>or_tokens = tokens - 10 ^ 9, or_refilled = now\<rparr>)
        else (False, \<lparr>or_tokens = tokens, or_refilled = now\<rparr>))"

section \<open>The actor\<close>

record recording_policy =
  exclude_output :: bool
  include_keys :: bool

record 'c actor =
  ac_encoder :: 'c
  ac_recording :: recording_policy
  ac_credential :: bool
  ac_seq :: u64
  ac_dropped :: u64
  ac_clip :: "(i32, pending_clipboard) hmap"
  ac_guest :: "(i32, pending_clipboard) hmap"
  ac_uploads :: "i32 list"
  ac_rate :: open_rate
  ac_process :: nat
  ac_log :: history

text \<open>
  \<open>ac_process\<close> is this session's share of the process-wide clipboard counter: what it has added to
  the static and not yet subtracted. The static itself is that share plus \<open>env_other_bytes\<close>.
\<close>

definition actor_new :: "'c actor_env \<Rightarrow> 'c \<Rightarrow> recording_policy \<Rightarrow> bool \<Rightarrow> 'c actor" where
  "actor_new env enc policy credential =
    \<lparr>ac_encoder = enc, ac_recording = policy, ac_credential = credential, ac_seq = 0, ac_dropped = 0,
     ac_clip = [], ac_guest = [], ac_uploads = [], ac_rate = open_rate_new (env_instant env []),
     ac_process = 0, ac_log = []\<rparr>"

definition logged :: "action \<Rightarrow> 'c actor \<Rightarrow> 'c actor" where
  "logged act a = a\<lparr>ac_log := ac_log a @ [act]\<rparr>"

definition call_record :: "'c actor_env \<Rightarrow> audit_record \<Rightarrow> 'c actor \<Rightarrow> (session_error + unit) \<times> 'c actor" where
  "call_record env r a =
    (let res = env_record env (ac_log a) r in (res, logged (Record r (is_ok res)) a))"

definition call_checkpoint :: "'c actor_env \<Rightarrow> 'c actor \<Rightarrow> (session_error + unit) \<times> 'c actor" where
  "call_checkpoint env a =
    (let res = env_checkpoint env (ac_log a) in (res, logged (Checkpoint (is_ok res)) a))"

definition call_input :: "'c actor_env \<Rightarrow> input_event \<Rightarrow> 'c actor \<Rightarrow> (session_error + unit) \<times> 'c actor" where
  "call_input env i a =
    (let res = env_handle_input env (ac_log a) i in
     (map_err Engine res, logged (Input i (is_ok res)) a))"

definition is_graphical_output :: "target_event \<Rightarrow> bool" where
  "is_graphical_output event =
    (case event of
       ImageUpdate _ _ _ _ \<Rightarrow> True | VideoSlice _ _ _ _ _ _ _ _ \<Rightarrow> True | TerminalOutput _ \<Rightarrow> True
     | CopyRegion _ _ _ _ _ _ \<Rightarrow> True | Resized _ _ \<Rightarrow> True | CursorImage _ _ _ _ _ _ \<Rightarrow> True
     | CursorHidden \<Rightarrow> True
     | TAudio _ \<Rightarrow> False | TClipboard _ \<Rightarrow> False | TFile _ \<Rightarrow> False | Disconnected _ _ \<Rightarrow> False)"

definition emit :: "'c actor_env \<Rightarrow> client_frame \<Rightarrow> bool \<Rightarrow> bool \<Rightarrow> 'c actor \<Rightarrow> (session_error + unit) \<times> 'c actor" where
  "emit env frame droppable output a =
    (let rec = \<lparr>sf_seq = ac_seq a, sf_timestamp_ms = env_now_ms env (ac_log a), sf_frame = frame\<rparr>;
         a1 = a\<lparr>ac_seq := ac_seq a + 1\<rparr>
     in and_do
       (if \<not> (output \<and> exclude_output (ac_recording a1))
        then call_record env \<lparr>ar_seq = sf_seq rec, ar_timestamp_ms = sf_timestamp_ms rec, ar_frame = sf_frame rec\<rparr> a1
        else (Inr (), a1))
       (\<lambda>_ a2.
         let a3 = logged (Broadcast rec) a2 in
         if droppable then
           (let ok = env_try_send env (ac_log a3) frame; a4 = logged (TrySend frame ok) a3
            in (Inr (), if ok then a4 else a4\<lparr>ac_dropped := ac_dropped a4 + 1\<rparr>))
         else
           (let ok = env_send env (ac_log a3) frame; a4 = logged (Send frame ok) a3
            in (if ok then Inr () else Inl (PipelineClosed ''client writer''), a4))))"

fun emit_frames :: "'c actor_env \<Rightarrow> client_frame list \<Rightarrow> bool \<Rightarrow> bool \<Rightarrow> 'c actor \<Rightarrow> (session_error + unit) \<times> 'c actor" where
  "emit_frames env [] droppable output a = (Inr (), a)"
| "emit_frames env (f # fs) droppable output a =
    and_do (emit env f droppable output a) (\<lambda>_. emit_frames env fs droppable output)"

definition i64_of_now :: "u64 \<Rightarrow> i64" where
  "i64_of_now ms = (if unat ms < 2 ^ 63 then ms else 2 ^ 63 - 1)"

definition emit_sync :: "'c actor_env \<Rightarrow> 'c actor \<Rightarrow> (session_error + unit) \<times> 'c actor" where
  "emit_sync env a =
    (let (c, frames) = env_sync env (ac_encoder a) (i64_of_now (env_now_ms env (ac_log a))) []
     in emit_frames env frames False False (a\<lparr>ac_encoder := c\<rparr>))"

definition on_target_event :: "'c actor_env \<Rightarrow> target_event \<Rightarrow> 'c actor \<Rightarrow> (session_error + unit) \<times> 'c actor" where
  "on_target_event env event a =
    (let a1 = (case event of
                 TFile (EAck stream _ status) \<Rightarrow>
                   if status \<noteq> 0 then a\<lparr>ac_uploads := removeAll stream (ac_uploads a)\<rparr> else a
               | _ \<Rightarrow> a);
         droppable = (case event of VideoSlice _ keyframe _ _ _ _ _ _ \<Rightarrow> \<not> keyframe | _ \<Rightarrow> False);
         (c, frames) = env_encode env (ac_encoder a1) event [];
         a2 = a1\<lparr>ac_encoder := c\<rparr>
     in and_do (emit_frames env frames droppable (is_graphical_output event) a2)
          (\<lambda>_ a3. emit_sync env a3))"

section \<open>Client streams\<close>

definition stream_in_use :: "i32 \<Rightarrow> 'c actor \<Rightarrow> bool" where
  "stream_in_use stream a \<longleftrightarrow> hm_contains stream (ac_clip a) \<or> stream \<in> set (ac_uploads a)"

definition streams_of :: "bool \<Rightarrow> 'c actor \<Rightarrow> (i32, pending_clipboard) hmap" where
  "streams_of guest a = (if guest then ac_guest a else ac_clip a)"

definition set_streams :: "bool \<Rightarrow> (i32, pending_clipboard) hmap \<Rightarrow> 'c actor \<Rightarrow> 'c actor" where
  "set_streams guest m a = (if guest then a\<lparr>ac_guest := m\<rparr> else a\<lparr>ac_clip := m\<rparr>)"

definition held :: "(i32, pending_clipboard) hmap \<Rightarrow> nat" where
  "held m = sum_list (map (\<lambda>p. length (pc_data p)) (hm_values m))"

text \<open>Dropping a pending stream gives its bytes back to the counter.\<close>

definition drop_stream :: "bool \<Rightarrow> i32 \<Rightarrow> 'c actor \<Rightarrow> 'c actor" where
  "drop_stream guest stream a =
    (case hm_get stream (streams_of guest a) of
       None \<Rightarrow> a
     | Some p \<Rightarrow> (set_streams guest (hm_remove stream (streams_of guest a)) a)
                   \<lparr>ac_process := ac_process a - length (pc_data p)\<rparr>)"

text \<open>The \<open>retain\<close> of \<open>open_clipboard\<close>: idle streams are dropped, giving back their bytes.\<close>

definition drop_idle :: "bool \<Rightarrow> nat \<Rightarrow> 'c actor \<Rightarrow> 'c actor" where
  "drop_idle guest now a =
    (let keep = hm_retain (\<lambda>_ p. now - pc_touched p < CLIPBOARD_IDLE) (streams_of guest a)
     in (set_streams guest keep a)
          \<lparr>ac_process := ac_process a - (held (streams_of guest a) - held keep)\<rparr>)"

definition open_clipboard :: "'c actor_env \<Rightarrow> i32 \<Rightarrow> bool \<Rightarrow> 'c actor \<Rightarrow> refusal option \<times> 'c actor" where
  "open_clipboard env stream guest a =
    (if \<not> guest \<and> stream_in_use stream a then (Some (STATUS_BAD_REQUEST, ''stream already in use''), a)
     else
       let limit = (if guest then MAX_GUEST_CLIPBOARD_STREAMS else MAX_CLIPBOARD_STREAMS);
           now = env_instant env (ac_log a);
           a1 = drop_idle guest now a
       in if hm_contains stream (streams_of guest a1)
          then (Some (STATUS_BAD_REQUEST, ''stream already in use''), a1)
          else if hm_len (streams_of guest a1) \<ge> limit
          then (Some (STATUS_TOO_MANY, ''too many clipboard streams''), a1)
          else let (ok, rate) = open_rate_take now (ac_rate a1); a2 = a1\<lparr>ac_rate := rate\<rparr> in
            if \<not> ok then (Some (STATUS_TOO_MANY, ''opening streams too fast''), a2)
            else (None, set_streams guest
                    (hm_insert stream \<lparr>pc_data = [], pc_touched = now\<rparr> (streams_of guest a2)) a2))"

definition append_clipboard :: "'c actor_env \<Rightarrow> i32 \<Rightarrow> str \<Rightarrow> bool \<Rightarrow> 'c actor \<Rightarrow> refusal option \<times> 'c actor" where
  "append_clipboard env stream data guest a =
    (let buffered = held (ac_clip a) + held (ac_guest a) in
     case hm_get stream (streams_of guest a) of
       None \<Rightarrow> (None, a)
     | Some pending \<Rightarrow>
         let incoming = env_decoded_len_estimate env (length data) in
         if length (pc_data pending) + incoming > MAX_CLIPBOARD_BYTES
            \<or> buffered + incoming > MAX_CLIPBOARD_SESSION_BYTES
         then (Some (STATUS_OVERRUN, ''clipboard content too large''), drop_stream guest stream a)
         else if ac_process a + env_other_bytes env (ac_log a) + incoming > MAX_CLIPBOARD_PROCESS_BYTES
         then (Some (STATUS_TOO_MANY, ''the server is busy; try again''), drop_stream guest stream a)
         else (case b64_decode (env_crypto env) data of
           None \<Rightarrow> (Some (STATUS_BAD_REQUEST, ''malformed clipboard data''), drop_stream guest stream a)
         | Some decoded \<Rightarrow>
             (None, (set_streams guest
                (hm_insert stream \<lparr>pc_data = pc_data pending @ decoded, pc_touched = env_instant env (ac_log a)\<rparr>
                   (streams_of guest a)) a)
                \<lparr>ac_process := ac_process a + length decoded\<rparr>)))"

text \<open>
  Ending a stream: the pending data is moved out with \<open>mem::take\<close> before the entry is dropped, so the
  drop subtracts the length of an empty vector.
\<close>

definition take_stream :: "bool \<Rightarrow> i32 \<Rightarrow> 'c actor \<Rightarrow> bytes option \<times> 'c actor" where
  "take_stream guest stream a =
    (case hm_get stream (streams_of guest a) of
       None \<Rightarrow> (None, a)
     | Some p \<Rightarrow>
         let emptied = p\<lparr>pc_data := []\<rparr> in
         (Some (pc_data p),
          (set_streams guest (hm_remove stream (streams_of guest a)) a)
            \<lparr>ac_process := ac_process a - length (pc_data emptied)\<rparr>))"

definition refuse :: "'c actor_env \<Rightarrow> i32 \<Rightarrow> refusal \<Rightarrow> 'c actor \<Rightarrow> (session_error + unit) \<times> 'c actor" where
  "refuse env stream r a =
    (if stream_in_use stream a then (Inr (), a)
     else on_target_event env (TFile (EAck stream (snd r) (fst r))) a)"

section \<open>Input\<close>

definition record_key :: "'c actor_env \<Rightarrow> u32 \<Rightarrow> bool \<Rightarrow> 'c actor \<Rightarrow> (session_error + unit) \<times> 'c actor" where
  "record_key env keysym pressed a =
    (let out = encode_instruction [] ''key'' [show_u32 keysym, if pressed then ''1'' else ''0''];
         r = \<lparr>ar_seq = ac_seq a, ar_timestamp_ms = env_now_ms env (ac_log a), ar_frame = Text out\<rparr>
     in call_record env r (a\<lparr>ac_seq := ac_seq a + 1\<rparr>))"

definition deliver :: "'c actor_env \<Rightarrow> input_event \<Rightarrow> 'c actor \<Rightarrow> (session_error + unit) \<times> 'c actor" where
  "deliver env input a =
    (let denied = (case env_review env of
                     None \<Rightarrow> False
                   | Some review \<Rightarrow> (case review (ac_log a) input of Deny _ \<Rightarrow> True | Allow \<Rightarrow> False))
     in if denied then (Inr (), a)
        else and_do
          (if include_keys (ac_recording a)
           then (case input of IKey keysym pressed \<Rightarrow> record_key env keysym pressed a | _ \<Rightarrow> (Inr (), a))
           else (Inr (), a))
          (\<lambda>_ a1. call_input env input a1))"

text \<open>\<open>Inr (Some reason)\<close> ends the session; \<open>deliver\<close> continues with \<open>Inr None\<close>.\<close>

definition deliver_none :: "'c actor_env \<Rightarrow> input_event \<Rightarrow> 'c actor \<Rightarrow> (session_error + str option) \<times> 'c actor" where
  "deliver_none env input a = and_do (deliver env input a) (\<lambda>_ a'. (Inr None, a'))"

definition refuse_opt ::
    "'c actor_env \<Rightarrow> i32 \<Rightarrow> refusal option \<times> 'c actor \<Rightarrow> (session_error + str option) \<times> 'c actor" where
  "refuse_opt env stream p =
    (case p of
       (None, a) \<Rightarrow> (Inr None, a)
     | (Some r, a) \<Rightarrow> and_do (refuse env stream r a) (\<lambda>_ a'. (Inr None, a')))"

definition on_client_input ::
    "'c actor_env \<Rightarrow> client_instruction \<Rightarrow> 'c actor \<Rightarrow> (session_error + str option) \<times> 'c actor" where
  "on_client_input env instruction a =
    (case instruction of
       CMouse x y msk \<Rightarrow> deliver_none env (IMouse x y msk) a
     | CKey keysym pressed \<Rightarrow> deliver_none env (IKey keysym pressed) a
     | CSize width height dpi \<Rightarrow> deliver_none env (IResize width height dpi) a
     | CDisconnect \<Rightarrow> (Inr (Some ''client requested disconnect''), a)
     | CClipboard stream mimetype \<Rightarrow>
         refuse_opt env stream
           (if starts_with ''text/'' mimetype then open_clipboard env stream False a
            else (Some (STATUS_BAD_TYPE, ''only text can be pasted''), a))
     | CBlob stream data \<Rightarrow>
         if stream \<in> set (ac_uploads a) then
           (case b64_decode (env_crypto env) data of
              None \<Rightarrow> (Inr None, a)
            | Some decoded \<Rightarrow> deliver_none env (IFile (FData stream decoded)) a)
         else refuse_opt env stream (append_clipboard env stream data False a)
     | CEnd stream \<Rightarrow>
         if stream \<in> set (ac_uploads a) then
           deliver_none env (IFile (FEnd stream)) (a\<lparr>ac_uploads := removeAll stream (ac_uploads a)\<rparr>)
         else (case take_stream False stream a of
                 (None, a1) \<Rightarrow> (Inr None, a1)
               | (Some data, a1) \<Rightarrow> deliver_none env (IClipboard data) a1)
     | CGet object name \<Rightarrow>
         (let (ok, rate) = open_rate_take (env_instant env (ac_log a)) (ac_rate a); a1 = a\<lparr>ac_rate := rate\<rparr> in
          if \<not> ok then (Inr None, a1) else deliver_none env (IFile (FGet object name)) a1)
     | CPut object stream mimetype name \<Rightarrow>
         if stream_in_use stream a
         then refuse_opt env stream (Some (STATUS_BAD_REQUEST, ''stream already in use''), a)
         else if length (ac_uploads a) \<ge> MAX_UPLOAD_STREAMS
         then refuse_opt env stream (Some (STATUS_TOO_MANY, ''too many uploads in progress''), a)
         else (let (ok, rate) = open_rate_take (env_instant env (ac_log a)) (ac_rate a); a1 = a\<lparr>ac_rate := rate\<rparr> in
           if \<not> ok then refuse_opt env stream (Some (STATUS_TOO_MANY, ''opening transfers too fast''), a1)
           else deliver_none env (IFile (FPut object stream mimetype name))
                  (a1\<lparr>ac_uploads := List.insert stream (ac_uploads a1)\<rparr>))
     | CAck stream _ status \<Rightarrow> deliver_none env (IFile (FAck stream status)) a
     | CSync _ \<Rightarrow> (Inr None, a)
     | CNop \<Rightarrow> (Inr None, a)
     | CUnhandled _ \<Rightarrow> (Inr None, a))"

definition on_guest_input ::
    "'c actor_env \<Rightarrow> client_instruction \<Rightarrow> 'c actor \<Rightarrow> (session_error + unit) \<times> 'c actor" where
  "on_guest_input env instruction a =
    (case instruction of
       CMouse x y msk \<Rightarrow> deliver env (IMouse x y msk) a
     | CKey keysym pressed \<Rightarrow> deliver env (IKey keysym pressed) a
     | CSize width height dpi \<Rightarrow> deliver env (IResize width height dpi) a
     | CClipboard stream mimetype \<Rightarrow>
         if starts_with ''text/'' mimetype then (Inr (), snd (open_clipboard env stream True a))
         else (Inr (), a)
     | CBlob stream data \<Rightarrow> (Inr (), snd (append_clipboard env stream data True a))
     | CEnd stream \<Rightarrow>
         (case take_stream True stream a of
            (None, a1) \<Rightarrow> (Inr (), a1)
          | (Some data, a1) \<Rightarrow> deliver env (IClipboard data) a1)
     | _ \<Rightarrow> (Inr (), a))"

section \<open>The loop\<close>

datatype session_command =
    ClientInput client_instruction
  | GuestInput client_instruction
  | AttachObserver
  | Terminate str

text \<open>What one turn of the \<open>select!\<close> can be: a command or the closing of the channel, the sync timer,
  or the engine's next event.\<close>

datatype loop_event =
    Command "session_command option"
  | SyncTick
  | TargetSays "engine_error + target_event option"

definition describe_engine_failure :: "engine_error \<Rightarrow> str \<times> disconnect_cause" where
  "describe_engine_failure err =
    (case err of
       Transport io \<Rightarrow>
         if io_timed_out io
         then (''The remote computer stopped responding, so the connection was dropped.'', ConnectionLost)
         else (''The network connection to the remote computer was lost.'', ConnectionLost)
     | Closed _ \<Rightarrow> (''The remote computer closed the connection unexpectedly.'', ConnectionLost)
     | AuthRejected \<Rightarrow> (''The remote computer rejected the credentials.'', Unauthorized)
     | Protocol _ \<Rightarrow>
         (''The session ended because of an unexpected response from the remote computer.'', Failed)
     | Unsupported _ \<Rightarrow>
         (''The session ended because of an unexpected response from the remote computer.'', Failed))"

definition notify_end :: "'c actor_env \<Rightarrow> str \<Rightarrow> disconnect_cause \<Rightarrow> 'c actor \<Rightarrow> 'c actor" where
  "notify_end env reason cause a = snd (on_target_event env (Disconnected reason cause) a)"

fun try_send_all :: "'c actor_env \<Rightarrow> client_frame list \<Rightarrow> 'c actor \<Rightarrow> 'c actor" where
  "try_send_all env [] a = a"
| "try_send_all env (f # fs) a =
    try_send_all env fs (logged (TrySend f (env_try_send env (ac_log a) f)) a)"

definition end_after_failure :: "'c actor_env \<Rightarrow> session_error \<Rightarrow> 'c actor \<Rightarrow> str \<times> 'c actor" where
  "end_after_failure env err a =
    (show_session_error err,
     case err of
       Audit _ \<Rightarrow>
         (let (c, frames) = env_encode env (ac_encoder a)
                (Disconnected ''The session recording failed, so the session was closed.'' Failed) []
          in try_send_all env frames (a\<lparr>ac_encoder := c\<rparr>))
     | _ \<Rightarrow> a)"

definition end_after_input_failure :: "'c actor_env \<Rightarrow> engine_error \<Rightarrow> 'c actor \<Rightarrow> str \<times> 'c actor" where
  "end_after_input_failure env err a =
    (let said = env_next_event env (ac_log a); a1 = logged NextEvent a;
         failed = (let (reason, cause) = describe_engine_failure err
                   in (''engine failure: '' @ show_engine_error err, notify_end env reason cause a1))
     in case said of
          Some (Inr (Some event)) \<Rightarrow>
            (case event of
               Disconnected _ _ \<Rightarrow> (''target disconnected'', snd (on_target_event env event a1))
             | _ \<Rightarrow> failed)
        | _ \<Rightarrow> failed)"

text \<open>One turn of the loop; a reason ends it.\<close>

definition fail_step :: "'c actor_env \<Rightarrow> session_error \<Rightarrow> 'c actor \<Rightarrow> str option \<times> 'c actor" where
  "fail_step env err a =
    (case err of
       Engine e \<Rightarrow> (let (r, a') = end_after_input_failure env e a in (Some r, a'))
     | _ \<Rightarrow> (let (r, a') = end_after_failure env err a in (Some r, a')))"

definition loop_step :: "'c actor_env \<Rightarrow> loop_event \<Rightarrow> 'c actor \<Rightarrow> str option \<times> 'c actor" where
  "loop_step env ev a =
    (case ev of
       Command (Some (ClientInput instruction)) \<Rightarrow>
         (case on_client_input env instruction a of
            (Inr res, a1) \<Rightarrow> (res, a1)
          | (Inl err, a1) \<Rightarrow> fail_step env err a1)
     | Command (Some (GuestInput instruction)) \<Rightarrow>
         (case on_guest_input env instruction a of
            (Inr _, a1) \<Rightarrow> (None, a1)
          | (Inl err, a1) \<Rightarrow> fail_step env err a1)
     | Command (Some AttachObserver) \<Rightarrow> (None, logged Subscribe a)
     | Command (Some (Terminate reason)) \<Rightarrow> (Some reason, a)
     | Command None \<Rightarrow> (Some ''client disconnected'', a)
     | SyncTick \<Rightarrow>
         (case (case emit_sync env a of
                  (Inr _, a1) \<Rightarrow> call_checkpoint env a1
                | (Inl err, a1) \<Rightarrow> (Inl err, a1)) of
            (Inr _, a2) \<Rightarrow> (None, a2)
          | (Inl err, a2) \<Rightarrow> (let (r, a3) = end_after_failure env err a2 in (Some r, a3)))
     | TargetSays (Inr (Some event)) \<Rightarrow>
         (case on_target_event env event a of
            (Inl err, a1) \<Rightarrow> (let (r, a2) = end_after_failure env err a1 in (Some r, a2))
          | (Inr _, a1) \<Rightarrow>
              (case event of Disconnected _ _ \<Rightarrow> Some ''target disconnected'' | _ \<Rightarrow> None, a1))
     | TargetSays (Inr None) \<Rightarrow>
         (Some ''target closed the stream'', notify_end env ''The remote session has ended.'' Ended a)
     | TargetSays (Inl err) \<Rightarrow>
         (let (reason, cause) = describe_engine_failure err
          in (Some (''engine failure: '' @ show_engine_error err), notify_end env reason cause a)))"

text \<open>The actor is consumed by \<open>teardown\<close>: the streams still open are dropped with it.\<close>

definition drop_actor :: "'c actor \<Rightarrow> 'c actor" where
  "drop_actor a = a\<lparr>ac_clip := [], ac_guest := [],
     ac_process := ac_process a - held (ac_clip a) - held (ac_guest a)\<rparr>"

definition teardown :: "'c actor_env \<Rightarrow> 'c actor \<Rightarrow> (session_error + unit) \<times> 'c actor" where
  "teardown env a =
    (let a1 = logged Shutdown a;
         audit = (case env_finalize env (ac_log a1) of
                    Some r \<Rightarrow> r | None \<Rightarrow> Inl (Audit ''recording finalise timed out''));
         a2 = logged Finalize a1;
         (credential, a3) =
           (if ac_credential a2
            then (case env_revoke env (ac_log a2) of
                    Some r \<Rightarrow> r | None \<Rightarrow> Inl (PipelineClosed ''credential revoke timed out''),
                  logged Revoke a2)
            else (Inr (), a2))
     in (case credential of Inl e \<Rightarrow> Inl e | Inr _ \<Rightarrow> audit, drop_actor a3))"

text \<open>The loop over the turns it is given; a session that has not ended yet is \<open>None\<close>.\<close>

fun run_loop :: "'c actor_env \<Rightarrow> loop_event list \<Rightarrow> 'c actor \<Rightarrow> str option \<times> 'c actor" where
  "run_loop env [] a = (None, a)"
| "run_loop env (ev # evs) a =
    (case loop_step env ev a of (Some r, a') \<Rightarrow> (Some r, a') | (None, a') \<Rightarrow> run_loop env evs a')"

definition run_session ::
    "'c actor_env \<Rightarrow> loop_event list \<Rightarrow> 'c actor \<Rightarrow> (session_error + unit) option \<times> 'c actor" where
  "run_session env evs a =
    (case run_loop env evs a of
       (None, a') \<Rightarrow> (None, a')
     | (Some reason, a') \<Rightarrow> (let (r, a'') = teardown env a' in (Some r, a'')))"

end
