(* ===== verification/Actor_Limits.thy ===== *)
theory Actor_Limits
  imports Session_Actor
begin

text \<open>
  The limits the session actor keeps on what a client can make it hold: open streams, buffered bytes,
  the share of the process-wide clipboard counter, and the rate of opening streams.
\<close>

section \<open>What emitting leaves alone\<close>

definition same_streams :: "'c actor \<Rightarrow> 'c actor \<Rightarrow> bool" where
  "same_streams a b \<longleftrightarrow> ac_clip b = ac_clip a \<and> ac_guest b = ac_guest a \<and> ac_rate b = ac_rate a
     \<and> ac_process b = ac_process a \<and> ac_recording b = ac_recording a \<and> ac_credential b = ac_credential a"

lemma same_streams_refl [simp]: "same_streams a a"
  by (simp add: same_streams_def)

lemma same_streams_trans [trans]: "same_streams a b \<Longrightarrow> same_streams b c \<Longrightarrow> same_streams a c"
  by (simp add: same_streams_def)

lemma same_streams_and_do:
  assumes "same_streams a (snd p)" "\<And>x. same_streams (snd p) (snd (f x (snd p)))"
  shows "same_streams a (snd (and_do p f))"
  using assms by (auto simp: snd_and_do intro: same_streams_trans split: sum.split)

lemma call_record_keeps [simp]:
  "same_streams a (snd (call_record env r a))" "ac_uploads (snd (call_record env r a)) = ac_uploads a"
  by (simp_all add: call_record_def same_streams_def logged_def Let_def)

lemma call_input_keeps [simp]:
  "same_streams a (snd (call_input env i a))" "ac_uploads (snd (call_input env i a)) = ac_uploads a"
  by (simp_all add: call_input_def same_streams_def logged_def Let_def)

lemma emit_keeps [simp]:
  "same_streams a (snd (emit env f d o' a))" "ac_uploads (snd (emit env f d o' a)) = ac_uploads a"
  by (auto simp: emit_def same_streams_def logged_def call_record_def Let_def snd_and_do split: sum.split)

lemma emit_frames_keeps [simp]:
  "same_streams a (snd (emit_frames env fs d o' a)) \<and> ac_uploads (snd (emit_frames env fs d o' a)) = ac_uploads a"
proof (induction fs arbitrary: a)
  case Nil
  show ?case by simp
next
  case (Cons f fs)
  show ?case
    using Cons [of "snd (emit env f d o' a)"] emit_keeps
    by (auto simp: snd_and_do split: sum.split) (metis emit_keeps(1) same_streams_trans)
qed

lemma emit_sync_keeps [simp]:
  "same_streams a (snd (emit_sync env a))" "ac_uploads (snd (emit_sync env a)) = ac_uploads a"
  using emit_frames_keeps [of "a\<lparr>ac_encoder := c\<rparr>" env fs False False for c fs]
  by (simp_all add: emit_sync_def split_def same_streams_def Let_def)

lemma on_target_event_streams: "same_streams a (snd (on_target_event env ev a))"
proof -
  let ?a1 = "case ev of TFile (EAck stream _ status) \<Rightarrow>
      if status \<noteq> 0 then a\<lparr>ac_uploads := removeAll stream (ac_uploads a)\<rparr> else a | _ \<Rightarrow> a"
  have 1: "same_streams a ?a1"
    by (auto simp: same_streams_def split: target_event.split file_event.split)
  have 2: "same_streams a (?a1\<lparr>ac_encoder := c\<rparr>)" for c using 1 by (simp add: same_streams_def)
  show ?thesis
    unfolding on_target_event_def Let_def split_def
    by (intro same_streams_and_do emit_sync_keeps) (blast intro: same_streams_trans [OF 2] emit_frames_keeps [THEN conjunct1])
qed

lemma on_target_event_uploads:
  "ac_uploads (snd (on_target_event env ev a)) =
    (case ev of TFile (EAck s _ st) \<Rightarrow> if st \<noteq> 0 then removeAll s (ac_uploads a) else ac_uploads a
     | _ \<Rightarrow> ac_uploads a)"
  by (auto simp: on_target_event_def Let_def split_def snd_and_do
      split: sum.split target_event.split file_event.split)

lemma record_key_keeps [simp]:
  "same_streams a (snd (record_key env k p a))" "ac_uploads (snd (record_key env k p a)) = ac_uploads a"
  by (simp_all add: record_key_def same_streams_def logged_def call_record_def Let_def)

lemma deliver_keeps [simp]:
  "same_streams a (snd (deliver env i a))" "ac_uploads (snd (deliver env i a)) = ac_uploads a"
proof -
  show "same_streams a (snd (deliver env i a))"
    by (auto simp: deliver_def Let_def intro!: same_streams_and_do split: input_event.split)
  show "ac_uploads (snd (deliver env i a)) = ac_uploads a"
    by (auto simp: deliver_def Let_def snd_and_do split: input_event.split sum.split)
qed

lemma deliver_none_snd [simp]: "snd (deliver_none env i a) = snd (deliver env i a)"
  by (auto simp: deliver_none_def snd_and_do split: sum.split)

section \<open>The invariant\<close>

text \<open>The base64 decoder never returns more bytes than the documented estimate.\<close>

definition estimate_ok :: "'c actor_env \<Rightarrow> bool" where
  "estimate_ok env \<longleftrightarrow> (\<forall>d bs. b64_decode (env_crypto env) d = Some bs \<longrightarrow>
      length bs \<le> env_decoded_len_estimate env (length d))"

definition stream_sizes_ok :: "(i32, pending_clipboard) hmap \<Rightarrow> bool" where
  "stream_sizes_ok m \<longleftrightarrow> list_all (\<lambda>p. length (pc_data p) \<le> MAX_CLIPBOARD_BYTES) (hm_values m)"

definition limits_ok :: "'c actor \<Rightarrow> bool" where
  "limits_ok a \<longleftrightarrow>
     hm_wf (ac_clip a) \<and> hm_wf (ac_guest a)
   \<and> hm_len (ac_clip a) \<le> MAX_CLIPBOARD_STREAMS \<and> hm_len (ac_guest a) \<le> MAX_GUEST_CLIPBOARD_STREAMS
   \<and> distinct (ac_uploads a) \<and> length (ac_uploads a) \<le> MAX_UPLOAD_STREAMS
   \<and> list_all (\<lambda>s. hm_get s (ac_clip a) = None) (ac_uploads a)
   \<and> stream_sizes_ok (ac_clip a) \<and> stream_sizes_ok (ac_guest a)
   \<and> held (ac_clip a) + held (ac_guest a) \<le> MAX_CLIPBOARD_SESSION_BYTES
   \<and> held (ac_clip a) + held (ac_guest a) \<le> ac_process a
   \<and> or_tokens (ac_rate a) \<le> STREAM_OPEN_BURST"

lemma limits_ok_cong:
  "same_streams a b \<Longrightarrow> ac_uploads b = ac_uploads a \<Longrightarrow> limits_ok a \<Longrightarrow> limits_ok b"
  by (simp add: limits_ok_def same_streams_def)

lemma hm_values_remove: "set (hm_values (hm_remove k m)) \<subseteq> set (hm_values m)"
  by (auto simp: hm_values_def hm_remove_def)

lemma hm_values_retain: "set (hm_values (hm_retain P m)) \<subseteq> set (hm_values m)"
  by (auto simp: hm_values_def hm_retain_def)

lemma hm_values_insert: "set (hm_values (hm_insert k v m)) \<subseteq> insert v (set (hm_values m))"
  by (auto simp: hm_values_def hm_insert_def hm_remove_def)

lemma held_remove: "hm_wf m \<Longrightarrow> hm_get k m = Some p \<Longrightarrow> held m = length (pc_data p) + held (hm_remove k m)"
  unfolding held_def by (rule hm_sum_remove)

lemma held_insert: "held (hm_insert k p m) = length (pc_data p) + held (hm_remove k m)"
  unfolding held_def by (rule hm_sum_insert)

lemma held_retain: "held (hm_retain P m) \<le> held m"
  unfolding held_def by (rule hm_sum_retain_le)

lemma streams_of_set [simp]:
  "streams_of g (set_streams g m a) = m" "ac_uploads (set_streams g m a) = ac_uploads a"
  "ac_process (set_streams g m a) = ac_process a" "ac_rate (set_streams g m a) = ac_rate a"
  "ac_log (set_streams g m a) = ac_log a"
  by (simp_all add: streams_of_def set_streams_def)

text \<open>Replacing one stream table by a smaller one, with the counter following.\<close>

lemma limits_ok_shrink:
  assumes "limits_ok a" "hm_wf m" "hm_len m \<le> hm_len (streams_of g a)" "held m \<le> held (streams_of g a)"
    "set (hm_values m) \<subseteq> set (hm_values (streams_of g a))"
    "\<And>k. hm_get k (streams_of g a) = None \<Longrightarrow> hm_get k m = None"
    "ac_process a - (held (streams_of g a) - held m) \<le> n"
  shows "limits_ok ((set_streams g m a)\<lparr>ac_process := n\<rparr>)"
  using assms
  by (cases g) (auto simp: limits_ok_def streams_of_def set_streams_def stream_sizes_ok_def list_all_iff)

lemma hm_get_retain_None: "hm_wf m \<Longrightarrow> hm_get k m = None \<Longrightarrow> hm_get k (hm_retain P m) = None"
  by (simp add: hm_get_retain)

lemma limits_ok_wf: "limits_ok a \<Longrightarrow> hm_wf (streams_of g a)"
  by (simp add: limits_ok_def streams_of_def)

lemma drop_stream_limits: "limits_ok a \<Longrightarrow> limits_ok (drop_stream g s a)"
proof -
  assume ok: "limits_ok a"
  note wf = limits_ok_wf [OF ok, of g]
  show ?thesis
  proof (cases "hm_get s (streams_of g a)")
    case None
    with ok show ?thesis by (simp add: drop_stream_def)
  next
    case (Some p)
    have h: "held (streams_of g a) = length (pc_data p) + held (hm_remove s (streams_of g a))"
      by (rule held_remove [OF wf Some])
    show ?thesis unfolding drop_stream_def Some option.case
      by (rule limits_ok_shrink [OF ok]) (use wf h in \<open>auto dest: subsetD [OF hm_values_remove]\<close>)
  qed
qed

lemma take_stream_limits: "limits_ok a \<Longrightarrow> limits_ok (snd (take_stream g s a))"
proof -
  assume ok: "limits_ok a"
  note wf = limits_ok_wf [OF ok, of g]
  show ?thesis
  proof (cases "hm_get s (streams_of g a)")
    case None
    with ok show ?thesis by (simp add: take_stream_def)
  next
    case (Some p)
    have h: "held (streams_of g a) = length (pc_data p) + held (hm_remove s (streams_of g a))"
      by (rule held_remove [OF wf Some])
    show ?thesis unfolding take_stream_def Some option.case Let_def snd_conv
      by (rule limits_ok_shrink [OF ok]) (use wf h in \<open>auto dest: subsetD [OF hm_values_remove]\<close>)
  qed
qed

lemma drop_idle_limits: "limits_ok a \<Longrightarrow> limits_ok (drop_idle g now a)"
  unfolding drop_idle_def Let_def
  by (rule limits_ok_shrink) (use limits_ok_wf [of a g] held_retain in
      \<open>auto simp: hm_get_retain_None dest: subsetD [OF hm_values_retain]\<close>)

lemma open_rate_take_burst: "or_tokens (snd (open_rate_take now r)) \<le> STREAM_OPEN_BURST"
  by (auto simp: open_rate_take_def Let_def)

lemma hm_contains_iff: "hm_contains k m \<longleftrightarrow> hm_get k m \<noteq> None"
  by (simp add: hm_contains_def)

lemma drop_idle_other:
  "ac_uploads (drop_idle g now a) = ac_uploads a" "ac_log (drop_idle g now a) = ac_log a"
  by (simp_all add: drop_idle_def Let_def)

definition stream_limit :: "bool \<Rightarrow> nat" where
  "stream_limit g = (if g then MAX_GUEST_CLIPBOARD_STREAMS else MAX_CLIPBOARD_STREAMS)"

lemma hm_len_insert_present: "hm_get k m \<noteq> None \<Longrightarrow> hm_len (hm_insert k v m) \<le> hm_len m"
proof -
  assume "hm_get k m \<noteq> None"
  then obtain v' where "(k, v') \<in> set m" using hm_get_in by fastforce
  then have "length (filter (\<lambda>(k', _). k' \<noteq> k) m) < length m" by (auto intro: length_filter_less)
  then show ?thesis by (simp add: hm_len_def hm_insert_def hm_remove_def)
qed

text \<open>Writing one stream of a table, with the counter following.\<close>

lemma limits_ok_insert:
  assumes "limits_ok a" "length (pc_data p) \<le> MAX_CLIPBOARD_BYTES"
    "hm_get s (streams_of g a) \<noteq> None \<or>
     hm_len (streams_of g a) < stream_limit g \<and> (g \<or> s \<notin> set (ac_uploads a))"
    "length (pc_data p) + held (hm_remove s (streams_of g a)) + held (streams_of (\<not> g) a) \<le> MAX_CLIPBOARD_SESSION_BYTES"
    "length (pc_data p) + held (hm_remove s (streams_of g a)) + held (streams_of (\<not> g) a) \<le> n"
  shows "limits_ok ((set_streams g (hm_insert s p (streams_of g a)) a)\<lparr>ac_process := n\<rparr>)"
proof -
  let ?m = "hm_insert s p (streams_of g a)"
  have w: "hm_wf ?m" using limits_ok_wf [OF assms(1)] by simp
  have l: "hm_len ?m \<le> stream_limit g"
  proof (cases "hm_get s (streams_of g a) = None")
    case True
    have "hm_len ?m \<le> Suc (hm_len (streams_of g a))" by (rule hm_len_insert_le)
    with True assms(3) show ?thesis by linarith
  next
    case False
    then show ?thesis using hm_len_insert_present [of s "streams_of g a" p] assms(1)
      by (auto simp: limits_ok_def streams_of_def stream_limit_def split: if_splits)
  qed
  have z: "stream_sizes_ok ?m"
    using hm_values_insert [of s p "streams_of g a"] assms(1,2)
    by (auto simp: stream_sizes_ok_def list_all_iff limits_ok_def streams_of_def split: if_splits)
  have u: "list_all (\<lambda>k. hm_get k ?m = None) (ac_uploads a)" if "\<not> g"
    using that assms(1,3) by (auto simp: limits_ok_def streams_of_def list_all_iff)
  from w l z u assms(1,4,5) show ?thesis
    by (cases g) (simp_all add: limits_ok_def streams_of_def set_streams_def stream_limit_def held_insert add.commute)
qed

lemma limits_ok_held:
  "limits_ok a \<Longrightarrow> held (streams_of g a) + held (streams_of (\<not> g) a) \<le> MAX_CLIPBOARD_SESSION_BYTES"
  "limits_ok a \<Longrightarrow> held (streams_of g a) + held (streams_of (\<not> g) a) \<le> ac_process a"
  by (cases g; simp add: limits_ok_def streams_of_def add.commute)+

lemma open_clipboard_limits:
  assumes "limits_ok a"
  shows "limits_ok (snd (open_clipboard env s g a))"
proof -
  define now where "now = env_instant env (ac_log a)"
  define a1 where "a1 = drop_idle g now a"
  define rate where "rate = snd (open_rate_take now (ac_rate a1))"
  define a2 where "a2 = a1\<lparr>ac_rate := rate\<rparr>"
  have 1: "limits_ok a1" unfolding a1_def by (rule drop_idle_limits [OF assms])
  have 2: "limits_ok a2"
    using 1 open_rate_take_burst [of now "ac_rate a1"] by (simp add: limits_ok_def rate_def a2_def)
  have st: "streams_of h a2 = streams_of h a1" for h by (simp add: a2_def streams_of_def)
  have 3: "limits_ok (set_streams g (hm_insert s \<lparr>pc_data = [], pc_touched = now\<rparr> (streams_of g a2)) a2)"
    if "g \<or> \<not> stream_in_use s a" "hm_get s (streams_of g a1) = None" "hm_len (streams_of g a1) < stream_limit g"
  proof -
    have rm: "hm_remove s (streams_of g a2) = streams_of g a2" using that(2) st by (simp add: hm_remove_absent)
    have up: "g \<or> s \<notin> set (ac_uploads a2)"
      using that(1) by (auto simp: stream_in_use_def a2_def a1_def drop_idle_other)
    have "limits_ok ((set_streams g (hm_insert s \<lparr>pc_data = [], pc_touched = now\<rparr> (streams_of g a2)) a2)
        \<lparr>ac_process := ac_process a2\<rparr>)"
      by (rule limits_ok_insert [OF 2])
        (use that(3) st up rm limits_ok_held [OF 2, of g] in simp_all)
    then show ?thesis by (cases g) (simp_all add: set_streams_def)
  qed
  have eq: "snd (open_clipboard env s g a) =
    (if \<not> g \<and> stream_in_use s a then a
     else if hm_get s (streams_of g a1) \<noteq> None \<or> stream_limit g \<le> hm_len (streams_of g a1) then a1
     else if \<not> fst (open_rate_take now (ac_rate a1)) then a2
     else set_streams g (hm_insert s \<lparr>pc_data = [], pc_touched = now\<rparr> (streams_of g a2)) a2)"
    by (simp add: open_clipboard_def Let_def split_def hm_contains_iff stream_limit_def now_def a1_def rate_def a2_def)
  show ?thesis unfolding eq using assms 1 2 3 by (cases g) (auto simp: not_le)
qed

lemma append_clipboard_limits:
  assumes "limits_ok a" "estimate_ok env"
  shows "limits_ok (snd (append_clipboard env s d g a))"
proof (cases "hm_get s (streams_of g a)")
  case None
  with assms show ?thesis by (simp add: append_clipboard_def)
next
  case (Some p)
  define inc where "inc = env_decoded_len_estimate env (length d)"
  define big where "big \<longleftrightarrow> length (pc_data p) + inc > MAX_CLIPBOARD_BYTES
      \<or> held (ac_clip a) + held (ac_guest a) + inc > MAX_CLIPBOARD_SESSION_BYTES"
  have h: "held (streams_of g a) = length (pc_data p) + held (hm_remove s (streams_of g a))"
    by (rule held_remove [OF limits_ok_wf [OF assms(1)] Some])
  have tot: "held (streams_of g a) + held (streams_of (\<not> g) a) = held (ac_clip a) + held (ac_guest a)"
    by (simp add: streams_of_def)
  have 3: "limits_ok ((set_streams g (hm_insert s \<lparr>pc_data = pc_data p @ bs, pc_touched = t\<rparr> (streams_of g a)) a)
        \<lparr>ac_process := ac_process a + length bs\<rparr>)"
    if "\<not> big" "b64_decode (env_crypto env) d = Some bs" for bs t
  proof (rule limits_ok_insert [OF assms(1)])
    have "length bs \<le> inc" using assms(2) that(2) by (auto simp: estimate_ok_def inc_def)
    with that(1) h tot limits_ok_held [OF assms(1), of g] Some
    show "length (pc_data \<lparr>pc_data = pc_data p @ bs, pc_touched = t\<rparr>) \<le> MAX_CLIPBOARD_BYTES"
      "hm_get s (streams_of g a) \<noteq> None \<or> hm_len (streams_of g a) < stream_limit g \<and> (g \<or> s \<notin> set (ac_uploads a))"
      "length (pc_data \<lparr>pc_data = pc_data p @ bs, pc_touched = t\<rparr>) + held (hm_remove s (streams_of g a))
         + held (streams_of (\<not> g) a) \<le> MAX_CLIPBOARD_SESSION_BYTES"
      "length (pc_data \<lparr>pc_data = pc_data p @ bs, pc_touched = t\<rparr>) + held (hm_remove s (streams_of g a))
         + held (streams_of (\<not> g) a) \<le> ac_process a + length bs"
      by (auto simp: big_def)
  qed
  show ?thesis
    using drop_stream_limits [OF assms(1), of g s] 3 Some
    by (auto simp: append_clipboard_def Let_def big_def simp flip: inc_def split: option.split)
qed

section \<open>Every handler keeps the limits\<close>

lemma on_target_event_limits: "limits_ok a \<Longrightarrow> limits_ok (snd (on_target_event env ev a))"
proof -
  assume ok: "limits_ok a"
  have l: "length (removeAll x xs) \<le> length xs" for x and xs :: "i32 list" by (simp add: removeAll_filter_not_eq)
  have "distinct (ac_uploads (snd (on_target_event env ev a)))"
    "length (ac_uploads (snd (on_target_event env ev a))) \<le> MAX_UPLOAD_STREAMS"
    "list_all (\<lambda>s. hm_get s (ac_clip a) = None) (ac_uploads (snd (on_target_event env ev a)))"
    using ok l order_trans [OF l]
    by (auto simp: on_target_event_uploads limits_ok_def list_all_iff distinct_removeAll split: target_event.split file_event.split)
  with ok on_target_event_streams [of a env ev] show ?thesis by (simp add: limits_ok_def same_streams_def)
qed

lemma deliver_limits: "limits_ok a \<Longrightarrow> limits_ok (snd (deliver env i a))"
  by (rule limits_ok_cong [OF deliver_keeps])

lemma refuse_limits: "limits_ok a \<Longrightarrow> limits_ok (snd (refuse env s r a))"
  by (simp add: refuse_def on_target_event_limits)

lemma refuse_opt_limits: "limits_ok (snd p) \<Longrightarrow> limits_ok (snd (refuse_opt env s p))"
  using refuse_limits by (auto simp: refuse_opt_def snd_and_do split: prod.split option.split sum.split)

lemma rate_limits: "limits_ok a \<Longrightarrow> limits_ok (a\<lparr>ac_rate := snd (open_rate_take now r)\<rparr>)"
  using open_rate_take_burst [of now r] by (simp add: limits_ok_def)

lemma uploads_remove_limits: "limits_ok a \<Longrightarrow> limits_ok (a\<lparr>ac_uploads := removeAll s (ac_uploads a)\<rparr>)"
  using order_trans [OF length_filter_le]
  by (auto simp: limits_ok_def list_all_iff removeAll_filter_not_eq)

lemma uploads_insert_limits:
  "limits_ok a \<Longrightarrow> \<not> stream_in_use s a \<Longrightarrow> length (ac_uploads a) < MAX_UPLOAD_STREAMS \<Longrightarrow>
   limits_ok (a\<lparr>ac_rate := snd (open_rate_take now r), ac_uploads := List.insert s (ac_uploads a)\<rparr>)"
  using open_rate_take_burst [of now r]
  by (auto simp: limits_ok_def stream_in_use_def list_all_iff hm_contains_iff List.insert_def)

lemma on_client_input_limits:
  assumes "limits_ok a" "estimate_ok env"
  shows "limits_ok (snd (on_client_input env i a))"
proof (cases i)
  case (CClipboard s m)
  then show ?thesis using assms
    by (auto simp: on_client_input_def intro!: refuse_opt_limits open_clipboard_limits)
next
  case (CBlob s d)
  then show ?thesis using assms
    by (auto simp: on_client_input_def deliver_limits intro!: refuse_opt_limits append_clipboard_limits split: option.split)
next
  case (CEnd s)
  then show ?thesis using assms take_stream_limits [of a False s]
    by (auto simp: on_client_input_def deliver_limits uploads_remove_limits split: prod.split option.split)
next
  case (CGet ob n)
  then show ?thesis using assms
    by (auto simp: on_client_input_def Let_def split_def deliver_limits rate_limits)
next
  case (CPut ob s m n)
  then show ?thesis using assms
    by (auto simp: on_client_input_def Let_def split_def intro!: refuse_opt_limits deliver_limits rate_limits uploads_insert_limits)
qed (use assms in \<open>simp_all add: on_client_input_def deliver_limits\<close>)

lemma on_guest_input_limits:
  assumes "limits_ok a" "estimate_ok env"
  shows "limits_ok (snd (on_guest_input env i a))"
proof (cases i)
  case (CEnd s)
  then show ?thesis using assms take_stream_limits [of a True s]
    by (auto simp: on_guest_input_def deliver_limits split: prod.split option.split)
qed (use assms in \<open>simp_all add: on_guest_input_def deliver_limits open_clipboard_limits append_clipboard_limits\<close>)

lemma try_send_all_keeps [simp]:
  "same_streams a (try_send_all env fs a) \<and> ac_uploads (try_send_all env fs a) = ac_uploads a"
proof (induction fs arbitrary: a)
  case Nil
  show ?case by simp
next
  case (Cons f fs)
  let ?b = "logged (TrySend f (env_try_send env (ac_log a) f)) a"
  have "same_streams a ?b" "ac_uploads ?b = ac_uploads a" by (simp_all add: logged_def same_streams_def)
  with Cons [of ?b] show ?case by (auto intro: same_streams_trans)
qed

lemma logged_limits [simp]: "limits_ok (logged act a) = limits_ok a"
  by (simp add: logged_def limits_ok_def)

lemma end_after_failure_limits: "limits_ok a \<Longrightarrow> limits_ok (snd (end_after_failure env err a))"
proof -
  assume ok: "limits_ok a"
  then have "limits_ok (a\<lparr>ac_encoder := c\<rparr>)" for c by (simp add: limits_ok_def)
  then have "limits_ok (try_send_all env fs (a\<lparr>ac_encoder := c\<rparr>))" for c fs
    using limits_ok_cong [OF conjunct1 [OF try_send_all_keeps] conjunct2 [OF try_send_all_keeps]] by blast
  with ok show ?thesis by (simp add: end_after_failure_def split_def Let_def split: session_error.split)
qed

lemma notify_end_limits: "limits_ok a \<Longrightarrow> limits_ok (notify_end env r c a)"
  by (simp add: notify_end_def on_target_event_limits)

lemma end_after_input_failure_limits: "limits_ok a \<Longrightarrow> limits_ok (snd (end_after_input_failure env err a))"
  by (auto simp: end_after_input_failure_def Let_def split_def notify_end_limits on_target_event_limits
      split: option.split sum.split target_event.split)

lemma fail_step_limits: "limits_ok a \<Longrightarrow> limits_ok (snd (fail_step env err a))"
  using end_after_failure_limits [of a env err] end_after_input_failure_limits [of a env]
  by (auto simp: fail_step_def split_def Let_def split: session_error.split)

lemma call_checkpoint_limits: "limits_ok a \<Longrightarrow> limits_ok (snd (call_checkpoint env a))"
  by (simp add: call_checkpoint_def Let_def)

lemma emit_sync_limits: "limits_ok a \<Longrightarrow> limits_ok (snd (emit_sync env a))"
  by (rule limits_ok_cong [OF emit_sync_keeps])

lemma loop_step_simps [actor_simps]:
  "loop_step env (Command (Some (ClientInput i))) a =
    (case fst (on_client_input env i a) of
       Inr res \<Rightarrow> (res, snd (on_client_input env i a))
     | Inl err \<Rightarrow> fail_step env err (snd (on_client_input env i a)))"
  "loop_step env (Command (Some (GuestInput i))) a =
    (case fst (on_guest_input env i a) of
       Inr _ \<Rightarrow> (None, snd (on_guest_input env i a))
     | Inl err \<Rightarrow> fail_step env err (snd (on_guest_input env i a)))"
  "loop_step env (Command (Some AttachObserver)) a = (None, logged Subscribe a)"
  "loop_step env (Command (Some (Terminate r))) a = (Some r, a)"
  "loop_step env (Command None) a = (Some ''client disconnected'', a)"
  "loop_step env SyncTick a =
    (let a1 = snd (emit_sync env a) in
     case fst (emit_sync env a) of
       Inl err \<Rightarrow> (Some (fst (end_after_failure env err a1)), snd (end_after_failure env err a1))
     | Inr _ \<Rightarrow>
         (let a2 = snd (call_checkpoint env a1) in
          case fst (call_checkpoint env a1) of
            Inr _ \<Rightarrow> (None, a2)
          | Inl err \<Rightarrow> (Some (fst (end_after_failure env err a2)), snd (end_after_failure env err a2))))"
  "loop_step env (TargetSays (Inr (Some ev))) a =
    (let a1 = snd (on_target_event env ev a) in
     case fst (on_target_event env ev a) of
       Inl err \<Rightarrow> (Some (fst (end_after_failure env err a1)), snd (end_after_failure env err a1))
     | Inr _ \<Rightarrow> (case ev of Disconnected _ _ \<Rightarrow> Some ''target disconnected'' | _ \<Rightarrow> None, a1))"
  "loop_step env (TargetSays (Inr None)) a =
    (Some ''target closed the stream'', notify_end env ''The remote session has ended.'' Ended a)"
  "loop_step env (TargetSays (Inl err)) a =
    (Some (''engine failure: '' @ show_engine_error err),
     notify_end env (fst (describe_engine_failure err)) (snd (describe_engine_failure err)) a)"
  by (simp_all add: loop_step_def Let_def split_def split: prod.split sum.split)

lemma loop_event_cases:
  obtains i where "ev = Command (Some (ClientInput i))" | i where "ev = Command (Some (GuestInput i))"
  | "ev = Command (Some AttachObserver)" | r where "ev = Command (Some (Terminate r))" | "ev = Command None"
  | "ev = SyncTick" | e where "ev = TargetSays (Inr (Some e))" | "ev = TargetSays (Inr None)"
  | err where "ev = TargetSays (Inl err)"
  by (metis loop_event.exhaust option.exhaust session_command.exhaust sum.exhaust)

lemma loop_step_limits:
  assumes "limits_ok a" "estimate_ok env"
  shows "limits_ok (snd (loop_step env ev a))"
proof (cases ev rule: loop_event_cases)
  case (1 i)
  then show ?thesis using on_client_input_limits [OF assms, of i]
    by (simp add: actor_simps fail_step_limits split: sum.split)
next
  case (2 i)
  then show ?thesis using on_guest_input_limits [OF assms, of i]
    by (simp add: actor_simps fail_step_limits split: sum.split)
next
  case 6
  then show ?thesis using emit_sync_limits [OF assms(1), of env]
    by (simp add: actor_simps Let_def end_after_failure_limits call_checkpoint_limits split: sum.split)
next
  case (7 e)
  then show ?thesis using on_target_event_limits [OF assms(1), of env e]
    by (simp add: actor_simps Let_def end_after_failure_limits split: sum.split)
qed (use assms in \<open>simp_all add: actor_simps notify_end_limits\<close>)

lemma run_loop_limits: "limits_ok a \<Longrightarrow> estimate_ok env \<Longrightarrow> limits_ok (snd (run_loop env evs a))"
proof (induction evs arbitrary: a)
  case Nil
  then show ?case by simp
next
  case (Cons ev evs)
  have "limits_ok (snd (loop_step env ev a))" by (rule loop_step_limits [OF Cons.prems])
  with Cons show ?case by (cases "loop_step env ev a"; cases "fst (loop_step env ev a)") simp_all
qed

lemma actor_new_limits: "limits_ok (actor_new env c p cred)"
  by (simp add: limits_ok_def actor_new_def hm_len_def held_def hm_values_def stream_sizes_ok_def open_rate_new_def
      bound_simps)

section \<open>The rate of opening streams\<close>

fun grants :: "nat list \<Rightarrow> open_rate \<Rightarrow> nat" where
  "grants [] r = 0"
| "grants (t # ts) r = (let (ok, r') = open_rate_take t r in (if ok then 1 else 0) + grants ts r')"

lemma grants_bound:
  "sorted (or_refilled r # ts) \<Longrightarrow>
   grants ts r * 10 ^ 9 \<le> or_tokens r + 8 * (last (or_refilled r # ts) - or_refilled r)"
proof (induction ts arbitrary: r)
  case Nil
  then show ?case by simp
next
  case (Cons t ts)
  define r' where "r' = snd (open_rate_take t r)"
  have f: "or_refilled r' = t" by (auto simp: r'_def open_rate_take_def Let_def)
  have "sorted (or_refilled r' # ts)" using Cons.prems f by simp
  note IH = Cons.IH [OF this]
  have le: "or_refilled r \<le> t" using Cons.prems by simp
  have last: "last (or_refilled r' # ts) = last (or_refilled r # t # ts)" using f by simp
  have "t \<le> last (t # ts)" using Cons.prems last_in_set [of ts] by (cases "ts = []") auto
  moreover have "(if fst (open_rate_take t r) then 10 ^ 9 else 0) + or_tokens r' \<le> or_tokens r + 8 * (t - or_refilled r)"
    by (auto simp: r'_def open_rate_take_def Let_def STREAM_OPENS_PER_SEC_def)
  ultimately show ?case
    using IH f le last by (auto simp: Let_def split_def r'_def [symmetric] split: if_splits)
qed

section \<open>The process counter\<close>

text \<open>What the session has added to the process-wide counter beyond the bytes it still holds.\<close>

definition leaked :: "'c actor \<Rightarrow> nat" where
  "leaked a = ac_process a - (held (ac_clip a) + held (ac_guest a))"

lemma leaked_cong: "same_streams a b \<Longrightarrow> leaked b = leaked a"
  by (simp add: leaked_def same_streams_def)

lemma take_stream_leaks:
  assumes "limits_ok a" "hm_get s (streams_of g a) = Some p"
  shows "fst (take_stream g s a) = Some (pc_data p)"
    "leaked (snd (take_stream g s a)) = leaked a + length (pc_data p)"
proof -
  show "fst (take_stream g s a) = Some (pc_data p)" using assms(2) by (simp add: take_stream_def)
  have "held (streams_of g a) = length (pc_data p) + held (hm_remove s (streams_of g a))"
    by (rule held_remove [OF limits_ok_wf [OF assms(1)] assms(2)])
  with limits_ok_held(2) [OF assms(1), of g] assms(2)
  show "leaked (snd (take_stream g s a)) = leaked a + length (pc_data p)"
    by (cases g) (simp_all add: leaked_def take_stream_def set_streams_def streams_of_def)
qed

end
