(* ===== verification/Actor_Recording.thy ===== *)
theory Actor_Recording
  imports Actor_Limits
begin

text \<open>
  What the session actor records and when: every frame is written to the recording before an observer
  or the client sees it, screen content is kept out of the recording when the policy says so, and the
  teardown runs every step once.
\<close>

section \<open>Reading the history\<close>

fun recorded_frames :: "history \<Rightarrow> client_frame list" where
  "recorded_frames [] = []"
| "recorded_frames (Record r ok # h) = (if ok then [ar_frame r] else []) @ recorded_frames h"
| "recorded_frames (_ # h) = recorded_frames h"

fun client_frames :: "history \<Rightarrow> client_frame list" where
  "client_frames [] = []"
| "client_frames (Send f ok # h) = (if ok then [f] else []) @ client_frames h"
| "client_frames (TrySend f ok # h) = (if ok then [f] else []) @ client_frames h"
| "client_frames (_ # h) = client_frames h"

fun observed_frames :: "history \<Rightarrow> client_frame list" where
  "observed_frames [] = []"
| "observed_frames (Broadcast s # h) = sf_frame s # observed_frames h"
| "observed_frames (_ # h) = observed_frames h"

fun recording_failed :: "history \<Rightarrow> bool" where
  "recording_failed [] = False"
| "recording_failed (Record r ok # h) \<longleftrightarrow> \<not> ok \<or> recording_failed h"
| "recording_failed (Checkpoint ok # h) \<longleftrightarrow> \<not> ok \<or> recording_failed h"
| "recording_failed (_ # h) \<longleftrightarrow> recording_failed h"

lemma frames_append [simp]:
  "recorded_frames (h @ h') = recorded_frames h @ recorded_frames h'"
  "client_frames (h @ h') = client_frames h @ client_frames h'"
  "observed_frames (h @ h') = observed_frames h @ observed_frames h'"
  "recording_failed (h @ h') \<longleftrightarrow> recording_failed h \<or> recording_failed h'"
proof -
  show "recorded_frames (h @ h') = recorded_frames h @ recorded_frames h'"
    by (induction h rule: recorded_frames.induct) simp_all
  show "client_frames (h @ h') = client_frames h @ client_frames h'"
    by (induction h rule: client_frames.induct) simp_all
  show "observed_frames (h @ h') = observed_frames h @ observed_frames h'"
    by (induction h rule: observed_frames.induct) simp_all
  show "recording_failed (h @ h') \<longleftrightarrow> recording_failed h \<or> recording_failed h'"
    by (induction h rule: recording_failed.induct) simp_all
qed

fun neutral :: "action \<Rightarrow> bool" where
  "neutral (Broadcast _) = False"
| "neutral (Send _ _) = False"
| "neutral (TrySend _ _) = False"
| "neutral _ = True"

definition sends :: "action \<Rightarrow> client_frame \<Rightarrow> bool" where
  "sends act f \<longleftrightarrow> (\<exists>ok. act = Send f ok \<or> act = TrySend f ok)"

text \<open>
  Histories in which every frame leaves the actor right after it was recorded; the one exception is the
  notice sent once recording has failed.
\<close>

inductive audited :: "history \<Rightarrow> bool" where
  audited_Nil: "audited []"
| audited_neutral: "audited h \<Longrightarrow> neutral act \<Longrightarrow> audited (h @ [act])"
| audited_frame: "audited h \<Longrightarrow> sf_frame s = ar_frame r \<Longrightarrow> sf_seq s = ar_seq r \<Longrightarrow> sends act (ar_frame r) \<Longrightarrow>
    audited (h @ [Record r True, Broadcast s, act])"
| audited_notice: "audited h \<Longrightarrow> recording_failed h \<Longrightarrow> audited (h @ [TrySend f ok])"

definition delivered_after_recorded :: "history \<Rightarrow> bool" where
  "delivered_after_recorded h \<longleftrightarrow>
    subseq (client_frames h) (recorded_frames h) \<and> subseq (observed_frames h) (recorded_frames h)"

lemma dar_neutral: "neutral act \<Longrightarrow> delivered_after_recorded h \<Longrightarrow> delivered_after_recorded (h @ [act])"
  by (cases act) (auto simp: delivered_after_recorded_def intro: subseq_rev_drop_many)

lemma audited_prefix:
  "audited h \<Longrightarrow> prefix p h \<Longrightarrow> \<not> recording_failed p \<Longrightarrow> delivered_after_recorded p"
proof (induction h arbitrary: p rule: audited.induct)
  case audited_Nil
  then show ?case by (simp add: delivered_after_recorded_def)
next
  case (audited_neutral h act)
  then show ?case by (auto simp: dar_neutral)
next
  case (audited_frame h s r act)
  have h: "\<not> recording_failed h \<Longrightarrow> delivered_after_recorded h" using audited_frame.IH [of h] by simp
  have eq: "h @ [Record r True, Broadcast s, act] = ((h @ [Record r True]) @ [Broadcast s]) @ [act]" by simp
  from audited_frame.prems(1) consider "prefix p h" | "p = h @ [Record r True]"
    | "p = (h @ [Record r True]) @ [Broadcast s]" | "p = ((h @ [Record r True]) @ [Broadcast s]) @ [act]"
    unfolding eq by (auto simp only: prefix_snoc)
  then show ?case
  proof cases
    case 1
    with audited_frame show ?thesis by blast
  qed (use audited_frame.hyps audited_frame.prems(2) h in \<open>auto simp: delivered_after_recorded_def sends_def
      intro: subseq_rev_drop_many\<close>)
next
  case (audited_notice h f ok)
  then show ?case by auto
qed

section \<open>Every operation keeps the history audited\<close>

definition audit_good :: "(session_error + 'r) \<times> 'c actor \<Rightarrow> bool" where
  "audit_good p \<longleftrightarrow> audited (ac_log (snd p)) \<and> exclude_output (ac_recording (snd p)) = False
    \<and> (\<forall>e. fst p = Inl (Audit e) \<longrightarrow> recording_failed (ac_log (snd p)))"

definition audit_state :: "'c actor \<Rightarrow> bool" where
  "audit_state a \<longleftrightarrow> audited (ac_log a) \<and> exclude_output (ac_recording a) = False"

lemma audit_good_Inr [simp]: "audit_good (Inr x, a) \<longleftrightarrow> audit_state a"
  by (simp add: audit_good_def audit_state_def)

lemma audit_good_state: "audit_good p \<Longrightarrow> audit_state (snd p)"
  by (simp add: audit_good_def audit_state_def)

lemma audit_good_and_do:
  assumes "audit_good p" "\<And>x. fst p = Inr x \<Longrightarrow> audit_state (snd p) \<Longrightarrow> audit_good (f x (snd p))"
  shows "audit_good (and_do p f)"
  using assms by (cases p; cases "fst p") (auto simp: audit_good_def audit_state_def)

lemma audit_state_fields [simp]:
  "audit_state (a\<lparr>ac_encoder := c\<rparr>) = audit_state a" "audit_state (a\<lparr>ac_seq := n\<rparr>) = audit_state a"
  "audit_state (a\<lparr>ac_dropped := m\<rparr>) = audit_state a" "audit_state (a\<lparr>ac_uploads := u\<rparr>) = audit_state a"
  "audit_state (a\<lparr>ac_rate := r\<rparr>) = audit_state a" "audit_state (a\<lparr>ac_process := k\<rparr>) = audit_state a"
  "audit_state (a\<lparr>ac_clip := x\<rparr>) = audit_state a" "audit_state (a\<lparr>ac_guest := x\<rparr>) = audit_state a"
  "audit_state (set_streams g x a) = audit_state a"
  by (simp_all add: audit_state_def set_streams_def)

lemma audit_state_neutral: "audit_state a \<Longrightarrow> neutral act \<Longrightarrow> audit_state (logged act a)"
  by (simp add: audit_state_def logged_def audited_neutral)

lemma is_ok_Inl [simp]: "is_ok (r :: 'e + unit) = (r = Inr ())"
  by (cases r) simp_all

lemma call_record_good: "audit_state a \<Longrightarrow> audit_good (call_record env r a)"
  by (auto simp: audit_good_def audit_state_def call_record_def logged_def Let_def intro!: audited_neutral)

lemma call_checkpoint_good: "audit_state a \<Longrightarrow> audit_good (call_checkpoint env a)"
  by (auto simp: audit_good_def audit_state_def call_checkpoint_def logged_def Let_def intro!: audited_neutral)

lemma call_input_good: "audit_state a \<Longrightarrow> audit_good (call_input env i a)"
  by (cases "env_handle_input env (ac_log a) i")
    (auto simp: audit_good_def audit_state_def call_input_def logged_def Let_def intro!: audited_neutral)

lemma emit_good:
  assumes "audit_state a"
  shows "audit_good (emit env f d out a)"
proof -
  let ?r = "\<lparr>ar_seq = ac_seq a, ar_timestamp_ms = env_now_ms env (ac_log a), ar_frame = f\<rparr>"
  let ?s = "\<lparr>sf_seq = ac_seq a, sf_timestamp_ms = env_now_ms env (ac_log a), sf_frame = f\<rparr>"
  show ?thesis
  proof (cases "env_record env (ac_log a) ?r = Inr ()")
    case True
    have "audited (ac_log a @ [Record ?r True, Broadcast ?s, act])" if "sends act f" for act
      using assms that by (intro audited_frame) (simp_all add: audit_state_def)
    from this [of "Send f b" for b] this [of "TrySend f b" for b] show ?thesis
      using assms True
      by (auto simp: emit_def Let_def call_record_def logged_def audit_good_def audit_state_def sends_def)
  next
    case False
    then obtain e where "env_record env (ac_log a) ?r = Inl e" by (cases "env_record env (ac_log a) ?r") auto
    with assms show ?thesis
      by (auto simp: emit_def Let_def call_record_def logged_def audit_good_def audit_state_def intro!: audited_neutral)
  qed
qed

lemma emit_frames_good: "audit_state a \<Longrightarrow> audit_good (emit_frames env fs d out a)"
  by (induction fs arbitrary: a) (auto intro!: audit_good_and_do emit_good)

lemma emit_sync_good: "audit_state a \<Longrightarrow> audit_good (emit_sync env a)"
  by (simp add: emit_sync_def split_def Let_def emit_frames_good)

lemma on_target_event_good: "audit_state a \<Longrightarrow> audit_good (on_target_event env ev a)"
  unfolding on_target_event_def Let_def split_def
  by (intro audit_good_and_do emit_frames_good emit_sync_good)
    (auto split: target_event.split file_event.split)

lemma record_key_good: "audit_state a \<Longrightarrow> audit_good (record_key env k p a)"
  by (simp add: record_key_def Let_def call_record_good)

lemma deliver_good: "audit_state a \<Longrightarrow> audit_good (deliver env i a)"
  by (auto simp: deliver_def Let_def intro!: audit_good_and_do call_input_good record_key_good split: input_event.split)

lemma deliver_none_good: "audit_state a \<Longrightarrow> audit_good (deliver_none env i a)"
  unfolding deliver_none_def by (rule audit_good_and_do [OF deliver_good]) simp_all

lemma refuse_good: "audit_state a \<Longrightarrow> audit_good (refuse env s r a)"
  by (simp add: refuse_def on_target_event_good)

lemma refuse_opt_good: "audit_state (snd p) \<Longrightarrow> audit_good (refuse_opt env s p)"
  by (auto simp: refuse_opt_def intro!: audit_good_and_do refuse_good split: prod.split option.split)

lemma drop_state [simp]:
  "audit_state (drop_stream g s a) = audit_state a" "audit_state (drop_idle g now a) = audit_state a"
  by (simp_all add: drop_stream_def drop_idle_def Let_def split: option.split)

lemma stream_ops_state [simp]:
  "audit_state (snd (open_clipboard env s g a)) = audit_state a"
  "audit_state (snd (append_clipboard env s d g a)) = audit_state a"
  "audit_state (snd (take_stream g s a)) = audit_state a"
  by (simp_all add: open_clipboard_def append_clipboard_def take_stream_def Let_def split_def split: option.split)

lemma take_stream_state: "take_stream g s a = (r, b) \<Longrightarrow> audit_state b = audit_state a"
  using stream_ops_state(3) [of g s a] by simp

lemma on_client_input_good: "audit_state a \<Longrightarrow> audit_good (on_client_input env i a)"
  by (cases i) (auto simp: on_client_input_def take_stream_state Let_def split_def
      intro!: deliver_none_good refuse_opt_good split: option.split prod.split)

lemma on_guest_input_good: "audit_state a \<Longrightarrow> audit_good (on_guest_input env i a)"
  by (cases i) (auto simp: on_guest_input_def take_stream_state intro!: deliver_good split: option.split prod.split)

lemma try_send_all_audited:
  "audited (ac_log a) \<Longrightarrow> recording_failed (ac_log a) \<Longrightarrow> audited (ac_log (try_send_all env fs a))"
  by (induction fs arbitrary: a) (simp_all add: logged_def audited_notice)

lemma end_after_failure_state:
  assumes "audit_good (Inl err, a)"
  shows "audit_state (snd (end_after_failure env err a))"
proof (cases err)
  case (Audit e)
  have "ac_recording (try_send_all env fs b) = ac_recording b" for fs b
    using conjunct1 [OF try_send_all_keeps [of b env fs]] by (simp add: same_streams_def)
  with assms Audit show ?thesis
    by (auto simp: end_after_failure_def split_def Let_def audit_good_def audit_state_def intro!: try_send_all_audited)
qed (use assms in \<open>auto simp: end_after_failure_def audit_good_def audit_state_def\<close>)

lemma notify_end_state: "audit_state a \<Longrightarrow> audit_state (notify_end env r c a)"
  unfolding notify_end_def by (rule audit_good_state [OF on_target_event_good])

lemma end_after_input_failure_state:
  "audit_state a \<Longrightarrow> audit_state (snd (end_after_input_failure env err a))"
  using audit_state_neutral [of a NextEvent]
  by (auto simp: end_after_input_failure_def Let_def split_def notify_end_state audit_good_state [OF on_target_event_good]
      split: option.split sum.split target_event.split)

lemma fail_step_state: "audit_good (Inl err, a) \<Longrightarrow> audit_state (snd (fail_step env err a))"
  using end_after_failure_state [of err a env] end_after_input_failure_state [of a env] audit_good_state [of "(Inl err, a)"]
  by (auto simp: fail_step_def split_def Let_def split: session_error.split)

lemma good_pair: "audit_good p \<Longrightarrow> fst p = Inl e \<Longrightarrow> audit_good (Inl e, snd p)"
  by (simp add: audit_good_def)

lemma loop_step_state:
  assumes "audit_state a"
  shows "audit_state (snd (loop_step env ev a))"
proof (cases ev rule: loop_event_cases)
  case (1 i)
  note g = on_client_input_good [OF assms, of env i]
  show ?thesis using 1 audit_good_state [OF g] fail_step_state [OF good_pair [OF g]]
    by (auto simp: actor_simps split: sum.split)
next
  case (2 i)
  note g = on_guest_input_good [OF assms, of env i]
  show ?thesis using 2 audit_good_state [OF g] fail_step_state [OF good_pair [OF g]]
    by (auto simp: actor_simps split: sum.split)
next
  case 6
  note g = emit_sync_good [OF assms, of env]
  note c = call_checkpoint_good [OF audit_good_state [OF g], of env]
  show ?thesis using 6 audit_good_state [OF g] audit_good_state [OF c]
      end_after_failure_state [OF good_pair [OF g]] end_after_failure_state [OF good_pair [OF c]]
    by (auto simp: actor_simps Let_def split: sum.split)
next
  case (7 e)
  note g = on_target_event_good [OF assms, of env e]
  show ?thesis using 7 audit_good_state [OF g] end_after_failure_state [OF good_pair [OF g]]
    by (auto simp: actor_simps Let_def split: sum.split)
qed (use assms in \<open>simp_all add: actor_simps notify_end_state audit_state_neutral\<close>)

lemma run_loop_state: "audit_state a \<Longrightarrow> audit_state (snd (run_loop env evs a))"
proof (induction evs arbitrary: a)
  case Nil
  then show ?case by simp
next
  case (Cons ev evs)
  have "audit_state (snd (loop_step env ev a))" by (rule loop_step_state [OF Cons.prems])
  with Cons show ?case by (cases "loop_step env ev a"; cases "fst (loop_step env ev a)") simp_all
qed

lemma teardown_log:
  "ac_log (snd (teardown env a)) = ac_log a @ [Shutdown, Finalize] @ (if ac_credential a then [Revoke] else [])"
  by (simp add: teardown_def Let_def split_def logged_def drop_actor_def)

lemma run_session_audited:
  assumes "\<not> exclude_output policy"
  shows "audited (ac_log (snd (run_session env evs (actor_new env c policy cred))))"
proof -
  have "audit_state (actor_new env c policy cred)"
    using assms by (simp add: audit_state_def actor_new_def audited_Nil)
  from run_loop_state [OF this, of env evs] obtain r b where
    rl: "run_loop env evs (actor_new env c policy cred) = (r, b)" and b: "audited (ac_log b)"
    by (cases "run_loop env evs (actor_new env c policy cred)") (simp add: audit_state_def)
  from b have "audited (ac_log (snd (teardown env b)))"
    using audited_neutral [OF audited_neutral [OF audited_neutral [OF b, of Shutdown], of Finalize], of Revoke]
      audited_neutral [OF audited_neutral [OF b, of Shutdown], of Finalize]
    by (simp add: teardown_log)
  with rl b show ?thesis by (cases r) (simp_all add: run_session_def split_def Let_def)
qed

end
