(* ===== verification/Actor_Effects.thy ===== *)
theory Actor_Effects
  imports Actor_Recording
begin

text \<open>
  Which calls each operation of the session actor makes, in terms of the history it leaves behind: the
  client receives every frame that may not be dropped, a guest reaches only input and its own clipboard,
  denied input has no effect, and the teardown steps happen once, at the end.
\<close>

section \<open>Effects as history extensions\<close>

definition did :: "(action \<Rightarrow> bool) \<Rightarrow> 'c actor \<Rightarrow> 'c actor \<Rightarrow> bool" where
  "did P a b \<longleftrightarrow> (\<exists>acts. ac_log b = ac_log a @ acts \<and> list_all P acts)"

lemma did_same [simp, intro]: "ac_log b = ac_log a \<Longrightarrow> did P a b"
  by (auto simp: did_def)

lemma did_trans: "did P a b \<Longrightarrow> did P b c \<Longrightarrow> did P a c"
  by (auto simp: did_def)

lemma did_mono: "did P a b \<Longrightarrow> (\<And>x. P x \<Longrightarrow> Q x) \<Longrightarrow> did Q a b"
  by (auto simp: did_def list_all_iff)

lemma did_logged: "did P a b \<Longrightarrow> P act \<Longrightarrow> did P a (logged act b)"
  by (auto simp: did_def logged_def)

lemma did_log: "ac_log b = ac_log a \<Longrightarrow> did P b c \<Longrightarrow> did P a c"
  by (simp add: did_def)

lemma did_and_do:
  assumes "did P a (snd p)" "\<And>x. did P (snd p) (snd (f x (snd p)))"
  shows "did P a (snd (and_do p f))"
  using assms by (auto simp: snd_and_do intro: did_trans split: sum.split)

fun is_emission :: "action \<Rightarrow> bool" where
  "is_emission (Record _ _) = True"
| "is_emission (Broadcast _) = True"
| "is_emission (Send _ _) = True"
| "is_emission (TrySend _ _) = True"
| "is_emission _ = False"

fun is_record :: "action \<Rightarrow> bool" where
  "is_record (Record _ _) = True"
| "is_record _ = False"

lemma is_record_emission: "is_record x \<Longrightarrow> is_emission x"
  by (cases x) simp_all

lemma call_record_did: "did is_record a (snd (call_record env r a))"
  by (simp add: call_record_def Let_def did_logged)

lemma emit_did: "did is_emission a (snd (emit env f d out a))"
  by (auto simp: emit_def Let_def snd_and_do call_record_def did_def logged_def split: sum.split)

lemma emit_frames_did: "did is_emission a (snd (emit_frames env fs d out a))"
proof (induction fs arbitrary: a)
  case Nil
  show ?case by simp
next
  case (Cons f fs)
  show ?case by (simp, rule did_and_do [OF emit_did]) (rule Cons)
qed

lemma emit_sync_did: "did is_emission a (snd (emit_sync env a))"
  by (auto simp: emit_sync_def split_def Let_def intro!: did_log [OF _ emit_frames_did])

lemma on_target_event_did: "did is_emission a (snd (on_target_event env ev a))"
proof -
  have "did is_emission a (snd (emit_frames env fs d out (b\<lparr>ac_encoder := c\<rparr>)))" if "ac_log b = ac_log a" for fs d out b c
    by (rule did_log [OF _ emit_frames_did]) (simp add: that)
  then show ?thesis
    unfolding on_target_event_def Let_def split_def
    by (intro did_and_do emit_sync_did) (simp split: target_event.split file_event.split)
qed

text \<open>Delivering an input records at most a key and calls the engine at most once, with that input.\<close>

definition delivers :: "input_event \<Rightarrow> action \<Rightarrow> bool" where
  "delivers i act \<longleftrightarrow> is_record act \<or> (\<exists>ok. act = Input i ok)"

lemma deliver_did: "did (delivers i) a (snd (deliver env i a))"
proof -
  have r: "did (delivers j) a (snd (record_key env k p a))" for j k p
    unfolding record_key_def Let_def
    by (rule did_log [OF _ did_mono [OF call_record_did]]) (simp_all add: delivers_def)
  have c: "did (delivers j) b (snd (call_input env j b))" for j b
    by (simp add: call_input_def Let_def did_logged delivers_def)
  show ?thesis
    unfolding deliver_def Let_def
    by (cases i) (auto intro!: did_and_do r c)
qed

lemma deliver_denied:
  "env_review env = Some review \<Longrightarrow> review (ac_log a) i = Deny why \<Longrightarrow> deliver env i a = (Inr (), a)"
  by (simp add: deliver_def)

section \<open>What the client receives\<close>

lemma emit_sent:
  assumes "emit env f False out a = (Inr (), b)"
  shows "client_frames (ac_log b) = client_frames (ac_log a) @ [f]"
  using assms
  by (auto simp: emit_def Let_def and_do_def call_record_def logged_def split: sum.splits prod.splits if_splits)

lemma emit_frames_sent:
  "emit_frames env fs False out a = (Inr (), b) \<Longrightarrow> client_frames (ac_log b) = client_frames (ac_log a) @ fs"
proof (induction fs arbitrary: a)
  case Nil
  then show ?case by simp
next
  case (Cons f fs)
  obtain r a1 where e: "emit env f False out a = (r, a1)" by (cases "emit env f False out a")
  with Cons.prems have "r = Inr ()" by (cases r) auto
  with e Cons.prems have "emit_frames env fs False out a1 = (Inr (), b)" by simp
  from Cons.IH [OF this] emit_sent [of env f out a a1] e \<open>r = Inr ()\<close> show ?case by simp
qed

lemma emit_sync_sent:
  assumes "emit_sync env a = (Inr (), b)"
  shows "\<exists>t. client_frames (ac_log b) = client_frames (ac_log a) @ snd (env_sync env (ac_encoder a) t [])"
  using assms emit_frames_sent [of env _ False "a\<lparr>ac_encoder := c\<rparr>" b for c]
  by (fastforce simp: emit_sync_def split_def Let_def)

definition droppable_event :: "target_event \<Rightarrow> bool" where
  "droppable_event ev = (case ev of VideoSlice _ keyframe _ _ _ _ _ _ \<Rightarrow> \<not> keyframe | _ \<Rightarrow> False)"

lemma emit_encoder: "ac_encoder (snd (emit env f d out a)) = ac_encoder a"
  by (auto simp: emit_def Let_def snd_and_do call_record_def logged_def split: sum.split)

lemma emit_frames_encoder: "ac_encoder (snd (emit_frames env fs d out a)) = ac_encoder a"
  by (induction fs arbitrary: a) (simp_all add: snd_and_do emit_encoder split: sum.split)

lemma on_target_event_sent:
  assumes "on_target_event env ev a = (Inr (), b)" "\<not> droppable_event ev"
  shows "\<exists>t. client_frames (ac_log b) = client_frames (ac_log a)
      @ snd (env_encode env (ac_encoder a) ev [])
      @ snd (env_sync env (fst (env_encode env (ac_encoder a) ev [])) t [])"
proof -
  define a1 where "a1 = (case ev of TFile (EAck stream _ status) \<Rightarrow>
      if status \<noteq> 0 then a\<lparr>ac_uploads := removeAll stream (ac_uploads a)\<rparr> else a | _ \<Rightarrow> a)"
  have a1: "ac_encoder a1 = ac_encoder a" "ac_log a1 = ac_log a"
    by (simp_all add: a1_def split: target_event.split file_event.split)
  let ?c = "fst (env_encode env (ac_encoder a) ev [])" and ?fs = "snd (env_encode env (ac_encoder a) ev [])"
  have ote: "on_target_event env ev a =
      and_do (emit_frames env ?fs False (is_graphical_output ev) (a1\<lparr>ac_encoder := ?c\<rparr>)) (\<lambda>_ a3. emit_sync env a3)"
    using assms(2) a1 unfolding on_target_event_def Let_def split_def a1_def [symmetric] droppable_event_def by simp
  obtain r a3 where e: "emit_frames env ?fs False (is_graphical_output ev) (a1\<lparr>ac_encoder := ?c\<rparr>) = (r, a3)"
    by (cases "emit_frames env ?fs False (is_graphical_output ev) (a1\<lparr>ac_encoder := ?c\<rparr>)")
  with assms(1) ote have r: "r = Inr ()" and s: "emit_sync env a3 = (Inr (), b)" by (cases r; simp)+
  have "ac_encoder a3 = ?c" using emit_frames_encoder [of env ?fs False _ "a1\<lparr>ac_encoder := ?c\<rparr>"] e
    by (metis actor.select_convs(1) actor.surjective actor.update_convs(1) snd_conv)
  with emit_sync_sent [OF s] emit_frames_sent [of env ?fs _ _ a3] e r a1 show ?thesis by fastforce
qed

section \<open>What stays out of the recording\<close>

lemma emit_excluded:
  "exclude_output (ac_recording a) \<Longrightarrow> recorded_frames (ac_log (snd (emit env f d True a))) = recorded_frames (ac_log a)"
  by (simp add: emit_def Let_def logged_def)

lemma emit_frames_excluded:
  "exclude_output (ac_recording a) \<Longrightarrow>
   recorded_frames (ac_log (snd (emit_frames env fs d True a))) = recorded_frames (ac_log a)
   \<and> ac_recording (snd (emit_frames env fs d True a)) = ac_recording a"
proof (induction fs arbitrary: a)
  case Nil
  show ?case by simp
next
  case (Cons f fs)
  let ?b = "snd (emit env f d True a)"
  have k: "ac_recording ?b = ac_recording a"
    by (simp add: emit_def Let_def snd_and_do call_record_def logged_def split: sum.split)
  with Cons.prems have "exclude_output (ac_recording ?b)" by simp
  from Cons.IH [OF this] emit_excluded [OF Cons.prems, of env f d] k show ?case
    by (cases "fst (emit env f d True a)") (simp_all add: snd_and_do)
qed

lemma emit_recorded:
  "\<exists>fs. recorded_frames (ac_log (snd (emit env f d out a))) = recorded_frames (ac_log a) @ fs \<and> set fs \<subseteq> {f}"
  by (auto simp: emit_def Let_def snd_and_do call_record_def logged_def split: sum.split)

lemma emit_frames_recorded:
  "\<exists>gs. recorded_frames (ac_log (snd (emit_frames env fs d out a))) = recorded_frames (ac_log a) @ gs \<and> set gs \<subseteq> set fs"
proof (induction fs arbitrary: a)
  case Nil
  show ?case by simp
next
  case (Cons f fs)
  let ?b = "snd (emit env f d out a)"
  from emit_recorded obtain xs where x: "recorded_frames (ac_log ?b) = recorded_frames (ac_log a) @ xs" "set xs \<subseteq> {f}"
    by blast
  from Cons [of ?b] obtain gs where
    "recorded_frames (ac_log (snd (emit_frames env fs d out ?b))) = recorded_frames (ac_log ?b) @ gs" "set gs \<subseteq> set fs"
    by blast
  with x have "recorded_frames (ac_log (snd (emit_frames env fs d out ?b))) = recorded_frames (ac_log a) @ (xs @ gs)"
    "set (xs @ gs) \<subseteq> set (f # fs)" by auto
  with x show ?case by (cases "fst (emit env f d out a)") (fastforce simp: snd_and_do)+
qed

lemma on_target_event_excluded:
  assumes "exclude_output (ac_recording a)" "is_graphical_output ev"
  shows "\<exists>c t gs. recorded_frames (ac_log (snd (on_target_event env ev a))) = recorded_frames (ac_log a) @ gs
    \<and> set gs \<subseteq> set (snd (env_sync env c t []))"
proof -
  define a2 where "a2 = a\<lparr>ac_encoder := fst (env_encode env (ac_encoder a) ev [])\<rparr>"
  have a2: "ac_log a2 = ac_log a" "exclude_output (ac_recording a2)"
    using assms(1) by (simp_all add: a2_def)
  let ?fs = "snd (env_encode env (ac_encoder a) ev [])" and ?d = "droppable_event ev"
  have ote: "on_target_event env ev a = and_do (emit_frames env ?fs ?d True a2) (\<lambda>_ a3. emit_sync env a3)"
    using assms(2) by (cases ev) (simp_all add: on_target_event_def Let_def split_def is_graphical_output_def
        droppable_event_def a2_def)
  let ?a3 = "snd (emit_frames env ?fs ?d True a2)"
  have x: "recorded_frames (ac_log ?a3) = recorded_frames (ac_log a)"
    using emit_frames_excluded [OF a2(2), of env ?fs ?d] a2(1) by simp
  obtain gs c t where "recorded_frames (ac_log (snd (emit_sync env ?a3))) = recorded_frames (ac_log ?a3) @ gs"
    "set gs \<subseteq> set (snd (env_sync env c t []))"
    using emit_frames_recorded [of env _ False False "?a3\<lparr>ac_encoder := c\<rparr>" for c]
    by (fastforce simp: emit_sync_def split_def Let_def)
  with x show ?thesis unfolding ote snd_and_do by (fastforce split: sum.split)
qed

section \<open>Guests\<close>

fun guest_input :: "input_event \<Rightarrow> bool" where
  "guest_input (IMouse _ _ _) = True"
| "guest_input (IKey _ _) = True"
| "guest_input (IResize _ _ _) = True"
| "guest_input (IClipboard _) = True"
| "guest_input _ = False"

definition guest_effect :: "action \<Rightarrow> bool" where
  "guest_effect act \<longleftrightarrow> is_record act \<or> (\<exists>i ok. act = Input i ok \<and> guest_input i)"

lemma deliver_guest_did: "guest_input i \<Longrightarrow> did guest_effect a (snd (deliver env i a))"
  by (rule did_mono [OF deliver_did]) (auto simp: delivers_def guest_effect_def)

lemma stream_ops_log [simp]:
  "ac_log (drop_stream g s a) = ac_log a" "ac_log (drop_idle g now a) = ac_log a"
  "ac_log (snd (open_clipboard env s g a)) = ac_log a" "ac_log (snd (append_clipboard env s d g a)) = ac_log a"
  "ac_log (snd (take_stream g s a)) = ac_log a"
proof -
  show ds: "ac_log (drop_stream g s a) = ac_log a" by (simp add: drop_stream_def split: option.split)
  have di: "ac_log (drop_idle g' now a) = ac_log a" for g' now by (simp add: drop_idle_def Let_def)
  show "ac_log (drop_idle g now a) = ac_log a" by (rule di)
  show "ac_log (snd (open_clipboard env s g a)) = ac_log a" by (simp add: open_clipboard_def Let_def split_def di)
  show "ac_log (snd (append_clipboard env s d g a)) = ac_log a"
    by (simp add: append_clipboard_def Let_def ds split: option.split)
  show "ac_log (snd (take_stream g s a)) = ac_log a" by (simp add: take_stream_def Let_def split: option.split)
qed

lemma guest_streams [simp]:
  "ac_clip (drop_stream True s a) = ac_clip a" "ac_clip (drop_idle True now a) = ac_clip a"
  "ac_clip (snd (open_clipboard env s True a)) = ac_clip a" "ac_clip (snd (append_clipboard env s d True a)) = ac_clip a"
  "ac_clip (snd (take_stream True s a)) = ac_clip a"
  "ac_uploads (drop_stream True s a) = ac_uploads a"
  "ac_uploads (snd (open_clipboard env s True a)) = ac_uploads a"
  "ac_uploads (snd (append_clipboard env s d True a)) = ac_uploads a"
  "ac_uploads (snd (take_stream True s a)) = ac_uploads a"
  by (simp_all add: drop_stream_def drop_idle_def open_clipboard_def append_clipboard_def take_stream_def
      set_streams_def Let_def split_def split: option.split)

lemma deliver_clip: "ac_clip (snd (deliver env i a)) = ac_clip a"
  using deliver_keeps(1) [of a env i] by (simp add: same_streams_def)

lemma on_guest_input_isolated:
  "did guest_effect a (snd (on_guest_input env i a)) \<and> ac_clip (snd (on_guest_input env i a)) = ac_clip a
   \<and> ac_uploads (snd (on_guest_input env i a)) = ac_uploads a"
proof (cases i)
  case (CEnd s)
  obtain r b where t: "take_stream True s a = (r, b)" by (cases "take_stream True s a")
  then have b: "ac_log b = ac_log a" "ac_clip b = ac_clip a" "ac_uploads b = ac_uploads a"
    using stream_ops_log(5) [of True s a] guest_streams(5,9) [of s a] by simp_all
  show ?thesis
  proof (cases r)
    case None
    with t b CEnd show ?thesis by (simp add: on_guest_input_def)
  next
    case (Some d)
    have "did guest_effect a (snd (deliver env (IClipboard d) b))"
      by (rule did_log [OF b(1) deliver_guest_did]) simp
    with t b CEnd Some show ?thesis by (simp add: on_guest_input_def deliver_clip)
  qed
qed (simp_all add: on_guest_input_def deliver_guest_did deliver_clip)

section \<open>Invariants of the history\<close>

text \<open>
  An invariant of the history holds through a whole session once it survives every call that is
  neither an input to the engine nor a teardown step, and every delivery of an input.
\<close>

fun is_teardown :: "action \<Rightarrow> bool" where
  "is_teardown Shutdown = True"
| "is_teardown Finalize = True"
| "is_teardown Revoke = True"
| "is_teardown _ = False"

fun calm :: "action \<Rightarrow> bool" where
  "calm (Input _ _) = False"
| "calm act = (\<not> is_teardown act)"

lemma emission_calm: "is_emission x \<Longrightarrow> calm x"
  by (cases x) simp_all

lemma on_target_event_calm: "did calm a (snd (on_target_event env ev a))"
  by (rule did_mono [OF on_target_event_did emission_calm])

lemma emit_sync_calm: "did calm a (snd (emit_sync env a))"
  by (rule did_mono [OF emit_sync_did emission_calm])

lemma try_send_all_calm: "did calm a (try_send_all env fs a)"
proof (induction fs arbitrary: a)
  case Nil
  show ?case by simp
next
  case (Cons f fs)
  have "did calm a (logged (TrySend f (env_try_send env (ac_log a) f)) a)" by (rule did_logged) simp_all
  from did_trans [OF this Cons] show ?case by simp
qed

lemma end_after_failure_calm: "did calm a (snd (end_after_failure env err a))"
  by (auto simp: end_after_failure_def split_def Let_def intro!: did_log [OF _ try_send_all_calm] split: session_error.split)

lemma end_after_input_failure_calm: "did calm a (snd (end_after_input_failure env e a))"
proof -
  have "did calm a (logged NextEvent a)" by (rule did_logged) simp_all
  then show ?thesis
    using did_trans [OF _ on_target_event_calm]
    by (auto simp: end_after_input_failure_def Let_def split_def notify_end_def
        split: option.split sum.split target_event.split)
qed

lemma fail_step_calm: "did calm a (snd (fail_step env err a))"
  by (auto simp: fail_step_def split_def Let_def end_after_failure_calm end_after_input_failure_calm
      split: session_error.split)

lemma call_checkpoint_calm: "did calm a (snd (call_checkpoint env a))"
  by (simp add: call_checkpoint_def Let_def did_logged)

lemma sync_step_calm: "did calm a (snd (loop_step env SyncTick a))"
proof -
  note c = did_trans [OF emit_sync_calm [of a env] call_checkpoint_calm [of _ env]]
  from did_trans [OF emit_sync_calm [of a env] end_after_failure_calm [of _ env]] c
    did_trans [OF c end_after_failure_calm [of _ env]]
  show ?thesis by (simp add: actor_simps Let_def split: sum.split)
qed

lemma target_step_calm: "did calm a (snd (loop_step env (TargetSays r) a))"
proof (cases "TargetSays r" rule: loop_event_cases)
  case (7 e)
  with on_target_event_calm [of a env e] did_trans [OF on_target_event_calm [of a env e] end_after_failure_calm [of _ env]]
  show ?thesis by (simp add: actor_simps Let_def split: sum.split)
qed (simp_all add: actor_simps notify_end_def on_target_event_calm)

text \<open>What either side's input does: one delivery, or calls that do not reach the engine.\<close>

definition one_delivery :: "'c actor_env \<Rightarrow> 'c actor \<Rightarrow> 'c actor \<Rightarrow> bool" where
  "one_delivery env a x \<longleftrightarrow> (\<exists>b i. ac_log b = ac_log a \<and> x = snd (deliver env i b))"

lemma one_deliveryI [simp]: "ac_log b = ac_log a \<Longrightarrow> one_delivery env a (snd (deliver env i b))"
  by (auto simp: one_delivery_def)

lemma take_stream_log: "take_stream g s a = (x, b) \<Longrightarrow> ac_log b = ac_log a"
  using stream_ops_log(5) [of g s a] by simp

lemma on_client_input_shape:
  "did calm a (snd (on_client_input env i a)) \<or> one_delivery env a (snd (on_client_input env i a))"
proof -
  have d [simp]: "snd (deliver_none env j b) = snd (deliver env j b)" for j b
    by (simp add: deliver_none_def snd_and_do split: sum.split)
  have r [simp]: "did calm a (snd (refuse_opt env s p))" if "ac_log (snd p) = ac_log a" for s p
    using did_log [OF _ on_target_event_calm, of "snd p" a] that
    by (auto simp: refuse_opt_def refuse_def snd_and_do split: prod.split option.split sum.split)
  show ?thesis
  proof (cases i)
    case (CEnd s)
    obtain x b where x: "take_stream False s a = (x, b)" by (cases "take_stream False s a")
    with take_stream_log [OF x] CEnd show ?thesis by (cases x) (simp_all add: on_client_input_def)
  qed (auto simp: on_client_input_def Let_def split_def split: option.split)
qed

lemma on_guest_input_shape:
  "ac_log (snd (on_guest_input env i a)) = ac_log a \<or> one_delivery env a (snd (on_guest_input env i a))"
proof (cases i)
  case (CEnd s)
  obtain x b where x: "take_stream True s a = (x, b)" by (cases "take_stream True s a")
  with take_stream_log [OF x] CEnd show ?thesis by (cases x) (simp_all add: on_guest_input_def)
qed (auto simp: on_guest_input_def)

locale history_invariant =
  fixes env :: "'c actor_env"
    and I :: "history \<Rightarrow> bool"
  assumes calm_step: "I h \<Longrightarrow> calm act \<Longrightarrow> I (h @ [act])"
    and deliver_step: "I (ac_log a) \<Longrightarrow> I (ac_log (snd (deliver env i a)))"
begin

lemma calm_steps: "list_all calm acts \<Longrightarrow> I h \<Longrightarrow> I (h @ acts)"
proof (induction acts arbitrary: h)
  case (Cons x acts)
  from Cons.IH [of "h @ [x]"] Cons.prems calm_step [of h x] show ?case by simp
qed simp

lemma did_calm: "did calm (a :: 'c actor) b \<Longrightarrow> I (ac_log a) \<Longrightarrow> I (ac_log b)"
  by (auto simp: did_def calm_steps)

lemma client_input: "I (ac_log a) \<Longrightarrow> I (ac_log (snd (on_client_input env i a)))"
  using on_client_input_shape [of a env i] did_calm [of a] deliver_step by (auto simp: one_delivery_def)

lemma guest_input: "I (ac_log a) \<Longrightarrow> I (ac_log (snd (on_guest_input env i a)))"
  using on_guest_input_shape [of env i a] deliver_step by (auto simp: one_delivery_def)

lemma step: "I (ac_log a) \<Longrightarrow> I (ac_log (snd (loop_step env ev a)))"
proof (cases ev rule: loop_event_cases)
  case (1 i)
  assume "I (ac_log a)"
  with 1 client_input [of a i] did_calm [OF fail_step_calm] show ?thesis
    by (simp add: actor_simps split: sum.split)
next
  case (2 i)
  assume "I (ac_log a)"
  with 2 guest_input [of a i] did_calm [OF fail_step_calm] show ?thesis
    by (simp add: actor_simps split: sum.split)
next
  case 3
  assume "I (ac_log a)"
  with 3 calm_step [of "ac_log a" Subscribe] show ?thesis by (simp add: actor_simps logged_def)
next
  case 6
  assume "I (ac_log a)"
  with 6 did_calm [OF sync_step_calm] show ?thesis by simp
qed (use did_calm [OF target_step_calm] in \<open>simp_all add: loop_step_simps(4,5)\<close>)

lemma loop: "I (ac_log a) \<Longrightarrow> I (ac_log (snd (run_loop env evs a)))"
proof (induction evs arbitrary: a)
  case (Cons ev evs)
  obtain r b where l: "loop_step env ev a = (r, b)" by (cases "loop_step env ev a")
  with step [OF Cons.prems, of ev] have "I (ac_log b)" by simp
  with l Cons.IH [of b] show ?case by (cases r) auto
qed simp

end

section \<open>Two such invariants\<close>

abbreviation alive :: "action \<Rightarrow> bool" where
  "alive act \<equiv> \<not> is_teardown act"

lemma calm_alive: "calm x \<Longrightarrow> alive x"
  by (cases x) simp_all

lemma delivers_alive: "delivers i x \<Longrightarrow> alive x"
  by (cases x) (auto simp: delivers_def)

interpretation alive_history: history_invariant env "list_all alive" for env :: "'c actor_env"
proof
  show "list_all alive h \<Longrightarrow> calm act \<Longrightarrow> list_all alive (h @ [act])" for h act
    using calm_alive by simp
  show "list_all alive (ac_log a) \<Longrightarrow> list_all alive (ac_log (snd (deliver env i a)))" for a :: "'c actor" and i
    using did_mono [OF deliver_did [of i a env], of alive] delivers_alive [of i] by (auto simp: did_def)
qed

text \<open>
  Every input the engine received was allowed by the moderator, who judged it right before it was
  delivered, or before the key it is was recorded.
\<close>

definition allowed :: "'c actor_env \<Rightarrow> history \<Rightarrow> input_event \<Rightarrow> bool" where
  "allowed env h i = (case env_review env of None \<Rightarrow> True | Some review \<Rightarrow> review h i = Allow)"

inductive moderated :: "'c actor_env \<Rightarrow> history \<Rightarrow> bool" for env where
  moderated_Nil: "moderated env []"
| moderated_calm: "moderated env h \<Longrightarrow> calm act \<Longrightarrow> moderated env (h @ [act])"
| moderated_input: "moderated env h \<Longrightarrow> allowed env h i \<Longrightarrow> moderated env (h @ [Input i ok])"
| moderated_key: "moderated env h \<Longrightarrow> allowed env h i \<Longrightarrow> moderated env (h @ [Record r True, Input i ok])"

lemma moderated_prefix:
  "moderated env h \<Longrightarrow> prefix (p @ [Input i ok]) h \<Longrightarrow>
   allowed env p i \<or> (\<exists>q r. p = q @ [Record r True] \<and> allowed env q i)"
proof (induction h arbitrary: rule: moderated.induct)
  case (moderated_calm h act)
  then show ?case by auto
next
  case (moderated_input h j ok')
  then show ?case by auto
next
  case (moderated_key h j r ok')
  have "h @ [Record r True, Input j ok'] = (h @ [Record r True]) @ [Input j ok']" by simp
  with moderated_key show ?case by (metis (no_types, lifting) action.distinct(5) action.inject(1) append1_eq_conv prefix_snoc)
qed simp

lemma deliver_moderated:
  assumes "moderated env (ac_log a)"
  shows "moderated env (ac_log (snd (deliver env i a)))"
proof (cases "allowed env (ac_log a) i")
  case False
  then have "deliver env i a = (Inr (), a)"
    by (auto simp: deliver_def allowed_def split: option.split moderation.split)
  with assms show ?thesis by simp
next
  case True
  then have d: "deliver env i a = and_do
      (if include_keys (ac_recording a)
       then (case i of IKey keysym pressed \<Rightarrow> record_key env keysym pressed a | _ \<Rightarrow> (Inr (), a)) else (Inr (), a))
      (\<lambda>_ a1. call_input env i a1)"
    by (auto simp: deliver_def allowed_def split: option.split)
  show ?thesis
  proof (cases "include_keys (ac_recording a) \<and> (\<exists>k p. i = IKey k p)")
    case False
    then have "ac_log (snd (deliver env i a)) = ac_log a @ [Input i (is_ok (env_handle_input env (ac_log a) i))]"
      using d by (cases i) (auto simp: and_do_def call_input_def logged_def Let_def)
    with moderated_input [OF assms True] show ?thesis by simp
  next
    case key: True
    then obtain k p where "i = IKey k p" by blast
    with key d have "deliver env i a = and_do (record_key env k p a) (\<lambda>_ a1. call_input env i a1)" by simp
    then show ?thesis
      using moderated_key [OF assms True] moderated_calm [OF assms]
      by (auto simp: and_do_def record_key_def call_record_def call_input_def logged_def Let_def is_ok_def
          split: sum.split)
  qed
qed

interpretation moderated_history: history_invariant env "moderated env" for env :: "'c actor_env"
  by unfold_locales (simp_all add: moderated_calm deliver_moderated)

end
