(* ===== verification/Actor_Properties.thy ===== *)
theory Actor_Properties
  imports Actor_Effects
begin

text \<open>
  The properties of the session actor: what is recorded and delivered and in which order, what a guest
  and a moderator can and cannot bring about, the limits on what a client can make the process hold,
  and how a session ends.
\<close>

section \<open>A concrete environment\<close>

text \<open>
  The Guacamole encoder with everything around it succeeding; the clocks advance with the history.
\<close>

definition sample_env :: "guac_wire_encoder actor_env" where
  "sample_env =
    \<lparr>env_handle_input = (\<lambda>h i. Inr ()), env_next_event = (\<lambda>h. None), env_record = (\<lambda>h r. Inr ()),
     env_checkpoint = (\<lambda>h. Inr ()), env_finalize = (\<lambda>h. Some (Inr ())), env_revoke = (\<lambda>h. Some (Inr ())),
     env_send = (\<lambda>h f. True), env_try_send = (\<lambda>h f. True), env_review = None,
     env_now_ms = (\<lambda>h. of_nat (length h)), env_instant = (\<lambda>h. length h), env_other_bytes = (\<lambda>h. 0),
     env_encode = (\<lambda>e ev out. case guac_encode checksum_crypto e ev out of Some p \<Rightarrow> p | None \<Rightarrow> (e, out)),
     env_sync = guac_sync, env_crypto = checksum_crypto, env_decoded_len_estimate = (\<lambda>n. (n div 4 + 1) * 3)\<rparr>"

definition sample_policy :: recording_policy where
  "sample_policy = \<lparr>exclude_output = False, include_keys = True\<rparr>"

definition sample_session :: "loop_event list \<Rightarrow> guac_wire_encoder actor" where
  "sample_session evs = snd (run_loop sample_env evs (actor_new sample_env encoder_new sample_policy True))"

lemma base64_decode_length: "base64_decode d = Some bs \<Longrightarrow> length bs \<le> (length d div 4 + 1) * 3"
proof (induction d arbitrary: bs rule: base64_decode.induct)
  case (2 p q r s rest)
  then have "length bs \<le> 3 \<or> (\<exists>rs. base64_decode rest = Some rs \<and> length bs = 3 + length rs \<and>
      length rs \<le> (length rest div 4 + 1) * 3)"
    by (fastforce split: option.splits if_splits)
  moreover have "length (p # q # r # s # rest) div 4 = length rest div 4 + 1" by simp
  ultimately show ?case by auto
qed simp_all

lemma sample_estimate: "estimate_ok sample_env"
  using base64_decode_length by (auto simp: estimate_ok_def sample_env_def checksum_crypto_def)

section \<open>Failing closed\<close>

definition sound_recording :: "'c actor \<Rightarrow> (session_error + 'r) \<times> 'c actor \<Rightarrow> bool" where
  "sound_recording a p \<longleftrightarrow>
    (case fst p of Inl _ \<Rightarrow> True | Inr _ \<Rightarrow> recording_failed (ac_log (snd p)) = recording_failed (ac_log a))"

lemma sound_recording_log: "ac_log b = ac_log a \<Longrightarrow> sound_recording b p \<Longrightarrow> sound_recording a p"
  by (simp add: sound_recording_def split: sum.splits)

lemma sound_recording_same [simp]: "ac_log b = ac_log a \<Longrightarrow> sound_recording a (r, b)"
  by (simp add: sound_recording_def split: sum.split)

lemma sound_recording_and_do:
  assumes "sound_recording a p" "\<And>x b. p = (Inr x, b) \<Longrightarrow> sound_recording b (f x b)"
  shows "sound_recording a (and_do p f)"
  using assms by (auto simp: sound_recording_def and_do_def split: prod.splits sum.splits)

lemma call_record_sound: "sound_recording a (call_record env r a)"
  by (auto simp: sound_recording_def call_record_def logged_def Let_def split: sum.split)

lemma call_checkpoint_sound: "sound_recording a (call_checkpoint env a)"
  by (auto simp: sound_recording_def call_checkpoint_def logged_def Let_def split: sum.split)

lemma emit_sound: "sound_recording a (emit env f d out a)"
proof -
  have "sound_recording a (call_record env r (a\<lparr>ac_seq := ac_seq a + 1\<rparr>))" for r
    by (rule sound_recording_log [OF _ call_record_sound]) simp
  then show ?thesis
    unfolding emit_def Let_def
    by (intro sound_recording_and_do) (simp_all, simp_all add: sound_recording_def logged_def)
qed

lemma emit_frames_sound: "sound_recording a (emit_frames env fs d out a)"
proof (induction fs arbitrary: a)
  case (Cons f fs)
  show ?case by (simp, rule sound_recording_and_do [OF emit_sound]) (rule Cons)
qed simp

lemma emit_sync_sound: "sound_recording a (emit_sync env a)"
  by (auto simp: emit_sync_def split_def Let_def intro!: sound_recording_log [OF _ emit_frames_sound])

lemma on_target_event_sound: "sound_recording a (on_target_event env ev a)"
proof -
  have "sound_recording a (emit_frames env fs d out (b\<lparr>ac_encoder := c\<rparr>))" if "ac_log b = ac_log a" for fs d out b c
    by (rule sound_recording_log [OF _ emit_frames_sound]) (simp add: that)
  then show ?thesis
    unfolding on_target_event_def Let_def split_def
    by (intro sound_recording_and_do emit_sync_sound) (simp split: target_event.split file_event.split)
qed

lemma deliver_sound: "sound_recording a (deliver env i a)"
proof -
  have "sound_recording a (record_key env k p a)" for k p
    unfolding record_key_def Let_def by (rule sound_recording_log [OF _ call_record_sound]) simp
  moreover have "sound_recording b (call_input env j b)" for j b
    by (auto simp: sound_recording_def call_input_def logged_def Let_def split: sum.split)
  ultimately show ?thesis
    unfolding deliver_def Let_def by (cases i) (auto intro!: sound_recording_and_do)
qed

lemma deliver_none_sound: "ac_log b = ac_log a \<Longrightarrow> sound_recording a (deliver_none env i b)"
  unfolding deliver_none_def
  by (rule sound_recording_log, assumption, rule sound_recording_and_do [OF deliver_sound]) simp

lemma refuse_opt_sound: "ac_log (snd p) = ac_log a \<Longrightarrow> sound_recording a (refuse_opt env s p)"
proof (cases p)
  case (Pair r b)
  assume "ac_log (snd p) = ac_log a"
  with Pair have "ac_log b = ac_log a" by simp
  with Pair show ?thesis
    using sound_recording_log [OF _ on_target_event_sound, of b a]
    by (cases r) (auto simp: refuse_opt_def refuse_def intro!: sound_recording_and_do)
qed

lemma on_client_input_sound: "sound_recording a (on_client_input env i a)"
proof (cases i)
  case (CEnd s)
  obtain x b where x: "take_stream False s a = (x, b)" by (cases "take_stream False s a")
  with take_stream_log [OF x] CEnd show ?thesis
    by (cases x) (simp_all add: on_client_input_def deliver_none_sound)
qed (auto simp: on_client_input_def deliver_none_sound refuse_opt_sound Let_def split_def split: option.split)

lemma on_guest_input_sound: "sound_recording a (on_guest_input env i a)"
proof (cases i)
  case (CEnd s)
  obtain x b where x: "take_stream True s a = (x, b)" by (cases "take_stream True s a")
  with take_stream_log [OF x] CEnd show ?thesis
    by (cases x) (simp_all add: on_guest_input_def sound_recording_log [OF _ deliver_sound])
qed (simp_all add: on_guest_input_def deliver_sound)

lemma fail_step_ends: "fail_step env err a \<noteq> (None, b)"
  by (auto simp add: fail_step_def split_def Let_def split: session_error.split)

lemma loop_step_sound:
  assumes "loop_step env ev a = (None, b)"
  shows "recording_failed (ac_log b) = recording_failed (ac_log a)"
proof (cases ev rule: loop_event_cases)
  case (1 i)
  with assms on_client_input_sound [of a env i] fail_step_ends show ?thesis
    by (auto simp: actor_simps sound_recording_def split: sum.splits)
next
  case (2 i)
  with assms on_guest_input_sound [of a env i] fail_step_ends show ?thesis
    by (auto simp: actor_simps sound_recording_def split: sum.splits)
next
  case 6
  with assms emit_sync_sound [of a env] call_checkpoint_sound [of "snd (emit_sync env a)" env] show ?thesis
    by (auto simp: actor_simps sound_recording_def Let_def split: sum.splits)
next
  case (7 e)
  with assms on_target_event_sound [of a env e] show ?thesis
    by (auto simp: actor_simps sound_recording_def Let_def split: sum.splits)
qed (use assms in \<open>auto simp: actor_simps logged_def\<close>)

lemma run_loop_sound:
  "run_loop env evs a = (None, b) \<Longrightarrow> recording_failed (ac_log b) = recording_failed (ac_log a)"
proof (induction evs arbitrary: a)
  case (Cons ev evs)
  then show ?case using loop_step_sound [of env ev a]
    by (auto split: prod.splits option.splits)
qed simp

section \<open>Recording\<close>

text \<open>C2: As long as no recording call has failed, every frame the client or an observer has received was
  recorded first: at every moment of a session whose policy records output, the frames sent to the client
  and the frames broadcast to observers are subsequences of the frames successfully recorded so far.\<close>
theorem recorded_before_delivered:
  assumes "\<not> exclude_output policy"
    and "prefix h (ac_log (snd (run_session env evs (actor_new env enc policy credential))))"
    and "\<not> recording_failed h"
  shows "delivered_after_recorded h"
  by (rule audited_prefix [OF run_session_audited [OF assms(1)] assms(2,3)])

lemmas sample_simps = sample_env_def actor_new_def sample_policy_def run_session_def actor_simps Let_def split_def
  logged_def emit_sync_def emit_def and_do_def call_record_def call_checkpoint_def call_input_def record_key_def
  deliver_def deliver_none_def on_client_input_def teardown_def drop_actor_def guac_sync_def

definition sample_turns :: "loop_event list" where
  "sample_turns = [Command (Some (ClientInput (CKey 97 True))), SyncTick, Command None]"

theorem recorded_before_delivered_witness:
  "delivered_after_recorded (ac_log (snd (run_session sample_env sample_turns
      (actor_new sample_env encoder_new sample_policy True))))
   \<and> length (recorded_frames (ac_log (snd (run_session sample_env sample_turns
      (actor_new sample_env encoder_new sample_policy True))))) = 2"
proof -
  let ?h = "ac_log (snd (run_session sample_env sample_turns (actor_new sample_env encoder_new sample_policy True)))"
  have "\<not> recording_failed ?h" "length (recorded_frames ?h) = 2" by (simp_all add: sample_turns_def sample_simps)
  then show ?thesis
    using recorded_before_delivered [of sample_policy ?h sample_env sample_turns encoder_new True]
    by (simp add: sample_policy_def)
qed

text \<open>C27: A session does not outlive its recording: whatever the environment answers, a session that is
  still running has had no failed recording call and no failed checkpoint.\<close>
theorem recording_fails_closed:
  assumes "run_loop env evs (actor_new env enc policy credential) = (None, a)"
  shows "\<not> recording_failed (ac_log a)"
  using run_loop_sound [OF assms] by (simp add: actor_new_def)

theorem recording_fails_closed_witness:
  "\<not> recording_failed (ac_log (sample_session (take 2 sample_turns)))"
proof -
  have "fst (run_loop sample_env (take 2 sample_turns) (actor_new sample_env encoder_new sample_policy True)) = None"
    by (simp add: sample_turns_def sample_simps)
  then show ?thesis
    using recording_fails_closed [of sample_env "take 2 sample_turns" encoder_new sample_policy True]
    by (metis prod.collapse sample_session_def)
qed

text \<open>Under a policy that keeps output out of the recording, the frames of a graphical event are never
  recorded: all a recording gains from such an event are sync frames.\<close>
lemma excluded_output_not_recorded:
  assumes "exclude_output (ac_recording a)" "is_graphical_output ev"
  shows "\<exists>c t gs. recorded_frames (ac_log (snd (on_target_event env ev a))) = recorded_frames (ac_log a) @ gs
    \<and> set gs \<subseteq> set (snd (env_sync env c t []))"
  by (rule on_target_event_excluded [OF assms])

section \<open>Delivery\<close>

text \<open>Only delta video may be dropped: when any other target event is handled successfully, the client
  has received every frame the encoder produced for it, in order and complete, followed by the sync.\<close>
lemma only_delta_video_dropped:
  assumes "on_target_event env ev a = (Inr (), b)" "\<not> droppable_event ev"
  shows "\<exists>t. client_frames (ac_log b) = client_frames (ac_log a)
      @ snd (env_encode env (ac_encoder a) ev [])
      @ snd (env_sync env (fst (env_encode env (ac_encoder a) ev [])) t [])"
  by (rule on_target_event_sent [OF assms])

text \<open>C4: Every input that reached the protocol engine during a session, from the operator or from a guest,
  was allowed by the moderator, who judged it immediately before it was delivered (or before the
  recording of the key that it is).\<close>
theorem input_moderated:
  assumes "prefix (p @ [Input i ok]) (ac_log (snd (run_loop env evs (actor_new env enc policy credential))))"
  shows "allowed env p i \<or> (\<exists>q r. p = q @ [Record r True] \<and> allowed env q i)"
proof -
  have "moderated env (ac_log (actor_new env enc policy credential))" by (simp add: actor_new_def moderated_Nil)
  from moderated_prefix [OF moderated_history.loop [OF this] assms] show ?thesis .
qed

definition no_keys_env :: "guac_wire_encoder actor_env" where
  "no_keys_env = sample_env\<lparr>env_review :=
     Some (\<lambda>h i. case i of IKey _ _ \<Rightarrow> Deny ''keyboard locked'' | _ \<Rightarrow> Allow)\<rparr>"

theorem input_moderated_witness:
  "allowed no_keys_env [] (IMouse 1 2 0) \<or> (\<exists>q r. [] = q @ [Record r True] \<and> allowed no_keys_env q (IMouse 1 2 0))"
proof -
  have "ac_log (snd (run_loop no_keys_env (map (\<lambda>i. Command (Some (ClientInput i))) [CKey 97 True, CMouse 1 2 0])
      (actor_new no_keys_env encoder_new sample_policy True))) = [Input (IMouse 1 2 0) True]"
    by (simp add: no_keys_env_def sample_simps)
  then show ?thesis
    using input_moderated [of "[]" "IMouse 1 2 0" True no_keys_env
        "map (\<lambda>i. Command (Some (ClientInput i))) [CKey 97 True, CMouse 1 2 0]" encoder_new sample_policy True]
    by simp
qed

text \<open>A guest reaches nothing but mouse, keyboard, size and clipboard text: whatever instruction a guest
  sends, the calls it causes are recordings and such inputs, and the operator's clipboard streams and
  uploads are untouched.\<close>
lemma guest_isolated:
  "did guest_effect a (snd (on_guest_input env i a)) \<and> ac_clip (snd (on_guest_input env i a)) = ac_clip a
   \<and> ac_uploads (snd (on_guest_input env i a)) = ac_uploads a"
  by (rule on_guest_input_isolated)

section \<open>Limits\<close>

text \<open>C6: Whatever a client and a guest send, a session never holds more than four operator clipboard
  streams and one guest stream, sixteen uploads, eight mebibytes in one stream and sixteen in all of
  them; upload and clipboard stream numbers never overlap, and the shared byte counter never falls below
  what the session holds, so that giving bytes back cannot underflow it.\<close>
theorem session_limits:
  assumes "estimate_ok env"
  shows "limits_ok (snd (run_loop env evs (actor_new env enc policy credential)))"
  by (rule run_loop_limits [OF actor_new_limits assms])

theorem session_limits_witness:
  "limits_ok (sample_session [Command (Some (ClientInput (CPut 0 1 ''text/plain'' ''a''))),
      Command (Some (ClientInput (CClipboard 1 ''text/plain'')))])"
  unfolding sample_session_def by (rule session_limits [OF sample_estimate])

text \<open>Over any stretch of time the token bucket opens at most thirty-two streams plus eight for every
  second that passed, however many openings are asked for.\<close>
lemma stream_open_rate:
  assumes "sorted (start # asked)"
  shows "grants asked (open_rate_new start) * 10 ^ 9 \<le> 32 * 10 ^ 9 + 8 * (last (start # asked) - start)"
  using grants_bound [of "open_rate_new start" asked] assms
  by (simp add: open_rate_new_def STREAM_OPEN_BURST_def)

section \<open>Pasting\<close>

text \<open>The actor \<open>a\<close> in the middle of a paste that began in \<open>a0\<close>: the bytes \<open>d\<close> wait in stream \<open>s\<close>, and it is owed no more than they.\<close>

definition pasting :: "i32 \<Rightarrow> 'c actor \<Rightarrow> bytes \<Rightarrow> 'c actor \<Rightarrow> bool" where
  "pasting s a0 d a \<longleftrightarrow> hm_wf (ac_clip a) \<and> map_option pc_data (hm_get s (ac_clip a)) = Some d
    \<and> held (ac_clip a) \<le> held (ac_clip a0) + length d \<and> ac_process a \<le> ac_process a0 + length d
    \<and> ac_guest a = ac_guest a0 \<and> ac_uploads a = ac_uploads a0 \<and> s \<notin> set (ac_uploads a0) \<and> ac_log a = ac_log a0"

definition chunk_cost :: "'c actor_env \<Rightarrow> bytes \<Rightarrow> nat" where
  "chunk_cost env c = env_decoded_len_estimate env (length (b64_encode (env_crypto env) c))"

lemma paste_open:
  assumes "starts_with ''text/'' mimetype" "hm_wf (ac_clip a)" "\<not> stream_in_use s a" "hm_len (ac_clip a) < MAX_CLIPBOARD_STREAMS"
    and "fst (open_rate_take (env_instant env (ac_log a)) (ac_rate a))"
  shows "\<exists>b. on_client_input env (CClipboard s mimetype) a = (Inr None, b) \<and> pasting s a [] b"
proof -
  define now where "now = env_instant env (ac_log a)"
  define keep where "keep = hm_retain (\<lambda>_ p. now - pc_touched p < CLIPBOARD_IDLE) (ac_clip a)"
  have none: "hm_get s keep = None" "hm_get s (ac_clip a) = None" "s \<notin> set (ac_uploads a)"
    using assms(2,3) by (simp_all add: keep_def hm_get_retain stream_in_use_def hm_contains_iff)
  have few: "hm_len keep < MAX_CLIPBOARD_STREAMS" unfolding keep_def by (rule le_less_trans [OF hm_len_retain_le assms(4)])
  have held: "held (hm_remove s keep) \<le> held (ac_clip a)" using held_retain hm_remove_absent [OF none(1)] by (simp add: keep_def)
  obtain rate where rate: "open_rate_take now (ac_rate a) = (True, rate)" using assms(5) by (metis now_def prod.collapse)
  let ?b = "a\<lparr>ac_clip := hm_insert s \<lparr>pc_data = [], pc_touched = now\<rparr> keep, ac_process := ac_process a - (held (ac_clip a) - held keep), ac_rate := rate\<rparr>"
  have "open_clipboard env s False a = (None, ?b)"
    using assms(3) few none(1) rate
    by (simp add: open_clipboard_def drop_idle_def streams_of_def set_streams_def hm_contains_iff Let_def now_def [symmetric] keep_def [symmetric])
  moreover have "pasting s a [] ?b" using assms(2) held none(3) by (simp add: pasting_def held_insert keep_def)
  ultimately show ?thesis using assms(1) by (auto simp: on_client_input_def refuse_opt_def)
qed

lemma paste_blob:
  assumes "pasting s a0 d a" "crypto_ok (env_crypto env)"
    and "length d + chunk_cost env c \<le> MAX_CLIPBOARD_BYTES"
    and "held (ac_clip a0) + held (ac_guest a0) + length d + chunk_cost env c \<le> MAX_CLIPBOARD_SESSION_BYTES"
    and "ac_process a0 + env_other_bytes env (ac_log a0) + length d + chunk_cost env c \<le> MAX_CLIPBOARD_PROCESS_BYTES"
  shows "\<exists>b. on_client_input env (CBlob s (b64_encode (env_crypto env) c)) a = (Inr None, b) \<and> pasting s a0 (d @ c) b"
proof -
  obtain p where p: "hm_get s (ac_clip a) = Some p" "pc_data p = d" using assms(1) by (auto simp: pasting_def)
  have "held (ac_clip a) = length d + held (hm_remove s (ac_clip a))" using held_remove [OF _ p(1)] assms(1) p(2) by (simp add: pasting_def)
  with assms p show ?thesis
    by (simp add: on_client_input_def append_clipboard_def Let_def streams_of_def set_streams_def refuse_opt_def pasting_def chunk_cost_def
        crypto_okD held_insert)
qed

lemma paste_end:
  assumes "pasting s a0 d a" "env_handle_input env (ac_log a0) (IClipboard d) = Inr ()"
  shows "\<exists>b. on_client_input env (CEnd s) a = (Inr None, b) \<and> ac_uploads b = ac_uploads a0 \<and> ac_guest b = ac_guest a0
    \<and> ac_log b = ac_log a0 @ (if allowed env (ac_log a0) (IClipboard d) then [Input (IClipboard d) True] else [])"
proof -
  obtain p where p: "hm_get s (ac_clip a) = Some p" "pc_data p = d" using assms(1) by (auto simp: pasting_def)
  with assms show ?thesis
    by (simp add: on_client_input_def take_stream_def Let_def streams_of_def set_streams_def
        pasting_def deliver_none_def deliver_def and_do_def call_input_def logged_def allowed_def split: option.splits moderation.splits)
qed

definition says :: "client_instruction \<Rightarrow> loop_event" where
  "says i = Command (Some (ClientInput i))"

lemma says_step: "on_client_input env i a = (Inr r, b) \<Longrightarrow> loop_step env (says i) a = (r, b)"
  by (simp add: says_def loop_step_def)

lemma run_loop_append:
  "run_loop env xs a = (None, b) \<Longrightarrow> run_loop env (xs @ ys) a = run_loop env ys b"
  by (induction xs arbitrary: a) (auto split: prod.splits option.splits)

lemma paste_blobs:
  "\<lbrakk>pasting s a0 d a; crypto_ok (env_crypto env); estimate_ok env;
    length d + sum_list (map (chunk_cost env) pieces) \<le> MAX_CLIPBOARD_BYTES;
    held (ac_clip a0) + held (ac_guest a0) + length d + sum_list (map (chunk_cost env) pieces) \<le> MAX_CLIPBOARD_SESSION_BYTES;
    ac_process a0 + env_other_bytes env (ac_log a0) + length d + sum_list (map (chunk_cost env) pieces) \<le> MAX_CLIPBOARD_PROCESS_BYTES\<rbrakk> \<Longrightarrow>
   \<exists>b. run_loop env (map (\<lambda>c. says (CBlob s (b64_encode (env_crypto env) c))) pieces) a = (None, b)
     \<and> pasting s a0 (d @ concat pieces) b"
proof (induction pieces arbitrary: d a)
  case Nil
  then show ?case by simp
next
  case (Cons c pieces)
  obtain a1 where a1: "on_client_input env (CBlob s (b64_encode (env_crypto env) c)) a = (Inr None, a1)"
    "pasting s a0 (d @ c) a1"
    using paste_blob [OF Cons.prems(1,2), of c] Cons.prems(4-6) by auto
  have "length c \<le> chunk_cost env c"
    using Cons.prems(2,3) by (simp add: estimate_ok_def chunk_cost_def crypto_okD)
  with Cons.prems(4-6) Cons.IH [OF a1(2) Cons.prems(2,3)] obtain a2 where
    "run_loop env (map (\<lambda>c. says (CBlob s (b64_encode (env_crypto env) c))) pieces) a1 = (None, a2)"
    "pasting s a0 ((d @ c) @ concat pieces) a2" by auto
  with says_step [OF a1(1)] show ?case by simp
qed

text \<open>C25: a paste arrives whole. At any point of a running session, let a client open a text clipboard stream under a number that is
  not in use, send the pieces of a text in base64 and end the stream, with no other event in between. If fewer than four streams are
  open, the opening rate has a token, and what the session and the process are charged with leaves room for the pieces, then nothing is
  refused: the engine, which accepts it, receives exactly the concatenation of the pieces, as one clipboard input, unless the moderator
  denies that input, and the session goes on. What is charged is not only what is held: finished pastes are never given back, so
  the room in the process shrinks.\<close>
theorem paste_delivered:
  assumes "crypto_ok (env_crypto env)" "estimate_ok env"
    and "run_loop env evs (actor_new env enc policy credential) = (None, a)"
    and "starts_with ''text/'' mimetype" "\<not> stream_in_use s a" "hm_len (ac_clip a) < MAX_CLIPBOARD_STREAMS"
    and "fst (open_rate_take (env_instant env (ac_log a)) (ac_rate a))"
    and "sum_list (map (chunk_cost env) pieces) \<le> MAX_CLIPBOARD_BYTES"
    and "held (ac_clip a) + held (ac_guest a) + sum_list (map (chunk_cost env) pieces) \<le> MAX_CLIPBOARD_SESSION_BYTES"
    and "ac_process a + env_other_bytes env (ac_log a) + sum_list (map (chunk_cost env) pieces) \<le> MAX_CLIPBOARD_PROCESS_BYTES"
    and "env_handle_input env (ac_log a) (IClipboard (concat pieces)) = Inr ()"
  shows "\<exists>b. run_loop env (says (CClipboard s mimetype)
        # map (\<lambda>c. says (CBlob s (b64_encode (env_crypto env) c))) pieces @ [says (CEnd s)]) a = (None, b)
      \<and> ac_log b = ac_log a @ (if allowed env (ac_log a) (IClipboard (concat pieces)) then [Input (IClipboard (concat pieces)) True] else [])
      \<and> ac_uploads b = ac_uploads a \<and> ac_guest b = ac_guest a"
proof -
  have "limits_ok a" using run_loop_limits [OF actor_new_limits assms(2), of evs env enc policy credential] assms(3) by simp
  then have wf: "hm_wf (ac_clip a)" by (simp add: limits_ok_def)
  obtain a0 where a0: "on_client_input env (CClipboard s mimetype) a = (Inr None, a0)"
    "pasting s a [] a0" using paste_open [OF assms(4) wf assms(5-7)] by blast
  obtain a1 where a1: "run_loop env (map (\<lambda>c. says (CBlob s (b64_encode (env_crypto env) c))) pieces) a0 = (None, a1)"
    "pasting s a (concat pieces) a1"
    using paste_blobs [OF a0(2) assms(1,2), of pieces] assms(8-10) by auto
  from paste_end [OF a1(2) assms(11)] says_step [OF a0(1)] run_loop_append [OF a1(1)] show ?thesis by (auto simp: says_step)
qed

theorem paste_delivered_witness:
  "\<exists>b. run_loop sample_env [says (CMouse 1 2 0), says (CClipboard 7 ''text/plain''), says (CBlob 7 (base64_encode [104, 105])),
        says (CBlob 7 (base64_encode [33])), says (CEnd 7)]
        (actor_new sample_env encoder_new sample_policy True) = (None, b)
      \<and> ac_log b = [Input (IMouse 1 2 0) True, Input (IClipboard [104, 105, 33]) True]"
proof -
  have env: "env_crypto sample_env = checksum_crypto" "env_review sample_env = None"
    "env_handle_input sample_env h i = Inr ()" "env_other_bytes sample_env h = 0" for h i
    by (simp_all add: sample_env_def)
  have b: "b64_encode checksum_crypto = base64_encode" by (simp add: checksum_crypto_def)
  have cost: "chunk_cost sample_env [104, 105] = 6" "chunk_cost sample_env [33] = 6"
    by (simp_all add: chunk_cost_def env b base64_length, simp_all add: sample_env_def)
  let ?a = "(actor_new sample_env encoder_new sample_policy True)\<lparr>ac_log := [Input (IMouse 1 2 0) True]\<rparr>"
  have first: "run_loop sample_env [says (CMouse 1 2 0)] (actor_new sample_env encoder_new sample_policy True) = (None, ?a)"
    by (simp add: says_def sample_simps)
  have a: "\<not> stream_in_use 7 ?a" "hm_len (ac_clip ?a) < MAX_CLIPBOARD_STREAMS" "held (ac_clip ?a) = 0" "held (ac_guest ?a) = 0" "ac_process ?a = 0"
    "fst (open_rate_take (env_instant sample_env (ac_log ?a)) (ac_rate ?a))" "ac_log ?a = [Input (IMouse 1 2 0) True]"
    by (simp_all add: actor_new_def stream_in_use_def hm_contains_iff hm_len_def held_def hm_values_def open_rate_take_def open_rate_new_def bound_simps)
  have "\<exists>b. run_loop sample_env (says (CClipboard 7 ''text/plain'')
        # map (\<lambda>c. says (CBlob 7 (b64_encode (env_crypto sample_env) c))) [[104, 105], [33]] @ [says (CEnd 7)]) ?a = (None, b)
      \<and> ac_log b = ac_log ?a @ (if allowed sample_env (ac_log ?a) (IClipboard (concat [[104, 105], [33]])) then [Input (IClipboard (concat [[104, 105], [33]])) True] else [])
      \<and> ac_uploads b = ac_uploads ?a \<and> ac_guest b = ac_guest ?a"
    by (rule paste_delivered [OF _ sample_estimate first _ a(1,2,6)]) (unfold a(3-5) env, simp_all add: cost checksum_crypto_ok starts_with_def bound_simps)
  then show ?thesis using run_loop_append [OF first]
    by (auto simp: env b allowed_def a(7) simp del: base64_encode.simps run_loop.simps)
qed

text \<open>Completing a paste leaks its size from the process-wide clipboard counter: the bytes are moved out
  of the pending stream before it is dropped, so nothing is given back for them, and the amount the
  session leaves behind in the counter after its teardown grows by the length of every completed paste.\<close>
lemma completed_paste_leaks:
  assumes "limits_ok a" "hm_get s (ac_clip a) = Some p" "s \<notin> set (ac_uploads a)"
  shows "ac_process (drop_actor (snd (on_client_input env (CEnd s) a))) = ac_process (drop_actor a) + length (pc_data p)"
proof -
  have p: "hm_get s (streams_of False a) = Some p" using assms(2) by (simp add: streams_of_def)
  obtain b where b: "take_stream False s a = (Some (pc_data p), b)"
    using take_stream_leaks(1) [OF assms(1) p] by (cases "take_stream False s a") simp
  have l: "leaked b = leaked a + length (pc_data p)" using take_stream_leaks(2) [OF assms(1) p] b by simp
  have "snd (on_client_input env (CEnd s) a) = snd (deliver env (IClipboard (pc_data p)) b)"
    using assms(3) b by (simp add: on_client_input_def deliver_none_def snd_and_do split: sum.split)
  moreover have "leaked (snd (deliver env (IClipboard (pc_data p)) b)) = leaked b"
    by (rule leaked_cong [OF deliver_keeps(1)])
  ultimately show ?thesis using l by (simp add: drop_actor_def leaked_def)
qed

section \<open>Ending\<close>

lemma credential_keeps [simp]:
  "ac_credential (snd (on_target_event env ev a)) = ac_credential a"
  "ac_credential (snd (emit_sync env a)) = ac_credential a"
  "ac_credential (snd (deliver env i a)) = ac_credential a"
  "ac_credential (try_send_all env fs a) = ac_credential a"
  "ac_credential (snd (call_checkpoint env a)) = ac_credential a"
  using on_target_event_streams [of a env ev] emit_sync_keeps(1) [of a env] deliver_keeps(1) [of a env i]
    try_send_all_keeps [of a env fs]
  by (simp_all add: same_streams_def call_checkpoint_def logged_def Let_def)

lemma stream_ops_credential [simp]:
  "ac_credential (drop_stream g s a) = ac_credential a" "ac_credential (snd (open_clipboard env s g a)) = ac_credential a"
  "ac_credential (snd (append_clipboard env s d g a)) = ac_credential a" "ac_credential (snd (take_stream g s a)) = ac_credential a"
  by (auto simp: drop_stream_def open_clipboard_def append_clipboard_def take_stream_def drop_idle_def set_streams_def
      Let_def split_def split: option.split)

lemma refuse_opt_credential [simp]: "ac_credential (snd (refuse_opt env s p)) = ac_credential (snd p)"
  by (auto simp: refuse_opt_def refuse_def snd_and_do split: prod.split option.split sum.split)

lemma input_credential [simp]:
  "ac_credential (snd (on_client_input env i a)) = ac_credential a"
  "ac_credential (snd (on_guest_input env i a)) = ac_credential a"
proof -
  have t: "take_stream g s a = (x, b) \<Longrightarrow> ac_credential b = ac_credential a" for g s x b
    using stream_ops_credential(4) [of g s a] by simp
  show "ac_credential (snd (on_client_input env i a)) = ac_credential a"
    by (cases i) (auto simp: on_client_input_def Let_def split_def t split: prod.split option.split)
  show "ac_credential (snd (on_guest_input env i a)) = ac_credential a"
    by (cases i) (auto simp: on_guest_input_def t split: prod.split option.split)
qed

lemma fail_credential [simp]:
  "ac_credential (snd (end_after_failure env err a)) = ac_credential a"
  "ac_credential (snd (fail_step env err a)) = ac_credential a"
proof -
  show e: "ac_credential (snd (end_after_failure env err' a)) = ac_credential a" for err'
    by (auto simp: end_after_failure_def Let_def split_def split: session_error.split)
  show "ac_credential (snd (fail_step env err a)) = ac_credential a"
    by (auto simp: fail_step_def end_after_input_failure_def notify_end_def e Let_def split_def logged_def
        split: session_error.split option.split sum.split target_event.split)
qed

lemma loop_step_credential: "ac_credential (snd (loop_step env ev a)) = ac_credential a"
  by (cases ev rule: loop_event_cases)
     (simp_all add: actor_simps notify_end_def Let_def logged_def split: sum.split)

lemma run_loop_credential: "ac_credential (snd (run_loop env evs a)) = ac_credential a"
proof (induction evs arbitrary: a)
  case (Cons ev evs)
  obtain r b where l: "loop_step env ev a = (r, b)" by (cases "loop_step env ev a")
  with loop_step_credential [of env ev a] Cons [of b] show ?case by (cases r) auto
qed simp

text \<open>C24: A session that ends tears down exactly once and in order, after everything else it did: the engine
  is shut down, the recording finalised, and the credential revoked if there is one. None of the three
  happens while the session runs, and the credential's error takes precedence over the recording's.\<close>
theorem teardown_once:
  assumes "run_session env evs (actor_new env enc policy credential) = (Some r, a)"
  shows "\<exists>body. ac_log a = body @ [Shutdown, Finalize] @ (if credential then [Revoke] else [])
     \<and> list_all alive body
     \<and> (let audit = (case env_finalize env (body @ [Shutdown]) of
                       Some r \<Rightarrow> r | None \<Rightarrow> Inl (Audit ''recording finalise timed out''));
            revoked = (if credential
              then (case env_revoke env (body @ [Shutdown, Finalize]) of
                      Some r \<Rightarrow> r | None \<Rightarrow> Inl (PipelineClosed ''credential revoke timed out''))
              else Inr ())
        in r = (case revoked of Inl e \<Rightarrow> Inl e | Inr _ \<Rightarrow> audit))"
proof -
  define b where "b = snd (run_loop env evs (actor_new env enc policy credential))"
  from assms have t: "teardown env b = (r, a)"
    by (auto simp: run_session_def b_def split: prod.splits option.splits)
  have c: "ac_credential b = credential" using run_loop_credential [of env evs "actor_new env enc policy credential"]
    by (simp add: actor_new_def b_def)
  have "list_all alive (ac_log b)" unfolding b_def by (rule alive_history.loop) (simp add: actor_new_def)
  moreover have "ac_log a = ac_log b @ [Shutdown, Finalize] @ (if credential then [Revoke] else [])"
    using teardown_log [of env b] t c by simp
  moreover have "r = fst (teardown env b)" using t by simp
  ultimately show ?thesis
    by (intro exI [of _ "ac_log b"], cases credential) (simp_all add: teardown_def Let_def split_def logged_def c split: sum.split)
qed

theorem teardown_once_witness:
  "\<exists>body. ac_log (snd (run_session sample_env sample_turns (actor_new sample_env encoder_new sample_policy True)))
     = body @ [Shutdown, Finalize, Revoke] \<and> list_all alive body"
proof -
  let ?s = "run_session sample_env sample_turns (actor_new sample_env encoder_new sample_policy True)"
  have "fst ?s = Some (Inr ())" by (simp add: sample_turns_def sample_simps)
  then have "?s = (Some (Inr ()), snd ?s)" by (metis prod.collapse)
  from teardown_once [OF this] show ?thesis by auto
qed

end
