(* ===== verification/Session_Manager.thy ===== *)
theory Session_Manager
  imports Session_Actor Edge_Header
begin

text \<open>
  Which sessions are served and admitted: the routing policy, \<open>crates/strata-session/src/routing.rs\<close>,
  and the session registry, \<open>actor/manager.rs\<close>, with the handles it keeps
  (\<open>SessionHandle\<close> in \<open>actor/session.rs\<close>).

  A handle names the command channel of one actor. The channels are kept beside the registry, indexed in
  the order of spawning; a channel is \<open>None\<close> once its actor has ended and the queue of commands not
  yet received otherwise. A full queue makes its sender wait, which is not modelled.
\<close>

section \<open>Routing\<close>

datatype session_backend = Native | Refused

record routing_decision =
  rd_backend :: session_backend
  rd_reason :: str

record routing_policy =
  rp_available :: "protocol set"
  rp_eligible :: "protocol set"

definition routing_refused :: "str \<Rightarrow> routing_decision" where
  "routing_refused why = \<lparr>rd_backend = Refused, rd_reason = why\<rparr>"

definition routing_native :: "str \<Rightarrow> routing_decision" where
  "routing_native why = \<lparr>rd_backend = Native, rd_reason = why\<rparr>"

definition routing_new :: "protocol set \<Rightarrow> routing_policy" where
  "routing_new available = \<lparr>rp_available = available, rp_eligible = available\<rparr>"

text \<open>The cargo features of the build are an argument.\<close>

definition compiled_protocols :: "str set \<Rightarrow> protocol set" where
  "compiled_protocols features =
    (if ''ssh'' \<in> features then {Ssh} else {}) \<union> (if ''rdp'' \<in> features then {Rdp} else {})
    \<union> (if ''vnc'' \<in> features then {Vnc} else {}) \<union> (if ''kubernetes'' \<in> features then {KubeExec} else {})"

definition routing_default :: "str set \<Rightarrow> routing_policy" where
  "routing_default features = routing_new (compiled_protocols features)"

definition with_eligible_protocols :: "protocol set \<Rightarrow> routing_policy \<Rightarrow> routing_policy" where
  "with_eligible_protocols ps policy = policy\<lparr>rp_eligible := ps\<rparr>"

definition decide :: "routing_policy \<Rightarrow> protocol \<Rightarrow> routing_decision" where
  "decide policy p =
    (if p \<notin> rp_available policy then routing_refused ''no engine compiled for protocol''
     else if p \<notin> rp_eligible policy then routing_refused ''protocol disabled by configuration''
     else routing_native ''protocol enabled'')"

section \<open>Handles and channels\<close>

record session_handle =
  sh_id :: str
  sh_chan :: nat

type_synonym channels = "session_command list option list"

definition chan_open :: "nat \<Rightarrow> channels \<Rightarrow> session_command list option" where
  "chan_open n cs = (if n < length cs then cs ! n else None)"

definition send_command :: "session_handle \<Rightarrow> session_command \<Rightarrow> channels \<Rightarrow> (session_error + unit) \<times> channels" where
  "send_command h cmd cs =
    (case chan_open (sh_chan h) cs of
       None \<Rightarrow> (Inl (PipelineClosed ''session actor''), cs)
     | Some q \<Rightarrow> (Inr (), cs[sh_chan h := Some (q @ [cmd])]))"

definition handle_send :: "session_handle \<Rightarrow> client_instruction \<Rightarrow> channels \<Rightarrow> (session_error + unit) \<times> channels" where
  "handle_send h i = send_command h (ClientInput i)"

definition handle_send_guest :: "session_handle \<Rightarrow> client_instruction \<Rightarrow> channels \<Rightarrow> (session_error + unit) \<times> channels" where
  "handle_send_guest h i = send_command h (GuestInput i)"

definition handle_terminate :: "session_handle \<Rightarrow> str \<Rightarrow> channels \<Rightarrow> (session_error + unit) \<times> channels" where
  "handle_terminate h why = send_command h (Terminate why)"

section \<open>The registry\<close>

record manager =
  mg_edge_keys :: "bytes list"
  mg_sessions :: "(str, session_handle) hmap"
  mg_channels :: channels

definition manager_new :: "bytes list \<Rightarrow> manager" where
  "manager_new keys = \<lparr>mg_edge_keys = keys, mg_sessions = [], mg_channels = []\<rparr>"

definition verify_edge :: "crypto \<Rightarrow> manager \<Rightarrow> (str \<rightharpoonup> str) \<Rightarrow> i64 \<Rightarrow> session_error + unit" where
  "verify_edge cr m headers now_ms =
    and_then (ok_or (headers EDGE_HEADER_MAC) (EdgeAuth ''edge mac header missing'')) (\<lambda>mac.
    and_then (map_err (\<lambda>e. EdgeAuth (show_protocol_error e)) (verify cr headers mac (mg_edge_keys m))) (\<lambda>_.
      map_err (\<lambda>e. EdgeAuth (show_protocol_error e)) (check_timestamp headers now_ms)))"

text \<open>The engine factory is an argument; the engine it returns moves into the spawned actor.\<close>

definition spawn :: "str \<Rightarrow> manager \<Rightarrow> session_handle \<times> manager" where
  "spawn sid m =
    (\<lparr>sh_id = sid, sh_chan = length (mg_channels m)\<rparr>, m\<lparr>mg_channels := mg_channels m @ [Some []]\<rparr>)"

definition manager_open ::
    "(target_spec \<Rightarrow> engine_error + 'e) \<Rightarrow> target_spec \<Rightarrow> str \<Rightarrow> manager \<Rightarrow> (session_error + session_handle) \<times> manager" where
  "manager_open connect spec sid m =
    (case connect spec of
       Inl e \<Rightarrow> (Inl (Engine e), m)
     | Inr _ \<Rightarrow>
         let (h, m1) = spawn sid m
         in (Inr h, m1\<lparr>mg_sessions := hm_insert (sh_id h) h (mg_sessions m1)\<rparr>))"

definition manager_get :: "str \<Rightarrow> manager \<Rightarrow> session_handle option" where
  "manager_get sid m = hm_get sid (mg_sessions m)"

definition manager_close :: "str \<Rightarrow> str \<Rightarrow> manager \<Rightarrow> (session_error + unit) \<times> manager" where
  "manager_close sid why m =
    (case hm_get sid (mg_sessions m) of
       None \<Rightarrow> (Inl (UnknownSession sid), m)
     | Some h \<Rightarrow>
         let (r, cs) = handle_terminate h why (mg_channels m)
         in (r, m\<lparr>mg_sessions := hm_remove sid (mg_sessions m), mg_channels := cs\<rparr>))"

definition manager_len :: "manager \<Rightarrow> nat" where
  "manager_len m = hm_len (mg_sessions m)"

definition manager_is_empty :: "manager \<Rightarrow> bool" where
  "manager_is_empty m \<longleftrightarrow> manager_len m = 0"

section \<open>Well-formed registries\<close>

text \<open>Every registered handle has the id it is registered under and a channel of its own.\<close>

definition manager_wf :: "manager \<Rightarrow> bool" where
  "manager_wf m \<longleftrightarrow> hm_wf (mg_sessions m)
    \<and> (\<forall>(sid, h) \<in> set (mg_sessions m). sh_id h = sid \<and> sh_chan h < length (mg_channels m))
    \<and> distinct (map (sh_chan \<circ> snd) (mg_sessions m))"

lemma manager_wf_new: "manager_wf (manager_new keys)"
  by (simp add: manager_wf_def manager_new_def hm_wf_def)

lemma send_command_length [simp]: "length (snd (send_command h cmd cs)) = length cs"
  by (simp add: send_command_def split: option.split)

lemma manager_wf_remove:
  "manager_wf m \<Longrightarrow> length cs = length (mg_channels m) \<Longrightarrow>
   manager_wf (m\<lparr>mg_sessions := hm_remove sid (mg_sessions m), mg_channels := cs\<rparr>)"
  by (auto simp: manager_wf_def hm_wf_def hm_remove_def distinct_map_filter)

lemma manager_wf_open:
  assumes "manager_wf m"
  shows "manager_wf (snd (manager_open connect spec sid m))"
proof -
  have "distinct (map (sh_chan \<circ> snd) (hm_remove sid (mg_sessions m)))" "distinct (map fst (hm_remove sid (mg_sessions m)))"
    using assms by (simp_all add: manager_wf_def hm_wf_def hm_remove_def distinct_map_filter)
  then show ?thesis
    using assms
    by (fastforce simp: manager_open_def spawn_def manager_wf_def hm_wf_def hm_insert_def hm_remove_def split: sum.split)
qed

lemma manager_wf_close: "manager_wf m \<Longrightarrow> manager_wf (snd (manager_close sid why m))"
  by (auto simp: manager_close_def handle_terminate_def Let_def split_def intro: manager_wf_remove split: option.split)

section \<open>Properties\<close>

lemma verify_edge_Inr:
  "verify_edge cr m headers now_ms = Inr () \<longleftrightarrow>
    (\<exists>mac. headers EDGE_HEADER_MAC = Some mac \<and> verify cr headers mac (mg_edge_keys m) = Inr ())
    \<and> check_timestamp headers now_ms = Inr ()"
  by (auto simp: verify_edge_def result_simps)

text \<open>The manager admits an edge request exactly when its MAC header is the tag of its canonical headers
  under a configured key and its timestamp is a number within sixty seconds of the clock (or the one
  instant \<open>2 ^ 63\<close> milliseconds away that the wrapping subtraction lets through).\<close>
lemma edge_admission:
  assumes "0 \<le> sint now_ms" "sint now_ms < 2 ^ 62"
  shows "verify_edge cr m headers now_ms = Inr () \<longleftrightarrow>
      (\<exists>mac key s ts. headers EDGE_HEADER_MAC = Some mac \<and> key \<in> set (mg_edge_keys m)
        \<and> b64_decode cr mac = Some (hmac cr key (canonical_input headers))
        \<and> headers ''x-strata-edge-timestamp-ms'' = Some s \<and> parse_i64 s = Some ts
        \<and> (\<bar>sint now_ms - sint ts\<bar> \<le> 60000 \<or> sint ts = sint now_ms - 2 ^ 63))"
  using skew_exceeds_iff [OF assms, of 60000]
  by (fastforce simp: verify_edge_Inr verify_Inr check_timestamp_Inr MAX_TIMESTAMP_SKEW_MS_def)

definition sample_edge_headers :: "str \<rightharpoonup> str" where
  "sample_edge_headers = [''x-strata-edge-timestamp-ms'' \<mapsto> show_i64 1000]"

text \<open>Whatever protocols a deployment declares eligible, a session is served natively exactly for the
  protocols that are both eligible and compiled into the build: a protocol without an engine is never
  claimed as servable.\<close>
lemma routing_only_compiled:
  "rd_backend (decide (with_eligible_protocols ps (routing_default features)) p) = Native
   \<longleftrightarrow> p \<in> compiled_protocols features \<and> p \<in> ps"
  by (simp add: decide_def with_eligible_protocols_def routing_default_def routing_new_def routing_refused_def
      routing_native_def)

text \<open>A session that was opened can be found and closed: opening registers the new actor's handle under
  its id and leaves every other entry alone; closing that id removes it and queues exactly the termination
  on the new actor's channel, while every channel that existed before keeps its queue.\<close>
lemma opened_session_closable:
  assumes "manager_open connect spec sid m = (Inr h, m1)"
  shows "manager_get sid m1 = Some h \<and> (other = sid \<or> manager_get other m1 = manager_get other m)
    \<and> fst (manager_close sid why m1) = Inr () \<and> manager_get sid (snd (manager_close sid why m1)) = None
    \<and> mg_channels (snd (manager_close sid why m1)) = mg_channels m @ [Some [Terminate why]]"
  using assms
  by (auto simp: manager_open_def spawn_def manager_get_def manager_close_def handle_terminate_def send_command_def
      chan_open_def Let_def nth_append list_update_append split: sum.splits if_splits)

definition sample_spec :: target_spec where
  "sample_spec = \<lparr>ts_protocol = Ssh, ts_hostname = ''h'', ts_connect_addr = None, ts_port = 22,
     ts_username = ''u'', ts_secret = ''s'', ts_width = 80, ts_height = 24\<rparr>"

text \<open>Every sequence of openings and closings keeps the registry well-formed: ids are unique, a handle is
  registered under its own id, and no two registered sessions share a command channel.\<close>
lemma registry_well_formed:
  "manager_wf (foldl (\<lambda>m op. case op of Inl (connect, spec, sid) \<Rightarrow> snd (manager_open connect spec sid m)
      | Inr (sid, why) \<Rightarrow> snd (manager_close sid why m)) (manager_new keys) ops)"
proof (induction ops rule: rev_induct)
  case Nil
  show ?case by (simp add: manager_wf_new)
next
  case (snoc op ops)
  then show ?case by (simp add: manager_wf_open manager_wf_close split: sum.split prod.split)
qed

end
