(* ===== verification/Http_Headers.thy ===== *)
theory Http_Headers
  imports Rust_Text
begin

text \<open>
  \<open>http::HeaderMap\<close> and \<open>http::HeaderValue\<close>, which the edge proxy and the backend take from the http
  crate. A header map is an argument type, its operations a record, and the laws the sources rely on are
  the predicate \<open>header_ok\<close>. Names are the lower-case texts of \<open>HeaderName::as_str\<close>, values the bytes of
  a \<open>HeaderValue\<close>. The list of pairs that satisfies the laws is the instance the witnesses use.
\<close>

record 'h header_ops =
  hd_iter :: "'h \<Rightarrow> (str \<times> str) list"
  hd_keys :: "'h \<Rightarrow> str list"
  hd_get :: "str \<Rightarrow> 'h \<Rightarrow> str option"
  hd_insert :: "str \<Rightarrow> str \<Rightarrow> 'h \<Rightarrow> 'h"
  hd_remove :: "str \<Rightarrow> 'h \<Rightarrow> 'h"
  hv_from_str :: "str \<Rightarrow> bool"
  hv_to_str :: "str \<Rightarrow> bool"

text \<open>A response with a text body, as the middlewares build it.\<close>

record response =
  rs_status :: nat
  rs_body :: str
  rs_headers :: "(str \<times> str) list"

definition hd_all :: "'h header_ops \<Rightarrow> str \<Rightarrow> 'h \<Rightarrow> str list" where
  "hd_all H n h = map snd (filter (\<lambda>kv. fst kv = n) (hd_iter H h))"

definition lower_case :: "str \<Rightarrow> bool" where
  "lower_case n \<longleftrightarrow> to_ascii_lowercase n = n"

text \<open>
  \<open>get\<close> returns the first value of a name, \<open>insert\<close> replaces all of them, \<open>remove\<close> drops all of them;
  \<open>to_str\<close> succeeds exactly on visible ASCII, and \<open>from_str\<close> accepts at least that.
\<close>

definition header_ok :: "'h header_ops \<Rightarrow> bool" where
  "header_ok H \<longleftrightarrow>
     (\<forall>n h. hd_get H n h = (case hd_all H n h of [] \<Rightarrow> None | v # _ \<Rightarrow> Some v))
   \<and> (\<forall>m n v h. lower_case n \<longrightarrow> hd_all H m (hd_insert H n v h) = (if m = n then [v] else hd_all H m h))
   \<and> (\<forall>m n h. hd_all H m (hd_remove H n h) = (if m = n then [] else hd_all H m h))
   \<and> (\<forall>n h. n \<in> set (hd_keys H h) \<longleftrightarrow> hd_all H n h \<noteq> [])
   \<and> (\<forall>n h. hd_all H n h \<noteq> [] \<longrightarrow> lower_case n)
   \<and> (\<forall>v. hv_to_str H v \<longleftrightarrow> list_all visible v)
   \<and> (\<forall>v. list_all visible v \<longrightarrow> hv_from_str H v)"

lemma header_okD:
  assumes "header_ok H"
  shows "hd_get H n h = (case hd_all H n h of [] \<Rightarrow> None | v # _ \<Rightarrow> Some v)"
    "lower_case n \<Longrightarrow> hd_all H m (hd_insert H n v h) = (if m = n then [v] else hd_all H m h)"
    "hd_all H m (hd_remove H n h) = (if m = n then [] else hd_all H m h)"
    "n \<in> set (hd_keys H h) \<longleftrightarrow> hd_all H n h \<noteq> []"
    "hd_all H n h \<noteq> [] \<Longrightarrow> lower_case n"
    "hv_to_str H v \<longleftrightarrow> list_all visible v"
    "list_all visible v \<Longrightarrow> hv_from_str H v"
  using assms unfolding header_ok_def by blast+

lemma hd_get_insert:
  assumes "header_ok H" "lower_case n"
  shows "hd_get H m (hd_insert H n v h) = (if m = n then Some v else hd_get H m h)"
  using header_okD [OF assms(1)] assms(2) by simp

lemma hd_get_remove:
  assumes "header_ok H"
  shows "hd_get H m (hd_remove H n h) = (if m = n then None else hd_get H m h)"
  using header_okD [OF assms] by simp

lemma hd_get_None: "header_ok H \<Longrightarrow> hd_get H n h = None \<longleftrightarrow> hd_all H n h = []"
  by (simp add: header_okD(1) split: list.split)

lemma hd_all_iter: "(n, v) \<in> set (hd_iter H h) \<Longrightarrow> v \<in> set (hd_all H n h)"
  by (force simp: hd_all_def)

lemma iter_hd_all: "v \<in> set (hd_all H n h) \<Longrightarrow> (n, v) \<in> set (hd_iter H h)"
  by (force simp: hd_all_def)

section \<open>Removing a group of headers\<close>

text \<open>The sources collect the names to drop first and remove them one by one.\<close>

definition hd_remove_all :: "'h header_ops \<Rightarrow> str list \<Rightarrow> 'h \<Rightarrow> 'h" where
  "hd_remove_all H ns h = fold (hd_remove H) ns h"

lemma hd_all_remove_all:
  assumes "header_ok H"
  shows "hd_all H m (hd_remove_all H ns h) = (if m \<in> set ns then [] else hd_all H m h)"
  unfolding hd_remove_all_def by (induction ns arbitrary: h) (auto simp: header_okD [OF assms])

lemma hd_get_remove_all:
  assumes "header_ok H"
  shows "hd_get H m (hd_remove_all H ns h) = (if m \<in> set ns then None else hd_get H m h)"
  using hd_all_remove_all [OF assms, of m ns h] by (simp add: header_okD(1) [OF assms])

lemma hd_all_strip:
  assumes "header_ok H" "\<And>n. n \<in> set ns \<longleftrightarrow> P n \<and> hd_all H n h \<noteq> []"
  shows "hd_all H m (hd_remove_all H ns h) = (if P m then [] else hd_all H m h)"
  using assms(2) [of m] by (simp add: hd_all_remove_all [OF assms(1)])

section \<open>Lists of pairs\<close>

definition list_headers :: "(str \<times> str) list header_ops" where
  "list_headers =
    \<lparr>hd_iter = filter (\<lambda>kv. lower_case (fst kv)),
     hd_keys = (\<lambda>h. remdups (map fst (filter (\<lambda>kv. lower_case (fst kv)) h))),
     hd_get = (\<lambda>n h. if lower_case n then map_of h n else None),
     hd_insert = (\<lambda>n v h. (n, v) # filter (\<lambda>kv. fst kv \<noteq> n) h),
     hd_remove = (\<lambda>n h. filter (\<lambda>kv. fst kv \<noteq> n) h),
     hv_from_str = list_all visible,
     hv_to_str = list_all visible\<rparr>"

lemma list_headers_all:
  "hd_all list_headers n h = (if lower_case n then map snd (filter (\<lambda>kv. fst kv = n) h) else [])"
  by (induction h) (auto simp: hd_all_def list_headers_def)

lemma map_of_first:
  "map_of h n = (case map snd (filter (\<lambda>kv. fst kv = n) h) of [] \<Rightarrow> None | v # _ \<Rightarrow> Some v)"
  by (induction h) auto

lemma list_headers_keys:
  "n \<in> set (hd_keys list_headers h) \<longleftrightarrow> hd_all list_headers n h \<noteq> []"
  unfolding list_headers_all by (induction h) (auto simp: list_headers_def)

lemma filter_fst_other:
  "m \<noteq> n \<Longrightarrow> filter (\<lambda>kv. fst kv \<noteq> n \<and> fst kv = m) h = filter (\<lambda>kv. fst kv = m) h"
  by (rule filter_cong) auto

lemma list_headers_ok: "header_ok list_headers"
  unfolding header_ok_def list_headers_all list_headers_keys
  by (auto simp: list_headers_def map_of_first filter_fst_other split: list.splits)

end
