(* ===== verification/Ip_Network.thy ===== *)
theory Ip_Network
  imports Rust_Text
begin

text \<open>
  The reference meaning of a network prefix, which the two hand-written matchers of the edge proxy
  (\<open>edge_signer.rs\<close>, \<open>body_caps.rs\<close>) are compared with: an address is inside a network when both have
  the same family and agree on their leading bits.
\<close>

unbundle bit_operations_syntax

definition max_prefix :: "ip_addr \<Rightarrow> nat" where
  "max_prefix ip = (case ip of V4 _ \<Rightarrow> 32 | V6 _ \<Rightarrow> 128)"

definition in_prefix :: "ip_addr \<Rightarrow> nat \<Rightarrow> ip_addr \<Rightarrow> bool" where
  "in_prefix net p ip =
    (case (net, ip) of
       (V4 a, V4 b) \<Rightarrow> drop_bit (32 - p) b = drop_bit (32 - p) a
     | (V6 a, V6 b) \<Rightarrow> drop_bit (128 - p) b = drop_bit (128 - p) a
     | _ \<Rightarrow> False)"

text \<open>
  Masking with the leading ones keeps exactly the bits that dropping the others keeps. The mask that
  shifts \<open>MAX\<close> to the left by \<open>k\<close> is the complement of the \<open>k\<close> lowest ones.
\<close>

lemma bit_prefix_mask: "bit (x AND NOT (mask k) :: 'a::len word) n \<longleftrightarrow> bit x n \<and> k \<le> n"
  using bit_imp_le_length [of x n] by (auto simp: bit_and_iff bit_not_iff bit_mask_iff not_less)

lemma masked_eq_iff:
  fixes x y :: "'a::len word"
  shows "x AND NOT (mask k) = y AND NOT (mask k) \<longleftrightarrow> drop_bit k x = drop_bit k y"
proof
  assume "x AND NOT (mask k) = y AND NOT (mask k)"
  then have "\<And>n. bit x (k + n) = bit y (k + n)" by (metis bit_prefix_mask le_add1)
  then show "drop_bit k x = drop_bit k y" by (intro bit_eqI) (simp add: bit_drop_bit_eq)
next
  assume "drop_bit k x = drop_bit k y"
  then have "\<And>n. k \<le> n \<Longrightarrow> bit x n = bit y n" by (metis bit_drop_bit_eq le_add_diff_inverse comp_apply)
  then show "x AND NOT (mask k) = y AND NOT (mask k)"
    by (intro bit_eqI) (auto simp: bit_prefix_mask)
qed

lemma mask_full: "NOT (mask LENGTH('a)) = (0 :: 'a::len word)"
  by (rule bit_eqI) (auto simp: bit_not_iff bit_mask_iff)

lemma masked_twice: "x AND NOT (mask k) AND NOT (mask k) = (x AND NOT (mask k) :: 'a::len word)"
  by (simp add: and.assoc)

lemma in_prefix_refl: "in_prefix ip p ip"
  by (simp add: in_prefix_def split: ip_addr.split)

lemma in_prefix_family: "in_prefix net p ip \<Longrightarrow> is_ipv4 net = is_ipv4 ip"
  by (auto simp: in_prefix_def is_ipv4_def split: ip_addr.splits)

end
