(* ===== verification/Edge_Signer.thy ===== *)
theory Edge_Signer
  imports Edge_Header Http_Headers Ip_Network
begin

text \<open>
  The signer of the edge proxy, \<open>crates/strata-dmz/src/edge_signer.rs\<close>: it resolves the client address
  behind trusted load balancers, drops what the client may have forged, and signs the
  \<open>x-strata-edge-*\<close> set. The header map, the MAC, the clock and the fresh UUID are arguments; the method
  and the URI, which the code ignores, are left out.
\<close>

definition MAX_UA_LEN :: nat where [bound_simps]: "MAX_UA_LEN = 1024"
definition MAX_REQUEST_ID_LEN :: nat where [bound_simps]: "MAX_REQUEST_ID_LEN = 128"

type_synonym socket_addr = "ip_addr \<times> 16 word"

section \<open>Trusted networks\<close>

record trusted_net =
  tn_network :: ip_addr
  tn_prefix :: u8

definition checked_shl :: "'a::len word \<Rightarrow> u32 \<Rightarrow> 'a word option" where
  "checked_shl x n = (if unat n < LENGTH('a) then Some (push_bit (unat n) x) else None)"

definition mask_addr :: "ip_addr \<Rightarrow> u8 \<Rightarrow> ip_addr" where
  "mask_addr addr p =
    (case addr of
       V4 bits \<Rightarrow> V4 (bits AND (if p = 0 then 0 else case checked_shl (- 1) (32 - ucast p) of None \<Rightarrow> 0 | Some m \<Rightarrow> m))
     | V6 bits \<Rightarrow> V6 (bits AND (if p = 0 then 0 else case checked_shl (- 1) (128 - ucast p) of None \<Rightarrow> 0 | Some m \<Rightarrow> m)))"

definition net_new :: "ip_addr \<Rightarrow> u8 \<Rightarrow> trusted_net option" where
  "net_new network p =
    (let limit = (case network of V4 _ \<Rightarrow> 32 | V6 _ \<Rightarrow> 128) in
     if p > limit then None else Some \<lparr>tn_network = mask_addr network p, tn_prefix = p\<rparr>)"

definition net_parse :: "str \<Rightarrow> trusted_net option" where
  "net_parse s =
    (case split_once CHR ''/'' s of
       None \<Rightarrow>
         (case parse_ip s of None \<Rightarrow> None | Some ip \<Rightarrow> net_new ip (if is_ipv4 ip then 32 else 128))
     | Some (ip_part, prefix_part) \<Rightarrow>
         (case parse_ip ip_part of
            None \<Rightarrow> None
          | Some ip \<Rightarrow> (case parse_u8 prefix_part of None \<Rightarrow> None | Some p \<Rightarrow> net_new ip p)))"

definition net_contains :: "trusted_net \<Rightarrow> ip_addr \<Rightarrow> bool" where
  "net_contains n addr =
    (case (tn_network n, addr) of
       (V4 _, V4 _) \<Rightarrow> mask_addr addr (tn_prefix n) = tn_network n
     | (V6 _, V6 _) \<Rightarrow> mask_addr addr (tn_prefix n) = tn_network n
     | _ \<Rightarrow> False)"

record edge_signer =
  es_key :: bytes
  es_link_id :: str
  trusted_proxies :: "trusted_net list"

definition signer_from_config :: "bytes \<Rightarrow> str \<Rightarrow> str list \<Rightarrow> edge_signer" where
  "signer_from_config key link_id trust_forwarded_from =
    \<lparr>es_key = key, es_link_id = link_id, trusted_proxies = List.map_filter net_parse trust_forwarded_from\<rparr>"

section \<open>The client address\<close>

definition any_contains :: "trusted_net list \<Rightarrow> ip_addr \<Rightarrow> bool" where
  "any_contains nets ip = list_ex (\<lambda>n. net_contains n ip) nets"

text \<open>The loop over the hops from the right: empty, unparsable and trusted hops are skipped.\<close>

fun first_untrusted :: "trusted_net list \<Rightarrow> str list \<Rightarrow> str option" where
  "first_untrusted nets [] = None"
| "first_untrusted nets (hop # hops) =
    (if hop = [] then first_untrusted nets hops
     else case parse_ip (hd (str_split CHR ''%'' hop)) of
       Some ip \<Rightarrow> if any_contains nets ip then first_untrusted nets hops else Some (show_ip ip)
     | None \<Rightarrow> first_untrusted nets hops)"

definition forwarded_chain :: "'h header_ops \<Rightarrow> 'h \<Rightarrow> str option" where
  "forwarded_chain H headers =
    (case (case hd_get H ''forwarded'' headers of
             Some v \<Rightarrow> Some v | None \<Rightarrow> hd_get H ''x-forwarded-for'' headers) of
       None \<Rightarrow> None | Some v \<Rightarrow> if hv_to_str H v then Some v else None)"

definition peer_address :: "socket_addr option \<Rightarrow> str" where
  "peer_address peer = (case peer of Some sa \<Rightarrow> show_ip (fst sa) | None \<Rightarrow> ''0.0.0.0'')"

definition resolve_client_ip :: "'h header_ops \<Rightarrow> 'h \<Rightarrow> socket_addr option \<Rightarrow> trusted_net list \<Rightarrow> str" where
  "resolve_client_ip H headers peer nets =
    (case peer of
       Some sa \<Rightarrow>
         if any_contains nets (fst sa) then
           (case forwarded_chain H headers of
              Some xff \<Rightarrow>
                (case first_untrusted nets (map trim (rev (str_split CHR '','' xff))) of
                   Some ip \<Rightarrow> ip | None \<Rightarrow> peer_address peer)
            | None \<Rightarrow> peer_address peer)
         else peer_address peer
     | None \<Rightarrow> peer_address peer)"

section \<open>Signing\<close>

definition STRIPPED_EXACT :: "str list" where
  "STRIPPED_EXACT = [''x-real-ip'', ''x-forwarded-for'', ''x-forwarded-host'', ''x-forwarded-proto'',
     ''x-forwarded-port'', ''forwarded'']"

definition stripped_name :: "str \<Rightarrow> bool" where
  "stripped_name s \<longleftrightarrow>
     starts_with ''x-strata-edge-'' s \<or> starts_with ''x-strata-admin'' s \<or> s \<in> set STRIPPED_EXACT"

definition strip_client_headers :: "'h header_ops \<Rightarrow> 'h \<Rightarrow> 'h" where
  "strip_client_headers H headers = hd_remove_all H (filter stripped_name (hd_keys H headers)) headers"

text \<open>\<open>s.is_char_boundary(i)\<close> and the loop that backs off to one.\<close>

definition is_char_boundary :: "str \<Rightarrow> nat \<Rightarrow> bool" where
  "is_char_boundary s i \<longleftrightarrow> i = 0 \<or> i = length s \<or> i < length s \<and> \<not> is_cont (of_char (s ! i))"

fun boundary_before :: "str \<Rightarrow> nat \<Rightarrow> nat" where
  "boundary_before s 0 = 0"
| "boundary_before s (Suc n) = (if is_char_boundary s (Suc n) then Suc n else boundary_before s n)"

definition truncate_ua :: "str \<Rightarrow> str" where
  "truncate_ua s = (if length s > MAX_UA_LEN then take (boundary_before s MAX_UA_LEN) s else s)"

definition text_header :: "'h header_ops \<Rightarrow> str \<Rightarrow> 'h \<Rightarrow> str option" where
  "text_header H name headers =
    (case hd_get H name headers of None \<Rightarrow> None | Some v \<Rightarrow> if hv_to_str H v then Some v else None)"

definition signed_user_agent :: "'h header_ops \<Rightarrow> 'h \<Rightarrow> str" where
  "signed_user_agent H headers =
    (case text_header H ''user-agent'' headers of None \<Rightarrow> [] | Some s \<Rightarrow> truncate_ua s)"

definition request_id_char :: "char \<Rightarrow> bool" where
  "request_id_char b \<longleftrightarrow> ascii_alphanumeric b \<or> b = CHR ''-'' \<or> b = CHR ''_''"

definition signed_request_id :: "'h header_ops \<Rightarrow> str \<Rightarrow> 'h \<Rightarrow> str" where
  "signed_request_id H uuid headers =
    (case text_header H ''x-request-id'' headers of
       None \<Rightarrow> uuid
     | Some s \<Rightarrow> if s \<noteq> [] \<and> length s \<le> MAX_REQUEST_ID_LEN \<and> list_all request_id_char s then s else uuid)"

text \<open>The system clock as milliseconds since the epoch; a clock before the epoch counts as zero.\<close>

definition signed_timestamp :: "nat option \<Rightarrow> str" where
  "signed_timestamp now = show_i64 (case now of None \<Rightarrow> 0 | Some ms \<Rightarrow> of_nat ms)"

definition sanitise :: "str \<Rightarrow> str" where
  "sanitise v = filter (\<lambda>c. (of_char c :: nat) < 128 \<and> \<not> ((of_char c :: nat) < 32 \<or> (of_char c :: nat) = 127)) v"

definition sanitise_field :: "'h header_ops \<Rightarrow> str \<Rightarrow> (str \<rightharpoonup> str) \<Rightarrow> (str \<rightharpoonup> str)" where
  "sanitise_field H name canon =
    (let v = header_value canon name in
     if v = [] then canon
     else if \<not> hv_from_str H v then canon(name \<mapsto> sanitise v)
     else canon)"

definition emit_field :: "'h header_ops \<Rightarrow> (str \<rightharpoonup> str) \<Rightarrow> str \<Rightarrow> 'h \<Rightarrow> 'h" where
  "emit_field H canon name headers =
    (case canon name of
       Some v \<Rightarrow> if v \<noteq> [] \<and> hv_from_str H v then hd_insert H name v headers else headers
     | None \<Rightarrow> headers)"

definition canonical_set :: "str \<Rightarrow> str \<Rightarrow> str \<Rightarrow> str \<Rightarrow> str \<Rightarrow> (str \<rightharpoonup> str)" where
  "canonical_set client_ip user_agent request_id link_id timestamp_ms =
    [''x-strata-edge-client-ip'' \<mapsto> client_ip,
     ''x-strata-edge-tls-version'' \<mapsto> [],
     ''x-strata-edge-tls-cipher'' \<mapsto> [],
     ''x-strata-edge-tls-ja3'' \<mapsto> [],
     ''x-strata-edge-user-agent'' \<mapsto> user_agent,
     ''x-strata-edge-request-id'' \<mapsto> request_id,
     ''x-strata-edge-link-id'' \<mapsto> link_id,
     ''x-strata-edge-timestamp-ms'' \<mapsto> timestamp_ms]"

text \<open>The result is \<open>None\<close> where the code panics because the MAC text is not a header value.\<close>

definition signer_sign ::
    "crypto \<Rightarrow> 'h header_ops \<Rightarrow> str \<Rightarrow> nat option \<Rightarrow> edge_signer \<Rightarrow> socket_addr option \<Rightarrow> 'h \<Rightarrow> 'h option" where
  "signer_sign cr H uuid now sg peer headers =
    (let client_ip = resolve_client_ip H headers peer (trusted_proxies sg);
         stripped = strip_client_headers H headers;
         canon = canonical_set client_ip (signed_user_agent H stripped) (signed_request_id H uuid stripped)
                   (es_link_id sg) (signed_timestamp now);
         cleaned = fold (sanitise_field H) EDGE_HEADERS_CANONICAL canon;
         tag = sign cr cleaned (es_key sg);
         emitted = fold (emit_field H cleaned) EDGE_HEADERS_CANONICAL stripped
     in if hv_from_str H tag then Some (hd_insert H EDGE_HEADER_MAC tag emitted) else None)"

section \<open>Networks agree with the reference meaning\<close>

lemma unat_u8_u32 [simp]: "unat (ucast (p :: u8) :: u32) = unat p"
proof -
  have "unat p < 2 ^ LENGTH(8)" by (rule unsigned_less)
  then have "unat p < 2 ^ 32" by (rule order_less_le_trans) simp
  then show ?thesis by (simp add: unsigned_ucast_eq take_bit_nat_eq_self)
qed

lemma unat_shift_amount:
  "p \<le> (32 :: u8) \<Longrightarrow> unat (32 - ucast p :: u32) = 32 - unat p"
  "p \<le> (128 :: u8) \<Longrightarrow> unat (128 - ucast p :: u32) = 128 - unat p"
  by (simp_all add: unat_sub word_le_nat_alt)

lemma mask_addr_V4: "p \<le> 32 \<Longrightarrow> mask_addr (V4 b) p = V4 (b AND NOT (mask (32 - unat p)))"
  using mask_full [where 'a = 32]
  by (auto simp: mask_addr_def checked_shl_def unat_shift_amount unat_gt_0 word_gt_0 split: option.split)

lemma mask_addr_V6: "p \<le> 128 \<Longrightarrow> mask_addr (V6 b) p = V6 (b AND NOT (mask (128 - unat p)))"
  using mask_full [where 'a = 128]
  by (auto simp: mask_addr_def checked_shl_def unat_shift_amount unat_gt_0 split: option.split)

lemma net_contains_new:
  assumes "net_new net p = Some n"
  shows "net_contains n ip \<longleftrightarrow> in_prefix net (unat p) ip"
proof -
  have n: "n = \<lparr>tn_network = mask_addr net p, tn_prefix = p\<rparr>"
    and p: "p \<le> (case net of V4 _ \<Rightarrow> 32 | V6 _ \<Rightarrow> 128)"
    using assms by (auto simp: net_new_def Let_def not_less split: if_splits)
  show ?thesis
  proof (cases net)
    case (V4 a)
    with p show ?thesis
      by (cases ip) (simp_all add: n net_contains_def in_prefix_def mask_addr_V4 masked_eq_iff)
  next
    case (V6 a)
    with p show ?thesis
      by (cases ip) (simp_all add: n net_contains_def in_prefix_def mask_addr_V6 masked_eq_iff)
  qed
qed

section \<open>The resolved address\<close>

lemma first_untrusted_sound:
  "first_untrusted nets hops = Some a \<Longrightarrow>
    \<exists>hop ip. hop \<in> set hops \<and> parse_ip (hd (str_split CHR ''%'' hop)) = Some ip \<and> \<not> any_contains nets ip \<and> a = show_ip ip"
  by (induction nets hops rule: first_untrusted.induct) (auto split: if_splits option.splits)

section \<open>Printable values\<close>

abbreviation printable :: "str \<Rightarrow> bool" where
  "printable s \<equiv> list_all visible s"

lemma printable_digits: "list_all is_digit s \<Longrightarrow> printable s"
  by (auto simp: list_all_iff is_digit_def visible_def Let_def)

lemma printable_show_nat [simp]: "printable (show_nat n)"
  by (rule printable_digits) simp

lemma printable_show_int [simp]: "printable (show_int i)"
  by (simp add: show_int_def visible_def)

lemma printable_join [simp]: "printable sep \<Longrightarrow> list_all printable ws \<Longrightarrow> printable (join_with sep ws)"
  by (induction sep ws rule: join_with.induct) simp_all

lemma visible_hex_digit: "d < 16 \<Longrightarrow> visible (hex_digit d)"
  by (simp add: visible_def hex_digit_def Let_def)

lemma printable_show_hex [simp]: "printable (show_hex n)"
proof (induction n rule: show_hex.induct)
  case (1 n)
  then show ?case by (subst show_hex.simps) (simp add: visible_hex_digit)
qed

lemma printable_show_ipv4 [simp]: "printable (show_ipv4 w)"
  by (simp add: show_ipv4_def list_all_iff [of printable] visible_def)

lemma printable_show_ip [simp]: "printable (show_ip ip)"
proof -
  have hex: "printable (join_with '':'' (map show_hex xs))" for xs
    by (rule printable_join) (simp_all add: list_all_iff [of printable] visible_def)
  show ?thesis
    by (simp add: show_ip_def show_ipv6_def Let_def split_def hex visible_def split: ip_addr.split)
qed

lemma printable_take: "printable s \<Longrightarrow> printable (take n s)"
  by (auto simp: list_all_iff dest: in_set_takeD)

lemma printable_request_id: "list_all request_id_char s \<Longrightarrow> printable s"
  by (auto simp: list_all_iff request_id_char_def ascii_alphanumeric_def visible_def Let_def)

lemma printable_text_header: "header_ok H \<Longrightarrow> text_header H n h = Some s \<Longrightarrow> printable s"
  by (auto simp: text_header_def header_okD(6) split: option.splits if_splits)

lemma printable_user_agent: "header_ok H \<Longrightarrow> printable (signed_user_agent H h)"
  by (auto simp: signed_user_agent_def truncate_ua_def intro: printable_take dest: printable_text_header
      split: option.split)

lemma printable_signed_request_id: "printable uuid \<Longrightarrow> printable (signed_request_id H uuid h)"
  by (auto simp: signed_request_id_def printable_request_id split: option.split)

lemma printable_timestamp: "printable (signed_timestamp now)"
  by (simp add: signed_timestamp_def show_i64_def)

lemma printable_client_ip: "printable (resolve_client_ip H h peer nets)"
proof -
  have "printable a" if "first_untrusted nets hops = Some a" for a hops
    using first_untrusted_sound [OF that] by auto
  then show ?thesis
    by (auto simp: resolve_client_ip_def peer_address_def visible_def split: option.split)
qed

section \<open>The signed request\<close>

definition signed_set :: "'h header_ops \<Rightarrow> str \<Rightarrow> nat option \<Rightarrow> edge_signer \<Rightarrow> socket_addr option \<Rightarrow> 'h \<Rightarrow> (str \<rightharpoonup> str)" where
  "signed_set H uuid now sg peer headers =
    canonical_set (resolve_client_ip H headers peer (trusted_proxies sg))
      (signed_user_agent H (strip_client_headers H headers))
      (signed_request_id H uuid (strip_client_headers H headers))
      (es_link_id sg) (signed_timestamp now)"

lemma signed_set_printable:
  assumes "header_ok H" "printable uuid" "printable (es_link_id sg)"
    and "signed_set H uuid now sg peer headers n = Some v"
  shows "printable v"
  using assms(4) assms(3) printable_client_ip printable_user_agent [OF assms(1)]
    printable_signed_request_id [OF assms(2)] printable_timestamp
  by (auto simp: signed_set_def canonical_set_def split: if_splits)

lemma sanitise_printable:
  assumes "header_ok H" "\<And>n v. canon n = Some v \<Longrightarrow> printable v"
  shows "fold (sanitise_field H) ns canon = canon"
proof -
  have "sanitise_field H n canon = canon" for n
    using assms(2) [of n] header_okD(7) [OF assms(1)]
    by (auto simp: sanitise_field_def header_value_def Let_def split: option.splits)
  then show ?thesis by (induction ns) simp_all
qed

lemma emit_all:
  assumes "header_ok H" "list_all lower_case ns" "\<And>n v. canon n = Some v \<Longrightarrow> printable v"
  shows "hd_all H m (fold (emit_field H canon) ns h) =
    (if m \<in> set ns \<and> header_value canon m \<noteq> [] then [header_value canon m] else hd_all H m h)"
  using assms(2)
proof (induction ns arbitrary: h)
  case (Cons n ns)
  have "hd_all H m (emit_field H canon n h) =
      (if m = n \<and> header_value canon m \<noteq> [] then [header_value canon m] else hd_all H m h)"
    using Cons.prems assms(3) [of n] header_okD(7) [OF assms(1)]
    by (auto simp: emit_field_def header_value_def header_okD(2) [OF assms(1)] split: option.split)
  with Cons show ?case by auto
qed simp

lemma canonical_lower: "list_all lower_case EDGE_HEADERS_CANONICAL" "lower_case EDGE_HEADER_MAC"
  by (simp_all add: EDGE_HEADERS_CANONICAL_def EDGE_HEADER_MAC_def lower_case_def to_ascii_lowercase_def
      ascii_lower_def Let_def)

lemma canonical_stripped: "n \<in> set EDGE_HEADERS_CANONICAL \<Longrightarrow> stripped_name n" "stripped_name EDGE_HEADER_MAC"
  by (auto simp: EDGE_HEADERS_CANONICAL_def EDGE_HEADER_MAC_def stripped_name_def starts_with_def)

lemma mac_not_canonical: "EDGE_HEADER_MAC \<notin> set EDGE_HEADERS_CANONICAL"
  by (simp add: EDGE_HEADERS_CANONICAL_def EDGE_HEADER_MAC_def)

lemma strip_client_all:
  assumes "header_ok H"
  shows "hd_all H m (strip_client_headers H h) = (if stripped_name m then [] else hd_all H m h)"
  unfolding strip_client_headers_def
  by (rule hd_all_strip [OF assms]) (auto simp: header_okD(4) [OF assms])

definition b64_visible :: "crypto \<Rightarrow> bool" where
  "b64_visible cr \<longleftrightarrow> (\<forall>bs. printable (b64_encode cr bs))"

text \<open>What leaves the signer: the MAC, the non-empty canonical fields, and none of the client's own.\<close>

lemma signer_sign_all:
  fixes now :: "nat option" and peer :: "socket_addr option" and headers :: 'h
  assumes "header_ok H" "b64_visible cr" "printable uuid" "printable (es_link_id sg)"
  defines "canon \<equiv> signed_set H uuid now sg peer headers"
  obtains h' where "signer_sign cr H uuid now sg peer headers = Some h'"
    "\<And>m. hd_all H m h' =
       (if m = EDGE_HEADER_MAC then [sign cr canon (es_key sg)]
        else if m \<in> set EDGE_HEADERS_CANONICAL \<and> header_value canon m \<noteq> [] then [header_value canon m]
        else if stripped_name m then [] else hd_all H m headers)"
proof
  let ?e = "fold (emit_field H canon) EDGE_HEADERS_CANONICAL (strip_client_headers H headers)"
  have vis: "\<And>n v. canon n = Some v \<Longrightarrow> printable v"
    unfolding canon_def using signed_set_printable [OF assms(1,3,4)] .
  have clean: "fold (sanitise_field H) EDGE_HEADERS_CANONICAL canon = canon"
    by (rule sanitise_printable [OF assms(1) vis])
  have tag: "hv_from_str H (sign cr canon (es_key sg))"
    using assms(2) header_okD(7) [OF assms(1)] by (simp add: sign_def b64_visible_def)
  show "signer_sign cr H uuid now sg peer headers = Some (hd_insert H EDGE_HEADER_MAC (sign cr canon (es_key sg)) ?e)"
    using clean tag by (simp add: signer_sign_def Let_def canon_def signed_set_def)
  show "hd_all H m (hd_insert H EDGE_HEADER_MAC (sign cr canon (es_key sg)) ?e) =
       (if m = EDGE_HEADER_MAC then [sign cr canon (es_key sg)]
        else if m \<in> set EDGE_HEADERS_CANONICAL \<and> header_value canon m \<noteq> [] then [header_value canon m]
        else if stripped_name m then [] else hd_all H m headers)" for m
    by (simp add: header_okD(2) [OF assms(1) canonical_lower(2)] emit_all [OF assms(1) canonical_lower(1) vis]
        strip_client_all [OF assms(1)])
qed

section \<open>Properties\<close>

text \<open>The hand-written network matcher is the prefix match it stands for: a network is refused exactly
  when its prefix is longer than the address, and otherwise contains the addresses of its family that
  agree with it on the leading bits.\<close>

lemma trusted_net_prefix:
  "case net_new net p of
     None \<Rightarrow> max_prefix net < unat p
   | Some n \<Rightarrow> unat p \<le> max_prefix net \<and> (net_contains n ip \<longleftrightarrow> in_prefix net (unat p) ip)"
proof (cases "net_new net p")
  case None
  then show ?thesis
    by (auto simp: net_new_def Let_def max_prefix_def word_less_nat_alt split: if_splits ip_addr.splits)
next
  case (Some n)
  then have "unat p \<le> max_prefix net"
    by (auto simp: net_new_def Let_def max_prefix_def word_le_nat_alt not_less split: if_splits ip_addr.splits)
  with Some show ?thesis by (simp add: net_contains_new)
qed

text \<open>The addresses a list of hops names, without the trusted proxies among them, in the order they are written.\<close>

definition hop_address :: "str \<Rightarrow> ip_addr option" where
  "hop_address hop = (if trim hop = [] then None else parse_ip (hd (str_split CHR ''%'' (trim hop))))"

definition untrusted_hops :: "trusted_net list \<Rightarrow> str \<Rightarrow> ip_addr list" where
  "untrusted_hops nets chain = filter (\<lambda>ip. \<not> any_contains nets ip) (List.map_filter hop_address (str_split CHR '','' chain))"

lemma map_filter_append: "List.map_filter f (xs @ ys) = List.map_filter f xs @ List.map_filter f ys"
  by (simp add: List.map_filter_def)

lemma first_untrusted_rev:
  "first_untrusted nets (map trim (rev hops)) =
    (case rev (filter (\<lambda>ip. \<not> any_contains nets ip) (List.map_filter hop_address hops)) of [] \<Rightarrow> None | ip # _ \<Rightarrow> Some (show_ip ip))"
  by (induction hops rule: rev_induct) (auto simp: hop_address_def map_filter_append map_filter_simps split: option.splits)

lemma untrusted_hops_append: "untrusted_hops nets (forged @ CHR '','' # chain) = untrusted_hops nets forged @ untrusted_hops nets chain"
  by (simp add: untrusted_hops_def str_split_append map_filter_append)

lemma chain_resolves:
  assumes "untrusted_hops nets chain \<noteq> []"
  shows "first_untrusted nets (map trim (rev (str_split CHR '','' chain))) = Some (show_ip (last (untrusted_hops nets chain)))"
proof -
  obtain ips ip where "untrusted_hops nets chain = ips @ [ip]" using assms by (cases "untrusted_hops nets chain" rule: rev_cases) blast+
  then show ?thesis by (simp add: first_untrusted_rev untrusted_hops_def)
qed

text \<open>C19: a client cannot choose the address it is logged under. Let the load balancer be a trusted peer that sends no \<open>Forwarded\<close> header
  and appends \<open>chain\<close>, which names at least one address outside the trusted networks, to whatever the client had put in
  \<open>X-Forwarded-For\<close>. Then the address is the last untrusted one of what the balancer appended, whatever the client wrote
  before it; only if the client wrote a byte that is not printable, which voids the whole header, it is the balancer's own.
  Without a trusted peer it is the socket address.\<close>

theorem client_ip_not_spoofable:
  assumes "header_ok H"
    and "any_contains nets (fst sa) \<longrightarrow>
      hd_get H ''forwarded'' headers = None
    \<and> hd_get H ''x-forwarded-for'' headers = Some (forged @ CHR '','' # chain)
    \<and> printable chain \<and> untrusted_hops nets chain \<noteq> []"
  shows "resolve_client_ip H headers (Some sa) nets =
    show_ip (if any_contains nets (fst sa) \<and> printable forged then last (untrusted_hops nets chain) else fst sa)"
proof (cases "any_contains nets (fst sa)")
  case True
  with assms(2) have "forwarded_chain H headers = (if printable forged then Some (forged @ CHR '','' # chain) else None)"
    by (simp add: forwarded_chain_def header_okD(6) [OF assms(1)] visible_def)
  with True assms(2) chain_resolves [of nets "forged @ CHR '','' # chain"] show ?thesis
    by (simp add: resolve_client_ip_def peer_address_def untrusted_hops_append)
qed (simp add: resolve_client_ip_def peer_address_def)

lemmas net_eval = net_contains_def net_new_def mask_addr_def checked_shl_def mask_eq_exp_minus_1

lemma sample_proxy:
  "any_contains [\<lparr>tn_network = V4 0x0A000000, tn_prefix = 8\<rparr>] (V4 0x0A000001)"
  "any_contains [\<lparr>tn_network = V4 0x0A000000, tn_prefix = 8\<rparr>] (V4 0x0A000002)"
  "\<not> any_contains [\<lparr>tn_network = V4 0x0A000000, tn_prefix = 8\<rparr>] (V4 0xCB007109)"
  by (simp_all add: any_contains_def net_eval)

lemma sample_trim:
  "trim '' 203.0.113.9'' = ''203.0.113.9''" "trim '' 10.0.0.2'' = ''10.0.0.2''" "trim ''203.0.113.9'' = ''203.0.113.9''"
  by (simp_all add: trim_def ascii_space_def wide_space_def)

lemma sample_addresses:
  "parse_ip ''203.0.113.9'' = Some (V4 0xCB007109)" "parse_ip ''10.0.0.2'' = Some (V4 0x0A000002)"
  by (simp_all add: ip_eval)

lemma sample_digits: "show_nat 203 = ''203''" "show_nat 0 = ''0''" "show_nat 113 = ''113''" "show_nat 9 = ''9''"
  by code_simp+

lemma sample_shown: "show_ip (V4 0xCB007109) = ''203.0.113.9''"
  by (simp add: show_ip_def show_ipv4_def u32_be_Suc sample_digits)

lemma sample_get:
  "hd_get list_headers ''forwarded'' h = map_of h ''forwarded''"
  "hd_get list_headers ''x-forwarded-for'' h = map_of h ''x-forwarded-for''"
  by (simp_all add: list_headers_def lower_case_def to_ascii_lowercase_def ascii_lower_def)

lemma sample_chain:
  "untrusted_hops [\<lparr>tn_network = V4 0x0A000000, tn_prefix = 8\<rparr>] '' 203.0.113.9, 10.0.0.2'' = [V4 0xCB007109]"
  by (simp add: untrusted_hops_def hop_address_def map_filter_simps sample_trim sample_addresses sample_proxy)

theorem client_ip_not_spoofable_witness:
  "resolve_client_ip list_headers [(''x-forwarded-for'', ''1.1.1.1, 203.0.113.9, 10.0.0.2'')]
     (Some (V4 0x0A000001, 443)) [\<lparr>tn_network = V4 0x0A000000, tn_prefix = 8\<rparr>] = ''203.0.113.9''"
  using client_ip_not_spoofable [OF list_headers_ok, of "[\<lparr>tn_network = V4 0x0A000000, tn_prefix = 8\<rparr>]"
      "(V4 0x0A000001, 443)" "[(''x-forwarded-for'', ''1.1.1.1, 203.0.113.9, 10.0.0.2'')]"
      "''1.1.1.1''" "'' 203.0.113.9, 10.0.0.2''"]
  by (simp add: sample_proxy sample_chain sample_shown sample_get visible_def)

text \<open>If nothing the balancer appended parses, the walk goes on into what the client wrote.\<close>

lemma unparsable_hop_spoofs:
  assumes "header_ok H" "any_contains nets (fst sa)" "hd_get H ''forwarded'' headers = None"
    and "hd_get H ''x-forwarded-for'' headers = Some (forged @ CHR '','' # chain)" "printable (forged @ CHR '','' # chain)"
    and "untrusted_hops nets chain = []" "untrusted_hops nets forged \<noteq> []"
  shows "resolve_client_ip H headers (Some sa) nets = show_ip (last (untrusted_hops nets forged))"
  using assms chain_resolves [of nets "forged @ CHR '','' # chain"]
  by (simp add: resolve_client_ip_def forwarded_chain_def header_okD(6) [OF assms(1)] untrusted_hops_append)

text \<open>The code reads \<open>Forwarded\<close> before \<open>X-Forwarded-For\<close> and as if it were the same list of addresses, so
  a client behind a load balancer that only maintains \<open>X-Forwarded-For\<close> is logged under any address it
  writes into a \<open>Forwarded\<close> header.\<close>

lemma forwarded_header_spoofs:
  assumes "header_ok H" "any_contains nets (fst sa)" "hd_get H ''forwarded'' headers = Some forged" "printable forged"
    and "map trim (rev (str_split CHR '','' forged)) = [hop]" "hop \<noteq> []"
    and "parse_ip (hd (str_split CHR ''%'' hop)) = Some ip" "\<not> any_contains nets ip"
  shows "resolve_client_ip H headers (Some sa) nets = show_ip ip"
proof -
  have "forwarded_chain H headers = Some forged"
    using assms(3,4) by (simp add: forwarded_chain_def header_okD(6) [OF assms(1)])
  with assms(2,5-8) show ?thesis by (simp add: resolve_client_ip_def)
qed

end
