(* ===== verification/Edge_Verify.thy ===== *)
theory Edge_Verify
  imports Edge_Signer
begin

text \<open>
  The internal node's side of edge attribution: \<open>backend/src/services/edge_header.rs\<close> verifies the signed
  header set and attaches a trusted context, \<open>backend/src/services/client_ip.rs\<close> stamps the resolved client
  address for the rest of the backend. A middleware is the function from the request it receives to the
  request (and task-local context) it hands to the next one. The ipnet crate is an argument.
\<close>

record edge_context =
  ctx_client_ip :: str
  ctx_tls_version :: "str option"
  ctx_tls_cipher :: "str option"
  ctx_tls_ja3 :: "str option"
  ctx_user_agent :: "str option"
  ctx_request_id :: "str option"
  ctx_link_id :: "str option"

record 'h request =
  rq_headers :: 'h
  rq_edge :: "edge_context option"
  rq_peer :: "socket_addr option"

section \<open>Verification of the signed headers\<close>

definition load_keys :: "crypto \<Rightarrow> str option \<Rightarrow> bytes list" where
  "load_keys cr env =
    (case env of
       Some v \<Rightarrow>
         if trim v \<noteq> [] then
           List.map_filter (b64_decode cr) (filter (\<lambda>s. s \<noteq> []) (map trim (str_split CHR '','' v)))
         else []
     | None \<Rightarrow> [])"

definition edge_name :: "str \<Rightarrow> bool" where
  "edge_name n \<longleftrightarrow> starts_with ''x-strata-edge-'' n"

fun collect_edge :: "'h header_ops \<Rightarrow> (str \<times> str) list \<Rightarrow> (str \<rightharpoonup> str) \<Rightarrow> (str \<rightharpoonup> str)" where
  "collect_edge H [] out = out"
| "collect_edge H ((n, v) # kvs) out =
    collect_edge H kvs (if edge_name n then if hv_to_str H v then out(to_ascii_lowercase n \<mapsto> v) else out else out)"

definition extract_edge_headers :: "'h header_ops \<Rightarrow> 'h request \<Rightarrow> (str \<rightharpoonup> str)" where
  "extract_edge_headers H req = collect_edge H (hd_iter H (rq_headers req)) Map.empty"

definition strip_edge_headers :: "'h header_ops \<Rightarrow> 'h request \<Rightarrow> 'h request" where
  "strip_edge_headers H req =
    (let to_remove = map fst (filter (\<lambda>kv. edge_name (fst kv)) (hd_iter H (rq_headers req)))
     in req\<lparr>rq_headers := hd_remove_all H to_remove (rq_headers req)\<rparr>)"

definition build_context :: "(str \<rightharpoonup> str) \<Rightarrow> edge_context option" where
  "build_context headers =
    (case headers ''x-strata-edge-client-ip'' of
       None \<Rightarrow> None
     | Some ip \<Rightarrow> Some
        \<lparr>ctx_client_ip = ip,
         ctx_tls_version = headers ''x-strata-edge-tls-version'',
         ctx_tls_cipher = headers ''x-strata-edge-tls-cipher'',
         ctx_tls_ja3 = headers ''x-strata-edge-tls-ja3'',
         ctx_user_agent = headers ''x-strata-edge-user-agent'',
         ctx_request_id = headers ''x-strata-edge-request-id'',
         ctx_link_id = headers ''x-strata-edge-link-id''\<rparr>)"

text \<open>The result is the request for the next handler and the task-local context it runs under.\<close>

definition verify_edge_headers ::
    "crypto \<Rightarrow> 'h header_ops \<Rightarrow> bytes list \<Rightarrow> i64 \<Rightarrow> 'h request \<Rightarrow> 'h request \<times> edge_context option" where
  "verify_edge_headers cr H configured now_ms req =
    (if configured = [] then (strip_edge_headers H req, None)
     else
       let headers = extract_edge_headers H req in
       case headers EDGE_HEADER_MAC of
         None \<Rightarrow> (strip_edge_headers H req, None)
       | Some tag \<Rightarrow>
           let without_mac = headers(EDGE_HEADER_MAC := None);
               signed = (\<lambda>k. if k \<in> set EDGE_HEADERS_CANONICAL then without_mac k else None) in
           (case verify cr signed tag configured of
             Inl e \<Rightarrow> (strip_edge_headers H req, None)
           | Inr _ \<Rightarrow>
               (case check_timestamp signed now_ms of
                  Inl e \<Rightarrow> (strip_edge_headers H req, None)
                | Inr _ \<Rightarrow>
                    let ctx_for_scope = build_context signed;
                        req' = (case ctx_for_scope of
                                  Some ctx \<Rightarrow> req\<lparr>rq_edge := Some ctx\<rparr> | None \<Rightarrow> req)
                    in (strip_edge_headers H req', ctx_for_scope))))"

section \<open>The client address\<close>

definition CLIENT_IP_HEADER :: str where "CLIENT_IP_HEADER = ''x-strata-client-ip''"
definition MAX_XFF_HOPS :: nat where [bound_simps]: "MAX_XFF_HOPS = 20"

record 'n ipnet =
  ipnet_from_str :: "str \<Rightarrow> 'n option"
  ipnet_from :: "ip_addr \<Rightarrow> 'n"
  ipnet_contains :: "'n \<Rightarrow> ip_addr \<Rightarrow> bool"

record 'n ip_config =
  trust_xff :: bool
  trusted :: "'n list"

definition parse_proxy :: "'n ipnet \<Rightarrow> str \<Rightarrow> str + 'n" where
  "parse_proxy N s =
    (case ipnet_from_str N s of
       Some n \<Rightarrow> Inr n
     | None \<Rightarrow>
         (case parse_ip s of
            Some ip \<Rightarrow> Inr (ipnet_from N ip)
          | None \<Rightarrow> Inl (''invalid STRATA_TRUSTED_PROXIES entry: '' @ debug_str s)))"

fun collect_results :: "('a \<Rightarrow> 'e + 'b) \<Rightarrow> 'a list \<Rightarrow> 'e + 'b list" where
  "collect_results f [] = Inr []"
| "collect_results f (x # xs) =
    and_then (f x) (\<lambda>y. and_then (collect_results f xs) (\<lambda>ys. Inr (y # ys)))"

definition parse_trusted_proxies :: "'n ipnet \<Rightarrow> str \<Rightarrow> str + 'n list" where
  "parse_trusted_proxies N raw =
    collect_results (parse_proxy N) (filter (\<lambda>s. s \<noteq> []) (map trim (str_split CHR '','' raw)))"

definition init_from_env :: "'n ipnet \<Rightarrow> str option \<Rightarrow> str option \<Rightarrow> str + 'n ip_config" where
  "init_from_env N trust_env proxies_env =
    and_then (parse_trusted_proxies N (case proxies_env of None \<Rightarrow> [] | Some s \<Rightarrow> s)) (\<lambda>nets.
      Inr \<lparr>trust_xff = (trust_env = Some ''1''), trusted = nets\<rparr>)"

definition is_trusted :: "'n ipnet \<Rightarrow> 'n list \<Rightarrow> ip_addr \<Rightarrow> bool" where
  "is_trusted N nets ip = list_ex (\<lambda>n. ipnet_contains N n ip) nets"

text \<open>The walk over the hops from the right; \<open>client\<close> is the last address it can vouch for.\<close>

fun walk_hops :: "'n ipnet \<Rightarrow> 'n list \<Rightarrow> ip_addr \<Rightarrow> str list \<Rightarrow> ip_addr" where
  "walk_hops N nets client [] = client"
| "walk_hops N nets client (hop # hops) =
    (if hop = [] then walk_hops N nets client hops
     else case parse_ip hop of
       None \<Rightarrow> client
     | Some ip \<Rightarrow> if \<not> is_trusted N nets ip then ip else walk_hops N nets ip hops)"

definition resolve :: "'n ipnet \<Rightarrow> ip_addr \<Rightarrow> str option \<Rightarrow> bool \<Rightarrow> 'n list \<Rightarrow> ip_addr" where
  "resolve N peer xff trust nets =
    (if \<not> trust \<or> \<not> is_trusted N nets peer then peer
     else case xff of
       None \<Rightarrow> peer
     | Some s \<Rightarrow> walk_hops N nets peer (take MAX_XFF_HOPS (map trim (rev (str_split CHR '','' s)))))"

definition resolved_client :: "'h header_ops \<Rightarrow> 'n ipnet \<Rightarrow> 'n ip_config \<Rightarrow> 'h request \<Rightarrow> str option" where
  "resolved_client H N cfg req =
    (case rq_edge req of
       Some edge \<Rightarrow> Some (ctx_client_ip edge)
     | None \<Rightarrow>
         map_option (\<lambda>addr. show_ip (resolve N (fst addr) (text_header H ''x-forwarded-for'' (rq_headers req))
             (trust_xff cfg) (trusted cfg)))
           (rq_peer req))"

definition resolve_client_ip_mw :: "'h header_ops \<Rightarrow> 'n ipnet \<Rightarrow> 'n ip_config \<Rightarrow> 'h request \<Rightarrow> 'h request" where
  "resolve_client_ip_mw H N cfg req =
    (let removed = hd_remove H CLIENT_IP_HEADER (rq_headers req) in
     req\<lparr>rq_headers :=
       (case resolved_client H N cfg req of
          Some ip \<Rightarrow> if hv_from_str H ip then hd_insert H CLIENT_IP_HEADER ip removed else removed
        | None \<Rightarrow> removed)\<rparr>)"

section \<open>Extraction and stripping\<close>

definition last_visible :: "str list \<Rightarrow> str option" where
  "last_visible vs = (case rev (filter (list_all visible) vs) of [] \<Rightarrow> None | v # _ \<Rightarrow> Some v)"

lemma last_visible_simps [simp]:
  "last_visible [] = None" "list_all visible v \<Longrightarrow> last_visible [v] = Some v"
  by (simp_all add: last_visible_def)

lemma collect_edge_apply:
  assumes "header_ok H" "list_all (\<lambda>kv. lower_case (fst kv)) kvs"
  shows "collect_edge H kvs out m =
    (if edge_name m then
       (case last_visible (map snd (filter (\<lambda>kv. fst kv = m) kvs)) of Some v \<Rightarrow> Some v | None \<Rightarrow> out m)
     else out m)"
  using assms(2)
proof (induction kvs arbitrary: out)
  case (Cons kv kvs)
  obtain n v where kv: "kv = (n, v)" by (cases kv)
  then have "to_ascii_lowercase n = n" using Cons.prems by (simp add: lower_case_def)
  with Cons kv header_okD(6) [OF assms(1)] show ?case
    by (auto simp: last_visible_def split: list.splits option.splits)
qed simp

lemma extract_edge_apply:
  assumes "header_ok H"
  shows "extract_edge_headers H req m =
    (if edge_name m then last_visible (hd_all H m (rq_headers req)) else None)"
proof -
  have "list_all (\<lambda>kv. lower_case (fst kv)) (hd_iter H (rq_headers req))"
    unfolding list_all_iff
  proof
    fix kv assume "kv \<in> set (hd_iter H (rq_headers req))"
    then have "snd kv \<in> set (hd_all H (fst kv) (rq_headers req))" by (simp add: hd_all_iter)
    then have "hd_all H (fst kv) (rq_headers req) \<noteq> []" by auto
    then show "lower_case (fst kv)" by (rule header_okD(5) [OF assms])
  qed
  from collect_edge_apply [OF assms this] show ?thesis
    by (simp add: extract_edge_headers_def hd_all_def split: option.split)
qed

lemma strip_edge_all:
  assumes "header_ok H"
  shows "hd_all H m (rq_headers (strip_edge_headers H req)) =
    (if edge_name m then [] else hd_all H m (rq_headers req))"
proof -
  have "n \<in> set (map fst (filter (\<lambda>kv. edge_name (fst kv)) (hd_iter H h))) \<longleftrightarrow> edge_name n \<and> hd_all H n h \<noteq> []" for n h
    by (force simp: hd_all_def filter_empty_conv)
  from hd_all_strip [OF assms this] show ?thesis by (simp add: strip_edge_headers_def Let_def)
qed

lemma strip_edge_fields [simp]:
  "rq_edge (strip_edge_headers H req) = rq_edge req" "rq_peer (strip_edge_headers H req) = rq_peer req"
  by (simp_all add: strip_edge_headers_def Let_def)

section \<open>Authenticity\<close>

text \<open>The canonical headers of a request as the backend reads them.\<close>

definition received_set :: "'h header_ops \<Rightarrow> 'h \<Rightarrow> (str \<rightharpoonup> str)" where
  "received_set H headers n = (if n \<in> set EDGE_HEADERS_CANONICAL then last_visible (hd_all H n headers) else None)"

lemma canonical_edge_name: "n \<in> set EDGE_HEADERS_CANONICAL \<Longrightarrow> edge_name n" "edge_name EDGE_HEADER_MAC"
  by (auto simp: EDGE_HEADERS_CANONICAL_def EDGE_HEADER_MAC_def edge_name_def starts_with_def)

lemma signed_is_received:
  assumes "header_ok H"
  shows "(\<lambda>k. if k \<in> set EDGE_HEADERS_CANONICAL then ((extract_edge_headers H req)(EDGE_HEADER_MAC := None)) k else None)
    = received_set H (rq_headers req)"
  using mac_not_canonical canonical_edge_name(1)
  by (auto simp: fun_eq_iff received_set_def extract_edge_apply [OF assms])

definition authentic :: "crypto \<Rightarrow> 'h header_ops \<Rightarrow> bytes list \<Rightarrow> i64 \<Rightarrow> 'h \<Rightarrow> bool" where
  "authentic cr H keys now_ms headers \<longleftrightarrow>
    (case last_visible (hd_all H EDGE_HEADER_MAC headers) of
       None \<Rightarrow> False
     | Some tag \<Rightarrow> verify cr (received_set H headers) tag keys = Inr ()
                 \<and> check_timestamp (received_set H headers) now_ms = Inr ())"

lemma verify_edge_headers_eq:
  assumes "header_ok H"
  shows "verify_edge_headers cr H keys now_ms req =
    (let scope = (if authentic cr H keys now_ms (rq_headers req) then build_context (received_set H (rq_headers req)) else None)
     in (strip_edge_headers H (case scope of None \<Rightarrow> req | Some ctx \<Rightarrow> req\<lparr>rq_edge := Some ctx\<rparr>), scope))"
proof (cases "keys = []")
  case True
  then show ?thesis
    by (simp add: verify_edge_headers_def authentic_def verify_def Let_def split: option.split)
next
  case False
  let ?R = "received_set H (rq_headers req)"
  show ?thesis
  proof (cases "last_visible (hd_all H EDGE_HEADER_MAC (rq_headers req))")
    case None
    with False canonical_edge_name(2) show ?thesis
      by (simp add: verify_edge_headers_def authentic_def Let_def extract_edge_apply [OF assms])
  next
    case (Some tag)
    with False canonical_edge_name(2) show ?thesis
      unfolding verify_edge_headers_def Let_def signed_is_received [OF assms]
      by (cases "verify cr ?R tag keys"; cases "check_timestamp ?R now_ms")
        (simp_all add: authentic_def extract_edge_apply [OF assms] split: option.split)
  qed
qed

section \<open>From the signer to the backend\<close>

lemma canonical_input_cong:
  assumes "\<And>n. n \<in> set EDGE_HEADERS_CANONICAL \<Longrightarrow> header_value h n = header_value h' n"
  shows "canonical_input h = canonical_input h'"
proof -
  have "canonical_fields h ns = canonical_fields h' ns" if "set ns \<subseteq> set EDGE_HEADERS_CANONICAL" for ns
    using that assms by (induction ns) auto
  then show ?thesis by (simp add: canonical_input_def)
qed

lemma join_with_nonempty: "w \<noteq> [] \<Longrightarrow> join_with sep (w # ws) \<noteq> []"
  by (cases ws) simp_all

lemma show_ip_nonempty [simp]: "show_ip ip \<noteq> []"
proof -
  have "show_hex n \<noteq> []" for n by (subst show_hex.simps) simp
  moreover have "ipv6_groups w \<noteq> []" for w by (simp add: ipv6_groups_def)
  ultimately have "join_with '':'' (map show_hex (ipv6_groups w)) \<noteq> []" for w
    by (metis join_with_nonempty list.exhaust list.map(2))
  then show ?thesis
    by (auto simp: show_ip_def show_ipv4_def show_ipv6_def u32_be_Suc Let_def split_def split: ip_addr.split)
qed

lemma signed_set_values:
  "header_value (signed_set H uuid now sg peer h) ''x-strata-edge-client-ip'' = resolve_client_ip H h peer (trusted_proxies sg)"
  "header_value (signed_set H uuid now sg peer h) ''x-strata-edge-timestamp-ms'' = signed_timestamp now"
  by (simp_all add: signed_set_def canonical_set_def header_value_def)

lemma resolve_client_ip_nonempty: "resolve_client_ip H h peer nets \<noteq> []"
proof -
  have "a \<noteq> []" if "first_untrusted nets hops = Some a" for a hops
    using first_untrusted_sound [OF that] by auto
  then show ?thesis by (auto simp: resolve_client_ip_def peer_address_def split: option.split)
qed

text \<open>The backend reads back what the signer wrote.\<close>

lemma signed_received:
  fixes now :: "nat option" and peer :: "socket_addr option" and headers :: 'h
  assumes "header_ok H" "b64_visible cr" "printable uuid" "printable (es_link_id sg)"
  defines "canon \<equiv> signed_set H uuid now sg peer headers"
  obtains h' where "signer_sign cr H uuid now sg peer headers = Some h'"
    "last_visible (hd_all H EDGE_HEADER_MAC h') = Some (sign cr canon (es_key sg))"
    "\<And>n. n \<in> set EDGE_HEADERS_CANONICAL \<Longrightarrow>
       received_set H h' n = (if header_value canon n = [] then None else Some (header_value canon n))"
proof -
  obtain h' where h': "signer_sign cr H uuid now sg peer headers = Some h'"
    and all: "\<And>m. hd_all H m h' =
       (if m = EDGE_HEADER_MAC then [sign cr canon (es_key sg)]
        else if m \<in> set EDGE_HEADERS_CANONICAL \<and> header_value canon m \<noteq> [] then [header_value canon m]
        else if stripped_name m then [] else hd_all H m headers)"
    using signer_sign_all [OF assms(1-4), of now peer headers thesis] unfolding canon_def by blast
  have vis: "printable (header_value canon n)" for n
    using signed_set_printable [OF assms(1,3,4)]
    by (auto simp: canon_def header_value_def split: option.split)
  show thesis
  proof (rule that [OF h'])
    show "last_visible (hd_all H EDGE_HEADER_MAC h') = Some (sign cr canon (es_key sg))"
      using assms(2) by (simp add: all sign_def b64_visible_def)
    show "received_set H h' n = (if header_value canon n = [] then None else Some (header_value canon n))"
      if "n \<in> set EDGE_HEADERS_CANONICAL" for n
      using that vis canonical_stripped(1) mac_not_canonical by (auto simp: all received_set_def)
  qed
qed

lemma signed_authentic:
  fixes peer :: "socket_addr option" and headers :: 'h
  assumes "header_ok H" "crypto_ok cr" "b64_visible cr" "printable uuid" "printable (es_link_id sg)"
    and "es_key sg \<in> set keys" "\<not> skew_exceeds now_ms (of_nat ms) MAX_TIMESTAMP_SKEW_MS"
  obtains h' ctx where "signer_sign cr H uuid (Some ms) sg peer headers = Some h'"
    "authentic cr H keys now_ms h'" "build_context (received_set H h') = Some ctx"
    "ctx_client_ip ctx = resolve_client_ip H headers peer (trusted_proxies sg)"
proof -
  let ?c = "signed_set H uuid (Some ms) sg peer headers"
  obtain h' where h': "signer_sign cr H uuid (Some ms) sg peer headers = Some h'"
    and mac: "last_visible (hd_all H EDGE_HEADER_MAC h') = Some (sign cr ?c (es_key sg))"
    and got: "\<And>n. n \<in> set EDGE_HEADERS_CANONICAL \<Longrightarrow>
       received_set H h' n = (if header_value ?c n = [] then None else Some (header_value ?c n))"
    using signed_received [OF assms(1,3,4,5), of "Some ms" peer headers thesis] by blast
  have "canonical_input (received_set H h') = canonical_input ?c"
    by (rule canonical_input_cong) (simp add: header_value_def [of "received_set H h'"] got)
  then have verified: "verify cr (received_set H h') (sign cr ?c (es_key sg)) keys = Inr ()"
    using assms(6) by (auto simp: verify_Inr sign_def crypto_okD [OF assms(2)])
  have names: "''x-strata-edge-timestamp-ms'' \<in> set EDGE_HEADERS_CANONICAL"
    "''x-strata-edge-client-ip'' \<in> set EDGE_HEADERS_CANONICAL"
    by (simp_all add: EDGE_HEADERS_CANONICAL_def)
  have ts: "check_timestamp (received_set H h') now_ms = Inr ()"
    using assms(7) by (simp add: check_timestamp_Inr got [OF names(1)] signed_set_values signed_timestamp_def
        show_i64_def show_int_def parse_show_i64 [unfolded show_i64_def show_int_def])
  have ip: "received_set H h' ''x-strata-edge-client-ip'' = Some (resolve_client_ip H headers peer (trusted_proxies sg))"
    by (simp add: got [OF names(2)] signed_set_values resolve_client_ip_nonempty)
  then obtain ctx where "build_context (received_set H h') = Some ctx"
    "ctx_client_ip ctx = resolve_client_ip H headers peer (trusted_proxies sg)"
    by (auto simp: build_context_def)
  moreover have "authentic cr H keys now_ms h'" using verified ts mac by (simp add: authentic_def)
  ultimately show thesis using that [OF h'] by blast
qed

section \<open>Properties\<close>

text \<open>C5: attribution across the whole path. A request the DMZ signs with a key the internal node accepts,
  within the clock skew, reaches the backend with the client address the DMZ resolved: as the trusted
  context of the request, and as the one value of the internal client address header. The link id is printable ASCII.\<close>

theorem edge_attribution:
  assumes "header_ok H" "crypto_ok cr" "b64_visible cr" "printable uuid" "printable (es_link_id sg)"
    and "es_key sg \<in> set keys" "\<not> skew_exceeds now_ms (of_nat ms) MAX_TIMESTAMP_SKEW_MS"
  shows "\<exists>h' ctx. signer_sign cr H uuid (Some ms) sg peer headers = Some h'
    \<and> snd (verify_edge_headers cr H keys now_ms \<lparr>rq_headers = h', rq_edge = None, rq_peer = link_peer\<rparr>) = Some ctx
    \<and> ctx_client_ip ctx = resolve_client_ip H headers peer (trusted_proxies sg)
    \<and> hd_all H CLIENT_IP_HEADER (rq_headers (resolve_client_ip_mw H N cfg
        (fst (verify_edge_headers cr H keys now_ms \<lparr>rq_headers = h', rq_edge = None, rq_peer = link_peer\<rparr>))))
      = [resolve_client_ip H headers peer (trusted_proxies sg)]"
proof -
  obtain h' ctx where h': "signer_sign cr H uuid (Some ms) sg peer headers = Some h'"
    and auth: "authentic cr H keys now_ms h'" "build_context (received_set H h') = Some ctx"
    and ip: "ctx_client_ip ctx = resolve_client_ip H headers peer (trusted_proxies sg)"
    using signed_authentic [OF assms, of peer headers thesis] by blast
  have lower: "lower_case CLIENT_IP_HEADER"
    by (simp add: CLIENT_IP_HEADER_def lower_case_def to_ascii_lowercase_def ascii_lower_def)
  have "hv_from_str H (ctx_client_ip ctx)"
    using header_okD(7) [OF assms(1)] by (simp add: ip printable_client_ip)
  with h' auth ip lower show ?thesis
    by (simp add: verify_edge_headers_eq [OF assms(1)] resolve_client_ip_mw_def resolved_client_def Let_def
        header_okD(2) [OF assms(1)])
qed

lemma checksum_visible: "b64_visible checksum_crypto"
proof -
  have "printable b64_alphabet" by (simp add: b64_alphabet_def visible_def)
  moreover have "length b64_alphabet = 64" by (simp add: b64_alphabet_def)
  ultimately have "visible (b64_char n)" if "n < 64" for n
    using that by (simp add: b64_char_def list_all_length)
  then have "printable (base64_encode bs)" for bs
    by (induction bs rule: base64_encode.induct) (simp_all add: b64_bounds, simp_all add: visible_def)
  then show ?thesis by (simp add: b64_visible_def checksum_crypto_def)
qed

definition sample_signer :: edge_signer where
  "sample_signer = \<lparr>es_key = [4, 5], es_link_id = ''dmz-1'',
     trusted_proxies = [\<lparr>tn_network = V4 0x0A000000, tn_prefix = 8\<rparr>]\<rparr>"

definition ipnet_sample :: "trusted_net ipnet" where
  "ipnet_sample = \<lparr>ipnet_from_str = (\<lambda>s. if CHR ''/'' \<in> set s then net_parse s else None),
     ipnet_from = (\<lambda>ip. \<lparr>tn_network = ip, tn_prefix = (if is_ipv4 ip then 32 else 128)\<rparr>),
     ipnet_contains = net_contains\<rparr>"

theorem edge_attribution_witness:
  "\<exists>h' ctx. signer_sign checksum_crypto list_headers ''u'' (Some 1000) sample_signer (Some (V4 0x0A000001, 443))
       [(''x-forwarded-for'', ''1.1.1.1, 203.0.113.9, 10.0.0.2'')] = Some h'
    \<and> snd (verify_edge_headers checksum_crypto list_headers [[4, 5]] 2000 \<lparr>rq_headers = h', rq_edge = None, rq_peer = None\<rparr>) = Some ctx
    \<and> ctx_client_ip ctx = resolve_client_ip list_headers [(''x-forwarded-for'', ''1.1.1.1, 203.0.113.9, 10.0.0.2'')]
        (Some (V4 0x0A000001, 443)) (trusted_proxies sample_signer)
    \<and> hd_all list_headers CLIENT_IP_HEADER (rq_headers (resolve_client_ip_mw list_headers ipnet_sample
        \<lparr>trust_xff = False, trusted = []\<rparr>
        (fst (verify_edge_headers checksum_crypto list_headers [[4, 5]] 2000 \<lparr>rq_headers = h', rq_edge = None, rq_peer = None\<rparr>))))
      = [resolve_client_ip list_headers [(''x-forwarded-for'', ''1.1.1.1, 203.0.113.9, 10.0.0.2'')]
          (Some (V4 0x0A000001, 443)) (trusted_proxies sample_signer)]"
  by (rule edge_attribution [OF list_headers_ok checksum_crypto_ok checksum_visible])
    (simp_all add: sample_signer_def visible_def skew_exceeds_def i64_abs_def MAX_TIMESTAMP_SKEW_MS_def)

text \<open>The backend never trusts an edge header it did not authenticate. Whatever a request carries, no
  \<open>x-strata-edge-*\<close> header survives and every other header is untouched; the request gets a trusted context
  exactly when its MAC verifies under a configured key over the canonical headers, its timestamp is fresh and
  a client address is present, and the context holds those authenticated values.\<close>

lemma edge_context_authentic:
  assumes "header_ok H" "rq_edge req = None"
    and "verify_edge_headers cr H keys now_ms req = (req', scope)"
  shows "hd_all H m (rq_headers req') = (if edge_name m then [] else hd_all H m (rq_headers req))
    \<and> rq_edge req' = scope
    \<and> (scope = Some ctx \<longleftrightarrow>
        (\<exists>tag key. last_visible (hd_all H EDGE_HEADER_MAC (rq_headers req)) = Some tag \<and> key \<in> set keys
          \<and> b64_decode cr tag = Some (hmac cr key (canonical_input (received_set H (rq_headers req))))
          \<and> check_timestamp (received_set H (rq_headers req)) now_ms = Inr ()
          \<and> build_context (received_set H (rq_headers req)) = Some ctx))"
proof -
  let ?R = "received_set H (rq_headers req)"
  let ?s = "if authentic cr H keys now_ms (rq_headers req) then build_context ?R else None"
  let ?r = "case ?s of None \<Rightarrow> req | Some ctx \<Rightarrow> req\<lparr>rq_edge := Some ctx\<rparr>"
  have "(req', scope) = (strip_edge_headers H ?r, ?s)"
    using assms(3) verify_edge_headers_eq [OF assms(1), of cr keys now_ms req] by (simp only: Let_def)
  then have eq: "scope = ?s \<and> req' = strip_edge_headers H ?r" by (elim Pair_inject) (rule conjI)
  have "rq_headers ?r = rq_headers req" by (simp split: option.split)
  then have "hd_all H m (rq_headers req') = (if edge_name m then [] else hd_all H m (rq_headers req))"
    by (simp only: conjunct2 [OF eq] strip_edge_all [OF assms(1)])
  moreover have "rq_edge req' = scope" using assms(2) by (simp only: eq strip_edge_fields split: option.split) simp
  moreover have "scope = Some ctx \<longleftrightarrow>
        (\<exists>tag key. last_visible (hd_all H EDGE_HEADER_MAC (rq_headers req)) = Some tag \<and> key \<in> set keys
          \<and> b64_decode cr tag = Some (hmac cr key (canonical_input ?R))
          \<and> check_timestamp ?R now_ms = Inr () \<and> build_context ?R = Some ctx)"
    by (simp only: eq) (auto simp: authentic_def verify_Inr split: option.splits)
  ultimately show ?thesis by blast
qed

definition proxy_hop :: "'n ipnet \<Rightarrow> 'n list \<Rightarrow> str \<Rightarrow> bool" where
  "proxy_hop N nets hop \<longleftrightarrow> hop = [] \<or> (case parse_ip hop of None \<Rightarrow> False | Some ip \<Rightarrow> is_trusted N nets ip)"

lemma walk_hops_stop:
  "list_all (proxy_hop N nets) proxies \<Longrightarrow> hop \<noteq> [] \<Longrightarrow> parse_ip hop = Some ip \<Longrightarrow> \<not> is_trusted N nets ip \<Longrightarrow>
    walk_hops N nets client (proxies @ hop # rest) = ip"
  by (induction proxies arbitrary: client) (auto simp: proxy_hop_def split: option.splits)

lemma client_ip_lower: "lower_case CLIENT_IP_HEADER"
  by (simp add: CLIENT_IP_HEADER_def lower_case_def to_ascii_lowercase_def ascii_lower_def)

lemma stamped_header:
  assumes "header_ok H" "resolved_client H N cfg req = Some ip" "printable ip"
  shows "hd_all H CLIENT_IP_HEADER (rq_headers (resolve_client_ip_mw H N cfg req)) = [ip]"
  using assms(2) header_okD(7) [OF assms(1,3)]
  by (simp add: resolve_client_ip_mw_def header_okD(2) [OF assms(1) client_ip_lower])

text \<open>Without a trusted context the backend stamps exactly one client address, whatever value of that header
  the client sent: the socket peer, unless forwarded addresses are enabled and the peer is a trusted proxy, and
  then the rightmost hop that is not one (within the twenty hops it walks), whatever the client put before.\<close>

lemma stamped_client_ip:
  assumes "header_ok H" "rq_edge req = None" "rq_peer req = Some sa"
    and "trust_xff cfg \<and> is_trusted N (trusted cfg) (fst sa) \<longrightarrow>
      hd_get H ''x-forwarded-for'' (rq_headers req) = Some (forged @ CHR '','' # chain)
    \<and> printable (forged @ CHR '','' # chain)
    \<and> map trim (rev (str_split CHR '','' chain)) = proxies @ hop # rest
    \<and> length proxies < MAX_XFF_HOPS \<and> list_all (proxy_hop N (trusted cfg)) proxies
    \<and> hop \<noteq> [] \<and> parse_ip hop = Some ip \<and> \<not> is_trusted N (trusted cfg) ip"
  shows "hd_all H CLIENT_IP_HEADER (rq_headers (resolve_client_ip_mw H N cfg req)) =
    [show_ip (if trust_xff cfg \<and> is_trusted N (trusted cfg) (fst sa) then ip else fst sa)]"
proof -
  let ?t = "trust_xff cfg \<and> is_trusted N (trusted cfg) (fst sa)"
  have "resolve N (fst sa) (text_header H ''x-forwarded-for'' (rq_headers req)) (trust_xff cfg) (trusted cfg) =
    (if ?t then ip else fst sa)"
  proof (cases ?t)
    case True
    with assms(4) obtain more where
      "take MAX_XFF_HOPS (map trim (rev (str_split CHR '','' (forged @ CHR '','' # chain)))) = proxies @ hop # more"
      by (auto simp: str_split_append take_Cons' not_le)
    with True assms(4) show ?thesis
      by (simp add: resolve_def text_header_def header_okD(6) [OF assms(1)] walk_hops_stop)
  qed (auto simp: resolve_def)
  with assms(2,3) have "resolved_client H N cfg req = Some (show_ip (if ?t then ip else fst sa))"
    by (simp add: resolved_client_def)
  from stamped_header [OF assms(1) this] show ?thesis by simp
qed

text \<open>
  The two resolvers treat a hop that is not an address differently: the backend stops at it, the signer skips it
  and goes on to what the client may have written.
\<close>

lemma malformed_hop_skipped:
  assumes "hop \<noteq> []" "parse_ip hop = None" "parse_ip (hd (str_split CHR ''%'' hop)) = None"
  shows "first_untrusted nets (hop # hops) = first_untrusted nets hops" "walk_hops N nets' client (hop # hops) = client"
  using assms by simp_all

end
