(* ===== verification/Dmz_Proxy.thy ===== *)
theory Dmz_Proxy
  imports Edge_Signer Hash_Map
begin

text \<open>
  The reverse proxy of the edge node: the registry of linked internal nodes
  (\<open>crates/strata-dmz/src/link_server/registry.rs\<close>), the forwarding of plain requests
  (\<open>crates/strata-dmz/src/proxy.rs\<close>) and the parts of the WebSocket path that decide what is forwarded
  (\<open>crates/strata-dmz/src/ws_proxy.rs\<close>). The h2 senders are a type parameter; whether one becomes ready, what a
  forwarded request returns, and the random choice are arguments.
\<close>

section \<open>The link registry\<close>

record link_session_info =
  ls_link_id :: str
  ls_cluster_id :: str
  ls_node_id :: str
  ls_software_version :: str
  ls_since :: nat

type_synonym 's link_registry = "(str, link_session_info \<times> 's) hmap"

definition registry_insert :: "link_session_info \<Rightarrow> 's \<Rightarrow> 's link_registry \<Rightarrow> 's link_registry" where
  "registry_insert info sender g = hm_insert (ls_link_id info) (info, sender) g"

definition registry_remove :: "str \<Rightarrow> 's link_registry \<Rightarrow> 's link_registry" where
  "registry_remove link_id g = hm_remove link_id g"

definition pick_any :: "nat \<Rightarrow> 's link_registry \<Rightarrow> (link_session_info \<times> 's) option" where
  "pick_any rnd g = (if g = [] then None else Some (hm_values g ! (rnd mod hm_len g)))"

definition registry_snapshot :: "'s link_registry \<Rightarrow> link_session_info list" where
  "registry_snapshot g = map fst (hm_values g)"

definition any_up :: "'s link_registry \<Rightarrow> bool" where
  "any_up g \<longleftrightarrow> g \<noteq> []"

section \<open>Headers\<close>

definition HOP_BY_HOP :: "str list" where
  "HOP_BY_HOP = [''connection'', ''proxy-connection'', ''proxy-authenticate'', ''proxy-authorization'',
     ''keep-alive'', ''transfer-encoding'', ''te'', ''trailer'', ''upgrade'', ''host'']"

definition is_hop_by_hop :: "str \<Rightarrow> bool" where
  "is_hop_by_hop name = list_ex (\<lambda>h. eq_ignore_ascii_case h name) HOP_BY_HOP"

text \<open>\<open>HeaderName::try_from\<close> of the http crate is the argument \<open>header_name\<close>.\<close>

definition connection_listed :: "'h header_ops \<Rightarrow> (str \<Rightarrow> str option) \<Rightarrow> 'h \<Rightarrow> str list" where
  "connection_listed H header_name headers =
    (case text_header H ''connection'' headers of
       None \<Rightarrow> []
     | Some s \<Rightarrow> List.map_filter (\<lambda>token. header_name (trim token)) (str_split CHR '','' s))"

definition strip_hop_by_hop :: "'h header_ops \<Rightarrow> (str \<Rightarrow> str option) \<Rightarrow> 'h \<Rightarrow> 'h" where
  "strip_hop_by_hop H header_name headers =
    hd_remove_all H HOP_BY_HOP (hd_remove_all H (connection_listed H header_name headers) headers)"

section \<open>Errors\<close>

datatype proxy_error = NoLinkUp | LinkSendUnavailable | UpstreamHandshake | UpstreamProtocol | InvalidRequestUri

definition proxy_error_response :: "proxy_error \<Rightarrow> response" where
  "proxy_error_response e =
    (let (status, msg) = (case e of
        NoLinkUp \<Rightarrow> (503, ''no internal links available'')
      | LinkSendUnavailable \<Rightarrow> (502, ''link session lost during request'')
      | UpstreamHandshake \<Rightarrow> (502, ''upstream link handshake failed'')
      | UpstreamProtocol \<Rightarrow> (502, ''upstream link protocol error'')
      | InvalidRequestUri \<Rightarrow> (400, ''invalid request uri''))
     in \<lparr>rs_status = status, rs_body = msg, rs_headers = [(''x-strata-link'', ''dmz-proxy'')]\<rparr>)"

section \<open>Forwarding a request\<close>

definition MAX_PROXY_REQUEST_BODY_BYTES :: nat where
  [bound_simps]: "MAX_PROXY_REQUEST_BODY_BYTES = 512 * 1024 * 1024"

text \<open>
  The loop that picks a ready sender; the number counts the attempts left, \<open>rnd\<close> gives the random choice of
  each attempt.
\<close>

fun pick_ready ::
    "('s \<Rightarrow> bool) \<Rightarrow> (nat \<Rightarrow> nat) \<Rightarrow> nat \<Rightarrow> 's link_registry
      \<Rightarrow> (proxy_error + link_session_info \<times> 's) \<times> 's link_registry" where
  "pick_ready ready rnd 0 g = (Inl LinkSendUnavailable, g)"
| "pick_ready ready rnd (Suc k) g =
    (case pick_any (rnd k) g of
       None \<Rightarrow> (Inl NoLinkUp, g)
     | Some (info, sender) \<Rightarrow>
         if ready sender then (Inr (info, sender), g)
         else pick_ready ready rnd k (registry_remove (ls_link_id info) g))"

record ('s, 'h) link_env =
  le_ready :: "'s \<Rightarrow> bool"
  le_forward :: "'s \<Rightarrow> 'h \<Rightarrow> proxy_error + response"
  le_random :: "nat \<Rightarrow> nat"

text \<open>
  \<open>authority\<close> is the authority of the URI or of the \<open>Host\<close> header, if any parses, and \<open>uri_ok\<close> whether the
  upstream URI can be built from it. The signer maps the stripped headers to the signed ones.
\<close>

definition proxy ::
    "'h header_ops \<Rightarrow> (str \<Rightarrow> str option) \<Rightarrow> ('h \<Rightarrow> 'h) \<Rightarrow> ('s, 'h) link_env \<Rightarrow> nat
      \<Rightarrow> 'a option \<Rightarrow> ('a \<Rightarrow> bool) \<Rightarrow> 'h \<Rightarrow> 's link_registry \<Rightarrow> (proxy_error + response) \<times> 's link_registry" where
  "proxy H header_name signer env max_request_body authority uri_ok req_headers g =
    (case authority of
       None \<Rightarrow> (Inl InvalidRequestUri, g)
     | Some auth \<Rightarrow>
         if \<not> uri_ok auth then (Inl InvalidRequestUri, g)
         else
           let headers = signer (strip_hop_by_hop H header_name req_headers);
               declared = (case text_header H ''content-length'' req_headers of
                             None \<Rightarrow> None | Some s \<Rightarrow> parse_uint 64 s)
           in if (case declared of None \<Rightarrow> False | Some n \<Rightarrow> n > max_request_body)
              then (Inr \<lparr>rs_status = 413, rs_body = ''request body too large'', rs_headers = []\<rparr>, g)
              else
                (case pick_ready (le_ready env) (le_random env) 2 g of
                   (Inl e, g') \<Rightarrow> (Inl e, g')
                 | (Inr (info, sender), g') \<Rightarrow>
                     (case le_forward env sender headers of
                        Inr resp \<Rightarrow> (Inr resp, g')
                      | Inl e \<Rightarrow>
                          (Inl e, if e = LinkSendUnavailable \<or> e = UpstreamHandshake
                                  then registry_remove (ls_link_id info) g' else g'))))"

section \<open>The body pump\<close>

datatype pump_fail = BodyReadError | CapExceeded | UpstreamGone
datatype reset_reason = CANCEL | INTERNAL_ERROR

text \<open>
  The upstream stream: what was sent, whether it was ended, whether it was reset. The h2 stream answers each
  request for capacity with a grant, or with \<open>None\<close> when the stream failed or was closed; the answers come as a
  list, and a list that has run out means that the answer is still awaited.
\<close>

record up_stream =
  up_sent :: bytes
  up_eos :: bool
  up_reset :: "reset_reason option"

datatype pump_result = Done | Failed pump_fail | Awaiting

text \<open>\<open>send_ok\<close> says whether \<open>send_data\<close> accepts a chunk on the stream.\<close>

fun send_chunk ::
    "(up_stream \<Rightarrow> bool) \<Rightarrow> bytes \<Rightarrow> nat \<Rightarrow> up_stream \<Rightarrow> nat option list
      \<Rightarrow> pump_result option \<times> nat \<times> up_stream \<times> nat option list" where
  "send_chunk send_ok remaining tot up polls =
    (if remaining = [] then (None, tot, up, polls)
     else case polls of
       [] \<Rightarrow> (Some Awaiting, tot, up, [])
     | None # rest \<Rightarrow> (Some (Failed UpstreamGone), tot, up, rest)
     | Some granted # rest \<Rightarrow>
         let n = min granted (length remaining) in
         if \<not> send_ok up then (Some (Failed UpstreamGone), tot, up, rest)
         else send_chunk send_ok (drop n remaining) (tot + n)
                (up\<lparr>up_sent := up_sent up @ take n remaining\<rparr>) rest)"

declare send_chunk.simps [simp del]

fun pump_request_body_upstream ::
    "(up_stream \<Rightarrow> bool) \<Rightarrow> nat \<Rightarrow> (bytes option) list \<Rightarrow> nat \<Rightarrow> up_stream \<Rightarrow> nat option list
      \<Rightarrow> pump_result \<times> up_stream" where
  "pump_request_body_upstream send_ok cap [] tot up polls =
    (if send_ok up then (Done, up\<lparr>up_eos := True\<rparr>) else (Failed UpstreamGone, up))"
| "pump_request_body_upstream send_ok cap (next # body) tot up polls =
    (case next of
       None \<Rightarrow> (Failed BodyReadError, up\<lparr>up_reset := Some INTERNAL_ERROR\<rparr>)
     | Some chunk \<Rightarrow>
         if tot + length chunk > cap then (Failed CapExceeded, up\<lparr>up_reset := Some CANCEL\<rparr>)
         else
           (case send_chunk send_ok chunk tot up polls of
              (Some r, _, up', _) \<Rightarrow> (r, up')
            | (None, tot', up', polls') \<Rightarrow> pump_request_body_upstream send_ok cap body tot' up' polls'))"

section \<open>The WebSocket path\<close>

definition MAX_WS_RELAY_CHUNK_BYTES :: nat where [bound_simps]: "MAX_WS_RELAY_CHUNK_BYTES = 8 * 1024 * 1024"
definition WS_GUID :: str where "WS_GUID = ''258EAFA5-E914-47DA-95CA-C5AB0DC85B11''"

definition SKIP_FORWARD :: "str list" where
  "SKIP_FORWARD = [''host'', ''connection'', ''keep-alive'', ''transfer-encoding'', ''te'', ''trailer'',
     ''proxy-connection'', ''upgrade'', ''sec-websocket-key'', ''sec-websocket-version'', ''sec-websocket-accept'',
     ''sec-websocket-extensions'']"

definition is_websocket_upgrade :: "'h header_ops \<Rightarrow> 'h \<Rightarrow> bool" where
  "is_websocket_upgrade H headers \<longleftrightarrow>
     (case text_header H ''upgrade'' headers of None \<Rightarrow> False | Some s \<Rightarrow> eq_ignore_ascii_case s ''websocket'')
   \<and> (case text_header H ''connection'' headers of
        None \<Rightarrow> False
      | Some s \<Rightarrow> list_ex (\<lambda>tok. eq_ignore_ascii_case (trim tok) ''upgrade'') (str_split CHR '','' s))
   \<and> hd_get H ''sec-websocket-key'' headers \<noteq> None
   \<and> (case text_header H ''sec-websocket-version'' headers of None \<Rightarrow> False | Some s \<Rightarrow> trim s = ''13'')"

text \<open>SHA-1 is an argument.\<close>

definition compute_accept :: "crypto \<Rightarrow> (bytes \<Rightarrow> bytes) \<Rightarrow> str \<Rightarrow> str" where
  "compute_accept cr sha1 key = b64_encode cr (sha1 (as_bytes key @ as_bytes WS_GUID))"

datatype ws_proxy_error =
  WsNoLinkUp | WsLinkSendUnavailable | WsUpstreamHandshake | WsUpstreamRejected nat | WsInvalidRequest

definition ws_error_response :: "ws_proxy_error \<Rightarrow> response" where
  "ws_error_response e =
    (let (status, msg) = (case e of
        WsNoLinkUp \<Rightarrow> (503, ''no internal links available'')
      | WsLinkSendUnavailable \<Rightarrow> (502, ''link session lost during upgrade'')
      | WsUpstreamHandshake \<Rightarrow> (502, ''upstream link upgrade failed'')
      | WsUpstreamRejected s \<Rightarrow>
          (s, if s = 401 then ''upstream rejected websocket: unauthorized''
              else if s = 403 then ''upstream rejected websocket: forbidden''
              else if s = 404 then ''upstream rejected websocket: not found''
              else ''upstream rejected websocket upgrade'')
      | WsInvalidRequest \<Rightarrow> (400, ''invalid websocket upgrade request''))
     in \<lparr>rs_status = status, rs_body = msg, rs_headers = [(''x-strata-link'', ''dmz-proxy-ws'')]\<rparr>)"

text \<open>The headers of an upgrade request that are forwarded, as the list of pairs appended to a fresh map.\<close>

definition ws_forwarded :: "(str \<times> str) list \<Rightarrow> (str \<times> str) list" where
  "ws_forwarded kvs = filter (\<lambda>kv. \<not> list_ex (\<lambda>s. eq_ignore_ascii_case s (fst kv)) SKIP_FORWARD) kvs"

text \<open>The two attempts to open the tunnel; a rejection by the internal node ends the loop.\<close>

fun ws_connect ::
    "('s \<Rightarrow> ws_proxy_error + 'c) \<Rightarrow> (nat \<Rightarrow> nat) \<Rightarrow> nat \<Rightarrow> ws_proxy_error \<Rightarrow> 's link_registry
      \<Rightarrow> (ws_proxy_error + link_session_info \<times> 'c) \<times> 's link_registry" where
  "ws_connect start rnd 0 last_err g = (Inl last_err, g)"
| "ws_connect start rnd (Suc k) last_err g =
    (case pick_any (rnd k) g of
       None \<Rightarrow> (Inl WsNoLinkUp, g)
     | Some (info, sender) \<Rightarrow>
         (case start sender of
            Inr conn \<Rightarrow> (Inr (info, conn), g)
          | Inl e \<Rightarrow>
              if e = WsLinkSendUnavailable \<or> e = WsUpstreamHandshake
              then ws_connect start rnd k e (registry_remove (ls_link_id info) g)
              else (Inl e, g)))"

section \<open>What is stripped\<close>

lemma strip_hop_by_hop_all:
  assumes "header_ok H"
  shows "hd_all H m (strip_hop_by_hop H header_name headers) =
    (if m \<in> set HOP_BY_HOP \<union> set (connection_listed H header_name headers) then [] else hd_all H m headers)"
  by (simp add: strip_hop_by_hop_def hd_all_remove_all [OF assms])

section \<open>The registry and the choice of a link\<close>

definition link_registry_wf :: "'s link_registry \<Rightarrow> bool" where
  "link_registry_wf g \<longleftrightarrow> hm_wf g \<and> list_all (\<lambda>(k, info, _). ls_link_id info = k) g"

lemma link_registry_wf_insert: "link_registry_wf g \<Longrightarrow> link_registry_wf (registry_insert info s g)"
  by (auto simp: link_registry_wf_def registry_insert_def hm_insert_def hm_remove_def hm_wf_insert [unfolded hm_insert_def hm_remove_def]
      list_all_iff)

lemma link_registry_wf_remove: "link_registry_wf g \<Longrightarrow> link_registry_wf (registry_remove k g)"
  by (auto simp: link_registry_wf_def registry_remove_def list_all_iff hm_remove_def hm_wf_remove [unfolded hm_remove_def])

lemma pick_any_registered:
  assumes "link_registry_wf g" "pick_any rnd g = Some (info, s)"
  shows "hm_get (ls_link_id info) g = Some (info, s)"
proof -
  let ?i = "rnd mod length g"
  have ne: "g \<noteq> []" and v: "map snd g ! ?i = (info, s)"
    using assms(2) by (auto simp: pick_any_def hm_values_def hm_len_def split: if_splits)
  then have i: "?i < length g" by simp
  with v have "snd (g ! ?i) = (info, s)" by simp
  then have "(fst (g ! ?i), info, s) \<in> set g" using i nth_mem [OF i] by (metis prod.collapse)
  moreover from this assms(1) have "ls_link_id info = fst (g ! ?i)" by (auto simp: link_registry_wf_def list_all_iff)
  ultimately show ?thesis using assms(1) by (simp add: link_registry_wf_def hm_get_wf)
qed

lemma pick_any_None: "pick_any rnd g = None \<longleftrightarrow> \<not> any_up g"
  by (simp add: pick_any_def any_up_def)

text \<open>A link that is dropped had failed to become ready, and the link that is chosen is registered and ready.\<close>

lemma pick_ready_sound:
  assumes "link_registry_wf g" "pick_ready ready rnd k g = (r, g')"
  shows "link_registry_wf g'"
    and "hm_get l g' = hm_get l g \<or> hm_get l g' = None \<and> (\<exists>info s. hm_get l g = Some (info, s) \<and> \<not> ready s)"
    and "\<And>info s. r = Inr (info, s) \<Longrightarrow> ready s \<and> hm_get (ls_link_id info) g' = Some (info, s)"
    and "r = Inl NoLinkUp \<Longrightarrow> \<not> any_up g'"
proof -
  have "link_registry_wf g' \<and> (hm_get l g' = hm_get l g \<or> hm_get l g' = None \<and> (\<exists>info s. hm_get l g = Some (info, s) \<and> \<not> ready s))
    \<and> (\<forall>info s. r = Inr (info, s) \<longrightarrow> ready s \<and> hm_get (ls_link_id info) g' = Some (info, s))
    \<and> (r = Inl NoLinkUp \<longrightarrow> \<not> any_up g')"
    using assms
  proof (induction k arbitrary: g)
    case (Suc k)
    show ?case
    proof (cases "pick_any (rnd k) g")
      case None
      with Suc.prems show ?thesis by (auto simp: pick_any_None)
    next
      case (Some p)
      obtain info s where p: "p = (info, s)" by (cases p)
      note reg = pick_any_registered [OF Suc.prems(1) Some [unfolded p]]
      show ?thesis
      proof (cases "ready s")
        case True
        with Suc.prems Some p reg show ?thesis by auto
      next
        case False
        with Suc.prems Some p have "pick_ready ready rnd k (registry_remove (ls_link_id info) g) = (r, g')" by simp
        from Suc.IH [OF link_registry_wf_remove [OF Suc.prems(1)] this] reg False show ?thesis
          by (auto simp: registry_remove_def split: if_splits)
      qed
    qed
  qed auto
  then show "link_registry_wf g'"
    "hm_get l g' = hm_get l g \<or> hm_get l g' = None \<and> (\<exists>info s. hm_get l g = Some (info, s) \<and> \<not> ready s)"
    "\<And>info s. r = Inr (info, s) \<Longrightarrow> ready s \<and> hm_get (ls_link_id info) g' = Some (info, s)"
    "r = Inl NoLinkUp \<Longrightarrow> \<not> any_up g'" by blast+
qed

section \<open>The pump\<close>

lemma send_chunk_sent:
  "send_chunk send_ok remaining tot up polls = (r, tot', up', polls') \<Longrightarrow>
    \<exists>n \<le> length remaining. up' = up\<lparr>up_sent := up_sent up @ take n remaining\<rparr> \<and> tot' = tot + n
      \<and> (r = None \<longrightarrow> n = length remaining) \<and> r \<noteq> Some Done"
proof (induction send_ok remaining tot up polls rule: send_chunk.induct)
  case (1 send_ok remaining tot up polls)
  show ?case
  proof (cases "remaining = []")
    case True
    with "1.prems" show ?thesis by (subst (asm) send_chunk.simps) auto
  next
    case ne: False
    show ?thesis
    proof (cases polls)
      case Nil
      with ne "1.prems" show ?thesis by (subst (asm) send_chunk.simps) auto
    next
      case (Cons p rest)
      show ?thesis
      proof (cases "p = None \<or> \<not> send_ok up")
        case True
        with ne Cons "1.prems" show ?thesis
          by (subst (asm) send_chunk.simps) (auto simp: Let_def split: option.splits if_splits)
      next
        case False
        then obtain granted where p: "p = Some granted" "send_ok up" by auto
        let ?n = "min granted (length remaining)"
        from ne Cons p "1.prems" have "send_chunk send_ok (drop ?n remaining) (tot + ?n)
            (up\<lparr>up_sent := up_sent up @ take ?n remaining\<rparr>) rest = (r, tot', up', polls')"
          by (subst (asm) send_chunk.simps) (simp add: Let_def)
        from "1.IH" [OF ne Cons p(1) refl _ this] p(2) obtain m where m: "m \<le> length remaining - ?n"
          "up' = up\<lparr>up_sent := up_sent up @ take ?n remaining @ take m (drop ?n remaining)\<rparr>" "tot' = tot + ?n + m"
          "r = None \<longrightarrow> m = length remaining - ?n" "r \<noteq> Some Done"
          by auto
        then show ?thesis
          by (intro exI [of _ "?n + m"]) (auto simp: take_add)
      qed
    qed
  qed
qed

text \<open>The bytes of the chunks a client's body yields.\<close>

fun body_bytes :: "bytes option list \<Rightarrow> bytes" where
  "body_bytes [] = []"
| "body_bytes (c # cs) = (case c of None \<Rightarrow> [] | Some b \<Rightarrow> b) @ body_bytes cs"

definition pump_inv :: "nat \<Rightarrow> bytes \<Rightarrow> nat \<Rightarrow> up_stream \<Rightarrow> bool" where
  "pump_inv cap before tot up \<longleftrightarrow> up_sent up = before \<and> tot = length before \<and> tot \<le> cap \<and> \<not> up_eos up"

lemma pump_outcome:
  "pump_request_body_upstream send_ok cap body tot up polls = (r, up') \<Longrightarrow> pump_inv cap before tot up \<Longrightarrow>
    length (up_sent up') \<le> cap
  \<and> (\<exists>rest. before @ body_bytes body = up_sent up' @ rest)
  \<and> (up_eos up' \<longleftrightarrow> r = Done)
  \<and> (r = Done \<longrightarrow> list_all (\<lambda>c. c \<noteq> None) body \<and> up_sent up' = before @ body_bytes body)"
proof (induction send_ok cap body tot up polls arbitrary: before rule: pump_request_body_upstream.induct)
  case (1 send_ok cap tot up polls)
  then show ?case by (auto simp: pump_inv_def split: if_splits)
next
  case (2 send_ok cap "next" body tot up polls)
  show ?case
  proof (cases "next")
    case None
    with "2.prems" show ?thesis by (auto simp: pump_inv_def)
  next
    case (Some chunk)
    show ?thesis
    proof (cases "tot + length chunk > cap")
      case True
      with "2.prems" Some show ?thesis by (auto simp: pump_inv_def)
    next
      case False
      obtain s tot1 up1 polls1 where sc: "send_chunk send_ok chunk tot up polls = (s, tot1, up1, polls1)"
        by (metis prod_cases4)
      from send_chunk_sent [OF sc] obtain n where n: "n \<le> length chunk"
        "up1 = up\<lparr>up_sent := up_sent up @ take n chunk\<rparr>" "tot1 = tot + n" "s = None \<longrightarrow> n = length chunk" "s \<noteq> Some Done" by auto
      show ?thesis
      proof (cases s)
        case None
        with n "2.prems"(2) False have inv: "pump_inv cap (before @ chunk) tot1 up1" by (auto simp: pump_inv_def)
        from None sc False Some "2.prems"(1)
        have "pump_request_body_upstream send_ok cap body tot1 up1 polls1 = (r, up')" by simp
        from "2.IH" [OF Some False sc [symmetric] None refl refl this inv] Some show ?thesis by simp
      next
        case (Some res)
        with sc False \<open>next = Some chunk\<close> "2.prems"(1) have up': "r = res" "up' = up1" by simp_all
        from Some n have res: "res \<noteq> Done" by simp
        have "before @ body_bytes (next # body) =
            up_sent up' @ (drop n chunk @ body_bytes body)"
          using n "2.prems"(2) up' \<open>next = Some chunk\<close> by (simp add: pump_inv_def)
        then have "\<exists>rest. before @ body_bytes (next # body) = up_sent up' @ rest" by blast
        moreover have "length (up_sent up') \<le> cap" "\<not> up_eos up'"
          using n up' "2.prems"(2) False by (simp_all add: pump_inv_def)
        ultimately show ?thesis using res up' by blast
      qed
    qed
  qed
qed

section \<open>Properties\<close>

text \<open>The body pump never sends more than the cap upstream, whatever chunks the client sends and however the
  peer grants capacity: what it sent is a prefix of the body, and the stream is ended exactly when every chunk
  was read without error and sent.\<close>

lemma pump_respects_cap:
  assumes "pump_request_body_upstream send_ok cap body 0 \<lparr>up_sent = [], up_eos = False, up_reset = None\<rparr> polls = (r, up)"
  shows "length (up_sent up) \<le> cap
    \<and> prefix (up_sent up) (body_bytes body)
    \<and> (up_eos up \<longleftrightarrow> r = Done)
    \<and> (r = Done \<longrightarrow> list_all (\<lambda>c. c \<noteq> None) body \<and> up_sent up = body_bytes body)"
proof -
  have "pump_inv cap [] 0 \<lparr>up_sent = [], up_eos = False, up_reset = None\<rparr>" by (simp add: pump_inv_def)
  from pump_outcome [OF assms this] show ?thesis by (auto simp: prefix_def)
qed

text \<open>A request changes the registry only by dropping links that failed it: a link whose sender did not become
  ready, or the one whose forwarding failed; every other link stays as it was, and 503 is answered only when no
  link is left.\<close>

lemma proxy_evicts_only_failed:
  assumes "link_registry_wf g"
    and "proxy H header_name signer env max_body authority uri_ok req_headers g = (r, g')"
  shows "link_registry_wf g'
    \<and> (hm_get l g' = hm_get l g
      \<or> hm_get l g' = None \<and> (\<exists>info s. hm_get l g = Some (info, s)
          \<and> (\<not> le_ready env s \<or> (\<exists>e. le_forward env s (signer (strip_hop_by_hop H header_name req_headers)) = Inl e))))
    \<and> (r = Inl NoLinkUp \<and> (\<forall>s h. le_forward env s h \<noteq> Inl NoLinkUp) \<longrightarrow> \<not> any_up g')"
proof -
  obtain p g1 where pr: "pick_ready (le_ready env) (le_random env) 2 g = (p, g1)"
    by (cases "pick_ready (le_ready env) (le_random env) 2 g") auto
  note s = pick_ready_sound [OF assms(1) pr]
  consider "g' = g" "r \<noteq> Inl NoLinkUp" | e where "p = Inl e" "r = Inl e" "g' = g1"
    | info t where "p = Inr (info, t)" "g' = g1" "r = le_forward env t (signer (strip_hop_by_hop H header_name req_headers))"
    | info t e where "p = Inr (info, t)" "g' = registry_remove (ls_link_id info) g1" "r = Inl e"
        "le_forward env t (signer (strip_hop_by_hop H header_name req_headers)) = Inl e"
    using assms(2) pr
    by (auto simp: proxy_def Let_def split: option.splits if_splits sum.splits prod.splits)
  then show ?thesis
  proof cases
    case (4 info t e)
    then have reg: "hm_get (ls_link_id info) g1 = Some (info, t)" using s(3) by blast
    then have "hm_get (ls_link_id info) g = Some (info, t)" using s(2) [of "ls_link_id info"] by auto
    with 4 s(1) s(2) [of l] link_registry_wf_remove [OF s(1)] show ?thesis by (auto simp: registry_remove_def)
  next
    case 1
    with assms(1) show ?thesis by auto
  next
    case (2 e)
    with s(1,4) s(2) [of l] show ?thesis by blast
  next
    case (3 info t)
    with s(1) s(2) [of l] show ?thesis by metis
  qed
qed

lemma sample_proxy_run:
  "proxy list_headers (\<lambda>s. Some (to_ascii_lowercase s)) (\<lambda>h. h)
     \<lparr>le_ready = (\<lambda>s. s = (1::nat)), le_forward = (\<lambda>_ _. Inr \<lparr>rs_status = 200, rs_body = [], rs_headers = []\<rparr>), le_random = (\<lambda>_. 0)\<rparr>
     9 (Some ()) (\<lambda>_. True) []
     [(''a'', \<lparr>ls_link_id = ''a'', ls_cluster_id = [], ls_node_id = [], ls_software_version = [], ls_since = 0\<rparr>, 0),
      (''b'', \<lparr>ls_link_id = ''b'', ls_cluster_id = [], ls_node_id = [], ls_software_version = [], ls_since = 0\<rparr>, 1)]
   = (Inr \<lparr>rs_status = 200, rs_body = [], rs_headers = []\<rparr>,
      [(''b'', \<lparr>ls_link_id = ''b'', ls_cluster_id = [], ls_node_id = [], ls_software_version = [], ls_since = 0\<rparr>, 1)])"
  by (simp add: proxy_def text_header_def list_headers_def numeral_2_eq_2 pick_any_def hm_values_def hm_len_def
      registry_remove_def hm_remove_def)

text \<open>
  A request can hide the address a load balancer recorded for it: a \<open>Connection\<close> header that lists
  \<open>x-forwarded-for\<close> makes the proxy drop that header before the signer reads it, so the request is attributed to
  the load balancer.
\<close>

lemma connection_hides_client:
  assumes "header_ok H" "any_contains nets (fst sa)" "hd_get H ''forwarded'' headers = None"
    and "''x-forwarded-for'' \<in> set (connection_listed H header_name headers)"
  shows "resolve_client_ip H (strip_hop_by_hop H header_name headers) (Some sa) nets = show_ip (fst sa)"
proof -
  have "hd_get H ''x-forwarded-for'' (strip_hop_by_hop H header_name headers) = None"
    "hd_get H ''forwarded'' (strip_hop_by_hop H header_name headers) = None"
    using assms(3,4) by (simp_all add: hd_get_None [OF assms(1)] strip_hop_by_hop_all [OF assms(1)])
  then show ?thesis by (simp add: resolve_client_ip_def forwarded_chain_def peer_address_def)
qed

end
