(* ===== verification/Body_Caps.thy ===== *)
theory Body_Caps
  imports Http_Headers Ip_Network
begin

text \<open>
  The per-network request body caps of the edge proxy, \<open>crates/strata-dmz/src/body_caps.rs\<close>: the parser of
  the rule list, the prefix match with its masks, and the middleware. The body adapter \<open>Limited\<close> of the
  http_body_util crate is an argument of the middleware.
\<close>

record rule =
  ru_net :: ip_addr
  ru_prefix_len :: u8
  ru_cap :: nat

section \<open>Masks and matching\<close>

text \<open>The subtraction is on \<open>u8\<close> and the shift takes its amount modulo the width, as release builds do.\<close>

definition v4_mask :: "u8 \<Rightarrow> u32" where
  "v4_mask p = (if p = 0 then 0 else push_bit (unat (32 - p) mod 32) (- 1))"

definition v6_mask :: "u8 \<Rightarrow> 128 word" where
  "v6_mask p = (if p = 0 then 0 else push_bit (unat (128 - p) mod 128) (- 1))"

definition mask_to_prefix :: "ip_addr \<Rightarrow> u8 \<Rightarrow> ip_addr" where
  "mask_to_prefix addr p =
    (case addr of V4 v4 \<Rightarrow> V4 (v4 AND v4_mask p) | V6 v6 \<Rightarrow> V6 (v6 AND v6_mask p))"

definition matches :: "rule \<Rightarrow> ip_addr \<Rightarrow> bool" where
  "matches r ip =
    (case (ru_net r, ip) of
       (V4 net, V4 probe) \<Rightarrow> (let m = v4_mask (ru_prefix_len r) in net AND m = probe AND m)
     | (V6 net, V6 probe) \<Rightarrow> (let m = v6_mask (ru_prefix_len r) in net AND m = probe AND m)
     | _ \<Rightarrow> False)"

fun lookup :: "rule list \<Rightarrow> ip_addr \<Rightarrow> nat option" where
  "lookup [] ip = None"
| "lookup (r # rs) ip = (if matches r ip then Some (ru_cap r) else lookup rs ip)"

section \<open>The rule list\<close>

definition parse_cidr :: "str \<Rightarrow> (ip_addr \<times> u8) option" where
  "parse_cidr s =
    (let (addr_str, prefix_str) = (case split_once CHR ''/'' s of Some (a, p) \<Rightarrow> (a, Some p) | None \<Rightarrow> (s, None)) in
     case parse_ip addr_str of
       None \<Rightarrow> None
     | Some addr \<Rightarrow>
         let limit = (case addr of V4 _ \<Rightarrow> 32 | V6 _ \<Rightarrow> 128) in
         (case (case prefix_str of Some p \<Rightarrow> parse_u8 p | None \<Rightarrow> Some limit) of
            None \<Rightarrow> None
          | Some p \<Rightarrow> if p > limit then None else Some (addr, p)))"

definition checked_mul :: "nat \<Rightarrow> nat \<Rightarrow> nat option" where
  "checked_mul a b = (if a * b < 2 ^ 64 then Some (a * b) else None)"

definition parse_bytes :: "str \<Rightarrow> nat option" where
  "parse_bytes s0 =
    (let s = trim s0 in
     if s = [] then None
     else
       let (num, mult) =
         (if last s = CHR ''K'' \<or> last s = CHR ''k'' then (butlast s, 1024)
          else if last s = CHR ''M'' \<or> last s = CHR ''m'' then (butlast s, 1024 * 1024)
          else if last s = CHR ''G'' \<or> last s = CHR ''g'' then (butlast s, 1024 * 1024 * 1024)
          else (s, 1))
       in case parse_uint 64 (trim num) of None \<Rightarrow> None | Some n \<Rightarrow> checked_mul n mult)"

definition parse_rule :: "str \<Rightarrow> str + rule" where
  "parse_rule frag =
    and_then (ok_or (split_once CHR ''='' frag)
      (''rule '' @ debug_str frag @ '' missing '' @ [CHR 0x27, CHR ''='', CHR 0x27] @ '' separator'')) (\<lambda>(cidr, bytes).
    and_then (ok_or (parse_bytes (trim bytes))
      (''rule '' @ debug_str frag @ '': invalid bytes value '' @ debug_str bytes)) (\<lambda>cap.
    and_then (ok_or (parse_cidr (trim cidr))
      (''rule '' @ debug_str frag @ '': invalid CIDR '' @ debug_str cidr)) (\<lambda>(addr, p).
    Inr \<lparr>ru_net = mask_to_prefix addr p, ru_prefix_len = p, ru_cap = cap\<rparr>)))"

fun parse_fragments :: "str list \<Rightarrow> str + rule list" where
  "parse_fragments [] = Inr []"
| "parse_fragments (fragment # fragments) =
    (let frag = trim fragment in
     if frag = [] then parse_fragments fragments
     else and_then (parse_rule frag) (\<lambda>r. and_then (parse_fragments fragments) (\<lambda>rs. Inr (r # rs))))"

text \<open>\<open>sort_by_key\<close> with the reversed prefix length is a stable sort, longest prefix first.\<close>

definition sort_rules :: "rule list \<Rightarrow> rule list" where
  "sort_rules out = sort_key (\<lambda>r. - int (unat (ru_prefix_len r))) out"

definition parse_rules :: "str \<Rightarrow> str + rule list" where
  "parse_rules input =
    (if trim input = [] then Inr []
     else and_then (parse_fragments (str_split CHR '','' input)) (\<lambda>out. Inr (sort_rules out)))"

section \<open>The policy\<close>

record body_cap_policy =
  default_cap :: nat
  rules :: "rule list"

definition cap_for :: "body_cap_policy \<Rightarrow> ip_addr \<Rightarrow> nat" where
  "cap_for policy ip = (case lookup (rules policy) ip of Some c \<Rightarrow> c | None \<Rightarrow> default_cap policy)"

definition content_length :: "'h header_ops \<Rightarrow> 'h \<Rightarrow> nat option" where
  "content_length H headers =
    (case hd_get H ''content-length'' headers of
       None \<Rightarrow> None | Some v \<Rightarrow> if hv_to_str H v then parse_uint 64 v else None)"

definition body_cap_middleware ::
    "'h header_ops \<Rightarrow> ('b \<Rightarrow> nat \<Rightarrow> 'b) \<Rightarrow> body_cap_policy \<Rightarrow> ip_addr \<Rightarrow> 'h \<Rightarrow> 'b \<Rightarrow> ('h \<Rightarrow> 'b \<Rightarrow> response) \<Rightarrow> response" where
  "body_cap_middleware H limited policy addr headers body next =
    (let cap = cap_for policy addr in
     case content_length H headers of
       Some cl \<Rightarrow>
         if cl > cap
         then \<lparr>rs_status = 413, rs_body = ''body cap '' @ show_nat cap @ '' bytes exceeded'' @ [CHR 0x0A], rs_headers = []\<rparr>
         else next headers (limited body cap)
     | None \<Rightarrow> next headers (limited body cap))"

section \<open>Rules agree with the reference meaning\<close>

definition rule_wf :: "rule \<Rightarrow> bool" where
  "rule_wf r \<longleftrightarrow> unat (ru_prefix_len r) \<le> max_prefix (ru_net r)"

definition covers :: "rule \<Rightarrow> ip_addr \<Rightarrow> bool" where
  "covers r ip \<longleftrightarrow> in_prefix (ru_net r) (unat (ru_prefix_len r)) ip"

lemma v4_mask_eq: "unat p \<le> 32 \<Longrightarrow> v4_mask p = NOT (mask (32 - unat p))"
  using mask_full [where 'a = 32]
  by (auto simp: v4_mask_def unat_sub word_le_nat_alt unat_gt_0)

lemma v6_mask_eq: "unat p \<le> 128 \<Longrightarrow> v6_mask p = NOT (mask (128 - unat p))"
  using mask_full [where 'a = 128]
  by (auto simp: v6_mask_def unat_sub word_le_nat_alt unat_gt_0)

lemma matches_covers: "rule_wf r \<Longrightarrow> matches r ip \<longleftrightarrow> covers r ip"
  by (auto simp: rule_wf_def max_prefix_def matches_def covers_def in_prefix_def v4_mask_eq v6_mask_eq
      masked_eq_iff Let_def split: ip_addr.splits)

lemma parse_cidr_bound: "parse_cidr s = Some (addr, p) \<Longrightarrow> unat p \<le> max_prefix addr"
  by (auto simp: parse_cidr_def max_prefix_def Let_def word_le_nat_alt not_less
      split: option.splits prod.splits ip_addr.splits if_splits)

lemma max_prefix_masked [simp]: "max_prefix (mask_to_prefix addr p) = max_prefix addr"
  by (simp add: max_prefix_def mask_to_prefix_def split: ip_addr.split)

lemma parse_rule_wf: "parse_rule frag = Inr r \<Longrightarrow> rule_wf r"
  by (auto simp: parse_rule_def result_simps rule_wf_def split: prod.splits dest: parse_cidr_bound)

lemma parse_fragments_wf: "parse_fragments fs = Inr rs \<Longrightarrow> list_all rule_wf rs"
  by (induction fs arbitrary: rs) (auto simp: result_simps Let_def parse_rule_wf split: if_splits)

section \<open>Longest prefix match\<close>

text \<open>The reference: among the rules that cover an address, the first of those with the longest prefix.\<close>

fun longest_match :: "rule list \<Rightarrow> ip_addr \<Rightarrow> rule option" where
  "longest_match [] ip = None"
| "longest_match (r # rs) ip =
    (if covers r ip then
       (case longest_match rs ip of
          None \<Rightarrow> Some r
        | Some b \<Rightarrow> if ru_prefix_len b \<le> ru_prefix_len r then Some r else Some b)
     else longest_match rs ip)"

lemma lookup_filter:
  "list_all rule_wf rs \<Longrightarrow> lookup rs ip = (case filter (\<lambda>r. covers r ip) rs of [] \<Rightarrow> None | r # _ \<Rightarrow> Some (ru_cap r))"
  by (induction rs) (auto simp: matches_covers)

lemma longest_match_sorted:
  "longest_match rs ip = (case sort_rules (filter (\<lambda>r. covers r ip) rs) of [] \<Rightarrow> None | r # _ \<Rightarrow> Some r)"
proof (induction rs)
  case (Cons r rs)
  show ?case
    by (cases "sort_rules (filter (\<lambda>r. covers r ip) rs)")
      (use Cons in \<open>auto simp: sort_rules_def word_le_def\<close>)
qed (simp add: sort_rules_def)

lemma list_all_sort_rules: "list_all P (sort_rules rs) \<longleftrightarrow> list_all P rs"
  by (simp add: sort_rules_def list_all_iff)

lemma lookup_sorted:
  assumes "list_all rule_wf rs"
  shows "lookup (sort_rules rs) ip = map_option ru_cap (longest_match rs ip)"
proof -
  have "filter (\<lambda>r. covers r ip) (sort_rules rs) = sort_rules (filter (\<lambda>r. covers r ip) rs)"
    by (simp add: sort_rules_def filter_sort)
  then show ?thesis
    using assms by (simp add: lookup_filter list_all_sort_rules longest_match_sorted split: list.split)
qed

text \<open>Trimming drops white space only, so a comma survives it.\<close>

lemma space_width_comma:
  "CHR '','' \<notin> set (take (space_width (map of_char s)) s)"
  "CHR '','' \<notin> set (take (space_width_rev (map of_char s)) s)"
proof -
  have "CHR '','' \<notin> set (take (w (map of_char s)) s)" if "w = space_width \<or> w = space_width_rev" for w
    using that
    by (cases s; cases "tl s"; cases "tl (tl s)") (auto simp: ascii_space_def wide_space_def split: if_splits)
  then show "CHR '','' \<notin> set (take (space_width (map of_char s)) s)"
    "CHR '','' \<notin> set (take (space_width_rev (map of_char s)) s)" by blast+
qed

lemma strip_front_comma:
  assumes "\<And>s. CHR '','' \<notin> set (take (w (map of_char s)) s)"
  shows "CHR '','' \<in> set s \<Longrightarrow> CHR '','' \<in> set (strip_front w s)"
proof (induction s rule: length_induct)
  case (1 s)
  let ?n = "w (map of_char s)"
  show ?case
  proof (cases "?n = 0 \<or> s = []")
    case False
    have "CHR '','' \<in> set (take ?n s @ drop ?n s)" using "1.prems" by simp
    then have "CHR '','' \<in> set (drop ?n s)" using assms [of s] unfolding set_append by blast
    with 1 False have "CHR '','' \<in> set (strip_front w (drop ?n s))" by simp
    with False show ?thesis by (subst strip_front.simps) (simp add: Let_def)
  qed (use "1.prems" in \<open>subst strip_front.simps, auto simp: Let_def\<close>)
qed

lemma trim_comma: "trim s = [] \<Longrightarrow> CHR '','' \<notin> set s"
  unfolding trim_def
  using strip_front_comma [OF space_width_comma(1), of s]
    strip_front_comma [OF space_width_comma(2), of "rev (strip_front space_width s)"] by auto

lemma blank_written: "trim input = [] \<Longrightarrow> parse_fragments (str_split CHR '','' input) = Inr []"
  by (simp add: str_split_single trim_comma Let_def)

section \<open>The middleware\<close>

text \<open>An upload is bounded by its network's cap: a declared length above the cap is answered 413 before the rest
  of the stack runs, and everything else runs on a body limited to the cap.\<close>

lemma body_cap_enforced:
  assumes "header_ok H"
  shows "body_cap_middleware H limited policy addr headers body next =
    (if \<exists>v n. hd_get H ''content-length'' headers = Some v \<and> list_all visible v \<and> parse_uint 64 v = Some n \<and> cap_for policy addr < n
     then \<lparr>rs_status = 413, rs_body = ''body cap '' @ show_nat (cap_for policy addr) @ '' bytes exceeded'' @ [CHR 0x0A], rs_headers = []\<rparr>
     else next headers (limited body (cap_for policy addr)))"
  by (auto simp: body_cap_middleware_def content_length_def header_okD(6) [OF assms] Let_def split: option.splits)

section \<open>Properties\<close>

text \<open>C33: lookup is longest prefix match. The rule list a configuration text parses to, sorted and searched for the
  first match by masks, gives every address the cap of the rule the reference picks from the fragments in the
  order they were written: the longest prefix that covers the address, the earliest of equals.\<close>

theorem body_cap_longest_prefix:
  assumes "parse_rules input = Inr rs" "parse_fragments (str_split CHR '','' input) = Inr written"
  shows "cap_for \<lparr>default_cap = d, rules = rs\<rparr> ip =
    (case longest_match written ip of None \<Rightarrow> d | Some r \<Rightarrow> ru_cap r)"
proof (cases "trim input = []")
  case True
  with assms show ?thesis by (simp add: parse_rules_def cap_for_def blank_written)
next
  case False
  with assms have "rs = sort_rules written" by (simp add: parse_rules_def)
  then show ?thesis
    using lookup_sorted [OF parse_fragments_wf [OF assms(2)], of ip]
    by (simp add: cap_for_def split: option.split)
qed

lemma sample_rules:
  "parse_fragments (str_split CHR '','' ''10.0.0.0/8=4K,10.0.0.7=1K'') =
     Inr [\<lparr>ru_net = V4 0x0A000000, ru_prefix_len = 8, ru_cap = 4096\<rparr>,
          \<lparr>ru_net = V4 0x0A000007, ru_prefix_len = 32, ru_cap = 1024\<rparr>]"
  by (simp add: parse_rule_def split_once_def parse_bytes_def parse_cidr_def ip_eval trim_def ascii_space_def
      wide_space_def parse_uint_def parse_digits_def is_digit_def digits_val_def digit_val_def parse_u8_def
      checked_mul_def mask_to_prefix_def v4_mask_def mask_eq_exp_minus_1)

theorem body_cap_longest_prefix_witness:
  "\<exists>rs. parse_rules ''10.0.0.0/8=4K,10.0.0.7=1K'' = Inr rs \<and> cap_for \<lparr>default_cap = 99, rules = rs\<rparr> (V4 0x0A000007) = 1024"
proof -
  have "trim ''10.0.0.0/8=4K,10.0.0.7=1K'' \<noteq> []" by (simp add: trim_def ascii_space_def wide_space_def)
  then obtain rs where rs: "parse_rules ''10.0.0.0/8=4K,10.0.0.7=1K'' = Inr rs"
    using sample_rules by (simp add: parse_rules_def)
  with body_cap_longest_prefix [OF rs sample_rules, of 99 "V4 0x0A000007"] show ?thesis
    by (simp add: covers_def in_prefix_def)
qed

end
