(* ===== verification/Rate_Limiter.thy ===== *)
theory Rate_Limiter
  imports Hash_Map Http_Headers
begin

text \<open>
  The per-address rate limiter of the edge proxy, \<open>crates/strata-dmz/src/limits.rs\<close>. Addresses are a
  type parameter and the hash that picks a stripe is an argument. Instants are nanoseconds; the signed
  64 bit token counts are integers with the saturating operations and the cast written out.
\<close>

definition NUM_STRIPES :: nat where "NUM_STRIPES = 16"
definition IDLE_EVICT_AFTER :: nat where [bound_simps]: "IDLE_EVICT_AFTER = 600 * 10 ^ 9"
definition BODY_IDLE_TIMEOUT :: nat where [bound_simps]: "BODY_IDLE_TIMEOUT = 60 * 10 ^ 9"
definition TRANSFER_DEADLINE :: nat where [bound_simps]: "TRANSFER_DEADLINE = 30 * 60 * 10 ^ 9"

definition as_millis :: "nat \<Rightarrow> nat" where
  "as_millis d = d div 10 ^ 6"

definition i64_cast :: "nat \<Rightarrow> int" where
  "i64_cast n = sint (of_nat n :: i64)"

definition i64_clamp :: "int \<Rightarrow> int" where
  "i64_clamp x = max (- (2 ^ 63)) (min (2 ^ 63 - 1) x)"

record bucket =
  tokens_milli :: int
  last_refill :: nat

type_synonym 'ip stripe = "('ip, bucket) hmap"

record 'ip rate_limiter =
  rl_stripes :: "'ip stripe list"
  rate_rps :: u32
  burst :: u32

definition limiter_new :: "u32 \<Rightarrow> u32 \<Rightarrow> 'ip rate_limiter" where
  "limiter_new rate bst = \<lparr>rl_stripes = replicate NUM_STRIPES [], rate_rps = rate, burst = bst\<rparr>"

definition stripe_for :: "('ip \<Rightarrow> u64) \<Rightarrow> 'ip \<Rightarrow> nat" where
  "stripe_for hash ip = unat (hash ip) mod NUM_STRIPES"

definition burst_milli :: "u32 \<Rightarrow> int" where
  "burst_milli bst = int (unat bst) * 1000"

definition fresh_bucket :: "u32 \<Rightarrow> nat \<Rightarrow> bucket" where
  "fresh_bucket bst now = \<lparr>tokens_milli = burst_milli bst, last_refill = now\<rparr>"

definition refill :: "u32 \<Rightarrow> u32 \<Rightarrow> nat \<Rightarrow> bucket \<Rightarrow> bucket" where
  "refill rate bst now b =
    (let elapsed = now - last_refill b in
     if elapsed \<noteq> 0 then
       let add = i64_clamp (i64_cast (as_millis elapsed) * int (unat rate))
       in \<lparr>tokens_milli = min (i64_clamp (tokens_milli b + add)) (burst_milli bst), last_refill = now\<rparr>
     else b)"

definition take_token :: "bucket \<Rightarrow> bool \<times> bucket" where
  "take_token b =
    (if tokens_milli b \<ge> 1000 then (True, b\<lparr>tokens_milli := tokens_milli b - 1000\<rparr>) else (False, b))"

definition check_stripe :: "u32 \<Rightarrow> u32 \<Rightarrow> nat \<Rightarrow> 'ip \<Rightarrow> 'ip stripe \<Rightarrow> bool \<times> 'ip stripe" where
  "check_stripe rate bst now ip m =
    (let b = (case hm_get ip m of
                Some b \<Rightarrow> b | None \<Rightarrow> fresh_bucket bst now);
         (allow, b') = take_token (refill rate bst now b)
     in (allow, hm_retain (\<lambda>_ b. now - last_refill b < IDLE_EVICT_AFTER) (hm_insert ip b' m)))"

definition limiter_check ::
    "('ip \<Rightarrow> u64) \<Rightarrow> nat \<Rightarrow> 'ip \<Rightarrow> 'ip rate_limiter \<Rightarrow> bool \<times> 'ip rate_limiter" where
  "limiter_check hash now ip l =
    (if rate_rps l = 0 then (True, l)
     else
       let i = stripe_for hash ip;
           (allow, m) = check_stripe (rate_rps l) (burst l) now ip (rl_stripes l ! i)
       in (allow, l\<lparr>rl_stripes := (rl_stripes l)[i := m]\<rparr>))"

definition limiter_len :: "'ip rate_limiter \<Rightarrow> nat" where
  "limiter_len l = sum_list (map hm_len (rl_stripes l))"

text \<open>The middleware answers 429 with a hint to retry after a second; the rest of the stack is an argument.\<close>

definition rate_limit_middleware ::
    "('ip \<Rightarrow> u64) \<Rightarrow> nat \<Rightarrow> 'ip \<Rightarrow> ('req \<Rightarrow> response) \<Rightarrow> 'req \<Rightarrow> 'ip rate_limiter \<Rightarrow> response \<times> 'ip rate_limiter" where
  "rate_limit_middleware hash now ip next req l =
    (let (allowed, l') = limiter_check hash now ip l in
     (if \<not> allowed
      then \<lparr>rs_status = 429, rs_body = ''rate limit exceeded'', rs_headers = [(''retry-after'', ''1'')]\<rparr>
      else next req, l'))"

section \<open>The bucket of an address\<close>

definition limiter_wf :: "'ip rate_limiter \<Rightarrow> bool" where
  "limiter_wf l \<longleftrightarrow> length (rl_stripes l) = NUM_STRIPES \<and> list_all hm_wf (rl_stripes l)"

definition bucket_of :: "('ip \<Rightarrow> u64) \<Rightarrow> 'ip \<Rightarrow> 'ip rate_limiter \<Rightarrow> bucket option" where
  "bucket_of hash ip l = hm_get ip (rl_stripes l ! stripe_for hash ip)"

lemma stripe_for_less [simp]: "stripe_for hash ip < NUM_STRIPES"
  by (simp add: stripe_for_def NUM_STRIPES_def)

lemma limiter_wf_new: "limiter_wf (limiter_new rate bst)"
  by (simp add: limiter_wf_def limiter_new_def list_all_iff)

lemma bucket_of_new: "bucket_of hash ip (limiter_new rate bst) = None"
  by (simp add: bucket_of_def limiter_new_def)

lemma check_stripe_wf: "hm_wf m \<Longrightarrow> hm_wf (snd (check_stripe rate bst now ip m))"
  by (simp add: check_stripe_def Let_def split_def)

lemma limiter_check_keeps:
  assumes "limiter_wf l"
  shows "limiter_wf (snd (limiter_check hash now ip l))" "rate_rps (snd (limiter_check hash now ip l)) = rate_rps l"
    "burst (snd (limiter_check hash now ip l)) = burst l"
proof -
  let ?i = "stripe_for hash ip"
  have "hm_wf (rl_stripes l ! ?i)" using assms by (simp add: limiter_wf_def list_all_length)
  from check_stripe_wf [OF this] assms show "limiter_wf (snd (limiter_check hash now ip l))"
    by (auto simp: limiter_wf_def limiter_check_def Let_def split_def list_all_length nth_list_update)
qed (simp_all add: limiter_check_def Let_def split_def)

text \<open>
  What one request does to the bucket of an address: a request from another address may only evict it, its
  own refills it and takes a token.
\<close>

lemma refill_now: "last_refill b \<le> now \<Longrightarrow> last_refill (refill rate bst now b) = now"
  by (simp add: refill_def Let_def)

lemma take_token_refill: "last_refill (snd (take_token b)) = last_refill b"
  by (simp add: take_token_def)

lemma bucket_own:
  assumes "limiter_wf l" "rate_rps l \<noteq> 0" "\<And>b. bucket_of hash ip l = Some b \<Longrightarrow> last_refill b \<le> now"
  defines "b \<equiv> (case bucket_of hash ip l of Some b \<Rightarrow> b | None \<Rightarrow> fresh_bucket (burst l) now)"
  shows "fst (limiter_check hash now ip l) = fst (take_token (refill (rate_rps l) (burst l) now b))"
    "bucket_of hash ip (snd (limiter_check hash now ip l)) = Some (snd (take_token (refill (rate_rps l) (burst l) now b)))"
proof -
  let ?i = "stripe_for hash ip"
  have i: "?i < length (rl_stripes l)" and w: "hm_wf (rl_stripes l ! ?i)"
    using assms(1) by (simp_all add: limiter_wf_def list_all_length)
  have "last_refill b \<le> now" using assms(3) by (auto simp: b_def fresh_bucket_def split: option.split)
  then have r: "last_refill (snd (take_token (refill (rate_rps l) (burst l) now b))) = now"
    by (simp add: take_token_refill refill_now)
  show "fst (limiter_check hash now ip l) = fst (take_token (refill (rate_rps l) (burst l) now b))"
    using assms(2) by (simp add: limiter_check_def check_stripe_def Let_def split_def b_def bucket_of_def)
  show "bucket_of hash ip (snd (limiter_check hash now ip l)) = Some (snd (take_token (refill (rate_rps l) (burst l) now b)))"
    using assms(2) i w r
    by (simp add: limiter_check_def check_stripe_def Let_def split_def bucket_of_def hm_get_retain IDLE_EVICT_AFTER_def
        b_def)
qed

lemma bucket_other:
  assumes "limiter_wf l" "ip' \<noteq> ip"
  shows "bucket_of hash ip (snd (limiter_check hash now ip' l)) = bucket_of hash ip l
    \<or> (\<exists>b. bucket_of hash ip l = Some b \<and> now - last_refill b \<ge> IDLE_EVICT_AFTER
         \<and> bucket_of hash ip (snd (limiter_check hash now ip' l)) = None)"
proof (cases "rate_rps l = 0 \<or> stripe_for hash ip' \<noteq> stripe_for hash ip")
  case True
  then show ?thesis by (auto simp: limiter_check_def bucket_of_def Let_def split_def)
next
  case False
  let ?i = "stripe_for hash ip"
  have i: "?i < length (rl_stripes l)" and w: "hm_wf (rl_stripes l ! ?i)"
    using assms(1) by (simp_all add: limiter_wf_def list_all_length)
  from False i w assms(2) show ?thesis
    by (auto simp: limiter_check_def check_stripe_def Let_def split_def bucket_of_def hm_get_retain not_less split: option.split)
qed

section \<open>Counting what an address is allowed\<close>

fun grants_for :: "('ip \<Rightarrow> u64) \<Rightarrow> 'ip \<Rightarrow> (nat \<times> 'ip) list \<Rightarrow> 'ip rate_limiter \<Rightarrow> nat" where
  "grants_for hash ip [] l = 0"
| "grants_for hash ip ((t, q) # rs) l =
    (let (ok, l') = limiter_check hash t q l in (if ok \<and> q = ip then 1 else 0) + grants_for hash ip rs l')"

fun limiter_run :: "('ip \<Rightarrow> u64) \<Rightarrow> (nat \<times> 'ip) list \<Rightarrow> 'ip rate_limiter \<Rightarrow> 'ip rate_limiter" where
  "limiter_run hash [] l = l"
| "limiter_run hash ((t, q) # rs) l = limiter_run hash rs (snd (limiter_check hash t q l))"

text \<open>
  \<open>paid rate bst t0 t k b\<close>: the \<open>k\<close> requests granted since \<open>t0\<close> and the tokens left are paid for by one burst
  and the refill since \<open>t0\<close>. A bucket that was last refilled before \<open>t0\<close> has not granted anything since; it never holds more than a burst.
\<close>

definition paid :: "u32 \<Rightarrow> u32 \<Rightarrow> nat \<Rightarrow> nat \<Rightarrow> nat \<Rightarrow> bucket option \<Rightarrow> bool" where
  "paid rate bst t0 t k ob =
    (case ob of
       None \<Rightarrow> 1000 * int k \<le> int (unat rate) * int (as_millis (t - t0))
     | Some b \<Rightarrow> last_refill b \<le> t \<and> 0 \<le> tokens_milli b \<and> tokens_milli b \<le> burst_milli bst
         \<and> (if t0 \<le> last_refill b
             then 1000 * int k + tokens_milli b \<le> burst_milli bst + int (unat rate) * int (as_millis (last_refill b - t0))
             else k = 0))"

lemma as_millis_add: "as_millis a + as_millis b \<le> as_millis (a + b)"
proof -
  have "(a div 10 ^ 6 + b div 10 ^ 6) * 10 ^ 6 \<le> a + b"
    using div_times_less_eq_dividend [of a "10 ^ 6"] div_times_less_eq_dividend [of b "10 ^ 6"]
    by (simp add: add_mult_distrib add_mono)
  then show ?thesis unfolding as_millis_def by (simp add: less_eq_div_iff_mult_less_eq)
qed

lemma as_millis_mono: "a \<le> b \<Longrightarrow> as_millis a \<le> as_millis b"
  unfolding as_millis_def by (rule div_le_mono)

lemma paid_later:
  assumes "paid rate bst t0 t k ob" "t \<le> t'"
  shows "paid rate bst t0 t' k ob"
proof (cases ob)
  case None
  have "int (unat rate) * int (as_millis (t - t0)) \<le> int (unat rate) * int (as_millis (t' - t0))"
    using as_millis_mono [of "t - t0" "t' - t0"] assms(2) by (intro mult_left_mono) simp_all
  with assms None show ?thesis by (simp add: paid_def)
qed (use assms in \<open>auto simp: paid_def split: if_splits\<close>)

lemma paid_fresh:
  assumes "paid rate bst t0 t k None" "t0 \<le> t"
  shows "paid rate bst t0 t k (Some (fresh_bucket bst t))"
  using assms by (simp add: paid_def fresh_bucket_def burst_milli_def)

lemma paid_restart: "paid rate bst t0 t k ob \<Longrightarrow> t \<le> start \<Longrightarrow> paid rate bst start start 0 ob"
  by (auto simp: paid_def as_millis_def split: option.splits)

lemma paid_evicted:
  assumes "paid rate bst t0 t k (Some b)" "t \<le> t'" "t' - last_refill b \<ge> IDLE_EVICT_AFTER"
    and "burst_milli bst \<le> int (unat rate) * 600000"
  shows "paid rate bst t0 t' k None"
proof (cases "t0 \<le> last_refill b")
  case True
  with assms have b: "last_refill b \<le> t"
    "1000 * int k \<le> burst_milli bst + int (unat rate) * int (as_millis (last_refill b - t0))"
    by (simp_all add: paid_def)
  have "as_millis (last_refill b - t0) + as_millis (t' - last_refill b) \<le> as_millis (t' - t0)"
    using as_millis_add [of "last_refill b - t0" "t' - last_refill b"] b True assms(2) by simp
  moreover have "as_millis (t' - last_refill b) \<ge> 600000"
    using as_millis_mono [OF assms(3)] by (simp add: as_millis_def IDLE_EVICT_AFTER_def)
  ultimately have "int (as_millis (last_refill b - t0)) + 600000 \<le> int (as_millis (t' - t0))" by linarith
  then have "int (unat rate) * (int (as_millis (last_refill b - t0)) + 600000)
      \<le> int (unat rate) * int (as_millis (t' - t0))"
    by (rule mult_left_mono) simp
  with b(2) assms(4) show ?thesis by (simp add: paid_def algebra_simps)
qed (use assms in \<open>simp add: paid_def\<close>)

lemma i64_cast_small: "n < 2 ^ 63 \<Longrightarrow> i64_cast n = int n"
  by (simp add: i64_cast_def signed_of_nat signed_take_bit_int_eq_self)

lemma i64_clamp_nonneg: "0 \<le> x \<Longrightarrow> 0 \<le> i64_clamp x" "0 \<le> x \<Longrightarrow> i64_clamp x \<le> x"
  by (auto simp: i64_clamp_def)

lemma refill_add:
  assumes "as_millis d < 2 ^ 63"
  shows "0 \<le> i64_clamp (i64_cast (as_millis d) * int (unat rate))"
    "i64_clamp (i64_cast (as_millis d) * int (unat rate)) \<le> int (unat rate) * int (as_millis d)"
  using i64_cast_small [OF assms] i64_clamp_nonneg [of "int (unat rate) * int (as_millis d)"]
  by (simp_all add: mult.commute)

lemma refilled:
  assumes "last_refill b < now" "now < 2 ^ 63" "0 \<le> tokens_milli b"
  obtains add where "0 \<le> add" "add \<le> int (unat rate) * int (as_millis (now - last_refill b))"
    "last_refill (refill rate bst now b) = now" "tokens_milli (refill rate bst now b) \<le> burst_milli bst"
    "0 \<le> tokens_milli (refill rate bst now b)" "tokens_milli (refill rate bst now b) \<le> tokens_milli b + add"
proof -
  let ?d = "now - last_refill b"
  let ?add = "i64_clamp (i64_cast (as_millis ?d) * int (unat rate))"
  have "as_millis ?d \<le> now" unfolding as_millis_def by (meson diff_le_self div_le_dividend le_trans)
  with assms(2) have "as_millis ?d < 2 ^ 63" by simp
  from refill_add [OF this] have add: "0 \<le> ?add" "?add \<le> int (unat rate) * int (as_millis ?d)" by blast+
  moreover have "min (i64_clamp (tokens_milli b + ?add)) (burst_milli bst) \<le> tokens_milli b + ?add"
    "0 \<le> min (i64_clamp (tokens_milli b + ?add)) (burst_milli bst)"
    using i64_clamp_nonneg [of "tokens_milli b + ?add"] assms(3) add(1) by (simp_all add: burst_milli_def min.coboundedI1)
  moreover have "refill rate bst now b =
      \<lparr>tokens_milli = min (i64_clamp (tokens_milli b + ?add)) (burst_milli bst), last_refill = now\<rparr>"
    using assms(1) by (simp add: refill_def Let_def)
  ultimately show thesis by (intro that [of ?add]) simp_all
qed

lemma paid_refill:
  assumes "paid rate bst t0 t k (Some b)" "t0 \<le> now" "t \<le> now" "now < 2 ^ 63"
  shows "paid rate bst t0 now k (Some (refill rate bst now b)) \<and> last_refill (refill rate bst now b) = now"
proof (cases "now = last_refill b")
  case True
  then have "refill rate bst now b = b" by (simp add: refill_def)
  with paid_later [OF assms(1,3)] True show ?thesis by simp
next
  case False
  with assms(1,3) have b: "last_refill b < now" "0 \<le> tokens_milli b" by (simp_all add: paid_def)
  obtain add where add: "0 \<le> add" "add \<le> int (unat rate) * int (as_millis (now - last_refill b))"
    and r: "last_refill (refill rate bst now b) = now" "tokens_milli (refill rate bst now b) \<le> burst_milli bst"
      "0 \<le> tokens_milli (refill rate bst now b)" "tokens_milli (refill rate bst now b) \<le> tokens_milli b + add"
    by (rule refilled [OF b(1) assms(4) b(2), of rate bst])
  show ?thesis
  proof (cases "t0 \<le> last_refill b")
    case True
    have "int (unat rate) * (int (as_millis (last_refill b - t0)) + int (as_millis (now - last_refill b)))
        \<le> int (unat rate) * int (as_millis (now - t0))"
      using as_millis_add [of "last_refill b - t0" "now - last_refill b"] b True by (intro mult_left_mono) simp_all
    then have "int (unat rate) * int (as_millis (last_refill b - t0)) + add \<le> int (unat rate) * int (as_millis (now - t0))"
      using add(2) by (simp add: algebra_simps)
    with r assms(1,2) True show ?thesis by (simp add: paid_def)
  next
    case False
    with assms(1) have "k = 0" by (simp add: paid_def)
    moreover have "burst_milli bst \<le> burst_milli bst + int (unat rate) * int (as_millis (now - t0))" by simp
    with r(2) have "tokens_milli (refill rate bst now b) \<le> burst_milli bst + int (unat rate) * int (as_millis (now - t0))"
      by (rule order_trans)
    ultimately show ?thesis using r(1-3) assms(2) by (simp add: paid_def)
  qed
qed

lemma paid_take:
  "paid rate bst t0 t k (Some b) \<Longrightarrow> t0 \<le> last_refill b \<Longrightarrow>
   paid rate bst t0 t (k + (if fst (take_token b) then 1 else 0)) (Some (snd (take_token b)))"
  by (simp add: paid_def take_token_def)

lemma limiter_check_paid:
  assumes "limiter_wf l" "rate_rps l \<noteq> 0" "burst_milli (burst l) \<le> int (unat (rate_rps l)) * 600000"
    and "paid (rate_rps l) (burst l) t0 t k (bucket_of hash ip l)" "t0 \<le> t" "t \<le> now" "now < 2 ^ 63"
  shows "paid (rate_rps l) (burst l) t0 now (k + (if fst (limiter_check hash now q l) \<and> q = ip then 1 else 0))
           (bucket_of hash ip (snd (limiter_check hash now q l)))"
proof (cases "q = ip")
  case True
  let ?r = "rate_rps l" and ?b = "burst l"
  define b where "b = (case bucket_of hash ip l of Some b \<Rightarrow> b | None \<Rightarrow> fresh_bucket ?b now)"
  have "paid ?r ?b t0 now k (Some b)"
  proof (cases "bucket_of hash ip l")
    case None
    with paid_fresh [OF paid_later [OF assms(4,6), unfolded None]] assms(5,6) show ?thesis by (simp add: b_def)
  next
    case (Some c)
    with paid_later [OF assms(4,6)] show ?thesis by (simp add: b_def)
  qed
  with paid_refill [of ?r ?b t0 now k b now] assms(5-7) paid_take
  have p: "paid ?r ?b t0 now (k + (if fst (take_token (refill ?r ?b now b)) then 1 else 0))
      (Some (snd (take_token (refill ?r ?b now b))))" by simp
  have "last_refill c \<le> now" if "bucket_of hash ip l = Some c" for c
    using assms(4,6) that by (simp add: paid_def)
  from p bucket_own [OF assms(1,2) this] show ?thesis by (simp add: b_def True)
next
  case False
  from bucket_other [OF assms(1) False, of hash now] show ?thesis
  proof (elim disjE exE conjE)
    assume "bucket_of hash ip (snd (limiter_check hash now q l)) = bucket_of hash ip l"
    with paid_later [OF assms(4,6)] False show ?thesis by simp
  next
    fix b
    assume "bucket_of hash ip l = Some b" "IDLE_EVICT_AFTER \<le> now - last_refill b"
      "bucket_of hash ip (snd (limiter_check hash now q l)) = None"
    with paid_evicted [of _ _ t0 t k b now] assms(3,4,6) False show ?thesis by simp
  qed
qed

lemma paid_total:
  assumes "paid rate bst t0 t k ob" "t0 \<le> t"
  shows "1000 * int k \<le> burst_milli bst + int (unat rate) * int (as_millis (t - t0))"
proof (cases ob)
  case None
  have "0 \<le> burst_milli bst" by (simp add: burst_milli_def)
  moreover have "1000 * int k \<le> int (unat rate) * int (as_millis (t - t0))" using assms(1) None by (simp add: paid_def)
  ultimately show ?thesis by linarith
next
  case (Some b)
  show ?thesis
  proof (cases "t0 \<le> last_refill b")
    case True
    with Some assms have "int (unat rate) * int (as_millis (last_refill b - t0)) \<le> int (unat rate) * int (as_millis (t - t0))"
      using as_millis_mono [of "last_refill b - t0" "t - t0"] by (intro mult_left_mono) (simp_all add: paid_def diff_le_mono)
    moreover have "1000 * int k \<le> burst_milli bst + int (unat rate) * int (as_millis (last_refill b - t0))"
      using assms(1) Some True by (simp add: paid_def)
    ultimately show ?thesis by linarith
  qed (use assms(1) Some in \<open>simp add: paid_def burst_milli_def\<close>)
qed

lemma limiter_run_paid:
  assumes "limiter_wf l" "rate_rps l \<noteq> 0" "burst_milli (burst l) \<le> int (unat (rate_rps l)) * 600000"
    and "paid (rate_rps l) (burst l) t0 t k (bucket_of hash ip l)" "t0 \<le> t" "sorted (t # map fst rs @ [start])" "start < 2 ^ 63"
  shows "limiter_wf (limiter_run hash rs l) \<and> rate_rps (limiter_run hash rs l) = rate_rps l \<and> burst (limiter_run hash rs l) = burst l
    \<and> paid (rate_rps l) (burst l) start start 0 (bucket_of hash ip (limiter_run hash rs l))"
  using assms
proof (induction rs arbitrary: t k l)
  case Nil
  then show ?case using paid_restart [OF Nil.prems(4), of start] by simp
next
  case (Cons r rs)
  obtain now q where r: "r = (now, q)" by (cases r)
  let ?l = "snd (limiter_check hash now q l)"
  have t: "t \<le> now" "sorted (now # map fst rs @ [start])" "now < 2 ^ 63" using Cons.prems(6,7) r by (auto simp: sorted_append)
  note keeps = limiter_check_keeps [OF Cons.prems(1), of hash now q]
  have "\<exists>k'. paid (rate_rps ?l) (burst ?l) t0 now k' (bucket_of hash ip ?l)"
    using limiter_check_paid [OF Cons.prems(1-5) t(1,3), of q] unfolding keeps by blast
  then obtain k' where "paid (rate_rps ?l) (burst ?l) t0 now k' (bucket_of hash ip ?l)" by blast
  from Cons.IH [OF keeps(1) _ _ this _ t(2) Cons.prems(7)] Cons.prems(2,3,5) t(1) show ?case by (simp add: r keeps)
qed

lemma grants_for_bound:
  assumes "limiter_wf l" "rate_rps l \<noteq> 0" "burst_milli (burst l) \<le> int (unat (rate_rps l)) * 600000"
    and "paid (rate_rps l) (burst l) t0 t k (bucket_of hash ip l)" "t0 \<le> t" "sorted (t # map fst rs)"
    and "last (t # map fst rs) < 2 ^ 63"
  shows "1000 * int (k + grants_for hash ip rs l)
    \<le> burst_milli (burst l) + int (unat (rate_rps l)) * int (as_millis (last (t # map fst rs) - t0))"
  using assms
proof (induction rs arbitrary: t k l)
  case Nil
  with paid_total [OF Nil.prems(4,5)] show ?case by simp
next
  case (Cons r rs)
  obtain now q where r: "r = (now, q)" by (cases r)
  obtain ok l' where c: "limiter_check hash now q l = (ok, l')" by (cases "limiter_check hash now q l")
  have t: "t \<le> now" "sorted (now # map fst rs)" "last (now # map fst rs) < 2 ^ 63"
    using Cons.prems(6,7) r by simp_all
  have "now \<le> last (now # map fst rs)" using t(2) last_in_set [of "map fst rs"] by (cases "rs = []") auto
  with t(3) have "now < 2 ^ 63" by simp
  note keeps = limiter_check_keeps [OF Cons.prems(1), of hash now q, unfolded c snd_conv]
  let ?k = "k + (if ok \<and> q = ip then 1 else 0)"
  have "paid (rate_rps l') (burst l') t0 now ?k (bucket_of hash ip l')"
    using limiter_check_paid [OF Cons.prems(1,2,3,4,5) t(1) \<open>now < 2 ^ 63\<close>, of q] c keeps by simp
  from Cons.IH [OF keeps(1) _ _ this _ t(2,3)] keeps Cons.prems(2,3,5) t(1) r c show ?case by simp
qed

text \<open>C34: the limiter bounds every address over every stretch of a run. After whatever requests went before, the requests of one
  address that are let through from an instant \<open>start\<close> on cost at most one burst plus the configured rate over the time since then,
  however long the address was quiet before and although idle buckets are evicted and start full again. It is assumed that a full bucket
  refills within the eviction time, and that requests take the lock of a stripe in the order of the instants they read before.\<close>

theorem rate_limit_bound:
  assumes "rate \<noteq> 0" "unat bst \<le> unat rate * 600"
    and "sorted (map fst earlier @ start # map fst rs)" "last (start # map fst rs) < 2 ^ 63"
  shows "1000 * grants_for hash ip rs (limiter_run hash earlier (limiter_new rate bst))
    \<le> 1000 * unat bst + unat rate * as_millis (last (start # map fst rs) - start)"
proof -
  let ?n = "limiter_new rate bst :: 'a rate_limiter"
  let ?l = "limiter_run hash earlier ?n"
  have n: "rate_rps ?n = rate" "burst ?n = bst" by (simp_all add: limiter_new_def)
  have "int (unat bst) \<le> int (unat rate) * 600" using assms(2) by linarith
  then have small: "burst_milli bst \<le> int (unat rate) * 600000" unfolding burst_milli_def by linarith
  have "start \<le> last (start # map fst rs)" using assms(3) last_in_set [of "map fst rs"] by (cases "rs = []") (auto simp: sorted_append)
  with assms(4) have start: "start < 2 ^ 63" by simp
  have "paid rate bst 0 0 0 (bucket_of hash ip ?n)" by (simp add: bucket_of_new paid_def)
  moreover have "sorted (0 # map fst earlier @ [start])" using assms(3) by (auto simp: sorted_append)
  ultimately have l: "limiter_wf ?l" "rate_rps ?l = rate" "burst ?l = bst" "paid rate bst start start 0 (bucket_of hash ip ?l)"
    using limiter_run_paid [OF limiter_wf_new [of rate bst], of 0 0 0 hash ip earlier start] assms(1) small start by (simp_all add: n)
  have "sorted (start # map fst rs)" using assms(3) by (simp add: sorted_append)
  from grants_for_bound [OF l(1), of start start 0 hash ip rs] this l assms(1,4) small
  have "1000 * int (grants_for hash ip rs ?l)
      \<le> burst_milli bst + int (unat rate) * int (as_millis (last (start # map fst rs) - start))" by simp
  then have "int (1000 * grants_for hash ip rs ?l)
      \<le> int (1000 * unat bst + unat rate * as_millis (last (start # map fst rs) - start))"
    by (simp add: burst_milli_def mult.commute)
  then show ?thesis by (simp only: of_nat_le_iff)
qed

text \<open>An address that was quiet for a hundred seconds has saved up no more than its burst of one.\<close>

theorem rate_limit_bound_witness:
  "1000 * grants_for (\<lambda>ip. of_nat ip) 7 [(100 * 10 ^ 9, 7), (100 * 10 ^ 9, 7)]
     (limiter_run (\<lambda>ip. of_nat ip) [(0, 7)] (limiter_new 1 1 :: nat rate_limiter)) \<le> 1000"
  using rate_limit_bound [of 1 1 "[(0, 7)]" "100 * 10 ^ 9" "[(100 * 10 ^ 9, 7), (100 * 10 ^ 9, 7)]" "\<lambda>ip. of_nat ip" 7]
  by (simp add: as_millis_def)

text \<open>
  The fraction of a millisecond below the last full one is lost at every request, because the refill counts
  whole milliseconds and moves the refill instant all the same.
\<close>

lemma refill_submilli:
  assumes "last_refill b < now" "now < last_refill b + 10 ^ 6" "tokens_milli b < 1000" "0 \<le> tokens_milli b"
  shows "tokens_milli (refill rate bst now b) < 1000 \<and> 0 \<le> tokens_milli (refill rate bst now b)
    \<and> last_refill (refill rate bst now b) = now"
proof -
  have "as_millis (now - last_refill b) = 0" using assms(1,2) by (simp add: as_millis_def)
  with assms(1,3,4) show ?thesis
    by (simp add: refill_def i64_cast_def i64_clamp_def burst_milli_def min.strict_coboundedI1)
qed

fun dense :: "nat \<Rightarrow> nat list \<Rightarrow> bool" where
  "dense t [] = True"
| "dense t (u # us) \<longleftrightarrow> t < u \<and> u < t + 10 ^ 6 \<and> dense u us"

lemma starved_run:
  "\<lbrakk>limiter_wf l; rate_rps l \<noteq> 0; bucket_of hash ip l = Some b; tokens_milli b < 1000; 0 \<le> tokens_milli b;
    dense (last_refill b) ts\<rbrakk> \<Longrightarrow> grants_for hash ip (map (\<lambda>t. (t, ip)) ts) l = 0"
proof (induction ts arbitrary: l b)
  case (Cons t ts)
  have t: "last_refill b < t" "t < last_refill b + 10 ^ 6" "dense t ts" using Cons.prems(6) by simp_all
  define b' where "b' = refill (rate_rps l) (burst l) t b"
  have b': "tokens_milli b' < 1000" "0 \<le> tokens_milli b'" "last_refill b' = t"
    using refill_submilli [OF t(1,2) Cons.prems(4,5)] by (simp_all add: b'_def)
  obtain ok l' where c: "limiter_check hash t ip l = (ok, l')" by (cases "limiter_check hash t ip l")
  have "fst (limiter_check hash t ip l) = False \<and> bucket_of hash ip (snd (limiter_check hash t ip l)) = Some b'"
    using bucket_own [OF Cons.prems(1,2), of hash ip t] Cons.prems(3) t(1) b'(1) by (simp add: b'_def take_token_def)
  then have o: "ok = False" "bucket_of hash ip l' = Some b'" by (simp_all add: c)
  have "limiter_wf l'" "rate_rps l' \<noteq> 0"
    using limiter_check_keeps [OF Cons.prems(1), of hash t ip] Cons.prems(2) by (simp_all add: c)
  from Cons.IH [OF this o(2) b'(1,2)] b'(3) t(3) c o(1) show ?case by simp
qed simp

text \<open>A client that keeps sending with less than a millisecond between its requests is starved, not limited
  to the configured rate: once its bucket holds less than one token, none of its requests is let through
  however long it goes on and however high the rate is.\<close>
lemma rate_limit_starves:
  assumes "limiter_wf l" "rate_rps l \<noteq> 0" "bucket_of hash ip l = Some b" "0 \<le> tokens_milli b" "tokens_milli b < 1000"
    and "dense (last_refill b) ts"
  shows "grants_for hash ip (map (\<lambda>t. (t, ip)) ts) l = 0"
  by (rule starved_run [OF assms(1-3,5,4,6)])

end
