(* ===== verification/Circuit_Breaker.thy ===== *)
theory Circuit_Breaker
  imports Strata_Prelude
begin

text \<open>
  The circuit breaker around Vault, LDAP and Azure calls,
  \<open>backend/src/services/circuit_breaker.rs\<close>. Instants and durations are nanoseconds. The lock is held
  for one transition at a time and never across the wrapped operation, so a breaker's life is an arbitrary
  interleaving of the three transitions: gates, and the outcomes of admitted calls.
\<close>

datatype 'e circuit_error = ErrOpen | ErrInner 'e

fun show_circuit_error :: "('e \<Rightarrow> str) \<Rightarrow> 'e circuit_error \<Rightarrow> str" where
  "show_circuit_error show ErrOpen = ''circuit breaker open''"
| "show_circuit_error show (ErrInner e) = show e"

datatype breaker_state = Closed | Open nat | HalfOpen

record breaker_config =
  bc_label :: str
  failure_threshold :: u32
  cooldown :: nat

record breaker =
  br_state :: breaker_state
  consecutive_failures :: u32

definition breaker_new :: breaker where
  "breaker_new = \<lparr>br_state = Closed, consecutive_failures = 0\<rparr>"

fun state_name :: "breaker_state \<Rightarrow> str" where
  "state_name Closed = ''closed''"
| "state_name (Open _) = ''open''"
| "state_name HalfOpen = ''half-open''"

definition gate :: "nat \<Rightarrow> breaker \<Rightarrow> bool \<times> breaker" where
  "gate now b =
    (case br_state b of
       Open until \<Rightarrow> if now \<ge> until then (False, b\<lparr>br_state := HalfOpen\<rparr>) else (True, b)
     | _ \<Rightarrow> (False, b))"

definition on_success :: "breaker \<Rightarrow> breaker" where
  "on_success b = b\<lparr>br_state := Closed, consecutive_failures := 0\<rparr>"

definition saturating_inc :: "u32 \<Rightarrow> u32" where
  "saturating_inc n = (if n = - 1 then n else n + 1)"

definition on_failure :: "breaker_config \<Rightarrow> nat \<Rightarrow> breaker \<Rightarrow> breaker" where
  "on_failure cfg now b =
    (let b1 = b\<lparr>consecutive_failures := saturating_inc (consecutive_failures b)\<rparr>;
         threshold_hit = consecutive_failures b1 \<ge> failure_threshold cfg;
         was_half_open = (br_state b1 = HalfOpen)
     in if was_half_open \<or> threshold_hit then b1\<lparr>br_state := Open (now + cooldown cfg)\<rparr> else b1)"

text \<open>A whole call: the gate at one instant, the operation, and its outcome at a later one.\<close>

definition breaker_call ::
    "breaker_config \<Rightarrow> nat \<Rightarrow> nat \<Rightarrow> 'e + 'a \<Rightarrow> breaker \<Rightarrow> ('e circuit_error + 'a) \<times> breaker" where
  "breaker_call cfg now later result b =
    (case gate now b of
       (True, b1) \<Rightarrow> (Inl ErrOpen, b1)
     | (False, b1) \<Rightarrow>
         (case result of
            Inr v \<Rightarrow> (Inr v, on_success b1)
          | Inl e \<Rightarrow> (Inl (ErrInner e), on_failure cfg later b1)))"

section \<open>Interleavings\<close>

datatype breaker_event = Gate nat | Success | Failure nat

fun event_time :: "breaker_event \<Rightarrow> nat option" where
  "event_time (Gate t) = Some t"
| "event_time Success = None"
| "event_time (Failure t) = Some t"

fun breaker_run :: "breaker_config \<Rightarrow> breaker_event list \<Rightarrow> breaker \<Rightarrow> bool list \<times> breaker" where
  "breaker_run cfg [] b = ([], b)"
| "breaker_run cfg (Gate t # evs) b =
    (let (rejected, b1) = gate t b; (rs, b2) = breaker_run cfg evs b1 in (rejected # rs, b2))"
| "breaker_run cfg (Success # evs) b = breaker_run cfg evs (on_success b)"
| "breaker_run cfg (Failure t # evs) b = breaker_run cfg evs (on_failure cfg t b)"

lemma run_Gate [simp]:
  "breaker_run cfg (Gate t # evs) b =
    (fst (gate t b) # fst (breaker_run cfg evs (snd (gate t b))), snd (breaker_run cfg evs (snd (gate t b))))"
  by (simp add: split_def Let_def)

declare breaker_run.simps(2) [simp del]

text \<open>A breaker that is not closed has counted up to its threshold; one that is closed has not.\<close>

definition breaker_wf :: "breaker_config \<Rightarrow> breaker \<Rightarrow> bool" where
  "breaker_wf cfg b \<longleftrightarrow> (br_state b = Closed) = (consecutive_failures b < failure_threshold cfg)"

lemma unat_saturating_inc: "unat (saturating_inc n) = min (Suc (unat n)) (2 ^ 32 - 1)"
proof (cases "n = - 1")
  case True
  have "unat (- 1 :: u32) = 2 ^ 32 - 1" by (simp add: unsigned_minus_1_eq_mask mask_eq_exp_minus_1)
  with True show ?thesis by (simp add: saturating_inc_def)
next
  case False
  then have "1 + n \<noteq> 0" by (metis add.commute add_eq_0_iff2)
  then have "unat (n + 1) = Suc (unat n)" by (metis add.commute unatSuc)
  moreover have "unat (n + 1) < 2 ^ 32" using unsigned_less [of "n + 1"] by simp
  ultimately show ?thesis using False by (simp add: saturating_inc_def)
qed

lemma saturating_inc_ge: "n \<le> saturating_inc n"
proof -
  have "unat n < 2 ^ 32" using unsigned_less [of n] by simp
  then show ?thesis unfolding word_le_nat_alt unat_saturating_inc by linarith
qed

lemma breaker_wf_new: "0 < failure_threshold cfg \<Longrightarrow> breaker_wf cfg breaker_new"
  by (simp add: breaker_wf_def breaker_new_def)

lemma breaker_wf_gate: "breaker_wf cfg b \<Longrightarrow> breaker_wf cfg (snd (gate t b))"
  by (auto simp: breaker_wf_def gate_def split: breaker_state.split)

lemma breaker_wf_success: "0 < failure_threshold cfg \<Longrightarrow> breaker_wf cfg (on_success b)"
  by (simp add: breaker_wf_def on_success_def)

lemma breaker_wf_failure:
  assumes "breaker_wf cfg b"
  shows "breaker_wf cfg (on_failure cfg t b)"
  using assms saturating_inc_ge [of "consecutive_failures b"]
  by (auto simp: breaker_wf_def on_failure_def Let_def not_less)

lemma failure_stays_open:
  "breaker_wf cfg b \<Longrightarrow> br_state b \<noteq> Closed \<Longrightarrow> br_state (on_failure cfg t b) = Open (t + cooldown cfg)"
  using saturating_inc_ge [of "consecutive_failures b"] by (auto simp: breaker_wf_def on_failure_def Let_def not_less)

lemma breaker_wf_run: "0 < failure_threshold cfg \<Longrightarrow> breaker_wf cfg b \<Longrightarrow> breaker_wf cfg (snd (breaker_run cfg evs b))"
proof (induction evs arbitrary: b)
  case (Cons ev evs)
  then show ?case by (cases ev) (simp_all add: breaker_wf_success breaker_wf_failure breaker_wf_gate)
qed simp

section \<open>Properties\<close>

text \<open>The failures reported since the last success.\<close>

fun trailing_failures :: "nat \<Rightarrow> breaker_event list \<Rightarrow> nat" where
  "trailing_failures n [] = n"
| "trailing_failures n (Gate t # evs) = trailing_failures n evs"
| "trailing_failures n (Success # evs) = trailing_failures 0 evs"
| "trailing_failures n (Failure t # evs) = trailing_failures (Suc n) evs"

lemma gate_failures: "consecutive_failures (snd (gate t b)) = consecutive_failures b"
  by (simp add: gate_def split: breaker_state.split)

lemma run_failures:
  "unat (consecutive_failures b) = min n (2 ^ 32 - 1) \<Longrightarrow>
   unat (consecutive_failures (snd (breaker_run cfg evs b))) = min (trailing_failures n evs) (2 ^ 32 - 1)"
proof (induction evs arbitrary: b n)
  case (Cons ev evs)
  have "unat (consecutive_failures (on_failure cfg t b)) = min (Suc n) (2 ^ 32 - 1)" for t
    using Cons.prems by (simp add: on_failure_def Let_def unat_saturating_inc min_def)
  with Cons show ?case by (cases ev) (simp_all add: gate_failures on_success_def)
qed simp

text \<open>However calls interleave, the breaker is closed exactly while fewer failures than the threshold
  have been reported since the last success.\<close>
lemma breaker_trips_at_threshold:
  assumes "0 < failure_threshold cfg"
  shows "br_state (snd (breaker_run cfg evs breaker_new)) = Closed
     \<longleftrightarrow> trailing_failures 0 evs < unat (failure_threshold cfg)"
proof -
  have "unat (consecutive_failures (snd (breaker_run cfg evs breaker_new))) = min (trailing_failures 0 evs) (2 ^ 32 - 1)"
    by (rule run_failures) (simp add: breaker_new_def)
  moreover have "min n (2 ^ 32 - 1) < unat (failure_threshold cfg) \<longleftrightarrow> n < unat (failure_threshold cfg)" for n
  proof -
    have "unat (failure_threshold cfg) < 2 ^ 32" using unsigned_less [of "failure_threshold cfg"] by simp
    then show ?thesis by linarith
  qed
  moreover have "breaker_wf cfg (snd (breaker_run cfg evs breaker_new))"
    by (rule breaker_wf_run [OF assms breaker_wf_new [OF assms]])
  ultimately show ?thesis unfolding breaker_wf_def word_less_nat_alt by metis
qed

definition sample_breaker :: breaker_config where
  "sample_breaker = \<lparr>bc_label = ''vault'', failure_threshold = 2, cooldown = 10\<rparr>"

lemma open_run:
  "\<lbrakk>breaker_wf cfg b; br_state b = Open u; until \<le> u; Success \<notin> set evs;
    list_all (\<lambda>ev. case ev of Gate t \<Rightarrow> t < until | Failure t \<Rightarrow> until \<le> t + cooldown cfg | Success \<Rightarrow> True) evs\<rbrakk> \<Longrightarrow>
   list_all id (fst (breaker_run cfg evs b)) \<and> (\<exists>u. br_state (snd (breaker_run cfg evs b)) = Open u \<and> until \<le> u)"
proof (induction evs arbitrary: b u)
  case (Cons ev evs)
  show ?case
  proof (cases ev)
    case (Gate t)
    with Cons.prems have "gate t b = (True, b)" by (simp add: gate_def)
    with Cons.IH [OF Cons.prems(1,2,3)] Cons.prems(4,5) Gate show ?thesis by simp
  next
    case (Failure t)
    have o: "br_state (on_failure cfg t b) = Open (t + cooldown cfg)"
      using Cons.prems(1,2) by (intro failure_stays_open) auto
    from Failure Cons.prems(5) have "until \<le> t + cooldown cfg" by simp
    from Cons.IH [OF breaker_wf_failure [OF Cons.prems(1)] o this] Cons.prems(4,5) Failure show ?thesis by simp
  qed (use Cons.prems(4) in simp)
qed simp

text \<open>An open breaker lets nothing through until its cool-down is over: after any history that leaves it
  open until some instant, every gate before that instant is refused, in whatever order late failures of
  calls admitted earlier come in; only a late success can close it sooner.\<close>
lemma breaker_blocks:
  assumes "0 < failure_threshold cfg"
    and "br_state (snd (breaker_run cfg before breaker_new)) = Open until"
    and "Success \<notin> set evs"
    and "list_all (\<lambda>ev. case ev of Gate t \<Rightarrow> t < until | Failure t \<Rightarrow> until \<le> t + cooldown cfg | Success \<Rightarrow> True) evs"
  shows "list_all id (fst (breaker_run cfg evs (snd (breaker_run cfg before breaker_new))))"
  using open_run [OF breaker_wf_run [OF assms(1) breaker_wf_new [OF assms(1)]] assms(2) order_refl assms(3,4)] by simp

text \<open>Once the cool-down is over the breaker admits every call, not one probe: any number of gates that
  come before the first outcome all pass.\<close>
lemma half_open_admits_all:
  assumes "br_state b = Open until" "until \<le> t"
  shows "fst (breaker_run cfg (Gate t # map Gate ts) b) = replicate (Suc (length ts)) False"
proof -
  have h: "fst (breaker_run cfg (map Gate ts) b') = replicate (length ts) False" if "br_state b' = HalfOpen" for b'
    by (induction ts) (simp_all add: gate_def that split_def)
  from assms have "gate t b = (False, b\<lparr>br_state := HalfOpen\<rparr>)" by (simp add: gate_def)
  with h [of "b\<lparr>br_state := HalfOpen\<rparr>"] show ?thesis by (simp add: split_def)
qed

text \<open>A probe decides: its success closes the breaker, its failure opens it for another cool-down.\<close>

lemma probe_outcome:
  assumes "breaker_wf cfg b" "br_state b = Open until" "until \<le> now"
  shows "breaker_call cfg now later (Inr v) b = (Inr v, breaker_new)"
    "\<exists>b'. breaker_call cfg now later (Inl e) b = (Inl (ErrInner e), b') \<and> br_state b' = Open (later + cooldown cfg)"
  using assms by (simp_all add: breaker_call_def gate_def on_success_def on_failure_def breaker_new_def Let_def)

end
