(* ===== verification/App_Error.thy ===== *)
theory App_Error
  imports Http_Headers
begin

text \<open>
  The backend's error type and the response it becomes, \<open>backend/src/error.rs\<close>. The errors of sqlx and reqwest
  are carried as type parameters; the JSON body is the pair of its two members.
\<close>

datatype error_code =
  ECInternal | DependencyUnavailable | Unauthenticated | ECForbidden | InvalidRequest | ECNotFound
  | ECSetupRequired | ECRateLimited

definition error_code_str :: "error_code \<Rightarrow> str" where
  "error_code_str c =
    (case c of
       ECInternal \<Rightarrow> ''INTERNAL''
     | DependencyUnavailable \<Rightarrow> ''DEPENDENCY_UNAVAILABLE''
     | Unauthenticated \<Rightarrow> ''UNAUTHENTICATED''
     | ECForbidden \<Rightarrow> ''FORBIDDEN''
     | InvalidRequest \<Rightarrow> ''INVALID_REQUEST''
     | ECNotFound \<Rightarrow> ''NOT_FOUND''
     | ECSetupRequired \<Rightarrow> ''SETUP_REQUIRED''
     | ECRateLimited \<Rightarrow> ''RATE_LIMITED'')"

datatype ('db, 'net) app_error =
  Database 'db
| Config str
| Vault str
| Auth str
| Validation str
| Reqwest 'net
| NotFound str
| Forbidden
| SetupRequired
| RateLimited str
| TooManyAttempts str u32
| Internal str

fun show_app_error :: "('db \<Rightarrow> str) \<Rightarrow> ('net \<Rightarrow> str) \<Rightarrow> ('db, 'net) app_error \<Rightarrow> str" where
  "show_app_error db net (Database e) = ''Database error: '' @ db e"
| "show_app_error db net (Config m) = ''Configuration error: '' @ m"
| "show_app_error db net (Vault m) = ''Vault error: '' @ m"
| "show_app_error db net (Auth m) = ''Authentication error: '' @ m"
| "show_app_error db net (Validation m) = ''Validation error: '' @ m"
| "show_app_error db net (Reqwest e) = ''Network error: '' @ net e"
| "show_app_error db net (NotFound m) = ''Not found: '' @ m"
| "show_app_error db net Forbidden = ''Forbidden''"
| "show_app_error db net SetupRequired = ''Setup required''"
| "show_app_error db net (RateLimited m) = m"
| "show_app_error db net (TooManyAttempts m _) = m"
| "show_app_error db net (Internal m) = m"

fun error_status_and_message :: "('db, 'net) app_error \<Rightarrow> nat \<times> error_code \<times> str" where
  "error_status_and_message (Database _) = (500, ECInternal, ''Internal server error'')"
| "error_status_and_message (Config _) = (500, ECInternal, ''Internal server error'')"
| "error_status_and_message (Vault _) = (502, DependencyUnavailable, ''Service dependency error'')"
| "error_status_and_message (Reqwest _) = (502, DependencyUnavailable, ''Service connectivity error'')"
| "error_status_and_message (Auth msg) = (401, Unauthenticated, msg)"
| "error_status_and_message (Validation msg) = (400, InvalidRequest, msg)"
| "error_status_and_message (NotFound msg) = (404, ECNotFound, msg)"
| "error_status_and_message Forbidden = (403, ECForbidden, ''Forbidden'')"
| "error_status_and_message SetupRequired = (503, ECSetupRequired, ''Setup required'')"
| "error_status_and_message (RateLimited msg) = (429, ECRateLimited, msg)"
| "error_status_and_message (TooManyAttempts msg _) = (429, ECRateLimited, msg)"
| "error_status_and_message (Internal _) = (500, ECInternal, ''Internal server error'')"

record error_response =
  er_status :: nat
  er_error :: str
  er_code :: str
  er_retry_after :: "u32 option"

definition error_into_response :: "('db, 'net) app_error \<Rightarrow> error_response" where
  "error_into_response e =
    (let (status, code, message) = error_status_and_message e in
     \<lparr>er_status = status, er_error = message, er_code = error_code_str code,
      er_retry_after = (case e of TooManyAttempts _ secs \<Rightarrow> Some secs | _ \<Rightarrow> None)\<rparr>)"

definition internal_failure :: "('db, 'net) app_error \<Rightarrow> bool" where
  "internal_failure e =
    (case e of Database _ \<Rightarrow> True | Config _ \<Rightarrow> True | Vault _ \<Rightarrow> True | Reqwest _ \<Rightarrow> True | Internal _ \<Rightarrow> True | _ \<Rightarrow> False)"

text \<open>
  What a client learns of an internal failure: one of three fixed answers, so neither the text of the error nor
  which query or upstream failed beyond that.
\<close>

lemma internal_failure_response:
  "internal_failure e \<Longrightarrow> error_into_response e \<in>
    {\<lparr>er_status = 500, er_error = ''Internal server error'', er_code = ''INTERNAL'', er_retry_after = None\<rparr>,
     \<lparr>er_status = 502, er_error = ''Service dependency error'', er_code = ''DEPENDENCY_UNAVAILABLE'', er_retry_after = None\<rparr>,
     \<lparr>er_status = 502, er_error = ''Service connectivity error'', er_code = ''DEPENDENCY_UNAVAILABLE'', er_retry_after = None\<rparr>}"
  by (cases e) (auto simp: internal_failure_def error_into_response_def error_code_str_def)

lemma error_code_str_inj: "error_code_str c = error_code_str d \<Longrightarrow> c = d"
  by (cases c; cases d) (simp_all add: error_code_str_def)

end
