(* ===== verification/Admission.thy ===== *)
theory Admission
  imports App_Error Hash_Map "HOL-Library.Multiset"
begin

text \<open>
  Session admission, \<open>backend/src/services/admission.rs\<close>: a ledger of reserved memory and of sessions per user.
  Users are a type parameter. \<open>admit\<close> runs under the lock of the per-user map, so it is one step; a release gives
  the memory back first and takes the lock afterwards, so it is two, and other operations may come in between.
\<close>

definition MIB :: u64 where [bound_simps]: "MIB = 1024 * 1024"
definition SESSION_OVERHEAD :: u64 where [bound_simps]: "SESSION_OVERHEAD = 8 * MIB"
definition TERMINAL_SESSION :: u64 where [bound_simps]: "TERMINAL_SESSION = 4 * MIB"
definition BROWSER_SESSION :: u64 where [bound_simps]: "BROWSER_SESSION = 384 * MIB"
definition MAX_PIXELS :: u64 where [bound_simps]: "MAX_PIXELS = 7680 * 4320"

record 'u ledger =
  reserved :: u64
  rejected :: u64
  per_user :: "('u, u32) hmap"

definition ledger_new :: "'u ledger" where
  "ledger_new = \<lparr>reserved = 0, rejected = 0, per_user = []\<rparr>"

definition held_by :: "'u \<Rightarrow> 'u ledger \<Rightarrow> u32" where
  "held_by user l = (case hm_get user (per_user l) of Some n \<Rightarrow> n | None \<Rightarrow> 0)"

definition admit :: "u64 \<Rightarrow> 'u \<Rightarrow> u32 option \<Rightarrow> u64 \<Rightarrow> 'u ledger \<Rightarrow> (('db, 'net) app_error + 'u \<times> u64) \<times> 'u ledger" where
  "admit budget user user_limit bytes l =
    (let held = held_by user l in
     if (case user_limit of Some limit \<Rightarrow> held \<ge> limit | None \<Rightarrow> False)
     then (Inl (RateLimited (''You already have '' @ show_u32 held @ '' open session(s), the most your role allows. Close one and try again.'')),
           l\<lparr>rejected := rejected l + 1\<rparr>)
     else if \<not> (reserved l + bytes \<le> budget)
     then (Inl (RateLimited ''The server is at capacity. Try again in a few minutes.''), l\<lparr>rejected := rejected l + 1\<rparr>)
     else (Inr (user, bytes),
           l\<lparr>reserved := reserved l + bytes, per_user := hm_insert user (held + 1) (per_user l)\<rparr>))"

definition release_bytes :: "u64 \<Rightarrow> 'u ledger \<Rightarrow> 'u ledger" where
  "release_bytes bytes l = l\<lparr>reserved := reserved l - bytes\<rparr>"

definition release_user :: "'u \<Rightarrow> 'u ledger \<Rightarrow> 'u ledger" where
  "release_user user l =
    (case hm_get user (per_user l) of
       None \<Rightarrow> l
     | Some held \<Rightarrow>
         if held - 1 = 0 then l\<lparr>per_user := hm_remove user (per_user l)\<rparr>
         else l\<lparr>per_user := hm_insert user (held - 1) (per_user l)\<rparr>)"

record admission_stats =
  reserved_bytes :: u64
  limit_bytes :: u64
  stats_rejected :: u64
  stats_sessions :: u32

definition ledger_stats :: "u64 \<Rightarrow> 'u ledger \<Rightarrow> admission_stats" where
  "ledger_stats limit l =
    \<lparr>reserved_bytes = reserved l, limit_bytes = limit, stats_rejected = rejected l,
     stats_sessions = sum_list (hm_values (per_user l))\<rparr>"

section \<open>Estimates and configuration\<close>

definition u32_or :: "u32 option \<Rightarrow> u32 \<Rightarrow> u32" where
  "u32_or v d = (case v of Some n \<Rightarrow> n | None \<Rightarrow> d)"

definition estimate :: "str \<Rightarrow> u32 option \<Rightarrow> u32 option \<Rightarrow> u64" where
  "estimate protocol width height =
    (let pixels = ucast (max (u32_or width 1920) 1) * (ucast (max (u32_or height 1080) 1) :: u64);
         framebuffer = min pixels MAX_PIXELS * 4 * 2
     in if protocol = ''ssh'' \<or> protocol = ''telnet'' \<or> protocol = ''kubernetes'' then TERMINAL_SESSION
        else if protocol = ''web'' then BROWSER_SESSION + framebuffer
        else SESSION_OVERHEAD + framebuffer)"

definition user_limit :: "str option \<Rightarrow> i32 option \<Rightarrow> u32 option" where
  "user_limit env role_limit =
    (case (case (case role_limit of None \<Rightarrow> None | Some n \<Rightarrow> if sint n \<ge> 0 then Some n else None) of
             Some n \<Rightarrow> Some n
           | None \<Rightarrow> (case env of None \<Rightarrow> None | Some v \<Rightarrow> parse_u32 (trim v))) of
       Some n \<Rightarrow> if n > 0 then Some n else None
     | None \<Rightarrow> None)"

definition env_mb :: "str option \<Rightarrow> u64 option" where
  "env_mb env =
    (case env of
       None \<Rightarrow> None
     | Some v \<Rightarrow>
         (case parse_uint 64 (trim v) of None \<Rightarrow> None | Some mb \<Rightarrow> if mb > 0 then Some (of_nat mb) else None))"

text \<open>\<open>memory_capacity\<close> takes the host's memory and the content of the cgroup file, if one could be read.\<close>

definition cgroup_limit :: "str option \<Rightarrow> u64 option" where
  "cgroup_limit file_text =
    (case file_text of
       None \<Rightarrow> None
     | Some raw \<Rightarrow>
         (case parse_uint 64 (trim raw) of None \<Rightarrow> None | Some limit \<Rightarrow> if limit < 2 ^ 60 then Some (of_nat limit) else None))"

definition memory_capacity :: "u64 \<Rightarrow> str option \<Rightarrow> u64" where
  "memory_capacity host file_text = (case cgroup_limit file_text of None \<Rightarrow> host | Some limit \<Rightarrow> min limit host)"

definition budget_from :: "str option \<Rightarrow> str option \<Rightarrow> u64 \<Rightarrow> str option \<Rightarrow> u64" where
  "budget_from session_env nvr_env host file_text =
    (case env_mb session_env of
       Some mb \<Rightarrow> mb * MIB
     | None \<Rightarrow>
         let nvr = (case env_mb nvr_env of Some mb \<Rightarrow> mb | None \<Rightarrow> 1024) * MIB;
             share = memory_capacity host file_text div 4 * 3
         in max (if nvr \<le> share then share - nvr else 0) (256 * MIB))"

section \<open>Sessions over time\<close>

text \<open>
  The system is the ledger with the reservations that are live and those whose memory is already given back while
  their user is not yet. Every admission reads a budget of its own, at most \<open>B\<close>; \<open>lim\<close> is the session limit of a
  user. A process holds fewer than \<open>2 ^ 32\<close> sessions at a time.
\<close>

record 'u admission_sys =
  as_ledger :: "'u ledger"
  as_live :: "('u \<times> u64) multiset"
  as_freeing :: "('u \<times> u64) multiset"

definition admission_init :: "'u admission_sys" where
  "admission_init = \<lparr>as_ledger = ledger_new, as_live = {#}, as_freeing = {#}\<rparr>"

inductive admission_reach :: "u64 \<Rightarrow> ('u \<Rightarrow> u32 option) \<Rightarrow> 'u admission_sys \<Rightarrow> bool" for B lim where
  init: "admission_reach B lim admission_init"
| admitted: "admission_reach B lim s \<Longrightarrow> budget \<le> B \<Longrightarrow> unat bytes < 2 ^ 63
    \<Longrightarrow> size (as_live s) + size (as_freeing s) + 1 < 2 ^ 32
    \<Longrightarrow> admit budget user (lim user) bytes (as_ledger s) = ((Inr (user', bytes') :: (unit, unit) app_error + 'u \<times> u64), l)
    \<Longrightarrow> admission_reach B lim (s\<lparr>as_ledger := l, as_live := add_mset (user', bytes') (as_live s)\<rparr>)"
| refused: "admission_reach B lim s
    \<Longrightarrow> admit budget user (lim user) bytes (as_ledger s) = ((Inl e :: (unit, unit) app_error + 'u \<times> u64), l)
    \<Longrightarrow> admission_reach B lim (s\<lparr>as_ledger := l\<rparr>)"
| dropping: "admission_reach B lim s \<Longrightarrow> (user, bytes) \<in># as_live s
    \<Longrightarrow> admission_reach B lim (s\<lparr>as_ledger := release_bytes bytes (as_ledger s),
          as_live := as_live s - {#(user, bytes)#}, as_freeing := add_mset (user, bytes) (as_freeing s)\<rparr>)"
| dropped: "admission_reach B lim s \<Longrightarrow> (user, bytes) \<in># as_freeing s
    \<Longrightarrow> admission_reach B lim (s\<lparr>as_ledger := release_user user (as_ledger s),
          as_freeing := as_freeing s - {#(user, bytes)#}\<rparr>)"

section \<open>The ledger counts what is live\<close>

definition bytes_of :: "('u \<times> u64) multiset \<Rightarrow> nat" where
  "bytes_of M = sum_mset (image_mset (\<lambda>p. unat (snd p)) M)"

definition sessions_of :: "'u \<Rightarrow> ('u \<times> u64) multiset \<Rightarrow> nat" where
  "sessions_of u M = size (filter_mset (\<lambda>p. fst p = u) M)"

definition ledger_inv :: "u64 \<Rightarrow> ('u \<Rightarrow> u32 option) \<Rightarrow> 'u admission_sys \<Rightarrow> bool" where
  "ledger_inv B lim s \<longleftrightarrow>
     unat (reserved (as_ledger s)) = bytes_of (as_live s) \<and> bytes_of (as_live s) \<le> unat B
   \<and> size (as_live s) + size (as_freeing s) < 2 ^ 32
   \<and> (\<forall>u. unat (held_by u (as_ledger s)) = sessions_of u (as_live s) + sessions_of u (as_freeing s))
   \<and> (\<forall>u n. lim u = Some n \<longrightarrow> sessions_of u (as_live s) + sessions_of u (as_freeing s) \<le> unat n)"

lemma bytes_of_simps [simp]:
  "bytes_of {#} = 0" "bytes_of (add_mset p M) = unat (snd p) + bytes_of M"
  by (simp_all add: bytes_of_def)

lemma bytes_of_remove: "p \<in># M \<Longrightarrow> bytes_of M = unat (snd p) + bytes_of (M - {#p#})"
  using bytes_of_simps(2) [of p "M - {#p#}"] by simp

lemma sessions_of_simps [simp]:
  "sessions_of u {#} = 0"
  "sessions_of u (add_mset p M) = (if fst p = u then 1 else 0) + sessions_of u M"
  by (simp_all add: sessions_of_def)

lemma sessions_of_remove: "p \<in># M \<Longrightarrow> sessions_of u M = (if fst p = u then 1 else 0) + sessions_of u (M - {#p#})"
  using sessions_of_simps(2) [of u p "M - {#p#}"] by simp

lemma sessions_of_le: "sessions_of u M \<le> size M"
  by (simp add: sessions_of_def size_filter_mset_lesseq)

lemma unat_add_small: "unat (a :: u64) + unat b < 2 ^ 64 \<Longrightarrow> unat (a + b) = unat a + unat b"
  by (simp add: unat_word_ariths)

lemma unat_sub_small: "unat (b :: u64) \<le> unat a \<Longrightarrow> unat (a - b) = unat a - unat b"
  by (simp add: unat_sub word_le_nat_alt)

lemma unat_u32_succ: "unat (a :: u32) + 1 < 2 ^ 32 \<Longrightarrow> unat (a + 1) = unat a + 1"
  by (simp add: unat_word_ariths)

lemma unat_u32_pred: "a \<noteq> (0 :: u32) \<Longrightarrow> unat (a - 1) = unat a - 1"
  by (rule unat_minus_one)

lemma held_by_release:
  assumes "held_by user l \<noteq> 0"
  shows "held_by u (release_user user l) = (if u = user then held_by user l - 1 else held_by u l)"
  using assms by (auto simp: held_by_def release_user_def split: option.splits)

lemma held_by_other [simp]:
  "held_by u (release_bytes b l) = held_by u l" "held_by u (l\<lparr>rejected := r\<rparr>) = held_by u l"
  "reserved (release_user user l) = reserved l"
  by (simp_all add: held_by_def release_bytes_def release_user_def split: option.split)

lemma admit_Inr:
  assumes "admit budget user limit bytes l = (Inr (user', bytes'), l')"
  shows "user' = user" "bytes' = bytes" "reserved l + bytes \<le> budget"
    "reserved l' = reserved l + bytes" "\<And>n. limit = Some n \<Longrightarrow> held_by user l < n"
    "held_by u l' = (if u = user then held_by user l + 1 else held_by u l)"
  using assms by (auto simp: admit_def Let_def held_by_def split: if_splits option.splits)

lemma admit_Inl:
  "admit budget user limit bytes l = (Inl e, l') \<Longrightarrow> l' = l\<lparr>rejected := rejected l + 1\<rparr>"
  by (auto simp: admit_def Let_def split: if_splits)

lemma ledger_inv_admitted:
  assumes "ledger_inv B lim s" "unat B < 2 ^ 63" "budget \<le> B" "unat bytes < 2 ^ 63"
    and "size (as_live s) + size (as_freeing s) + 1 < 2 ^ 32"
    and ad: "admit budget user (lim user) bytes (as_ledger s) = (Inr (user', bytes'), l)"
  shows "ledger_inv B lim (s\<lparr>as_ledger := l, as_live := add_mset (user', bytes') (as_live s)\<rparr>)"
proof -
  note a = admit_Inr [OF ad]
  let ?n = "\<lambda>u. sessions_of u (as_live s) + sessions_of u (as_freeing s)"
  have r: "unat (reserved (as_ledger s)) = bytes_of (as_live s)" "bytes_of (as_live s) \<le> unat B"
    and h: "unat (held_by u (as_ledger s)) = ?n u" for u
    using assms(1) by (auto simp: ledger_inv_def)
  have sum: "unat (reserved (as_ledger s) + bytes) = unat bytes + bytes_of (as_live s)"
    using r assms(2,4) by (subst unat_add_small) simp_all
  have "unat (reserved (as_ledger s) + bytes) \<le> unat B"
    using a(3) assms(3) by (simp add: word_le_nat_alt)
  with sum a(4) a(1,2) have part1: "unat (reserved l) = bytes_of (add_mset (user', bytes') (as_live s))"
    "bytes_of (add_mset (user', bytes') (as_live s)) \<le> unat B" by simp_all
  have small: "?n user + 1 < 2 ^ 32"
    using assms(5) sessions_of_le [of user "as_live s"] sessions_of_le [of user "as_freeing s"] by linarith
  have held: "unat (held_by u l) = (if user = u then 1 else 0) + ?n u" for u
    using a(6) [of u] unat_u32_succ [of "held_by user (as_ledger s)"] small by (auto simp: h)
  moreover have "?n user + 1 \<le> unat n" if "lim user = Some n" for n
    using a(5) [OF that] by (simp add: word_less_nat_alt h)
  ultimately show ?thesis
    using assms(1,5) part1 a(1) by (auto simp: ledger_inv_def)
qed

lemma ledger_inv_dropping:
  assumes "ledger_inv B lim s" "(user, bytes) \<in># as_live s"
  shows "ledger_inv B lim (s\<lparr>as_ledger := release_bytes bytes (as_ledger s),
     as_live := as_live s - {#(user, bytes)#}, as_freeing := add_mset (user, bytes) (as_freeing s)\<rparr>)"
proof -
  have b: "bytes_of (as_live s) = unat bytes + bytes_of (as_live s - {#(user, bytes)#})"
    using bytes_of_remove [OF assms(2)] by simp
  have n: "sessions_of u (as_live s - {#(user, bytes)#}) + sessions_of u (add_mset (user, bytes) (as_freeing s))
      = sessions_of u (as_live s) + sessions_of u (as_freeing s)" for u
    using sessions_of_remove [OF assms(2), of u] by simp
  have "size (as_live s) = Suc (size (as_live s - {#(user, bytes)#}))" using size_Suc_Diff1 [OF assms(2)] by simp
  moreover have "unat (reserved (release_bytes bytes (as_ledger s))) = bytes_of (as_live s - {#(user, bytes)#})"
    using assms(1) b by (simp add: ledger_inv_def release_bytes_def unat_sub_small)
  ultimately show ?thesis
    using assms(1) b by (simp add: ledger_inv_def n del: sessions_of_simps)
qed

lemma ledger_inv_dropped:
  assumes "ledger_inv B lim s" "(user, bytes) \<in># as_freeing s"
  shows "ledger_inv B lim (s\<lparr>as_ledger := release_user user (as_ledger s), as_freeing := as_freeing s - {#(user, bytes)#}\<rparr>)"
proof -
  let ?n = "\<lambda>u. sessions_of u (as_live s) + sessions_of u (as_freeing s)"
  let ?m = "\<lambda>u. sessions_of u (as_live s) + sessions_of u (as_freeing s - {#(user, bytes)#})"
  have m: "?n u = (if user = u then 1 else 0) + ?m u" for u
    using sessions_of_remove [OF assms(2), of u] by simp
  have inv: "unat (held_by u (as_ledger s)) = ?n u" "lim u = Some n \<Longrightarrow> ?n u \<le> unat n" for u n
    using assms(1) by (auto simp: ledger_inv_def)
  have "unat (held_by user (as_ledger s)) \<noteq> 0" using inv(1) [of user] m [of user] by simp
  then have nz: "held_by user (as_ledger s) \<noteq> 0" by auto
  have held: "unat (held_by u (release_user user (as_ledger s))) = ?m u" for u
    using unat_u32_pred [OF nz] inv(1) [of u] m [of u] by (auto simp: held_by_release [OF nz])
  have limit: "lim u = Some n \<Longrightarrow> ?m u \<le> unat n" for u n
    using inv(2) [of u n] m [of u] by simp
  show ?thesis
    using assms(1) held limit size_Suc_Diff1 [OF assms(2)] by (simp add: ledger_inv_def)
qed

lemma admission_invariant:
  assumes "admission_reach B lim s" "unat B < 2 ^ 63"
  shows "ledger_inv B lim s"
  using assms(1)
proof induction
  case init
  then show ?case by (simp add: ledger_inv_def admission_init_def ledger_new_def held_by_def)
next
  case (refused s budget user bytes e l)
  then show ?case using admit_Inl [OF refused(2)] by (simp add: ledger_inv_def)
qed (auto intro: ledger_inv_admitted ledger_inv_dropping ledger_inv_dropped assms(2))

section \<open>The specification and its refinement\<close>

text \<open>What admission promises, over the live sessions alone: room in the budget and in the user's limit.\<close>

definition may_admit :: "u64 \<Rightarrow> u32 option \<Rightarrow> 'u \<Rightarrow> u64 \<Rightarrow> ('u \<times> u64) multiset \<Rightarrow> bool" where
  "may_admit budget limit user bytes live \<longleftrightarrow>
     bytes_of live + unat bytes \<le> unat budget
   \<and> (case limit of None \<Rightarrow> True | Some n \<Rightarrow> sessions_of user live < unat n)"

lemma admit_iff:
  "is_ok (fst (admit budget user limit bytes l)) \<longleftrightarrow>
     reserved l + bytes \<le> budget \<and> (case limit of None \<Rightarrow> True | Some n \<Rightarrow> held_by user l < n)"
  by (auto simp: admit_def is_ok_def Let_def not_le split: option.splits)

lemma admits_iff:
  assumes "admission_reach B lim s" "unat B < 2 ^ 63" "unat bytes < 2 ^ 63"
  shows "is_ok (fst (admit budget user limit bytes (as_ledger s))) \<longleftrightarrow>
     bytes_of (as_live s) + unat bytes \<le> unat budget
   \<and> (case limit of None \<Rightarrow> True | Some n \<Rightarrow> sessions_of user (as_live s) + sessions_of user (as_freeing s) < unat n)"
proof -
  have inv: "unat (reserved (as_ledger s)) = bytes_of (as_live s)" "bytes_of (as_live s) \<le> unat B"
    "unat (held_by user (as_ledger s)) = sessions_of user (as_live s) + sessions_of user (as_freeing s)"
    using admission_invariant [OF assms(1,2)] by (auto simp: ledger_inv_def)
  then have "unat (reserved (as_ledger s) + bytes) = bytes_of (as_live s) + unat bytes"
    using assms(2,3) by (subst unat_add_small) simp_all
  with inv(3) show ?thesis by (simp add: admit_iff word_le_nat_alt word_less_nat_alt split: option.split)
qed

section \<open>Properties\<close>

text \<open>C7: in every state the process can reach, with releases interleaved in any way, the ledger's total is the
  sum over the live sessions and stays within the budget, and no user has more sessions than their limit,
  where each user's limit stays the same during the run.\<close>

theorem admission_never_overcommits:
  assumes "admission_reach B lim s" "unat B < 2 ^ 63"
  shows "unat (reserved (as_ledger s)) = bytes_of (as_live s)
    \<and> bytes_of (as_live s) \<le> unat B
    \<and> (case lim u of None \<Rightarrow> True | Some n \<Rightarrow> sessions_of u (as_live s) \<le> unat n)"
proof -
  have "ledger_inv B lim s" by (rule admission_invariant [OF assms])
  moreover from this have "sessions_of u (as_live s) \<le> unat n" if "lim u = Some n" for n
    using that unfolding ledger_inv_def by (metis add_leE)
  ultimately show ?thesis by (auto simp: ledger_inv_def split: option.split)
qed

definition one_session :: "nat admission_sys" where
  "one_session = admission_init\<lparr>as_ledger := snd (admit 100 7 (Some 1) 60 ledger_new :: ((unit, unit) app_error + _) \<times> _),
     as_live := {#(7, 60)#}\<rparr>"

lemma one_session_reach: "admission_reach 100 (\<lambda>_. Some 1) one_session"
proof -
  have "admission_reach 100 (\<lambda>_. Some 1) (admission_init\<lparr>as_ledger := snd (admit 100 7 (Some 1) 60 ledger_new :: ((unit, unit) app_error + _) \<times> _),
      as_live := add_mset (7 :: nat, 60) (as_live admission_init)\<rparr>)"
    by (rule admission_reach.admitted [OF admission_reach.init, where budget = 100 and user = 7 and bytes = 60])
      (simp_all add: admission_init_def admit_def held_by_def ledger_new_def)
  then show ?thesis by (simp add: one_session_def admission_init_def)
qed

theorem admission_never_overcommits_witness:
  "unat (reserved (as_ledger one_session)) = bytes_of (as_live one_session) \<and> bytes_of (as_live one_session) \<le> unat (100 :: u64)"
  using admission_never_overcommits [OF one_session_reach] by simp

text \<open>C28: the ledger refines the specification. Whatever it admits the live sessions leave room for; and when no
  release is half done it refuses nothing the specification would allow.\<close>

theorem admission_refines:
  assumes "admission_reach B lim s" "unat B < 2 ^ 63" "unat bytes < 2 ^ 63"
  shows "(is_ok (fst (admit budget user (lim user) bytes (as_ledger s))) \<longrightarrow> may_admit budget (lim user) user bytes (as_live s))
    \<and> (as_freeing s = {#} \<longrightarrow>
        (is_ok (fst (admit budget user (lim user) bytes (as_ledger s))) \<longleftrightarrow> may_admit budget (lim user) user bytes (as_live s)))"
  unfolding admits_iff [OF assms] may_admit_def by (auto split: option.splits)

theorem admission_refines_witness:
  "is_ok (fst (admit 100 8 (Some 1) 40 (as_ledger one_session) :: ((unit, unit) app_error + _) \<times> _))
     = may_admit 100 (Some 1) 8 40 (as_live one_session)"
proof -
  have "as_freeing one_session = {#}" by (simp add: one_session_def admission_init_def)
  then show ?thesis using conjunct2 [OF admission_refines [OF one_session_reach, of 40 100 8]] by simp
qed

lemma frame_bytes:
  assumes "unat x \<le> 7680 * 4320"
  shows "unat (BROWSER_SESSION + x * 4 * 2) = 384 * 2 ^ 20 + 8 * unat x"
    "unat (SESSION_OVERHEAD + x * 4 * 2) = 8 * 2 ^ 20 + 8 * unat x" "unat TERMINAL_SESSION = 4 * 2 ^ 20"
  using assms by (simp_all add: unat_word_ariths bound_simps)

text \<open>The estimate of a session's memory does not overflow: it is the base of its protocol plus two frame buffers
  of four bytes a pixel, for at most an 8K display, so at most 384 MiB and 8K pixels.\<close>

lemma estimate_exact:
  "unat (estimate protocol width height) =
    (if protocol \<in> {''ssh'', ''telnet'', ''kubernetes''} then 4 * 2 ^ 20
     else (if protocol = ''web'' then 384 * 2 ^ 20 else 8 * 2 ^ 20)
       + 8 * min (max (unat (u32_or width 1920)) 1 * max (unat (u32_or height 1080)) 1) (7680 * 4320))"
proof -
  let ?w = "max (u32_or width 1920) 1" and ?h = "max (u32_or height 1080) 1"
  have m: "unat (max x 1) = max (unat x) 1" for x :: u32
    by (simp add: max_def word_le_nat_alt)
  have bounds: "unat ?w < 2 ^ 32" "unat ?h < 2 ^ 32"
    using unsigned_less [of ?w, where 'a = nat] unsigned_less [of ?h, where 'a = nat] by simp_all
  have small: "unat ?w < 2 ^ 64" "unat ?h < 2 ^ 64"
    by (rule order_less_le_trans [OF bounds(1)], simp) (rule order_less_le_trans [OF bounds(2)], simp)
  from bounds have "unat ?w * unat ?h < 2 ^ 32 * 2 ^ 32" by (intro mult_strict_mono) simp_all
  then have p: "unat (ucast ?w * ucast ?h :: u64) = unat ?w * unat ?h"
    using small by (simp add: unat_word_ariths unsigned_ucast_eq take_bit_nat_eq_self)
  have min: "unat (min a b) = min (unat a) (unat b)" for a b :: u64
    by (simp add: min_def word_le_nat_alt)
  have px: "unat (min (ucast ?w * ucast ?h) MAX_PIXELS) = min (unat ?w * unat ?h) (7680 * 4320)"
    by (simp only: min p) (simp add: MAX_PIXELS_def)
  have le: "unat (min (ucast ?w * ucast ?h) MAX_PIXELS) \<le> 7680 * 4320" unfolding px by simp
  show ?thesis
    by (simp only: estimate_def Let_def if_distrib [of unat] frame_bytes [OF le] px m insert_iff empty_iff) simp
qed

end
