(* ===== verification/Token_Revocation.thy ===== *)
theory Token_Revocation
  imports Hash_Map Rust_Text
begin

text \<open>
  The revocation list of access tokens, \<open>backend/src/services/token_revocation.rs\<close>: a map from token hashes to
  expiry times, filled by logouts on this replica, from the database at start, and by periodic syncs. SHA-256 is
  an argument. Expiry times and the system clock are seconds since the epoch as \<open>u64\<close>, monotonic instants are
  nanoseconds, and the database is its list of rows with its own clock in seconds.
\<close>

definition MAX_ENTRIES :: nat where [bound_simps]: "MAX_ENTRIES = 100000"
definition SYNC_OVERLAP_SECS :: int where [bound_simps]: "SYNC_OVERLAP_SECS = 60"
definition STALE_AFTER :: nat where [bound_simps]: "STALE_AFTER = 300 * 10 ^ 9"

record revocation =
  revoked_tokens :: "(str, u64) hmap"
  last_sync :: "nat option"

record revoked_row =
  row_hash :: str
  row_expires :: int
  row_created :: int

definition revocation_new :: revocation where
  "revocation_new = \<lparr>revoked_tokens = [], last_sync = None\<rparr>"

definition token_hash :: "(bytes \<Rightarrow> bytes) \<Rightarrow> str \<Rightarrow> str" where
  "token_hash sha256 token = hex_encode (sha256 (as_bytes token))"

definition revoke :: "(bytes \<Rightarrow> bytes) \<Rightarrow> u64 \<Rightarrow> str \<Rightarrow> u64 \<Rightarrow> revocation \<Rightarrow> revocation" where
  "revoke sha256 now token expiry s =
    (let m = (if hm_len (revoked_tokens s) > MAX_ENTRIES div 2
              then hm_retain (\<lambda>_ e. e > now) (revoked_tokens s) else revoked_tokens s)
     in s\<lparr>revoked_tokens := hm_insert (token_hash sha256 token) expiry m\<rparr>)"

definition cache_row :: "revoked_row \<Rightarrow> (str, u64) hmap \<Rightarrow> (str, u64) hmap" where
  "cache_row r m = hm_insert (row_hash r) (of_int (row_expires r)) m"

definition insert_rows :: "revoked_row list \<Rightarrow> revocation \<Rightarrow> revocation" where
  "insert_rows rows s =
    s\<lparr>revoked_tokens := fold cache_row rows (revoked_tokens s)\<rparr>"

text \<open>The start-up load; a query that fails counts as no rows.\<close>

definition load_from_db :: "int \<Rightarrow> revoked_row list option \<Rightarrow> revocation \<Rightarrow> revocation" where
  "load_from_db now_ts result s =
    (let rows = (case result of None \<Rightarrow> [] | Some db \<Rightarrow> filter (\<lambda>r. row_expires r > now_ts) db)
     in if rows \<noteq> [] then insert_rows rows s else s)"

definition sync_since :: "int \<Rightarrow> revoked_row list option \<Rightarrow> int \<Rightarrow> revocation \<Rightarrow> (int option) \<times> revocation" where
  "sync_since db_now result since s =
    (case result of
       None \<Rightarrow> (None, s)
     | Some db \<Rightarrow>
         let rows = filter (\<lambda>r. row_created r \<ge> since \<and> row_expires r > db_now) db
         in (Some (db_now - SYNC_OVERLAP_SECS), if rows \<noteq> [] then insert_rows rows s else s))"

text \<open>The sync task: its start, and one tick of its loop.\<close>

definition sync_start :: "nat \<Rightarrow> int \<Rightarrow> revocation \<Rightarrow> int \<times> revocation" where
  "sync_start instant utc_now s = (utc_now - SYNC_OVERLAP_SECS, s\<lparr>last_sync := Some instant\<rparr>)"

definition sync_tick :: "nat \<Rightarrow> int \<Rightarrow> revoked_row list option \<Rightarrow> int \<times> revocation \<Rightarrow> int \<times> revocation" where
  "sync_tick instant db_now result st =
    (case sync_since db_now result (fst st) (snd st) of
       (Some next, s) \<Rightarrow> (next, s\<lparr>last_sync := Some instant\<rparr>)
     | (None, s) \<Rightarrow> (fst st, s))"

definition sync_is_stale :: "nat \<Rightarrow> revocation \<Rightarrow> bool" where
  "sync_is_stale instant s = (case last_sync s of None \<Rightarrow> False | Some at \<Rightarrow> instant - at > STALE_AFTER)"

definition is_revoked :: "(bytes \<Rightarrow> bytes) \<Rightarrow> nat \<Rightarrow> u64 \<Rightarrow> str \<Rightarrow> revocation \<Rightarrow> bool" where
  "is_revoked sha256 instant now token s =
    (if sync_is_stale instant s then True
     else case hm_get (token_hash sha256 token) (revoked_tokens s) of Some e \<Rightarrow> e > now | None \<Rightarrow> False)"

section \<open>What a replica goes through\<close>

datatype revocation_event =
  Logout u64 str u64
| Ticked nat int "revoked_row list option"

definition revocation_step :: "(bytes \<Rightarrow> bytes) \<Rightarrow> revocation_event \<Rightarrow> int \<times> revocation \<Rightarrow> int \<times> revocation" where
  "revocation_step sha256 ev st =
    (case ev of
       Logout now token expiry \<Rightarrow> (fst st, revoke sha256 now token expiry (snd st))
     | Ticked instant db_now result \<Rightarrow> sync_tick instant db_now result st)"

definition revocation_run :: "(bytes \<Rightarrow> bytes) \<Rightarrow> revocation_event list \<Rightarrow> int \<times> revocation \<Rightarrow> int \<times> revocation" where
  "revocation_run sha256 evs st = fold (revocation_step sha256) evs st"

text \<open>
  What the callers guarantee of an event after a token with hash \<open>h\<close> and expiry \<open>e\<close> was revoked, seen from a moment
  \<open>t\<close> before that expiry: the clock has not passed \<open>t\<close>, and an entry for the same hash carries the same expiry, since
  that is a claim inside the token.
\<close>

definition benign :: "(bytes \<Rightarrow> bytes) \<Rightarrow> str \<Rightarrow> u64 \<Rightarrow> u64 \<Rightarrow> revocation_event \<Rightarrow> bool" where
  "benign sha256 h e t ev =
    (case ev of
       Logout now token expiry \<Rightarrow> now \<le> t \<and> (token_hash sha256 token = h \<longrightarrow> expiry = e)
     | Ticked _ _ result \<Rightarrow>
         (case result of None \<Rightarrow> True | Some db \<Rightarrow> list_all (\<lambda>r. row_hash r = h \<longrightarrow> of_int (row_expires r) = e) db))"

section \<open>Entries stay\<close>

lemma fold_insert_get:
  "list_all (\<lambda>r. row_hash r = h \<longrightarrow> of_int (row_expires r) = (e :: u64)) rows \<Longrightarrow> hm_get h m = Some e \<Longrightarrow>
    hm_get h (fold cache_row rows m) = Some e"
  by (induction rows arbitrary: m) (auto simp: cache_row_def)

lemma fold_insert_wf: "hm_wf m \<Longrightarrow> hm_wf (fold cache_row rows m)"
  by (induction rows arbitrary: m) (auto simp: cache_row_def)

lemma fold_insert_other:
  "list_all (\<lambda>r. row_hash r \<noteq> h) rows \<Longrightarrow>
    hm_get h (fold cache_row rows m) = hm_get h m"
  by (induction rows arbitrary: m) (auto simp: cache_row_def)

definition entry_kept :: "str \<Rightarrow> u64 \<Rightarrow> int \<times> revocation \<Rightarrow> bool" where
  "entry_kept h e st \<longleftrightarrow> hm_wf (revoked_tokens (snd st)) \<and> hm_get h (revoked_tokens (snd st)) = Some e"

lemma step_keeps:
  assumes "entry_kept h e st" "benign sha256 h e t ev" "t < e"
  shows "entry_kept h e (revocation_step sha256 ev st)"
proof (cases ev)
  case (Logout now token expiry)
  with assms show ?thesis
    by (auto simp: entry_kept_def revocation_step_def revoke_def benign_def hm_get_retain)
next
  case (Ticked instant db_now result)
  show ?thesis
  proof (cases result)
    case None
    with assms(1) Ticked show ?thesis by (simp add: entry_kept_def revocation_step_def sync_tick_def sync_since_def)
  next
    case (Some db)
    let ?rows = "filter (\<lambda>r. row_created r \<ge> fst st \<and> row_expires r > db_now) db"
    from assms(2) Ticked Some have "list_all (\<lambda>r. row_hash r = h \<longrightarrow> of_int (row_expires r) = e) ?rows"
      by (auto simp: benign_def list_all_iff)
    from fold_insert_get [OF this] fold_insert_wf assms(1) Ticked Some show ?thesis
      by (simp add: entry_kept_def revocation_step_def sync_tick_def sync_since_def insert_rows_def Let_def)
  qed
qed

lemma run_keeps:
  assumes "t < e"
  shows "entry_kept h e st \<Longrightarrow> list_all (benign sha256 h e t) evs \<Longrightarrow> entry_kept h e (revocation_run sha256 evs st)"
  unfolding revocation_run_def
  by (induction evs arbitrary: st) (simp_all add: step_keeps [OF _ _ assms])

lemma revoke_entry:
  "hm_wf (revoked_tokens s) \<Longrightarrow> entry_kept (token_hash sha256 token) e (since, revoke sha256 now token e s)"
  by (simp add: entry_kept_def revoke_def Let_def)

lemma revoke_wf: "hm_wf (revoked_tokens s) \<Longrightarrow> hm_wf (revoked_tokens (revoke sha256 now token e s))"
  by (simp add: revoke_def Let_def)

section \<open>Properties\<close>

text \<open>C31: a logout is final. Once a token is revoked it is refused at every moment before its expiry, whatever
  revocations, prunings, syncs and failed syncs come in between.\<close>

theorem revocation_is_final:
  assumes "hm_wf (revoked_tokens s)" "t < expiry"
    and "list_all (benign sha256 (token_hash sha256 token) expiry t) evs"
  shows "is_revoked sha256 instant t token
    (snd (revocation_run sha256 evs (since, revoke sha256 now token expiry s)))"
proof -
  from run_keeps [OF assms(2) revoke_entry [OF assms(1)] assms(3)] assms(2) show ?thesis
    by (simp add: is_revoked_def entry_kept_def)
qed

theorem revocation_is_final_witness:
  "is_revoked (\<lambda>b. b) 7 50 ''tok'' (snd (revocation_run (\<lambda>b. b) [Ticked 5 40 (Some []), Logout 45 ''other'' 60, Ticked 6 49 None]
     (0, revoke (\<lambda>b. b) 30 ''tok'' 100 revocation_new)))"
  by (rule revocation_is_final)
    (simp_all add: revocation_new_def benign_def token_hash_def hex_encode_def as_bytes_def hex_digit_def)

lemma tick_misses:
  assumes "hm_get h (revoked_tokens s) = None" "list_all (\<lambda>r. row_hash r = h \<longrightarrow> row_created r < since) db"
  shows "hm_get h (revoked_tokens (snd (sync_tick instant db_now (Some db) (since, s)))) = None"
proof -
  let ?rows = "filter (\<lambda>r. row_created r \<ge> since \<and> row_expires r > db_now) db"
  have "list_all (\<lambda>r. row_hash r \<noteq> h) ?rows" using assms(2) by (auto simp: list_all_iff)
  from fold_insert_other [OF this] assms(1) show ?thesis
    by (simp add: sync_tick_def sync_since_def insert_rows_def Let_def)
qed

lemma ticks_miss:
  assumes "list_all (\<lambda>r. row_hash r = h \<longrightarrow> row_created r < c) db"
  shows "hm_get h (revoked_tokens s) = None \<Longrightarrow> c \<le> since \<Longrightarrow> list_all (\<lambda>tk. c \<le> snd tk - SYNC_OVERLAP_SECS) ticks \<Longrightarrow>
    hm_get h (revoked_tokens (snd (fold (\<lambda>tk. sync_tick (fst tk) (snd tk) (Some db)) ticks (since, s)))) = None"
proof (induction ticks arbitrary: since s)
  case (Cons tk ticks)
  obtain s' where st: "sync_tick (fst tk) (snd tk) (Some db) (since, s) = (snd tk - SYNC_OVERLAP_SECS, s')"
    by (simp add: sync_tick_def sync_since_def Let_def)
  have "list_all (\<lambda>r. row_hash r = h \<longrightarrow> row_created r < since) db"
    using assms Cons.prems(2) by (auto simp: list_all_iff)
  then have "hm_get h (revoked_tokens s') = None"
    using tick_misses [OF Cons.prems(1), of since db "fst tk" "snd tk"] st by simp
  with Cons.IH [of s' "snd tk - SYNC_OVERLAP_SECS"] Cons.prems(3) st show ?case by simp
qed simp

text \<open>A start whose load fails, followed by syncs at the given instants and database times.\<close>

definition after_failed_load :: "nat \<Rightarrow> int \<Rightarrow> int \<Rightarrow> revoked_row list \<Rightarrow> (nat \<times> int) list \<Rightarrow> revocation" where
  "after_failed_load started now_ts utc_now db ticks =
    snd (fold (\<lambda>tk. sync_tick (fst tk) (snd tk) (Some db)) ticks
      (sync_start started utc_now (load_from_db now_ts None revocation_new)))"

text \<open>A database that cannot be read at start is forgotten, not failed closed: if the start-up load fails, a
  token revoked more than the sync overlap before the sync task started is accepted again, and stays accepted
  while the later syncs succeed, because they only ask for newer rows.\<close>

lemma failed_load_forgets:
  assumes "list_all (\<lambda>r. row_hash r = token_hash sha256 token \<longrightarrow> row_created r < utc_now - SYNC_OVERLAP_SECS) db"
    and "list_all (\<lambda>tk. utc_now \<le> snd tk) ticks"
  shows "is_revoked sha256 instant now token (after_failed_load started now_ts utc_now db ticks) =
    sync_is_stale instant (after_failed_load started now_ts utc_now db ticks)"
proof -
  have "hm_get (token_hash sha256 token) (revoked_tokens (after_failed_load started now_ts utc_now db ticks)) = None"
    unfolding after_failed_load_def sync_start_def
    by (rule ticks_miss [OF assms(1)])
      (use assms(2) in \<open>simp_all add: load_from_db_def revocation_new_def list_all_iff\<close>)
  then show ?thesis by (simp add: is_revoked_def)
qed

end
