(* ===== verification/Refresh_Tokens.thy ===== *)
theory Refresh_Tokens
  imports Strata_Prelude
begin

text \<open>
  Rotation of refresh tokens, \<open>backend/src/services/refresh_tokens.rs\<close>. Its state is the table
  \<open>refresh_tokens\<close>, a list of rows whose primary key is the token id; every SQL statement of the source is a
  function on that list, a transaction is atomic, and an insert that violates the primary key is the error branch,
  which leaves the table as it was. Ids are a type parameter; times are microseconds of the database clock.
\<close>

definition CONCURRENT_GRACE :: int where [bound_simps]: "CONCURRENT_GRACE = 30 * 10 ^ 6"
definition ONE_DAY :: int where [bound_simps]: "ONE_DAY = 24 * 60 * 60 * 10 ^ 6"

record 'id rt_row =
  rt_jti :: 'id
  rt_family :: 'id
  rt_user :: 'id
  rt_expires :: int
  rt_consumed :: "int option"
  rt_revoked :: "int option"

type_synonym 'id rt_table = "'id rt_row list"

record 'id successor =
  su_jti :: 'id
  su_expires :: int

datatype rotation = Rotated | Concurrent | Reused | Unknown

datatype db_error = UniqueViolation

section \<open>Statements\<close>

definition insert_row :: "'id rt_row \<Rightarrow> 'id rt_table \<Rightarrow> db_error + 'id rt_table" where
  "insert_row r t = (if rt_jti r \<in> set (map rt_jti t) then Inl UniqueViolation else Inr (r # t))"

definition fresh_row :: "'id \<Rightarrow> 'id \<Rightarrow> 'id \<Rightarrow> int \<Rightarrow> 'id rt_row" where
  "fresh_row jti family user expires =
    \<lparr>rt_jti = jti, rt_family = family, rt_user = user, rt_expires = expires, rt_consumed = None, rt_revoked = None\<rparr>"

definition record_new :: "'id \<Rightarrow> 'id \<Rightarrow> 'id \<Rightarrow> int \<Rightarrow> 'id rt_table \<Rightarrow> db_error + 'id rt_table" where
  "record_new jti family user expires t = insert_row (fresh_row jti family user expires) t"

definition consumable :: "int \<Rightarrow> 'id \<Rightarrow> 'id \<Rightarrow> 'id rt_row \<Rightarrow> bool" where
  "consumable now jti user r \<longleftrightarrow>
    rt_jti r = jti \<and> rt_user r = user \<and> rt_consumed r = None \<and> rt_revoked r = None \<and> rt_expires r > now"

text \<open>The update that consumes a token, with the family it returns.\<close>

definition consume :: "int \<Rightarrow> 'id \<Rightarrow> 'id \<Rightarrow> 'id rt_table \<Rightarrow> 'id option \<times> 'id rt_table" where
  "consume now jti user t =
    (map_option rt_family (List.find (consumable now jti user) t),
     map (\<lambda>r. if consumable now jti user r then r\<lparr>rt_consumed := Some now\<rparr> else r) t)"

text \<open>A token from before the table existed is adopted into a new family, at most once.\<close>

definition adopt :: "int \<Rightarrow> 'id \<Rightarrow> 'id \<Rightarrow> 'id \<Rightarrow> int \<Rightarrow> 'id rt_table \<Rightarrow> 'id option \<times> 'id rt_table" where
  "adopt now new_family jti user old_expires t =
    (case insert_row ((fresh_row jti new_family user old_expires)\<lparr>rt_consumed := Some now\<rparr>) t of
       Inl _ \<Rightarrow> (None, t) | Inr t' \<Rightarrow> (Some new_family, t'))"

definition revoke_family_in :: "int \<Rightarrow> 'id \<Rightarrow> 'id rt_table \<Rightarrow> 'id rt_table" where
  "revoke_family_in now family t =
    map (\<lambda>r. if rt_family r = family \<and> rt_revoked r = None then r\<lparr>rt_revoked := Some now\<rparr> else r) t"

definition classify :: "int option \<Rightarrow> bool \<Rightarrow> rotation" where
  "classify consumed_ago revoked =
    (case consumed_ago of
       Some age \<Rightarrow> if \<not> revoked \<and> age < CONCURRENT_GRACE then Concurrent else Reused
     | None \<Rightarrow> Reused)"

definition rotate_token ::
    "int \<Rightarrow> 'id \<Rightarrow> 'id \<Rightarrow> 'id \<Rightarrow> 'id option \<Rightarrow> int \<Rightarrow> 'id successor \<Rightarrow> 'id rt_table
      \<Rightarrow> (db_error + rotation) \<times> 'id rt_table" where
  "rotate_token now new_family jti user family old_expires nxt t =
    (let (consumed1, t1) = consume now jti user t;
         (consumed, t2) = (if consumed1 = None \<and> family = None
                           then adopt now new_family jti user old_expires t1 else (consumed1, t1))
     in case consumed of
          Some fam \<Rightarrow>
            (case insert_row (fresh_row (su_jti nxt) fam user (su_expires nxt)) t2 of
               Inl e \<Rightarrow> (Inl e, t)
             | Inr t3 \<Rightarrow> (Inr Rotated, t3))
        | None \<Rightarrow>
            (case List.find (\<lambda>r. rt_jti r = jti \<and> rt_user r = user) t2 of
               None \<Rightarrow> (Inr Unknown, t)
             | Some r \<Rightarrow>
                 let outcome = classify (map_option (\<lambda>c. now - c) (rt_consumed r)) (rt_revoked r \<noteq> None)
                 in if outcome = Reused then (Inr Reused, revoke_family_in now (rt_family r) t2)
                    else (Inr outcome, t)))"

definition revoke_family_of :: "int \<Rightarrow> 'id \<Rightarrow> 'id rt_table \<Rightarrow> 'id rt_table" where
  "revoke_family_of now jti t =
    (case List.find (\<lambda>r. rt_jti r = jti) t of None \<Rightarrow> t | Some r \<Rightarrow> revoke_family_in now (rt_family r) t)"

definition prune_expired :: "int \<Rightarrow> 'id rt_table \<Rightarrow> 'id rt_table" where
  "prune_expired now t = filter (\<lambda>r. \<not> rt_expires r < now - ONE_DAY) t"

section \<open>Histories\<close>

datatype 'id rt_op =
  SignIn 'id 'id 'id int
| Refresh 'id 'id 'id "'id option" int "'id successor"
| SignOut 'id
| Prune

definition rt_step :: "int \<Rightarrow> 'id rt_op \<Rightarrow> 'id rt_table \<Rightarrow> (db_error + rotation) option \<times> 'id rt_table" where
  "rt_step now opn t =
    (case opn of
       SignIn jti family user expires \<Rightarrow>
         (None, case record_new jti family user expires t of Inl _ \<Rightarrow> t | Inr t' \<Rightarrow> t')
     | Refresh new_family jti user family old_expires nxt \<Rightarrow>
         (let (r, t') = rotate_token now new_family jti user family old_expires nxt t in (Some r, t'))
     | SignOut jti \<Rightarrow> (None, revoke_family_of now jti t)
     | Prune \<Rightarrow> (None, prune_expired now t))"

fun rt_run :: "(int \<times> 'id rt_op) list \<Rightarrow> 'id rt_table \<Rightarrow> 'id rt_table" where
  "rt_run [] t = t"
| "rt_run ((now, opn) # ops) t = rt_run ops (snd (rt_step now opn t))"

definition jtis_distinct :: "'id rt_table \<Rightarrow> bool" where
  "jtis_distinct t \<longleftrightarrow> distinct (map rt_jti t)"

section \<open>Token ids stay unique\<close>

lemma insert_row_Inr: "insert_row r t = Inr t' \<longleftrightarrow> t' = r # t \<and> rt_jti r \<notin> rt_jti ` set t"
  by (auto simp: insert_row_def)

lemma map_jti [simp]:
  "map rt_jti (snd (consume now jti user t)) = map rt_jti t"
  "map rt_jti (revoke_family_in now family t) = map rt_jti t"
  by (simp_all add: consume_def revoke_family_in_def)

lemma adopt_cases:
  obtains "adopt now nf jti user ex t = (None, t)" "jti \<in> rt_jti ` set t"
  | "adopt now nf jti user ex t = (Some nf, (fresh_row jti nf user ex)\<lparr>rt_consumed := Some now\<rparr> # t)" "jti \<notin> rt_jti ` set t"
  by (cases "jti \<in> rt_jti ` set t") (auto simp: adopt_def insert_row_def fresh_row_def)

text \<open>The ways a rotation can go, each with the table it leaves.\<close>

lemma rotate_cases:
  obtains (rotated) fam t2 where "rotate_token now nf jti user family ex nxt t = (Inr Rotated, fresh_row (su_jti nxt) fam user (su_expires nxt) # t2)"
      "su_jti nxt \<notin> rt_jti ` set t2" "t2 = snd (consume now jti user t)" "fst (consume now jti user t) = Some fam"
  | (adopted) t2 where "rotate_token now nf jti user family ex nxt t = (Inr Rotated, fresh_row (su_jti nxt) nf user (su_expires nxt) # t2)"
      "su_jti nxt \<notin> rt_jti ` set t2" "t2 = (fresh_row jti nf user ex)\<lparr>rt_consumed := Some now\<rparr> # snd (consume now jti user t)"
      "fst (consume now jti user t) = None" "jti \<notin> rt_jti ` set t"
  | (kept) r where "rotate_token now nf jti user family ex nxt t = (r, t)" "r \<noteq> Inr Rotated" "r \<noteq> Inr Reused"
  | (reused) q where "rotate_token now nf jti user family ex nxt t = (Inr Reused, revoke_family_in now (rt_family q) (snd (consume now jti user t)))"
      "q \<in> set (snd (consume now jti user t))" "rt_jti q = jti" "fst (consume now jti user t) = None"
proof -
  obtain c1 t1 where c: "consume now jti user t = (c1, t1)" by (cases "consume now jti user t") auto
  have jt: "rt_jti ` set t1 = rt_jti ` set t"
    using arg_cong [OF map_jti(1) [of now jti user t], of set] c by simp
  show thesis
  proof (cases c1)
    case (Some fam)
    show thesis
    proof (cases "su_jti nxt \<in> rt_jti ` set t1")
      case True
      with c Some have "rotate_token now nf jti user family ex nxt t = (Inl UniqueViolation, t)"
        by (simp add: rotate_token_def insert_row_def fresh_row_def)
      then show thesis by (rule kept) simp_all
    next
      case False
      with c Some have "rotate_token now nf jti user family ex nxt t = (Inr Rotated, fresh_row (su_jti nxt) fam user (su_expires nxt) # t1)"
        by (simp add: rotate_token_def insert_row_def fresh_row_def)
      then show thesis by (rule rotated) (use c Some False in simp_all)
    qed
  next
    case None
    show thesis
    proof (cases "family = None \<and> jti \<notin> rt_jti ` set t")
      case True
      then have "adopt now nf jti user ex t1 = (Some nf, (fresh_row jti nf user ex)\<lparr>rt_consumed := Some now\<rparr> # t1)"
        using jt by (cases rule: adopt_cases [of now nf jti user ex t1]) auto
      note a = this
      let ?t2 = "(fresh_row jti nf user ex)\<lparr>rt_consumed := Some now\<rparr> # t1"
      show thesis
      proof (cases "su_jti nxt \<in> rt_jti ` set ?t2")
        case dup: True
        with c None True a have "rotate_token now nf jti user family ex nxt t = (Inl UniqueViolation, t)"
          by (simp add: rotate_token_def insert_row_def fresh_row_def)
        then show thesis by (rule kept) simp_all
      next
        case False
        with c None True a have "rotate_token now nf jti user family ex nxt t = (Inr Rotated, fresh_row (su_jti nxt) nf user (su_expires nxt) # ?t2)"
          by (simp add: rotate_token_def insert_row_def fresh_row_def)
        then show thesis by (rule adopted) (use c None True False in simp_all)
      qed
    next
      case False
      then have "(if family = None then adopt now nf jti user ex t1 else (None, t1)) = (None, t1)"
        using jt by (cases rule: adopt_cases [of now nf jti user ex t1]) auto
      note none = this
      show thesis
      proof (cases "List.find (\<lambda>r. rt_jti r = jti \<and> rt_user r = user) t1")
        case absent: None
        with c None none have "rotate_token now nf jti user family ex nxt t = (Inr Unknown, t)" by (simp add: rotate_token_def)
        then show thesis by (rule kept) simp_all
      next
        case (Some q)
        let ?o = "classify (map_option (\<lambda>c. now - c) (rt_consumed q)) (rt_revoked q \<noteq> None)"
        from Some have q: "q \<in> set t1" "rt_jti q = jti" by (auto simp: find_Some_iff)
        have ne: "?o \<noteq> Rotated" by (simp add: classify_def split: option.split)
        from c None none Some have "rotate_token now nf jti user family ex nxt t =
            (if ?o = Reused then (Inr Reused, revoke_family_in now (rt_family q) t1) else (Inr ?o, t))"
          by (simp add: rotate_token_def Let_def)
        then show thesis using kept [of "Inr ?o"] reused [of q] q c None ne by (cases "?o = Reused") simp_all
      qed
    qed
  qed
qed

lemma consume_rows:
  "set (snd (consume now jti user t)) = (\<lambda>r. if consumable now jti user r then r\<lparr>rt_consumed := Some now\<rparr> else r) ` set t"
  by (simp add: consume_def)

lemma revoke_rows:
  "set (revoke_family_in now family t) =
    (\<lambda>r. if rt_family r = family \<and> rt_revoked r = None then r\<lparr>rt_revoked := Some now\<rparr> else r) ` set t"
  by (simp add: revoke_family_in_def)

lemma consume_Some:
  "fst (consume now jti user t) = Some fam \<Longrightarrow> \<exists>r \<in> set t. consumable now jti user r \<and> rt_family r = fam"
  by (auto simp: consume_def find_Some_iff)

lemma jti_image:
  "rt_jti ` set (snd (consume now jti user t)) = rt_jti ` set t" "rt_jti ` set (revoke_family_in now f t) = rt_jti ` set t"
  by (metis map_jti(1) set_map) (metis map_jti(2) set_map)

text \<open>Every operation keeps the ids unique, and keeps a row that is not past its expiry by a day, up to its two marks.\<close>

lemma rotate_distinct:
  assumes "jtis_distinct t" "rotate_token now nf jti user family ex nxt t = (r, t')"
  shows "jtis_distinct t'"
proof -
  have c: "distinct (map rt_jti (snd (consume now jti user t)))" using assms(1) by (simp add: jtis_distinct_def)
  show ?thesis
  proof (cases rule: rotate_cases [of now nf jti user family ex nxt t])
    case (rotated fam t2)
    with assms(2) c jti_image(1) [of now jti user t] show ?thesis by (auto simp: jtis_distinct_def fresh_row_def)
  next
    case (adopted t2)
    with assms(2) c jti_image(1) [of now jti user t] show ?thesis by (auto simp: jtis_distinct_def fresh_row_def)
  next
    case (kept r)
    with assms show ?thesis by simp
  next
    case (reused q)
    with assms(2) c show ?thesis by (auto simp: jtis_distinct_def)
  qed
qed

lemma rt_step_distinct:
  assumes "jtis_distinct t"
  shows "jtis_distinct (snd (rt_step now opn t))"
proof (cases opn)
  case (Refresh nf jti user family ex nxt)
  then show ?thesis
    using rotate_distinct [OF assms] by (cases "rotate_token now nf jti user family ex nxt t") (simp add: rt_step_def)
next
  case (SignOut jti)
  with assms show ?thesis by (simp add: rt_step_def revoke_family_of_def jtis_distinct_def split: option.split)
qed (use assms in \<open>auto simp: rt_step_def record_new_def insert_row_def fresh_row_def prune_expired_def jtis_distinct_def
       distinct_map_filter\<close>)

definition follows :: "'id rt_row \<Rightarrow> 'id rt_row \<Rightarrow> bool" where
  "follows r r' \<longleftrightarrow> rt_jti r' = rt_jti r \<and> rt_family r' = rt_family r \<and> rt_user r' = rt_user r \<and> rt_expires r' = rt_expires r
     \<and> (rt_consumed r \<noteq> None \<longrightarrow> rt_consumed r' \<noteq> None) \<and> (rt_revoked r \<noteq> None \<longrightarrow> rt_revoked r' \<noteq> None)"

lemma follows_refl [simp]: "follows r r"
  by (simp add: follows_def)

lemma follows_trans: "follows r r' \<Longrightarrow> follows r' r'' \<Longrightarrow> follows r r''"
  by (simp add: follows_def)

lemma consume_follows: "r \<in> set t \<Longrightarrow> \<exists>r' \<in> set (snd (consume now jti user t)). follows r r'"
  unfolding consume_rows
  by (rule bexI [of _ "if consumable now jti user r then r\<lparr>rt_consumed := Some now\<rparr> else r"]) (auto simp: follows_def)

lemma revoke_follows: "r \<in> set t \<Longrightarrow> \<exists>r' \<in> set (revoke_family_in now f t). follows r r'"
  unfolding revoke_rows
  by (rule bexI [of _ "if rt_family r = f \<and> rt_revoked r = None then r\<lparr>rt_revoked := Some now\<rparr> else r"]) (auto simp: follows_def)

lemma rotate_follows:
  assumes "rotate_token now nf jti user family ex nxt t = (res, t')" "r \<in> set t"
  shows "\<exists>r' \<in> set t'. follows r r'"
proof -
  obtain r1 where r1: "r1 \<in> set (snd (consume now jti user t))" "follows r r1" using consume_follows [OF assms(2)] by blast
  show ?thesis
  proof (cases rule: rotate_cases [of now nf jti user family ex nxt t])
    case (reused q)
    then show ?thesis using assms(1) r1 revoke_follows [OF r1(1), of now "rt_family q"] follows_trans by (metis prod.inject)
  next
    case (kept res')
    with assms show ?thesis by (intro bexI [of _ r]) simp_all
  qed (use assms(1) r1 in auto)
qed

lemma rt_step_follows:
  assumes "r \<in> set t" "now < rt_expires r + ONE_DAY"
  shows "\<exists>r' \<in> set (snd (rt_step now opn t)). follows r r'"
proof (cases opn)
  case (Refresh nf jti user family ex nxt)
  then show ?thesis
    using rotate_follows [OF _ assms(1), of now nf jti user family ex nxt]
    by (cases "rotate_token now nf jti user family ex nxt t") (simp add: rt_step_def)
next
  case (SignOut jti)
  then show ?thesis
    using assms(1) revoke_follows [OF assms(1)] follows_refl [of r]
    by (auto simp: rt_step_def revoke_family_of_def intro: bexI [of _ r] split: option.split)
next
  case Prune
  with assms have "r \<in> set (snd (rt_step now opn t))" by (simp add: rt_step_def prune_expired_def)
  then show ?thesis by (rule bexI [rotated]) simp
next
  case (SignIn jti family user expires)
  with assms(1) have "r \<in> set (snd (rt_step now opn t))" by (simp add: rt_step_def record_new_def insert_row_def)
  then show ?thesis by (rule bexI [rotated]) simp
qed

section \<open>A token is spent once\<close>

definition spent :: "'id \<Rightarrow> int \<Rightarrow> 'id rt_table \<Rightarrow> bool" where
  "spent jti ex t \<longleftrightarrow> jtis_distinct t \<and> (\<exists>r \<in> set t. rt_jti r = jti \<and> rt_consumed r \<noteq> None \<and> rt_expires r = ex)"

lemma unique_row: "jtis_distinct t \<Longrightarrow> r \<in> set t \<Longrightarrow> q \<in> set t \<Longrightarrow> rt_jti r = rt_jti q \<Longrightarrow> r = q"
  by (simp add: jtis_distinct_def distinct_map inj_on_def)

lemma rt_step_spent: "spent jti ex t \<Longrightarrow> now < ex \<Longrightarrow> spent jti ex (snd (rt_step now opn t))"
proof -
  assume s: "spent jti ex t" and "now < ex"
  then obtain r where r: "r \<in> set t" "rt_jti r = jti" "rt_consumed r \<noteq> None" "rt_expires r = ex"
    by (auto simp: spent_def)
  with \<open>now < ex\<close> have "now < rt_expires r + ONE_DAY" by (simp add: ONE_DAY_def)
  from rt_step_follows [OF r(1) this] obtain r' where "r' \<in> set (snd (rt_step now opn t))" "follows r r'" by blast
  with r s show ?thesis by (auto simp: spent_def follows_def rt_step_distinct)
qed

lemma rt_run_spent: "spent jti ex t \<Longrightarrow> list_all (\<lambda>p. fst p < ex) ops \<Longrightarrow> spent jti ex (rt_run ops t)"
  by (induction ops t rule: rt_run.induct) (simp_all add: rt_step_spent)

lemma rotated_spends:
  assumes "jtis_distinct t" "rotate_token now nf jti user family ex nxt t = (Inr Rotated, t')"
    and "\<forall>r \<in> set t. rt_jti r = jti \<longrightarrow> rt_expires r = ex"
  shows "spent jti ex t'"
proof -
  have "\<exists>r \<in> set t'. rt_jti r = jti \<and> rt_consumed r \<noteq> None \<and> rt_expires r = ex"
  proof (cases rule: rotate_cases [of now nf jti user family ex nxt t])
    case (rotated fam t2)
    from consume_Some [OF rotated(4)] obtain r where r: "r \<in> set t" "consumable now jti user r" by blast
    then have "r\<lparr>rt_consumed := Some now\<rparr> \<in> set t2" unfolding rotated(3) consume_rows by force
    moreover have "rt_jti r = jti" "rt_expires r = ex" using r assms(3) by (auto simp: consumable_def)
    ultimately show ?thesis using rotated(1) assms(2) by (intro bexI [of _ "r\<lparr>rt_consumed := Some now\<rparr>"]) auto
  next
    case (adopted t2)
    with assms(2) show ?thesis by (intro bexI [of _ "(fresh_row jti nf user ex)\<lparr>rt_consumed := Some now\<rparr>"]) (auto simp: fresh_row_def)
  qed (use assms(2) in auto)
  with rotate_distinct [OF assms(1,2)] show ?thesis by (simp add: spent_def)
qed

lemma spent_not_rotated:
  assumes "spent jti ex t"
  shows "fst (rotate_token now nf jti user family ex' nxt t) \<noteq> Inr Rotated"
proof (cases rule: rotate_cases [of now nf jti user family ex' nxt t])
  case (rotated fam t2)
  from consume_Some [OF rotated(4)] obtain r where "r \<in> set t" "consumable now jti user r" by blast
  moreover obtain q where "q \<in> set t" "rt_jti q = jti" "rt_consumed q \<noteq> None" "jtis_distinct t"
    using assms by (auto simp: spent_def)
  ultimately have "r = q" "rt_consumed r = None" by (auto simp: consumable_def intro: unique_row)
  with \<open>rt_consumed q \<noteq> None\<close> show ?thesis by simp
next
  case (adopted t2)
  with assms show ?thesis by (auto simp: spent_def)
qed simp_all

section \<open>A reused token ends its family\<close>

definition family_dead :: "'id \<Rightarrow> 'id rt_table \<Rightarrow> bool" where
  "family_dead f t \<longleftrightarrow> jtis_distinct t \<and> (\<forall>r \<in> set t. rt_family r = f \<longrightarrow> rt_revoked r \<noteq> None)"

definition other_family :: "'id \<Rightarrow> 'id rt_op \<Rightarrow> bool" where
  "other_family f opn = (case opn of SignIn _ family _ _ \<Rightarrow> family \<noteq> f | Refresh nf _ _ _ _ _ \<Rightarrow> nf \<noteq> f | _ \<Rightarrow> True)"

lemma consume_dead: "\<forall>r \<in> set t. rt_family r = f \<longrightarrow> rt_revoked r \<noteq> None \<Longrightarrow>
    \<forall>r \<in> set (snd (consume now jti user t)). rt_family r = f \<longrightarrow> rt_revoked r \<noteq> None"
  by (auto simp: consume_rows)

lemma revoke_dead: "\<forall>r \<in> set t. rt_family r = f \<longrightarrow> rt_revoked r \<noteq> None \<Longrightarrow>
    \<forall>r \<in> set (revoke_family_in now g t). rt_family r = f \<longrightarrow> rt_revoked r \<noteq> None"
  by (auto simp: revoke_rows)

lemma rotate_dead:
  assumes "family_dead f t" "nf \<noteq> f" "rotate_token now nf jti user family ex nxt t = (res, t')"
  shows "family_dead f t'"
proof -
  have c: "\<forall>r \<in> set (snd (consume now jti user t)). rt_family r = f \<longrightarrow> rt_revoked r \<noteq> None"
    by (rule consume_dead) (use assms(1) in \<open>simp add: family_dead_def\<close>)
  have "\<forall>r \<in> set t'. rt_family r = f \<longrightarrow> rt_revoked r \<noteq> None"
  proof (cases rule: rotate_cases [of now nf jti user family ex nxt t])
    case (rotated fam t2)
    from consume_Some [OF rotated(4)] obtain r where "r \<in> set t" "consumable now jti user r" "rt_family r = fam" by blast
    with assms(1) have "fam \<noteq> f" by (auto simp: family_dead_def consumable_def)
    with rotated assms(3) c show ?thesis by (auto simp: fresh_row_def)
  next
    case (adopted t2)
    with assms(2,3) c show ?thesis by (auto simp: fresh_row_def)
  next
    case (kept r)
    with assms(1,3) show ?thesis by (simp add: family_dead_def)
  next
    case (reused q)
    with assms(3) revoke_dead [OF c] show ?thesis by auto
  qed
  with rotate_distinct [OF _ assms(3)] assms(1) show ?thesis by (simp add: family_dead_def)
qed

lemma rt_step_dead:
  assumes "family_dead f t" "other_family f opn"
  shows "family_dead f (snd (rt_step now opn t))"
proof (cases opn)
  case (Refresh nf jti user family ex nxt)
  then show ?thesis
    using rotate_dead [OF assms(1)] assms(2)
    by (cases "rotate_token now nf jti user family ex nxt t") (auto simp: rt_step_def other_family_def)
next
  case (SignOut jti)
  then show ?thesis
    using assms(1) rt_step_distinct [of t now opn] revoke_dead [of t f]
    by (auto simp: family_dead_def rt_step_def revoke_family_of_def split: option.splits)
qed (use assms rt_step_distinct [of t now opn] in
    \<open>auto simp: family_dead_def rt_step_def record_new_def insert_row_def fresh_row_def prune_expired_def other_family_def
       split: if_splits\<close>)

lemma rt_run_dead: "family_dead f t \<Longrightarrow> list_all (\<lambda>p. other_family f (snd p)) ops \<Longrightarrow> family_dead f (rt_run ops t)"
  by (induction ops t rule: rt_run.induct) (simp_all add: rt_step_dead)

lemma reused_kills:
  assumes "jtis_distinct t" "r \<in> set t" "rt_jti r = jti" "rotate_token now nf jti user family ex nxt t = (Inr Reused, t')"
  shows "family_dead (rt_family r) t'"
proof (cases rule: rotate_cases [of now nf jti user family ex nxt t])
  case (reused q)
  obtain r1 where r1: "r1 \<in> set (snd (consume now jti user t))" "follows r r1" using consume_follows [OF assms(2)] by blast
  have "jtis_distinct (snd (consume now jti user t))" using assms(1) by (simp add: jtis_distinct_def)
  from unique_row [OF this r1(1) reused(2)] r1(2) reused(3) assms(3) have "rt_family q = rt_family r"
    by (auto simp: follows_def)
  with reused(1) assms(4) have "t' = revoke_family_in now (rt_family r) (snd (consume now jti user t))" by simp
  then show ?thesis
    using rotate_distinct [OF assms(1,4)] by (auto simp: family_dead_def revoke_rows)
qed (use assms(4) in auto)

section \<open>Properties\<close>

text \<open>C16: a refresh token is good for one rotation. After it rotated once, no later presentation before its expiry
  rotates again, whatever sign-ins, refreshes, sign-outs and prunings other clients make in between, and whether or
  not the token names its family.\<close>

theorem refresh_single_use:
  assumes "jtis_distinct t" "\<forall>r \<in> set t. rt_jti r = jti \<longrightarrow> rt_expires r = ex"
    and "rotate_token now nf jti user family ex nxt t = (Inr Rotated, t')"
    and "list_all (\<lambda>p. fst p < ex) ops"
  shows "fst (rotate_token now2 nf2 jti user2 family2 ex2 nxt2 (rt_run ops t')) \<noteq> Inr Rotated"
  by (rule spent_not_rotated [OF rt_run_spent [OF rotated_spends [OF assms(1,3,2)] assms(4)]])

definition sample_table :: "nat rt_table" where
  "sample_table = [fresh_row 1 10 7 1000]"

lemma sample_rotation:
  "rotate_token 100 99 1 7 (Some 10) 1000 \<lparr>su_jti = 2, su_expires = 2000\<rparr> sample_table =
    (Inr Rotated, [fresh_row 2 10 7 2000, (fresh_row 1 10 7 1000)\<lparr>rt_consumed := Some 100\<rparr>])"
  by (simp add: rotate_token_def consume_def consumable_def insert_row_def sample_table_def fresh_row_def)

theorem refresh_single_use_witness:
  "fst (rotate_token 300 (98 :: nat) 1 7 (Some 10) 1000 \<lparr>su_jti = 4, su_expires = 2000\<rparr>
     (rt_run [(150, Refresh 97 2 7 (Some 10) 2000 \<lparr>su_jti = 3, su_expires = 3000\<rparr>), (200, Prune)]
       [fresh_row 2 10 7 2000, (fresh_row 1 10 7 1000)\<lparr>rt_consumed := Some 100\<rparr>])) \<noteq> Inr Rotated"
  by (rule refresh_single_use [OF _ _ sample_rotation])
    (simp_all add: jtis_distinct_def sample_table_def fresh_row_def)

text \<open>Reuse of a spent token ends its family: once a rotation answers \<open>Reused\<close>, no token of that family is
  rotated again, whatever happens in between, as long as new families get new ids.\<close>

lemma refresh_reuse_revokes_family:
  assumes "jtis_distinct t" "r \<in> set t" "rt_jti r = jti"
    and "rotate_token now nf jti user family ex nxt t = (Inr Reused, t')"
    and "list_all (\<lambda>p. other_family (rt_family r) (snd p)) ops"
    and "q \<in> set (rt_run ops t')" "rt_family q = rt_family r"
  shows "fst (rotate_token now2 nf2 (rt_jti q) user2 family2 ex2 nxt2 (rt_run ops t')) \<noteq> Inr Rotated"
proof -
  let ?t = "rt_run ops t'"
  have dead: "family_dead (rt_family r) ?t" by (rule rt_run_dead [OF reused_kills [OF assms(1-4)] assms(5)])
  show ?thesis
  proof (cases rule: rotate_cases [of now2 nf2 "rt_jti q" user2 family2 ex2 nxt2 ?t])
    case (rotated fam t2)
    from consume_Some [OF rotated(4)] obtain p where p: "p \<in> set ?t" "consumable now2 (rt_jti q) user2 p" by blast
    then have "p = q" using dead assms(6) by (auto simp: family_dead_def consumable_def intro: unique_row)
    with p dead assms(6,7) show ?thesis by (auto simp: family_dead_def consumable_def)
  next
    case (adopted t2)
    with assms(6) show ?thesis by auto
  qed simp_all
qed

lemma sample_reuse:
  "rotate_token (CONCURRENT_GRACE + 200) (96 :: nat) 1 7 (Some 10) 1000 \<lparr>su_jti = 5, su_expires = 2000\<rparr>
     [fresh_row 2 10 7 2000, (fresh_row 1 10 7 1000)\<lparr>rt_consumed := Some 100\<rparr>] =
   (Inr Reused, [(fresh_row 2 10 7 2000)\<lparr>rt_revoked := Some (CONCURRENT_GRACE + 200)\<rparr>,
      (fresh_row 1 10 7 1000)\<lparr>rt_consumed := Some 100, rt_revoked := Some (CONCURRENT_GRACE + 200)\<rparr>])"
  by (simp add: rotate_token_def consume_def consumable_def fresh_row_def classify_def revoke_family_in_def)

end
