(* ===== verification/Tunnel_Tickets.thy ===== *)
theory Tunnel_Tickets
  imports Hash_Map
begin

text \<open>
  One-time tunnel tickets, \<open>backend/src/services/tunnel_tickets.rs\<close>. Ids of users, connections and profiles are a
  type parameter, the ticket id is the text of a UUID drawn by the caller, instants are nanoseconds. The zeroing
  of a dropped ticket's credentials has no observable counterpart.
\<close>

definition TICKET_TTL_SECS :: nat where [bound_simps]: "TICKET_TTL_SECS = 30"

record 'id tunnel_ticket =
  tk_user_id :: 'id
  tk_connection_id :: 'id
  tk_username :: "str option"
  tk_password :: "str option"
  tk_domain :: "str option"
  tk_credential_profile_id :: "'id option"
  tk_width :: u32
  tk_height :: u32
  tk_dpi :: u32
  tk_ignore_cert :: bool
  tk_webp :: "bool option"
  tk_h264 :: "bool option"
  tk_created_at :: nat

type_synonym 'id tickets = "(str, 'id tunnel_ticket) hmap"

definition elapsed_secs :: "nat \<Rightarrow> nat \<Rightarrow> nat" where
  "elapsed_secs now since = (now - since) div 10 ^ 9"

definition ticket_create :: "nat \<Rightarrow> str \<Rightarrow> 'id tunnel_ticket \<Rightarrow> 'id tickets \<Rightarrow> str \<times> 'id tickets" where
  "ticket_create now uuid ticket m =
    (uuid, hm_insert uuid ticket (hm_retain (\<lambda>_ t. elapsed_secs now (tk_created_at t) < TICKET_TTL_SECS * 2) m))"

definition ticket_consume :: "nat \<Rightarrow> str \<Rightarrow> 'id tickets \<Rightarrow> 'id tunnel_ticket option \<times> 'id tickets" where
  "ticket_consume now ident m =
    (case hm_get ident m of
       None \<Rightarrow> (None, m)
     | Some ticket \<Rightarrow>
         (if elapsed_secs now (tk_created_at ticket) > TICKET_TTL_SECS then None else Some ticket, hm_remove ident m))"

section \<open>Histories\<close>

datatype 'id ticket_op = Create nat str "'id tunnel_ticket" | Consume nat str

fun ticket_step :: "'id ticket_op \<Rightarrow> 'id tickets \<Rightarrow> 'id tunnel_ticket option \<times> 'id tickets" where
  "ticket_step (Create now uuid t) m = (None, snd (ticket_create now uuid t m))"
| "ticket_step (Consume now ident) m = ticket_consume now ident m"

fun ticket_run :: "'id ticket_op list \<Rightarrow> 'id tickets \<Rightarrow> 'id tickets" where
  "ticket_run [] m = m"
| "ticket_run (opn # ops) m = ticket_run ops (snd (ticket_step opn m))"

text \<open>An operation that neither spends the ticket nor reuses its id, at a time before the purge of the ticket.\<close>

definition leaves_alone :: "str \<Rightarrow> 'id tunnel_ticket \<Rightarrow> 'id ticket_op \<Rightarrow> bool" where
  "leaves_alone ident t opn =
    (case opn of
       Create now uuid _ \<Rightarrow> uuid \<noteq> ident \<and> elapsed_secs now (tk_created_at t) < 2 * TICKET_TTL_SECS
     | Consume _ i \<Rightarrow> i \<noteq> ident)"

definition not_created :: "str \<Rightarrow> 'id ticket_op \<Rightarrow> bool" where
  "not_created ident opn = (case opn of Create _ uuid _ \<Rightarrow> uuid \<noteq> ident | Consume _ _ \<Rightarrow> True)"

lemma ticket_step_wf: "hm_wf m \<Longrightarrow> hm_wf (snd (ticket_step opn m))"
  by (cases opn) (auto simp: ticket_create_def ticket_consume_def split: option.split)

lemma ticket_step_keeps:
  "hm_wf m \<Longrightarrow> hm_get ident m = Some t \<Longrightarrow> leaves_alone ident t opn \<Longrightarrow> hm_get ident (snd (ticket_step opn m)) = Some t"
  by (cases opn) (auto simp: ticket_create_def ticket_consume_def leaves_alone_def hm_get_retain split: option.split)

lemma ticket_step_absent:
  "hm_wf m \<Longrightarrow> hm_get ident m = None \<Longrightarrow> not_created ident opn \<Longrightarrow> hm_get ident (snd (ticket_step opn m)) = None"
  by (cases opn) (auto simp: ticket_create_def ticket_consume_def not_created_def hm_get_retain split: option.split)

lemma ticket_run_keeps:
  "hm_wf m \<Longrightarrow> hm_get ident m = Some t \<Longrightarrow> list_all (leaves_alone ident t) ops \<Longrightarrow>
    hm_wf (ticket_run ops m) \<and> hm_get ident (ticket_run ops m) = Some t"
  by (induction ops arbitrary: m) (auto simp: ticket_step_wf ticket_step_keeps)

lemma ticket_run_absent:
  "hm_wf m \<Longrightarrow> hm_get ident m = None \<Longrightarrow> list_all (not_created ident) ops \<Longrightarrow> hm_get ident (ticket_run ops m) = None"
  by (induction ops arbitrary: m) (auto simp: ticket_step_wf ticket_step_absent)

section \<open>Properties\<close>

text \<open>A tunnel ticket opens one tunnel. Within its lifetime the first use returns exactly the ticket that was
  created, whatever other tickets are created and used meanwhile; every later use returns nothing; and a first use
  more than thirty whole seconds after its creation returns nothing either.\<close>

lemma ticket_single_use:
  assumes "hm_wf m" "list_all (leaves_alone uuid t) before" "list_all (not_created uuid) later"
  shows "let m1 = ticket_run before (snd (ticket_create now uuid t m));
             (first, m2) = ticket_consume now1 uuid m1;
             (second, m3) = ticket_consume now2 uuid (ticket_run later m2)
         in first = (if elapsed_secs now1 (tk_created_at t) \<le> TICKET_TTL_SECS then Some t else None) \<and> second = None"
proof -
  let ?m0 = "snd (ticket_create now uuid t m)"
  have "hm_wf ?m0" "hm_get uuid ?m0 = Some t" using assms(1) by (simp_all add: ticket_create_def)
  from ticket_run_keeps [OF this assms(2)] have m1: "hm_wf (ticket_run before ?m0)" "hm_get uuid (ticket_run before ?m0) = Some t"
    by simp_all
  have "hm_get uuid (ticket_run later (hm_remove uuid (ticket_run before ?m0))) = None"
    by (rule ticket_run_absent [OF _ _ assms(3)]) (use m1 in auto)
  with m1 show ?thesis by (simp add: ticket_consume_def Let_def not_less)
qed

definition sample_ticket :: "nat tunnel_ticket" where
  "sample_ticket = \<lparr>tk_user_id = 1, tk_connection_id = 2, tk_username = Some ''u'', tk_password = Some ''p'', tk_domain = None,
     tk_credential_profile_id = None, tk_width = 800, tk_height = 600, tk_dpi = 96, tk_ignore_cert = False, tk_webp = None,
     tk_h264 = None, tk_created_at = 0\<rparr>"

end
