(* ===== verification/Idempotency.thy ===== *)
theory Idempotency
  imports App_Error
begin

text \<open>
  Idempotency keys, \<open>backend/src/services/idempotency.rs\<close>. The table's primary key is the key text alone
  (\<open>backend/migrations/053_idempotency_keys.sql\<close>), which the insert's conflict clause refers to. Users and
  response bodies are type parameters, times are seconds of the database clock.
\<close>

definition IDEMPOTENCY_TTL_HOURS :: int where [bound_simps]: "IDEMPOTENCY_TTL_HOURS = 24"
definition MAX_KEY_LEN :: nat where [bound_simps]: "MAX_KEY_LEN = 200"

record ('u, 'b) idem_row =
  id_key :: str
  id_user :: 'u
  id_route :: str
  id_status :: i32
  id_body :: 'b
  id_expires :: int

definition extract_key :: "'h header_ops \<Rightarrow> 'h \<Rightarrow> ('db, 'net) app_error + str option" where
  "extract_key H headers =
    (case hd_get H ''idempotency-key'' headers of
       None \<Rightarrow> Inr None
     | Some v \<Rightarrow>
         if \<not> hv_to_str H v then Inl (Validation ''Idempotency-Key must be ASCII'')
         else
           let s = trim v in
           if s = [] then Inr None
           else if length s > MAX_KEY_LEN
           then Inl (Validation (''Idempotency-Key exceeds '' @ show_nat MAX_KEY_LEN @ '' bytes''))
           else Inr (Some s))"

definition idem_lookup :: "int \<Rightarrow> 'u \<Rightarrow> str \<Rightarrow> str \<Rightarrow> ('u, 'b) idem_row list \<Rightarrow> (i32 \<times> 'b) option" where
  "idem_lookup now user route key t =
    map_option (\<lambda>r. (id_status r, id_body r))
      (List.find (\<lambda>r. id_key r = key \<and> id_user r = user \<and> id_route r = route \<and> id_expires r > now) t)"

definition idem_store :: "int \<Rightarrow> 'u \<Rightarrow> str \<Rightarrow> str \<Rightarrow> i32 \<Rightarrow> 'b \<Rightarrow> ('u, 'b) idem_row list \<Rightarrow> ('u, 'b) idem_row list" where
  "idem_store now user route key status body t =
    (if key \<in> set (map id_key t) then t
     else \<lparr>id_key = key, id_user = user, id_route = route, id_status = status, id_body = body,
           id_expires = now + IDEMPOTENCY_TTL_HOURS * 3600\<rparr> # t)"

text \<open>
  How the handlers of \<open>backend/src/routes/user.rs\<close> use the two: the cached answer when there is one, otherwise the
  outcome of the handler, which is cached when it is a success. The first component says whether the handler ran.
\<close>

definition idem_request ::
    "int \<Rightarrow> 'u \<Rightarrow> str \<Rightarrow> str option \<Rightarrow> 'e + i32 \<times> 'b \<Rightarrow> ('u, 'b) idem_row list
      \<Rightarrow> bool \<times> ('e + i32 \<times> 'b) \<times> ('u, 'b) idem_row list" where
  "idem_request now user route key outcome t =
    (case Option.bind key (\<lambda>k. idem_lookup now user route k t) of
       Some cached \<Rightarrow> (False, Inr cached, t)
     | None \<Rightarrow>
         (True, outcome,
          case (key, outcome) of
            (Some k, Inr (st, body)) \<Rightarrow> idem_store now user route k st body t
          | _ \<Rightarrow> t))"

lemma find_keyed: "key \<notin> set (map id_key t) \<Longrightarrow> List.find (\<lambda>r. id_key r = key \<and> P r) t = None"
  by (auto simp: find_None_iff)

text \<open>
  For a key no other row has, a retry within a day answers from the cache and does not run the handler; the answer
  is the first one.
\<close>

lemma idem_retry:
  assumes "key \<notin> set (map id_key t)" "now' < now + IDEMPOTENCY_TTL_HOURS * 3600"
  shows "idem_request now' user route (Some key) outcome'
      (snd (snd (idem_request now user route (Some key) (Inr answer) t)))
    = (False, Inr answer, snd (snd (idem_request now user route (Some key) (Inr answer) t)))"
  using assms find_keyed [OF assms(1)]
  by (cases answer) (simp add: idem_request_def idem_lookup_def idem_store_def)

section \<open>Properties\<close>

text \<open>The protection is per key, not per user and route as the documentation of the module says: while any row
  has the key, of another user, of another route or long expired, storing is a no-op, so a request that finds no
  cached answer of its own runs the handler again on every retry.\<close>

lemma idempotency_key_collides:
  assumes "key \<in> set (map id_key t)" "idem_lookup now user route key t = None"
  shows "idem_request now user route (Some key) outcome t = (True, outcome, t)"
  using assms by (auto simp: idem_request_def idem_store_def split: sum.split)

end
