(* ===== verification/Retry.thy ===== *)
theory Retry
  imports Rust_Text
begin

text \<open>
  Retries of outbound calls, \<open>backend/src/services/retry.rs\<close>. The operation is a function of the attempt number,
  the random scaling of a delay (a floating-point product) and Unicode lower-casing are arguments. The loop yields the result and the delays it slept.
\<close>

text \<open>\<open>base_ms.saturating_mul(2u64.pow(attempt - 2))\<close>; the power wraps around in release builds.\<close>

definition saturating_mul :: "u64 \<Rightarrow> u64 \<Rightarrow> u64" where
  "saturating_mul a b = (if unat a * unat b < 2 ^ 64 then a * b else - 1)"

definition backoff_exp :: "u64 \<Rightarrow> nat \<Rightarrow> u64" where
  "backoff_exp base_ms attempt = saturating_mul base_ms (2 ^ (attempt - 2))"

text \<open>\<open>retry_loop\<close> runs attempt number \<open>attempt\<close> with \<open>left\<close> more to go after it.\<close>

fun retry_loop ::
    "(nat \<Rightarrow> 'e + 'a) \<Rightarrow> ('e \<Rightarrow> bool) \<Rightarrow> (nat \<Rightarrow> u64 \<Rightarrow> u64) \<Rightarrow> u64 \<Rightarrow> nat \<Rightarrow> nat \<Rightarrow> ('e + 'a) \<times> nat \<times> u64 list" where
  "retry_loop call is_transient jitter base_ms attempt left =
    (let delay = (if attempt > 1 then [jitter attempt (backoff_exp base_ms attempt)] else []) in
     case call attempt of
       Inr value \<Rightarrow> (Inr value, attempt, delay)
     | Inl e \<Rightarrow>
         (if \<not> is_transient e then (Inl e, attempt, delay)
          else case left of
            0 \<Rightarrow> (Inl e, attempt, delay)
          | Suc left' \<Rightarrow>
              (let (r, n, ds) = retry_loop call is_transient jitter base_ms (attempt + 1) left'
               in (r, n, delay @ ds))))"

declare retry_loop.simps [simp del]

definition retry_transient_with_jitter ::
    "(nat \<Rightarrow> 'e + 'a) \<Rightarrow> ('e \<Rightarrow> bool) \<Rightarrow> (nat \<Rightarrow> u64 \<Rightarrow> u64) \<Rightarrow> u32 \<Rightarrow> u64 \<Rightarrow> ('e + 'a) \<times> nat \<times> u64 list" where
  "retry_transient_with_jitter call is_transient jitter max_attempts base_ms =
    retry_loop call is_transient jitter base_ms 1 (unat (max max_attempts 1) - 1)"

definition ldap_terminal :: "str list" where
  "ldap_terminal = [''rc=49'', ''invalidcredentials'', ''data 52e'', ''data 525'', ''data 530'', ''data 531'', ''data 532'',
     ''data 533'', ''data 52f'', ''data 701'', ''data 773'', ''data 775'', ''rc=50'', ''rc=32'', ''rc=34'', ''rc=53'']"

definition ldap_network :: "str list" where
  "ldap_network = [''timed out'', ''timeout'', ''connection reset'', ''connection refused'', ''connection closed'', ''broken pipe'',
     ''io error'', ''server not reachable'', ''network is unreachable'', ''temporary failure in name resolution'', ''no route to host'']"

definition is_ldap_transient :: "(str \<Rightarrow> str) \<Rightarrow> str \<Rightarrow> bool" where
  "is_ldap_transient lower err =
    (let msg = lower err in
     if list_ex (\<lambda>m. str_contains m msg) ldap_terminal then False
     else list_ex (\<lambda>m. str_contains m msg) ldap_network)"

text \<open>What the code reads of a reqwest error in an error chain; other causes are \<open>None\<close>.\<close>

record http_cause =
  hc_timeout :: bool
  hc_connect :: bool
  hc_request :: bool
  hc_status :: "nat option"

definition http_network :: "str list" where
  "http_network = [''timed out'', ''timeout'', ''connection reset'', ''connection refused'', ''connection closed'', ''broken pipe'',
     ''temporary failure in name resolution'', ''no route to host'']"

fun chain_verdict :: "http_cause option list \<Rightarrow> bool option" where
  "chain_verdict [] = None"
| "chain_verdict (None # cs) = chain_verdict cs"
| "chain_verdict (Some re # cs) =
    (if hc_timeout re \<or> hc_connect re \<or> hc_request re then Some True
     else case hc_status re of Some st \<Rightarrow> Some (500 \<le> st \<and> st < 600) | None \<Rightarrow> chain_verdict cs)"

definition is_http_transient :: "(str \<Rightarrow> str) \<Rightarrow> http_cause option list \<Rightarrow> str \<Rightarrow> bool" where
  "is_http_transient lower chain err =
    (case chain_verdict chain of
       Some v \<Rightarrow> v
     | None \<Rightarrow>
         let msg = lower err in
         if str_contains ''(5'' msg \<and> str_contains ''): '' msg then True
         else list_ex (\<lambda>m. str_contains m msg) http_network)"

section \<open>What the loop does\<close>

lemma retry_loop_outcome:
  "retry_loop call is_transient jitter base_ms attempt left = (r, n, ds) \<Longrightarrow>
    attempt \<le> n \<and> n \<le> attempt + left \<and> r = call n
  \<and> (\<forall>k. attempt \<le> k \<and> k < n \<longrightarrow> (\<exists>e. call k = Inl e \<and> is_transient e))
  \<and> (case r of Inr _ \<Rightarrow> True | Inl e \<Rightarrow> \<not> is_transient e \<or> n = attempt + left)"
proof (induction call is_transient jitter base_ms attempt left arbitrary: r n ds rule: retry_loop.induct)
  case (1 call is_transient jitter base_ms attempt left)
  show ?case
  proof (cases "call attempt")
    case (Inr v)
    with "1.prems" show ?thesis by (subst (asm) retry_loop.simps) (auto simp: Let_def split: sum.splits)
  next
    case (Inl e)
    show ?thesis
    proof (cases "is_transient e \<and> left \<noteq> 0")
      case False
      with Inl "1.prems" show ?thesis by (subst (asm) retry_loop.simps) (auto simp: Let_def split: nat.splits if_splits sum.splits)
    next
      case True
      then obtain l where l: "left = Suc l" by (cases left) auto
      obtain r' n' ds' where rec: "retry_loop call is_transient jitter base_ms (attempt + 1) l = (r', n', ds')"
        by (metis prod_cases3)
      with "1.prems" Inl True l have same: "r = r'" "n = n'" by (subst (asm) retry_loop.simps; auto simp: Let_def)+
      have "attempt + 1 \<le> n \<and> n \<le> attempt + 1 + l \<and> r = call n
        \<and> (\<forall>k. attempt + 1 \<le> k \<and> k < n \<longrightarrow> (\<exists>e. call k = Inl e \<and> is_transient e))
        \<and> (case r of Inr _ \<Rightarrow> True | Inl e \<Rightarrow> \<not> is_transient e \<or> n = attempt + 1 + l)"
        using "1.IH" [OF refl Inl _ l rec] True unfolding same by blast
      moreover have "\<exists>e. call k = Inl e \<and> is_transient e" if "attempt \<le> k" "k < n" for k
        using calculation Inl True that by (cases "k = attempt") auto
      ultimately show ?thesis using l by (auto split: sum.splits)
    qed
  qed
qed

lemma str_contains_self: "str_contains m (a @ m @ b)"
  by (auto simp: str_contains_def list_ex_iff starts_with_def intro!: bexI [of _ "length a"])

section \<open>Properties\<close>

text \<open>C36: the retry loop returns, after at most the allowed number of attempts, the result of its last attempt; every
  earlier attempt failed with a transient error, and a returned error is one that may not be retried or the one of
  the last allowed attempt.\<close>

theorem retry_bounded:
  "case retry_transient_with_jitter call is_transient jitter max_attempts base_ms of (r, n, ds) \<Rightarrow>
     1 \<le> n \<and> n \<le> unat (max max_attempts 1) \<and> r = call n
   \<and> (\<forall>k. 1 \<le> k \<and> k < n \<longrightarrow> (\<exists>e. call k = Inl e \<and> is_transient e))
   \<and> (case r of Inr _ \<Rightarrow> True | Inl e \<Rightarrow> \<not> is_transient e \<or> n = unat (max max_attempts 1))"
proof -
  obtain r n ds where run: "retry_loop call is_transient jitter base_ms 1 (unat (max max_attempts 1) - 1) = (r, n, ds)"
    by (metis prod_cases3)
  have "1 \<le> unat (max max_attempts 1)" by (simp add: max_def word_le_nat_alt)
  then have "1 + (unat (max max_attempts 1) - 1) = unat (max max_attempts 1)" by simp
  with retry_loop_outcome [OF run] show ?thesis
    unfolding retry_transient_with_jitter_def run by (auto split: sum.splits)
qed

theorem retry_bounded_witness:
  "(case retry_transient_with_jitter (\<lambda>k. if k < 3 then Inl ''timeout'' else Inr k) (is_ldap_transient (\<lambda>s. s)) (\<lambda>_ d. d) 5 100 of
     (r, n, ds) \<Rightarrow> 1 \<le> n \<and> n \<le> 5 \<and> r = (if n < 3 then Inl ''timeout'' else Inr n))"
  using retry_bounded [where call = "\<lambda>k. if k < 3 then Inl ''timeout'' else Inr k" and is_transient = "is_ldap_transient (\<lambda>s. s)"
      and jitter = "\<lambda>_ d. d" and max_attempts = 5 and base_ms = 100]
  by (simp add: split_def max_def word_le_nat_alt)

text \<open>A rejected directory login is not repeated: an error text with one of the terminal codes ends the loop at the
  attempt that produced it, even when the text also looks like a network problem, so retries cannot lock an account.\<close>

lemma ldap_rejection_not_retried:
  assumes "code \<in> set ldap_terminal" "call 1 = Inl err" "lower err = before @ code @ after"
  shows "fst (retry_transient_with_jitter call (is_ldap_transient lower) jitter max_attempts base_ms) = Inl err
    \<and> fst (snd (retry_transient_with_jitter call (is_ldap_transient lower) jitter max_attempts base_ms)) = 1"
proof -
  have "\<not> is_ldap_transient lower err"
    using assms(1) str_contains_self [of code before after]
    by (auto simp: is_ldap_transient_def assms(3) list_ex_iff Let_def)
  then show ?thesis
    unfolding retry_transient_with_jitter_def by (subst (1 2) retry_loop.simps) (simp add: assms(2) [unfolded One_nat_def])
qed

text \<open>
  The exponential delay doubles for 63 retries and is zero from then on: the power of two wraps around.
\<close>

lemma backoff_exp_wraps: "attempt \<ge> 66 \<Longrightarrow> backoff_exp base_ms attempt = 0"
proof -
  assume "attempt \<ge> 66"
  then have "attempt - 2 = 64 + (attempt - 66)" by simp
  then have "(2 :: u64) ^ (attempt - 2) = 2 ^ 64 * 2 ^ (attempt - 66)" by (simp only: power_add)
  moreover have "(2 :: u64) ^ 64 = 0" by simp
  ultimately have "(2 :: u64) ^ (attempt - 2) = 0" by (simp only: mult_zero_left)
  then show ?thesis unfolding backoff_exp_def saturating_mul_def by (simp only:) simp
qed

end
