(* ===== verification/Co_Pilot.thy ===== *)
theory Co_Pilot
  imports Hash_Map Rust_Std
begin

text \<open>
  The shared-session room, \<open>backend/src/services/co_pilot.rs\<close> (envelopes and their validation) and
  \<open>backend/src/services/co_pilot/room.rs\<close> (roster, names and the single input token). Text is a list of Unicode code
  points here, since the code walks characters; \<open>text_len\<close> is its length in UTF-8 bytes. Participant ids are a type
  parameter drawn by the caller, instants are nanoseconds, and the broadcast channel is not modelled.
\<close>

definition MAX_DISPLAY_NAME_LEN :: nat where [bound_simps]: "MAX_DISPLAY_NAME_LEN = 40"
definition MAX_CHAT_LEN :: nat where [bound_simps]: "MAX_CHAT_LEN = 500"
definition MAX_COLOR_LEN :: nat where [bound_simps]: "MAX_COLOR_LEN = 9"
definition MAX_SDP_LEN :: nat where [bound_simps]: "MAX_SDP_LEN = 8192"
definition MAX_ICE_CANDIDATE_LEN :: nat where [bound_simps]: "MAX_ICE_CANDIDATE_LEN = 1024"
definition MAX_REVOKE_REASON_LEN :: nat where [bound_simps]: "MAX_REVOKE_REASON_LEN = 120"
definition MAX_PARTICIPANTS :: nat where [bound_simps]: "MAX_PARTICIPANTS = 6"
definition INPUT_IDLE_GRANT_AFTER :: nat where [bound_simps]: "INPUT_IDLE_GRANT_AFTER = 2 * 10 ^ 9"

section \<open>Text\<close>

type_synonym utext = "nat list"

definition char_len :: "nat \<Rightarrow> nat" where
  "char_len c = (if c < 0x80 then 1 else if c < 0x800 then 2 else if c < 0x10000 then 3 else 4)"

definition text_len :: "utext \<Rightarrow> nat" where
  "text_len s = sum_list (map char_len s)"

definition char_whitespace :: "nat \<Rightarrow> bool" where
  "char_whitespace c \<longleftrightarrow> 9 \<le> c \<and> c \<le> 13 \<or> c = 32 \<or> c = 0x85 \<or> c = 0xA0 \<or> c = 0x1680 \<or> 0x2000 \<le> c \<and> c \<le> 0x200A
     \<or> c = 0x2028 \<or> c = 0x2029 \<or> c = 0x202F \<or> c = 0x205F \<or> c = 0x3000"

definition char_control :: "nat \<Rightarrow> bool" where
  "char_control c \<longleftrightarrow> c < 32 \<or> 127 \<le> c \<and> c < 160"

definition text_of :: "str \<Rightarrow> utext" where
  "text_of s = map of_char s"

section \<open>Envelopes\<close>

datatype copilot_error = FieldTooLong str nat | FieldEmpty str | FieldHasControlChars str

record 'id roster_entry =
  re_pid :: 'id
  re_display_name :: utext
  re_color :: utext
  re_has_input :: bool
  re_is_owner :: bool

datatype 'id copilot_msg =
  Hello utext bool "16 word"
| Welcome 'id bool bool u8
| Roster "'id roster_entry list"
| Cursor 'id i32 i32 u64
| Chat 'id utext u64
| InputClaim 'id
| InputRelease 'id
| InputGrant 'id 'id
| InputRevoke 'id utext
| AudioOffer 'id 'id utext
| AudioAnswer 'id 'id utext
| Ice 'id 'id utext
| Leave 'id
| SessionEnded utext

definition check_nonempty :: "str \<Rightarrow> utext \<Rightarrow> copilot_error + unit" where
  "check_nonempty field s = (if s = [] then Inl (FieldEmpty field) else Inr ())"

definition check_len :: "str \<Rightarrow> utext \<Rightarrow> nat \<Rightarrow> copilot_error + unit" where
  "check_len field s limit = (if text_len s > limit then Inl (FieldTooLong field limit) else Inr ())"

definition check_no_control :: "str \<Rightarrow> utext \<Rightarrow> copilot_error + unit" where
  "check_no_control field s = (if list_ex char_control s then Inl (FieldHasControlChars field) else Inr ())"

definition check_no_control_except_newline :: "str \<Rightarrow> utext \<Rightarrow> copilot_error + unit" where
  "check_no_control_except_newline field s =
    (if list_ex (\<lambda>c. char_control c \<and> c \<noteq> 10 \<and> c \<noteq> 13) s then Inl (FieldHasControlChars field) else Inr ())"

definition validate_entry :: "'id roster_entry \<Rightarrow> copilot_error + unit" where
  "validate_entry p =
    and_then (check_nonempty ''display_name'' (re_display_name p)) (\<lambda>_.
    and_then (check_len ''display_name'' (re_display_name p) MAX_DISPLAY_NAME_LEN) (\<lambda>_.
    check_len ''color'' (re_color p) MAX_COLOR_LEN))"

fun validate_entries :: "'id roster_entry list \<Rightarrow> copilot_error + unit" where
  "validate_entries [] = Inr ()"
| "validate_entries (p # ps) = and_then (validate_entry p) (\<lambda>_. validate_entries ps)"

fun validate_msg :: "'id copilot_msg \<Rightarrow> copilot_error + unit" where
  "validate_msg (Hello display_name _ _) =
    and_then (check_nonempty ''display_name'' display_name) (\<lambda>_.
    and_then (check_len ''display_name'' display_name MAX_DISPLAY_NAME_LEN) (\<lambda>_.
    check_no_control ''display_name'' display_name))"
| "validate_msg (Roster participants) = validate_entries participants"
| "validate_msg (Chat _ txt _) =
    and_then (check_nonempty ''text'' txt) (\<lambda>_.
    and_then (check_len ''text'' txt MAX_CHAT_LEN) (\<lambda>_.
    check_no_control_except_newline ''text'' txt))"
| "validate_msg (InputRevoke _ reason) =
    and_then (check_len ''reason'' reason MAX_REVOKE_REASON_LEN) (\<lambda>_. check_no_control ''reason'' reason)"
| "validate_msg (AudioOffer _ _ sdp) =
    and_then (check_nonempty ''sdp'' sdp) (\<lambda>_. check_len ''sdp'' sdp MAX_SDP_LEN)"
| "validate_msg (AudioAnswer _ _ sdp) =
    and_then (check_nonempty ''sdp'' sdp) (\<lambda>_. check_len ''sdp'' sdp MAX_SDP_LEN)"
| "validate_msg (Ice _ _ candidate) =
    and_then (check_nonempty ''candidate'' candidate) (\<lambda>_. check_len ''candidate'' candidate MAX_ICE_CANDIDATE_LEN)"
| "validate_msg (SessionEnded reason) =
    and_then (check_len ''reason'' reason MAX_REVOKE_REASON_LEN) (\<lambda>_. check_no_control ''reason'' reason)"
| "validate_msg (Welcome _ _ _ _) = Inr ()"
| "validate_msg (Cursor _ _ _ _) = Inr ()"
| "validate_msg (InputClaim _) = Inr ()"
| "validate_msg (InputRelease _) = Inr ()"
| "validate_msg (InputGrant _ _) = Inr ()"
| "validate_msg (Leave _) = Inr ()"

section \<open>Names and colours\<close>

fun sanitise_loop :: "utext \<Rightarrow> utext \<Rightarrow> bool \<Rightarrow> utext" where
  "sanitise_loop [] out prev = out"
| "sanitise_loop (c # cs) out prev =
    (if char_whitespace c then
       if prev \<or> out = [] then sanitise_loop cs out prev
       else if text_len (out @ [32]) \<ge> MAX_DISPLAY_NAME_LEN then out @ [32] else sanitise_loop cs (out @ [32]) True
     else if char_control c then sanitise_loop cs out prev
     else if text_len (out @ [c]) \<ge> MAX_DISPLAY_NAME_LEN then out @ [c] else sanitise_loop cs (out @ [c]) False)"

text \<open>The two trailing loops, on the reversed text.\<close>

fun pop_over :: "utext \<Rightarrow> utext" where
  "pop_over [] = []"
| "pop_over (c # cs) = (if text_len (c # cs) > MAX_DISPLAY_NAME_LEN then pop_over cs else c # cs)"

definition sanitise_display_name :: "utext \<Rightarrow> utext" where
  "sanitise_display_name raw = rev (pop_over (dropWhile (\<lambda>c. c = 32) (rev (sanitise_loop raw [] False))))"

definition numbered :: "utext \<Rightarrow> nat \<Rightarrow> utext" where
  "numbered base n = base @ text_of '' ('' @ text_of (show_nat n) @ text_of '')''"

text \<open>\<open>tag\<close> is the random text of the last resort.\<close>

definition disambiguate :: "utext \<Rightarrow> utext \<Rightarrow> utext list \<Rightarrow> utext" where
  "disambiguate tag base used =
    (if base \<notin> set used then base
     else case List.find (\<lambda>n. numbered base n \<notin> set used) [2..<100] of
       Some n \<Rightarrow> numbered base n
     | None \<Rightarrow> base @ text_of '' ('' @ tag @ text_of '')'')"

definition COLOR_PALETTE :: "utext list" where
  "COLOR_PALETTE = map text_of [''#3b82f6'', ''#10b981'', ''#f59e0b'', ''#ef4444'', ''#8b5cf6'', ''#ec4899'', ''#14b8a6'', ''#f97316'']"

definition pick_color :: "utext list \<Rightarrow> nat \<Rightarrow> utext" where
  "pick_color used index =
    (case List.find (\<lambda>c. c \<notin> set used) COLOR_PALETTE of
       Some c \<Rightarrow> c | None \<Rightarrow> COLOR_PALETTE ! (index mod length COLOR_PALETTE))"

section \<open>The room\<close>

record 'id participant =
  pa_pid :: 'id
  pa_display_name :: utext
  pa_color :: utext
  pa_is_owner :: bool
  pa_joined_at :: nat

record 'id room =
  participants :: "('id, 'id participant) hmap"
  join_order :: "'id list"
  input_holder :: "'id option"
  input_last_activity :: nat

datatype join_error = RoomFull | EmptyDisplayName
datatype 'id claim_result = Granted "'id option" | Denied 'id | AlreadyHeld | UnknownParticipant

definition room_new :: "nat \<Rightarrow> 'id room" where
  "room_new now = \<lparr>participants = [], join_order = [], input_holder = None, input_last_activity = now\<rparr>"

definition room_join :: "nat \<Rightarrow> utext \<Rightarrow> 'id \<Rightarrow> utext \<Rightarrow> bool \<Rightarrow> 'id room \<Rightarrow> (join_error + 'id participant) \<times> 'id room" where
  "room_join now tag pid display_name is_owner s =
    (if \<not> is_owner \<and> hm_len (participants s) \<ge> MAX_PARTICIPANTS then (Inl RoomFull, s)
     else
       let cleaned = sanitise_display_name display_name in
       if cleaned = [] then (Inl EmptyDisplayName, s)
       else
         let others = hm_values (participants s);
             p = \<lparr>pa_pid = pid, pa_display_name = disambiguate tag cleaned (map pa_display_name others),
                  pa_color = pick_color (map pa_color others) (hm_len (participants s)), pa_is_owner = is_owner, pa_joined_at = now\<rparr>;
             s1 = (if is_owner \<and> input_holder s = None then s\<lparr>input_holder := Some pid, input_last_activity := now\<rparr> else s)
         in (Inr p, s1\<lparr>participants := hm_insert pid p (participants s1), join_order := join_order s1 @ [pid]\<rparr>))"

definition room_leave :: "nat \<Rightarrow> 'id \<Rightarrow> 'id room \<Rightarrow> bool \<times> 'id room" where
  "room_leave now pid s =
    (if hm_get pid (participants s) = None then (False, s)
     else
       let rest = hm_remove pid (participants s);
           s1 = s\<lparr>participants := rest, join_order := filter (\<lambda>p. p \<noteq> pid) (join_order s)\<rparr>
       in (True,
           if input_holder s = Some pid
           then s1\<lparr>input_holder := map_option pa_pid (List.find pa_is_owner (hm_values rest)), input_last_activity := now\<rparr>
           else s1))"

definition room_roster :: "'id room \<Rightarrow> 'id roster_entry list" where
  "room_roster s =
    List.map_filter (\<lambda>pid. map_option (\<lambda>p.
        \<lparr>re_pid = pid, re_display_name = pa_display_name p, re_color = pa_color p,
         re_has_input = (input_holder s = Some pid), re_is_owner = pa_is_owner p\<rparr>) (hm_get pid (participants s)))
      (join_order s)"

definition try_claim_input :: "nat \<Rightarrow> 'id \<Rightarrow> 'id room \<Rightarrow> 'id claim_result \<times> 'id room" where
  "try_claim_input now pid s =
    (case hm_get pid (participants s) of
       None \<Rightarrow> (UnknownParticipant, s)
     | Some p \<Rightarrow>
         if input_holder s = Some pid then (AlreadyHeld, s)
         else (case input_holder s of
           Some current \<Rightarrow>
             if \<not> pa_is_owner p \<and> now - input_last_activity s < INPUT_IDLE_GRANT_AFTER then (Denied current, s)
             else (Granted (Some current), s\<lparr>input_holder := Some pid, input_last_activity := now\<rparr>)
         | None \<Rightarrow> (Granted None, s\<lparr>input_holder := Some pid, input_last_activity := now\<rparr>)))"

definition release_input :: "nat \<Rightarrow> 'id \<Rightarrow> 'id room \<Rightarrow> bool \<times> 'id room" where
  "release_input now pid s =
    (if input_holder s = Some pid then (True, s\<lparr>input_holder := None, input_last_activity := now\<rparr>) else (False, s))"

definition revoke_input :: "nat \<Rightarrow> 'id room \<Rightarrow> 'id option \<times> 'id room" where
  "revoke_input now s = (input_holder s, s\<lparr>input_holder := None, input_last_activity := now\<rparr>)"

definition force_grant :: "nat \<Rightarrow> 'id \<Rightarrow> 'id room \<Rightarrow> (join_error + 'id option) \<times> 'id room" where
  "force_grant now target s =
    (if \<not> hm_contains target (participants s) then (Inl EmptyDisplayName, s)
     else (Inr (input_holder s), s\<lparr>input_holder := Some target, input_last_activity := now\<rparr>))"

definition note_input_activity :: "nat \<Rightarrow> 'id \<Rightarrow> 'id room \<Rightarrow> bool \<times> 'id room" where
  "note_input_activity now pid s =
    (if input_holder s = Some pid then (True, s\<lparr>input_last_activity := now\<rparr>) else (False, s))"

section \<open>Names\<close>

lemma text_len_simps [simp]:
  "text_len [] = 0" "text_len (c # s) = char_len c + text_len s" "text_len (s @ t) = text_len s + text_len t"
  "text_len (rev s) = text_len s"
  by (simp_all add: text_len_def rev_map flip: rev_map)

lemma pop_over_len: "text_len (pop_over s) \<le> MAX_DISPLAY_NAME_LEN"
  by (induction s) simp_all

lemma pop_over_set: "set (pop_over s) \<subseteq> set s"
  by (induction s) auto

lemma sanitise_loop_clean:
  "list_all (\<lambda>c. \<not> char_control c) out \<Longrightarrow> list_all (\<lambda>c. \<not> char_control c) (sanitise_loop s out prev)"
  by (induction s out prev rule: sanitise_loop.induct) (auto simp: char_control_def)

lemma sanitised_clean: "list_all (\<lambda>c. \<not> char_control c) (sanitise_display_name raw)"
proof -
  have "list_all (\<lambda>c. \<not> char_control c) (sanitise_loop raw [] False)" by (rule sanitise_loop_clean) simp
  then show ?thesis
    using pop_over_set set_dropWhileD unfolding sanitise_display_name_def list_all_iff
    by (metis in_mono set_rev)
qed

lemma sanitised_len: "text_len (sanitise_display_name raw) \<le> MAX_DISPLAY_NAME_LEN"
  by (simp add: sanitise_display_name_def pop_over_len)

lemma text_of_inj: "text_of s = text_of t \<longleftrightarrow> s = t"
  by (auto simp: text_of_def inj_map_eq_map inj_on_def)

lemma numbered_inj: "numbered base m = numbered base n \<Longrightarrow> m = n"
  by (simp add: numbered_def text_of_inj show_nat_inj)

lemma disambiguate_fresh:
  assumes "length used < 99"
  shows "disambiguate tag base used \<notin> set used"
proof (cases "base \<in> set used \<and> numbered base ` {2..<100} \<subseteq> set used")
  case True
  have "inj_on (numbered base) {2..<100}" by (auto intro: inj_onI numbered_inj)
  then have "card (numbered base ` {2..<100}) = 98" by (simp add: card_image)
  moreover have "base \<notin> numbered base ` {2..<100}" by (auto simp: numbered_def text_of_def)
  ultimately have "card (insert base (numbered base ` {2..<100})) = 99" by simp
  moreover have "insert base (numbered base ` {2..<100}) \<subseteq> set used" using True by blast
  then have "card (insert base (numbered base ` {2..<100})) \<le> card (set used)" by (intro card_mono) simp_all
  ultimately have "99 \<le> length used" using card_length [of used] by linarith
  with assms show ?thesis by simp
next
  case False
  show ?thesis
  proof (cases "base \<in> set used")
    case True
    with False have "\<exists>n \<in> {2..<100}. numbered base n \<notin> set used" by blast
    then obtain n where "n \<in> set [2..<100]" "numbered base n \<notin> set used" unfolding set_upt by blast
    then have "List.find (\<lambda>n. numbered base n \<notin> set used) [2..<100] \<noteq> None" unfolding find_None_iff by blast
    then obtain m where "List.find (\<lambda>n. numbered base n \<notin> set used) [2..<100] = Some m" by blast
    moreover from this have "numbered base m \<notin> set used" unfolding find_Some_iff by blast
    ultimately show ?thesis using True by (simp add: disambiguate_def del: upt_rec_numeral)
  qed (simp add: disambiguate_def)
qed

section \<open>Rooms over time\<close>

datatype 'id room_op =
  Join nat utext 'id utext bool
| Depart nat 'id
| Claim nat 'id
| Release nat 'id
| RevokeAll nat
| ForceGrant nat 'id
| Activity nat 'id

fun room_step :: "'id room_op \<Rightarrow> 'id room \<Rightarrow> 'id room" where
  "room_step (Join now tag pid name is_owner) s = snd (room_join now tag pid name is_owner s)"
| "room_step (Depart now pid) s = snd (room_leave now pid s)"
| "room_step (Claim now pid) s = snd (try_claim_input now pid s)"
| "room_step (Release now pid) s = snd (release_input now pid s)"
| "room_step (RevokeAll now) s = snd (revoke_input now s)"
| "room_step (ForceGrant now pid) s = snd (force_grant now pid s)"
| "room_step (Activity now pid) s = snd (note_input_activity now pid s)"

text \<open>A participant joins under an id drawn for the occasion, and a room never has a hundred participants.\<close>

definition join_fresh :: "'id room_op \<Rightarrow> 'id room \<Rightarrow> bool" where
  "join_fresh opn s =
    (case opn of Join _ _ pid _ _ \<Rightarrow> hm_get pid (participants s) = None \<and> hm_len (participants s) < 99 | _ \<Rightarrow> True)"

inductive room_reach :: "'id room \<Rightarrow> bool" where
  start: "room_reach (room_new now)"
| step: "room_reach s \<Longrightarrow> join_fresh opn s \<Longrightarrow> room_reach (room_step opn s)"

definition room_inv :: "'id room \<Rightarrow> bool" where
  "room_inv s \<longleftrightarrow>
     hm_wf (participants s)
   \<and> (\<forall>k p. hm_get k (participants s) = Some p \<longrightarrow> pa_pid p = k)
   \<and> (\<forall>k l p q. hm_get k (participants s) = Some p \<longrightarrow> hm_get l (participants s) = Some q
        \<longrightarrow> pa_display_name p = pa_display_name q \<longrightarrow> k = l)
   \<and> distinct (join_order s) \<and> (\<forall>k. k \<in> set (join_order s) \<longleftrightarrow> hm_get k (participants s) \<noteq> None)
   \<and> (\<forall>h. input_holder s = Some h \<longrightarrow> hm_get h (participants s) \<noteq> None)"

lemma hm_get_values: "hm_get k m = Some v \<Longrightarrow> v \<in> set (hm_values m)"
  using hm_get_in [of k m v] by (force simp: hm_values_def)

lemma hm_values_get: "hm_wf m \<Longrightarrow> v \<in> set (hm_values m) \<Longrightarrow> \<exists>k. hm_get k m = Some v"
  unfolding hm_values_def using hm_get_wf by fastforce

lemma room_inv_token:
  assumes "room_inv s" "\<forall>h'. h = Some h' \<longrightarrow> hm_get h' (participants s) \<noteq> None"
  shows "room_inv (s\<lparr>input_holder := h, input_last_activity := now\<rparr>)"
  using assms by (simp add: room_inv_def)

lemma room_inv_join:
  assumes "room_inv s" "hm_get pid (participants s) = None" "hm_len (participants s) < 99"
  shows "room_inv (snd (room_join now tag pid name is_owner s))"
proof (cases "\<not> is_owner \<and> hm_len (participants s) \<ge> MAX_PARTICIPANTS \<or> sanitise_display_name name = []")
  case True
  with assms(1) show ?thesis by (auto simp: room_join_def Let_def)
next
  case False
  let ?others = "hm_values (participants s)"
  let ?n = "disambiguate tag (sanitise_display_name name) (map pa_display_name ?others)"
  have "?n \<notin> set (map pa_display_name ?others)"
    using assms(3) by (intro disambiguate_fresh) (simp add: hm_values_def hm_len_def)
  then have new: "pa_display_name p \<noteq> ?n" if "hm_get k (participants s) = Some p" for k p
    using hm_get_values [OF that] by (metis image_eqI set_map)
  from False have room: "snd (room_join now tag pid name is_owner s) =
    (if is_owner \<and> input_holder s = None then s\<lparr>input_holder := Some pid, input_last_activity := now\<rparr> else s)
      \<lparr>participants := hm_insert pid \<lparr>pa_pid = pid, pa_display_name = ?n,
         pa_color = pick_color (map pa_color ?others) (hm_len (participants s)), pa_is_owner = is_owner, pa_joined_at = now\<rparr> (participants s),
       join_order := join_order s @ [pid]\<rparr>"
    by (auto simp: room_join_def Let_def)
  show ?thesis
    using assms(1,2) unfolding room room_inv_def by (auto simp: new new [symmetric] split: if_splits)
qed

lemma room_inv_leave:
  assumes "room_inv s"
  shows "room_inv (snd (room_leave now pid s))"
proof (cases "hm_get pid (participants s) = None")
  case False
  let ?rest = "hm_remove pid (participants s)"
  have owner: "hm_get h ?rest \<noteq> None" if "map_option pa_pid (List.find pa_is_owner (hm_values ?rest)) = Some h" for h
  proof -
    from that obtain p where "List.find pa_is_owner (hm_values ?rest) = Some p" "pa_pid p = h" by auto
    then have p: "p \<in> set (hm_values ?rest)" "pa_pid p = h" by (auto simp: find_Some_iff)
    have "hm_wf ?rest" using assms by (simp add: room_inv_def)
    from hm_values_get [OF this p(1)] obtain k where "hm_get k ?rest = Some p" by blast
    moreover from this assms have "k = h" using p(2) by (auto simp: room_inv_def split: if_splits)
    ultimately show ?thesis by simp
  qed
  show ?thesis
    using assms False owner unfolding room_leave_def room_inv_def Let_def by (auto split: if_splits)
qed (use assms in \<open>simp add: room_leave_def\<close>)

lemma room_inv_step: "room_inv s \<Longrightarrow> join_fresh opn s \<Longrightarrow> room_inv (room_step opn s)"
proof (cases opn)
  case (Join now tag pid name is_owner)
  assume "room_inv s" "join_fresh opn s"
  with Join show ?thesis by (simp add: join_fresh_def room_inv_join)
next
  case (Depart now pid)
  assume "room_inv s"
  with Depart show ?thesis by (simp add: room_inv_leave)
next
  case (Activity now pid)
  assume "room_inv s"
  with Activity show ?thesis by (simp add: note_input_activity_def room_inv_def)
qed (auto simp: try_claim_input_def release_input_def revoke_input_def force_grant_def hm_contains_def
       intro!: room_inv_token split: option.split)

lemma room_reach_inv: "room_reach s \<Longrightarrow> room_inv s"
  by (induction rule: room_reach.induct) (simp add: room_new_def room_inv_def, rule room_inv_step)

section \<open>Properties\<close>

lemma map_filter_present:
  "\<forall>x \<in> set xs. f x \<noteq> None \<Longrightarrow> List.map_filter f xs = map (the \<circ> f) xs"
  by (induction xs) (auto simp: List.map_filter_simps)

lemma length_filter_eq: "distinct xs \<Longrightarrow> length (filter (\<lambda>x. h = Some x) xs) \<le> 1"
  by (induction xs) (auto simp: filter_empty_conv)

text \<open>C35: the roster a room sends is consistent in every state it can reach: it lists each participant once, in join
  order and under a name of their own, at most one of them has the input token, and the token's holder is listed. Nobody
  joins twice under one identifier, and no more than ninety-eight others are there when somebody joins.\<close>

theorem room_roster_consistent:
  assumes "room_reach s"
  shows "map re_pid (room_roster s) = join_order s \<and> distinct (join_order s)
    \<and> distinct (map re_display_name (room_roster s))
    \<and> length (filter re_has_input (room_roster s)) \<le> 1
    \<and> (case input_holder s of None \<Rightarrow> True | Some h \<Rightarrow> h \<in> set (map re_pid (room_roster s)))"
proof -
  let ?f = "\<lambda>pid. map_option (\<lambda>p. \<lparr>re_pid = pid, re_display_name = pa_display_name p, re_color = pa_color p,
         re_has_input = (input_holder s = Some pid), re_is_owner = pa_is_owner p\<rparr>) (hm_get pid (participants s))"
  have inv: "room_inv s" by (rule room_reach_inv [OF assms])
  then have present: "\<forall>x \<in> set (join_order s). hm_get x (participants s) \<noteq> None" by (simp add: room_inv_def)
  then have roster: "room_roster s = map (the \<circ> ?f) (join_order s)"
    unfolding room_roster_def by (intro map_filter_present) simp
  have pids: "map re_pid (room_roster s) = join_order s"
    unfolding roster using present by (auto intro!: map_idI)
  have d: "distinct (join_order s)" using inv by (simp add: room_inv_def)
  have "inj_on (\<lambda>x. pa_display_name (the (hm_get x (participants s)))) (set (join_order s))"
    using inv by (intro inj_onI) (auto simp: room_inv_def)
  moreover have "map re_display_name (room_roster s) = map (\<lambda>x. pa_display_name (the (hm_get x (participants s)))) (join_order s)"
    unfolding roster using present by auto
  ultimately have names: "distinct (map re_display_name (room_roster s))" using d by (simp add: distinct_map)
  have "filter re_has_input (room_roster s) = map (the \<circ> ?f) (filter (\<lambda>x. input_holder s = Some x) (join_order s))"
    unfolding roster filter_map using present by (intro arg_cong [where f = "map _"] filter_cong) auto
  then have one: "length (filter re_has_input (room_roster s)) \<le> 1" using length_filter_eq [OF d] by simp
  have "h \<in> set (join_order s)" if "input_holder s = Some h" for h using inv that by (simp add: room_inv_def)
  with pids d names one show ?thesis by (simp split: option.split)
qed

definition sample_room :: "nat room" where
  "sample_room = room_step (Join 7 [] 2 [65] False) (room_step (Join 5 [] 1 [65] True) (room_new 0))"

lemma sample_room_reach: "room_reach sample_room"
  unfolding sample_room_def
  by (intro room_reach.intros)
    (simp_all add: join_fresh_def room_new_def room_join_def sanitise_display_name_def char_whitespace_def char_control_def
       bound_simps char_len_def Let_def hm_values_def hm_len_def hm_insert_def hm_remove_def hm_get_def)

theorem room_roster_consistent_witness:
  "map re_pid (room_roster sample_room) = join_order sample_room \<and> length (filter re_has_input (room_roster sample_room)) \<le> 1"
  using room_roster_consistent [OF sample_room_reach] by blast

fun by_other :: "'id \<Rightarrow> nat \<Rightarrow> 'id room \<Rightarrow> 'id room_op \<Rightarrow> bool" where
  "by_other h until s (Join now _ pid _ is_owner) \<longleftrightarrow> pid \<noteq> h"
| "by_other h until s (Depart _ pid) \<longleftrightarrow> pid \<noteq> h"
| "by_other h until s (Claim now pid) \<longleftrightarrow>
    now < until \<and> (case hm_get pid (participants s) of None \<Rightarrow> True | Some p \<Rightarrow> \<not> pa_is_owner p)"
| "by_other h until s (Release _ pid) \<longleftrightarrow> pid \<noteq> h"
| "by_other h until s (RevokeAll _) \<longleftrightarrow> False"
| "by_other h until s (ForceGrant _ _) \<longleftrightarrow> False"
| "by_other h until s (Activity _ pid) \<longleftrightarrow> pid \<noteq> h"

fun run_by_others :: "'id \<Rightarrow> nat \<Rightarrow> 'id room_op list \<Rightarrow> 'id room \<Rightarrow> 'id room option" where
  "run_by_others h until [] s = Some s"
| "run_by_others h until (opn # ops) s = (if by_other h until s opn then run_by_others h until ops (room_step opn s) else None)"

lemma other_keeps:
  "by_other h (a + INPUT_IDLE_GRANT_AFTER) s opn \<Longrightarrow> input_holder s = Some h \<Longrightarrow> input_last_activity s = a \<Longrightarrow>
    input_holder (room_step opn s) = Some h \<and> input_last_activity (room_step opn s) = a"
  by (cases opn)
    (auto simp: room_join_def room_leave_def try_claim_input_def release_input_def note_input_activity_def Let_def
       bound_simps split: option.splits if_splits)

text \<open>A participant who is typing keeps the input. While less than two seconds have passed since the holder's last
  input, nothing another participant who is not the owner does takes the token away: not a claim, a release, a
  departure, a join or input of their own.\<close>

lemma input_not_stolen:
  assumes "fst (note_input_activity a h s)"
    and "run_by_others h (a + INPUT_IDLE_GRANT_AFTER) ops (snd (note_input_activity a h s)) = Some s'"
  shows "input_holder s' = Some h"
proof -
  have keep: "input_holder s = Some h \<Longrightarrow> input_last_activity s = a \<Longrightarrow>
      run_by_others h (a + INPUT_IDLE_GRANT_AFTER) ops s = Some s' \<Longrightarrow> input_holder s' = Some h" for s
    by (induction ops arbitrary: s) (auto dest: other_keeps split: if_splits)
  show ?thesis
    by (rule keep [OF _ _ assms(2)]) (use assms(1) in \<open>auto simp: note_input_activity_def split: if_splits\<close>)
qed

text \<open>A name keeps its limit of forty bytes only up to the numbering: the suffix that tells equal names apart comes on top. When a
  participant joins under a name of more than thirty-seven bytes that somebody in the room has, the server's own roster
  fails the validation of roster messages.\<close>

lemma disambiguate_len: "base \<in> set used \<Longrightarrow> text_len base + 3 \<le> text_len (disambiguate tag base used)"
  by (auto simp: disambiguate_def numbered_def text_of_def char_len_def split: option.split)

lemma validate_entries_bad: "e \<in> set es \<Longrightarrow> \<exists>x. validate_entry e = Inl x \<Longrightarrow> \<exists>x. validate_entries es = Inl x"
  by (induction es) (auto simp: and_then_def split: sum.splits)

lemma twin_name_breaks_roster:
  assumes "room_join now tag pid raw is_owner s = (Inr p, s')"
    and "other \<in> set (hm_values (participants s))" "pa_display_name other = sanitise_display_name raw" "37 < text_len (sanitise_display_name raw)"
  shows "\<exists>e. validate_msg (Roster (room_roster s')) = Inl e"
proof -
  have p: "pa_display_name p = disambiguate tag (sanitise_display_name raw) (map pa_display_name (hm_values (participants s)))"
    "pid \<in> set (join_order s')" "hm_get pid (participants s') = Some p"
    using assms(1) by (auto simp: room_join_def Let_def split: if_splits)
  have "sanitise_display_name raw \<in> set (map pa_display_name (hm_values (participants s)))" using assms(2,3) by force
  from disambiguate_len [OF this, of tag] have long: "40 < text_len (pa_display_name p)" using assms(4) p(1) by simp
  let ?e = "\<lparr>re_pid = pid, re_display_name = pa_display_name p, re_color = pa_color p,
     re_has_input = (input_holder s' = Some pid), re_is_owner = pa_is_owner p\<rparr>"
  have "?e \<in> set (room_roster s')" unfolding room_roster_def using p(2,3) by (force simp: List.map_filter_def)
  moreover have "\<exists>x. validate_entry ?e = Inl x"
    using long by (auto simp: validate_entry_def check_nonempty_def check_len_def and_then_def bound_simps)
  ultimately show ?thesis using validate_entries_bad by simp
qed

end
