(* ===== verification/Password_Policy.thy ===== *)
theory Password_Policy
  imports Strata_Prelude "HOL-Library.Multiset"
begin

text \<open>
  Generated passwords, \<open>backend/src/services/checkouts.rs\<close> (\<open>PasswordPolicy\<close>, \<open>generate_password\<close>). The generator of
  the rand crate is an argument: \<open>pick k n\<close> is its \<open>k\<close>-th draw, from a range of \<open>n\<close> numbers.
\<close>

section \<open>The policy and the generator\<close>

record password_policy =
  min_length :: int
  require_uppercase :: bool
  require_lowercase :: bool
  require_numbers :: bool
  require_symbols :: bool

definition default_policy :: password_policy where
  "default_policy = \<lparr>min_length = 16, require_uppercase = True, require_lowercase = True, require_numbers = True,
     require_symbols = True\<rparr>"

definition uppercase :: str where "uppercase = ''ABCDEFGHIJKLMNOPQRSTUVWXYZ''"
definition lowercase :: str where "lowercase = ''abcdefghijklmnopqrstuvwxyz''"
definition digit_chars :: str where "digit_chars = ''0123456789''"
definition symbol_chars :: str where "symbol_chars = ''!@#$%^&*()-_=+[]{}|;:,.<>?''"

text \<open>The classes the policy requires, in the order the code draws from them.\<close>

definition required_classes :: "password_policy \<Rightarrow> str list" where
  "required_classes p =
     (if require_uppercase p then [uppercase] else []) @ (if require_lowercase p then [lowercase] else [])
   @ (if require_numbers p then [digit_chars] else []) @ (if require_symbols p then [symbol_chars] else [])"

definition fill_charset :: "password_policy \<Rightarrow> str" where
  "fill_charset p =
    (let charset = concat (required_classes p) in
     if charset = [] then uppercase @ lowercase @ digit_chars else charset)"

definition draw :: "(nat \<Rightarrow> nat \<Rightarrow> nat) \<Rightarrow> nat \<Rightarrow> str \<Rightarrow> char" where
  "draw pick k charset = charset ! pick k (length charset)"

fun draw_each :: "(nat \<Rightarrow> nat \<Rightarrow> nat) \<Rightarrow> nat \<Rightarrow> str list \<Rightarrow> str" where
  "draw_each pick k [] = []"
| "draw_each pick k (charset # rest) = draw pick k charset # draw_each pick (Suc k) rest"

definition swap_at :: "nat \<Rightarrow> nat \<Rightarrow> 'a list \<Rightarrow> 'a list" where
  "swap_at i j xs = xs[i := xs ! j, j := xs ! i]"

text \<open>The loop over the positions from the last down to the first but one; \<open>k\<close> counts the draws.\<close>

fun shuffle_down :: "(nat \<Rightarrow> nat \<Rightarrow> nat) \<Rightarrow> nat \<Rightarrow> nat \<Rightarrow> 'a list \<Rightarrow> 'a list" where
  "shuffle_down pick k 0 xs = xs"
| "shuffle_down pick k (Suc i) xs = shuffle_down pick (Suc k) i (swap_at (Suc i) (pick k (Suc (Suc i))) xs)"

definition generate_password :: "(nat \<Rightarrow> nat \<Rightarrow> nat) \<Rightarrow> password_policy \<Rightarrow> str" where
  "generate_password pick p =
    (let len = nat (max (min_length p) 12);
         forced = draw_each pick 0 (required_classes p);
         filled = forced @ map (\<lambda>k. draw pick k (fill_charset p)) [length forced ..< len]
     in shuffle_down pick (length filled) (length filled - 1) filled)"

section \<open>Every password meets its policy\<close>

definition picks_in_range :: "(nat \<Rightarrow> nat \<Rightarrow> nat) \<Rightarrow> bool" where
  "picks_in_range pick \<longleftrightarrow> (\<forall>k n. 0 < n \<longrightarrow> pick k n < n)"

definition meets_policy :: "password_policy \<Rightarrow> str \<Rightarrow> bool" where
  "meets_policy p w \<longleftrightarrow>
     int (length w) \<ge> min_length p
   \<and> list_all (\<lambda>charset. list_ex (\<lambda>c. c \<in> set charset) w) (required_classes p)"

lemma draw_in: "picks_in_range pick \<Longrightarrow> charset \<noteq> [] \<Longrightarrow> draw pick k charset \<in> set charset"
  by (simp add: draw_def picks_in_range_def)

lemma classes_nonempty: "charset \<in> set (required_classes p) \<Longrightarrow> charset \<noteq> []"
  by (auto simp: required_classes_def uppercase_def lowercase_def digit_chars_def symbol_chars_def split: if_splits)

lemma fill_nonempty: "fill_charset p \<noteq> []"
  by (simp add: fill_charset_def Let_def uppercase_def)

lemma length_draw_each [simp]: "length (draw_each pick k css) = length css"
  by (induction css arbitrary: k) simp_all

lemma draw_each_covers:
  assumes "picks_in_range pick" "\<forall>cs \<in> set css. cs \<noteq> []"
  shows "list_all (\<lambda>charset. list_ex (\<lambda>c. c \<in> set charset) (draw_each pick k css)) css"
  using assms(2)
proof (induction css arbitrary: k)
  case (Cons cs css)
  then have "list_all (\<lambda>charset. list_ex (\<lambda>c. c \<in> set charset) (draw_each pick (Suc k) css)) css"
    and "draw pick k cs \<in> set cs"
    using draw_in [OF assms(1)] by simp_all
  then show ?case by (auto simp: list_all_iff)
qed simp

lemma draw_each_set:
  assumes "picks_in_range pick" "\<forall>cs \<in> set css. cs \<noteq> []"
  shows "set (draw_each pick k css) \<subseteq> set (concat css)"
  using assms(2)
proof (induction css arbitrary: k)
  case (Cons cs css)
  then have "draw pick k cs \<in> set cs" by (simp add: draw_in [OF assms(1)])
  with Cons show ?case by fastforce
qed simp

lemma mset_swap_at: "i < length xs \<Longrightarrow> j < length xs \<Longrightarrow> mset (swap_at i j xs) = mset xs"
  by (simp add: swap_at_def mset_swap)

lemma mset_shuffle_down:
  "picks_in_range pick \<Longrightarrow> i < length xs \<or> xs = [] \<and> i = 0 \<Longrightarrow> mset (shuffle_down pick k i xs) = mset xs"
proof (induction i arbitrary: k xs)
  case (Suc i)
  let ?ys = "swap_at (Suc i) (pick k (Suc (Suc i))) xs"
  have "pick k (Suc (Suc i)) < Suc (Suc i)" using Suc.prems(1) by (simp add: picks_in_range_def)
  then have "mset ?ys = mset xs" using Suc.prems(2) by (intro mset_swap_at) auto
  moreover have "length ?ys = length xs" by (simp add: swap_at_def)
  ultimately show ?case using Suc.IH [of ?ys "Suc k"] Suc.prems by auto
qed simp

lemma required_at_most_four: "length (required_classes p) \<le> 4"
  by (simp add: required_classes_def)

lemma mset_generate_password:
  assumes "picks_in_range pick"
  shows "mset (generate_password pick p) =
    mset (draw_each pick 0 (required_classes p)
      @ map (\<lambda>k. draw pick k (fill_charset p)) [length (required_classes p) ..< nat (max (min_length p) 12)])"
proof -
  have "(12 :: nat) \<le> nat (max (min_length p) 12)" by linarith
  then show ?thesis
    using required_at_most_four [of p]
    by (simp add: generate_password_def Let_def mset_shuffle_down [OF assms] del: mset_append)
qed

lemma generate_password_length:
  assumes "picks_in_range pick"
  shows "length (generate_password pick p) = nat (max (min_length p) 12)"
proof -
  have "size (mset (generate_password pick p)) = nat (max (min_length p) 12)"
    unfolding mset_generate_password [OF assms] using required_at_most_four [of p] by simp
  then show ?thesis by simp
qed

lemma fill_subset: "set (concat (required_classes p)) \<subseteq> set (fill_charset p)"
  by (auto simp: fill_charset_def Let_def)

section \<open>Properties\<close>

text \<open>C32: whatever the random generator draws, a generated password has exactly the length asked for, twelve at least,
  contains a character of every class the policy requires, and nothing outside the classes it may use.\<close>

theorem generated_password_meets_policy:
  assumes "picks_in_range pick"
  shows "length (generate_password pick p) = nat (max (min_length p) 12)
    \<and> meets_policy p (generate_password pick p)
    \<and> set (generate_password pick p) \<subseteq> set (fill_charset p)"
proof -
  let ?w = "generate_password pick p"
  have set_w: "set ?w = set (draw_each pick 0 (required_classes p))
      \<union> set (map (\<lambda>k. draw pick k (fill_charset p)) [length (required_classes p) ..< nat (max (min_length p) 12)])"
    using arg_cong [OF mset_generate_password [OF assms, of p], of set_mset] by simp
  have ne: "\<forall>cs \<in> set (required_classes p). cs \<noteq> []" using classes_nonempty by blast
  have "list_all (\<lambda>charset. list_ex (\<lambda>c. c \<in> set charset) ?w) (required_classes p)"
    using draw_each_covers [OF assms ne, of 0] set_w by (auto simp: list_all_iff list_ex_iff)
  moreover have "set ?w \<subseteq> set (fill_charset p)"
    using set_w draw_each_set [OF assms ne, of 0] fill_subset [of p] draw_in [OF assms fill_nonempty] by fastforce
  moreover have "int (nat (max (min_length p) 12)) \<ge> min_length p" by linarith
  ultimately show ?thesis
    unfolding meets_policy_def generate_password_length [OF assms] by blast
qed

theorem generated_password_meets_policy_witness:
  "length (generate_password (\<lambda>k n. k mod n) default_policy) = 16
    \<and> meets_policy default_policy (generate_password (\<lambda>k n. k mod n) default_policy)"
proof -
  have "picks_in_range (\<lambda>k n. k mod n)" by (simp add: picks_in_range_def)
  from generated_password_meets_policy [OF this, of default_policy] show ?thesis by (simp add: default_policy_def)
qed

end
