(* ===== verification/Ad_Reset.thy ===== *)
theory Ad_Reset
  imports App_Error Rust_Text
begin

text \<open>
  The password reset in the directory, \<open>ldap_reset_password\<close> of \<open>backend/src/services/checkouts.rs\<close>. The directory
  server is the record \<open>ldap_env\<close>: what each request over the connection returns. Beside its result the model says whether
  the directory accepted the new password; the two differ, since everything after the modification can still fail.
\<close>

type_synonym pm_error = "(str, str) app_error"

definition show_pm_error :: "pm_error \<Rightarrow> str" where
  "show_pm_error e = show_app_error (\<lambda>m. m) (\<lambda>m. m) e"

text \<open>
  A request fails with the text of an error, or returns a code and a text. The binds are numbered: the service account, the
  verification as the target, the service account again. \<open>ld_hint\<close> is \<open>parse_ldap_error_hint\<close>, \<open>ld_show\<close> the ldap3
  crate's rendering of a failed result.
\<close>

record ldap_env =
  ld_tls :: "str option"
  ld_connect :: "str option"
  ld_bind :: "nat \<Rightarrow> str \<Rightarrow> str \<Rightarrow> str + nat \<times> str"
  ld_search_pre :: "str + nat \<times> str"
  ld_modify :: "str + nat \<times> str"
  ld_diag :: "(str option \<times> bytes option) list option"
  ld_search_post :: "str + nat \<times> str"
  ld_sam :: "str + (nat \<times> str) \<times> str option"
  ld_show :: "nat \<times> str \<Rightarrow> str"
  ld_hint :: "str \<Rightarrow> str option"

definition ldap_success :: "ldap_env \<Rightarrow> str \<Rightarrow> str + nat \<times> str \<Rightarrow> pm_error + unit" where
  "ldap_success env label r =
    (case r of
       Inl e \<Rightarrow> Inl (Internal (label @ '': '' @ e))
     | Inr res \<Rightarrow> if fst res = 0 then Inr () else Inl (Internal (label @ '' failed: '' @ ld_show env res)))"

definition strip_prefix :: "str \<Rightarrow> str \<Rightarrow> str option" where
  "strip_prefix p s = (if starts_with p s then Some (drop (length p) s) else None)"

definition extract_cn_from_dn :: "str \<Rightarrow> str" where
  "extract_cn_from_dn dn =
    (let part = hd (str_split CHR '','' dn) in
     case strip_prefix ''CN='' part of
       Some cn \<Rightarrow> cn
     | None \<Rightarrow> (case strip_prefix ''cn='' part of Some cn \<Rightarrow> cn | None \<Rightarrow> dn))"

text \<open>The explanations appended when the directory refuses for lack of rights.\<close>

definition dacl_protected :: "bytes \<Rightarrow> bool" where
  "dacl_protected sd \<longleftrightarrow> length sd \<ge> 4 \<and> bit (word_rcat [sd ! 3, sd ! 2] :: 16 word) 12"

definition diagnose_entry :: "str option \<times> bytes option \<Rightarrow> str" where
  "diagnose_entry entry =
    (if fst entry = Some ''1''
     then CHR 0x0A # CHR 0x0A # ''DIAGNOSTIC: This account is PROTECTED (adminCount=1). Permissions must be applied to the AdminSDHolder template container instead of the OU.''
     else [])
  @ (case snd entry of
       Some sd \<Rightarrow>
         if dacl_protected sd
         then CHR 0x0A # CHR 0x0A # ''DIAGNOSTIC: Inheritance is BLOCKED on this account. Either enable inheritance on the object or apply permissions directly to this user.''
         else []
     | None \<Rightarrow> [])"

definition modify_error :: "ldap_env \<Rightarrow> str \<Rightarrow> nat \<times> str \<Rightarrow> pm_error" where
  "modify_error env target_dn res =
    Internal (''LDAP password reset failed for '' @ [CHR 0x27] @ target_dn @ [CHR 0x27] @ '' (rc='' @ show_nat (fst res) @ ''): '' @ snd res
      @ (if fst res = 50 then concat (map diagnose_entry (case ld_diag env of Some entries \<Rightarrow> entries | None \<Rightarrow> [])) else []))"

text \<open>The bind as the target account that confirms the new password.\<close>

definition verify_bind :: "ldap_env \<Rightarrow> str \<Rightarrow> bool \<Rightarrow> str + nat \<times> str \<Rightarrow> pm_error + unit" where
  "verify_bind env target_dn is_scramble r =
    (case r of
       Inl e \<Rightarrow>
         Inl (Internal (''Password modify returned rc=0 but verification bind errored for '' @ [CHR 0x27] @ target_dn @ [CHR 0x27] @ '': '' @ e))
     | Inr (rc, txt) \<Rightarrow>
         if rc = 0 \<or> str_contains ''data 52f'' txt then Inr ()
         else if str_contains ''data 775'' txt then
           if is_scramble then Inr ()
           else Inl (Validation (''Account is currently LOCKED OUT in Active Directory (DN: '' @ [CHR 0x27] @ target_dn @ [CHR 0x27]
                  @ ''). Please unlock the account before requesting a checkout.''))
         else
           (case ld_hint env txt of
              Some hint \<Rightarrow> Inl (Validation hint)
            | None \<Rightarrow>
                Inl (Internal (''Password modify returned rc=0 but verification bind failed (rc='' @ show_nat rc @ '') for '' @ [CHR 0x27]
                  @ target_dn @ [CHR 0x27] @ '': '' @ txt))))"

definition after_modify ::
    "ldap_env \<Rightarrow> str \<Rightarrow> str \<Rightarrow> str \<Rightarrow> str \<Rightarrow> bool \<Rightarrow> pm_error + str" where
  "after_modify env bind_dn bind_password target_dn new_password is_scramble =
    and_then (ldap_success env ''LDAP search post-modify'' (ld_search_post env)) (\<lambda>_.
    and_then (verify_bind env target_dn is_scramble (ld_bind env 1 target_dn new_password)) (\<lambda>_.
      let rebind_password = (if eq_ignore_ascii_case bind_dn target_dn then new_password else bind_password) in
      and_then (ldap_success env ''LDAP re-bind'' (ld_bind env 2 bind_dn rebind_password)) (\<lambda>_.
        case ld_sam env of
          Inl e \<Rightarrow> Inl (Internal (''LDAP sAMAccountName search: '' @ e))
        | Inr (res, sam) \<Rightarrow>
            and_then (ldap_success env ''LDAP sAMAccountName search'' (Inr res)) (\<lambda>_.
              Inr (case sam of Some name \<Rightarrow> name | None \<Rightarrow> extract_cn_from_dn target_dn)))))"

definition ldap_reset_password ::
    "ldap_env \<Rightarrow> str \<Rightarrow> str \<Rightarrow> str \<Rightarrow> str \<Rightarrow> bool \<Rightarrow> str option \<Rightarrow> bool \<Rightarrow> (pm_error + str) \<times> bool" where
  "ldap_reset_password env bind_dn bind_password target_dn new_password tls_skip_verify ca_cert_pem is_scramble =
    (let tls = (case ca_cert_pem of
                  Some pem \<Rightarrow>
                    if pem \<noteq> [] \<and> \<not> tls_skip_verify
                    then (case ld_tls env of Some e \<Rightarrow> Inl (Internal (''TLS config: '' @ e)) | None \<Rightarrow> Inr ())
                    else Inr ()
                | None \<Rightarrow> Inr ());
         before =
           and_then tls (\<lambda>_.
           and_then (case ld_connect env of Some e \<Rightarrow> Inl (Internal (''LDAP connect: '' @ e)) | None \<Rightarrow> Inr ()) (\<lambda>_.
           and_then (ldap_success env ''LDAP bind'' (ld_bind env 0 bind_dn bind_password)) (\<lambda>_.
           and_then (ldap_success env ''LDAP search pre-modify'' (ld_search_pre env)) (\<lambda>_.
             map_err (\<lambda>e. Internal (''LDAP modify: '' @ e)) (ld_modify env)))))
     in case before of
          Inl e \<Rightarrow> (Inl e, False)
        | Inr res \<Rightarrow>
            if fst res \<noteq> 0 then (Inl (modify_error env target_dn res), False)
            else (after_modify env bind_dn bind_password target_dn new_password is_scramble, True))"

section \<open>What a result says about the directory\<close>

lemma reset_ok_changed:
  "ldap_reset_password env bind_dn bind_password dn pw skip ca scramble = (Inr sam, changed) \<Longrightarrow> changed"
  by (auto simp: ldap_reset_password_def Let_def split: sum.splits if_splits)

text \<open>An account the directory restricts for other reasons counts as verified, a locked one only when it is scrambled.\<close>

lemma verify_bind_locked:
  assumes "rc \<noteq> 0" "str_contains ''data 775'' txt" "\<not> str_contains ''data 52f'' txt"
  shows "is_ok (verify_bind env dn scramble (Inr (rc, txt))) \<longleftrightarrow> scramble"
  using assms by (simp add: verify_bind_def is_ok_def)

end
