(* ===== verification/Checkouts.thy ===== *)
theory Checkouts
  imports Password_Policy Ad_Reset Hash_Map
begin

text \<open>
  Check-outs of managed directory accounts, \<open>backend/src/services/checkouts.rs\<close>: a user is lent the password of an account
  for a while; activation sets a fresh password, check-in and expiry replace it again. The tables are lists of rows in one
  record together with the passwords of the directory; a SQL statement is a function on it. Identifiers and sealed secrets
  are type parameters. Vault, serde, the clock of the database, the random generator and the directory are the record
  \<open>pm_env\<close>; SQL statements themselves are taken not to fail, and the statements of one operation see one time.
\<close>

section \<open>Rows\<close>

datatype checkout_status = StPending | StApproved | StScheduled | StActive | StExpired | StDenied | StCheckedIn

definition status_str :: "checkout_status \<Rightarrow> str" where
  "status_str st =
    (case st of StPending \<Rightarrow> ''Pending'' | StApproved \<Rightarrow> ''Approved'' | StScheduled \<Rightarrow> ''Scheduled'' | StActive \<Rightarrow> ''Active''
     | StExpired \<Rightarrow> ''Expired'' | StDenied \<Rightarrow> ''Denied'' | StCheckedIn \<Rightarrow> ''CheckedIn'')"

record ('id, 's) checkout_request =
  cr_id :: 'id
  cr_requester :: 'id
  cr_dn :: str
  cr_config :: "'id option"
  cr_status :: checkout_status
  cr_duration :: int
  cr_approved_by :: "'id option"
  cr_justification :: str
  cr_expires :: "int option"
  cr_credential :: "'id option"
  cr_created :: int
  cr_friendly_name :: "str option"
  cr_emergency :: bool
  cr_start :: "int option"
  cr_reason :: "str option"
  cr_pending :: "'s option"

record ('id, 's) credential_profile =
  cp_id :: 'id
  cp_user :: 'id
  cp_label :: str
  cp_sealed :: 's
  cp_expires :: int
  cp_checkout :: "'id option"

record 'id account_mapping =
  um_id :: 'id
  um_user :: 'id
  um_dn :: str
  um_self_approve :: bool
  um_config :: "'id option"
  um_friendly_name :: "str option"

record 'id approval_role =
  ar_id :: 'id
  ar_name :: str
  ar_allow_bypass :: bool

text \<open>The columns of a directory configuration that password management reads.\<close>

record 'id ad_config =
  cfg_id :: 'id
  cfg_label :: str
  cfg_bind_dn :: str
  cfg_bind_password :: str
  cfg_tls_skip_verify :: bool
  cfg_ca_cert_pem :: "str option"
  cfg_pm_enabled :: bool
  cfg_pm_bind_user :: "str option"
  cfg_pm_bind_password :: "str option"
  cfg_policy :: password_policy
  cfg_auto_rotate :: bool
  cfg_rotate_days :: int
  cfg_last_rotated :: "int option"
  cfg_allow_bypass :: bool

record ('id, 's) pm_state =
  pm_requests :: "('id, 's) checkout_request list"
  pm_profiles :: "('id, 's) credential_profile list"
  pm_mappings :: "'id account_mapping list"
  pm_roles :: "'id approval_role list"
  pm_role_accounts :: "('id \<times> str) list"
  pm_assignments :: "('id \<times> 'id) list"
  pm_configs :: "'id ad_config list"
  pm_locks :: "(str, 'id \<times> str \<times> int) hmap"
  pm_audit :: "('id option \<times> str) list"
  pm_ad :: "str \<Rightarrow> str option"

text \<open>
  \<open>pe_lower\<close> is the lower-casing of text in Rust, \<open>pe_sql_lower\<close> that of the database; \<open>pe_audit\<close> the error of an audit entry that cannot be
  written, by its action; \<open>pe_payload\<close> the JSON of a sealed credential and
  \<open>pe_payload_password\<close> the password read back from it; \<open>pe_new_id\<close> an identifier the database draws.
\<close>

record ('id, 's) pm_env =
  pe_now :: int
  pe_lower :: "str \<Rightarrow> str"
  pe_sql_lower :: "str \<Rightarrow> str"
  pe_audit :: "str \<Rightarrow> str option"
  pe_seal :: "bytes \<Rightarrow> pm_error + 's"
  pe_unseal :: "'s \<Rightarrow> pm_error + bytes"
  pe_seal_setting :: "str \<Rightarrow> pm_error + str"
  pe_unseal_setting :: "str \<Rightarrow> pm_error + str"
  pe_payload :: "str \<Rightarrow> str \<Rightarrow> str \<Rightarrow> pm_error + bytes"
  pe_payload_password :: "bytes \<Rightarrow> str"
  pe_pick :: "nat \<Rightarrow> nat \<Rightarrow> nat"
  pe_ldap :: ldap_env
  pe_new_id :: 'id

section \<open>Statements\<close>

definition get_by_id :: "'id \<Rightarrow> ('id, 's) pm_state \<Rightarrow> ('id, 's) checkout_request option" where
  "get_by_id checkout_id s = List.find (\<lambda>r. cr_id r = checkout_id) (pm_requests s)"

definition get_owned_by_user :: "'id \<Rightarrow> 'id \<Rightarrow> ('id, 's) pm_state \<Rightarrow> ('id, 's) checkout_request option" where
  "get_owned_by_user checkout_id user s =
    List.find (\<lambda>r. cr_id r = checkout_id \<and> cr_requester r = user) (pm_requests s)"

definition update_request ::
    "'id \<Rightarrow> (('id, 's) checkout_request \<Rightarrow> ('id, 's) checkout_request) \<Rightarrow> ('id, 's) pm_state \<Rightarrow> ('id, 's) pm_state" where
  "update_request checkout_id f s = s\<lparr>pm_requests := map (\<lambda>r. if cr_id r = checkout_id then f r else r) (pm_requests s)\<rparr>"

definition set_status :: "'id \<Rightarrow> checkout_status \<Rightarrow> ('id, 's) pm_state \<Rightarrow> ('id, 's) pm_state" where
  "set_status checkout_id st s = update_request checkout_id (\<lambda>r. r\<lparr>cr_status := st\<rparr>) s"

definition audit_log :: "('id, 's) pm_env \<Rightarrow> 'id option \<Rightarrow> str \<Rightarrow> ('id, 's) pm_state \<Rightarrow> (pm_error + unit) \<times> ('id, 's) pm_state" where
  "audit_log env user action s =
    (case pe_audit env action of
       Some e \<Rightarrow> (Inl (Database e), s)
     | None \<Rightarrow> (Inr (), s\<lparr>pm_audit := pm_audit s @ [(user, action)]\<rparr>))"

definition checkout_dn :: "'id \<Rightarrow> ('id, 's) pm_state \<Rightarrow> pm_error + str" where
  "checkout_dn checkout_id s = ok_or (map_option cr_dn (get_by_id checkout_id s)) (NotFound ''Checkout request not found'')"

definition find_config :: "'id \<Rightarrow> ('id, 's) pm_state \<Rightarrow> pm_error + 'id ad_config" where
  "find_config config_id s =
    ok_or (List.find (\<lambda>c. cfg_id c = config_id) (pm_configs s)) (NotFound ''AD sync config not found'')"

definition load_policy :: "'id \<Rightarrow> ('id, 's) pm_state \<Rightarrow> password_policy" where
  "load_policy config_id s =
    (case List.find (\<lambda>c. cfg_id c = config_id) (pm_configs s) of Some c \<Rightarrow> cfg_policy c | None \<Rightarrow> default_policy)"

definition managed_label :: "str \<Rightarrow> str" where
  "managed_label dn = ''[managed] '' @ dn"

definition seal_managed_credential ::
    "('id, 's) pm_env \<Rightarrow> 'id \<Rightarrow> str \<Rightarrow> str \<Rightarrow> str \<Rightarrow> int \<Rightarrow> ('id, 's) pm_state \<Rightarrow> (pm_error + 'id) \<times> ('id, 's) pm_state" where
  "seal_managed_credential env user dn username password duration s =
    (case and_then (pe_payload env username password dn) (pe_seal env) of
       Inl e \<Rightarrow> (Inl e, s)
     | Inr sealed \<Rightarrow>
         let expires = pe_now env + duration * 60;
             mine = (\<lambda>p. cp_user p = user \<and> cp_label p = managed_label dn)
         in case List.find mine (pm_profiles s) of
              Some p \<Rightarrow>
                (Inr (cp_id p),
                 s\<lparr>pm_profiles := map (\<lambda>q. if mine q then q\<lparr>cp_sealed := sealed, cp_expires := expires\<rparr> else q) (pm_profiles s)\<rparr>)
            | None \<Rightarrow>
                (Inr (pe_new_id env),
                 s\<lparr>pm_profiles := \<lparr>cp_id = pe_new_id env, cp_user = user, cp_label = managed_label dn, cp_sealed = sealed,
                     cp_expires = expires, cp_checkout = None\<rparr> # pm_profiles s\<rparr>))"

section \<open>One operation per account\<close>

definition OPERATION_DEADLINE :: int where [bound_simps]: "OPERATION_DEADLINE = 120"
definition ACCOUNT_LOCK_SECS :: int where [bound_simps]: "ACCOUNT_LOCK_SECS = 300"

definition account_key :: "('id, 's) pm_env \<Rightarrow> str \<Rightarrow> str" where
  "account_key env dn = pe_lower env (trim dn)"

definition claim_lock :: "int \<Rightarrow> str \<Rightarrow> 'id \<Rightarrow> str \<Rightarrow> ('id, 's) pm_state \<Rightarrow> ('id, 's) pm_state option" where
  "claim_lock now key operation_id operation s =
    (let claimed = s\<lparr>pm_locks := hm_insert key (operation_id, operation, now + ACCOUNT_LOCK_SECS) (pm_locks s)\<rparr> in
     case hm_get key (pm_locks s) of
       None \<Rightarrow> Some claimed
     | Some (_, _, locked_until) \<Rightarrow> if locked_until < now then Some claimed else None)"

definition release_lock :: "str \<Rightarrow> 'id \<Rightarrow> ('id, 's) pm_state \<Rightarrow> ('id, 's) pm_state" where
  "release_lock key operation_id s =
    (case hm_get key (pm_locks s) of
       Some (holder, _, _) \<Rightarrow> if holder = operation_id then s\<lparr>pm_locks := hm_remove key (pm_locks s)\<rparr> else s
     | None \<Rightarrow> s)"

text \<open>An operation that the deadline cuts off leaves the state it had reached and no result.\<close>

definition with_account_lock ::
    "('id, 's) pm_env \<Rightarrow> 'id \<Rightarrow> str \<Rightarrow> str \<Rightarrow> (('id, 's) pm_state \<Rightarrow> (pm_error + 'a) option \<times> ('id, 's) pm_state)
      \<Rightarrow> ('id, 's) pm_state \<Rightarrow> (pm_error + 'a) \<times> ('id, 's) pm_state" where
  "with_account_lock env operation_id dn operation action s =
    (let key = account_key env dn in
     case claim_lock (pe_now env) key operation_id operation s of
       None \<Rightarrow> (Inl (Validation ''Another password operation on this account is in progress''), s)
     | Some s1 \<Rightarrow>
         let (outcome, s2) = action s1;
             res = (case outcome of Some r \<Rightarrow> r | None \<Rightarrow> Inl (Internal (''Password '' @ operation @ '' timed out'')))
         in (res, release_lock key operation_id s2))"

definition in_time :: "(pm_error + 'a) \<times> 'b \<Rightarrow> (pm_error + 'a) option \<times> 'b" where
  "in_time p = (Some (fst p), snd p)"

section \<open>The service account and the directory\<close>

definition nonempty :: "str option \<Rightarrow> str option" where
  "nonempty m = (case m of Some x \<Rightarrow> if x = [] then None else Some x | None \<Rightarrow> None)"

definition pm_bind_dn :: "'id ad_config \<Rightarrow> str" where
  "pm_bind_dn c = (case nonempty (cfg_pm_bind_user c) of Some u \<Rightarrow> u | None \<Rightarrow> cfg_bind_dn c)"

definition pm_raw_password :: "'id ad_config \<Rightarrow> str" where
  "pm_raw_password c = (case nonempty (cfg_pm_bind_password c) of Some p \<Rightarrow> p | None \<Rightarrow> cfg_bind_password c)"

definition reset_in_ad ::
    "('id, 's) pm_env \<Rightarrow> 'id ad_config \<Rightarrow> str \<Rightarrow> str \<Rightarrow> str \<Rightarrow> bool \<Rightarrow> ('id, 's) pm_state
      \<Rightarrow> (pm_error + str) \<times> ('id, 's) pm_state" where
  "reset_in_ad env c bind_pw dn password is_scramble s =
    (let (r, changed) = ldap_reset_password (pe_ldap env) (pm_bind_dn c) bind_pw dn password (cfg_tls_skip_verify c)
                          (cfg_ca_cert_pem c) is_scramble
     in (r, if changed then s\<lparr>pm_ad := (pm_ad s)(pe_lower env dn := Some password)\<rparr> else s))"

section \<open>Activation\<close>

datatype ('id, 's) activation_plan = AlreadyActive | Proceed "('id, 's) checkout_request" 'id

definition activation_read :: "'id \<Rightarrow> ('id, 's) pm_state \<Rightarrow> pm_error + ('id, 's) activation_plan" where
  "activation_read checkout_id s =
    and_then (ok_or (get_by_id checkout_id s) (NotFound ''Checkout request not found'')) (\<lambda>req.
      if cr_status req \<noteq> StApproved \<and> cr_status req \<noteq> StActive \<and> cr_status req \<noteq> StScheduled
      then Inl (Validation (''Cannot activate checkout in '' @ [CHR 0x27] @ status_str (cr_status req) @ [CHR 0x27] @ '' state''))
      else if cr_status req = StActive \<and> cr_credential req \<noteq> None then Inr AlreadyActive
      else and_then (ok_or (cr_config req) (Validation ''Checkout has no associated AD sync config'')) (\<lambda>config_id.
        Inr (Proceed req config_id)))"

definition other_holder :: "('id, 's) pm_env \<Rightarrow> 'id \<Rightarrow> str \<Rightarrow> ('id, 's) pm_state \<Rightarrow> bool" where
  "other_holder env checkout_id dn s =
    list_ex (\<lambda>r. pe_sql_lower env (cr_dn r) = pe_sql_lower env dn \<and> cr_status r = StActive \<and> cr_id r \<noteq> checkout_id) (pm_requests s)"

definition check_exclusive :: "('id, 's) pm_env \<Rightarrow> 'id \<Rightarrow> str \<Rightarrow> ('id, 's) pm_state \<Rightarrow> pm_error + unit" where
  "check_exclusive env checkout_id dn s =
    (if other_holder env checkout_id dn s
     then Inl (Validation ''This account is checked out by someone else. Try again once it is checked in.'') else Inr ())"

definition record_pending :: "'id \<Rightarrow> 's \<Rightarrow> ('id, 's) pm_state \<Rightarrow> ('id, 's) pm_state" where
  "record_pending checkout_id sealed s = update_request checkout_id (\<lambda>r. r\<lparr>cr_pending := Some sealed\<rparr>) s"

definition commit_activation ::
    "('id, 's) pm_env \<Rightarrow> ('id, 's) checkout_request \<Rightarrow> 'id \<Rightarrow> ('id, 's) pm_state \<Rightarrow> ('id, 's) pm_state" where
  "commit_activation env req profile_id s =
    (let expires = pe_now env + cr_duration req * 60;
         s1 = update_request (cr_id req)
                (\<lambda>r. r\<lparr>cr_status := StActive, cr_expires := Some expires, cr_credential := Some profile_id, cr_pending := None\<rparr>) s;
         earlier = (\<lambda>c. list_ex (\<lambda>r. cr_id r = c \<and> cr_dn r = cr_dn req \<and> cr_id r \<noteq> cr_id req
                                    \<and> cr_requester r = cr_requester req) (pm_requests s1))
     in s1\<lparr>pm_profiles := map (\<lambda>p. if cp_user p = cr_requester req \<and> (case cp_checkout p of Some c \<Rightarrow> earlier c | None \<Rightarrow> False)
                                  then p\<lparr>cp_checkout := Some (cr_id req), cp_expires := expires\<rparr> else p) (pm_profiles s1)\<rparr>)"

text \<open>From the directory reset to the commit, once the new password is on record.\<close>

definition push_password ::
    "('id, 's) pm_env \<Rightarrow> ('id, 's) checkout_request \<Rightarrow> 'id \<Rightarrow> str \<Rightarrow> ('id, 's) pm_state \<Rightarrow> (pm_error + unit) \<times> ('id, 's) pm_state" where
  "push_password env req config_id new_password s =
    and_do (find_config config_id s, s) (\<lambda>config s.
    and_do (pe_unseal_setting env (pm_raw_password config), s) (\<lambda>bind_pw s.
    and_do (reset_in_ad env config bind_pw (cr_dn req) new_password False s) (\<lambda>sam s.
    and_do (seal_managed_credential env (cr_requester req) (cr_dn req) sam new_password (cr_duration req) s) (\<lambda>profile_id s.
      audit_log env (Some (cr_requester req)) ''password_checkout.activated'' (commit_activation env req profile_id s)))))"

definition activate_checkout_inner ::
    "('id, 's) pm_env \<Rightarrow> 'id \<Rightarrow> ('id, 's) pm_state \<Rightarrow> (pm_error + unit) \<times> ('id, 's) pm_state" where
  "activate_checkout_inner env checkout_id s =
    and_do (activation_read checkout_id s, s) (\<lambda>plan s.
      case plan of
        AlreadyActive \<Rightarrow> (Inr (), s)
      | Proceed req config_id \<Rightarrow>
          and_do (check_exclusive env checkout_id (cr_dn req) s, s) (\<lambda>_ s.
            let new_password = generate_password (pe_pick env) (load_policy config_id s) in
            and_do (pe_seal env (as_bytes new_password), s) (\<lambda>sealed s.
              push_password env req config_id new_password (record_pending checkout_id sealed s))))"

definition activate_checkout ::
    "('id, 's) pm_env \<Rightarrow> 'id \<Rightarrow> 'id \<Rightarrow> ('id, 's) pm_state \<Rightarrow> (pm_error + unit) \<times> ('id, 's) pm_state" where
  "activate_checkout env operation_id checkout_id s =
    and_do (checkout_dn checkout_id s, s) (\<lambda>dn s.
      with_account_lock env operation_id dn ''activation'' (in_time \<circ> activate_checkout_inner env checkout_id) s)"

section \<open>Check-in and expiry\<close>

definition expire_profile :: "int \<Rightarrow> 'id option \<Rightarrow> ('id, 's) pm_state \<Rightarrow> ('id, 's) pm_state" where
  "expire_profile now credential s =
    (case credential of
       Some profile_id \<Rightarrow>
         s\<lparr>pm_profiles := map (\<lambda>p. if cp_id p = profile_id then p\<lparr>cp_expires := now\<rparr> else p) (pm_profiles s)\<rparr>
     | None \<Rightarrow> s)"

definition scramble_error :: "str \<Rightarrow> pm_error \<Rightarrow> pm_error" where
  "scramble_error dn e = Internal (''Failed to scramble password for DN '' @ [CHR 0x27] @ dn @ [CHR 0x27] @ '': '' @ show_pm_error e)"

definition checkin_checkout_inner ::
    "('id, 's) pm_env \<Rightarrow> 'id \<Rightarrow> 'id \<Rightarrow> ('id, 's) pm_state \<Rightarrow> (pm_error + unit) \<times> ('id, 's) pm_state" where
  "checkin_checkout_inner env checkout_id user s =
    and_do (ok_or (get_owned_by_user checkout_id user s) (NotFound ''Checkout request not found''), s) (\<lambda>req s.
      if cr_status req \<noteq> StActive
      then (Inl (Validation (''Only Active checkouts can be checked in, current status: '' @ [CHR 0x27] @ status_str (cr_status req)
              @ [CHR 0x27])), s)
      else
        and_do (ok_or (cr_config req) (Internal ''Checkout has no AD sync config''), s) (\<lambda>config_id s.
          let scramble_password = generate_password (pe_pick env) (load_policy config_id s) in
          and_do (find_config config_id s, s) (\<lambda>config s.
          and_do (pe_unseal_setting env (pm_raw_password config), s) (\<lambda>bind_pw s.
          and_do (case reset_in_ad env config bind_pw (cr_dn req) scramble_password True s of
                    (r, s') \<Rightarrow> (map_err (scramble_error (cr_dn req)) r, s')) (\<lambda>_ s.
            audit_log env (Some user) ''password_checkout.checked_in''
              (set_status checkout_id StCheckedIn (expire_profile (pe_now env) (cr_credential req) s)))))))"

definition checkin_checkout ::
    "('id, 's) pm_env \<Rightarrow> 'id \<Rightarrow> 'id \<Rightarrow> 'id \<Rightarrow> ('id, 's) pm_state \<Rightarrow> (pm_error + unit) \<times> ('id, 's) pm_state" where
  "checkin_checkout env operation_id checkout_id user s =
    and_do (checkout_dn checkout_id s, s) (\<lambda>dn s.
      with_account_lock env operation_id dn ''check-in'' (in_time \<circ> checkin_checkout_inner env checkout_id user) s)"

text \<open>
  Expiry replaces the password as well as it can: when the bind password cannot be decrypted the stored text is used, and
  a failure of the reset is only logged.
\<close>

definition expire_checkout_inner ::
    "('id, 's) pm_env \<Rightarrow> 'id \<Rightarrow> ('id, 's) pm_state \<Rightarrow> (pm_error + unit) \<times> ('id, 's) pm_state" where
  "expire_checkout_inner env checkout_id s =
    and_do (ok_or (get_by_id checkout_id s) (NotFound ''Checkout request not found''), s) (\<lambda>req s.
      if cr_status req \<noteq> StActive then (Inr (), s)
      else
        case cr_config req of
          None \<Rightarrow> (Inr (), set_status checkout_id StExpired s)
        | Some config_id \<Rightarrow>
            let orphan_password = generate_password (pe_pick env) (load_policy config_id s) in
            and_do (find_config config_id s, s) (\<lambda>config s.
              let raw_pw = pm_raw_password config;
                  bind_pw = (case pe_unseal_setting env raw_pw of Inr pw \<Rightarrow> pw | Inl _ \<Rightarrow> raw_pw);
                  s1 = snd (reset_in_ad env config bind_pw (cr_dn req) orphan_password True s)
              in audit_log env (Some (cr_requester req)) ''password_checkout.expired''
                   (set_status checkout_id StExpired (expire_profile (pe_now env) (cr_credential req) s1))))"

definition expire_checkout ::
    "('id, 's) pm_env \<Rightarrow> 'id \<Rightarrow> 'id \<Rightarrow> ('id, 's) pm_state \<Rightarrow> (pm_error + unit) \<times> ('id, 's) pm_state" where
  "expire_checkout env operation_id checkout_id s =
    and_do (checkout_dn checkout_id s, s) (\<lambda>dn s.
      with_account_lock env operation_id dn ''expiry'' (in_time \<circ> expire_checkout_inner env checkout_id) s)"

section \<open>The background scrub\<close>

definition overdue :: "int \<Rightarrow> ('id, 's) checkout_request \<Rightarrow> bool" where
  "overdue now r \<longleftrightarrow> cr_status r = StActive \<and> (case cr_expires r of Some t \<Rightarrow> t < now | None \<Rightarrow> False)"

definition stale_request :: "int \<Rightarrow> ('id, 's) checkout_request \<Rightarrow> bool" where
  "stale_request now r \<longleftrightarrow>
    (cr_status r = StApproved \<or> cr_status r = StPending) \<and> cr_created r + cr_duration r * 60 < now"

definition due_scheduled :: "int \<Rightarrow> ('id, 's) checkout_request \<Rightarrow> bool" where
  "due_scheduled now r \<longleftrightarrow> cr_status r = StScheduled \<and> (case cr_start r of Some t \<Rightarrow> t \<le> now | None \<Rightarrow> False)"

definition request_ids ::
    "(('id, 's) checkout_request \<Rightarrow> bool) \<Rightarrow> ('id, 's) pm_state \<Rightarrow> 'id list" where
  "request_ids P s = map cr_id (filter P (pm_requests s))"

text \<open>
  One round of the worker; \<open>ready\<close> says that the server runs with a database and a vault. Every operation it starts has an
  environment and an operation id of its own.
\<close>

definition run_expiration_scrub ::
    "bool \<Rightarrow> ('id \<Rightarrow> ('id, 's) pm_env) \<Rightarrow> ('id \<Rightarrow> 'id) \<Rightarrow> int \<Rightarrow> ('id, 's) pm_state \<Rightarrow> ('id, 's) pm_state" where
  "run_expiration_scrub ready envs op_ids now s =
    (if \<not> ready then s
     else
       let s1 = fold (\<lambda>c s. snd (expire_checkout (envs c) (op_ids c) c s)) (request_ids (overdue now) s) s;
           s2 = fold (\<lambda>c s. set_status c StExpired s) (request_ids (stale_request now) s1) s1
       in fold (\<lambda>c s. snd (activate_checkout (envs c) (op_ids c) c s)) (request_ids (due_scheduled now) s2) s2)"

section \<open>Rotation of the service account\<close>

text \<open>\<open>btrim\<close> of the database removes spaces only.\<close>

definition btrim :: "str \<Rightarrow> str" where
  "btrim s = rev (dropWhile (\<lambda>c. c = CHR '' '') (rev (dropWhile (\<lambda>c. c = CHR '' '') s)))"

definition same_account :: "('id, 's) pm_env \<Rightarrow> str \<Rightarrow> str \<Rightarrow> bool" where
  "same_account env dn other \<longleftrightarrow> pe_sql_lower env (btrim other) = pe_sql_lower env (btrim dn)"

definition pm_user_text :: "'id ad_config \<Rightarrow> str" where
  "pm_user_text c = (case cfg_pm_bind_user c of Some u \<Rightarrow> u | None \<Rightarrow> [])"

definition rotated_config :: "('id, 's) pm_env \<Rightarrow> 'id \<Rightarrow> str \<Rightarrow> bool \<Rightarrow> str \<Rightarrow> 'id ad_config \<Rightarrow> 'id ad_config" where
  "rotated_config env config_id dn pm_is_same sealed c =
    (if cfg_id c = config_id
     then c\<lparr>cfg_bind_password := sealed, cfg_pm_bind_password := (if pm_is_same then Some sealed else cfg_pm_bind_password c),
            cfg_last_rotated := Some (pe_now env)\<rparr>
     else
       c\<lparr>cfg_bind_password := (if same_account env dn (cfg_bind_dn c) then sealed else cfg_bind_password c),
         cfg_pm_bind_password := (if same_account env dn (pm_user_text c) then Some sealed else cfg_pm_bind_password c),
         cfg_last_rotated := (if same_account env dn (cfg_bind_dn c) then Some (pe_now env) else cfg_last_rotated c)\<rparr>)"

definition persist_rotated_password ::
    "('id, 's) pm_env \<Rightarrow> 'id \<Rightarrow> str \<Rightarrow> bool \<Rightarrow> str \<Rightarrow> ('id, 's) pm_state \<Rightarrow> str list \<times> ('id, 's) pm_state" where
  "persist_rotated_password env config_id dn pm_is_same sealed s =
    (map cfg_label (filter (\<lambda>c. cfg_id c \<noteq> config_id \<and> (same_account env dn (cfg_bind_dn c) \<or> same_account env dn (pm_user_text c)))
       (pm_configs s)),
     s\<lparr>pm_configs := map (rotated_config env config_id dn pm_is_same sealed) (pm_configs s)\<rparr>)"

definition auto_rotate_service_account_inner ::
    "('id, 's) pm_env \<Rightarrow> 'id \<Rightarrow> ('id, 's) pm_state \<Rightarrow> (pm_error + unit) \<times> ('id, 's) pm_state" where
  "auto_rotate_service_account_inner env config_id s =
    and_do (find_config config_id s, s) (\<lambda>config s.
      if \<not> cfg_auto_rotate config then (Inr (), s)
      else
        let new_password = generate_password (pe_pick env) (load_policy config_id s) in
        and_do (pe_unseal_setting env (pm_raw_password config), s) (\<lambda>bind_pw s.
        and_do (pe_seal_setting env new_password, s) (\<lambda>sealed s.
        and_do (reset_in_ad env config bind_pw (cfg_bind_dn config) new_password False s) (\<lambda>_ s.
          let pm_is_same = (case nonempty (cfg_pm_bind_user config) of
                              Some pm \<Rightarrow> eq_ignore_ascii_case pm (cfg_bind_dn config) | None \<Rightarrow> False)
          in audit_log env None ''password_management.auto_rotated''
               (snd (persist_rotated_password env config_id (cfg_bind_dn config) pm_is_same sealed s))))))"

definition auto_rotate_service_account ::
    "('id, 's) pm_env \<Rightarrow> 'id \<Rightarrow> 'id \<Rightarrow> ('id, 's) pm_state \<Rightarrow> (pm_error + unit) \<times> ('id, 's) pm_state" where
  "auto_rotate_service_account env operation_id config_id s =
    and_do (find_config config_id s, s) (\<lambda>config s.
      with_account_lock env operation_id (cfg_bind_dn config) ''rotation''
        (in_time \<circ> auto_rotate_service_account_inner env config_id) s)"

definition due_rotation :: "int \<Rightarrow> 'id ad_config \<Rightarrow> bool" where
  "due_rotation now c \<longleftrightarrow> cfg_pm_enabled c \<and> cfg_auto_rotate c
    \<and> (case cfg_last_rotated c of None \<Rightarrow> True | Some t \<Rightarrow> t < now - cfg_rotate_days c * 86400)"

definition run_auto_rotation ::
    "bool \<Rightarrow> ('id \<Rightarrow> ('id, 's) pm_env) \<Rightarrow> ('id \<Rightarrow> 'id) \<Rightarrow> int \<Rightarrow> ('id, 's) pm_state \<Rightarrow> ('id, 's) pm_state" where
  "run_auto_rotation ready envs op_ids now s =
    (if \<not> ready then s
     else fold (\<lambda>c s. snd (auto_rotate_service_account (envs c) (op_ids c) c s))
            (map cfg_id (filter (due_rotation now) (pm_configs s))) s)"

section \<open>Requests and approvers\<close>

definition find_mapping :: "'id \<Rightarrow> str \<Rightarrow> ('id, 's) pm_state \<Rightarrow> 'id account_mapping option" where
  "find_mapping user dn s = List.find (\<lambda>m. um_user m = user \<and> um_dn m = dn) (pm_mappings s)"

definition open_status :: "checkout_status \<Rightarrow> bool" where
  "open_status st \<longleftrightarrow> st \<in> {StPending, StApproved, StScheduled, StActive}"

definition has_open_checkout :: "'id \<Rightarrow> str \<Rightarrow> ('id, 's) pm_state \<Rightarrow> bool" where
  "has_open_checkout user dn s =
    list_ex (\<lambda>r. cr_requester r = user \<and> cr_dn r = dn \<and> open_status (cr_status r)) (pm_requests s)"

definition covering_role :: "str \<Rightarrow> bool \<Rightarrow> ('id, 's) pm_state \<Rightarrow> bool" where
  "covering_role dn allows s =
    list_ex (\<lambda>(role, d). d = dn \<and> list_ex (\<lambda>r. ar_id r = role \<and> ar_allow_bypass r = allows) (pm_roles s)) (pm_role_accounts s)"

definition emergency_bypass_allowed :: "'id option \<Rightarrow> str \<Rightarrow> ('id, 's) pm_state \<Rightarrow> bool" where
  "emergency_bypass_allowed config dn s =
    (case config of
       None \<Rightarrow> False
     | Some cfg \<Rightarrow>
         (case List.find (\<lambda>c. cfg_id c = cfg) (pm_configs s) of
            Some c \<Rightarrow> cfg_allow_bypass c \<and> covering_role dn True s \<and> \<not> covering_role dn False s
          | None \<Rightarrow> False))"

definition insert_request ::
    "int \<Rightarrow> 'id \<Rightarrow> 'id \<Rightarrow> str \<Rightarrow> 'id option \<Rightarrow> checkout_status \<Rightarrow> int \<Rightarrow> str \<Rightarrow> str option \<Rightarrow> bool \<Rightarrow> int option
      \<Rightarrow> ('id, 's) pm_state \<Rightarrow> ('id, 's) pm_state" where
  "insert_request now new_id requester dn config status duration justification friendly emergency start s =
    s\<lparr>pm_requests := \<lparr>cr_id = new_id, cr_requester = requester, cr_dn = dn, cr_config = config, cr_status = status,
        cr_duration = duration, cr_approved_by = None, cr_justification = justification, cr_expires = None,
        cr_credential = None, cr_created = now, cr_friendly_name = friendly, cr_emergency = emergency, cr_start = start,
        cr_reason = None, cr_pending = None\<rparr> # pm_requests s\<rparr>"

definition approver_role_ids :: "'id \<Rightarrow> ('id, 's) pm_state \<Rightarrow> 'id list" where
  "approver_role_ids user s = map snd (filter (\<lambda>a. fst a = user) (pm_assignments s))"

definition roles_cover_account :: "'id list \<Rightarrow> str \<Rightarrow> ('id, 's) pm_state \<Rightarrow> bool" where
  "roles_cover_account role_ids dn s = list_ex (\<lambda>(role, d). role \<in> set role_ids \<and> d = dn) (pm_role_accounts s)"

definition pending_for_roles :: "'id list \<Rightarrow> ('id, 's) pm_state \<Rightarrow> ('id, 's) checkout_request list" where
  "pending_for_roles role_ids s =
    take 200 (sort_key cr_created (filter (\<lambda>r. cr_status r = StPending \<and> roles_cover_account role_ids (cr_dn r) s) (pm_requests s)))"

definition approvers_for_account :: "str \<Rightarrow> ('id, 's) pm_state \<Rightarrow> 'id list" where
  "approvers_for_account dn s =
    remdups (map fst (filter (\<lambda>a. list_ex (\<lambda>(role, d). role = snd a \<and> d = dn) (pm_role_accounts s)) (pm_assignments s)))"

definition set_decision ::
    "'id \<Rightarrow> 'id \<Rightarrow> bool \<Rightarrow> str option \<Rightarrow> ('id, 's) pm_state \<Rightarrow> ('id, 's) pm_state" where
  "set_decision checkout_id approver approved reason s =
    update_request checkout_id
      (\<lambda>r. r\<lparr>cr_status := (if approved then StApproved else StDenied), cr_approved_by := Some approver, cr_reason := reason\<rparr>) s"

definition finished :: "int \<Rightarrow> ('id, 's) checkout_request \<Rightarrow> bool" where
  "finished now r \<longleftrightarrow> cr_status r \<in> {StExpired, StDenied, StCheckedIn} \<or> stale_request now r \<or> overdue now r"

definition list_for_user :: "int \<Rightarrow> 'id \<Rightarrow> ('id, 's) pm_state \<Rightarrow> ('id, 's) checkout_request list" where
  "list_for_user now user s =
    (let mine = filter (\<lambda>r. cr_requester r = user) (pm_requests s);
         newest = (\<lambda>rs. sort_key (\<lambda>r. - cr_created r) rs)
     in newest (filter (\<lambda>r. \<not> finished now r) mine @ take 5 (newest (filter (finished now) mine))))"

section \<open>Administration\<close>

definition upsert_account_mapping ::
    "'id \<Rightarrow> 'id \<Rightarrow> str \<Rightarrow> bool \<Rightarrow> 'id option \<Rightarrow> str option \<Rightarrow> ('id, 's) pm_state \<Rightarrow> 'id \<times> ('id, 's) pm_state" where
  "upsert_account_mapping new_id user dn self_approve config friendly s =
    (case find_mapping user dn s of
       Some m \<Rightarrow>
         (um_id m,
          s\<lparr>pm_mappings := map (\<lambda>m. if um_user m = user \<and> um_dn m = dn
              then m\<lparr>um_self_approve := self_approve, um_config := config, um_friendly_name := friendly\<rparr> else m) (pm_mappings s)\<rparr>)
     | None \<Rightarrow>
         (new_id,
          s\<lparr>pm_mappings := \<lparr>um_id = new_id, um_user = user, um_dn = dn, um_self_approve = self_approve, um_config = config,
              um_friendly_name = friendly\<rparr> # pm_mappings s\<rparr>))"

definition delete_account_mapping :: "'id \<Rightarrow> ('id, 's) pm_state \<Rightarrow> ('id, 's) pm_state" where
  "delete_account_mapping mapping_id s = s\<lparr>pm_mappings := filter (\<lambda>m. um_id m \<noteq> mapping_id) (pm_mappings s)\<rparr>"

definition update_account_mapping ::
    "'id \<Rightarrow> bool option \<Rightarrow> str option \<Rightarrow> ('id, 's) pm_state \<Rightarrow> bool \<times> ('id, 's) pm_state" where
  "update_account_mapping mapping_id self_approve friendly s =
    (list_ex (\<lambda>m. um_id m = mapping_id) (pm_mappings s),
     s\<lparr>pm_mappings := map (\<lambda>m. if um_id m = mapping_id
         then m\<lparr>um_self_approve := (case self_approve of Some b \<Rightarrow> b | None \<Rightarrow> um_self_approve m),
                um_friendly_name := (case friendly of Some f \<Rightarrow> Some f | None \<Rightarrow> um_friendly_name m)\<rparr> else m) (pm_mappings s)\<rparr>)"

definition set_role_assignments :: "'id \<Rightarrow> 'id list \<Rightarrow> ('id, 's) pm_state \<Rightarrow> ('id, 's) pm_state" where
  "set_role_assignments role users s =
    s\<lparr>pm_assignments := filter (\<lambda>a. snd a \<noteq> role) (pm_assignments s) @ map (\<lambda>u. (u, role)) (remdups users)\<rparr>"

definition set_role_accounts :: "'id \<Rightarrow> str list \<Rightarrow> ('id, 's) pm_state \<Rightarrow> ('id, 's) pm_state" where
  "set_role_accounts role dns s =
    s\<lparr>pm_role_accounts := filter (\<lambda>a. fst a \<noteq> role) (pm_role_accounts s)
        @ map (\<lambda>d. (role, d)) (remdups (filter (\<lambda>d. d \<noteq> []) dns))\<rparr>"

definition update_approval_role_bypass :: "'id \<Rightarrow> bool \<Rightarrow> ('id, 's) pm_state \<Rightarrow> ('id, 's) pm_state" where
  "update_approval_role_bypass role allow s =
    s\<lparr>pm_roles := map (\<lambda>r. if ar_id r = role then r\<lparr>ar_allow_bypass := allow\<rparr> else r) (pm_roles s)\<rparr>"

end
