(* ===== verification/Checkout_Routes.thy ===== *)
theory Checkout_Routes
  imports Checkouts
begin

text \<open>
  The request handlers for check-outs, \<open>backend/src/routes/user.rs\<close>. The server's configuration holds a vault or none
  (\<open>vault\<close>); notifications, which are sent in the background and change nothing, are left out. A handler's answer is the
  status it reports, with the text of the activation error when there is one.
\<close>

section \<open>Requesting\<close>

record checkout_body =
  rb_dn :: str
  rb_duration :: "int option"
  rb_justification :: "str option"
  rb_bypass :: "bool option"
  rb_start :: "int option"

definition clamp :: "int \<Rightarrow> int \<Rightarrow> int \<Rightarrow> int" where
  "clamp lo hi x = max lo (min hi x)"

definition justified :: "checkout_body \<Rightarrow> bool" where
  "justified body \<longleftrightarrow> length (trim (case rb_justification body of Some t \<Rightarrow> t | None \<Rightarrow> [])) \<ge> 10"

text \<open>
  Status, duration and start the request is inserted with. The emergency bypass is a no-op for those who may approve
  themselves; for others it needs a justification and the permission of every covering role, and caps the duration.
\<close>

definition initial_state ::
    "int \<Rightarrow> 'id account_mapping \<Rightarrow> checkout_body \<Rightarrow> ('id, 's) pm_state \<Rightarrow> pm_error + checkout_status \<times> int \<times> int option" where
  "initial_state now mapping body s =
    (let self = um_self_approve mapping;
         duration = clamp 1 720 (case rb_duration body of Some d \<Rightarrow> d | None \<Rightarrow> 60);
         bypass = (rb_bypass body = Some True)
     in if \<not> self \<and> \<not> justified body
        then Inl (Validation ''A justification of at least 10 characters is required for approval-required checkouts'')
        else
          and_then
            (if bypass \<and> \<not> self then
               if \<not> justified body
               then Inl (Validation ''Emergency Approval Bypass requires a justification of at least 10 characters'')
               else if \<not> emergency_bypass_allowed (um_config mapping) (um_dn mapping) s then Inl Forbidden
               else Inr (StApproved, min duration 30)
             else Inr (if self then StApproved else StPending, duration))
            (\<lambda>(status, duration).
               let start = (case rb_start body of Some ts \<Rightarrow> if ts > now + 30 then Some ts else None | None \<Rightarrow> None) in
               if (case start of Some ts \<Rightarrow> ts > now + 14 * 86400 | None \<Rightarrow> False)
               then Inl (Validation ''Scheduled start time cannot be more than 14 days in the future'')
               else Inr (if start \<noteq> None \<and> status = StApproved \<and> (\<not> bypass \<or> self) then StScheduled else status,
                         duration, start)))"

type_synonym 'id checkout_answer = "'id \<times> checkout_status \<times> str option"

text \<open>The part of the handler up to the insertion: the guards, in the order of the code, and the row.\<close>

definition request_insert ::
    "('id, 's) pm_env \<Rightarrow> 'id \<Rightarrow> 'id \<Rightarrow> checkout_body \<Rightarrow> ('id, 's) pm_state \<Rightarrow> (pm_error + checkout_status) \<times> ('id, 's) pm_state" where
  "request_insert env new_id user body s =
    (let dn = trim (rb_dn body) in
     if dn = [] then (Inl (Validation ''managed_ad_dn is required''), s)
     else
       and_do (ok_or (find_mapping user dn s) Forbidden, s) (\<lambda>mapping s.
         if has_open_checkout user dn s
         then (Inl (Validation ''You already have a pending or active checkout for this account''), s)
         else
           and_do (initial_state (pe_now env) mapping body s, s) (\<lambda>(status, duration, start) s.
             let bypass = (rb_bypass body = Some True \<and> \<not> um_self_approve mapping);
                 s1 = insert_request (pe_now env) new_id user dn (um_config mapping) status duration
                        (case rb_justification body of Some t \<Rightarrow> t | None \<Rightarrow> []) (um_friendly_name mapping)
                        (bypass \<and> status = StApproved) start s
             in and_do (audit_log env (Some user) (if bypass then ''checkout.emergency_bypass'' else ''checkout.requested'') s1)
                  (\<lambda>_ s. (Inr status, s)))))"

definition activation_answer :: "'id \<Rightarrow> (pm_error + unit) \<times> ('id, 's) pm_state \<Rightarrow> (pm_error + 'id checkout_answer) \<times> ('id, 's) pm_state" where
  "activation_answer checkout_id p =
    (case p of
       (Inr _, s) \<Rightarrow> (Inr (checkout_id, StActive, None), s)
     | (Inl e, s) \<Rightarrow> (Inr (checkout_id, StApproved, Some (show_pm_error e)), s))"

definition request_checkout ::
    "('id, 's) pm_env \<Rightarrow> bool \<Rightarrow> 'id \<Rightarrow> 'id \<Rightarrow> 'id \<Rightarrow> checkout_body \<Rightarrow> ('id, 's) pm_state
      \<Rightarrow> (pm_error + 'id checkout_answer) \<times> ('id, 's) pm_state" where
  "request_checkout env vault operation_id new_id user body s =
    and_do (request_insert env new_id user body s) (\<lambda>status s.
      if status = StApproved \<and> vault then activation_answer new_id (activate_checkout env operation_id new_id s)
      else (Inr (new_id, status, None), s))"

section \<open>Deciding\<close>

definition normal_reason :: "str option \<Rightarrow> str option" where
  "normal_reason reason = nonempty (map_option trim reason)"

text \<open>What is checked before the decision is written. The code reads the row here and updates it in a later statement.\<close>

definition decide_check ::
    "'id \<Rightarrow> 'id \<Rightarrow> bool \<Rightarrow> str option \<Rightarrow> ('id, 's) pm_state \<Rightarrow> pm_error + str option" where
  "decide_check user checkout_id approved raw_reason s =
    (let role_ids = approver_role_ids user s in
     if role_ids = [] then Inl Forbidden
     else
       and_then (ok_or (get_by_id checkout_id s) (NotFound ''Checkout request not found'')) (\<lambda>checkout.
         let reason = normal_reason raw_reason in
         if cr_status checkout \<noteq> StPending
         then Inl (Validation (''Cannot change status from '' @ [CHR 0x27] @ status_str (cr_status checkout) @ [CHR 0x27]))
         else if (case reason of Some r \<Rightarrow> chars_count r > 1024 | None \<Rightarrow> False)
         then Inl (Validation ''Decision reason must be 1024 characters or fewer'')
         else if \<not> approved \<and> reason = None
         then Inl (Validation ''A reason is required when denying a checkout request'')
         else if \<not> roles_cover_account role_ids (cr_dn checkout) s then Inl Forbidden
         else Inr reason))"

definition decide_commit ::
    "('id, 's) pm_env \<Rightarrow> bool \<Rightarrow> 'id \<Rightarrow> 'id \<Rightarrow> 'id \<Rightarrow> bool \<Rightarrow> str option \<Rightarrow> ('id, 's) pm_state
      \<Rightarrow> (pm_error + 'id checkout_answer) \<times> ('id, 's) pm_state" where
  "decide_commit env vault operation_id user checkout_id approved reason s =
    and_do (audit_log env (Some user) (if approved then ''checkout.approved'' else ''checkout.denied'')
              (set_decision checkout_id user approved reason s)) (\<lambda>_ s1.
      if approved then
        if vault then activation_answer checkout_id (activate_checkout env operation_id checkout_id s1)
        else (Inr (checkout_id, StApproved, None), s1)
      else (Inr (checkout_id, StDenied, None), s1))"

definition decide_checkout ::
    "('id, 's) pm_env \<Rightarrow> bool \<Rightarrow> 'id \<Rightarrow> 'id \<Rightarrow> 'id \<Rightarrow> bool \<Rightarrow> str option \<Rightarrow> ('id, 's) pm_state
      \<Rightarrow> (pm_error + 'id checkout_answer) \<times> ('id, 's) pm_state" where
  "decide_checkout env vault operation_id user checkout_id approved raw_reason s =
    and_do (decide_check user checkout_id approved raw_reason s, s) (\<lambda>reason s.
      decide_commit env vault operation_id user checkout_id approved reason s)"

definition pending_approvals :: "'id \<Rightarrow> ('id, 's) pm_state \<Rightarrow> ('id, 's) checkout_request list" where
  "pending_approvals user s =
    (let role_ids = approver_role_ids user s in if role_ids = [] then [] else pending_for_roles role_ids s)"

section \<open>Revealing, retrying and checking in\<close>

definition get_sealed :: "'id \<Rightarrow> ('id, 's) pm_state \<Rightarrow> 's option" where
  "get_sealed profile_id s = map_option cp_sealed (List.find (\<lambda>p. cp_id p = profile_id) (pm_profiles s))"

definition reveal_checkout_password ::
    "('id, 's) pm_env \<Rightarrow> bool \<Rightarrow> 'id \<Rightarrow> 'id \<Rightarrow> ('id, 's) pm_state \<Rightarrow> (pm_error + str \<times> int option) \<times> ('id, 's) pm_state" where
  "reveal_checkout_password env vault user checkout_id s =
    and_do (ok_or (get_owned_by_user checkout_id user s) (NotFound ''Checkout not found''), s) (\<lambda>checkout s.
      if cr_status checkout \<noteq> StActive then (Inl (Validation ''Password can only be revealed for active checkouts''), s)
      else
        and_do (ok_or (cr_credential checkout) (Internal ''No credential stored for this checkout''), s) (\<lambda>cred s.
          if \<not> vault then (Inl (Internal ''Vault not configured''), s)
          else
            and_do (ok_or (get_sealed cred s) (Internal ''Credential profile not found''), s) (\<lambda>sealed s.
            and_do (pe_unseal env sealed, s) (\<lambda>plaintext s.
            and_do (audit_log env (Some user) ''checkout.password_revealed'' s) (\<lambda>_ s.
              (Inr (pe_payload_password env plaintext, cr_expires checkout), s))))))"

text \<open>The body of the retry handler; the idempotency key around it is that of \<open>Idempotency\<close>.\<close>

definition retry_checkout_activation ::
    "('id, 's) pm_env \<Rightarrow> bool \<Rightarrow> 'id \<Rightarrow> 'id \<Rightarrow> 'id \<Rightarrow> ('id, 's) pm_state \<Rightarrow> (pm_error + checkout_status) \<times> ('id, 's) pm_state" where
  "retry_checkout_activation env vault operation_id user checkout_id s =
    and_do (ok_or (get_owned_by_user checkout_id user s) (NotFound ''Checkout not found''), s) (\<lambda>checkout s.
      if cr_status checkout \<noteq> StApproved
      then (Inl (Validation (''Only Approved checkouts can be retried, current status: '' @ [CHR 0x27]
              @ status_str (cr_status checkout) @ [CHR 0x27])), s)
      else if \<not> vault then (Inl (Internal ''Vault not configured''), s)
      else
        and_do (case activate_checkout env operation_id checkout_id s of
                  (r, s') \<Rightarrow> (map_err (\<lambda>e. Validation (''Activation failed: '' @ show_pm_error e)) r, s')) (\<lambda>_ s.
        and_do (audit_log env (Some user) ''checkout.retry_activation'' s) (\<lambda>_ s. (Inr StActive, s))))"

definition checkin_route ::
    "('id, 's) pm_env \<Rightarrow> bool \<Rightarrow> 'id \<Rightarrow> 'id \<Rightarrow> 'id \<Rightarrow> ('id, 's) pm_state \<Rightarrow> (pm_error + checkout_status) \<times> ('id, 's) pm_state" where
  "checkin_route env vault operation_id user checkout_id s =
    (if \<not> vault then (Inl (Internal ''Vault not configured''), s)
     else
       and_do (checkin_checkout env operation_id checkout_id user s) (\<lambda>_ s.
       and_do (audit_log env (Some user) ''checkout.checkin'' s) (\<lambda>_ s. (Inr StCheckedIn, s))))"

end
