(* ===== verification/Checkout_Safety.thy ===== *)
theory Checkout_Safety
  imports Checkout_Routes
begin

text \<open>
  Check-outs over time. Handlers and workers run concurrently, on several servers over one database, and between two
  statements of an operation anything may happen. The step relation below cuts every operation where the code awaits: the
  claim of the account lock, each read, each write and each call to the directory are steps of their own, an operation may
  fail, time out or crash anywhere, and decisions and the marking of stale requests read the row in one step and write it in
  a later one, without a lock, as the code does. Administrators may change mappings, roles and directory settings at any time.
\<close>

section \<open>Operations in steps\<close>

datatype 'id op_kind = Activation | CheckIn 'id | Expiry

datatype ('id, 's) op_phase =
  Begun
| Planned "('id, 's) checkout_request" 'id
| Cleared "('id, 's) checkout_request" 'id
| Working "('id, 's) checkout_request" 'id str
| ResetDone "('id, 's) checkout_request" str str
| Stored "('id, 's) checkout_request" 'id
| Over

record ('id, 's) operation =
  op_kind :: "'id op_kind"
  op_checkout :: 'id
  op_until :: int
  op_phase :: "('id, 's) op_phase"

record ('id, 's) pm_sys =
  sys_db :: "('id, 's) pm_state"
  sys_ops :: "('id, ('id, 's) operation) hmap"
  sys_clock :: int
  sys_decisions :: "('id \<times> 'id \<times> bool \<times> str option) list"
  sys_stale :: "'id list"

inductive op_moves ::
    "('id, 's) pm_env \<Rightarrow> 'id op_kind \<Rightarrow> 'id \<Rightarrow> ('id, 's) op_phase \<Rightarrow> ('id, 's) pm_state \<Rightarrow> ('id, 's) op_phase \<Rightarrow> ('id, 's) pm_state \<Rightarrow> bool"
  for env where
  plan: "activation_read c db = Inr (Proceed req cfg) \<Longrightarrow> op_moves env Activation c Begun db (Planned req cfg) db"
| clear: "check_exclusive env c (cr_dn req) db = Inr () \<Longrightarrow>
    op_moves env Activation c (Planned req cfg) db (Cleared req cfg) db"
| pend: "pw = generate_password (pe_pick env) (load_policy cfg db) \<Longrightarrow> pe_seal env (as_bytes pw) = Inr sealed \<Longrightarrow>
    op_moves env Activation c (Cleared req cfg) db (Working req cfg pw) (record_pending c sealed db)"
| reset: "find_config cfg db = Inr config \<Longrightarrow> pe_unseal_setting env (pm_raw_password config) = Inr bind_pw \<Longrightarrow>
    reset_in_ad env config bind_pw (cr_dn req) pw False db = (Inr sam, db') \<Longrightarrow>
    op_moves env Activation c (Working req cfg pw) db (ResetDone req pw sam) db'"
| reset_fails: "find_config cfg db = Inr config \<Longrightarrow> pe_unseal_setting env (pm_raw_password config) = Inr bind_pw \<Longrightarrow>
    reset_in_ad env config bind_pw (cr_dn req) pw False db = (Inl e, db') \<Longrightarrow>
    op_moves env Activation c (Working req cfg pw) db Over db'"
| store: "seal_managed_credential env (cr_requester req) (cr_dn req) sam pw (cr_duration req) db = (Inr profile, db') \<Longrightarrow>
    op_moves env Activation c (ResetDone req pw sam) db (Stored req profile) db'"
| commit: "op_moves env Activation c (Stored req profile) db Over
    (snd (audit_log env (Some (cr_requester req)) ''password_checkout.activated'' (commit_activation env req profile db)))"
| checkin_plan: "get_owned_by_user c user db = Some req \<Longrightarrow> cr_status req = StActive \<Longrightarrow> cr_config req = Some cfg \<Longrightarrow>
    op_moves env (CheckIn user) c Begun db (Planned req cfg) db"
| checkin_reset: "pw = generate_password (pe_pick env) (load_policy cfg db) \<Longrightarrow> find_config cfg db = Inr config \<Longrightarrow>
    pe_unseal_setting env (pm_raw_password config) = Inr bind_pw \<Longrightarrow>
    reset_in_ad env config bind_pw (cr_dn req) pw True db = (Inr sam, db') \<Longrightarrow>
    op_moves env (CheckIn user) c (Planned req cfg) db (ResetDone req pw sam) db'"
| checkin_commit: "op_moves env (CheckIn user) c (ResetDone req pw sam) db Over
    (snd (audit_log env (Some user) ''password_checkout.checked_in''
      (set_status c StCheckedIn (expire_profile (pe_now env) (cr_credential req) db))))"
| expire_plan: "get_by_id c db = Some req \<Longrightarrow> cr_status req = StActive \<Longrightarrow> cr_config req = Some cfg \<Longrightarrow>
    op_moves env Expiry c Begun db (Planned req cfg) db"
| expire_plain: "get_by_id c db = Some req \<Longrightarrow> cr_status req = StActive \<Longrightarrow> cr_config req = None \<Longrightarrow>
    op_moves env Expiry c Begun db Over (set_status c StExpired db)"
| expire_reset: "pw = generate_password (pe_pick env) (load_policy cfg db) \<Longrightarrow> find_config cfg db = Inr config \<Longrightarrow>
    reset_in_ad env config bind_pw (cr_dn req) pw True db = (r, db') \<Longrightarrow>
    op_moves env Expiry c (Planned req cfg) db (ResetDone req pw sam) db'"
| expire_commit: "op_moves env Expiry c (ResetDone req pw sam) db Over
    (snd (audit_log env (Some (cr_requester req)) ''password_checkout.expired''
      (set_status c StExpired (expire_profile (pe_now env) (cr_credential req) db))))"

inductive_cases op_movesE: "op_moves env k c ph db ph' db'"

text \<open>
  The environment of a step: the clock of the system and one way of lower-casing in Rust. The database may lower-case otherwise, as long
  as it identifies the names that Rust identifies.
\<close>

definition identifies :: "(str \<Rightarrow> str) \<Rightarrow> (str \<Rightarrow> str) \<Rightarrow> bool" where
  "identifies M L \<longleftrightarrow> (\<forall>a b. L a = L b \<longrightarrow> M a = M b)"

definition env_at :: "(str \<Rightarrow> str) \<Rightarrow> ('id, 's) pm_sys \<Rightarrow> ('id, 's) pm_env \<Rightarrow> bool" where
  "env_at L y env \<longleftrightarrow> pe_lower env = L \<and> identifies (pe_sql_lower env) L \<and> pe_now env = sys_clock y"

inductive pm_step :: "(str \<Rightarrow> str) \<Rightarrow> ('id, 's) pm_sys \<Rightarrow> ('id, 's) pm_sys \<Rightarrow> bool" for L where
  tick: "sys_clock y \<le> t \<Longrightarrow> pm_step L y (y\<lparr>sys_clock := t\<rparr>)"
| request: "env_at L y env \<Longrightarrow> new_id \<notin> cr_id ` set (pm_requests (sys_db y)) \<Longrightarrow>
    request_insert env new_id user body (sys_db y) = (r, db') \<Longrightarrow> pm_step L y (y\<lparr>sys_db := db'\<rparr>)"
| decide_read: "decide_check user c approved raw (sys_db y) = Inr reason \<Longrightarrow>
    pm_step L y (y\<lparr>sys_decisions := (user, c, approved, reason) # sys_decisions y\<rparr>)"
| decide_write: "(user, c, approved, reason) \<in> set (sys_decisions y) \<Longrightarrow> env_at L y env \<Longrightarrow>
    pm_step L y (y\<lparr>sys_decisions := remove1 (user, c, approved, reason) (sys_decisions y),
      sys_db := snd (audit_log env (Some user) (if approved then ''checkout.approved'' else ''checkout.denied'')
                  (set_decision c user approved reason (sys_db y)))\<rparr>)"
| stale_read: "pm_step L y (y\<lparr>sys_stale := request_ids (stale_request (sys_clock y)) (sys_db y) @ sys_stale y\<rparr>)"
| stale_write: "c \<in> set (sys_stale y) \<Longrightarrow>
    pm_step L y (y\<lparr>sys_stale := remove1 c (sys_stale y), sys_db := set_status c StExpired (sys_db y)\<rparr>)"
| begin_op: "checkout_dn c (sys_db y) = Inr dn \<Longrightarrow> hm_get x (sys_ops y) = None \<Longrightarrow>
    claim_lock (sys_clock y) (L (trim dn)) x name (sys_db y) = Some db' \<Longrightarrow>
    pm_step L y (y\<lparr>sys_db := db', sys_ops := hm_insert x \<lparr>op_kind = k, op_checkout = c,
      op_until = sys_clock y + OPERATION_DEADLINE, op_phase = Begun\<rparr> (sys_ops y)\<rparr>)"
| work: "hm_get x (sys_ops y) = Some p \<Longrightarrow> sys_clock y \<le> op_until p \<Longrightarrow> env_at L y env \<Longrightarrow>
    op_moves env (op_kind p) (op_checkout p) (op_phase p) (sys_db y) ph' db' \<Longrightarrow>
    pm_step L y (y\<lparr>sys_db := db', sys_ops := hm_insert x (p\<lparr>op_phase := ph'\<rparr>) (sys_ops y)\<rparr>)"
| end_op: "hm_get x (sys_ops y) = Some p \<Longrightarrow> checkout_dn (op_checkout p) (sys_db y) = Inr dn \<Longrightarrow>
    pm_step L y (y\<lparr>sys_db := release_lock (L (trim dn)) x (sys_db y), sys_ops := hm_remove x (sys_ops y)\<rparr>)"
| crash: "pm_step L y (y\<lparr>sys_ops := hm_remove x (sys_ops y)\<rparr>)"
| admin: "pm_requests db' = pm_requests (sys_db y) \<Longrightarrow> pm_locks db' = pm_locks (sys_db y) \<Longrightarrow> pm_step L y (y\<lparr>sys_db := db'\<rparr>)"

inductive pm_reach :: "(str \<Rightarrow> str) \<Rightarrow> ('id, 's) pm_sys \<Rightarrow> ('id, 's) pm_sys \<Rightarrow> bool" for L y where
  start: "pm_reach L y y"
| step: "pm_reach L y z \<Longrightarrow> pm_step L z z' \<Longrightarrow> pm_reach L y z'"

section \<open>Rows and locks\<close>

definition row_keys :: "('id, 's) pm_state \<Rightarrow> ('id \<times> str) list" where
  "row_keys db = map (\<lambda>r. (cr_id r, cr_dn r)) (pm_requests db)"

definition row_dn :: "('id, 's) pm_state \<Rightarrow> 'id \<Rightarrow> str \<Rightarrow> bool" where
  "row_dn db c d \<longleftrightarrow> (c, d) \<in> set (row_keys db)"

lemma get_by_id_in: "get_by_id c db = Some r \<Longrightarrow> r \<in> set (pm_requests db) \<and> cr_id r = c"
  unfolding get_by_id_def by (metis (mono_tags, lifting) find_Some_iff nth_mem)

lemma get_by_id_None: "get_by_id c db = None \<Longrightarrow> r \<in> set (pm_requests db) \<Longrightarrow> cr_id r \<noteq> c"
  by (auto simp: get_by_id_def find_None_iff)

lemma row_dnI [intro]: "r \<in> set (pm_requests db) \<Longrightarrow> row_dn db (cr_id r) (cr_dn r)"
  by (auto simp: row_dn_def row_keys_def)

definition active_at :: "(str \<Rightarrow> str) \<Rightarrow> ('id, 's) pm_state \<Rightarrow> str \<Rightarrow> 'id \<Rightarrow> bool" where
  "active_at L db a c \<longleftrightarrow> (\<exists>r \<in> set (pm_requests db). cr_status r = StActive \<and> L (cr_dn r) = a \<and> cr_id r = c)"

text \<open>A change of the database that neither adds rows, nor activates one, nor touches the locks.\<close>

definition rows_calm :: "(str \<Rightarrow> str) \<Rightarrow> ('id, 's) pm_state \<Rightarrow> ('id, 's) pm_state \<Rightarrow> bool" where
  "rows_calm L db db' \<longleftrightarrow> row_keys db' = row_keys db \<and> (\<forall>a c. active_at L db' a c \<longrightarrow> active_at L db a c) \<and> pm_locks db' = pm_locks db"

lemma calm_refl [simp]: "rows_calm L db db"
  by (simp add: rows_calm_def)

lemma calm_trans: "rows_calm L db db1 \<Longrightarrow> rows_calm L db1 db2 \<Longrightarrow> rows_calm L db db2"
  by (auto simp: rows_calm_def)

lemma calm_requests: "pm_requests db' = pm_requests db \<Longrightarrow> pm_locks db' = pm_locks db \<Longrightarrow> rows_calm L db db'"
  by (auto simp: rows_calm_def row_keys_def active_at_def)

lemma row_keys_update:
  "(\<And>r. cr_id (f r) = cr_id r) \<Longrightarrow> (\<And>r. cr_dn (f r) = cr_dn r) \<Longrightarrow> row_keys (update_request c f db) = row_keys db"
  by (simp add: row_keys_def update_request_def)

lemma active_update:
  "active_at L (update_request c f db) a c' \<longleftrightarrow>
    (\<exists>r \<in> set (pm_requests db). let r' = (if cr_id r = c then f r else r) in
       cr_status r' = StActive \<and> L (cr_dn r') = a \<and> cr_id r' = c')"
  by (auto simp: active_at_def update_request_def Let_def)

lemma calm_update:
  assumes "\<And>r. cr_id (f r) = cr_id r" "\<And>r. cr_dn (f r) = cr_dn r"
    and "\<And>r. cr_status (f r) = StActive \<Longrightarrow> cr_status r = StActive"
  shows "rows_calm L db (update_request c f db)"
proof -
  have "active_at L db a c'" if "active_at L (update_request c f db) a c'" for a c'
  proof -
    from that obtain r where "r \<in> set (pm_requests db)"
      and "cr_status (if cr_id r = c then f r else r) = StActive"
      and "L (cr_dn (if cr_id r = c then f r else r)) = a" "cr_id (if cr_id r = c then f r else r) = c'"
      unfolding active_update Let_def by blast
    then have "cr_status r = StActive" "L (cr_dn r) = a" "cr_id r = c'"
      using assms by (metis (full_types))+
    with \<open>r \<in> set (pm_requests db)\<close> show ?thesis by (auto simp: active_at_def)
  qed
  then show ?thesis using row_keys_update [OF assms(1,2)] by (simp add: rows_calm_def update_request_def)
qed

lemma audit_fields [simp]:
  "pm_requests (snd (audit_log env u a s)) = pm_requests s" "pm_locks (snd (audit_log env u a s)) = pm_locks s"
  "pm_profiles (snd (audit_log env u a s)) = pm_profiles s" "pm_ad (snd (audit_log env u a s)) = pm_ad s"
  "pm_configs (snd (audit_log env u a s)) = pm_configs s"
  by (simp_all add: audit_log_def split: option.split)

lemma calm_audit [simp]: "rows_calm L db (snd (audit_log env u a db))"
  by (rule calm_requests) simp_all

lemma calm_profile [simp]: "rows_calm L db (expire_profile now cred db)"
  by (rule calm_requests) (simp_all add: expire_profile_def split: option.split)

lemma calm_status [simp]: "st \<noteq> StActive \<Longrightarrow> rows_calm L db (set_status c st db)"
  unfolding set_status_def by (rule calm_update) simp_all

lemma calm_pending [simp]: "rows_calm L db (record_pending c sealed db)"
  unfolding record_pending_def by (rule calm_update) simp_all

lemma calm_decision [simp]: "rows_calm L db (set_decision c u approved reason db)"
  unfolding set_decision_def by (rule calm_update) (simp_all split: if_splits)

lemma calm_reset: "reset_in_ad env config pw dn new scramble db = (r, db') \<Longrightarrow> rows_calm L db db'"
  by (rule calm_requests) (auto simp: reset_in_ad_def split_def Let_def)

lemma calm_store: "seal_managed_credential env u dn sam pw d db = (r, db') \<Longrightarrow> rows_calm L db db'"
  by (rule calm_requests)
    (auto simp: seal_managed_credential_def Let_def split: sum.splits option.splits)

lemma row_keys_commit [simp]: "row_keys (commit_activation env req profile db) = row_keys db"
  by (simp add: commit_activation_def Let_def row_keys_def update_request_def)

lemma commit_locks [simp]: "pm_locks (commit_activation env req profile db) = pm_locks db"
  by (simp add: commit_activation_def Let_def update_request_def)

lemma commit_active:
  assumes "active_at L (commit_activation env req profile db) a c"
  shows "active_at L db a c \<or> c = cr_id req \<and> (\<exists>d. row_dn db c d \<and> L d = a)"
proof -
  from assms obtain r where r: "r \<in> set (pm_requests db)" "cr_id r = c" "L (cr_dn r) = a"
    and "cr_id r = cr_id req \<or> cr_status r = StActive"
    by (auto simp: active_at_def commit_activation_def Let_def update_request_def split: if_splits)
  then consider "c = cr_id req" | "cr_status r = StActive" by blast
  then show ?thesis
    using r row_dnI [OF r(1)] by cases (auto simp: active_at_def)
qed

definition commits :: "('id, 's) op_phase \<Rightarrow> bool" where
  "commits ph \<longleftrightarrow> (case ph of Stored _ _ \<Rightarrow> True | _ \<Rightarrow> False)"

lemma moves_calm:
  assumes "op_moves env k c ph db ph' db'" "\<not> commits ph"
  shows "rows_calm L db db'"
  using assms
proof (induction rule: op_moves.induct)
  case (checkin_commit user c req pw sam db)
  show ?case by (rule calm_trans [OF calm_trans [OF calm_profile calm_status] calm_audit]) simp
next
  case (expire_commit c req pw sam db)
  show ?case by (rule calm_trans [OF calm_trans [OF calm_profile calm_status] calm_audit]) simp
qed (auto simp: commits_def intro: calm_reset calm_store)

section \<open>The invariant\<close>

definition phase_request :: "('id, 's) op_phase \<Rightarrow> ('id, 's) checkout_request option" where
  "phase_request ph =
    (case ph of Planned req _ \<Rightarrow> Some req | Cleared req _ \<Rightarrow> Some req | Working req _ _ \<Rightarrow> Some req
     | ResetDone req _ _ \<Rightarrow> Some req | Stored req _ \<Rightarrow> Some req | _ \<Rightarrow> None)"

definition cleared :: "('id, 's) op_phase \<Rightarrow> bool" where
  "cleared ph \<longleftrightarrow> (case ph of Cleared _ _ \<Rightarrow> True | Working _ _ _ \<Rightarrow> True | ResetDone _ _ _ \<Rightarrow> True | Stored _ _ \<Rightarrow> True | _ \<Rightarrow> False)"

definition live :: "('id, 's) pm_sys \<Rightarrow> 'id \<Rightarrow> ('id, 's) operation \<Rightarrow> bool" where
  "live y x p \<longleftrightarrow> hm_get x (sys_ops y) = Some p \<and> sys_clock y \<le> op_until p"

definition holds_lock :: "(str \<Rightarrow> str) \<Rightarrow> ('id, 's) pm_state \<Rightarrow> str \<Rightarrow> 'id \<Rightarrow> int \<Rightarrow> bool" where
  "holds_lock L db d x t \<longleftrightarrow> (\<exists>name until. hm_get (L d) (pm_locks db) = Some (x, name, until) \<and> t \<le> until)"

definition rows_ok :: "('id, 's) pm_state \<Rightarrow> bool" where
  "rows_ok db \<longleftrightarrow> distinct (map fst (row_keys db)) \<and> (\<forall>c d. row_dn db c d \<longrightarrow> trim d = d)"

definition exclusive :: "(str \<Rightarrow> str) \<Rightarrow> ('id, 's) pm_state \<Rightarrow> bool" where
  "exclusive L db \<longleftrightarrow> (\<forall>a c c'. active_at L db a c \<longrightarrow> active_at L db a c' \<longrightarrow> c = c')"

definition op_ok :: "(str \<Rightarrow> str) \<Rightarrow> ('id, 's) pm_state \<Rightarrow> 'id \<Rightarrow> ('id, 's) operation \<Rightarrow> bool" where
  "op_ok L db x p \<longleftrightarrow>
    (\<exists>d. row_dn db (op_checkout p) d \<and> holds_lock L db d x (op_until p)
       \<and> (op_kind p = Activation \<and> cleared (op_phase p) \<longrightarrow> (\<forall>c. active_at L db (L d) c \<longrightarrow> c = op_checkout p)))
  \<and> (\<forall>req. phase_request (op_phase p) = Some req \<longrightarrow> cr_id req = op_checkout p \<and> row_dn db (op_checkout p) (cr_dn req))"

definition pm_inv :: "(str \<Rightarrow> str) \<Rightarrow> ('id, 's) pm_sys \<Rightarrow> bool" where
  "pm_inv L y \<longleftrightarrow> rows_ok (sys_db y) \<and> exclusive L (sys_db y) \<and> (\<forall>x p. live y x p \<longrightarrow> op_ok L (sys_db y) x p)"

lemma rows_unique: "rows_ok db \<Longrightarrow> row_dn db c d \<Longrightarrow> row_dn db c d' \<Longrightarrow> d = d'"
  unfolding rows_ok_def row_dn_def by (metis eq_key_imp_eq_value)

lemma lock_unique: "holds_lock L db d x t \<Longrightarrow> holds_lock L db d' x' t' \<Longrightarrow> L d = L d' \<Longrightarrow> x = x'"
  by (auto simp: holds_lock_def)

lemma calm_op_ok:
  assumes "rows_calm L db db'" "op_ok L db x p" shows "op_ok L db' x p"
proof -
  have row: "row_dn db' = row_dn db" using assms(1) by (simp add: rows_calm_def row_dn_def fun_eq_iff)
  have lock: "holds_lock L db' = holds_lock L db" using assms(1) by (simp add: rows_calm_def holds_lock_def fun_eq_iff)
  show ?thesis
    using assms unfolding op_ok_def row lock by (auto simp: rows_calm_def)
qed

lemma calm_inv:
  assumes "rows_calm L (sys_db y) db'" "pm_inv L y"
  shows "pm_inv L (y\<lparr>sys_db := db'\<rparr>)"
proof -
  have "rows_ok db'" using assms by (auto simp: pm_inv_def rows_ok_def rows_calm_def row_dn_def)
  moreover have "exclusive L db'" using assms unfolding pm_inv_def exclusive_def rows_calm_def by meson
  moreover have "op_ok L db' x p" if "live (y\<lparr>sys_db := db'\<rparr>) x p" for x p
    using that assms calm_op_ok by (fastforce simp: pm_inv_def live_def)
  ultimately show ?thesis by (simp add: pm_inv_def)
qed

lemma calm_inv_at:
  assumes "pm_inv L y" "rows_calm L (sys_db y) (sys_db z)" "sys_ops z = sys_ops y" "sys_clock z = sys_clock y"
  shows "pm_inv L z"
  using calm_inv [OF assms(2,1)] assms(3,4) by (simp add: pm_inv_def live_def)

lemma inv_other: "pm_inv L (y\<lparr>sys_decisions := ds\<rparr>) = pm_inv L y" "pm_inv L (y\<lparr>sys_stale := cs\<rparr>) = pm_inv L y"
  by (simp_all add: pm_inv_def live_def)

lemma inv_tick: "sys_clock y \<le> t \<Longrightarrow> pm_inv L y \<Longrightarrow> pm_inv L (y\<lparr>sys_clock := t\<rparr>)"
  by (auto simp: pm_inv_def live_def)

lemma inv_crash: "pm_inv L y \<Longrightarrow> pm_inv L (y\<lparr>sys_ops := hm_remove x (sys_ops y)\<rparr>)"
  by (auto simp: pm_inv_def live_def split: if_splits)

section \<open>Each step keeps it\<close>

lemma request_rows:
  assumes "request_insert env new_id user body db = (r, db')"
  shows "pm_requests db' = pm_requests db \<and> pm_locks db' = pm_locks db
    \<or> (\<exists>row. pm_requests db' = row # pm_requests db \<and> pm_locks db' = pm_locks db \<and> cr_id row = new_id \<and> cr_status row \<noteq> StActive
         \<and> trim (cr_dn row) = cr_dn row)"
  using assms
  by (auto simp: request_insert_def Let_def and_do_eq insert_request_def initial_state_def split_def result_simps
      split: if_splits)

lemma inv_request:
  assumes "pm_inv L y" "new_id \<notin> cr_id ` set (pm_requests (sys_db y))" "request_insert env new_id user body (sys_db y) = (r, db')"
  shows "pm_inv L (y\<lparr>sys_db := db'\<rparr>)"
  using request_rows [OF assms(3)]
proof (elim disjE exE conjE)
  fix row assume row: "pm_requests db' = row # pm_requests (sys_db y)" "pm_locks db' = pm_locks (sys_db y)" "cr_id row = new_id"
    "cr_status row \<noteq> StActive" "trim (cr_dn row) = cr_dn row"
  have keys: "row_keys db' = (new_id, cr_dn row) # row_keys (sys_db y)" by (simp add: row_keys_def row)
  have dn: "row_dn db' c d \<longleftrightarrow> c = new_id \<and> d = cr_dn row \<or> row_dn (sys_db y) c d" for c d
    by (auto simp: row_dn_def keys)
  have act: "active_at L db' = active_at L (sys_db y)" by (auto simp: active_at_def row fun_eq_iff)
  have lock: "holds_lock L db' = holds_lock L (sys_db y)" by (simp add: holds_lock_def row fun_eq_iff)
  have "new_id \<notin> set (map fst (row_keys (sys_db y)))" using assms(2) by (auto simp: row_keys_def)
  then have "distinct (map fst (row_keys db'))" using assms(1) unfolding keys pm_inv_def rows_ok_def by simp
  moreover have "\<forall>c d. row_dn db' c d \<longrightarrow> trim d = d" using assms(1) row(5) by (auto simp: dn pm_inv_def rows_ok_def)
  ultimately have "rows_ok db'" by (simp add: rows_ok_def)
  moreover have "op_ok L db' x p" if "live y x p" for x p
    using that assms(1) unfolding pm_inv_def op_ok_def dn act lock by blast
  ultimately show ?thesis
    using assms(1) by (auto simp: pm_inv_def exclusive_def act live_def)
qed (auto intro: calm_inv [OF calm_requests] assms(1))

lemma inv_begin:
  assumes "pm_inv L y" "checkout_dn c (sys_db y) = Inr dn"
    and "claim_lock (sys_clock y) (L (trim dn)) x name (sys_db y) = Some db'"
  shows "pm_inv L (y\<lparr>sys_db := db', sys_ops := hm_insert x \<lparr>op_kind = k, op_checkout = c,
      op_until = sys_clock y + OPERATION_DEADLINE, op_phase = Begun\<rparr> (sys_ops y)\<rparr>)" (is "pm_inv L ?z")
proof -
  have c: "row_dn (sys_db y) c dn"
    using assms(2) by (auto simp: checkout_dn_def get_by_id_def find_Some_iff result_simps intro: row_dnI)
  then have trim: "trim dn = dn" using assms(1) by (simp add: pm_inv_def rows_ok_def)
  let ?u = "sys_clock y + ACCOUNT_LOCK_SECS"
  have db': "db' = (sys_db y)\<lparr>pm_locks := hm_insert (L dn) (x, name, ?u) (pm_locks (sys_db y))\<rparr>"
    and free: "case hm_get (L dn) (pm_locks (sys_db y)) of None \<Rightarrow> True | Some (_, _, until) \<Rightarrow> until < sys_clock y"
    using assms(3) by (auto simp: claim_lock_def Let_def trim split: option.splits if_splits)
  have rows: "row_dn db' = row_dn (sys_db y)" "active_at L db' = active_at L (sys_db y)" "row_keys db' = row_keys (sys_db y)"
    by (simp_all add: db' row_dn_def row_keys_def active_at_def fun_eq_iff)
  have "op_ok L db' x' p" if l: "live ?z x' p" for x' p
  proof (cases "x' = x")
    case True
    with l have p: "p = \<lparr>op_kind = k, op_checkout = c, op_until = sys_clock y + OPERATION_DEADLINE, op_phase = Begun\<rparr>"
      by (simp add: live_def)
    have "holds_lock L db' dn x (op_until p)" by (simp add: holds_lock_def db' p bound_simps)
    with c True show ?thesis
      by (auto simp: op_ok_def rows p cleared_def phase_request_def)
  next
    case False
    with l have "live y x' p" by (simp add: live_def)
    with assms(1) have rest: "op_ok L (sys_db y) x' p" by (simp add: pm_inv_def)
    then obtain d where d: "row_dn (sys_db y) (op_checkout p) d" "holds_lock L (sys_db y) d x' (op_until p)"
      unfolding op_ok_def by blast
    have "L d \<noteq> L dn"
      using d(2) free l by (auto simp: holds_lock_def live_def)
    then have same: "holds_lock L db' d = holds_lock L (sys_db y) d"
      by (simp add: holds_lock_def db' fun_eq_iff)
    have "row_dn (sys_db y) (op_checkout p) d' \<Longrightarrow> d' = d" for d'
      using rows_unique d(1) assms(1) by (metis pm_inv_def)
    with rest same show ?thesis unfolding op_ok_def rows by metis
  qed
  with assms(1) show ?thesis
    by (simp add: pm_inv_def rows_ok_def exclusive_def rows)
qed

lemma inv_end:
  assumes "pm_inv L y" "hm_get x (sys_ops y) = Some p" "checkout_dn (op_checkout p) (sys_db y) = Inr dn"
  shows "pm_inv L (y\<lparr>sys_db := release_lock (L (trim dn)) x (sys_db y), sys_ops := hm_remove x (sys_ops y)\<rparr>)" (is "pm_inv L ?z")
proof -
  let ?db' = "release_lock (L (trim dn)) x (sys_db y)"
  have rows: "row_dn ?db' = row_dn (sys_db y)" "active_at L ?db' = active_at L (sys_db y)" "row_keys ?db' = row_keys (sys_db y)"
    by (auto simp: release_lock_def row_dn_def row_keys_def active_at_def fun_eq_iff split: option.split)
  have other: "holds_lock L (sys_db y) d x' t \<Longrightarrow> holds_lock L ?db' d x' t" if "x' \<noteq> x" for d x' t
    using that by (auto simp: release_lock_def holds_lock_def split: option.split)
  have "op_ok L ?db' x' q" if "live ?z x' q" for x' q
  proof -
    from that have "x' \<noteq> x" "live y x' q" by (auto simp: live_def split: if_splits)
    with assms(1) other show ?thesis unfolding pm_inv_def op_ok_def rows by meson
  qed
  with assms(1) show ?thesis by (simp add: pm_inv_def rows_ok_def exclusive_def rows)
qed

text \<open>How a step of an operation changes what it knows about its account.\<close>

lemma moves_request:
  assumes "op_moves env k c ph db ph' db'" "phase_request ph' = Some req"
  shows "phase_request ph = Some req \<or> cr_id req = c \<and> row_dn db c (cr_dn req)"
  using assms
  by (induction rule: op_moves.induct)
    (auto simp: phase_request_def activation_read_def get_by_id_def get_owned_by_user_def find_Some_iff result_simps
       split: if_splits)

lemma moves_cleared:
  assumes "op_moves env Activation c ph db ph' db'" "cleared ph'" "\<not> cleared ph"
  shows "\<exists>req. phase_request ph = Some req \<and> \<not> other_holder env c (cr_dn req) db \<and> db' = db"
  using assms
  by cases (auto simp: cleared_def phase_request_def check_exclusive_def split: if_splits)

lemma moves_from_commit:
  assumes "op_moves env k c (Stored req profile) db ph' db'"
  shows "k = Activation \<and> ph' = Over \<and>
    db' = snd (audit_log env (Some (cr_requester req)) ''password_checkout.activated'' (commit_activation env req profile db))"
  using assms by cases simp

lemma no_holder_active:
  assumes "identifies (pe_sql_lower env) L" "\<not> other_holder env c d db" "active_at L db (L d) c'"
  shows "c' = c"
proof -
  from assms(3) obtain r where r: "r \<in> set (pm_requests db)" "cr_status r = StActive" "L (cr_dn r) = L d" "cr_id r = c'"
    by (auto simp: active_at_def)
  with assms(1) have "pe_sql_lower env (cr_dn r) = pe_sql_lower env d" unfolding identifies_def by blast
  with r assms(2) show ?thesis by (auto simp: other_holder_def list_ex_iff)
qed

text \<open>A live operation that is past its exclusivity check is the only one that can activate a check-out of its account.\<close>

lemma inv_commit:
  assumes inv: "pm_inv L y" and l: "live y x p" and ph: "op_phase p = Stored req profile" "op_kind p = Activation"
  shows "pm_inv L (y\<lparr>sys_db := commit_activation env req profile (sys_db y), sys_ops := hm_insert x (p\<lparr>op_phase := Over\<rparr>) (sys_ops y)\<rparr>)"
    (is "pm_inv L ?z")
proof -
  let ?db' = "commit_activation env req profile (sys_db y)"
  have ok: "op_ok L (sys_db y) x p" and rows: "rows_ok (sys_db y)" and ex: "exclusive L (sys_db y)"
    using inv l by (auto simp: pm_inv_def)
  obtain d where d: "row_dn (sys_db y) (op_checkout p) d" "holds_lock L (sys_db y) d x (op_until p)"
    and only: "\<And>c. active_at L (sys_db y) (L d) c \<Longrightarrow> c = op_checkout p"
    using ok ph unfolding op_ok_def cleared_def by auto
  have req: "cr_id req = op_checkout p" using ok ph unfolding op_ok_def phase_request_def by simp
  have active: "active_at L (sys_db y) a c \<or> c = op_checkout p \<and> a = L d" if "active_at L ?db' a c" for a c
    using commit_active [OF that] rows_unique [OF rows d(1)] req by auto
  have row: "row_dn ?db' = row_dn (sys_db y)" by (simp add: row_dn_def fun_eq_iff)
  have lock: "holds_lock L ?db' = holds_lock L (sys_db y)" by (simp add: holds_lock_def fun_eq_iff)
  have "exclusive L ?db'"
    unfolding exclusive_def
  proof (intro allI impI)
    fix a c c' assume "active_at L ?db' a c" "active_at L ?db' a c'"
    from active [OF this(1)] active [OF this(2)] only ex show "c = c'" unfolding exclusive_def by metis
  qed
  moreover have "op_ok L ?db' x' q" if "live ?z x' q" for x' q
  proof (cases "x' = x")
    case True
    with that have "q = p\<lparr>op_phase := Over\<rparr>" by (simp add: live_def)
    with d True show ?thesis by (auto simp: op_ok_def row lock cleared_def phase_request_def)
  next
    case False
    with that have "live y x' q" by (simp add: live_def)
    with inv have q: "op_ok L (sys_db y) x' q" by (simp add: pm_inv_def)
    then obtain d' where d': "row_dn (sys_db y) (op_checkout q) d'" "holds_lock L (sys_db y) d' x' (op_until q)"
      unfolding op_ok_def by blast
    have "L d' \<noteq> L d" using lock_unique [OF d'(2) d(2)] False by blast
    then have "active_at L ?db' (L d') c \<Longrightarrow> active_at L (sys_db y) (L d') c" for c using active by blast
    moreover have "row_dn (sys_db y) (op_checkout q) e \<Longrightarrow> e = d'" for e using rows_unique [OF rows _ d'(1)] by blast
    ultimately show ?thesis using q unfolding op_ok_def row lock by metis
  qed
  moreover have "rows_ok ?db'" using rows by (simp add: rows_ok_def row)
  ultimately show ?thesis by (simp add: pm_inv_def)
qed

lemma inv_work:
  assumes inv: "pm_inv L y" and l: "live y x p" and env: "env_at L y env"
    and m: "op_moves env (op_kind p) (op_checkout p) (op_phase p) (sys_db y) ph' db'"
  shows "pm_inv L (y\<lparr>sys_db := db', sys_ops := hm_insert x (p\<lparr>op_phase := ph'\<rparr>) (sys_ops y)\<rparr>)" (is "pm_inv L ?z")
proof (cases "commits (op_phase p)")
  case True
  then obtain req profile where ph: "op_phase p = Stored req profile" by (auto simp: commits_def split: op_phase.splits)
  note c = moves_from_commit [OF m [unfolded ph]]
  have "pm_inv L (y\<lparr>sys_db := commit_activation env req profile (sys_db y), sys_ops := hm_insert x (p\<lparr>op_phase := Over\<rparr>) (sys_ops y)\<rparr>)"
    using inv_commit [OF inv l ph] c by blast
  then show ?thesis by (rule calm_inv_at) (use c in simp_all)
next
  case False
  then have calm: "rows_calm L (sys_db y) db'" by (rule moves_calm [OF m])
  have inv': "pm_inv L (y\<lparr>sys_db := db'\<rparr>)" by (rule calm_inv [OF calm inv])
  have p: "op_ok L (sys_db y) x p" using inv l by (simp add: pm_inv_def)
  have row: "row_dn db' = row_dn (sys_db y)" using calm by (simp add: rows_calm_def row_dn_def fun_eq_iff)
  have "op_ok L db' x (p\<lparr>op_phase := ph'\<rparr>)"
  proof -
    obtain d where d: "row_dn (sys_db y) (op_checkout p) d" "holds_lock L (sys_db y) d x (op_until p)"
      and only: "op_kind p = Activation \<and> cleared (op_phase p) \<longrightarrow> (\<forall>c. active_at L (sys_db y) (L d) c \<longrightarrow> c = op_checkout p)"
      using p unfolding op_ok_def by blast
    have "\<forall>c. active_at L db' (L d) c \<longrightarrow> c = op_checkout p" if "op_kind p = Activation" "cleared ph'"
    proof (cases "cleared (op_phase p)")
      case True
      with only that calm show ?thesis by (auto simp: rows_calm_def)
    next
      case False
      from moves_cleared [OF m [unfolded that(1)] that(2) False] obtain req where req: "phase_request (op_phase p) = Some req"
        "\<not> other_holder env (op_checkout p) (cr_dn req) (sys_db y)" "db' = sys_db y" by blast
      have "cr_dn req = d"
        using p req(1) rows_unique [OF _ _ d(1)] inv unfolding op_ok_def pm_inv_def by blast
      with no_holder_active [OF _ req(2)] env req(3) show ?thesis by (auto simp: env_at_def)
    qed
    moreover have "cr_id req = op_checkout p \<and> row_dn (sys_db y) (op_checkout p) (cr_dn req)" if "phase_request ph' = Some req" for req
      using moves_request [OF m that] p unfolding op_ok_def by blast
    moreover have "holds_lock L db' d x (op_until p)" using d(2) calm by (simp add: rows_calm_def holds_lock_def)
    ultimately show ?thesis using d(1) by (auto simp: op_ok_def row)
  qed
  moreover have "op_ok L db' x' q" if "live ?z x' q" "x' \<noteq> x" for x' q
    using that inv' by (simp add: pm_inv_def live_def)
  ultimately show ?thesis using inv' by (auto simp: pm_inv_def live_def split: if_splits)
qed

lemma inv_step: "pm_step L y z \<Longrightarrow> pm_inv L y \<Longrightarrow> pm_inv L z"
proof (induction rule: pm_step.induct)
  case (decide_write user c approved reason y)
  then show ?case by (elim calm_inv_at) (simp_all add: calm_trans [OF calm_decision calm_audit])
next
  case (stale_write c y)
  then show ?case by (elim calm_inv_at) simp_all
qed (simp_all add: inv_other inv_tick inv_crash inv_request inv_begin inv_work inv_end live_def calm_inv calm_requests)

lemma inv_reach: "pm_reach L y z \<Longrightarrow> pm_inv L y \<Longrightarrow> pm_inv L z"
  by (induction rule: pm_reach.induct) (auto intro: inv_step)

section \<open>The handlers are among the runs\<close>

text \<open>
  An activation that the handler runs through without interruption is one of the runs of the step relation: the claim, the
  reads, the writes and the release happen in the same order and with the same effect.
\<close>

lemma hm_insert_again [simp]: "hm_insert x v (hm_insert x w m) = hm_insert x v m"
  by (simp add: hm_insert_def hm_remove_def)

lemma hm_remove_insert [simp]: "hm_get x m = None \<Longrightarrow> hm_remove x (hm_insert x w m) = m"
  using hm_remove_absent [of x m] by (simp add: hm_insert_def hm_remove_def)

lemma reach_trans: "pm_reach L y z \<Longrightarrow> pm_reach L x y \<Longrightarrow> pm_reach L x z"
  by (induction rule: pm_reach.induct) (auto intro: pm_reach.step)

definition op_at :: "('id, 's) pm_sys \<Rightarrow> 'id \<Rightarrow> 'id \<Rightarrow> ('id, 's) op_phase \<Rightarrow> ('id, 's) pm_state \<Rightarrow> ('id, 's) pm_sys" where
  "op_at y x c ph db = y\<lparr>sys_db := db, sys_ops := hm_insert x \<lparr>op_kind = Activation, op_checkout = c,
     op_until = sys_clock y + OPERATION_DEADLINE, op_phase = ph\<rparr> (sys_ops y)\<rparr>"

lemma op_at_work:
  assumes "pm_reach L y0 (op_at y x c ph db)" "op_moves env Activation c ph db ph' db'" "env_at L y env"
  shows "pm_reach L y0 (op_at y x c ph' db')"
proof -
  let ?p = "\<lparr>op_kind = Activation, op_checkout = c, op_until = sys_clock y + OPERATION_DEADLINE, op_phase = ph\<rparr>"
  have "pm_step L (op_at y x c ph db)
      ((op_at y x c ph db)\<lparr>sys_db := db', sys_ops := hm_insert x (?p\<lparr>op_phase := ph'\<rparr>) (sys_ops (op_at y x c ph db))\<rparr>)"
    by (rule pm_step.work [where p = ?p]) (use assms(2,3) in \<open>simp_all add: op_at_def env_at_def bound_simps\<close>)
  then have "pm_step L (op_at y x c ph db) (op_at y x c ph' db')" by (simp add: op_at_def)
  with assms(1) show ?thesis by (rule pm_reach.step)
qed

lemma push_keys:
  assumes "push_password env req cfg pw db = (r, db')" shows "row_keys db' = row_keys db"
proof -
  have reset: "row_keys (snd (reset_in_ad env c b dn pw sc s)) = row_keys s" for c b dn pw sc s
    using calm_reset [of env c b dn pw sc s "fst (reset_in_ad env c b dn pw sc s)"] by (simp add: rows_calm_def)
  have store: "row_keys (snd (seal_managed_credential env u dn sam pw d s)) = row_keys s" for u dn sam pw d s
    using calm_store [of env u dn sam pw d s "fst (seal_managed_credential env u dn sam pw d s)"] by (simp add: rows_calm_def)
  have audit: "row_keys (snd (audit_log env u a s)) = row_keys s" for u a s by (simp add: row_keys_def)
  have "row_keys (snd (push_password env req cfg pw db)) = row_keys db"
    by (simp add: push_password_def snd_and_do reset store audit split: sum.split)
  with assms show ?thesis by simp
qed

lemma row_checkout_dn:
  assumes "row_dn db c d" "rows_ok db" shows "checkout_dn c db = Inr d"
proof -
  obtain r where r: "r \<in> set (pm_requests db)" "cr_id r = c" using assms(1) by (auto simp: row_dn_def row_keys_def)
  then obtain r' where r'1: "get_by_id c db = Some r'"
    using get_by_id_None [of c db r] by (cases "get_by_id c db") auto
  note r' = r'1 get_by_id_in [OF r'1, THEN conjunct1] get_by_id_in [OF r'1, THEN conjunct2]
  have "cr_dn r' = d" using rows_unique [OF assms(2) _ assms(1)] row_dnI [OF r'(2)] r'(3) by blast
  with r' show ?thesis by (simp add: checkout_dn_def)
qed

lemma push_simulated:
  assumes "pm_reach L y0 (op_at y x c (Working req cfg pw) db)" "env_at L y env" "push_password env req cfg pw db = (Inr (), db')"
  shows "pm_reach L y0 (op_at y x c Over db')"
proof -
  from assms(3) obtain config bind_pw where cfg: "find_config cfg db = Inr config"
      "pe_unseal_setting env (pm_raw_password config) = Inr bind_pw"
    by (cases "find_config cfg db"; cases "pe_unseal_setting env (pm_raw_password (projr (find_config cfg db)))")
      (auto simp: push_password_def)
  note tail = assms(3) [unfolded push_password_def this and_do_simps]
  obtain sam s2 where reset: "reset_in_ad env config bind_pw (cr_dn req) pw False db = (Inr sam, s2)"
    using tail by (cases "reset_in_ad env config bind_pw (cr_dn req) pw False db") (auto simp: and_do_def split: sum.splits)
  obtain profile s3 where store: "seal_managed_credential env (cr_requester req) (cr_dn req) sam pw (cr_duration req) s2 = (Inr profile, s3)"
    using tail unfolding reset by (cases "seal_managed_credential env (cr_requester req) (cr_dn req) sam pw (cr_duration req) s2")
      (auto simp: and_do_def split: sum.splits)
  have "pm_reach L y0 (op_at y x c (Stored req profile) s3)"
    by (rule op_at_work [OF op_at_work [OF assms(1) op_moves.reset [OF cfg reset] assms(2)] op_moves.store [OF store] assms(2)])
  from op_at_work [OF this op_moves.commit assms(2)] show ?thesis using tail unfolding reset and_do_simps store by simp
qed

lemma activation_simulated:
  assumes act: "activate_checkout env x c (sys_db y) = (Inr (), db')" and env: "env_at L y env"
    and ops: "hm_get x (sys_ops y) = None" and plan: "activation_read c (sys_db y) = Inr (Proceed req cfg)" and rows: "rows_ok (sys_db y)"
  shows "pm_reach L y (y\<lparr>sys_db := db'\<rparr>)"
proof -
  have L: "pe_lower env = L" "pe_now env = sys_clock y" using env by (simp_all add: env_at_def)
  have req: "get_by_id c (sys_db y) = Some req" using plan by (auto simp: activation_read_def result_simps split: if_splits)
  then have dn: "checkout_dn c (sys_db y) = Inr (cr_dn req)" by (simp add: checkout_dn_def)
  let ?key = "L (trim (cr_dn req))"
  obtain s1 r s2 where claim: "claim_lock (sys_clock y) ?key x ''activation'' (sys_db y) = Some s1"
    and inner: "activate_checkout_inner env c s1 = (Inr (), s2)" and db': "db' = release_lock ?key x s2"
    using act dn by (auto simp: activate_checkout_def with_account_lock_def account_key_def Let_def L in_time_def split_def prod_eq_iff
        split: option.splits)
  have s1: "pm_requests s1 = pm_requests (sys_db y)" "pm_configs s1 = pm_configs (sys_db y)"
    using claim by (auto simp: claim_lock_def Let_def split: option.splits if_splits)
  have plan1: "activation_read c s1 = Inr (Proceed req cfg)" using plan by (simp add: activation_read_def get_by_id_def s1)
  let ?pw = "generate_password (pe_pick env) (load_policy cfg s1)"
  obtain sealed where free: "check_exclusive env c (cr_dn req) s1 = Inr ()" and sealed: "pe_seal env (as_bytes ?pw) = Inr sealed"
    and push: "push_password env req cfg ?pw (record_pending c sealed s1) = (Inr (), s2)"
  proof (cases "check_exclusive env c (cr_dn req) s1"; cases "pe_seal env (as_bytes ?pw)")
  qed (use inner that in \<open>auto simp: activate_checkout_inner_def plan1\<close>)
  have "pm_reach L y (op_at y x c Begun s1)"
    using pm_reach.step [OF pm_reach.start pm_step.begin_op [where L = L and k = Activation, OF dn ops claim]] by (simp add: op_at_def)
  note steps = op_at_work [OF op_at_work [OF op_at_work [OF this op_moves.plan [OF plan1] env] op_moves.clear [OF free] env]
      op_moves.pend [OF refl sealed] env]
  have over: "pm_reach L y (op_at y x c Over s2)" by (rule push_simulated [OF steps env push])
  have "row_keys s2 = row_keys (record_pending c sealed s1)" by (rule push_keys [OF push])
  also have "\<dots> = row_keys (sys_db y)" by (simp add: row_keys_def record_pending_def update_request_def s1)
  finally have keys: "row_keys s2 = row_keys (sys_db y)" .
  have "row_dn s2 c (cr_dn req)" "rows_ok s2"
    using rows row_dnI get_by_id_in [OF req] unfolding row_dn_def rows_ok_def keys by blast+
  then have "checkout_dn c s2 = Inr (cr_dn req)" by (rule row_checkout_dn)
  then have "pm_step L (op_at y x c Over s2) (y\<lparr>sys_db := db'\<rparr>)"
    using pm_step.end_op [of x "op_at y x c Over s2" "\<lparr>op_kind = Activation, op_checkout = c,
     op_until = sys_clock y + OPERATION_DEADLINE, op_phase = Over\<rparr>" "cr_dn req" L] ops by (simp add: op_at_def db')
  with over show ?thesis by (rule pm_reach.step)
qed

end
