(* ===== verification/Checkout_Properties.thy ===== *)
theory Checkout_Properties
  imports Checkout_Safety
begin

text \<open>
  The properties of check-outs: one holder per account, nothing released without authority, no password lost by a failing
  activation, and what a decision that comes too late leaves behind.
\<close>

section \<open>Activation and the directory\<close>

lemma reset_in_ad_cases:
  assumes "reset_in_ad env c bind_pw dn pw sc s = (r, s')"
  obtains e where "r = Inl e" "s' = s" | "s' = s\<lparr>pm_ad := (pm_ad s)(pe_lower env dn := Some pw)\<rparr>"
proof -
  obtain changed where l: "ldap_reset_password (pe_ldap env) (pm_bind_dn c) bind_pw dn pw (cfg_tls_skip_verify c) (cfg_ca_cert_pem c) sc
      = (r, changed)" and s': "s' = (if changed then s\<lparr>pm_ad := (pm_ad s)(pe_lower env dn := Some pw)\<rparr> else s)"
    using assms by (auto simp: reset_in_ad_def split: prod.splits)
  show thesis
  proof (cases changed)
    case False
    with l have "\<exists>e. r = Inl e" using reset_ok_changed by (cases r) blast+
    with False s' that(1) show thesis by auto
  qed (use s' that(2) in simp)
qed

lemma reset_in_ad_ok:
  "reset_in_ad env c bind_pw dn pw sc s = (Inr sam, s') \<Longrightarrow> s' = s\<lparr>pm_ad := (pm_ad s)(pe_lower env dn := Some pw)\<rparr>"
  by (erule reset_in_ad_cases) simp_all

lemma store_ad:
  "seal_managed_credential env u dn sam pw d s = (r, s') \<Longrightarrow> pm_ad s' = pm_ad s \<and> pm_requests s' = pm_requests s"
  by (auto simp: seal_managed_credential_def Let_def split: sum.splits option.splits)

lemma store_sealed:
  assumes "seal_managed_credential env u dn sam pw d s = (Inr profile, s')"
  obtains payload sealed where "pe_payload env sam pw dn = Inr payload" "pe_seal env payload = Inr sealed"
    "sealed \<in> cp_sealed ` set (pm_profiles s')"
proof -
  from assms obtain payload sealed where ok: "pe_payload env sam pw dn = Inr payload" "pe_seal env payload = Inr sealed"
    by (auto simp: seal_managed_credential_def result_simps split: sum.splits)
  let ?mine = "\<lambda>p. cp_user p = u \<and> cp_label p = managed_label dn"
  have "sealed \<in> cp_sealed ` set (pm_profiles s')"
  proof (cases "List.find ?mine (pm_profiles s)")
    case None
    with assms ok show ?thesis by (auto simp: seal_managed_credential_def Let_def)
  next
    case (Some p)
    then have "p \<in> set (pm_profiles s)" "?mine p" by (auto simp: find_Some_iff)
    moreover from assms ok Some have "pm_profiles s' =
        map (\<lambda>q. if ?mine q then q\<lparr>cp_sealed := sealed, cp_expires := pe_now env + d * 60\<rparr> else q) (pm_profiles s)"
      by (auto simp: seal_managed_credential_def Let_def)
    ultimately have "p\<lparr>cp_sealed := sealed, cp_expires := pe_now env + d * 60\<rparr> \<in> set (pm_profiles s')" by auto
    then show ?thesis by (rule rev_image_eqI) simp
  qed
  with ok that show thesis by blast
qed

lemma commit_ad [simp]: "pm_ad (commit_activation env req profile s) = pm_ad s"
  by (simp add: commit_activation_def Let_def update_request_def)

lemma record_pending_ad [simp]: "pm_ad (record_pending c sealed s) = pm_ad s"
  by (simp add: record_pending_def update_request_def)

text \<open>The password a row or a profile would give back.\<close>

definition recoverable :: "('id, 's) pm_env \<Rightarrow> 'id \<Rightarrow> str \<Rightarrow> ('id, 's) pm_state \<Rightarrow> bool" where
  "recoverable env c pw s \<longleftrightarrow>
    (\<exists>sealed. pe_seal env (as_bytes pw) = Inr sealed
       \<and> (\<exists>r \<in> set (pm_requests s). cr_id r = c \<and> cr_pending r = Some sealed))"

definition stored_for :: "('id, 's) pm_env \<Rightarrow> str \<Rightarrow> str \<Rightarrow> ('id, 's) pm_state \<Rightarrow> bool" where
  "stored_for env dn pw s \<longleftrightarrow>
    (\<exists>sam payload sealed. pe_payload env sam pw dn = Inr payload \<and> pe_seal env payload = Inr sealed
       \<and> sealed \<in> cp_sealed ` set (pm_profiles s))"

lemma commit_sealed [simp]: "cp_sealed ` set (pm_profiles (commit_activation env req profile s)) = cp_sealed ` set (pm_profiles s)"
proof -
  have "map cp_sealed (pm_profiles (commit_activation env req profile s)) = map cp_sealed (pm_profiles s)"
    by (simp add: commit_activation_def Let_def update_request_def)
  then show ?thesis by (metis set_map)
qed

lemma stored_for_commit [simp]:
  "stored_for env dn pw (snd (audit_log env'' u a (commit_activation env' req profile s))) = stored_for env dn pw s"
  by (simp add: stored_for_def)

lemma recoverable_pending:
  assumes "get_by_id c s = Some req" "pe_seal env (as_bytes pw) = Inr sealed"
    and "pm_requests s' = pm_requests (record_pending c sealed s)"
  shows "recoverable env c pw s'"
proof -
  from assms(1) have "req \<in> set (pm_requests s)" "cr_id req = c" by (auto simp: get_by_id_def find_Some_iff)
  then have "req\<lparr>cr_pending := Some sealed\<rparr> \<in> set (pm_requests s')"
    by (auto simp: assms(3) record_pending_def update_request_def)
  with assms(2) \<open>cr_id req = c\<close> show ?thesis
    unfolding recoverable_def by (intro exI [of _ sealed]) (auto intro!: bexI [of _ "req\<lparr>cr_pending := Some sealed\<rparr>"])
qed

lemma push_password_cases:
  assumes "push_password env req cfg pw s = (r, s')" "pm_ad s' \<noteq> pm_ad s"
  shows "pm_ad s' = (pm_ad s)(pe_lower env (cr_dn req) := Some pw)
    \<and> (r \<noteq> Inr () \<and> pm_requests s' = pm_requests s
       \<or> stored_for env (cr_dn req) pw s' \<and> (\<exists>profile. pm_requests s' = pm_requests (commit_activation env req profile s)))"
proof -
  from assms obtain config bind_pw where "find_config cfg s = Inr config" "pe_unseal_setting env (pm_raw_password config) = Inr bind_pw"
    by (cases "find_config cfg s"; cases "pe_unseal_setting env (pm_raw_password (projr (find_config cfg s)))")
      (auto simp: push_password_def)
  note tail = assms(1) [unfolded push_password_def this and_do_simps]
  obtain r2 s2 where reset: "reset_in_ad env config bind_pw (cr_dn req) pw False s = (r2, s2)" by force
  show ?thesis
  proof (cases r2)
    case (Inl e)
    with tail reset have "r = Inl e" "s' = s2" by simp_all
    with reset assms(2) show ?thesis by (auto elim: reset_in_ad_cases)
  next
    case (Inr sam)
    obtain r3 s3 where store: "seal_managed_credential env (cr_requester req) (cr_dn req) sam pw (cr_duration req) s2 = (r3, s3)"
      by force
    note tail' = tail [unfolded reset Inr and_do_simps store]
    have s2: "s2 = s\<lparr>pm_ad := (pm_ad s)(pe_lower env (cr_dn req) := Some pw)\<rparr>" by (rule reset_in_ad_ok [OF reset [unfolded Inr]])
    show ?thesis
    proof (cases r3)
      case (Inl e)
      with tail' s2 store_ad [OF store] show ?thesis by auto
    next
      case (Inr profile)
      from store_sealed [OF store [unfolded Inr]] obtain payload sealed where
        "pe_payload env sam pw (cr_dn req) = Inr payload" "pe_seal env payload = Inr sealed" "sealed \<in> cp_sealed ` set (pm_profiles s3)" .
      then have "stored_for env (cr_dn req) pw s3" unfolding stored_for_def by blast
      moreover have s': "s' = snd (audit_log env (Some (cr_requester req)) ''password_checkout.activated'' (commit_activation env req profile s3))"
        using tail' Inr by (simp add: prod_eq_iff)
      moreover have "pm_requests s' = pm_requests (commit_activation env req profile s)"
        using s' s2 store_ad [OF store] by (simp add: commit_activation_def Let_def update_request_def)
      ultimately show ?thesis using s2 store_ad [OF store] by auto
    qed
  qed
qed

lemma activation_read_row:
  "activation_read c s = Inr (Proceed req cfg) \<Longrightarrow>
    get_by_id c s = Some req \<and> cr_status req \<in> {StApproved, StActive, StScheduled} \<and> cr_config req = Some cfg"
  by (auto simp: activation_read_def result_simps split: if_splits)

lemma activation_cases:
  assumes "activate_checkout_inner env c s = (r, s')" "s' \<noteq> s"
  obtains req cfg sealed where "activation_read c s = Inr (Proceed req cfg)" "\<not> other_holder env c (cr_dn req) s"
    "pe_seal env (as_bytes (generate_password (pe_pick env) (load_policy cfg s))) = Inr sealed"
    "push_password env req cfg (generate_password (pe_pick env) (load_policy cfg s)) (record_pending c sealed s) = (r, s')"
proof (cases "activation_read c s")
  case (Inr plan)
  with assms obtain req cfg where plan: "activation_read c s = Inr (Proceed req cfg)"
    by (cases plan) (auto simp: activate_checkout_inner_def)
  let ?pw = "generate_password (pe_pick env) (load_policy cfg s)"
  from assms plan obtain sealed where "\<not> other_holder env c (cr_dn req) s" "pe_seal env (as_bytes ?pw) = Inr sealed"
    by (cases "pe_seal env (as_bytes ?pw)") (auto simp: activate_checkout_inner_def check_exclusive_def split: if_splits)
  with assms(1) plan that show thesis by (simp add: activate_checkout_inner_def check_exclusive_def)
qed (use assms in \<open>simp add: activate_checkout_inner_def\<close>)

definition delivered :: "'id \<Rightarrow> ('id, 's) pm_state \<Rightarrow> bool" where
  "delivered c s \<longleftrightarrow> (\<exists>r \<in> set (pm_requests s). cr_id r = c \<and> cr_status r = StActive \<and> cr_credential r \<noteq> None)"

lemma commit_delivers:
  assumes "get_by_id c s = Some req" "pm_requests s' = pm_requests (commit_activation env req profile (record_pending c sealed s))"
  shows "delivered c s'"
proof -
  from assms(1) have r: "req \<in> set (pm_requests s)" "cr_id req = c" by (auto simp: get_by_id_def find_Some_iff)
  let ?r = "req\<lparr>cr_status := StActive, cr_expires := Some (pe_now env + cr_duration req * 60), cr_credential := Some profile, cr_pending := None\<rparr>"
  have "?r \<in> set (pm_requests s')"
    using r by (force simp: assms(2) commit_activation_def record_pending_def update_request_def Let_def)
  with r(2) show ?thesis unfolding delivered_def by (intro bexI [of _ ?r]) simp_all
qed

text \<open>C26: an activation does not lose the password it set. If it changed the directory at all, it set exactly one new password there, and
  either that password is still sealed in the check-out's row, as its pending secret, or the check-out is active and the password sealed
  in a credential profile. The second is so whenever the activation succeeded, and also when only the audit entry after the commit
  could not be written, which the caller sees as a failure.\<close>

theorem activation_keeps_password:
  assumes "activate_checkout_inner env c s = (r, s')" "pm_ad s' \<noteq> pm_ad s" "get_by_id c s = Some req"
  shows "\<exists>pw. pm_ad s' = (pm_ad s)(pe_lower env (cr_dn req) := Some pw)
    \<and> (r \<noteq> Inr () \<and> recoverable env c pw s' \<or> stored_for env (cr_dn req) pw s' \<and> delivered c s')"
proof -
  obtain req' cfg sealed where plan: "activation_read c s = Inr (Proceed req' cfg)"
    and sealed: "pe_seal env (as_bytes (generate_password (pe_pick env) (load_policy cfg s))) = Inr sealed"
    and push: "push_password env req' cfg (generate_password (pe_pick env) (load_policy cfg s)) (record_pending c sealed s) = (r, s')"
    using activation_cases [OF assms(1)] assms(2) by metis
  have "req' = req" using activation_read_row [OF plan] assms(3) by simp
  with push_password_cases [OF push] assms(2) recoverable_pending [OF assms(3) sealed, of s'] commit_delivers [OF assms(3), of s' env _ sealed]
  show ?thesis
    by (intro exI [of _ "generate_password (pe_pick env) (load_policy cfg s)"]) auto
qed

lemma ldap_unreachable:
  assumes "ld_connect ld = Some e"
  obtains e' where "ldap_reset_password ld b w d p skip ca sc = (Inl e', False)"
  using assms by (cases ca; cases "ld_tls ld"; cases "the ca = []"; cases skip) (auto simp: ldap_reset_password_def Let_def)

text \<open>A retry records its own new password over the pending one before it reaches the directory; if it then fails, the password an earlier
  attempt left in the directory is on record nowhere.\<close>

lemma retry_overwrites_pending:
  assumes "activation_read c s = Inr (Proceed req cfg)" "\<not> other_holder env c (cr_dn req) s" "find_config cfg s = Inr config"
    and "pe_unseal_setting env (pm_raw_password config) = Inr bind_pw" "ld_connect (pe_ldap env) = Some e"
    and "generate_password (pe_pick env) (load_policy cfg s) = pw" "pe_seal env (as_bytes pw) = Inr sealed"
  shows "\<exists>e' s'. activate_checkout_inner env c s = (Inl e', s') \<and> pm_ad s' = pm_ad s
    \<and> (\<forall>row \<in> set (pm_requests s'). cr_id row = c \<longrightarrow> cr_pending row = Some sealed)"
proof -
  let ?s1 = "record_pending c sealed s"
  obtain e' where "ldap_reset_password (pe_ldap env) (pm_bind_dn config) bind_pw (cr_dn req) pw (cfg_tls_skip_verify config)
      (cfg_ca_cert_pem config) False = (Inl e', False)"
    by (rule ldap_unreachable [OF assms(5)])
  moreover have "find_config cfg ?s1 = Inr config" using assms(3) by (simp add: find_config_def record_pending_def update_request_def)
  ultimately have "push_password env req cfg pw ?s1 = (Inl e', ?s1)" using assms(4) by (simp add: push_password_def reset_in_ad_def)
  then have "activate_checkout_inner env c s = (Inl e', ?s1)"
    using assms(1,2,6,7) by (simp add: activate_checkout_inner_def check_exclusive_def)
  moreover have "\<forall>row \<in> set (pm_requests ?s1). cr_id row = c \<longrightarrow> cr_pending row = Some sealed"
    by (simp add: record_pending_def update_request_def ball_Un)
  ultimately show ?thesis by (intro exI [of _ e'] exI [of _ ?s1]) simp
qed

section \<open>One holder per account\<close>

definition fresh_sys :: "('id, 's) pm_sys \<Rightarrow> bool" where
  "fresh_sys y \<longleftrightarrow> pm_requests (sys_db y) = [] \<and> sys_ops y = [] \<and> sys_decisions y = [] \<and> sys_stale y = []"

lemma fresh_inv: "fresh_sys y \<Longrightarrow> pm_inv L y"
  by (simp add: fresh_sys_def pm_inv_def rows_ok_def exclusive_def row_dn_def row_keys_def active_at_def live_def)

text \<open>C8: at most one check-out of an account is active at any time, however requests, decisions, activations, check-ins,
  expiries, time-outs and crashes interleave. The exclusivity test of an activation and its commit are far apart, and what
  keeps them together is only the lock row with its expiry, which outlives the deadline of the operation.\<close>

theorem checkout_exclusive:
  assumes "fresh_sys y" "pm_reach L y z"
    and "r \<in> set (pm_requests (sys_db z))" "r' \<in> set (pm_requests (sys_db z))"
    and "cr_status r = StActive" "cr_status r' = StActive" "L (cr_dn r) = L (cr_dn r')"
  shows "cr_id r = cr_id r'"
proof -
  have "exclusive L (sys_db z)" using inv_reach [OF assms(2) fresh_inv [OF assms(1)]] by (simp add: pm_inv_def)
  moreover have "active_at L (sys_db z) (L (cr_dn r)) (cr_id r)" "active_at L (sys_db z) (L (cr_dn r)) (cr_id r')"
    using assms(3-7) by (auto simp: active_at_def)
  ultimately show ?thesis unfolding exclusive_def by blast
qed

section \<open>Nothing is released without authority\<close>

text \<open>A run of the system, newest state first, and the two ways a check-out comes to be allowed in it. \<open>self_grant\<close> is what the requester's own
  mapping to the account allows; \<open>authority\<close> asks for the very transition of the run at which the right was exercised: the one that brought
  the request into being, or the one at which an approver took up an approval of it.\<close>

inductive pm_run :: "(str \<Rightarrow> str) \<Rightarrow> ('id, 's) pm_sys list \<Rightarrow> bool" for L where
  start: "pm_run L [y]"
| step: "pm_run L (z # h) \<Longrightarrow> pm_step L z z' \<Longrightarrow> pm_run L (z' # z # h)"

definition run_follows :: "'a list \<Rightarrow> 'a \<Rightarrow> 'a \<Rightarrow> bool" where
  "run_follows H w w' \<longleftrightarrow> (\<exists>newer older. H = newer @ w' # w # older)"

lemma follows_head [simp]: "run_follows (w' # w # h) w w'"
  unfolding run_follows_def by (rule exI [of _ "[]"]) simp

lemma follows_Cons: "run_follows H w w' \<Longrightarrow> run_follows (x # H) w w'"
  unfolding run_follows_def by (metis append_Cons)

definition bypass_open :: "'id account_mapping \<Rightarrow> ('id, 's) pm_state \<Rightarrow> bool" where
  "bypass_open m db \<longleftrightarrow>
    (\<exists>c \<in> set (pm_configs db). um_config m = Some (cfg_id c) \<and> cfg_allow_bypass c)
  \<and> (\<exists>role \<in> set (pm_roles db). (ar_id role, um_dn m) \<in> set (pm_role_accounts db))
  \<and> (\<forall>role \<in> set (pm_roles db). (ar_id role, um_dn m) \<in> set (pm_role_accounts db) \<longrightarrow> ar_allow_bypass role)"

definition self_grant :: "('id, 's) pm_state \<Rightarrow> 'id \<Rightarrow> str \<Rightarrow> int \<Rightarrow> bool" where
  "self_grant db user dn minutes \<longleftrightarrow>
    (\<exists>m \<in> set (pm_mappings db). um_user m = user \<and> um_dn m = dn \<and> (um_self_approve m \<or> bypass_open m db \<and> minutes \<le> 30))"

definition grant_covers :: "('id, 's) pm_state \<Rightarrow> 'id \<Rightarrow> str \<Rightarrow> bool" where
  "grant_covers db approver dn \<longleftrightarrow> (\<exists>role. (approver, role) \<in> set (pm_assignments db) \<and> (role, dn) \<in> set (pm_role_accounts db))"

definition request_of :: "('id, 's) pm_state \<Rightarrow> 'id \<Rightarrow> str \<Rightarrow> checkout_status \<Rightarrow> bool" where
  "request_of db c dn st \<longleftrightarrow> (\<exists>row \<in> set (pm_requests db). cr_id row = c \<and> cr_dn row = dn \<and> cr_status row = st)"

definition authority :: "('id, 's) pm_sys list \<Rightarrow> 'id \<Rightarrow> 'id \<Rightarrow> str \<Rightarrow> int \<Rightarrow> bool" where
  "authority H c user dn minutes \<longleftrightarrow>
    (\<exists>w w'. run_follows H w w' \<and> c \<notin> cr_id ` set (pm_requests (sys_db w)) \<and> c \<in> cr_id ` set (pm_requests (sys_db w'))
       \<and> self_grant (sys_db w) user dn minutes)
  \<or> (\<exists>w w' approver reason. run_follows H w w' \<and> sys_decisions w' = (approver, c, True, reason) # sys_decisions w
       \<and> request_of (sys_db w) c dn StPending \<and> grant_covers (sys_db w) approver dn)"

lemma authority_Cons: "authority H c user dn minutes \<Longrightarrow> authority (x # H) c user dn minutes"
  unfolding authority_def by (blast intro: follows_Cons)

definition granted :: "('id, 's) pm_sys list \<Rightarrow> ('id, 's) checkout_request \<Rightarrow> bool" where
  "granted H r \<longleftrightarrow> authority H (cr_id r) (cr_requester r) (cr_dn r) (cr_duration r)"

definition released :: "checkout_status \<Rightarrow> bool" where
  "released st \<longleftrightarrow> st \<in> {StApproved, StScheduled, StActive, StCheckedIn}"

definition granted_id :: "('id, 's) pm_sys list \<Rightarrow> ('id, 's) pm_state \<Rightarrow> 'id \<Rightarrow> bool" where
  "granted_id H db c \<longleftrightarrow> c \<in> cr_id ` set (pm_requests db) \<and> (\<forall>r \<in> set (pm_requests db). cr_id r = c \<longrightarrow> granted H r)"

definition auth_inv :: "('id, 's) pm_sys list \<Rightarrow> ('id, 's) pm_sys \<Rightarrow> bool" where
  "auth_inv H z \<longleftrightarrow>
     (\<forall>r \<in> set (pm_requests (sys_db z)). released (cr_status r) \<longrightarrow> granted H r)
   \<and> (\<forall>u c reason. (u, c, True, reason) \<in> set (sys_decisions z) \<longrightarrow> granted_id H (sys_db z) c)
   \<and> (\<forall>x p req. hm_get x (sys_ops z) = Some p \<longrightarrow> phase_request (op_phase p) = Some req \<longrightarrow>
        cr_id req = op_checkout p \<and> granted_id H (sys_db z) (op_checkout p))"

text \<open>What a statement does to the rows: it keeps who asked for what, and releases a row only under a condition.\<close>

definition rows_step :: "('id \<Rightarrow> bool) \<Rightarrow> ('id, 's) pm_state \<Rightarrow> ('id, 's) pm_state \<Rightarrow> bool" where
  "rows_step P db db' \<longleftrightarrow>
    (\<exists>f. pm_requests db' = map f (pm_requests db)
       \<and> (\<forall>r. cr_id (f r) = cr_id r \<and> cr_requester (f r) = cr_requester r \<and> cr_dn (f r) = cr_dn r \<and> cr_duration (f r) = cr_duration r
            \<and> (released (cr_status (f r)) \<longrightarrow> released (cr_status r) \<or> P (cr_id r))))"

lemma rows_step_same: "pm_requests db' = pm_requests db \<Longrightarrow> rows_step P db db'"
  unfolding rows_step_def by (intro exI [of _ "\<lambda>r. r"]) simp

lemma rows_step_update:
  assumes "pm_requests db' = pm_requests (update_request c f db)"
    and "\<And>r. cr_id (f r) = cr_id r" "\<And>r. cr_requester (f r) = cr_requester r" "\<And>r. cr_dn (f r) = cr_dn r"
      "\<And>r. cr_duration (f r) = cr_duration r" "\<And>r. released (cr_status (f r)) \<Longrightarrow> released (cr_status r) \<or> P c"
  shows "rows_step P db db'"
  unfolding rows_step_def
  by (intro exI [of _ "\<lambda>r. if cr_id r = c then f r else r"]) (use assms in \<open>auto simp: update_request_def\<close>)

lemma granted_cong:
  "cr_id r' = cr_id r \<Longrightarrow> cr_requester r' = cr_requester r \<Longrightarrow> cr_dn r' = cr_dn r \<Longrightarrow> cr_duration r' = cr_duration r \<Longrightarrow> granted H r' = granted H r"
  by (simp add: granted_def)

lemma rows_step_granted:
  assumes "rows_step P db db'"
  shows "granted_id H db' c = granted_id H db c"
proof -
  obtain f where f: "pm_requests db' = map f (pm_requests db)" "\<And>r. cr_id (f r) = cr_id r" "\<And>r. granted H (f r) = granted H r"
    using assms unfolding rows_step_def by (metis granted_cong)
  then show ?thesis by (auto simp: granted_id_def image_iff)
qed

lemma auth_rows_step:
  assumes "auth_inv H z" "rows_step P (sys_db z) db'" "\<And>c. P c \<Longrightarrow> granted_id H (sys_db z) c"
  shows "auth_inv H (z\<lparr>sys_db := db'\<rparr>)"
proof -
  note g = rows_step_granted [OF assms(2), of H]
  obtain f where f: "pm_requests db' = map f (pm_requests (sys_db z))"
    and rel: "\<And>r. released (cr_status (f r)) \<Longrightarrow> released (cr_status r) \<or> P (cr_id r)" and gf: "\<And>r. granted H (f r) = granted H r"
    using assms(2) unfolding rows_step_def by (metis granted_cong)
  have "granted H r'" if r': "r' \<in> set (pm_requests db')" "released (cr_status r')" for r'
  proof -
    obtain r where r: "r \<in> set (pm_requests (sys_db z))" "r' = f r" using r'(1) f by auto
    from rel [of r] r' r consider "released (cr_status r)" | "P (cr_id r)" by auto
    then have "granted H r" using assms(1,3) r(1) by cases (auto simp: auth_inv_def granted_id_def)
    then show ?thesis by (simp add: r gf)
  qed
  with assms(1) show ?thesis by (simp add: auth_inv_def g)
qed

lemma moves_rows:
  assumes "op_moves env k c ph db ph' db'"
  shows "rows_step (\<lambda>i. \<exists>req. phase_request ph = Some req \<and> (i = cr_id req \<or> i = c)) db db'"
  using assms
proof (induction rule: op_moves.induct)
  case (pend pw cfg db sealed c req)
  show ?case by (rule rows_step_update [where c = c and f = "\<lambda>r. r\<lparr>cr_pending := Some sealed\<rparr>"]) (simp_all add: record_pending_def)
next
  case (reset cfg db config bind_pw req pw sam db' c)
  then show ?case by (auto simp: reset_in_ad_def split_def Let_def intro: rows_step_same)
next
  case (reset_fails cfg db config bind_pw req pw e db' c)
  then show ?case by (auto simp: reset_in_ad_def split_def Let_def intro: rows_step_same)
next
  case (store req sam pw db profile db' c)
  then show ?case by (auto dest: store_ad intro: rows_step_same)
next
  case (commit c req profile db)
  show ?case
    by (rule rows_step_update [where c = "cr_id req" and f = "\<lambda>r. r\<lparr>cr_status := StActive,
          cr_expires := Some (pe_now env + cr_duration req * 60), cr_credential := Some profile, cr_pending := None\<rparr>"])
      (simp_all add: commit_activation_def Let_def phase_request_def update_request_def)
next
  case (checkin_reset pw cfg db config bind_pw req sam db' user c)
  then show ?case by (auto simp: reset_in_ad_def split_def Let_def intro: rows_step_same)
next
  case (checkin_commit user c req pw sam db)
  show ?case
    by (rule rows_step_update [where c = c and f = "\<lambda>r. r\<lparr>cr_status := StCheckedIn\<rparr>"])
      (simp_all add: set_status_def update_request_def expire_profile_def phase_request_def split: option.split)
next
  case (expire_plain c db req)
  show ?case
    by (rule rows_step_update [where c = c and f = "\<lambda>r. r\<lparr>cr_status := StExpired\<rparr>"]) (simp_all add: set_status_def released_def)
next
  case (expire_reset pw cfg db config bind_pw req r db' c sam)
  then show ?case by (auto simp: reset_in_ad_def split_def Let_def intro: rows_step_same)
next
  case (expire_commit c req pw sam db)
  show ?case
    by (rule rows_step_update [where c = c and f = "\<lambda>r. r\<lparr>cr_status := StExpired\<rparr>"])
      (simp_all add: set_status_def update_request_def expire_profile_def released_def split: option.split)
qed (auto intro: rows_step_same)

lemma rows_same_id: "rows_ok db \<Longrightarrow> r \<in> set (pm_requests db) \<Longrightarrow> r' \<in> set (pm_requests db) \<Longrightarrow> cr_id r = cr_id r' \<Longrightarrow> r = r'"
  unfolding rows_ok_def row_keys_def by (simp add: distinct_map inj_on_def)

lemma get_owned_in: "get_owned_by_user c u db = Some r \<Longrightarrow> r \<in> set (pm_requests db) \<and> cr_id r = c"
  unfolding get_owned_by_user_def by (metis (mono_tags, lifting) find_Some_iff nth_mem)

lemma moves_new_request:
  assumes "op_moves env k c ph db ph' db'" "phase_request ph = None" "phase_request ph' = Some req"
  shows "req \<in> set (pm_requests db) \<and> cr_id req = c \<and> released (cr_status req) \<and> db' = db"
  using assms
  by (induction rule: op_moves.induct)
    (auto simp: phase_request_def released_def dest!: activation_read_row dest: get_by_id_in get_owned_in)

lemma moves_keep_request:
  assumes "op_moves env k c ph db ph' db'" "phase_request ph = Some req" "phase_request ph' = Some req'"
  shows "req' = req"
  using assms by (induction rule: op_moves.induct) (auto simp: phase_request_def)

lemma auth_work:
  assumes auth: "auth_inv H z" and rows: "rows_ok (sys_db z)" and p: "hm_get x (sys_ops z) = Some p"
    and m: "op_moves env (op_kind p) (op_checkout p) (op_phase p) (sys_db z) ph' db'"
  shows "auth_inv H (z\<lparr>sys_db := db', sys_ops := hm_insert x (p\<lparr>op_phase := ph'\<rparr>) (sys_ops z)\<rparr>)"
proof -
  let ?P = "\<lambda>i. \<exists>req. phase_request (op_phase p) = Some req \<and> (i = cr_id req \<or> i = op_checkout p)"
  have step: "rows_step ?P (sys_db z) db'" by (rule moves_rows [OF m])
  have P: "granted_id H (sys_db z) c" if "?P c" for c
  proof -
    from that obtain req where "phase_request (op_phase p) = Some req" "c = cr_id req \<or> c = op_checkout p" by blast
    with auth p show ?thesis unfolding auth_inv_def by metis
  qed
  have inv: "auth_inv H (z\<lparr>sys_db := db'\<rparr>)" by (rule auth_rows_step [OF auth step P])
  have "cr_id req = op_checkout p \<and> granted_id H db' (op_checkout p)" if ph': "phase_request ph' = Some req" for req
  proof (cases "phase_request (op_phase p)")
    case None
    from moves_new_request [OF m None ph'] have req: "req \<in> set (pm_requests (sys_db z))" "cr_id req = op_checkout p"
      "released (cr_status req)" "db' = sys_db z" by simp_all
    with auth have "granted H req" by (simp add: auth_inv_def)
    with req rows show ?thesis
      unfolding granted_id_def by (metis image_eqI rows_same_id)
  next
    case (Some req0)
    with auth p have "cr_id req0 = op_checkout p" "granted_id H (sys_db z) (op_checkout p)" unfolding auth_inv_def by metis+
    with moves_keep_request [OF m Some ph'] rows_step_granted [OF step] show ?thesis by simp
  qed
  with inv show ?thesis by (auto simp: auth_inv_def split: if_splits)
qed

lemma covering_roleI:
  "(ar_id role, dn) \<in> set (pm_role_accounts db) \<Longrightarrow> role \<in> set (pm_roles db) \<Longrightarrow> covering_role dn (ar_allow_bypass role) db"
  unfolding covering_role_def list_ex_iff by (rule bexI [rotated], assumption) auto

lemma bypass_openI:
  assumes "emergency_bypass_allowed (um_config m) (um_dn m) db"
  shows "bypass_open m db"
proof -
  obtain cfg c where c: "um_config m = Some cfg" "List.find (\<lambda>c. cfg_id c = cfg) (pm_configs db) = Some c" "cfg_allow_bypass c"
    and roles: "covering_role (um_dn m) True db" "\<not> covering_role (um_dn m) False db"
    using assms by (auto simp: emergency_bypass_allowed_def split: option.splits)
  from c(2) have "c \<in> set (pm_configs db)" "cfg_id c = cfg" by (auto simp: find_Some_iff)
  with c(1,3) have "\<exists>c \<in> set (pm_configs db). um_config m = Some (cfg_id c) \<and> cfg_allow_bypass c" by auto
  moreover have "\<exists>role \<in> set (pm_roles db). (ar_id role, um_dn m) \<in> set (pm_role_accounts db)"
    using roles(1) unfolding covering_role_def list_ex_iff by auto
  moreover have "ar_allow_bypass role" if "role \<in> set (pm_roles db)" "(ar_id role, um_dn m) \<in> set (pm_role_accounts db)" for role
    using covering_roleI [OF that(2,1)] roles(2) by (cases "ar_allow_bypass role") simp_all
  ultimately show ?thesis unfolding bypass_open_def by blast
qed

lemma initial_grant:
  assumes "initial_state now m body db = Inr (st, minutes, start)" "st \<noteq> StPending" "find_mapping user dn db = Some m"
  shows "self_grant db user dn minutes"
proof -
  have "um_self_approve m \<or> emergency_bypass_allowed (um_config m) (um_dn m) db \<and> minutes \<le> 30"
    using assms(1,2) by (auto simp: initial_state_def Let_def result_simps split: if_splits)
  moreover have "m \<in> set (pm_mappings db)" "um_user m = user" "um_dn m = dn"
    using assms(3) by (auto simp: find_mapping_def find_Some_iff)
  ultimately show ?thesis unfolding self_grant_def using bypass_openI by blast
qed

lemma and_do_return [simp]: "snd (and_do p (\<lambda>_. Pair (Inr x))) = snd p"
  by (cases p; cases "fst p") (auto simp: and_do_def)

lemma request_grant:
  assumes "request_insert env new_id user body db = (r, db')"
  shows "pm_requests db' = pm_requests db \<or> (\<exists>row. pm_requests db' = row # pm_requests db \<and> cr_id row = new_id
    \<and> (released (cr_status row) \<longrightarrow> self_grant db (cr_requester row) (cr_dn row) (cr_duration row)))"
proof -
  let ?dn = "trim (rb_dn body)"
  note run = assms [unfolded request_insert_def Let_def]
  show ?thesis
  proof (cases "pm_requests db' = pm_requests db")
    case False
    obtain m where m: "find_mapping user ?dn db = Some m"
      using run False by (cases "find_mapping user ?dn db") (auto split: if_splits)
    obtain st minutes start where init: "initial_state (pe_now env) m body db = Inr (st, minutes, start)"
      using run False m by (cases "initial_state (pe_now env) m body db") (auto split: if_splits)
    note run' = run [unfolded m init]
    let ?s1 = "insert_request (pe_now env) new_id user ?dn (um_config m) st minutes
      (case rb_justification body of Some t \<Rightarrow> t | None \<Rightarrow> []) (um_friendly_name m)
      ((rb_bypass body = Some True \<and> \<not> um_self_approve m) \<and> st = StApproved) start db"
    have "pm_requests db' = pm_requests ?s1"
      using arg_cong [OF run', of snd] False by (auto simp: init split: if_splits)
    then have "\<exists>row. pm_requests db' = row # pm_requests db \<and> cr_id row = new_id \<and> cr_status row = st
      \<and> cr_requester row = user \<and> cr_dn row = ?dn \<and> cr_duration row = minutes"
      by (simp add: insert_request_def)
    then obtain row where row: "pm_requests db' = row # pm_requests db" "cr_id row = new_id" "cr_status row = st"
      "cr_requester row = user" "cr_dn row = ?dn" "cr_duration row = minutes" by blast
    have "released st \<longrightarrow> self_grant db user ?dn minutes"
      using initial_grant [OF init _ m] by (auto simp: released_def)
    with row have "released (cr_status row) \<longrightarrow> self_grant db (cr_requester row) (cr_dn row) (cr_duration row)" by simp
    with row(1,2) show ?thesis by blast
  qed simp
qed

lemma auth_request:
  assumes auth: "auth_inv H z" and now: "run_follows H z (z\<lparr>sys_db := db'\<rparr>)" and new: "new_id \<notin> cr_id ` set (pm_requests (sys_db z))"
    and ins: "request_insert env new_id user body (sys_db z) = (r, db')"
  shows "auth_inv H (z\<lparr>sys_db := db'\<rparr>)"
  using request_grant [OF ins]
proof (elim disjE exE conjE)
  assume "pm_requests db' = pm_requests (sys_db z)"
  from auth_rows_step [OF auth rows_step_same [OF this], of "\<lambda>_. False"] show ?thesis by simp
next
  fix row assume row: "pm_requests db' = row # pm_requests (sys_db z)" "cr_id row = new_id"
    "released (cr_status row) \<longrightarrow> self_grant (sys_db z) (cr_requester row) (cr_dn row) (cr_duration row)"
  have "granted_id H (sys_db z) c \<Longrightarrow> granted_id H db' c" for c
    using new row(1,2) by (auto simp: granted_id_def)
  moreover have "granted H row" if "released (cr_status row)"
    unfolding granted_def authority_def
    by (intro disjI1 exI [of _ z] exI [of _ "z\<lparr>sys_db := db'\<rparr>"]) (use now new row that in simp)
  ultimately show ?thesis using auth row(1) by (auto simp: auth_inv_def)
qed

lemma decide_grant:
  assumes "decide_check user c True raw db = Inr reason" "rows_ok db"
  shows "\<exists>r \<in> set (pm_requests db). cr_id r = c \<and> request_of db c (cr_dn r) StPending \<and> grant_covers db user (cr_dn r)
    \<and> (\<forall>r' \<in> set (pm_requests db). cr_id r' = c \<longrightarrow> r' = r)"
proof -
  from assms(1) obtain r where r: "get_by_id c db = Some r" "roles_cover_account (approver_role_ids user db) (cr_dn r) db"
    "cr_status r = StPending"
    by (auto simp: decide_check_def Let_def result_simps split: if_splits)
  from r(2) have "grant_covers db user (cr_dn r)"
    by (auto simp: grant_covers_def roles_cover_account_def approver_role_ids_def list_ex_iff)
  with get_by_id_in [OF r(1)] r(3) rows_same_id [OF assms(2)] show ?thesis
    by (intro bexI [of _ r]) (auto simp: request_of_def)
qed

lemma auth_fewer:
  assumes "auth_inv H z" "sys_ops z' = sys_ops z" "set (sys_decisions z') \<subseteq> set (sys_decisions z)"
    and "pm_requests (sys_db z') = pm_requests (sys_db z)"
  shows "auth_inv H z'"
proof -
  have "granted_id H (sys_db z') = granted_id H (sys_db z)" using assms(4) by (simp add: granted_id_def fun_eq_iff)
  with assms show ?thesis unfolding auth_inv_def by (simp add: subset_iff) blast
qed

lemma auth_step:
  assumes "pm_step L z z'" "auth_inv H z" "run_follows H z z'" "pm_inv L z"
  shows "auth_inv H z'"
  using assms
proof (induction rule: pm_step.induct)
  case (decide_read user c approved raw z reason)
  have "granted_id H (sys_db z) c" if approved
  proof -
    from that decide_read(1) have check: "decide_check user c True raw (sys_db z) = Inr reason" by simp
    from decide_read(4) have rows: "rows_ok (sys_db z)" unfolding pm_inv_def by simp
    obtain r where r: "r \<in> set (pm_requests (sys_db z))" "cr_id r = c"
      "request_of (sys_db z) c (cr_dn r) StPending" "grant_covers (sys_db z) user (cr_dn r)" "\<forall>r' \<in> set (pm_requests (sys_db z)). cr_id r' = c \<longrightarrow> r' = r"
      using decide_grant [OF check rows] by (elim bexE conjE)
    have "granted H r"
      unfolding granted_def authority_def
      by (intro disjI2 exI [of _ z] exI [of _ "z\<lparr>sys_decisions := (user, c, approved, reason) # sys_decisions z\<rparr>"] exI [of _ user]
          exI [of _ reason]) (use r(1-4) decide_read(3) that in simp)
    with r show ?thesis unfolding granted_id_def by blast
  qed
  with decide_read.prems(1) show ?case by (auto simp: auth_inv_def)
next
  case (decide_write user c approved reason z env)
  let ?db = "set_decision c user approved reason (sys_db z)"
  have "rows_step (\<lambda>i. approved \<and> i = c) (sys_db z) ?db"
    unfolding set_decision_def by (rule rows_step_update [OF refl]) (auto simp: released_def)
  moreover have "granted_id H (sys_db z) i" if "approved \<and> i = c" for i
    using that decide_write by (auto simp: auth_inv_def)
  ultimately have "auth_inv H (z\<lparr>sys_db := ?db\<rparr>)" by (rule auth_rows_step [OF decide_write.prems(1)])
  then show ?case by (rule auth_fewer) (simp_all add: set_remove1_subset)
next
  case (stale_write c z)
  have "rows_step (\<lambda>_. False) (sys_db z) (set_status c StExpired (sys_db z))"
    unfolding set_status_def by (rule rows_step_update [OF refl]) (auto simp: released_def)
  from auth_rows_step [OF stale_write.prems(1) this] show ?case by (simp add: auth_inv_def)
next
  case (begin_op c z dn x name db' k)
  then have "pm_requests db' = pm_requests (sys_db z)"
    by (auto simp: claim_lock_def Let_def split: option.splits if_splits)
  with begin_op.prems(1) show ?case by (auto simp: auth_inv_def granted_id_def phase_request_def split: if_splits)
next
  case (work x z p env ph' db')
  then show ?case by (intro auth_work) (simp_all add: pm_inv_def)
next
  case (end_op x z p dn)
  have "pm_requests (release_lock (L (trim dn)) x (sys_db z)) = pm_requests (sys_db z)"
    by (simp add: release_lock_def split: option.split)
  with end_op.prems(1) show ?case by (auto simp: auth_inv_def granted_id_def split: if_splits)
next
  case (request z env new_id user body r db')
  then show ?case by (intro auth_request)
next
  case (admin db' z)
  show ?case by (rule auth_fewer [OF admin.prems(1)]) (simp_all add: admin.hyps)
qed (auto simp: auth_inv_def split: if_splits)

lemma auth_inv_Cons: "auth_inv H z \<Longrightarrow> auth_inv (x # H) z"
  unfolding auth_inv_def granted_id_def granted_def by (blast intro: authority_Cons)

lemma run_reach: "pm_run L h \<Longrightarrow> pm_reach L (last h) (hd h)"
  by (induction rule: pm_run.induct) (auto intro: pm_reach.intros)

lemma auth_run: "pm_run L h \<Longrightarrow> fresh_sys (last h) \<Longrightarrow> auth_inv h (hd h)"
proof (induction rule: pm_run.induct)
  case (start y)
  then show ?case by (simp add: auth_inv_def fresh_sys_def)
next
  case (step z h z')
  then have "fresh_sys (last (z # h))" by simp
  with step.IH have "auth_inv (z' # z # h) z" by (auto intro: auth_inv_Cons)
  moreover have "pm_inv L z" using inv_reach [OF run_reach [OF step.hyps(1)] fresh_inv [OF \<open>fresh_sys (last (z # h))\<close>]] by simp
  ultimately show ?case using auth_step [OF step.hyps(2), of "z' # z # h"] by simp
qed

text \<open>C9: no password is released without authority. Take any run of the system from an empty table of requests, in whatever interleaving,
  and a check-out that is active at its end. Then one transition of that very run gave the authority: either the one that created this request,
  when the requester's own mapping to the account let them approve it themselves, or opened the emergency bypass (the
  configuration and every role over the account allow it) for at most half an hour; or one at which someone took up an approval of this request
  while it was pending for this account, holding at that moment a role that covers the account.\<close>

theorem checkout_authorised:
  assumes "pm_run L h" "fresh_sys (last h)" "r \<in> set (pm_requests (sys_db (hd h)))" "cr_status r = StActive"
  shows "authority h (cr_id r) (cr_requester r) (cr_dn r) (cr_duration r)"
  using auth_run [OF assms(1,2)] assms(3,4) by (auto simp: auth_inv_def granted_def released_def)

section \<open>A system with one account\<close>

definition sample_ldap :: ldap_env where
  "sample_ldap = \<lparr>ld_tls = None, ld_connect = None, ld_bind = (\<lambda>_ _ _. Inr (0, [])), ld_search_pre = Inr (0, []),
     ld_modify = Inr (0, []), ld_diag = None, ld_search_post = Inr (0, []), ld_sam = Inr ((0, []), Some ''svc''),
     ld_show = (\<lambda>_. []), ld_hint = (\<lambda>_. None)\<rparr>"

definition pm_sample_env :: "(nat, unit) pm_env" where
  "pm_sample_env = \<lparr>pe_now = 0, pe_lower = (\<lambda>t. t), pe_sql_lower = (\<lambda>t. t), pe_audit = (\<lambda>_. None), pe_seal = (\<lambda>_. Inr ()), pe_unseal = (\<lambda>_. Inr []), pe_seal_setting = Inr,
     pe_unseal_setting = Inr, pe_payload = (\<lambda>_ _ _. Inr []), pe_payload_password = (\<lambda>_. []), pe_pick = (\<lambda>_ _. 0),
     pe_ldap = sample_ldap, pe_new_id = 90\<rparr>"

definition sample_config :: "nat ad_config" where
  "sample_config = \<lparr>cfg_id = 5, cfg_label = ''ad'', cfg_bind_dn = ''b'', cfg_bind_password = ''p'', cfg_tls_skip_verify = False,
     cfg_ca_cert_pem = None, cfg_pm_enabled = True, cfg_pm_bind_user = None, cfg_pm_bind_password = None,
     cfg_policy = default_policy, cfg_auto_rotate = False, cfg_rotate_days = 30, cfg_last_rotated = None, cfg_allow_bypass = False\<rparr>"

definition sample_sys :: "(nat, unit) pm_sys" where
  "sample_sys = \<lparr>sys_db = \<lparr>pm_requests = [], pm_profiles = [],
       pm_mappings = [\<lparr>um_id = 4, um_user = 1, um_dn = ''a'', um_self_approve = False, um_config = Some 5, um_friendly_name = None\<rparr>],
       pm_roles = [\<lparr>ar_id = 7, ar_name = ''r'', ar_allow_bypass = False\<rparr>], pm_role_accounts = [(7, ''a'')],
       pm_assignments = [(2, 7), (3, 7)], pm_configs = [sample_config], pm_locks = [], pm_audit = [], pm_ad = (\<lambda>_. None)\<rparr>,
     sys_ops = [], sys_clock = 0, sys_decisions = [], sys_stale = []\<rparr>"

definition sample_body :: checkout_body where
  "sample_body = \<lparr>rb_dn = ''a'', rb_duration = None, rb_justification = Some ''maintenance'', rb_bypass = None, rb_start = None\<rparr>"

lemmas pm_sample_simps = sample_ldap_def pm_sample_env_def sample_config_def sample_sys_def sample_body_def

text \<open>User 1 asks, approver 3 gets ready to deny, approver 2 approves and the account is activated.\<close>

definition sample_asked :: "(nat, unit) pm_sys" where
  "sample_asked = sample_sys\<lparr>sys_db := snd (request_insert pm_sample_env 10 1 sample_body (sys_db sample_sys))\<rparr>"

definition sample_pending :: "(nat, unit) pm_sys" where
  "sample_pending = sample_asked\<lparr>sys_decisions := [(2, 10, True, None), (3, 10, False, Some ''no'')]\<rparr>"

definition sample_approved :: "(nat, unit) pm_sys" where
  "sample_approved = sample_pending\<lparr>sys_decisions := [(3, 10, False, Some ''no'')],
     sys_db := snd (audit_log pm_sample_env (Some 2) ''checkout.approved'' (set_decision 10 2 True None (sys_db sample_pending)))\<rparr>"

definition sample_active :: "(nat, unit) pm_sys" where
  "sample_active = sample_approved\<lparr>sys_db := snd (activate_checkout pm_sample_env 50 10 (sys_db sample_approved))\<rparr>"

lemmas request_defs = request_insert_def initial_state_def justified_def find_mapping_def has_open_checkout_def insert_request_def
  audit_log_def clamp_def

lemma pm_sample_trim [simp]: "trim ''a'' = ''a''" "trim ''maintenance'' = ''maintenance''" "trim ''no'' = ''no''"
  by (simp_all add: trim_def ascii_space_def wide_space_def)

lemma sample_row: "pm_requests (sys_db sample_asked) =
    [\<lparr>cr_id = 10, cr_requester = 1, cr_dn = ''a'', cr_config = Some 5, cr_status = StPending, cr_duration = 60, cr_approved_by = None,
      cr_justification = ''maintenance'', cr_expires = None, cr_credential = None, cr_created = 0, cr_friendly_name = None,
      cr_emergency = False, cr_start = None, cr_reason = None, cr_pending = None\<rparr>]"
  by (simp add: sample_asked_def request_defs pm_sample_simps Let_def)

lemma sample_rest: "sys_clock sample_asked = 0" "sys_ops sample_asked = []" "sys_stale sample_asked = []" "sys_decisions sample_asked = []"
  "pm_locks (sys_db sample_asked) = []" "pm_configs (sys_db sample_asked) = [sample_config]" "pm_profiles (sys_db sample_asked) = []"
  "pm_role_accounts (sys_db sample_asked) = [(7, ''a'')]" "pm_assignments (sys_db sample_asked) = [(2, 7), (3, 7)]"
  "pm_ad (sys_db sample_asked) = (\<lambda>_. None)"
  by (simp_all add: sample_asked_def request_defs pm_sample_simps Let_def)

lemma pm_sample_env_at: "sys_clock y = 0 \<Longrightarrow> env_at (\<lambda>t. t) y pm_sample_env"
  by (simp add: env_at_def pm_sample_env_def identifies_def)

lemma sample_reach_approved: "pm_reach (\<lambda>t. t) sample_sys sample_approved"
proof -
  have asked: "pm_step (\<lambda>t. t) sample_sys sample_asked"
    unfolding sample_asked_def
    by (rule pm_step.request [OF pm_sample_env_at]) (simp_all add: sample_sys_def prod_eq_iff)
  have check: "decide_check 3 10 False (Some ''no'') (sys_db sample_asked) = Inr (Some ''no'')"
    "decide_check 2 10 True None (sys_db sample_asked) = Inr None"
    by (simp_all add: decide_check_def approver_role_ids_def roles_cover_account_def get_by_id_def sample_row sample_rest
        normal_reason_def nonempty_def chars_count_def as_bytes_def is_cont_def Let_def)
  have "pm_step (\<lambda>t. t) sample_asked (sample_asked\<lparr>sys_decisions := [(3, 10, False, Some ''no'')]\<rparr>)"
    using pm_step.decide_read [OF check(1), of "\<lambda>t. t"] by (simp add: sample_rest)
  moreover have "pm_step (\<lambda>t. t) (sample_asked\<lparr>sys_decisions := [(3, 10, False, Some ''no'')]\<rparr>) sample_pending"
    using pm_step.decide_read [of 2 10 True None "sample_asked\<lparr>sys_decisions := [(3, 10, False, Some ''no'')]\<rparr>" None "\<lambda>t. t"] check(2)
    by (simp add: sample_pending_def)
  moreover have "pm_step (\<lambda>t. t) sample_pending sample_approved"
    using pm_step.decide_write [OF _ pm_sample_env_at, of 2 10 True None sample_pending]
    by (simp add: sample_approved_def) (simp add: sample_pending_def sample_rest)
  ultimately show ?thesis using asked by (metis pm_reach.start pm_reach.step)
qed

lemma sample_activation:
  "fst (activate_checkout pm_sample_env 50 10 (sys_db sample_approved)) = Inr ()"
  "pm_requests (sys_db sample_active) =
    [\<lparr>cr_id = 10, cr_requester = 1, cr_dn = ''a'', cr_config = Some 5, cr_status = StActive, cr_duration = 60, cr_approved_by = Some 2,
      cr_justification = ''maintenance'', cr_expires = Some 3600, cr_credential = Some 90, cr_created = 0, cr_friendly_name = None,
      cr_emergency = False, cr_start = None, cr_reason = None, cr_pending = None\<rparr>]"
  "\<exists>pw. pm_ad (sys_db sample_active) ''a'' = Some pw"
  by (simp_all add: sample_active_def sample_approved_def sample_pending_def set_decision_def update_request_def audit_log_def sample_row
      sample_rest activate_checkout_def checkout_dn_def get_by_id_def with_account_lock_def account_key_def claim_lock_def release_lock_def in_time_def
      activate_checkout_inner_def activation_read_def check_exclusive_def other_holder_def record_pending_def push_password_def
      find_config_def reset_in_ad_def ldap_reset_password_def after_modify_def ldap_success_def verify_bind_def seal_managed_credential_def
      commit_activation_def pm_sample_env_def sample_ldap_def sample_config_def pm_bind_dn_def pm_raw_password_def nonempty_def Let_def split_def)


lemma sample_decision: "(3, 10, False, Some ''no'') \<in> set (sys_decisions sample_active)"
  by (simp add: sample_active_def sample_approved_def)

lemma sample_fresh: "fresh_sys sample_sys"
  by (simp add: fresh_sys_def sample_sys_def)

lemma sample_reach: "pm_reach (\<lambda>t. t) sample_sys sample_active"
proof -
  have approved: "sys_clock sample_approved = 0" "sys_ops sample_approved = []"
    by (simp_all add: sample_approved_def sample_pending_def sample_rest)
  have plan: "\<exists>req. activation_read 10 (sys_db sample_approved) = Inr (Proceed req 5)"
    by (simp add: activation_read_def get_by_id_def sample_approved_def sample_pending_def set_decision_def update_request_def
        sample_row)
  have rows: "rows_ok (sys_db sample_approved)"
    using inv_reach [OF sample_reach_approved fresh_inv [OF sample_fresh]] by (simp add: pm_inv_def)
  have "pm_reach (\<lambda>t. t) sample_approved sample_active"
    unfolding sample_active_def
    using plan by (elim exE, intro activation_simulated [where env = pm_sample_env and x = 50 and c = 10]) (simp_all add: prod_eq_iff sample_activation pm_sample_env_at approved rows)
  then show ?thesis by (rule reach_trans [OF _ sample_reach_approved])
qed

theorem checkout_exclusive_witness:
  "\<exists>r. set (pm_requests (sys_db sample_active)) = {r} \<and> cr_status r = StActive
    \<and> (\<forall>r' \<in> set (pm_requests (sys_db sample_active)). cr_status r' = StActive \<longrightarrow> cr_dn r' = cr_dn r \<longrightarrow> cr_id r' = cr_id r)"
proof -
  obtain r where r: "set (pm_requests (sys_db sample_active)) = {r}" "cr_status r = StActive" by (simp add: sample_activation)
  with checkout_exclusive [OF sample_fresh sample_reach, of _ r] show ?thesis by auto
qed

text \<open>A reachable state is the end of a run.\<close>

lemma reach_run:
  assumes "pm_reach L y z"
  obtains h where "pm_run L h" "last h = y" "hd h = z"
  using assms
proof (induction arbitrary: thesis rule: pm_reach.induct)
  case start
  show ?case by (rule start [of "[y]"]) (simp_all add: pm_run.start)
next
  case (step z z')
  obtain h where h: "pm_run L h" "last h = y" "hd h = z" by (rule step.IH)
  then obtain h' where h': "h = z # h'" by (cases h) (auto elim: pm_run.cases)
  show ?case by (rule step.prems [of "z' # h"]) (use h step.hyps(2) in \<open>auto simp: h' intro: pm_run.step\<close>)
qed

theorem checkout_authorised_witness:
  "\<exists>h. pm_run (\<lambda>t. t) h \<and> last h = sample_sys \<and> hd h = sample_active \<and> authority h 10 1 ''a'' 60"
proof -
  obtain r where r: "r \<in> set (pm_requests (sys_db sample_active))" "cr_status r = StActive" "cr_requester r = 1" "cr_dn r = ''a''"
    "cr_duration r = 60" "cr_id r = 10" by (simp add: sample_activation)
  obtain h where h: "pm_run (\<lambda>t. t) h" "last h = sample_sys" "hd h = sample_active" by (rule reach_run [OF sample_reach])
  with r checkout_authorised [OF h(1), of r] sample_fresh show ?thesis by auto
qed

theorem activation_keeps_password_witness:
  "\<exists>env pw. fst (activate_checkout_inner env 10 (sys_db sample_approved)) \<noteq> Inr ()
    \<and> pm_ad (snd (activate_checkout_inner env 10 (sys_db sample_approved))) = (\<lambda>_. None)(''a'' \<mapsto> pw)
    \<and> recoverable env (10 :: nat) pw (snd (activate_checkout_inner env 10 (sys_db sample_approved)))"
proof -
  let ?env = "pm_sample_env\<lparr>pe_payload := (\<lambda>_ _ _. Inl (Internal ''x''))\<rparr>"
  let ?run = "activate_checkout_inner ?env 10 (sys_db sample_approved)"
  note run_defs = sample_approved_def sample_pending_def set_decision_def update_request_def audit_log_def sample_row
      sample_rest get_by_id_def activate_checkout_inner_def activation_read_def check_exclusive_def other_holder_def
      record_pending_def push_password_def find_config_def reset_in_ad_def ldap_reset_password_def after_modify_def ldap_success_def
      verify_bind_def seal_managed_credential_def pm_sample_env_def sample_ldap_def sample_config_def pm_bind_dn_def
      pm_raw_password_def nonempty_def
  have run: "fst ?run \<noteq> Inr ()" "pm_ad (snd ?run) \<noteq> pm_ad (sys_db sample_approved)"
    by (simp_all add: run_defs Let_def split_def fun_eq_iff)
  obtain req where req: "get_by_id 10 (sys_db sample_approved) = Some req" "cr_dn req = ''a''"
    by (simp add: sample_approved_def sample_pending_def set_decision_def update_request_def sample_row get_by_id_def)
  have ad: "pm_ad (sys_db sample_approved) = (\<lambda>_. None)" "pe_lower ?env ''a'' = ''a''"
    by (simp_all add: sample_approved_def sample_pending_def set_decision_def update_request_def sample_rest pm_sample_env_def)
  have "?run = (fst ?run, snd ?run)" by simp
  from activation_keeps_password [OF this run(2) req(1)] obtain pw where
    pw: "pm_ad (snd ?run) = (\<lambda>_. None)(''a'' \<mapsto> pw)" and kept: "recoverable ?env 10 pw (snd ?run) \<or> delivered 10 (snd ?run)"
    unfolding req(2) ad by blast
  have "\<not> delivered 10 (snd ?run)" by (simp add: delivered_def run_defs Let_def split_def)
  with run(1) pw kept show ?thesis by blast
qed

section \<open>A decision that comes too late\<close>

text \<open>The status a decision checks is not the status it overwrites. Another approver has the same request in hand, and a
  denial that was checked while the request was pending is written after the approval activated it: the row becomes denied
  while the requester's password stays the password of the account. From then on nothing replaces it: no list of the
  background scrub contains the request any more, an expiry does nothing and a check-in is refused.\<close>

lemma late_denial_strands_password:
  assumes "(user, c, False, reason) \<in> set (sys_decisions y)" "env_at L y env0"
    and "r \<in> set (pm_requests (sys_db y))" "cr_id r = c" "cr_status r = StActive"
  shows "\<exists>z. pm_step L y z \<and> pm_ad (sys_db z) = pm_ad (sys_db y)
    \<and> (\<exists>r' \<in> set (pm_requests (sys_db z)). cr_id r' = c \<and> cr_status r' = StDenied \<and> cr_credential r' = cr_credential r)
    \<and> (\<forall>now. c \<notin> set (request_ids (\<lambda>r. overdue now r \<or> stale_request now r \<or> due_scheduled now r) (sys_db z)))
    \<and> (\<forall>env. expire_checkout_inner env c (sys_db z) = (Inr (), sys_db z))
    \<and> (\<forall>env u. \<exists>e. checkin_checkout_inner env c u (sys_db z) = (Inl e, sys_db z))"
proof -
  let ?db = "snd (audit_log env0 (Some user) ''checkout.denied'' (set_decision c user False reason (sys_db y)))"
  let ?z = "y\<lparr>sys_decisions := remove1 (user, c, False, reason) (sys_decisions y), sys_db := ?db\<rparr>"
  have step: "pm_step L y ?z" using pm_step.decide_write [OF assms(1,2)] by simp
  have rows: "pm_requests ?db = map (\<lambda>r. if cr_id r = c
      then r\<lparr>cr_status := StDenied, cr_approved_by := Some user, cr_reason := reason\<rparr> else r) (pm_requests (sys_db y))"
    by (simp add: set_decision_def update_request_def)
  have denied: "cr_status q = StDenied" if "q \<in> set (pm_requests ?db)" "cr_id q = c" for q
    using that unfolding rows set_map by (elim imageE) (simp split: if_splits)
  have row: "\<exists>r' \<in> set (pm_requests ?db). cr_id r' = c \<and> cr_status r' = StDenied \<and> cr_credential r' = cr_credential r"
    unfolding rows set_map bex_simps by (rule bexI [OF _ assms(3)]) (simp add: assms(4))
  then obtain q where q: "get_by_id c ?db = Some q"
    using get_by_id_None [of c ?db] by (cases "get_by_id c ?db") blast+
  have "cr_status q = StDenied" using get_by_id_in [OF q] denied by blast
  with q have expire: "expire_checkout_inner env c ?db = (Inr (), ?db)" for env
    by (simp add: expire_checkout_inner_def)
  have checkin: "\<exists>e. checkin_checkout_inner env c u ?db = (Inl e, ?db)" for env u
  proof (cases "get_owned_by_user c u ?db")
    case (Some q')
    with get_owned_in [OF Some] denied show ?thesis by (simp add: checkin_checkout_inner_def)
  qed (simp add: checkin_checkout_inner_def)
  have lists: "c \<notin> set (request_ids (\<lambda>r. overdue now r \<or> stale_request now r \<or> due_scheduled now r) ?db)" for now
    using denied by (auto simp: request_ids_def overdue_def stale_request_def due_scheduled_def)
  have ad: "pm_ad ?db = pm_ad (sys_db y)" by (simp add: set_decision_def update_request_def)
  show ?thesis by (intro exI [of _ ?z]) (simp add: step row ad lists expire checkin del: audit_fields)
qed

text \<open>An expiry whose directory cannot be reached marks the request expired all the same, and the password stays.\<close>

lemma expiry_gives_up:
  assumes "get_by_id c s = Some req" "cr_status req = StActive" "cr_config req = Some cfg" "find_config cfg s = Inr config"
    and "ld_connect (pe_ldap env) = Some e"
  shows "\<exists>r s'. expire_checkout_inner env c s = (r, s') \<and> pm_ad s' = pm_ad s
    \<and> (\<forall>r \<in> set (pm_requests s'). cr_id r = c \<longrightarrow> cr_status r = StExpired)"
proof -
  have "\<not> snd (ldap_reset_password (pe_ldap env) b w d p skip ca sc)" for b w d p skip ca sc
    using assms(5) by (simp add: ldap_reset_password_def Let_def split: option.split)
  then have unchanged: "snd (reset_in_ad env config b d p sc s) = s" for b d p sc by (simp add: reset_in_ad_def split_def)
  have rows: "pm_requests (expire_profile now cred s) = pm_requests s" "pm_ad (expire_profile now cred s) = pm_ad s" for now cred
    by (simp_all add: expire_profile_def split: option.split)
  let ?p = "audit_log env (Some (cr_requester req)) ''password_checkout.expired''
    (set_status c StExpired (expire_profile (pe_now env) (cr_credential req) s))"
  let ?s' = "snd ?p"
  have run: "expire_checkout_inner env c s = (fst ?p, ?s')"
    unfolding expire_checkout_inner_def Let_def using assms(1-4) by (simp add: unchanged)
  have ad: "pm_ad ?s' = pm_ad s" by (simp add: set_status_def update_request_def rows)
  have st: "\<forall>r \<in> set (pm_requests ?s'). cr_id r = c \<longrightarrow> cr_status r = StExpired"
    by (simp add: set_status_def update_request_def ball_Un)
  show ?thesis by (intro exI conjI) (rule run ad st)+
qed

end
