(* ===== verification/File_Crypto.thy ===== *)
theory File_Crypto
  imports Rust_Text Rust_Std Hash_Map
begin

text \<open>
  Encrypted staged files, \<open>backend/src/services/file_crypto.rs\<close>: a header, then the plaintext in chunks, each sealed with its
  position, a mark on the last one, and the header and the file's id as associated data. The STREAM construction over
  AES-GCM is the parameter \<open>stream_aead\<close>; a chunk sealed at a position is opened at that position. The file system is a map
  from paths to contents, and an operation of it that fails is an argument.
\<close>

section \<open>The cipher\<close>

text \<open>Both functions take key, nonce prefix, position, the mark of the last chunk, associated data and the text.\<close>

record stream_aead =
  sa_seal :: "bytes \<Rightarrow> bytes \<Rightarrow> nat \<Rightarrow> bool \<Rightarrow> bytes \<Rightarrow> bytes \<Rightarrow> bytes option"
  sa_open :: "bytes \<Rightarrow> bytes \<Rightarrow> nat \<Rightarrow> bool \<Rightarrow> bytes \<Rightarrow> bytes \<Rightarrow> bytes option"

text \<open>A sealed chunk is sixteen bytes longer, opens to what was sealed, and sealing is deterministic.\<close>

definition stream_ok :: "stream_aead \<Rightarrow> bool" where
  "stream_ok st \<longleftrightarrow>
     (\<forall>k p i l a m c. sa_seal st k p i l a m = Some c \<longrightarrow> length c = length m + 16)
   \<and> (\<forall>k p i l a m c. sa_seal st k p i l a m = Some c \<longleftrightarrow> sa_open st k p i l a c = Some m)"

text \<open>
  What an authenticated cipher promises of a key: a presented text holds no forgery, so whatever part of it opens under the
  key, in whatever place, was sealed under the key in that place.
\<close>

definition unforged :: "stream_aead \<Rightarrow> bytes \<Rightarrow> bytes \<Rightarrow> (bytes \<times> nat \<times> bool \<times> bytes \<times> bytes) set \<Rightarrow> bool" where
  "unforged st key presented sealed \<longleftrightarrow>
    (\<forall>p i l a c m. sublist c presented \<longrightarrow> sa_open st key p i l a c = Some m \<longrightarrow> (p, i, l, a, m) \<in> sealed)"

section \<open>Files and errors\<close>

datatype file_error = InvalidData str | FileTooLarge str | UnexpectedEof | NoSuchFile | AlreadyExists | IoFault str

type_synonym file_system = "(str, bytes) hmap"

text \<open>What may fail: the reads and writes by their number, the final sync, and the removal of the file begun by an encryption that
  failed, with what is then left of it.\<close>

record io_faults =
  fault_read :: "nat \<Rightarrow> str option"
  fault_write :: "nat \<Rightarrow> str option"
  fault_sync :: "str option"
  fault_unlink :: "bytes option"

definition no_faults :: io_faults where
  "no_faults = \<lparr>fault_read = (\<lambda>_. None), fault_write = (\<lambda>_. None), fault_sync = None, fault_unlink = None\<rparr>"

definition faulty :: "str option \<Rightarrow> file_error + unit" where
  "faulty e = (case e of Some msg \<Rightarrow> Inl (IoFault msg) | None \<Rightarrow> Inr ())"

definition MAGIC :: bytes where "MAGIC = [0x53, 0x54, 0x52, 0x41, 0x54, 0x41, 0x46, 0x02]"
definition CHUNK :: nat where [bound_simps]: "CHUNK = 65536"
definition MAX_CHUNK :: nat where [bound_simps]: "MAX_CHUNK = 1048576"
definition TAG :: nat where [bound_simps]: "TAG = 16"
definition PREFIX :: nat where [bound_simps]: "PREFIX = 7"
definition HEADER_LEN :: nat where [bound_simps]: "HEADER_LEN = 19"

record sealed_file =
  sealed_size :: nat
  sealed_sha256 :: str

definition check_key :: "bytes \<Rightarrow> file_error + unit" where
  "check_key key = (if length key = 32 then Inr () else Inl (InvalidData ''file key must be 32 bytes''))"

definition associated_data :: "bytes \<Rightarrow> bytes \<Rightarrow> bytes" where
  "associated_data header file_id = header @ file_id"

text \<open>Up to \<open>n\<close> bytes, fewer only at the end of the file; the rest of the file follows. Reads are numbered.\<close>

definition read_up_to :: "io_faults \<Rightarrow> nat \<Rightarrow> nat \<Rightarrow> bytes \<Rightarrow> file_error + bytes \<times> bytes" where
  "read_up_to io k n input = and_then (faulty (fault_read io k)) (\<lambda>_. Inr (take n input, drop n input))"

section \<open>Encryption\<close>

text \<open>The chunk in hand, \<open>buf\<close>, is the last one when it is short or nothing follows it.\<close>

function seal_loop ::
    "stream_aead \<Rightarrow> io_faults \<Rightarrow> bytes \<Rightarrow> bytes \<Rightarrow> bytes \<Rightarrow> nat \<Rightarrow> nat \<Rightarrow> nat \<Rightarrow> bytes \<Rightarrow> bytes \<Rightarrow> bytes \<Rightarrow> file_error + nat \<times> bytes" where
  "seal_loop st io key nonce aad limit i done_bytes buf input out =
    (let total_bytes = done_bytes + length buf in
     if total_bytes > limit then Inl (FileTooLarge ''file exceeds maximum allowed size'')
     else
       case (if length buf = CHUNK then read_up_to io (i + 1) CHUNK input else Inr ([], input)) of
         Inl e \<Rightarrow> Inl e
       | Inr (ahead, input') \<Rightarrow>
           case sa_seal st key nonce i (ahead = []) aad buf of
             None \<Rightarrow> Inl (InvalidData ''encryption failed'')
           | Some c \<Rightarrow>
               (case faulty (fault_write io (i + 1)) of
                  Inl e \<Rightarrow> Inl e
                | Inr _ \<Rightarrow>
                    if ahead = [] then Inr (total_bytes, out @ c)
                    else seal_loop st io key nonce aad limit (i + 1) total_bytes ahead input' (out @ c)))"
  by pat_completeness auto
termination
  by (relation "measure (\<lambda>(st, io, key, nonce, aad, limit, i, done_bytes, buf, input, out). length input)")
    (auto simp: read_up_to_def bound_simps result_simps split: if_splits)

declare seal_loop.simps [simp del]

definition file_header :: "bytes \<Rightarrow> bytes" where
  "file_header nonce = MAGIC @ u32_be (of_nat CHUNK) @ nonce"

definition write_sealed ::
    "stream_aead \<Rightarrow> (bytes \<Rightarrow> bytes) \<Rightarrow> io_faults \<Rightarrow> bytes \<Rightarrow> bytes \<Rightarrow> bytes \<Rightarrow> bytes \<Rightarrow> nat \<Rightarrow> file_error + sealed_file \<times> bytes" where
  "write_sealed st sha256 io nonce input key file_id limit =
    (let header = file_header nonce in
     and_then (faulty (fault_write io 0)) (\<lambda>_.
     and_then (check_key key) (\<lambda>_.
     and_then (read_up_to io 0 CHUNK input) (\<lambda>(ahead, input').
     and_then (seal_loop st io key nonce (associated_data header file_id) limit 0 0 ahead input' header) (\<lambda>(done_bytes, out).
     and_then (faulty (fault_sync io)) (\<lambda>_.
       Inr (\<lparr>sealed_size = done_bytes, sealed_sha256 = hex_encode (sha256 input)\<rparr>, out)))))))"

definition encrypt_file ::
    "stream_aead \<Rightarrow> (bytes \<Rightarrow> bytes) \<Rightarrow> io_faults \<Rightarrow> bytes \<Rightarrow> str \<Rightarrow> str \<Rightarrow> bytes \<Rightarrow> bytes \<Rightarrow> nat \<Rightarrow> file_system
      \<Rightarrow> (file_error + sealed_file) \<times> file_system" where
  "encrypt_file st sha256 io nonce src dst key file_id limit fs =
    and_do (ok_or (hm_get src fs) NoSuchFile, fs) (\<lambda>input fs.
      if hm_contains dst fs then (Inl AlreadyExists, fs)
      else
        let fs1 = hm_insert dst [] fs in
        case write_sealed st sha256 io nonce input key file_id limit of
          Inr (info, out) \<Rightarrow> (Inr info, hm_insert dst out fs1)
        | Inl e \<Rightarrow> (Inl e, case fault_unlink io of None \<Rightarrow> hm_remove dst fs1 | Some partial \<Rightarrow> hm_insert dst partial fs1))"

section \<open>Decryption\<close>

record opened =
  od_nonce :: bytes
  od_aad :: bytes
  od_frame :: nat

definition open_header :: "bytes \<Rightarrow> bytes \<Rightarrow> bytes \<Rightarrow> file_error + opened" where
  "open_header header key file_id =
    (if take 8 header \<noteq> MAGIC then Inl (InvalidData ''not an encrypted file of a known format'')
     else
       let chunk = unat (u32_of_be (take 4 (drop 8 header))) in
       if chunk = 0 \<or> chunk > MAX_CHUNK then Inl (InvalidData ''bad chunk size'')
       else
         and_then (check_key key) (\<lambda>_.
           Inr \<lparr>od_nonce = drop 12 header, od_aad = associated_data header file_id, od_frame = chunk + TAG\<rparr>))"

definition tampered :: file_error where
  "tampered = InvalidData ''encrypted file failed authentication''"

definition read_header :: "bytes \<Rightarrow> file_error + bytes \<times> bytes" where
  "read_header input = (if length input < HEADER_LEN then Inl UnexpectedEof else Inr (take HEADER_LEN input, drop HEADER_LEN input))"

function verify_loop :: "stream_aead \<Rightarrow> io_faults \<Rightarrow> bytes \<Rightarrow> opened \<Rightarrow> nat \<Rightarrow> nat \<Rightarrow> bytes \<Rightarrow> bytes \<Rightarrow> file_error + nat" where
  "verify_loop st io key o' i done_bytes buf input =
    (case (if length buf = od_frame o' then read_up_to io (i + 1) (od_frame o') input else Inr ([], input)) of
       Inl e \<Rightarrow> Inl e
     | Inr (ahead, input') \<Rightarrow>
         case sa_open st key (od_nonce o') i (ahead = []) (od_aad o') buf of
           None \<Rightarrow> Inl tampered
         | Some m \<Rightarrow>
             if ahead = [] then Inr (done_bytes + length m)
             else verify_loop st io key o' (i + 1) (done_bytes + length m) ahead input')"
  by pat_completeness auto
termination
proof (relation "measure (\<lambda>(st, io, key, o', i, done_bytes, buf, input). length input)")
qed (auto simp: read_up_to_def result_simps split: if_splits)

declare verify_loop.simps [simp del]

definition verify_file ::
    "stream_aead \<Rightarrow> io_faults \<Rightarrow> str \<Rightarrow> bytes \<Rightarrow> bytes \<Rightarrow> nat \<Rightarrow> file_system \<Rightarrow> file_error + unit" where
  "verify_file st io path key file_id expected_size fs =
    and_then (ok_or (hm_get path fs) NoSuchFile) (\<lambda>content.
    and_then (read_header content) (\<lambda>(header, input).
    and_then (open_header header key file_id) (\<lambda>o'.
    and_then (read_up_to io 0 (od_frame o') input) (\<lambda>(ahead, input').
    and_then (verify_loop st io key o' 0 0 ahead input') (\<lambda>done_bytes.
      if done_bytes \<noteq> expected_size then Inl (InvalidData ''encrypted file has the wrong length'') else Inr ())))))"

text \<open>The items a reader of the stream gets, up to its end or its first error.\<close>

function stream_items ::
    "stream_aead \<Rightarrow> io_faults \<Rightarrow> bytes \<Rightarrow> opened \<Rightarrow> nat \<Rightarrow> bytes \<Rightarrow> bytes \<Rightarrow> (file_error + bytes) list" where
  "stream_items st io key o' i buf input =
    (case (if length buf = od_frame o' then read_up_to io (i + 1) (od_frame o') input else Inr ([], input)) of
       Inl e \<Rightarrow> [Inl e]
     | Inr (ahead, input') \<Rightarrow>
         case sa_open st key (od_nonce o') i (ahead = []) (od_aad o') buf of
           None \<Rightarrow> [Inl tampered]
         | Some m \<Rightarrow> Inr m # (if ahead = [] then [] else stream_items st io key o' (i + 1) ahead input'))"
  by pat_completeness auto
termination
proof (relation "measure (\<lambda>(st, io, key, o', i, buf, input). length input)")
qed (auto simp: read_up_to_def result_simps split: if_splits)

declare stream_items.simps [simp del]

definition decrypt_stream ::
    "stream_aead \<Rightarrow> io_faults \<Rightarrow> bytes \<Rightarrow> bytes \<Rightarrow> bytes \<Rightarrow> file_error + (file_error + bytes) list" where
  "decrypt_stream st io content key file_id =
    and_then (read_header content) (\<lambda>(header, input).
    and_then (open_header header key file_id) (\<lambda>o'.
    and_then (read_up_to io 0 (od_frame o') input) (\<lambda>(ahead, input').
      Inr (stream_items st io key o' 0 ahead input'))))"

section \<open>Chunks\<close>

text \<open>How a text is cut: one empty piece when it is empty, else full pieces and a rest.\<close>

definition pieces :: "nat \<Rightarrow> bytes \<Rightarrow> bytes list" where
  "pieces n x = (if x = [] then [[]] else chunks n x)"

lemma pieces_step: "0 < n \<Longrightarrow> pieces n x = take n x # (if length x > n then pieces n (drop n x) else [])"
  by (auto simp: pieces_def chunks_unfold)

lemma pieces_nonempty [simp]: "0 < n \<Longrightarrow> pieces n x \<noteq> []"
  by (subst pieces_step) simp_all

lemma concat_pieces [simp]: "0 < n \<Longrightarrow> concat (pieces n x) = x"
  by (simp add: pieces_def)

definition framed :: "nat \<Rightarrow> bytes list \<Rightarrow> bool" where
  "framed n cs \<longleftrightarrow> cs \<noteq> [] \<and> (\<forall>c \<in> set (butlast cs). length c = n) \<and> length (last cs) \<le> n"

lemma pieces_sublist: "0 < n \<Longrightarrow> c \<in> set (pieces n x) \<Longrightarrow> sublist c x"
  by (metis concat_pieces concat_append concat.simps(2) split_list sublist_appendI)

lemma framed_pieces: "0 < n \<Longrightarrow> framed n (pieces n x)"
proof (induction x rule: length_induct)
  case (1 x)
  show ?case
  proof (cases "length x > n")
    case True
    with 1 have "framed n (pieces n (drop n x))" by simp
    with True show ?thesis unfolding pieces_step [OF "1.prems", of x] by (simp add: framed_def)
  next
    case False
    then show ?thesis unfolding pieces_step [OF "1.prems", of x] by (simp add: framed_def)
  qed
qed

lemma pieces_concat: "framed n cs \<Longrightarrow> last cs \<noteq> [] \<Longrightarrow> 0 < n \<Longrightarrow> pieces n (concat cs) = cs"
proof (induction cs)
  case (Cons c cs)
  show ?case
  proof (cases "cs = []")
    case True
    with Cons.prems show ?thesis by (subst pieces_step) (simp_all add: framed_def)
  next
    case False
    with Cons.prems have "length c = n" "framed n cs" by (auto simp: framed_def)
    moreover have "concat cs \<noteq> []" using False Cons.prems(2) by (auto simp: concat_eq_Nil_conv dest: last_in_set)
    ultimately show ?thesis using Cons.IH Cons.prems False by (subst pieces_step) simp_all
  qed
qed (simp add: framed_def)

lemma ahead_empty:
  "(if length (take n x) = n then take n (drop n x) else []) = (if length x > n then take n (drop n x) else [])"
  by auto

fun seal_list :: "stream_aead \<Rightarrow> bytes \<Rightarrow> bytes \<Rightarrow> bytes \<Rightarrow> nat \<Rightarrow> bytes list \<Rightarrow> bytes list option" where
  "seal_list st key nonce aad i [] = Some []"
| "seal_list st key nonce aad i (m # ms) =
    (case sa_seal st key nonce i (ms = []) aad m of
       None \<Rightarrow> None
     | Some c \<Rightarrow> map_option (\<lambda>cs. c # cs) (seal_list st key nonce aad (i + 1) ms))"

fun open_list :: "stream_aead \<Rightarrow> bytes \<Rightarrow> bytes \<Rightarrow> bytes \<Rightarrow> nat \<Rightarrow> bytes list \<Rightarrow> bytes list option" where
  "open_list st key nonce aad i [] = Some []"
| "open_list st key nonce aad i (c # cs) =
    (case sa_open st key nonce i (cs = []) aad c of
       None \<Rightarrow> None
     | Some m \<Rightarrow> map_option (\<lambda>ms. m # ms) (open_list st key nonce aad (i + 1) cs))"

fun open_items :: "stream_aead \<Rightarrow> bytes \<Rightarrow> bytes \<Rightarrow> bytes \<Rightarrow> nat \<Rightarrow> bytes list \<Rightarrow> (file_error + bytes) list" where
  "open_items st key nonce aad i [] = []"
| "open_items st key nonce aad i (c # cs) =
    (case sa_open st key nonce i (cs = []) aad c of
       None \<Rightarrow> [Inl tampered]
     | Some m \<Rightarrow> Inr m # open_items st key nonce aad (i + 1) cs)"

lemma seal_list_length: "seal_list st key nonce aad i ms = Some cs \<Longrightarrow> length cs = length ms"
  by (induction ms arbitrary: i cs) (auto split: option.splits)

lemma open_list_length: "open_list st key nonce aad i cs = Some ms \<Longrightarrow> length ms = length cs"
  by (induction cs arbitrary: i ms) (auto split: option.splits)

lemma seal_open:
  assumes "stream_ok st"
  shows "seal_list st key nonce aad i ms = Some cs \<longleftrightarrow> open_list st key nonce aad i cs = Some ms"
proof (induction ms arbitrary: i cs)
  case Nil
  show ?case using open_list_length [of st key nonce aad i cs "[]"] by (cases cs) auto
next
  case (Cons m ms)
  show ?case
  proof (cases cs)
    case Nil
    then show ?thesis by (auto split: option.splits)
  next
    case (Cons c cs')
    have same: "ms = [] \<longleftrightarrow> cs' = []" if "seal_list st key nonce aad (i + 1) ms = Some cs'" using seal_list_length [OF that] by auto
    have "seal_list st key nonce aad i (m # ms) = Some cs \<longleftrightarrow>
        sa_seal st key nonce i (ms = []) aad m = Some c \<and> seal_list st key nonce aad (i + 1) ms = Some cs'"
      unfolding Cons by (auto split: option.splits)
    also have "\<dots> \<longleftrightarrow> sa_open st key nonce i (cs' = []) aad c = Some m \<and> seal_list st key nonce aad (i + 1) ms = Some cs'"
      using assms same by (auto simp: stream_ok_def)
    also have "\<dots> \<longleftrightarrow> open_list st key nonce aad i cs = Some (m # ms)"
      unfolding Cons Cons.IH by (auto split: option.splits)
    finally show ?thesis .
  qed
qed

lemma seal_list_lengths:
  "stream_ok st \<Longrightarrow> seal_list st key nonce aad i ms = Some cs \<Longrightarrow> map length cs = map (\<lambda>m. length m + 16) ms"
  by (induction ms arbitrary: i cs) (auto simp: stream_ok_def split: option.splits)

lemma framed_sealed:
  assumes "stream_ok st" "seal_list st key nonce aad i ms = Some cs" "framed n ms"
  shows "framed (n + 16) cs \<and> last cs \<noteq> []"
proof -
  have len: "map length cs = map (\<lambda>m. length m + 16) ms" by (rule seal_list_lengths [OF assms(1,2)])
  then have "map length (butlast cs) = map (\<lambda>m. length m + 16) (butlast ms)" by (metis map_butlast)
  moreover have "cs \<noteq> []" "ms \<noteq> []" using assms(3) len by (auto simp: framed_def)
  then have "length (last cs) = length (last ms) + 16" using len by (metis last_map)
  moreover have "\<forall>c \<in> set (butlast cs). length c = n + 16"
  proof
    fix c assume "c \<in> set (butlast cs)"
    then have "length c \<in> set (map (\<lambda>m. length m + 16) (butlast ms))"
      using \<open>map length (butlast cs) = _\<close> by (metis image_eqI set_map)
    with assms(3) show "length c = n + 16" by (auto simp: framed_def)
  qed
  ultimately show ?thesis using assms(3) \<open>cs \<noteq> []\<close> by (auto simp: framed_def)
qed

section \<open>The loops cut into chunks\<close>

lemma seal_loop_sealed:
  assumes "seal_loop st io key nonce aad limit i n (take CHUNK x) (drop CHUNK x) out = Inr (k, res)"
  shows "\<exists>cs. seal_list st key nonce aad i (pieces CHUNK x) = Some cs \<and> res = out @ concat cs \<and> k = n + length x \<and> k \<le> limit"
  using assms
proof (induction x arbitrary: i n out rule: length_induct)
  case (1 x)
  let ?more = "length x > CHUNK"
  have pos: "0 < CHUNK" by (simp add: bound_simps)
  note step = "1.prems" [unfolded seal_loop.simps [of st io key nonce aad limit i n "take CHUNK x"]]
  have split: "(if length (take CHUNK x) = CHUNK then read_up_to io (i + 1) CHUNK (drop CHUNK x) else Inr ([], drop CHUNK x))
      = Inr (ahead, rest) \<Longrightarrow> (ahead = [] \<longleftrightarrow> \<not> ?more) \<and> (?more \<longrightarrow> ahead = take CHUNK (drop CHUNK x) \<and> rest = drop CHUNK (drop CHUNK x))"
    for ahead rest using pos by (auto simp: read_up_to_def result_simps split: if_splits)
  obtain ahead rest c where rd: "(if length (take CHUNK x) = CHUNK then read_up_to io (i + 1) CHUNK (drop CHUNK x)
      else Inr ([], drop CHUNK x)) = Inr (ahead, rest)" and c: "sa_seal st key nonce i (ahead = []) aad (take CHUNK x) = Some c"
    and lim: "n + length (take CHUNK x) \<le> limit"
    and tail: "(if ahead = [] then Inr (n + length (take CHUNK x), out @ c)
      else seal_loop st io key nonce aad limit (i + 1) (n + length (take CHUNK x)) ahead rest (out @ c)) = Inr (k, res)"
    using step by (auto simp: Let_def split: sum.splits option.splits if_splits prod.splits)
  note s = split [OF rd]
  show ?case
  proof (cases ?more)
    case False
    with s c tail lim show ?thesis by (subst pieces_step [OF pos]) auto
  next
    case True
    with s have a: "ahead \<noteq> []" "ahead = take CHUNK (drop CHUNK x)" "rest = drop CHUNK (drop CHUNK x)" by auto
    have c': "sa_seal st key nonce i False aad (take CHUNK x) = Some c" using c a(1) by simp
    have len: "length (take CHUNK x) = CHUNK" using True by simp
    have "seal_loop st io key nonce aad limit (i + 1) (n + CHUNK) (take CHUNK (drop CHUNK x)) (drop CHUNK (drop CHUNK x)) (out @ c)
      = Inr (k, res)" using tail unfolding if_not_P [OF a(1)] len unfolding a(2,3) .
    moreover have "length (drop CHUNK x) < length x" using True pos by simp
    ultimately obtain cs where "seal_list st key nonce aad (i + 1) (pieces CHUNK (drop CHUNK x)) = Some cs"
      "res = (out @ c) @ concat cs" "k = n + CHUNK + length (drop CHUNK x)" "k \<le> limit"
      using "1.IH" by blast
    with True c' show ?thesis
      unfolding pieces_step [OF pos, of x] by (intro exI [of _ "c # cs"]) (simp add: pos)
  qed
qed


lemma frame_read:
  assumes "(if length (take n x) = n then read_up_to io k n (drop n x) else Inr ([], drop n x)) = Inr (ahead, rest)" "0 < n"
  shows "(ahead = [] \<longleftrightarrow> length x \<le> n) \<and> (length x > n \<longrightarrow> ahead = take n (drop n x) \<and> rest = drop n (drop n x))"
  using assms by (auto simp: read_up_to_def result_simps split: if_splits)

lemma frame_read_ok:
  "(if length (take n x) = n then read_up_to no_faults k n (drop n x) else Inr ([], drop n x))
    = Inr (if length x > n then take n (drop n x) else [], if length (take n x) = n then drop n (drop n x) else drop n x)"
  by (simp add: read_up_to_def no_faults_def faulty_def)

lemma verify_loop_opens:
  assumes "verify_loop st io key o' i n (take (od_frame o') x) (drop (od_frame o') x) = Inr k" "0 < od_frame o'"
  shows "\<exists>ms. open_list st key (od_nonce o') (od_aad o') i (pieces (od_frame o') x) = Some ms \<and> k = n + sum_list (map length ms)"
  using assms(1)
proof (induction x arbitrary: i n rule: length_induct)
  case (1 x)
  let ?f = "od_frame o'"
  obtain ahead rest m where rd: "(if length (take ?f x) = ?f then read_up_to io (i + 1) ?f (drop ?f x) else Inr ([], drop ?f x)) = Inr (ahead, rest)"
    and m: "sa_open st key (od_nonce o') i (ahead = []) (od_aad o') (take ?f x) = Some m"
    and tail: "(if ahead = [] then Inr (n + length m) else verify_loop st io key o' (i + 1) (n + length m) ahead rest) = Inr k"
    using "1.prems" [unfolded verify_loop.simps [of st io key o' i n "take ?f x"]]
    by (auto split: sum.splits option.splits prod.splits)
  note s = frame_read [OF rd assms(2)]
  show ?case
  proof (cases "length x > ?f")
    case True
    with s have a: "ahead \<noteq> []" "ahead = take ?f (drop ?f x)" "rest = drop ?f (drop ?f x)" by auto
    have m': "sa_open st key (od_nonce o') i False (od_aad o') (take ?f x) = Some m" using m a(1) by simp
    have "verify_loop st io key o' (i + 1) (n + length m) (take ?f (drop ?f x)) (drop ?f (drop ?f x)) = Inr k"
      using tail unfolding if_not_P [OF a(1)] unfolding a(2,3) .
    moreover have "length (drop ?f x) < length x" using True assms(2) by simp
    ultimately obtain ms where "open_list st key (od_nonce o') (od_aad o') (i + 1) (pieces ?f (drop ?f x)) = Some ms"
      "k = n + length m + sum_list (map length ms)" using "1.IH" by blast
    with True m' show ?thesis
      unfolding pieces_step [OF assms(2), of x] by (intro exI [of _ "m # ms"]) (simp add: assms(2))
  qed (use s m tail in \<open>subst pieces_step [OF assms(2)], auto\<close>)
qed

lemma verify_loop_ok:
  assumes "open_list st key (od_nonce o') (od_aad o') i (pieces (od_frame o') x) = Some ms" "0 < od_frame o'"
  shows "verify_loop st no_faults key o' i n (take (od_frame o') x) (drop (od_frame o') x) = Inr (n + sum_list (map length ms))"
  using assms(1)
proof (induction x arbitrary: i n ms rule: length_induct)
  case (1 x)
  let ?f = "od_frame o'"
  note unfold = verify_loop.simps [of st no_faults key o' i n "take ?f x"] frame_read_ok
  show ?case
  proof (cases "length x > ?f")
    case True
    with "1.prems" obtain m ms' where m: "sa_open st key (od_nonce o') i False (od_aad o') (take ?f x) = Some m"
      and ms': "open_list st key (od_nonce o') (od_aad o') (i + 1) (pieces ?f (drop ?f x)) = Some ms'" "ms = m # ms'"
      unfolding pieces_step [OF assms(2), of x] by (auto simp: assms(2) split: option.splits)
    have "length (drop ?f x) < length x" using True assms(2) by simp
    with "1.IH" ms'(1) have "verify_loop st no_faults key o' (i + 1) (n + length m) (take ?f (drop ?f x)) (drop ?f (drop ?f x))
      = Inr (n + length m + sum_list (map length ms'))" by blast
    with True m ms'(2) assms(2) show ?thesis unfolding unfold by simp
  next
    case False
    with "1.prems" show ?thesis unfolding pieces_step [OF assms(2), of x] unfold by (auto split: option.splits)
  qed
qed

lemma stream_items_ok:
  assumes "0 < od_frame o'"
  shows "stream_items st no_faults key o' i (take (od_frame o') x) (drop (od_frame o') x)
    = open_items st key (od_nonce o') (od_aad o') i (pieces (od_frame o') x)"
proof (induction x arbitrary: i rule: length_induct)
  case (1 x)
  let ?f = "od_frame o'"
  note unfold = stream_items.simps [of st no_faults key o' i "take ?f x"] frame_read_ok
  show ?case
  proof (cases "length x > ?f")
    case True
    then have "length (drop ?f x) < length x" using assms by simp
    with "1.IH" have "stream_items st no_faults key o' (i + 1) (take ?f (drop ?f x)) (drop ?f (drop ?f x))
      = open_items st key (od_nonce o') (od_aad o') (i + 1) (pieces ?f (drop ?f x))" by blast
    with True assms show ?thesis
      unfolding pieces_step [OF assms, of x] unfold by (simp split: option.split)
  next
    case False
    then show ?thesis unfolding pieces_step [OF assms, of x] unfold by (simp split: option.split)
  qed
qed

section \<open>What opens was sealed\<close>

definition sealed_chunks :: "bytes \<Rightarrow> bytes \<Rightarrow> bytes list \<Rightarrow> (bytes \<times> nat \<times> bool \<times> bytes \<times> bytes) set" where
  "sealed_chunks nonce aad ps = (\<lambda>i. (nonce, i, i + 1 = length ps, aad, ps ! i)) ` {..<length ps}"

lemma unforged_open:
  assumes "unforged st key presented (sealed_chunks nonce aad ps)" "sublist c presented" "sa_open st key n' i l a' c = Some m"
  shows "n' = nonce \<and> a' = aad \<and> i < length ps \<and> (l \<longleftrightarrow> i + 1 = length ps) \<and> m = ps ! i"
proof -
  have "(n', i, l, a', m) \<in> sealed_chunks nonce aad ps" using assms unfolding unforged_def by blast
  then show ?thesis by (auto simp: sealed_chunks_def)
qed

lemma opened_is_original:
  assumes "unforged st key presented (sealed_chunks nonce aad ps)"
  shows "cs \<noteq> [] \<Longrightarrow> \<forall>c \<in> set cs. sublist c presented \<Longrightarrow> open_list st key n' a' i cs = Some ms \<Longrightarrow> n' = nonce \<and> a' = aad \<and> ms = drop i ps"
proof (induction cs arbitrary: i ms)
  case (Cons c cs)
  then obtain m ms' where m: "sa_open st key n' i (cs = []) a' c = Some m" and ms': "open_list st key n' a' (i + 1) cs = Some ms'" "ms = m # ms'"
    by (auto split: option.splits)
  have "sublist c presented" using Cons.prems(2) by simp
  note place = unforged_open [OF assms this m]
  show ?case
  proof (cases "cs = []")
    case True
    with place ms' show ?thesis by (simp add: Cons_nth_drop_Suc [symmetric])
  next
    case False
    with Cons.IH [OF False _ ms'(1)] Cons.prems(2) place ms'(2) show ?thesis by (simp add: Cons_nth_drop_Suc [symmetric])
  qed
qed simp

definition oks :: "('e + 'a) list \<Rightarrow> 'a list" where
  "oks items = map projr (filter is_ok items)"

lemma oks_simps [simp]: "oks [] = []" "oks (Inl e # items) = oks items" "oks (Inr m # items) = m # oks items" "oks (map Inr ms) = ms"
  by (simp_all add: oks_def comp_def filter_map)

lemma stream_items_sound:
  assumes "unforged st key presented (sealed_chunks nonce aad ps)" "0 < od_frame o'" "sublist x presented"
  shows "prefix (oks (stream_items st io key o' i (take (od_frame o') x) (drop (od_frame o') x))) (drop i ps)
    \<and> (list_all is_ok (stream_items st io key o' i (take (od_frame o') x) (drop (od_frame o') x)) \<longrightarrow>
        open_list st key (od_nonce o') (od_aad o') i (pieces (od_frame o') x)
          = Some (oks (stream_items st io key o' i (take (od_frame o') x) (drop (od_frame o') x))))"
  using assms(3)
proof (induction x arbitrary: i rule: length_induct)
  case (1 x)
  have sub: "sublist (take (od_frame o') x) presented" "sublist (drop (od_frame o') x) presented"
    using "1.prems" by (meson sublist_order.order.trans sublist_take sublist_drop)+
  let ?f = "od_frame o'"
  let ?rd = "if length (take ?f x) = ?f then read_up_to io (i + 1) ?f (drop ?f x) else Inr ([], drop ?f x)"
  note unfold = stream_items.simps [of st io key o' i "take ?f x"]
  show ?case
  proof (cases ?rd)
    case (Inl e)
    then show ?thesis unfolding unfold by simp
  next
    case (Inr p)
    obtain ahead rest where p: "p = (ahead, rest)" by (cases p)
    note s = frame_read [OF Inr [unfolded p] assms(2)]
    show ?thesis
    proof (cases "sa_open st key (od_nonce o') i (ahead = []) (od_aad o') (take ?f x)")
      case None
      then show ?thesis unfolding unfold Inr p by simp
    next
      case (Some m)
      note place = unforged_open [OF assms(1) sub(1) Some]
      have here: "drop i ps = m # drop (i + 1) ps" using place by (simp add: Cons_nth_drop_Suc [symmetric])
      show ?thesis
      proof (cases "length x > ?f")
        case True
        with s have a: "ahead \<noteq> []" "ahead = take ?f (drop ?f x)" "rest = drop ?f (drop ?f x)" by auto
        have "length (drop ?f x) < length x" using True assms(2) by simp
        note IH = "1.IH" [rule_format, OF this sub(2), of "i + 1"]
        have m': "sa_open st key (od_nonce o') i False (od_aad o') (take ?f x) = Some m" using Some a(1) by simp
        have items: "stream_items st io key o' i (take ?f x) (drop ?f x)
            = Inr m # stream_items st io key o' (i + 1) (take ?f (drop ?f x)) (drop ?f (drop ?f x))"
          unfolding unfold Inr p prod.case sum.case Some option.case if_not_P [OF a(1)] unfolding a(2,3) by (rule refl)
        show ?thesis unfolding items here pieces_step [OF assms(2), of x] using IH True m' by (simp add: assms(2))
      next
        case False
        with s Some have "ahead = []" "sa_open st key (od_nonce o') i True (od_aad o') (take ?f x) = Some m" by auto
        with False show ?thesis unfolding unfold Inr p here pieces_step [OF assms(2), of x] by simp
      qed
    qed
  qed
qed


section \<open>Properties\<close>

lemma header_length: "length nonce = PREFIX \<Longrightarrow> length (file_header nonce) = HEADER_LEN"
  by (simp add: file_header_def MAGIC_def bound_simps)

lemma open_own_header:
  assumes "length nonce = PREFIX" "length key = 32"
  shows "open_header (file_header nonce) key file_id
    = Inr \<lparr>od_nonce = nonce, od_aad = associated_data (file_header nonce) file_id, od_frame = CHUNK + TAG\<rparr>"
  using assms by (simp add: open_header_def file_header_def MAGIC_def check_key_def Let_def bound_simps)

lemma write_sealed_cases:
  assumes "write_sealed st sha256 io nonce plain key file_id limit = Inr (info, file)"
  obtains cs where "length key = 32" "sealed_size info = length plain" "length plain \<le> limit"
    "seal_list st key nonce (associated_data (file_header nonce) file_id) 0 (pieces CHUNK plain) = Some cs"
    "file = file_header nonce @ concat cs"
proof -
  from assms obtain k where key: "length key = 32" and info: "sealed_size info = k"
    and run: "seal_loop st io key nonce (associated_data (file_header nonce) file_id) limit 0 0 (take CHUNK plain) (drop CHUNK plain)
      (file_header nonce) = Inr (k, file)"
    by (auto simp: write_sealed_def Let_def result_simps read_up_to_def check_key_def split: if_splits)
  from seal_loop_sealed [OF run] key info that show thesis by auto
qed

lemma open_header_frame: "open_header header key file_id = Inr o' \<Longrightarrow> 0 < od_frame o' \<and> od_aad o' = header @ file_id"
  by (auto simp: open_header_def Let_def result_simps associated_data_def bound_simps split: if_splits)

text \<open>Reads that fail cut the stream of a genuine file short and change nothing else.\<close>

lemma stream_items_genuine:
  assumes "open_list st key (od_nonce o') (od_aad o') i (pieces (od_frame o') x) = Some ms" "0 < od_frame o'"
  shows "prefix (oks (stream_items st io key o' i (take (od_frame o') x) (drop (od_frame o') x))) ms
    \<and> (list_all is_ok (stream_items st io key o' i (take (od_frame o') x) (drop (od_frame o') x)) \<longrightarrow>
        oks (stream_items st io key o' i (take (od_frame o') x) (drop (od_frame o') x)) = ms)"
  using assms(1)
proof (induction x arbitrary: i ms rule: length_induct)
  case (1 x)
  let ?f = "od_frame o'"
  let ?rd = "if length (take ?f x) = ?f then read_up_to io (i + 1) ?f (drop ?f x) else Inr ([], drop ?f x)"
  note unfold = stream_items.simps [of st io key o' i "take ?f x"]
  show ?case
  proof (cases ?rd)
    case (Inl e)
    then show ?thesis unfolding unfold by simp
  next
    case (Inr p)
    obtain ahead rest where p: "p = (ahead, rest)" by (cases p)
    note s = frame_read [OF Inr [unfolded p] assms(2)]
    show ?thesis
    proof (cases "length x > ?f")
      case True
      with "1.prems" obtain m ms' where m: "sa_open st key (od_nonce o') i False (od_aad o') (take ?f x) = Some m"
        and ms': "open_list st key (od_nonce o') (od_aad o') (i + 1) (pieces ?f (drop ?f x)) = Some ms'" "ms = m # ms'"
        unfolding pieces_step [OF assms(2), of x] by (auto simp: assms(2) split: option.splits)
      from True s have a: "ahead \<noteq> []" "ahead = take ?f (drop ?f x)" "rest = drop ?f (drop ?f x)" by auto
      have "length (drop ?f x) < length x" using True assms(2) by simp
      note IH = "1.IH" [rule_format, OF this ms'(1)]
      have m': "sa_open st key (od_nonce o') i (ahead = []) (od_aad o') (take ?f x) = Some m" using m a(1) by simp
      have items: "stream_items st io key o' i (take ?f x) (drop ?f x)
          = Inr m # stream_items st io key o' (i + 1) (take ?f (drop ?f x)) (drop ?f (drop ?f x))"
        unfolding unfold Inr p prod.case sum.case m' option.case if_not_P [OF a(1)] unfolding a(2,3) by (rule refl)
      show ?thesis unfolding items ms'(2) using IH by simp
    next
      case False
      with s have "ahead = []" by simp
      moreover obtain m where "sa_open st key (od_nonce o') i True (od_aad o') (take ?f x) = Some m" "ms = [m]"
        using "1.prems" False unfolding pieces_step [OF assms(2), of x] by (auto split: option.splits)
      ultimately show ?thesis unfolding unfold Inr p by simp
    qed
  qed
qed

lemma prefix_concat: "prefix xs ys \<Longrightarrow> prefix (concat xs) (concat ys)"
  by (auto simp: prefix_def)

lemma decrypt_genuine:
  assumes "stream_ok st" "length nonce = PREFIX" "write_sealed st sha256 io nonce plain key file_id limit = Inr (info, blob)"
    and "decrypt_stream st io' blob key file_id = Inr items"
  shows "prefix (concat (oks items)) plain \<and> (list_all is_ok items \<longrightarrow> concat (oks items) = plain)"
proof -
  let ?aad = "associated_data (file_header nonce) file_id"
  obtain cs where key: "length key = 32" and cs: "seal_list st key nonce ?aad 0 (pieces CHUNK plain) = Some cs"
    and blob: "blob = file_header nonce @ concat cs"
    using write_sealed_cases [OF assms(3)] by blast
  let ?o = "\<lparr>od_nonce = nonce, od_aad = ?aad, od_frame = CHUNK + TAG\<rparr>"
  have pos: "0 < CHUNK" "0 < od_frame ?o" by (simp_all add: bound_simps)
  have opened: "open_list st key nonce ?aad 0 cs = Some (pieces CHUNK plain)" using cs seal_open [OF assms(1)] by blast
  have frames: "pieces (CHUNK + TAG) (concat cs) = cs"
    using framed_sealed [OF assms(1) cs framed_pieces [OF pos(1)]] pieces_concat pos by (simp add: TAG_def)
  have header: "read_header blob = Inr (file_header nonce, concat cs)"
    using header_length [OF assms(2)] by (simp add: read_header_def blob)
  have "items = stream_items st io' key ?o 0 (take (od_frame ?o) (concat cs)) (drop (od_frame ?o) (concat cs))"
    using assms(4) by (simp add: decrypt_stream_def header open_own_header [OF assms(2) key] read_up_to_def result_simps)
  then have "prefix (oks items) (pieces CHUNK plain) \<and> (list_all is_ok items \<longrightarrow> oks items = pieces CHUNK plain)"
    using stream_items_genuine [of st key ?o 0 "concat cs" "pieces CHUNK plain" io'] opened frames pos by simp
  then show ?thesis using prefix_concat [of "oks items"] concat_pieces [OF pos(1), of plain] by fastforce
qed

text \<open>C30: what was encrypted is decrypted. A file sealed without error streams back as exactly the chunks of the plaintext,
  verifies for its length, and is never longer than the limit it was sealed under.\<close>

theorem file_encryption_roundtrip:
  assumes "stream_ok st" "length nonce = PREFIX" "write_sealed st sha256 io nonce plain key file_id limit = Inr (info, file)"
  shows "sealed_size info = length plain \<and> length plain \<le> limit
    \<and> (\<exists>parts. decrypt_stream st no_faults file key file_id = Inr (map Inr parts) \<and> concat parts = plain)
    \<and> verify_file st no_faults path key file_id (length plain) (hm_insert path file fs) = Inr ()"
proof -
  let ?aad = "associated_data (file_header nonce) file_id"
  obtain cs where key: "length key = 32" and info: "sealed_size info = length plain" "length plain \<le> limit"
    and cs: "seal_list st key nonce ?aad 0 (pieces CHUNK plain) = Some cs" and blob: "file = file_header nonce @ concat cs"
    using write_sealed_cases [OF assms(3)] by blast
  let ?o = "\<lparr>od_nonce = nonce, od_aad = ?aad, od_frame = CHUNK + TAG\<rparr>"
  have pos: "0 < CHUNK" "0 < od_frame ?o" by (simp_all add: bound_simps)
  have opened: "open_list st key nonce ?aad 0 cs = Some (pieces CHUNK plain)" using cs seal_open [OF assms(1)] by blast
  have frames: "pieces (CHUNK + TAG) (concat cs) = cs"
    using framed_sealed [OF assms(1) cs framed_pieces [OF pos(1)]] pieces_concat pos by (simp add: TAG_def)
  have header: "read_header file = Inr (file_header nonce, concat cs)"
    using header_length [OF assms(2)] by (simp add: read_header_def blob)
  have "open_items st key nonce ?aad i cs = map Inr ms" if "open_list st key nonce ?aad i cs = Some ms" for i ms cs
    using that by (induction cs arbitrary: i ms) (auto split: option.splits)
  then have items: "decrypt_stream st no_faults file key file_id = Inr (map Inr (pieces CHUNK plain))"
    using opened stream_items_ok [OF pos(2), of st key 0 "concat cs"]
    by (simp add: decrypt_stream_def header open_own_header [OF assms(2) key] read_up_to_def no_faults_def [symmetric] faulty_def frames)
      (simp add: no_faults_def)
  have size: "sum_list (map length (pieces CHUNK plain)) = length plain" using concat_pieces [OF pos(1), of plain] by (metis length_concat)
  have "verify_file st no_faults path key file_id (length plain) (hm_insert path file fs) = Inr ()"
    using verify_loop_ok [of st key ?o 0 "concat cs" "pieces CHUNK plain" 0] opened pos size
    by (simp add: verify_file_def header open_own_header [OF assms(2) key] read_up_to_def faulty_def frames) (simp add: no_faults_def)
  with items info show ?thesis using pos by (auto intro: exI [of _ "pieces CHUNK plain"])
qed

text \<open>Two ciphers that satisfy the hypotheses: one that appends a constant tag, one whose key has sealed a single chunk.\<close>

definition plain_aead :: stream_aead where
  "plain_aead = \<lparr>sa_seal = (\<lambda>k p i l a m. Some (m @ replicate 16 0)),
     sa_open = (\<lambda>k p i l a c. if suffix (replicate 16 0) c then Some (take (length c - 16) c) else None)\<rparr>"

definition once_aead :: "bytes \<Rightarrow> bytes \<Rightarrow> bytes \<Rightarrow> bytes \<Rightarrow> stream_aead" where
  "once_aead key nonce aad plain = \<lparr>sa_seal = (\<lambda>k p i l a m. if (k, p, i, l, a, m) = (key, nonce, 0, True, aad, plain)
       then Some (plain @ replicate 16 0) else None),
     sa_open = (\<lambda>k p i l a c. if (k, p, i, l, a, c) = (key, nonce, 0, True, aad, plain @ replicate 16 0) then Some plain else None)\<rparr>"

lemma plain_aead_ok: "stream_ok plain_aead"
  by (auto simp: stream_ok_def plain_aead_def suffix_def)

lemma once_aead_ok: "stream_ok (once_aead key nonce aad plain)"
  by (auto simp: stream_ok_def once_aead_def)

lemma once_unforged: "unforged (once_aead key nonce aad plain) key presented (sealed_chunks nonce aad [plain])"
  by (auto simp: unforged_def once_aead_def sealed_chunks_def split: if_splits)

theorem file_encryption_roundtrip_witness:
  "\<exists>info file parts. write_sealed plain_aead (\<lambda>bs. bs) no_faults (replicate 7 0) [1, 2, 3] (replicate 32 0) (replicate 16 0) 10 = Inr (info, file)
    \<and> decrypt_stream plain_aead no_faults file (replicate 32 0) (replicate 16 0) = Inr (map Inr parts) \<and> concat parts = [1, 2, 3]"
proof -
  have "\<exists>info file. write_sealed plain_aead (\<lambda>bs. bs) no_faults (replicate 7 0) [1, 2, 3] (replicate 32 0) (replicate 16 0) 10 = Inr (info, file)"
    by (simp add: write_sealed_def no_faults_def faulty_def check_key_def read_up_to_def seal_loop.simps plain_aead_def Let_def bound_simps)
  then obtain info file' where w: "write_sealed plain_aead (\<lambda>bs. bs) no_faults (replicate 7 0) [1, 2, 3] (replicate 32 0) (replicate 16 0) 10
      = Inr (info, file')" by blast
  have "length (replicate 7 (0 :: u8)) = PREFIX" by (simp add: bound_simps)
  from file_encryption_roundtrip [OF plain_aead_ok this w] w show ?thesis by blast
qed

text \<open>C12: tampering is detected. Whatever file is presented under the key of a sealed file, and under whatever file id, it
  verifies only if it is that very file with that id and length, even when chunks were dropped, repeated, reordered or cut.
  A reader of the stream gets a prefix of the plaintext before the first error, and sees no error only on the original.\<close>

theorem tampered_file_detected:
  assumes "stream_ok st" "length nonce = PREFIX" "write_sealed st sha256 io nonce plain key file_id limit = Inr (info, file)"
    and "unforged st key file' (sealed_chunks nonce (associated_data (file_header nonce) file_id) (pieces CHUNK plain))"
  shows "(hm_get path fs = Some file' \<and> verify_file st io' path key file_id' n fs = Inr () \<longrightarrow>
        file' = file \<and> file_id' = file_id \<and> n = length plain)
    \<and> (decrypt_stream st io' file' key file_id' = Inr items \<longrightarrow> prefix (concat (oks items)) plain
        \<and> (list_all is_ok items \<longrightarrow> file' = file \<and> file_id' = file_id))"
proof -
  let ?aad = "associated_data (file_header nonce) file_id"
  obtain cs where cs: "seal_list st key nonce ?aad 0 (pieces CHUNK plain) = Some cs" and blob: "file = file_header nonce @ concat cs"
    using write_sealed_cases [OF assms(3)] by blast
  have pos: "0 < CHUNK" by (simp add: bound_simps)
  have same: "content = file \<and> file_id' = file_id \<and> ms = pieces CHUNK plain"
    if ct: "content = file'" and rh: "read_header content = Inr (header, input)" and oh: "open_header header key file_id' = Inr o'"
      and ol: "open_list st key (od_nonce o') (od_aad o') 0 (pieces (od_frame o') input) = Some ms"
    for content header input o' ms
  proof -
    have fr: "0 < od_frame o'" and aad: "od_aad o' = header @ file_id'" using open_header_frame [OF oh] by simp_all
    have orig: "od_nonce o' = nonce \<and> od_aad o' = ?aad \<and> ms = drop 0 (pieces CHUNK plain)"
    proof (rule opened_is_original [OF assms(4) pieces_nonempty [OF fr] _ ol], intro ballI)
      fix c assume "c \<in> set (pieces (od_frame o') input)"
      then have "sublist c input" by (rule pieces_sublist [OF fr])
      also have "sublist input file'" using rh ct by (auto simp: read_header_def split: if_splits)
      finally show "sublist c file'" .
    qed
    have len: "length header = length (file_header nonce)"
      using rh header_length [OF assms(2)] by (auto simp: read_header_def split: if_splits)
    with orig aad have hd: "header = file_header nonce" "file_id' = file_id" by (simp_all add: associated_data_def)
    have "seal_list st key nonce ?aad 0 (pieces CHUNK plain) = Some (pieces (od_frame o') input)"
      using ol orig seal_open [OF assms(1)] by simp
    with cs have "pieces (od_frame o') input = cs" by simp
    then have "input = concat cs" using concat_pieces [OF fr, of input] by simp
    with rh hd orig blob show ?thesis by (auto simp: read_header_def split: if_splits) (metis append_take_drop_id)
  qed
  have verify: "file' = file \<and> file_id' = file_id \<and> n = length plain"
    if v: "verify_file st io' path key file_id' n fs = Inr ()" and c: "hm_get path fs = Some file'"
  proof -
    from v c obtain header input o' k where rh: "read_header file' = Inr (header, input)"
      and oh: "open_header header key file_id' = Inr o'"
      and vl: "verify_loop st io' key o' 0 0 (take (od_frame o') input) (drop (od_frame o') input) = Inr n"
      by (auto simp: verify_file_def result_simps read_up_to_def split: if_splits)
    from verify_loop_opens [OF vl] open_header_frame [OF oh] obtain ms where
      "open_list st key (od_nonce o') (od_aad o') 0 (pieces (od_frame o') input) = Some ms" "n = sum_list (map length ms)" by auto
    with same [OF refl rh oh] concat_pieces [OF pos, of plain] show ?thesis by (metis length_concat)
  qed
  have stream: "prefix (concat (oks items)) plain \<and> (list_all is_ok items \<longrightarrow> file' = file \<and> file_id' = file_id)"
    if d: "decrypt_stream st io' file' key file_id' = Inr items"
  proof -
    from d obtain header input o' where c: "read_header file' = Inr (header, input)"
      and oh: "open_header header key file_id' = Inr o'"
      and it: "items = stream_items st io' key o' 0 (take (od_frame o') input) (drop (od_frame o') input)"
      by (auto simp: decrypt_stream_def result_simps read_up_to_def)
    have "0 < od_frame o'" using open_header_frame [OF oh] by simp
    moreover have "sublist input file'" using c by (auto simp: read_header_def split: if_splits)
    ultimately have "prefix (oks items) (drop 0 (pieces CHUNK plain))
      \<and> (list_all is_ok items \<longrightarrow> open_list st key (od_nonce o') (od_aad o') 0 (pieces (od_frame o') input) = Some (oks items))"
      unfolding it by (rule stream_items_sound [OF assms(4)])
    then have "prefix (oks items) (pieces CHUNK plain)"
      "list_all is_ok items \<longrightarrow> open_list st key (od_nonce o') (od_aad o') 0 (pieces (od_frame o') input) = Some (oks items)" by simp_all
    moreover from this(1) have "prefix (concat (oks items)) plain"
      using concat_pieces [OF pos, of plain] by (metis concat_append prefix_def)
    ultimately show ?thesis using same [OF refl c oh] by blast
  qed
  from verify stream show ?thesis by blast
qed

theorem tampered_file_detected_witness:
  "\<exists>st nonce key file_id plain info file. write_sealed st (\<lambda>bs. bs) no_faults nonce plain key file_id 10 = Inr (info, file)
    \<and> (\<forall>file_id' n file'. verify_file st no_faults ''f'' key file_id' n (hm_insert ''f'' file' []) = Inr () \<longrightarrow> file' = file \<and> n = 1)"
proof -
  let ?nonce = "replicate 7 0 :: bytes" and ?key = "replicate 32 0 :: bytes" and ?id = "replicate 16 0 :: bytes"
  let ?aad = "associated_data (file_header ?nonce) ?id"
  let ?st = "once_aead ?key ?nonce ?aad [1]"
  have "\<exists>info file. write_sealed ?st (\<lambda>bs. bs) no_faults ?nonce [1] ?key ?id 10 = Inr (info, file)"
    by (simp add: write_sealed_def no_faults_def faulty_def check_key_def read_up_to_def seal_loop.simps once_aead_def Let_def
        bound_simps)
  then obtain info blob where w: "write_sealed ?st (\<lambda>bs. bs) no_faults ?nonce [1] ?key ?id 10 = Inr (info, blob)"
    by blast
  have len: "length ?nonce = PREFIX" by (simp add: bound_simps)
  have "pieces CHUNK [1 :: u8] = [[1]]" by (simp add: pieces_def chunks_unfold bound_simps)
  then have "unforged ?st ?key file' (sealed_chunks ?nonce ?aad (pieces CHUNK [1]))" for file' using once_unforged by simp
  from tampered_file_detected [OF once_aead_ok len w this, of "''f''" "hm_insert ''f'' _ []"]
  have "verify_file ?st no_faults ''f'' ?key file_id' n (hm_insert ''f'' file' []) = Inr () \<longrightarrow> file' = blob \<and> n = 1" for file_id' n file'
    by simp
  with w show ?thesis by blast
qed

text \<open>A failed encryption leaves the file system as it was, but for the file it had begun when that cannot be removed.\<close>

lemma encrypt_file_cleans_up:
  "encrypt_file st sha256 io nonce src dst key file_id limit fs = (Inl e, fs') \<Longrightarrow> path \<noteq> dst \<or> fault_unlink io = None
    \<Longrightarrow> hm_get path fs' = hm_get path fs"
  by (auto simp: encrypt_file_def and_do_eq Let_def hm_contains_def split: if_splits sum.splits option.splits)

end
