(* ===== verification/Audit_Chain.thy ===== *)
theory Audit_Chain
  imports Rust_Text Rust_Std
begin

text \<open>
  The audit log: rows chained by digests, \<open>backend/migrations/098_audit_chain_v2.sql\<close> with \<open>backend/src/services/audit.rs\<close>,
  and the verifier with its keyed checkpoints and anchors, \<open>backend/src/services/audit_verify.rs\<close>. The tables are lists of rows,
  a row holds the texts the digest covers; SHA-256, HMAC, hexadecimal decoding, Vault's signatures and the JSON of an anchor
  are parameters. A statement reads one state of the table and does not fail.
\<close>

section \<open>The chain\<close>

record audit_row =
  al_id :: int
  al_at :: str
  al_user :: "str option"
  al_action :: str
  al_details :: str
  al_previous :: str
  al_hash :: str
  al_version :: int

definition audit_field :: "str \<Rightarrow> str" where
  "audit_field x = show_nat (length x) @ '':'' @ x"

definition audit_canonical_v2 :: "int \<Rightarrow> str \<Rightarrow> str option \<Rightarrow> str \<Rightarrow> str \<Rightarrow> str \<Rightarrow> str" where
  "audit_canonical_v2 row_id at user action details previous =
    ''strata-audit-v2'' @ audit_field (show_int row_id) @ audit_field at
      @ audit_field (case user of Some u \<Rightarrow> u | None \<Rightarrow> []) @ audit_field action @ audit_field details @ audit_field previous"

definition audit_hash_v2 :: "(bytes \<Rightarrow> bytes) \<Rightarrow> int \<Rightarrow> str \<Rightarrow> str option \<Rightarrow> str \<Rightarrow> str \<Rightarrow> str \<Rightarrow> str" where
  "audit_hash_v2 sha256 row_id at user action details previous =
    hex_encode (sha256 (as_bytes (audit_canonical_v2 row_id at user action details previous)))"

definition row_canonical :: "audit_row \<Rightarrow> str" where
  "row_canonical r = audit_canonical_v2 (al_id r) (al_at r) (al_user r) (al_action r) (al_details r) (al_previous r)"

definition row_digest :: "(bytes \<Rightarrow> bytes) \<Rightarrow> audit_row \<Rightarrow> str" where
  "row_digest sha256 r = audit_hash_v2 sha256 (al_id r) (al_at r) (al_user r) (al_action r) (al_details r) (al_previous r)"

record checkpoint =
  ckp_id :: int
  ckp_hash :: str
  ckp_first_v2 :: "int option"

text \<open>A stored checkpoint carries the id of its key and its MAC; the table is in the order of insertion.\<close>

record audit_db =
  db_rows :: "audit_row list"
  db_seq :: int
  db_checkpoints :: "(checkpoint \<times> str \<times> str) list"

definition by_id :: "audit_db \<Rightarrow> audit_row list" where
  "by_id db = sort_key al_id (db_rows db)"

text \<open>The sequence moves on by one or more, since rolled-back transactions leave gaps.\<close>

definition audit_append ::
    "(bytes \<Rightarrow> bytes) \<Rightarrow> nat \<Rightarrow> str \<Rightarrow> str option \<Rightarrow> str \<Rightarrow> str \<Rightarrow> audit_db \<Rightarrow> audit_db" where
  "audit_append sha256 gap at user action details db =
    (let previous = (if db_rows db = [] then [] else al_hash (last (by_id db)));
         new_id = db_seq db + 1 + int gap
     in db\<lparr>db_seq := new_id,
           db_rows := db_rows db @ [\<lparr>al_id = new_id, al_at = at, al_user = user, al_action = action, al_details = details,
             al_previous = previous, al_hash = audit_hash_v2 sha256 new_id at user action details previous, al_version = 2\<rparr>]\<rparr>)"

section \<open>Walking it\<close>

definition BATCH :: nat where [bound_simps]: "BATCH = 1000"
definition MAX_BREAKS :: nat where [bound_simps]: "MAX_BREAKS = 20"
definition FULL_SCAN_EVERY :: nat where [bound_simps]: "FULL_SCAN_EVERY = 86400"

datatype chain_break = LinkBreak int | DigestBreak int | LegacyBreak int

fun show_break :: "chain_break \<Rightarrow> str" where
  "show_break (LinkBreak i) = ''row '' @ show_int i @ '' does not follow the row before it''"
| "show_break (DigestBreak i) = ''row '' @ show_int i @ '' does not match its digest''"
| "show_break (LegacyBreak i) = ''row '' @ show_int i @ '' is in the legacy format after the v2 switch''"

type_synonym chain_head = "int \<times> str"

record chain_report =
  rep_head :: "chain_head option"
  rep_rows :: nat
  rep_breaks :: "chain_break list"
  rep_legacy_links :: nat

definition push_break :: "chain_break \<Rightarrow> chain_report \<Rightarrow> chain_report" where
  "push_break b rep = (if length (rep_breaks rep) < MAX_BREAKS then rep\<lparr>rep_breaks := rep_breaks rep @ [b]\<rparr> else rep)"

definition first_v2 :: "audit_db \<Rightarrow> int option" where
  "first_v2 db = (case filter (\<lambda>r. al_version r = 2) (by_id db) of r # _ \<Rightarrow> Some (al_id r) | [] \<Rightarrow> None)"

definition digest_ok :: "(bytes \<Rightarrow> bytes) \<Rightarrow> audit_row \<Rightarrow> bool option" where
  "digest_ok sha256 r = (if al_version r = 2 then Some (al_hash r = row_digest sha256 r) else None)"

definition check_row ::
    "(bytes \<Rightarrow> bytes) \<Rightarrow> int option \<Rightarrow> audit_row \<Rightarrow> str \<times> chain_report \<Rightarrow> str \<times> chain_report" where
  "check_row sha256 boundary r p =
    (let (expected, rep) = p;
         legacy = (case boundary of None \<Rightarrow> True | Some v2 \<Rightarrow> al_id r < v2);
         rep1 = (if al_previous r \<noteq> expected
                 then if legacy then rep\<lparr>rep_legacy_links := rep_legacy_links rep + 1\<rparr> else push_break (LinkBreak (al_id r)) rep
                 else rep);
         rep2 = (if al_version r = 2 \<and> digest_ok sha256 r = Some True then rep1
                 else if al_version r = 1 \<and> legacy then rep1
                 else if al_version r = 1 then push_break (LegacyBreak (al_id r)) rep1
                 else push_break (DigestBreak (al_id r)) rep1)
     in (al_hash r, rep2\<lparr>rep_rows := rep_rows rep2 + 1, rep_head := Some (al_id r, al_hash r)\<rparr>))"

definition batch_after :: "int \<Rightarrow> audit_db \<Rightarrow> audit_row list" where
  "batch_after after db = take BATCH (filter (\<lambda>r. after < al_id r) (by_id db))"

function verify_from ::
    "(bytes \<Rightarrow> bytes) \<Rightarrow> int option \<Rightarrow> audit_db \<Rightarrow> int \<Rightarrow> str \<times> chain_report \<Rightarrow> chain_report" where
  "verify_from sha256 boundary db after p =
    (let rows = batch_after after db in
     if rows = [] then snd p
     else verify_from sha256 boundary db (al_id (last rows)) (fold (check_row sha256 boundary) rows p))"
  by pat_completeness auto
termination
proof (relation "measure (\<lambda>(sha256, boundary, db, after, p). length (filter (\<lambda>r. after < al_id r) (by_id db)))")
  fix boundary db and sha256 :: "bytes \<Rightarrow> bytes" and after and p :: "str \<times> chain_report" and rows
  assume rows: "rows = batch_after after db" "rows \<noteq> []"
  let ?l = "last rows"
  have "?l \<in> set rows" using rows(2) by simp
  then have l: "?l \<in> set (by_id db)" "after < al_id ?l" using rows(1) by (auto simp: batch_after_def dest: in_set_takeD)
  have "filter (\<lambda>r. al_id ?l < al_id r) (by_id db) = filter (\<lambda>r. al_id ?l < al_id r) (filter (\<lambda>r. after < al_id r) (by_id db))"
    using l(2) by (auto intro: filter_cong)
  also have "length \<dots> < length (filter (\<lambda>r. after < al_id r) (by_id db))"
    using l by (intro length_filter_less [of ?l]) simp_all
  finally have "length (filter (\<lambda>r. al_id ?l < al_id r) (by_id db)) < length (filter (\<lambda>r. after < al_id r) (by_id db))" .
  then show "((sha256, boundary, db, al_id ?l, fold (check_row sha256 boundary) rows p), sha256, boundary, db, after, p)
    \<in> measure (\<lambda>(sha256, boundary, db, after, p). length (filter (\<lambda>r. after < al_id r) (by_id db)))" by simp
qed simp


declare verify_from.simps [simp del]

definition verify_chain :: "(bytes \<Rightarrow> bytes) \<Rightarrow> chain_head option \<Rightarrow> int option \<Rightarrow> audit_db \<Rightarrow> chain_report" where
  "verify_chain sha256 start boundary db =
    verify_from sha256 boundary db (case start of Some h \<Rightarrow> fst h | None \<Rightarrow> 0)
      (case start of Some h \<Rightarrow> snd h | None \<Rightarrow> [],
       \<lparr>rep_head = start, rep_rows = 0, rep_breaks = [], rep_legacy_links = 0\<rparr>)"

section \<open>Checkpoints and anchors\<close>

record checkpoint_key =
  ck_key :: bytes
  ck_id :: str

record audit_anchor =
  an_v :: int
  an_at :: str
  an_last_id :: int
  an_last_hash :: str
  an_first_v2 :: "int option"
  an_key_id :: str
  an_mac :: str
  an_signature :: "str option"

text \<open>How an append to the anchor file goes: all of it, an error after the file was opened and some bytes of the line were
  written (with all of them when only the flush failed), or an error before anything was.\<close>

datatype append_outcome = Appended | AppendStopped nat | AppendRefused

text \<open>
  The parameters of the verifier. \<open>ae_vault_verify\<close> and \<open>ae_vault_sign\<close> are those of the configured Vault, if there is one;
  \<open>ae_anchor_text\<close> renders an anchor as JSON, \<open>ae_anchor_parse\<close> reads a line back, \<open>ae_anchor_path\<close> says whether an anchor
  file is configured, \<open>ae_append\<close> how writing to it goes and \<open>ae_read_fault\<close> is an error other than "not found" while it is read.
\<close>

record audit_env =
  ae_sha256 :: "bytes \<Rightarrow> bytes"
  ae_hmac :: "bytes \<Rightarrow> bytes \<Rightarrow> bytes"
  ae_hex_decode :: "str \<Rightarrow> bytes option"
  ae_vault_verify :: "(bytes \<Rightarrow> str \<Rightarrow> str + bool) option"
  ae_vault_sign :: "(bytes \<Rightarrow> str + str) option"
  ae_anchor_path :: bool
  ae_anchor_text :: "audit_anchor \<Rightarrow> str"
  ae_anchor_parse :: "str \<Rightarrow> str + audit_anchor"
  ae_append :: append_outcome
  ae_read_fault :: "str option"
  ae_time :: nat
  ae_at :: str

definition checkpoint_key_new :: "audit_env \<Rightarrow> bytes \<Rightarrow> checkpoint_key" where
  "checkpoint_key_new env secret =
    (let key = ae_hmac env secret (as_bytes ''strata-audit-checkpoint-key-v1'')
     in \<lparr>ck_key = key, ck_id = hex_encode (take 8 (ae_sha256 env key))\<rparr>)"

definition checkpoint_key_from_env :: "audit_env \<Rightarrow> str option \<Rightarrow> str option \<Rightarrow> checkpoint_key option" where
  "checkpoint_key_from_env env configured jwt_secret =
    map_option (\<lambda>s. checkpoint_key_new env (as_bytes s))
      (case configured of
         Some k \<Rightarrow> if trim k \<noteq> [] then Some k else jwt_secret
       | None \<Rightarrow> jwt_secret)"

definition checkpoint_message :: "checkpoint \<Rightarrow> str" where
  "checkpoint_message cp = ''strata-audit-checkpoint-v1'' @ [CHR 0x0A] @ show_int (ckp_id cp) @ [CHR 0x0A] @ ckp_hash cp @ [CHR 0x0A]
    @ (case ckp_first_v2 cp of Some i \<Rightarrow> show_int i | None \<Rightarrow> [])"

definition key_mac :: "audit_env \<Rightarrow> checkpoint_key \<Rightarrow> checkpoint \<Rightarrow> bytes" where
  "key_mac env key cp = ae_hmac env (ck_key key) (as_bytes (checkpoint_message cp))"

definition key_sign :: "audit_env \<Rightarrow> checkpoint_key \<Rightarrow> checkpoint \<Rightarrow> str" where
  "key_sign env key cp = hex_encode (key_mac env key cp)"

definition key_verify :: "audit_env \<Rightarrow> checkpoint_key \<Rightarrow> checkpoint \<Rightarrow> str \<Rightarrow> bool" where
  "key_verify env key cp mac = (case ae_hex_decode env mac of Some m \<Rightarrow> m = key_mac env key cp | None \<Rightarrow> False)"

definition anchor_checkpoint :: "audit_anchor \<Rightarrow> checkpoint" where
  "anchor_checkpoint a = \<lparr>ckp_id = an_last_id a, ckp_hash = an_last_hash a, ckp_first_v2 = an_first_v2 a\<rparr>"

text \<open>The anchor file, \<open>None\<close> when there is none, and its last line that is not blank, looked for in the last 64 KiB.\<close>

definition append_anchor :: "audit_env \<Rightarrow> audit_anchor \<Rightarrow> str option \<Rightarrow> bool \<times> str option" where
  "append_anchor env a content =
    (let before = (case content of Some c \<Rightarrow> c | None \<Rightarrow> []);
         line = ae_anchor_text env a @ [CHR 0x0A]
     in case ae_append env of
          Appended \<Rightarrow> (True, Some (before @ line))
        | AppendStopped n \<Rightarrow> (False, Some (before @ take n line))
        | AppendRefused \<Rightarrow> (False, content))"

definition last_anchor :: "audit_env \<Rightarrow> str option \<Rightarrow> str + audit_anchor option" where
  "last_anchor env content =
    (case ae_read_fault env of Some e \<Rightarrow> Inl e | None \<Rightarrow>
     (case content of
       None \<Rightarrow> Inr None
     | Some c \<Rightarrow>
         let tail = from_utf8_lossy (as_bytes (drop (length c - 64 * 1024) c)) in
         (case List.find (\<lambda>l. trim l \<noteq> []) (rev (text_lines tail)) of
            None \<Rightarrow> Inr None
          | Some line \<Rightarrow> (case ae_anchor_parse env line of Inl e \<Rightarrow> Inl e | Inr a \<Rightarrow> Inr (Some a)))))"

definition debug_opt :: "int option \<Rightarrow> str" where
  "debug_opt m = (case m of Some i \<Rightarrow> ''Some('' @ show_int i @ '')'' | None \<Rightarrow> ''None'')"

definition check_checkpoint_rows :: "checkpoint \<Rightarrow> audit_db \<Rightarrow> str list" where
  "check_checkpoint_rows cp db =
    (case map_option al_hash (List.find (\<lambda>r. al_id r = ckp_id cp) (db_rows db)) of
       None \<Rightarrow> [''row '' @ show_int (ckp_id cp) @ '', the last checkpoint, is missing'']
     | Some hash \<Rightarrow> if hash \<noteq> ckp_hash cp then [''row '' @ show_int (ckp_id cp) @ '' no longer matches the last checkpoint''] else [])
  @ (if ckp_first_v2 cp \<noteq> None \<and> first_v2 db \<noteq> ckp_first_v2 cp
     then [''v2 rows began at '' @ debug_opt (ckp_first_v2 cp) @ '' at the last checkpoint and now begin at '' @ debug_opt (first_v2 db)]
     else [])"

definition check_checkpoint :: "audit_env \<Rightarrow> checkpoint_key \<Rightarrow> checkpoint \<Rightarrow> str \<Rightarrow> audit_db \<Rightarrow> str list" where
  "check_checkpoint env key cp mac db =
    (if \<not> key_verify env key cp mac then [''the checkpoint at row '' @ show_int (ckp_id cp) @ '' fails its MAC'']
     else check_checkpoint_rows cp db)"

definition check_anchor :: "audit_env \<Rightarrow> checkpoint_key \<Rightarrow> audit_anchor \<Rightarrow> audit_db \<Rightarrow> str list" where
  "check_anchor env key a db =
    (let cp = anchor_checkpoint a in
     (case (ae_vault_verify env, an_signature a) of
        (Some check, Some signature) \<Rightarrow>
          (case check (as_bytes (checkpoint_message cp)) signature of
             Inr False \<Rightarrow> [''the anchored checkpoint at row '' @ show_int (ckp_id cp) @ '' fails its Vault signature'']
           | _ \<Rightarrow> [])
      | _ \<Rightarrow> [])
     @ map (\<lambda>p. ''anchor: '' @ p)
         (if an_key_id a = ck_id key then check_checkpoint env key cp (an_mac a) db else check_checkpoint_rows cp db))"

definition latest_checkpoint :: "checkpoint_key \<Rightarrow> audit_db \<Rightarrow> (checkpoint \<times> str) option" where
  "latest_checkpoint key db =
    (case filter (\<lambda>(cp, k, mac). k = ck_id key) (rev (db_checkpoints db)) of (cp, k, mac) # _ \<Rightarrow> Some (cp, mac) | [] \<Rightarrow> None)"

section \<open>One run of the verifier\<close>

record verifier_state =
  vs_last_full :: "nat option"
  vs_known :: "int option"
  vs_alarm :: "str list"

record verifier_status =
  status_last_run :: "str option"
  status_problems :: "str list"
  status_anchor_path :: bool
  status_anchor :: "audit_anchor option"

record audit_world =
  aw_db :: audit_db
  aw_anchors :: "str option"
  aw_status :: verifier_status

definition record_status :: "audit_env \<Rightarrow> str list \<Rightarrow> audit_anchor option \<Rightarrow> audit_world \<Rightarrow> audit_world" where
  "record_status env problems anchor w =
    w\<lparr>aw_status := \<lparr>status_last_run = Some (ae_at env), status_problems = problems, status_anchor_path = ae_anchor_path env,
        status_anchor = (case anchor of Some a \<Rightarrow> Some a | None \<Rightarrow> status_anchor (aw_status w))\<rparr>\<rparr>"

definition max_known :: "int option \<Rightarrow> int \<Rightarrow> int option" where
  "max_known known i = Some (case known of Some k \<Rightarrow> max k i | None \<Rightarrow> i)"

text \<open>What a run finds, before it writes anything: the problems, and for a sound chain the checkpoint to write, if any.\<close>

record verdict =
  ve_problems :: "str list"
  ve_full :: bool
  ve_checkpoint :: "checkpoint option"
  ve_anchor :: "audit_anchor option"

definition read_anchor :: "audit_env \<Rightarrow> audit_world \<Rightarrow> str list \<times> audit_anchor option" where
  "read_anchor env w =
    (if \<not> ae_anchor_path env then ([], None)
     else case last_anchor env (aw_anchors w) of
            Inr a \<Rightarrow> ([], a)
          | Inl e \<Rightarrow> ([''the audit anchor file cannot be read: '' @ e], None))"

definition verifier_check ::
    "audit_env \<Rightarrow> checkpoint_key \<Rightarrow> audit_world \<Rightarrow> verifier_state \<Rightarrow> verdict \<times> verifier_state" where
  "verifier_check env key w st =
    (let db = aw_db w;
         latest = latest_checkpoint key db;
         (p0, anchor) = read_anchor env w;
         p1 = (case anchor of Some a \<Rightarrow> check_anchor env key a db | None \<Rightarrow> []);
         known1 = (case anchor of
                     Some a \<Rightarrow> if an_key_id a = ck_id key then max_known (vs_known st) (an_last_id a) else vs_known st
                   | None \<Rightarrow> vs_known st);
         p2 = (case latest of Some (cp, mac) \<Rightarrow> check_checkpoint env key cp mac db | None \<Rightarrow> []);
         sound = (case latest of Some (cp, _) \<Rightarrow> if p2 = [] then Some cp else None | None \<Rightarrow> None);
         start = map_option (\<lambda>cp. (ckp_id cp, ckp_hash cp)) sound;
         boundary = (case sound of
                       Some cp \<Rightarrow> (case ckp_first_v2 cp of Some i \<Rightarrow> Some i | None \<Rightarrow> first_v2 db)
                     | None \<Rightarrow> first_v2 db);
         known2 = (case sound of Some cp \<Rightarrow> max_known known1 (ckp_id cp) | None \<Rightarrow> known1);
         p3 = (case known2 of
                 Some known \<Rightarrow>
                   if (case latest of Some (cp, _) \<Rightarrow> ckp_id cp < known | None \<Rightarrow> True)
                   then [''checkpoints up to row '' @ show_int known @ '' have been removed''] else []
               | None \<Rightarrow> []);
         before = p0 @ p1 @ p2 @ p3;
         full = (before \<noteq> [] \<or> vs_alarm st \<noteq> []
                 \<or> (case vs_last_full st of Some t \<Rightarrow> ae_time env - t \<ge> FULL_SCAN_EVERY | None \<Rightarrow> True));
         report = verify_chain (ae_sha256 env) (if full then None else start) boundary db;
         problems = before @ map show_break (rep_breaks report);
         write = (case rep_head report of
                    Some (i, hash) \<Rightarrow>
                      if (case latest of Some (cp, _) \<Rightarrow> ckp_id cp \<ge> i | None \<Rightarrow> False) then None
                      else Some \<lparr>ckp_id = i, ckp_hash = hash, ckp_first_v2 = boundary\<rparr>
                  | None \<Rightarrow> None)
     in (\<lparr>ve_problems = problems, ve_full = full, ve_checkpoint = write, ve_anchor = anchor\<rparr>, st\<lparr>vs_known := known2\<rparr>))"

definition anchor_entry :: "audit_env \<Rightarrow> checkpoint_key \<Rightarrow> checkpoint \<Rightarrow> str \<Rightarrow> audit_anchor" where
  "anchor_entry env key cp mac =
    \<lparr>an_v = 1, an_at = ae_at env, an_last_id = ckp_id cp, an_last_hash = ckp_hash cp, an_first_v2 = ckp_first_v2 cp,
     an_key_id = ck_id key, an_mac = mac,
     an_signature = (case ae_vault_sign env of
                       Some f \<Rightarrow> (case f (as_bytes (checkpoint_message cp)) of Inr s \<Rightarrow> Some s | Inl _ \<Rightarrow> None)
                     | None \<Rightarrow> None)\<rparr>"

definition write_anchor ::
    "audit_env \<Rightarrow> checkpoint_key \<Rightarrow> checkpoint \<Rightarrow> str \<Rightarrow> audit_world \<Rightarrow> audit_anchor option \<times> audit_world" where
  "write_anchor env key cp mac w =
    (let entry = anchor_entry env key cp mac;
         (ok, content) = append_anchor env entry (aw_anchors w)
     in (if ok then Some entry else None, w\<lparr>aw_anchors := content\<rparr>))"

text \<open>
  What the run does with it. \<open>logged\<close> is the outcome of writing the alarm to the audit log: the gap in the sequence, the
  JSON of the problems, or nothing when the write failed.
\<close>

definition verifier_commit ::
    "audit_env \<Rightarrow> checkpoint_key \<Rightarrow> (nat \<times> str) option \<Rightarrow> verdict \<Rightarrow> audit_world \<Rightarrow> verifier_state \<Rightarrow> audit_world \<times> verifier_state" where
  "verifier_commit env key logged v w st =
    (if ve_problems v \<noteq> [] then
       let w1 = record_status env (ve_problems v) (ve_anchor v) w in
       if ve_problems v \<noteq> vs_alarm st then
         (case logged of
            Some (gap, details) \<Rightarrow>
              w1\<lparr>aw_db := audit_append (ae_sha256 env) gap (ae_at env) None ''audit.integrity_failed'' details (aw_db w1)\<rparr>
          | None \<Rightarrow> w1,
          st\<lparr>vs_alarm := ve_problems v\<rparr>)
       else (w1, st)
     else
       let st1 = st\<lparr>vs_alarm := [], vs_last_full := (if ve_full v then Some (ae_time env) else vs_last_full st)\<rparr> in
       case ve_checkpoint v of
         None \<Rightarrow> (record_status env [] (ve_anchor v) w, st1)
       | Some cp \<Rightarrow>
           let mac = key_sign env key cp;
               w1 = w\<lparr>aw_db := (aw_db w)\<lparr>db_checkpoints := db_checkpoints (aw_db w) @ [(cp, ck_id key, mac)]\<rparr>\<rparr>;
               (written, w2) = (if ae_anchor_path env then write_anchor env key cp mac w1 else (None, w1))
           in (record_status env [] (case written of Some a \<Rightarrow> Some a | None \<Rightarrow> ve_anchor v) w2,
               st1\<lparr>vs_known := Some (ckp_id cp)\<rparr>))"

definition verifier_run ::
    "audit_env \<Rightarrow> checkpoint_key \<Rightarrow> (nat \<times> str) option \<Rightarrow> audit_world \<times> verifier_state \<Rightarrow> audit_world \<times> verifier_state" where
  "verifier_run env key logged p =
    (let (w, st) = p; (v, st1) = verifier_check env key w st in verifier_commit env key logged v w st1)"

end
