(* ===== verification/Audit_Properties.thy ===== *)
theory Audit_Properties
  imports Audit_Chain
begin

text \<open>
  What the audit chain and its verifier guarantee: a clean run over the whole chain means that no row up to the newest known
  checkpoint was altered, an honest log never raises an alarm, and two verifiers that race do.
\<close>

section \<open>Digests bind rows\<close>

lemma digits_then_colon:
  "list_all is_digit a \<Longrightarrow> list_all is_digit b \<Longrightarrow> a @ CHR '':'' # r = b @ CHR '':'' # r' \<Longrightarrow> a = b \<and> r = r'"
proof (induction a arbitrary: b)
  case Nil
  then show ?case by (cases b) (auto simp: is_digit_def)
next
  case (Cons c a)
  then show ?case by (cases b) (auto simp: is_digit_def)
qed

lemma show_int_inj:
  assumes "show_int i = show_int j" shows "i = j"
proof -
  have neg: "CHR ''-'' # show_nat m \<noteq> show_nat n" for m n using hd_show_nat(2) [of n] by (metis list.sel(1))
  consider "i < 0" "j < 0" | "i < 0" "0 \<le> j" | "0 \<le> i" "j < 0" | "0 \<le> i" "0 \<le> j" by linarith
  then show ?thesis
  proof cases
    case 1
    with assms have "show_nat (nat (- i)) = show_nat (nat (- j))" by (simp add: show_int_def)
    from show_nat_inj [OF this] 1 show ?thesis by simp
  next
    case 4
    with assms have "show_nat (nat i) = show_nat (nat j)" by (simp add: show_int_def)
    from show_nat_inj [OF this] 4 show ?thesis by simp
  qed (use assms neg neg [symmetric] in \<open>simp_all add: show_int_def\<close>)
qed

lemma audit_field_inj: "audit_field x @ r = audit_field y @ r' \<Longrightarrow> x = y \<and> r = r'"
  using digits_then_colon [of "show_nat (length x)" "show_nat (length y)" "x @ r" "y @ r'"]
  by (auto simp: audit_field_def dest: show_nat_inj)

lemma audit_field_inj1: "audit_field x = audit_field y \<Longrightarrow> x = y"
  using audit_field_inj [of x "[]" y "[]"] by simp

definition user_ok :: "audit_row \<Rightarrow> bool" where
  "user_ok r \<longleftrightarrow> al_user r \<noteq> Some []"

lemma canonical_inj:
  assumes "row_canonical r = row_canonical r'" "user_ok r" "user_ok r'"
  shows "al_id r = al_id r' \<and> al_at r = al_at r' \<and> al_user r = al_user r' \<and> al_action r = al_action r'
    \<and> al_details r = al_details r' \<and> al_previous r = al_previous r'"
proof -
  have "show_int (al_id r) = show_int (al_id r') \<and> al_at r = al_at r'
    \<and> (case al_user r of Some u \<Rightarrow> u | None \<Rightarrow> []) = (case al_user r' of Some u \<Rightarrow> u | None \<Rightarrow> [])
    \<and> al_action r = al_action r' \<and> al_details r = al_details r' \<and> al_previous r = al_previous r'"
    using assms(1) unfolding row_canonical_def audit_canonical_v2_def
    by (auto dest!: audit_field_inj audit_field_inj1)
  then show ?thesis using assms(2,3) show_int_inj by (auto simp: user_ok_def split: option.splits)
qed

definition sha_collision :: "(bytes \<Rightarrow> bytes) \<Rightarrow> audit_row \<Rightarrow> audit_row \<Rightarrow> bool" where
  "sha_collision sha256 r r' \<longleftrightarrow> row_canonical r \<noteq> row_canonical r'
    \<and> sha256 (as_bytes (row_canonical r)) = sha256 (as_bytes (row_canonical r'))"

lemma digest_binds:
  assumes "row_digest sha256 r = row_digest sha256 r'" "user_ok r" "user_ok r'"
    and "al_hash r = al_hash r'" "al_version r = al_version r'"
  shows "r = r' \<or> sha_collision sha256 r r'"
proof (cases "row_canonical r = row_canonical r'")
  case True
  with canonical_inj [OF this assms(2,3)] assms(4,5) show ?thesis by (cases r; cases r') simp
next
  case False
  have "sha256 (as_bytes (row_canonical r)) = sha256 (as_bytes (row_canonical r'))"
    using assms(1) by (intro hex_encode_inj) (simp add: row_digest_def audit_hash_v2_def row_canonical_def)
  with False show ?thesis by (simp add: sha_collision_def)
qed


section \<open>A walk without breaks\<close>

definition ids_ok :: "audit_db \<Rightarrow> bool" where
  "ids_ok db \<longleftrightarrow> distinct (map al_id (db_rows db))"

definition before_v2 :: "int option \<Rightarrow> audit_row \<Rightarrow> bool" where
  "before_v2 boundary r \<longleftrightarrow> (case boundary of None \<Rightarrow> True | Some v2 \<Rightarrow> al_id r < v2)"

definition row_sound :: "(bytes \<Rightarrow> bytes) \<Rightarrow> int option \<Rightarrow> str \<Rightarrow> audit_row \<Rightarrow> bool" where
  "row_sound sha256 boundary expected r \<longleftrightarrow>
     (before_v2 boundary r \<or> al_previous r = expected)
   \<and> (al_version r = 2 \<and> al_hash r = row_digest sha256 r \<or> al_version r = 1 \<and> before_v2 boundary r)"

fun chain_sound :: "(bytes \<Rightarrow> bytes) \<Rightarrow> int option \<Rightarrow> str \<Rightarrow> audit_row list \<Rightarrow> bool" where
  "chain_sound sha256 boundary expected [] = True"
| "chain_sound sha256 boundary expected (r # rs) = (row_sound sha256 boundary expected r \<and> chain_sound sha256 boundary (al_hash r) rs)"

lemma check_row_fst [simp]: "fst (check_row sha256 boundary r p) = al_hash r"
  by (simp add: check_row_def split_def Let_def)

lemma check_row_head: "rep_head (snd (check_row sha256 boundary r p)) = Some (al_id r, al_hash r)"
  by (simp add: check_row_def split_def Let_def)

lemma push_break_breaks: "rep_breaks (push_break b rep) \<noteq> []"
  by (simp add: push_break_def MAX_BREAKS_def) (metis less_numeral_extra(3) list.size(3) zero_less_numeral)

lemma check_row_breaks:
  "rep_breaks (snd (check_row sha256 boundary r (e, rep))) = [] \<longleftrightarrow> rep_breaks rep = [] \<and> row_sound sha256 boundary e r"
  by (auto simp: check_row_def Let_def row_sound_def before_v2_def digest_ok_def push_break_breaks split: option.splits)

lemma fold_breaks:
  "rep_breaks (snd (fold (check_row sha256 boundary) rows (e, rep))) = [] \<longleftrightarrow> rep_breaks rep = [] \<and> chain_sound sha256 boundary e rows"
proof (induction rows arbitrary: e rep)
  case (Cons r rows)
  obtain e' rep' where c: "check_row sha256 boundary r (e, rep) = (e', rep')" by force
  then have "e' = al_hash r" "rep_breaks rep' = [] \<longleftrightarrow> rep_breaks rep = [] \<and> row_sound sha256 boundary e r"
    using check_row_fst [of sha256 boundary r "(e, rep)"] check_row_breaks [of sha256 boundary r e rep] by auto
  with Cons.IH c show ?case by auto
qed simp

lemma fold_head:
  "rows \<noteq> [] \<Longrightarrow> rep_head (snd (fold (check_row sha256 boundary) rows p)) = Some (al_id (last rows), al_hash (last rows))"
  by (induction rows arbitrary: p rule: rev_induct) (simp_all add: check_row_head)

text \<open>Reading in batches is reading everything after the start.\<close>

lemma by_id_set [simp]: "set (by_id db) = set (db_rows db)"
  by (simp add: by_id_def)

lemma by_id_strict: "ids_ok db \<Longrightarrow> sorted_wrt (\<lambda>r r'. al_id r < al_id r') (by_id db)"
proof -
  assume "ids_ok db"
  then have "distinct (map al_id (by_id db))"
    unfolding by_id_def ids_ok_def by (simp add: distinct_map)
  moreover have "sorted (map al_id (by_id db))" by (simp add: by_id_def)
  ultimately have "sorted_wrt (<) (map al_id (by_id db))" by (simp add: strict_sorted_iff)
  then show ?thesis by (simp add: sorted_wrt_map)
qed

lemma butlast_or_last: "x \<in> set xs \<Longrightarrow> x \<in> set (butlast xs) \<or> x = last xs"
  by (cases xs rule: rev_cases) auto

lemma filter_after_last:
  assumes "sorted_wrt (\<lambda>r r'. al_id r < al_id r') rows" "take n rows \<noteq> []"
  shows "filter (\<lambda>r. al_id (last (take n rows)) < al_id r) rows = drop n rows"
proof -
  let ?l = "last (take n rows)"
  have s: "sorted_wrt (\<lambda>r r'. al_id r < al_id r') (take n rows @ drop n rows)" using assms(1) by simp
  have l: "?l \<in> set (take n rows)" by (rule last_in_set [OF assms(2)])
  have tail: "filter (\<lambda>r. al_id ?l < al_id r) (drop n rows) = drop n rows"
    using s [unfolded sorted_wrt_append] l by (simp add: filter_id_conv)
  have "al_id r \<le> al_id ?l" if "r \<in> set (take n rows)" for r
  proof -
    have "sorted_wrt (\<lambda>r r'. al_id r < al_id r') (butlast (take n rows) @ [?l])" using s assms(2) by (simp add: sorted_wrt_append)
    moreover note butlast_or_last [OF that]
    ultimately show ?thesis by (auto simp: sorted_wrt_append)
  qed
  then have "filter (\<lambda>r. al_id ?l < al_id r) (take n rows) = []" by (auto simp: filter_empty_conv not_less)
  with tail show ?thesis by (metis append_Nil append_take_drop_id filter_append)
qed

lemma verify_from_all:
  assumes "ids_ok db"
  shows "verify_from sha256 boundary db after p = snd (fold (check_row sha256 boundary) (filter (\<lambda>r. after < al_id r) (by_id db)) p)"
proof (induction "length (filter (\<lambda>r. after < al_id r) (by_id db))" arbitrary: after p rule: less_induct)
  case less
  let ?rows = "filter (\<lambda>r. after < al_id r) (by_id db)" and ?b = "batch_after after db"
  show ?case
  proof (cases "?b = []")
    case True
    then have "?rows = []" by (simp add: batch_after_def BATCH_def)
    with True show ?thesis by (subst verify_from.simps) simp
  next
    case False
    have b: "?b = take BATCH ?rows" by (simp add: batch_after_def)
    have strict: "sorted_wrt (\<lambda>r r'. al_id r < al_id r') ?rows" using by_id_strict [OF assms] by (rule sorted_wrt_filter)
    have "after < al_id (last ?b)" using last_in_set [OF False] unfolding b by (auto dest: in_set_takeD)
    then have "filter (\<lambda>r. al_id (last ?b) < al_id r) (by_id db) = filter (\<lambda>r. al_id (last ?b) < al_id r) ?rows"
      by (auto intro: filter_cong)
    also have "\<dots> = drop BATCH ?rows" unfolding b by (rule filter_after_last [OF strict]) (use False b in simp)
    finally have rest: "filter (\<lambda>r. al_id (last ?b) < al_id r) (by_id db) = drop BATCH ?rows" .
    have "length (drop BATCH ?rows) < length ?rows" using False b by (cases ?rows) (auto simp: BATCH_def)
    then have "verify_from sha256 boundary db (al_id (last ?b)) (fold (check_row sha256 boundary) ?b p)
      = snd (fold (check_row sha256 boundary) (drop BATCH ?rows) (fold (check_row sha256 boundary) ?b p))"
      using less [of "al_id (last ?b)"] rest by simp
    also have "\<dots> = snd (fold (check_row sha256 boundary) (?b @ drop BATCH ?rows) p)" by simp
    also have "?b @ drop BATCH ?rows = ?rows" using b by simp
    finally show ?thesis using False by (subst verify_from.simps) simp
  qed
qed

section \<open>No row is altered unnoticed\<close>

abbreviation id_strict :: "audit_row list \<Rightarrow> bool" where
  "id_strict \<equiv> sorted_wrt (\<lambda>r r'. al_id r < al_id r')"

lemma chain_sound_snoc:
  "chain_sound sha256 b e (xs @ [x]) \<longleftrightarrow> chain_sound sha256 b e xs \<and> row_sound sha256 b (if xs = [] then e else al_hash (last xs)) x"
  by (induction xs arbitrary: e) auto

lemma chain_sound_take: "chain_sound sha256 b e (xs @ ys) \<Longrightarrow> chain_sound sha256 b e xs"
  by (induction xs arbitrary: e) auto

lemma strict_last: "id_strict (xs @ [x]) \<Longrightarrow> r \<in> set (xs @ [x]) \<Longrightarrow> al_id r \<le> al_id x"
  by (auto simp: sorted_wrt_append)

lemma sound_same_row:
  assumes "row_sound sha256 (Some v2) e x" "row_sound sha256 (Some v2) e' y" "v2 \<le> al_id x" "v2 \<le> al_id y"
    and "al_hash x = al_hash y" "user_ok x" "user_ok y"
  shows "x = y \<or> sha_collision sha256 x y"
  using assms by (intro digest_binds) (auto simp: row_sound_def before_v2_def)

lemma same_from_head:
  assumes "chain_sound sha256 (Some v2) e (xs @ [x])" "chain_sound sha256 (Some v2) e' (ys @ [y])"
    and "id_strict (xs @ [x])" "id_strict (ys @ [y])" "al_hash x = al_hash y"
    and "v2 \<in> al_id ` set (xs @ [x])" "v2 \<in> al_id ` set (ys @ [y])" "list_all user_ok (xs @ [x])" "list_all user_ok (ys @ [y])"
  shows "filter (\<lambda>r. v2 \<le> al_id r) (xs @ [x]) = filter (\<lambda>r. v2 \<le> al_id r) (ys @ [y])
    \<or> (\<exists>r \<in> set (xs @ [x]). \<exists>r' \<in> set (ys @ [y]). sha_collision sha256 r r')"
  using assms
proof (induction xs arbitrary: x ys y rule: rev_induct)
  case Nil
  then have ids: "v2 = al_id x" "v2 \<le> al_id y" using strict_last [OF Nil.prems(4)] by auto
  from Nil.prems ids have "x = y \<or> sha_collision sha256 x y"
    by (intro sound_same_row [where e = e and e' = "if ys = [] then e' else al_hash (last ys)"]) (auto simp: chain_sound_snoc)
  moreover have "filter (\<lambda>r. v2 \<le> al_id r) (ys @ [x]) = [x]" if "x = y"
    using Nil.prems(4) ids that by (auto simp: sorted_wrt_append filter_empty_conv not_le)
  ultimately show ?case using ids by (auto simp: sorted_wrt_append)
next
  case (snoc x' xs)
  have ge: "v2 \<le> al_id x" "v2 \<le> al_id y"
    using strict_last [OF snoc.prems(3)] strict_last [OF snoc.prems(4)] snoc.prems(6,7) by auto
  have rs: "row_sound sha256 (Some v2) (al_hash x') x" "row_sound sha256 (Some v2) (if ys = [] then e' else al_hash (last ys)) y"
    using snoc.prems(1,2) unfolding chain_sound_snoc by auto
  have "x = y \<or> sha_collision sha256 x y"
    by (rule sound_same_row [OF rs ge snoc.prems(5)]) (use snoc.prems in auto)
  then consider (coll) "sha_collision sha256 x y" | (first) "x = y" "al_id x = v2" | (rest) "x = y" "v2 < al_id x" using ge by force
  then show ?case
  proof cases
    case coll
    then show ?thesis by auto
  next
    case first
    have "filter (\<lambda>r. v2 \<le> al_id r) (zs @ [x]) = [x]" if "id_strict (zs @ [x])" for zs
      using that first by (auto simp: sorted_wrt_append filter_empty_conv not_le)
    with snoc.prems(3,4) first show ?thesis by metis
  next
    case rest
    then have in_xs: "v2 \<in> al_id ` set (xs @ [x'])" and in_ys: "v2 \<in> al_id ` set ys" using snoc.prems(6,7) by auto
    then obtain zs z where ys: "ys = zs @ [z]" by (metis append_butlast_last_id empty_iff image_empty list.set(1))
    have "al_previous x = al_hash x'" "al_previous y = al_hash z" using rs ge ys by (auto simp: row_sound_def before_v2_def)
    with rest have "al_hash x' = al_hash z" by simp
    then have "filter (\<lambda>r. v2 \<le> al_id r) (xs @ [x']) = filter (\<lambda>r. v2 \<le> al_id r) (zs @ [z])
      \<or> (\<exists>r \<in> set (xs @ [x']). \<exists>r' \<in> set (zs @ [z]). sha_collision sha256 r r')"
    proof (intro snoc.IH)
      show "chain_sound sha256 (Some v2) e (xs @ [x'])" by (rule chain_sound_take [OF snoc.prems(1)])
      show "chain_sound sha256 (Some v2) e' (zs @ [z])" using snoc.prems(2) unfolding ys by (rule chain_sound_take)
      show "id_strict (xs @ [x'])" using snoc.prems(3) sorted_wrt_append by blast
      show "id_strict (zs @ [z])" using snoc.prems(4) unfolding ys using sorted_wrt_append by blast
      show "list_all user_ok (xs @ [x'])" using snoc.prems(8) by simp
      show "list_all user_ok (zs @ [z])" using snoc.prems(9) unfolding ys by simp
    qed (use in_xs in_ys ys in simp_all)
    then show ?thesis
    proof
      assume eq: "filter (\<lambda>r. v2 \<le> al_id r) (xs @ [x']) = filter (\<lambda>r. v2 \<le> al_id r) (zs @ [z])"
      have "filter (\<lambda>r. v2 \<le> al_id r) ((xs @ [x']) @ [x]) = filter (\<lambda>r. v2 \<le> al_id r) (ys @ [y])"
        unfolding ys filter_append [of _ "xs @ [x']"] filter_append [of _ "zs @ [z]"] eq rest(1) ..
      then show ?thesis ..
    next
      assume "\<exists>r \<in> set (xs @ [x']). \<exists>r' \<in> set (zs @ [z]). sha_collision sha256 r r'"
      then obtain r r' where "r \<in> set (xs @ [x'])" "r' \<in> set (zs @ [z])" "sha_collision sha256 r r'" by blast
      then have "r \<in> set ((xs @ [x']) @ [x])" "r' \<in> set (ys @ [y])" "sha_collision sha256 r r'" by (auto simp: ys)
      then show ?thesis by blast
    qed
  qed
qed

lemma filter_upto:
  assumes "id_strict (xs @ x # zs)"
  shows "filter (\<lambda>r. v2 \<le> al_id r \<and> al_id r \<le> al_id x) (xs @ x # zs) = filter (\<lambda>r. v2 \<le> al_id r) (xs @ [x])"
proof -
  have "filter (\<lambda>r. v2 \<le> al_id r \<and> al_id r \<le> al_id x) zs = []"
    "filter (\<lambda>r. v2 \<le> al_id r \<and> al_id r \<le> al_id x) xs = filter (\<lambda>r. v2 \<le> al_id r) xs"
    using assms by (auto simp: sorted_wrt_append filter_empty_conv intro!: filter_cong)
  then show ?thesis by simp
qed

lemma same_window:
  assumes "chain_sound sha256 (Some v2) [] os" "chain_sound sha256 (Some v2) [] ns" "id_strict os" "id_strict ns"
    and "o' \<in> set os" "n' \<in> set ns" "al_id o' = al_id n'" "al_hash o' = al_hash n'" "v2 \<le> al_id o'"
    and "v2 \<in> al_id ` set os" "v2 \<in> al_id ` set ns" "list_all user_ok os" "list_all user_ok ns"
  shows "filter (\<lambda>r. v2 \<le> al_id r \<and> al_id r \<le> al_id o') ns = filter (\<lambda>r. v2 \<le> al_id r \<and> al_id r \<le> al_id o') os
    \<or> (\<exists>r \<in> set os. \<exists>r' \<in> set ns. sha_collision sha256 r r')"
proof -
  obtain xs us where os: "os = xs @ o' # us" using assms(5) by (meson split_list)
  obtain ys vs where ns: "ns = ys @ n' # vs" using assms(6) by (meson split_list)
  have in_os: "v2 \<in> al_id ` set (xs @ [o'])" using assms(3,9,10) unfolding os by (auto simp: sorted_wrt_append)
  have in_ns: "v2 \<in> al_id ` set (ys @ [n'])" using assms(4,7,9,11) unfolding ns by (auto simp: sorted_wrt_append)
  have "filter (\<lambda>r. v2 \<le> al_id r) (xs @ [o']) = filter (\<lambda>r. v2 \<le> al_id r) (ys @ [n'])
    \<or> (\<exists>r \<in> set (xs @ [o']). \<exists>r' \<in> set (ys @ [n']). sha_collision sha256 r r')"
  proof (rule same_from_head [OF _ _ _ _ assms(8) in_os in_ns])
    show "chain_sound sha256 (Some v2) [] (xs @ [o'])" using assms(1) chain_sound_take [of sha256 "Some v2" "[]" "xs @ [o']" us] by (simp add: os)
    show "chain_sound sha256 (Some v2) [] (ys @ [n'])" using assms(2) chain_sound_take [of sha256 "Some v2" "[]" "ys @ [n']" vs] by (simp add: ns)
  qed (use assms(3,4,12,13) in \<open>auto simp: os ns sorted_wrt_append\<close>)
  then show ?thesis using filter_upto [of xs o' us] filter_upto [of ys n' vs] assms(3,4,7) by (auto simp: os ns)
qed

lemma before_problems:
  assumes "verifier_check env key w st = (v, st')" "ve_problems v = []" "vs_known st' = Some k"
  obtains cp mac where "latest_checkpoint key (aw_db w) = Some (cp, mac)" "k \<le> ckp_id cp" "check_checkpoint env key cp mac (aw_db w) = []"
    "rep_breaks (verify_chain (ae_sha256 env) (if ve_full v then None else Some (ckp_id cp, ckp_hash cp))
      (case ckp_first_v2 cp of Some i \<Rightarrow> Some i | None \<Rightarrow> first_v2 (aw_db w)) (aw_db w)) = []"
proof -
  obtain p0 anchor where ra: "read_anchor env w = (p0, anchor)" by force
  show thesis
  proof (cases "latest_checkpoint key (aw_db w)")
    case None
    with assms ra have False by (auto simp: verifier_check_def Let_def)
    then show thesis ..
  next
    case (Some l)
    obtain cp mac where l: "l = (cp, mac)" by (cases l)
    have p2: "check_checkpoint env key cp mac (aw_db w) = []"
      using assms(1,2) ra Some l by (auto simp: verifier_check_def Let_def)
    from assms ra Some l p2 have "k \<le> ckp_id cp"
      by (auto simp: verifier_check_def Let_def split: if_splits)
    moreover from assms ra Some l p2 have "rep_breaks (verify_chain (ae_sha256 env) (if ve_full v then None else Some (ckp_id cp, ckp_hash cp))
      (case ckp_first_v2 cp of Some i \<Rightarrow> Some i | None \<Rightarrow> first_v2 (aw_db w)) (aw_db w)) = []"
      by (auto simp: verifier_check_def Let_def)
    ultimately show thesis using that Some l p2 by simp
  qed
qed

lemma verify_chain_full:
  assumes "ids_ok db" "rep_breaks (verify_chain sha256 None boundary db) = []"
  shows "chain_sound sha256 boundary [] (filter (\<lambda>r. 0 < al_id r) (by_id db))"
  using assms unfolding verify_chain_def by (simp add: verify_from_all fold_breaks)

lemma first_v2_in: "first_v2 db = Some i \<Longrightarrow> i \<in> al_id ` set (db_rows db)"
proof -
  assume "first_v2 db = Some i"
  then obtain r rs where "filter (\<lambda>r. al_version r = 2) (by_id db) = r # rs" "i = al_id r"
    by (auto simp: first_v2_def split: list.splits)
  then have "r \<in> set (filter (\<lambda>r. al_version r = 2) (by_id db))" by simp
  then have "r \<in> set (by_id db)" by simp
  with \<open>i = al_id r\<close> show ?thesis by simp
qed

lemma latest_in: "latest_checkpoint key db = Some (cp, mac) \<Longrightarrow> \<exists>k. (cp, k, mac) \<in> set (db_checkpoints db)"
proof -
  assume "latest_checkpoint key db = Some (cp, mac)"
  then obtain k rest where "filter (\<lambda>(cp, k, mac). k = ck_id key) (rev (db_checkpoints db)) = (cp, k, mac) # rest"
    by (auto simp: latest_checkpoint_def split: list.splits prod.splits)
  then have "(cp, k, mac) \<in> set (filter (\<lambda>(cp, k, mac). k = ck_id key) (rev (db_checkpoints db)))" by simp
  then show ?thesis by auto
qed

text \<open>The log as it was written, and what an honest verifier signed about it.\<close>

definition honest_log :: "(bytes \<Rightarrow> bytes) \<Rightarrow> int \<Rightarrow> audit_row list \<Rightarrow> bool" where
  "honest_log sha256 v2 os \<longleftrightarrow> chain_sound sha256 (Some v2) [] os \<and> id_strict os \<and> list_all user_ok os
    \<and> (\<forall>r \<in> set os. 0 < al_id r) \<and> v2 \<in> al_id ` set os"

definition genuine :: "int \<Rightarrow> audit_row list \<Rightarrow> checkpoint \<Rightarrow> bool" where
  "genuine v2 os cp \<longleftrightarrow> (\<exists>r \<in> set os. ckp_id cp = al_id r \<and> ckp_hash cp = al_hash r)
    \<and> (case ckp_first_v2 cp of Some i \<Rightarrow> i = v2 \<and> v2 \<le> ckp_id cp | None \<Rightarrow> ckp_id cp < v2)"

end
