(* ===== verification/Audit_Runs.thy ===== *)
theory Audit_Runs
  imports Audit_Properties
begin

text \<open>
  The verifier over time: rows are appended, the verifier runs, the process restarts and forgets what it knew, in any order.
  On a log nobody tampers with it never raises an alarm and its checkpoints keep up with the log; two verifiers side by side
  can raise one.
\<close>

section \<open>Reading the anchor file\<close>

definition anchor_laws :: "audit_env \<Rightarrow> bool" where
  "anchor_laws env \<longleftrightarrow> (\<forall>a. ae_anchor_parse env (ae_anchor_text env a) = Inr a \<and> CHR 0x0A \<notin> set (ae_anchor_text env a)
    \<and> is_str (ae_anchor_text env a) \<and> trim (ae_anchor_text env a) \<noteq> [] \<and> last (ae_anchor_text env a) = CHR ''}'')"

definition anchor_file :: "audit_env \<Rightarrow> audit_anchor list \<Rightarrow> str" where
  "anchor_file env as = concat (map (\<lambda>a. ae_anchor_text env a @ [CHR 0x0A]) as)"

lemma text_lines_last:
  assumes "CHR 0x0A \<notin> set line" "last line = CHR ''}''" "q = [] \<or> (\<exists>q'. q = q' @ [CHR 0x0A])"
  shows "\<exists>ls. text_lines (q @ line @ [CHR 0x0A]) = ls @ [line]"
proof -
  have cr: "strip_cr line = line" using assms(2) by (simp add: strip_cr_def)
  have split: "str_split (CHR 0x0A) (q @ line @ [CHR 0x0A]) = str_split (CHR 0x0A) (q @ line) @ [[]]"
    using str_split_append [of "CHR 0x0A" "q @ line" "[]"] by simp
  have "\<exists>ls. str_split (CHR 0x0A) (q @ line) = ls @ [line]"
    using assms(3)
  proof
    assume "\<exists>q'. q = q' @ [CHR 0x0A]"
    then obtain q' where "q = q' @ [CHR 0x0A]" ..
    then show ?thesis using str_split_append [of "CHR 0x0A" q' line] str_split_single [OF assms(1)] by simp
  qed (use str_split_single [OF assms(1)] in simp)
  then show ?thesis using cr unfolding text_lines_def split by (auto simp: Let_def)
qed

lemma lossy_line:
  assumes "is_str line"
  shows "from_utf8_lossy (as_bytes (line @ [CHR 0x0A])) = line @ [CHR 0x0A]"
    and "from_utf8_lossy (as_bytes (q @ [CHR 0x0A] @ line @ [CHR 0x0A])) = from_utf8_lossy (as_bytes q) @ [CHR 0x0A] @ line @ [CHR 0x0A]"
proof -
  have nl: "as_bytes (CHR 0x0A # x) = 0x0A # as_bytes x" for x by (simp add: as_bytes_def)
  have ln: "from_utf8_lossy (as_bytes line) = line" using assms by (simp add: is_str_def from_utf8_lossy_valid)
  show one: "from_utf8_lossy (as_bytes (line @ [CHR 0x0A])) = line @ [CHR 0x0A]"
    unfolding as_bytes_append nl from_utf8_lossy_newline ln by (simp add: from_utf8_lossy.simps [of "[]"] as_bytes_def)
  show "from_utf8_lossy (as_bytes (q @ [CHR 0x0A] @ line @ [CHR 0x0A])) = from_utf8_lossy (as_bytes q) @ [CHR 0x0A] @ line @ [CHR 0x0A]"
    using one unfolding as_bytes_append [of q] append_Cons append_Nil nl from_utf8_lossy_newline by simp
qed

lemma drop_snoc: "drop n (xs @ [c]) = [] \<or> (\<exists>q. drop n (xs @ [c]) = q @ [c])"
  by (cases "n \<le> length xs") simp_all

lemma last_anchor_file:
  assumes "anchor_laws env" "length (ae_anchor_text env a) < 65536" "ae_read_fault env = None"
  shows "last_anchor env (Some (anchor_file env (as @ [a]))) = Inr (Some a)"
proof -
  let ?line = "ae_anchor_text env a" and ?c = "anchor_file env (as @ [a])"
  have laws: "CHR 0x0A \<notin> set ?line" "last ?line = CHR ''}''" "trim ?line \<noteq> []" "ae_anchor_parse env ?line = Inr a" "is_str ?line"
    using assms(1) by (auto simp: anchor_laws_def)
  define rest where "rest = drop (length ?c - 64 * 1024) (anchor_file env as)"
  have "?c = anchor_file env as @ ?line @ [CHR 0x0A]" by (simp add: anchor_file_def)
  then have d: "drop (length ?c - 64 * 1024) ?c = rest @ ?line @ [CHR 0x0A]" using assms(2) by (simp add: rest_def)
  have "rest = [] \<or> (\<exists>q. rest = q @ [CHR 0x0A])"
  proof (cases "as = []")
    case False
    then obtain bs b where "as = bs @ [b]" by (metis rev_exhaust)
    then have "anchor_file env as = (anchor_file env bs @ ae_anchor_text env b) @ [CHR 0x0A]" by (simp add: anchor_file_def)
    then show ?thesis unfolding rest_def using drop_snoc by metis
  qed (simp add: rest_def anchor_file_def)
  then have "\<exists>ls. text_lines (from_utf8_lossy (as_bytes (rest @ ?line @ [CHR 0x0A]))) = ls @ [?line]"
  proof
    assume "\<exists>q. rest = q @ [CHR 0x0A]"
    then obtain q where "rest = q @ [CHR 0x0A]" ..
    then show ?thesis using lossy_line(2) [OF laws(5), of q] text_lines_last [OF laws(1,2), of "from_utf8_lossy (as_bytes q) @ [CHR 0x0A]"] by simp
  next
    assume "rest = []"
    then show ?thesis using lossy_line(1) [OF laws(5)] text_lines_last [OF laws(1,2), of "[]"] by simp
  qed
  then show ?thesis using laws(3,4) d assms(3) by (auto simp: last_anchor_def Let_def)
qed

section \<open>Honest runs\<close>

text \<open>
  The environments of the runs share their functions; \<open>vouched\<close> is what Vault vouched, which it accepts, when it answers;
  the anchor file can be read when there is one. Of the line of an anchor, which is at most 64 KiB long, an append that
  fails has written nothing or everything.
\<close>

definition env_laws :: "(bytes \<Rightarrow> str \<Rightarrow> bool) \<Rightarrow> audit_env \<Rightarrow> audit_env \<Rightarrow> bool" where
  "env_laws vouched env0 env \<longleftrightarrow>
     ae_sha256 env = ae_sha256 env0 \<and> ae_hmac env = ae_hmac env0 \<and> ae_hex_decode env = ae_hex_decode env0
   \<and> ae_anchor_text env = ae_anchor_text env0 \<and> ae_anchor_parse env = ae_anchor_parse env0 \<and> ae_anchor_path env = ae_anchor_path env0
   \<and> (\<forall>bs. ae_hex_decode env (hex_encode bs) = Some bs) \<and> anchor_laws env \<and> ae_read_fault env = None
   \<and> (\<forall>f m s. ae_vault_sign env = Some f \<longrightarrow> f m = Inr s \<longrightarrow> vouched m s)
   \<and> (\<forall>f m s. ae_vault_verify env = Some f \<longrightarrow> vouched m s \<longrightarrow> f m s \<noteq> Inr False)"

definition verifier_start :: verifier_state where
  "verifier_start = \<lparr>vs_last_full = None, vs_known = None, vs_alarm = []\<rparr>"

definition anchor_fits :: "audit_env \<Rightarrow> checkpoint_key \<Rightarrow> verdict \<Rightarrow> bool" where
  "anchor_fits env key v \<longleftrightarrow> ae_anchor_path env \<longrightarrow>
    (case ve_checkpoint v of
       Some cp \<Rightarrow>
         let len = length (ae_anchor_text env (anchor_entry env key cp (key_sign env key cp)))
         in len < 65536 \<and> (\<forall>n. ae_append env = AppendStopped n \<longrightarrow> n = 0 \<or> len < n)
     | None \<Rightarrow> True)"

inductive audit_reach ::
    "(bytes \<Rightarrow> str \<Rightarrow> bool) \<Rightarrow> audit_env \<Rightarrow> checkpoint_key \<Rightarrow> audit_world \<times> verifier_state \<Rightarrow> bool" for vouched env0 key where
  fresh: "db_rows (aw_db w) = [] \<Longrightarrow> 0 \<le> db_seq (aw_db w) \<Longrightarrow> db_checkpoints (aw_db w) = [] \<Longrightarrow> aw_anchors w = None \<Longrightarrow>
    audit_reach vouched env0 key (w, verifier_start)"
| append: "audit_reach vouched env0 key (w, st) \<Longrightarrow>
    audit_reach vouched env0 key (w\<lparr>aw_db := audit_append (ae_sha256 env0) gap at user action details (aw_db w)\<rparr>, st)"
| run: "audit_reach vouched env0 key (w, st) \<Longrightarrow> env_laws vouched env0 env \<Longrightarrow> anchor_fits env key (fst (verifier_check env key w st)) \<Longrightarrow>
    audit_reach vouched env0 key (verifier_run env key logged (w, st))"
| restart: "audit_reach vouched env0 key (w, st) \<Longrightarrow> audit_reach vouched env0 key (w, verifier_start)"

section \<open>The invariant\<close>

definition log_ok :: "(bytes \<Rightarrow> bytes) \<Rightarrow> audit_db \<Rightarrow> bool" where
  "log_ok sha256 db \<longleftrightarrow> id_strict (db_rows db) \<and> (\<forall>r \<in> set (db_rows db). 0 < al_id r \<and> al_id r \<le> db_seq db \<and> al_version r = 2)
    \<and> chain_sound sha256 (Some 0) [] (db_rows db) \<and> 0 \<le> db_seq db"

definition cp_good :: "audit_db \<Rightarrow> checkpoint \<Rightarrow> bool" where
  "cp_good db cp \<longleftrightarrow> (\<exists>r \<in> set (db_rows db). ckp_id cp = al_id r \<and> ckp_hash cp = al_hash r)
    \<and> ckp_first_v2 cp = Some (al_id (hd (db_rows db)))"

definition cps_ok :: "audit_env \<Rightarrow> checkpoint_key \<Rightarrow> audit_db \<Rightarrow> bool" where
  "cps_ok env key db \<longleftrightarrow> (\<forall>(cp, k, mac) \<in> set (db_checkpoints db). k = ck_id key \<and> mac = key_sign env key cp \<and> cp_good db cp)"

definition last_cp :: "audit_db \<Rightarrow> int" where
  "last_cp db = ckp_id (fst (last (db_checkpoints db)))"

definition anchor_good ::
    "(bytes \<Rightarrow> str \<Rightarrow> bool) \<Rightarrow> audit_env \<Rightarrow> checkpoint_key \<Rightarrow> audit_db \<Rightarrow> audit_anchor \<Rightarrow> bool" where
  "anchor_good vouched env key db a \<longleftrightarrow> cp_good db (anchor_checkpoint a) \<and> an_key_id a = ck_id key
    \<and> an_mac a = key_sign env key (anchor_checkpoint a) \<and> db_checkpoints db \<noteq> [] \<and> an_last_id a \<le> last_cp db
    \<and> (\<forall>s. an_signature a = Some s \<longrightarrow> vouched (as_bytes (checkpoint_message (anchor_checkpoint a))) s)
    \<and> length (ae_anchor_text env a) < 65536"

definition anchors_ok :: "(bytes \<Rightarrow> str \<Rightarrow> bool) \<Rightarrow> audit_env \<Rightarrow> checkpoint_key \<Rightarrow> audit_world \<Rightarrow> bool" where
  "anchors_ok vouched env key w \<longleftrightarrow> aw_anchors w = None \<or> aw_anchors w = Some []
    \<or> (\<exists>as a. aw_anchors w = Some (anchor_file env (as @ [a])) \<and> anchor_good vouched env key (aw_db w) a)"

definition known_ok :: "audit_db \<Rightarrow> verifier_state \<Rightarrow> bool" where
  "known_ok db st \<longleftrightarrow> vs_alarm st = [] \<and> (\<forall>k. vs_known st = Some k \<longrightarrow> db_checkpoints db \<noteq> [] \<and> k \<le> last_cp db)"

definition audit_inv :: "(bytes \<Rightarrow> str \<Rightarrow> bool) \<Rightarrow> audit_env \<Rightarrow> checkpoint_key \<Rightarrow> audit_world \<times> verifier_state \<Rightarrow> bool" where
  "audit_inv vouched env key p \<longleftrightarrow> log_ok (ae_sha256 env) (aw_db (fst p)) \<and> cps_ok env key (aw_db (fst p))
    \<and> anchors_ok vouched env key (fst p) \<and> known_ok (aw_db (fst p)) (snd p)"

lemma by_id_sorted: "id_strict (db_rows db) \<Longrightarrow> by_id db = db_rows db"
proof -
  assume "id_strict (db_rows db)"
  then have "sorted (map al_id (db_rows db))" by (auto simp: sorted_map intro: sorted_wrt_mono_rel [rotated])
  then show ?thesis unfolding by_id_def by (rule sort_key_id_if_sorted)
qed


lemma log_first_v2:
  assumes "log_ok sha256 db"
  shows "first_v2 db = (if db_rows db = [] then None else Some (al_id (hd (db_rows db))))"
proof -
  have "filter (\<lambda>r. al_version r = 2) (db_rows db) = db_rows db" using assms by (simp add: log_ok_def filter_id_conv)
  with assms show ?thesis by (simp add: first_v2_def by_id_sorted log_ok_def split: list.split)
qed

lemma chain_sound_relax: "chain_sound sha256 (Some 0) e rs \<Longrightarrow> \<forall>r \<in> set rs. 0 < al_id r \<Longrightarrow> chain_sound sha256 b e rs"
  by (induction rs arbitrary: e) (auto simp: row_sound_def before_v2_def)

lemma log_ids: "log_ok sha256 db \<Longrightarrow> ids_ok db"
  by (auto simp: log_ok_def ids_ok_def strict_sorted_iff sorted_wrt_map [symmetric])

lemma log_append:
  assumes "log_ok sha256 db"
  shows "log_ok sha256 (audit_append sha256 gap at user action details db)"
proof -
  let ?i = "db_seq db + 1 + int gap" and ?prev = "if db_rows db = [] then [] else al_hash (last (db_rows db))"
  let ?r = "\<lparr>al_id = ?i, al_at = at, al_user = user, al_action = action, al_details = details, al_previous = ?prev,
    al_hash = audit_hash_v2 sha256 ?i at user action details ?prev, al_version = 2\<rparr>"
  have rows: "db_rows (audit_append sha256 gap at user action details db) = db_rows db @ [?r]"
    "db_seq (audit_append sha256 gap at user action details db) = ?i"
    using assms by (simp_all add: audit_append_def Let_def by_id_sorted log_ok_def)
  have "row_sound sha256 (Some 0) ?prev ?r" by (simp add: row_sound_def row_digest_def)
  with assms show ?thesis
    unfolding log_ok_def rows chain_sound_snoc by (fastforce simp: sorted_wrt_append)
qed

lemma log_append_rows: "\<exists>r. db_rows (audit_append sha256 gap at user action details db) = db_rows db @ [r]"
  "db_checkpoints (audit_append sha256 gap at user action details db) = db_checkpoints db"
  by (simp_all add: audit_append_def Let_def)

lemma cp_good_append:
  assumes "cp_good db cp" shows "cp_good (audit_append sha256 gap at user action details db) cp"
proof -
  obtain r where "db_rows (audit_append sha256 gap at user action details db) = db_rows db @ [r]" using log_append_rows(1) by blast
  moreover have "db_rows db \<noteq> []" using assms by (auto simp: cp_good_def)
  ultimately show ?thesis using assms by (auto simp: cp_good_def)
qed

lemma inv_append:
  assumes "audit_inv vouched env key (w, st)"
  shows "audit_inv vouched env key (w\<lparr>aw_db := audit_append (ae_sha256 env) gap at user action details (aw_db w)\<rparr>, st)"
proof -
  let ?db = "audit_append (ae_sha256 env) gap at user action details (aw_db w)"
  have cps: "db_checkpoints ?db = db_checkpoints (aw_db w)" "last_cp ?db = last_cp (aw_db w)"
    by (simp_all add: log_append_rows(2) last_cp_def)
  have good: "anchor_good vouched env key ?db a" if "anchor_good vouched env key (aw_db w) a" for a
    using that cp_good_append unfolding anchor_good_def cps by blast
  have "anchors_ok vouched env key (w\<lparr>aw_db := ?db\<rparr>)" if "anchors_ok vouched env key w"
    using that good unfolding anchors_ok_def by simp blast
  moreover have "cps_ok env key (aw_db w) \<Longrightarrow> cps_ok env key ?db"
    unfolding cps_ok_def cps using cp_good_append by blast
  moreover have "known_ok ?db st = known_ok (aw_db w) st" by (simp add: known_ok_def cps)
  ultimately show ?thesis
    using assms log_append [of "ae_sha256 env" "aw_db w"] unfolding audit_inv_def by simp
qed

lemma inv_restart: "audit_inv vouched env key (w, st) \<Longrightarrow> audit_inv vouched env key (w, verifier_start)"
  by (simp add: audit_inv_def known_ok_def verifier_start_def)

lemma inv_fresh:
  "db_rows (aw_db w) = [] \<Longrightarrow> 0 \<le> db_seq (aw_db w) \<Longrightarrow> db_checkpoints (aw_db w) = [] \<Longrightarrow> aw_anchors w = None \<Longrightarrow>
    audit_inv vouched env key (w, verifier_start)"
  by (simp add: audit_inv_def known_ok_def verifier_start_def log_ok_def cps_ok_def anchors_ok_def)

lemma same_env:
  assumes "env_laws vouched env0 env"
  shows "audit_inv vouched env key p = audit_inv vouched env0 key p"
  using assms
  by (simp add: audit_inv_def env_laws_def cps_ok_def anchors_ok_def anchor_good_def key_sign_def key_mac_def anchor_file_def)

section \<open>A run finds nothing wrong\<close>

lemma good_checkpoint_rows:
  assumes "log_ok sha256 db" "cp_good db cp" shows "check_checkpoint_rows cp db = []"
proof -
  obtain r where r: "r \<in> set (db_rows db)" "ckp_id cp = al_id r" "ckp_hash cp = al_hash r" and f: "ckp_first_v2 cp = Some (al_id (hd (db_rows db)))"
    using assms(2) by (auto simp: cp_good_def)
  have uniq: "r' = r" if "r' \<in> set (db_rows db)" "al_id r' = al_id r" for r'
    using log_ids [OF assms(1)] r(1) that by (auto simp: ids_ok_def distinct_map inj_on_def)
  obtain r' where r': "List.find (\<lambda>r'. al_id r' = ckp_id cp) (db_rows db) = Some r'"
    using r by (cases "List.find (\<lambda>r'. al_id r' = ckp_id cp) (db_rows db)") (auto simp: find_None_iff)
  then have "r' \<in> set (db_rows db)" "al_id r' = al_id r" using r(2) by (auto simp: find_Some_iff)
  then have "r' = r" by (rule uniq)
  then show ?thesis using r r' f log_first_v2 [OF assms(1)] by (auto simp: check_checkpoint_rows_def)
qed

lemma key_verify_sign:
  assumes "env_laws vouched env0 env" shows "key_verify env key cp (key_sign env key cp)"
proof -
  have "ae_hex_decode env (hex_encode bs) = Some bs" for bs using assms unfolding env_laws_def by blast
  then show ?thesis by (simp add: key_verify_def key_sign_def)
qed

lemma good_anchor:
  assumes "env_laws vouched env0 env" "log_ok sha256 db" "anchor_good vouched env key db a"
  shows "check_anchor env key a db = []"
proof -
  have "check_checkpoint env key (anchor_checkpoint a) (an_mac a) db = []"
    using assms good_checkpoint_rows [OF assms(2), of "anchor_checkpoint a"] key_verify_sign [OF assms(1)]
    by (simp add: check_checkpoint_def anchor_good_def)
  moreover have "(case (ae_vault_verify env, an_signature a) of
        (Some check, Some signature) \<Rightarrow>
          (case check (as_bytes (checkpoint_message (anchor_checkpoint a))) signature of
             Inr False \<Rightarrow> [''the anchored checkpoint at row '' @ show_int (ckp_id (anchor_checkpoint a)) @ '' fails its Vault signature'']
           | _ \<Rightarrow> [])
      | _ \<Rightarrow> []) = []"
    using assms(1,3) unfolding env_laws_def anchor_good_def by (auto split: option.splits sum.splits bool.splits)
  ultimately show ?thesis using assms(3) by (simp add: check_anchor_def Let_def anchor_good_def)
qed

lemma latest_last:
  assumes "cps_ok env key db"
  shows "latest_checkpoint key db = (if db_checkpoints db = [] then None
    else Some (fst (last (db_checkpoints db)), snd (snd (last (db_checkpoints db)))))"
proof -
  have "filter (\<lambda>(cp, k, mac). k = ck_id key) (rev (db_checkpoints db)) = rev (db_checkpoints db)"
    using assms by (auto simp: cps_ok_def filter_id_conv)
  then show ?thesis unfolding latest_checkpoint_def
    by (cases "db_checkpoints db" rule: rev_cases) (simp_all split: prod.split)
qed

lemma chain_sound_after: "chain_sound sha256 b e (xs @ r # ys) \<Longrightarrow> chain_sound sha256 b (al_hash r) ys"
  by (induction xs arbitrary: e) auto

lemma report_clean:
  assumes "log_ok sha256 db" "start = None \<or> (\<exists>cp. cp_good db cp \<and> start = Some (ckp_id cp, ckp_hash cp))"
  shows "rep_breaks (verify_chain sha256 start b db) = []
    \<and> rep_head (verify_chain sha256 start b db)
      = (if db_rows db = [] then None else Some (al_id (last (db_rows db)), al_hash (last (db_rows db))))"
  using assms(2)
proof
  have rows: "by_id db = db_rows db" "\<forall>r \<in> set (db_rows db). 0 < al_id r" "chain_sound sha256 (Some 0) [] (db_rows db)" "id_strict (db_rows db)"
    using assms(1) by_id_sorted by (auto simp: log_ok_def)
  note all = verify_from_all [OF log_ids [OF assms(1)]]
  assume start: "start = None"
  have "filter (\<lambda>r. 0 < al_id r) (db_rows db) = db_rows db" using rows(2) by (simp add: filter_id_conv)
  then show ?thesis
    using chain_sound_relax [OF rows(3,2)] by (auto simp: verify_chain_def all rows(1) start fold_breaks fold_head)
next
  have rows: "by_id db = db_rows db" "\<forall>r \<in> set (db_rows db). 0 < al_id r" "chain_sound sha256 (Some 0) [] (db_rows db)" "id_strict (db_rows db)"
    using assms(1) by_id_sorted by (auto simp: log_ok_def)
  note all = verify_from_all [OF log_ids [OF assms(1)]]
  assume "\<exists>cp. cp_good db cp \<and> start = Some (ckp_id cp, ckp_hash cp)"
  then obtain r where r: "r \<in> set (db_rows db)" and start: "start = Some (al_id r, al_hash r)" by (auto simp: cp_good_def)
  then obtain xs ys where split: "db_rows db = xs @ r # ys" by (meson split_list)
  have after: "filter (\<lambda>q. al_id r < al_id q) (db_rows db) = ys"
    using rows(4) unfolding split by (auto simp: sorted_wrt_append filter_empty_conv filter_id_conv)
  have "chain_sound sha256 b (al_hash r) ys"
    using rows(2,3) unfolding split by (intro chain_sound_relax [OF chain_sound_after]) auto
  moreover have "verify_chain sha256 start b db = snd (fold (check_row sha256 b) ys
      (al_hash r, \<lparr>rep_head = Some (al_id r, al_hash r), rep_rows = 0, rep_breaks = [], rep_legacy_links = 0\<rparr>))"
    by (simp add: verify_chain_def all rows(1) start after)
  moreover have "last (db_rows db) = (if ys = [] then r else last ys)" "db_rows db \<noteq> []" by (simp_all add: split)
  ultimately show ?thesis by (simp add: fold_breaks fold_head)
qed

lemma max_known_le: "(\<And>k. known = Some k \<Longrightarrow> k \<le> i) \<Longrightarrow> max_known known i = Some i"
  by (cases known) (auto simp: max_known_def)

lemma anchor_clean:
  assumes "env_laws vouched env0 env" "anchors_ok vouched env key w"
  shows "\<exists>m. read_anchor env w = ([], m) \<and> (\<forall>a. m = Some a \<longrightarrow> anchor_good vouched env key (aw_db w) a)"
proof (cases "aw_anchors w = None \<or> aw_anchors w = Some []")
  case True
  then show ?thesis using assms(1) by (auto simp: read_anchor_def last_anchor_def env_laws_def text_lines_def as_bytes_def from_utf8_lossy.simps [of "[]"])
next
  case False
  then obtain c where Some: "aw_anchors w = Some c" by auto
  with False assms(2) obtain as a where c: "c = anchor_file env (as @ [a])" and a: "anchor_good vouched env key (aw_db w) a"
    by (auto simp: anchors_ok_def)
  have "last_anchor env (Some c) = Inr (Some a)"
    unfolding c by (rule last_anchor_file) (use assms(1) a in \<open>auto simp: env_laws_def anchor_good_def\<close>)
  with Some a show ?thesis by (simp add: read_anchor_def)
qed

definition next_checkpoint :: "audit_db \<Rightarrow> checkpoint option" where
  "next_checkpoint db =
    (if db_rows db = [] \<or> db_checkpoints db \<noteq> [] \<and> al_id (last (db_rows db)) \<le> last_cp db then None
     else Some \<lparr>ckp_id = al_id (last (db_rows db)), ckp_hash = al_hash (last (db_rows db)), ckp_first_v2 = Some (al_id (hd (db_rows db)))\<rparr>)"

lemma check_clean:
  assumes laws: "env_laws vouched env0 env" and inv: "audit_inv vouched env key (w, st)" and chk: "verifier_check env key w st = (v, st')"
  shows "ve_problems v = [] \<and> known_ok (aw_db w) st' \<and> ve_checkpoint v = next_checkpoint (aw_db w)"
proof -
  let ?db = "aw_db w"
  have log: "log_ok (ae_sha256 env) ?db" and cps: "cps_ok env key ?db" and an: "anchors_ok vouched env key w" and kn: "known_ok ?db st"
    using inv by (simp_all add: audit_inv_def)
  obtain m where m: "read_anchor env w = ([], m)" and good: "\<And>a. m = Some a \<Longrightarrow> anchor_good vouched env key ?db a"
    using anchor_clean [OF laws an] by blast
  have p1: "(case m of Some a \<Rightarrow> check_anchor env key a ?db | None \<Rightarrow> []) = []"
    using good_anchor [OF laws log] good by (simp split: option.split)
  note first = log_first_v2 [OF log]
  show ?thesis
  proof (cases "db_checkpoints ?db = []")
    case True
    then have none: "latest_checkpoint key ?db = None" "m = None" "vs_known st = None"
      using latest_last [OF cps] good kn by (auto simp: anchor_good_def known_ok_def split: option.splits) (metis not_None_eq)+
    from report_clean [OF log, of None] chk show ?thesis
      unfolding verifier_check_def Let_def m none using kn True first
      by (auto simp: known_ok_def next_checkpoint_def split: if_splits)
  next
    case False
    obtain cp k mac where lst: "last (db_checkpoints ?db) = (cp, k, mac)" by (metis prod_cases3)
    then have "(cp, k, mac) \<in> set (db_checkpoints ?db)" using last_in_set [OF False] by simp
    then have cp: "mac = key_sign env key cp" "cp_good ?db cp" using cps by (auto simp: cps_ok_def)
    have latest: "latest_checkpoint key ?db = Some (cp, mac)" using latest_last [OF cps] False lst by simp
    have lc: "last_cp ?db = ckp_id cp" by (simp add: last_cp_def lst)
    have p2: "check_checkpoint env key cp mac ?db = []"
      using good_checkpoint_rows [OF log cp(2)] key_verify_sign [OF laws] cp(1) by (simp add: check_checkpoint_def)
    have rows: "db_rows ?db \<noteq> []" "ckp_first_v2 cp = Some (al_id (hd (db_rows ?db)))" using cp(2) by (auto simp: cp_good_def)
    define known1 where "known1 = (case m of
        Some a \<Rightarrow> if an_key_id a = ck_id key then max_known (vs_known st) (an_last_id a) else vs_known st | None \<Rightarrow> vs_known st)"
    have "j \<le> ckp_id cp" if "known1 = Some j" for j
      using that kn good unfolding known1_def lc [symmetric]
      by (auto simp: known_ok_def anchor_good_def max_known_def split: option.splits if_splits)
    then have known2: "max_known known1 (ckp_id cp) = Some (ckp_id cp)" by (rule max_known_le)
    have rep: "rep_breaks (verify_chain (ae_sha256 env) (if full then None else Some (ckp_id cp, ckp_hash cp)) b ?db) = []
      \<and> rep_head (verify_chain (ae_sha256 env) (if full then None else Some (ckp_id cp, ckp_hash cp)) b ?db)
        = Some (al_id (last (db_rows ?db)), al_hash (last (db_rows ?db)))" for full b
    proof -
      have "(if full then None else Some (ckp_id cp, ckp_hash cp)) = None
        \<or> (\<exists>cp'. cp_good ?db cp' \<and> (if full then None else Some (ckp_id cp, ckp_hash cp)) = Some (ckp_id cp', ckp_hash cp'))"
        using cp(2) by auto
      from report_clean [OF log this] rows(1) show ?thesis by simp
    qed
    note rep1 = rep [of True, unfolded if_True] and rep2 = rep [of False, unfolded if_False]
    show ?thesis
      using chk unfolding verifier_check_def Let_def m prod.case p1 latest option.case p2 known1_def [symmetric] if_True
      using rows kn known2 lc False
      by (auto simp: known_ok_def next_checkpoint_def rep1 rep2)
  qed
qed

lemma record_status_same [simp]: "aw_db (record_status env ps a w) = aw_db w" "aw_anchors (record_status env ps a w) = aw_anchors w"
  by (simp_all add: record_status_def)

lemma next_cp_good:
  assumes "next_checkpoint db = Some cp"
  shows "cp_good db cp \<and> (db_checkpoints db \<noteq> [] \<longrightarrow> last_cp db < ckp_id cp)"
  using assms by (auto simp: next_checkpoint_def cp_good_def split: if_splits intro!: bexI [of _ "last (db_rows db)"])

lemma anchor_entry_checkpoint [simp]: "anchor_checkpoint (anchor_entry env key cp mac) = cp"
  by (simp add: anchor_checkpoint_def anchor_entry_def)

lemma commit_writes:
  assumes "ve_problems v = []" "ve_checkpoint v = Some cp"
  shows "\<exists>w2. verifier_commit env key logged v w st = (w2, st\<lparr>vs_alarm := [],
      vs_last_full := (if ve_full v then Some (ae_time env) else vs_last_full st), vs_known := Some (ckp_id cp)\<rparr>)
    \<and> aw_db w2 = (aw_db w)\<lparr>db_checkpoints := db_checkpoints (aw_db w) @ [(cp, ck_id key, key_sign env key cp)]\<rparr>
    \<and> aw_anchors w2 = (if ae_anchor_path env then snd (append_anchor env (anchor_entry env key cp (key_sign env key cp)) (aw_anchors w))
        else aw_anchors w)"
  using assms by (cases "ae_anchor_path env") (simp_all add: verifier_commit_def Let_def write_anchor_def split: prod.splits)

text \<open>What an append that is not torn leaves.\<close>

lemma append_whole:
  assumes "\<And>n. ae_append env = AppendStopped n \<Longrightarrow> n = 0 \<or> length (ae_anchor_text env a) < n"
  shows "snd (append_anchor env a content) \<in> {content, Some (case content of Some c \<Rightarrow> c | None \<Rightarrow> []),
    Some ((case content of Some c \<Rightarrow> c | None \<Rightarrow> []) @ anchor_file env [a])}"
proof (cases "ae_append env")
  case (AppendStopped n)
  with assms [OF this] show ?thesis by (auto simp: append_anchor_def anchor_file_def Let_def)
qed (simp_all add: append_anchor_def anchor_file_def Let_def)

lemma inv_run:
  assumes laws: "env_laws vouched env0 env" and inv: "audit_inv vouched env key (w, st)"
    and fits: "anchor_fits env key (fst (verifier_check env key w st))"
  shows "audit_inv vouched env key (verifier_run env key logged (w, st))"
proof -
  let ?db = "aw_db w"
  obtain v st' where chk: "verifier_check env key w st = (v, st')" by force
  have clean: "ve_problems v = []" "known_ok ?db st'" and cpv: "ve_checkpoint v = next_checkpoint ?db"
    using check_clean [OF laws inv chk] by simp_all
  have log: "log_ok (ae_sha256 env) ?db" and cps: "cps_ok env key ?db" and an: "anchors_ok vouched env key w"
    using inv by (simp_all add: audit_inv_def)
  let ?st = "st'\<lparr>vs_alarm := [], vs_last_full := (if ve_full v then Some (ae_time env) else vs_last_full st')\<rparr>"
  show ?thesis
  proof (cases "next_checkpoint ?db")
    case None
    then have "verifier_run env key logged (w, st) = (record_status env [] (ve_anchor v) w, ?st)"
      by (simp add: verifier_run_def chk verifier_commit_def clean(1) cpv)
    then show ?thesis using log cps an clean(2) by (simp add: audit_inv_def anchors_ok_def known_ok_def)
  next
    case (Some cp)
    let ?mac = "key_sign env key cp"
    let ?db' = "?db\<lparr>db_checkpoints := db_checkpoints ?db @ [(cp, ck_id key, ?mac)]\<rparr>"
    let ?entry = "anchor_entry env key cp ?mac"
    obtain w2 where run: "verifier_run env key logged (w, st) = (w2, ?st\<lparr>vs_known := Some (ckp_id cp)\<rparr>)"
      and db: "aw_db w2 = ?db'"
      and anchors: "aw_anchors w2 = (if ae_anchor_path env then snd (append_anchor env ?entry (aw_anchors w)) else aw_anchors w)"
      using commit_writes [OF clean(1), of cp env key logged w st'] Some cpv by (auto simp: verifier_run_def chk)
    have good: "cp_good ?db' cp' = cp_good ?db cp'" for cp' by (simp add: cp_good_def)
    have last': "last_cp ?db' = ckp_id cp" by (simp add: last_cp_def)
    have older: "anchor_good vouched env key ?db' a" if "anchor_good vouched env key ?db a" for a
      using that next_cp_good [OF Some] unfolding anchor_good_def good last' by auto
    have entry: "anchor_good vouched env key ?db' ?entry" if "ae_anchor_path env"
    proof -
      have "length (ae_anchor_text env ?entry) < 65536" using fits that by (simp add: anchor_fits_def chk cpv Some Let_def)
      moreover have "vouched (as_bytes (checkpoint_message cp)) s" if "an_signature ?entry = Some s" for s
        using that laws unfolding env_laws_def by (auto simp: anchor_entry_def split: option.splits sum.splits)
      moreover have "an_key_id ?entry = ck_id key" "an_mac ?entry = ?mac" "an_last_id ?entry = ckp_id cp" by (simp_all add: anchor_entry_def)
      ultimately show ?thesis using next_cp_good [OF Some] by (simp add: anchor_good_def good last')
    qed
    have "anchors_ok vouched env key w2"
    proof (cases "aw_anchors w2 = aw_anchors w \<or> aw_anchors w2 = Some []")
      case True
      then show ?thesis
      proof
        assume "aw_anchors w2 = aw_anchors w"
        then show ?thesis using an older unfolding anchors_ok_def db by auto
      qed (simp add: anchors_ok_def)
    next
      case False
      then have path: "ae_anchor_path env" using anchors by argo
      then have c: "aw_anchors w2 = Some ((case aw_anchors w of Some c \<Rightarrow> c | None \<Rightarrow> []) @ anchor_file env [?entry])"
        using False append_whole [of env ?entry "aw_anchors w"] fits anchors
        by (auto simp: anchor_fits_def chk cpv Some Let_def split: option.splits)
      have "\<exists>as. (case aw_anchors w of Some c \<Rightarrow> c | None \<Rightarrow> []) = anchor_file env as"
      proof (cases "aw_anchors w = None \<or> aw_anchors w = Some []")
        case True
        then show ?thesis by (intro exI [of _ "[]"]) (auto simp: anchor_file_def)
      qed (use an in \<open>auto simp: anchors_ok_def\<close>)
      then obtain as where "aw_anchors w2 = Some (anchor_file env (as @ [?entry]))" using c by (auto simp: anchor_file_def)
      then show ?thesis using entry [OF path] unfolding anchors_ok_def db by blast
    qed
    moreover have "cps_ok env key ?db'" using cps next_cp_good [OF Some] unfolding cps_ok_def good by auto
    moreover have "log_ok (ae_sha256 env) ?db'" using log by (simp add: log_ok_def)
    moreover have "known_ok ?db' (?st\<lparr>vs_known := Some (ckp_id cp)\<rparr>)" by (simp add: known_ok_def last')
    ultimately show ?thesis by (simp add: run audit_inv_def db)
  qed
qed

lemma inv_audit_reach: "audit_reach vouched env0 key p \<Longrightarrow> audit_inv vouched env0 key p"
proof (induction rule: audit_reach.induct)
  case (run w st env logged)
  then show ?case using inv_run same_env by metis
qed (auto intro: inv_fresh inv_append inv_restart)

section \<open>Properties\<close>

text \<open>C11: nobody rewrites history unnoticed. Take the log as it was written and any database an attacker may leave, with rows
  altered, removed, inserted or renumbered and every digest recomputed, and checkpoints removed or replayed. If no
  MAC in it is forged and a run over the whole chain reports no problem, then from the first row in the current format up
  to the newest checkpoint the verifier remembers or finds anchored, the log is unchanged, or two rows collide under SHA-256.\<close>

theorem audit_tamper_evident:
  assumes "honest_log (ae_sha256 env) v2 os" "\<And>cp k mac. (cp, k, mac) \<in> set (db_checkpoints (aw_db w)) \<Longrightarrow> key_verify env key cp mac \<Longrightarrow> genuine v2 os cp"
    and "ids_ok (aw_db w)" "list_all user_ok (db_rows (aw_db w))"
    and "verifier_check env key w st = (v, st')" "ve_full v" "ve_problems v = []" "vs_known st' = Some k"
  shows "filter (\<lambda>r. v2 \<le> al_id r \<and> al_id r \<le> k) (by_id (aw_db w)) = filter (\<lambda>r. v2 \<le> al_id r \<and> al_id r \<le> k) os
    \<or> (\<exists>r \<in> set os. \<exists>r' \<in> set (db_rows (aw_db w)). sha_collision (ae_sha256 env) r r')"
proof (cases "k < v2")
  case True
  then have "filter (\<lambda>r. v2 \<le> al_id r \<and> al_id r \<le> k) rs = []" for rs :: "audit_row list" by (auto simp: filter_empty_conv)
  then show ?thesis by simp
next
  case False
  let ?db = "aw_db w" and ?ns = "filter (\<lambda>r. 0 < al_id r) (by_id (aw_db w))"
  obtain cp mac where lt: "latest_checkpoint key ?db = Some (cp, mac)" and k: "k \<le> ckp_id cp" and chk: "check_checkpoint env key cp mac ?db = []"
    and rep: "rep_breaks (verify_chain (ae_sha256 env) None (case ckp_first_v2 cp of Some i \<Rightarrow> Some i | None \<Rightarrow> first_v2 ?db) ?db) = []"
    by (rule before_problems [OF assms(5,7,8)]) (simp add: assms(6))
  from latest_in [OF lt] chk assms(2) have "genuine v2 os cp" and rows: "check_checkpoint_rows cp ?db = []"
    by (auto simp: check_checkpoint_def split: if_splits)
  then obtain o' where o': "o' \<in> set os" "ckp_id cp = al_id o'" "ckp_hash cp = al_hash o'" and v2: "ckp_first_v2 cp = Some v2" "v2 \<le> ckp_id cp"
    using k False by (auto simp: genuine_def split: option.splits)
  from rows v2 obtain n' where n': "List.find (\<lambda>r. al_id r = ckp_id cp) (db_rows ?db) = Some n'" "al_hash n' = ckp_hash cp" and f: "first_v2 ?db = Some v2"
    by (auto simp: check_checkpoint_rows_def split: option.splits if_splits)
  then have n'_in: "n' \<in> set (db_rows ?db)" "al_id n' = ckp_id cp" by (auto simp: find_Some_iff)
  have pos: "0 < v2" using assms(1) by (auto simp: honest_log_def)
  have window: "filter (\<lambda>r. v2 \<le> al_id r \<and> al_id r \<le> al_id o') ?ns = filter (\<lambda>r. v2 \<le> al_id r \<and> al_id r \<le> al_id o') os
    \<or> (\<exists>r \<in> set os. \<exists>r' \<in> set ?ns. sha_collision (ae_sha256 env) r r')"
  proof (rule same_window)
    show "chain_sound (ae_sha256 env) (Some v2) [] ?ns" using verify_chain_full [OF assms(3) rep] v2 by simp
    show "id_strict ?ns" using by_id_strict [OF assms(3)] by (rule sorted_wrt_filter)
    show "n' \<in> set ?ns" using n'_in v2 pos by simp
    show "v2 \<in> al_id ` set ?ns" using first_v2_in [OF f] pos by auto
  qed (use assms(1,4) o' n' n'_in v2 in \<open>auto simp: honest_log_def list_all_iff\<close>)
  have pos_rows: "filter (\<lambda>r. v2 \<le> al_id r \<and> al_id r \<le> al_id o') ?ns = filter (\<lambda>r. v2 \<le> al_id r \<and> al_id r \<le> al_id o') (by_id ?db)"
    using pos by (auto intro: filter_cong)
  have cut: "filter (\<lambda>r. v2 \<le> al_id r \<and> al_id r \<le> k) rs
      = filter (\<lambda>r. al_id r \<le> k) (filter (\<lambda>r. v2 \<le> al_id r \<and> al_id r \<le> al_id o') rs)" for rs :: "audit_row list"
    using k o'(2) by (auto intro!: filter_cong)
  from window show ?thesis
  proof
    assume "filter (\<lambda>r. v2 \<le> al_id r \<and> al_id r \<le> al_id o') ?ns = filter (\<lambda>r. v2 \<le> al_id r \<and> al_id r \<le> al_id o') os"
    then show ?thesis unfolding pos_rows cut [of "by_id ?db"] cut [of os] by simp
  next
    assume "\<exists>r \<in> set os. \<exists>r' \<in> set ?ns. sha_collision (ae_sha256 env) r r'"
    then show ?thesis by (elim bexE) (simp, blast)
  qed
qed

lemma latest_is_last:
  assumes "audit_inv vouched env key (w, st)" "next_checkpoint (aw_db w) = None" "db_rows (aw_db w) \<noteq> []"
  shows "\<exists>cp mac. latest_checkpoint key (aw_db w) = Some (cp, mac) \<and> ckp_id cp = al_id (last (db_rows (aw_db w)))
    \<and> ckp_hash cp = al_hash (last (db_rows (aw_db w)))"
proof -
  let ?db = "aw_db w"
  have cps: "cps_ok env key ?db" and log: "log_ok (ae_sha256 env) ?db" using assms(1) by (simp_all add: audit_inv_def)
  have ne: "db_checkpoints ?db \<noteq> []" and le: "al_id (last (db_rows ?db)) \<le> last_cp ?db"
    using assms(2,3) by (auto simp: next_checkpoint_def split: if_splits)
  obtain cp k mac where lst: "last (db_checkpoints ?db) = (cp, k, mac)" by (metis prod_cases3)
  then have "(cp, k, mac) \<in> set (db_checkpoints ?db)" using last_in_set [OF ne] by simp
  then have "cp_good ?db cp" using cps by (auto simp: cps_ok_def)
  then obtain r where r: "r \<in> set (db_rows ?db)" "ckp_id cp = al_id r" "ckp_hash cp = al_hash r" by (auto simp: cp_good_def)
  have "r = last (db_rows ?db)"
  proof (rule ccontr)
    assume ne': "r \<noteq> last (db_rows ?db)"
    have rows: "db_rows ?db = butlast (db_rows ?db) @ [last (db_rows ?db)]" using assms(3) by simp
    from butlast_or_last [OF r(1)] ne' have "r \<in> set (butlast (db_rows ?db))" by simp
    moreover have "id_strict (butlast (db_rows ?db) @ [last (db_rows ?db)])" using log rows by (metis log_ok_def)
    ultimately have "al_id r < al_id (last (db_rows ?db))" by (auto simp: sorted_wrt_append)
    with le r(2) show False by (simp add: last_cp_def lst)
  qed
  with latest_last [OF cps] ne lst r show ?thesis by simp
qed


text \<open>C29: one verifier on an honest log does not raise an alarm. However appends, runs of the verifier and restarts follow each
  other, whether or not Vault answers, a run finds no problem, and when it is over the newest checkpoint names the last row
  of the log with its digest. The anchor file may refuse to be opened for writing or fail to flush; but its reads must succeed, and an
  append that fails must have written none or all of the line, of less than 64 KiB.\<close>

theorem audit_no_false_alarm:
  assumes "audit_reach vouched env0 key (w, st)" "env_laws vouched env0 env"
    and "anchor_fits env key (fst (verifier_check env key w st))" "verifier_run env key logged (w, st) = (w', st')"
  shows "ve_problems (fst (verifier_check env key w st)) = []
    \<and> (db_rows (aw_db w) \<noteq> [] \<longrightarrow> (\<exists>cp mac. latest_checkpoint key (aw_db w') = Some (cp, mac)
        \<and> ckp_id cp = al_id (last (db_rows (aw_db w))) \<and> ckp_hash cp = al_hash (last (db_rows (aw_db w)))))"
proof -
  have inv: "audit_inv vouched env key (w, st)" using inv_audit_reach [OF assms(1)] same_env [OF assms(2)] by simp
  obtain v st1 where chk: "verifier_check env key w st = (v, st1)" by force
  note clean = check_clean [OF assms(2) inv chk]
  have inv': "audit_inv vouched env key (w', st')" using inv_run [OF assms(2) inv assms(3), of logged] assms(4) by simp
  have "db_rows (aw_db w') = db_rows (aw_db w) \<and> (next_checkpoint (aw_db w') = None)"
  proof (cases "next_checkpoint (aw_db w)")
    case None
    then show ?thesis using clean assms(4) by (auto simp: verifier_run_def chk verifier_commit_def)
  next
    case (Some cp)
    then have db: "aw_db w' = (aw_db w)\<lparr>db_checkpoints := db_checkpoints (aw_db w) @ [(cp, ck_id key, key_sign env key cp)]\<rparr>"
      using commit_writes [of v cp env key logged w st1] clean assms(4) by (auto simp: verifier_run_def chk)
    have "ckp_id cp = al_id (last (db_rows (aw_db w)))" using Some by (auto simp: next_checkpoint_def split: if_splits)
    then show ?thesis by (simp add: db next_checkpoint_def last_cp_def)
  qed
  with latest_is_last [OF inv'] clean chk show ?thesis by auto
qed

lemma audit_reach_run_check:
  assumes "audit_reach vouched env0 key (w, st)" "env_laws vouched env0 env" "verifier_check env key w st = (v, st')"
  shows "ve_problems v = [] \<and> ve_checkpoint v = next_checkpoint (aw_db w)"
  using check_clean [OF assms(2) _ assms(3)] inv_audit_reach [OF assms(1)] same_env [OF assms(2)] by simp

lemma known_grows:
  assumes "vs_known st = Some k"
  shows "\<exists>k'. vs_known (snd (verifier_check env key w st)) = Some k' \<and> k \<le> k'"
proof -
  obtain p0 anchor where ra: "read_anchor env w = (p0, anchor)" by force
  define known1 where "known1 = (case anchor of
      Some a \<Rightarrow> if an_key_id a = ck_id key then max_known (vs_known st) (an_last_id a) else vs_known st | None \<Rightarrow> vs_known st)"
  have "\<exists>k1. known1 = Some k1 \<and> k \<le> k1"
    using assms by (simp add: known1_def max_known_def split: option.split)
  then obtain k1 where k1: "known1 = Some k1" "k \<le> k1" by blast
  show ?thesis
    unfolding verifier_check_def Let_def ra prod.case known1_def [symmetric] k1(1)
    using k1(2) by (simp add: max_known_def le_max_iff_disj split: option.split)
qed

text \<open>Outside these conditions an honest log does raise one. An anchor file that cannot be read is reported as a problem of the
  log, and so is one whose last line was only partly written when an append failed; the failed append itself is only a warning.\<close>

lemma unreadable_anchor_alarms:
  assumes "ae_anchor_path env" "last_anchor env (aw_anchors w) = Inl e"
  shows "ve_problems (fst (verifier_check env key w st)) \<noteq> []"
  using assms by (simp add: verifier_check_def read_anchor_def Let_def)

lemma torn_append_unreadable:
  assumes "ae_append env = AppendStopped n" "n \<le> length (ae_anchor_text env a)" "CHR 0x0A \<notin> set (ae_anchor_text env a)"
    and "part = take n (ae_anchor_text env a)" "is_str part" "trim part \<noteq> []" "length part \<le> 64 * 1024"
    and "ae_read_fault env' = None" "ae_anchor_parse env' part = Inl e"
  shows "last_anchor env' (snd (append_anchor env a None)) = Inl e"
proof -
  have "snd (append_anchor env a None) = Some part" using assms(1,2,4) by (simp add: append_anchor_def Let_def)
  moreover have "CHR 0x0A \<notin> set part" using assms(3,4) by (auto dest: in_set_takeD)
  then have "text_lines part = [part]" using assms(6) by (auto simp: text_lines_def str_split_single trim_def)
  moreover have "from_utf8_lossy (as_bytes part) = part" using assms(5) by (simp add: is_str_def from_utf8_lossy_valid)
  ultimately show ?thesis using assms(6-9) by (simp add: last_anchor_def)
qed

text \<open>Two verifiers can raise a false alarm. Each replica runs one, and a run reads the log, walks it and inserts its
  checkpoint without a lock. If the one that saw fewer rows inserts last, its checkpoint is the newest in the table, and
  the other replica reports at its next run that checkpoints have been removed, although nobody touched anything.\<close>

lemma verifier_race_alarms:
  assumes "ve_problems va = []" "ve_checkpoint va = Some cpa" "ve_problems vb = []" "ve_checkpoint vb = Some cpb"
    and "ckp_id cpa < ckp_id cpb"
    and "verifier_commit env key lb vb w stb = (w1, stb')" "verifier_commit env key la va w1 sta = (w2, sta')"
  shows "ve_problems (fst (verifier_check env key w2 stb')) \<noteq> []"
proof -
  have known: "vs_known stb' = Some (ckp_id cpb)" using commit_writes [OF assms(3,4), of env key lb w stb] assms(6) by auto
  have "db_checkpoints (aw_db w2) = db_checkpoints (aw_db w1) @ [(cpa, ck_id key, key_sign env key cpa)]"
    using commit_writes [OF assms(1,2), of env key la w1 sta] assms(7) by auto
  then have latest: "latest_checkpoint key (aw_db w2) = Some (cpa, key_sign env key cpa)" by (simp add: latest_checkpoint_def)
  show ?thesis
  proof
    assume none: "ve_problems (fst (verifier_check env key w2 stb')) = []"
    obtain v st' where chk: "verifier_check env key w2 stb' = (v, st')" by force
    have "\<exists>k. vs_known st' = Some k \<and> ckp_id cpb \<le> k" using known_grows [OF known, of env key w2] chk by simp
    then obtain k where k: "vs_known st' = Some k" "ckp_id cpb \<le> k" by blast
    from before_problems [OF chk _ k(1)] none chk latest k(2) assms(5) show False by auto
  qed
qed


section \<open>A sample log\<close>

text \<open>Hexadecimal and an anchor format that satisfy the laws; digest and MAC are constant.\<close>

definition unhex_digit :: "char \<Rightarrow> nat" where
  "unhex_digit c = (let n = of_char c in if n < 58 then n - 48 else n - 87)"

fun unhex :: "str \<Rightarrow> bytes option" where
  "unhex [] = Some []"
| "unhex [c] = None"
| "unhex (a # b # s) = map_option (\<lambda>bs. of_nat (unhex_digit a * 16 + unhex_digit b) # bs) (unhex s)"

lemma unhex_hex_digit: "d < 16 \<Longrightarrow> unhex_digit (hex_digit d) = d"
  by (simp add: unhex_digit_def hex_digit_def)

lemma unhex_encode: "unhex (hex_encode bs) = Some bs"
proof (induction bs)
  case (Cons b bs)
  have "unat b div 16 < 16" using unat_lt_256 [of b] by (simp add: div_less_iff_less_mult)
  with Cons show ?case by (simp add: hex_encode_def unhex_hex_digit)
qed (simp add: hex_encode_def)

definition text_field :: "str \<Rightarrow> str" where
  "text_field s = hex_encode (as_bytes s)"

definition option_field :: "('a \<Rightarrow> str) \<Rightarrow> 'a option \<Rightarrow> str" where
  "option_field f m = (case m of None \<Rightarrow> [] | Some x \<Rightarrow> CHR ''+'' # f x)"

definition un_text :: "str \<Rightarrow> str" where
  "un_text s = str_of_bytes (the (unhex s))"

definition un_int :: "str \<Rightarrow> int" where
  "un_int s = (if s \<noteq> [] \<and> hd s = CHR ''-'' then - int (digits_val (tl s)) else int (digits_val s))"

definition un_option :: "(str \<Rightarrow> 'a) \<Rightarrow> str \<Rightarrow> 'a option" where
  "un_option f s = (if s = [] then None else Some (f (tl s)))"

definition sample_text :: "audit_anchor \<Rightarrow> str" where
  "sample_text a = CHR ''{'' # show_int (an_v a) @ CHR '','' # text_field (an_at a) @ CHR '','' # show_int (an_last_id a) @ CHR '','' #
     text_field (an_last_hash a) @ CHR '','' # option_field show_int (an_first_v2 a) @ CHR '','' # text_field (an_key_id a) @ CHR '','' #
     text_field (an_mac a) @ CHR '','' # option_field text_field (an_signature a) @ ''}''"

definition sample_parse :: "str \<Rightarrow> str + audit_anchor" where
  "sample_parse s =
    (case str_split (CHR '','') (butlast (tl s)) of
       [v, at, i, h, f, k, m, g] \<Rightarrow>
         Inr \<lparr>an_v = un_int v, an_at = un_text at, an_last_id = un_int i, an_last_hash = un_text h, an_first_v2 = un_option un_int f,
              an_key_id = un_text k, an_mac = un_text m, an_signature = un_option un_text g\<rparr>
     | _ \<Rightarrow> Inl ''bad anchor'')"

lemma un_text_field [simp]: "un_text (text_field s) = s"
  by (simp add: un_text_def text_field_def unhex_encode)

lemma un_show_int [simp]: "un_int (show_int i) = i"
  using hd_show_nat(2) [of "nat i"] by (simp add: un_int_def show_int_def)

lemma un_option_field [simp]: "(\<And>x. g (f x) = x) \<Longrightarrow> un_option g (option_field f m) = m"
  by (simp add: un_option_def option_field_def split: option.split)

text \<open>The characters of the fields.\<close>

definition field_char :: "char \<Rightarrow> bool" where
  "field_char c \<longleftrightarrow> c \<noteq> CHR '','' \<and> c \<noteq> CHR 0x0A \<and> of_char c < (128 :: nat)"

lemma field_char_digit: "is_digit c \<Longrightarrow> field_char c"
  by (auto simp: is_digit_def field_char_def)

lemma field_char_hex: "d < 16 \<Longrightarrow> field_char (hex_digit d)"
proof -
  assume "d < 16"
  then have "of_char (hex_digit d) = (if d < 10 then 48 + d else 87 + d)" by (simp add: hex_digit_def)
  then have "48 \<le> (of_char (hex_digit d) :: nat)" "(of_char (hex_digit d) :: nat) < 128" using \<open>d < 16\<close> by simp_all
  then show ?thesis by (auto simp: field_char_def)
qed

lemma show_int_chars: "list_all field_char (show_int i)"
proof -
  have "list_all field_char (show_nat n)" for n
    using show_nat_digits [of n] by (auto simp: list_all_iff field_char_digit)
  then show ?thesis by (simp add: show_int_def field_char_def)
qed

lemma text_field_chars: "list_all field_char (text_field s)"
proof -
  have "unat b div 16 < 16" for b :: u8 using unat_lt_256 [of b] by (simp add: div_less_iff_less_mult)
  then have "field_char (hex_digit (unat b div 16))" "field_char (hex_digit (unat b mod 16))" for b :: u8
    by (simp_all add: field_char_hex)
  then show ?thesis by (auto simp: text_field_def hex_encode_def list_all_iff)
qed

lemma option_field_chars: "(\<And>x. list_all field_char (f x)) \<Longrightarrow> list_all field_char (option_field f m)"
  by (simp add: option_field_def field_char_def split: option.split)

lemma field_split: "list_all field_char s \<Longrightarrow> str_split (CHR '','') s = [s]"
  by (rule str_split_single) (auto simp: list_all_iff field_char_def)

lemma ascii_is_str: "list_all (\<lambda>c. of_char c < (128 :: nat)) s \<Longrightarrow> is_str s"
  unfolding is_str_def by (induction s) (simp_all add: as_bytes_def)

lemmas sample_fields = show_int_chars text_field_chars option_field_chars [OF show_int_chars] option_field_chars [OF text_field_chars]

lemma sample_anchor_laws:
  assumes "ae_anchor_text env = sample_text" "ae_anchor_parse env = sample_parse"
  shows "anchor_laws env"
proof -
  have "sample_parse (sample_text a) = Inr a" for a
    by (simp add: sample_parse_def sample_text_def butlast_append str_split_append field_split sample_fields)
  moreover have "CHR 0x0A \<notin> set (sample_text a)" for a
  proof -
    have "CHR 0x0A \<notin> set s" if "list_all field_char s" for s using that by (auto simp: list_all_iff field_char_def)
    then show ?thesis by (simp add: sample_text_def sample_fields)
  qed
  moreover have "is_str (sample_text a)" for a
  proof (rule ascii_is_str)
    have "list_all (\<lambda>c. of_char c < (128 :: nat)) s" if "list_all field_char s" for s
      using that by (auto simp: list_all_iff field_char_def)
    then show "list_all (\<lambda>c. of_char c < (128 :: nat)) (sample_text a)" by (simp add: sample_text_def sample_fields)
  qed
  moreover have "last (sample_text a) = CHR ''}''" for a by (simp add: sample_text_def)
  moreover have "trim (sample_text a) \<noteq> []" for a
  proof -
    have "strip_front space_width (CHR ''{'' # s) = CHR ''{'' # s" for s
      by (rule strip_front_stop) (simp add: ascii_space_def wide_space_def split: list.split)
    then have "strip_front space_width (sample_text a) = sample_text a" by (simp add: sample_text_def)
    moreover have "strip_front space_width_rev (CHR ''}'' # s) = CHR ''}'' # s" for s
      by (rule strip_front_stop) (simp add: ascii_space_def wide_space_def split: list.split)
    ultimately show ?thesis by (simp add: trim_def) (simp add: sample_text_def)
  qed
  ultimately show ?thesis using assms by (simp add: anchor_laws_def)
qed


definition sample_audit_env :: "(bytes \<Rightarrow> bytes) \<Rightarrow> bool \<Rightarrow> audit_env" where
  "sample_audit_env sha256 path = \<lparr>ae_sha256 = sha256, ae_hmac = (\<lambda>k m. m), ae_hex_decode = unhex, ae_vault_verify = None, ae_vault_sign = None,
     ae_anchor_path = path, ae_anchor_text = sample_text, ae_anchor_parse = sample_parse, ae_append = Appended, ae_read_fault = None, ae_time = 0, ae_at = ''t''\<rparr>"

definition sample_key :: checkpoint_key where
  "sample_key = \<lparr>ck_key = [], ck_id = ''k''\<rparr>"

definition sample_world :: audit_world where
  "sample_world = \<lparr>aw_db = \<lparr>db_rows = [], db_seq = 0, db_checkpoints = []\<rparr>, aw_anchors = None,
     aw_status = \<lparr>status_last_run = None, status_problems = [], status_anchor_path = False, status_anchor = None\<rparr>\<rparr>"

definition sample_append :: "(bytes \<Rightarrow> bytes) \<Rightarrow> audit_world \<Rightarrow> audit_world" where
  "sample_append sha256 w = w\<lparr>aw_db := audit_append sha256 0 ''t'' None ''a'' ''{}'' (aw_db w)\<rparr>"

lemma sample_env_laws: "env_laws (\<lambda>_ _. True) (sample_audit_env sha256 path) (sample_audit_env sha256 path)"
  using sample_anchor_laws [of "sample_audit_env sha256 path"] by (simp add: env_laws_def sample_audit_env_def unhex_encode)

lemma sample_reach1:
  "audit_reach (\<lambda>_ _. True) (sample_audit_env sha256 path) key (sample_append sha256 sample_world, verifier_start)"
  using audit_reach.append [OF audit_reach.fresh [of sample_world "\<lambda>_ _. True" "sample_audit_env sha256 path" key], of 0 "''t''" None "''a''" "''{}''"]
  by (simp add: sample_append_def sample_world_def sample_audit_env_def)

lemma sample_next1: "next_checkpoint (aw_db (sample_append (\<lambda>_. []) sample_world)) = Some \<lparr>ckp_id = 1, ckp_hash = [], ckp_first_v2 = Some 1\<rparr>"
  by (simp add: next_checkpoint_def sample_append_def sample_world_def audit_append_def Let_def audit_hash_v2_def hex_encode_def)

lemma sample_fits:
  assumes "verifier_check (sample_audit_env (\<lambda>_. []) True) sample_key (sample_append (\<lambda>_. []) sample_world) verifier_start = (v, st')"
  shows "anchor_fits (sample_audit_env (\<lambda>_. []) True) sample_key v"
proof -
  have "ve_checkpoint v = Some \<lparr>ckp_id = 1, ckp_hash = [], ckp_first_v2 = Some 1\<rparr>"
    using audit_reach_run_check [OF sample_reach1 sample_env_laws assms] sample_next1 by simp
  then show ?thesis
    by (simp add: anchor_fits_def sample_audit_env_def sample_text_def anchor_entry_def sample_key_def key_sign_def key_mac_def
        checkpoint_message_def text_field_def option_field_def hex_encode_def show_int_def show_nat.simps as_bytes_def sum_list_replicate comp_def length_concat)
qed

theorem audit_no_false_alarm_witness:
  "\<exists>w'. fst (verifier_run (sample_audit_env (\<lambda>_. []) True) sample_key None (sample_append (\<lambda>_. []) sample_world, verifier_start)) = w'
    \<and> (\<exists>cp mac. latest_checkpoint sample_key (aw_db w') = Some (cp, mac) \<and> ckp_id cp = 1)"
proof -
  let ?env = "sample_audit_env (\<lambda>_. []) True" and ?w = "sample_append (\<lambda>_. []) sample_world"
  obtain v st1 where chk: "verifier_check ?env sample_key ?w verifier_start = (v, st1)" by force
  obtain w' st' where run: "verifier_run ?env sample_key None (?w, verifier_start) = (w', st')" by force
  have fits: "anchor_fits ?env sample_key (fst (verifier_check ?env sample_key ?w verifier_start))" using sample_fits [OF chk] chk by simp
  have rows: "db_rows (aw_db ?w) \<noteq> []" "al_id (last (db_rows (aw_db ?w))) = 1"
    by (simp_all add: sample_append_def sample_world_def audit_append_def Let_def)
  from audit_no_false_alarm [OF sample_reach1 sample_env_laws fits run] rows run show ?thesis by auto
qed


theorem audit_tamper_evident_witness:
  "\<exists>w v st'. verifier_check (sample_audit_env (\<lambda>bs. bs) False) sample_key w verifier_start = (v, st') \<and> ve_problems v = []
    \<and> filter (\<lambda>r. 1 \<le> al_id r \<and> al_id r \<le> 1) (by_id (aw_db w)) = db_rows (aw_db (sample_append (\<lambda>bs. bs) sample_world))"
proof -
  let ?env = "sample_audit_env (\<lambda>bs. bs) False" and ?w = "sample_append (\<lambda>bs. bs) sample_world"
  let ?os = "db_rows (aw_db ?w)"
  obtain w s where run: "verifier_run ?env sample_key None (?w, verifier_start) = (w, s)" by force
  have fits: "anchor_fits ?env sample_key v" for v by (simp add: anchor_fits_def sample_audit_env_def)
  have "audit_reach (\<lambda>_ _. True) ?env sample_key (w, s)"
    using audit_reach.run [OF sample_reach1 sample_env_laws fits, where logged = None] run by simp
  then have reach: "audit_reach (\<lambda>_ _. True) ?env sample_key (w, verifier_start)" by (rule audit_reach.restart)
  obtain v st' where chk: "verifier_check ?env sample_key w verifier_start = (v, st')" by force
  have clean: "ve_problems v = []" using audit_reach_run_check [OF reach sample_env_laws chk] by simp
  obtain v0 s0 where chk0: "verifier_check ?env sample_key ?w verifier_start = (v0, s0)" by force
  obtain h where os: "?os = [\<lparr>al_id = 1, al_at = ''t'', al_user = None, al_action = ''a'', al_details = ''{}'', al_previous = [], al_hash = h, al_version = 2\<rparr>]"
    by (simp add: sample_append_def sample_world_def audit_append_def Let_def)
  have "next_checkpoint (aw_db ?w) = Some \<lparr>ckp_id = 1, ckp_hash = h, ckp_first_v2 = Some 1\<rparr>"
    unfolding next_checkpoint_def os by (simp add: sample_append_def sample_world_def audit_append_def Let_def)
  with audit_reach_run_check [OF sample_reach1 sample_env_laws chk0]
  have v0: "ve_problems v0 = []" "ve_checkpoint v0 = Some \<lparr>ckp_id = 1, ckp_hash = h, ckp_first_v2 = Some 1\<rparr>" by simp_all
  have db: "db_rows (aw_db w) = ?os" "\<exists>mac. db_checkpoints (aw_db w) = [(\<lparr>ckp_id = 1, ckp_hash = h, ckp_first_v2 = Some 1\<rparr>, ck_id sample_key, mac)]"
    using commit_writes [OF v0, of ?env sample_key None ?w s0] run
    by (auto simp: verifier_run_def chk0) (simp_all add: sample_append_def sample_world_def audit_append_def Let_def)
  have inv: "audit_inv (\<lambda>_ _. True) ?env sample_key (?w, verifier_start)" by (rule inv_audit_reach [OF sample_reach1])
  then have "honest_log (ae_sha256 ?env) 1 ?os"
    using chain_sound_relax [of "ae_sha256 ?env" "[]" ?os "Some 1"]
    by (simp add: audit_inv_def log_ok_def honest_log_def os user_ok_def)
  moreover have "genuine 1 ?os cp" if "(cp, k, mac) \<in> set (db_checkpoints (aw_db w))" for cp k mac
    using that db(2) by (auto simp: genuine_def os)
  moreover have "ids_ok (aw_db w)" "list_all user_ok (db_rows (aw_db w))" by (simp_all add: ids_ok_def db(1) os user_ok_def)
  moreover have "ve_full v" "vs_known st' = Some 1"
    using chk clean db(2) unfolding verifier_check_def Let_def split_def
    by (auto simp: verifier_start_def latest_checkpoint_def read_anchor_def sample_audit_env_def max_known_def split: if_splits)
  ultimately have "filter (\<lambda>r. 1 \<le> al_id r \<and> al_id r \<le> 1) (by_id (aw_db w)) = filter (\<lambda>r. 1 \<le> al_id r \<and> al_id r \<le> 1) ?os
      \<or> (\<exists>r \<in> set ?os. \<exists>r' \<in> set (db_rows (aw_db w)). sha_collision (ae_sha256 ?env) r r')"
    using audit_tamper_evident [OF _ _ _ _ chk _ clean] by blast
  moreover have "\<not> sha_collision (ae_sha256 ?env) r r'" for r r'
    by (auto simp: sha_collision_def sample_audit_env_def)
  ultimately show ?thesis using chk clean os by auto
qed

end
