(* ===== verification/Av_Scan.thy ===== *)
theory Av_Scan
  imports Rust_Text Rust_Std
begin

text \<open>
  Malware scanning of uploads, \<open>backend/src/services/av.rs\<close>: the verdicts and which of them block, the configuration, the
  clamd and command scanners. The file system, the connection to clamd and the scanner process are the record \<open>scan_env\<close>;
  an exchange that is not answered in time is \<open>None\<close>.
\<close>

section \<open>Verdicts\<close>

definition DEFAULT_CLAMD_ADDR :: str where "DEFAULT_CLAMD_ADDR = ''clamav:3310''"
definition DEFAULT_TIMEOUT_MS :: nat where [bound_simps]: "DEFAULT_TIMEOUT_MS = 120000"
definition DEFAULT_MAX_SCAN_SIZE :: nat where [bound_simps]: "DEFAULT_MAX_SCAN_SIZE = 500 * 1024 * 1024"
definition INSTREAM_CHUNK_SIZE :: nat where [bound_simps]: "INSTREAM_CHUNK_SIZE = 64 * 1024"

datatype av_verdict = Clean | Infected str | Skipped str | ScanError str

definition av_verdict_str :: "av_verdict \<Rightarrow> str" where
  "av_verdict_str v = (case v of Clean \<Rightarrow> ''clean'' | Infected _ \<Rightarrow> ''infected'' | Skipped _ \<Rightarrow> ''skipped'' | ScanError _ \<Rightarrow> ''error'')"

definition av_signature :: "av_verdict \<Rightarrow> str option" where
  "av_signature v = (case v of Infected s \<Rightarrow> Some s | _ \<Rightarrow> None)"

definition av_message :: "av_verdict \<Rightarrow> str option" where
  "av_message v = (case v of ScanError m \<Rightarrow> Some m | Skipped r \<Rightarrow> Some r | _ \<Rightarrow> None)"

datatype fail_mode = Block | Allow

definition blocks :: "av_verdict \<Rightarrow> fail_mode \<Rightarrow> bool" where
  "blocks v mode =
    (case v of
       Infected _ \<Rightarrow> True
     | ScanError _ \<Rightarrow> mode = Block
     | Skipped reason \<Rightarrow> if reason = ''oversize'' then mode = Block else False
     | Clean \<Rightarrow> False)"

definition mentions :: "str list \<Rightarrow> str \<Rightarrow> bool" where
  "mentions needles s = list_ex (\<lambda>n. str_contains n s) needles"

definition user_facing_block_message :: "av_verdict \<Rightarrow> str" where
  "user_facing_block_message v =
    (case v of
       Infected signature \<Rightarrow> ''File rejected by malware scan: '' @ signature
     | ScanError message \<Rightarrow>
         let lc = to_ascii_lowercase message in
         if mentions [''exceeded'', ''time limit'', ''timed out'', ''timeout''] lc then
           ''Antivirus scan timed out before it could finish. This usually happens with Java WAR/JAR/EAR archives or other ''
           @ ''files containing many nested or deeply-compressed entries '' @ [CHR 0xE2, CHR 0x80, CHR 0x94]
           @ '' they are extremely expensive for the scanner to walk. Please try a smaller file, or pre-extract the archive and ''
           @ ''upload the contents individually.''
         else if mentions [''connection refused'', ''transport error'', ''connection reset'', ''broken pipe''] lc then
           ''The antivirus scanner is temporarily unavailable. Please wait a moment and try again. If this persists, contact ''
           @ ''your administrator.''
         else ''Antivirus scan failed: '' @ message
     | Skipped reason \<Rightarrow>
         if reason = ''oversize'' then
           ''File is larger than the antivirus scan limit and cannot be accepted unscanned. Please upload a smaller file.''
         else ''Upload rejected.''
     | Clean \<Rightarrow> ''Upload rejected.'')"

section \<open>Configuration\<close>

definition fail_mode_from_str :: "str \<Rightarrow> fail_mode" where
  "fail_mode_from_str s = (if to_ascii_lowercase (trim s) \<in> {''allow'', ''pass'', ''open''} then Allow else Block)"

datatype av_backend = Off | ClamAv str | Command str

record av_config =
  av_backend :: av_backend
  av_fail_mode :: fail_mode
  av_max_scan_size :: nat
  av_timeout_ms :: nat

text \<open>\<open>env\<close> looks up a variable of the process environment.\<close>

definition backend_from_env :: "(str \<Rightarrow> str option) \<Rightarrow> av_backend" where
  "backend_from_env env =
    (let b = to_ascii_lowercase (trim (case env ''STRATA_AV_BACKEND'' of Some v \<Rightarrow> v | None \<Rightarrow> ''off'')) in
     if b \<in> {''clamav'', ''clamd''} then ClamAv (case env ''STRATA_AV_CLAMD_ADDR'' of Some a \<Rightarrow> a | None \<Rightarrow> DEFAULT_CLAMD_ADDR)
     else if b \<in> {''command'', ''cmd'', ''exec''} then
       (case env ''STRATA_AV_COMMAND'' of Some cmd \<Rightarrow> if trim cmd \<noteq> [] then Command cmd else Off | None \<Rightarrow> Off)
     else Off)"

definition number_from_env :: "(str \<Rightarrow> str option) \<Rightarrow> str \<Rightarrow> nat \<Rightarrow> nat" where
  "number_from_env env name d =
    (case env name of Some s \<Rightarrow> (case parse_uint 64 (trim s) of Some n \<Rightarrow> n | None \<Rightarrow> d) | None \<Rightarrow> d)"

definition av_config_from_env :: "(str \<Rightarrow> str option) \<Rightarrow> av_config" where
  "av_config_from_env env =
    \<lparr>av_backend = backend_from_env env,
     av_fail_mode = fail_mode_from_str (case env ''STRATA_AV_FAIL_MODE'' of Some v \<Rightarrow> v | None \<Rightarrow> ''block''),
     av_max_scan_size = number_from_env env ''STRATA_AV_MAX_SCAN_SIZE'' DEFAULT_MAX_SCAN_SIZE,
     av_timeout_ms = number_from_env env ''STRATA_AV_TIMEOUT_MS'' DEFAULT_TIMEOUT_MS\<rparr>"

section \<open>Scanners\<close>

text \<open>A process exits with a code unless a signal ends it; both its streams are captured.\<close>

record process_output =
  po_code :: "int option"
  po_stdout :: bytes
  po_stderr :: bytes

record scan_env =
  sc_stat :: "str \<Rightarrow> str + nat"
  sc_reads :: "str \<Rightarrow> str + bytes list"
  sc_exchange :: "str \<Rightarrow> bytes \<Rightarrow> (str + bytes) option"
  sc_process :: "str \<Rightarrow> str list \<Rightarrow> (str + process_output) option"

text \<open>
  The INSTREAM request for a file as the reads deliver it: each piece behind its length, an empty piece at the end. A
  read of no bytes is the end of the file.
\<close>

definition instream_request :: "bytes list \<Rightarrow> bytes" where
  "instream_request reads =
    as_bytes ''zINSTREAM'' @ [0] @ concat (map (\<lambda>c. u32_be (of_nat (length c)) @ c) (takeWhile (\<lambda>c. c \<noteq> []) reads)) @ u32_be 0"

fun trim_end_char :: "char \<Rightarrow> str \<Rightarrow> str" where
  "trim_end_char c s = rev (dropWhile (\<lambda>x. x = c) (rev s))"

function trim_end_str :: "str \<Rightarrow> str \<Rightarrow> str" where
  "trim_end_str pat s = (if pat \<noteq> [] \<and> ends_with pat s then trim_end_str pat (take (length s - length pat) s) else s)"
  by pat_completeness auto
termination
proof (relation "measure (\<lambda>(pat, s). length s)")
  fix pat s :: str
  assume "pat \<noteq> [] \<and> ends_with pat s"
  then have "0 < length pat" "length pat \<le> length s" by (simp_all add: ends_with_def)
  then have "length s - length pat < length s" by linarith
  then show "((pat, take (length s - length pat) s), pat, s) \<in> measure (\<lambda>(pat, s). length s)" by simp
qed simp

declare trim_end_str.simps [simp del]

definition ascii_upper :: "char \<Rightarrow> char" where
  "ascii_upper c = (let n = (of_char c :: nat) in if 97 \<le> n \<and> n \<le> 122 then char_of (n - 32) else c)"

definition to_ascii_uppercase :: "str \<Rightarrow> str" where
  "to_ascii_uppercase s = map ascii_upper s"

definition clamd_verdict :: "bytes \<Rightarrow> av_verdict" where
  "clamd_verdict resp =
    (let line = trim (trim_end_char (CHR 0x0A) (trim_end_char (CHR 0x00) (from_utf8_lossy resp))) in
     if ends_with '' FOUND'' line then Infected (trim (after_last '': '' (trim_end_str '' FOUND'' line)))
     else if ends_with '' OK'' line \<or> eq_ignore_ascii_case line ''stream: ok'' then Clean
     else if str_contains ''ERROR'' (to_ascii_uppercase line) then ScanError line
     else ScanError (''unexpected clamd response: '' @ line))"

definition clamd_instream :: "scan_env \<Rightarrow> str \<Rightarrow> str \<Rightarrow> (str + av_verdict) option" where
  "clamd_instream env addr path =
    (case sc_reads env path of
       Inl e \<Rightarrow> Some (Inl e)
     | Inr reads \<Rightarrow> map_option (\<lambda>r. map_sum (\<lambda>e. e) clamd_verdict r) (sc_exchange env addr (instream_request reads)))"

definition oversize_check :: "scan_env \<Rightarrow> nat \<Rightarrow> str \<Rightarrow> av_verdict option" where
  "oversize_check env max_scan_size path =
    (case sc_stat env path of
       Inr len \<Rightarrow> if len > max_scan_size then Some (Skipped ''oversize'') else None
     | Inl e \<Rightarrow> Some (ScanError (''stat failed: '' @ e)))"

definition clamav_scan :: "scan_env \<Rightarrow> str \<Rightarrow> nat \<Rightarrow> nat \<Rightarrow> str \<Rightarrow> av_verdict" where
  "clamav_scan env addr max_scan_size timeout path =
    (case oversize_check env max_scan_size path of
       Some v \<Rightarrow> v
     | None \<Rightarrow>
         (case clamd_instream env addr path of
            Some (Inr v) \<Rightarrow> v
          | Some (Inl e) \<Rightarrow> ScanError (''clamd transport error: '' @ e)
          | None \<Rightarrow> ScanError (''clamd scan exceeded '' @ show_nat timeout @ '' ms'')))"

definition PATH_MARK :: str where "PATH_MARK = ''{path}''"

definition build_argv :: "str \<Rightarrow> str \<Rightarrow> (str \<times> str list) option" where
  "build_argv command path =
    (case split_whitespace command of
       [] \<Rightarrow> None
     | program # parts \<Rightarrow>
         Some (program, map (\<lambda>p. if str_contains PATH_MARK p then str_replace PATH_MARK path p else p) parts
           @ (if list_ex (str_contains PATH_MARK) parts then [] else [path])))"

definition signature_line :: "bytes \<Rightarrow> str option" where
  "signature_line out =
    map_option (\<lambda>l. case split_once_str '': '' l of Some (_, sig) \<Rightarrow> trim sig | None \<Rightarrow> l)
      (List.find (\<lambda>l. l \<noteq> []) (map trim (rev (text_lines (from_utf8_lossy out)))))"

definition extract_signature :: "bytes \<Rightarrow> bytes \<Rightarrow> str" where
  "extract_signature stdout stderr =
    (case signature_line stdout of
       Some s \<Rightarrow> s
     | None \<Rightarrow> (case signature_line stderr of Some s \<Rightarrow> s | None \<Rightarrow> ''unknown''))"

definition process_verdict :: "process_output \<Rightarrow> av_verdict" where
  "process_verdict out =
    (case po_code out of
       Some code \<Rightarrow>
         if code = 0 then Clean
         else if code = 1 then Infected (extract_signature (po_stdout out) (po_stderr out))
         else ScanError (''scanner exit '' @ show_int code @ '': '' @ trim (from_utf8_lossy (po_stderr out)))
     | None \<Rightarrow> ScanError ''scanner terminated by signal'')"

definition command_scan :: "scan_env \<Rightarrow> str \<Rightarrow> nat \<Rightarrow> nat \<Rightarrow> str \<Rightarrow> av_verdict" where
  "command_scan env command max_scan_size timeout path =
    (case oversize_check env max_scan_size path of
       Some v \<Rightarrow> v
     | None \<Rightarrow>
         (case build_argv command path of
            None \<Rightarrow> ScanError ''STRATA_AV_COMMAND is empty''
          | Some (program, args) \<Rightarrow>
              (case sc_process env program args of
                 Some (Inr out) \<Rightarrow> process_verdict out
               | Some (Inl e) \<Rightarrow> ScanError (''spawn failed: '' @ e)
               | None \<Rightarrow> ScanError (''scanner exceeded '' @ show_nat timeout @ '' ms''))))"

definition av_scan :: "scan_env \<Rightarrow> av_config \<Rightarrow> str \<Rightarrow> av_verdict" where
  "av_scan env cfg path =
    (case av_backend cfg of
       Off \<Rightarrow> Skipped ''scanning disabled''
     | ClamAv addr \<Rightarrow> clamav_scan env addr (av_max_scan_size cfg) (av_timeout_ms cfg) path
     | Command command \<Rightarrow> command_scan env command (av_max_scan_size cfg) (av_timeout_ms cfg) path)"

definition backend_tag :: "av_config \<Rightarrow> str" where
  "backend_tag cfg = (case av_backend cfg of Off \<Rightarrow> ''off'' | ClamAv _ \<Rightarrow> ''clamav'' | Command _ \<Rightarrow> ''command'')"

section \<open>What passes\<close>

text \<open>Only a clean verdict, or scanning being off, lets a file through in the blocking mode.\<close>

lemma blocks_Block: "\<not> blocks v Block \<longleftrightarrow> v = Clean \<or> (\<exists>r. v = Skipped r \<and> r \<noteq> ''oversize'')"
  by (cases v) (simp_all add: blocks_def)

lemma verdicts_not_skipped [simp]: "clamd_verdict resp \<noteq> Skipped r" "process_verdict out \<noteq> Skipped r"
  by (simp_all add: clamd_verdict_def process_verdict_def Let_def split: option.split)

lemma clamd_not_skipped [simp]: "clamd_instream env addr path \<noteq> Some (Inr (Skipped r))"
  by (auto simp: clamd_instream_def map_sum_def split: sum.splits)

lemma scan_skips_oversize_only:
  assumes "av_scan env cfg path = Skipped r"
  shows "av_backend cfg = Off \<and> r = ''scanning disabled'' \<or> r = ''oversize'' \<and> (\<exists>n. sc_stat env path = Inr n \<and> n > av_max_scan_size cfg)"
  using assms
  by (auto simp: av_scan_def clamav_scan_def command_scan_def oversize_check_def
      split: av_backend.splits option.splits sum.splits if_splits)

text \<open>A file that passes an enabled scanner in the blocking mode was found clean by it.\<close>

lemma scan_fails_closed:
  assumes "\<not> blocks (av_scan env cfg path) Block" "av_backend cfg \<noteq> Off" shows "av_scan env cfg path = Clean"
  using assms scan_skips_oversize_only [of env cfg path] unfolding blocks_Block by blast

end
