(* ===== verification/Oidc.thy ===== *)
theory Oidc
  imports App_Error Hash_Map
begin

text \<open>
  Validation of tokens of an OpenID provider, \<open>backend/src/services/auth.rs\<close>, with its caches of discovery documents and key
  sets. Times are seconds of a monotonic clock. Requests to the provider and the decoding of tokens are the record
  \<open>oidc_env\<close>; the lock per URL makes a fetch and its insertion into the cache one step, so a call is a function from the
  caches to the caches. The requests sent are kept in a list, each with its time.
\<close>

type_synonym gate_error = "(str, str) app_error"

record oidc_claims =
  oc_sub :: str
  oc_username :: "str option"
  oc_email :: "str option"
  oc_name :: "str option"
  oc_exp :: nat
  oc_iat :: nat
  oc_nonce :: "str option"
  oc_email_verified :: "bool option"

record oidc_discovery =
  od_jwks_uri :: str
  od_issuer :: str
  od_authorization :: str
  od_token_endpoint :: str
  od_end_session :: "str option"

record jwk =
  jwk_kid :: "str option"
  jwk_n :: str
  jwk_e :: str
  jwk_kty :: str

type_synonym jwks = "jwk list"

definition has_kid :: "str \<Rightarrow> jwks \<Rightarrow> bool" where
  "has_kid kid ks = list_ex (\<lambda>k. jwk_kid k = Some kid) ks"

definition OIDC_CACHE_TTL :: nat where [bound_simps]: "OIDC_CACHE_TTL = 600"
definition JWKS_FORCED_REFRESH_INTERVAL :: nat where [bound_simps]: "JWKS_FORCED_REFRESH_INTERVAL = 60"

record oidc_caches =
  cc_discovery :: "(str, oidc_discovery \<times> nat) hmap"
  cc_jwks :: "(str, jwks \<times> nat) hmap"
  cc_discovery_requests :: "(str \<times> nat) list"
  cc_jwks_requests :: "(str \<times> nat) list"

text \<open>
  \<open>oe_send\<close> is a request and the body of its answer, the next two parse a body; \<open>oe_kid\<close> is \<open>decode_header\<close>, \<open>oe_decode\<close> the RS256 decoding under a key with an audience and an issuer.
\<close>

record oidc_env =
  oe_now :: nat
  oe_send :: "str \<Rightarrow> str + bytes"
  oe_parse_discovery :: "bytes \<Rightarrow> str + oidc_discovery"
  oe_parse_jwks :: "bytes \<Rightarrow> str + jwks"
  oe_kid :: "str \<Rightarrow> str + str option"
  oe_rsa :: "str \<Rightarrow> str \<Rightarrow> str option"
  oe_decode :: "str \<Rightarrow> str \<Rightarrow> str \<Rightarrow> str \<Rightarrow> str \<Rightarrow> str + oidc_claims"

definition cached_discovery :: "oidc_env \<Rightarrow> str \<Rightarrow> oidc_caches \<Rightarrow> oidc_discovery option" where
  "cached_discovery env issuer_url s =
    (case hm_get issuer_url (cc_discovery s) of
       Some (d, at) \<Rightarrow> if oe_now env - at < OIDC_CACHE_TTL then Some d else None
     | None \<Rightarrow> None)"

definition cached_jwks :: "oidc_env \<Rightarrow> str \<Rightarrow> nat \<Rightarrow> oidc_caches \<Rightarrow> jwks option" where
  "cached_jwks env uri max_age s =
    (case hm_get uri (cc_jwks s) of
       Some (ks, at) \<Rightarrow> if oe_now env - at < max_age then Some ks else None
     | None \<Rightarrow> None)"

definition trim_end_slashes :: "str \<Rightarrow> str" where
  "trim_end_slashes s = rev (dropWhile (\<lambda>c. c = CHR ''/'') (rev s))"

definition get_discovery :: "oidc_env \<Rightarrow> str \<Rightarrow> gate_error + oidc_discovery" where
  "get_discovery env url =
    and_then (map_err (\<lambda>e. Auth (''OIDC discovery failed: '' @ e)) (oe_send env url)) (\<lambda>body.
      map_err (\<lambda>e. Auth (''OIDC discovery parse: '' @ e)) (oe_parse_discovery env body))"

definition get_jwks :: "oidc_env \<Rightarrow> str \<Rightarrow> gate_error + jwks" where
  "get_jwks env uri =
    and_then (map_err (\<lambda>e. Auth (''JWKS fetch failed: '' @ e)) (oe_send env uri)) (\<lambda>body.
      map_err (\<lambda>e. Auth (''JWKS parse: '' @ e)) (oe_parse_jwks env body))"

definition fetch_oidc_discovery_cached ::
    "oidc_env \<Rightarrow> str \<Rightarrow> oidc_caches \<Rightarrow> (gate_error + oidc_discovery) \<times> oidc_caches" where
  "fetch_oidc_discovery_cached env issuer_url s =
    (if \<not> starts_with ''https://'' issuer_url then (Inl (Auth ''OIDC issuer must use HTTPS''), s)
     else case cached_discovery env issuer_url s of
       Some d \<Rightarrow> (Inr d, s)
     | None \<Rightarrow>
         let url = trim_end_slashes issuer_url @ ''/.well-known/openid-configuration'';
             s1 = s\<lparr>cc_discovery_requests := cc_discovery_requests s @ [(url, oe_now env)]\<rparr>
         in case get_discovery env url of
              Inl e \<Rightarrow> (Inl e, s1)
            | Inr d \<Rightarrow>
                if trim_end_slashes issuer_url \<noteq> trim_end_slashes (od_issuer d)
                then (Inl (Auth (''OIDC issuer mismatch: expected '' @ trim_end_slashes issuer_url @ '', got ''
                        @ trim_end_slashes (od_issuer d))), s1)
                else (Inr d, s1\<lparr>cc_discovery := hm_insert issuer_url (d, oe_now env) (cc_discovery s1)\<rparr>))"

definition fetch_jwks_cached :: "oidc_env \<Rightarrow> str \<Rightarrow> nat \<Rightarrow> oidc_caches \<Rightarrow> (gate_error + jwks) \<times> oidc_caches" where
  "fetch_jwks_cached env uri max_age s =
    (case cached_jwks env uri max_age s of
       Some ks \<Rightarrow> (Inr ks, s)
     | None \<Rightarrow>
         let s1 = s\<lparr>cc_jwks_requests := cc_jwks_requests s @ [(uri, oe_now env)]\<rparr> in
         case get_jwks env uri of
           Inl e \<Rightarrow> (Inl e, s1)
         | Inr ks \<Rightarrow> (Inr ks, s1\<lparr>cc_jwks := hm_insert uri (ks, oe_now env) (cc_jwks s1)\<rparr>))"

definition check_jwk :: "oidc_env \<Rightarrow> str \<Rightarrow> oidc_discovery \<Rightarrow> str \<Rightarrow> jwks \<Rightarrow> str \<Rightarrow> gate_error + oidc_claims" where
  "check_jwk env client_id discovery kid ks token =
    and_then (ok_or (List.find (\<lambda>k. jwk_kid k = Some kid) ks) (Auth ''No matching JWK kid'')) (\<lambda>k.
      if jwk_kty k \<noteq> ''RSA'' then Inl (Auth ''Unsupported key type'')
      else case oe_rsa env (jwk_n k) (jwk_e k) of
        Some e \<Rightarrow> Inl (Auth (''RSA key: '' @ e))
      | None \<Rightarrow> map_err (\<lambda>e. Auth (''Token validation: '' @ e))
                  (oe_decode env (jwk_n k) (jwk_e k) client_id (od_issuer discovery) token))"

definition validate_token :: "oidc_env \<Rightarrow> str \<Rightarrow> str \<Rightarrow> str \<Rightarrow> oidc_caches \<Rightarrow> (gate_error + oidc_claims) \<times> oidc_caches" where
  "validate_token env issuer_url client_id token s =
    (if \<not> starts_with ''https://'' issuer_url then (Inl (Auth ''OIDC issuer must use HTTPS''), s)
     else case oe_kid env token of
       Inl e \<Rightarrow> (Inl (Auth (''Token header: '' @ e)), s)
     | Inr None \<Rightarrow> (Inl (Auth ''Token missing kid header claim''), s)
     | Inr (Some kid) \<Rightarrow>
         and_do (fetch_oidc_discovery_cached env issuer_url s) (\<lambda>discovery s1.
         and_do (fetch_jwks_cached env (od_jwks_uri discovery) OIDC_CACHE_TTL s1) (\<lambda>ks s2.
         and_do (if has_kid kid ks then (Inr ks, s2)
                 else fetch_jwks_cached env (od_jwks_uri discovery) JWKS_FORCED_REFRESH_INTERVAL s2) (\<lambda>ks' s3.
           (check_jwk env client_id discovery kid ks' token, s3)))))"

section \<open>What a valid token says\<close>

text \<open>The claims were decoded under an RSA key of the issuer's set, for this client, with the issuer that was configured.\<close>

lemma fetch_discovery_issuer:
  assumes "fetch_oidc_discovery_cached env issuer_url s = (Inr d, s')"
    and "\<And>u d at. hm_get u (cc_discovery s) = Some (d, at) \<Longrightarrow> trim_end_slashes (od_issuer d) = trim_end_slashes u"
  shows "trim_end_slashes (od_issuer d) = trim_end_slashes issuer_url"
  using assms by (auto simp: fetch_oidc_discovery_cached_def cached_discovery_def Let_def split: if_splits option.splits sum.splits)

section \<open>How often a key set is requested\<close>

definition jwks_requests :: "str \<Rightarrow> oidc_caches \<Rightarrow> nat list" where
  "jwks_requests uri s = map snd (filter (\<lambda>r. fst r = uri) (cc_jwks_requests s))"

fun spaced :: "nat \<Rightarrow> nat list \<Rightarrow> bool" where
  "spaced gap (t # u # ts) \<longleftrightarrow> t + gap \<le> u \<and> spaced gap (u # ts)"
| "spaced gap _ \<longleftrightarrow> True"

lemma spaced_snoc: "spaced gap (ts @ [t]) \<longleftrightarrow> spaced gap ts \<and> (ts \<noteq> [] \<longrightarrow> last ts + gap \<le> t)"
  by (induction gap ts rule: spaced.induct) auto

lemma spaced_length: "spaced gap ts \<Longrightarrow> ts \<noteq> [] \<Longrightarrow> hd ts + gap * (length ts - 1) \<le> last ts"
  by (induction gap ts rule: spaced.induct) auto

text \<open>After a request that succeeded, the cache holds the time of the last request.\<close>

definition jwks_inv :: "str \<Rightarrow> nat \<Rightarrow> oidc_caches \<Rightarrow> bool" where
  "jwks_inv uri now s \<longleftrightarrow> spaced JWKS_FORCED_REFRESH_INTERVAL (jwks_requests uri s)
    \<and> (jwks_requests uri s \<noteq> [] \<longrightarrow> last (jwks_requests uri s) \<le> now
        \<and> (\<exists>ks. hm_get uri (cc_jwks s) = Some (ks, last (jwks_requests uri s))))"

lemma jwks_inv_later: "jwks_inv uri now s \<Longrightarrow> now \<le> now' \<Longrightarrow> jwks_inv uri now' s"
  by (auto simp: jwks_inv_def)

lemma fetch_jwks_inv:
  assumes "jwks_inv uri (oe_now env) s" "fetch_jwks_cached env uri' age s = (r, s')" "JWKS_FORCED_REFRESH_INTERVAL \<le> age"
    and "\<And>e. get_jwks env uri \<noteq> Inl e"
  shows "jwks_inv uri (oe_now env) s'"
proof (cases "cached_jwks env uri' age s")
  case (Some ks)
  with assms show ?thesis by (simp add: fetch_jwks_cached_def)
next
  case None
  show ?thesis
  proof (cases "uri' = uri")
    case True
    obtain ks where got: "get_jwks env uri = Inr ks" using assms(4) by (cases "get_jwks env uri") auto
    have old: "jwks_requests uri s \<noteq> [] \<Longrightarrow> last (jwks_requests uri s) + age \<le> oe_now env"
      using assms(1) None True by (auto simp: jwks_inv_def cached_jwks_def split: if_splits)
    have "s' = s\<lparr>cc_jwks_requests := cc_jwks_requests s @ [(uri, oe_now env)], cc_jwks := hm_insert uri (ks, oe_now env) (cc_jwks s)\<rparr>"
      using assms(2) None got True by (simp add: fetch_jwks_cached_def)
    moreover have "jwks_requests uri s' = jwks_requests uri s @ [oe_now env]" using calculation by (simp add: jwks_requests_def)
    ultimately show ?thesis using assms(1,3) old by (auto simp: jwks_inv_def spaced_snoc)
  next
    case False
    then show ?thesis using assms(1,2) None
      by (auto simp: fetch_jwks_cached_def jwks_inv_def jwks_requests_def Let_def split: sum.splits)
  qed
qed

lemma fetch_discovery_jwks:
  "fetch_oidc_discovery_cached env issuer_url s = (r, s') \<Longrightarrow> cc_jwks s' = cc_jwks s \<and> cc_jwks_requests s' = cc_jwks_requests s"
  by (auto simp: fetch_oidc_discovery_cached_def Let_def split: if_splits option.splits sum.splits)

lemma validate_jwks_inv:
  assumes inv: "jwks_inv uri (oe_now env) s" and "validate_token env issuer_url client_id token s = (r, s')"
    and got: "\<And>e. get_jwks env uri \<noteq> Inl e"
  shows "jwks_inv uri (oe_now env) s'"
proof -
  obtain r1 s1 where d: "fetch_oidc_discovery_cached env issuer_url s = (r1, s1)" by fastforce
  have inv1: "jwks_inv uri (oe_now env) s1" using inv fetch_discovery_jwks [OF d] by (simp add: jwks_inv_def jwks_requests_def)
  have step: "jwks_inv uri (oe_now env) s3" if "jwks_inv uri (oe_now env) s2" "fetch_jwks_cached env u age s2 = (r3, s3)" "60 \<le> age"
    for u age s2 r3 s3 using fetch_jwks_inv [OF that(1,2) _ got] that(3) by (simp add: bound_simps)
  show ?thesis
  proof (cases r1)
    case (Inr discovery)
    obtain r2 s2 where k: "fetch_jwks_cached env (od_jwks_uri discovery) OIDC_CACHE_TTL s1 = (r2, s2)" by fastforce
    have inv2: "jwks_inv uri (oe_now env) s2" using step [OF inv1 k] by (simp add: bound_simps)
    obtain r3 s3 where k3: "fetch_jwks_cached env (od_jwks_uri discovery) JWKS_FORCED_REFRESH_INTERVAL s2 = (r3, s3)" by fastforce
    have inv3: "jwks_inv uri (oe_now env) s3" using step [OF inv2 k3] by (simp add: bound_simps)
    show ?thesis
      using assms(2) d Inr k k3 inv inv1 inv2 inv3
      by (cases r2; cases r3) (auto simp: validate_token_def split: if_splits option.splits sum.splits)
  next
    case (Inl e)
    then show ?thesis using assms(2) d inv inv1 by (auto simp: validate_token_def split: if_splits option.splits sum.splits)
  qed
qed

text \<open>A sequence of requests to validate a token, each with its environment.\<close>

type_synonym oidc_call = "oidc_env \<times> str \<times> str \<times> str"

fun run_oidc :: "oidc_call list \<Rightarrow> oidc_caches \<Rightarrow> oidc_caches" where
  "run_oidc [] s = s"
| "run_oidc ((env, issuer, client, token) # calls) s = run_oidc calls (snd (validate_token env issuer client token s))"

definition no_caches :: oidc_caches where
  "no_caches = \<lparr>cc_discovery = [], cc_jwks = [], cc_discovery_requests = [], cc_jwks_requests = []\<rparr>"

definition call_time :: "oidc_call \<Rightarrow> nat" where
  "call_time c = oe_now (fst c)"

lemma call_time_pair [simp]: "call_time (env, x) = oe_now env"
  by (simp add: call_time_def)

lemma run_jwks_inv:
  assumes "jwks_inv uri t s" "sorted (t # map call_time calls)" "last (t # map call_time calls) \<le> fin"
    and "\<And>c e. c \<in> set calls \<Longrightarrow> get_jwks (fst c) uri \<noteq> Inl e"
  shows "jwks_inv uri fin (run_oidc calls s)"
  using assms
proof (induction calls arbitrary: t s)
  case Nil
  then show ?case by (auto intro: jwks_inv_later)
next
  case (Cons c calls)
  obtain env issuer client token where c: "c = (env, issuer, client, token)" by (cases c)
  obtain r s' where v: "validate_token env issuer client token s = (r, s')" by fastforce
  have t: "t \<le> oe_now env" using Cons.prems(2) by (simp add: c call_time_def)
  have "jwks_inv uri (oe_now env) s'"
    using validate_jwks_inv [OF jwks_inv_later [OF Cons.prems(1) t] v] Cons.prems(4) by (force simp: c)
  moreover have "sorted (oe_now env # map call_time calls)" "last (oe_now env # map call_time calls) \<le> fin"
    using Cons.prems(2,3) by (auto simp: c split: if_splits)
  ultimately show ?case using Cons.IH [of "oe_now env" s'] Cons.prems(4) v by (simp add: c)
qed

lemma fetch_jwks_times:
  "fetch_jwks_cached env u age s = (r, s') \<Longrightarrow> set (jwks_requests uri s') \<subseteq> insert (oe_now env) (set (jwks_requests uri s))"
  by (auto simp: fetch_jwks_cached_def jwks_requests_def Let_def split: option.splits sum.splits)

lemma validate_times:
  assumes "validate_token env issuer client token s = (r, s')"
  shows "set (jwks_requests uri s') \<subseteq> insert (oe_now env) (set (jwks_requests uri s))"
proof -
  obtain r1 s1 where d: "fetch_oidc_discovery_cached env issuer s = (r1, s1)" by fastforce
  then have s1: "jwks_requests uri s1 = jwks_requests uri s" using fetch_discovery_jwks by (simp add: jwks_requests_def)
  show ?thesis
  proof (cases r1)
    case (Inr discovery)
    obtain r2 s2 where k: "fetch_jwks_cached env (od_jwks_uri discovery) OIDC_CACHE_TTL s1 = (r2, s2)" by fastforce
    obtain r3 s3 where k3: "fetch_jwks_cached env (od_jwks_uri discovery) JWKS_FORCED_REFRESH_INTERVAL s2 = (r3, s3)" by fastforce
    show ?thesis
      using assms d Inr k k3 s1 fetch_jwks_times [OF k, of uri] fetch_jwks_times [OF k3, of uri]
      by (cases r2; cases r3) (auto simp: validate_token_def split: if_splits option.splits sum.splits)
  qed (use assms d s1 in \<open>auto simp: validate_token_def split: if_splits option.splits sum.splits\<close>)
qed

lemma run_request_times:
  "set (jwks_requests uri (run_oidc calls s)) \<subseteq> set (jwks_requests uri s) \<union> set (map call_time calls)"
proof (induction calls s rule: run_oidc.induct)
  case (2 env issuer client token calls s)
  obtain r s' where v: "validate_token env issuer client token s = (r, s')" by fastforce
  show ?case using 2 validate_times [OF v, of uri] by (auto simp: call_time_def v)
qed simp

text \<open>Invented key ids do not drive requests to the provider. Whatever tokens are presented, in whatever order, the
  requests for a key set that all succeed are at least a minute apart, so their number is bounded by the time that passes.\<close>

lemma jwks_requests_bounded:
  assumes "sorted (map call_time calls)" "\<And>c. c \<in> set calls \<Longrightarrow> start \<le> call_time c \<and> call_time c \<le> fin"
    and "\<And>c e. c \<in> set calls \<Longrightarrow> get_jwks (fst c) uri \<noteq> Inl e"
  shows "length (jwks_requests uri (run_oidc calls no_caches)) \<le> (fin - start) div 60 + 1"
proof -
  let ?rs = "jwks_requests uri (run_oidc calls no_caches)"
  have "jwks_inv uri start no_caches" by (simp add: jwks_inv_def no_caches_def jwks_requests_def)
  moreover have "sorted (start # map call_time calls)" using assms(1,2) by simp
  moreover have "last (start # map call_time calls) \<in> insert start (set (map call_time calls))"
    by (metis last_in_set list.simps(3) list.set(2))
  then have "last (start # map call_time calls) \<le> max start fin" using assms(2) by (auto simp: le_max_iff_disj simp del: last.simps)
  ultimately have inv: "jwks_inv uri (max start fin) (run_oidc calls no_caches)" using assms(3) by (rule run_jwks_inv)
  have times: "set (jwks_requests uri (run_oidc calls s)) \<subseteq> set (jwks_requests uri s) \<union> set (map call_time calls)" for s
    by (rule run_request_times)
  have none: "jwks_requests uri no_caches = []" by (simp add: no_caches_def jwks_requests_def)
  show ?thesis
  proof (cases "?rs = []")
    case False
    have "hd ?rs \<in> set (map call_time calls)" "last ?rs \<in> set (map call_time calls)"
      using times [of no_caches] hd_in_set [OF False] last_in_set [OF False] none by auto
    then have "start \<le> hd ?rs" "last ?rs \<le> fin" using assms(2) by auto
    moreover have "hd ?rs + 60 * (length ?rs - 1) \<le> last ?rs"
      using spaced_length [of 60 ?rs] inv False by (simp add: jwks_inv_def bound_simps)
    ultimately have "60 * (length ?rs - 1) \<le> fin - start" by simp
    then have "length ?rs - 1 \<le> (fin - start) div 60" by (simp add: less_eq_div_iff_mult_less_eq mult.commute)
    then show ?thesis by simp
  qed simp
qed

definition sample_oidc :: "nat \<Rightarrow> oidc_env" where
  "sample_oidc now =
    \<lparr>oe_now = now, oe_send = (\<lambda>url. Inr []),
     oe_parse_discovery = (\<lambda>_. Inr \<lparr>od_jwks_uri = ''k'', od_issuer = ''https://i'', od_authorization = [], od_token_endpoint = [], od_end_session = None\<rparr>),
     oe_parse_jwks = (\<lambda>_. Inr []), oe_kid = (\<lambda>t. Inr (Some t)), oe_rsa = (\<lambda>_ _. None), oe_decode = (\<lambda>_ _ _ _ _. Inl [])\<rparr>"

end
