(* ===== verification/Auth_Gate.thy ===== *)
theory Auth_Gate
  imports Oidc Token_Revocation
begin

text \<open>
  Authentication of requests, \<open>backend/src/services/middleware.rs\<close>: the user a request runs as, the permission checks of the
  handlers, cookies, the origin check of web sockets, the CSRF check, and the middlewares as the routers stack them. A
  middleware is the function from a request to the request it hands on, or an error. Decoding of local tokens, UUIDs and the
  environment are the record \<open>gate_env\<close>; the users with their roles are a list of joined rows.
\<close>

section \<open>Users and permissions\<close>

record permissions =
  can_manage_system :: bool
  can_manage_users :: bool
  can_manage_connections :: bool
  can_view_audit_logs :: bool
  can_create_users :: bool
  can_create_user_groups :: bool
  can_create_connections :: bool
  can_create_sharing_profiles :: bool
  can_view_sessions :: bool
  can_use_quick_share :: bool
  can_use_quick_share_outbound :: bool

record auth_user =
  au_id :: bytes
  au_sub :: str
  au_username :: str
  au_full_name :: "str option"
  au_role :: str
  au_perms :: permissions

text \<open>A row of users joined with its role; \<open>up_valid_after\<close> is in microseconds since the epoch.\<close>

record user_permissions_row =
  up_id :: bytes
  up_sub :: "str option"
  up_sso_issuer :: "str option"
  up_username :: str
  up_full_name :: "str option"
  up_role :: str
  up_perms :: permissions
  up_deleted :: bool
  up_valid_after :: "int option"

definition valid_after_secs :: "user_permissions_row \<Rightarrow> int option" where
  "valid_after_secs u = map_option (\<lambda>t. t div 1000000) (up_valid_after u)"

definition token_still_valid :: "user_permissions_row \<Rightarrow> int \<Rightarrow> bool" where
  "token_still_valid u iat = (case valid_after_secs u of Some cutoff \<Rightarrow> iat \<ge> cutoff | None \<Rightarrow> True)"

definition has_any_admin_permission :: "permissions \<Rightarrow> bool" where
  "has_any_admin_permission p \<longleftrightarrow> can_manage_system p \<or> can_manage_users p \<or> can_manage_connections p \<or> can_view_audit_logs p
    \<or> can_create_users p \<or> can_create_user_groups p \<or> can_create_connections p \<or> can_create_sharing_profiles p \<or> can_view_sessions p"

definition can_access_all_connections :: "permissions \<Rightarrow> bool" where
  "can_access_all_connections p \<longleftrightarrow> can_manage_system p \<or> can_manage_connections p"

definition check_system_permission :: "auth_user \<Rightarrow> gate_error + unit" where
  "check_system_permission u = (if \<not> can_manage_system (au_perms u) then Inl Forbidden else Inr ())"

definition check_user_management_permission :: "auth_user \<Rightarrow> gate_error + unit" where
  "check_user_management_permission u =
    (if \<not> can_manage_users (au_perms u) \<and> \<not> can_manage_system (au_perms u) then Inl Forbidden else Inr ())"

definition check_connection_management_permission :: "auth_user \<Rightarrow> gate_error + unit" where
  "check_connection_management_permission u =
    (if \<not> can_manage_connections (au_perms u) \<and> \<not> can_manage_system (au_perms u) then Inl Forbidden else Inr ())"

definition check_audit_permission :: "auth_user \<Rightarrow> gate_error + unit" where
  "check_audit_permission u =
    (if \<not> can_view_audit_logs (au_perms u) \<and> \<not> can_manage_system (au_perms u) then Inl Forbidden else Inr ())"

definition check_session_permission :: "auth_user \<Rightarrow> gate_error + unit" where
  "check_session_permission u =
    (if \<not> can_view_sessions (au_perms u) \<and> \<not> can_manage_system (au_perms u) then Inl Forbidden else Inr ())"

definition check_quick_share_permission :: "auth_user \<Rightarrow> gate_error + unit" where
  "check_quick_share_permission u =
    (if \<not> can_use_quick_share (au_perms u) \<and> \<not> can_manage_system (au_perms u) then Inl Forbidden else Inr ())"

definition check_quick_share_outbound_permission :: "auth_user \<Rightarrow> gate_error + unit" where
  "check_quick_share_outbound_permission u =
    (if \<not> can_use_quick_share_outbound (au_perms u) \<and> \<not> can_manage_system (au_perms u) then Inl Forbidden else Inr ())"

section \<open>Requests\<close>

record 'h gate_request =
  gr_method :: str
  gr_headers :: 'h
  gr_query :: "str option"
  gr_user :: "auth_user option"

text \<open>The claims of a local token; a missing token type reads as access.\<close>

record local_claims =
  lc_sub :: str
  lc_iss :: str
  lc_iat :: int
  lc_type :: str

text \<open>
  \<open>ge_signed\<close> says whether a token carries a signature under the secret and the local issuer, \<open>ge_local\<close> is the full
  decoding with expiry and required claims. \<open>ge_settings\<close> reads a setting.
\<close>

record 'h gate_env =
  ge_ops :: "'h header_ops"
  ge_running :: bool
  ge_db :: bool
  ge_secret :: "str option"
  ge_signed :: "str \<Rightarrow> str \<Rightarrow> bool"
  ge_local :: "str \<Rightarrow> str \<Rightarrow> local_claims option"
  ge_uuid :: "str \<Rightarrow> bytes option"
  ge_origins :: "str option"
  ge_sha256 :: "bytes \<Rightarrow> bytes"
  ge_instant :: nat
  ge_unix :: u64
  ge_revocation :: revocation
  ge_users :: "user_permissions_row list"
  ge_settings :: "str \<Rightarrow> str + str option"
  ge_oidc :: oidc_env

definition header_text :: "'h gate_env \<Rightarrow> str \<Rightarrow> 'h gate_request \<Rightarrow> str option" where
  "header_text env name req =
    (case hd_get (ge_ops env) name (gr_headers req) of
       Some v \<Rightarrow> if hv_to_str (ge_ops env) v then Some v else None
     | None \<Rightarrow> None)"

definition strip_prefix_opt :: "str \<Rightarrow> str \<Rightarrow> str option" where
  "strip_prefix_opt p s = (if starts_with p s then Some (drop (length p) s) else None)"

definition extract_token_from_query :: "str \<Rightarrow> str option" where
  "extract_token_from_query query =
    map_option (\<lambda>pair. takeWhile (\<lambda>c. c \<noteq> CHR ''?'') (drop 6 pair))
      (List.find (starts_with ''token='') (str_split (CHR ''&'') query))"

definition extract_cookie_value :: "'h gate_env \<Rightarrow> str \<Rightarrow> 'h gate_request \<Rightarrow> str option" where
  "extract_cookie_value env name req =
    (case header_text env ''cookie'' req of
       None \<Rightarrow> None
     | Some c \<Rightarrow>
         map_option (drop (length name + 1))
           (List.find (starts_with (name @ ''='')) (map trim (str_split (CHR '';'') c))))"

definition bearer_signature_valid :: "'h gate_env \<Rightarrow> str \<Rightarrow> bool" where
  "bearer_signature_valid env token =
    (case ge_secret env of Some s \<Rightarrow> if s \<noteq> [] then ge_signed env s token else False | None \<Rightarrow> False)"

definition bearer_token :: "'h gate_env \<Rightarrow> 'h gate_request \<Rightarrow> str option" where
  "bearer_token env req = Option.bind (header_text env ''authorization'' req) (strip_prefix_opt ''Bearer '')"

definition has_valid_bearer :: "'h gate_env \<Rightarrow> 'h gate_request \<Rightarrow> bool" where
  "has_valid_bearer env req = (case bearer_token env req of Some t \<Rightarrow> bearer_signature_valid env t | None \<Rightarrow> False)"

text \<open>The authority of an origin, and the entries of the allow-list.\<close>

definition origin_authority :: "str \<Rightarrow> str option" where
  "origin_authority origin = map_option (\<lambda>(_, rest). hd (str_split (CHR ''/'') rest)) (split_once_str ''://'' origin)"

definition allowed_origins :: "'h gate_env \<Rightarrow> str list" where
  "allowed_origins env =
    (case ge_origins env of Some a \<Rightarrow> filter (\<lambda>s. s \<noteq> []) (map trim (str_split (CHR '','') a)) | None \<Rightarrow> [])"

definition same_origin :: "'h gate_env \<Rightarrow> 'h gate_request \<Rightarrow> str \<Rightarrow> bool" where
  "same_origin env req origin =
    (case (map_option trim (header_text env ''host'' req), origin_authority origin) of
       (Some host, Some authority) \<Rightarrow> eq_ignore_ascii_case authority host
     | _ \<Rightarrow> False)"

definition check_ws_origin :: "'h gate_env \<Rightarrow> 'h gate_request \<Rightarrow> str + unit" where
  "check_ws_origin env req =
    (case map_option trim (header_text env ''origin'' req) of
       None \<Rightarrow> if has_valid_bearer env req then Inr () else Inl ''missing Origin on cookie-authenticated WebSocket upgrade''
     | Some origin \<Rightarrow>
         if same_origin env req origin then Inr ()
         else if list_ex (\<lambda>entry. eq_ignore_ascii_case entry origin) (allowed_origins env) then Inr ()
         else Inl ''Origin not allowed'')"

definition is_ws_upgrade :: "'h gate_env \<Rightarrow> 'h gate_request \<Rightarrow> bool" where
  "is_ws_upgrade env req =
    (case header_text env ''upgrade'' req of Some v \<Rightarrow> eq_ignore_ascii_case v ''websocket'' | None \<Rightarrow> False)"

section \<open>CSRF\<close>

unbundle bit_operations_syntax

definition constant_time_eq :: "bytes \<Rightarrow> bytes \<Rightarrow> bool" where
  "constant_time_eq a b =
    (if length a \<noteq> length b then False
     else fold (\<lambda>(x, y) diff. diff OR (x XOR y)) (zip a b) 0 = 0)"

definition csrf_header :: str where "csrf_header = ''x-csrf-token''"

definition safe_method :: "str \<Rightarrow> bool" where
  "safe_method m \<longleftrightarrow> m = ''GET'' \<or> m = ''HEAD'' \<or> m = ''OPTIONS''"

definition require_csrf :: "'h gate_env \<Rightarrow> 'h gate_request \<Rightarrow> gate_error + 'h gate_request" where
  "require_csrf env req =
    (if safe_method (gr_method req) then Inr req
     else if is_ws_upgrade env req then Inr req
     else if has_valid_bearer env req then Inr req
     else case (extract_cookie_value env ''csrf_token'' req, header_text env csrf_header req) of
       (Some c, Some h) \<Rightarrow> if c \<noteq> [] \<and> constant_time_eq (as_bytes c) (as_bytes h) then Inr req else Inl Forbidden
     | _ \<Rightarrow> Inl Forbidden)"

section \<open>Authentication\<close>

definition user_of_row :: "str \<Rightarrow> user_permissions_row \<Rightarrow> auth_user" where
  "user_of_row sub u = \<lparr>au_id = up_id u, au_sub = sub, au_username = up_username u, au_full_name = up_full_name u,
     au_role = up_role u, au_perms = up_perms u\<rparr>"

definition signed_in :: "str \<Rightarrow> int \<Rightarrow> user_permissions_row \<Rightarrow> gate_error + auth_user" where
  "signed_in sub iat u = (if \<not> token_still_valid u iat then Inl (Auth ''Session has been signed out'') else Inr (user_of_row sub u))"

definition try_local_jwt :: "'h gate_env \<Rightarrow> str \<Rightarrow> gate_error + auth_user option" where
  "try_local_jwt env token =
    (case ge_secret env of
       None \<Rightarrow> Inr None
     | Some secret \<Rightarrow>
         (case ge_local env secret token of
            None \<Rightarrow> Inr None
          | Some claims \<Rightarrow>
              if lc_iss claims \<noteq> ''strata-local'' then Inr None
              else if lc_type claims = ''refresh'' then Inl (Auth ''Refresh tokens cannot be used for API access'')
              else
                and_then (ok_or (ge_uuid env (lc_sub claims)) (Auth ''Invalid token subject'')) (\<lambda>user_id.
                and_then (ok_or (List.find (\<lambda>u. up_id u = user_id \<and> \<not> up_deleted u) (ge_users env))
                           (Auth ''User no longer exists or has been deleted'')) (\<lambda>u.
                and_then (signed_in (lc_sub claims) (lc_iat claims) u) (\<lambda>a. Inr (Some a))))))"

definition setting_or_empty :: "'h gate_env \<Rightarrow> str \<Rightarrow> gate_error + str" where
  "setting_or_empty env key =
    (case ge_settings env key of Inl e \<Rightarrow> Inl (Internal e) | Inr v \<Rightarrow> Inr (case v of Some s \<Rightarrow> s | None \<Rightarrow> []))"

definition sso_user :: "str \<Rightarrow> str \<Rightarrow> user_permissions_row \<Rightarrow> bool" where
  "sso_user sub issuer u \<longleftrightarrow> up_sub u = Some sub \<and> \<not> up_deleted u \<and> (up_sso_issuer u = None \<or> up_sso_issuer u = Some issuer)"

definition validate_oidc_token :: "'h gate_env \<Rightarrow> str \<Rightarrow> oidc_caches \<Rightarrow> (gate_error + auth_user) \<times> oidc_caches" where
  "validate_oidc_token env token s =
    and_do (setting_or_empty env ''sso_issuer_url'', s) (\<lambda>issuer_url s.
    and_do (setting_or_empty env ''sso_client_id'', s) (\<lambda>client_id s.
      if issuer_url = [] \<or> client_id = [] then (Inl (Auth ''Invalid or expired token''), s)
      else and_do (validate_token (ge_oidc env) issuer_url client_id token s) (\<lambda>claims s.
        (and_then (ok_or (List.find (sso_user (oc_sub claims) (trim_end_slashes issuer_url)) (ge_users env))
                    (Auth ''Invalid or expired token''))
           (signed_in (oc_sub claims) (int (oc_iat claims))), s))))"

definition presented_token :: "'h gate_env \<Rightarrow> 'h gate_request \<Rightarrow> str option" where
  "presented_token env req =
    (case bearer_token env req of
       Some t \<Rightarrow> Some t
     | None \<Rightarrow>
         (case extract_cookie_value env ''access_token'' req of
            Some t \<Rightarrow> Some t
          | None \<Rightarrow> if is_ws_upgrade env req
              then extract_token_from_query (case gr_query req of Some q \<Rightarrow> q | None \<Rightarrow> []) else None))"

definition authenticate :: "'h gate_env \<Rightarrow> str \<Rightarrow> oidc_caches \<Rightarrow> (gate_error + auth_user) \<times> oidc_caches" where
  "authenticate env token s =
    and_do (try_local_jwt env token, s) (\<lambda>local s.
      case local of Some u \<Rightarrow> (Inr u, s) | None \<Rightarrow> validate_oidc_token env token s)"

definition require_auth ::
    "'h gate_env \<Rightarrow> 'h gate_request \<Rightarrow> oidc_caches \<Rightarrow> (gate_error + 'h gate_request) \<times> oidc_caches" where
  "require_auth env req s =
    (if \<not> ge_running env \<or> \<not> ge_db env then (Inl SetupRequired, s)
     else if is_ws_upgrade env req \<and> \<not> is_ok (check_ws_origin env req) then (Inl Forbidden, s)
     else and_do (ok_or (presented_token env req) (Auth ''Missing or invalid Authorization header''), s) (\<lambda>token s.
       if is_revoked (ge_sha256 env) (ge_instant env) (ge_unix env) token (ge_revocation env)
       then (Inl (Auth ''Token has been revoked''), s)
       else and_do (authenticate env token s) (\<lambda>u s. (Inr (req\<lparr>gr_user := Some u\<rparr>), s))))"

definition require_admin :: "'h gate_request \<Rightarrow> gate_error + 'h gate_request" where
  "require_admin req =
    and_then (ok_or (gr_user req) (Auth ''Not authenticated'')) (\<lambda>u.
      if \<not> has_any_admin_permission (au_perms u) then Inl Forbidden else Inr req)"

text \<open>The two protected routers: the request a handler receives.\<close>

definition user_router :: "'h gate_env \<Rightarrow> 'h gate_request \<Rightarrow> oidc_caches \<Rightarrow> (gate_error + 'h gate_request) \<times> oidc_caches" where
  "user_router env req s = and_do (require_csrf env req, s) (require_auth env)"

definition admin_router :: "'h gate_env \<Rightarrow> 'h gate_request \<Rightarrow> oidc_caches \<Rightarrow> (gate_error + 'h gate_request) \<times> oidc_caches" where
  "admin_router env req s =
    and_do (user_router env req s) (\<lambda>req s. (require_admin req, s))"

section \<open>The comparison\<close>

lemma or_fold_zero:
  fixes ps :: "(u8 \<times> u8) list"
  shows "fold (\<lambda>(x, y) diff. diff OR (x XOR y)) ps d = 0 \<longleftrightarrow> d = 0 \<and> (\<forall>(x, y) \<in> set ps. x = y)"
proof (induction ps arbitrary: d)
  case (Cons p ps)
  have "x XOR y = 0 \<longleftrightarrow> x = y" for x y :: u8
    by (metis xor.assoc xor.left_neutral xor_self_eq)
  then show ?case using Cons.IH by (cases p) (auto simp: or_eq_0_iff)
qed simp

lemma constant_time_eq_iff: "constant_time_eq a b \<longleftrightarrow> a = b"
proof -
  have "(\<forall>(x, y) \<in> set (zip a b). x = y) \<longleftrightarrow> a = b" if "length a = length b"
    using that by (induction a b rule: list_induct2) auto
  then show ?thesis by (auto simp: constant_time_eq_def or_fold_zero)
qed

section \<open>What reaches a handler\<close>

lemma require_csrf_cases:
  assumes "require_csrf env req = Inr req'"
  obtains "req' = req" "safe_method (gr_method req)"
  | "req' = req" "is_ws_upgrade env req"
  | "req' = req" "has_valid_bearer env req"
  | c where "req' = req" "c \<noteq> []" "extract_cookie_value env ''csrf_token'' req = Some c" "header_text env csrf_header req = Some c"
  using assms by (auto simp: require_csrf_def constant_time_eq_iff split: if_splits option.splits)

lemma require_auth_cases:
  assumes "require_auth env req s = (Inr req', s')"
  obtains token u where "presented_token env req = Some token" "req' = req\<lparr>gr_user := Some u\<rparr>"
    "\<not> is_revoked (ge_sha256 env) (ge_instant env) (ge_unix env) token (ge_revocation env)"
    "authenticate env token s = (Inr u, s')" "is_ws_upgrade env req \<Longrightarrow> check_ws_origin env req = Inr ()"
proof -
  obtain token where t: "presented_token env req = Some token"
    and fresh: "\<not> is_revoked (ge_sha256 env) (ge_instant env) (ge_unix env) token (ge_revocation env)"
    using assms by (auto simp: require_auth_def and_do_def ok_or_def split: if_splits option.splits)
  have ws: "check_ws_origin env req = Inr ()" if "is_ws_upgrade env req"
    using assms that by (cases "check_ws_origin env req") (auto simp: require_auth_def is_ok_def split: if_splits)
  obtain r s1 where a: "authenticate env token s = (r, s1)" by fastforce
  with assms t fresh obtain u where "r = Inr u" "s1 = s'" "req' = req\<lparr>gr_user := Some u\<rparr>"
    by (cases r) (auto simp: require_auth_def split: if_splits)
  with t fresh ws a show thesis by (intro that [of token u]) simp_all
qed

lemma ws_origin_cases:
  assumes "check_ws_origin env req = Inr ()"
  obtains "has_valid_bearer env req" "header_text env ''origin'' req = None"
  | origin where "header_text env ''origin'' req = Some origin"
      "same_origin env req (trim origin) \<or> (\<exists>entry \<in> set (allowed_origins env). eq_ignore_ascii_case entry (trim origin))"
  using assms by (auto simp: check_ws_origin_def list_ex_iff split: option.splits if_splits)

text \<open>The request authenticates with a token of its Authorization header, and this server signed that token.\<close>

definition signed_bearer :: "'h gate_env \<Rightarrow> 'h gate_request \<Rightarrow> bool" where
  "signed_bearer env req \<longleftrightarrow>
    (\<exists>token secret. header_text env ''authorization'' req = Some (''Bearer '' @ token) \<and> presented_token env req = Some token
       \<and> ge_secret env = Some secret \<and> secret \<noteq> [] \<and> ge_signed env secret token)"

lemma strip_prefix_Some: "strip_prefix_opt p t = Some r \<longleftrightarrow> t = p @ r"
  by (auto simp: strip_prefix_opt_def starts_with_def dest: append_eq_conv_conj [THEN iffD1]) (metis append_take_drop_id)

lemma valid_bearer_presented:
  assumes "has_valid_bearer env req"
  shows "signed_bearer env req"
proof -
  obtain t where t: "bearer_token env req = Some t" "bearer_signature_valid env t"
    using assms by (auto simp: has_valid_bearer_def split: option.splits)
  have "presented_token env req = Some t" using t(1) by (simp add: presented_token_def)
  moreover have "header_text env ''authorization'' req = Some (''Bearer '' @ t)"
    using t(1) unfolding bearer_token_def bind_eq_Some_conv strip_prefix_Some by blast
  moreover have "\<exists>secret. ge_secret env = Some secret \<and> secret \<noteq> [] \<and> ge_signed env secret t"
    using t(2) by (auto simp: bearer_signature_valid_def split: option.splits if_splits)
  ultimately show ?thesis unfolding signed_bearer_def by blast
qed

lemma router_cases:
  assumes "user_router env req s = (Inr req', s')"
  shows "require_csrf env req = Inr req" "require_auth env req s = (Inr req', s')"
proof -
  obtain req1 where c: "require_csrf env req = Inr req1" and a: "require_auth env req1 s = (Inr req', s')"
    using assms by (cases "require_csrf env req") (auto simp: user_router_def)
  from c have "req1 = req" by (rule require_csrf_cases)
  with c a show "require_csrf env req = Inr req" "require_auth env req s = (Inr req', s')" by simp_all
qed

text \<open>C13: no request forged by another site reaches a protected handler with the victim's cookies. A request other than a safe one that gets
  through the gate of the user and admin routers either authenticates with a token of its Authorization header that this server signed, which
  another site does not have; or carries the CSRF token of the cookie in its header; or is a web socket from the same origin or an allowed
  one. The public routes outside this gate, among them the refresh and the logout, are not part of it.\<close>

theorem csrf_protects_cookies:
  assumes "user_router env req s = (Inr req', s')" "\<not> safe_method (gr_method req)"
  shows "signed_bearer env req
    \<or> (\<exists>c. c \<noteq> [] \<and> extract_cookie_value env ''csrf_token'' req = Some c \<and> header_text env csrf_header req = Some c)
    \<or> is_ws_upgrade env req \<and> (\<exists>origin. header_text env ''origin'' req = Some origin
        \<and> (same_origin env req (trim origin) \<or> (\<exists>entry \<in> set (allowed_origins env). eq_ignore_ascii_case entry (trim origin))))"
  using router_cases(1) [OF assms(1)]
proof (cases rule: require_csrf_cases)
  case 1
  with assms(2) show ?thesis by simp
next
  case 2
  have "check_ws_origin env req = Inr ()" by (rule require_auth_cases [OF router_cases(2) [OF assms(1)]]) (use 2 in simp)
  then show ?thesis using 2 valid_bearer_presented by (cases rule: ws_origin_cases) blast+
next
  case 3
  with valid_bearer_presented show ?thesis by blast
qed blast

definition sample_perms :: permissions where
  "sample_perms = \<lparr>can_manage_system = True, can_manage_users = False, can_manage_connections = False, can_view_audit_logs = False,
     can_create_users = False, can_create_user_groups = False, can_create_connections = False, can_create_sharing_profiles = False,
     can_view_sessions = False, can_use_quick_share = False, can_use_quick_share_outbound = False\<rparr>"

definition sample_gate :: "(str \<times> str) list gate_env" where
  "sample_gate =
    \<lparr>ge_ops = list_headers, ge_running = True, ge_db = True, ge_secret = Some ''s'', ge_signed = (\<lambda>_ _. False),
     ge_local = (\<lambda>_ t. if t = ''t'' then Some \<lparr>lc_sub = ''u'', lc_iss = ''strata-local'', lc_iat = 7, lc_type = ''access''\<rparr> else None),
     ge_uuid = (\<lambda>s. Some (as_bytes s)), ge_origins = None, ge_sha256 = (\<lambda>b. b), ge_instant = 0, ge_unix = 0, ge_revocation = revocation_new,
     ge_users = [\<lparr>up_id = as_bytes ''u'', up_sub = None, up_sso_issuer = None, up_username = ''n'', up_full_name = None, up_role = ''r'',
       up_perms = sample_perms, up_deleted = False, up_valid_after = Some 7000001\<rparr>],
     ge_settings = (\<lambda>_. Inr None), ge_oidc = sample_oidc 0\<rparr>"

definition sample_post :: "(str \<times> str) list gate_request" where
  "sample_post = \<lparr>gr_method = ''POST'', gr_headers = [(''cookie'', ''access_token=t;csrf_token=c''), (''x-csrf-token'', ''c'')],
     gr_query = None, gr_user = None\<rparr>"

lemma sample_accepted: "admin_router sample_gate sample_post no_caches = (Inr (sample_post\<lparr>gr_user := Some (user_of_row ''u'' (hd (ge_users sample_gate)))\<rparr>), no_caches)"
proof -
  have trims: "trim ''access_token=t'' = ''access_token=t''" "trim ''csrf_token=c'' = ''csrf_token=c''" by (simp_all add: trim_def ascii_space_def wide_space_def)
  have h: "header_text sample_gate ''cookie'' sample_post = Some ''access_token=t;csrf_token=c''" "header_text sample_gate csrf_header sample_post = Some ''c''"
    "header_text sample_gate ''upgrade'' sample_post = None" "header_text sample_gate ''authorization'' sample_post = None"
    by (simp_all add: header_text_def sample_gate_def sample_post_def list_headers_def csrf_header_def visible_def lower_case_def to_ascii_lowercase_def ascii_lower_def)
  have b: "bearer_token sample_gate sample_post = None" "has_valid_bearer sample_gate sample_post = False" "is_ws_upgrade sample_gate sample_post = False"
    by (simp_all add: bearer_token_def has_valid_bearer_def is_ws_upgrade_def h)
  have c: "extract_cookie_value sample_gate ''csrf_token'' sample_post = Some ''c''" "extract_cookie_value sample_gate ''access_token'' sample_post = Some ''t''"
    by (simp_all add: extract_cookie_value_def h trims starts_with_def)
  have "require_csrf sample_gate sample_post = Inr sample_post"
    by (simp add: require_csrf_def b c h constant_time_eq_iff)
  moreover have "presented_token sample_gate sample_post = Some ''t''" by (simp add: presented_token_def b c)
  moreover have "\<not> is_revoked (ge_sha256 sample_gate) (ge_instant sample_gate) (ge_unix sample_gate) ''t'' (ge_revocation sample_gate)"
    by (simp add: sample_gate_def is_revoked_def sync_is_stale_def revocation_new_def)
  moreover have "try_local_jwt sample_gate ''t'' = Inr (Some (user_of_row ''u'' (hd (ge_users sample_gate))))"
    by (simp add: try_local_jwt_def sample_gate_def signed_in_def token_still_valid_def valid_after_secs_def)
  moreover have "ge_running sample_gate" "ge_db sample_gate" "can_manage_system (up_perms (hd (ge_users sample_gate)))"
    by (simp_all add: sample_gate_def sample_perms_def)
  ultimately show ?thesis
    by (simp add: admin_router_def user_router_def require_auth_def b authenticate_def require_admin_def user_of_row_def has_any_admin_permission_def)
qed

theorem csrf_protects_cookies_witness:
  "\<exists>c. c \<noteq> [] \<and> extract_cookie_value sample_gate ''csrf_token'' sample_post = Some c \<and> header_text sample_gate csrf_header sample_post = Some c"
proof -
  have "header_text sample_gate ''upgrade'' sample_post = None" "header_text sample_gate ''authorization'' sample_post = None"
    by (simp_all add: header_text_def sample_gate_def sample_post_def list_headers_def)
  then have "\<not> signed_bearer sample_gate sample_post" "\<not> is_ws_upgrade sample_gate sample_post"
    by (simp_all add: signed_bearer_def is_ws_upgrade_def)
  moreover obtain req' s' where "user_router sample_gate sample_post no_caches = (Inr req', s')"
    using sample_accepted by (cases "user_router sample_gate sample_post no_caches"; cases "fst (user_router sample_gate sample_post no_caches)")
      (auto simp: admin_router_def)
  moreover have "\<not> safe_method (gr_method sample_post)" by (simp add: safe_method_def sample_post_def)
  ultimately show ?thesis using csrf_protects_cookies [of sample_gate sample_post no_caches req' s'] by simp
qed

text \<open>Who a handler runs as.\<close>

definition vouched_for :: "'h gate_env \<Rightarrow> oidc_caches \<Rightarrow> str \<Rightarrow> user_permissions_row \<Rightarrow> int \<Rightarrow> bool" where
  "vouched_for env s token row iat \<longleftrightarrow>
     (\<exists>secret claims. ge_secret env = Some secret \<and> ge_local env secret token = Some claims \<and> lc_iss claims = ''strata-local''
        \<and> lc_type claims \<noteq> ''refresh'' \<and> ge_uuid env (lc_sub claims) = Some (up_id row) \<and> iat = lc_iat claims)
   \<or> (\<exists>issuer client claims s'. ge_settings env ''sso_issuer_url'' = Inr (Some issuer) \<and> ge_settings env ''sso_client_id'' = Inr (Some client)
        \<and> validate_token (ge_oidc env) issuer client token s = (Inr claims, s')
        \<and> sso_user (oc_sub claims) (trim_end_slashes issuer) row \<and> iat = int (oc_iat claims))"

lemma find_SomeD: "List.find P xs = Some x \<Longrightarrow> x \<in> set xs \<and> P x"
  by (induction xs) (auto split: if_splits)

lemma signed_in_Inr: "signed_in sub iat u = Inr a \<longleftrightarrow> token_still_valid u iat \<and> a = user_of_row sub u"
  by (auto simp: signed_in_def)

lemma authenticate_local:
  assumes "try_local_jwt env token = Inr (Some u)"
  shows "\<exists>row iat sub. row \<in> set (ge_users env) \<and> \<not> up_deleted row \<and> u = user_of_row sub row \<and> token_still_valid row iat
    \<and> vouched_for env s token row iat"
proof -
  obtain secret claims row where c: "ge_secret env = Some secret" "ge_local env secret token = Some claims"
    "lc_iss claims = ''strata-local''" "lc_type claims \<noteq> ''refresh''" "ge_uuid env (lc_sub claims) = Some (up_id row)"
    and r: "row \<in> set (ge_users env)" "\<not> up_deleted row" "token_still_valid row (lc_iat claims)" "u = user_of_row (lc_sub claims) row"
    using assms
    by (auto simp: try_local_jwt_def and_then_def ok_or_def signed_in_Inr split: option.splits if_splits sum.splits dest!: find_SomeD)
  then have "vouched_for env s token row (lc_iat claims)" unfolding vouched_for_def by blast
  with r show ?thesis by blast
qed

lemma authenticate_oidc:
  assumes "validate_oidc_token env token s = (Inr u, s')"
  shows "\<exists>row iat sub. row \<in> set (ge_users env) \<and> \<not> up_deleted row \<and> u = user_of_row sub row \<and> token_still_valid row iat
    \<and> vouched_for env s token row iat"
proof -
  obtain issuer client where st: "ge_settings env ''sso_issuer_url'' = Inr (Some issuer)" "ge_settings env ''sso_client_id'' = Inr (Some client)"
    using assms by (auto simp: validate_oidc_token_def setting_or_empty_def split: sum.splits option.splits if_splits)
  obtain r s1 where v: "validate_token (ge_oidc env) issuer client token s = (r, s1)" by fastforce
  obtain claims row where "r = Inr claims" "row \<in> set (ge_users env)" "sso_user (oc_sub claims) (trim_end_slashes issuer) row"
    "token_still_valid row (int (oc_iat claims))" "u = user_of_row (oc_sub claims) row"
    using assms st v
    by (cases r) (auto simp: validate_oidc_token_def setting_or_empty_def and_then_def ok_or_def signed_in_Inr
        split: if_splits option.splits sum.splits dest!: find_SomeD)
  moreover have "vouched_for env s token row (int (oc_iat claims))" using calculation st v unfolding vouched_for_def by blast
  ultimately show ?thesis unfolding sso_user_def by blast
qed

text \<open>C15: a handler of the administration runs as a current user. The user it sees is a row of the users that is not deleted,
  with the role the row has now; a local access token or a token of the configured provider names that row, was not revoked
  and not issued in a second before the user's sessions were ended; and the role has some administrative permission.\<close>

theorem admin_handler_user:
  assumes "admin_router env req s = (Inr req', s')"
  shows "\<exists>token row iat u. presented_token env req = Some token
    \<and> \<not> is_revoked (ge_sha256 env) (ge_instant env) (ge_unix env) token (ge_revocation env)
    \<and> row \<in> set (ge_users env) \<and> \<not> up_deleted row \<and> token_still_valid row iat \<and> vouched_for env s token row iat
    \<and> gr_user req' = Some u \<and> au_id u = up_id row \<and> au_perms u = up_perms row \<and> has_any_admin_permission (up_perms row)"
proof -
  obtain r s1 where u: "user_router env req s = (r, s1)" by fastforce
  with assms obtain req1 where r: "user_router env req s = (Inr req1, s')" and adm: "require_admin req1 = Inr req'"
    by (cases r) (auto simp: admin_router_def)
  from router_cases(2) [OF r] obtain token u where t: "presented_token env req = Some token" "req1 = req\<lparr>gr_user := Some u\<rparr>"
    "\<not> is_revoked (ge_sha256 env) (ge_instant env) (ge_unix env) token (ge_revocation env)" and a: "authenticate env token s = (Inr u, s')"
    by (rule require_auth_cases)
  obtain l where l: "try_local_jwt env token = Inr l" using a by (cases "try_local_jwt env token") (auto simp: authenticate_def)
  obtain row iat sub where row: "row \<in> set (ge_users env)" "\<not> up_deleted row" "u = user_of_row sub row" "token_still_valid row iat"
    "vouched_for env s token row iat"
    using a l authenticate_local [of env token u s] authenticate_oidc [of env token s u s']
    by (cases l) (auto simp: authenticate_def)
  moreover have "gr_user req' = Some u" "has_any_admin_permission (au_perms u)"
    using adm t(2) by (auto simp: require_admin_def split: if_splits)
  ultimately show ?thesis using t(1,3) by (intro exI [of _ token] exI [of _ row] exI [of _ iat] exI [of _ u]) (simp add: user_of_row_def)
qed

theorem admin_handler_user_witness: "\<exists>iat. token_still_valid (hd (ge_users sample_gate)) iat"
  using admin_handler_user [OF sample_accepted] by (auto simp: sample_gate_def)

text \<open>Ending a user's sessions refuses every token of an earlier second, but spares those issued before it within the
  same second, since the cutoff is rounded down to whole seconds.\<close>

lemma sign_out_spares_same_second:
  "(issued div 1000000 < cutoff div 1000000 \<longrightarrow> \<not> token_still_valid (u\<lparr>up_valid_after := Some cutoff\<rparr>) (issued div 1000000))
   \<and> (issued < cutoff \<and> issued div 1000000 = cutoff div 1000000 \<longrightarrow> token_still_valid (u\<lparr>up_valid_after := Some cutoff\<rparr>) (issued div 1000000))"
  by (simp add: token_still_valid_def valid_after_secs_def)

end
