(* ===== verification/Outbound_Shares.thy ===== *)
theory Outbound_Shares
  imports File_Crypto Av_Scan Auth_Gate
begin

text \<open>
  Outbound shares, \<open>backend/src/services/outbound_shares.rs\<close>: files leaving a session, encrypted while they wait for an
  approver, released once. The tables are lists of rows in one record together with the files on disk. Vault, the cipher,
  the clock, random values and the faults of the machine are the record \<open>share_env\<close>, one per call; a SQL statement does not
  fail unless a field says so, and a transaction that locks its row is one step. UUIDs are their bytes, times microseconds.
\<close>

section \<open>Rows\<close>

definition MAX_SHARE_SIZE :: nat where [bound_simps]: "MAX_SHARE_SIZE = 500 * 1024 * 1024"
definition DEFAULT_TTL_DAYS :: int where [bound_simps]: "DEFAULT_TTL_DAYS = 1"
definition HISTORY_RETENTION_AFTER_PURGE_DAYS :: int where [bound_simps]: "HISTORY_RETENTION_AFTER_PURGE_DAYS = 7"
definition DAY_MICROS :: int where [bound_simps]: "DAY_MICROS = 86400000000"

datatype share_status = SharePending | ShareApproved | ShareDenied | ShareDownloaded | SharePurged

definition share_status_str :: "share_status \<Rightarrow> str" where
  "share_status_str st =
    (case st of SharePending \<Rightarrow> ''pending'' | ShareApproved \<Rightarrow> ''approved'' | ShareDenied \<Rightarrow> ''denied''
     | ShareDownloaded \<Rightarrow> ''downloaded'' | SharePurged \<Rightarrow> ''purged'')"

record outbound_share =
  sh_id :: bytes
  sh_requester :: bytes
  sh_session :: "str option"
  sh_connection :: "bytes option"
  sh_filename :: str
  sh_content_type :: str
  sh_size :: int
  sh_sha256 :: str
  sh_path :: "str option"
  sh_key :: "bytes option"
  sh_nonce :: "bytes option"
  sh_justification :: "str option"
  sh_dlp_score :: int
  sh_dlp_reasons :: "str list"
  sh_status :: share_status
  sh_decided_by :: "bytes option"
  sh_decided_at :: "int option"
  sh_reason :: "str option"
  sh_token :: "str option"
  sh_downloaded_at :: "int option"
  sh_created :: int
  sh_expires :: int
  sh_purged_at :: "int option"
  sh_av_status :: str
  sh_av_signature :: "str option"
  sh_av_backend :: str
  sh_format :: int

text \<open>The users with what their role grants; \<open>us_requires\<close> is the nullable approval column.\<close>

record share_user =
  us_id :: bytes
  us_username :: str
  us_deleted :: bool
  us_requires :: "bool option"
  us_manage_system :: bool
  us_outbound :: bool

text \<open>A token that lets a session upload one file.\<close>

record ingest_row =
  ig_token :: str
  ig_user :: bytes
  ig_session :: "str option"
  ig_connection :: "bytes option"
  ig_justification :: "str option"
  ig_expires :: int
  ig_created :: int
  ig_used_at :: "int option"

record share_db =
  sd_shares :: "outbound_share list"
  sd_approvers :: "bytes list"
  sd_users :: "share_user list"
  sd_ingest :: "ingest_row list"
  sd_files :: file_system
  sd_audit :: "(bytes option \<times> str) list"

text \<open>
  \<open>se_data_key\<close> is a fresh file key and its wrapped form, \<open>se_unwrap\<close> the way back; \<open>se_legacy\<close> decrypts the older format.
  \<open>se_io_stream\<close> are the faults while a download is streamed, \<open>se_io\<close> those of everything before;
  \<open>se_stat\<close>, \<open>se_mkdir\<close>, \<open>se_slot\<close> and \<open>se_insert\<close> are failures of the machine; \<open>se_row_ok\<close> says of which rows the purge's
  statements succeed, and \<open>se_stuck\<close> which files cannot be removed: every caller of \<open>remove_file\<close> goes on when it fails.
\<close>

record share_env =
  se_now :: int
  se_id :: bytes
  se_token_ids :: "bytes \<times> bytes"
  se_root :: str
  se_stream :: stream_aead
  se_sha256 :: "bytes \<Rightarrow> bytes"
  se_io :: io_faults
  se_io_stream :: io_faults
  se_prefix :: bytes
  se_data_key :: "gate_error + bytes \<times> bytes"
  se_unwrap :: "bytes \<Rightarrow> gate_error + bytes"
  se_legacy :: "bytes \<Rightarrow> bytes \<Rightarrow> bytes \<Rightarrow> gate_error + bytes"
  se_stat :: "str option"
  se_mkdir :: "str option"
  se_slot :: "gate_error option"
  se_insert :: "gate_error option"
  se_row_ok :: "bytes \<Rightarrow> bool"
  se_stuck :: "str \<Rightarrow> bool"

definition uuid_simple :: "bytes \<Rightarrow> str" where
  "uuid_simple u = hex_encode u"

definition uuid_str :: "bytes \<Rightarrow> str" where
  "uuid_str u = (let h = hex_encode u in
    take 8 h @ ''-'' @ take 4 (drop 8 h) @ ''-'' @ take 4 (drop 12 h) @ ''-'' @ take 4 (drop 16 h) @ ''-'' @ drop 20 h)"

definition mint_token :: "share_env \<Rightarrow> str" where
  "mint_token env = uuid_simple (fst (se_token_ids env)) @ uuid_simple (snd (se_token_ids env))"

definition share_path :: "str \<Rightarrow> bytes \<Rightarrow> str" where
  "share_path root u = root @ ''/'' @ uuid_str u @ ''.bin''"

definition ensure_staging_path :: "share_env \<Rightarrow> gate_error + str" where
  "ensure_staging_path env =
    (case se_mkdir env of
       Some e \<Rightarrow> Inl (Internal (''Failed to create staging dir: '' @ e))
     | None \<Rightarrow> Inr (share_path (se_root env) (se_id env)))"

definition share_audit :: "bytes option \<Rightarrow> str \<Rightarrow> share_db \<Rightarrow> share_db" where
  "share_audit user action s = s\<lparr>sd_audit := sd_audit s @ [(user, action)]\<rparr>"

definition find_share :: "bytes \<Rightarrow> share_db \<Rightarrow> outbound_share option" where
  "find_share i s = List.find (\<lambda>r. sh_id r = i) (sd_shares s)"

definition update_share :: "bytes \<Rightarrow> (outbound_share \<Rightarrow> outbound_share) \<Rightarrow> share_db \<Rightarrow> share_db" where
  "update_share i f s = s\<lparr>sd_shares := map (\<lambda>r. if sh_id r = i then f r else r) (sd_shares s)\<rparr>"

definition remove_path :: "share_env \<Rightarrow> str option \<Rightarrow> share_db \<Rightarrow> share_db" where
  "remove_path env p s =
    (case p of
       Some path \<Rightarrow> if se_stuck env path then s else s\<lparr>sd_files := hm_remove path (sd_files s)\<rparr>
     | None \<Rightarrow> s)"

definition show_file_error :: "file_error \<Rightarrow> str" where
  "show_file_error e =
    (case e of InvalidData m \<Rightarrow> m | FileTooLarge m \<Rightarrow> m | UnexpectedEof \<Rightarrow> ''failed to fill whole buffer''
     | NoSuchFile \<Rightarrow> ''No such file or directory (os error 2)'' | AlreadyExists \<Rightarrow> ''File exists (os error 17)'' | IoFault m \<Rightarrow> m)"

section \<open>The scorer\<close>

definition HIGH_RISK_EXT :: "str list" where
  "HIGH_RISK_EXT = [''.exe'', ''.dll'', ''.msi'', ''.bat'', ''.cmd'', ''.ps1'', ''.vbs'', ''.js'', ''.jar'', ''.sh'', ''.scr'', ''.com'',
     ''.cpl'', ''.reg'']"

definition ARCHIVE_EXT :: "str list" where
  "ARCHIVE_EXT = [''.zip'', ''.rar'', ''.7z'', ''.tar'', ''.gz'', ''.bz2'', ''.xz'', ''.iso'', ''.cab'']"

definition SENSITIVE_TOKENS :: "str list" where
  "SENSITIVE_TOKENS = [''password'', ''secret'', ''credential'', ''token'', ''private'', ''id_rsa'', ''.pem'', ''.pfx'', ''.p12'', ''.kdbx'',
     ''.keystore'']"

definition flag :: "int \<Rightarrow> (str \<Rightarrow> str) \<Rightarrow> str option \<Rightarrow> int \<times> str list \<Rightarrow> int \<times> str list" where
  "flag points reason hit p = (case hit of Some x \<Rightarrow> (fst p + points, snd p @ [reason x]) | None \<Rightarrow> p)"

text \<open>A negative size, which never occurs, divides differently from Rust here and scores the same.\<close>

definition compute_dlp_score :: "str \<Rightarrow> str \<Rightarrow> int \<Rightarrow> int \<times> str list" where
  "compute_dlp_score filename content_type size_bytes =
    (let name_lc = to_ascii_lowercase filename; mime_lc = to_ascii_lowercase content_type;
         p1 = flag 60 (\<lambda>e. ''Executable extension '' @ e) (List.find (\<lambda>e. ends_with e name_lc) HIGH_RISK_EXT) (0, []);
         p2 = flag 25 (\<lambda>e. ''Archive extension '' @ e) (List.find (\<lambda>e. ends_with e name_lc) ARCHIVE_EXT) p1;
         p3 = flag 40 (\<lambda>t. ''Sensitive-looking name token: '' @ t) (List.find (\<lambda>t. str_contains t name_lc) SENSITIVE_TOKENS) p2;
         p4 = (if list_ex (\<lambda>e. ends_with e name_lc) [''.docm'', ''.xlsm'', ''.pptm'']
               then (fst p3 + 30, snd p3 @ [''Macro-enabled Office document'']) else p3);
         p5 = (if list_ex (\<lambda>n. str_contains n mime_lc) [''executable'', ''x-msdownload'', ''x-msi'']
               then (fst p4 + 40, snd p4 @ [''Executable MIME type: '' @ content_type]) else p4);
         mb = size_bytes div (1024 * 1024);
         p6 = (if mb \<ge> 100 then (fst p5 + 25, snd p5 @ [''Large file ('' @ show_int mb @ '' MiB)''])
               else if mb \<ge> 25 then (fst p5 + 10, snd p5 @ [''Medium-large file ('' @ show_int mb @ '' MiB)'']) else p5)
     in (if fst p6 > 100 then 100 else fst p6, snd p6))"

section \<open>Submission\<close>

record submit_input =
  si_requester :: bytes
  si_session :: "str option"
  si_connection :: "bytes option"
  si_filename :: str
  si_content_type :: str
  si_justification :: "str option"
  si_source :: str
  si_requires :: bool
  si_verdict :: av_verdict
  si_backend :: str

record submit_outcome =
  so_id :: bytes
  so_status :: share_status
  so_dlp_score :: int
  so_dlp_reasons :: "str list"
  so_token :: "str option"
  so_expires :: int
  so_size :: nat

definition upload_size :: "share_env \<Rightarrow> str \<Rightarrow> share_db \<Rightarrow> gate_error + nat" where
  "upload_size env source s =
    (case se_stat env of
       Some e \<Rightarrow> Inl (Internal (''Failed to read upload: '' @ e))
     | None \<Rightarrow>
         (case hm_get source (sd_files s) of
            None \<Rightarrow> Inl (Internal (''Failed to read upload: '' @ show_file_error NoSuchFile))
          | Some content \<Rightarrow> Inr (length content)))"

definition check_upload :: "share_env \<Rightarrow> str \<Rightarrow> share_db \<Rightarrow> gate_error + unit" where
  "check_upload env source s =
    and_then (upload_size env source s) (\<lambda>n.
      if n = 0 then Inl (Validation ''Empty file'')
      else if n > MAX_SHARE_SIZE then Inl (Validation ''File exceeds maximum allowed size'')
      else Inr ())"

definition stage_error :: "file_error \<Rightarrow> gate_error" where
  "stage_error e =
    (case e of
       FileTooLarge _ \<Rightarrow> Validation ''File exceeds maximum allowed size''
     | _ \<Rightarrow> Internal (''Failed to stage outbound blob: '' @ show_file_error e))"

text \<open>The blob is encrypted under its path; the guard that owns it removes it again when anything fails.\<close>

definition stage_blob :: "share_env \<Rightarrow> submit_input \<Rightarrow> bytes \<Rightarrow> str \<Rightarrow> share_db \<Rightarrow> (gate_error + sealed_file) \<times> share_db" where
  "stage_blob env input key path s =
    (case se_slot env of
       Some e \<Rightarrow> (Inl e, remove_path env (Some path) s)
     | None \<Rightarrow>
         (case encrypt_file (se_stream env) (se_sha256 env) (se_io env) (se_prefix env) (si_source input) path key (se_id env)
                 MAX_SHARE_SIZE (sd_files s) of
            (Inl e, fs) \<Rightarrow> (Inl (stage_error e), remove_path env (Some path) (s\<lparr>sd_files := fs\<rparr>))
          | (Inr info, fs) \<Rightarrow> (Inr info, s\<lparr>sd_files := fs\<rparr>)))"

definition new_share :: "share_env \<Rightarrow> submit_input \<Rightarrow> sealed_file \<Rightarrow> bytes \<Rightarrow> str \<Rightarrow> outbound_share" where
  "new_share env input sealed wrapped path =
    (let (score, reasons) = compute_dlp_score (si_filename input) (si_content_type input) (int (sealed_size sealed)) in
     \<lparr>sh_id = se_id env, sh_requester = si_requester input, sh_session = si_session input, sh_connection = si_connection input,
      sh_filename = si_filename input, sh_content_type = si_content_type input, sh_size = int (sealed_size sealed),
      sh_sha256 = sealed_sha256 sealed, sh_path = Some path, sh_key = Some wrapped, sh_nonce = None,
      sh_justification = si_justification input, sh_dlp_score = score, sh_dlp_reasons = reasons,
      sh_status = (if \<not> si_requires input then ShareApproved else SharePending),
      sh_decided_by = None, sh_decided_at = None, sh_reason = None,
      sh_token = (if \<not> si_requires input then Some (mint_token env) else None), sh_downloaded_at = None,
      sh_created = se_now env, sh_expires = se_now env + DEFAULT_TTL_DAYS * DAY_MICROS, sh_purged_at = None,
      sh_av_status = av_verdict_str (si_verdict input), sh_av_signature = av_signature (si_verdict input),
      sh_av_backend = si_backend input, sh_format = 2\<rparr>)"

definition share_submit :: "share_env \<Rightarrow> submit_input \<Rightarrow> share_db \<Rightarrow> (gate_error + submit_outcome) \<times> share_db" where
  "share_submit env input s =
    and_do (check_upload env (si_source input) s, s) (\<lambda>_ s.
    and_do (se_data_key env, s) (\<lambda>(key, wrapped) s.
    and_do (ensure_staging_path env, s) (\<lambda>path s.
    and_do (stage_blob env input key path s) (\<lambda>sealed s.
      let row = new_share env input sealed wrapped path in
      case se_insert env of
        Some e \<Rightarrow> (Inl e, remove_path env (Some path) s)
      | None \<Rightarrow>
          (Inr \<lparr>so_id = sh_id row, so_status = sh_status row, so_dlp_score = sh_dlp_score row, so_dlp_reasons = sh_dlp_reasons row,
                so_token = sh_token row, so_expires = sh_expires row, so_size = sealed_size sealed\<rparr>,
           share_audit (Some (si_requester input)) ''outbound_share.requested'' (s\<lparr>sd_shares := sd_shares s @ [row]\<rparr>))))))"

section \<open>Decision\<close>

record decide_input =
  di_share :: bytes
  di_approver :: bytes
  di_approve :: bool
  di_reason :: "str option"
  di_super_admin :: bool

definition is_outbound_approver :: "bytes \<Rightarrow> share_db \<Rightarrow> bool" where
  "is_outbound_approver user s = (user \<in> set (sd_approvers s))"

definition decided_share :: "share_env \<Rightarrow> decide_input \<Rightarrow> outbound_share \<Rightarrow> outbound_share" where
  "decided_share env input r =
    (if di_approve input
     then r\<lparr>sh_status := ShareApproved, sh_decided_by := Some (di_approver input), sh_decided_at := Some (se_now env),
            sh_reason := di_reason input, sh_token := Some (mint_token env)\<rparr>
     else r\<lparr>sh_status := ShareDenied, sh_decided_by := Some (di_approver input), sh_decided_at := Some (se_now env),
            sh_reason := di_reason input, sh_token := None, sh_key := None, sh_nonce := None, sh_path := None,
            sh_purged_at := Some (se_now env)\<rparr>)"

text \<open>The transaction; its result is the row as it was read.\<close>

definition decide_tx :: "share_env \<Rightarrow> decide_input \<Rightarrow> share_db \<Rightarrow> (gate_error + outbound_share) \<times> share_db" where
  "decide_tx env input s =
    (if \<not> di_super_admin input \<and> \<not> is_outbound_approver (di_approver input) s then (Inl Forbidden, s)
     else case find_share (di_share input) s of
       None \<Rightarrow> (Inl (NotFound ''Outbound share not found''), s)
     | Some row \<Rightarrow>
         if sh_status row \<noteq> SharePending then (Inl (Validation (''Share is not pending (status: '' @ share_status_str (sh_status row) @ '')'')), s)
         else if sh_expires row \<le> se_now env then (Inl (Validation ''Share has already expired''), s)
         else (Inr row, update_share (di_share input) (decided_share env input) s))"

definition share_decide ::
    "share_env \<Rightarrow> decide_input \<Rightarrow> share_db \<Rightarrow> (gate_error + bytes \<times> share_status \<times> str option) \<times> share_db" where
  "share_decide env input s =
    and_do (decide_tx env input s) (\<lambda>row s.
      (Inr (di_share input, if di_approve input then ShareApproved else ShareDenied, if di_approve input then Some (mint_token env) else None),
       share_audit (Some (di_approver input)) ''outbound_share.decided''
         (if di_approve input then s else remove_path env (sh_path row) s)))"

section \<open>Download\<close>

datatype download_body = Streamed "(file_error + bytes) list" | Whole bytes

record download_material =
  dm_share :: outbound_share
  dm_body :: download_body
  dm_length :: nat

definition in_slot :: "share_env \<Rightarrow> 'a \<Rightarrow> gate_error + 'a" where
  "in_slot env x = (case se_slot env of Some e \<Rightarrow> Inl e | None \<Rightarrow> Inr x)"

definition stream_body :: "share_env \<Rightarrow> outbound_share \<Rightarrow> bytes \<Rightarrow> str \<Rightarrow> share_db \<Rightarrow> gate_error + download_body \<times> nat" where
  "stream_body env row key path s =
    and_then (ok_or (hm_get path (sd_files s)) (Internal (''Failed to open staged blob: '' @ show_file_error NoSuchFile))) (\<lambda>content.
    and_then (if sh_size row < 0 then Inl (Internal ''Share has a negative size'') else Inr (nat (sh_size row))) (\<lambda>len.
    and_then (in_slot env (verify_file (se_stream env) (se_io env) path key (sh_id row) len (sd_files s))) (\<lambda>checked.
    and_then (map_err (\<lambda>e. Internal (''Staged blob failed verification: '' @ show_file_error e)) checked) (\<lambda>_.
    and_then (map_err (\<lambda>e. Internal (''Failed to read staged blob: '' @ show_file_error e))
               (decrypt_stream (se_stream env) (se_io_stream env) content key (sh_id row))) (\<lambda>items.
      Inr (Streamed items, len))))))"

definition legacy_body :: "share_env \<Rightarrow> outbound_share \<Rightarrow> bytes \<Rightarrow> str \<Rightarrow> share_db \<Rightarrow> gate_error + download_body \<times> nat" where
  "legacy_body env row key path s =
    and_then (ok_or (sh_nonce row) (Internal ''Share missing sealed nonce'')) (\<lambda>nonce.
    and_then (ok_or (hm_get path (sd_files s)) (Internal (''Failed to read staged blob: '' @ show_file_error NoSuchFile))) (\<lambda>ciphertext.
    and_then (se_legacy env key ciphertext nonce) (\<lambda>plaintext.
      Inr (Whole plaintext, length plaintext))))"

definition share_body :: "share_env \<Rightarrow> outbound_share \<Rightarrow> share_db \<Rightarrow> gate_error + download_body \<times> nat" where
  "share_body env row s =
    and_then (ok_or (sh_path row) (Internal ''Share missing storage path'')) (\<lambda>path.
    and_then (ok_or (sh_key row) (Internal ''Share missing sealed DEK'')) (\<lambda>sealed_dek.
    and_then (se_unwrap env sealed_dek) (\<lambda>key.
      if sh_format row = 2 then stream_body env row key path s else legacy_body env row key path s)))"

definition downloaded_share :: "share_env \<Rightarrow> outbound_share \<Rightarrow> outbound_share" where
  "downloaded_share env r = r\<lparr>sh_status := ShareDownloaded, sh_downloaded_at := Some (se_now env), sh_token := None\<rparr>"

definition consume_download_token ::
    "share_env \<Rightarrow> str \<Rightarrow> bytes \<Rightarrow> bool \<Rightarrow> share_db \<Rightarrow> (gate_error + download_material) \<times> share_db" where
  "consume_download_token env token caller is_admin s =
    (case List.find (\<lambda>r. sh_token r = Some token) (sd_shares s) of
       None \<Rightarrow> (Inl (NotFound ''Invalid or expired token''), s)
     | Some row \<Rightarrow>
         if sh_requester row \<noteq> caller \<and> \<not> is_admin then (Inl Forbidden, s)
         else if sh_status row \<noteq> ShareApproved then (Inl Forbidden, s)
         else if sh_expires row \<le> se_now env then (Inl (Validation ''Share has already expired''), s)
         else and_do (share_body env row s, s) (\<lambda>(body, len) s.
           (Inr \<lparr>dm_share = row, dm_body = body, dm_length = len\<rparr>,
            share_audit (Some caller) ''outbound_share.downloaded'' (update_share (sh_id row) (downloaded_share env) s))))"

definition mark_delivered :: "share_env \<Rightarrow> bytes \<Rightarrow> share_db \<Rightarrow> share_db" where
  "mark_delivered env i s = update_share i (\<lambda>r. if sh_status r = ShareApproved then downloaded_share env r else r) s"

section \<open>Listings and approvers\<close>

definition newest_first :: "outbound_share list \<Rightarrow> outbound_share list" where
  "newest_first rs = rev (sort_key sh_created rs)"

definition with_username :: "share_db \<Rightarrow> outbound_share \<Rightarrow> outbound_share \<times> str option" where
  "with_username s r = (r, map_option us_username (List.find (\<lambda>u. us_id u = sh_requester r) (sd_users s)))"

definition shares_for_user :: "bytes \<Rightarrow> share_db \<Rightarrow> outbound_share list" where
  "shares_for_user user s = take 200 (newest_first (filter (\<lambda>r. sh_requester r = user) (sd_shares s)))"

definition list_pending :: "share_db \<Rightarrow> (outbound_share \<times> str option) list" where
  "list_pending s = map (with_username s) (take 200 (sort_key sh_created (filter (\<lambda>r. sh_status r = SharePending) (sd_shares s))))"

definition list_all_shares :: "share_db \<Rightarrow> (outbound_share \<times> str option) list" where
  "list_all_shares s = map (with_username s) (take 500 (newest_first (sd_shares s)))"

definition approvers_for_notifications :: "share_db \<Rightarrow> bytes list" where
  "approvers_for_notifications s =
    remdups (map us_id (filter (\<lambda>u. \<not> us_deleted u \<and> (is_outbound_approver (us_id u) s \<or> us_manage_system u)) (sd_users s)))"

definition add_approver :: "bytes \<Rightarrow> share_db \<Rightarrow> (gate_error + bool) \<times> share_db" where
  "add_approver user s =
    (if \<not> list_ex (\<lambda>u. us_id u = user \<and> \<not> us_deleted u) (sd_users s) then (Inl (NotFound ''User not found''), s)
     else if is_outbound_approver user s then (Inr False, s)
     else (Inr True, s\<lparr>sd_approvers := sd_approvers s @ [user]\<rparr>))"

definition remove_approver :: "bytes \<Rightarrow> share_db \<Rightarrow> bool \<times> share_db" where
  "remove_approver user s = (is_outbound_approver user s, s\<lparr>sd_approvers := filter (\<lambda>u. u \<noteq> user) (sd_approvers s)\<rparr>)"

section \<open>The purge\<close>

definition zeroised :: "share_env \<Rightarrow> outbound_share \<Rightarrow> outbound_share" where
  "zeroised env r =
    r\<lparr>sh_status := (if sh_status r = SharePending \<or> sh_status r = ShareApproved then SharePurged else sh_status r),
      sh_key := None, sh_nonce := None, sh_path := None, sh_token := None, sh_purged_at := Some (se_now env)\<rparr>"

definition expired_shares :: "share_env \<Rightarrow> share_db \<Rightarrow> (bytes \<times> str option) list" where
  "expired_shares env s =
    take 500 (map (\<lambda>r. (sh_id r, sh_path r)) (filter (\<lambda>r. sh_purged_at r = None \<and> sh_expires r \<le> se_now env) (sd_shares s)))"

definition purge_share :: "share_env \<Rightarrow> bytes \<times> str option \<Rightarrow> nat \<times> share_db \<Rightarrow> nat \<times> share_db" where
  "purge_share env c p =
    (let (i, path) = c; (n, s0) = p; s = remove_path env path s0 in
     if \<not> se_row_ok env i then (n, s)
     else if list_ex (\<lambda>r. sh_id r = i \<and> sh_purged_at r = None) (sd_shares s)
     then (n + 1, share_audit None ''outbound_share.purged''
                    (update_share i (\<lambda>r. if sh_purged_at r = None then zeroised env r else r) s))
     else (n, s))"

definition old_history :: "share_env \<Rightarrow> share_db \<Rightarrow> bytes list" where
  "old_history env s =
    take 500 (map sh_id (filter (\<lambda>r. case sh_purged_at r of
        Some t \<Rightarrow> t \<le> se_now env - HISTORY_RETENTION_AFTER_PURGE_DAYS * DAY_MICROS | None \<Rightarrow> False) (sd_shares s)))"

definition remove_share :: "share_env \<Rightarrow> bytes \<Rightarrow> share_db \<Rightarrow> share_db" where
  "remove_share env i s =
    (if \<not> se_row_ok env i then s
     else if list_ex (\<lambda>r. sh_id r = i) (sd_shares s)
     then share_audit None ''outbound_share.removed'' (s\<lparr>sd_shares := filter (\<lambda>r. sh_id r \<noteq> i) (sd_shares s)\<rparr>)
     else s)"

definition purge_expired :: "share_env \<Rightarrow> share_db \<Rightarrow> nat \<times> share_db" where
  "purge_expired env s =
    (let (n, s1) = fold (purge_share env) (expired_shares env s) (0, s)
     in (n, fold (remove_share env) (old_history env s1) s1))"

section \<open>Ingest tokens\<close>

text \<open>The table of upload tokens, \<open>backend/src/services/outbound_share_ingest.rs\<close>; \<open>token\<close> is the random text.\<close>

definition TOKEN_TTL_SECONDS :: int where [bound_simps]: "TOKEN_TTL_SECONDS = 600"
definition MAX_MINTS_PER_MINUTE :: nat where [bound_simps]: "MAX_MINTS_PER_MINUTE = 10"

definition ingest_mint ::
    "share_env \<Rightarrow> str \<Rightarrow> bytes \<Rightarrow> str option \<Rightarrow> bytes option \<Rightarrow> str option \<Rightarrow> share_db \<Rightarrow> (gate_error + str \<times> int) \<times> share_db" where
  "ingest_mint env token user session connection justification s =
    (if length (filter (\<lambda>t. ig_user t = user \<and> ig_created t > se_now env - 60000000) (sd_ingest s)) \<ge> MAX_MINTS_PER_MINUTE
     then (Inl (Validation ''Too many upload tokens requested. Wait a minute and try again.''), s)
     else
       let expires = se_now env + TOKEN_TTL_SECONDS * 1000000 in
       (Inr (token, expires),
        s\<lparr>sd_ingest := sd_ingest s @ [\<lparr>ig_token = token, ig_user = user, ig_session = session, ig_connection = connection,
            ig_justification = justification, ig_expires = expires, ig_created = se_now env, ig_used_at = None\<rparr>]\<rparr>))"

definition ingest_usable :: "share_env \<Rightarrow> str \<Rightarrow> ingest_row \<Rightarrow> bool" where
  "ingest_usable env token t \<longleftrightarrow> ig_token t = token \<and> ig_used_at t = None \<and> ig_expires t > se_now env"

definition ingest_consume :: "share_env \<Rightarrow> str \<Rightarrow> share_db \<Rightarrow> (gate_error + ingest_row) \<times> share_db" where
  "ingest_consume env submitted s =
    (if length submitted < 16 \<or> length submitted > 128 then (Inl (Validation ''Invalid or expired upload token.''), s)
     else case List.find (ingest_usable env submitted) (sd_ingest s) of
       None \<Rightarrow> (Inl (Validation ''Invalid or expired upload token.''), s)
     | Some t \<Rightarrow>
         (Inr t, s\<lparr>sd_ingest := map (\<lambda>r. if ingest_usable env submitted r then r\<lparr>ig_used_at := Some (se_now env)\<rparr> else r) (sd_ingest s)\<rparr>))"

definition ingest_purge_expired :: "share_env \<Rightarrow> share_db \<Rightarrow> nat \<times> share_db" where
  "ingest_purge_expired env s =
    (let gone = (\<lambda>t. ig_expires t < se_now env - DAY_MICROS) in
     (length (filter gone (sd_ingest s)), s\<lparr>sd_ingest := filter (\<lambda>t. \<not> gone t) (sd_ingest s)\<rparr>))"

end
