(* ===== verification/Share_Routes.thy ===== *)
theory Share_Routes
  imports Outbound_Shares
begin

text \<open>
  The handlers of outbound shares, \<open>backend/src/routes/outbound_shares.rs\<close>, and the gate every SFTP transfer passes,
  \<open>backend/src/services/transfer_gate.rs\<close>. A multipart body is the list of its fields as the multipart reader delivers them,
  with the errors it may report. Notifications by mail are not modelled. \<open>route_env\<close> adds to \<open>share_env\<close> the state of the
  application, the scanner and the temporary file of this request.
\<close>

section \<open>Requests\<close>

record form_field =
  ff_name :: "str option"
  ff_text :: "str + str"
  ff_filename :: "str option"
  ff_content_type :: "str option"
  ff_chunks :: "(str + bytes) list"

record route_env =
  re_share :: share_env
  re_running :: bool
  re_db :: bool
  re_vault :: bool
  re_scan :: scan_env
  re_av :: av_config
  re_uuid :: "str \<Rightarrow> bytes option"
  re_temp :: str
  re_create :: "str option"
  re_write :: "nat \<Rightarrow> str option"
  re_flush :: "str option"
  re_token :: str

text \<open>The directory of sealed blobs: a configured one, else one under \<open>/tmp\<close>, else the platform's.\<close>

definition staging_root :: "str option \<Rightarrow> bool \<Rightarrow> str \<Rightarrow> str" where
  "staging_root custom primary_ok temp_dir =
    (let fallback = (if primary_ok then ''/tmp/strata-outbound-shares'' else temp_dir @ ''/strata-outbound-shares'') in
     case custom of Some c \<Rightarrow> if c \<noteq> [] then c else fallback | None \<Rightarrow> fallback)"

definition load_pool_vault_and_av :: "route_env \<Rightarrow> gate_error + unit" where
  "load_pool_vault_and_av env =
    (if \<not> re_running env then Inl SetupRequired
     else if \<not> re_db env then Inl (Internal ''DB not initialised'')
     else if \<not> re_vault env then Inl (Vault ''Vault is not configured'')
     else Inr ())"

definition require_pool :: "route_env \<Rightarrow> gate_error + unit" where
  "require_pool env = (if \<not> re_db env then Inl (Internal ''database not configured'') else Inr ())"

section \<open>Parsing an upload\<close>

record parsed_form =
  pf_session :: "str option"
  pf_connection :: "bytes option"
  pf_justification :: "str option"
  pf_file :: "(str \<times> str \<times> nat) option"

record parsed_upload =
  pu_form :: parsed_form
  pu_filename :: str
  pu_content_type :: str
  pu_size :: nat
  pu_verdict :: av_verdict
  pu_backend :: str

definition empty_form :: parsed_form where
  "empty_form = \<lparr>pf_session = None, pf_connection = None, pf_justification = None, pf_file = None\<rparr>"

fun write_chunks :: "route_env \<Rightarrow> nat \<Rightarrow> bytes \<Rightarrow> (str + bytes) list \<Rightarrow> gate_error + bytes" where
  "write_chunks env k written [] =
    (case re_flush env of Some e \<Rightarrow> Inl (Internal (''Failed to flush temp file: '' @ e)) | None \<Rightarrow> Inr written)"
| "write_chunks env k written (Inl e # cs) = Inl (Validation (''Failed to read file: '' @ e))"
| "write_chunks env k written (Inr c # cs) =
    (if length written + length c > MAX_SHARE_SIZE then Inl (Validation ''File exceeds maximum allowed size'')
     else case re_write env k of
       Some e \<Rightarrow> Inl (Internal (''Failed to write temp file: '' @ e))
     | None \<Rightarrow> write_chunks env (k + 1) (written @ c) cs)"

definition file_field :: "route_env \<Rightarrow> form_field \<Rightarrow> parsed_form \<Rightarrow> share_db \<Rightarrow> (gate_error + parsed_form) \<times> share_db" where
  "file_field env f p s =
    (if pf_file p \<noteq> None then (Inl (Validation ''Only one file per upload''), s)
     else case re_create env of
       Some e \<Rightarrow> (Inl (Internal (''Failed to create temp file: '' @ e)), s)
     | None \<Rightarrow>
         (case write_chunks env 0 [] (ff_chunks f) of
            Inl e \<Rightarrow> (Inl e, s\<lparr>sd_files := hm_insert (re_temp env) [] (sd_files s)\<rparr>)
          | Inr content \<Rightarrow>
              (Inr (p\<lparr>pf_file := Some (case ff_filename f of Some n \<Rightarrow> n | None \<Rightarrow> ''upload'',
                        case ff_content_type f of Some t \<Rightarrow> t | None \<Rightarrow> ''application/octet-stream'', length content)\<rparr>),
               s\<lparr>sd_files := hm_insert (re_temp env) content (sd_files s)\<rparr>)))"

definition form_step :: "route_env \<Rightarrow> form_field \<Rightarrow> parsed_form \<Rightarrow> share_db \<Rightarrow> (gate_error + parsed_form) \<times> share_db" where
  "form_step env f p s =
    (let name = (case ff_name f of Some n \<Rightarrow> n | None \<Rightarrow> []) in
     if name = ''session_id'' then
       (case ff_text f of Inl e \<Rightarrow> (Inl (Validation (''Invalid session_id: '' @ e)), s) | Inr t \<Rightarrow> (Inr (p\<lparr>pf_session := Some t\<rparr>), s))
     else if name = ''connection_id'' then
       (case ff_text f of
          Inl e \<Rightarrow> (Inl (Validation (''Invalid connection_id: '' @ e)), s)
        | Inr t \<Rightarrow>
            if trim t = [] then (Inr p, s)
            else (case re_uuid env (trim t) of
                    None \<Rightarrow> (Inl (Validation ''Bad connection_id''), s)
                  | Some u \<Rightarrow> (Inr (p\<lparr>pf_connection := Some u\<rparr>), s)))
     else if name = ''justification'' then
       (case ff_text f of
          Inl e \<Rightarrow> (Inl (Validation (''Invalid justification: '' @ e)), s)
        | Inr t \<Rightarrow>
            if trim t = [] then (Inr p, s)
            else if length t > 1024 then (Inl (Validation ''Justification too long (max 1024 chars)''), s)
            else (Inr (p\<lparr>pf_justification := Some t\<rparr>), s))
     else if name = ''file'' then file_field env f p s
     else (Inr p, s))"

fun parse_fields :: "route_env \<Rightarrow> (str + form_field) list \<Rightarrow> parsed_form \<Rightarrow> share_db \<Rightarrow> (gate_error + parsed_form) \<times> share_db" where
  "parse_fields env [] p s = (Inr p, s)"
| "parse_fields env (Inl e # body_fields) p s = (Inl (Validation (''Malformed upload: '' @ e)), s)"
| "parse_fields env (Inr f # body_fields) p s = and_do (form_step env f p s) (parse_fields env body_fields)"

definition drop_temp :: "route_env \<Rightarrow> share_db \<Rightarrow> share_db" where
  "drop_temp env s = remove_path (re_share env) (Some (re_temp env)) s"

text \<open>The temporary file goes with the value that owns it, so its removal is attempted after every error.\<close>

definition parse_outbound_multipart ::
    "route_env \<Rightarrow> bytes option \<Rightarrow> (str + form_field) list \<Rightarrow> share_db \<Rightarrow> (gate_error + parsed_upload) \<times> share_db" where
  "parse_outbound_multipart env actor body_fields s =
    (case parse_fields env body_fields empty_form s of
       (Inl e, s1) \<Rightarrow> (Inl e, drop_temp env s1)
     | (Inr p, s1) \<Rightarrow>
         (case pf_file p of
            None \<Rightarrow> (Inl (Validation ''Missing file field''), s1)
          | Some (filename, content_type, n) \<Rightarrow>
              let v = av_scan (re_scan env) (re_av env) (re_temp env) in
              if blocks v (av_fail_mode (re_av env))
              then (Inl (Validation (user_facing_block_message v)), drop_temp env (share_audit actor ''file.av_blocked'' s1))
              else (Inr \<lparr>pu_form = p, pu_filename = filename, pu_content_type = content_type, pu_size = n, pu_verdict = v,
                         pu_backend = backend_tag (re_av env)\<rparr>, s1)))"

section \<open>Submitting\<close>

definition MIN_OUTBOUND_JUSTIFICATION_LEN :: nat where [bound_simps]: "MIN_OUTBOUND_JUSTIFICATION_LEN = 10"

definition validate_outbound_justification :: "bool \<Rightarrow> str option \<Rightarrow> gate_error + unit" where
  "validate_outbound_justification requires justification =
    (if \<not> requires then Inr ()
     else if chars_count (trim (case justification of Some j \<Rightarrow> j | None \<Rightarrow> [])) < MIN_OUTBOUND_JUSTIFICATION_LEN
     then Inl (Validation (''A justification of at least '' @ show_nat MIN_OUTBOUND_JUSTIFICATION_LEN
            @ '' characters is required for outbound shares unless the approval bypass is enabled for your account.''))
     else Inr ())"

definition requires_approval :: "bytes \<Rightarrow> share_db \<Rightarrow> bool" where
  "requires_approval user s =
    (case List.find (\<lambda>u. us_id u = user) (sd_users s) of
       Some u \<Rightarrow> (case us_requires u of Some b \<Rightarrow> b | None \<Rightarrow> True)
     | None \<Rightarrow> True)"

definition download_url :: "str option \<Rightarrow> str option" where
  "download_url t = map_option (\<lambda>t. ''/api/user/outbound-shares/download/'' @ t) t"

record submit_response =
  rp_id :: bytes
  rp_status :: str
  rp_dlp_score :: int
  rp_dlp_reasons :: "str list"
  rp_url :: "str option"
  rp_expires :: int

definition finalize_submit ::
    "route_env \<Rightarrow> bytes \<Rightarrow> str option \<Rightarrow> bytes option \<Rightarrow> str option \<Rightarrow> str \<Rightarrow> str \<Rightarrow> str \<Rightarrow> av_verdict \<Rightarrow> str \<Rightarrow> share_db
      \<Rightarrow> (gate_error + submit_response) \<times> share_db" where
  "finalize_submit env user session connection justification filename content_type source verdict backend s =
    (let requires = requires_approval user s in
     and_do (validate_outbound_justification requires justification, s) (\<lambda>_ s.
     and_do (share_submit (re_share env)
              \<lparr>si_requester = user, si_session = session, si_connection = connection, si_filename = filename,
               si_content_type = content_type, si_justification = justification, si_source = source, si_requires = requires,
               si_verdict = verdict, si_backend = backend\<rparr> s) (\<lambda>o' s.
       (Inr \<lparr>rp_id = so_id o', rp_status = share_status_str (so_status o'), rp_dlp_score = so_dlp_score o',
             rp_dlp_reasons = so_dlp_reasons o', rp_url = download_url (so_token o'), rp_expires = so_expires o'\<rparr>, s))))"

definition submit_parsed ::
    "route_env \<Rightarrow> bytes \<Rightarrow> str option \<Rightarrow> bytes option \<Rightarrow> str option \<Rightarrow> parsed_upload \<Rightarrow> share_db
      \<Rightarrow> (gate_error + submit_response) \<times> share_db" where
  "submit_parsed env user session connection justification p s =
    (case finalize_submit env user session connection justification (pu_filename p) (pu_content_type p) (re_temp env)
            (pu_verdict p) (pu_backend p) s of
       (r, s1) \<Rightarrow> (r, drop_temp env s1))"

definition submit_route :: "route_env \<Rightarrow> auth_user \<Rightarrow> (str + form_field) list \<Rightarrow> share_db \<Rightarrow> (gate_error + submit_response) \<times> share_db" where
  "submit_route env user body_fields s =
    and_do (check_quick_share_outbound_permission user, s) (\<lambda>_ s.
    and_do (load_pool_vault_and_av env, s) (\<lambda>_ s.
    and_do (parse_outbound_multipart env (Some (au_id user)) body_fields s) (\<lambda>p s.
      submit_parsed env (au_id user) (pf_session (pu_form p)) (pf_connection (pu_form p)) (pf_justification (pu_form p)) p s)))"

section \<open>Tokens for uploads from a session\<close>

definition issue_ingest_token ::
    "route_env \<Rightarrow> auth_user \<Rightarrow> str option \<Rightarrow> bytes option \<Rightarrow> str option \<Rightarrow> share_db \<Rightarrow> (gate_error + str \<times> int \<times> str) \<times> share_db" where
  "issue_ingest_token env user session connection justification s =
    and_do (check_quick_share_outbound_permission user, s) (\<lambda>_ s.
    and_do (require_pool env, s) (\<lambda>_ s.
    and_do (case justification of
              Some j \<Rightarrow> if length j > 1024 then Inl (Validation ''Justification too long (max 1024 chars)'') else Inr ()
            | None \<Rightarrow> Inr (), s) (\<lambda>_ s.
    and_do (validate_outbound_justification (requires_approval (au_id user) s) justification, s) (\<lambda>_ s.
    and_do (ingest_mint (re_share env) (re_token env) (au_id user) session connection justification s) (\<lambda>(token, expires) s.
      (Inr (token, expires, ''/api/outbound-shares/ingest/'' @ token),
       share_audit (Some (au_id user)) ''outbound_share.ingest_token.minted'' s))))))"

definition or_else :: "'a option \<Rightarrow> 'a option \<Rightarrow> 'a option" where
  "or_else a b = (case a of Some x \<Rightarrow> Some x | None \<Rightarrow> b)"

definition ingest_via_token :: "route_env \<Rightarrow> str \<Rightarrow> (str + form_field) list \<Rightarrow> share_db \<Rightarrow> (gate_error + submit_response) \<times> share_db" where
  "ingest_via_token env token body_fields s =
    and_do (load_pool_vault_and_av env, s) (\<lambda>_ s.
    and_do (ingest_consume (re_share env) token s) (\<lambda>ctx s.
      if map_option us_outbound (List.find (\<lambda>u. us_id u = ig_user ctx) (sd_users s)) \<noteq> Some True then (Inl Forbidden, s)
      else
        and_do (parse_outbound_multipart env (Some (ig_user ctx)) body_fields s) (\<lambda>p s.
        and_do (submit_parsed env (ig_user ctx) (or_else (ig_session ctx) (pf_session (pu_form p)))
                  (or_else (ig_connection ctx) (pf_connection (pu_form p)))
                  (or_else (ig_justification ctx) (pf_justification (pu_form p))) p s) (\<lambda>resp s.
          (Inr resp, share_audit (Some (ig_user ctx)) ''outbound_share.ingest_token.consumed'' s)))))"

section \<open>Downloading, deciding, purging\<close>

definition sanitize_filename :: "str \<Rightarrow> str" where
  "sanitize_filename name = map (\<lambda>c. if c = CHR 0x22 \<or> c = CHR 0x0A \<or> c = CHR 0x0D then CHR ''_'' else c) name"

text \<open>The response: status 200 with content type, disposition and length, and the body; \<open>ok_header\<close> says which values the builder takes.\<close>

record download_response =
  dr_content_type :: str
  dr_disposition :: str
  dr_length :: nat
  dr_body :: download_body

definition download_route ::
    "route_env \<Rightarrow> (str \<Rightarrow> bool) \<Rightarrow> str \<Rightarrow> auth_user \<Rightarrow> str \<Rightarrow> share_db \<Rightarrow> (gate_error + download_response) \<times> share_db" where
  "download_route env ok_header build_error user token s =
    and_do (check_quick_share_outbound_permission user, s) (\<lambda>_ s.
    and_do (load_pool_vault_and_av env, s) (\<lambda>_ s.
    and_do (consume_download_token (re_share env) token (au_id user) (can_manage_system (au_perms user)) s) (\<lambda>mat s.
      let disposition = ''attachment; filename='' @ [CHR 0x22] @ sanitize_filename (sh_filename (dm_share mat)) @ [CHR 0x22] in
      if ok_header (sh_content_type (dm_share mat)) \<and> ok_header disposition
      then (Inr \<lparr>dr_content_type = sh_content_type (dm_share mat), dr_disposition = disposition, dr_length = dm_length mat,
                 dr_body = dm_body mat\<rparr>, s)
      else (Inl (Internal (''Response build error: '' @ build_error)), s))))"

definition require_approver :: "auth_user \<Rightarrow> share_db \<Rightarrow> gate_error + unit" where
  "require_approver user s =
    (if can_manage_system (au_perms user) then Inr ()
     else if is_outbound_approver (au_id user) s then Inr () else Inl Forbidden)"

definition list_mine_route :: "route_env \<Rightarrow> auth_user \<Rightarrow> share_db \<Rightarrow> gate_error + outbound_share list" where
  "list_mine_route env user s =
    and_then (check_quick_share_outbound_permission user) (\<lambda>_.
    and_then (require_pool env) (\<lambda>_. Inr (shares_for_user (au_id user) s)))"

definition list_all_route :: "route_env \<Rightarrow> auth_user \<Rightarrow> share_db \<Rightarrow> gate_error + (outbound_share \<times> str option) list" where
  "list_all_route env user s =
    and_then (require_pool env) (\<lambda>_. and_then (require_approver user s) (\<lambda>_. Inr (list_all_shares s)))"

definition list_pending_route :: "route_env \<Rightarrow> auth_user \<Rightarrow> share_db \<Rightarrow> gate_error + (outbound_share \<times> str option) list" where
  "list_pending_route env user s =
    and_then (require_pool env) (\<lambda>_. and_then (require_approver user s) (\<lambda>_. Inr (list_pending s)))"

definition decide_route ::
    "route_env \<Rightarrow> auth_user \<Rightarrow> bytes \<Rightarrow> bool \<Rightarrow> str option \<Rightarrow> share_db \<Rightarrow> (gate_error + bytes \<times> str \<times> str option) \<times> share_db" where
  "decide_route env user i approve reason s =
    and_do (require_pool env, s) (\<lambda>_ s.
    and_do (require_approver user s, s) (\<lambda>_ s.
    and_do (share_decide (re_share env)
              \<lparr>di_share = i, di_approver = au_id user, di_approve = approve, di_reason = reason,
               di_super_admin = can_manage_system (au_perms user)\<rparr> s) (\<lambda>(i', status, token) s.
      (Inr (i', share_status_str status, download_url token), s))))"

definition purged_by_hand :: "share_env \<Rightarrow> outbound_share \<Rightarrow> outbound_share" where
  "purged_by_hand env r =
    r\<lparr>sh_status := SharePurged, sh_key := None, sh_nonce := None, sh_path := None, sh_token := None, sh_purged_at := Some (se_now env)\<rparr>"

definition purge_route :: "route_env \<Rightarrow> auth_user \<Rightarrow> bytes \<Rightarrow> share_db \<Rightarrow> (gate_error + unit) \<times> share_db" where
  "purge_route env user i s =
    and_do (check_system_permission user, s) (\<lambda>_ s.
    and_do (require_pool env, s) (\<lambda>_ s.
    and_do (ok_or (find_share i s) (NotFound ''Share not found''), s) (\<lambda>share s.
      (Inr (), share_audit (Some (au_id user)) ''outbound_share.purged''
                 (update_share i (purged_by_hand (re_share env)) (remove_path (re_share env) (sh_path share) s))))))"

definition add_approver_route :: "route_env \<Rightarrow> auth_user \<Rightarrow> bytes \<Rightarrow> share_db \<Rightarrow> (gate_error + nat) \<times> share_db" where
  "add_approver_route env user other s =
    and_do (check_system_permission user, s) (\<lambda>_ s.
    and_do (require_pool env, s) (\<lambda>_ s.
    and_do (add_approver other s) (\<lambda>inserted s.
      if inserted then (Inr 201, share_audit (Some (au_id user)) ''outbound_share.approver_added'' s) else (Inr 200, s))))"

definition remove_approver_route :: "route_env \<Rightarrow> auth_user \<Rightarrow> bytes \<Rightarrow> share_db \<Rightarrow> (gate_error + nat) \<times> share_db" where
  "remove_approver_route env user other s =
    and_do (check_system_permission user, s) (\<lambda>_ s.
    and_do (require_pool env, s) (\<lambda>_ s.
      let (removed, s1) = remove_approver other s in
      (Inr 204, if removed then share_audit (Some (au_id user)) ''outbound_share.approver_removed'' s1 else s1)))"

section \<open>SFTP transfers\<close>

record policy_gate =
  pg_user :: bytes
  pg_connection :: bytes
  pg_session :: str

definition gate_scan :: "route_env \<Rightarrow> policy_gate \<Rightarrow> str \<Rightarrow> share_db \<Rightarrow> (str + av_verdict) \<times> share_db" where
  "gate_scan env g staged s =
    (let v = av_scan (re_scan env) (re_av env) staged in
     if blocks v (av_fail_mode (re_av env))
     then (Inl (user_facing_block_message v), share_audit (Some (pg_user g)) ''file.av_blocked'' s)
     else (Inr v, s))"

definition leaf :: "str \<Rightarrow> str" where
  "leaf name = (case List.find (\<lambda>part. part \<noteq> []) (rev (str_split (CHR ''/'') name)) of Some p \<Rightarrow> p | None \<Rightarrow> name)"

definition transfer_refusal :: "gate_error \<Rightarrow> str" where
  "transfer_refusal e = (case e of Validation m \<Rightarrow> m | _ \<Rightarrow> ''the download could not be submitted for approval'')"

definition admit_upload :: "route_env \<Rightarrow> policy_gate \<Rightarrow> str \<Rightarrow> share_db \<Rightarrow> (str + unit) \<times> share_db" where
  "admit_upload env g staged s =
    and_do (gate_scan env g staged s) (\<lambda>v s. (Inr (), share_audit (Some (pg_user g)) ''file.sftp_uploaded'' s))"

text \<open>
  A download is two steps, since the share is committed before it is marked: the first ends with the share to mark, or with
  what the user is told.
\<close>

definition admit_download_submit :: "route_env \<Rightarrow> policy_gate \<Rightarrow> str \<Rightarrow> str \<Rightarrow> share_db \<Rightarrow> (str + bytes) \<times> share_db" where
  "admit_download_submit env g staged name s =
    and_do (gate_scan env g staged s) (\<lambda>v s.
      if \<not> re_vault env then (Inl ''downloads need Vault, which is not configured'', s)
      else
        (case finalize_submit env (pg_user g) (Some (pg_session g)) (Some (pg_connection g))
                (Some (''Downloaded from the session file browser: '' @ name)) (leaf name) ''application/octet-stream'' staged v
                (backend_tag (re_av env)) s of
           (Inl e, s1) \<Rightarrow> (Inl (transfer_refusal e), s1)
         | (Inr resp, s1) \<Rightarrow>
             if rp_status resp \<noteq> share_status_str ShareApproved
             then (Inl (leaf name @ '' was submitted for approval. Download it from Outbound Quick Share once it is approved.''), s1)
             else (Inr (rp_id resp), s1)))"

definition admit_download :: "route_env \<Rightarrow> policy_gate \<Rightarrow> str \<Rightarrow> str \<Rightarrow> share_db \<Rightarrow> (str + unit) \<times> share_db" where
  "admit_download env g staged name s =
    and_do (admit_download_submit env g staged name s) (\<lambda>i s. (Inr (), mark_delivered (re_share env) i s))"

end
