(* ===== verification/Share_Uploads.thy ===== *)
theory Share_Uploads
  imports Share_Routes
begin

text \<open>
  What a submission of an outbound share does to the tables and the files, on each of its ways out: the paths of blobs are
  distinct, parsing leaves the content of the file field in the temporary file, and a submission leaves one row with its
  sealed blob, or neither where the files it made can be removed.
\<close>

section \<open>Paths\<close>

lemma hex_encode_no_dash: "CHR ''-'' \<notin> set (hex_encode u)"
proof
  assume "CHR ''-'' \<in> set (hex_encode u)"
  then obtain d where "d < 16" "hex_digit d = CHR ''-''" using hex_encode_digits by metis
  then have "(if d < 10 then 48 + d else 87 + d) = (of_char (CHR ''-'') :: nat)" using hex_digit_code [of d] by metis
  then show False by (auto split: if_splits)
qed

lemma uuid_str_dashes: "filter (\<lambda>c. c \<noteq> CHR ''-'') (uuid_str w) = hex_encode w"
proof -
  define h where "h = hex_encode w"
  have plain: "filter (\<lambda>c. c \<noteq> CHR ''-'') xs = xs" if "set xs \<subseteq> set h" for xs
    using that hex_encode_no_dash [of w] by (auto simp: filter_id_conv h_def)
  have parts: "set (take n h) \<subseteq> set h" "set (take n (drop k h)) \<subseteq> set h" "set (drop k h) \<subseteq> set h" for n k
    by (meson set_take_subset set_drop_subset subset_trans)+
  have cut: "take 4 (drop k h) @ drop (k + 4) h = drop k h" for k by (metis add.commute append_take_drop_id drop_drop)
  have "filter (\<lambda>c. c \<noteq> CHR ''-'') (uuid_str w) = take 8 h @ take 4 (drop 8 h) @ take 4 (drop 12 h) @ take 4 (drop 16 h) @ drop 20 h"
    unfolding uuid_str_def h_def [symmetric] Let_def by (simp add: plain parts)
  also have "\<dots> = h" using cut [of 8] cut [of 12] cut [of 16] by simp
  finally show ?thesis unfolding h_def .
qed

lemma uuid_str_inj: "uuid_str u = uuid_str v \<longleftrightarrow> u = v"
  by (metis uuid_str_dashes hex_encode_inj)

lemma share_path_inj [simp]: "share_path root u = share_path root v \<longleftrightarrow> u = v"
  by (simp add: share_path_def uuid_str_inj)

section \<open>Submissions\<close>

lemma hm_get_remove_path:
  "hm_get p (sd_files (remove_path env (Some q) s)) = (if p = q \<and> \<not> se_stuck env q then None else hm_get p (sd_files s))"
  by (simp add: remove_path_def)

lemma remove_path_tables [simp]:
  "sd_shares (remove_path env p s) = sd_shares s" "sd_users (remove_path env p s) = sd_users s"
  "sd_shares (share_audit u a s) = sd_shares s" "sd_users (share_audit u a s) = sd_users s" "sd_files (share_audit u a s) = sd_files s"
  by (simp_all add: remove_path_def share_audit_def split: option.splits)

definition only_path :: "str \<Rightarrow> share_db \<Rightarrow> share_db \<Rightarrow> bool" where
  "only_path path s s' \<longleftrightarrow> sd_users s' = sd_users s \<and> (\<forall>p. p \<noteq> path \<longrightarrow> hm_get p (sd_files s') = hm_get p (sd_files s))"

lemma encrypt_file_ok:
  assumes "encrypt_file st sha256 io nonce src dst key i limit fs = (Inr info, fs')"
  obtains plain blob where "hm_get src fs = Some plain" "hm_get dst fs = None" "write_sealed st sha256 io nonce plain key i limit = Inr (info, blob)"
    "hm_get dst fs' = Some blob" "\<And>p. p \<noteq> dst \<Longrightarrow> hm_get p fs' = hm_get p fs"
  using assms that
  by (auto simp: encrypt_file_def and_do_eq ok_or_def hm_contains_def Let_def split: option.splits if_splits sum.splits prod.splits)

lemma stage_blob_failed:
  assumes "stage_blob env input key path s = (Inl e, s')"
  shows "sd_shares s' = sd_shares s \<and> only_path path s s' \<and> (\<not> se_stuck env path \<longrightarrow> hm_get path (sd_files s') = None)"
proof (cases "se_slot env")
  case None
  then obtain e' fs where "encrypt_file (se_stream env) (se_sha256 env) (se_io env) (se_prefix env) (si_source input) path key (se_id env)
      MAX_SHARE_SIZE (sd_files s) = (Inl e', fs)" and s': "s' = remove_path env (Some path) (s\<lparr>sd_files := fs\<rparr>)"
    using assms by (auto simp: stage_blob_def split: prod.splits sum.splits)
  from encrypt_file_cleans_up [OF this(1)] show ?thesis by (simp add: s' only_path_def hm_get_remove_path)
qed (use assms in \<open>auto simp: stage_blob_def only_path_def hm_get_remove_path\<close>)

lemma stage_blob_ok:
  assumes "stage_blob env input key path s = (Inr info, s')"
  obtains plain blob where "hm_get (si_source input) (sd_files s) = Some plain"
    "write_sealed (se_stream env) (se_sha256 env) (se_io env) (se_prefix env) plain key (se_id env) MAX_SHARE_SIZE = Inr (info, blob)"
    "hm_get path (sd_files s') = Some blob" "sd_shares s' = sd_shares s" "only_path path s s'"
proof -
  obtain fs where e: "encrypt_file (se_stream env) (se_sha256 env) (se_io env) (se_prefix env) (si_source input) path key (se_id env)
      MAX_SHARE_SIZE (sd_files s) = (Inr info, fs)" and s': "s' = s\<lparr>sd_files := fs\<rparr>"
    using assms by (auto simp: stage_blob_def split: option.splits prod.splits sum.splits)
  show ?thesis by (rule encrypt_file_ok [OF e]) (rule that, auto simp: s' only_path_def)
qed

lemma new_share_fields [simp]:
  "sh_id (new_share env input info w p) = se_id env" "sh_requester (new_share env input info w p) = si_requester input"
  "sh_format (new_share env input info w p) = 2" "sh_path (new_share env input info w p) = Some p" "sh_key (new_share env input info w p) = Some w"
  "sh_status (new_share env input info w p) = (if si_requires input then SharePending else ShareApproved)"
  "sh_token (new_share env input info w p) = (if si_requires input then None else Some (mint_token env))"
  by (simp_all add: new_share_def split: prod.splits)

lemma share_submit_failed:
  assumes "share_submit env input s = (Inl e, s')"
  shows "sd_shares s' = sd_shares s \<and> only_path (share_path (se_root env) (se_id env)) s s'
    \<and> (\<not> se_stuck env (share_path (se_root env) (se_id env)) \<longrightarrow> hm_get (share_path (se_root env) (se_id env)) (sd_files s') \<in> {None, hm_get (share_path (se_root env) (se_id env)) (sd_files s)})"
proof -
  consider "s' = s" | key where "stage_blob env input key (share_path (se_root env) (se_id env)) s = (Inl e, s')"
    | key info s1 where "stage_blob env input key (share_path (se_root env) (se_id env)) s = (Inr info, s1)"
        "s' = remove_path env (Some (share_path (se_root env) (se_id env))) s1"
    using assms by (auto simp: share_submit_def and_do_def ensure_staging_path_def Let_def split: option.splits sum.splits prod.splits)
  then show ?thesis
  proof cases
    case 3
    show ?thesis by (rule stage_blob_ok [OF 3(1)]) (simp add: 3(2) only_path_def hm_get_remove_path)
  qed (auto dest: stage_blob_failed simp: only_path_def)
qed

lemma share_submit_ok:
  assumes "share_submit env input s = (Inr o', s')"
  obtains plain key w info blob where "hm_get (si_source input) (sd_files s) = Some plain" "se_data_key env = Inr (key, w)"
    "write_sealed (se_stream env) (se_sha256 env) (se_io env) (se_prefix env) plain key (se_id env) MAX_SHARE_SIZE = Inr (info, blob)"
    "hm_get (share_path (se_root env) (se_id env)) (sd_files s') = Some blob"
    "sd_shares s' = sd_shares s @ [new_share env input info w (share_path (se_root env) (se_id env))]"
    "only_path (share_path (se_root env) (se_id env)) s s'" "so_id o' = se_id env" "so_status o' = (if si_requires input then SharePending else ShareApproved)"
proof -
  from assms obtain key w info s1 where k: "se_data_key env = Inr (key, w)"
    and st: "stage_blob env input key (share_path (se_root env) (se_id env)) s = (Inr info, s1)"
    and s': "s' = share_audit (Some (si_requester input)) ''outbound_share.requested''
        (s1\<lparr>sd_shares := sd_shares s1 @ [new_share env input info w (share_path (se_root env) (se_id env))]\<rparr>)"
    and o': "so_id o' = se_id env" "so_status o' = (if si_requires input then SharePending else ShareApproved)"
    by (auto simp: share_submit_def and_do_def ensure_staging_path_def Let_def split: option.splits sum.splits prod.splits)
  show ?thesis by (rule stage_blob_ok [OF st]) (rule that [OF _ k], auto simp: s' o' only_path_def)
qed

text \<open>What was uploaded: the content of the file field.\<close>

fun upload_content :: "(str + form_field) list \<Rightarrow> bytes" where
  "upload_content [] = []"
| "upload_content (Inl e # fs) = upload_content fs"
| "upload_content (Inr f # fs) = (if ff_name f = Some ''file'' then concat (oks (ff_chunks f)) else upload_content fs)"

text \<open>What parsing leaves: the temporary file with the content of the file field, or nothing.\<close>

lemma write_chunks_ok: "write_chunks env k written cs = Inr content \<Longrightarrow> content = written @ concat (oks cs)"
  by (induction env k written cs rule: write_chunks.induct) (auto split: option.splits if_splits)

lemma file_field_ok:
  "file_field env f p s = (Inr p', s') \<Longrightarrow> pf_file p = None \<and> pf_file p' \<noteq> None
    \<and> s' = s\<lparr>sd_files := hm_insert (re_temp env) (concat (oks (ff_chunks f))) (sd_files s)\<rparr>"
  by (cases "pf_file p") (auto simp: file_field_def split: option.splits if_splits sum.splits dest: write_chunks_ok)

lemma form_step_cases:
  assumes "form_step env f p s = (r, s')"
  shows "(ff_name f = Some ''file'' \<and> file_field env f p s = (r, s'))
    \<or> (ff_name f \<noteq> Some ''file'' \<and> s' = s \<and> (\<forall>p'. r = Inr p' \<longrightarrow> pf_file p' = pf_file p))"
  using assms by (auto simp: form_step_def Let_def split: option.splits if_splits sum.splits)

lemma form_step_failed: "form_step env f p s = (Inl e, s') \<Longrightarrow> sd_shares s' = sd_shares s \<and> only_path (re_temp env) s s'"
  by (drule form_step_cases) (auto simp: only_path_def file_field_def split: option.splits if_splits sum.splits)

lemma parse_fields_failed:
  "parse_fields env fs p s = (Inl e, s') \<Longrightarrow> sd_shares s' = sd_shares s \<and> only_path (re_temp env) s s'"
proof (induction env fs p s rule: parse_fields.induct)
  case (3 env f fs p s)
  obtain r s1 where step: "form_step env f p s = (r, s1)" by fastforce
  show ?case
  proof (cases r)
    case (Inr p')
    then have "sd_shares s1 = sd_shares s \<and> only_path (re_temp env) s s1"
      using form_step_cases [OF step] by (auto simp: only_path_def dest: file_field_ok)
    moreover have "sd_shares s' = sd_shares s1 \<and> only_path (re_temp env) s1 s'" using 3 step Inr by (simp add: and_do_def)
    ultimately show ?thesis by (simp add: only_path_def)
  qed (use 3 step form_step_failed in \<open>auto simp: and_do_def\<close>)
qed (auto simp: only_path_def)

lemma parse_fields_again: "parse_fields env fs p s = (Inr p', s') \<Longrightarrow> pf_file p \<noteq> None \<Longrightarrow> s' = s \<and> pf_file p' = pf_file p"
proof (induction env fs p s rule: parse_fields.induct)
  case (3 env f fs p s)
  obtain r s1 where step: "form_step env f p s = (r, s1)" by fastforce
  with 3(2) obtain p1 where r: "r = Inr p1" "parse_fields env fs p1 s1 = (Inr p', s')" by (auto simp: and_do_def split: sum.splits)
  have "s1 = s" "pf_file p1 = pf_file p" using form_step_cases [OF step] r(1) 3(3) by (auto dest: file_field_ok)
  then show ?case using 3(1) [of p1 s1] 3(3) r by simp
qed auto

lemma parse_fields_ok:
  "parse_fields env fs p s = (Inr p', s') \<Longrightarrow> pf_file p = None \<Longrightarrow>
    (if pf_file p' = None then s' = s
     else s' = s\<lparr>sd_files := hm_insert (re_temp env) (upload_content fs) (sd_files s)\<rparr>)"
proof (induction env fs p s rule: parse_fields.induct)
  case (3 env f fs p s)
  obtain r s1 where step: "form_step env f p s = (r, s1)" by fastforce
  with 3(2) obtain p1 where r: "r = Inr p1" "parse_fields env fs p1 s1 = (Inr p', s')" by (auto simp: and_do_def split: sum.splits)
  show ?case
  proof (cases "ff_name f = Some ''file''")
    case True
    then have f: "file_field env f p s = (Inr p1, s1)" using form_step_cases [OF step] r(1) by auto
    show ?thesis using file_field_ok [OF f] parse_fields_again [OF r(2)] True by auto
  next
    case False
    then show ?thesis using form_step_cases [OF step] r 3(1) [of p1 s1] 3(3) step by (auto simp: and_do_def)
  qed
qed auto

lemma parse_multipart_ok:
  assumes "parse_outbound_multipart env actor fs s = (Inr p, s')"
  shows "sd_shares s' = sd_shares s \<and> only_path (re_temp env) s s' \<and> hm_get (re_temp env) (sd_files s') = Some (upload_content fs)"
proof -
  obtain q where "parse_fields env fs empty_form s = (Inr q, s')" "pf_file q \<noteq> None"
    using assms by (auto simp: parse_outbound_multipart_def Let_def split: prod.splits sum.splits option.splits if_splits)
  from parse_fields_ok [OF this(1)] this(2) show ?thesis by (auto simp: empty_form_def only_path_def)
qed

lemma parse_multipart_failed:
  assumes "parse_outbound_multipart env actor fs s = (Inl e, s')"
  shows "sd_shares s' = sd_shares s \<and> only_path (re_temp env) s s'
    \<and> (\<not> se_stuck (re_share env) (re_temp env) \<longrightarrow> hm_get (re_temp env) (sd_files s') \<in> {None, hm_get (re_temp env) (sd_files s)})"
proof -
  obtain r s1 where f: "parse_fields env fs empty_form s = (r, s1)" by fastforce
  show ?thesis
  proof (cases r)
    case (Inl e')
    then show ?thesis using assms f parse_fields_failed [of env fs empty_form s e' s1]
      by (auto simp: parse_outbound_multipart_def drop_temp_def only_path_def hm_get_remove_path)
  next
    case (Inr q)
    with f have "if pf_file q = None then s1 = s else s1 = s\<lparr>sd_files := hm_insert (re_temp env) (upload_content fs) (sd_files s)\<rparr>"
      using parse_fields_ok by (fastforce simp: empty_form_def)
    then show ?thesis using assms f Inr
      by (auto simp: parse_outbound_multipart_def drop_temp_def only_path_def hm_get_remove_path Let_def split: option.splits if_splits prod.splits)
  qed
qed

text \<open>The outcome of a submission: the row and its sealed blob, from the file at the source.\<close>

definition stored :: "share_env \<Rightarrow> bytes \<Rightarrow> bool \<Rightarrow> bytes \<Rightarrow> share_db \<Rightarrow> share_db \<Rightarrow> bool" where
  "stored env user requires plain s s' \<longleftrightarrow>
    (\<exists>input key w info blob. si_requester input = user \<and> si_requires input = requires \<and> se_data_key env = Inr (key, w)
      \<and> write_sealed (se_stream env) (se_sha256 env) (se_io env) (se_prefix env) plain key (se_id env) MAX_SHARE_SIZE = Inr (info, blob)
      \<and> sd_shares s' = sd_shares s @ [new_share env input info w (share_path (se_root env) (se_id env))]
      \<and> hm_get (share_path (se_root env) (se_id env)) (sd_files s') = Some blob)"

definition only_paths :: "str set \<Rightarrow> share_db \<Rightarrow> share_db \<Rightarrow> bool" where
  "only_paths paths s s' \<longleftrightarrow> (\<forall>p. p \<notin> paths \<longrightarrow> hm_get p (sd_files s') = hm_get p (sd_files s))"

lemma finalize_failed:
  assumes "finalize_submit env user session connection justification name ct source v b s = (Inl e, s')"
  shows "sd_shares s' = sd_shares s \<and> only_path (share_path (se_root (re_share env)) (se_id (re_share env))) s s'
    \<and> (\<not> se_stuck (re_share env) (share_path (se_root (re_share env)) (se_id (re_share env))) \<longrightarrow>
         hm_get (share_path (se_root (re_share env)) (se_id (re_share env))) (sd_files s')
           \<in> {None, hm_get (share_path (se_root (re_share env)) (se_id (re_share env))) (sd_files s)})"
  using assms share_submit_failed
  by (auto simp: finalize_submit_def and_do_def Let_def only_path_def split: sum.splits prod.splits)

lemma finalize_ok:
  assumes "finalize_submit env user session connection justification name ct source v b s = (Inr resp, s')"
    and "hm_get source (sd_files s) = Some plain"
  shows "stored (re_share env) user (requires_approval user s) plain s s' \<and> rp_id resp = se_id (re_share env)
    \<and> rp_status resp = share_status_str (if requires_approval user s then SharePending else ShareApproved)
    \<and> only_path (share_path (se_root (re_share env)) (se_id (re_share env))) s s'"
proof -
  let ?input = "\<lparr>si_requester = user, si_session = session, si_connection = connection, si_filename = name, si_content_type = ct,
    si_justification = justification, si_source = source, si_requires = requires_approval user s, si_verdict = v, si_backend = b\<rparr>"
  obtain o' where sub: "share_submit (re_share env) ?input s = (Inr o', s')" and resp: "rp_id resp = so_id o'" "rp_status resp = share_status_str (so_status o')"
    using assms(1) by (auto simp: finalize_submit_def and_do_def Let_def split: sum.splits prod.splits)
  show ?thesis
    by (rule share_submit_ok [OF sub], unfold stored_def, intro conjI exI [of _ ?input]) (use assms(2) resp in auto)
qed

lemma requires_approval_users: "sd_users s' = sd_users s \<Longrightarrow> requires_approval user s' = requires_approval user s"
  by (simp add: requires_approval_def)

definition blob_path :: "route_env \<Rightarrow> str" where
  "blob_path env = share_path (se_root (re_share env)) (se_id (re_share env))"

definition kept_or_gone :: "route_env \<Rightarrow> str \<Rightarrow> share_db \<Rightarrow> share_db \<Rightarrow> bool" where
  "kept_or_gone env p s s' \<longleftrightarrow> \<not> se_stuck (re_share env) p \<longrightarrow> hm_get p (sd_files s') \<in> {None, hm_get p (sd_files s)}"

lemma stored_drop_temp:
  assumes "stored (re_share env) user b plain s s'" "re_temp env \<noteq> blob_path env"
  shows "stored (re_share env) user b plain s (drop_temp env s')"
proof -
  have "sd_shares (drop_temp env s') = sd_shares s'" "hm_get (blob_path env) (sd_files (drop_temp env s')) = hm_get (blob_path env) (sd_files s')"
    using assms(2) by (auto simp: drop_temp_def hm_get_remove_path)
  then show ?thesis using assms(1) unfolding stored_def blob_path_def by metis
qed

lemma stored_before: "stored env user b plain s1 s' \<Longrightarrow> sd_shares s1 = sd_shares s \<Longrightarrow> stored env user b plain s s'"
  unfolding stored_def by metis

lemma stored_after:
  "stored env user b plain s s1 \<Longrightarrow> sd_shares s' = sd_shares s1 \<Longrightarrow> sd_files s' = sd_files s1 \<Longrightarrow> stored env user b plain s s'"
  unfolding stored_def by metis

lemma upload_outcome:
  assumes "and_do (parse_outbound_multipart env actor fs s) (\<lambda>p s. submit_parsed env user (f p) (g p) (k p) p s) = (r, s')"
    and "re_temp env \<noteq> blob_path env"
  shows "only_paths {re_temp env, blob_path env} s s' \<and> kept_or_gone env (re_temp env) s s'
    \<and> (case r of
         Inr resp \<Rightarrow> stored (re_share env) user (requires_approval user s) (upload_content fs) s s' \<and> rp_id resp = se_id (re_share env)
           \<and> rp_status resp = share_status_str (if requires_approval user s then SharePending else ShareApproved)
       | Inl _ \<Rightarrow> sd_shares s' = sd_shares s \<and> kept_or_gone env (blob_path env) s s')"
proof -
  obtain r1 s1 where parse: "parse_outbound_multipart env actor fs s = (r1, s1)" by fastforce
  show ?thesis
  proof (cases r1)
    case Inl
    then show ?thesis using assms parse parse_multipart_failed [of env actor fs s _ s1]
      by (auto simp: only_paths_def only_path_def kept_or_gone_def)
  next
    case (Inr p)
    then have p: "sd_shares s1 = sd_shares s" "only_path (re_temp env) s s1" "hm_get (re_temp env) (sd_files s1) = Some (upload_content fs)"
      using parse parse_multipart_ok by blast+
    obtain r2 s2 where fin: "finalize_submit env user (f p) (g p) (k p) (pu_filename p) (pu_content_type p) (re_temp env) (pu_verdict p)
        (pu_backend p) s1 = (r2, s2)" by fastforce
    then have r: "r = r2" "s' = drop_temp env s2" using assms(1) parse Inr by (auto simp: submit_parsed_def)
    have req: "requires_approval user s1 = requires_approval user s" using p(2) requires_approval_users [of s1 s] by (auto simp: only_path_def)
    show ?thesis
    proof (cases r2)
      case (Inl e)
      note failed = finalize_failed [OF fin [unfolded Inl]]
      show ?thesis using failed p r Inl assms(2)
        by (auto simp: only_paths_def only_path_def kept_or_gone_def drop_temp_def hm_get_remove_path blob_path_def)
    next
      case (Inr resp)
      note ok = finalize_ok [OF fin [unfolded Inr] p(3)]
      from ok have "stored (re_share env) user (requires_approval user s) (upload_content fs) s1 s2" unfolding req by blast
      from stored_drop_temp [OF stored_before [OF this p(1)] assms(2)]
      have "stored (re_share env) user (requires_approval user s) (upload_content fs) s s'" unfolding r(2) .
      moreover have "only_paths {re_temp env, blob_path env} s s'" "kept_or_gone env (re_temp env) s s'"
        using ok p(2) r(2) by (auto simp: only_paths_def only_path_def kept_or_gone_def drop_temp_def hm_get_remove_path blob_path_def)
      ultimately show ?thesis using ok Inr r(1) req by simp
    qed
  qed
qed

end
