(* ===== verification/Share_Safety.thy ===== *)
theory Share_Safety
  imports Share_Uploads
begin

text \<open>
  Outbound shares over time: a history records what was requested, decided, released and handed over, and an inductive
  relation lets the handlers, the purge and changes of users and other files follow each other in any order, with handlers
  interrupted after their transaction.
\<close>

section \<open>Histories\<close>

text \<open>
  A request with its file and whether the requester was exempt from approval then; a decision with the decider, whether a
  super-administrator, whether listed as approver; a release over the link with the caller, whether an administrator, and
  what was sent; and the hand-over of an admitted file in the session.
\<close>

datatype share_event =
  Requested bytes bytes bytes bool
| Decided bytes bytes bool bool bool
| Released bytes bytes bool download_body
| Admitted bytes
| HandedOver bytes

definition requested_ids :: "share_event list \<Rightarrow> bytes list" where
  "requested_ids h = concat (map (\<lambda>e. case e of Requested i _ _ _ \<Rightarrow> [i] | _ \<Rightarrow> []) h)"

definition released_ids :: "share_event list \<Rightarrow> bytes list" where
  "released_ids h = concat (map (\<lambda>e. case e of Released i _ _ _ \<Rightarrow> [i] | _ \<Rightarrow> []) h)"

lemma ids_simps [simp]:
  "requested_ids [] = []" "requested_ids (h @ h') = requested_ids h @ requested_ids h'"
  "requested_ids [Requested i u p b] = [i]" "requested_ids [Decided i a x y z] = []" "requested_ids [Released i c d body] = []"
  "requested_ids [Admitted i] = []" "requested_ids [HandedOver i] = []"
  "released_ids [] = []" "released_ids (h @ h') = released_ids h @ released_ids h'"
  "released_ids [Requested i u p b] = []" "released_ids [Decided i a x y z] = []" "released_ids [Released i c d body] = [i]"
  "released_ids [Admitted i] = []" "released_ids [HandedOver i] = []"
  by (simp_all add: requested_ids_def released_ids_def)

lemma requested_in: "Requested i u p b \<in> set h \<Longrightarrow> i \<in> set (requested_ids h)"
  by (force simp: requested_ids_def)

section \<open>Steps\<close>

text \<open>What the environments of all calls share, and what is fresh in a call that creates a share.\<close>

definition share_laws :: "stream_aead \<Rightarrow> (bytes \<Rightarrow> bytes) \<Rightarrow> str \<Rightarrow> share_env \<Rightarrow> bool" where
  "share_laws st unwrapped root env \<longleftrightarrow>
     se_stream env = st \<and> se_root env = root \<and> length (se_prefix env) = PREFIX
   \<and> (\<forall>k w. se_data_key env = Inr (k, w) \<longrightarrow> unwrapped w = k) \<and> (\<forall>k w. se_unwrap env w = Inr k \<longrightarrow> k = unwrapped w)"

definition apart :: "str \<Rightarrow> str \<Rightarrow> bool" where
  "apart root path \<longleftrightarrow> (\<forall>i. path \<noteq> share_path root i)"

lemma apart_neq [simp]: "apart root path \<Longrightarrow> share_path root i \<noteq> path"
  by (auto simp: apart_def)

definition fresh_share :: "share_env \<Rightarrow> share_event list \<Rightarrow> bool" where
  "fresh_share env h \<longleftrightarrow> se_id env \<notin> set (requested_ids h)"

text \<open>Files may change unless a share in the table owns them.\<close>

definition files_kept :: "str \<Rightarrow> share_db \<Rightarrow> file_system \<Rightarrow> bool" where
  "files_kept root s fs \<longleftrightarrow> (\<forall>r \<in> set (sd_shares s). hm_get (share_path root (sh_id r)) fs = hm_get (share_path root (sh_id r)) (sd_files s))"

inductive share_reach :: "stream_aead \<Rightarrow> (bytes \<Rightarrow> bytes) \<Rightarrow> str \<Rightarrow> share_db \<Rightarrow> share_event list \<Rightarrow> bool"
  for st :: stream_aead and unwrapped :: "bytes \<Rightarrow> bytes" and root :: str where
  start: "sd_shares s = [] \<Longrightarrow> share_reach st unwrapped root s []"
| outside: "share_reach st unwrapped root s h \<Longrightarrow> files_kept root s fs \<Longrightarrow>
    share_reach st unwrapped root (s\<lparr>sd_users := us, sd_files := fs\<rparr>) h"
| submitting: "share_reach st unwrapped root s h \<Longrightarrow> share_laws st unwrapped root (re_share env) \<Longrightarrow> fresh_share (re_share env) h \<Longrightarrow>
    apart root (re_temp env) \<Longrightarrow> submit_route env user body_fields s = (r, s') \<Longrightarrow>
    share_reach st unwrapped root s' (h @ (case r of
      Inr resp \<Rightarrow> [Requested (rp_id resp) (au_id user) (upload_content body_fields) (\<not> requires_approval (au_id user) s)] | Inl _ \<Rightarrow> []))"
| minting: "share_reach st unwrapped root s h \<Longrightarrow> issue_ingest_token env user session connection justification s = (r, s') \<Longrightarrow>
    share_reach st unwrapped root s' h"
| ingesting: "share_reach st unwrapped root s h \<Longrightarrow> share_laws st unwrapped root (re_share env) \<Longrightarrow> fresh_share (re_share env) h \<Longrightarrow>
    apart root (re_temp env) \<Longrightarrow> ingest_consume (re_share env) token s = (Inr ctx, s1) \<Longrightarrow> ingest_via_token env token body_fields s = (r, s') \<Longrightarrow>
    share_reach st unwrapped root s' (h @ (case r of
      Inr resp \<Rightarrow> [Requested (rp_id resp) (ig_user ctx) (upload_content body_fields) (\<not> requires_approval (ig_user ctx) s)] | Inl _ \<Rightarrow> []))"
| admitting: "share_reach st unwrapped root s h \<Longrightarrow> share_laws st unwrapped root (re_share env) \<Longrightarrow> fresh_share (re_share env) h \<Longrightarrow>
    apart root staged \<Longrightarrow> hm_get staged (sd_files s) = Some plain \<Longrightarrow> admit_download_submit env g staged name s = (r, s') \<Longrightarrow>
    share_reach st unwrapped root s' (h
      @ (if length (sd_shares s') > length (sd_shares s) then [Requested (se_id (re_share env)) (pg_user g) plain (\<not> requires_approval (pg_user g) s)] else [])
      @ (case r of Inr i \<Rightarrow> [Admitted i] | Inl _ \<Rightarrow> []))"
| handing_over: "share_reach st unwrapped root s h \<Longrightarrow> Admitted i \<in> set h \<Longrightarrow>
    share_reach st unwrapped root (mark_delivered env i s) (h @ [HandedOver i])"
| deciding: "share_reach st unwrapped root s h \<Longrightarrow> decide_route env user i approve reason s = (r, s') \<Longrightarrow>
    share_reach st unwrapped root s' (h @ (case r of
      Inr _ \<Rightarrow> [Decided i (au_id user) (can_manage_system (au_perms user)) (is_outbound_approver (au_id user) s) approve] | Inl _ \<Rightarrow> []))"
| interrupted: "share_reach st unwrapped root s h \<Longrightarrow> decide_tx env input s = (Inr row, s') \<Longrightarrow>
    share_reach st unwrapped root s'
      (h @ [Decided (di_share input) (di_approver input) (di_super_admin input) (is_outbound_approver (di_approver input) s) (di_approve input)])"
| downloading: "share_reach st unwrapped root s h \<Longrightarrow> share_laws st unwrapped root (re_share env) \<Longrightarrow>
    consume_download_token (re_share env) token (au_id user) (can_manage_system (au_perms user)) s = (Inr mat, s1) \<Longrightarrow>
    download_route env ok_header build_error user token s = (r, s') \<Longrightarrow>
    share_reach st unwrapped root s' (h @ (case r of
      Inr resp \<Rightarrow> [Released (sh_id (dm_share mat)) (au_id user) (can_manage_system (au_perms user)) (dr_body resp)] | Inl _ \<Rightarrow> []))"
| purging: "share_reach st unwrapped root s h \<Longrightarrow> purge_route env user i s = (r, s') \<Longrightarrow> share_reach st unwrapped root s' h"
| sweeping: "share_reach st unwrapped root s h \<Longrightarrow> purge_expired env s = (n, s') \<Longrightarrow> share_reach st unwrapped root s' h"
| delegating: "share_reach st unwrapped root s h \<Longrightarrow> add_approver_route env user other s = (r, s') \<Longrightarrow> share_reach st unwrapped root s' h"
| revoking: "share_reach st unwrapped root s h \<Longrightarrow> remove_approver_route env user other s = (r, s') \<Longrightarrow> share_reach st unwrapped root s' h"

section \<open>The invariant\<close>

definition authorised :: "share_event list \<Rightarrow> bytes \<Rightarrow> bool \<Rightarrow> bool" where
  "authorised h i bypass \<longleftrightarrow> bypass \<or> (\<exists>a super listed. Decided i a super listed True \<in> set h \<and> (super \<or> listed))"

definition sealed_as :: "stream_aead \<Rightarrow> bytes \<Rightarrow> bytes \<Rightarrow> bytes \<Rightarrow> bytes \<Rightarrow> bool" where
  "sealed_as st key i plain blob \<longleftrightarrow>
    (\<exists>sha256 io nonce limit info. length nonce = PREFIX \<and> write_sealed st sha256 io nonce plain key i limit = Inr (info, blob))"

definition share_live :: "outbound_share \<Rightarrow> bool" where
  "share_live r \<longleftrightarrow> sh_status r = SharePending \<or> sh_status r = ShareApproved"

definition row_ok :: "stream_aead \<Rightarrow> (bytes \<Rightarrow> bytes) \<Rightarrow> str \<Rightarrow> file_system \<Rightarrow> share_event list \<Rightarrow> outbound_share \<Rightarrow> bool" where
  "row_ok st unwrapped root fs h r \<longleftrightarrow>
     (\<exists>plain bypass. Requested (sh_id r) (sh_requester r) plain bypass \<in> set h
       \<and> (sh_status r = ShareApproved \<longrightarrow> authorised h (sh_id r) bypass)
       \<and> (\<forall>w blob. sh_key r = Some w \<longrightarrow> hm_get (share_path root (sh_id r)) fs = Some blob \<longrightarrow> sealed_as st (unwrapped w) (sh_id r) plain blob))
   \<and> sh_format r = 2 \<and> (\<forall>p. sh_path r = Some p \<longrightarrow> p = share_path root (sh_id r))
   \<and> (sh_token r \<noteq> None \<longrightarrow> sh_status r = ShareApproved) \<and> (share_live r \<longrightarrow> sh_id r \<notin> set (released_ids h))"

definition release_ok :: "share_event list \<Rightarrow> bytes \<Rightarrow> bytes \<Rightarrow> bool \<Rightarrow> download_body \<Rightarrow> bool" where
  "release_ok h i caller admin body \<longleftrightarrow>
    (\<exists>user plain bypass items. Requested i user plain bypass \<in> set h \<and> (caller = user \<or> admin) \<and> authorised h i bypass
      \<and> body = Streamed items \<and> prefix (concat (oks items)) plain \<and> (list_all is_ok items \<longrightarrow> concat (oks items) = plain))"

text \<open>Each release is justified by what came before it.\<close>

fun releases_ok :: "share_event list \<Rightarrow> share_event list \<Rightarrow> bool" where
  "releases_ok before [] = True"
| "releases_ok before (e # es) =
    ((case e of Released i c a body \<Rightarrow> release_ok before i c a body | _ \<Rightarrow> True) \<and> releases_ok (before @ [e]) es)"

lemma releases_ok_append: "releases_ok before (h @ h') \<longleftrightarrow> releases_ok before h \<and> releases_ok (before @ h) h'"
  by (induction before h rule: releases_ok.induct) auto

definition share_inv :: "stream_aead \<Rightarrow> (bytes \<Rightarrow> bytes) \<Rightarrow> str \<Rightarrow> share_db \<Rightarrow> share_event list \<Rightarrow> bool" where
  "share_inv st unwrapped root s h \<longleftrightarrow>
     distinct (map sh_id (sd_shares s)) \<and> distinct (requested_ids h) \<and> distinct (released_ids h)
   \<and> (\<forall>r \<in> set (sd_shares s). row_ok st unwrapped root (sd_files s) h r)
   \<and> releases_ok [] h
   \<and> (\<forall>i. Admitted i \<in> set h \<or> HandedOver i \<in> set h \<longrightarrow> (\<exists>u p. Requested i u p True \<in> set h))"

lemma authorised_mono: "authorised h i b \<Longrightarrow> authorised (h @ h') i b"
  by (auto simp: authorised_def)

lemma authorised_later: "authorised h' i False \<Longrightarrow> authorised (h @ h') i b"
  by (auto simp: authorised_def)

lemma release_ok_mono:
  assumes "release_ok h i c a body"
  shows "release_ok (h @ h') i c a body"
proof -
  obtain user plain bypass items where "Requested i user plain bypass \<in> set h" "c = user \<or> a" "authorised h i bypass"
    "body = Streamed items" "prefix (concat (oks items)) plain" "list_all is_ok items \<longrightarrow> concat (oks items) = plain"
    using assms unfolding release_ok_def by blast
  then show ?thesis unfolding release_ok_def
    by (intro exI [of _ user] exI [of _ plain] exI [of _ bypass] exI [of _ items]) (simp add: authorised_mono)
qed

lemma releases_ok_in: "releases_ok before h \<Longrightarrow> Released i c a body \<in> set h \<Longrightarrow> release_ok (before @ h) i c a body"
proof (induction before h rule: releases_ok.induct)
  case (2 before e es)
  then show ?case using release_ok_mono [of before i c a body "e # es"] by (auto split: share_event.splits)
qed simp

text \<open>How a step may change a row: not at all, by an approval, or by a step that ends its life and takes its link.\<close>

definition kept_row :: "share_event list \<Rightarrow> outbound_share \<Rightarrow> outbound_share \<Rightarrow> bool" where
  "kept_row h' r r' \<longleftrightarrow> r' = r \<and> (share_live r \<longrightarrow> sh_id r \<notin> set (released_ids h'))"

definition approved_row :: "share_event list \<Rightarrow> outbound_share \<Rightarrow> outbound_share \<Rightarrow> bool" where
  "approved_row h' r r' \<longleftrightarrow>
     sh_status r = SharePending \<and> sh_id r' = sh_id r \<and> sh_requester r' = sh_requester r \<and> sh_format r' = sh_format r
   \<and> sh_key r' = sh_key r \<and> sh_path r' = sh_path r \<and> sh_status r' = ShareApproved \<and> released_ids h' = [] \<and> authorised h' (sh_id r) False"

definition ended_row :: "outbound_share \<Rightarrow> outbound_share \<Rightarrow> bool" where
  "ended_row r r' \<longleftrightarrow>
     sh_id r' = sh_id r \<and> sh_requester r' = sh_requester r \<and> sh_format r' = sh_format r \<and> \<not> share_live r' \<and> sh_token r' = None
   \<and> (sh_key r' = None \<or> sh_key r' = sh_key r) \<and> (sh_path r' = None \<or> sh_path r' = sh_path r)"

definition row_step :: "share_event list \<Rightarrow> outbound_share \<Rightarrow> outbound_share \<Rightarrow> bool" where
  "row_step h' r r' \<longleftrightarrow> kept_row h' r r' \<or> approved_row h' r r' \<or> ended_row r r'"

definition none_added :: "str \<Rightarrow> file_system \<Rightarrow> file_system \<Rightarrow> bytes \<Rightarrow> bool" where
  "none_added root fs fs' i \<longleftrightarrow> (\<forall>blob. hm_get (share_path root i) fs' = Some blob \<longrightarrow> hm_get (share_path root i) fs = Some blob)"

lemma row_ok_step:
  assumes "row_ok st unwrapped root fs h r" "row_step h' r r'" "none_added root fs fs' (sh_id r)"
  shows "row_ok st unwrapped root fs' (h @ h') r'"
proof -
  from assms(1) obtain plain bypass where p: "Requested (sh_id r) (sh_requester r) plain bypass \<in> set h"
    "sh_status r = ShareApproved \<longrightarrow> authorised h (sh_id r) bypass"
    "\<forall>w blob. sh_key r = Some w \<longrightarrow> hm_get (share_path root (sh_id r)) fs = Some blob \<longrightarrow> sealed_as st (unwrapped w) (sh_id r) plain blob"
    by (auto simp: row_ok_def)
  have same: "sh_id r' = sh_id r" "sh_requester r' = sh_requester r" "sh_format r' = sh_format r"
    using assms(2) by (auto simp: row_step_def kept_row_def approved_row_def ended_row_def)
  have auth: "sh_status r' = ShareApproved \<longrightarrow> authorised (h @ h') (sh_id r') bypass"
    using assms(2) p(2) by (auto simp: row_step_def kept_row_def approved_row_def ended_row_def share_live_def intro: authorised_mono authorised_later)
  have sealed: "sealed_as st (unwrapped w) (sh_id r') plain blob" if "sh_key r' = Some w" "hm_get (share_path root (sh_id r')) fs' = Some blob" for w blob
    using assms(2,3) p(3) that by (auto simp: row_step_def kept_row_def approved_row_def ended_row_def none_added_def)
  have path: "p = share_path root (sh_id r')" if "sh_path r' = Some p" for p
    using assms(1,2) that by (auto simp: row_ok_def row_step_def kept_row_def approved_row_def ended_row_def)
  have rest: "sh_format r' = 2" "sh_token r' \<noteq> None \<longrightarrow> sh_status r' = ShareApproved" "share_live r' \<longrightarrow> sh_id r' \<notin> set (released_ids (h @ h'))"
    using assms(1,2) by (auto simp: row_ok_def row_step_def kept_row_def approved_row_def ended_row_def share_live_def)
  show ?thesis unfolding row_ok_def using p(1) auth sealed path rest same by (simp, blast)
qed

lemma share_inv_step:
  assumes "share_inv st unwrapped root s h" "distinct (map sh_id (sd_shares s'))"
    and "\<And>r'. r' \<in> set (sd_shares s') \<Longrightarrow> \<exists>r \<in> set (sd_shares s). row_step h' r r' \<and> none_added root (sd_files s) (sd_files s') (sh_id r)"
    and "requested_ids h' = []" "distinct (released_ids h')" "set (released_ids h) \<inter> set (released_ids h') = {}"
    and "releases_ok h h'"
    and "\<And>i. Admitted i \<in> set h' \<or> HandedOver i \<in> set h' \<Longrightarrow> \<exists>u p. Requested i u p True \<in> set h"
  shows "share_inv st unwrapped root s' (h @ h')"
proof -
  have "row_ok st unwrapped root (sd_files s') (h @ h') r'" if "r' \<in> set (sd_shares s')" for r'
    using assms(1) assms(3) [OF that] row_ok_step unfolding share_inv_def by blast
  moreover have "releases_ok [] (h @ h')" using assms(1,7) by (simp add: share_inv_def releases_ok_append)
  moreover have "\<exists>u p. Requested i u p True \<in> set (h @ h')" if "Admitted i \<in> set (h @ h') \<or> HandedOver i \<in> set (h @ h')" for i
    using that assms(1) assms(8) [of i] unfolding share_inv_def by (metis Un_iff set_append)
  ultimately show ?thesis using assms(1,2,4,5,6) unfolding share_inv_def by simp
qed

text \<open>A step without effect on shares, and one that adds a share.\<close>

lemma inv_same:
  assumes "share_inv st unwrapped root s h" "sd_shares s' = sd_shares s"
    and "\<And>r. r \<in> set (sd_shares s) \<Longrightarrow> hm_get (share_path root (sh_id r)) (sd_files s') = hm_get (share_path root (sh_id r)) (sd_files s)"
  shows "share_inv st unwrapped root s' h"
  using share_inv_step [of st unwrapped root s h s' "[]"] assms
  by (auto simp: share_inv_def row_step_def kept_row_def none_added_def)

lemma row_requested:
  assumes "share_inv st unwrapped root s h" "r \<in> set (sd_shares s)"
  shows "sh_id r \<in> set (requested_ids h)"
  using assms requested_in unfolding share_inv_def row_ok_def by blast

lemma release_requested: "release_ok h i c a body \<Longrightarrow> i \<in> set (requested_ids h)"
  using requested_in unfolding release_ok_def by blast

lemma released_in: "i \<in> set (released_ids h) \<longleftrightarrow> (\<exists>c a body. Released i c a body \<in> set h)"
  by (induction h) (auto simp: released_ids_def split: share_event.splits)

lemma inv_new:
  assumes inv: "share_inv st unwrapped root s h" and fresh: "i \<notin> set (requested_ids h)" and rows: "sd_shares s' = sd_shares s @ [row]"
    and row: "sh_id row = i" "sh_requester row = u" "sh_format row = 2" "sh_path row = Some (share_path root i)"
      "sh_key row = Some w" "sh_token row \<noteq> None \<longrightarrow> sh_status row = ShareApproved" "sh_status row = ShareApproved \<longrightarrow> b"
    and blob: "hm_get (share_path root i) (sd_files s') = Some blob" "sealed_as st (unwrapped w) i plain blob"
    and kept: "\<And>j. j \<noteq> i \<Longrightarrow> hm_get (share_path root j) (sd_files s') = hm_get (share_path root j) (sd_files s)"
  shows "share_inv st unwrapped root s' (h @ [Requested i u plain b])"
proof -
  let ?h = "h @ [Requested i u plain b]"
  have older: "sh_id r \<noteq> i" if "r \<in> set (sd_shares s)" for r using row_requested [OF inv that] fresh by metis
  have "i \<notin> set (released_ids h)"
    using inv fresh release_requested releases_ok_in [of "[]" h] unfolding share_inv_def released_in by (metis append_Nil)
  then have "row_ok st unwrapped root (sd_files s') ?h row"
    unfolding row_ok_def using row blob by (intro conjI exI [of _ plain] exI [of _ b]) (auto simp: authorised_def)
  moreover have "row_ok st unwrapped root (sd_files s') ?h r" if "r \<in> set (sd_shares s)" for r
    using row_ok_step [of st unwrapped root "sd_files s" h r "[Requested i u plain b]" r "sd_files s'"] inv that older kept
    by (simp add: share_inv_def row_step_def kept_row_def none_added_def)
  moreover have "releases_ok [] ?h" using inv by (simp add: share_inv_def releases_ok_append)
  moreover have "\<exists>u p. Requested j u p True \<in> set ?h" if "Admitted j \<in> set ?h \<or> HandedOver j \<in> set ?h" for j
  proof -
    have "Admitted j \<in> set h \<or> HandedOver j \<in> set h" using that by simp
    then obtain u p where "Requested j u p True \<in> set h" using inv unfolding share_inv_def by blast
    then show ?thesis by auto
  qed
  moreover have "distinct (map sh_id (sd_shares s'))" using inv older rows row(1) by (fastforce simp: share_inv_def)
  ultimately show ?thesis using inv fresh rows unfolding share_inv_def by simp
qed

section \<open>Every step keeps the invariant\<close>

lemma inv_stored:
  assumes inv: "share_inv st unwrapped root s h" and laws: "share_laws st unwrapped root env" and fresh: "fresh_share env h"
    and stored: "stored env user requires plain s s'" and kept: "only_paths {temp, share_path root (se_id env)} s s'" "apart root temp"
  shows "share_inv st unwrapped root s' (h @ [Requested (se_id env) user plain (\<not> requires)])"
proof -
  obtain input key w info blob where i: "si_requester input = user" "si_requires input = requires" "se_data_key env = Inr (key, w)"
      "write_sealed (se_stream env) (se_sha256 env) (se_io env) (se_prefix env) plain key (se_id env) MAX_SHARE_SIZE = Inr (info, blob)"
      "sd_shares s' = sd_shares s @ [new_share env input info w (share_path root (se_id env))]"
      "hm_get (share_path root (se_id env)) (sd_files s') = Some blob"
    using stored laws unfolding stored_def share_laws_def by auto
  have "sealed_as st (unwrapped w) (se_id env) plain blob"
    using laws i(3,4) unfolding share_laws_def sealed_as_def
    by (intro exI [of _ "se_sha256 env"] exI [of _ "se_io env"] exI [of _ "se_prefix env"] exI [of _ MAX_SHARE_SIZE] exI [of _ info]) auto
  moreover have "hm_get (share_path root j) (sd_files s') = hm_get (share_path root j) (sd_files s)" if "j \<noteq> se_id env" for j
    using kept that by (simp add: only_paths_def)
  ultimately show ?thesis
    using i(1,2) by (intro inv_new [OF inv fresh [unfolded fresh_share_def] i(5) _ _ _ _ _ _ _ i(6)]) simp_all
qed

lemma inv_not_stored:
  assumes inv: "share_inv st unwrapped root s h" and fresh: "fresh_share env h" and rows: "sd_shares s' = sd_shares s"
    and kept: "only_paths {temp, share_path root (se_id env)} s s'" "apart root temp"
  shows "share_inv st unwrapped root s' h"
proof (rule inv_same [OF inv rows])
  fix r assume "r \<in> set (sd_shares s)"
  then have "sh_id r \<noteq> se_id env" using row_requested [OF inv] fresh unfolding fresh_share_def by metis
  then show "hm_get (share_path root (sh_id r)) (sd_files s') = hm_get (share_path root (sh_id r)) (sd_files s)"
    using kept by (simp add: only_paths_def)
qed

lemma only_paths_same: "sd_files s1 = sd_files s \<Longrightarrow> only_paths ps s1 s' = only_paths ps s s'"
  by (simp add: only_paths_def)

lemma inv_upload:
  assumes inv: "share_inv st unwrapped root s h" and laws: "share_laws st unwrapped root (re_share env)" and fresh: "fresh_share (re_share env) h"
    and apart: "apart root (re_temp env)"
    and step: "and_do (parse_outbound_multipart env actor fs s1) (\<lambda>p s. submit_parsed env user (f p) (g p) (k p) p s) = (r, s')"
    and s1: "sd_shares s1 = sd_shares s" "sd_users s1 = sd_users s" "sd_files s1 = sd_files s"
  shows "share_inv st unwrapped root s' (h @ (case r of
    Inr resp \<Rightarrow> [Requested (rp_id resp) user (upload_content fs) (\<not> requires_approval user s)] | Inl _ \<Rightarrow> []))"
proof -
  have root: "blob_path env = share_path root (se_id (re_share env))" "re_temp env \<noteq> blob_path env"
    using laws apart by (auto simp: blob_path_def share_laws_def apart_def)
  note out = upload_outcome [OF step root(2)]
  have kept: "only_paths {re_temp env, share_path root (se_id (re_share env))} s s'"
    using out only_paths_same [OF s1(3)] unfolding root(1) by blast
  show ?thesis
  proof (cases r)
    case (Inl e)
    then have "sd_shares s' = sd_shares s" using out s1(1) by simp
    from inv_not_stored [OF inv fresh this kept apart] Inl show ?thesis by simp
  next
    case (Inr resp)
    then have "stored (re_share env) user (requires_approval user s) (upload_content fs) s s'" "rp_id resp = se_id (re_share env)"
      using out stored_before s1(1) requires_approval_users [OF s1(2)] by auto
    with inv_stored [OF inv laws fresh this(1) kept apart] Inr show ?thesis by simp
  qed
qed

lemma inv_submitting:
  assumes "share_inv st unwrapped root s h" "share_laws st unwrapped root (re_share env)" "fresh_share (re_share env) h"
    and "apart root (re_temp env)" "submit_route env user fs s = (r, s')"
  shows "share_inv st unwrapped root s' (h @ (case r of
    Inr resp \<Rightarrow> [Requested (rp_id resp) (au_id user) (upload_content fs) (\<not> requires_approval (au_id user) s)] | Inl _ \<Rightarrow> []))"
proof (cases "check_quick_share_outbound_permission user = Inr () \<and> load_pool_vault_and_av env = Inr ()")
  case True
  with assms(5) show ?thesis by (intro inv_upload [OF assms(1-4)]) (auto simp: submit_route_def)
next
  case False
  with assms(5) have "s' = s" "\<exists>e. r = Inl e" by (auto simp: submit_route_def and_do_def split: sum.splits)
  with assms(1) show ?thesis by auto
qed

lemma ingest_consume_tables:
  "ingest_consume env token s = (r, s') \<Longrightarrow> sd_shares s' = sd_shares s \<and> sd_users s' = sd_users s \<and> sd_files s' = sd_files s"
  by (auto simp: ingest_consume_def split: if_splits option.splits)

lemma inv_ingesting:
  assumes "share_inv st unwrapped root s h" "share_laws st unwrapped root (re_share env)" "fresh_share (re_share env) h"
    and "apart root (re_temp env)" "ingest_consume (re_share env) token s = (Inr ctx, s1)" "ingest_via_token env token fs s = (r, s')"
  shows "share_inv st unwrapped root s' (h @ (case r of
    Inr resp \<Rightarrow> [Requested (rp_id resp) (ig_user ctx) (upload_content fs) (\<not> requires_approval (ig_user ctx) s)] | Inl _ \<Rightarrow> []))"
proof -
  note s1 = ingest_consume_tables [OF assms(5)]
  let ?sub = "and_do (parse_outbound_multipart env (Some (ig_user ctx)) fs s1) (\<lambda>p s. submit_parsed env (ig_user ctx)
    (or_else (ig_session ctx) (pf_session (pu_form p))) (or_else (ig_connection ctx) (pf_connection (pu_form p)))
    (or_else (ig_justification ctx) (pf_justification (pu_form p))) p s)"
  consider e where "r = Inl e" "sd_shares s' = sd_shares s" "sd_files s' = sd_files s"
    | s2 where "?sub = (r, s2)" "sd_shares s' = sd_shares s2" "sd_files s' = sd_files s2"
    using assms(5,6) s1
    by (auto simp: ingest_via_token_def and_do_def split: sum.splits prod.splits if_splits)
  then show ?thesis
  proof cases
    case 1
    with inv_same [OF assms(1), of s'] show ?thesis by simp
  next
    case 2
    have "share_inv st unwrapped root s2 (h @ (case r of
        Inr resp \<Rightarrow> [Requested (rp_id resp) (ig_user ctx) (upload_content fs) (\<not> requires_approval (ig_user ctx) s)] | Inl _ \<Rightarrow> []))"
      using s1 by (intro inv_upload [OF assms(1-4) 2(1)]) simp_all
    from inv_same [OF this] 2 show ?thesis by simp
  qed
qed

lemma stored_longer: "stored env user b plain s s' \<Longrightarrow> length (sd_shares s') = length (sd_shares s) + 1"
  by (auto simp: stored_def)

lemma inv_admitted:
  assumes "share_inv st unwrapped root s h" "Requested i u p True \<in> set h"
  shows "share_inv st unwrapped root s (h @ [Admitted i])"
  using assms by (intro share_inv_step [OF assms(1)]) (auto simp: share_inv_def row_step_def kept_row_def none_added_def)

lemma inv_admitting:
  assumes inv: "share_inv st unwrapped root s h" and laws: "share_laws st unwrapped root (re_share env)" and fresh: "fresh_share (re_share env) h"
    and apart: "apart root staged" and plain: "hm_get staged (sd_files s) = Some plain" and step: "admit_download_submit env g staged name s = (r, s')"
  shows "share_inv st unwrapped root s' (h
    @ (if length (sd_shares s') > length (sd_shares s) then [Requested (se_id (re_share env)) (pg_user g) plain (\<not> requires_approval (pg_user g) s)] else [])
    @ (case r of Inr i \<Rightarrow> [Admitted i] | Inl _ \<Rightarrow> []))"
proof -
  obtain v s1 where scan: "gate_scan env g staged s = (v, s1)" by fastforce
  then have s1: "sd_shares s1 = sd_shares s" "sd_users s1 = sd_users s" "sd_files s1 = sd_files s"
    by (auto simp: gate_scan_def Let_def split: if_splits)
  let ?fin = "\<lambda>v. finalize_submit env (pg_user g) (Some (pg_session g)) (Some (pg_connection g))
    (Some (''Downloaded from the session file browser: '' @ name)) (leaf name) ''application/octet-stream'' staged v (backend_tag (re_av env)) s1"
  have root: "share_path (se_root (re_share env)) i = share_path root i" for i using laws by (simp add: share_laws_def)
  consider e where "r = Inl e" "s' = s1" | e v e' where "r = Inl e" "?fin v = (Inl e', s')" | v resp where "?fin v = (Inr resp, s')"
    "r = Inr (rp_id resp) \<longrightarrow> rp_status resp = share_status_str ShareApproved" "\<forall>i. r = Inr i \<longrightarrow> i = rp_id resp"
    using step scan by (auto simp: admit_download_submit_def and_do_def split: sum.splits prod.splits if_splits)
  then show ?thesis
  proof cases
    case 1
    with inv_same [OF inv, of s'] s1 show ?thesis by simp
  next
    case 2
    note failed = finalize_failed [OF 2(2), unfolded root]
    then have "only_paths {staged, share_path root (se_id (re_share env))} s s'" using s1(3) by (simp add: only_paths_def only_path_def)
    with inv_not_stored [OF inv fresh _ _ apart, of s'] failed 2(1) s1(1) show ?thesis by simp
  next
    case 3
    have content: "hm_get staged (sd_files s1) = Some plain" using plain s1(3) by simp
    note ok = finalize_ok [OF 3(1) content, unfolded root]
    have kept: "only_paths {staged, share_path root (se_id (re_share env))} s s'" using ok s1(3) by (simp add: only_paths_def only_path_def)
    have st: "stored (re_share env) (pg_user g) (requires_approval (pg_user g) s) plain s s'"
      using ok stored_before s1(1) requires_approval_users [OF s1(2)] by auto
    note new = inv_stored [OF inv laws fresh st kept apart] and longer = stored_longer [OF st]
    show ?thesis
    proof (cases r)
      case (Inr i)
      then have "i = se_id (re_share env)" "\<not> requires_approval (pg_user g) s"
        using 3(2,3) ok requires_approval_users [OF s1(2)] by (auto simp: share_status_str_def split: if_splits)
      with inv_admitted [OF new, of "se_id (re_share env)" "pg_user g" plain] Inr longer show ?thesis by simp
    qed (use new longer in simp)
  qed
qed

text \<open>Steps that change rows in place.\<close>

lemma map_update_ids: "(\<And>r. sh_id (f r) = sh_id r) \<Longrightarrow> map sh_id (sd_shares (update_share i f s)) = map sh_id (sd_shares s)"
  by (induction "sd_shares s" arbitrary: s) (auto simp: update_share_def)

lemma inv_update:
  assumes inv: "share_inv st unwrapped root s h" and rows: "sd_shares s' = sd_shares (update_share i f s)"
    and same: "\<And>r. sh_id (f r) = sh_id r"
    and f: "\<And>r. r \<in> set (sd_shares s) \<Longrightarrow> sh_id r = i \<Longrightarrow> row_step h' r (f r)"
    and files: "\<And>r. r \<in> set (sd_shares s) \<Longrightarrow> none_added root (sd_files s) (sd_files s') (sh_id r)"
    and h': "requested_ids h' = []" "distinct (released_ids h')" "set (released_ids h') \<subseteq> {i}" "set (released_ids h) \<inter> set (released_ids h') = {}"
      "releases_ok h h'" "\<And>i. Admitted i \<in> set h' \<or> HandedOver i \<in> set h' \<Longrightarrow> \<exists>u p. Requested i u p True \<in> set h"
  shows "share_inv st unwrapped root s' (h @ h')"
proof (rule share_inv_step [OF inv _ _ h'(1,2,4-)])
  show "distinct (map sh_id (sd_shares s'))" using inv map_update_ids [of f, OF same] rows by (simp add: share_inv_def)
next
  fix r' assume "r' \<in> set (sd_shares s')"
  then obtain r where r: "r \<in> set (sd_shares s)" "r' = (if sh_id r = i then f r else r)" using rows by (auto simp: update_share_def)
  then have "row_step h' r r'" using f h'(3) by (auto simp: row_step_def kept_row_def)
  with r files show "\<exists>r \<in> set (sd_shares s). row_step h' r r' \<and> none_added root (sd_files s) (sd_files s') (sh_id r)" by blast
qed

lemma none_added_same [simp]: "none_added root fs fs i"
  by (simp add: none_added_def)

lemma none_added_remove [simp]: "none_added root (sd_files s) (sd_files (remove_path env p s)) i"
  by (auto simp: none_added_def remove_path_def split: option.splits)

lemma inv_handing_over:
  assumes "share_inv st unwrapped root s h" "Admitted i \<in> set h"
  shows "share_inv st unwrapped root (mark_delivered env i s) (h @ [HandedOver i])"
proof -
  have "\<exists>u p. Requested i u p True \<in> set h" using assms unfolding share_inv_def by blast
  then show ?thesis
    by (intro inv_update [OF assms(1) arg_cong [of _ _ sd_shares, OF mark_delivered_def]])
      (auto simp: downloaded_share_def row_step_def kept_row_def ended_row_def share_live_def mark_delivered_def update_share_def)
qed

lemma find_share_in: "find_share i s = Some r \<Longrightarrow> r \<in> set (sd_shares s) \<and> sh_id r = i"
  by (auto simp: find_share_def find_Some_iff)

lemma same_row:
  assumes "share_inv st unwrapped root s h" "r \<in> set (sd_shares s)" "q \<in> set (sd_shares s)" "sh_id r = sh_id q"
  shows "r = q"
  using assms unfolding share_inv_def distinct_map inj_on_def by blast

lemma inv_interrupted:
  assumes inv: "share_inv st unwrapped root s h" and step: "decide_tx env input s = (Inr row, s')"
  shows "share_inv st unwrapped root s'
    (h @ [Decided (di_share input) (di_approver input) (di_super_admin input) (is_outbound_approver (di_approver input) s) (di_approve input)])"
proof -
  have row: "find_share (di_share input) s = Some row" "sh_status row = SharePending"
    and who: "di_super_admin input \<or> is_outbound_approver (di_approver input) s"
    and s': "s' = update_share (di_share input) (decided_share env input) s"
    using step by (auto simp: decide_tx_def split: if_splits option.splits)
  have "row_step [Decided (di_share input) (di_approver input) (di_super_admin input) (is_outbound_approver (di_approver input) s) (di_approve input)]
      r (decided_share env input r)" if "r \<in> set (sd_shares s)" "sh_id r = di_share input" for r
  proof -
    have "r = row" using same_row [OF inv that(1)] find_share_in [OF row(1)] that(2) by metis
    then show ?thesis using row(2) who that(2)
      by (cases "di_approve input") (auto simp: row_step_def approved_row_def ended_row_def decided_share_def authorised_def share_live_def)
  qed
  then show ?thesis by (intro inv_update [OF inv arg_cong [of _ _ sd_shares, OF s']]) (auto simp: s' decided_share_def update_share_def)
qed

lemma inv_remove_path:
  assumes "share_inv st unwrapped root s h"
  shows "share_inv st unwrapped root (remove_path env p s) h"
  using share_inv_step [OF assms, of "remove_path env p s" "[]"] assms by (auto simp: share_inv_def row_step_def kept_row_def)

lemma inv_audit: "share_inv st unwrapped root s h \<Longrightarrow> share_inv st unwrapped root (share_audit u a s) h"
  by (rule inv_same) simp_all

lemma inv_deciding:
  assumes inv: "share_inv st unwrapped root s h" and step: "decide_route env user i approve reason s = (r, s')"
  shows "share_inv st unwrapped root s' (h @ (case r of
    Inr _ \<Rightarrow> [Decided i (au_id user) (can_manage_system (au_perms user)) (is_outbound_approver (au_id user) s) approve] | Inl _ \<Rightarrow> []))"
proof -
  let ?input = "\<lparr>di_share = i, di_approver = au_id user, di_approve = approve, di_reason = reason, di_super_admin = can_manage_system (au_perms user)\<rparr>"
  consider e where "r = Inl e" "s' = s" | x row s1 where "r = Inr x" "decide_tx (re_share env) ?input s = (Inr row, s1)"
      "s' = share_audit (Some (au_id user)) ''outbound_share.decided'' (if approve then s1 else remove_path (re_share env) (sh_path row) s1)"
    using step
    by (auto simp: decide_route_def share_decide_def and_do_def decide_tx_def split: sum.splits prod.splits if_splits option.splits)
  then show ?thesis
  proof cases
    case 2
    have "share_inv st unwrapped root (if approve then s1 else remove_path (re_share env) (sh_path row) s1)
        (h @ [Decided i (au_id user) (can_manage_system (au_perms user)) (is_outbound_approver (au_id user) s) approve])"
      using inv_interrupted [OF inv 2(2)] inv_remove_path by auto
    with 2(1,3) show ?thesis by (auto intro: inv_audit)
  qed (use inv in simp)
qed

lemma share_body_genuine:
  assumes st: "stream_ok st" and laws: "share_laws st unwrapped root env" and row: "row_ok st unwrapped root (sd_files s) h row"
    and body: "share_body env row s = Inr (body, len)" and who: "sh_requester row = caller \<or> admin" "sh_status row = ShareApproved"
  shows "release_ok h (sh_id row) caller admin body"
proof -
  obtain plain bypass where p: "Requested (sh_id row) (sh_requester row) plain bypass \<in> set h" "authorised h (sh_id row) bypass"
    "\<forall>w blob. sh_key row = Some w \<longrightarrow> hm_get (share_path root (sh_id row)) (sd_files s) = Some blob \<longrightarrow> sealed_as st (unwrapped w) (sh_id row) plain blob"
    using row who(2) by (auto simp: row_ok_def)
  have "sh_format row = 2" "\<And>p. sh_path row = Some p \<Longrightarrow> p = share_path root (sh_id row)" using row unfolding row_ok_def by blast+
  moreover obtain path w key where "sh_path row = Some path" "sh_key row = Some w" "se_unwrap env w = Inr key"
    "(if sh_format row = 2 then stream_body env row key path s else legacy_body env row key path s) = Inr (body, len)"
    using body by (auto simp: share_body_def and_then_def ok_or_def split: option.splits sum.splits)
  ultimately obtain w key where k: "sh_path row = Some (share_path root (sh_id row))" "sh_key row = Some w" "se_unwrap env w = Inr key"
    and b: "stream_body env row key (share_path root (sh_id row)) s = Inr (body, len)"
    by simp
  obtain content items where c: "hm_get (share_path root (sh_id row)) (sd_files s) = Some content" "body = Streamed items"
    "decrypt_stream st (se_io_stream env) content key (sh_id row) = Inr items"
    using b laws by (auto simp: stream_body_def and_then_def ok_or_def share_laws_def map_err_def split: sum.splits option.splits if_splits)
  have "sealed_as st key (sh_id row) plain content" using p(3) c(1) k laws by (auto simp: share_laws_def)
  then obtain sha256 io nonce limit info where "length nonce = PREFIX" "write_sealed st sha256 io nonce plain key (sh_id row) limit = Inr (info, content)"
    unfolding sealed_as_def by blast
  from decrypt_genuine [OF st this c(3)] show ?thesis using p who(1) c(2) unfolding release_ok_def
    by (intro exI [of _ "sh_requester row"] exI [of _ plain] exI [of _ bypass] exI [of _ items]) auto
qed

lemma inv_downloading:
  assumes st: "stream_ok st" and inv: "share_inv st unwrapped root s h" and laws: "share_laws st unwrapped root (re_share env)"
    and mat: "consume_download_token (re_share env) token (au_id user) (can_manage_system (au_perms user)) s = (Inr mat, s1)"
    and step: "download_route env ok_header build_error user token s = (r, s')"
  shows "share_inv st unwrapped root s' (h @ (case r of
    Inr resp \<Rightarrow> [Released (sh_id (dm_share mat)) (au_id user) (can_manage_system (au_perms user)) (dr_body resp)] | Inl _ \<Rightarrow> []))"
proof -
  define row where "row = dm_share mat"
  have row: "row \<in> set (sd_shares s)" "sh_requester row = au_id user \<or> can_manage_system (au_perms user)" "sh_status row = ShareApproved"
    and body: "share_body (re_share env) row s = Inr (dm_body mat, dm_length mat)"
    and s1: "s1 = share_audit (Some (au_id user)) ''outbound_share.downloaded'' (update_share (sh_id row) (downloaded_share (re_share env)) s)"
    using mat by (auto simp: consume_download_token_def row_def and_do_def find_Some_iff split: option.splits if_splits sum.splits prod.splits)
  have "row_ok st unwrapped root (sd_files s) h row" using inv row(1) by (simp add: share_inv_def)
  note released = share_body_genuine [OF st laws this body row(2,3)]
    and once = \<open>row_ok st unwrapped root (sd_files s) h row\<close> [unfolded row_ok_def share_live_def]
  have upd: "share_inv st unwrapped root s1 (h @ h')" if "h' = [] \<or> h' = [Released (sh_id row) (au_id user) (can_manage_system (au_perms user)) (dm_body mat)]" for h'
    using that once row(3) released
    by (intro inv_update [OF inv, of _ "sh_id row" "downloaded_share (re_share env)"])
      (auto simp: s1 downloaded_share_def row_step_def ended_row_def share_live_def update_share_def)
  consider e where "r = Inl e" "s' = s" | e where "r = Inl e" "s' = s1" | resp where "r = Inr resp" "s' = s1" "dr_body resp = dm_body mat"
    using step mat by (auto simp: download_route_def and_do_def Let_def split: sum.splits if_splits)
  then show ?thesis using inv upd [of "[]"] upd by cases (auto simp: row_def)
qed

lemma inv_purging:
  assumes inv: "share_inv st unwrapped root s h" and step: "purge_route env user i s = (r, s')"
  shows "share_inv st unwrapped root s' h"
proof -
  have "s' = s \<or> (\<exists>share :: outbound_share. s' = share_audit (Some (au_id user)) ''outbound_share.purged''
      (update_share i (purged_by_hand (re_share env)) (remove_path (re_share env) (sh_path share) s)))"
    using step by (auto simp: purge_route_def and_do_def split: sum.splits)
  then consider "s' = s" | share :: outbound_share where "s' = share_audit (Some (au_id user)) ''outbound_share.purged''
      (update_share i (purged_by_hand (re_share env)) (remove_path (re_share env) (sh_path share) s))" by blast
  then show ?thesis
  proof cases
    case 2
    have "share_inv st unwrapped root (update_share i (purged_by_hand (re_share env)) (remove_path (re_share env) (sh_path share) s)) (h @ [])"
      by (rule inv_update [OF inv_remove_path [OF inv] refl])
        (auto simp: purged_by_hand_def row_step_def ended_row_def share_live_def update_share_def)
    with 2 show ?thesis by (simp add: inv_audit)
  qed (use inv in simp)
qed

lemma inv_zeroising:
  assumes "share_inv st unwrapped root s h"
  shows "share_inv st unwrapped root (update_share i (\<lambda>r. if sh_purged_at r = None then zeroised env r else r) s) h"
proof -
  have "share_inv st unwrapped root (update_share i (\<lambda>r. if sh_purged_at r = None then zeroised env r else r) s) (h @ [])"
    by (rule inv_update [OF assms refl])
      (auto simp: zeroised_def row_step_def kept_row_def ended_row_def share_live_def update_share_def)
  then show ?thesis by simp
qed

lemma inv_purge_share:
  assumes "share_inv st unwrapped root (snd p) h"
  shows "share_inv st unwrapped root (snd (purge_share env c p)) h"
  using assms inv_remove_path [of st unwrapped root "snd p" h env "snd c"]
  by (auto simp: purge_share_def Let_def inv_zeroising inv_audit split: prod.splits)

lemma inv_remove_share:
  assumes "share_inv st unwrapped root s h"
  shows "share_inv st unwrapped root (remove_share env i s) h"
proof -
  have "share_inv st unwrapped root (s\<lparr>sd_shares := filter (\<lambda>r. sh_id r \<noteq> i) (sd_shares s)\<rparr>) (h @ [])"
    using assms by (intro share_inv_step [OF assms]) (auto simp: share_inv_def row_step_def kept_row_def distinct_map_filter)
  then show ?thesis using assms by (simp add: remove_share_def inv_audit)
qed

lemma fold_keeps: "P s \<Longrightarrow> (\<And>x s. P s \<Longrightarrow> P (f x s)) \<Longrightarrow> P (fold f xs s)"
  by (induction xs arbitrary: s) auto

lemma inv_sweeping:
  assumes "share_inv st unwrapped root s h" "purge_expired env s = (n, s')"
  shows "share_inv st unwrapped root s' h"
proof -
  define p where "p = fold (purge_share env) (expired_shares env s) (0, s)"
  have "share_inv st unwrapped root (snd p) h"
    unfolding p_def using assms(1) by (intro fold_keeps [where P = "\<lambda>p. share_inv st unwrapped root (snd p) h"]) (simp_all add: inv_purge_share)
  moreover have "s' = fold (remove_share env) (old_history env (snd p)) (snd p)"
    using assms(2) by (simp add: purge_expired_def p_def split: prod.splits)
  ultimately show ?thesis
    by (auto intro!: fold_keeps [where P = "\<lambda>s. share_inv st unwrapped root s h"] inv_remove_share)
qed

lemma share_inv_reach:
  assumes "stream_ok st" "share_reach st unwrapped root s h"
  shows "share_inv st unwrapped root s h"
  using assms(2)
proof (induction rule: share_reach.induct)
  case (start s)
  then show ?case by (simp add: share_inv_def)
next
  case (outside s h fs us)
  then show ?case by (intro inv_same [OF outside.IH]) (simp_all add: files_kept_def)
next
  case (minting s h env user session connection justification r s')
  then have "sd_shares s' = sd_shares s" "sd_files s' = sd_files s"
    by (auto simp: issue_ingest_token_def ingest_mint_def and_do_def Let_def split: sum.splits if_splits option.splits prod.splits)
  with minting show ?case by (intro inv_same [OF minting.IH]) simp_all
next
  case (delegating s h env user other r s')
  then have "sd_shares s' = sd_shares s" "sd_files s' = sd_files s"
    by (auto simp: add_approver_route_def add_approver_def and_do_def split: sum.splits if_splits)
  with delegating show ?case by (intro inv_same [OF delegating.IH]) simp_all
next
  case (revoking s h env user other r s')
  then have "sd_shares s' = sd_shares s" "sd_files s' = sd_files s"
    by (auto simp: remove_approver_route_def remove_approver_def and_do_def split: sum.splits if_splits)
  with revoking show ?case by (intro inv_same [OF revoking.IH]) simp_all
qed (use assms(1) in \<open>blast intro: inv_submitting inv_ingesting inv_admitting inv_handing_over inv_deciding inv_interrupted
    inv_downloading inv_purging inv_sweeping\<close>)+

section \<open>What holds of every history\<close>

text \<open>C10: whatever the order of uploads, decisions, downloads, hand-overs, purges and changes of users, approvers and other files, and
  with handlers cut off after their transaction, a share is sent out over its link at most once; to its requester or a
  super-administrator; only when the requester was exempt or after an approval by a super-administrator or a listed approver; and
  what is sent are the uploaded bytes, all of them unless the stream reports an error. Only shares of exempt requesters are handed
  over in the session.\<close>

theorem share_released_once_and_approved:
  assumes "stream_ok st" "share_reach st unwrapped root s h"
  shows "distinct (released_ids h)
    \<and> (\<forall>before later i caller admin body. h = before @ Released i caller admin body # later \<longrightarrow>
        (\<exists>user plain bypass items. Requested i user plain bypass \<in> set before \<and> (caller = user \<or> admin)
          \<and> (bypass \<or> (\<exists>a super listed. Decided i a super listed True \<in> set before \<and> (super \<or> listed)))
          \<and> body = Streamed items \<and> prefix (concat (oks items)) plain \<and> (list_all is_ok items \<longrightarrow> concat (oks items) = plain)))
    \<and> (\<forall>i. HandedOver i \<in> set h \<longrightarrow> (\<exists>user plain. Requested i user plain True \<in> set h))"
proof (intro conjI allI impI)
  note inv = share_inv_reach [OF assms]
  show "distinct (released_ids h)" using inv by (simp add: share_inv_def)
  fix before later i caller admin body assume "h = before @ Released i caller admin body # later"
  then have "release_ok before i caller admin body" using inv by (simp add: share_inv_def releases_ok_append)
  then show "\<exists>user plain bypass items. Requested i user plain bypass \<in> set before \<and> (caller = user \<or> admin)
      \<and> (bypass \<or> (\<exists>a super listed. Decided i a super listed True \<in> set before \<and> (super \<or> listed)))
      \<and> body = Streamed items \<and> prefix (concat (oks items)) plain \<and> (list_all is_ok items \<longrightarrow> concat (oks items) = plain)"
    unfolding release_ok_def authorised_def .
next
  fix i assume "HandedOver i \<in> set h"
  then show "\<exists>user plain. Requested i user plain True \<in> set h" using share_inv_reach [OF assms] unfolding share_inv_def by blast
qed

section \<open>The purge\<close>

definition swept :: "share_env \<Rightarrow> bytes set \<Rightarrow> outbound_share \<Rightarrow> outbound_share" where
  "swept env is r = (if sh_id r \<in> is \<and> se_row_ok env (sh_id r) \<and> sh_purged_at r = None then zeroised env r else r)"

lemma zeroised_fields [simp]: "sh_id (zeroised env r) = sh_id r" "sh_purged_at (zeroised env r) = Some (se_now env)"
  by (simp_all add: zeroised_def)

lemma swept_again: "swept env is (swept env js r) = swept env (is \<union> js) r"
  by (auto simp: swept_def)

lemma swept_none [simp]: "swept env {} = (\<lambda>r. r)"
  by (simp add: swept_def fun_eq_iff)

lemma purge_share_rows: "sd_shares (snd (purge_share env c p)) = map (swept env {fst c}) (sd_shares (snd p))"
  by (auto simp: purge_share_def Let_def update_share_def swept_def list_ex_iff intro!: map_idI [symmetric] split: prod.splits)

lemma purge_share_files: "hm_get q (sd_files (snd (purge_share env c p))) = (if snd c = Some q \<and> \<not> se_stuck env q then None else hm_get q (sd_files (snd p)))"
  by (auto simp: purge_share_def Let_def update_share_def remove_path_def share_audit_def split: prod.splits option.splits)

lemma purge_fold_rows: "sd_shares (snd (fold (purge_share env) cs p)) = map (swept env (fst ` set cs)) (sd_shares (snd p))"
  by (induction cs arbitrary: p) (simp_all add: purge_share_rows swept_again o_def)

text \<open>A blob that cannot be removed stays, though its row loses the path to it.\<close>

lemma purge_fold_files:
  "hm_get q (sd_files (snd (fold (purge_share env) cs p)))
    = (if Some q \<in> snd ` set cs \<and> \<not> se_stuck env q then None else hm_get q (sd_files (snd p)))"
  by (induction cs arbitrary: p) (auto simp: purge_share_files)

lemma remove_share_rows: "sd_shares (remove_share env i s) = filter (\<lambda>r. \<not> (sh_id r = i \<and> se_row_ok env i)) (sd_shares s)"
  by (auto simp: remove_share_def share_audit_def list_ex_iff filter_id_conv)

lemma remove_share_files [simp]: "sd_files (remove_share env i s) = sd_files s"
  by (simp add: remove_share_def share_audit_def)

lemma remove_fold_files [simp]: "sd_files (fold (remove_share env) is s) = sd_files s"
  by (induction "is" arbitrary: s) simp_all

lemma remove_fold_rows:
  "r \<in> set (sd_shares (fold (remove_share env) is s)) \<longleftrightarrow> r \<in> set (sd_shares s) \<and> \<not> (sh_id r \<in> set is \<and> se_row_ok env (sh_id r))"
  by (induction "is" arbitrary: s) (auto simp: remove_share_rows)

lemma purge_expired_files:
  "hm_get q (sd_files (snd (purge_expired env s)))
    = (if Some q \<in> snd ` set (expired_shares env s) \<and> \<not> se_stuck env q then None else hm_get q (sd_files s))"
  by (simp add: purge_expired_def purge_fold_files split: prod.split) (metis purge_fold_files snd_conv)

text \<open>A row whose time of purge is recent, or that was not purged, survives the pass as the sweep leaves it.\<close>

lemma purge_expired_row:
  assumes "distinct (map sh_id (sd_shares s))" "r \<in> set (sd_shares s)" "r' = swept env (fst ` set (expired_shares env s)) r"
    and "\<And>t. sh_purged_at r' = Some t \<Longrightarrow> se_now env - HISTORY_RETENTION_AFTER_PURGE_DAYS * DAY_MICROS < t"
  shows "r' \<in> set (sd_shares (snd (purge_expired env s)))"
proof -
  let ?p = "fold (purge_share env) (expired_shares env s) (0, s)"
  have s': "snd (purge_expired env s) = fold (remove_share env) (old_history env (snd ?p)) (snd ?p)"
    by (simp add: purge_expired_def split: prod.splits)
  have mem: "r' \<in> set (sd_shares (snd ?p))" using assms(2,3) by (simp add: purge_fold_rows)
  have ids: "map sh_id (sd_shares (snd ?p)) = map sh_id (sd_shares s)" by (simp add: purge_fold_rows swept_def)
  have "sh_id r' \<notin> set (old_history env (snd ?p))"
  proof
    assume "sh_id r' \<in> set (old_history env (snd ?p))"
    then obtain q t where q: "q \<in> set (sd_shares (snd ?p))" "sh_id q = sh_id r'" "sh_purged_at q = Some t"
      "t \<le> se_now env - HISTORY_RETENTION_AFTER_PURGE_DAYS * DAY_MICROS"
      by (auto simp: old_history_def dest!: in_set_takeD split: option.splits)
    have "inj_on sh_id (set (sd_shares (snd ?p)))" using ids assms(1) by (metis distinct_map)
    from inj_onD [OF this _ q(1) mem] have "q = r'" using q(2) by simp
    then show False using q(3,4) assms(4) by fastforce
  qed
  then show ?thesis using mem unfolding s' remove_fold_rows by simp
qed

text \<open>C40: one pass of the purge over at most 500 expired shares erases each of them whose statements succeed: the row stays as history
  without key, nonce, path and link and is neither pending nor approved any more, and its blob is gone. Where the machine refuses to
  remove the blob the pass goes on: the row is erased all the same, so the blob stays, without its key and without a row that leads
  to it. Shares that have not expired keep their rows, and files that belong to no expired share their content.\<close>

theorem purge_erases:
  assumes "purge_expired env s = (n, s')" "distinct (map sh_id (sd_shares s))"
    and "length (filter (\<lambda>r. sh_purged_at r = None \<and> sh_expires r \<le> se_now env) (sd_shares s)) \<le> 500"
    and "r \<in> set (sd_shares s)" "sh_purged_at r = None"
  shows "(if sh_expires r \<le> se_now env \<and> se_row_ok env (sh_id r)
     then (\<exists>r' \<in> set (sd_shares s'). sh_id r' = sh_id r \<and> sh_key r' = None \<and> sh_nonce r' = None \<and> sh_path r' = None \<and> sh_token r' = None
         \<and> sh_status r' \<notin> {SharePending, ShareApproved} \<and> sh_purged_at r' = Some (se_now env))
       \<and> (\<forall>p. sh_path r = Some p \<longrightarrow> hm_get p (sd_files s') = (if se_stuck env p then hm_get p (sd_files s) else None))
     else r \<in> set (sd_shares s'))
    \<and> (\<forall>p. (\<forall>q \<in> set (sd_shares s). sh_purged_at q = None \<longrightarrow> sh_expires q \<le> se_now env \<longrightarrow> sh_path q \<noteq> Some p)
         \<longrightarrow> hm_get p (sd_files s') = hm_get p (sd_files s))"
proof (intro conjI allI impI)
  have s': "s' = snd (purge_expired env s)" using assms(1) by simp
  define r' where "r' = swept env (fst ` set (expired_shares env s)) r"
  have mem: "r' \<in> set (sd_shares s')" unfolding s'
    by (rule purge_expired_row [OF assms(2,4) r'_def]) (auto simp: r'_def swept_def assms(5) bound_simps split: if_splits)
  show "if sh_expires r \<le> se_now env \<and> se_row_ok env (sh_id r)
     then (\<exists>r' \<in> set (sd_shares s'). sh_id r' = sh_id r \<and> sh_key r' = None \<and> sh_nonce r' = None \<and> sh_path r' = None \<and> sh_token r' = None
         \<and> sh_status r' \<notin> {SharePending, ShareApproved} \<and> sh_purged_at r' = Some (se_now env))
       \<and> (\<forall>p. sh_path r = Some p \<longrightarrow> hm_get p (sd_files s') = (if se_stuck env p then hm_get p (sd_files s) else None))
     else r \<in> set (sd_shares s')"
  proof (cases "sh_expires r \<le> se_now env \<and> se_row_ok env (sh_id r)")
    case True
    then have cand: "(sh_id r, sh_path r) \<in> set (expired_shares env s)" using assms(3-5) by (simp add: expired_shares_def)
    then have "r' = zeroised env r" using True assms(5) by (force simp: r'_def swept_def)
    moreover have "hm_get p (sd_files s') = (if se_stuck env p then hm_get p (sd_files s) else None)" if "sh_path r = Some p" for p
      using cand that unfolding s' by (force simp: purge_expired_files)
    ultimately show ?thesis using True mem by (auto intro!: bexI [of _ "zeroised env r"] simp: zeroised_def split: if_splits)
  next
    case False
    have "r' = r"
    proof (rule ccontr)
      assume "r' \<noteq> r"
      then have "sh_id r \<in> fst ` set (expired_shares env s)" "se_row_ok env (sh_id r)" by (auto simp: r'_def swept_def split: if_splits)
      then obtain q where "q \<in> set (sd_shares s)" "sh_id q = sh_id r" "sh_expires q \<le> se_now env"
        by (auto simp: expired_shares_def dest!: in_set_takeD)
      moreover from this have "q = r" using assms(2,4) unfolding distinct_map inj_on_def by blast
      ultimately show False using False \<open>se_row_ok env (sh_id r)\<close> by simp
    qed
    with mem show ?thesis unfolding if_not_P [OF False] by simp
  qed
  fix p assume "\<forall>q \<in> set (sd_shares s). sh_purged_at q = None \<longrightarrow> sh_expires q \<le> se_now env \<longrightarrow> sh_path q \<noteq> Some p"
  then have "Some p \<notin> snd ` set (expired_shares env s)"
    by (fastforce simp: expired_shares_def dest!: in_set_takeD)
  then show "hm_get p (sd_files s') = hm_get p (sd_files s)" unfolding s' purge_expired_files by simp
qed

text \<open>C37: an upload that fails, at whatever point, leaves no row, and touches no file but its temporary file and its blob; and
  neither of them is left, provided the machine lets the handler remove them (the handler ignores that a removal failed).\<close>

theorem failed_upload_leaves_nothing:
  assumes "submit_route env user body_fields s = (Inl e, s') \<or> ingest_via_token env token body_fields s = (Inl e, s')"
    and "re_temp env \<noteq> share_path (se_root (re_share env)) (se_id (re_share env))"
    and "hm_get (re_temp env) (sd_files s) = None" "hm_get (share_path (se_root (re_share env)) (se_id (re_share env))) (sd_files s) = None"
  shows "sd_shares s' = sd_shares s
    \<and> (\<forall>p. (p \<in> {re_temp env, share_path (se_root (re_share env)) (se_id (re_share env))} \<longrightarrow> \<not> se_stuck (re_share env) p)
         \<longrightarrow> hm_get p (sd_files s') = hm_get p (sd_files s))"
proof -
  define left where "left p \<longleftrightarrow> p \<in> {re_temp env, blob_path env} \<and> se_stuck (re_share env) p" for p
  have up: "sd_shares s2 = sd_shares s \<and> (\<forall>p. \<not> left p \<longrightarrow> hm_get p (sd_files s2) = hm_get p (sd_files s))"
    if "and_do (parse_outbound_multipart env actor body_fields s1) (\<lambda>p s. submit_parsed env u (f p) (g p) (k p) p s) = (Inl e, s2)"
      "sd_shares s1 = sd_shares s" "sd_files s1 = sd_files s" for actor s1 u f g k s2
  proof -
    note start = that
    have "hm_get p (sd_files s2) = hm_get p (sd_files s)" if p: "\<not> left p" for p
      using upload_outcome [OF start(1)] assms(2-4) start(3) p unfolding left_def
      by (cases "p \<in> {re_temp env, blob_path env}") (auto simp: blob_path_def only_paths_def kept_or_gone_def)
    moreover have "sd_shares s2 = sd_shares s" using upload_outcome [OF that(1)] assms(2) that(2) by (simp add: blob_path_def)
    ultimately show ?thesis by blast
  qed
  from assms(1) have "sd_shares s' = sd_shares s \<and> (\<forall>p. \<not> left p \<longrightarrow> hm_get p (sd_files s') = hm_get p (sd_files s))"
  proof
    assume "submit_route env user body_fields s = (Inl e, s')"
    then consider "s' = s" | "and_do (parse_outbound_multipart env (Some (au_id user)) body_fields s) (\<lambda>p s. submit_parsed env (au_id user)
        (pf_session (pu_form p)) (pf_connection (pu_form p)) (pf_justification (pu_form p)) p s) = (Inl e, s')"
      by (auto simp: submit_route_def and_do_def split: sum.splits)
    then show ?thesis using up by cases auto
  next
    assume step: "ingest_via_token env token body_fields s = (Inl e, s')"
    show ?thesis
    proof (cases "load_pool_vault_and_av env")
      case ok: (Inr a)
      obtain r1 s1 where c: "ingest_consume (re_share env) token s = (r1, s1)" by fastforce
      note same = ingest_consume_tables [OF c]
      show ?thesis
      proof (cases r1)
        case (Inr ctx)
        have "s' = s1 \<or> and_do (parse_outbound_multipart env (Some (ig_user ctx)) body_fields s1) (\<lambda>p s. submit_parsed env (ig_user ctx)
            (or_else (ig_session ctx) (pf_session (pu_form p))) (or_else (ig_connection ctx) (pf_connection (pu_form p)))
            (or_else (ig_justification ctx) (pf_justification (pu_form p))) p s) = (Inl e, s')"
          using step c Inr ok by (auto simp: ingest_via_token_def and_do_def split: sum.splits prod.splits if_splits)
        then show ?thesis using up same by auto
      qed (use step c same ok in \<open>auto simp: ingest_via_token_def\<close>)
    qed (use step in \<open>simp add: ingest_via_token_def\<close>)
  qed
  then show ?thesis unfolding left_def blob_path_def by blast
qed

section \<open>A concrete run\<close>

text \<open>A user exempt from approval uploads three bytes under a name with a control character, or a plain one.\<close>

definition run_share :: share_env where
  "run_share = \<lparr>se_now = 0, se_id = [1], se_token_ids = ([2], [3]), se_root = ''d'', se_stream = plain_aead, se_sha256 = (\<lambda>bs. bs),
     se_io = no_faults, se_io_stream = no_faults, se_prefix = replicate 7 0, se_data_key = Inr (replicate 32 0, []),
     se_unwrap = (\<lambda>_. Inr (replicate 32 0)), se_legacy = (\<lambda>_ _ _. Inr []), se_stat = None, se_mkdir = None, se_slot = None,
     se_insert = None, se_row_ok = (\<lambda>_. True), se_stuck = (\<lambda>_. False)\<rparr>"

definition run_route :: route_env where
  "run_route = \<lparr>re_share = run_share, re_running = True, re_db = True, re_vault = True,
     re_scan = \<lparr>sc_stat = (\<lambda>_. Inr 0), sc_reads = (\<lambda>_. Inr []), sc_exchange = (\<lambda>_ _. None), sc_process = (\<lambda>_ _. None)\<rparr>,
     re_av = \<lparr>av_backend = Off, av_fail_mode = Block, av_max_scan_size = 10, av_timeout_ms = 10\<rparr>,
     re_uuid = (\<lambda>_. None), re_temp = ''t'', re_create = None, re_write = (\<lambda>_. None), re_flush = None, re_token = ''k''\<rparr>"

definition run_user :: auth_user where
  "run_user = \<lparr>au_id = [9], au_sub = ''s'', au_username = ''u'', au_full_name = None, au_role = ''user'',
     au_perms = \<lparr>can_manage_system = False, can_manage_users = False, can_manage_connections = False, can_view_audit_logs = False,
       can_create_users = False, can_create_user_groups = False, can_create_connections = False, can_create_sharing_profiles = False,
       can_view_sessions = False, can_use_quick_share = False, can_use_quick_share_outbound = True\<rparr>\<rparr>"

definition run_db :: share_db where
  "run_db = \<lparr>sd_shares = [], sd_approvers = [],
     sd_users = [\<lparr>us_id = [9], us_username = ''u'', us_deleted = False, us_requires = Some False, us_manage_system = False, us_outbound = True\<rparr>],
     sd_ingest = [], sd_files = [], sd_audit = []\<rparr>"

definition run_fields :: "str \<Rightarrow> (str + form_field) list" where
  "run_fields name = [Inr \<lparr>ff_name = Some ''file'', ff_text = Inr [], ff_filename = Some name, ff_content_type = None, ff_chunks = [Inr [1, 2, 3]]\<rparr>]"

definition run_stored :: "str \<Rightarrow> share_db" where
  "run_stored name = snd (submit_route run_route run_user (run_fields name) run_db)"

lemmas run_defs = run_share_def run_route_def run_user_def run_db_def run_fields_def

definition run_blob :: bytes where
  "run_blob = file_header (replicate 7 0) @ [1, 2, 3] @ replicate 16 0"

definition run_info :: sealed_file where
  "run_info = \<lparr>sealed_size = 3, sealed_sha256 = hex_encode [1, 2, 3]\<rparr>"

lemma run_sealed:
  "write_sealed plain_aead (\<lambda>bs. bs) no_faults (replicate 7 0) [1, 2, 3] (replicate 32 0) [1] MAX_SHARE_SIZE = Inr (run_info, run_blob)"
  by (simp add: write_sealed_def no_faults_def faulty_def check_key_def read_up_to_def seal_loop.simps plain_aead_def Let_def bound_simps
      run_info_def run_blob_def)

lemma run_opened:
  "read_header run_blob = Inr (file_header (replicate 7 0), [1, 2, 3] @ replicate 16 0)"
  using header_length [of "replicate 7 0"] by (simp add: read_header_def run_blob_def bound_simps)

lemma run_plain:
  "decrypt_stream plain_aead no_faults run_blob (replicate 32 0) [1] = Inr [Inr [1, 2, 3]]"
  "hm_get path fs = Some run_blob \<Longrightarrow> verify_file plain_aead no_faults path (replicate 32 0) [1] 3 fs = Inr ()"
  using open_own_header [of "replicate 7 0" "replicate 32 0" "[1]"]
  by (simp_all add: decrypt_stream_def verify_file_def run_opened bound_simps read_up_to_def no_faults_def faulty_def stream_items.simps
      verify_loop.simps plain_aead_def ok_or_def suffix_def)

definition run_row :: "str \<Rightarrow> outbound_share" where
  "run_row name = new_share run_share \<lparr>si_requester = [9], si_session = None, si_connection = None, si_filename = name,
     si_content_type = ''application/octet-stream'', si_justification = None, si_source = ''t'', si_requires = False,
     si_verdict = Skipped ''scanning disabled'', si_backend = ''off''\<rparr> run_info [] (share_path ''d'' [1])"

lemma run_path: "share_path ''d'' i \<noteq> ''t''"
  by (simp add: share_path_def)

text \<open>The steps of the upload, whether or not its row can be inserted.\<close>

definition run_parsed :: "str \<Rightarrow> parsed_upload" where
  "run_parsed name = \<lparr>pu_form = empty_form\<lparr>pf_file := Some (name, ''application/octet-stream'', 3)\<rparr>, pu_filename = name,
     pu_content_type = ''application/octet-stream'', pu_size = 3, pu_verdict = Skipped ''scanning disabled'', pu_backend = ''off''\<rparr>"

definition run_temp :: share_db where
  "run_temp = run_db\<lparr>sd_files := hm_insert ''t'' [1, 2, 3] []\<rparr>"

definition run_files :: file_system where
  "run_files = hm_insert (share_path ''d'' [1]) run_blob (hm_insert (share_path ''d'' [1]) [] (hm_insert ''t'' [1, 2, 3] []))"

lemma run_parses:
  "parse_outbound_multipart (run_route\<lparr>re_share := run_share\<lparr>se_insert := e\<rparr>\<rparr>) (Some [9]) (run_fields name) run_db = (Inr (run_parsed name), run_temp)"
  by (simp add: parse_outbound_multipart_def run_defs form_step_def file_field_def empty_form_def MAX_SHARE_SIZE_def av_scan_def backend_tag_def
      blocks_def Let_def run_parsed_def run_temp_def)

lemma run_encrypted:
  "encrypt_file plain_aead (\<lambda>bs. bs) no_faults (replicate 7 0) ''t'' (share_path ''d'' [1]) (replicate 32 0) [1] MAX_SHARE_SIZE
    (hm_insert ''t'' [1, 2, 3] []) = (Inr run_info, run_files)"
  by (simp add: encrypt_file_def run_sealed hm_contains_def run_path ok_or_def Let_def run_files_def)

lemma run_submitted:
  shows "\<exists>resp. submit_route run_route run_user (run_fields name) run_db = (Inr resp, run_stored name) \<and> rp_id resp = [1]"
    and "sd_shares (run_stored name) = [run_row name]" "hm_get (share_path ''d'' [1]) (sd_files (run_stored name)) = Some run_blob"
proof -
  have same: "run_route\<lparr>re_share := run_share\<lparr>se_insert := None\<rparr>\<rparr> = run_route" by (simp add: run_route_def run_share_def)
  note parsed = run_parses [of None, unfolded same] and enc = run_encrypted
  have "\<exists>resp s'. submit_route run_route run_user (run_fields name) run_db = (Inr resp, s') \<and> rp_id resp = [1]
      \<and> sd_shares s' = [run_row name] \<and> hm_get (share_path ''d'' [1]) (sd_files s') = Some run_blob"
    using enc parsed
    by (simp add: submit_route_def check_quick_share_outbound_permission_def load_pool_vault_and_av_def run_user_def run_route_def
        submit_parsed_def finalize_submit_def requires_approval_def run_temp_def run_parsed_def run_db_def validate_outbound_justification_def
        share_submit_def check_upload_def upload_size_def run_share_def stage_blob_def ensure_staging_path_def Let_def drop_temp_def
        hm_get_remove_path run_path run_row_def empty_form_def MAX_SHARE_SIZE_def run_files_def)
  then show "\<exists>resp. submit_route run_route run_user (run_fields name) run_db = (Inr resp, run_stored name) \<and> rp_id resp = [1]"
    "sd_shares (run_stored name) = [run_row name]" "hm_get (share_path ''d'' [1]) (sd_files (run_stored name)) = Some run_blob"
    by (auto simp: run_stored_def)
qed

definition run_mat :: "str \<Rightarrow> download_material" where
  "run_mat name = \<lparr>dm_share = run_row name, dm_body = Streamed [Inr [1, 2, 3]], dm_length = 3\<rparr>"

definition run_spent :: "str \<Rightarrow> share_db" where
  "run_spent name = snd (consume_download_token run_share (mint_token run_share) [9] False (run_stored name))"

lemma run_consumed: "consume_download_token run_share (mint_token run_share) [9] False (run_stored name) = (Inr (run_mat name), run_spent name)"
proof -
  have row: "sh_token (run_row name) = Some (mint_token run_share)" "sh_requester (run_row name) = [9]" "sh_status (run_row name) = ShareApproved"
    "sh_id (run_row name) = [1]" "sh_path (run_row name) = Some (share_path ''d'' [1])" "sh_key (run_row name) = Some []" "sh_format (run_row name) = 2"
    "sh_expires (run_row name) = DAY_MICROS" "sh_size (run_row name) = 3"
    by (simp_all add: run_row_def new_share_def run_share_def run_info_def bound_simps split: prod.splits)
  have "stream_body run_share (run_row name) (replicate 32 0) (share_path ''d'' [1]) (run_stored name) = Inr (Streamed [Inr [1, 2, 3]], 3)"
    using run_plain run_submitted(3) [of name] by (simp add: stream_body_def row in_slot_def run_share_def ok_or_def map_err_def)
  then have "share_body run_share (run_row name) (run_stored name) = Inr (Streamed [Inr [1, 2, 3]], 3)"
    by (simp add: share_body_def row ok_or_def) (simp add: run_share_def)
  then show ?thesis
    by (simp add: run_spent_def consume_download_token_def run_submitted(2) row run_mat_def DAY_MICROS_def) (simp add: run_share_def)
qed

lemma run_laws: "share_laws plain_aead (\<lambda>_. replicate 32 0) ''d'' run_share"
  by (simp add: share_laws_def run_share_def bound_simps)

theorem share_released_once_and_approved_witness:
  "\<exists>s h. share_reach plain_aead (\<lambda>_. replicate 32 0) ''d'' s h \<and> released_ids h = [[1]]
    \<and> (\<exists>plain bypass. Requested [1] [9] plain bypass \<in> set h \<and> concat (oks [Inr [1, 2, 3] :: file_error + bytes]) = plain)"
proof -
  let ?reach = "share_reach plain_aead (\<lambda>_. replicate 32 0) ''d''"
  let ?req = "Requested [1] [9] [1, 2, 3] True" and ?rel = "Released [1] [9] False (Streamed [Inr [1, 2, 3]])"
  have env: "re_share run_route = run_share" "re_temp run_route = ''t''" "au_id run_user = [9]" "can_manage_system (au_perms run_user) = False"
    by (simp_all add: run_route_def run_user_def)
  obtain resp where sub: "submit_route run_route run_user (run_fields ''f'') run_db = (Inr resp, run_stored ''f'')" "rp_id resp = [1]"
    using run_submitted(1) by blast
  have "?reach run_db []" by (rule share_reach.start) (simp add: run_db_def)
  from share_reach.submitting [OF this _ _ _ sub(1)] have "?reach (run_stored ''f'') [?req]"
    using run_laws by (simp add: env fresh_share_def apart_def share_path_def sub(2)) (simp add: run_fields_def requires_approval_def run_db_def)
  moreover have "download_route run_route (\<lambda>_. True) [] run_user (mint_token run_share) (run_stored ''f'')
      = (Inr \<lparr>dr_content_type = sh_content_type (run_row ''f''), dr_disposition = ''attachment; filename='' @ [CHR 0x22] @ sanitize_filename (sh_filename (run_row ''f'')) @ [CHR 0x22],
           dr_length = 3, dr_body = Streamed [Inr [1, 2, 3]]\<rparr>, run_spent ''f'')"
    by (simp add: download_route_def env run_consumed run_mat_def check_quick_share_outbound_permission_def load_pool_vault_and_av_def)
      (simp add: run_user_def run_route_def)
  moreover have "sh_id (run_row ''f'') = [1]" by (simp add: run_row_def run_share_def)
  ultimately have reach: "?reach (run_spent ''f'') [?req, ?rel]"
    using share_reach.downloading [of plain_aead "\<lambda>_. replicate 32 0" "''d''" "run_stored ''f''" "[?req]" run_route "mint_token run_share" run_user
        "run_mat ''f''" "run_spent ''f''" "\<lambda>_. True" "[]"] run_laws run_consumed [of "''f''"] env by (simp add: run_mat_def)
  have "[?req, ?rel] = [?req] @ ?rel # []" by simp
  with share_released_once_and_approved [OF plain_aead_ok reach] obtain plain bypass items where
    "Requested [1] [9] plain bypass \<in> set [?req]" "items = [Inr [1, 2, 3] :: file_error + bytes]" "list_all is_ok items \<longrightarrow> concat (oks items) = plain"
    by (metis download_body.inject(1))
  with reach show ?thesis by (intro exI [of _ "run_spent ''f''"] exI [of _ "[?req, ?rel]"]) (auto simp: is_ok_def released_ids_def)
qed

theorem purge_erases_witness:
  "\<exists>s'. purge_expired (run_share\<lparr>se_now := DAY_MICROS\<rparr>) (run_stored ''f'') = (1, s')
    \<and> hm_get (share_path ''d'' [1]) (sd_files (run_stored ''f'')) = Some run_blob \<and> hm_get (share_path ''d'' [1]) (sd_files s') = None
    \<and> (\<exists>r' \<in> set (sd_shares s'). sh_id r' = [1] \<and> sh_key r' = None)"
proof -
  have row: "sh_expires (run_row ''f'') = DAY_MICROS" "sh_purged_at (run_row ''f'') = None" "sh_id (run_row ''f'') = [1]"
    "sh_path (run_row ''f'') = Some (share_path ''d'' [1])"
    by (simp_all add: run_row_def new_share_def run_share_def bound_simps split: prod.splits)
  obtain n s' where p: "purge_expired (run_share\<lparr>se_now := DAY_MICROS\<rparr>) (run_stored ''f'') = (n, s')" by fastforce
  have env: "se_row_ok (run_share\<lparr>se_now := DAY_MICROS\<rparr>) [1]" "\<not> se_stuck (run_share\<lparr>se_now := DAY_MICROS\<rparr>) q" for q by (simp_all add: run_share_def)
  have "n = 1" using p row env by (simp add: purge_expired_def expired_shares_def run_submitted(2) purge_share_def Let_def split: prod.splits)
  then show ?thesis using purge_erases [OF p, of "run_row ''f''"] row p env run_submitted(3) [of "''f''"] by (simp add: run_submitted(2)) blast
qed

text \<open>An upload whose row cannot be inserted: the temporary file and the sealed blob had been written.\<close>

lemma run_failed:
  "\<exists>s'. submit_route (run_route\<lparr>re_share := run_share\<lparr>se_insert := Some Forbidden\<rparr>\<rparr>) run_user (run_fields name) run_db = (Inl Forbidden, s')"
  using run_encrypted run_parses [of "Some Forbidden" name]
  by (simp add: submit_route_def check_quick_share_outbound_permission_def load_pool_vault_and_av_def run_user_def run_route_def
      submit_parsed_def finalize_submit_def requires_approval_def run_temp_def run_parsed_def run_db_def validate_outbound_justification_def
      share_submit_def check_upload_def upload_size_def run_share_def stage_blob_def ensure_staging_path_def Let_def
      run_path empty_form_def MAX_SHARE_SIZE_def)

theorem failed_upload_leaves_nothing_witness:
  "\<exists>s'. submit_route (run_route\<lparr>re_share := run_share\<lparr>se_insert := Some Forbidden\<rparr>\<rparr>) run_user (run_fields ''f'') run_db = (Inl Forbidden, s')
    \<and> sd_shares s' = [] \<and> hm_get ''t'' (sd_files s') = None \<and> hm_get (share_path ''d'' [1]) (sd_files s') = None"
proof -
  let ?env = "run_route\<lparr>re_share := run_share\<lparr>se_insert := Some Forbidden\<rparr>\<rparr>"
  obtain s' where s': "submit_route ?env run_user (run_fields ''f'') run_db = (Inl Forbidden, s')" using run_failed by blast
  have env: "re_temp ?env = ''t''" "share_path (se_root (re_share ?env)) (se_id (re_share ?env)) = share_path ''d'' [1]" "\<not> se_stuck (re_share ?env) p" for p
    by (simp_all add: run_defs)
  have "re_temp ?env \<noteq> share_path (se_root (re_share ?env)) (se_id (re_share ?env))" unfolding env using run_path [of "[1]"] by metis
  from failed_upload_leaves_nothing [OF disjI1 [OF s'] this]
  have "sd_shares s' = [] \<and> (\<forall>p. hm_get p (sd_files s') = None)" using env(3) by (simp add: run_db_def)
  with s' show ?thesis by blast
qed

text \<open>A file whose name holds a control character, which the sanitiser keeps, spends its link without being delivered: the
  response cannot be built any more after the transaction has committed, and the row is downloaded and has no link.\<close>

lemma unprintable_name_burns_link:
  assumes "consume_download_token (re_share env) token (au_id user) (can_manage_system (au_perms user)) s = (Inr mat, s1)"
    and "check_quick_share_outbound_permission user = Inr ()" "load_pool_vault_and_av env = Inr ()"
    and "c \<in> set (sh_filename (dm_share mat))" "c \<notin> {CHR 0x22, CHR 0x0A, CHR 0x0D}" "\<And>v. c \<in> set v \<Longrightarrow> \<not> ok_header v"
  shows "download_route env ok_header build_error user token s = (Inl (Internal (''Response build error: '' @ build_error)), s1)
    \<and> (\<forall>r \<in> set (sd_shares s1). sh_id r = sh_id (dm_share mat) \<longrightarrow> sh_status r = ShareDownloaded \<and> sh_token r = None)"
proof -
  have "c \<in> set (sanitize_filename (sh_filename (dm_share mat)))" using assms(4,5) by (force simp: sanitize_filename_def)
  then have "\<not> ok_header (''attachment; filename='' @ [CHR 0x22] @ sanitize_filename (sh_filename (dm_share mat)) @ [CHR 0x22])"
    by (intro assms(6)) simp
  moreover have "s1 = share_audit (Some (au_id user)) ''outbound_share.downloaded''
      (update_share (sh_id (dm_share mat)) (downloaded_share (re_share env)) s)"
    using assms(1) by (auto simp: consume_download_token_def and_do_def split: option.splits if_splits sum.splits prod.splits)
  ultimately show ?thesis using assms(1-3) by (auto simp: download_route_def update_share_def downloaded_share_def Let_def)
qed

end
