(* ===== verification/File_Store.thy ===== *)
theory File_Store
  imports Share_Routes
begin

text \<open>
  The store behind Quick Share, \<open>backend/src/services/file_store.rs\<close>: files a session hands to its remote desktop, in a directory
  with an index in memory. The index and the directory are one record; \<open>store_from_path\<close> is cut where it gives up its lock.
  Removals may fail, and the code goes on when they do: \<open>st_stuck\<close> are the paths the file system does not remove at the moment.
  Byte counts are naturals: they stay far below the width of \<open>u64\<close>, which the invariant below shows.
\<close>

section \<open>State\<close>

record stored_file =
  sf_token :: str
  sf_session :: str
  sf_user :: bytes
  sf_filename :: str
  sf_content_type :: str
  sf_size :: nat
  sf_path :: str
  sf_created :: int

record file_store =
  st_files :: "(str, stored_file) hmap"
  st_sessions :: "(str, str list) hmap"
  st_pending :: "(str, nat) hmap"
  st_reserved :: nat
  st_root :: str
  st_disk :: file_system
  st_stuck :: "str \<Rightarrow> bool"

datatype file_store_error = StoreTooLarge | TooManyFiles | StoreFull | StoreIo str

definition MAX_STORED_SIZE :: nat where [bound_simps]: "MAX_STORED_SIZE = 500 * 1024 * 1024"
definition MAX_FILES_PER_SESSION :: nat where [bound_simps]: "MAX_FILES_PER_SESSION = 20"
definition MAX_STORE_BYTES :: nat where [bound_simps]: "MAX_STORE_BYTES = 10 * 1024 * 1024 * 1024"
definition MAX_FILE_AGE :: int where [bound_simps]: "MAX_FILE_AGE = 86400000000"

definition show_store_error :: "file_store_error \<Rightarrow> str" where
  "show_store_error e =
    (case e of
       StoreTooLarge \<Rightarrow> ''File exceeds the maximum size of '' @ show_nat MAX_STORED_SIZE @ '' bytes''
     | TooManyFiles \<Rightarrow> ''Maximum of '' @ show_nat MAX_FILES_PER_SESSION @ '' files per session''
     | StoreFull \<Rightarrow> ''Quick Share storage is full; try again later''
     | StoreIo m \<Rightarrow> ''I/O error: '' @ m)"

definition file_store_new :: "str \<Rightarrow> (str \<Rightarrow> bool) \<Rightarrow> file_system \<Rightarrow> file_store" where
  "file_store_new root stuck disk = \<lparr>st_files = [], st_sessions = [], st_pending = [], st_reserved = 0, st_root = root,
     st_disk = hm_retain (\<lambda>p _. prefix (root @ ''/'') p \<longrightarrow> stuck p) disk, st_stuck = stuck\<rparr>"

text \<open>\<open>Path::file_name\<close>: the last component of a path, if it names a file. \<open>Path::parent\<close>: what is before it.\<close>

definition file_name :: "str \<Rightarrow> str option" where
  "file_name path =
    (case rev (filter (\<lambda>p. p \<noteq> [] \<and> p \<noteq> ''.'') (str_split (CHR ''/'') path)) of
       [] \<Rightarrow> None
     | p # _ \<Rightarrow> if p = ''..'' then None else Some p)"

definition safe_name :: "str \<Rightarrow> str" where
  "safe_name filename = (case file_name filename of Some n \<Rightarrow> n | None \<Rightarrow> ''upload'')"

definition parent_path :: "str \<Rightarrow> str" where
  "parent_path path = rev (drop 1 (dropWhile (\<lambda>c. c \<noteq> CHR ''/'') (rev path)))"

text \<open>\<open>remove_dir_all\<close>, of which what is stuck stays; its error is discarded.\<close>

definition remove_dir :: "str \<Rightarrow> file_store \<Rightarrow> file_store" where
  "remove_dir dir s = s\<lparr>st_disk := hm_retain (\<lambda>p _. prefix (dir @ ''/'') p \<longrightarrow> st_stuck s p) (st_disk s)\<rparr>"

section \<open>Removing\<close>

definition unlist :: "str \<Rightarrow> str \<Rightarrow> (str, str list) hmap \<Rightarrow> (str, str list) hmap" where
  "unlist session token m =
    (case hm_get session m of
       None \<Rightarrow> m
     | Some ts \<Rightarrow> let ts' = filter (\<lambda>t. t \<noteq> token) ts in if ts' = [] then hm_remove session m else hm_insert session ts' m)"

definition store_delete :: "str \<Rightarrow> file_store \<Rightarrow> bool \<times> file_store" where
  "store_delete token s =
    (case hm_get token (st_files s) of
       None \<Rightarrow> (False, s)
     | Some meta \<Rightarrow>
         (True, remove_dir (parent_path (sf_path meta))
            (s\<lparr>st_files := hm_remove token (st_files s), st_reserved := st_reserved s - sf_size meta,
               st_sessions := unlist (sf_session meta) token (st_sessions s)\<rparr>)))"

definition expired_tokens :: "int \<Rightarrow> file_store \<Rightarrow> str list" where
  "expired_tokens now s = map sf_token (filter (\<lambda>f. sf_created f < now - MAX_FILE_AGE) (hm_values (st_files s)))"

definition remove_expired :: "int \<Rightarrow> file_store \<Rightarrow> nat \<times> file_store" where
  "remove_expired now s =
    fold (\<lambda>t (n, s). case store_delete t s of (True, s') \<Rightarrow> (n + 1, s') | (False, s') \<Rightarrow> (n, s')) (expired_tokens now s) (0, s)"

definition store_get :: "int \<Rightarrow> str \<Rightarrow> file_store \<Rightarrow> stored_file option \<times> file_store" where
  "store_get now token s =
    (case hm_get token (st_files s) of
       None \<Rightarrow> (None, s)
     | Some f \<Rightarrow> if sf_created f < now - MAX_FILE_AGE then (None, snd (store_delete token s)) else (Some f, s))"

definition list_session :: "int \<Rightarrow> str \<Rightarrow> file_store \<Rightarrow> stored_file list" where
  "list_session now session s =
    (case hm_get session (st_sessions s) of
       None \<Rightarrow> []
     | Some ts \<Rightarrow> filter (\<lambda>f. sf_created f \<ge> now - MAX_FILE_AGE) (List.map_filter (\<lambda>t. hm_get t (st_files s)) ts))"

text \<open>The files of a session go from the index one by one under one lock, and from the disk afterwards.\<close>

fun drop_files :: "str list \<Rightarrow> file_store \<Rightarrow> str list \<times> file_store" where
  "drop_files [] s = ([], s)"
| "drop_files (t # ts) s =
    (case hm_get t (st_files s) of
       None \<Rightarrow> drop_files ts s
     | Some meta \<Rightarrow>
         (case drop_files ts (s\<lparr>st_files := hm_remove t (st_files s), st_reserved := st_reserved s - sf_size meta\<rparr>) of
            (dirs, s') \<Rightarrow> (parent_path (sf_path meta) # dirs, s')))"

definition cleanup_session :: "str \<Rightarrow> file_store \<Rightarrow> nat \<times> file_store" where
  "cleanup_session session s =
    (case hm_get session (st_sessions s) of
       None \<Rightarrow> (0, s)
     | Some ts \<Rightarrow>
         (case drop_files ts (s\<lparr>st_sessions := hm_remove session (st_sessions s)\<rparr>) of
            (dirs, s') \<Rightarrow> (length ts, fold remove_dir dirs s')))"

section \<open>Storing\<close>

definition pending_of :: "str \<Rightarrow> file_store \<Rightarrow> nat" where
  "pending_of session s = (case hm_get session (st_pending s) of Some n \<Rightarrow> n | None \<Rightarrow> 0)"

definition files_of :: "str \<Rightarrow> file_store \<Rightarrow> str list" where
  "files_of session s = (case hm_get session (st_sessions s) of Some ts \<Rightarrow> ts | None \<Rightarrow> [])"

definition store_reserve :: "str \<Rightarrow> nat \<Rightarrow> file_store \<Rightarrow> (file_store_error + unit) \<times> file_store" where
  "store_reserve session n s =
    (if length (files_of session s) + pending_of session s \<ge> MAX_FILES_PER_SESSION then (Inl TooManyFiles, s)
     else if st_reserved s + n > MAX_STORE_BYTES then (Inl StoreFull, s)
     else (Inr (), s\<lparr>st_pending := hm_insert session (pending_of session s + 1) (st_pending s), st_reserved := st_reserved s + n\<rparr>))"

text \<open>Moving the upload into its directory, with the error of the file system, if any. A file that cannot be renamed is copied, and the
  original may then be stuck.\<close>

definition store_dir :: "file_store \<Rightarrow> str \<Rightarrow> str" where
  "store_dir s token = st_root s @ ''/'' @ token"

definition move_upload :: "str \<Rightarrow> str \<Rightarrow> file_store \<Rightarrow> file_store" where
  "move_upload temp path s =
    (case hm_get temp (st_disk s) of
       Some content \<Rightarrow> s\<lparr>st_disk := hm_insert path content (if st_stuck s temp then st_disk s else hm_remove temp (st_disk s))\<rparr>
     | None \<Rightarrow> s)"

definition unpend :: "str \<Rightarrow> file_store \<Rightarrow> file_store" where
  "unpend session s =
    (case hm_get session (st_pending s) of
       None \<Rightarrow> s
     | Some n \<Rightarrow> s\<lparr>st_pending := (if n - 1 = 0 then hm_remove session (st_pending s) else hm_insert session (n - 1) (st_pending s))\<rparr>)"

definition store_finish ::
    "int \<Rightarrow> str \<Rightarrow> str option \<Rightarrow> str \<Rightarrow> bytes \<Rightarrow> str \<Rightarrow> str \<Rightarrow> str \<Rightarrow> nat \<Rightarrow> file_store \<Rightarrow> (file_store_error + stored_file) \<times> file_store" where
  "store_finish now token fault session user filename content_type temp n s =
    (let path = store_dir s token @ ''/'' @ safe_name filename in
     case fault of
       Some e \<Rightarrow> let s1 = unpend session s in (Inl (StoreIo e), remove_dir (store_dir s token) (s1\<lparr>st_reserved := st_reserved s1 - n\<rparr>))
     | None \<Rightarrow>
         let s1 = unpend session (move_upload temp path s);
             meta = \<lparr>sf_token = token, sf_session = session, sf_user = user, sf_filename = safe_name filename,
                     sf_content_type = content_type, sf_size = n, sf_path = path, sf_created = now\<rparr> in
         (Inr meta, s1\<lparr>st_files := hm_insert token meta (st_files s1),
                       st_sessions := hm_insert session (files_of session s1 @ [token]) (st_sessions s1)\<rparr>))"

definition store_from_path ::
    "int \<Rightarrow> str \<Rightarrow> str option \<Rightarrow> str \<Rightarrow> bytes \<Rightarrow> str \<Rightarrow> str \<Rightarrow> str \<Rightarrow> nat \<Rightarrow> file_store \<Rightarrow> (file_store_error + stored_file) \<times> file_store" where
  "store_from_path now token fault session user filename content_type temp n s =
    (if n > MAX_STORED_SIZE then (Inl StoreTooLarge, s)
     else and_do (store_reserve session n (snd (remove_expired now s)))
            (\<lambda>_. store_finish now token fault session user filename content_type temp n))"

text \<open>What an earlier process left of its uploads goes at the start; \<open>removable\<close> says which removals succeed.\<close>

definition UPLOAD_TEMP_PREFIX :: str where
  "UPLOAD_TEMP_PREFIX = ''strata-upload-''"

definition remove_orphaned_upload_temps :: "str \<Rightarrow> (str \<Rightarrow> bool) \<Rightarrow> str list \<Rightarrow> file_system \<Rightarrow> nat \<times> file_system" where
  "remove_orphaned_upload_temps temp_dir removable names disk =
    fold (\<lambda>name (n, d). if prefix UPLOAD_TEMP_PREFIX name \<and> removable name then (n + 1, hm_remove (temp_dir @ ''/'' @ name) d) else (n, d))
      names (0, disk)"

end
