(* ===== verification/File_Bounds.thy ===== *)
theory File_Bounds
  imports File_Store
begin

text \<open>
  The file store over time: uploads may be in flight while other operations run, and a request may be dropped in between.
  The invariant relates the index, the per-session lists, the counters and the uploads in flight.
\<close>

section \<open>The invariant\<close>

text \<open>An upload between its admission and its entry into the index: token, session and size.\<close>

type_synonym flight = "str \<times> str \<times> nat"

definition stored_bytes :: "file_store \<Rightarrow> nat" where
  "stored_bytes s = sum_list (map sf_size (hm_values (st_files s)))"

definition flight_bytes :: "flight list \<Rightarrow> nat" where
  "flight_bytes held = sum_list (map (\<lambda>(_, _, n). n) held)"

definition in_session :: "str \<Rightarrow> flight list \<Rightarrow> nat" where
  "in_session session held = length (filter (\<lambda>(_, s', _). s' = session) held)"

definition index_ok :: "file_store \<Rightarrow> bool" where
  "index_ok s \<longleftrightarrow>
     hm_wf (st_files s)
   \<and> (\<forall>t f. hm_get t (st_files s) = Some f \<longrightarrow> sf_token f = t \<and> t \<in> set (files_of (sf_session f) s))
   \<and> (\<forall>session. distinct (files_of session s)
       \<and> (\<forall>t \<in> set (files_of session s). \<exists>f. hm_get t (st_files s) = Some f \<and> sf_session f = session))"

definition counters_ok :: "file_store \<Rightarrow> flight list \<Rightarrow> bool" where
  "counters_ok s held \<longleftrightarrow>
     st_reserved s = stored_bytes s + flight_bytes held \<and> st_reserved s \<le> MAX_STORE_BYTES
   \<and> (\<forall>session. pending_of session s = in_session session held
       \<and> length (files_of session s) + in_session session held \<le> MAX_FILES_PER_SESSION)"

definition store_inv :: "file_store \<Rightarrow> flight list \<Rightarrow> bool" where
  "store_inv s held \<longleftrightarrow> index_ok s \<and> counters_ok s held"

lemma flight_simps [simp]:
  "flight_bytes [] = 0" "flight_bytes ((t, u, n) # held) = n + flight_bytes held" "flight_bytes (xs @ ys) = flight_bytes xs + flight_bytes ys"
  "in_session u [] = 0" "in_session u ((t, u', n) # held) = (if u' = u then 1 else 0) + in_session u held"
  "in_session u (xs @ ys) = in_session u xs + in_session u ys"
  by (simp_all add: flight_bytes_def in_session_def)

lemma files_of_remove_dir [simp]:
  "files_of u (remove_dir d s) = files_of u s" "pending_of u (remove_dir d s) = pending_of u s" "st_files (remove_dir d s) = st_files s"
  "st_reserved (remove_dir d s) = st_reserved s" "stored_bytes (remove_dir d s) = stored_bytes s"
  "st_pending (remove_dir d s) = st_pending s" "st_sessions (remove_dir d s) = st_sessions s" "st_root (remove_dir d s) = st_root s"
  "st_stuck (remove_dir d s) = st_stuck s"
  by (simp_all add: remove_dir_def files_of_def pending_of_def stored_bytes_def)

lemma inv_disk [simp]: "store_inv (remove_dir d s) held = store_inv s held"
  by (simp add: store_inv_def index_ok_def counters_ok_def)

lemma inv_fold_disk [simp]: "store_inv (fold remove_dir ds s) held = store_inv s held"
  by (induction ds arbitrary: s) simp_all

lemma files_of_unlist: "files_of u (s\<lparr>st_sessions := unlist v t (st_sessions s)\<rparr>) = (if u = v then filter (\<lambda>x. x \<noteq> t) (files_of u s) else files_of u s)"
  by (auto simp: files_of_def unlist_def Let_def split: option.splits)

lemma index_okI:
  assumes "hm_wf (st_files s)" "\<And>t f. hm_get t (st_files s) = Some f \<Longrightarrow> sf_token f = t \<and> t \<in> set (files_of (sf_session f) s)"
    and "\<And>u. distinct (files_of u s)" "\<And>u t. t \<in> set (files_of u s) \<Longrightarrow> \<exists>f. hm_get t (st_files s) = Some f \<and> sf_session f = u"
  shows "index_ok s"
  using assms by (simp add: index_ok_def)

lemma index_okD:
  assumes "index_ok s"
  shows "hm_wf (st_files s)" "distinct (files_of u s)"
    and "hm_get t (st_files s) = Some f \<Longrightarrow> sf_token f = t" "hm_get t (st_files s) = Some f \<Longrightarrow> t \<in> set (files_of (sf_session f) s)"
    and "t \<in> set (files_of u s) \<Longrightarrow> \<exists>f. hm_get t (st_files s) = Some f \<and> sf_session f = u"
    and "t \<in> set (files_of u s) \<Longrightarrow> hm_get t (st_files s) = Some f \<Longrightarrow> sf_session f = u"
  using assms unfolding index_ok_def by (blast, blast, blast, blast, blast, metis option.inject)

lemma counters_okD:
  assumes "store_inv s held"
  shows "st_reserved s = stored_bytes s + flight_bytes held" "st_reserved s \<le> MAX_STORE_BYTES"
    and "pending_of u s = in_session u held" "length (files_of u s) + in_session u held \<le> MAX_FILES_PER_SESSION"
  using assms by (auto simp: store_inv_def counters_ok_def)

lemma counters_okI:
  assumes "st_reserved s = stored_bytes s + flight_bytes held" "st_reserved s \<le> MAX_STORE_BYTES"
    and "\<And>u. pending_of u s = in_session u held" "\<And>u. length (files_of u s) + in_session u held \<le> MAX_FILES_PER_SESSION"
  shows "counters_ok s held"
  using assms by (simp add: counters_ok_def)

text \<open>Taking one file out of the index.\<close>

lemma inv_delete:
  assumes "store_inv s held"
  shows "store_inv (snd (store_delete t s)) held"
proof (cases "hm_get t (st_files s)")
  case (Some f)
  define s' where "s' = s\<lparr>st_files := hm_remove t (st_files s), st_reserved := st_reserved s - sf_size f,
    st_sessions := unlist (sf_session f) t (st_sessions s)\<rparr>"
  have fs: "files_of u s' = (if u = sf_session f then filter (\<lambda>x. x \<noteq> t) (files_of u s) else files_of u s)" for u
    using files_of_unlist [where u = u and s = s and v = "sf_session f" and t = t] by (simp add: s'_def files_of_def)
  have bytes: "stored_bytes s = sf_size f + stored_bytes s'"
    using assms Some hm_sum_remove [of "st_files s" t f sf_size] by (simp add: stored_bytes_def s'_def store_inv_def index_ok_def)
  have ok: "index_ok s" using assms by (simp add: store_inv_def)
  have get: "hm_get x (st_files s') = (if x = t then None else hm_get x (st_files s))" for x by (simp add: s'_def)
  have "index_ok s'"
  proof (rule index_okI)
    show "hm_wf (st_files s')" using index_okD(1) [OF ok] by (simp add: s'_def)
    show "sf_token g = x \<and> x \<in> set (files_of (sf_session g) s')" if "hm_get x (st_files s') = Some g" for x g
      using that index_okD(3,4) [OF ok, of x g] by (auto simp: get fs split: if_splits)
    show "distinct (files_of u s')" for u using index_okD(2) [OF ok] by (simp add: fs)
    show "\<exists>g. hm_get x (st_files s') = Some g \<and> sf_session g = u" if "x \<in> set (files_of u s')" for u x
      using that index_okD(5) [OF ok, of x u] index_okD(6) [OF ok _ Some, of u] by (auto simp: get fs split: if_splits)
  qed
  moreover have "counters_ok s' held"
    using assms bytes unfolding store_inv_def counters_ok_def fs
    by (auto simp: s'_def pending_of_def intro: le_trans [OF add_right_mono [OF length_filter_le]])
  ultimately have "store_inv s' held" by (simp add: store_inv_def)
  then show ?thesis by (simp add: store_delete_def Some s'_def)
qed (use assms in \<open>simp add: store_delete_def\<close>)

lemma inv_remove_expired:
  assumes "store_inv s held"
  shows "store_inv (snd (remove_expired now s)) held"
proof -
  have "store_inv (snd (fold (\<lambda>t (n, s). case store_delete t s of (True, s') \<Rightarrow> (n + 1, s') | (False, s') \<Rightarrow> (n, s')) ts (n, s))) held"
    if "store_inv s held" for ts and n :: nat and s
    using that
  proof (induction ts arbitrary: n s)
    case (Cons t ts)
    obtain b s' where d: "store_delete t s = (b, s')" by fastforce
    then have "store_inv s' held" using inv_delete [OF Cons.prems, of t] by simp
    then show ?case using Cons.IH d by (cases b) simp_all
  qed simp
  from this [OF assms] show ?thesis by (simp add: remove_expired_def)
qed

lemma inv_get: "store_inv s held \<Longrightarrow> store_inv (snd (store_get now t s)) held"
  using inv_delete by (auto simp: store_get_def split: option.splits)

text \<open>Dropping the files of a session: their tokens leave the index together.\<close>

lemma drop_files_index:
  assumes "drop_files ts s = (dirs, s')" "hm_wf (st_files s)" "stored_bytes s + k \<le> st_reserved s"
  shows "hm_wf (st_files s') \<and> (\<forall>t. hm_get t (st_files s') = (if t \<in> set ts then None else hm_get t (st_files s)))
    \<and> stored_bytes s' + k \<le> st_reserved s' \<and> st_reserved s' \<le> st_reserved s \<and> st_reserved s' + stored_bytes s = st_reserved s + stored_bytes s'
    \<and> st_sessions s' = st_sessions s \<and> st_pending s' = st_pending s \<and> st_disk s' = st_disk s"
  using assms
proof (induction ts s arbitrary: dirs s' rule: drop_files.induct)
  case (2 t ts s)
  show ?case
  proof (cases "hm_get t (st_files s)")
    case (Some f)
    define s1 where "s1 = s\<lparr>st_files := hm_remove t (st_files s), st_reserved := st_reserved s - sf_size f\<rparr>"
    obtain dirs1 where d: "drop_files ts s1 = (dirs1, s')" using 2(3) Some by (auto simp: s1_def split: prod.splits)
    have bytes: "stored_bytes s = sf_size f + stored_bytes s1"
      using 2(4) Some hm_sum_remove [of "st_files s" t f sf_size] by (simp add: stored_bytes_def s1_def)
    have le: "stored_bytes s1 + k \<le> st_reserved s1" and res: "st_reserved s = st_reserved s1 + sf_size f"
      using 2(5) bytes by (simp_all add: s1_def)
    have wf: "hm_wf (st_files s1)" using 2(4) by (simp add: s1_def)
    note ih = 2(2) [OF Some, folded s1_def, OF d wf le]
    have "hm_get x (st_files s1) = (if x = t then None else hm_get x (st_files s))" "st_sessions s1 = st_sessions s"
      "st_pending s1 = st_pending s" "st_disk s1 = st_disk s" for x by (simp_all add: s1_def)
    then show ?thesis using ih bytes res by simp
  next
    case None
    then have "drop_files ts s = (dirs, s')" using 2(3) by simp
    from 2(1) [OF None this 2(4,5)] None show ?thesis by auto
  qed
qed auto

lemma inv_cleanup:
  assumes inv: "store_inv s held"
  shows "store_inv (snd (cleanup_session u s)) held"
proof (cases "hm_get u (st_sessions s)")
  case (Some ts)
  let ?s = "s\<lparr>st_sessions := hm_remove u (st_sessions s)\<rparr>"
  obtain dirs s' where d: "drop_files ts ?s = (dirs, s')" by fastforce
  have bytes: "stored_bytes ?s = stored_bytes s" by (simp add: stored_bytes_def)
  have "hm_wf (st_files ?s)" "stored_bytes ?s + flight_bytes held \<le> st_reserved ?s"
    using inv bytes by (simp_all add: store_inv_def index_ok_def counters_ok_def)
  note out = drop_files_index [OF d this]
  have fs: "files_of v s' = (if v = u then [] else files_of v s)" for v using out by (simp add: files_of_def)
  have ts: "files_of u s = ts" by (simp add: files_of_def Some)
  have ok: "index_ok s" using inv by (simp add: store_inv_def)
  have get: "hm_get x (st_files s') = (if x \<in> set ts then None else hm_get x (st_files s))" for x using out by simp
  have "index_ok s'"
  proof (rule index_okI)
    show "hm_wf (st_files s')" using out by blast
    show "sf_token g = x \<and> x \<in> set (files_of (sf_session g) s')" if "hm_get x (st_files s') = Some g" for x g
      using that index_okD(3,4) [OF ok, of x g] ts by (auto simp: get fs split: if_splits)
    show "distinct (files_of v s')" for v using index_okD(2) [OF ok] by (simp add: fs)
    show "\<exists>g. hm_get x (st_files s') = Some g \<and> sf_session g = v" if "x \<in> set (files_of v s')" for v x
      using that index_okD(5) [OF ok, of x v] index_okD(6) [OF ok, of x u] ts by (auto simp: get fs split: if_splits)
  qed
  moreover have "counters_ok s' held"
    using inv out bytes unfolding store_inv_def counters_ok_def fs by (auto simp: pending_of_def intro: add_leD2)
  ultimately show ?thesis by (simp add: cleanup_session_def Some d store_inv_def [symmetric]) (simp add: store_inv_def)
qed (use inv in \<open>simp add: cleanup_session_def\<close>)

lemma inv_reserve:
  assumes "store_inv s held" "store_reserve u n s = (Inr (), s')"
  shows "store_inv s' ((t, u, n) # held)"
proof -
  have s': "s' = s\<lparr>st_pending := hm_insert u (pending_of u s + 1) (st_pending s), st_reserved := st_reserved s + n\<rparr>"
    and cap: "length (files_of u s) + pending_of u s < MAX_FILES_PER_SESSION" "st_reserved s + n \<le> MAX_STORE_BYTES"
    using assms(2) by (auto simp: store_reserve_def split: if_splits)
  have "files_of v s' = files_of v s" "stored_bytes s' = stored_bytes s" "st_files s' = st_files s"
    "pending_of v s' = (if v = u then 1 else 0) + pending_of v s" "st_reserved s' = st_reserved s + n" for v
    by (simp_all add: s' files_of_def stored_bytes_def pending_of_def)
  then show ?thesis using assms(1) cap by (auto simp: store_inv_def index_ok_def counters_ok_def)
qed

lemma pending_of_unpend: "pending_of v (unpend u s) = (if v = u then pending_of v s - 1 else pending_of v s)"
  by (auto simp: unpend_def pending_of_def split: option.splits)

lemma unpend_same [simp]:
  "files_of v (unpend u s) = files_of v s" "st_files (unpend u s) = st_files s" "st_reserved (unpend u s) = st_reserved s"
  "st_sessions (unpend u s) = st_sessions s" "st_sessions (move_upload temp p s) = st_sessions s"
  "stored_bytes (unpend u s) = stored_bytes s" "st_disk (unpend u s) = st_disk s"
  "files_of v (move_upload temp p s) = files_of v s" "st_files (move_upload temp p s) = st_files s" "pending_of v (move_upload temp p s) = pending_of v s"
  "st_reserved (move_upload temp p s) = st_reserved s" "stored_bytes (move_upload temp p s) = stored_bytes s"
  by (simp_all add: unpend_def move_upload_def files_of_def stored_bytes_def pending_of_def split: option.splits)

lemma inv_finish:
  assumes inv: "store_inv s (before @ (t, u, n) # later)" and fresh: "hm_get t (st_files s) = None"
    and step: "store_finish now t fault u user filename ct temp n s = (r, s')"
  shows "store_inv s' (before @ later)"
proof -
  have ok: "index_ok s" using inv by (simp add: store_inv_def)
  have c: "st_reserved s = stored_bytes s + n + flight_bytes (before @ later)" "st_reserved s \<le> MAX_STORE_BYTES"
    "pending_of v s = (if v = u then 1 else 0) + in_session v (before @ later)"
    "length (files_of v s) + (if v = u then 1 else 0) + in_session v (before @ later) \<le> MAX_FILES_PER_SESSION" for v
    using counters_okD(1,2) [OF inv] counters_okD(3,4) [OF inv, of v] by (simp_all split: if_splits)
  show ?thesis
  proof (cases fault)
    case (Some e)
    define s1 where "s1 = (unpend u s)\<lparr>st_reserved := st_reserved s - n\<rparr>"
    have same: "files_of v s1 = files_of v s" "st_files s1 = st_files s" "pending_of v s1 = pending_of v (unpend u s)" "stored_bytes s1 = stored_bytes s" for v
      using unpend_same(1) [of v u s] by (simp_all add: s1_def files_of_def pending_of_def stored_bytes_def)
    have "index_ok s1" using ok by (simp add: index_ok_def same)
    moreover have "counters_ok s1 (before @ later)"
    proof (rule counters_okI)
      show "pending_of v s1 = in_session v (before @ later)" for v using c(3) [of v] by (cases "v = u") (simp_all add: same pending_of_unpend)
      show "length (files_of v s1) + in_session v (before @ later) \<le> MAX_FILES_PER_SESSION" for v using c(4) [of v] by (simp add: same split: if_splits)
    qed (use c(1,2) same in \<open>simp_all add: s1_def\<close>)
    ultimately have "store_inv s1 (before @ later)" by (simp add: store_inv_def)
    then show ?thesis using step Some by (auto simp: store_finish_def s1_def Let_def)
  next
    case None
    define path where "path = store_dir s t @ ''/'' @ safe_name filename"
    define s1 where "s1 = unpend u (move_upload temp path s)"
    define meta where "meta = \<lparr>sf_token = t, sf_session = u, sf_user = user, sf_filename = safe_name filename, sf_content_type = ct,
      sf_size = n, sf_path = path, sf_created = now\<rparr>"
    have s': "s' = s1\<lparr>st_files := hm_insert t meta (st_files s1), st_sessions := hm_insert u (files_of u s1 @ [t]) (st_sessions s1)\<rparr>"
      using step None by (simp add: store_finish_def Let_def s1_def meta_def path_def)
    have fs: "files_of v s' = files_of v s @ (if v = u then [t] else [])" for v
      by (simp add: s' files_of_def s1_def)
    have get: "hm_get x (st_files s') = (if x = t then Some meta else hm_get x (st_files s))" for x by (simp add: s' s1_def)
    have pend: "pending_of v s' = pending_of v s - (if v = u then 1 else 0)" for v
    proof -
      have "pending_of v s' = pending_of v s1" by (simp add: s' pending_of_def)
      then show ?thesis by (simp add: s1_def pending_of_unpend)
    qed
    have bytes: "stored_bytes s' = stored_bytes s + n" "st_reserved s' = st_reserved s"
      using fresh hm_remove_absent [of t "st_files s"] by (simp_all add: stored_bytes_def s' hm_sum_insert s1_def meta_def)
    have new: "t \<notin> set (files_of v s)" for v using index_okD(5) [OF ok, of t v] fresh by auto
    have "index_ok s'"
    proof (rule index_okI)
      show "hm_wf (st_files s')" using index_okD(1) [OF ok] by (simp add: s' s1_def)
      show "sf_token g = x \<and> x \<in> set (files_of (sf_session g) s')" if "hm_get x (st_files s') = Some g" for x g
        using that index_okD(3,4) [OF ok, of x g] by (auto simp: get fs meta_def split: if_splits)
      show "distinct (files_of v s')" for v using index_okD(2) [OF ok] new by (simp add: fs)
      show "\<exists>g. hm_get x (st_files s') = Some g \<and> sf_session g = v" if "x \<in> set (files_of v s')" for v x
        using that index_okD(5) [OF ok, of x v] new by (auto simp: get fs meta_def split: if_splits)
    qed
    moreover have "counters_ok s' (before @ later)"
    proof (rule counters_okI)
      show "pending_of v s' = in_session v (before @ later)" for v using c(3) [of v] by (cases "v = u") (simp_all add: pend)
      show "length (files_of v s') + in_session v (before @ later) \<le> MAX_FILES_PER_SESSION" for v using c(4) [of v] by (simp add: fs split: if_splits)
    qed (use c(1,2) bytes in simp_all)
    ultimately show ?thesis by (simp add: store_inv_def)
  qed
qed

section \<open>Runs\<close>

text \<open>
  The states a store reaches, with the uploads in flight and those whose request was dropped while the file was being moved.
  A store begins empty; other files on the disk, and what is stuck there, may change at any time.
\<close>

inductive store_reach :: "file_store \<Rightarrow> flight list \<Rightarrow> flight list \<Rightarrow> bool" where
  start: "store_reach (file_store_new root stuck disk) [] []"
| admitting: "store_reach s flying lost \<Longrightarrow> n \<le> MAX_STORED_SIZE \<Longrightarrow> store_reserve u n s = (Inr (), s') \<Longrightarrow>
    hm_get t (st_files s) = None \<Longrightarrow> t \<notin> fst ` set (flying @ lost) \<Longrightarrow> store_reach s' ((t, u, n) # flying) lost"
| finishing: "store_reach s (before @ (t, u, n) # later) lost \<Longrightarrow> store_finish now t fault u user filename ct temp n s = (r, s') \<Longrightarrow>
    store_reach s' (before @ later) lost"
| dropping: "store_reach s (before @ f # later) lost \<Longrightarrow> store_reach s (before @ later) (f # lost)"
| deleting: "store_reach s flying lost \<Longrightarrow> store_reach (snd (store_delete t s)) flying lost"
| expiring: "store_reach s flying lost \<Longrightarrow> store_reach (snd (remove_expired now s)) flying lost"
| getting: "store_reach s flying lost \<Longrightarrow> store_reach (snd (store_get now t s)) flying lost"
| cleaning: "store_reach s flying lost \<Longrightarrow> store_reach (snd (cleanup_session u s)) flying lost"
| outside: "store_reach s flying lost \<Longrightarrow> store_reach (s\<lparr>st_disk := disk\<rparr>) flying lost"
| faulting: "store_reach s flying lost \<Longrightarrow> store_reach (s\<lparr>st_stuck := stuck\<rparr>) flying lost"

text \<open>Tokens in flight are apart from each other and from those in the index.\<close>

definition flights_ok :: "file_store \<Rightarrow> flight list \<Rightarrow> bool" where
  "flights_ok s held \<longleftrightarrow> distinct (map fst held) \<and> (\<forall>t \<in> fst ` set held. hm_get t (st_files s) = None)"

text \<open>Removals only take files out of the index.\<close>

definition shrinks :: "file_store \<Rightarrow> file_store \<Rightarrow> bool" where
  "shrinks s s' \<longleftrightarrow> (\<forall>t. hm_get t (st_files s') \<in> {None, hm_get t (st_files s)})"

lemma shrinks_refl [simp]: "shrinks s s"
  by (simp add: shrinks_def)

lemma shrinks_trans: "shrinks s s1 \<Longrightarrow> shrinks s1 s2 \<Longrightarrow> shrinks s s2"
  unfolding shrinks_def by (metis empty_iff insert_iff)

lemma flights_shrink: "flights_ok s held \<Longrightarrow> shrinks s s' \<Longrightarrow> flights_ok s' held"
  unfolding flights_ok_def shrinks_def by fastforce

lemma delete_shrinks: "shrinks s (snd (store_delete x s))"
  by (auto simp: store_delete_def shrinks_def split: option.splits)

lemma expired_shrinks: "shrinks s (snd (remove_expired now s))"
proof -
  have "shrinks s (snd (fold (\<lambda>t (n, s). case store_delete t s of (True, s') \<Rightarrow> (n + 1, s') | (False, s') \<Rightarrow> (n, s')) ts (n, s)))" for ts and n :: nat and s
  proof (induction ts arbitrary: n s)
    case (Cons x ts)
    obtain b s' where d: "store_delete x s = (b, s')" by fastforce
    then have "shrinks s s'" using delete_shrinks [of s x] by simp
    then show ?case using Cons.IH [where s = s'] d by (cases b) (auto intro: shrinks_trans)
  qed simp
  then show ?thesis by (simp add: remove_expired_def)
qed

lemma fold_remove_dir_files [simp]: "st_files (fold remove_dir ds s) = st_files s"
  by (induction ds arbitrary: s) simp_all

lemma drop_files_get:
  "drop_files ts s = (dirs, s') \<Longrightarrow> hm_get t (st_files s') = (if t \<in> set ts then None else hm_get t (st_files s))"
  by (induction ts s arbitrary: dirs s' rule: drop_files.induct) (auto split: option.splits prod.splits)

lemma cleanup_get:
  "hm_get t (st_files (snd (cleanup_session u s))) = (if t \<in> set (files_of u s) then None else hm_get t (st_files s))"
  by (auto simp: cleanup_session_def files_of_def split: option.splits prod.splits dest!: drop_files_get [where t = t])

lemma cleanup_shrinks: "shrinks s (snd (cleanup_session u s))"
  by (simp add: shrinks_def cleanup_get)

lemma get_shrinks: "shrinks s (snd (store_get now t s))"
  by (auto simp: store_get_def delete_shrinks split: option.splits)

lemma store_reach_inv: "store_reach s flying lost \<Longrightarrow> store_inv s (flying @ lost) \<and> flights_ok s (flying @ lost)"
proof (induction rule: store_reach.induct)
  case (start root stuck disk)
  then show ?case
    by (auto simp: store_inv_def flights_ok_def file_store_new_def files_of_def pending_of_def stored_bytes_def hm_values_def
        intro!: index_okI counters_okI)
next
  case (admitting s flying lost n u s' t)
  then have "st_files s' = st_files s" by (auto simp: store_reserve_def split: if_splits)
  with admitting inv_reserve [of s "flying @ lost" u n s' t] show ?case by (auto simp: flights_ok_def)
next
  case (finishing s before t u n later lost now fault user filename ct temp r s')
  have fresh: "hm_get t (st_files s) = None" and apart: "t \<notin> fst ` set ((before @ later) @ lost)"
    using finishing.IH by (auto simp: flights_ok_def)
  have "store_inv s' ((before @ later) @ lost)"
    using inv_finish [of s before t u n "later @ lost"] finishing fresh by simp
  moreover have "flights_ok s' ((before @ later) @ lost)"
  proof -
    have "hm_get x (st_files s') = None" if "x \<noteq> t" "hm_get x (st_files s) = None" for x
      using finishing.hyps(2) that by (auto simp: store_finish_def Let_def split: option.splits)
    moreover have "x \<noteq> t \<and> hm_get x (st_files s) = None" if "x \<in> fst ` set ((before @ later) @ lost)" for x
      using that apart finishing.IH by (auto simp: flights_ok_def)
    ultimately show ?thesis using finishing.IH by (simp add: flights_ok_def)
  qed
  ultimately show ?case by blast
next
  case (dropping s before f later lost)
  obtain t u n where f: "f = (t, u, n)" by (cases f)
  have perm: "flight_bytes ((before @ later) @ f # lost) = flight_bytes ((before @ f # later) @ lost)"
    "in_session v ((before @ later) @ f # lost) = in_session v ((before @ f # later) @ lost)" for v by (simp_all add: f)
  with dropping.IH show ?case by (auto simp: store_inv_def counters_ok_def perm flights_ok_def simp del: flight_simps)
next
  case (outside s flying lost disk)
  have "files_of v (s\<lparr>st_disk := disk\<rparr>) = files_of v s" "pending_of v (s\<lparr>st_disk := disk\<rparr>) = pending_of v s"
    "stored_bytes (s\<lparr>st_disk := disk\<rparr>) = stored_bytes s" for v by (simp_all add: files_of_def pending_of_def stored_bytes_def)
  with outside.IH show ?case by (simp add: store_inv_def index_ok_def counters_ok_def flights_ok_def)
next
  case (faulting s flying lost stuck)
  have "files_of v (s\<lparr>st_stuck := stuck\<rparr>) = files_of v s" "pending_of v (s\<lparr>st_stuck := stuck\<rparr>) = pending_of v s"
    "stored_bytes (s\<lparr>st_stuck := stuck\<rparr>) = stored_bytes s" for v by (simp_all add: files_of_def pending_of_def stored_bytes_def)
  with faulting.IH show ?case by (simp add: store_inv_def index_ok_def counters_ok_def flights_ok_def)
qed (auto intro: inv_delete inv_remove_expired inv_get inv_cleanup flights_shrink delete_shrinks expired_shrinks cleanup_shrinks get_shrinks)

section \<open>What holds of every run\<close>

text \<open>C21: however uploads, downloads, deletions, expiry and disconnects interleave, the store never holds more than ten gibibytes and a
  session never more than twenty files; the index and the lists of the sessions agree; and the byte counter is what is stored,
  what is in flight and what was admitted for requests that were dropped, so what those claimed is never given back.\<close>

theorem file_store_bounded:
  assumes "store_reach s flying lost"
  shows "stored_bytes s \<le> MAX_STORE_BYTES \<and> (\<forall>u. length (files_of u s) \<le> MAX_FILES_PER_SESSION)
    \<and> (\<forall>t f. hm_get t (st_files s) = Some f \<longrightarrow> t \<in> set (files_of (sf_session f) s))
    \<and> (\<forall>u t. t \<in> set (files_of u s) \<longrightarrow> (\<exists>f. hm_get t (st_files s) = Some f \<and> sf_session f = u))
    \<and> st_reserved s = stored_bytes s + flight_bytes flying + flight_bytes lost
    \<and> (\<forall>u. pending_of u s = in_session u flying + in_session u lost)"
proof -
  have inv: "store_inv s (flying @ lost)" using store_reach_inv [OF assms] by blast
  then have ok: "index_ok s" by (simp add: store_inv_def)
  have "stored_bytes s \<le> MAX_STORE_BYTES" using counters_okD(1,2) [OF inv] by simp
  moreover have "length (files_of u s) \<le> MAX_FILES_PER_SESSION" for u using counters_okD(4) [OF inv, of u] by simp
  moreover have "st_reserved s = stored_bytes s + flight_bytes flying + flight_bytes lost" using counters_okD(1) [OF inv] by simp
  moreover have "pending_of u s = in_session u flying + in_session u lost" for u using counters_okD(3) [OF inv] by simp
  ultimately show ?thesis using index_okD(4,5) [OF ok] by blast
qed

theorem file_store_bounded_witness:
  "\<exists>s'. store_reach s' [(''t'', ''u'', 5)] [] \<and> st_reserved s' = 5"
proof -
  let ?s = "(file_store_new ''r'' (\<lambda>_. False) [])\<lparr>st_pending := hm_insert ''u'' 1 [], st_reserved := 5\<rparr>"
  have "store_reach ?s [(''t'', ''u'', 5)] []"
    by (rule store_reach.admitting [OF store_reach.start [of "''r''" "\<lambda>_. False" "[]"], of 5 "''u''"])
      (simp_all add: store_reserve_def file_store_new_def files_of_def pending_of_def bound_simps)
  from this file_store_bounded [OF this] show ?thesis by (intro exI [of _ ?s]) simp
qed

section \<open>Where the files are\<close>

lemma str_split_no_sep: "w \<in> set (str_split sep s) \<Longrightarrow> sep \<notin> set w"
  by (induction s arbitrary: w) (auto split: if_splits list.splits)

lemma safe_name_no_slash: "CHR ''/'' \<notin> set (safe_name n)"
proof -
  have "CHR ''/'' \<notin> set p" if "file_name n = Some p" for p
  proof -
    from that obtain ps where "rev (filter (\<lambda>p. p \<noteq> [] \<and> p \<noteq> ''.'') (str_split (CHR ''/'') n)) = p # ps"
      by (cases "rev (filter (\<lambda>p. p \<noteq> [] \<and> p \<noteq> ''.'') (str_split (CHR ''/'') n))") (simp_all add: file_name_def split: if_splits)
    then have "p \<in> set (rev (filter (\<lambda>p. p \<noteq> [] \<and> p \<noteq> ''.'') (str_split (CHR ''/'') n)))" by (metis list.set_intros(1))
    then have "p \<in> set (str_split (CHR ''/'') n)" by simp
    then show ?thesis by (rule str_split_no_sep)
  qed
  then show ?thesis by (auto simp: safe_name_def split: option.split)
qed

lemma parent_path_file: "CHR ''/'' \<notin> set name \<Longrightarrow> parent_path (dir @ ''/'' @ name) = dir"
proof -
  assume "CHR ''/'' \<notin> set name"
  then have "dropWhile (\<lambda>c. c \<noteq> CHR ''/'') (rev name) = []" by auto
  then have "dropWhile (\<lambda>c. c \<noteq> CHR ''/'') (rev name @ CHR ''/'' # rev dir) = CHR ''/'' # rev dir" by (simp add: dropWhile_append3)
  then show ?thesis by (simp add: parent_path_def)
qed

text \<open>Every file of the index lies alone in the directory of its token.\<close>

definition laid_out :: "str \<Rightarrow> str \<Rightarrow> stored_file \<Rightarrow> bool" where
  "laid_out root t f \<longleftrightarrow> (\<exists>name. sf_path f = (root @ ''/'' @ t) @ ''/'' @ name \<and> CHR ''/'' \<notin> set name)"

definition layout_ok :: "file_store \<Rightarrow> bool" where
  "layout_ok s \<longleftrightarrow> (\<forall>t f. hm_get t (st_files s) = Some f \<longrightarrow> laid_out (st_root s) t f)"

lemma layout_shrink: "layout_ok s \<Longrightarrow> shrinks s s' \<Longrightarrow> st_root s' = st_root s \<Longrightarrow> layout_ok s'"
  unfolding layout_ok_def shrinks_def by (metis empty_iff insert_iff option.distinct(1))

lemma delete_root [simp]: "st_root (snd (store_delete t s)) = st_root s"
  by (simp add: store_delete_def split: option.split)

lemma expired_root [simp]: "st_root (snd (remove_expired now s)) = st_root s"
proof -
  have "st_root (snd (fold (\<lambda>t (n, s). case store_delete t s of (True, s') \<Rightarrow> (n + 1, s') | (False, s') \<Rightarrow> (n, s')) ts (n, s))) = st_root s" for ts and n :: nat and s
  proof (induction ts arbitrary: n s)
    case (Cons x ts)
    obtain b s' where d: "store_delete x s = (b, s')" by fastforce
    then have "st_root s' = st_root s" using delete_root [of x s] by simp
    then show ?case using Cons.IH [where s = s'] d by (cases b) auto
  qed simp
  then show ?thesis by (simp add: remove_expired_def)
qed

lemma drop_files_same: "drop_files ts s = (dirs, s') \<Longrightarrow> st_root s' = st_root s \<and> st_disk s' = st_disk s \<and> st_stuck s' = st_stuck s \<and> st_pending s' = st_pending s"
  by (induction ts s arbitrary: dirs s' rule: drop_files.induct) (auto split: option.splits prod.splits)

lemma fold_remove_dir_same [simp]:
  "st_root (fold remove_dir ds s) = st_root s" "st_stuck (fold remove_dir ds s) = st_stuck s" "st_pending (fold remove_dir ds s) = st_pending s"
  "st_reserved (fold remove_dir ds s) = st_reserved s"
  by (induction ds arbitrary: s) simp_all

lemma cleanup_root [simp]: "st_root (snd (cleanup_session u s)) = st_root s"
  by (auto simp: cleanup_session_def split: option.splits prod.splits dest: drop_files_same)

lemma get_root [simp]: "st_root (snd (store_get now t s)) = st_root s"
  by (simp add: store_get_def split: option.split)

lemma store_reach_layout: "store_reach s flying lost \<Longrightarrow> layout_ok s"
proof (induction rule: store_reach.induct)
  case (finishing s before t u n later lost now fault user filename ct temp r s')
  have "laid_out (st_root s) t f" if "sf_path f = store_dir s t @ ''/'' @ safe_name filename" for f
    using that safe_name_no_slash [of filename] by (auto simp: laid_out_def store_dir_def)
  moreover have "st_root s' = st_root s"
    using finishing.hyps(2) by (auto simp: store_finish_def Let_def unpend_def move_upload_def split: option.splits)
  ultimately show ?case
    using finishing.IH finishing.hyps(2)
    by (auto simp: layout_ok_def store_finish_def Let_def split: option.splits if_splits)
next
  case (admitting s flying lost n u s' t)
  then show ?case by (auto simp: layout_ok_def store_reserve_def split: if_splits)
next
  case (deleting s flying lost t)
  show ?case by (rule layout_shrink [OF deleting.IH delete_shrinks]) simp
next
  case (expiring s flying lost now)
  show ?case by (rule layout_shrink [OF expiring.IH expired_shrinks]) simp
next
  case (getting s flying lost now t)
  show ?case by (rule layout_shrink [OF getting.IH get_shrinks]) simp
next
  case (cleaning s flying lost u)
  show ?case by (rule layout_shrink [OF cleaning.IH cleanup_shrinks]) simp
qed (auto simp: layout_ok_def file_store_new_def)

lemma drop_files_dirs:
  "drop_files ts s = (dirs, s') \<Longrightarrow> set dirs = {parent_path (sf_path f) | f. \<exists>t \<in> set ts. hm_get t (st_files s) = Some f}"
proof (induction ts s arbitrary: dirs s' rule: drop_files.induct)
  case (2 x ts s)
  show ?case
  proof (cases "hm_get x (st_files s)")
    case None
    with 2(1) [OF None] 2(3) show ?thesis by auto
  next
    case (Some g)
    obtain dirs1 where d: "drop_files ts (s\<lparr>st_files := hm_remove x (st_files s), st_reserved := st_reserved s - sf_size g\<rparr>) = (dirs1, s')"
      "dirs = parent_path (sf_path g) # dirs1" using 2(3) Some by (auto split: prod.splits)
    show ?thesis unfolding d(2) list.set(2) 2(2) [OF Some d(1)] using Some by (auto split: if_splits) (metis option.inject)
  qed
qed simp

lemma fold_remove_dir_disk:
  "hm_wf (st_disk s) \<Longrightarrow> hm_get p (st_disk (fold remove_dir ds s)) =
    (if (\<exists>d \<in> set ds. prefix (d @ ''/'') p) \<and> \<not> st_stuck s p then None else hm_get p (st_disk s))"
proof (induction ds arbitrary: s)
  case (Cons x ds)
  have wf: "hm_wf (st_disk (remove_dir x s))" using Cons.prems by (simp add: remove_dir_def)
  have "hm_get p (st_disk (remove_dir x s)) = (if prefix (x @ ''/'') p \<and> \<not> st_stuck s p then None else hm_get p (st_disk s))"
    using Cons.prems by (simp add: remove_dir_def hm_get_retain split: option.split)
  then show ?case using Cons.IH [OF wf] by auto
qed simp

lemma token_prefix:
  assumes "prefix ((root @ ''/'' @ t) @ ''/'') ((root @ ''/'' @ t') @ ''/'' @ name)" "CHR ''/'' \<notin> set t" "CHR ''/'' \<notin> set t'"
  shows "t = t'"
proof -
  from assms(1) have "prefix (t @ ''/'') (t' @ ''/'' @ name)" by simp
  then obtain rest where "t @ CHR ''/'' # rest = t' @ CHR ''/'' # name" by (auto simp: prefix_def)
  then have "takeWhile (\<lambda>c. c \<noteq> CHR ''/'') (t @ CHR ''/'' # rest) = takeWhile (\<lambda>c. c \<noteq> CHR ''/'') (t' @ CHR ''/'' # name)" by simp
  moreover have "takeWhile (\<lambda>c. c \<noteq> CHR ''/'') t = t" "takeWhile (\<lambda>c. c \<noteq> CHR ''/'') t' = t'"
    using assms(2,3) by (auto simp: takeWhile_eq_all_conv)
  ultimately show ?thesis by (simp add: takeWhile_tail)
qed

lemma cleanup_disk:
  assumes "store_reach s flying lost" "hm_wf (st_disk s)" "\<forall>t. hm_get t (st_files s) \<noteq> None \<longrightarrow> CHR ''/'' \<notin> set t"
    and "hm_get t (st_files s) = Some f"
  shows "hm_get (sf_path f) (st_disk (snd (cleanup_session u s))) =
    (if sf_session f = u \<and> \<not> st_stuck s (sf_path f) then None else hm_get (sf_path f) (st_disk s))"
proof (cases "hm_get u (st_sessions s)")
  case None
  have "t \<in> set (files_of (sf_session f) s)" using index_okD(4) [OF _ assms(4)] store_reach_inv [OF assms(1)] by (simp add: store_inv_def)
  then have "sf_session f \<noteq> u" using None by (auto simp: files_of_def)
  with None show ?thesis by (simp add: cleanup_session_def)
next
  case (Some ts)
  have ok: "index_ok s" using store_reach_inv [OF assms(1)] by (simp add: store_inv_def)
  have ts: "files_of u s = ts" using Some by (simp add: files_of_def)
  let ?s = "s\<lparr>st_sessions := hm_remove u (st_sessions s)\<rparr>"
  obtain dirs s1 where d: "drop_files ts ?s = (dirs, s1)" by fastforce
  have dir: "parent_path (sf_path g) = st_root s @ ''/'' @ x" if g: "hm_get x (st_files s) = Some g" for x g
  proof -
    obtain name where "sf_path g = (st_root s @ ''/'' @ x) @ ''/'' @ name" "CHR ''/'' \<notin> set name"
      using store_reach_layout [OF assms(1)] g unfolding layout_ok_def laid_out_def by blast
    then show ?thesis by (metis parent_path_file)
  qed
  obtain name where path: "sf_path f = (st_root s @ ''/'' @ t) @ ''/'' @ name"
    using store_reach_layout [OF assms(1)] assms(4) by (auto simp: layout_ok_def laid_out_def)
  have "(\<exists>d \<in> set dirs. prefix (d @ ''/'') (sf_path f)) \<longleftrightarrow> t \<in> set ts"
  proof
    assume "\<exists>d \<in> set dirs. prefix (d @ ''/'') (sf_path f)"
    then obtain x g where x: "x \<in> set ts" "hm_get x (st_files s) = Some g" "prefix ((st_root s @ ''/'' @ x) @ ''/'') (sf_path f)"
      using drop_files_dirs [OF d] dir by auto
    have "x = t" by (rule token_prefix [OF x(3) [unfolded path]]) (use assms(3,4) x(2) in auto)
    with x(1) show "t \<in> set ts" by simp
  next
    assume "t \<in> set ts"
    then have "parent_path (sf_path f) \<in> set dirs" using drop_files_dirs [OF d] assms(4) by auto
    then show "\<exists>d \<in> set dirs. prefix (d @ ''/'') (sf_path f)"
      by (rule bexI [rotated]) (unfold dir [OF assms(4)], simp add: path)
  qed
  moreover have "t \<in> set ts \<longleftrightarrow> sf_session f = u" using index_okD(4,6) [OF ok] assms(4) ts by blast
  moreover have "st_disk s1 = st_disk s" "st_stuck s1 = st_stuck s" using drop_files_same [OF d] by simp_all
  ultimately show ?thesis
    using fold_remove_dir_disk [of s1 "sf_path f" dirs] assms(2) by (simp add: cleanup_session_def Some d)
qed

text \<open>C39: when a session ends, no file is left under it: every file indexed under it is gone from the index, and from the disk unless the
  file system refuses to remove it, which nobody is told. The bytes of its files can be claimed again; the slots its uploads in flight hold
  stay theirs. No other session loses a file, neither in the index nor on the disk. Tokens are the text of identifiers, without a slash.\<close>

theorem cleanup_removes_session_files:
  assumes "store_reach s flying lost" "hm_wf (st_disk s)" "\<forall>t. hm_get t (st_files s) \<noteq> None \<longrightarrow> CHR ''/'' \<notin> set t"
    and "s' = snd (cleanup_session u s)"
  shows "files_of u s' = [] \<and> pending_of u s' = pending_of u s
    \<and> st_reserved s' + stored_bytes s = st_reserved s + stored_bytes s'
    \<and> (\<forall>t f. hm_get t (st_files s) = Some f \<longrightarrow> sf_session f = u \<longrightarrow> hm_get t (st_files s') = None
         \<and> (\<not> st_stuck s (sf_path f) \<longrightarrow> hm_get (sf_path f) (st_disk s') = None))
    \<and> (\<forall>t f. hm_get t (st_files s) = Some f \<longrightarrow> sf_session f \<noteq> u \<longrightarrow> hm_get t (st_files s') = Some f
         \<and> hm_get (sf_path f) (st_disk s') = hm_get (sf_path f) (st_disk s))"
proof -
  have ok: "index_ok s" using store_reach_inv [OF assms(1)] by (simp add: store_inv_def)
  have inv': "store_inv s' (flying @ lost)" "index_ok s'"
    using store_reach_inv [OF store_reach.cleaning [OF assms(1), of u]] by (simp_all add: store_inv_def assms(4))
  have get: "hm_get t (st_files s') = (if t \<in> set (files_of u s) then None else hm_get t (st_files s))" for t
    using cleanup_get by (simp add: assms(4))
  have "files_of u s' = []"
  proof (rule ccontr)
    assume "files_of u s' \<noteq> []"
    then obtain t where t: "t \<in> set (files_of u s')" by (cases "files_of u s'") auto
    from index_okD(5) [OF inv'(2) this] obtain f where f: "hm_get t (st_files s') = Some f" "sf_session f = u" by blast
    then show False using get index_okD(4) [OF ok, of t f] by (auto split: if_splits)
  qed
  moreover have "pending_of u s' = pending_of u s" "st_reserved s' + stored_bytes s = st_reserved s + stored_bytes s'"
    using counters_okD(1,3) [OF inv'(1)] counters_okD(1,3) [OF store_reach_inv [OF assms(1), THEN conjunct1]] by simp_all
  moreover have "hm_get t (st_files s') = None" if "hm_get t (st_files s) = Some f" "sf_session f = u" for t f
    using get index_okD(4) [OF ok that(1)] that(2) by simp
  moreover have "hm_get t (st_files s') = Some f" if "hm_get t (st_files s) = Some f" "sf_session f \<noteq> u" for t f
    using that get index_okD(6) [OF ok, of t u f] by auto
  moreover have "hm_get (sf_path f) (st_disk s') = (if sf_session f = u \<and> \<not> st_stuck s (sf_path f) then None else hm_get (sf_path f) (st_disk s))"
    if "hm_get t (st_files s) = Some f" for t f unfolding assms(4) by (rule cleanup_disk [OF assms(1-3) that])
  ultimately show ?thesis by (intro conjI allI impI) simp_all
qed

theorem cleanup_removes_session_files_witness:
  "\<exists>s. hm_get ''r/t/f'' (st_disk s) = Some [1] \<and> hm_get ''t'' (st_files (snd (cleanup_session ''u'' s))) = None
    \<and> hm_get ''r/t/f'' (st_disk (snd (cleanup_session ''u'' s))) = None"
proof -
  let ?s0 = "(file_store_new ''r'' (\<lambda>_. False) [(''x'', [1])])\<lparr>st_pending := hm_insert ''u'' 1 [], st_reserved := 5\<rparr>"
  obtain r s where fin: "store_finish 0 ''t'' None ''u'' [] ''f'' ''c'' ''x'' 5 ?s0 = (r, s)" by fastforce
  have "store_reach ?s0 ([] @ (''t'', ''u'', 5) # []) []"
    using store_reach.admitting [OF store_reach.start [of "''r''" "\<lambda>_. False" "[(''x'', [1])]"], of 5 "''u''" ?s0 "''t''"]
    by (simp add: store_reserve_def file_store_new_def files_of_def pending_of_def bound_simps)
  from store_reach.finishing [OF this fin] have reach: "store_reach s [] []" by simp
  have s: "hm_get t (st_files s) = (if t = ''t'' then Some \<lparr>sf_token = ''t'', sf_session = ''u'', sf_user = [], sf_filename = ''f'', sf_content_type = ''c'',
      sf_size = 5, sf_path = ''r/t/f'', sf_created = 0\<rparr> else None)" "hm_wf (st_disk s)" "hm_get ''r/t/f'' (st_disk s) = Some [1]" "\<not> st_stuck s p" for t p
    using fin by (auto simp: store_finish_def Let_def file_store_new_def move_upload_def hm_retain_def hm_get_def hm_wf_def hm_insert_def hm_remove_def unpend_def
        store_dir_def safe_name_def file_name_def)
  have "\<forall>t. hm_get t (st_files s) \<noteq> None \<longrightarrow> CHR ''/'' \<notin> set t" by (simp add: s(1))
  note clean = cleanup_removes_session_files [OF reach s(2) this refl, of "''u''"]
  obtain f where f: "hm_get ''t'' (st_files s) = Some f" "sf_session f = ''u''" "sf_path f = ''r/t/f''" by (simp add: s(1))
  have "hm_get ''t'' (st_files (snd (cleanup_session ''u'' s))) = None" "hm_get ''r/t/f'' (st_disk (snd (cleanup_session ''u'' s))) = None"
    using clean f s(4) by metis+
  with s(3) show ?thesis by blast
qed

text \<open>Requests dropped while their file is moved keep their slots: after twenty of them a session can upload nothing any more.\<close>

lemma dropped_uploads_lock_session:
  assumes "store_reach s flying lost" "in_session u lost \<ge> MAX_FILES_PER_SESSION"
  shows "store_reserve u n s = (Inl TooManyFiles, s)"
proof -
  have "pending_of u s \<ge> MAX_FILES_PER_SESSION"
    using store_reach_inv [OF assms(1)] counters_okD(3) [of s "flying @ lost" u] assms(2) by simp
  then show ?thesis by (simp add: store_reserve_def)
qed

text \<open>An upload admitted before its session ended and finished afterwards stays in the store.\<close>

lemma late_upload_survives_cleanup:
  assumes "store_finish now t None u user filename ct temp n (snd (cleanup_session u s)) = (r, s')"
  shows "\<exists>f. hm_get t (st_files s') = Some f \<and> sf_session f = u"
  using assms by (auto simp: store_finish_def Let_def)

end
