(* ===== verification/File_Routes.thy ===== *)
theory File_Routes
  imports File_Bounds Share_Safety
begin

text \<open>
  The handlers of Quick Share, \<open>backend/src/routes/files.rs\<close>: upload, public download with its rate limit, listing and deletion.
  The signature library is the argument \<open>infer_mime\<close>; the registry of live sessions is a predicate on connection and user;
  temporary files, the scanner and the application's state are those of \<open>route_env\<close>.
\<close>

section \<open>Content types\<close>

definition HEAD_BYTES :: nat where "HEAD_BYTES = 512"

definition MIME_ALIASES :: "(str \<times> str list) list" where
  "MIME_ALIASES =
    [(''application/zip'', [''application/x-zip-compressed'', ''application/x-zip'']),
     (''application/x-rar-compressed'', [''application/vnd.rar'']),
     (''application/x-7z-compressed'', [''application/7z'']),
     (''application/gzip'', [''application/x-gzip'']),
     (''image/png'', [''image/x-png'']),
     (''image/jpeg'', [''image/jpg'', ''image/pjpeg''])]"

definition mime_aliases_match :: "str \<Rightarrow> str \<Rightarrow> bool" where
  "mime_aliases_match detected claimed =
    (let d = to_ascii_lowercase detected; c = to_ascii_lowercase claimed in
     list_ex (\<lambda>(canonical, aliases). let canonical = to_ascii_lowercase canonical in
       (d = canonical \<and> list_ex (\<lambda>a. eq_ignore_ascii_case a c) aliases) \<or> (c = canonical \<and> list_ex (\<lambda>a. eq_ignore_ascii_case a d) aliases))
       MIME_ALIASES)"

definition mime_char :: "char \<Rightarrow> bool" where
  "mime_char c \<longleftrightarrow> ascii_alphanumeric c \<or> c \<in> {CHR ''/'', CHR ''.'', CHR ''+'', CHR ''-''}"

text \<open>\<open>reads\<close> is what one read of the reopened file gives, or an error of opening or reading it.\<close>

definition sniff_mime :: "(bytes \<Rightarrow> str option) \<Rightarrow> (str + str) + bytes \<Rightarrow> str \<Rightarrow> gate_error + str" where
  "sniff_mime infer_mime reads claimed =
    (case reads of
       Inl (Inl e) \<Rightarrow> Inl (Internal (''Failed to reopen upload: '' @ e))
     | Inl (Inr e) \<Rightarrow> Inl (Internal (''Failed to read upload head: '' @ e))
     | Inr head \<Rightarrow>
         let c = trim claimed; generic = (c = [] \<or> eq_ignore_ascii_case c ''application/octet-stream'') in
         case infer_mime head of
           Some d \<Rightarrow>
             if generic \<or> eq_ignore_ascii_case d c \<or> mime_aliases_match d c then Inr d
             else Inl (Validation (''Declared content type '' @ [CHR 0x27] @ c @ [CHR 0x27] @ '' does not match detected '' @ [CHR 0x27] @ d @ [CHR 0x27]))
         | None \<Rightarrow>
             if generic then Inr ''application/octet-stream''
             else if \<not> list_all mime_char c \<or> CHR ''/'' \<notin> set c then Inl (Validation (''Invalid content type: '' @ c))
             else Inr c)"

section \<open>Upload\<close>

text \<open>
  The store with the audit rows and the table of the download limit. Of a call: whether a connection of a user is live, the
  first bytes of a file, the clock, the new token and the fault of the move, if any.
\<close>

record quick_db =
  qk_store :: file_store
  qk_audit :: "(bytes option \<times> str) list"
  qk_limits :: "(str, int list) hmap"

record quick_env =
  qe_route :: route_env
  qe_live :: "bytes \<Rightarrow> bytes \<Rightarrow> bool"
  qe_infer :: "bytes \<Rightarrow> str option"
  qe_head :: "bytes \<Rightarrow> (str + str) + bytes"
  qe_now :: int
  qe_token :: str
  qe_move :: "str option"

record quick_form =
  qf_session :: "str option"
  qf_file :: "(str \<times> str \<times> nat) option"

record file_upload_response =
  fr_token :: str
  fr_filename :: str
  fr_size :: nat
  fr_content_type :: str
  fr_url :: str

definition quick_url :: "str \<Rightarrow> str" where
  "quick_url token = ''/api/files/'' @ token"

definition set_disk :: "file_system \<Rightarrow> quick_db \<Rightarrow> quick_db" where
  "set_disk disk q = q\<lparr>qk_store := (qk_store q)\<lparr>st_disk := disk\<rparr>\<rparr>"

text \<open>The cap on the file is the same number as that of an outbound share.\<close>

definition quick_file_field :: "quick_env \<Rightarrow> form_field \<Rightarrow> quick_form \<Rightarrow> quick_db \<Rightarrow> (gate_error + quick_form) \<times> quick_db" where
  "quick_file_field env f p q =
    (let rt = qe_route env in
     if qf_session p = None then (Inl (Validation ''session_id must precede the file''), q)
     else if qf_file p \<noteq> None then (Inl (Validation ''Only one file per upload''), q)
     else case re_create rt of
       Some e \<Rightarrow> (Inl (Internal (''Failed to create temp file: '' @ e)), q)
     | None \<Rightarrow>
         (case write_chunks rt 0 [] (ff_chunks f) of
            Inl e \<Rightarrow> (Inl e, set_disk (hm_insert (re_temp rt) [] (st_disk (qk_store q))) q)
          | Inr content \<Rightarrow>
              (Inr (p\<lparr>qf_file := Some (case ff_filename f of Some n \<Rightarrow> n | None \<Rightarrow> ''upload'',
                        case ff_content_type f of Some t \<Rightarrow> t | None \<Rightarrow> ''application/octet-stream'', length content)\<rparr>),
               set_disk (hm_insert (re_temp rt) content (st_disk (qk_store q))) q)))"

definition quick_field :: "quick_env \<Rightarrow> bytes \<Rightarrow> form_field \<Rightarrow> quick_form \<Rightarrow> quick_db \<Rightarrow> (gate_error + quick_form) \<times> quick_db" where
  "quick_field env user f p q =
    (let name = (case ff_name f of Some n \<Rightarrow> n | None \<Rightarrow> []) in
     if name = ''session_id'' then
       (case ff_text f of
          Inl e \<Rightarrow> (Inl (Validation (''Invalid session_id: '' @ e)), q)
        | Inr text \<Rightarrow>
            (case re_uuid (qe_route env) text of
               None \<Rightarrow> (Inl (Validation ''Invalid session_id''), q)
             | Some connection \<Rightarrow>
                 if \<not> qe_live env connection user then (Inl Forbidden, q) else (Inr (p\<lparr>qf_session := Some text\<rparr>), q)))
     else if name = ''file'' then quick_file_field env f p q
     else (Inr p, q))"

fun quick_fields :: "quick_env \<Rightarrow> bytes \<Rightarrow> (str + form_field) list \<Rightarrow> quick_form \<Rightarrow> quick_db \<Rightarrow> (gate_error + quick_form) \<times> quick_db" where
  "quick_fields env user [] p q = (Inr p, q)"
| "quick_fields env user (Inl e # body_fields) p q = (Inl (Validation (''Malformed upload: '' @ e)), q)"
| "quick_fields env user (Inr f # body_fields) p q = and_do (quick_field env user f p q) (quick_fields env user body_fields)"

definition quick_parsed :: "quick_form \<Rightarrow> gate_error + str \<times> str \<times> str \<times> nat" where
  "quick_parsed p =
    and_then (ok_or (qf_session p) (Validation ''Missing session_id field'')) (\<lambda>session.
    and_then (ok_or (qf_file p) (Validation ''Missing file field'')) (\<lambda>(filename, claimed, n). Inr (session, filename, claimed, n)))"

definition quick_admit :: "quick_env \<Rightarrow> auth_user \<Rightarrow> str \<Rightarrow> quick_db \<Rightarrow> (gate_error + str) \<times> quick_db" where
  "quick_admit env user claimed q =
    (let rt = qe_route env;
         content = (case hm_get (re_temp rt) (st_disk (qk_store q)) of Some c \<Rightarrow> c | None \<Rightarrow> []) in
     and_do (sniff_mime (qe_infer env) (qe_head env (take HEAD_BYTES content)) claimed, q) (\<lambda>content_type q.
       let v = av_scan (re_scan rt) (re_av rt) (re_temp rt) in
       if blocks v (av_fail_mode (re_av rt))
       then (Inl (Validation (user_facing_block_message v)),
             if re_db rt then q\<lparr>qk_audit := qk_audit q @ [(Some (au_id user), ''file.av_blocked'')]\<rparr> else q)
       else (Inr content_type, q)))"

text \<open>The temporary file goes on every way out, unless it is stuck.\<close>

definition quick_drop_temp :: "quick_env \<Rightarrow> quick_db \<Rightarrow> quick_db" where
  "quick_drop_temp env q =
    (let temp = re_temp (qe_route env) in
     if st_stuck (qk_store q) temp then q else set_disk (hm_remove temp (st_disk (qk_store q))) q)"

definition upload_route ::
    "quick_env \<Rightarrow> auth_user \<Rightarrow> (str + form_field) list \<Rightarrow> quick_db \<Rightarrow> (gate_error + file_upload_response) \<times> quick_db" where
  "upload_route env user body_fields q =
    and_do (check_quick_share_permission user, q) (\<lambda>_ q.
    if \<not> re_running (qe_route env) then (Inl SetupRequired, q)
    else
      (case and_do (quick_fields env (au_id user) body_fields \<lparr>qf_session = None, qf_file = None\<rparr> q) (\<lambda>p q.
            and_do (quick_parsed p, q) (\<lambda>(session, filename, claimed, n) q.
            and_do (quick_admit env user claimed q) (\<lambda>content_type q.
              (case store_from_path (qe_now env) (qe_token env) (qe_move env) session (au_id user) filename content_type
                      (re_temp (qe_route env)) n (qk_store q) of
                 (Inl e, s) \<Rightarrow> (Inl (Validation (show_store_error e)), q\<lparr>qk_store := s\<rparr>)
               | (Inr meta, s) \<Rightarrow>
                   (Inr \<lparr>fr_token = sf_token meta, fr_filename = sf_filename meta, fr_size = sf_size meta,
                         fr_content_type = sf_content_type meta, fr_url = quick_url (sf_token meta)\<rparr>, q\<lparr>qk_store := s\<rparr>))))) of
         (r, q1) \<Rightarrow> (r, quick_drop_temp env q1)))"

section \<open>Download, listing, deletion\<close>

definition MAX_DOWNLOADS_PER_IP :: nat where [bound_simps]: "MAX_DOWNLOADS_PER_IP = 60"
definition DOWNLOAD_WINDOW :: int where [bound_simps]: "DOWNLOAD_WINDOW = 60000000000"
definition MAX_DOWNLOAD_RATE_ENTRIES :: nat where [bound_simps]: "MAX_DOWNLOAD_RATE_ENTRIES = 50000"

definition recent :: "int \<Rightarrow> int list \<Rightarrow> int list" where
  "recent now attempts = filter (\<lambda>t. t > now - DOWNLOAD_WINDOW) attempts"

definition trim_limits :: "int \<Rightarrow> (str, int list) hmap \<Rightarrow> (str, int list) hmap" where
  "trim_limits now m =
    (if hm_len m > MAX_DOWNLOAD_RATE_ENTRIES
     then let m' = filter (\<lambda>(_, ts). ts \<noteq> []) (map (\<lambda>(ip, ts). (ip, recent now ts)) m)
          in if hm_len m' > MAX_DOWNLOAD_RATE_ENTRIES then [] else m'
     else m)"

definition download_limit :: "int \<Rightarrow> str \<Rightarrow> (str, int list) hmap \<Rightarrow> (gate_error + unit) \<times> (str, int list) hmap" where
  "download_limit now ip m =
    (let m1 = trim_limits now m; attempts = recent now (case hm_get ip m1 of Some ts \<Rightarrow> ts | None \<Rightarrow> []) in
     if length attempts \<ge> MAX_DOWNLOADS_PER_IP
     then (Inl (Auth ''Too many download requests. Please try again later.''), hm_insert ip attempts m1)
     else (Inr (), hm_insert ip (attempts @ [now]) m1))"

text \<open>The client address is the stamped one, or that of the socket; \<open>url_encode\<close> is the encoding crate.\<close>

definition quick_client_ip :: "str \<Rightarrow> str \<Rightarrow> str" where
  "quick_client_ip stamped socket = (if stamped = ''unknown'' then socket else stamped)"

definition quick_disposition :: "(str \<Rightarrow> str) \<Rightarrow> str \<Rightarrow> str" where
  "quick_disposition url_encode filename =
    ''attachment; filename='' @ [CHR 0x22] @ map (\<lambda>c. if c = CHR 0x22 then CHR 0x27 else c) filename @ [CHR 0x22]
    @ ''; filename*=UTF-8'' @ [CHR 0x27, CHR 0x27] @ url_encode filename"

definition quick_download ::
    "(str \<Rightarrow> str) \<Rightarrow> str option \<Rightarrow> int \<Rightarrow> int \<Rightarrow> str \<Rightarrow> str \<Rightarrow> quick_db \<Rightarrow> (gate_error + str \<times> str \<times> nat \<times> bytes) \<times> quick_db" where
  "quick_download url_encode open_fault instant now ip token q =
    (case download_limit instant ip (qk_limits q) of
       (Inl e, m) \<Rightarrow> (Inl e, q\<lparr>qk_limits := m\<rparr>)
     | (Inr _, m) \<Rightarrow>
         (case store_get now token (qk_store q) of
            (None, s) \<Rightarrow> (Inl (NotFound ''File not found or expired''), q\<lparr>qk_limits := m, qk_store := s\<rparr>)
          | (Some meta, s) \<Rightarrow>
              (case (open_fault, hm_get (sf_path meta) (st_disk s)) of
                 (Some e, _) \<Rightarrow> (Inl (Internal (''Failed to read file: '' @ e)), q\<lparr>qk_limits := m, qk_store := s\<rparr>)
               | (None, None) \<Rightarrow> (Inl (Internal (''Failed to read file: '' @ show_file_error NoSuchFile)), q\<lparr>qk_limits := m, qk_store := s\<rparr>)
               | (None, Some content) \<Rightarrow>
                   (Inr (sf_content_type meta, quick_disposition url_encode (sf_filename meta), sf_size meta, content),
                    q\<lparr>qk_limits := m, qk_store := s\<rparr>))))"

definition list_session_files :: "int \<Rightarrow> auth_user \<Rightarrow> str \<Rightarrow> quick_db \<Rightarrow> (str \<times> str \<times> nat \<times> str \<times> str \<times> int) list" where
  "list_session_files now user session q =
    map (\<lambda>f. (sf_token f, sf_filename f, sf_size f, sf_content_type f, quick_url (sf_token f), sf_created f))
      (filter (\<lambda>f. sf_user f = au_id user \<or> has_any_admin_permission (au_perms user)) (list_session now session (qk_store q)))"

definition delete_file :: "int \<Rightarrow> auth_user \<Rightarrow> str \<Rightarrow> quick_db \<Rightarrow> (gate_error + unit) \<times> quick_db" where
  "delete_file now user token q =
    (case store_get now token (qk_store q) of
       (None, s) \<Rightarrow> (Inl (NotFound ''File not found''), q\<lparr>qk_store := s\<rparr>)
     | (Some meta, s) \<Rightarrow>
         if sf_user meta \<noteq> au_id user \<and> \<not> has_any_admin_permission (au_perms user) then (Inl Forbidden, q\<lparr>qk_store := s\<rparr>)
         else (Inr (), q\<lparr>qk_store := snd (store_delete token s)\<rparr>))"

definition token_ref :: "(bytes \<Rightarrow> bytes) \<Rightarrow> str \<Rightarrow> str" where
  "token_ref sha256 token = hex_encode (take 6 (sha256 (as_bytes token)))"

section \<open>Which session an upload counts for\<close>

lemma store_from_path_reach:
  assumes "store_reach s flying lost" "t \<notin> fst ` set (flying @ lost)" "hm_get t (st_files s) = None"
    and "store_from_path now t fault u user filename ct temp n s = (r, s')"
  shows "store_reach s' flying lost"
proof (cases "n > MAX_STORED_SIZE")
  case False
  let ?s = "snd (remove_expired now s)"
  have reach: "store_reach ?s flying lost" by (rule store_reach.expiring [OF assms(1)])
  have fresh: "hm_get t (st_files ?s) = None" using expired_shrinks [of s now] assms(3) by (auto simp: shrinks_def)
  obtain r1 s1 where res: "store_reserve u n ?s = (r1, s1)" by fastforce
  show ?thesis
  proof (cases r1)
    case (Inl e)
    then have "s1 = ?s" using res by (auto simp: store_reserve_def split: if_splits)
    with Inl res assms(4) False reach show ?thesis by (simp add: store_from_path_def)
  next
    case (Inr x)
    have "store_reach s1 ([] @ (t, u, n) # flying) lost"
      using store_reach.admitting [OF reach _ _ fresh assms(2)] res Inr False by simp
    from store_reach.finishing [OF this] Inr res assms(4) False show ?thesis by (auto simp: store_from_path_def)
  qed
qed (use assms in \<open>simp add: store_from_path_def\<close>)

lemma store_from_path_ok:
  assumes "store_from_path now t fault u user filename ct temp n s = (Inr meta, s')"
  shows "sf_token meta = t \<and> sf_session meta = u \<and> hm_get t (st_files s') = Some meta"
  using assms by (auto simp: store_from_path_def store_finish_def and_do_eq Let_def split: if_splits option.splits)

text \<open>What a form of a session field and a file is taken for.\<close>

lemma quick_fields_session:
  assumes "quick_fields env user [Inr f, Inr g] \<lparr>qf_session = None, qf_file = None\<rparr> q = (Inr p, q')"
    and "ff_name f = Some ''session_id''" "ff_name g = Some ''file''"
  shows "\<exists>connection. ff_text f = Inr (the (qf_session p)) \<and> re_uuid (qe_route env) (the (qf_session p)) = Some connection
    \<and> qe_live env connection user \<and> qf_session p \<noteq> None \<and> (\<exists>disk. q' = set_disk disk q)"
  using assms
  by (auto simp: quick_field_def quick_file_field_def and_do_def Let_def set_disk_def split: sum.splits option.splits prod.splits if_splits)

lemma quick_admit_store: "quick_admit env user claimed q = (r, q') \<Longrightarrow> qk_store q' = qk_store q"
  by (auto simp: quick_admit_def and_do_def Let_def split: sum.splits if_splits)

lemma quick_drop_temp_store: "\<exists>disk. qk_store (quick_drop_temp env q) = (qk_store q)\<lparr>st_disk := disk\<rparr>"
  by (cases "st_stuck (qk_store q) (re_temp (qe_route env))")
    (auto simp: quick_drop_temp_def set_disk_def intro: exI [of _ "st_disk (qk_store q)"])

lemma upload_route_ok:
  assumes "upload_route env user body_fields q = (Inr resp, q')"
  obtains p q1 ct n filename meta s where "quick_fields env (au_id user) body_fields \<lparr>qf_session = None, qf_file = None\<rparr> q = (Inr p, q1)"
    "store_from_path (qe_now env) (qe_token env) (qe_move env) (the (qf_session p)) (au_id user) filename ct (re_temp (qe_route env)) n (qk_store q1)
      = (Inr meta, s)" "fr_token resp = sf_token meta" "\<exists>disk. qk_store q' = s\<lparr>st_disk := disk\<rparr>"
proof -
  let ?form = "\<lparr>qf_session = None, qf_file = None\<rparr>"
  obtain p q1 where p: "quick_fields env (au_id user) body_fields ?form q = (Inr p, q1)"
    using assms by (auto simp: upload_route_def and_do_def split: sum.splits prod.splits if_splits)
  then obtain session filename claimed n where f: "quick_parsed p = Inr (session, filename, claimed, n)"
    using assms by (auto simp: upload_route_def and_do_def split: sum.splits prod.splits if_splits)
  then have "session = the (qf_session p)" by (auto simp: quick_parsed_def and_then_def ok_or_def split: option.splits prod.splits)
  moreover obtain ct q2 where a: "quick_admit env user claimed q1 = (Inr ct, q2)"
    using assms p f by (auto simp: upload_route_def and_do_def split: sum.splits prod.splits if_splits)
  moreover note quick_admit_store [OF a]
  ultimately obtain meta s where "store_from_path (qe_now env) (qe_token env) (qe_move env) (the (qf_session p)) (au_id user) filename ct
      (re_temp (qe_route env)) n (qk_store q1) = (Inr meta, s)" "fr_token resp = sf_token meta" "q' = quick_drop_temp env (q2\<lparr>qk_store := s\<rparr>)"
    using assms p f by (auto simp: upload_route_def and_do_def split: sum.splits prod.splits if_splits)
  with p quick_drop_temp_store [of env "q2\<lparr>qk_store := s\<rparr>"] show ?thesis by (intro that) simp_all
qed

text \<open>The session of an upload is the text of the field, not the connection it parses to. Under any other spelling of the
  connection's id that parses, for example in capitals or without dashes, a file is stored that does not count among the
  files of the session and that stays when the session ends.\<close>

lemma other_spelling_escapes_session:
  assumes "upload_route env user [Inr f, Inr g] q = (Inr resp, q')" "ff_name f = Some ''session_id''" "ff_name g = Some ''file''"
    and "ff_text f = Inr text" "text \<noteq> uuid_str connection"
    and "store_reach (qk_store q) flying lost" "qe_token env \<notin> fst ` set (flying @ lost)" "hm_get (qe_token env) (st_files (qk_store q)) = None"
  shows "fr_token resp \<notin> set (files_of (uuid_str connection) (qk_store q'))
    \<and> (\<exists>meta. hm_get (fr_token resp) (st_files (snd (cleanup_session (uuid_str connection) (qk_store q')))) = Some meta)"
proof (rule upload_route_ok [OF assms(1)])
  fix p q1 ct n filename meta s
  assume p: "quick_fields env (au_id user) [Inr f, Inr g] \<lparr>qf_session = None, qf_file = None\<rparr> q = (Inr p, q1)"
    and store: "store_from_path (qe_now env) (qe_token env) (qe_move env) (the (qf_session p)) (au_id user) filename ct (re_temp (qe_route env)) n
      (qk_store q1) = (Inr meta, s)"
    and token: "fr_token resp = sf_token meta" and s: "\<exists>disk. qk_store q' = s\<lparr>st_disk := disk\<rparr>"
  from quick_fields_session [OF p assms(2,3)] assms(4) obtain disk where session: "the (qf_session p) = text" and q1: "q1 = set_disk disk q" by auto
  have meta: "sf_token meta = qe_token env" "sf_session meta = text" "hm_get (qe_token env) (st_files s) = Some meta"
    using store_from_path_ok [OF store] session by simp_all
  have "store_reach (qk_store q1) flying lost" "hm_get (qe_token env) (st_files (qk_store q1)) = None"
    using store_reach.outside [OF assms(6)] assms(8) by (simp_all add: q1 set_disk_def)
  from store_from_path_reach [OF this(1) assms(7) this(2) store] s have reach: "store_reach (qk_store q') flying lost"
    using store_reach.outside by metis
  then have ok: "index_ok (qk_store q')" using store_reach_inv by (simp add: store_inv_def)
  have get: "hm_get (fr_token resp) (st_files (qk_store q')) = Some meta" using s meta token by auto
  have "fr_token resp \<notin> set (files_of (uuid_str connection) (qk_store q'))"
    using index_okD(6) [OF ok _ get, of "uuid_str connection"] meta(2) assms(5) by auto
  then show ?thesis using get by (simp add: cleanup_get)
qed

definition quick_run :: quick_env where
  "quick_run = \<lparr>qe_route = run_route\<lparr>re_uuid := (\<lambda>_. Some [1])\<rparr>, qe_live = (\<lambda>_ _. True), qe_infer = (\<lambda>_. None), qe_head = (\<lambda>bs. Inr bs),
     qe_now = 0, qe_token = ''k'', qe_move = None\<rparr>"

definition quick_user :: auth_user where
  "quick_user = run_user\<lparr>au_perms := (au_perms run_user)\<lparr>can_use_quick_share := True\<rparr>\<rparr>"

definition quick_body :: "form_field \<times> form_field" where
  "quick_body =
    (\<lparr>ff_name = Some ''session_id'', ff_text = Inr ''X'', ff_filename = None, ff_content_type = None, ff_chunks = []\<rparr>,
     \<lparr>ff_name = Some ''file'', ff_text = Inr [], ff_filename = Some ''f'', ff_content_type = Some [], ff_chunks = [Inr [1]]\<rparr>)"

definition quick_start :: quick_db where
  "quick_start = \<lparr>qk_store = file_store_new ''r'' (\<lambda>_. False) [], qk_audit = [], qk_limits = []\<rparr>"

lemma quick_run_ok: "\<exists>resp q'. upload_route quick_run quick_user [Inr (fst quick_body), Inr (snd quick_body)] quick_start = (Inr resp, q')"
proof -
  have "quick_fields quick_run (au_id quick_user) [Inr (fst quick_body), Inr (snd quick_body)] \<lparr>qf_session = None, qf_file = None\<rparr> quick_start
      = (Inr \<lparr>qf_session = Some ''X'', qf_file = Some (''f'', [], 1)\<rparr>, set_disk (hm_insert ''t'' [1] []) quick_start)"
    by (simp add: quick_field_def quick_file_field_def quick_body_def quick_run_def run_route_def set_disk_def quick_start_def file_store_new_def
        hm_retain_def MAX_SHARE_SIZE_def)
  moreover have "quick_admit quick_run quick_user [] (set_disk (hm_insert ''t'' [1] []) quick_start)
      = (Inr ''application/octet-stream'', set_disk (hm_insert ''t'' [1] []) quick_start)"
    by (simp add: quick_admit_def quick_run_def run_route_def set_disk_def quick_start_def file_store_new_def sniff_mime_def trim_def av_scan_def blocks_def)
  ultimately show ?thesis
    by (simp add: upload_route_def check_quick_share_permission_def quick_user_def run_user_def quick_parsed_def ok_or_def quick_run_def run_route_def
        set_disk_def quick_start_def file_store_new_def store_from_path_def remove_expired_def expired_tokens_def hm_values_def store_reserve_def
        files_of_def pending_of_def bound_simps store_finish_def Let_def)
qed

end
