(* ===== verification/Session_Registry.thy ===== *)
theory Session_Registry
  imports Rust_Text Hash_Map
begin

text \<open>
  The registry of live sessions with the replay buffer of each, \<open>backend/src/services/session_registry.rs\<close>, and what the viewer of a shared
  session is sent of it, \<open>backend/src/routes/share.rs\<close>. A buffer is shared by reference: the registry's entry, the tunnel that draws into it and
  every viewer hold a handle, and the buffer lives until the last of them is gone, so the live buffers are a heap of their own. The
  memory budget they share is a record of its counters; a push sees one number of open buffers. Instants are nanoseconds.
\<close>

section \<open>The budget\<close>

definition MAX_BUFFER_DURATION :: int where [bound_simps]: "MAX_BUFFER_DURATION = 300000000000"
definition MAX_BUFFER_BYTES :: nat where [bound_simps]: "MAX_BUFFER_BYTES = 50 * 1024 * 1024"
definition MAX_PERSISTENT_STATE_BYTES :: nat where [bound_simps]: "MAX_PERSISTENT_STATE_BYTES = 20 * 1024 * 1024"
definition MAX_SESSIONS :: nat where [bound_simps]: "MAX_SESSIONS = 500"
definition DEFAULT_NVR_BUDGET_MB :: nat where [bound_simps]: "DEFAULT_NVR_BUDGET_MB = 1024"
definition USIZE_MAX :: nat where [bound_simps]: "USIZE_MAX = 18446744073709551615"

record nvr_budget =
  nb_limit :: nat
  nb_used :: nat
  nb_buffers :: nat

definition nvr_budget_new :: "nat \<Rightarrow> nvr_budget" where
  "nvr_budget_new limit = \<lparr>nb_limit = limit, nb_used = 0, nb_buffers = 0\<rparr>"

definition usize_saturating_mul :: "nat \<Rightarrow> nat \<Rightarrow> nat" where
  "usize_saturating_mul a b = min USIZE_MAX (a * b)"

definition nvr_budget_from_env :: "str option \<Rightarrow> nvr_budget" where
  "nvr_budget_from_env var =
    (let mb = (case var of
           None \<Rightarrow> DEFAULT_NVR_BUDGET_MB
         | Some v \<Rightarrow> (case parse_uint 64 (trim v) of Some n \<Rightarrow> if n > 0 then n else DEFAULT_NVR_BUDGET_MB | None \<Rightarrow> DEFAULT_NVR_BUDGET_MB))
     in nvr_budget_new (usize_saturating_mul mb (1024 * 1024)))"

definition nvr_share :: "nvr_budget \<Rightarrow> nat" where
  "nvr_share nb = nb_limit nb div max (nb_buffers nb) 1"

definition nvr_caps :: "nvr_budget \<Rightarrow> nat \<times> nat" where
  "nvr_caps nb =
    (let share = nvr_share nb; total = MAX_BUFFER_BYTES + MAX_PERSISTENT_STATE_BYTES in
     (min MAX_BUFFER_BYTES (usize_saturating_mul share MAX_BUFFER_BYTES div total),
      min MAX_PERSISTENT_STATE_BYTES (usize_saturating_mul share MAX_PERSISTENT_STATE_BYTES div total)))"

section \<open>Instructions\<close>

text \<open>\<open>str::split_inclusive\<close>: the pieces with the separator at their end.\<close>

fun split_inclusive :: "char \<Rightarrow> str \<Rightarrow> str list" where
  "split_inclusive sep [] = []"
| "split_inclusive sep (c # s) =
    (if c = sep then [c] # split_inclusive sep s
     else case split_inclusive sep s of [] \<Rightarrow> [[c]] | w # ws \<Rightarrow> (c # w) # ws)"

definition until_stop :: "str \<Rightarrow> str" where
  "until_stop s = takeWhile (\<lambda>c. c \<noteq> CHR '','' \<and> c \<noteq> CHR '';'') s"

definition parse_opcode :: "str \<Rightarrow> str option" where
  "parse_opcode inst =
    (case split_once (CHR ''.'') inst of
       None \<Rightarrow> None
     | Some (len_str, rest) \<Rightarrow>
         (case parse_uint 64 len_str of
            None \<Rightarrow> None
          | Some declared_len \<Rightarrow> if length (until_stop rest) \<noteq> declared_len then None else Some (until_stop rest)))"

definition SENSITIVE_OPCODES :: "str list" where
  "SENSITIVE_OPCODES = [''connect'', ''args'']"

definition sensitive :: "str \<Rightarrow> bool" where
  "sensitive inst = (case parse_opcode (trim inst) of Some op \<Rightarrow> op \<in> set SENSITIVE_OPCODES | None \<Rightarrow> False)"

definition filter_sensitive_instructions :: "str \<Rightarrow> str" where
  "filter_sensitive_instructions s = concat (filter (\<lambda>inst. trim inst \<noteq> [] \<and> \<not> sensitive inst) (split_inclusive (CHR '';'') s))"

section \<open>The buffer\<close>

record buffered_frame =
  bf_time :: int
  bf_data :: str
  bf_size :: nat

record session_buffer =
  sb_frames :: "buffered_frame list"
  sb_total :: nat
  sb_last_size :: "str option"
  sb_persistent :: "str list"
  sb_persistent_bytes :: nat
  sb_accounted :: nat

definition buffer_new :: session_buffer where
  "buffer_new = \<lparr>sb_frames = [], sb_total = 0, sb_last_size = None, sb_persistent = [], sb_persistent_bytes = 0, sb_accounted = 0\<rparr>"

definition EPHEMERAL_OPCODES :: "str list" where
  "EPHEMERAL_OPCODES = [''4.sync'', ''3.nop'', ''3.key'', ''5.mouse'']"

definition persistent_instructions :: "str \<Rightarrow> str list" where
  "persistent_instructions s = filter (\<lambda>inst. trim inst \<noteq> [] \<and> until_stop (trim inst) \<notin> set EPHEMERAL_OPCODES) (split_inclusive (CHR '';'') s)"

fun drop_oldest :: "nat \<Rightarrow> str list \<Rightarrow> nat \<Rightarrow> str list \<times> nat" where
  "drop_oldest cap [] n = ([], n)"
| "drop_oldest cap (p # ps) n = (if n > cap then drop_oldest cap ps (n - length p) else (p # ps, n))"

definition salvage :: "nat \<Rightarrow> str \<Rightarrow> session_buffer \<Rightarrow> session_buffer" where
  "salvage cap s b =
    (let insts = persistent_instructions s;
         (ps, n) = drop_oldest cap (sb_persistent b @ insts) (sb_persistent_bytes b + sum_list (map length insts))
     in b\<lparr>sb_persistent := ps, sb_persistent_bytes := n\<rparr>)"

definition pop_front :: "nat \<Rightarrow> buffered_frame \<Rightarrow> buffered_frame list \<Rightarrow> session_buffer \<Rightarrow> session_buffer" where
  "pop_front cap f fs b = salvage cap (bf_data f) (b\<lparr>sb_frames := fs, sb_total := sb_total b - bf_size f\<rparr>)"

lemma pop_front_frames [simp]: "sb_frames (pop_front cap f fs b) = fs"
  by (simp add: pop_front_def salvage_def Let_def split: prod.splits)

function evict_old :: "nat \<Rightarrow> int \<Rightarrow> session_buffer \<Rightarrow> session_buffer" where
  "evict_old cap cutoff b =
    (case sb_frames b of
       [] \<Rightarrow> b
     | f # fs \<Rightarrow> if bf_time f < cutoff then evict_old cap cutoff (pop_front cap f fs b) else b)"
  by pat_completeness auto
termination
  by (relation "measure (\<lambda>(cap, cutoff, b). length (sb_frames b))") auto

function evict_excess :: "nat \<Rightarrow> nat \<Rightarrow> session_buffer \<Rightarrow> session_buffer" where
  "evict_excess ring_cap cap b =
    (if sb_total b > ring_cap
     then (case sb_frames b of [] \<Rightarrow> b | f # fs \<Rightarrow> evict_excess ring_cap cap (pop_front cap f fs b))
     else b)"
  by pat_completeness auto
termination
  by (relation "measure (\<lambda>(ring_cap, cap, b). length (sb_frames b))") auto

declare evict_old.simps [simp del] evict_excess.simps [simp del]

definition last_size_of :: "str \<Rightarrow> str option \<Rightarrow> str option" where
  "last_size_of s old =
    (if str_contains ''.size,'' s
     then fold (\<lambda>inst acc. if trim inst \<noteq> [] \<and> str_contains ''.size,'' (trim inst) then Some (trim inst @ '';'') else acc) (str_split (CHR '';'') s) old
     else old)"

definition account :: "session_buffer \<Rightarrow> nvr_budget \<Rightarrow> session_buffer \<times> nvr_budget" where
  "account b nb =
    (let now = sb_total b + sb_persistent_bytes b in
     (b\<lparr>sb_accounted := now\<rparr>,
      nb\<lparr>nb_used := (if now > sb_accounted b then nb_used nb + (now - sb_accounted b) else nb_used nb - (sb_accounted b - now))\<rparr>))"

text \<open>\<open>stamp\<close> is the time of the new frame, \<open>now\<close> the later reading the age is measured from.\<close>

definition buffer_push :: "int \<Rightarrow> int \<Rightarrow> str \<Rightarrow> session_buffer \<Rightarrow> nvr_budget \<Rightarrow> session_buffer \<times> nvr_budget" where
  "buffer_push stamp now s b nb =
    (let filtered = filter_sensitive_instructions s in
     if filtered = [] then (b, nb)
     else
       let (ring_cap, cap) = nvr_caps nb;
           b1 = b\<lparr>sb_last_size := last_size_of filtered (sb_last_size b),
                  sb_frames := sb_frames b @ [\<lparr>bf_time = stamp, bf_data = filtered, bf_size = length filtered\<rparr>],
                  sb_total := sb_total b + length filtered\<rparr>
       in account (evict_excess ring_cap cap (evict_old cap (now - MAX_BUFFER_DURATION) b1)) nb)"

definition frames_with_timing :: "int \<Rightarrow> int \<Rightarrow> session_buffer \<Rightarrow> (int \<times> str) list" where
  "frames_with_timing now offset_secs b =
    (let selected = filter (\<lambda>f. bf_time f \<ge> now - offset_secs * 1000000000) (sb_frames b) in
     map (\<lambda>f. (max 0 (bf_time f - bf_time (hd selected)) div 1000000, bf_data f)) selected)"

definition buffer_depth_secs :: "session_buffer \<Rightarrow> int" where
  "buffer_depth_secs b = (if sb_frames b = [] then 0 else max 0 (bf_time (last (sb_frames b)) - bf_time (hd (sb_frames b))) div 1000000000)"

definition persistent_state :: "session_buffer \<Rightarrow> str" where
  "persistent_state b = concat (sb_persistent b)"

section \<open>The registry\<close>

text \<open>Channels are left out but for the kill signal, which is there until it has been sent.\<close>

record active_session =
  as_session_id :: str
  as_connection :: bytes
  as_connection_name :: str
  as_protocol :: str
  as_user :: bytes
  as_username :: str
  as_started :: int
  as_buffer :: nat
  as_bytes_down :: nat
  as_bytes_up :: nat
  as_remote_host :: str
  as_client_ip :: str
  as_kill :: bool

text \<open>The live buffers by address, and the handles that tunnels and viewers have on them, one entry for each handle.\<close>

record session_registry =
  sr_sessions :: "(str, active_session) hmap"
  sr_live :: "(nat, session_buffer) hmap"
  sr_handles :: "nat list"
  sr_next :: nat
  sr_budget :: nvr_budget

definition session_registry_new :: "nat \<Rightarrow> session_registry" where
  "session_registry_new limit = \<lparr>sr_sessions = [], sr_live = [], sr_handles = [], sr_next = 0, sr_budget = nvr_budget_new limit\<rparr>"

definition buffer_held :: "nat \<Rightarrow> session_registry \<Rightarrow> bool" where
  "buffer_held n r \<longleftrightarrow> n \<in> set (sr_handles r) \<or> n \<in> as_buffer ` set (hm_values (sr_sessions r))"

definition buffer_drop :: "session_buffer \<Rightarrow> nvr_budget \<Rightarrow> nvr_budget" where
  "buffer_drop b nb = nb\<lparr>nb_used := nb_used nb - sb_accounted b, nb_buffers := nb_buffers nb - 1\<rparr>"

text \<open>A handle on \<open>n\<close> has gone; with the last one the buffer is dropped and gives its bytes back.\<close>

definition buffer_release :: "nat \<Rightarrow> session_registry \<Rightarrow> session_registry" where
  "buffer_release n r =
    (if buffer_held n r then r
     else case hm_get n (sr_live r) of
       None \<Rightarrow> r
     | Some b \<Rightarrow> r\<lparr>sr_live := hm_remove n (sr_live r), sr_budget := buffer_drop b (sr_budget r)\<rparr>)"

definition handle_drop :: "nat \<Rightarrow> session_registry \<Rightarrow> session_registry" where
  "handle_drop n r = buffer_release n (r\<lparr>sr_handles := remove1 n (sr_handles r)\<rparr>)"

text \<open>A registration gives the tunnel its handle; an entry it replaces loses its own.\<close>

definition session_register ::
    "int \<Rightarrow> str \<Rightarrow> bytes \<Rightarrow> str \<Rightarrow> str \<Rightarrow> bytes \<Rightarrow> str \<Rightarrow> str \<Rightarrow> str \<Rightarrow> session_registry \<Rightarrow> nat option \<times> session_registry" where
  "session_register now session connection name protocol user username host ip r =
    (if hm_len (sr_sessions r) \<ge> MAX_SESSIONS then (None, r)
     else
       let n = sr_next r;
           r1 = r\<lparr>sr_sessions := hm_insert session
                    \<lparr>as_session_id = session, as_connection = connection, as_connection_name = name, as_protocol = protocol, as_user = user,
                     as_username = username, as_started = now, as_buffer = n, as_bytes_down = 0, as_bytes_up = 0,
                     as_remote_host = host, as_client_ip = ip, as_kill = True\<rparr> (sr_sessions r),
                  sr_live := hm_insert n buffer_new (sr_live r), sr_handles := n # sr_handles r, sr_next := n + 1,
                  sr_budget := (sr_budget r)\<lparr>nb_buffers := nb_buffers (sr_budget r) + 1\<rparr>\<rparr>
       in (Some n, case hm_get session (sr_sessions r) of None \<Rightarrow> r1 | Some a \<Rightarrow> buffer_release (as_buffer a) r1))"

definition session_unregister :: "str \<Rightarrow> session_registry \<Rightarrow> session_registry" where
  "session_unregister session r =
    (case hm_get session (sr_sessions r) of
       None \<Rightarrow> r
     | Some a \<Rightarrow> buffer_release (as_buffer a) (r\<lparr>sr_sessions := hm_remove session (sr_sessions r)\<rparr>))"

text \<open>A push goes through a handle, whether or not its session is still registered.\<close>

definition session_push :: "int \<Rightarrow> int \<Rightarrow> nat \<Rightarrow> str \<Rightarrow> session_registry \<Rightarrow> session_registry" where
  "session_push stamp now n s r =
    (if n \<notin> set (sr_handles r) then r
     else case hm_get n (sr_live r) of
       None \<Rightarrow> r
     | Some b0 \<Rightarrow>
         (case buffer_push stamp now s b0 (sr_budget r) of
            (b, nb) \<Rightarrow> r\<lparr>sr_live := hm_insert n b (sr_live r), sr_budget := nb\<rparr>))"

definition session_list :: "session_registry \<Rightarrow> (active_session \<times> int) list" where
  "session_list r =
    map (\<lambda>a. (a, case hm_get (as_buffer a) (sr_live r) of Some b \<Rightarrow> buffer_depth_secs b | None \<Rightarrow> 0)) (hm_values (sr_sessions r))"

text \<open>Who looks a session up gets a handle on it.\<close>

definition hand_out :: "active_session option \<Rightarrow> session_registry \<Rightarrow> active_session option \<times> session_registry" where
  "hand_out found r = (found, case found of None \<Rightarrow> r | Some a \<Rightarrow> r\<lparr>sr_handles := as_buffer a # sr_handles r\<rparr>)"

definition session_get :: "str \<Rightarrow> session_registry \<Rightarrow> active_session option \<times> session_registry" where
  "session_get session r = hand_out (hm_get session (sr_sessions r)) r"

definition find_by_connection_and_user :: "bytes \<Rightarrow> bytes \<Rightarrow> session_registry \<Rightarrow> active_session option \<times> session_registry" where
  "find_by_connection_and_user connection user r =
    hand_out (List.find (\<lambda>a. as_connection a = connection \<and> as_user a = user) (hm_values (sr_sessions r))) r"

definition session_terminate :: "str \<Rightarrow> session_registry \<Rightarrow> bool \<times> session_registry" where
  "session_terminate session r =
    (case hm_get session (sr_sessions r) of
       None \<Rightarrow> (False, r)
     | Some a \<Rightarrow>
         if as_kill a then (True, r\<lparr>sr_sessions := hm_insert session (a\<lparr>as_kill := False\<rparr>) (sr_sessions r)\<rparr>) else (False, r))"

definition session_metrics :: "session_registry \<Rightarrow> nat \<times> nat \<times> nat \<times> (str \<Rightarrow> nat)" where
  "session_metrics r =
    (let as = hm_values (sr_sessions r) in
     (length as, sum_list (map as_bytes_down as), sum_list (map as_bytes_up as), (\<lambda>p. length (filter (\<lambda>a. as_protocol a = p) as))))"

datatype capacity_limit = CapacityCpu | CapacityMemory

definition recommended_capacity :: "nat \<Rightarrow> nat \<Rightarrow> nat \<times> capacity_limit" where
  "recommended_capacity by_cpu by_memory = (if by_memory < by_cpu then (max by_memory 1, CapacityMemory) else (max by_cpu 1, CapacityCpu))"

section \<open>What a viewer is sent\<close>

definition is_sync :: "str \<Rightarrow> bool" where
  "is_sync inst \<longleftrightarrow> starts_with ''4.sync,'' (trim inst) \<or> trim inst = ''4.sync''"

definition strip_sync :: "str \<Rightarrow> str" where
  "strip_sync frame = concat (filter (\<lambda>inst. trim inst \<noteq> [] \<and> \<not> is_sync inst) (split_inclusive (CHR '';'') frame))"

definition last_sync :: "str list \<Rightarrow> str option" where
  "last_sync frames =
    (case filter (\<lambda>inst. trim inst \<noteq> [] \<and> is_sync inst) (concat (map (split_inclusive (CHR '';'')) frames)) of
       [] \<Rightarrow> None | insts \<Rightarrow> Some (last insts))"

text \<open>The messages a viewer of a shared session gets before the live phase, if none fails to be sent.\<close>

definition shared_replay :: "int \<Rightarrow> session_buffer \<Rightarrow> str list" where
  "shared_replay now b =
    (let all_frames = map snd (frames_with_timing now 300 b) in
     (case sb_last_size b of Some size_inst \<Rightarrow> [size_inst] | None \<Rightarrow> []) @
     (if persistent_state b = [] then [] else [persistent_state b]) @
     filter (\<lambda>m. m \<noteq> []) (map strip_sync all_frames) @
     (case last_sync all_frames of Some sync \<Rightarrow> [sync] | None \<Rightarrow> []))"

section \<open>The pieces of a text\<close>

lemma split_inclusive_not_Nil [simp]: "split_inclusive sep s = [] \<longleftrightarrow> s = []"
  by (cases s) (auto split: list.splits)

lemma split_inclusive_concat [simp]: "concat (split_inclusive sep s) = s"
  by (induction s) (auto split: list.splits)

text \<open>A piece ends in the separator and holds no other; only the last may lack it.\<close>

definition piece :: "char \<Rightarrow> str \<Rightarrow> bool" where
  "piece sep w \<longleftrightarrow> (\<exists>v. w = v @ [sep] \<and> sep \<notin> set v)"

lemma piece_Cons: "c \<noteq> sep \<Longrightarrow> piece sep (c # w) \<longleftrightarrow> piece sep w"
  unfolding piece_def by (metis (no_types, opaque_lifting) Cons_eq_append_conv append_Cons list.inject set_ConsD list.set_intros(2))

lemma piece_sep [simp]: "piece sep [sep]"
  by (simp add: piece_def)

lemma split_inclusive_piece: "piece sep w \<Longrightarrow> split_inclusive sep (w @ s) = w # split_inclusive sep s"
proof (induction w)
  case Nil
  then show ?case by (simp add: piece_def)
next
  case (Cons c w)
  show ?case
  proof (cases "c = sep")
    case True
    with Cons.prems have "w = []" by (auto simp: piece_def Cons_eq_append_conv)
    with True show ?thesis by simp
  next
    case False
    with Cons show ?thesis by (simp add: piece_Cons)
  qed
qed

lemma split_inclusive_rest: "sep \<notin> set w \<Longrightarrow> w \<noteq> [] \<Longrightarrow> split_inclusive sep w = [w]"
proof (induction w)
  case (Cons c w)
  then show ?case by (cases "w = []") auto
qed simp

definition inst_pieces :: "char \<Rightarrow> str list \<Rightarrow> bool" where
  "inst_pieces sep ws \<longleftrightarrow> (\<forall>w \<in> set (butlast ws). piece sep w) \<and> (ws \<noteq> [] \<longrightarrow> piece sep (last ws) \<or> (last ws \<noteq> [] \<and> sep \<notin> set (last ws)))"

lemma pieces_Nil [simp]: "inst_pieces sep []"
  by (simp add: inst_pieces_def)

lemma pieces_Cons: "inst_pieces sep (w # ws) \<longleftrightarrow> (if ws = [] then piece sep w \<or> (w \<noteq> [] \<and> sep \<notin> set w) else piece sep w \<and> inst_pieces sep ws)"
  by (auto simp: inst_pieces_def)

lemma split_inclusive_pieces: "inst_pieces sep (split_inclusive sep s)"
proof (induction s)
  case Nil
  then show ?case by simp
next
  case (Cons c s)
  then show ?case
    by (cases "c = sep") (auto simp: pieces_Cons piece_Cons split: list.splits if_splits)
qed

lemma pieces_filter: "inst_pieces sep ws \<Longrightarrow> inst_pieces sep (filter P ws)"
  by (induction ws) (auto simp: pieces_Cons split: if_splits)

lemma pieces_split: "inst_pieces sep ws \<Longrightarrow> split_inclusive sep (concat ws) = ws"
proof (induction ws)
  case (Cons w ws)
  then show ?case
    using split_inclusive_piece [of sep w "[]"] by (auto simp: pieces_Cons split_inclusive_piece split_inclusive_rest split: if_splits)
qed simp

lemma split_inclusive_filter [simp]:
  "split_inclusive sep (concat (filter P (split_inclusive sep s))) = filter P (split_inclusive sep s)"
  by (intro pieces_split pieces_filter split_inclusive_pieces)

text \<open>What a push stores splits into the instructions it let through.\<close>

lemma filter_sensitive_pieces:
  "split_inclusive (CHR '';'') (filter_sensitive_instructions s) = filter (\<lambda>inst. trim inst \<noteq> [] \<and> \<not> sensitive inst) (split_inclusive (CHR '';'') s)"
  unfolding filter_sensitive_instructions_def by (rule split_inclusive_filter)

section \<open>The invariant of a buffer\<close>

definition clean :: "str list \<Rightarrow> bool" where
  "clean insts \<longleftrightarrow> (\<forall>inst \<in> set insts. \<not> sensitive inst)"

definition frame_ok :: "buffered_frame \<Rightarrow> bool" where
  "frame_ok f \<longleftrightarrow> bf_size f = length (bf_data f) \<and> clean (split_inclusive (CHR '';'') (bf_data f))"

definition buffer_ok :: "session_buffer \<Rightarrow> bool" where
  "buffer_ok b \<longleftrightarrow>
    sb_total b = sum_list (map bf_size (sb_frames b)) \<and> list_all frame_ok (sb_frames b) \<and>
    sb_persistent_bytes b = sum_list (map length (sb_persistent b)) \<and> clean (sb_persistent b) \<and>
    sb_persistent_bytes b \<le> MAX_PERSISTENT_STATE_BYTES"

lemma drop_oldest_spec:
  assumes "n = sum_list (map length ps)" "drop_oldest cap ps n = (qs, m)"
  shows "\<exists>j. qs = drop j ps \<and> m = sum_list (map length qs) \<and> m \<le> cap \<and> (n \<le> cap \<longrightarrow> j = 0)"
  using assms
proof (induction ps arbitrary: n)
  case (Cons p ps)
  show ?case
  proof (cases "n > cap")
    case True
    with Cons obtain j where "qs = drop j ps" "m = sum_list (map length qs)" "m \<le> cap" by fastforce
    with True show ?thesis by (intro exI [of _ "Suc j"]) simp
  next
    case False
    with Cons.prems show ?thesis by (intro exI [of _ 0]) auto
  qed
qed simp

lemma salvage_spec:
  assumes "sb_persistent_bytes b = sum_list (map length (sb_persistent b))"
  obtains j where "sb_persistent (salvage cap s b) = drop j (sb_persistent b @ persistent_instructions s)"
    "sb_persistent_bytes (salvage cap s b) = sum_list (map length (sb_persistent (salvage cap s b)))"
    "sb_persistent_bytes (salvage cap s b) \<le> cap"
    "sum_list (map length (sb_persistent b @ persistent_instructions s)) \<le> cap \<Longrightarrow> j = 0"
proof -
  obtain qs m where d: "drop_oldest cap (sb_persistent b @ persistent_instructions s) (sb_persistent_bytes b + sum_list (map length (persistent_instructions s))) = (qs, m)"
    by fastforce
  from drop_oldest_spec [OF _ d] assms obtain j where
    "qs = drop j (sb_persistent b @ persistent_instructions s)" "m = sum_list (map length qs)" "m \<le> cap"
    "sum_list (map length (sb_persistent b @ persistent_instructions s)) \<le> cap \<longrightarrow> j = 0"
    by (auto simp: add_ac)
  with d show ?thesis by (intro that [of j]) (auto simp: salvage_def Let_def)
qed

lemma salvage_fields [simp]:
  "sb_frames (salvage cap s b) = sb_frames b" "sb_total (salvage cap s b) = sb_total b"
  "sb_last_size (salvage cap s b) = sb_last_size b" "sb_accounted (salvage cap s b) = sb_accounted b"
  by (simp_all add: salvage_def Let_def split: prod.splits)

lemma clean_persistent: "clean (split_inclusive (CHR '';'') s) \<Longrightarrow> clean (persistent_instructions s)"
  by (auto simp: clean_def persistent_instructions_def)

lemma clean_drop: "clean xs \<Longrightarrow> clean ys \<Longrightarrow> clean (drop j (xs @ ys))"
  unfolding clean_def by (metis UnE in_set_dropD set_append)

lemma pop_front_ok:
  assumes "buffer_ok b" "sb_frames b = f # fs" "cap \<le> MAX_PERSISTENT_STATE_BYTES"
  shows "buffer_ok (pop_front cap f fs b)"
proof -
  define b1 where "b1 = b\<lparr>sb_frames := fs, sb_total := sb_total b - bf_size f\<rparr>"
  have b1: "sb_persistent b1 = sb_persistent b" "sb_persistent_bytes b1 = sum_list (map length (sb_persistent b1))"
    using assms by (simp_all add: b1_def buffer_ok_def)
  obtain j where "sb_persistent (salvage cap (bf_data f) b1) = drop j (sb_persistent b1 @ persistent_instructions (bf_data f))"
    "sb_persistent_bytes (salvage cap (bf_data f) b1) = sum_list (map length (sb_persistent (salvage cap (bf_data f) b1)))"
    "sb_persistent_bytes (salvage cap (bf_data f) b1) \<le> cap"
    by (rule salvage_spec [OF b1(2), of cap "bf_data f"])
  moreover have "clean (drop j (sb_persistent b @ persistent_instructions (bf_data f)))"
    using assms by (intro clean_drop clean_persistent) (auto simp: buffer_ok_def frame_ok_def)
  ultimately show ?thesis
    using assms b1 unfolding pop_front_def b1_def [symmetric] by (simp add: buffer_ok_def b1_def)
qed

lemma pop_front_accounted [simp]: "sb_accounted (pop_front cap f fs b) = sb_accounted b"
  by (simp add: pop_front_def)

lemma evict_old_ok: "buffer_ok b \<Longrightarrow> cap \<le> MAX_PERSISTENT_STATE_BYTES \<Longrightarrow> buffer_ok (evict_old cap cutoff b)"
  by (induction cap cutoff b rule: evict_old.induct) (subst evict_old.simps, simp add: pop_front_ok split: list.splits)

lemma buffer_ok_empty: "buffer_ok b \<Longrightarrow> sb_frames b = [] \<Longrightarrow> sb_total b = 0"
  by (simp add: buffer_ok_def)

lemma evict_excess_ok:
  "buffer_ok b \<Longrightarrow> cap \<le> MAX_PERSISTENT_STATE_BYTES \<Longrightarrow> buffer_ok (evict_excess ring_cap cap b) \<and> sb_total (evict_excess ring_cap cap b) \<le> ring_cap"
proof (induction ring_cap cap b rule: evict_excess.induct)
  case (1 ring_cap cap b)
  then show ?case
    by (subst (1 2) evict_excess.simps) (auto simp: pop_front_ok buffer_ok_empty split: list.splits)
qed

lemma evict_accounted [simp]:
  "sb_accounted (evict_old cap cutoff b) = sb_accounted b" "sb_accounted (evict_excess ring_cap cap b) = sb_accounted b"
proof -
  show "sb_accounted (evict_old cap cutoff b) = sb_accounted b"
    by (induction cap cutoff b rule: evict_old.induct) (subst evict_old.simps, simp split: list.splits)
  show "sb_accounted (evict_excess ring_cap cap b) = sb_accounted b"
    by (induction ring_cap cap b rule: evict_excess.induct) (subst evict_excess.simps, simp split: list.splits)
qed

lemma caps_bounds: "fst (nvr_caps nb) \<le> MAX_BUFFER_BYTES" "snd (nvr_caps nb) \<le> MAX_PERSISTENT_STATE_BYTES"
  by (simp_all add: nvr_caps_def Let_def)

definition appended :: "int \<Rightarrow> str \<Rightarrow> session_buffer \<Rightarrow> session_buffer" where
  "appended stamp filtered b =
    b\<lparr>sb_last_size := last_size_of filtered (sb_last_size b),
      sb_frames := sb_frames b @ [\<lparr>bf_time = stamp, bf_data = filtered, bf_size = length filtered\<rparr>],
      sb_total := sb_total b + length filtered\<rparr>"

definition evicted :: "int \<Rightarrow> nvr_budget \<Rightarrow> session_buffer \<Rightarrow> session_buffer" where
  "evicted now nb b = evict_excess (fst (nvr_caps nb)) (snd (nvr_caps nb)) (evict_old (snd (nvr_caps nb)) (now - MAX_BUFFER_DURATION) b)"

lemma buffer_push_eq:
  "buffer_push stamp now s b nb =
    (if filter_sensitive_instructions s = [] then (b, nb)
     else account (evicted now nb (appended stamp (filter_sensitive_instructions s) b)) nb)"
  by (simp add: buffer_push_def evicted_def appended_def Let_def split: prod.splits)

lemma appended_ok: "buffer_ok b \<Longrightarrow> buffer_ok (appended stamp (filter_sensitive_instructions s) b)"
  by (auto simp: buffer_ok_def appended_def frame_ok_def clean_def filter_sensitive_pieces)

lemma appended_accounted [simp]: "sb_accounted (appended stamp s b) = sb_accounted b"
  by (simp add: appended_def)

lemma evicted_accounted [simp]: "sb_accounted (evicted now nb b) = sb_accounted b"
  by (simp add: evicted_def)

lemma evicted_ok:
  assumes "buffer_ok b"
  shows "buffer_ok (evicted now nb b)" "sb_total (evicted now nb b) \<le> fst (nvr_caps nb)"
  using evict_excess_ok [OF evict_old_ok [OF assms caps_bounds(2)] caps_bounds(2)] by (simp_all add: evicted_def)

section \<open>The invariant of the registry\<close>

definition held_bytes :: "session_buffer \<Rightarrow> nat" where
  "held_bytes b = sb_total b + sb_persistent_bytes b"

definition buffer_settled :: "session_buffer \<Rightarrow> bool" where
  "buffer_settled b \<longleftrightarrow> buffer_ok b \<and> sb_accounted b = held_bytes b \<and> sb_total b \<le> MAX_BUFFER_BYTES"

lemma buffer_settled_new [simp]: "buffer_settled buffer_new"
  by (simp add: buffer_settled_def buffer_ok_def buffer_new_def held_bytes_def clean_def)

lemma account_settled:
  assumes "account b nb = (b', nb')" "buffer_ok b" "sb_total b \<le> MAX_BUFFER_BYTES" "nb_used nb = sb_accounted b + others"
  shows "buffer_settled b'" "nb_used nb' = sb_accounted b' + others" "nb_buffers nb' = nb_buffers nb" "nb_limit nb' = nb_limit nb"
  using assms by (auto simp: account_def buffer_settled_def buffer_ok_def held_bytes_def Let_def split: if_splits)

lemma push_settled:
  assumes "buffer_push stamp now s b nb = (b', nb')" "buffer_settled b" "nb_used nb = sb_accounted b + others"
  shows "buffer_settled b' \<and> nb_used nb' = sb_accounted b' + others \<and> nb_buffers nb' = nb_buffers nb \<and> nb_limit nb' = nb_limit nb"
proof (cases "filter_sensitive_instructions s = []")
  case True
  with assms show ?thesis by (simp add: buffer_push_eq)
next
  case False
  define b1 where "b1 = evicted now nb (appended stamp (filter_sensitive_instructions s) b)"
  have ok: "buffer_ok b1" "sb_total b1 \<le> MAX_BUFFER_BYTES"
    using evicted_ok [OF appended_ok, of b now nb stamp s] assms(2) caps_bounds(1) [of nb]
    by (auto simp: b1_def buffer_settled_def)
  from False assms have "account b1 nb = (b', nb')" "nb_used nb = sb_accounted b1 + others"
    by (simp_all add: buffer_push_eq b1_def)
  from account_settled [OF this(1) ok this(2)] show ?thesis by simp
qed

definition live_accounted :: "session_registry \<Rightarrow> nat" where
  "live_accounted r = sum_list (map sb_accounted (hm_values (sr_live r)))"

definition live_ok :: "nat \<Rightarrow> session_registry \<Rightarrow> bool" where
  "live_ok limit r \<longleftrightarrow>
    hm_wf (sr_live r) \<and> nb_limit (sr_budget r) = limit \<and> nb_used (sr_budget r) = live_accounted r \<and>
    nb_buffers (sr_budget r) = hm_len (sr_live r) \<and> (\<forall>n b. hm_get n (sr_live r) = Some b \<longrightarrow> buffer_settled b \<and> n < sr_next r)"

definition sessions_ok :: "session_registry \<Rightarrow> bool" where
  "sessions_ok r \<longleftrightarrow> hm_wf (sr_sessions r) \<and> hm_len (sr_sessions r) \<le> MAX_SESSIONS"

definition registry_ok :: "nat \<Rightarrow> session_registry \<Rightarrow> bool" where
  "registry_ok limit r \<longleftrightarrow> sessions_ok r \<and> live_ok limit r \<and> (\<forall>n. hm_get n (sr_live r) \<noteq> None \<longleftrightarrow> buffer_held n r)"

inductive registry_reach :: "nat \<Rightarrow> session_registry \<Rightarrow> bool" where
  reach_registry_new: "registry_reach limit (session_registry_new limit)"
| reach_register: "registry_reach limit r \<Longrightarrow> registry_reach limit (snd (session_register now session connection name protocol user username host ip r))"
| reach_unregister: "registry_reach limit r \<Longrightarrow> registry_reach limit (session_unregister session r)"
| reach_get: "registry_reach limit r \<Longrightarrow> registry_reach limit (snd (session_get session r))"
| reach_find: "registry_reach limit r \<Longrightarrow> registry_reach limit (snd (find_by_connection_and_user connection user r))"
| reach_push: "registry_reach limit r \<Longrightarrow> registry_reach limit (session_push stamp now n s r)"
| reach_terminate: "registry_reach limit r \<Longrightarrow> registry_reach limit (snd (session_terminate session r))"
| reach_drop: "registry_reach limit r \<Longrightarrow> n \<in> set (sr_handles r) \<Longrightarrow> registry_reach limit (handle_drop n r)"

lemma hm_len_remove_present: "hm_wf m \<Longrightarrow> hm_get k m = Some v \<Longrightarrow> hm_len m = Suc (hm_len (hm_remove k m))"
  using hm_sum_remove [of m k v "\<lambda>_. 1"] by (simp add: hm_len_def hm_values_def sum_list_triv comp_def)

lemma hm_len_insert_absent: "hm_get k m = None \<Longrightarrow> hm_len (hm_insert k v m) = Suc (hm_len m)"
  by (simp add: hm_insert_def hm_len_def hm_remove_absent)

lemma buffer_new_accounted [simp]: "sb_accounted buffer_new = 0"
  by (simp add: buffer_new_def)

lemma registry_new_ok: "registry_ok limit (session_registry_new limit)"
  by (simp add: registry_ok_def sessions_ok_def live_ok_def session_registry_new_def nvr_budget_new_def live_accounted_def buffer_held_def hm_values_def hm_len_def)

lemma values_remove:
  "hm_wf m \<Longrightarrow> hm_get k m = Some v \<Longrightarrow> set (hm_values m) = insert v (set (hm_values (hm_remove k m)))"
  using hm_get_in [of k m v] by (auto simp: hm_values_def hm_remove_def image_iff dest: hm_get_wf) (metis snd_conv)

lemma values_insert: "set (hm_values (hm_insert k v m)) = insert v (set (hm_values (hm_remove k m)))"
  by (simp add: hm_insert_def hm_values_def)

lemma buffer_release_ok:
  assumes "sessions_ok r" "live_ok limit r" "\<And>m. hm_get m (sr_live r) \<noteq> None \<longleftrightarrow> buffer_held m r \<or> m = n"
  shows "registry_ok limit (buffer_release n r)"
proof (cases "buffer_held n r")
  case True
  with assms show ?thesis by (auto simp: buffer_release_def registry_ok_def)
next
  case False
  obtain b where b: "hm_get n (sr_live r) = Some b" using assms(3) [of n] by auto
  have w: "hm_wf (sr_live r)" using assms(2) by (simp add: live_ok_def)
  let ?r = "r\<lparr>sr_live := hm_remove n (sr_live r), sr_budget := buffer_drop b (sr_budget r)\<rparr>"
  have "live_ok limit ?r"
    using assms(2) hm_len_remove_present [OF w b] hm_sum_remove [OF w b, of sb_accounted]
    by (auto simp: live_ok_def live_accounted_def buffer_drop_def split: if_splits)
  moreover have "hm_get m (sr_live ?r) \<noteq> None \<longleftrightarrow> buffer_held m ?r" for m
    using assms(3) [of m] False by (auto simp: buffer_held_def)
  moreover have "sessions_ok ?r" using assms(1) by (simp add: sessions_ok_def)
  ultimately show ?thesis using False b by (simp add: buffer_release_def registry_ok_def)
qed

lemma unregister_ok:
  assumes "registry_ok limit r"
  shows "registry_ok limit (session_unregister session r)"
proof (cases "hm_get session (sr_sessions r)")
  case None
  with assms show ?thesis by (simp add: session_unregister_def)
next
  case (Some a)
  let ?r = "r\<lparr>sr_sessions := hm_remove session (sr_sessions r)\<rparr>"
  have ok: "sessions_ok r" "live_ok limit r" "\<And>m. hm_get m (sr_live r) \<noteq> None \<longleftrightarrow> buffer_held m r" using assms by (simp_all add: registry_ok_def)
  have "sessions_ok ?r" using ok(1) by (auto simp: sessions_ok_def intro: order_trans [OF hm_len_remove_le])
  moreover have "live_ok limit ?r" using ok(2) by (simp add: live_ok_def live_accounted_def)
  moreover have "buffer_held m r \<longleftrightarrow> buffer_held m ?r \<or> m = as_buffer a" for m
    using values_remove [OF _ Some] ok(1) by (auto simp: buffer_held_def sessions_ok_def)
  ultimately have "registry_ok limit (buffer_release (as_buffer a) ?r)" using ok(3) by (intro buffer_release_ok) simp_all
  with Some show ?thesis by (simp add: session_unregister_def)
qed

lemma set_remove1_insert: "n \<in> set xs \<Longrightarrow> set xs = insert n (set (remove1 n xs))"
  by (induction xs) auto

lemma handle_drop_ok:
  assumes "registry_ok limit r" "n \<in> set (sr_handles r)"
  shows "registry_ok limit (handle_drop n r)"
proof -
  let ?r = "r\<lparr>sr_handles := remove1 n (sr_handles r)\<rparr>"
  have "set (sr_handles r) = insert n (set (remove1 n (sr_handles r)))" using assms(2) by (rule set_remove1_insert)
  then have "buffer_held m r \<longleftrightarrow> buffer_held m ?r \<or> m = n" for m by (auto simp: buffer_held_def)
  with assms(1) show ?thesis
    unfolding handle_drop_def by (intro buffer_release_ok) (simp_all add: registry_ok_def sessions_ok_def live_ok_def live_accounted_def)
qed

lemma register_ok:
  assumes "registry_ok limit r"
  shows "registry_ok limit (snd (session_register now session connection name protocol user username host ip r))"
proof (cases "hm_len (sr_sessions r) \<ge> MAX_SESSIONS")
  case True
  with assms show ?thesis by (simp add: session_register_def)
next
  case room: False
  define a' where "a' = \<lparr>as_session_id = session, as_connection = connection, as_connection_name = name, as_protocol = protocol, as_user = user,
    as_username = username, as_started = now, as_buffer = sr_next r, as_bytes_down = 0, as_bytes_up = 0, as_remote_host = host, as_client_ip = ip, as_kill = True\<rparr>"
  define r1 where "r1 = r\<lparr>sr_sessions := hm_insert session a' (sr_sessions r), sr_live := hm_insert (sr_next r) buffer_new (sr_live r),
    sr_handles := sr_next r # sr_handles r, sr_next := sr_next r + 1, sr_budget := (sr_budget r)\<lparr>nb_buffers := nb_buffers (sr_budget r) + 1\<rparr>\<rparr>"
  have ok: "sessions_ok r" "live_ok limit r" "\<And>m. hm_get m (sr_live r) \<noteq> None \<longleftrightarrow> buffer_held m r" using assms by (simp_all add: registry_ok_def)
  have fresh: "hm_get (sr_next r) (sr_live r) = None" using ok(2) by (cases "hm_get (sr_next r) (sr_live r)") (auto simp: live_ok_def)
  have sessions: "sessions_ok r1"
    using ok(1) room by (auto simp: sessions_ok_def r1_def intro: order_trans [OF hm_len_insert_le])
  have live: "live_ok limit r1"
    using ok(2) hm_len_insert_absent [OF fresh, of buffer_new] hm_remove_absent [OF fresh]
    by (auto simp: live_ok_def live_accounted_def r1_def hm_sum_insert less_Suc_eq split: if_splits)
  show ?thesis
  proof (cases "hm_get session (sr_sessions r)")
    case None
    then have "hm_get m (sr_live r1) \<noteq> None \<longleftrightarrow> buffer_held m r1" for m
      using ok(3) [of m] by (auto simp: r1_def a'_def buffer_held_def values_insert hm_remove_absent)
    with sessions live None room show ?thesis by (simp add: session_register_def registry_ok_def r1_def a'_def Let_def)
  next
    case (Some a)
    have "hm_get m (sr_live r1) \<noteq> None \<longleftrightarrow> buffer_held m r1 \<or> m = as_buffer a" for m
      using ok(3) [of m] values_remove [OF _ Some] ok(1) by (auto simp: r1_def a'_def buffer_held_def values_insert sessions_ok_def)
    from buffer_release_ok [OF sessions live this] Some room show ?thesis by (simp add: session_register_def r1_def a'_def Let_def)
  qed
qed

lemma push_ok:
  assumes "registry_ok limit r"
  shows "registry_ok limit (session_push stamp now n s r)"
proof (cases "n \<in> set (sr_handles r)")
  case False
  with assms show ?thesis by (simp add: session_push_def)
next
  case True
  obtain b0 where b0: "hm_get n (sr_live r) = Some b0" using True assms by (force simp: registry_ok_def buffer_held_def)
  have ok: "live_ok limit r" "hm_wf (sr_live r)" using assms by (simp_all add: registry_ok_def live_ok_def)
  obtain b nb where p: "buffer_push stamp now s b0 (sr_budget r) = (b, nb)" by fastforce
  define others where "others = nb_used (sr_budget r) - sb_accounted b0"
  have "sb_accounted b0 \<le> live_accounted r" using hm_value_le_sum [OF b0, of sb_accounted] by (simp add: live_accounted_def)
  then have used: "nb_used (sr_budget r) = sb_accounted b0 + others" using ok(1) by (simp add: others_def live_ok_def)
  have "buffer_settled b0" using ok(1) b0 by (simp add: live_ok_def)
  note pushed = push_settled [OF p this used]
  let ?r = "r\<lparr>sr_live := hm_insert n b (sr_live r), sr_budget := nb\<rparr>"
  have "hm_len (hm_insert n b (sr_live r)) = hm_len (sr_live r)"
    using hm_len_remove_present [OF ok(2) b0] by (simp add: hm_insert_def hm_len_def)
  then have "live_ok limit ?r"
    using ok pushed b0 used hm_sum_remove [OF ok(2) b0, of sb_accounted]
    by (auto simp: live_ok_def live_accounted_def hm_sum_insert)
  moreover have "hm_get m (sr_live ?r) \<noteq> None \<longleftrightarrow> buffer_held m ?r" for m
    using assms b0 by (auto simp: registry_ok_def buffer_held_def)
  ultimately show ?thesis
    using assms True b0 p by (simp add: session_push_def registry_ok_def sessions_ok_def)
qed

lemma hand_out_ok:
  assumes "registry_ok limit r" "\<And>a. found = Some a \<Longrightarrow> a \<in> set (hm_values (sr_sessions r))"
  shows "registry_ok limit (snd (hand_out found r))"
proof (cases found)
  case (Some a)
  then have "buffer_held (as_buffer a) r" using assms(2) by (simp add: buffer_held_def)
  with assms(1) Some show ?thesis
    by (auto simp: hand_out_def registry_ok_def sessions_ok_def live_ok_def live_accounted_def buffer_held_def)
qed (use assms(1) in \<open>simp add: hand_out_def\<close>)

lemma get_ok: "registry_ok limit r \<Longrightarrow> registry_ok limit (snd (session_get session r))"
  unfolding session_get_def by (erule hand_out_ok) (auto simp: hm_values_def dest: hm_get_in intro: rev_image_eqI)

lemma find_ok: "registry_ok limit r \<Longrightarrow> registry_ok limit (snd (find_by_connection_and_user connection user r))"
  unfolding find_by_connection_and_user_def by (erule hand_out_ok) (auto simp: find_Some_iff)

lemma terminate_ok:
  assumes "registry_ok limit r"
  shows "registry_ok limit (snd (session_terminate session r))"
proof (cases "hm_get session (sr_sessions r)")
  case None
  with assms show ?thesis by (simp add: session_terminate_def)
next
  case (Some a)
  have w: "hm_wf (sr_sessions r)" using assms by (simp add: registry_ok_def sessions_ok_def)
  let ?r = "r\<lparr>sr_sessions := hm_insert session (a\<lparr>as_kill := False\<rparr>) (sr_sessions r)\<rparr>"
  have "hm_len (hm_insert session (a\<lparr>as_kill := False\<rparr>) (sr_sessions r)) = hm_len (sr_sessions r)"
    using hm_len_remove_present [OF w Some] by (simp add: hm_insert_def hm_len_def)
  moreover have "buffer_held m ?r \<longleftrightarrow> buffer_held m r" for m
    using values_remove [OF w Some] by (auto simp: buffer_held_def values_insert)
  ultimately have "registry_ok limit ?r"
    using assms w by (simp add: registry_ok_def sessions_ok_def live_ok_def live_accounted_def)
  with assms Some show ?thesis by (simp add: session_terminate_def)
qed

lemma registry_reach_ok: "registry_reach limit r \<Longrightarrow> registry_ok limit r"
  by (induction rule: registry_reach.induct)
    (blast intro: registry_new_ok register_ok unregister_ok get_ok find_ok push_ok terminate_ok handle_drop_ok)+

lemma frame_bytes_length: "list_all frame_ok fs \<Longrightarrow> sum_list (map bf_size fs) = sum_list (map (\<lambda>f. length (bf_data f)) fs)"
  by (induction fs) (auto simp: frame_ok_def)

lemma accounted_bounded:
  assumes "live_ok limit r"
  shows "live_accounted r \<le> hm_len (sr_live r) * (MAX_BUFFER_BYTES + MAX_PERSISTENT_STATE_BYTES)"
proof -
  have "sb_accounted b \<le> MAX_BUFFER_BYTES + MAX_PERSISTENT_STATE_BYTES" if "b \<in> set (hm_values (sr_live r))" for b
  proof -
    from that obtain n where "(n, b) \<in> set (sr_live r)" by (auto simp: hm_values_def)
    with assms have "buffer_settled b" by (auto simp: live_ok_def dest: hm_get_wf)
    then show ?thesis by (auto simp: buffer_settled_def buffer_ok_def held_bytes_def)
  qed
  then have "live_accounted r \<le> sum_list (map (\<lambda>_. MAX_BUFFER_BYTES + MAX_PERSISTENT_STATE_BYTES) (hm_values (sr_live r)))"
    unfolding live_accounted_def by (rule sum_list_mono)
  then show ?thesis by (simp add: sum_list_triv hm_values_def hm_len_def comp_def)
qed

lemma live_count:
  assumes "registry_ok limit r"
  shows "hm_len (sr_live r) \<le> hm_len (sr_sessions r) + length (sr_handles r)"
proof -
  have w: "hm_wf (sr_live r)" using assms by (simp add: registry_ok_def live_ok_def)
  have "set (map fst (sr_live r)) \<subseteq> as_buffer ` set (hm_values (sr_sessions r)) \<union> set (sr_handles r)"
  proof
    fix n assume "n \<in> set (map fst (sr_live r))"
    then have "hm_get n (sr_live r) \<noteq> None" using hm_get_wf [OF w] by auto
    with assms show "n \<in> as_buffer ` set (hm_values (sr_sessions r)) \<union> set (sr_handles r)" by (auto simp: registry_ok_def buffer_held_def)
  qed
  then have "card (set (map fst (sr_live r))) \<le> card (as_buffer ` set (hm_values (sr_sessions r)) \<union> set (sr_handles r))"
    by (intro card_mono) simp_all
  also have "\<dots> \<le> card (as_buffer ` set (hm_values (sr_sessions r))) + card (set (sr_handles r))" by (rule card_Un_le)
  also have "\<dots> \<le> length (hm_values (sr_sessions r)) + length (sr_handles r)"
    by (intro add_mono card_length order_trans [OF card_image_le card_length]) simp
  finally show ?thesis using w distinct_card [of "map fst (sr_live r)"] by (simp add: hm_len_def hm_wf_def hm_values_def)
qed

section \<open>Properties of the registry\<close>

definition registry_sample :: session_registry where
  "registry_sample = session_unregister ''s'' (session_push 1 1 0 ''4.args,2.pw;4.size,1.9;''
     (snd (session_register 0 ''s'' [1] ''host'' ''rdp'' [2] ''ann'' ''10.0.0.5'' ''10.0.0.9'' (session_registry_new 7340032))))"

lemma registry_sample_reach: "registry_reach 7340032 registry_sample"
  unfolding registry_sample_def by (intro reach_unregister reach_push reach_register reach_registry_new)

text \<open>C22: however sessions come, go, draw and are viewed, at most 500 are registered; a replay buffer is alive exactly as long as the registry, its
tunnel or a viewer holds it, so that there is at most one for each registered session and each handle; the shared budget counts exactly the
live buffers and the bytes they hold; and a buffer's byte counters are the lengths of what it holds, at most 50 MiB of frames and 20 MiB of
older drawing instructions, so all live buffers together hold at most 70 MiB each.\<close>

theorem registry_memory_bounded:
  assumes "registry_reach limit r"
  shows "hm_len (sr_sessions r) \<le> 500 \<and> (\<forall>n. hm_get n (sr_live r) \<noteq> None \<longleftrightarrow> buffer_held n r) \<and>
    hm_len (sr_live r) \<le> hm_len (sr_sessions r) + length (sr_handles r) \<and>
    nb_buffers (sr_budget r) = hm_len (sr_live r) \<and> nb_used (sr_budget r) = sum_list (map held_bytes (hm_values (sr_live r))) \<and>
    nb_used (sr_budget r) \<le> hm_len (sr_live r) * (70 * 1024 * 1024) \<and>
    (\<forall>n b. hm_get n (sr_live r) = Some b \<longrightarrow>
       sb_total b = sum_list (map (\<lambda>f. length (bf_data f)) (sb_frames b)) \<and> sb_total b \<le> 50 * 1024 * 1024 \<and>
       sb_persistent_bytes b = length (persistent_state b) \<and> length (persistent_state b) \<le> 20 * 1024 * 1024)"
proof -
  have reg: "registry_ok limit r" using assms by (rule registry_reach_ok)
  then have ok: "live_ok limit r" by (simp add: registry_ok_def)
  have settled: "buffer_settled b" if "b \<in> set (hm_values (sr_live r))" for b
    using ok that by (auto simp: live_ok_def hm_values_def dest: hm_get_wf)
  have "map held_bytes (hm_values (sr_live r)) = map sb_accounted (hm_values (sr_live r))"
    using settled by (auto simp: buffer_settled_def)
  then have used: "nb_used (sr_budget r) = sum_list (map held_bytes (hm_values (sr_live r)))"
    using ok unfolding live_ok_def live_accounted_def by metis
  have bound: "nb_used (sr_budget r) \<le> hm_len (sr_live r) * (70 * 1024 * 1024)"
    using ok accounted_bounded [OF ok] by (simp add: live_ok_def bound_simps)
  have each: "sb_total b = sum_list (map (\<lambda>f. length (bf_data f)) (sb_frames b)) \<and> sb_total b \<le> 50 * 1024 * 1024 \<and>
      sb_persistent_bytes b = length (persistent_state b) \<and> length (persistent_state b) \<le> 20 * 1024 * 1024"
    if "hm_get n (sr_live r) = Some b" for n b
  proof -
    have "buffer_settled b" using ok that by (simp add: live_ok_def)
    then show ?thesis
      by (auto simp: buffer_settled_def buffer_ok_def frame_bytes_length persistent_state_def length_concat bound_simps)
  qed
  have "hm_len (sr_sessions r) \<le> 500" "\<forall>n. hm_get n (sr_live r) \<noteq> None \<longleftrightarrow> buffer_held n r" "nb_buffers (sr_budget r) = hm_len (sr_live r)"
    using reg by (simp_all add: registry_ok_def sessions_ok_def live_ok_def bound_simps)
  with used bound each live_count [OF reg] show ?thesis by blast
qed

lemmas filter_eval = filter_sensitive_instructions_def sensitive_def parse_opcode_def split_once_def until_stop_def SENSITIVE_OPCODES_def
  trim_def ascii_space_def wide_space_def parse_uint_def parse_digits_def is_digit_def digit_val_def digits_val_def

lemma sample_filtered: "filter_sensitive_instructions ''4.args,2.pw;4.size,1.9;'' = ''4.size,1.9;''"
  by (simp add: filter_eval)

lemma sample_size: "last_size_of ''4.size,1.9;'' None = Some ''4.size,1.9;''"
  by (simp add: last_size_of_def str_contains_def starts_with_def trim_def ascii_space_def wide_space_def)

lemma registry_sample_eq:
  "sr_sessions registry_sample = []"
  "sr_live registry_sample = [(0, \<lparr>sb_frames = [\<lparr>bf_time = 1, bf_data = ''4.size,1.9;'', bf_size = 11\<rparr>], sb_total = 11, sb_last_size = Some ''4.size,1.9;'',
       sb_persistent = [], sb_persistent_bytes = 0, sb_accounted = 11\<rparr>)]"
  by (simp_all add: registry_sample_def session_unregister_def buffer_release_def buffer_held_def session_push_def session_register_def session_registry_new_def
      nvr_budget_new_def hm_len_def hm_insert_def hm_remove_def hm_get_def hm_values_def
      buffer_push_eq sample_filtered sample_size bound_simps evicted_def evict_old.simps evict_excess.simps nvr_caps_def nvr_share_def usize_saturating_mul_def
      appended_def buffer_new_def account_def Let_def)

text \<open>A session that is over, with the buffer its tunnel still holds.\<close>

theorem registry_memory_bounded_witness:
  "hm_len (sr_sessions registry_sample) = 0 \<and> hm_len (sr_live registry_sample) = 1 \<and> nb_buffers (sr_budget registry_sample) = 1
    \<and> nb_used (sr_budget registry_sample) = 11"
  using registry_memory_bounded [OF registry_sample_reach] by (simp add: registry_sample_eq hm_len_def hm_values_def held_bytes_def)

text \<open>The opcode of an instruction: its length in digits, a dot, its name, and then nothing or a comma or semicolon.\<close>

definition names_opcode :: "str \<Rightarrow> str \<Rightarrow> bool" where
  "names_opcode opcode inst \<longleftrightarrow>
    (\<exists>digits rest. parse_uint 64 digits = Some (length opcode) \<and> trim inst = digits @ ''.'' @ opcode @ rest
       \<and> (rest = [] \<or> hd rest = CHR '','' \<or> hd rest = CHR '';''))"

lemma split_once_iff: "split_once sep s = Some (a, b) \<longleftrightarrow> s = a @ sep # b \<and> sep \<notin> set a"
proof
  assume "split_once sep s = Some (a, b)"
  then have a: "sep \<in> set s" "a = takeWhile (\<lambda>c. c \<noteq> sep) s" "b = tl (dropWhile (\<lambda>c. c \<noteq> sep) s)"
    by (simp_all add: split_once_def split: if_splits)
  then have "dropWhile (\<lambda>c. c \<noteq> sep) s = sep # b"
    using hd_dropWhile [of "\<lambda>c. c \<noteq> sep" s] by (cases "dropWhile (\<lambda>c. c \<noteq> sep) s") auto
  with a(2) show "s = a @ sep # b \<and> sep \<notin> set a" by (metis set_takeWhileD takeWhile_dropWhile_id)
next
  assume r: "s = a @ sep # b \<and> sep \<notin> set a"
  then have "dropWhile (\<lambda>c. c \<noteq> sep) a = []" by auto
  with r show "split_once sep s = Some (a, b)" by (auto simp: split_once_def takeWhile_tail takeWhile_eq_all_conv dropWhile_append3)
qed

lemma parse_uint_no_dot: "parse_uint w s = Some n \<Longrightarrow> CHR ''.'' \<notin> set s"
  by (cases s) (auto simp: parse_uint_def parse_digits_def list_all_iff is_digit_def split: option.splits if_splits)

lemma until_stop_eq: "until_stop s = op \<longleftrightarrow> (\<exists>rest. s = op @ rest \<and> (rest = [] \<or> hd rest = CHR '','' \<or> hd rest = CHR '';'')) \<and> CHR '','' \<notin> set op \<and> CHR '';'' \<notin> set op"
proof
  assume "until_stop s = op"
  then have op: "op = takeWhile (\<lambda>c. c \<noteq> CHR '','' \<and> c \<noteq> CHR '';'') s" by (simp add: until_stop_def)
  let ?rest = "dropWhile (\<lambda>c. c \<noteq> CHR '','' \<and> c \<noteq> CHR '';'') s"
  have "s = op @ ?rest" unfolding op by simp
  moreover have "?rest = [] \<or> hd ?rest = CHR '','' \<or> hd ?rest = CHR '';''"
    using hd_dropWhile [of "\<lambda>c. c \<noteq> CHR '','' \<and> c \<noteq> CHR '';''" s] by blast
  moreover have "CHR '','' \<notin> set op" "CHR '';'' \<notin> set op" unfolding op using set_takeWhileD by fast+
  ultimately show "(\<exists>rest. s = op @ rest \<and> (rest = [] \<or> hd rest = CHR '','' \<or> hd rest = CHR '';'')) \<and> CHR '','' \<notin> set op \<and> CHR '';'' \<notin> set op"
    by blast
next
  assume r: "(\<exists>rest. s = op @ rest \<and> (rest = [] \<or> hd rest = CHR '','' \<or> hd rest = CHR '';'')) \<and> CHR '','' \<notin> set op \<and> CHR '';'' \<notin> set op"
  then obtain rest where "s = op @ rest" "rest = [] \<or> hd rest = CHR '','' \<or> hd rest = CHR '';''" by blast
  moreover have "until_stop (op @ rest) = op @ until_stop rest"
    unfolding until_stop_def by (rule takeWhile_append2) (use r in auto)
  ultimately show "until_stop s = op" unfolding until_stop_def by (cases rest) auto
qed

lemma parse_opcode_iff:
  assumes "CHR '','' \<notin> set op" "CHR '';'' \<notin> set op"
  shows "parse_opcode (trim inst) = Some op \<longleftrightarrow> names_opcode op inst"
proof
  assume "parse_opcode (trim inst) = Some op"
  then obtain digits rest where d: "split_once (CHR ''.'') (trim inst) = Some (digits, rest)" "parse_uint 64 digits = Some (length op)" "until_stop rest = op"
    by (auto simp: parse_opcode_def split: option.splits prod.splits if_splits)
  from d(1) have "trim inst = digits @ ''.'' @ rest" by (simp add: split_once_iff)
  with d(2,3) show "names_opcode op inst" unfolding names_opcode_def until_stop_eq by auto
next
  assume "names_opcode op inst"
  then obtain digits rest where d: "parse_uint 64 digits = Some (length op)" "trim inst = digits @ ''.'' @ op @ rest"
    "rest = [] \<or> hd rest = CHR '','' \<or> hd rest = CHR '';''" unfolding names_opcode_def by blast
  have "split_once (CHR ''.'') (trim inst) = Some (digits, op @ rest)"
    using d(2) parse_uint_no_dot [OF d(1)] by (simp add: split_once_iff)
  moreover have "until_stop (op @ rest) = op" using d(3) assms by (auto simp: until_stop_eq)
  ultimately show "parse_opcode (trim inst) = Some op" using d(1) by (simp add: parse_opcode_def)
qed

lemma sensitive_iff: "sensitive inst \<longleftrightarrow> names_opcode ''connect'' inst \<or> names_opcode ''args'' inst"
  using parse_opcode_iff [of "''connect''" inst] parse_opcode_iff [of "''args''" inst]
  by (auto simp: sensitive_def SENSITIVE_OPCODES_def split: option.splits)

text \<open>C23: whatever is pushed to a replay buffer, and however old frames are salvaged, no instruction in a frame or among the older drawing
instructions of a live buffer has the opcode \<open>connect\<close> or \<open>args\<close>, which carry credentials, however its length is written. An
instruction is here what ends at a semicolon, which is how the filter reads the text.\<close>

theorem no_credential_instruction_kept:
  assumes "registry_reach limit r" "hm_get n (sr_live r) = Some b"
  shows "(\<forall>f \<in> set (sb_frames b). \<forall>inst \<in> set (split_inclusive (CHR '';'') (bf_data f)).
      \<not> names_opcode ''connect'' inst \<and> \<not> names_opcode ''args'' inst) \<and>
    (\<forall>inst \<in> set (sb_persistent b). \<not> names_opcode ''connect'' inst \<and> \<not> names_opcode ''args'' inst)"
proof -
  have "buffer_settled b" using registry_reach_ok [OF assms(1)] assms(2) by (simp add: registry_ok_def live_ok_def)
  then show ?thesis by (simp add: buffer_settled_def buffer_ok_def frame_ok_def clean_def list_all_iff sensitive_iff)
qed

theorem no_credential_instruction_kept_witness:
  "\<exists>b. hm_get 0 (sr_live registry_sample) = Some b \<and> map bf_data (sb_frames b) = [''4.size,1.9;'']
    \<and> \<not> names_opcode ''connect'' ''4.size,1.9;'' \<and> \<not> names_opcode ''args'' ''4.size,1.9;''"
proof -
  obtain b where b: "hm_get 0 (sr_live registry_sample) = Some b" "map bf_data (sb_frames b) = [''4.size,1.9;'']"
    by (simp add: registry_sample_eq hm_get_def)
  then obtain f where "f \<in> set (sb_frames b)" "bf_data f = ''4.size,1.9;''" by (cases "sb_frames b") auto
  with no_credential_instruction_kept [OF registry_sample_reach b(1)]
  have "\<forall>inst \<in> set (split_inclusive (CHR '';'') ''4.size,1.9;''). \<not> names_opcode ''connect'' inst \<and> \<not> names_opcode ''args'' inst" by metis
  with b show ?thesis by simp
qed

text \<open>An argument may hold a semicolon, though: Guacamole frames by length, the filter by \<open>;\<close>, so what follows one in a \<open>connect\<close>
argument (here a six-character password) is kept as an instruction of its own.\<close>

lemma filter_leaks_tail: "filter_sensitive_instructions ''7.connect,6.ab;pwd;4.sync;'' = ''pwd;4.sync;''"
  by (simp add: filter_eval)

text \<open>The caps a buffer is held to are those of the moment it is pushed to: one that filled its share before the others came keeps it
until it is pushed to again, so the sum of all may pass the budget.\<close>

definition first_draw :: "str \<Rightarrow> str \<Rightarrow> session_registry \<Rightarrow> session_registry" where
  "first_draw session s r =
    session_push 0 0 (sr_next r) s (snd (session_register 0 session [1] ''host'' ''rdp'' [2] ''ann'' ''10.0.0.5'' ''10.0.0.9'' r))"

lemma first_push:
  assumes "filter_sensitive_instructions s = s" "s \<noteq> []" "length s \<le> fst (nvr_caps nb)"
  shows "\<exists>b. buffer_push 0 0 s buffer_new nb = (b, nb\<lparr>nb_used := nb_used nb + length s\<rparr>)"
  using assms
  by (simp add: buffer_push_eq evicted_def evict_old.simps evict_excess.simps appended_def buffer_new_def account_def bound_simps Let_def)

lemma first_draw_budget:
  assumes "hm_get session (sr_sessions r) = None" "hm_len (sr_sessions r) < MAX_SESSIONS" "filter_sensitive_instructions s = s" "s \<noteq> []"
    "length s \<le> fst (nvr_caps ((sr_budget r)\<lparr>nb_buffers := nb_buffers (sr_budget r) + 1\<rparr>))"
  shows "sr_budget (first_draw session s r) = (sr_budget r)\<lparr>nb_used := nb_used (sr_budget r) + length s, nb_buffers := nb_buffers (sr_budget r) + 1\<rparr>"
    "hm_len (sr_sessions (first_draw session s r)) = Suc (hm_len (sr_sessions r))"
    "session' \<noteq> session \<Longrightarrow> hm_get session' (sr_sessions (first_draw session s r)) = hm_get session' (sr_sessions r)"
proof -
  obtain b where "buffer_push 0 0 s buffer_new ((sr_budget r)\<lparr>nb_buffers := nb_buffers (sr_budget r) + 1\<rparr>) =
      (b, (sr_budget r)\<lparr>nb_used := nb_used (sr_budget r) + length s, nb_buffers := nb_buffers (sr_budget r) + 1\<rparr>)"
    using first_push [OF assms(3,4,5)] by auto
  with assms show "sr_budget (first_draw session s r) = (sr_budget r)\<lparr>nb_used := nb_used (sr_budget r) + length s, nb_buffers := nb_buffers (sr_budget r) + 1\<rparr>"
    "hm_len (sr_sessions (first_draw session s r)) = Suc (hm_len (sr_sessions r))"
    "session' \<noteq> session \<Longrightarrow> hm_get session' (sr_sessions (first_draw session s r)) = hm_get session' (sr_sessions r)"
    by (simp_all add: first_draw_def session_push_def session_register_def hm_len_insert_absent Let_def)
qed

definition idle_buffers_run :: session_registry where
  "idle_buffers_run = first_draw ''c'' ''x'' (first_draw ''b'' ''xx'' (first_draw ''a'' ''xxxxx'' (session_registry_new 7)))"

lemma idle_filtered: "filter_sensitive_instructions ''xxxxx'' = ''xxxxx''" "filter_sensitive_instructions ''xx'' = ''xx''" "filter_sensitive_instructions ''x'' = ''x''"
  by (simp_all add: filter_eval)

lemma budget_passed: "registry_reach 7 idle_buffers_run \<and> nb_used (sr_budget idle_buffers_run) = 8 \<and> nb_limit (sr_budget idle_buffers_run) = 7"
proof
  show "registry_reach 7 idle_buffers_run"
    unfolding idle_buffers_run_def first_draw_def by (intro reach_push reach_register reach_registry_new)
  define r1 where "r1 = first_draw ''a'' ''xxxxx'' (session_registry_new 7)"
  define r2 where "r2 = first_draw ''b'' ''xx'' r1"
  note caps = nvr_caps_def nvr_share_def usize_saturating_mul_def bound_simps
  have new: "sr_sessions (session_registry_new 7) = []" "sr_budget (session_registry_new 7) = \<lparr>nb_limit = 7, nb_used = 0, nb_buffers = 0\<rparr>" "hm_len (sr_sessions (session_registry_new 7)) = 0"
    by (simp_all add: session_registry_new_def nvr_budget_new_def hm_len_def)
  have r1: "sr_budget r1 = \<lparr>nb_limit = 7, nb_used = 5, nb_buffers = 1\<rparr>" "hm_len (sr_sessions r1) = 1"
    "hm_get ''b'' (sr_sessions r1) = None" "hm_get ''c'' (sr_sessions r1) = None"
    unfolding r1_def
    by (subst first_draw_budget; simp add: new idle_filtered caps hm_len_def)+
  have caps2: "fst (nvr_caps \<lparr>nb_limit = 7, nb_used = u, nb_buffers = Suc (Suc 0)\<rparr>) = 2" for u
    using numeral_2_eq_2 [symmetric] by (simp add: caps Let_def del: One_nat_def) (simp add: numeral_2_eq_2 [symmetric])
  have caps3: "fst (nvr_caps \<lparr>nb_limit = 7, nb_used = u, nb_buffers = 3\<rparr>) = 1" for u
    by (simp add: caps Let_def)
  have r2: "sr_budget r2 = \<lparr>nb_limit = 7, nb_used = 7, nb_buffers = 2\<rparr>" "hm_len (sr_sessions r2) = 2" "hm_get ''c'' (sr_sessions r2) = None"
    unfolding r2_def
    by (subst first_draw_budget; simp add: r1 idle_filtered caps2 MAX_SESSIONS_def)+
  have "sr_budget idle_buffers_run = \<lparr>nb_limit = 7, nb_used = 8, nb_buffers = 3\<rparr>"
    unfolding idle_buffers_run_def r1_def [symmetric] r2_def [symmetric]
    by (subst first_draw_budget; simp add: r2 idle_filtered caps3 MAX_SESSIONS_def)
  then show "nb_used (sr_budget idle_buffers_run) = 8 \<and> nb_limit (sr_budget idle_buffers_run) = 7" by simp
qed

text \<open>A session's id is its connection's and the millisecond: two that share both share one entry, so the first can no longer be
terminated or listed although its tunnel goes on drawing, and its end takes the second out of the registry.\<close>

lemma buffer_release_sessions [simp]: "sr_sessions (buffer_release n r) = sr_sessions r"
  by (simp add: buffer_release_def split: option.split)

lemma register_sessions:
  "session_register now session connection name protocol user username host ip r = (Some n, r') \<Longrightarrow>
    \<exists>a. sr_sessions r' = hm_insert session a (sr_sessions r) \<and> as_user a = user"
  by (auto simp: session_register_def Let_def split: if_splits option.splits)

lemma same_id_hides_session:
  assumes "session_register now session connection name protocol user username host ip r = (Some n, r1)"
    "session_register now session connection name protocol user' username' host ip' r1 = (Some n', r2)"
  shows "(\<exists>a. hm_get session (sr_sessions r2) = Some a \<and> as_user a = user') \<and> hm_get session (sr_sessions (session_unregister session r2)) = None"
  using register_sessions [OF assms(2)] by (auto simp: session_unregister_def)

section \<open>What a viewer is shown\<close>

text \<open>Texts with the instants they were stored at, and the drawing instructions they hold.\<close>

definition salvaged :: "(int \<times> str) list \<Rightarrow> str list" where
  "salvaged texts = concat (map (persistent_instructions \<circ> snd) texts)"

definition timed_frames :: "session_buffer \<Rightarrow> (int \<times> str) list" where
  "timed_frames b = map (\<lambda>f. (bf_time f, bf_data f)) (sb_frames b)"

text \<open>The buffer holds the newest part of what was stored, and of the older part the newest drawing instructions; all of them if they fit.\<close>

definition tracks :: "nat \<Rightarrow> (int \<times> str) list \<Rightarrow> session_buffer \<Rightarrow> bool" where
  "tracks cap texts b \<longleftrightarrow>
    (\<exists>k j. k \<le> length texts \<and> timed_frames b = drop k texts \<and> sb_persistent b = drop j (salvaged (take k texts)) \<and>
       (sum_list (map length (salvaged texts)) \<le> cap \<longrightarrow> j = 0))"

lemma salvaged_append [simp]: "salvaged (xs @ ys) = salvaged xs @ salvaged ys"
  by (simp add: salvaged_def)

lemma salvaged_single [simp]: "salvaged [x] = persistent_instructions (snd x)"
  by (simp add: salvaged_def)

lemma pop_front_tracks:
  assumes "tracks cap texts b" "buffer_ok b" "sb_frames b = f # fs" "cap \<le> cap'"
  shows "tracks cap texts (pop_front cap' f fs b)"
proof -
  from assms obtain k j where kj: "k \<le> length texts" "(bf_time f, bf_data f) # map (\<lambda>f. (bf_time f, bf_data f)) fs = drop k texts" "sb_persistent b = drop j (salvaged (take k texts))"
    "sum_list (map length (salvaged texts)) \<le> cap \<longrightarrow> j = 0"
    by (auto simp: tracks_def timed_frames_def)
  have k: "k < length texts" "texts ! k = (bf_time f, bf_data f)" "drop (Suc k) texts = map (\<lambda>f. (bf_time f, bf_data f)) fs"
    using kj(1,2) by (cases "k = length texts"; auto simp: Cons_nth_drop_Suc [symmetric])+
  have take: "take (Suc k) texts = take k texts @ [(bf_time f, bf_data f)]" using k by (simp add: take_Suc_conv_app_nth)
  define b1 where "b1 = b\<lparr>sb_frames := fs, sb_total := sb_total b - bf_size f\<rparr>"
  have b1: "sb_persistent b1 = sb_persistent b" "sb_persistent_bytes b1 = sum_list (map length (sb_persistent b1))"
    using assms by (simp_all add: b1_def buffer_ok_def)
  obtain i where i: "sb_persistent (salvage cap' (bf_data f) b1) = drop i (sb_persistent b1 @ persistent_instructions (bf_data f))"
    "sum_list (map length (sb_persistent b1 @ persistent_instructions (bf_data f))) \<le> cap' \<Longrightarrow> i = 0"
    using salvage_spec [OF b1(2), of cap' "bf_data f"] by metis
  obtain m where m: "drop i (drop j (salvaged (take k texts)) @ persistent_instructions (bf_data f)) = drop m (salvaged (take (Suc k) texts))"
    "j = 0 \<Longrightarrow> i = 0 \<Longrightarrow> m = 0"
  proof (cases "j \<le> length (salvaged (take k texts))")
    case True
    then show ?thesis by (intro that [of "i + j"]) (simp_all add: take)
  next
    case False
    then show ?thesis by (intro that [of "i + length (salvaged (take k texts))"]) (simp_all add: take)
  qed
  have "m = 0" if fit: "sum_list (map length (salvaged texts)) \<le> cap"
  proof -
    have "salvaged texts = salvaged (take (Suc k) texts) @ salvaged (drop (Suc k) texts)"
      unfolding salvaged_append [symmetric] by simp
    with fit kj(4) have "sum_list (map length (sb_persistent b1 @ persistent_instructions (bf_data f))) \<le> cap'"
      using assms(4) by (simp add: b1 kj(3) take)
    then show ?thesis using i(2) m(2) kj(4) fit by blast
  qed
  then show ?thesis
    using k i m b1 kj unfolding tracks_def pop_front_def b1_def [symmetric]
    by (intro exI [of _ "Suc k"] exI [of _ m]) (simp add: b1_def timed_frames_def)
qed

lemma evict_old_tracks:
  "tracks cap texts b \<Longrightarrow> buffer_ok b \<Longrightarrow> cap \<le> cap' \<Longrightarrow> cap' \<le> MAX_PERSISTENT_STATE_BYTES \<Longrightarrow> tracks cap texts (evict_old cap' cutoff b)"
proof (induction cap' cutoff b rule: evict_old.induct)
  case (1 cap' cutoff b)
  then show ?case by (subst evict_old.simps) (auto simp: pop_front_ok pop_front_tracks split: list.splits)
qed

lemma evict_excess_tracks:
  "tracks cap texts b \<Longrightarrow> buffer_ok b \<Longrightarrow> cap \<le> cap' \<Longrightarrow> cap' \<le> MAX_PERSISTENT_STATE_BYTES \<Longrightarrow> tracks cap texts (evict_excess ring_cap cap' b)"
proof (induction ring_cap cap' b rule: evict_excess.induct)
  case (1 ring_cap cap' b)
  then show ?case by (subst evict_excess.simps) (auto simp: pop_front_ok pop_front_tracks split: list.splits)
qed

lemma appended_tracks:
  assumes "tracks cap texts b"
  shows "tracks cap (texts @ [(stamp, s)]) (appended stamp s b)"
proof -
  from assms obtain k j where "k \<le> length texts" "timed_frames b = drop k texts" "sb_persistent b = drop j (salvaged (take k texts))"
    "sum_list (map length (salvaged texts)) \<le> cap \<longrightarrow> j = 0"
    by (auto simp: tracks_def)
  then show ?thesis unfolding tracks_def by (intro exI [of _ k] exI [of _ j]) (auto simp: appended_def timed_frames_def)
qed

lemma account_parts: "account b nb = (b', nb') \<Longrightarrow> sb_frames b' = sb_frames b \<and> sb_persistent b' = sb_persistent b \<and> sb_total b' = sb_total b"
  by (auto simp: account_def Let_def)

lemma tracks_cong: "sb_frames b' = sb_frames b \<Longrightarrow> sb_persistent b' = sb_persistent b \<Longrightarrow> tracks cap texts b' = tracks cap texts b"
  by (simp add: tracks_def timed_frames_def)

lemma account_ok: "account b nb = (b', nb') \<Longrightarrow> buffer_ok b \<Longrightarrow> buffer_ok b'"
  by (auto simp: account_def buffer_ok_def Let_def)

text \<open>The pushes of a session, each with its two clock readings and the budget's counters at that moment; the texts they store, with the
instant of each; and what is left to check is that none but old texts were dropped for their age.\<close>

fun buffer_run :: "(int \<times> int \<times> str \<times> nvr_budget) list \<Rightarrow> session_buffer \<Rightarrow> session_buffer" where
  "buffer_run [] b = b"
| "buffer_run ((stamp, now, s, nb) # ps) b = buffer_run ps (fst (buffer_push stamp now s b nb))"

definition stored_texts :: "(int \<times> int \<times> str \<times> nvr_budget) list \<Rightarrow> (int \<times> str) list" where
  "stored_texts ps = filter (\<lambda>(t, s). s \<noteq> []) (map (\<lambda>(stamp, now, s, nb). (stamp, filter_sensitive_instructions s)) ps)"

text \<open>\<open>fresh_since seen b\<close>: every frame is at most five minutes older than \<open>seen\<close>.\<close>

definition fresh_since :: "int \<Rightarrow> session_buffer \<Rightarrow> bool" where
  "fresh_since seen b \<longleftrightarrow> (\<forall>f \<in> set (sb_frames b). bf_time f \<ge> seen - MAX_BUFFER_DURATION)"

lemma evict_old_frames: "\<exists>k. sb_frames (evict_old cap cutoff b) = drop k (sb_frames b)"
proof (induction cap cutoff b rule: evict_old.induct)
  case (1 cap cutoff b)
  show ?case
  proof (cases "sb_frames b")
    case (Cons f fs)
    with 1 [OF Cons] show ?thesis
      by (subst evict_old.simps) (auto intro: exI [of _ 0], metis drop_Suc_Cons)
  qed (simp add: evict_old.simps)
qed

lemma evict_old_head: "sb_frames (evict_old cap cutoff b) = f # fs \<Longrightarrow> bf_time f \<ge> cutoff"
proof (induction cap cutoff b rule: evict_old.induct)
  case (1 cap cutoff b)
  then show ?case by (subst (asm) (2) evict_old.simps) (auto split: list.splits if_splits)
qed

lemma evict_excess_frames: "\<exists>k. sb_frames (evict_excess ring_cap cap b) = drop k (sb_frames b)"
proof (induction ring_cap cap b rule: evict_excess.induct)
  case (1 ring_cap cap b)
  show ?case
  proof (cases "sb_frames b")
    case (Cons f fs)
    with 1 [OF _ Cons] show ?thesis
      by (subst evict_excess.simps) (auto intro: exI [of _ 0], metis drop_Suc_Cons)
  qed (simp add: evict_excess.simps)
qed

lemma sorted_head_fresh: "sorted (map bf_time fs) \<Longrightarrow> (\<And>f fs'. fs = f # fs' \<Longrightarrow> c \<le> bf_time f) \<Longrightarrow> f \<in> set fs \<Longrightarrow> c \<le> bf_time f"
  by (cases fs) (auto intro: order_trans)

lemma push_frames:
  assumes "filter_sensitive_instructions s \<noteq> []"
  shows "sb_frames (fst (buffer_push stamp now s b nb)) = sb_frames (evicted now nb (appended stamp (filter_sensitive_instructions s) b))"
  using assms by (simp add: buffer_push_eq account_def Let_def)

lemma push_fresh:
  assumes "filter_sensitive_instructions s \<noteq> []" "sorted (map bf_time (sb_frames b) @ [stamp])"
  shows "fresh_since now (fst (buffer_push stamp now s b nb))"
proof -
  define b1 where "b1 = appended stamp (filter_sensitive_instructions s) b"
  define b2 where "b2 = evict_old (snd (nvr_caps nb)) (now - MAX_BUFFER_DURATION) b1"
  have "sorted (map bf_time (sb_frames b1))" using assms(2) by (simp add: b1_def appended_def)
  then have "sorted (map bf_time (sb_frames b2))"
    using evict_old_frames [of "snd (nvr_caps nb)" "now - MAX_BUFFER_DURATION" b1] by (auto simp: b2_def drop_map [symmetric] sorted_wrt_drop)
  then have "bf_time f \<ge> now - MAX_BUFFER_DURATION" if "f \<in> set (sb_frames b2)" for f
    by (rule sorted_head_fresh [OF _ _ that]) (use evict_old_head b2_def in blast)
  moreover obtain k where "sb_frames (fst (buffer_push stamp now s b nb)) = drop k (sb_frames b2)"
    using evict_excess_frames [of "fst (nvr_caps nb)" "snd (nvr_caps nb)" b2] by (auto simp: push_frames [OF assms(1)] evicted_def b1_def b2_def)
  ultimately show ?thesis unfolding fresh_since_def by (auto dest: in_set_dropD)
qed

definition pushed_text :: "int \<Rightarrow> str \<Rightarrow> (int \<times> str) list" where
  "pushed_text stamp s = (if filter_sensitive_instructions s = [] then [] else [(stamp, filter_sensitive_instructions s)])"

lemma push_tracks:
  assumes "tracks cap texts b" "buffer_ok b" "cap \<le> snd (nvr_caps nb)"
  shows "tracks cap (texts @ pushed_text stamp s) (fst (buffer_push stamp now s b nb)) \<and> buffer_ok (fst (buffer_push stamp now s b nb))"
proof (cases "filter_sensitive_instructions s = []")
  case True
  with assms show ?thesis by (simp add: buffer_push_eq pushed_text_def)
next
  case False
  define b0 where "b0 = appended stamp (filter_sensitive_instructions s) b"
  obtain b' nb' where a: "account (evicted now nb b0) nb = (b', nb')" by fastforce
  have ok: "buffer_ok b0" using appended_ok [OF assms(2)] by (simp add: b0_def)
  have "tracks cap (texts @ [(stamp, filter_sensitive_instructions s)]) (evicted now nb b0)"
    unfolding evicted_def
    by (intro evict_excess_tracks evict_old_tracks evict_old_ok ok assms(3) caps_bounds) (simp add: b0_def appended_tracks assms(1))
  moreover have "buffer_push stamp now s b nb = (b', nb')" using False a by (simp add: buffer_push_eq b0_def)
  ultimately show ?thesis
    using False account_parts [OF a] account_ok [OF a evicted_ok(1) [OF ok]] tracks_cong [of b' "evicted now nb b0"] by (simp add: pushed_text_def)
qed

lemma pop_front_last_size [simp]: "sb_last_size (pop_front cap f fs b) = sb_last_size b"
  by (simp add: pop_front_def)

lemma evict_last_size [simp]:
  "sb_last_size (evict_old cap cutoff b) = sb_last_size b" "sb_last_size (evict_excess ring_cap cap b) = sb_last_size b"
proof -
  show "sb_last_size (evict_old cap cutoff b) = sb_last_size b"
    by (induction cap cutoff b rule: evict_old.induct) (subst evict_old.simps, simp split: list.splits)
  show "sb_last_size (evict_excess ring_cap cap b) = sb_last_size b"
    by (induction ring_cap cap b rule: evict_excess.induct) (subst evict_excess.simps, simp split: list.splits)
qed

lemma push_last_size:
  "sb_last_size (fst (buffer_push stamp now s b nb)) = fold last_size_of (map snd (pushed_text stamp s)) (sb_last_size b)"
  by (simp add: buffer_push_eq pushed_text_def account_def evicted_def appended_def Let_def)

lemma stored_texts_Cons: "stored_texts ((stamp, now, s, nb) # ps) = pushed_text stamp s @ stored_texts ps"
  by (simp add: stored_texts_def pushed_text_def)

lemma stored_texts_append: "stored_texts (ps @ qs) = stored_texts ps @ stored_texts qs"
  by (simp add: stored_texts_def)

lemma buffer_run_append: "buffer_run (ps @ qs) b = buffer_run qs (buffer_run ps b)"
  by (induction ps b rule: buffer_run.induct) simp_all

lemma buffer_run_tracks:
  "tracks cap texts b \<Longrightarrow> buffer_ok b \<Longrightarrow> \<forall>(stamp, now, s, nb) \<in> set ps. cap \<le> snd (nvr_caps nb) \<Longrightarrow>
    tracks cap (texts @ stored_texts ps) (buffer_run ps b)
    \<and> sb_last_size (buffer_run ps b) = fold last_size_of (map snd (stored_texts ps)) (sb_last_size b)"
proof (induction ps b arbitrary: texts rule: buffer_run.induct)
  case (2 stamp now s nb ps b)
  have head: "cap \<le> snd (nvr_caps nb)" using 2(4) by simp
  note pushed = push_tracks [OF 2(2,3) head, of stamp s now]
  have "tracks cap ((texts @ pushed_text stamp s) @ stored_texts ps) (buffer_run ps (fst (buffer_push stamp now s b nb)))
    \<and> sb_last_size (buffer_run ps (fst (buffer_push stamp now s b nb)))
      = fold last_size_of (map snd (stored_texts ps)) (sb_last_size (fst (buffer_push stamp now s b nb)))"
    using pushed 2(4) by (intro 2(1)) simp_all
  then show ?case by (simp add: stored_texts_Cons push_last_size)
qed (simp add: stored_texts_def)

lemma tracks_new: "tracks cap [] buffer_new" "buffer_ok buffer_new"
  by (auto simp: tracks_def timed_frames_def buffer_new_def salvaged_def buffer_ok_def clean_def)

lemma sorted_filter_drop:
  "sorted (map fst xs) \<Longrightarrow> \<exists>m \<le> length xs. filter (\<lambda>(t, s). c \<le> t) xs = drop m xs \<and> (\<forall>(t, s) \<in> set (take m xs). t < (c :: int))"
proof (induction xs)
  case (Cons x xs)
  obtain t u where x: "x = (t, u)" by (cases x)
  show ?case
  proof (cases "c \<le> t")
    case True
    then have "filter (\<lambda>(t, s). c \<le> t) (x # xs) = x # xs" using Cons.prems x by (fastforce simp: filter_id_conv)
    then show ?thesis by (intro exI [of _ 0]) simp
  next
    case False
    from Cons obtain m where "m \<le> length xs" "filter (\<lambda>(t, s). c \<le> t) xs = drop m xs" "\<forall>(t, s) \<in> set (take m xs). t < c" by auto
    with False x show ?thesis by (intro exI [of _ "Suc m"]) auto
  qed
qed simp

lemma frames_sent: "map snd (frames_with_timing now 300 b) = map snd (filter (\<lambda>(t, s). now - MAX_BUFFER_DURATION \<le> t) (timed_frames b))"
  by (simp add: frames_with_timing_def timed_frames_def Let_def filter_map comp_def MAX_BUFFER_DURATION_def split_def)

lemma frame_times: "map bf_time (sb_frames b) = map fst (timed_frames b)"
  by (simp add: timed_frames_def)

lemma run_fresh:
  assumes "tracks cap texts b" "filter_sensitive_instructions s \<noteq> []" "sorted (map fst (texts @ pushed_text stamp s))"
  shows "fresh_since now (fst (buffer_push stamp now s b nb))"
proof -
  obtain k where "timed_frames b = drop k texts" using assms(1) by (auto simp: tracks_def)
  then have "map bf_time (sb_frames b) = drop k (map fst texts)" by (simp add: frame_times drop_map)
  moreover have "sorted (map fst texts @ [stamp])" using assms(2,3) by (simp add: pushed_text_def)
  ultimately have "sorted (map bf_time (sb_frames b) @ [stamp])"
    using in_set_dropD [of _ k "map fst texts"] unfolding sorted_append by (metis sorted_wrt_drop)
  with assms(2) show ?thesis by (rule push_fresh)
qed


definition viewer_pushes :: "(int \<times> int \<times> str \<times> nvr_budget) list" where
  "viewer_pushes = [(0, 0, ''4.size,1.9;'', nvr_budget_new 7340032), (400000000000, 400000000000, ''3.png,1.x;'', nvr_budget_new 7340032)]"

lemma viewer_filtered: "filter_sensitive_instructions ''4.size,1.9;'' = ''4.size,1.9;''" "filter_sensitive_instructions ''3.png,1.x;'' = ''3.png,1.x;''"
  by (simp_all add: filter_eval)

lemma viewer_texts: "stored_texts viewer_pushes = [(0, ''4.size,1.9;''), (400000000000, ''3.png,1.x;'')]"
  by (simp add: stored_texts_def viewer_pushes_def viewer_filtered)

lemma viewer_caps: "snd (nvr_caps (nvr_budget_new 7340032)) = 2097152"
  by (simp add: nvr_caps_def nvr_share_def nvr_budget_new_def usize_saturating_mul_def bound_simps)


text \<open>A session that drew once and then went quiet for more than five minutes shows a viewer nothing of it: the frame is too old to be sent
and still too young to have been salvaged, which only the next push would do.\<close>

lemma quiet_session_not_replayed:
  "shared_replay 301000000000 (buffer_run [(0, 0, ''3.png,1.x;'', nvr_budget_new 7340032)] buffer_new) = []"
  using viewer_filtered(2)
  by (simp add: shared_replay_def frames_with_timing_def persistent_state_def buffer_push_eq appended_def evicted_def evict_old.simps evict_excess.simps
      buffer_new_def account_def nvr_caps_def nvr_share_def nvr_budget_new_def usize_saturating_mul_def bound_simps Let_def last_size_of_def
      str_contains_def starts_with_def last_sync_def)

end
