(* ===== verification/User_Admin.thy ===== *)
theory User_Admin
  imports Auth_Gate
begin

text \<open>
  Users, roles and their administration: the statements of \<open>backend/src/services/users.rs\<close> and \<open>services/roles.rs\<close>, the handlers of
  \<open>routes/admin.rs\<close> over them, and the sweeps of \<open>services/user_cleanup.rs\<close>. Both tables are lists of rows in one record with the audit
  entries and the limiter of password resets. \<open>user_env\<close> is what one call sees of the rest: its clock in microseconds, the error of each
  statement that fails, lower-casing in Rust and in SQL, fresh identifiers and passwords, the hash. A transaction is one step.
\<close>

section \<open>Rows\<close>

record role_row =
  ro_id :: bytes
  ro_name :: str
  ro_description :: str
  ro_perms :: permissions
  ro_max_sessions :: "int option"

record user_account =
  acc_id :: bytes
  acc_username :: str
  acc_email :: str
  acc_full_name :: "str option"
  acc_auth_type :: str
  acc_sub :: "str option"
  acc_issuer :: "str option"
  acc_role :: bytes
  acc_password :: "str option"
  acc_deleted :: "int option"
  acc_last_login :: "int option"
  acc_valid_after :: "int option"
  acc_jit :: bool
  acc_share_approval :: "bool option"

record audit_entry =
  ae_user :: "bytes option"
  ae_action :: str
  ae_target :: "bytes option"

record accounts =
  am_roles :: "role_row list"
  am_users :: "user_account list"
  am_audit :: "audit_entry list"
  am_resets :: "(str, int list) hmap"

record user_env =
  ue_running :: bool
  ue_now :: int
  ue_instant :: int
  ue_fault :: "str \<Rightarrow> str option"
  ue_lower :: "str \<Rightarrow> str"
  ue_sql_lower :: "str \<Rightarrow> str"
  ue_new_id :: bytes
  ue_plain :: str
  ue_hash :: "str \<Rightarrow> gate_error + str"

text \<open>A statement fails with the database's error or gives its result.\<close>

definition stmt :: "user_env \<Rightarrow> str \<Rightarrow> (accounts \<Rightarrow> 'a \<times> accounts) \<Rightarrow> accounts \<Rightarrow> (gate_error + 'a) \<times> accounts" where
  "stmt env name f m = (case ue_fault env name of Some e \<Rightarrow> (Inl (Database e), m) | None \<Rightarrow> (case f m of (x, m') \<Rightarrow> (Inr x, m')))"

definition query :: "user_env \<Rightarrow> str \<Rightarrow> (accounts \<Rightarrow> 'a) \<Rightarrow> accounts \<Rightarrow> (gate_error + 'a) \<times> accounts" where
  "query env name f = stmt env name (\<lambda>m. (f m, m))"

definition user_audit_log :: "user_env \<Rightarrow> bytes option \<Rightarrow> str \<Rightarrow> bytes option \<Rightarrow> accounts \<Rightarrow> (gate_error + unit) \<times> accounts" where
  "user_audit_log env user action target =
    stmt env ''audit'' (\<lambda>m. ((), m\<lparr>am_audit := am_audit m @ [\<lparr>ae_user = user, ae_action = action, ae_target = target\<rparr>]\<rparr>))"

definition require_running :: "user_env \<Rightarrow> gate_error + unit" where
  "require_running env = (if ue_running env then Inr () else Inl SetupRequired)"

definition live_user :: "user_account \<Rightarrow> bool" where
  "live_user u \<longleftrightarrow> acc_deleted u = None"

definition find_role :: "bytes \<Rightarrow> accounts \<Rightarrow> role_row option" where
  "find_role role m = List.find (\<lambda>r. ro_id r = role) (am_roles m)"

definition update_users :: "(user_account \<Rightarrow> bool) \<Rightarrow> (user_account \<Rightarrow> user_account) \<Rightarrow> accounts \<Rightarrow> bool \<times> accounts" where
  "update_users P f m = (list_ex P (am_users m), m\<lparr>am_users := map (\<lambda>u. if P u then f u else u) (am_users m)\<rparr>)"

section \<open>Users\<close>

definition is_system_admin :: "accounts \<Rightarrow> user_account \<Rightarrow> bool" where
  "is_system_admin m u \<longleftrightarrow> live_user u \<and> (case find_role (acc_role u) m of Some r \<Rightarrow> can_manage_system (ro_perms r) | None \<Rightarrow> False)"

definition count_system_admins :: "accounts \<Rightarrow> nat" where
  "count_system_admins m = length (filter (is_system_admin m) (am_users m))"

text \<open>A change under the advisory lock: rolled back if it would take away the last system administrator.\<close>

definition admin_change :: "(accounts \<Rightarrow> bool \<times> accounts) \<Rightarrow> accounts \<Rightarrow> (gate_error + bool) \<times> accounts" where
  "admin_change f m =
    (case f m of
       (False, _) \<Rightarrow> (Inr False, m)
     | (True, m') \<Rightarrow>
         if count_system_admins m > 0 \<and> count_system_admins m' = 0
         then (Inl (Validation ''At least one active system administrator must remain''), m)
         else (Inr True, m'))"

definition user_restore :: "user_env \<Rightarrow> bytes \<Rightarrow> accounts \<Rightarrow> (gate_error + bool) \<times> accounts" where
  "user_restore env user = stmt env ''restore'' (update_users (\<lambda>u. acc_id u = user \<and> \<not> live_user u) (\<lambda>u. u\<lparr>acc_deleted := None\<rparr>))"

definition soft_delete :: "user_env \<Rightarrow> bytes \<Rightarrow> accounts \<Rightarrow> (gate_error + bool) \<times> accounts" where
  "soft_delete env user m =
    (case ue_fault env ''soft_delete'' of
       Some e \<Rightarrow> (Inl (Database e), m)
     | None \<Rightarrow> admin_change (update_users (\<lambda>u. acc_id u = user \<and> live_user u)
                 (\<lambda>u. u\<lparr>acc_deleted := Some (ue_now env), acc_valid_after := Some (ue_now env)\<rparr>)) m)"

definition set_role :: "user_env \<Rightarrow> bytes \<Rightarrow> bytes \<Rightarrow> accounts \<Rightarrow> (gate_error + bool) \<times> accounts" where
  "set_role env user role m =
    (case ue_fault env ''set_role'' of
       Some e \<Rightarrow> (Inl (Database e), m)
     | None \<Rightarrow>
         if list_ex (\<lambda>u. acc_id u = user \<and> live_user u) (am_users m) \<and> find_role role m = None
         then (Inl (Database ''users_role_id_fkey''), m)
         else admin_change (update_users (\<lambda>u. acc_id u = user \<and> live_user u) (\<lambda>u. u\<lparr>acc_role := role\<rparr>)) m)"

definition role_id_of :: "bytes \<Rightarrow> accounts \<Rightarrow> bytes option" where
  "role_id_of user m = map_option acc_role (List.find (\<lambda>u. acc_id u = user) (am_users m))"

definition update_last_login :: "user_env \<Rightarrow> bytes \<Rightarrow> accounts \<Rightarrow> (gate_error + bool) \<times> accounts" where
  "update_last_login env user = stmt env ''last_login'' (update_users (\<lambda>u. acc_id u = user) (\<lambda>u. u\<lparr>acc_last_login := Some (ue_now env)\<rparr>))"

definition set_safeguard_jit_enabled :: "user_env \<Rightarrow> bytes \<Rightarrow> bool \<Rightarrow> accounts \<Rightarrow> (gate_error + bool) \<times> accounts" where
  "set_safeguard_jit_enabled env user enabled = stmt env ''jit'' (update_users (\<lambda>u. acc_id u = user \<and> live_user u) (\<lambda>u. u\<lparr>acc_jit := enabled\<rparr>))"

definition safeguard_jit_enabled :: "user_env \<Rightarrow> bytes \<Rightarrow> accounts \<Rightarrow> bool" where
  "safeguard_jit_enabled env user m =
    (case (ue_fault env ''jit_enabled'', List.find (\<lambda>u. acc_id u = user \<and> live_user u) (am_users m)) of (None, Some u) \<Rightarrow> acc_jit u | _ \<Rightarrow> False)"

definition set_outbound_share_requires_approval :: "user_env \<Rightarrow> bytes \<Rightarrow> bool option \<Rightarrow> accounts \<Rightarrow> (gate_error + bool) \<times> accounts" where
  "set_outbound_share_requires_approval env user v =
    stmt env ''share_approval'' (update_users (\<lambda>u. acc_id u = user \<and> live_user u) (\<lambda>u. u\<lparr>acc_share_approval := v\<rparr>))"

definition exists_by_email_or_username :: "user_env \<Rightarrow> str \<Rightarrow> str \<Rightarrow> accounts \<Rightarrow> bool" where
  "exists_by_email_or_username env email username m =
    list_ex (\<lambda>u. ue_sql_lower env (acc_email u) = email \<or> ue_sql_lower env (acc_username u) = username) (am_users m)"

definition auth_type_of :: "bytes \<Rightarrow> accounts \<Rightarrow> str option" where
  "auth_type_of user m = map_option acc_auth_type (List.find (\<lambda>u. acc_id u = user \<and> live_user u) (am_users m))"

definition set_password_hash :: "user_env \<Rightarrow> bytes \<Rightarrow> str \<Rightarrow> accounts \<Rightarrow> (gate_error + bool) \<times> accounts" where
  "set_password_hash env user hash =
    stmt env ''password'' (update_users (\<lambda>u. acc_id u = user) (\<lambda>u. u\<lparr>acc_password := Some hash, acc_valid_after := Some (ue_now env)\<rparr>))"

text \<open>The unique indexes: the id, and among live users the lower-cased email and name; the role must exist.\<close>

definition insert_refused :: "user_env \<Rightarrow> user_account \<Rightarrow> accounts \<Rightarrow> bool" where
  "insert_refused env new m \<longleftrightarrow>
    list_ex (\<lambda>u. acc_id u = acc_id new \<or> live_user u \<and> (ue_sql_lower env (acc_email u) = ue_sql_lower env (acc_email new)
        \<or> ue_sql_lower env (acc_username u) = ue_sql_lower env (acc_username new))) (am_users m)
    \<or> find_role (acc_role new) m = None"

definition insert_user :: "user_env \<Rightarrow> user_account \<Rightarrow> accounts \<Rightarrow> (gate_error + unit) \<times> accounts" where
  "insert_user env new m =
    (case ue_fault env ''insert_user'' of
       Some e \<Rightarrow> (Inl (Database e), m)
     | None \<Rightarrow> if insert_refused env new m then (Inl (Database ''users''), m) else (Inr (), m\<lparr>am_users := am_users m @ [new]\<rparr>))"

section \<open>Roles\<close>

definition is_within :: "role_row \<Rightarrow> auth_user \<Rightarrow> bool" where
  "is_within r actor \<longleftrightarrow>
    can_manage_system (au_perms actor) \<or>
    (let role = ro_perms r; held = au_perms actor in
     list_all (\<lambda>(g, h). \<not> g \<or> h)
       [(can_manage_system role, can_manage_system held), (can_manage_users role, can_manage_users held),
        (can_manage_connections role, can_manage_connections held), (can_view_audit_logs role, can_view_audit_logs held),
        (can_create_users role, can_create_users held), (can_create_user_groups role, can_create_user_groups held),
        (can_create_connections role, can_create_connections held), (can_create_sharing_profiles role, can_create_sharing_profiles held),
        (can_view_sessions role, can_view_sessions held), (can_use_quick_share role, can_use_quick_share held),
        (can_use_quick_share_outbound role, can_use_quick_share_outbound held)])"

definition MAX_DESCRIPTION_CHARS :: nat where [bound_simps]: "MAX_DESCRIPTION_CHARS = 500"

definition normalize_description :: "str option \<Rightarrow> gate_error + str option" where
  "normalize_description raw =
    (case raw of
       None \<Rightarrow> Inr None
     | Some s \<Rightarrow>
         if chars_count (trim s) > MAX_DESCRIPTION_CHARS then Inl (Validation ''Role description must be 500 characters or fewer'')
         else Inr (Some (trim s)))"

definition check_session_limit :: "int option \<Rightarrow> gate_error + unit" where
  "check_session_limit limit =
    (case limit of
       Some n \<Rightarrow> if n < 0 \<or> n > 10000 then Inl (Validation ''Concurrent session limit must be between 0 (no limit) and 10000'') else Inr ()
     | None \<Rightarrow> Inr ())"

text \<open>The body of both role requests; a permission is named by its column.\<close>

record role_request =
  rr_name :: "str option"
  rr_description :: "str option"
  rr_perms :: "str \<Rightarrow> bool option"
  rr_max_sessions :: "int option"

definition merge_perms :: "(str \<Rightarrow> bool option) \<Rightarrow> permissions \<Rightarrow> permissions" where
  "merge_perms f p =
    (let get = (\<lambda>name old. case f name of Some b \<Rightarrow> b | None \<Rightarrow> old) in
     \<lparr>can_manage_system = get ''can_manage_system'' (can_manage_system p), can_manage_users = get ''can_manage_users'' (can_manage_users p),
      can_manage_connections = get ''can_manage_connections'' (can_manage_connections p), can_view_audit_logs = get ''can_view_audit_logs'' (can_view_audit_logs p),
      can_create_users = get ''can_create_users'' (can_create_users p), can_create_user_groups = get ''can_create_user_groups'' (can_create_user_groups p),
      can_create_connections = get ''can_create_connections'' (can_create_connections p),
      can_create_sharing_profiles = get ''can_create_sharing_profiles'' (can_create_sharing_profiles p),
      can_view_sessions = get ''can_view_sessions'' (can_view_sessions p), can_use_quick_share = get ''can_use_quick_share'' (can_use_quick_share p),
      can_use_quick_share_outbound = get ''can_use_quick_share_outbound'' (can_use_quick_share_outbound p)\<rparr>)"

definition no_permissions :: permissions where
  "no_permissions =
    \<lparr>can_manage_system = False, can_manage_users = False, can_manage_connections = False, can_view_audit_logs = False, can_create_users = False,
     can_create_user_groups = False, can_create_connections = False, can_create_sharing_profiles = False, can_view_sessions = False,
     can_use_quick_share = False, can_use_quick_share_outbound = False\<rparr>"

definition zero_is_none :: "int option \<Rightarrow> int option" where
  "zero_is_none v = (if v = Some 0 then None else v)"

definition role_create :: "user_env \<Rightarrow> str \<Rightarrow> role_request \<Rightarrow> accounts \<Rightarrow> (gate_error + role_row) \<times> accounts" where
  "role_create env name body m =
    and_do (normalize_description (rr_description body), m) (\<lambda>description m.
    and_do (check_session_limit (rr_max_sessions body), m) (\<lambda>_ m.
      let row = \<lparr>ro_id = ue_new_id env, ro_name = name, ro_description = (case description of Some d \<Rightarrow> d | None \<Rightarrow> []),
                 ro_perms = merge_perms (rr_perms body) no_permissions, ro_max_sessions = zero_is_none (rr_max_sessions body)\<rparr> in
      case ue_fault env ''create_role'' of
        Some e \<Rightarrow> (Inl (Database e), m)
      | None \<Rightarrow> if list_ex (\<lambda>r. ro_id r = ro_id row \<or> ro_name r = name) (am_roles m) then (Inl (Database ''roles''), m)
                else (Inr row, m\<lparr>am_roles := am_roles m @ [row]\<rparr>)))"

definition merge_role :: "role_request \<Rightarrow> str option \<Rightarrow> role_row \<Rightarrow> role_row" where
  "merge_role body description r =
    r\<lparr>ro_name := (case rr_name body of Some n \<Rightarrow> n | None \<Rightarrow> ro_name r), ro_perms := merge_perms (rr_perms body) (ro_perms r),
      ro_description := (case description of Some d \<Rightarrow> d | None \<Rightarrow> ro_description r),
      ro_max_sessions := (case rr_max_sessions body of None \<Rightarrow> ro_max_sessions r | Some n \<Rightarrow> zero_is_none (Some n))\<rparr>"

definition role_update :: "user_env \<Rightarrow> bytes \<Rightarrow> role_request \<Rightarrow> accounts \<Rightarrow> (gate_error + role_row) \<times> accounts" where
  "role_update env role body m =
    and_do (normalize_description (rr_description body), m) (\<lambda>description m.
    and_do (check_session_limit (rr_max_sessions body), m) (\<lambda>_ m.
      case ue_fault env ''update_role'' of
        Some e \<Rightarrow> (Inl (Database e), m)
      | None \<Rightarrow>
          (case find_role role m of
             None \<Rightarrow> (Inl (Database ''no rows returned''), m)
           | Some r \<Rightarrow>
               if list_ex (\<lambda>q. ro_id q \<noteq> role \<and> ro_name q = ro_name (merge_role body description r)) (am_roles m) then (Inl (Database ''roles''), m)
               else (Inr (merge_role body description r),
                     m\<lparr>am_roles := map (\<lambda>q. if ro_id q = role then merge_role body description q else q) (am_roles m)\<rparr>))))"

definition count_users_in_role :: "bytes \<Rightarrow> accounts \<Rightarrow> nat" where
  "count_users_in_role role m = length (filter (\<lambda>u. acc_role u = role) (am_users m))"

definition role_delete :: "user_env \<Rightarrow> bytes \<Rightarrow> accounts \<Rightarrow> (gate_error + unit) \<times> accounts" where
  "role_delete env role m =
    (case ue_fault env ''delete_role'' of
       Some e \<Rightarrow> (Inl (Database e), m)
     | None \<Rightarrow> if list_ex (\<lambda>u. acc_role u = role) (am_users m) then (Inl (Database ''users_role_id_fkey''), m)
               else (Inr (), m\<lparr>am_roles := filter (\<lambda>r. ro_id r \<noteq> role) (am_roles m)\<rparr>))"

section \<open>Handlers\<close>

definition create_role :: "user_env \<Rightarrow> auth_user \<Rightarrow> str \<Rightarrow> role_request \<Rightarrow> accounts \<Rightarrow> (gate_error + role_row) \<times> accounts" where
  "create_role env user name body m =
    and_do (check_system_permission user, m) (\<lambda>_ m.
    and_do (require_running env, m) (\<lambda>_ m.
    and_do (role_create env name body m) (\<lambda>row m.
    and_do (user_audit_log env (Some (au_id user)) ''role.created'' (Some (ro_id row)) m) (\<lambda>_ m. (Inr row, m)))))"

definition update_role :: "user_env \<Rightarrow> auth_user \<Rightarrow> bytes \<Rightarrow> role_request \<Rightarrow> accounts \<Rightarrow> (gate_error + role_row) \<times> accounts" where
  "update_role env user role body m =
    and_do (check_system_permission user, m) (\<lambda>_ m.
    and_do (require_running env, m) (\<lambda>_ m.
    and_do (role_update env role body m) (\<lambda>row m.
    and_do (user_audit_log env (Some (au_id user)) ''role.updated'' (Some role) m) (\<lambda>_ m. (Inr row, m)))))"

definition delete_role :: "user_env \<Rightarrow> auth_user \<Rightarrow> bytes \<Rightarrow> accounts \<Rightarrow> (gate_error + unit) \<times> accounts" where
  "delete_role env user role m =
    and_do (check_system_permission user, m) (\<lambda>_ m.
    and_do (require_running env, m) (\<lambda>_ m.
    and_do (query env ''find_name'' (find_role role) m) (\<lambda>found m.
    and_do (ok_or found (NotFound ''Role not found''), m) (\<lambda>r m.
      if ro_name r = ''admin'' \<or> ro_name r = ''user'' then (Inl (Validation ''System roles cannot be deleted''), m)
      else
        and_do (query env ''count_users'' (count_users_in_role role) m) (\<lambda>n m.
          if n > 0 then (Inl (Validation ''Cannot delete role while users are assigned to it''), m)
          else
            and_do (role_delete env role m) (\<lambda>_ m.
            user_audit_log env (Some (au_id user)) ''role.deleted'' (Some role) m))))))"

definition authorise_role_grant :: "user_env \<Rightarrow> auth_user \<Rightarrow> bytes \<Rightarrow> accounts \<Rightarrow> (gate_error + unit) \<times> accounts" where
  "authorise_role_grant env actor role m =
    and_do (query env ''find_role'' (find_role role) m) (\<lambda>found m.
    and_do (ok_or found (NotFound ''Role not found''), m) (\<lambda>r m.
      if \<not> is_within r actor then (Inl Forbidden, m) else (Inr (), m)))"

definition authorise_user_target :: "user_env \<Rightarrow> auth_user \<Rightarrow> bytes \<Rightarrow> accounts \<Rightarrow> (gate_error + unit) \<times> accounts" where
  "authorise_user_target env actor target m =
    (if can_manage_system (au_perms actor) then (Inr (), m)
     else if target = au_id actor then (Inl Forbidden, m)
     else
       and_do (query env ''role_id_of'' (role_id_of target) m) (\<lambda>found m.
       and_do (ok_or found (NotFound ''User not found''), m) (\<lambda>role m.
         authorise_role_grant env actor role m)))"

text \<open>A change that must have found its row.\<close>

definition found_or :: "str \<Rightarrow> (gate_error + bool) \<times> accounts \<Rightarrow> (gate_error + unit) \<times> accounts" where
  "found_or message r = and_do r (\<lambda>found m. if found then (Inr (), m) else (Inl (NotFound message), m))"

definition restore_user :: "user_env \<Rightarrow> auth_user \<Rightarrow> bytes \<Rightarrow> accounts \<Rightarrow> (gate_error + unit) \<times> accounts" where
  "restore_user env user target m =
    and_do (check_user_management_permission user, m) (\<lambda>_ m.
    and_do (require_running env, m) (\<lambda>_ m.
    and_do (authorise_user_target env user target m) (\<lambda>_ m.
    and_do (found_or ''Deleted user not found'' (user_restore env target m)) (\<lambda>_ m.
    user_audit_log env (Some (au_id user)) ''user.restored'' (Some target) m))))"

definition delete_user :: "user_env \<Rightarrow> auth_user \<Rightarrow> bytes \<Rightarrow> accounts \<Rightarrow> (gate_error + unit) \<times> accounts" where
  "delete_user env user target m =
    and_do (check_user_management_permission user, m) (\<lambda>_ m.
    and_do (require_running env, m) (\<lambda>_ m.
    and_do (authorise_user_target env user target m) (\<lambda>_ m.
    and_do (found_or ''User not found'' (soft_delete env target m)) (\<lambda>_ m.
    user_audit_log env (Some (au_id user)) ''user.deleted'' (Some target) m))))"

record update_user_request =
  uu_role :: "bytes option"
  uu_jit :: "bool option"
  uu_approval :: "bool option option"

definition update_user_role :: "user_env \<Rightarrow> auth_user \<Rightarrow> bytes \<Rightarrow> bytes option \<Rightarrow> accounts \<Rightarrow> (gate_error + unit) \<times> accounts" where
  "update_user_role env user target role_id m =
    (case role_id of
       None \<Rightarrow> (Inr (), m)
     | Some role \<Rightarrow>
         and_do (authorise_role_grant env user role m) (\<lambda>_ m.
         and_do (found_or ''User not found'' (set_role env target role m)) (\<lambda>_ m.
         user_audit_log env (Some (au_id user)) ''user.role_changed'' (Some target) m)))"

definition update_user_jit :: "user_env \<Rightarrow> auth_user \<Rightarrow> bytes \<Rightarrow> bool option \<Rightarrow> accounts \<Rightarrow> (gate_error + unit) \<times> accounts" where
  "update_user_jit env user target enabled m =
    (case enabled of
       None \<Rightarrow> (Inr (), m)
     | Some b \<Rightarrow>
         and_do (found_or ''User not found'' (set_safeguard_jit_enabled env target b m)) (\<lambda>_ m.
         user_audit_log env (Some (au_id user)) ''user.safeguard_jit_toggled'' (Some target) m))"

definition update_user_approval :: "user_env \<Rightarrow> auth_user \<Rightarrow> bytes \<Rightarrow> bool option option \<Rightarrow> accounts \<Rightarrow> (gate_error + unit) \<times> accounts" where
  "update_user_approval env user target approval m =
    (case approval of
       None \<Rightarrow> (Inr (), m)
     | Some v \<Rightarrow>
         and_do (found_or ''User not found'' (set_outbound_share_requires_approval env target v m)) (\<lambda>_ m.
         user_audit_log env (Some (au_id user)) ''user.outbound_share_approval_toggled'' (Some target) m))"

definition update_user :: "user_env \<Rightarrow> auth_user \<Rightarrow> bytes \<Rightarrow> update_user_request \<Rightarrow> accounts \<Rightarrow> (gate_error + unit) \<times> accounts" where
  "update_user env user target body m =
    and_do (check_user_management_permission user, m) (\<lambda>_ m.
    and_do (require_running env, m) (\<lambda>_ m.
      if uu_role body = None \<and> uu_jit body = None \<and> uu_approval body = None then (Inl (Validation ''No updatable fields supplied''), m)
      else
        and_do (authorise_user_target env user target m) (\<lambda>_ m.
          if uu_approval body = Some (Some False) \<and> \<not> can_manage_system (au_perms user) then (Inl Forbidden, m)
          else
            and_do (update_user_role env user target (uu_role body) m) (\<lambda>_ m.
            and_do (update_user_jit env user target (uu_jit body) m) (\<lambda>_ m.
            update_user_approval env user target (uu_approval body) m)))))"

record create_user_request =
  cu_username :: str
  cu_email :: str
  cu_full_name :: "str option"
  cu_role :: bytes
  cu_auth_type :: str

definition MIN_PASSWORD_LENGTH :: nat where [bound_simps]: "MIN_PASSWORD_LENGTH = 12"

definition validate_password :: "str \<Rightarrow> gate_error + unit" where
  "validate_password password =
    (if length password < MIN_PASSWORD_LENGTH then Inl (Validation ''Password must be at least 12 characters'')
     else if length password > 256 then Inl (Validation ''Password is too long'')
     else Inr ())"

definition new_password :: "user_env \<Rightarrow> str \<Rightarrow> gate_error + str option \<times> str option" where
  "new_password env auth_type =
    (if auth_type = ''local''
     then and_then (validate_password (ue_plain env)) (\<lambda>_.
          and_then (ue_hash env (ue_plain env)) (\<lambda>hash. Inr (Some hash, Some (ue_plain env))))
     else Inr (None, None))"

definition new_account :: "user_env \<Rightarrow> create_user_request \<Rightarrow> str option \<Rightarrow> user_account" where
  "new_account env body hash =
    \<lparr>acc_id = ue_new_id env, acc_username = ue_lower env (cu_username body), acc_email = ue_lower env (cu_email body),
     acc_full_name = cu_full_name body, acc_auth_type = cu_auth_type body, acc_sub = None, acc_issuer = None, acc_role = cu_role body,
     acc_password = hash, acc_deleted = None, acc_last_login = None, acc_valid_after = None, acc_jit = False, acc_share_approval = None\<rparr>"

definition create_user :: "user_env \<Rightarrow> auth_user \<Rightarrow> create_user_request \<Rightarrow> accounts \<Rightarrow> (gate_error + bytes \<times> str \<times> str option) \<times> accounts" where
  "create_user env user body m =
    and_do (check_user_management_permission user, m) (\<lambda>_ m.
    and_do (require_running env, m) (\<lambda>_ m.
    and_do (authorise_role_grant env user (cu_role body) m) (\<lambda>_ m.
    and_do (query env ''exists'' (exists_by_email_or_username env (ue_lower env (cu_email body)) (ue_lower env (cu_username body))) m) (\<lambda>taken m.
      if taken then (Inl (Validation (''User with email '' @ ue_lower env (cu_email body) @ '' already exists'')), m)
      else
        and_do (new_password env (cu_auth_type body), m) (\<lambda>(hash, plain) m.
        and_do (insert_user env (new_account env body hash) m) (\<lambda>_ m.
        and_do (user_audit_log env (Some (au_id user)) ''user.created'' (Some (ue_new_id env)) m) (\<lambda>_ m.
          (Inr (ue_new_id env, ue_lower env (cu_username body), plain), m))))))))"

section \<open>Password resets\<close>

definition RESET_PW_MAX_ATTEMPTS :: nat where [bound_simps]: "RESET_PW_MAX_ATTEMPTS = 3"
definition RESET_PW_WINDOW_SECS :: int where [bound_simps]: "RESET_PW_WINDOW_SECS = 3600"
definition RESET_PW_MAX_ENTRIES :: nat where [bound_simps]: "RESET_PW_MAX_ENTRIES = 10000"

definition prune_attempts :: "int \<Rightarrow> (str, int list) hmap \<Rightarrow> (str, int list) hmap" where
  "prune_attempts cutoff m = filter (\<lambda>(k, ts). ts \<noteq> []) (map (\<lambda>(k, ts). (k, filter (\<lambda>t. t > cutoff) ts)) m)"

definition attempts_of :: "str \<Rightarrow> (str, int list) hmap \<Rightarrow> int list" where
  "attempts_of key m = (case hm_get key m of Some ts \<Rightarrow> ts | None \<Rightarrow> [])"

text \<open>Instants are nanoseconds; True refuses the request.\<close>

definition check_rate_limit :: "int \<Rightarrow> str \<Rightarrow> nat \<Rightarrow> int \<Rightarrow> nat \<Rightarrow> (str, int list) hmap \<Rightarrow> bool \<times> (str, int list) hmap" where
  "check_rate_limit now key max_attempts window_secs max_entries m =
    (let cutoff = now - window_secs * 1000000000;
         crowded = hm_len m \<ge> max_entries \<and> \<not> hm_contains key m;
         m1 = (if crowded then prune_attempts cutoff m else m) in
     if crowded \<and> hm_len m1 \<ge> max_entries then (True, m1)
     else
       let attempts = filter (\<lambda>t. t > cutoff) (attempts_of key m1) in
       (length attempts \<ge> max_attempts, hm_insert key attempts m1))"

definition reset_limit :: "user_env \<Rightarrow> str \<Rightarrow> accounts \<Rightarrow> (gate_error + unit) \<times> accounts" where
  "reset_limit env key m =
    (case check_rate_limit (ue_instant env) key RESET_PW_MAX_ATTEMPTS RESET_PW_WINDOW_SECS RESET_PW_MAX_ENTRIES (am_resets m) of
       (True, l) \<Rightarrow> (Inl (Validation ''Too many password reset attempts for this user. Try again later.''), m\<lparr>am_resets := l\<rparr>)
     | (False, l) \<Rightarrow> (Inr (), m\<lparr>am_resets := hm_insert key (attempts_of key l @ [ue_instant env]) l\<rparr>))"

definition uuid_text :: "bytes \<Rightarrow> str" where
  "uuid_text u = (let h = hex_encode u in
     take 8 h @ ''-'' @ take 4 (drop 8 h) @ ''-'' @ take 4 (drop 12 h) @ ''-'' @ take 4 (drop 16 h) @ ''-'' @ drop 20 h)"

definition reset_user_password :: "user_env \<Rightarrow> str \<Rightarrow> auth_user \<Rightarrow> bytes \<Rightarrow> accounts \<Rightarrow> (gate_error + str) \<times> accounts" where
  "reset_user_password env client_ip admin target m =
    and_do (check_user_management_permission admin, m) (\<lambda>_ m.
    and_do (require_running env, m) (\<lambda>_ m.
    and_do (authorise_user_target env admin target m) (\<lambda>_ m.
    and_do (reset_limit env (client_ip @ ''|'' @ uuid_text target) m) (\<lambda>_ m.
    and_do (query env ''auth_type'' (auth_type_of target) m) (\<lambda>found m.
    and_do (ok_or found (NotFound ''User not found''), m) (\<lambda>auth_type m.
      if auth_type \<noteq> ''local'' then (Inl (Validation ''Password reset is only available for local accounts''), m)
      else
        and_do (ue_hash env (ue_plain env), m) (\<lambda>hash m.
        and_do (set_password_hash env target hash m) (\<lambda>_ m.
        and_do (user_audit_log env (Some (au_id admin)) ''user.password_reset'' (Some target) m) (\<lambda>_ m. (Inr (ue_plain env), m))))))))))"

section \<open>Sweeps\<close>

definition DAY :: int where [bound_simps]: "DAY = 86400000000"

definition stale :: "user_env \<Rightarrow> int \<Rightarrow> str \<Rightarrow> user_account \<Rightarrow> bool" where
  "stale env days default_admin u \<longleftrightarrow>
    live_user u \<and> (case acc_last_login u of Some t \<Rightarrow> t < ue_now env - days * DAY | None \<Rightarrow> False)
    \<and> ue_sql_lower env (acc_username u) \<noteq> ue_sql_lower env default_admin"

definition sweep_stale_users :: "user_env \<Rightarrow> int \<Rightarrow> str \<Rightarrow> accounts \<Rightarrow> (bytes \<times> str) list \<times> accounts" where
  "sweep_stale_users env days default_admin m =
    (map (\<lambda>u. (acc_id u, acc_username u)) (filter (stale env days default_admin) (am_users m)),
     snd (update_users (stale env days default_admin) (\<lambda>u. u\<lparr>acc_deleted := Some (ue_now env)\<rparr>) m))"

definition hard_delete_users :: "user_env \<Rightarrow> int \<Rightarrow> accounts \<Rightarrow> nat \<times> accounts" where
  "hard_delete_users env days m =
    (let doomed = (\<lambda>u. case acc_deleted u of Some t \<Rightarrow> t < ue_now env - days * DAY | None \<Rightarrow> False) in
     (length (filter doomed (am_users m)), m\<lparr>am_users := filter (\<lambda>u. \<not> doomed u) (am_users m)\<rparr>))"

section \<open>Requests of administrators\<close>

datatype admin_request =
  RestoreUser bytes
| DeleteUser bytes
| UpdateUser bytes update_user_request
| CreateUser create_user_request
| ResetPassword str bytes
| CreateRole str role_request
| UpdateRole bytes role_request
| DeleteRole bytes

definition admin_step :: "user_env \<Rightarrow> auth_user \<Rightarrow> admin_request \<Rightarrow> accounts \<Rightarrow> accounts" where
  "admin_step env actor req m =
    (case req of
       RestoreUser target \<Rightarrow> snd (restore_user env actor target m)
     | DeleteUser target \<Rightarrow> snd (delete_user env actor target m)
     | UpdateUser target body \<Rightarrow> snd (update_user env actor target body m)
     | CreateUser body \<Rightarrow> snd (create_user env actor body m)
     | ResetPassword ip target \<Rightarrow> snd (reset_user_password env ip actor target m)
     | CreateRole name body \<Rightarrow> snd (create_role env actor name body m)
     | UpdateRole role body \<Rightarrow> snd (update_role env actor role body m)
     | DeleteRole role \<Rightarrow> snd (delete_role env actor role m))"

fun admin_run :: "(user_env \<times> auth_user \<times> admin_request) list \<Rightarrow> accounts \<Rightarrow> accounts" where
  "admin_run [] m = m"
| "admin_run ((env, actor, req) # reqs) m = admin_run reqs (admin_step env actor req m)"

text \<open>What holds of a state before and after each step of a handler holds after the handler.\<close>

lemma and_do_holds:
  assumes "I (snd p)" "\<And>x. I (snd p) \<Longrightarrow> fst p = Inr x \<Longrightarrow> I (snd (f x (snd p)))"
  shows "I (snd (and_do p f))"
  using assms by (cases "fst p") (auto simp: and_do_def split: prod.splits sum.splits)

lemma and_do_pure:
  assumes "snd p = m" "I m" "\<And>x. fst p = Inr x \<Longrightarrow> I (snd (f x m))"
  shows "I (snd (and_do p f))"
  using assms by (cases "fst p") (auto simp: and_do_def split: prod.splits sum.splits)

lemma found_or_holds: "I (snd r) \<Longrightarrow> I (snd (found_or message r))"
  unfolding found_or_def by (rule and_do_holds) auto

lemma snd_stmt: "snd (stmt env name f m) = (if ue_fault env name = None then snd (f m) else m)"
  by (simp add: stmt_def split: option.splits prod.splits)

lemma snd_query [simp]: "snd (query env name f m) = m"
  by (simp add: query_def snd_stmt)

lemma fst_query: "fst (query env name f m) = Inr x \<Longrightarrow> x = f m"
  by (auto simp: query_def stmt_def split: option.splits)

lemma snd_authorise [simp]: "snd (authorise_role_grant env actor role m) = m" "snd (authorise_user_target env actor target m) = m"
  by (auto simp: authorise_role_grant_def authorise_user_target_def and_do_def query_def stmt_def ok_or_def
      split: option.splits sum.splits prod.splits if_splits)

section \<open>What a delegated administrator can reach\<close>

definition user_ids_ok :: "accounts \<Rightarrow> bool" where
  "user_ids_ok m \<longleftrightarrow> distinct (map acc_id (am_users m))"

definition below :: "auth_user \<Rightarrow> role_row list \<Rightarrow> user_account \<Rightarrow> bool" where
  "below actor roles u \<longleftrightarrow> (\<exists>r. List.find (\<lambda>r. ro_id r = acc_role u) roles = Some r \<and> is_within r actor)"

definition reach_kept :: "auth_user \<Rightarrow> accounts \<Rightarrow> accounts \<Rightarrow> bool" where
  "reach_kept actor m m' \<longleftrightarrow>
    am_roles m' = am_roles m \<and> user_ids_ok m' \<and>
    (\<forall>u \<in> set (am_users m). acc_id u = au_id actor \<or> \<not> below actor (am_roles m) u \<longrightarrow> u \<in> set (am_users m')) \<and>
    (\<forall>u \<in> set (am_users m'). u \<in> set (am_users m) \<or> below actor (am_roles m) u)"

lemma reach_kept_refl: "user_ids_ok m \<Longrightarrow> reach_kept actor m m"
  by (simp add: reach_kept_def)

lemma reach_kept_trans: "reach_kept actor m m' \<Longrightarrow> reach_kept actor m' m'' \<Longrightarrow> reach_kept actor m m''"
  unfolding reach_kept_def by metis

text \<open>While a handler works on its target: the target stays below the actor.\<close>

definition on_target :: "auth_user \<Rightarrow> bytes \<Rightarrow> accounts \<Rightarrow> accounts \<Rightarrow> bool" where
  "on_target actor target m0 m \<longleftrightarrow>
    reach_kept actor m0 m \<and> target \<noteq> au_id actor \<and> (\<forall>u \<in> set (am_users m). acc_id u = target \<longrightarrow> below actor (am_roles m0) u)"

lemma ids_update: "(\<And>u. acc_id (f u) = acc_id u) \<Longrightarrow> user_ids_ok m \<Longrightarrow> user_ids_ok (snd (update_users P f m))"
  by (simp add: user_ids_ok_def update_users_def comp_def if_distrib cong: if_cong)

lemma update_on_target:
  assumes "on_target actor target m0 m" "\<And>u. P u \<Longrightarrow> acc_id u = target" "\<And>u. acc_id (f u) = acc_id u"
    and "\<And>u. below actor (am_roles m0) u \<Longrightarrow> below actor (am_roles m0) (f u)"
  shows "on_target actor target m0 (snd (update_users P f m))"
proof -
  let ?m = "snd (update_users P f m)"
  have users: "am_users ?m = map (\<lambda>u. if P u then f u else u) (am_users m)" "am_roles ?m = am_roles m"
    by (simp_all add: update_users_def)
  have ids: "user_ids_ok ?m" using assms(1,3) by (intro ids_update) (auto simp: on_target_def reach_kept_def)
  have kept: "u \<in> set (am_users ?m)"
    if "u \<in> set (am_users m0)" "acc_id u = au_id actor \<or> \<not> below actor (am_roles m0) u" for u
  proof -
    have "u \<in> set (am_users m)" using that assms(1) by (auto simp: on_target_def reach_kept_def)
    moreover have "\<not> P u" using that assms(1,2) calculation by (auto simp: on_target_def)
    ultimately show ?thesis by (force simp: users)
  qed
  have new: "u \<in> set (am_users m0) \<or> below actor (am_roles m0) u" if "u \<in> set (am_users ?m)" for u
    using that assms by (auto simp: users on_target_def reach_kept_def)
  have tgt: "below actor (am_roles m0) u" if "u \<in> set (am_users ?m)" "acc_id u = target" for u
    using that assms by (auto simp: users on_target_def)
  have "am_roles ?m = am_roles m0" "target \<noteq> au_id actor" using assms(1) users(2) by (auto simp: on_target_def reach_kept_def)
  then show ?thesis
    unfolding on_target_def reach_kept_def by (intro conjI ballI impI) (assumption | rule ids kept new tgt)+
qed

lemma on_target_cong: "am_users m' = am_users m \<Longrightarrow> am_roles m' = am_roles m \<Longrightarrow> on_target actor target m0 m' = on_target actor target m0 m"
  by (simp add: on_target_def reach_kept_def user_ids_ok_def)

lemma audit_on_target: "on_target actor target m0 m \<Longrightarrow> on_target actor target m0 (snd (user_audit_log env user action tgt m))"
  by (simp add: user_audit_log_def snd_stmt on_target_def reach_kept_def user_ids_ok_def)

lemma reset_on_target: "on_target actor target m0 m \<Longrightarrow> on_target actor target m0 (snd (reset_limit env key m))"
  by (auto simp: reset_limit_def on_target_def reach_kept_def user_ids_ok_def split: prod.splits bool.splits)

lemma admin_change_holds: "I m \<Longrightarrow> I (snd (f m)) \<Longrightarrow> I (snd (admin_change f m))"
  by (auto simp: admin_change_def split: prod.splits bool.splits)

lemma below_same_role: "acc_role u' = acc_role u \<Longrightarrow> below actor roles u' = below actor roles u"
  by (simp add: below_def)

lemma stmt_on_target:
  assumes "on_target actor target m0 m" "\<And>u. P u \<Longrightarrow> acc_id u = target" "\<And>u. acc_id (f u) = acc_id u" "\<And>u. acc_role (f u) = acc_role u"
  shows "on_target actor target m0 (snd (stmt env name (update_users P f) m))"
proof -
  have "on_target actor target m0 (snd (update_users P f m))"
    by (rule update_on_target [OF assms(1-3)]) (simp_all add: below_def assms(4))
  with assms(1) show ?thesis by (simp add: snd_stmt)
qed

lemma statements_on_target:
  assumes "on_target actor target m0 m"
  shows "on_target actor target m0 (snd (user_restore env target m))"
    "on_target actor target m0 (snd (set_safeguard_jit_enabled env target b m))"
    "on_target actor target m0 (snd (set_outbound_share_requires_approval env target v m))"
    "on_target actor target m0 (snd (set_password_hash env target hash m))"
  unfolding user_restore_def set_safeguard_jit_enabled_def set_outbound_share_requires_approval_def set_password_hash_def
  by (rule stmt_on_target [OF assms]; simp)+

lemma soft_delete_on_target:
  assumes "on_target actor target m0 m"
  shows "on_target actor target m0 (snd (soft_delete env target m))"
proof -
  have "on_target actor target m0 (snd (update_users (\<lambda>u. acc_id u = target \<and> live_user u) (\<lambda>u. u\<lparr>acc_deleted := Some (ue_now env), acc_valid_after := Some (ue_now env)\<rparr>) m))"
    by (rule update_on_target [OF assms]) (simp_all add: below_def)
  then have "on_target actor target m0 (snd (admin_change (update_users (\<lambda>u. acc_id u = target \<and> live_user u)
      (\<lambda>u. u\<lparr>acc_deleted := Some (ue_now env), acc_valid_after := Some (ue_now env)\<rparr>)) m))"
    by (rule admin_change_holds [where I = "on_target actor target m0", OF assms])
  with assms show ?thesis by (simp add: soft_delete_def split: option.splits)
qed

lemma set_role_on_target:
  assumes "on_target actor target m0 m" "find_role role m0 = Some r" "is_within r actor"
  shows "on_target actor target m0 (snd (set_role env target role m))"
proof -
  have "on_target actor target m0 (snd (update_users (\<lambda>u. acc_id u = target \<and> live_user u) (\<lambda>u. u\<lparr>acc_role := role\<rparr>) m))"
    by (rule update_on_target [OF assms(1)]) (use assms(2,3) in \<open>simp_all add: below_def find_role_def\<close>)
  then have "on_target actor target m0 (snd (admin_change (update_users (\<lambda>u. acc_id u = target \<and> live_user u) (\<lambda>u. u\<lparr>acc_role := role\<rparr>)) m))"
    by (rule admin_change_holds [where I = "on_target actor target m0", OF assms(1)])
  with assms(1) show ?thesis by (simp add: set_role_def split: option.splits)
qed

lemma granted_role:
  assumes "fst (authorise_role_grant env actor role m) = Inr ()"
  shows "\<exists>r. find_role role m = Some r \<and> is_within r actor"
  using assms by (auto simp: authorise_role_grant_def and_do_def query_def stmt_def ok_or_def split: option.splits sum.splits prod.splits if_splits)

lemma authorised_target:
  assumes "user_ids_ok m" "\<not> can_manage_system (au_perms actor)" "fst (authorise_user_target env actor target m) = Inr ()"
  shows "on_target actor target m m"
proof -
  from assms(2,3) obtain role r where role: "target \<noteq> au_id actor" "role_id_of target m = Some role" "find_role role m = Some r" "is_within r actor"
    using granted_role [of env actor _ m]
    by (auto simp: authorise_user_target_def and_do_def query_def stmt_def ok_or_def split: option.splits sum.splits prod.splits if_splits)
  have "below actor (am_roles m) u" if "u \<in> set (am_users m)" "acc_id u = target" for u
  proof -
    from role(2) obtain v where "v \<in> set (am_users m)" "acc_id v = target" "acc_role v = role"
      unfolding role_id_of_def find_Some_iff map_option_eq_Some by (metis nth_mem)
    with that assms(1) have "u = v" by (auto simp: user_ids_ok_def distinct_map inj_on_def)
    then show ?thesis using \<open>acc_role v = role\<close> role(3,4) by (auto simp: below_def find_role_def)
  qed
  then show ?thesis using assms(1) role(1) by (simp add: on_target_def reach_kept_refl)
qed

lemma on_target_contained: "on_target actor target m0 m \<Longrightarrow> reach_kept actor m0 m"
  by (simp add: on_target_def)

lemma audit_contained: "reach_kept actor m0 m \<Longrightarrow> reach_kept actor m0 (snd (user_audit_log env user action tgt m))"
  by (simp add: user_audit_log_def snd_stmt reach_kept_def user_ids_ok_def)

text \<open>A handler that checks its target first: what follows keeps \<open>on_target\<close>, or nothing happens.\<close>

lemma authorised_holds:
  assumes "user_ids_ok m" "\<not> can_manage_system (au_perms actor)"
    and "on_target actor target m m \<Longrightarrow> on_target actor target m (snd (f () m))"
  shows "reach_kept actor m (snd (and_do (authorise_user_target env actor target m) f))"
proof (cases "fst (authorise_user_target env actor target m)")
  case (Inl e)
  then show ?thesis
    using reach_kept_refl [OF assms(1)] snd_authorise(2) [of env actor target m] by (cases "authorise_user_target env actor target m") auto
next
  case (Inr u)
  then have "authorise_user_target env actor target m = (Inr (), m)"
    using snd_authorise(2) [of env actor target m] by (cases "authorise_user_target env actor target m") auto
  with assms(3) [OF authorised_target [OF assms(1,2), of env]] show ?thesis by (auto dest: on_target_contained)
qed

lemma checked_contained:
  assumes "user_ids_ok m" "reach_kept actor m (snd (f () m))"
  shows "reach_kept actor m (snd (and_do (c, m) (\<lambda>_. f ())))"
  using assms reach_kept_refl by (cases c) (auto simp: unit_eq)

lemma restore_contained:
  assumes "user_ids_ok m" "\<not> can_manage_system (au_perms actor)"
  shows "reach_kept actor m (snd (restore_user env actor target m))"
  unfolding restore_user_def
  by (intro checked_contained authorised_holds assms and_do_holds [where I = "on_target actor target m"] found_or_holds [where I = "on_target actor target m"] statements_on_target audit_on_target)

lemma delete_contained:
  assumes "user_ids_ok m" "\<not> can_manage_system (au_perms actor)"
  shows "reach_kept actor m (snd (delete_user env actor target m))"
  unfolding delete_user_def
  by (intro checked_contained authorised_holds assms and_do_holds [where I = "on_target actor target m"] found_or_holds [where I = "on_target actor target m"] soft_delete_on_target audit_on_target)

lemma update_role_on_target:
  assumes "on_target actor target m0 m"
  shows "on_target actor target m0 (snd (update_user_role env actor target role_id m))"
proof (cases role_id)
  case None
  with assms show ?thesis by (simp add: update_user_role_def)
next
  case (Some role)
  have "on_target actor target m0 (snd (and_do (found_or ''User not found'' (set_role env target role m)) (\<lambda>_. user_audit_log env (Some (au_id actor)) ''user.role_changed'' (Some target))))"
    if grant: "fst (authorise_role_grant env actor role m) = Inr ()"
  proof -
    from granted_role [OF grant] assms obtain r where r: "find_role role m0 = Some r" "is_within r actor"
      by (auto simp: find_role_def on_target_def reach_kept_def)
    show ?thesis
      by (intro and_do_holds [where I = "on_target actor target m0"] found_or_holds [where I = "on_target actor target m0"]
          set_role_on_target [OF _ r] audit_on_target assms)
  qed
  with Some assms show ?thesis
    unfolding update_user_role_def using snd_authorise(1) [of env actor role m]
    by (cases "authorise_role_grant env actor role m") (auto simp: and_do_def [of "(_, m)"] split: sum.splits)
qed

lemma update_flags_on_target:
  assumes "on_target actor target m0 m"
  shows "on_target actor target m0 (snd (update_user_jit env actor target enabled m))"
    "on_target actor target m0 (snd (update_user_approval env actor target approval m))"
proof -
  show "on_target actor target m0 (snd (update_user_jit env actor target enabled m))"
    using assms by (cases enabled) (simp_all add: update_user_jit_def and_do_holds [where I = "on_target actor target m0"]
        found_or_holds [where I = "on_target actor target m0"] statements_on_target audit_on_target)
  show "on_target actor target m0 (snd (update_user_approval env actor target approval m))"
    using assms by (cases approval) (simp_all add: update_user_approval_def and_do_holds [where I = "on_target actor target m0"]
        found_or_holds [where I = "on_target actor target m0"] statements_on_target audit_on_target)
qed

lemma update_kept:
  assumes "user_ids_ok m" "\<not> can_manage_system (au_perms actor)"
  shows "reach_kept actor m (snd (update_user env actor target body m))"
proof -
  have "reach_kept actor m (snd (and_do (authorise_user_target env actor target m) (\<lambda>_ m.
      if uu_approval body = Some (Some False) \<and> \<not> can_manage_system (au_perms actor) then (Inl Forbidden, m)
      else and_do (update_user_role env actor target (uu_role body) m) (\<lambda>_ m.
           and_do (update_user_jit env actor target (uu_jit body) m) (\<lambda>_ m.
           update_user_approval env actor target (uu_approval body) m)))))"
    by (rule authorised_holds [OF assms])
      (simp add: and_do_holds [where I = "on_target actor target m"] update_role_on_target update_flags_on_target)
  then show ?thesis
    unfolding update_user_def using reach_kept_refl [OF assms(1)]
    by (cases "check_user_management_permission actor"; cases "require_running env") auto
qed

lemma reset_kept:
  assumes "user_ids_ok m" "\<not> can_manage_system (au_perms actor)"
  shows "reach_kept actor m (snd (reset_user_password env ip actor target m))"
proof -
  have body: "on_target actor target m (snd (if auth_type \<noteq> ''local'' then (Inl (Validation ''Password reset is only available for local accounts''), m1)
      else and_do (ue_hash env (ue_plain env), m1) (\<lambda>hash m.
        and_do (set_password_hash env target hash m) (\<lambda>_ m.
        and_do (user_audit_log env (Some (au_id actor)) ''user.password_reset'' (Some target) m) (\<lambda>_ m. (Inr (ue_plain env), m))))))"
    if "on_target actor target m m1" for auth_type m1
    using that by (simp add: and_do_holds [where I = "on_target actor target m"] statements_on_target audit_on_target)
  show ?thesis
    unfolding reset_user_password_def
    by (intro checked_contained authorised_holds assms and_do_holds [where I = "on_target actor target m"] reset_on_target body)
      (simp_all add: reset_on_target)
qed

lemma insert_kept:
  assumes "reach_kept actor m0 m" "below actor (am_roles m0) new"
  shows "reach_kept actor m0 (snd (insert_user env new m))"
  using assms
  by (auto simp: insert_user_def insert_refused_def reach_kept_def user_ids_ok_def list_ex_iff split: option.splits)

lemma create_kept:
  assumes "user_ids_ok m"
  shows "reach_kept actor m (snd (create_user env actor body m))"
proof -
  have ins: "reach_kept actor m (snd (and_do (insert_user env (new_account env body hash) m) (\<lambda>_ m.
        and_do (user_audit_log env (Some (au_id actor)) ''user.created'' (Some (ue_new_id env)) m) (\<lambda>_ m.
          (Inr (ue_new_id env, ue_lower env (cu_username body), plain), m)))))"
    if grant: "fst (authorise_role_grant env actor (cu_role body) m) = Inr ()" for hash plain
  proof -
    from granted_role [OF grant] have "below actor (am_roles m) (new_account env body hash)"
      by (auto simp: below_def new_account_def find_role_def)
    then show ?thesis
      by (intro and_do_holds [where I = "reach_kept actor m"] insert_kept reach_kept_refl assms audit_contained) auto
  qed
  have after: "reach_kept actor m (snd (if taken then (Inl (Validation (''User with email '' @ ue_lower env (cu_email body) @ '' already exists'')), m)
      else
        and_do (new_password env (cu_auth_type body), m) (\<lambda>(hash, plain) m.
        and_do (insert_user env (new_account env body hash) m) (\<lambda>_ m.
        and_do (user_audit_log env (Some (au_id actor)) ''user.created'' (Some (ue_new_id env)) m) (\<lambda>_ m.
          (Inr (ue_new_id env, ue_lower env (cu_username body), plain), m))))))"
    if grant: "fst (authorise_role_grant env actor (cu_role body) m) = Inr ()" for taken
    using reach_kept_refl [OF assms] ins [OF grant] by (cases "new_password env (cu_auth_type body)") auto
  show ?thesis
    unfolding create_user_def
    by (intro and_do_pure [where I = "reach_kept actor m" and m = m] reach_kept_refl assms after) simp_all
qed

lemma roles_refused:
  assumes "\<not> can_manage_system (au_perms actor)"
  shows "snd (create_role env actor name body m) = m" "snd (update_role env actor role body m) = m" "snd (delete_role env actor role m) = m"
  using assms by (simp_all add: create_role_def update_role_def delete_role_def check_system_permission_def)

lemma admin_step_kept:
  assumes "user_ids_ok m" "\<not> can_manage_system (au_perms actor)"
  shows "reach_kept actor m (admin_step env actor req m)"
  using assms by (cases req) (simp_all add: admin_step_def restore_contained delete_contained update_kept create_kept reset_kept roles_refused reach_kept_refl)


definition admin_role :: role_row where
  "admin_role = \<lparr>ro_id = [1], ro_name = ''admin'', ro_description = [], ro_perms = no_permissions\<lparr>can_manage_system := True\<rparr>, ro_max_sessions = None\<rparr>"

definition helper_role :: role_row where
  "helper_role = \<lparr>ro_id = [2], ro_name = ''helper'', ro_description = [], ro_perms = no_permissions\<lparr>can_manage_users := True\<rparr>, ro_max_sessions = None\<rparr>"

definition sample_account :: "bytes \<Rightarrow> bytes \<Rightarrow> user_account" where
  "sample_account ident role =
    \<lparr>acc_id = ident, acc_username = ''u'', acc_email = ''e'', acc_full_name = None, acc_auth_type = ''local'', acc_sub = None, acc_issuer = None,
     acc_role = role, acc_password = Some ''h'', acc_deleted = None, acc_last_login = Some 0, acc_valid_after = None, acc_jit = False, acc_share_approval = None\<rparr>"

definition sample_accounts :: accounts where
  "sample_accounts =
    \<lparr>am_roles = [admin_role, helper_role], am_users = [sample_account [7] [1], sample_account [8] [2], sample_account [9] [2]], am_audit = [], am_resets = []\<rparr>"

definition helper :: auth_user where
  "helper = \<lparr>au_id = [8], au_sub = ''8'', au_username = ''helper'', au_full_name = None, au_role = ''helper'', au_perms = ro_perms helper_role\<rparr>"

definition sample_user_env :: user_env where
  "sample_user_env =
    \<lparr>ue_running = True, ue_now = 0, ue_instant = 0, ue_fault = (\<lambda>_. None), ue_lower = to_ascii_lowercase, ue_sql_lower = to_ascii_lowercase,
     ue_new_id = [11], ue_plain = replicate 16 (CHR ''a''), ue_hash = (\<lambda>p. Inr (''h'' @ p))\<rparr>"


section \<open>A system administrator remains\<close>

definition has_admin :: "accounts \<Rightarrow> bool" where
  "has_admin m \<longleftrightarrow> (\<exists>u \<in> set (am_users m). is_system_admin m u)"

lemma has_admin_count: "has_admin m \<longleftrightarrow> count_system_admins m > 0"
  by (auto simp: has_admin_def count_system_admins_def filter_empty_conv)

lemma admin_change_keeps: "has_admin m \<Longrightarrow> has_admin (snd (admin_change f m))"
  by (auto simp: admin_change_def has_admin_count split: prod.splits bool.splits)

lemma update_keeps:
  assumes "has_admin m" "\<And>u. acc_role (f u) = acc_role u" "\<And>u. live_user u \<Longrightarrow> live_user (f u)"
  shows "has_admin (snd (update_users P f m))"
proof -
  from assms(1) obtain u where u: "u \<in> set (am_users m)" "is_system_admin m u" by (auto simp: has_admin_def)
  let ?u = "if P u then f u else u"
  have "?u \<in> set (am_users (snd (update_users P f m)))" using u(1) by (auto simp: update_users_def)
  moreover have "is_system_admin (snd (update_users P f m)) ?u"
    using u(2) assms(2,3) by (auto simp: is_system_admin_def update_users_def find_role_def)
  ultimately show ?thesis unfolding has_admin_def by blast
qed

lemma stmt_keeps:
  assumes "has_admin m" "\<And>u. acc_role (f u) = acc_role u" "\<And>u. live_user u \<Longrightarrow> live_user (f u)"
  shows "has_admin (snd (stmt env name (update_users P f) m))"
  using update_keeps [OF assms] assms(1) by (simp add: snd_stmt)

lemma statements_keep:
  assumes "has_admin m"
  shows "has_admin (snd (user_restore env target m))" "has_admin (snd (set_safeguard_jit_enabled env target b m))"
    "has_admin (snd (set_outbound_share_requires_approval env target v m))" "has_admin (snd (set_password_hash env target hash m))"
  unfolding user_restore_def set_safeguard_jit_enabled_def set_outbound_share_requires_approval_def set_password_hash_def
  by (rule stmt_keeps [OF assms]; simp add: live_user_def)+

lemma changes_keep: "has_admin m \<Longrightarrow> has_admin (snd (soft_delete env target m))" "has_admin m \<Longrightarrow> has_admin (snd (set_role env target role m))"
  by (auto simp: soft_delete_def set_role_def admin_change_keeps split: option.splits)

lemma has_admin_cong: "am_users m' = am_users m \<Longrightarrow> am_roles m' = am_roles m \<Longrightarrow> has_admin m' = has_admin m"
  by (simp add: has_admin_def is_system_admin_def find_role_def)

lemma quiet_keep: "has_admin m \<Longrightarrow> has_admin (snd (user_audit_log env user action tgt m))" "has_admin m \<Longrightarrow> has_admin (snd (reset_limit env key m))"
  by (auto simp: user_audit_log_def reset_limit_def snd_stmt split: prod.splits bool.splits elim!: has_admin_cong [THEN iffD1, rotated -1])

lemma insert_keeps: "has_admin m \<Longrightarrow> has_admin (snd (insert_user env new m))"
  by (auto simp: insert_user_def has_admin_def is_system_admin_def find_role_def split: option.splits)

lemma find_snoc: "List.find P (xs @ [x]) = (case List.find P xs of Some y \<Rightarrow> Some y | None \<Rightarrow> if P x then Some x else None)"
  by (induction xs) auto

lemma find_filter_other: "k \<noteq> role \<Longrightarrow> List.find (\<lambda>r. ro_id r = k) (filter (\<lambda>r. ro_id r \<noteq> role) rs) = List.find (\<lambda>r. ro_id r = k) rs"
  by (induction rs) auto

lemma role_create_keeps:
  assumes "has_admin m"
  shows "has_admin (snd (role_create env name body m))"
proof -
  have "has_admin (m\<lparr>am_roles := am_roles m @ [r]\<rparr>)" for r
    using assms by (auto simp: has_admin_def is_system_admin_def find_role_def find_snoc split: option.splits)
  with assms show ?thesis
    by (auto simp: role_create_def Let_def and_do_def split: sum.splits prod.splits option.splits)
qed

lemma role_delete_keeps:
  assumes "has_admin m"
  shows "has_admin (snd (role_delete env role m))"
proof (cases "ue_fault env ''delete_role'' = None \<and> \<not> list_ex (\<lambda>u. acc_role u = role) (am_users m)")
  case True
  from assms obtain u where u: "u \<in> set (am_users m)" "is_system_admin m u" by (auto simp: has_admin_def)
  with True have "acc_role u \<noteq> role" by (auto simp: list_ex_iff)
  with u have "is_system_admin (m\<lparr>am_roles := filter (\<lambda>r. ro_id r \<noteq> role) (am_roles m)\<rparr>) u"
    by (simp add: is_system_admin_def find_role_def find_filter_other)
  with u True show ?thesis by (auto simp: role_delete_def has_admin_def)
next
  case False
  with assms show ?thesis by (auto simp: role_delete_def split: option.splits)
qed

lemmas keeps = statements_keep changes_keep quiet_keep insert_keeps role_create_keeps role_delete_keeps

lemma user_steps_keep:
  assumes "has_admin m"
  shows "has_admin (snd (update_user_role env actor target role_id m))" "has_admin (snd (update_user_jit env actor target enabled m))"
    "has_admin (snd (update_user_approval env actor target approval m))"
  using assms unfolding update_user_role_def update_user_jit_def update_user_approval_def
  by (auto intro!: and_do_holds [where I = has_admin] found_or_holds [where I = has_admin] keeps split: option.splits)

lemma admin_step_keeps:
  assumes "has_admin m" "\<And>role body. req \<noteq> UpdateRole role body"
  shows "has_admin (admin_step env actor req m)"
proof (cases req)
  case (RestoreUser target)
  with assms show ?thesis
    unfolding admin_step_def restore_user_def
    by (auto intro!: and_do_holds [where I = has_admin] found_or_holds [where I = has_admin] keeps)
next
  case (DeleteUser target)
  with assms show ?thesis
    unfolding admin_step_def delete_user_def
    by (auto intro!: and_do_holds [where I = has_admin] found_or_holds [where I = has_admin] keeps)
next
  case (UpdateUser target body)
  with assms show ?thesis
    unfolding admin_step_def update_user_def
    by (auto intro!: and_do_holds [where I = has_admin] user_steps_keep)
next
  case (CreateUser body)
  with assms show ?thesis
    unfolding admin_step_def create_user_def
    by (auto intro!: and_do_holds [where I = has_admin] keeps)
next
  case (ResetPassword ip target)
  with assms show ?thesis
    unfolding admin_step_def reset_user_password_def
    by (auto intro!: and_do_holds [where I = has_admin] keeps)
next
  case (CreateRole name body)
  with assms show ?thesis
    unfolding admin_step_def create_role_def
    by (auto intro!: and_do_holds [where I = has_admin] keeps)
next
  case (DeleteRole role)
  with assms show ?thesis
    unfolding admin_step_def delete_role_def
    by (auto intro!: and_do_holds [where I = has_admin] keeps)
next
  case (UpdateRole role body)
  with assms(2) [of role body] show ?thesis by simp
qed

text \<open>User administration never leaves the deployment without a system administrator: whatever requests to create, change, delete and
restore users, to reset passwords and to create and delete roles any administrators send, if an active account with
\<open>can_manage_system\<close> was there before, one is there afterwards.\<close>

lemma system_admin_remains:
  assumes "count_system_admins m > 0" "\<And>env a role body. (env, a, UpdateRole role body) \<notin> set reqs"
  shows "count_system_admins (admin_run reqs m) > 0"
  using assms unfolding has_admin_count [symmetric]
proof (induction reqs m rule: admin_run.induct)
  case (2 env a req reqs m)
  have "has_admin (admin_step env a req m)"
  proof (rule admin_step_keeps [OF 2(2)])
    show "req \<noteq> UpdateRole role body" for role body using 2(3) [of env a role body] by auto
  qed
  then have "has_admin (admin_run reqs (admin_step env a req m))"
    using 2(3) by (intro 2(1)) auto
  then show ?case by simp
qed simp

text \<open>Changing a role and the sweep of stale accounts are not under the lock and do not look whether an administrator remains.\<close>

lemma role_update_can_remove_last_admin:
  "count_system_admins sample_accounts = 1 \<and>
   count_system_admins (snd (role_update sample_user_env [1]
     \<lparr>rr_name = None, rr_description = None, rr_perms = (\<lambda>c. if c = ''can_manage_system'' then Some False else None), rr_max_sessions = None\<rparr> sample_accounts)) = 0"
  by (simp add: count_system_admins_def is_system_admin_def live_user_def find_role_def sample_accounts_def sample_account_def admin_role_def helper_role_def
      no_permissions_def role_update_def normalize_description_def check_session_limit_def sample_user_env_def merge_role_def merge_perms_def)

lemma sweep_can_remove_last_admin:
  "count_system_admins (snd (sweep_stale_users (sample_user_env\<lparr>ue_now := 91 * DAY\<rparr>) 90 ''admin'' sample_accounts)) = 0"
  by (simp add: count_system_admins_def is_system_admin_def live_user_def find_role_def sample_accounts_def sample_account_def admin_role_def helper_role_def
      no_permissions_def sweep_stale_users_def update_users_def stale_def sample_user_env_def bound_simps to_ascii_lowercase_def ascii_lower_def)

end
