(* ===== verification/Spec2Isabelle.thy ===== *)
theory Spec2Isabelle
  imports Link_Handshake Media_Envelope Resume_Token Edge_Header Backoff Guac_Decoder Encoder_Contract
    Session_Audit Actor_Properties Session_Manager Edge_Verify Dmz_Proxy Body_Caps Rate_Limiter Circuit_Breaker
    Admission Token_Revocation Refresh_Tokens Tunnel_Tickets Idempotency Retry Co_Pilot Checkout_Properties
    File_Crypto Audit_Runs Share_Safety File_Routes Session_Registry User_Admin
begin

text \<open>
  \<^bold>\<open>Strata Client: a verification development.\<close>

  Strata Client is a gateway for privileged remote sessions. A browser talks the Guacamole protocol over a
  web socket; a public edge proxy (\<open>crates/strata-dmz\<close>) forwards the traffic over an authenticated
  link to an internal node (\<open>backend\<close>); the node runs one session actor per connection
  (\<open>crates/strata-session\<close>), which drives a protocol engine (RDP, SSH, VNC, Kubernetes) and fans its
  output out to the client, to observers and to the recording. \<open>crates/strata-protocol\<close> holds what
  the edge and the node share: frames, handshake, signed headers, resume tokens, media envelopes.

  \<^bold>\<open>Conventions.\<close> Rust integers are words of their width (\<open>u8\<close>, \<open>u32\<close>, \<open>i64\<close>, ...), and arithmetic
  on them wraps, as it does in the release profile. \<open>usize\<close> lengths are naturals. Strings are character
  lists holding the UTF-8 bytes, one character per byte. \<open>Result\<close> is a sum with the error on the left,
  the question mark operator is \<open>and_then\<close> or, with a state, \<open>and_do\<close>. Mutation is state passing over
  records. Code outside the repository (serde, HMAC, base64, winnow, files, sockets, clocks, random
  numbers) is an argument; what the sources rely on is a predicate on that argument (\<open>crypto_ok\<close>,
  \<open>serde_ok\<close>, \<open>winnow_ok\<close>, \<open>file_ops_ok\<close>, \<open>estimate_ok\<close>), stated where it is used and shown to be
  satisfiable by a concrete instance.

  \<^bold>\<open>Shared theories.\<close>
  \<^item> \<open>Strata_Prelude\<close>: type names, named theorem collections, results and chunking.
  \<^item> \<open>Rust_Std\<close>: the parts of the standard library the sources use: UTF-8 validation, decimal printing
    and parsing at each width, big-endian bytes, the wrapping absolute difference.
  \<^item> \<open>External_Code\<close>, \<open>Base64\<close>: the parameters named above and their concrete instances.
  \<^item> \<open>Stream_Codec\<close>: the contract of a self-delimiting encoding as a locale, interpreted for Guacamole
    instructions, media envelopes and audit records. \<open>Hash_Map\<close>: hash maps as association lists.

  \<^bold>\<open>Link protocol\<close> (\<open>crates/strata-protocol/src\<close>).
  \<^item> \<open>Protocol_Errors\<close> (\<open>errors.rs\<close>, \<open>versioning.rs\<close>) and \<open>Media_Envelope\<close> (\<open>media.rs\<close>): every
    envelope round-trips, any cut of a stream decodes to a prefix of what was sent, and only canonical
    bytes are accepted.
  \<^item> \<open>Link_Frame\<close> (\<open>frame.rs\<close>): frames over a duplex byte stream; size cap and round trip.
  \<^item> \<open>Handshake\<close> (\<open>handshake.rs\<close>) and \<open>Link_Handshake\<close> (\<open>link.rs\<close>): both drivers run against each
    other; honest peers agree, a peer is accepted only after its response verified, a response binds the
    nonces and identities of its session, refusals are uniform.
  \<^item> \<open>Edge_Header\<close> (\<open>edge_header.rs\<close>), \<open>Resume_Token\<close> (\<open>resume_token.rs\<close> and the registry of
    suspended sessions in \<open>backend/src/services/dmz_link/resume.rs\<close>), \<open>Backoff\<close> (\<open>backoff.rs\<close>):
    what a MAC binds, single use and availability of suspended sessions over arbitrary sequences of
    registry operations, bounds on reconnect delays.

  \<^bold>\<open>Client protocol\<close> (\<open>crates/strata-session/src/{protocol,transport,engine}\<close>).
  \<^item> \<open>Guacamole\<close> (\<open>guacamole.rs\<close>): encoder and incremental parser; round trip, and verdicts that do not
    change when more bytes arrive. The parser loops carry termination measures.
  \<^item> \<open>Instruction\<close> (\<open>instruction.rs\<close>), \<open>Guac_Decoder\<close> (\<open>decoder.rs\<close>): typed instructions and the
    buffered decoder; any fragmentation of a stream of instructions is decoded to the same sequence. The
    reading loop has one round of fuel more than there are buffered bytes, and every instruction takes
    at least one.
  \<^item> \<open>Engine_Types\<close> (\<open>engine/mod.rs\<close>), \<open>Guac_Encoder\<close> (\<open>transport/{mod,guac_wire,binary}.rs\<close>),
    \<open>Encoder_Contract\<close>: both frame encoders as instances of one locale; whatever an engine reports,
    every frame is a sequence of complete instructions, and stream numbers are opened, used and closed
    in order.

  \<^bold>\<open>Session\<close> (\<open>crates/strata-session/src/actor\<close>, \<open>routing.rs\<close>).
  \<^item> \<open>Session_Audit\<close> (\<open>audit.rs\<close>, \<open>error.rs\<close>): the recording sinks; a recording cut at any byte reads
    back as a prefix of its records.
  \<^item> \<open>Session_Actor\<close> (\<open>session.rs\<close>): the actor as a record and one function per method. What it calls
    is an \<open>actor_env\<close> whose answers may depend on the history of calls; the history is part of the
    state, so that properties can speak about the order of effects. One turn of the event loop is
    \<open>loop_step\<close>, a session is \<open>run_session\<close> over an arbitrary list of turns: commands, timer ticks and
    engine events in any interleaving.
  \<^item> \<open>Actor_Limits\<close>, \<open>Actor_Recording\<close>, \<open>Actor_Effects\<close>, \<open>Actor_Properties\<close>: the invariants behind
    and the properties of the actor: limits on what a client can make it hold, recording before
    delivery, failing closed, moderation of every input, isolation of guests, delivery of pastes,
    teardown. \<open>Actor_Effects\<close> states invariants of the history as a locale with two interpretations.
  \<^item> \<open>Session_Manager\<close> (\<open>manager.rs\<close>, \<open>routing.rs\<close>): edge admission, registry and routing.

  \<^bold>\<open>Public edge\<close> (\<open>crates/strata-dmz/src\<close>).
  \<^item> \<open>Rust_Text\<close>, \<open>Http_Headers\<close>, \<open>Ip_Network\<close>: string and address operations of the standard library, the
    header map of the http crate as a parameter with its laws, prefixes of addresses over words.
  \<^item> \<open>Edge_Signer\<close> (\<open>edge_signer.rs\<close>): which address is signed as the client's, what is stripped, what is signed.
  \<^item> \<open>Rate_Limiter\<close> (\<open>limits.rs\<close>), \<open>Body_Caps\<close> (\<open>body_caps.rs\<close>): the number of requests an address gets in any
    stretch of time, whatever came before, and the lookup of a cap as longest-prefix match.
  \<^item> \<open>Dmz_Proxy\<close> (\<open>proxy.rs\<close>, \<open>ws_proxy.rs\<close>, \<open>link_server/registry.rs\<close>): the choice of a link with
    eviction, forwarding of requests, the body pump with its cap.

  \<^bold>\<open>Backend\<close> (\<open>backend/src\<close>).
  \<^item> \<open>Edge_Verify\<close> (\<open>services/edge_header.rs\<close>, \<open>services/client_ip.rs\<close>): the node's side of the signed headers; together
    with \<open>Edge_Signer\<close>, the address the edge resolved is the one the node attributes, and no unsigned header survives.
  \<^item> \<open>Admission\<close> (\<open>services/admission.rs\<close>): the memory ledger; its invariant over interleaved admissions and
    releases, and refinement of a specification that only has the set of open sessions.
  \<^item> \<open>Refresh_Tokens\<close>, \<open>Token_Revocation\<close>, \<open>Tunnel_Tickets\<close> (\<open>services/\<close>): single use, reuse detection, finality
    of revocation over sequences of operations.
  \<^item> \<open>Idempotency\<close>, \<open>Retry\<close>, \<open>Circuit_Breaker\<close>, \<open>App_Error\<close>: request-level infrastructure of the routes.
  \<^item> \<open>Co_Pilot\<close> (\<open>services/co_pilot.rs\<close>, \<open>services/co_pilot/room.rs\<close>): shared sessions: roster, names, the input token.
  \<^item> \<open>Password_Policy\<close>, \<open>Ad_Reset\<close>, \<open>Checkouts\<close> (\<open>services/checkouts.rs\<close>) and \<open>Checkout_Routes\<close> (\<open>routes/user.rs\<close>): lending of
    directory passwords: generation, the reset in the directory, requests, approvals, activation, check-in, expiry and
    rotation as functions on one record of tables. \<open>Checkout_Safety\<close> cuts the operations at every await and interleaves
    them with time-outs and crashes; \<open>Checkout_Properties\<close> shows over the states of a run that an account has one holder at
    most, that each check-out goes back to a step of that run that had the authority for it and that an activation does not lose
    the password it set, and what a late decision and a retried activation leave behind.
  \<^item> \<open>File_Crypto\<close> (\<open>services/file_crypto.rs\<close>): encrypted staged files; whatever the length, an encrypted file decrypts to what
    went in, and a file that was changed, cut, extended or swapped is refused by the check before a download and ends
    the stream with an error.
  \<^item> \<open>Audit_Chain\<close>, \<open>Audit_Properties\<close>, \<open>Audit_Runs\<close> (\<open>services/audit_verify.rs\<close>, \<open>migrations/098_audit_chain_v2.sql\<close>): the
    chained audit log and its verifier: a change to a covered row raises an alarm or is a collision of the hash, an honest
    history raises none however appends and runs alternate, as long as the anchor file can be read and no append tears a line;
    torn lines and two overlapping runs can raise a false one.
  \<^item> \<open>Oidc\<close> (\<open>services/auth.rs\<close>) and \<open>Auth_Gate\<close> (\<open>services/middleware.rs\<close>, the layers of \<open>routes/mod.rs\<close>): what a request passes before a
    handler sees it: token validation with the caches of the identity provider's keys and how often they are fetched, the
    CSRF check, the origin of web sockets, permissions.
  \<^item> \<open>User_Admin\<close> (\<open>services/{users,roles,user_cleanup}.rs\<close>, the user and role handlers of \<open>routes/admin.rs\<close>): accounts and roles; what
    an administrator without the system permission can reach, and which operations keep a system administrator and which do not.
  \<^item> \<open>Av_Scan\<close> (\<open>services/av.rs\<close>): the malware scanner; nothing unscanned passes in the blocking mode.
  \<^item> \<open>Outbound_Shares\<close> (\<open>services/outbound_shares.rs\<close>, \<open>services/outbound_share_ingest.rs\<close>), \<open>Share_Routes\<close>
    (\<open>routes/outbound_shares.rs\<close>, \<open>services/transfer_gate.rs\<close>): files that leave a session, on one record of tables and
    files. \<open>Share_Uploads\<close> says what a submission leaves behind on each way out; \<open>Share_Safety\<close> interleaves the handlers, with
    crashes after a transaction, and shows that a file is released once, to whom it belongs, after an approval and
    unchanged (on top of \<open>File_Crypto\<close>), that a failed upload leaves nothing and that the purge erases, as far as the file
    system lets files be removed: every removal may fail, and the code goes on when it does.
  \<^item> \<open>File_Store\<close>, \<open>File_Bounds\<close> (\<open>services/file_store.rs\<close>) and \<open>File_Routes\<close> (\<open>routes/files.rs\<close>): files handed into a session. The
    store keeps its limits in every order of uploads, deletions, expiry and clean-up, with uploads split where the lock is given up;
    a clean-up takes the files of its session, from the index and from the directory, and no others. Dropped and late uploads and
    other spellings of a session id are the exceptions the code has; directories may refuse to be removed.
  \<^item> \<open>Session_Registry\<close> (\<open>services/session_registry.rs\<close>, \<open>routes/share.rs\<close>): the live sessions and the replay buffers, which live as long as
    the registry, a tunnel or a viewer holds them: that the shared budget counts exactly the live ones and each is bounded, that no
    instruction named connect or args is kept, and what a viewer who joins late is sent of what was drawn.

  \<^bold>\<open>Not modelled.\<close> The protocol engines and TLS of \<open>strata-session\<close>, the sockets and TLS listeners of
  \<open>strata-dmz\<close>, most HTTP routes, database, vault and directory services of \<open>backend\<close>, the frontend and the
  vendored crates. Log lines, metrics, queue capacities and the rounding of floating-point token counts
  are left out; the select loop's fairness is not assumed. Instants are nanoseconds, and the teardown
  steps' time limits are outcomes of the environment. A database table is a list of rows, and a statement or a
  transaction one step on it.

  \<^bold>\<open>Extending it.\<close> What is left of \<open>backend\<close> is mainly routes that pass one statement to the database, vault or directory
  and map its answer; recordings, directory synchronisation and the link supervisor are the parts with logic of their own.
\<close>

end
